(* ===== verification/Prelude.thy ===== *)
theory Prelude
  imports
    Complex_Main
    "HOL-Library.AList"
    "HOL-Library.Char_ord"
    "HOL-Library.List_Lexorder"
    "HOL-Library.Product_Lexorder"
begin

text \<open>
  Shared vocabulary of the development.

  \<^item> Python exceptions are values of \<open>err\<close>; a fallible operation returns \<open>err + 'a\<close>, and
    \<open>rbind\<close> sequences two of them the way an uncaught exception would.
  \<^item> A Python \<open>dict\<close> is an association list with distinct keys in insertion order:
    \<open>AList.update\<close> overwrites in place or appends at the end, exactly as \<open>d[k] = v\<close>
    does, and \<open>AList.delete\<close> is \<open>d.pop(k, None)\<close>. \<open>dmap_on\<close> is a loop that rewrites the
    values stored under the keys of a set.
  \<^item> A Python \<open>float\<close> is a \<^typ>\<open>real\<close> (rounding is not modelled); a float that may be
    \<open>math.inf\<close> is an \<open>xreal\<close>.
  \<^item> \<open>str\<close> is \<^typ>\<open>string\<close>, ordered lexicographically as Python orders it.
\<close>

section \<open>Exceptions as values\<close>

datatype err =
    ValueError string
  | KeyError string
  | TypeError string
  | AssertionError string
  | RuntimeError string
  | PageIndexError string
  | CausalGraphError string
  | NonTermination string

text \<open>\<open>NonTermination\<close> is not an exception: it is the outcome of a loop without a guard that comes
  back to a state it has been in, and so never ends. No handler of the sources catches it.\<close>

type_synonym 'a result = "err + 'a"

definition rbind :: "'a result \<Rightarrow> ('a \<Rightarrow> 'b result) \<Rightarrow> 'b result" where
  "rbind r f = (case r of Inl e \<Rightarrow> Inl e | Inr x \<Rightarrow> f x)"

text \<open>A list comprehension whose body may raise stops at the first error.\<close>

fun rmap :: "('a \<Rightarrow> 'b result) \<Rightarrow> 'a list \<Rightarrow> 'b list result" where
  "rmap f [] = Inr []"
| "rmap f (x # xs) = rbind (f x) (\<lambda>y. rbind (rmap f xs) (\<lambda>ys. Inr (y # ys)))"

text \<open>A loop whose body threads a state and may raise.\<close>

fun rfold :: "('a \<Rightarrow> 's \<Rightarrow> 's result) \<Rightarrow> 'a list \<Rightarrow> 's \<Rightarrow> 's result" where
  "rfold f [] s = Inr s"
| "rfold f (x # xs) s = rbind (f x s) (rfold f xs)"

section \<open>Dictionaries\<close>

type_synonym ('k, 'v) dict = "('k \<times> 'v) list"

abbreviation dict_ok :: "('k, 'v) dict \<Rightarrow> bool" where
  "dict_ok d \<equiv> distinct (map fst d)"

definition dict_get :: "('k, 'v) dict \<Rightarrow> 'k \<Rightarrow> 'v \<Rightarrow> 'v" where
  "dict_get d k dflt = (case map_of d k of None \<Rightarrow> dflt | Some v \<Rightarrow> v)"

definition dict_in :: "'k \<Rightarrow> ('k, 'v) dict \<Rightarrow> bool" where
  "dict_in k d = (map_of d k \<noteq> None)"

text \<open>\<open>d[k]\<close>, which raises \<open>KeyError\<close> for a missing key.\<close>

definition dict_item :: "('k, 'v) dict \<Rightarrow> 'k \<Rightarrow> string \<Rightarrow> 'v result" where
  "dict_item d k what = (case map_of d k of None \<Rightarrow> Inl (KeyError what) | Some v \<Rightarrow> Inr v)"

text \<open>\<open>for k in ks: d[k] = f(d[k])\<close> for the present keys among \<open>ks\<close>.\<close>

definition dmap_on :: "'k set \<Rightarrow> ('v \<Rightarrow> 'v) \<Rightarrow> ('k, 'v) dict \<Rightarrow> ('k, 'v) dict" where
  "dmap_on ks f d = map (\<lambda>(k, v). (k, if k \<in> ks then f v else v)) d"

section \<open>Numbers, identifiers, sorting\<close>

text \<open>A value of type \<open>Any\<close> or \<open>object\<close>: what the sources put into attribute dictionaries,
  metadata and comparison keys.\<close>

datatype py_value =
    PNone
  | PBool bool
  | PInt int
  | PFloat real
  | PStr string
  | PTuple "py_value list"
  | PList "py_value list"
  | PDict "(string \<times> py_value) list"

text \<open>\<open>bool(x)\<close>.\<close>

fun py_bool :: "py_value \<Rightarrow> bool" where
  "py_bool PNone = False"
| "py_bool (PBool b) = b"
| "py_bool (PInt i) = (i \<noteq> 0)"
| "py_bool (PFloat r) = (r \<noteq> 0)"
| "py_bool (PStr s) = (s \<noteq> [])"
| "py_bool (PTuple vs) = (vs \<noteq> [])"
| "py_bool (PList vs) = (vs \<noteq> [])"
| "py_bool (PDict d) = (d \<noteq> [])"

datatype xreal = Fin real | PosInf

instantiation xreal :: linorder
begin

fun less_eq_xreal :: "xreal \<Rightarrow> xreal \<Rightarrow> bool" where
  "less_eq_xreal _ PosInf = True"
| "less_eq_xreal PosInf (Fin _) = False"
| "less_eq_xreal (Fin a) (Fin b) = (a \<le> b)"

definition less_xreal :: "xreal \<Rightarrow> xreal \<Rightarrow> bool" where
  "less_xreal a b = (a \<le> b \<and> \<not> b \<le> a)"

instance
proof
  fix x y z :: xreal
  show "(x < y) = (x \<le> y \<and> \<not> y \<le> x)" by (simp add: less_xreal_def)
  show "x \<le> x" by (cases x) auto
  show "x \<le> y \<Longrightarrow> y \<le> z \<Longrightarrow> x \<le> z" by (cases x; cases y; cases z) auto
  show "x \<le> y \<Longrightarrow> y \<le> x \<Longrightarrow> x = y" by (cases x; cases y) auto
  show "x \<le> y \<or> y \<le> x" by (cases x; cases y) auto
qed

end

text \<open>\<open>str.strip()\<close> leaves nothing exactly when every character is white space.\<close>

definition py_isspace :: "char \<Rightarrow> bool" where
  "py_isspace c = (of_char c \<in> {9, 10, 11, 12, 13, 28, 29, 30, 31, 32, 133, 160 :: nat})"

definition py_blank :: "string \<Rightarrow> bool" where
  "py_blank s = list_all py_isspace s"

text \<open>\<open>tuple(sorted(set(xs)))\<close>.\<close>

definition py_sorted_set :: "'a::linorder list \<Rightarrow> 'a list" where
  "py_sorted_set xs = sort (remdups xs)"

text \<open>\<open>str(n)\<close> for an integer, as f-strings insert it.\<close>

definition digit_char :: "nat \<Rightarrow> char" where
  "digit_char n = char_of (48 + n)"

fun str_nat :: "nat \<Rightarrow> string" where
  "str_nat n = (if n < 10 then [digit_char n] else str_nat (n div 10) @ [digit_char (n mod 10)])"

declare str_nat.simps [simp del]

definition str_int :: "int \<Rightarrow> string" where
  "str_int i = (if i < 0 then CHR ''-'' # str_nat (nat (- i)) else str_nat (nat i))"

definition parse_nat :: "string \<Rightarrow> nat" where
  "parse_nat = foldl (\<lambda>n c. n * 10 + (of_char c - 48)) 0"

section \<open>State machines\<close>

text \<open>A step relation with an invariant that every step keeps: the invariant holds along every
  run. Each component interprets this locale on its own step relation.\<close>

locale invariant_machine =
  fixes step :: "'s \<Rightarrow> 's \<Rightarrow> bool"
    and inv :: "'s \<Rightarrow> bool"
  assumes step_inv: "step s t \<Longrightarrow> inv s \<Longrightarrow> inv t"
begin

lemma run_inv: "rtranclp step s t \<Longrightarrow> inv s \<Longrightarrow> inv t"
  by (induction rule: rtranclp_induct) (auto intro: step_inv)

end

text \<open>With a quantity that no step decreases, the quantity is monotone along runs.\<close>

locale monotone_machine = invariant_machine step inv
  for step :: "'s \<Rightarrow> 's \<Rightarrow> bool" and inv :: "'s \<Rightarrow> bool" +
  fixes level :: "'s \<Rightarrow> 'l::preorder"
  assumes step_mono: "step s t \<Longrightarrow> inv s \<Longrightarrow> level s \<le> level t"
begin

lemma run_mono: "rtranclp step s t \<Longrightarrow> inv s \<Longrightarrow> level s \<le> level t"
proof (induction rule: rtranclp_induct)
  case (step t u)
  then have "level t \<le> level u" by (blast intro: step_mono run_inv)
  with step show ?case by (blast intro: order_trans)
qed simp

end

section \<open>Shared lemmas\<close>

named_theorems dict_simps \<open>lookups in updated dictionaries\<close>
named_theorems result_simps \<open>successful results of sequenced operations\<close>

lemma rbind_simps [simp]:
  "rbind (Inl e) f = Inl e"
  "rbind (Inr x) f = f x"
  by (simp_all add: rbind_def)

lemma rbind_eq_Inr [result_simps]:
  "rbind r f = Inr y \<longleftrightarrow> (\<exists>x. r = Inr x \<and> f x = Inr y)"
  by (cases r) auto

lemma guard_Inr: "(if b then Inl e else r) = Inr x \<longleftrightarrow> \<not> b \<and> r = Inr x"
  by simp

lemma rbind_eq_InrE [elim!]:
  assumes "rbind r f = Inr y"
  obtains x where "r = Inr x" and "f x = Inr y"
  using assms by (cases r) auto

lemma rbind_cong [fundef_cong]:
  "r = r' \<Longrightarrow> (\<And>x. r' = Inr x \<Longrightarrow> f x = f' x) \<Longrightarrow> rbind r f = rbind r' f'"
  by (cases r') auto

text \<open>An invariant kept by the body of a fallible loop is kept by the loop.\<close>

lemma rfold_invariant:
  assumes "rfold f xs s = Inr t" and "P s"
    and "\<And>x s t. x \<in> set xs \<Longrightarrow> P s \<Longrightarrow> f x s = Inr t \<Longrightarrow> P t"
  shows "P t"
  using assms by (induction xs arbitrary: s) auto

lemma rmap_total: "(\<And>x. x \<in> set xs \<Longrightarrow> f x = Inr (g x)) \<Longrightarrow> rmap f xs = Inr (map g xs)"
  by (induction xs) simp_all

lemma rmap_Inr_length: "rmap f xs = Inr ys \<Longrightarrow> length ys = length xs"
  by (induction xs arbitrary: ys) auto

lemma rmap_mem:
  "rmap f xs = Inr ys \<Longrightarrow> y \<in> set ys \<Longrightarrow> \<exists>x \<in> set xs. f x = Inr y"
  by (induction xs arbitrary: ys) auto

lemma rmap_Inr_each: "rmap f xs = Inr ys \<Longrightarrow> x \<in> set xs \<Longrightarrow> \<exists>y. f x = Inr y"
  by (induction xs arbitrary: ys) auto

lemma rfold_unit: "rfold f xs u = Inr v \<longleftrightarrow> (\<forall>x \<in> set xs. f x () = Inr ())"
  by (induction xs arbitrary: u) (auto simp: rbind_eq_Inr)

lemma rfold_unit_error:
  assumes "\<And>x. x \<in> set xs \<Longrightarrow> f x () = Inr () \<or> f x () = Inl e" and "\<exists>x \<in> set xs. f x () = Inl e"
  shows "rfold f xs () = Inl e"
  using assms
proof (induction xs)
  case (Cons a xs)
  then show ?case by (cases "f a () = Inl e") (use Cons.prems(1) [of a] in auto)
qed simp

lemma map_of_update [dict_simps]: "map_of (AList.update k v d) = (map_of d)(k \<mapsto> v)"
  by (rule update_conv')

lemma map_of_delete [dict_simps]: "map_of (AList.delete k d) = (map_of d)(k := None)"
  by (rule delete_conv')

lemma map_of_dmap_on [dict_simps]:
  "map_of (dmap_on ks f d) k = (if k \<in> ks then map_option f (map_of d k) else map_of d k)"
  by (induction d) (auto simp: dmap_on_def)

lemma keys_dmap_on [simp]: "map fst (dmap_on ks f d) = map fst d"
  by (simp add: dmap_on_def case_prod_unfold)

lemma key_set_dmap_on [simp]: "fst ` set (dmap_on ks f d) = fst ` set d"
  by (metis keys_dmap_on set_map)

lemma dict_in_iff [dict_simps]: "dict_in k d \<longleftrightarrow> k \<in> fst ` set d"
  by (simp add: dict_in_def map_of_eq_None_iff)

lemma update_fresh: "k \<notin> fst ` set d \<Longrightarrow> AList.update k v d = d @ [(k, v)]"
  by (induction d) auto

lemma dict_ok_update [simp]: "dict_ok d \<Longrightarrow> dict_ok (AList.update k v d)"
  by (rule distinct_update)

lemma dict_ok_delete [simp]: "dict_ok d \<Longrightarrow> dict_ok (AList.delete k d)"
  by (rule distinct_delete)

lemma keys_update [simp]: "fst ` set (AList.update k v d) = insert k (fst ` set d)"
  using dom_update [of k v d] by (simp add: dom_map_of_conv_image_fst)

lemma keys_delete [simp]: "fst ` set (AList.delete k d) = fst ` set d - {k}"
  using dom_map_of_conv_image_fst [of "AList.delete k d"] dom_map_of_conv_image_fst [of d]
  by (auto simp: map_of_delete)

lemma dict_item_eq_Inr [result_simps]: "dict_item d k w = Inr v \<longleftrightarrow> map_of d k = Some v"
  by (simp add: dict_item_def split: option.splits)

lemma dict_key: "map_of d k = Some v \<Longrightarrow> k \<in> fst ` set d"
  by (metis domI dom_map_of_conv_image_fst)

lemma dict_get_Some [simp]: "map_of d k = Some v \<Longrightarrow> dict_get d k x = v"
  by (simp add: dict_get_def)

lemma dict_get_None [simp]: "map_of d k = None \<Longrightarrow> dict_get d k x = x"
  by (simp add: dict_get_def)

lemma dict_get_update [dict_simps]:
  "dict_get (AList.update k v d) k' x = (if k' = k then v else dict_get d k' x)"
  by (simp add: dict_get_def map_of_update)

lemma dict_mem_iff: "dict_ok d \<Longrightarrow> (k, v) \<in> set d \<longleftrightarrow> map_of d k = Some v"
  by (simp add: map_of_eq_Some_iff)

lemma set_py_sorted_set [simp]: "set (py_sorted_set xs) = set xs"
  by (simp add: py_sorted_set_def)

lemma distinct_py_sorted_set [simp]: "distinct (py_sorted_set xs)"
  by (simp add: py_sorted_set_def)

lemma sorted_py_sorted_set [simp]: "sorted (py_sorted_set xs)"
  by (simp add: py_sorted_set_def)

lemma py_sorted_set_idem: "py_sorted_set (py_sorted_set xs) = py_sorted_set xs"
  by (simp add: py_sorted_set_def sort_key_id_if_sorted distinct_remdups_id)

lemma of_digit_char: "n < 10 \<Longrightarrow> of_char (digit_char n) = 48 + n"
  by (simp add: digit_char_def)

lemma parse_str_nat: "parse_nat (str_nat n) = n"
proof (induction n rule: str_nat.induct)
  case (1 n)
  then show ?case
    by (subst str_nat.simps) (auto simp: parse_nat_def of_digit_char)
qed

lemma str_int_inject: "0 \<le> i \<Longrightarrow> 0 \<le> j \<Longrightarrow> str_int i = str_int j \<longleftrightarrow> i = j"
  by (metis nat_eq_iff2 not_less parse_str_nat str_int_def)

end
