(* ===== verification/Protocol.thy ===== *)
theory Protocol
  imports Prelude
begin

text \<open>
  The command and acknowledgement protocol between the control plane and the serving engine
  (\<open>beliefkv/runtime/protocol.py\<close>): page handles with their total order, the enumerations,
  and every message record with the validation its \<open>__post_init__\<close> performs. A frozen
  dataclass is a record and a \<open>*_post_init\<close> function that returns the (normalised) record
  or the \<open>ValueError\<close> the constructor raises.
\<close>

section \<open>Page handles\<close>

datatype page_handle = PageHandle (page_id: int) (allocation_generation: int)

definition page_handle_post_init :: "page_handle \<Rightarrow> page_handle result" where
  "page_handle_post_init h =
     (if page_id h < 0 then Inl (ValueError ''page_id must be non-negative'')
      else if allocation_generation h < 0
      then Inl (ValueError ''allocation_generation must be non-negative'')
      else Inr h)"

text \<open>\<open>order=True\<close>: handles compare as the pair of their fields.\<close>

instantiation page_handle :: linorder
begin

definition less_eq_page_handle :: "page_handle \<Rightarrow> page_handle \<Rightarrow> bool" where
  "less_eq_page_handle a b =
     (page_id a < page_id b \<or>
      page_id a = page_id b \<and> allocation_generation a \<le> allocation_generation b)"

definition less_page_handle :: "page_handle \<Rightarrow> page_handle \<Rightarrow> bool" where
  "less_page_handle a b =
     (page_id a < page_id b \<or>
      page_id a = page_id b \<and> allocation_generation a < allocation_generation b)"

instance
  by standard
    (auto simp: less_eq_page_handle_def less_page_handle_def page_handle.expand)

end

section \<open>Enumerations\<close>

datatype physical_residency =
  GPU_ONLY | MIRRORING | DUAL_CLEAN | CPU_ONLY | PREFETCHING | DEAD

datatype transfer_direction = D2H | H2D

datatype command_kind =
    ADMIT_REQUEST | DEFER_REQUEST | OFFLOAD_CONTEXT | DROP_CONTEXT | SHADOW_CONTEXT
  | PREFETCH_CONTEXT | DROP_UNOWNED | DROP_TERMINAL_PRIVATE | PIN_CONTEXT | UNPIN_CONTEXT
  | SET_WORKFLOW_BUDGET

datatype command_queue_class = URGENT | SHADOW

datatype command_status = COMPLETED | PARTIAL | REJECTED | STALE | CMD_CANCELLED

datatype enqueue_status =
  ENQUEUED | ADOPT_EXISTING | RETRY_GUARD_BLOCKED | CONTEXT_CONFLICT | STALE_CERTIFICATE

datatype transfer_blocker_code =
    ANCESTOR_CLOSURE | DESCENDANT_CLOSURE | DEVICE_CAPACITY | HOST_CAPACITY | ENGINE_BUSY
  | NODE_LOCKED | NODE_LOADING | INFLIGHT | SEMANTIC_PIN | UNSEALED | STALE_GENERATION
  | EXTENT_MUTATED | UNKNOWN_BACKEND

datatype physical_page_action =
  START_D2H | COMMIT_CPU | START_H2D | DROP | DROP_HOST | PIN | UNPIN

text \<open>The \<open>value\<close> strings of the blocker codes, which the sources sort by.\<close>

fun transfer_blocker_code_value :: "transfer_blocker_code \<Rightarrow> string" where
  "transfer_blocker_code_value ANCESTOR_CLOSURE = ''ancestor_closure''"
| "transfer_blocker_code_value DESCENDANT_CLOSURE = ''descendant_closure''"
| "transfer_blocker_code_value DEVICE_CAPACITY = ''device_capacity''"
| "transfer_blocker_code_value HOST_CAPACITY = ''host_capacity''"
| "transfer_blocker_code_value ENGINE_BUSY = ''engine_busy''"
| "transfer_blocker_code_value NODE_LOCKED = ''node_locked''"
| "transfer_blocker_code_value NODE_LOADING = ''node_loading''"
| "transfer_blocker_code_value INFLIGHT = ''inflight''"
| "transfer_blocker_code_value SEMANTIC_PIN = ''semantic_pin''"
| "transfer_blocker_code_value UNSEALED = ''unsealed''"
| "transfer_blocker_code_value STALE_GENERATION = ''stale_generation''"
| "transfer_blocker_code_value EXTENT_MUTATED = ''extent_mutated''"
| "transfer_blocker_code_value UNKNOWN_BACKEND = ''unknown_backend''"

section \<open>Enqueue outcomes\<close>

record enqueue_outcome =
  eo_status :: enqueue_status
  eo_canonical_command_id :: "string option"
  eo_attempt_key :: "py_value list"
  eo_blocker_codes :: "string list"
  eo_wake_conditions :: "string list"

definition enqueue_outcome_accepted :: "enqueue_outcome \<Rightarrow> bool" where
  "enqueue_outcome_accepted o' = (eo_status o' \<in> {ENQUEUED, ADOPT_EXISTING})"

definition enqueue_outcome_post_init :: "enqueue_outcome \<Rightarrow> enqueue_outcome result" where
  "enqueue_outcome_post_init o' =
     (if eo_status o' \<in> {ENQUEUED, ADOPT_EXISTING}
         \<and> eo_canonical_command_id o' \<in> {None, Some []}
      then Inl (ValueError ''accepted enqueue outcome requires a canonical command'')
      else Inr (o'\<lparr>eo_blocker_codes := py_sorted_set (eo_blocker_codes o'),
                   eo_wake_conditions := py_sorted_set (eo_wake_conditions o')\<rparr>))"

section \<open>Commands, bundles and acknowledgements\<close>

record resolved_page_action =
  rpa_handle :: page_handle
  rpa_action :: physical_page_action
  rpa_size_bytes :: int

definition resolved_page_action_post_init ::
  "resolved_page_action \<Rightarrow> resolved_page_action result" where
  "resolved_page_action_post_init a =
     (if rpa_size_bytes a \<le> 0
      then Inl (ValueError ''resolved page action size must be positive'')
      else Inr a)"

record physical_bundle_intent =
  pbi_bundle_id :: string
  pbi_closure_handles :: "page_handle list"
  pbi_page_actions :: "resolved_page_action list"
  pbi_generation_fingerprint :: string
  pbi_closure_bytes :: int
  pbi_expected_reclaimable_bytes :: int
  pbi_locked_bytes :: int

definition physical_bundle_intent_post_init ::
  "physical_bundle_intent \<Rightarrow> physical_bundle_intent result" where
  "physical_bundle_intent_post_init b =
     (let action_handles = map rpa_handle (pbi_page_actions b) in
      if pbi_bundle_id b = [] \<or> pbi_generation_fingerprint b = []
      then Inl (ValueError ''physical bundle identity and fingerprint are required'')
      else if pbi_closure_bytes b < 0 \<or> pbi_expected_reclaimable_bytes b < 0
      then Inl (ValueError ''physical bundle byte counts must be non-negative'')
      else if pbi_locked_bytes b < 0
      then Inl (ValueError ''physical bundle locked bytes must be non-negative'')
      else if \<not> distinct (pbi_closure_handles b)
      then Inl (ValueError ''physical bundle closure handles must be unique'')
      else if \<not> distinct action_handles
      then Inl (ValueError ''physical bundle action handles must be unique'')
      else if \<not> set action_handles \<subseteq> set (pbi_closure_handles b)
      then Inl (ValueError ''physical bundle actions must belong to its closure'')
      else if sum_list (map rpa_size_bytes (pbi_page_actions b)) \<noteq> pbi_closure_bytes b
      then Inl (ValueError ''physical bundle closure bytes must equal action bytes'')
      else Inr b)"

record control_command =
  cc_command_id :: string
  cc_kind :: command_kind
  cc_created_ts_ms :: real
  cc_context_id :: "string option"
  cc_context_epoch :: "int option"
  cc_target_bytes :: int
  cc_priority :: real
  cc_deadline_ms :: xreal
  cc_queue_class :: command_queue_class
  cc_metadata :: "(string, py_value) dict"
  cc_physical_bundle :: "physical_bundle_intent option"
  cc_target_handles :: "page_handle list"

definition control_command_post_init :: "control_command \<Rightarrow> control_command result" where
  "control_command_post_init c =
     (if cc_command_id c = [] then Inl (ValueError ''command_id must be non-empty'')
      else if cc_created_ts_ms c < 0
      then Inl (ValueError ''created_ts_ms must be non-negative'')
      else if cc_target_bytes c < 0
      then Inl (ValueError ''target_bytes must be non-negative'')
      else if (case cc_context_epoch c of None \<Rightarrow> False | Some e \<Rightarrow> e < 0)
      then Inl (ValueError ''context_epoch must be non-negative'')
      else if \<not> distinct (cc_target_handles c)
      then Inl (ValueError ''target_handles must be unique'')
      else Inr c)"

record transfer_blocker =
  tb_code :: transfer_blocker_code
  tb_page_handle :: "page_handle option"
  tb_required_bytes :: int
  tb_detail :: string

definition transfer_blocker_post_init :: "transfer_blocker \<Rightarrow> transfer_blocker result" where
  "transfer_blocker_post_init b =
     (if tb_required_bytes b < 0
      then Inl (ValueError ''required_bytes must be non-negative'') else Inr b)"

record resolved_command =
  rc_command :: control_command
  rc_page_actions :: "resolved_page_action list"
  rc_resolved_bytes :: int
  rc_reason :: string
  rc_blockers :: "transfer_blocker list"
  rc_closure_fingerprint :: string

record command_ack =
  ack_command_id :: string
  ack_status :: command_status
  ack_completed_ts_ms :: real
  ack_actual_bytes :: int
  ack_page_handles :: "page_handle list"
  ack_reason :: string
  ack_blockers :: "transfer_blocker list"

definition command_ack_post_init :: "command_ack \<Rightarrow> command_ack result" where
  "command_ack_post_init a =
     (if ack_actual_bytes a < 0 then Inl (ValueError ''actual_bytes must be non-negative'')
      else Inr a)"

section \<open>Transfer telemetry\<close>

record transfer_telemetry =
  tt_command_id :: string
  tt_submit_ts_ms :: real
  tt_start_ts_ms :: "real option"
  tt_first_layer_ready_ts_ms :: "real option"
  tt_complete_ts_ms :: real
  tt_compute_wait_ms :: "real option"
  tt_actual_bytes :: int
  tt_closure_bytes :: int
  tt_merged_operation_count :: int
  tt_direction :: transfer_direction
  tt_source_tier :: string
  tt_target_tier :: string
  tt_status :: command_status
  tt_reason :: string
  tt_page_count :: int
  tt_context_id :: "string option"
  tt_context_epoch :: "int option"
  tt_command_kind :: string
  tt_compute_phase :: string
  tt_host_copy_state :: string
  tt_pinned_host :: "bool option"
  tt_native_concurrent_bytes :: int
  tt_allocator_wait_ms :: "real option"
  tt_allocator_submit_ms :: "real option"
  tt_callback_overhead_ms :: "real option"
  tt_start_timestamp_semantics :: string
  tt_extent_count :: int
  tt_extent_bytes_min :: int
  tt_extent_bytes_p50 :: int
  tt_extent_bytes_max :: int
  tt_small_extent_ratio :: real
  tt_small_extent_threshold_bytes :: int

definition opt_negative :: "real option \<Rightarrow> bool" where
  "opt_negative v = (case v of None \<Rightarrow> False | Some x \<Rightarrow> x < 0)"

text \<open>\<open>lower = self.start_ts_ms or self.submit_ts_ms\<close>: a start time of \<open>0.0\<close> is falsy.\<close>

definition telemetry_lower :: "transfer_telemetry \<Rightarrow> real" where
  "telemetry_lower t =
     (case tt_start_ts_ms t of
        Some s \<Rightarrow> if s \<noteq> 0 then s else tt_submit_ts_ms t
      | None \<Rightarrow> tt_submit_ts_ms t)"

definition transfer_telemetry_post_init ::
  "transfer_telemetry \<Rightarrow> transfer_telemetry result" where
  "transfer_telemetry_post_init t =
     (if tt_command_id t = [] then Inl (ValueError ''command_id must be non-empty'')
      else if tt_submit_ts_ms t < 0 \<or> tt_complete_ts_ms t < 0
      then Inl (ValueError ''transfer timestamps must be non-negative'')
      else if tt_complete_ts_ms t < tt_submit_ts_ms t
      then Inl (ValueError ''complete_ts_ms cannot precede submit_ts_ms'')
      else if (case tt_start_ts_ms t of None \<Rightarrow> False
               | Some s \<Rightarrow> \<not> (tt_submit_ts_ms t \<le> s \<and> s \<le> tt_complete_ts_ms t))
      then Inl (ValueError ''start_ts_ms must be within the transfer interval'')
      else if (case tt_first_layer_ready_ts_ms t of None \<Rightarrow> False
               | Some r \<Rightarrow> \<not> (telemetry_lower t \<le> r \<and> r \<le> tt_complete_ts_ms t))
      then Inl (ValueError ''first_layer_ready_ts_ms must be within the transfer interval'')
      else if opt_negative (tt_compute_wait_ms t)
      then Inl (ValueError ''compute_wait_ms must be non-negative when observed'')
      else if opt_negative (tt_allocator_wait_ms t)
      then Inl (ValueError ''allocator_wait_ms must be non-negative when observed'')
      else if opt_negative (tt_allocator_submit_ms t)
      then Inl (ValueError ''allocator_submit_ms must be non-negative when observed'')
      else if opt_negative (tt_callback_overhead_ms t)
      then Inl (ValueError ''callback_overhead_ms must be non-negative when observed'')
      else if tt_actual_bytes t < 0 \<or> tt_closure_bytes t < 0
      then Inl (ValueError ''transfer byte counts must be non-negative'')
      else if tt_actual_bytes t > tt_closure_bytes t
      then Inl (ValueError ''actual_bytes cannot exceed selected closure_bytes'')
      else if tt_merged_operation_count t < 0 \<or> tt_page_count t < 0 \<or> tt_extent_count t < 0
      then Inl (ValueError ''operation and page counts must be non-negative'')
      else if tt_extent_bytes_min t < 0 \<or> tt_extent_bytes_p50 t < 0
           \<or> tt_extent_bytes_max t < 0 \<or> tt_small_extent_threshold_bytes t < 0
      then Inl (ValueError ''extent byte statistics must be non-negative'')
      else if \<not> (tt_extent_bytes_min t \<le> tt_extent_bytes_p50 t
                  \<and> tt_extent_bytes_p50 t \<le> tt_extent_bytes_max t)
      then Inl (ValueError ''extent byte statistics must be ordered'')
      else if \<not> (0 \<le> tt_small_extent_ratio t \<and> tt_small_extent_ratio t \<le> 1)
      then Inl (ValueError ''small_extent_ratio must be within [0, 1]'')
      else if tt_native_concurrent_bytes t < 0
      then Inl (ValueError ''native concurrent bytes must be non-negative'')
      else if tt_source_tier t = [] \<or> tt_target_tier t = []
      then Inl (ValueError ''source_tier and target_tier must be non-empty'')
      else if tt_host_copy_state t = []
      then Inl (ValueError ''host copy state must be non-empty'')
      else if tt_start_timestamp_semantics t = []
      then Inl (ValueError ''start timestamp semantics must be non-empty'')
      else if (case tt_context_epoch t of None \<Rightarrow> False | Some e \<Rightarrow> e < 0)
      then Inl (ValueError ''context_epoch must be non-negative'')
      else Inr t)"

section \<open>What validation guarantees\<close>

lemma page_handle_order_lex:
  "(a < b) = ((page_id a, allocation_generation a) < (page_id b, allocation_generation b))"
  by (auto simp: less_page_handle_def less_prod_simp)

lemma enqueue_outcome_valid:
  "enqueue_outcome_post_init o1 = Inr o2 \<Longrightarrow>
     (enqueue_outcome_accepted o2 \<longrightarrow> (\<exists>c. eo_canonical_command_id o2 = Some c \<and> c \<noteq> []))
     \<and> eo_blocker_codes o2 = py_sorted_set (eo_blocker_codes o1)
     \<and> enqueue_outcome_post_init o2 = Inr o2"
  by (cases "eo_canonical_command_id o1")
    (auto simp: enqueue_outcome_post_init_def enqueue_outcome_accepted_def
      py_sorted_set_idem split: if_splits)

text \<open>A validated bundle moves each handle of its closure at most once and no handle outside
  it, and its byte count is the sum over the handles it acts on.\<close>

lemma physical_bundle_intent_valid:
  assumes "physical_bundle_intent_post_init b = Inr b'"
  shows "b' = b"
    and "distinct (map rpa_handle (pbi_page_actions b))"
    and "rpa_handle ` set (pbi_page_actions b) \<subseteq> set (pbi_closure_handles b)"
    and "pbi_closure_bytes b = (\<Sum>a\<leftarrow>pbi_page_actions b. rpa_size_bytes a)"
    and "length (pbi_page_actions b) \<le> length (pbi_closure_handles b)"
proof -
  from assms show "b' = b" "distinct (map rpa_handle (pbi_page_actions b))"
    and sub: "rpa_handle ` set (pbi_page_actions b) \<subseteq> set (pbi_closure_handles b)"
    and "pbi_closure_bytes b = (\<Sum>a\<leftarrow>pbi_page_actions b. rpa_size_bytes a)"
    by (auto simp: physical_bundle_intent_post_init_def Let_def split: if_splits)
  have d: "distinct (map rpa_handle (pbi_page_actions b))" "distinct (pbi_closure_handles b)"
    using assms by (auto simp: physical_bundle_intent_post_init_def Let_def split: if_splits)
  have "length (map rpa_handle (pbi_page_actions b)) = card (rpa_handle ` set (pbi_page_actions b))"
    using d(1) by (metis distinct_card set_map)
  also have "\<dots> \<le> card (set (pbi_closure_handles b))"
    using sub by (intro card_mono) auto
  also have "\<dots> = length (pbi_closure_handles b)"
    using d(2) by (rule distinct_card)
  finally show "length (pbi_page_actions b) \<le> length (pbi_closure_handles b)" by simp
qed

end
