(* ===== verification/Command_Queue.thy ===== *)
theory Command_Queue
  imports Protocol "HOL-Library.Multiset"
begin

text \<open>
  The urgent/shadow command queue (\<open>beliefkv/runtime/command_queue.py\<close>).

  The two \<open>heapq\<close> heaps are kept as lists sorted by the entries' comparison key
  (deadline, negated priority, sequence number): the sequence number is unique, so the order
  in which \<open>heappop\<close> delivers the entries of a heap is exactly this list. The locale
  \<open>heap_contract\<close> states what the queue relies on from \<open>heapq\<close>.
\<close>

section \<open>State and operations\<close>

record queue_entry =
  qe_deadline_ms :: xreal
  qe_negative_priority :: real
  qe_sequence :: int
  qe_command :: control_command

definition entry_key :: "queue_entry \<Rightarrow> xreal \<times> real \<times> int" where
  "entry_key e = (qe_deadline_ms e, qe_negative_priority e, qe_sequence e)"

abbreviation entry_id :: "queue_entry \<Rightarrow> string" where
  "entry_id e \<equiv> cc_command_id (qe_command e)"

fun heappush :: "queue_entry list \<Rightarrow> queue_entry \<Rightarrow> queue_entry list" where
  "heappush [] e = [e]"
| "heappush (x # xs) e =
     (if entry_key e < entry_key x then e # x # xs else x # heappush xs e)"

fun heappop :: "queue_entry list \<Rightarrow> (queue_entry \<times> queue_entry list) option" where
  "heappop [] = None"
| "heappop (x # xs) = Some (x, xs)"

record command_queue =
  cq_urgent :: "queue_entry list"
  cq_shadow :: "queue_entry list"
  cq_sequence :: int
  cq_active_ids :: "string set"
  cq_cancelled_ids :: "string set"

definition queue_init :: command_queue where
  "queue_init = \<lparr>cq_urgent = [], cq_shadow = [], cq_sequence = 0,
                 cq_active_ids = {}, cq_cancelled_ids = {}\<rparr>"

definition queue_put :: "control_command \<Rightarrow> command_queue \<Rightarrow> command_queue result" where
  "queue_put c q =
     (if cc_command_id c \<in> cq_active_ids q then Inl (ValueError ''duplicate command id'')
      else
        let entry = \<lparr>qe_deadline_ms = cc_deadline_ms c,
                     qe_negative_priority = - cc_priority c,
                     qe_sequence = cq_sequence q, qe_command = c\<rparr>;
            q1 = q\<lparr>cq_sequence := cq_sequence q + 1\<rparr>;
            q2 = (if cc_queue_class c = URGENT
                  then q1\<lparr>cq_urgent := heappush (cq_urgent q1) entry\<rparr>
                  else q1\<lparr>cq_shadow := heappush (cq_shadow q1) entry\<rparr>)
        in Inr (q2\<lparr>cq_active_ids := insert (cc_command_id c) (cq_active_ids q2)\<rparr>))"

text \<open>\<open>_pop_valid\<close>: the \<open>while queue\<close> loop, on one heap and the two identifier sets.\<close>

fun pop_valid ::
  "queue_entry list \<Rightarrow> string set \<Rightarrow> string set \<Rightarrow>
   control_command option \<times> queue_entry list \<times> string set \<times> string set" where
  "pop_valid [] active cancelled = (None, [], active, cancelled)"
| "pop_valid (e # es) active cancelled =
     (let active' = active - {entry_id e} in
      if entry_id e \<in> cancelled
      then pop_valid es active' (cancelled - {entry_id e})
      else (Some (qe_command e), es, active', cancelled))"

definition queue_pop :: "bool \<Rightarrow> command_queue \<Rightarrow> control_command option \<times> command_queue" where
  "queue_pop allow_shadow q =
     (case pop_valid (cq_urgent q) (cq_active_ids q) (cq_cancelled_ids q) of
        (command, urgent, active, cancelled) \<Rightarrow>
          let q1 = q\<lparr>cq_urgent := urgent, cq_active_ids := active, cq_cancelled_ids := cancelled\<rparr>
          in if command \<noteq> None then (command, q1)
             else if allow_shadow then
               (case pop_valid (cq_shadow q1) (cq_active_ids q1) (cq_cancelled_ids q1) of
                  (command', shadow, active', cancelled') \<Rightarrow>
                    (command', q1\<lparr>cq_shadow := shadow, cq_active_ids := active',
                                  cq_cancelled_ids := cancelled'\<rparr>))
             else (None, q1))"

definition queue_cancel :: "string \<Rightarrow> command_queue \<Rightarrow> bool \<times> command_queue" where
  "queue_cancel cid q =
     (if cid \<notin> cq_active_ids q then (False, q)
      else (True, q\<lparr>cq_cancelled_ids := insert cid (cq_cancelled_ids q),
                    cq_active_ids := cq_active_ids q - {cid}\<rparr>))"

definition entry_live :: "command_queue \<Rightarrow> queue_entry \<Rightarrow> bool" where
  "entry_live q e = (entry_id e \<notin> cq_cancelled_ids q)"

definition queue_urgent_count :: "command_queue \<Rightarrow> nat" where
  "queue_urgent_count q = length (filter (entry_live q) (cq_urgent q))"

definition queue_shadow_count :: "command_queue \<Rightarrow> nat" where
  "queue_shadow_count q = length (filter (entry_live q) (cq_shadow q))"

definition queue_len :: "command_queue \<Rightarrow> nat" where
  "queue_len q = queue_urgent_count q + queue_shadow_count q"

definition queue_pending_commands :: "command_queue \<Rightarrow> control_command list" where
  "queue_pending_commands q =
     (let entries = map (Pair (0::int)) (filter (entry_live q) (cq_urgent q))
                  @ map (Pair 1) (filter (entry_live q) (cq_shadow q))
      in map (qe_command \<circ> snd) (sort_key (\<lambda>(c, e). (c, entry_key e)) entries))"

definition queue_get :: "string \<Rightarrow> command_queue \<Rightarrow> control_command option" where
  "queue_get cid q =
     (if cid \<notin> cq_active_ids q then None
      else map_option qe_command
             (find (\<lambda>e. entry_id e = cid \<and> cid \<notin> cq_cancelled_ids q)
                (cq_urgent q @ cq_shadow q)))"

text \<open>Popping until the queue reports nothing more, the way the dispatcher empties it.\<close>

function queue_drain :: "command_queue \<Rightarrow> control_command list" where
  "queue_drain q =
     (case queue_pop True q of (None, _) \<Rightarrow> [] | (Some c, q') \<Rightarrow> c # queue_drain q')"
  by pat_completeness auto

termination
proof (relation "measure (\<lambda>q. length (cq_urgent q) + length (cq_shadow q))", goal_cases)
  case (2 q r q' c)
  have len: "length es' \<le> length es \<and> (o' \<noteq> None \<longrightarrow> length es' < length es)"
    if "pop_valid es a k = (o', es', a', k')" for es a k o' es' a' k'
    using that by (induction es a k rule: pop_valid.induct) (auto simp: Let_def split: if_splits)
  from 2 show ?case
    by (auto simp: queue_pop_def Let_def split: prod.splits if_splits dest!: len)
qed simp

declare queue_drain.simps [simp del]

text \<open>Well-formedness: both heaps sorted, sequence numbers unique and below the counter,
  command identifiers unique, and each queued identifier either active or cancelled.\<close>

definition queue_inv :: "command_queue \<Rightarrow> bool" where
  "queue_inv q \<longleftrightarrow>
     sorted_wrt (\<lambda>a b. entry_key a < entry_key b) (cq_urgent q) \<and>
     sorted_wrt (\<lambda>a b. entry_key a < entry_key b) (cq_shadow q) \<and>
     (\<forall>e \<in> set (cq_urgent q @ cq_shadow q). qe_sequence e < cq_sequence q) \<and>
     distinct (map entry_id (cq_urgent q @ cq_shadow q)) \<and>
     cq_active_ids q \<inter> cq_cancelled_ids q = {} \<and>
     cq_active_ids q \<union> cq_cancelled_ids q = entry_id ` set (cq_urgent q @ cq_shadow q)"

section \<open>The heap contract\<close>

locale heap_contract =
  fixes push :: "'q \<Rightarrow> 'e \<Rightarrow> 'q"
    and pop :: "'q \<Rightarrow> ('e \<times> 'q) option"
    and entries :: "'q \<Rightarrow> 'e multiset"
    and key :: "'e \<Rightarrow> 'k::linorder"
    and ok :: "'q \<Rightarrow> bool"
  assumes entries_push: "entries (push q e) = add_mset e (entries q)"
    and ok_push: "ok q \<Longrightarrow> key e \<notin> key ` set_mset (entries q) \<Longrightarrow> ok (push q e)"
    and pop_None: "pop q = None \<longleftrightarrow> entries q = {#}"
    and entries_pop: "pop q = Some (e, q') \<Longrightarrow> entries q = add_mset e (entries q')"
    and ok_pop: "ok q \<Longrightarrow> pop q = Some (e, q') \<Longrightarrow> ok q'"
    and pop_least: "ok q \<Longrightarrow> pop q = Some (e, q') \<Longrightarrow> x \<in># entries q' \<Longrightarrow> key e < key x"
begin

lemma pop_push_least:
  assumes "ok q" and "pop (push q e) = Some (x, q')"
    and "key e \<notin> key ` set_mset (entries q)"
  shows "key x \<le> key e"
proof (cases "x = e")
  case False
  have "add_mset x (entries q') = add_mset e (entries q)"
    using assms(2) entries_pop entries_push by metis
  with False have "e \<in># entries q'" by (metis insert_noteq_member)
  with assms show ?thesis using ok_push pop_least by (metis less_imp_le)
qed simp

lemma pop_order:
  assumes "ok q" and "pop q = Some (e1, q1)" and "pop q1 = Some (e2, q2)"
  shows "key e1 < key e2"
proof -
  have "e2 \<in># entries q1" using assms(3) entries_pop by (metis union_single_eq_member)
  with assms(1,2) show ?thesis by (rule pop_least)
qed

end

lemma mset_heappush: "mset (heappush q e) = add_mset e (mset q)"
  by (induction q) auto

lemma set_heappush [simp]: "set (heappush q e) = insert e (set q)"
  by (induction q) auto

lemma sorted_heappush:
  assumes "sorted_wrt (\<lambda>a b. entry_key a < entry_key b) q"
    and "entry_key e \<notin> entry_key ` set q"
  shows "sorted_wrt (\<lambda>a b. entry_key a < entry_key b) (heappush q e)"
  using assms by (induction q) (auto dest: order.strict_trans)

interpretation hq: heap_contract heappush heappop mset entry_key
  "sorted_wrt (\<lambda>a b. entry_key a < entry_key b)"
proof (unfold_locales, goal_cases)
  case (1 q e) show ?case by (rule mset_heappush)
next
  case (2 q e) then show ?case by (intro sorted_heappush) auto
next
  case (3 q) show ?case by (cases q) auto
next
  case (4 q e q') then show ?case by (cases q) auto
next
  case (5 q e q') then show ?case by (cases q) auto
next
  case (6 q e q' x) then show ?case by (cases q) auto
qed

section \<open>Popping\<close>

definition entry_ids :: "queue_entry list \<Rightarrow> string set" where
  "entry_ids es = entry_id ` set es"

lemma entry_ids_simps [simp]:
  "entry_ids [] = {}"
  "entry_ids (e # es) = insert (entry_id e) (entry_ids es)"
  "entry_ids (xs @ ys) = entry_ids xs \<union> entry_ids ys"
  "entry_ids (heappush es e) = insert (entry_id e) (entry_ids es)"
  by (auto simp: entry_ids_def)

text \<open>With distinct identifiers the loop drops the leading cancelled entries and stops.\<close>

lemma pop_valid_eq:
  assumes "distinct (map entry_id es)"
  shows "pop_valid es A C =
    (case dropWhile (\<lambda>e. entry_id e \<in> C) es of
       [] \<Rightarrow> (None, [], A - entry_ids es, C - entry_ids es)
     | e # r \<Rightarrow> (Some (qe_command e), r,
                A - insert (entry_id e) (entry_ids (takeWhile (\<lambda>e. entry_id e \<in> C) es)),
                C - entry_ids (takeWhile (\<lambda>e. entry_id e \<in> C) es)))"
  using assms
proof (induction es arbitrary: A C)
  case (Cons e es)
  have d: "dropWhile (\<lambda>x. entry_id x \<in> C - {entry_id e}) es = dropWhile (\<lambda>x. entry_id x \<in> C) es"
    and t: "takeWhile (\<lambda>x. entry_id x \<in> C - {entry_id e}) es = takeWhile (\<lambda>x. entry_id x \<in> C) es"
    using Cons.prems by (auto intro!: dropWhile_cong takeWhile_cong simp: image_iff)
  from Cons.prems have dist: "distinct (map entry_id es)" by simp
  note IH = Cons.IH [OF dist, of "A - {entry_id e}" "C - {entry_id e}", unfolded d t]
  show ?case
  proof (cases "entry_id e \<in> C")
    case True
    then have "pop_valid (e # es) A C = pop_valid es (A - {entry_id e}) (C - {entry_id e})"
      by (simp add: Let_def)
    also note IH
    finally show ?thesis using True
      by (cases "dropWhile (\<lambda>x. entry_id x \<in> C) es")
        (auto simp del: dropWhile_eq_Nil_conv)
  next
    case False
    then show ?thesis by (simp add: Let_def)
  qed
qed simp

lemma entry_ids_drop_take:
  "entry_ids es = entry_ids (takeWhile P es) \<union> entry_ids (dropWhile P es)"
  by (metis entry_ids_simps(3) takeWhile_dropWhile_id)

lemma filter_live_dropWhile:
  "filter (\<lambda>e. entry_id e \<notin> C) es = filter (\<lambda>e. entry_id e \<notin> C) (dropWhile (\<lambda>e. entry_id e \<in> C) es)"
  by (induction es) auto

lemma pop_valid_None_iff:
  assumes "distinct (map entry_id es)"
  shows "fst (pop_valid es A C) = None \<longleftrightarrow> filter (\<lambda>e. entry_id e \<notin> C) es = []"
proof (cases "dropWhile (\<lambda>e. entry_id e \<in> C) es")
  case Nil
  then have "\<forall>e \<in> set es. entry_id e \<in> C" by (simp only: dropWhile_eq_Nil_conv)
  with Nil show ?thesis
    by (simp only: pop_valid_eq [OF assms]) (simp add: filter_empty_conv)
next
  case (Cons e r)
  then have "e \<in> set (dropWhile (\<lambda>e. entry_id e \<in> C) es)" and live: "entry_id e \<notin> C"
    by (simp, simp add: dropWhile_eq_Cons_conv)
  from this(1) have "e \<in> set es" by (rule set_dropWhileD)
  note this live
  with Cons show ?thesis
    by (auto simp: pop_valid_eq [OF assms] filter_empty_conv)
qed

lemma queue_inv_init: "queue_inv queue_init"
  by (simp add: queue_inv_def queue_init_def)

section \<open>Every operation keeps the queue well formed\<close>

lemma distinct_ids_heappush [simp]:
  "distinct (map entry_id (heappush es e)) \<longleftrightarrow>
     entry_id e \<notin> entry_id ` set es \<and> distinct (map entry_id es)"
  by (induction es) auto

text \<open>The invariant with the heaps apart, for use by the preservation proofs.\<close>

lemma queue_inv_iff:
  "queue_inv q \<longleftrightarrow>
     sorted_wrt (\<lambda>a b. entry_key a < entry_key b) (cq_urgent q) \<and>
     sorted_wrt (\<lambda>a b. entry_key a < entry_key b) (cq_shadow q) \<and>
     (\<forall>e \<in> set (cq_urgent q). qe_sequence e < cq_sequence q) \<and>
     (\<forall>e \<in> set (cq_shadow q). qe_sequence e < cq_sequence q) \<and>
     distinct (map entry_id (cq_urgent q)) \<and> distinct (map entry_id (cq_shadow q)) \<and>
     entry_ids (cq_urgent q) \<inter> entry_ids (cq_shadow q) = {} \<and>
     cq_active_ids q \<inter> cq_cancelled_ids q = {} \<and>
     cq_active_ids q \<union> cq_cancelled_ids q = entry_ids (cq_urgent q) \<union> entry_ids (cq_shadow q)"
  unfolding queue_inv_def entry_ids_def by (simp add: ball_Un image_Un)

lemma queue_inv_put:
  assumes inv: "queue_inv q" and put: "queue_put c q = Inr q'"
    and fresh: "cc_command_id c \<notin> cq_cancelled_ids q"
  shows "queue_inv q'"
proof -
  let ?e = "\<lparr>qe_deadline_ms = cc_deadline_ms c, qe_negative_priority = - cc_priority c,
             qe_sequence = cq_sequence q, qe_command = c\<rparr>"
  from inv have seq: "entry_key ?e \<notin> entry_key ` set (cq_urgent q)"
    "entry_key ?e \<notin> entry_key ` set (cq_shadow q)"
    by (auto simp: queue_inv_def entry_key_def)
  from put have na: "cc_command_id c \<notin> cq_active_ids q"
    by (simp add: queue_put_def split: if_splits)
  have ids: "cc_command_id c \<notin> entry_ids (cq_urgent q)" "cc_command_id c \<notin> entry_ids (cq_shadow q)"
    using inv fresh na unfolding queue_inv_iff by blast+
  show ?thesis
  proof (cases "cc_queue_class c")
    case URGENT
    with put na have q': "q' = q\<lparr>cq_sequence := cq_sequence q + 1,
        cq_urgent := heappush (cq_urgent q) ?e,
        cq_active_ids := insert (cc_command_id c) (cq_active_ids q)\<rparr>"
      by (simp add: queue_put_def)
    show ?thesis using inv ids fresh seq(1)
      unfolding q' queue_inv_iff by (simp add: sorted_heappush less_imp_le flip: entry_ids_def)
  next
    case SHADOW
    with put na have q': "q' = q\<lparr>cq_sequence := cq_sequence q + 1,
        cq_shadow := heappush (cq_shadow q) ?e,
        cq_active_ids := insert (cc_command_id c) (cq_active_ids q)\<rparr>"
      by (simp add: queue_put_def)
    show ?thesis using inv ids fresh seq(2)
      unfolding q' queue_inv_iff by (simp add: sorted_heappush less_imp_le flip: entry_ids_def)
  qed
qed

lemma queue_inv_cancel: "queue_inv q \<Longrightarrow> queue_inv (snd (queue_cancel cid q))"
  unfolding queue_inv_iff queue_cancel_def by (simp split: if_split) blast

text \<open>One heap: what the loop removes, what it returns, what stays.\<close>

lemma pop_valid_spec:
  assumes dist: "distinct (map entry_id es)" and pop: "pop_valid es A C = (r, es', A', C')"
  shows "A' = A - (entry_ids es - entry_ids es')" (is ?A)
    and "C' = C - (entry_ids es - entry_ids es')" (is ?C)
    and "\<exists>ds. es = ds @ es'" (is ?S)
    and "case r of
           None \<Rightarrow> es' = [] \<and> filter (\<lambda>e. entry_id e \<notin> C) es = []
         | Some c \<Rightarrow> \<exists>e. c = qe_command e \<and> entry_id e \<notin> C \<and>
             filter (\<lambda>e. entry_id e \<notin> C) es = e # filter (\<lambda>e. entry_id e \<notin> C) es'" (is ?R)
proof -
  define P where "P = (\<lambda>e. entry_id e \<in> C)"
  have *: "pop_valid es A C =
    (case dropWhile P es of
       [] \<Rightarrow> (None, [], A - entry_ids es, C - entry_ids es)
     | e # r \<Rightarrow> (Some (qe_command e), r, A - insert (entry_id e) (entry_ids (takeWhile P es)),
                C - entry_ids (takeWhile P es)))"
    unfolding P_def by (rule pop_valid_eq [OF dist])
  have split: "es = takeWhile P es @ dropWhile P es" by simp
  have flt: "filter (\<lambda>e. entry_id e \<notin> C) (takeWhile P es) = []"
    by (auto simp: filter_empty_conv P_def dest: set_takeWhileD)
  have "?A \<and> ?C \<and> ?S \<and> ?R"
  proof (cases "dropWhile P es")
    case Nil
    with pop * have "r = None" "es' = []" "A' = A - entry_ids es" "C' = C - entry_ids es"
      by (simp_all del: dropWhile_eq_Nil_conv)
    moreover from Nil flt split have "filter (\<lambda>e. entry_id e \<notin> C) es = []" by (metis append_Nil2)
    ultimately show ?thesis by simp
  next
    case (Cons e r')
    with pop * have out: "r = Some (qe_command e)" "es' = r'"
      "A' = A - insert (entry_id e) (entry_ids (takeWhile P es))" "C' = C - entry_ids (takeWhile P es)"
      by simp_all
    from Cons split have es: "es = takeWhile P es @ e # r'" by metis
    from Cons have live: "entry_id e \<notin> C" by (simp add: dropWhile_eq_Cons_conv P_def)
    have "distinct (map entry_id (takeWhile P es @ e # r'))" using dist es by metis
    then have disj: "entry_ids (takeWhile P es) \<inter> entry_ids r' = {}" "entry_id e \<notin> entry_ids r'"
      by (auto simp: entry_ids_def)
    have ids: "entry_ids es - entry_ids es' = insert (entry_id e) (entry_ids (takeWhile P es))"
      using disj by (subst es) (auto simp: out)
    have "filter (\<lambda>e. entry_id e \<notin> C) es = e # filter (\<lambda>e. entry_id e \<notin> C) r'"
      by (subst es) (simp add: live flt)
    then have ?R using live by (simp add: out)
    moreover have "es = (takeWhile P es @ [e]) @ es'" using es out by simp
    then have ?S by blast
    moreover have ?A unfolding ids by (rule out)
    moreover have ?C unfolding ids using live by (simp add: out)
    ultimately show ?thesis by blast
  qed
  then show ?A ?C ?S ?R by blast+
qed

text \<open>The live entries in the order the queue will deliver them.\<close>

definition queue_live :: "command_queue \<Rightarrow> queue_entry list" where
  "queue_live q = filter (entry_live q) (cq_urgent q) @ filter (entry_live q) (cq_shadow q)"

lemma pop_valid_inv:
  assumes "queue_inv q" and "pop_valid (cq_urgent q) (cq_active_ids q) (cq_cancelled_ids q) = (r, u, A, C)"
  shows "queue_inv (q\<lparr>cq_urgent := u, cq_active_ids := A, cq_cancelled_ids := C\<rparr>)"
proof -
  from assms(1) have "distinct (map entry_id (cq_urgent q))" by (simp add: queue_inv_iff)
  note spec = pop_valid_spec [OF this assms(2)]
  then obtain ds where ds: "cq_urgent q = ds @ u" by blast
  show ?thesis
    using assms(1) unfolding queue_inv_iff ds spec(1,2)
    by (auto simp: sorted_wrt_append ds)
qed

lemma pop_valid_inv_shadow:
  assumes "queue_inv q" and "pop_valid (cq_shadow q) (cq_active_ids q) (cq_cancelled_ids q) = (r, u, A, C)"
  shows "queue_inv (q\<lparr>cq_shadow := u, cq_active_ids := A, cq_cancelled_ids := C\<rparr>)"
proof -
  from assms(1) have "distinct (map entry_id (cq_shadow q))" by (simp add: queue_inv_iff)
  note spec = pop_valid_spec [OF this assms(2)]
  then obtain ds where ds: "cq_shadow q = ds @ u" by blast
  show ?thesis
    using assms(1) unfolding queue_inv_iff ds spec(1,2)
    by (auto simp: sorted_wrt_append ds)
qed

text \<open>Forgetting cancellations of entries that have left the heap changes no liveness.\<close>

lemma filter_live_forget:
  "entry_ids es \<inter> D = {} \<Longrightarrow>
     filter (\<lambda>e. entry_id e \<notin> C - D) es = filter (\<lambda>e. entry_id e \<notin> C) es"
  by (rule filter_cong) (auto simp: entry_ids_def)

lemma queue_live_eq:
  "queue_live q = filter (\<lambda>e. entry_id e \<notin> cq_cancelled_ids q) (cq_urgent q)
                @ filter (\<lambda>e. entry_id e \<notin> cq_cancelled_ids q) (cq_shadow q)"
  by (simp add: queue_live_def entry_live_def [abs_def])

lemma queue_pop_inv:
  assumes "queue_inv q"
  shows "queue_inv (snd (queue_pop sh q))"
proof -
  obtain r u A C where p: "pop_valid (cq_urgent q) (cq_active_ids q) (cq_cancelled_ids q) = (r, u, A, C)"
    by (metis prod_cases4)
  let ?q1 = "q\<lparr>cq_urgent := u, cq_active_ids := A, cq_cancelled_ids := C\<rparr>"
  have inv1: "queue_inv ?q1" by (rule pop_valid_inv [OF assms p])
  obtain r' s A' C' where p': "pop_valid (cq_shadow ?q1) (cq_active_ids ?q1) (cq_cancelled_ids ?q1) = (r', s, A', C')"
    by (metis prod_cases4)
  from pop_valid_inv_shadow [OF inv1 p'] inv1 show ?thesis
    using p' by (simp add: queue_pop_def p Let_def)
qed

text \<open>The central step: a pop delivers the first live entry and leaves the rest.\<close>

lemma queue_pop_live:
  assumes inv: "queue_inv q"
  shows "case queue_live q of
           [] \<Rightarrow> fst (queue_pop True q) = None
         | e # es \<Rightarrow> fst (queue_pop True q) = Some (qe_command e) \<and> queue_live (snd (queue_pop True q)) = es"
proof -
  obtain r u A C where p: "pop_valid (cq_urgent q) (cq_active_ids q) (cq_cancelled_ids q) = (r, u, A, C)"
    by (metis prod_cases4)
  from inv have du: "distinct (map entry_id (cq_urgent q))" "distinct (map entry_id (cq_shadow q))"
    and disj: "entry_ids (cq_urgent q) \<inter> entry_ids (cq_shadow q) = {}"
    by (simp_all add: queue_inv_iff)
  note spec = pop_valid_spec [OF du(1) p]
  have sh: "filter (\<lambda>e. entry_id e \<notin> C) (cq_shadow q)
          = filter (\<lambda>e. entry_id e \<notin> cq_cancelled_ids q) (cq_shadow q)"
    unfolding spec(2) using disj by (intro filter_live_forget) blast
  have ur: "filter (\<lambda>e. entry_id e \<notin> C) u = filter (\<lambda>e. entry_id e \<notin> cq_cancelled_ids q) u"
    unfolding spec(2) by (intro filter_live_forget) blast
  show ?thesis
  proof (cases r)
    case (Some c)
    with spec(4) p ur sh show ?thesis by (auto simp: queue_pop_def queue_live_eq)
  next
    case None
    obtain r' s A' C' where p': "pop_valid (cq_shadow q) A C = (r', s, A', C')"
      by (metis prod_cases4)
    note spec' = pop_valid_spec [OF du(2) p']
    from None spec(4) have u: "u = []" "filter (\<lambda>e. entry_id e \<notin> cq_cancelled_ids q) (cq_urgent q) = []"
      by simp_all
    have s: "filter (\<lambda>e. entry_id e \<notin> C') s = filter (\<lambda>e. entry_id e \<notin> C) s"
      unfolding spec'(2) by (intro filter_live_forget) blast
    from spec'(4) None p p' u sh s show ?thesis
      by (cases r') (auto simp: queue_pop_def queue_live_eq)
  qed
qed

lemma sort_key_sorted_wrt:
  "sorted_wrt (\<lambda>a b. f a \<le> f b) xs \<Longrightarrow> sort_key f xs = xs"
  by (induction xs) (auto simp: insort_key_left_comm insort_is_Cons)

lemma queue_pending_live:
  assumes "queue_inv q"
  shows "queue_pending_commands q = map qe_command (queue_live q)"
proof -
  let ?k = "\<lambda>(c::int, e). (c, entry_key e)"
  let ?es = "map (Pair 0) (filter (entry_live q) (cq_urgent q)) @ map (Pair 1) (filter (entry_live q) (cq_shadow q))"
  have sorted: "sorted_wrt (\<lambda>a b. entry_key a \<le> entry_key b) (filter (entry_live q) es)"
    if "sorted_wrt (\<lambda>a b. entry_key a < entry_key b) es" for es
    using that by (intro sorted_wrt_filter sorted_wrt_mono_rel [OF _ that]) (auto simp: less_imp_le)
  have "sorted_wrt (\<lambda>a b. ?k a \<le> ?k b) ?es"
    using assms sorted [of "cq_urgent q"] sorted [of "cq_shadow q"]
    by (auto simp: queue_inv_iff sorted_wrt_append sorted_wrt_map)
  then have "sort_key ?k ?es = ?es" by (rule sort_key_sorted_wrt)
  then show ?thesis by (simp add: queue_pending_commands_def queue_live_def)
qed

lemma queue_live_active:
  assumes "queue_inv q"
  shows "entry_id ` set (queue_live q) = cq_active_ids q"
proof -
  have "entry_id ` set (queue_live q)
      = (entry_ids (cq_urgent q) \<union> entry_ids (cq_shadow q)) - cq_cancelled_ids q"
    by (auto simp: queue_live_eq entry_ids_def)
  also have "\<dots> = cq_active_ids q" using assms unfolding queue_inv_iff by blast
  finally show ?thesis .
qed

lemma queue_live_distinct: "queue_inv q \<Longrightarrow> distinct (map entry_id (queue_live q))"
  by (auto simp: queue_live_eq queue_inv_iff entry_ids_def distinct_map
      intro: inj_on_subset dest: inj_onD)

section \<open>A concrete queue for the witnesses\<close>

definition demo_command :: "string \<Rightarrow> command_queue_class \<Rightarrow> xreal \<Rightarrow> control_command" where
  "demo_command cid cls deadline =
     \<lparr>cc_command_id = cid, cc_kind = OFFLOAD_CONTEXT, cc_created_ts_ms = 0,
      cc_context_id = Some ''ctx'', cc_context_epoch = Some 0, cc_target_bytes = 0,
      cc_priority = 0, cc_deadline_ms = deadline, cc_queue_class = cls, cc_metadata = [],
      cc_physical_bundle = None, cc_target_handles = []\<rparr>"

definition demo_shadow :: control_command where
  "demo_shadow = demo_command ''shadow-1'' SHADOW (Fin 1)"

definition demo_urgent :: control_command where
  "demo_urgent = demo_command ''urgent-1'' URGENT PosInf"

definition demo_queue :: command_queue where
  "demo_queue =
     (case rbind (queue_put demo_shadow queue_init) (queue_put demo_urgent) of
        Inr q \<Rightarrow> q | Inl _ \<Rightarrow> queue_init)"

lemma demo_queue_eq:
  "demo_queue =
     \<lparr>cq_urgent = [\<lparr>qe_deadline_ms = PosInf, qe_negative_priority = 0, qe_sequence = 1,
                    qe_command = demo_urgent\<rparr>],
      cq_shadow = [\<lparr>qe_deadline_ms = Fin 1, qe_negative_priority = 0, qe_sequence = 0,
                    qe_command = demo_shadow\<rparr>],
      cq_sequence = 2, cq_active_ids = {''urgent-1'', ''shadow-1''}, cq_cancelled_ids = {}\<rparr>"
  by (simp add: demo_queue_def queue_put_def queue_init_def demo_urgent_def demo_shadow_def
      demo_command_def Let_def)

lemma demo_queue_inv: "queue_inv demo_queue"
  by (simp add: demo_queue_eq queue_inv_def demo_urgent_def demo_shadow_def demo_command_def)

lemma demo_queue_pending: "queue_pending_commands demo_queue = [demo_urgent, demo_shadow]"
  unfolding queue_pending_live [OF demo_queue_inv] by (simp add: queue_live_eq demo_queue_eq)

lemma queue_len_live: "queue_len q = length (queue_live q)"
  by (simp add: queue_len_def queue_urgent_count_def queue_shadow_count_def queue_live_def)

lemma queue_put_live:
  assumes "queue_put c q = Inr q'" and "cc_command_id c \<notin> cq_cancelled_ids q"
  shows "\<exists>e. qe_command e = c \<and> mset (queue_live q') = add_mset e (mset (queue_live q))"
  using assms
  by (auto simp: queue_put_def queue_live_eq Let_def mset_heappush split: if_splits)

lemma find_distinct:
  "distinct (map f xs) \<Longrightarrow> x \<in> set xs \<Longrightarrow> find (\<lambda>y. f y = f x) xs = Some x"
  by (induction xs) auto

lemma queue_get_live:
  assumes inv: "queue_inv q" and e: "e \<in> set (queue_live q)"
  shows "queue_get (entry_id e) q = Some (qe_command e)"
proof -
  from e have mem: "e \<in> set (cq_urgent q @ cq_shadow q)" and nc: "entry_id e \<notin> cq_cancelled_ids q"
    by (auto simp: queue_live_eq)
  have act: "entry_id e \<in> cq_active_ids q" using queue_live_active [OF inv] e by blast
  from inv have "distinct (map entry_id (cq_urgent q @ cq_shadow q))" by (simp add: queue_inv_def)
  from find_distinct [OF this mem] act nc show ?thesis by (simp add: queue_get_def)
qed

lemma sorted_filter_head_less:
  assumes "sorted_wrt (\<lambda>a b. entry_key a < entry_key b) xs" and "filter P xs = e # r"
    and "x \<in> set xs" and "P x" and "x \<noteq> e"
  shows "entry_key e < entry_key x"
proof -
  have "x \<in> set (filter P xs)" using assms(3,4) by simp
  with assms(2,5) have "x \<in> set r" by simp
  moreover have "sorted_wrt (\<lambda>a b. entry_key a < entry_key b) (e # r)"
    using sorted_wrt_filter [OF assms(1), of P] assms(2) by simp
  ultimately show ?thesis by simp
qed

section \<open>Properties\<close>

text \<open>The life of a queue. A submission, a cancellation or a pop; the only calls left out are
  submissions under an identifier that was cancelled while its entry was still queued and whose
  entry has not been discarded yet, which \<open>put\<close> accepts (\<open>queue_resubmit_after_cancel\<close> below).\<close>

inductive queue_step :: "command_queue \<Rightarrow> command_queue \<Rightarrow> bool" where
  put: "queue_put c q = Inr q' \<Longrightarrow> cc_command_id c \<notin> cq_cancelled_ids q \<Longrightarrow> queue_step q q'"
| cancel: "queue_step q (snd (queue_cancel cid q))"
| pop: "queue_step q (snd (queue_pop allow_shadow q))"

interpretation cq: invariant_machine queue_step queue_inv
  by unfold_locales (auto elim!: queue_step.cases intro: queue_inv_put queue_inv_cancel queue_pop_inv)

lemmas queue_reachable_inv = cq.run_inv [OF _ queue_inv_init]

lemma queue_drain_live: "queue_inv q \<Longrightarrow> queue_drain q = map qe_command (queue_live q)"
proof (induction "length (queue_live q)" arbitrary: q)
  case 0
  obtain r q' where pop: "queue_pop True q = (r, q')" by fastforce
  with queue_pop_live [OF 0(2)] 0(1) show ?case
    by (simp add: queue_drain.simps [of q] pop)
next
  case (Suc n)
  then obtain e es where live: "queue_live q = e # es" by (cases "queue_live q") auto
  obtain r q' where pop: "queue_pop True q = (r, q')" by fastforce
  with queue_pop_live [OF Suc.prems] live have r: "r = Some (qe_command e)" "queue_live q' = es"
    by simp_all
  have "queue_inv q'" using queue_pop_inv [OF Suc.prems, of True] pop by simp
  with Suc.hyps(1) [of q'] Suc.hyps(2) live r show ?case
    by (simp add: queue_drain.simps [of q] pop)
qed

text \<open>C23. Take any queue reached from the empty one by submissions, cancellations and pops in which
  no identifier is submitted again while its cancelled entry is still queued. Draining it by
  repeated \<open>pop(allow_shadow=True)\<close> delivers exactly the commands \<open>pending_commands\<close> reports, in
  the same order, and \<open>len\<close> is their number: the non-destructive snapshot and the destructive
  operation agree. (Without that condition they do not: \<open>queue_resubmit_after_cancel\<close>.)\<close>

theorem queue_drain_pending:
  assumes "rtranclp queue_step queue_init q"
  shows "queue_drain q = queue_pending_commands q \<and> queue_len q = length (queue_drain q)"
  using queue_reachable_inv [OF assms] by (simp add: queue_pending_live queue_drain_live queue_len_live)

lemma demo_queue_reachable: "rtranclp queue_step queue_init demo_queue"
proof -
  obtain q where q: "queue_put demo_shadow queue_init = Inr q" "queue_put demo_urgent q = Inr demo_queue"
    "cc_command_id demo_urgent \<notin> cq_cancelled_ids q"
    by (simp add: demo_queue_def queue_put_def queue_init_def demo_urgent_def demo_shadow_def
        demo_command_def Let_def)
  have "queue_step queue_init q" using q(1) by (rule queue_step.put) (simp add: queue_init_def)
  moreover have "queue_step q demo_queue" using q(2,3) by (rule queue_step.put)
  ultimately show ?thesis by auto
qed

theorem queue_drain_pending_witness:
  "queue_drain demo_queue = queue_pending_commands demo_queue
   \<and> queue_pending_commands demo_queue = [demo_urgent, demo_shadow]"
  using queue_drain_pending [OF demo_queue_reachable] demo_queue_pending by simp

text \<open>Cancelling a command removes exactly that command from what the queue will deliver
  and keeps the order of the others.\<close>

theorem queue_cancel_pending:
  assumes "queue_inv q"
  shows "queue_pending_commands (snd (queue_cancel cid q))
       = filter (\<lambda>c. cc_command_id c \<noteq> cid) (queue_pending_commands q)"
proof -
  let ?q' = "snd (queue_cancel cid q)"
  have "queue_live ?q' = filter (\<lambda>e. entry_id e \<noteq> cid) (queue_live q)"
  proof (cases "cid \<in> cq_active_ids q")
    case True
    then show ?thesis
      by (simp add: queue_cancel_def queue_live_eq conj_commute)
  next
    case False
    then have "\<forall>e \<in> set (queue_live q). entry_id e \<noteq> cid"
      using queue_live_active [OF assms] by auto
    with False show ?thesis by (simp add: queue_cancel_def filter_id_conv)
  qed
  with assms queue_inv_cancel [OF assms, of cid] show ?thesis
    by (simp add: queue_pending_live filter_map o_def)
qed

theorem queue_cancel_pending_witness:
  "queue_pending_commands (snd (queue_cancel ''urgent-1'' demo_queue)) = [demo_shadow]"
  unfolding queue_cancel_pending [OF demo_queue_inv] demo_queue_pending
  by (simp add: demo_urgent_def demo_shadow_def demo_command_def)

text \<open>Submitting a command whose identifier was not cancelled earlier adds it, once, to
  the commands the queue will deliver, and \<open>get\<close> finds it.\<close>

theorem queue_put_pending:
  assumes inv: "queue_inv q" and put: "queue_put c q = Inr q'"
    and fresh: "cc_command_id c \<notin> cq_cancelled_ids q"
  shows "mset (queue_pending_commands q') = add_mset c (mset (queue_pending_commands q))
       \<and> queue_get (cc_command_id c) q' = Some c
       \<and> queue_len q' = queue_len q + 1"
proof -
  obtain e where e: "qe_command e = c" "mset (queue_live q') = add_mset e (mset (queue_live q))"
    using queue_put_live [OF put fresh] by blast
  have inv': "queue_inv q'" by (rule queue_inv_put [OF inv put fresh])
  from e(2) have "e \<in> set (queue_live q')" by (metis set_mset_mset union_single_eq_member)
  from queue_get_live [OF inv' this] e(1) have "queue_get (cc_command_id c) q' = Some c" by simp
  moreover have "mset (map qe_command (queue_live q')) = add_mset c (mset (map qe_command (queue_live q)))"
    using e by (simp only: mset_map) simp
  moreover have "length (queue_live q') = length (queue_live q) + 1"
    using arg_cong [OF e(2), of size] by simp
  ultimately show ?thesis using inv inv' by (simp add: queue_pending_live queue_len_live)
qed

theorem queue_put_pending_witness:
  "\<exists>q'. queue_put (demo_command ''x'' SHADOW PosInf) demo_queue = Inr q'
      \<and> queue_get ''x'' q' = Some (demo_command ''x'' SHADOW PosInf) \<and> queue_len q' = 3"
proof -
  let ?c = "demo_command ''x'' SHADOW PosInf"
  have ok: "\<exists>q'. queue_put ?c demo_queue = Inr q'" "cc_command_id ?c \<notin> cq_cancelled_ids demo_queue"
    by (simp_all add: queue_put_def demo_queue_eq demo_command_def Let_def)
  then obtain q' where q': "queue_put ?c demo_queue = Inr q'" by blast
  have "queue_len demo_queue = 2"
    by (simp add: queue_len_live queue_live_eq demo_queue_eq)
  with queue_put_pending [OF demo_queue_inv q' ok(2)] q' show ?thesis
    by (simp add: demo_command_def)
qed

text \<open>Strict priority: a popped command was active and not cancelled; an urgent command
  precedes every live shadow command, and within its class the popped entry has the least
  (deadline, negated priority, sequence) key.\<close>

theorem queue_pop_priority:
  assumes inv: "queue_inv q" and pop: "queue_pop True q = (Some c, q')"
  shows "cc_command_id c \<in> cq_active_ids q \<and> cc_command_id c \<notin> cq_active_ids q' \<and>
    (\<exists>e \<in> set (cq_urgent q @ cq_shadow q). qe_command e = c \<and>
       (e \<in> set (cq_shadow q) \<longrightarrow> queue_urgent_count q = 0) \<and>
       (\<forall>e' \<in> set (if e \<in> set (cq_urgent q) then cq_urgent q else cq_shadow q).
          entry_live q e' \<and> e' \<noteq> e \<longrightarrow> entry_key e < entry_key e'))"
proof -
  obtain e es where live: "queue_live q = e # es" and c: "c = qe_command e" and es: "queue_live q' = es"
    using queue_pop_live [OF inv] pop by (cases "queue_live q") auto
  have inv': "queue_inv q'" using queue_pop_inv [OF inv, of True] pop by simp
  have act: "entry_id e \<in> cq_active_ids q" using queue_live_active [OF inv] live by auto
  have "entry_id e \<notin> entry_id ` set es" using queue_live_distinct [OF inv] live by simp
  then have nact: "entry_id e \<notin> cq_active_ids q'" using queue_live_active [OF inv'] es by simp
  have disj: "entry_ids (cq_urgent q) \<inter> entry_ids (cq_shadow q) = {}"
    and srt: "sorted_wrt (\<lambda>a b. entry_key a < entry_key b) (cq_urgent q)"
      "sorted_wrt (\<lambda>a b. entry_key a < entry_key b) (cq_shadow q)"
    using inv by (simp_all add: queue_inv_iff)
  show ?thesis
  proof (cases "filter (entry_live q) (cq_urgent q)")
    case Nil
    with live have f: "filter (entry_live q) (cq_shadow q) = e # es" by (simp add: queue_live_def)
    have "e \<in> set (filter (entry_live q) (cq_shadow q))" unfolding f by simp
    then have e: "e \<in> set (cq_shadow q)" by simp
    then have nu: "e \<notin> set (cq_urgent q)" using disj by (auto simp: entry_ids_def)
    with act nact c e f Nil show ?thesis
      by (auto simp: queue_urgent_count_def intro: sorted_filter_head_less [OF srt(2) f])
  next
    case (Cons e' r)
    with live have f: "filter (entry_live q) (cq_urgent q) = e # r" by (simp add: queue_live_def)
    have "e \<in> set (filter (entry_live q) (cq_urgent q))" unfolding f by simp
    then have e: "e \<in> set (cq_urgent q)" by simp
    then have ns: "e \<notin> set (cq_shadow q)" using disj by (auto simp: entry_ids_def)
    with act nact c e f show ?thesis
      by (auto intro: sorted_filter_head_less [OF srt(1) f])
  qed
qed

theorem queue_pop_priority_witness:
  "\<exists>q'. queue_pop True demo_queue = (Some demo_urgent, q')
      \<and> ''urgent-1'' \<notin> cq_active_ids q' \<and> queue_urgent_count q' = 0"
proof -
  obtain q' where q': "queue_pop True demo_queue = (Some demo_urgent, q')" "cq_urgent q' = []"
    by (simp add: queue_pop_def demo_queue_eq demo_urgent_def demo_shadow_def demo_command_def Let_def)
  have "cc_command_id demo_urgent = ''urgent-1''" by (simp add: demo_urgent_def demo_command_def)
  with queue_pop_priority [OF demo_queue_inv q'(1)] q' show ?thesis
    by (simp add: queue_urgent_count_def)
qed

text \<open>The duplicate check of \<open>put\<close> looks at active identifiers only. Re-submitting an
  identifier that was cancelled while still queued is accepted, but the stale cancellation is
  applied by identifier: the queue reports itself empty, cannot find the new command, and a pop
  discards the new command and delivers the one that was cancelled.\<close>

theorem queue_resubmit_after_cancel:
  "let old = demo_command ''k'' URGENT PosInf; new = demo_command ''k'' URGENT (Fin 0) in
   \<exists>q. rbind (queue_put old queue_init) (\<lambda>q0. queue_put new (snd (queue_cancel ''k'' q0))) = Inr q
     \<and> ''k'' \<in> cq_active_ids q \<and> queue_len q = 0 \<and> queue_get ''k'' q = None
     \<and> fst (queue_pop True q) = Some old \<and> old \<noteq> new"
  by (simp add: queue_put_def queue_init_def queue_cancel_def queue_len_live queue_live_eq
      queue_get_def queue_pop_def demo_command_def entry_key_def less_xreal_def Let_def)

end
