(* ===== verification/Page_Index.thy ===== *)
theory Page_Index
  imports Protocol
begin

text \<open>
  The page ownership index (\<open>beliefkv/runtime/page_index.py\<close>): the CPU-side mirror of the
  engine's page table, Radix topology and context ownership. This theory holds its records and
  every state-changing operation; \<open>Page_Index_Inv\<close> proves that they keep the index
  consistent, \<open>Page_Closure\<close> covers the closure-aware byte accounting and \<open>Page_Replica\<close>
  the change journal and the worker replicas.

  A page object that the Python code shares by reference is looked up by its handle each time.
  The cached tuples of page objects are therefore tuples of handles. Sets are HOL sets; where
  the code iterates over a set, the model iterates in ascending order.
\<close>

section \<open>Records\<close>

datatype component =
    C_topology | C_residency | C_lock | C_reader | C_semantic_pin | C_transfer
  | C_owner | C_context | C_access

record mutation =
  mu_from_revision :: int
  mu_revision :: int
  mu_topology_revision :: int
  mu_handles :: "page_handle set"
  mu_context_ids :: "string set"
  mu_components :: "component set"

record page_record =
  pg_handle :: page_handle
  pg_size_bytes :: int
  pg_residency :: physical_residency
  pg_radix_depth :: int
  pg_parent :: "page_handle option"
  pg_children :: "page_handle set"
  pg_owner_contexts :: "(string, int) dict"
  pg_engine_lock_ref :: int
  pg_semantic_pin_contexts :: "string set"
  pg_active_reader_count :: int
  pg_sealed :: bool
  pg_transfer_direction :: "transfer_direction option"
  pg_last_access_ms :: real

definition gpu_resident :: "page_record \<Rightarrow> bool" where
  "gpu_resident p = (pg_residency p \<in> {GPU_ONLY, MIRRORING, DUAL_CLEAN, PREFETCHING})"

definition cpu_resident :: "page_record \<Rightarrow> bool" where
  "cpu_resident p = (pg_residency p \<in> {MIRRORING, DUAL_CLEAN, CPU_ONLY, PREFETCHING})"

definition transfer_idle :: "page_record \<Rightarrow> bool" where
  "transfer_idle p = (pg_transfer_direction p = None)"

abbreviation page_dead :: "page_record \<Rightarrow> bool" where
  "page_dead p \<equiv> pg_residency p = DEAD"

record kv_breakdown =
  kb_gpu_bytes :: int
  kb_cpu_bytes :: int
  kb_engine_locked_bytes :: int
  kb_closure_blocked_bytes :: int
  kb_migratable_bytes :: int
  kb_dual_resident_bytes :: int

record page_index =
  ix_pages :: "(page_handle, page_record) dict"
  ix_latest_generation :: "(int, int) dict"
  ix_context_pages :: "(string, page_handle set) dict"
  ix_context_epoch :: "(string, int) dict"
  ix_context_workflow :: "(string, string) dict"
  ix_revision :: int
  ix_topology_revision :: int
  ix_physical_state_revision :: int
  ix_physical_breakdown_revision :: int
  ix_physical_breakdown :: kv_breakdown
  ix_engine_locked_pages :: "page_handle list"
  ix_migratable_gpu_handles :: "page_handle set"
  ix_migratable_gpu_pages :: "page_handle list"
  ix_accounting_revision :: int
  ix_workflow_charge_cache_revision :: int
  ix_workflow_charge_cache :: "(string, real) dict"
  ix_mutation_journal :: "mutation list"

definition kv_breakdown_zero :: kv_breakdown where
  "kv_breakdown_zero =
     \<lparr>kb_gpu_bytes = 0, kb_cpu_bytes = 0, kb_engine_locked_bytes = 0,
      kb_closure_blocked_bytes = 0, kb_migratable_bytes = 0, kb_dual_resident_bytes = 0\<rparr>"

definition page_index_init :: page_index where
  "page_index_init =
     \<lparr>ix_pages = [], ix_latest_generation = [], ix_context_pages = [], ix_context_epoch = [],
      ix_context_workflow = [], ix_revision = 0, ix_topology_revision = 0,
      ix_physical_state_revision = 0, ix_physical_breakdown_revision = -1,
      ix_physical_breakdown = kv_breakdown_zero, ix_engine_locked_pages = [],
      ix_migratable_gpu_handles = {}, ix_migratable_gpu_pages = [],
      ix_accounting_revision = 0, ix_workflow_charge_cache_revision = -1,
      ix_workflow_charge_cache = [], ix_mutation_journal = []\<rparr>"

section \<open>The journal\<close>

definition journal_maxlen :: nat where
  "journal_maxlen = 65536"

text \<open>\<open>deque(maxlen=65_536).append\<close>: the oldest entry falls out when the deque is full.\<close>

definition journal_append :: "mutation list \<Rightarrow> mutation \<Rightarrow> mutation list" where
  "journal_append j m = (let j' = j @ [m] in drop (length j' - journal_maxlen) j')"

definition physical_components :: "component set" where
  "physical_components =
     {C_topology, C_residency, C_lock, C_reader, C_semantic_pin, C_transfer}"

definition accounting_components :: "component set" where
  "accounting_components = {C_residency, C_owner, C_context}"

definition touch ::
  "bool \<Rightarrow> page_handle set \<Rightarrow> string set \<Rightarrow> component set \<Rightarrow> page_index \<Rightarrow> page_index" where
  "touch topology handles context_ids components ix =
     (let topo = (if topology then ix_topology_revision ix + 1 else ix_topology_revision ix) in
      ix\<lparr>ix_revision := ix_revision ix + 1,
         ix_topology_revision := topo,
         ix_physical_state_revision :=
           (if components \<inter> physical_components \<noteq> {}
            then ix_physical_state_revision ix + 1 else ix_physical_state_revision ix),
         ix_accounting_revision :=
           (if components \<inter> accounting_components \<noteq> {}
            then ix_accounting_revision ix + 1 else ix_accounting_revision ix),
         ix_mutation_journal :=
           journal_append (ix_mutation_journal ix)
             \<lparr>mu_from_revision = ix_revision ix, mu_revision = ix_revision ix + 1,
              mu_topology_revision = topo, mu_handles = handles,
              mu_context_ids = context_ids, mu_components = components\<rparr>\<rparr>)"

section \<open>Lookups\<close>

definition require_page :: "page_index \<Rightarrow> page_handle \<Rightarrow> page_record result" where
  "require_page ix h =
     (if (case map_of (ix_latest_generation ix) (page_id h) of
            None \<Rightarrow> False | Some latest \<Rightarrow> latest \<noteq> allocation_generation h)
      then Inl (PageIndexError ''stale page generation'')
      else case map_of (ix_pages ix) h of
             None \<Rightarrow> Inl (PageIndexError ''unknown page'')
           | Some page \<Rightarrow>
               if page_dead page then Inl (PageIndexError ''page is dead'') else Inr page)"

definition latest_handle :: "page_index \<Rightarrow> int \<Rightarrow> page_handle option" where
  "latest_handle ix pid =
     map_option (PageHandle pid) (map_of (ix_latest_generation ix) pid)"

definition context_page_set :: "page_index \<Rightarrow> string \<Rightarrow> page_handle set" where
  "context_page_set ix c = dict_get (ix_context_pages ix) c {}"

definition context_pages :: "page_index \<Rightarrow> string \<Rightarrow> page_record list result" where
  "context_pages ix c =
     rbind (rmap (\<lambda>h. dict_item (ix_pages ix) h ''page'')
              (sorted_list_of_set (context_page_set ix c)))
       (\<lambda>ps. Inr (filter (\<lambda>p. \<not> page_dead p) ps))"

definition context_epoch :: "page_index \<Rightarrow> string \<Rightarrow> int result" where
  "context_epoch ix c =
     (case map_of (ix_context_epoch ix) c of
        None \<Rightarrow> Inl (PageIndexError ''unknown context'') | Some e \<Rightarrow> Inr e)"

definition has_context :: "page_index \<Rightarrow> string \<Rightarrow> bool" where
  "has_context ix c = dict_in c (ix_context_epoch ix)"

definition context_workflow :: "page_index \<Rightarrow> string \<Rightarrow> string result" where
  "context_workflow ix c =
     (case map_of (ix_context_workflow ix) c of
        None \<Rightarrow> Inl (PageIndexError ''unknown context'') | Some w \<Rightarrow> Inr w)"

definition validate_context_epoch :: "page_index \<Rightarrow> string \<Rightarrow> int \<Rightarrow> unit result" where
  "validate_context_epoch ix c e =
     rbind (context_epoch ix c)
       (\<lambda>current. if current \<noteq> e then Inl (PageIndexError ''context epoch mismatch'') else Inr ())"

section \<open>Registration and ownership\<close>

definition register_context ::
  "string \<Rightarrow> string \<Rightarrow> int \<Rightarrow> page_index \<Rightarrow> page_index result" where
  "register_context c w epoch ix =
     (let old_epoch = map_of (ix_context_epoch ix) c;
          old_workflow = map_of (ix_context_workflow ix) c in
      if c = [] \<or> w = []
      then Inl (ValueError ''context_id and workflow_id must be non-empty'')
      else if (case old_epoch of None \<Rightarrow> False | Some e \<Rightarrow> epoch < e)
      then Inl (PageIndexError ''stale context epoch'')
      else if (case old_workflow of None \<Rightarrow> False | Some w' \<Rightarrow> w' \<noteq> w)
      then Inl (PageIndexError ''a context cannot move across root workflows'')
      else
        let ix' = ix\<lparr>ix_context_epoch := AList.update c epoch (ix_context_epoch ix),
                     ix_context_workflow := AList.update c w (ix_context_workflow ix),
                     ix_context_pages :=
                       (if dict_in c (ix_context_pages ix) then ix_context_pages ix
                        else AList.update c {} (ix_context_pages ix))\<rparr>
        in Inr (if old_epoch \<noteq> Some epoch \<or> old_workflow = None
                then touch False {} {c} {C_context} ix' else ix'))"

definition new_page ::
  "page_handle \<Rightarrow> int \<Rightarrow> physical_residency \<Rightarrow> int \<Rightarrow> page_handle option \<Rightarrow> bool \<Rightarrow> real
   \<Rightarrow> page_record" where
  "new_page h size_bytes residency radix_depth parent sealed last_access_ms =
     \<lparr>pg_handle = h, pg_size_bytes = size_bytes, pg_residency = residency,
      pg_radix_depth = radix_depth, pg_parent = parent, pg_children = {},
      pg_owner_contexts = [], pg_engine_lock_ref = 0, pg_semantic_pin_contexts = {},
      pg_active_reader_count = 0, pg_sealed = sealed, pg_transfer_direction = None,
      pg_last_access_ms = last_access_ms\<rparr>"

definition add_child :: "page_handle \<Rightarrow> page_record \<Rightarrow> page_record" where
  "add_child h p = p\<lparr>pg_children := insert h (pg_children p)\<rparr>"

definition discard_child :: "page_handle \<Rightarrow> page_record \<Rightarrow> page_record" where
  "discard_child h p = p\<lparr>pg_children := pg_children p - {h}\<rparr>"

definition register_page ::
  "page_handle \<Rightarrow> int \<Rightarrow> physical_residency \<Rightarrow> int \<Rightarrow> page_handle option \<Rightarrow> bool \<Rightarrow> real
   \<Rightarrow> page_index \<Rightarrow> page_index result" where
  "register_page h size_bytes residency radix_depth parent sealed last_access_ms ix =
     (let latest = map_of (ix_latest_generation ix) (page_id h) in
      if size_bytes \<le> 0 then Inl (ValueError ''size_bytes must be positive'')
      else if (case latest of None \<Rightarrow> False | Some g \<Rightarrow> allocation_generation h < g)
      then Inl (PageIndexError ''stale page handle'')
      else if (case latest of None \<Rightarrow> False
               | Some g \<Rightarrow> allocation_generation h > g \<and>
                   (case map_of (ix_pages ix) (PageHandle (page_id h) g) of
                      None \<Rightarrow> False | Some old \<Rightarrow> \<not> page_dead old))
      then Inl (PageIndexError ''page id reused before its generation was freed'')
      else if dict_in h (ix_pages ix) then Inl (PageIndexError ''page already registered'')
      else rbind (case parent of None \<Rightarrow> Inr () | Some q \<Rightarrow> rbind (require_page ix q) (\<lambda>_. Inr ()))
        (\<lambda>_.
          let page = new_page h size_bytes residency radix_depth parent sealed last_access_ms;
              pages1 = AList.update h page (ix_pages ix);
              pages2 = (case parent of None \<Rightarrow> pages1 | Some q \<Rightarrow> dmap_on {q} (add_child h) pages1)
          in Inr (touch True (insert h (set_option parent)) {} {C_topology, C_residency}
               (ix\<lparr>ix_pages := pages2,
                   ix_latest_generation :=
                     AList.update (page_id h) (allocation_generation h) (ix_latest_generation ix)\<rparr>))))"

definition drop_owner :: "string \<Rightarrow> page_record \<Rightarrow> page_record" where
  "drop_owner c p = p\<lparr>pg_owner_contexts := AList.delete c (pg_owner_contexts p),
                      pg_semantic_pin_contexts := pg_semantic_pin_contexts p - {c}\<rparr>"

definition set_owner :: "string \<Rightarrow> int \<Rightarrow> page_record \<Rightarrow> page_record" where
  "set_owner c e p = p\<lparr>pg_owner_contexts := AList.update c e (pg_owner_contexts p)\<rparr>"

definition unbind_context :: "string \<Rightarrow> page_index \<Rightarrow> page_index" where
  "unbind_context c ix =
     (let handles = context_page_set ix c;
          removed_semantic_pin =
            (\<exists>p \<in> set (map snd (filter (\<lambda>(h, _). h \<in> handles) (ix_pages ix))).
               c \<in> pg_semantic_pin_contexts p);
          ix' = ix\<lparr>ix_pages := dmap_on handles (drop_owner c) (ix_pages ix),
                   ix_context_pages := AList.update c {} (ix_context_pages ix)\<rparr>
      in if handles \<noteq> {}
         then touch False handles {c}
                (if removed_semantic_pin then {C_owner, C_semantic_pin} else {C_owner}) ix'
         else ix')"

definition bind_pages ::
  "string \<Rightarrow> int \<Rightarrow> page_handle list \<Rightarrow> bool \<Rightarrow> page_index \<Rightarrow> page_index result" where
  "bind_pages c epoch handles replace ix =
     rbind (validate_context_epoch ix c epoch) (\<lambda>_.
     rbind (rmap (require_page ix) handles) (\<lambda>records.
       let resolved = pg_handle ` set records;
           before = context_page_set ix c;
           ix1 = (if replace then unbind_context c ix else ix);
           ix2 = ix1\<lparr>ix_pages := dmap_on resolved (set_owner c epoch) (ix_pages ix1),
                     ix_context_pages :=
                       AList.update c (context_page_set ix1 c \<union> resolved) (ix_context_pages ix1)\<rparr>
       in Inr (if \<not> replace \<and> \<not> resolved \<subseteq> before
               then touch False (resolved \<union> before) {c} {C_owner} ix2
               else if replace \<and> resolved \<noteq> {}
               then touch False resolved {c} {C_owner} ix2
               else ix2)))"

definition update_context_epoch :: "string \<Rightarrow> int \<Rightarrow> page_index \<Rightarrow> page_index result" where
  "update_context_epoch c epoch ix =
     rbind (context_epoch ix c) (\<lambda>current.
       if epoch < current then Inl (PageIndexError ''context epoch cannot move backwards'')
       else
         let handles = context_page_set ix c;
             ix' = ix\<lparr>ix_context_epoch := AList.update c epoch (ix_context_epoch ix),
                      ix_pages := dmap_on handles (set_owner c epoch) (ix_pages ix)\<rparr>
         in Inr (if epoch \<noteq> current then touch False handles {c} {C_context, C_owner} ix' else ix'))"

section \<open>Freeing, invalidating and re-parenting pages\<close>

definition kill_page :: "page_record \<Rightarrow> page_record" where
  "kill_page p = p\<lparr>pg_owner_contexts := [], pg_semantic_pin_contexts := {}, pg_residency := DEAD\<rparr>"

text \<open>The part that \<open>free_page\<close> and \<open>invalidate_page\<close> share. \<open>orphan\<close> says which children lose
  their parent pointer.\<close>

definition detach_page ::
  "page_handle \<Rightarrow> page_record \<Rightarrow> (page_record \<Rightarrow> bool) \<Rightarrow> page_index \<Rightarrow> page_index" where
  "detach_page h page orphan ix =
     (let affected_contexts = set (map fst (pg_owner_contexts page));
          affected_handles = insert h (pg_children page \<union> set_option (pg_parent page));
          pages1 = dmap_on {h} kill_page (ix_pages ix);
          pages2 = (case pg_parent page of None \<Rightarrow> pages1
                    | Some q \<Rightarrow> dmap_on {q} (discard_child h) pages1);
          children = (if pg_parent page = Some h then pg_children page - {h} else pg_children page);
          pages3 = dmap_on children
                     (\<lambda>p. if orphan p then p\<lparr>pg_parent := None\<rparr> else p) pages2;
          pages4 = dmap_on {h} (\<lambda>p. p\<lparr>pg_children := {}\<rparr>) pages3
      in touch True affected_handles affected_contexts {C_topology, C_owner, C_residency}
           (ix\<lparr>ix_pages := pages4,
               ix_context_pages :=
                 dmap_on affected_contexts (\<lambda>hs. hs - {h}) (ix_context_pages ix)\<rparr>))"

definition free_page :: "page_handle \<Rightarrow> page_index \<Rightarrow> page_index result" where
  "free_page h ix =
     rbind (require_page ix h) (\<lambda>page.
       if pg_engine_lock_ref page \<noteq> 0 \<or> pg_active_reader_count page \<noteq> 0 \<or> \<not> transfer_idle page
       then Inl (PageIndexError ''cannot free active page'')
       else Inr (detach_page h page (\<lambda>_. True) ix))"

definition invalidate_page :: "page_handle \<Rightarrow> page_index \<Rightarrow> page_index result" where
  "invalidate_page h ix =
     rbind (require_page ix h) (\<lambda>page.
       if \<not> transfer_idle page
       then Inl (PageIndexError ''cannot mutate in-flight page extent'')
       else Inr (detach_page h page (\<lambda>child. \<not> page_dead child) ix))"

lemma require_page_known: "require_page ix h = Inr p \<Longrightarrow> h \<in> fst ` set (ix_pages ix)"
  by (auto simp: require_page_def split: if_splits option.splits intro: dict_key)

text \<open>The ancestor walk of \<open>set_parent\<close>; it ends because every visited page is registered and
  none is visited twice.\<close>

function check_ancestors ::
  "page_index \<Rightarrow> page_handle \<Rightarrow> page_handle option \<Rightarrow> page_handle set \<Rightarrow> unit result" where
  "check_ancestors ix h None seen = Inr ()"
| "check_ancestors ix h (Some a) seen =
     (if a = h then Inl (PageIndexError ''Radix parent update would create a cycle'')
      else if a \<in> seen then Inl (PageIndexError ''existing Radix parent cycle detected'')
      else rbind (require_page ix a)
             (\<lambda>p. check_ancestors ix h (pg_parent p) (insert a seen)))"
  by pat_completeness auto

termination
proof (relation "measure (\<lambda>(ix, h, a, seen). card (fst ` set (ix_pages ix) - seen))")
  show "wf (measure (\<lambda>(ix, h, a, seen). card (fst ` set (ix_pages ix) - seen)))" by simp
next
  fix ix h a seen p
  assume "a \<notin> seen" and "require_page ix a = Inr p"
  then have "a \<in> fst ` set (ix_pages ix) - seen"
    by (simp add: require_page_known)
  then have "card (fst ` set (ix_pages ix) - insert a seen) < card (fst ` set (ix_pages ix) - seen)"
    by (intro psubset_card_mono) auto
  then show "((ix, h, pg_parent p, insert a seen), ix, h, Some a, seen)
      \<in> measure (\<lambda>(ix, h, a, seen). card (fst ` set (ix_pages ix) - seen))"
    by simp
qed

definition set_parent ::
  "page_handle \<Rightarrow> page_handle option \<Rightarrow> page_index \<Rightarrow> page_index result" where
  "set_parent h parent ix =
     rbind (require_page ix h) (\<lambda>page.
     if parent = Some h then Inl (PageIndexError ''a page cannot be its own parent'')
     else rbind (case parent of None \<Rightarrow> Inr ()
                 | Some q \<Rightarrow> rbind (require_page ix q) (\<lambda>_. check_ancestors ix h parent {})) (\<lambda>_.
       if pg_parent page = parent
       then (case parent of
               None \<Rightarrow> Inr ix
             | Some q \<Rightarrow>
                 rbind (dict_item (ix_pages ix) q ''page'') (\<lambda>parent_page.
                   if h \<notin> pg_children parent_page
                   then Inr (touch True {h, q} {} {C_topology}
                          (ix\<lparr>ix_pages := dmap_on {q} (add_child h) (ix_pages ix)\<rparr>))
                   else Inr ix))
       else
         let previous_parent = pg_parent page;
             pages1 = (case previous_parent of None \<Rightarrow> ix_pages ix
                       | Some q \<Rightarrow> dmap_on {q} (discard_child h) (ix_pages ix));
             pages2 = dmap_on {h} (\<lambda>p. p\<lparr>pg_parent := parent\<rparr>) pages1;
             pages3 = (case parent of None \<Rightarrow> pages2 | Some q \<Rightarrow> dmap_on {q} (add_child h) pages2)
         in Inr (touch True (insert h (set_option previous_parent \<union> set_option parent)) {}
              {C_topology} (ix\<lparr>ix_pages := pages3\<rparr>))))"

section \<open>Per-page state\<close>

definition with_page ::
  "page_handle \<Rightarrow> (page_record \<Rightarrow> page_record) \<Rightarrow> page_index \<Rightarrow> page_index" where
  "with_page h f ix = ix\<lparr>ix_pages := dmap_on {h} f (ix_pages ix)\<rparr>"

definition set_engine_lock :: "page_handle \<Rightarrow> int \<Rightarrow> page_index \<Rightarrow> page_index result" where
  "set_engine_lock h v ix =
     (if v < 0 then Inl (ValueError ''engine lock must be non-negative'')
      else rbind (require_page ix h) (\<lambda>page.
        Inr (if pg_engine_lock_ref page \<noteq> v
             then touch False {h} {} {C_lock} (with_page h (\<lambda>p. p\<lparr>pg_engine_lock_ref := v\<rparr>) ix)
             else ix)))"

definition set_active_readers :: "page_handle \<Rightarrow> int \<Rightarrow> page_index \<Rightarrow> page_index result" where
  "set_active_readers h v ix =
     (if v < 0 then Inl (ValueError ''active readers must be non-negative'')
      else rbind (require_page ix h) (\<lambda>page.
        Inr (if pg_active_reader_count page \<noteq> v
             then touch False {h} {} {C_reader}
                    (with_page h (\<lambda>p. p\<lparr>pg_active_reader_count := v\<rparr>) ix)
             else ix)))"

definition pin_context :: "string \<Rightarrow> page_index \<Rightarrow> page_index result" where
  "pin_context c ix =
     rbind (context_pages ix c) (\<lambda>pages.
       let handles = pg_handle ` set pages;
           changed = (\<exists>p \<in> set pages. c \<notin> pg_semantic_pin_contexts p);
           ix' = ix\<lparr>ix_pages := dmap_on handles
                      (\<lambda>p. p\<lparr>pg_semantic_pin_contexts := insert c (pg_semantic_pin_contexts p)\<rparr>)
                      (ix_pages ix)\<rparr>
       in Inr (if changed then touch False handles {c} {C_semantic_pin} ix' else ix'))"

definition unpin_context :: "string \<Rightarrow> page_index \<Rightarrow> page_index result" where
  "unpin_context c ix =
     rbind (context_pages ix c) (\<lambda>pages.
       let handles = pg_handle ` set pages;
           changed = (\<exists>p \<in> set pages. c \<in> pg_semantic_pin_contexts p);
           ix' = ix\<lparr>ix_pages := dmap_on handles
                      (\<lambda>p. p\<lparr>pg_semantic_pin_contexts := pg_semantic_pin_contexts p - {c}\<rparr>)
                      (ix_pages ix)\<rparr>
       in Inr (if changed then touch False handles {c} {C_semantic_pin} ix' else ix'))"

definition opt_differs :: "'a option \<Rightarrow> 'a \<Rightarrow> bool" where
  "opt_differs v x = (case v of None \<Rightarrow> False | Some y \<Rightarrow> x \<noteq> y)"

definition opt_or :: "'a option \<Rightarrow> 'a \<Rightarrow> 'a" where
  "opt_or v x = (case v of None \<Rightarrow> x | Some y \<Rightarrow> y)"

definition update_runtime_state ::
  "page_handle \<Rightarrow> physical_residency option \<Rightarrow> int option \<Rightarrow> int option \<Rightarrow> real option
   \<Rightarrow> page_index \<Rightarrow> page_index result" where
  "update_runtime_state h residency radix_depth engine_lock_ref last_access_ms ix =
     rbind (require_page ix h) (\<lambda>page.
       if (case radix_depth of None \<Rightarrow> False | Some d \<Rightarrow> d < 0)
       then Inl (ValueError ''radix_depth must be non-negative'')
       else if (case engine_lock_ref of None \<Rightarrow> False | Some r \<Rightarrow> r < 0)
       then Inl (ValueError ''engine_lock_ref must be non-negative'')
       else if (case last_access_ms of None \<Rightarrow> False | Some t \<Rightarrow> t < 0)
       then Inl (ValueError ''last_access_ms must be non-negative'')
       else
         let topology_changed = opt_differs radix_depth (pg_radix_depth page);
             changed = opt_differs residency (pg_residency page) \<or> topology_changed
                     \<or> opt_differs engine_lock_ref (pg_engine_lock_ref page)
                     \<or> opt_differs last_access_ms (pg_last_access_ms page);
             components = (if residency \<noteq> None then {C_residency} else {})
                        \<union> (if radix_depth \<noteq> None then {C_topology} else {})
                        \<union> (if engine_lock_ref \<noteq> None then {C_lock} else {})
                        \<union> (if last_access_ms \<noteq> None then {C_access} else {});
             ix' = with_page h (\<lambda>p. p\<lparr>pg_residency := opt_or residency (pg_residency p),
                                     pg_radix_depth := opt_or radix_depth (pg_radix_depth p),
                                     pg_engine_lock_ref := opt_or engine_lock_ref (pg_engine_lock_ref p),
                                     pg_last_access_ms := opt_or last_access_ms (pg_last_access_ms p)\<rparr>) ix
         in Inr (if changed
                 then touch topology_changed {h} (set (map fst (pg_owner_contexts page))) components ix'
                 else ix'))"

section \<open>Transfers\<close>

definition touch_transfer ::
  "page_handle \<Rightarrow> page_record \<Rightarrow> component set \<Rightarrow> (page_record \<Rightarrow> page_record) \<Rightarrow> page_index
   \<Rightarrow> page_index" where
  "touch_transfer h page components f ix =
     touch False {h} (set (map fst (pg_owner_contexts page))) components (with_page h f ix)"

definition begin_transfer ::
  "page_handle \<Rightarrow> transfer_direction \<Rightarrow> page_index \<Rightarrow> page_index result" where
  "begin_transfer h direction ix =
     rbind (require_page ix h) (\<lambda>page.
       if \<not> transfer_idle page then Inl (PageIndexError ''page already in transfer'')
       else if direction = D2H then
         (if pg_residency page \<noteq> GPU_ONLY then Inl (PageIndexError ''D2H requires GPU_ONLY'')
          else Inr (touch_transfer h page {C_residency, C_transfer}
                 (\<lambda>p. p\<lparr>pg_residency := MIRRORING, pg_transfer_direction := Some direction\<rparr>) ix))
       else
         (if pg_residency page \<noteq> CPU_ONLY then Inl (PageIndexError ''H2D requires CPU_ONLY'')
          else Inr (touch_transfer h page {C_residency, C_transfer}
                 (\<lambda>p. p\<lparr>pg_residency := PREFETCHING, pg_transfer_direction := Some direction\<rparr>) ix)))"

definition complete_transfer ::
  "page_handle \<Rightarrow> transfer_direction \<Rightarrow> bool \<Rightarrow> page_index \<Rightarrow> page_index result" where
  "complete_transfer h direction keep_gpu ix =
     rbind (require_page ix h) (\<lambda>page.
       if pg_transfer_direction page \<noteq> Some direction
       then Inl (PageIndexError ''unexpected transfer ACK'')
       else
         let residency = (if direction = D2H then (if keep_gpu then DUAL_CLEAN else CPU_ONLY)
                          else DUAL_CLEAN)
         in Inr (touch_transfer h page {C_residency, C_transfer}
              (\<lambda>p. p\<lparr>pg_residency := residency, pg_transfer_direction := None\<rparr>) ix))"

definition abort_transfer :: "page_handle \<Rightarrow> page_index \<Rightarrow> page_index result" where
  "abort_transfer h ix =
     rbind (require_page ix h) (\<lambda>page.
       case pg_transfer_direction page of
         Some D2H \<Rightarrow> Inr (touch_transfer h page {C_residency, C_transfer}
                       (\<lambda>p. p\<lparr>pg_residency := GPU_ONLY, pg_transfer_direction := None\<rparr>) ix)
       | Some H2D \<Rightarrow> Inr (touch_transfer h page {C_residency, C_transfer}
                       (\<lambda>p. p\<lparr>pg_residency := CPU_ONLY, pg_transfer_direction := None\<rparr>) ix)
       | None \<Rightarrow> Inl (PageIndexError ''page is not in transfer''))"

definition commit_cpu :: "page_handle \<Rightarrow> page_index \<Rightarrow> page_index result" where
  "commit_cpu h ix =
     rbind (require_page ix h) (\<lambda>page.
       if pg_residency page = CPU_ONLY then Inr ix
       else if pg_residency page \<noteq> DUAL_CLEAN
       then Inl (PageIndexError ''commit requires DUAL_CLEAN or the CPU_ONLY postcondition'')
       else Inr (touch_transfer h page {C_residency} (\<lambda>p. p\<lparr>pg_residency := CPU_ONLY\<rparr>) ix))"

definition drop_page :: "page_handle \<Rightarrow> page_index \<Rightarrow> page_index result" where
  "drop_page h ix =
     rbind (require_page ix h) (\<lambda>page.
       if \<not> transfer_idle page then Inl (PageIndexError ''cannot drop an in-flight page'')
       else if pg_residency page = DUAL_CLEAN
       then Inr (touch_transfer h page {C_residency} (\<lambda>p. p\<lparr>pg_residency := CPU_ONLY\<rparr>) ix)
       else if pg_residency page = GPU_ONLY then free_page h ix
       else if pg_residency page = CPU_ONLY then free_page h ix
       else Inl (PageIndexError ''cannot drop page in this state''))"

definition drop_host_copy :: "page_handle \<Rightarrow> page_index \<Rightarrow> page_index result" where
  "drop_host_copy h ix =
     rbind (require_page ix h) (\<lambda>page.
       if \<not> transfer_idle page then Inl (PageIndexError ''cannot drop an in-flight host copy'')
       else if pg_residency page = DUAL_CLEAN
       then Inr (touch_transfer h page {C_residency} (\<lambda>p. p\<lparr>pg_residency := GPU_ONLY\<rparr>) ix)
       else if pg_residency page = CPU_ONLY then free_page h ix
       else Inl (PageIndexError ''host-copy drop requires DUAL_CLEAN or CPU_ONLY''))"

end
