(* ===== verification/Page_Index_Inv.thy ===== *)
theory Page_Index_Inv
  imports Page_Index
begin

text \<open>
  Consistency of the page ownership index. \<open>assert_consistent\<close> is the executable self-check of
  \<open>page_index.py\<close>; \<open>ix_inv\<close> is the invariant behind it, strengthened until every operation
  keeps it: ownership is mirrored on both sides with equal epochs, Radix edges agree on both
  sides and are acyclic, at most the latest generation of a page id is alive, semantic pins
  belong to owners, and a page in transfer has the matching residency.
\<close>

section \<open>The self-check of the code\<close>

definition raise_if :: "bool \<Rightarrow> err \<Rightarrow> unit result" where
  "raise_if b e = (if b then Inl e else Inr ())"

definition assert_context_page :: "page_index \<Rightarrow> string \<Rightarrow> page_handle \<Rightarrow> unit result" where
  "assert_context_page ix c h =
     rbind (dict_item (ix_pages ix) h ''page'') (\<lambda>page.
       case map_of (pg_owner_contexts page) c of
         None \<Rightarrow> Inl (AssertionError ''context->page mapping lacks reverse owner'')
       | Some e \<Rightarrow>
           rbind (dict_item (ix_context_epoch ix) c ''context'') (\<lambda>epoch.
             raise_if (e \<noteq> epoch)
               (AssertionError ''page owner epoch differs from context epoch'')))"

definition page_is_live :: "page_index \<Rightarrow> page_handle \<Rightarrow> bool" where
  "page_is_live ix h =
     (case map_of (ix_pages ix) h of None \<Rightarrow> False | Some p \<Rightarrow> \<not> page_dead p)"

definition assert_page :: "page_index \<Rightarrow> page_record \<Rightarrow> unit result" where
  "assert_page ix page =
     rbind (rfold (\<lambda>c _. raise_if (pg_handle page \<notin> context_page_set ix c)
              (AssertionError ''page owner lacks reverse context mapping''))
              (map fst (pg_owner_contexts page)) ()) (\<lambda>_.
     rbind (raise_if (pg_engine_lock_ref page < 0 \<or> pg_active_reader_count page < 0)
              (AssertionError ''negative page reference count'')) (\<lambda>_.
     if page_dead page
     then raise_if (pg_children page \<noteq> {}) (AssertionError ''dead page retains Radix children'')
     else
       rbind (case pg_parent page of
                None \<Rightarrow> Inr ()
              | Some q \<Rightarrow>
                  (case map_of (ix_pages ix) q of
                     None \<Rightarrow> Inl (AssertionError ''live page has a missing or dead Radix parent'')
                   | Some parent \<Rightarrow>
                       rbind (raise_if (page_dead parent)
                                (AssertionError ''live page has a missing or dead Radix parent''))
                         (\<lambda>_. raise_if (pg_handle page \<notin> pg_children parent)
                                (AssertionError ''Radix child lacks reverse parent edge'')))) (\<lambda>_.
       rfold (\<lambda>k _.
                (case map_of (ix_pages ix) k of
                   None \<Rightarrow> Inl (AssertionError ''Radix parent retains a missing or dead child'')
                 | Some child \<Rightarrow>
                     rbind (raise_if (page_dead child)
                              (AssertionError ''Radix parent retains a missing or dead child''))
                       (\<lambda>_. raise_if (pg_parent child \<noteq> Some (pg_handle page))
                              (AssertionError ''Radix parent/child edge diverged''))))
         (sorted_list_of_set (pg_children page)) ())))"

definition assert_consistent :: "page_index \<Rightarrow> unit result" where
  "assert_consistent ix =
     rbind (rfold (\<lambda>(c, hs) _. rfold (\<lambda>h _. assert_context_page ix c h) (sorted_list_of_set hs) ())
              (ix_context_pages ix) ()) (\<lambda>_.
     rfold (\<lambda>page _. assert_page ix page) (map snd (ix_pages ix)) ())"

section \<open>The invariant\<close>

text \<open>The projections the invariant speaks about: which handles are alive, and the parent,
  children and owner epochs recorded for a handle.\<close>

type_synonym page_map = "page_handle \<rightharpoonup> page_record"

definition live_of :: "page_map \<Rightarrow> page_handle \<Rightarrow> bool" where
  "live_of M h = (case M h of None \<Rightarrow> False | Some p \<Rightarrow> \<not> page_dead p)"

definition parent_of :: "page_map \<Rightarrow> page_handle \<Rightarrow> page_handle option" where
  "parent_of M h = (case M h of None \<Rightarrow> None | Some p \<Rightarrow> pg_parent p)"

definition children_of :: "page_map \<Rightarrow> page_handle \<Rightarrow> page_handle set" where
  "children_of M h = (case M h of None \<Rightarrow> {} | Some p \<Rightarrow> pg_children p)"

definition owner_of :: "page_map \<Rightarrow> page_handle \<Rightarrow> string \<rightharpoonup> int" where
  "owner_of M h = (case M h of None \<Rightarrow> Map.empty | Some p \<Rightarrow> map_of (pg_owner_contexts p))"

definition page_ok :: "page_handle \<Rightarrow> page_record \<Rightarrow> bool" where
  "page_ok h p \<longleftrightarrow>
     pg_handle p = h \<and> dict_ok (pg_owner_contexts p) \<and> finite (pg_children p) \<and>
     0 \<le> pg_engine_lock_ref p \<and> 0 \<le> pg_active_reader_count p \<and> 0 < pg_size_bytes p \<and>
     pg_semantic_pin_contexts p \<subseteq> fst ` set (pg_owner_contexts p) \<and>
     (pg_transfer_direction p = Some D2H \<longrightarrow> pg_residency p = MIRRORING) \<and>
     (pg_transfer_direction p = Some H2D \<longrightarrow> pg_residency p = PREFETCHING)"

definition edges_ok ::
  "(page_handle \<Rightarrow> bool) \<Rightarrow> (page_handle \<Rightarrow> page_handle option) \<Rightarrow> (page_handle \<Rightarrow> page_handle set)
   \<Rightarrow> bool" where
  "edges_ok live parent children \<longleftrightarrow>
     (\<forall>h. \<not> live h \<longrightarrow> children h = {}) \<and>
     (\<forall>h q. live h \<longrightarrow> parent h = Some q \<longrightarrow> live q \<and> h \<in> children q) \<and>
     (\<forall>h k. live h \<longrightarrow> k \<in> children h \<longrightarrow> live k \<and> parent k = Some h)"

definition parent_edges ::
  "(page_handle \<Rightarrow> bool) \<Rightarrow> (page_handle \<Rightarrow> page_handle option) \<Rightarrow> (page_handle \<times> page_handle) set"
  where
  "parent_edges live parent = {(h, q). live h \<and> parent h = Some q}"

definition generations_ok ::
  "page_handle set \<Rightarrow> (page_handle \<Rightarrow> bool) \<Rightarrow> (int \<rightharpoonup> int) \<Rightarrow> bool" where
  "generations_ok known live latest \<longleftrightarrow>
     (\<forall>h \<in> known. \<exists>g. latest (page_id h) = Some g \<and> allocation_generation h \<le> g \<and>
        (live h \<longrightarrow> allocation_generation h = g))"

definition owners_ok ::
  "(page_handle \<Rightarrow> string \<rightharpoonup> int) \<Rightarrow> (string \<rightharpoonup> page_handle set) \<Rightarrow> (string \<rightharpoonup> int) \<Rightarrow> bool" where
  "owners_ok owner CP CE \<longleftrightarrow>
     (\<forall>c hs h. CP c = Some hs \<longrightarrow> h \<in> hs \<longrightarrow> CE c \<noteq> None \<and> owner h c = CE c) \<and>
     (\<forall>h c. owner h c \<noteq> None \<longrightarrow> (\<exists>hs. CP c = Some hs \<and> h \<in> hs))"

definition contexts_ok :: "page_index \<Rightarrow> bool" where
  "contexts_ok ix \<longleftrightarrow>
     (\<forall>c hs. map_of (ix_context_pages ix) c = Some hs \<longrightarrow> finite hs) \<and>
     dom (map_of (ix_context_workflow ix)) = dom (map_of (ix_context_epoch ix))"

definition pages_inv :: "page_map \<Rightarrow> (int \<rightharpoonup> int) \<Rightarrow> bool" where
  "pages_inv M latest \<longleftrightarrow>
     (\<forall>h p. M h = Some p \<longrightarrow> page_ok h p) \<and>
     edges_ok (live_of M) (parent_of M) (children_of M) \<and>
     acyclic (parent_edges (live_of M) (parent_of M)) \<and>
     generations_ok (dom M) (live_of M) latest"

definition ix_inv :: "page_index \<Rightarrow> bool" where
  "ix_inv ix \<longleftrightarrow>
     dict_ok (ix_pages ix) \<and> dict_ok (ix_context_pages ix) \<and> contexts_ok ix \<and>
     pages_inv (map_of (ix_pages ix)) (map_of (ix_latest_generation ix)) \<and>
     owners_ok (owner_of (map_of (ix_pages ix))) (map_of (ix_context_pages ix))
       (map_of (ix_context_epoch ix))"

section \<open>Reading the operations\<close>

lemmas proj_defs = live_of_def parent_of_def children_of_def owner_of_def

lemma proj_Some [simp]:
  assumes "M h = Some p"
  shows "live_of M h \<longleftrightarrow> \<not> page_dead p" "parent_of M h = pg_parent p"
    "children_of M h = pg_children p" "owner_of M h = map_of (pg_owner_contexts p)"
  using assms by (simp_all add: proj_defs)

lemma proj_None [simp]:
  assumes "M h = None"
  shows "\<not> live_of M h" "parent_of M h = None" "children_of M h = {}" "owner_of M h = Map.empty"
  using assms by (simp_all add: proj_defs)

lemma touch_sel [simp]:
  "ix_pages (touch t hs cs comps ix) = ix_pages ix"
  "ix_latest_generation (touch t hs cs comps ix) = ix_latest_generation ix"
  "ix_context_pages (touch t hs cs comps ix) = ix_context_pages ix"
  "ix_context_epoch (touch t hs cs comps ix) = ix_context_epoch ix"
  "ix_context_workflow (touch t hs cs comps ix) = ix_context_workflow ix"
  by (simp_all add: touch_def Let_def)

lemma ix_inv_touch [simp]: "ix_inv (touch t hs cs comps ix) = ix_inv ix"
  by (simp add: ix_inv_def contexts_ok_def)

lemma require_page_Inr:
  "require_page ix h = Inr p \<longleftrightarrow>
     map_of (ix_pages ix) h = Some p \<and> \<not> page_dead p \<and>
     (case map_of (ix_latest_generation ix) (page_id h) of
        None \<Rightarrow> True | Some g \<Rightarrow> g = allocation_generation h)"
  by (auto simp: require_page_def split: option.splits if_splits)

lemma require_page_live:
  assumes "require_page ix h = Inr p"
  shows "map_of (ix_pages ix) h = Some p" and "\<not> page_dead p"
  using assms by (simp_all add: require_page_Inr)

definition map_update ::
  "page_handle set \<Rightarrow> (page_record \<Rightarrow> page_record) \<Rightarrow> page_map \<Rightarrow> page_map" where
  "map_update ks f M = (\<lambda>k. if k \<in> ks then map_option f (M k) else M k)"

lemma map_of_dmap_update [dict_simps]: "map_of (dmap_on ks f d) = map_update ks f (map_of d)"
  by (rule ext) (simp add: map_of_dmap_on map_update_def)

lemma map_update_apply:
  "map_update ks f M h = (if h \<in> ks then map_option f (M h) else M h)"
  by (simp add: map_update_def)

lemma dom_map_update [simp]: "dom (map_update ks f M) = dom M"
  by (auto simp: map_update_def dom_def)

text \<open>A projection of an updated map is the projection of the old one, updated.\<close>

lemma live_of_update:
  "live_of (map_update ks f M) h =
     (if h \<in> ks then (case M h of None \<Rightarrow> False | Some p \<Rightarrow> \<not> page_dead (f p)) else live_of M h)"
  by (simp add: live_of_def map_update_def split: option.split)

lemma parent_of_update:
  "parent_of (map_update ks f M) h =
     (if h \<in> ks then (case M h of None \<Rightarrow> None | Some p \<Rightarrow> pg_parent (f p)) else parent_of M h)"
  by (simp add: parent_of_def map_update_def split: option.split)

lemma children_of_update:
  "children_of (map_update ks f M) h =
     (if h \<in> ks then (case M h of None \<Rightarrow> {} | Some p \<Rightarrow> pg_children (f p)) else children_of M h)"
  by (simp add: children_of_def map_update_def split: option.split)

lemma owner_of_update:
  "owner_of (map_update ks f M) h =
     (if h \<in> ks then (case M h of None \<Rightarrow> Map.empty | Some p \<Rightarrow> map_of (pg_owner_contexts (f p)))
      else owner_of M h)"
  by (simp add: owner_of_def map_update_def split: option.split)

lemmas proj_update = live_of_update parent_of_update children_of_update owner_of_update

section \<open>Updates that keep the structure\<close>

text \<open>A rewrite of page records is local when it keeps everything the invariant relates between
  pages and contexts.\<close>

definition same_shape :: "page_record \<Rightarrow> page_record \<Rightarrow> bool" where
  "same_shape p p' \<longleftrightarrow>
     pg_parent p' = pg_parent p \<and> pg_children p' = pg_children p \<and>
     pg_owner_contexts p' = pg_owner_contexts p \<and> (page_dead p' \<longleftrightarrow> page_dead p)"

lemma proj_same_shape:
  assumes "\<And>h p. h \<in> ks \<Longrightarrow> M h = Some p \<Longrightarrow> same_shape p (f p)"
  shows "live_of (map_update ks f M) = live_of M" "parent_of (map_update ks f M) = parent_of M"
    "children_of (map_update ks f M) = children_of M" "owner_of (map_update ks f M) = owner_of M"
proof -
  have "live_of (map_update ks f M) h = live_of M h \<and> parent_of (map_update ks f M) h = parent_of M h \<and>
      children_of (map_update ks f M) h = children_of M h \<and> owner_of (map_update ks f M) h = owner_of M h"
    for h
    using assms [of h] by (cases "M h") (auto simp: proj_update same_shape_def)
  then show "live_of (map_update ks f M) = live_of M" "parent_of (map_update ks f M) = parent_of M"
    "children_of (map_update ks f M) = children_of M" "owner_of (map_update ks f M) = owner_of M"
    by auto
qed

lemma ix_inv_local:
  assumes inv: "ix_inv ix"
    and shape: "\<And>h p. h \<in> ks \<Longrightarrow> map_of (ix_pages ix) h = Some p \<Longrightarrow> same_shape p (f p)"
    and ok: "\<And>h p. h \<in> ks \<Longrightarrow> map_of (ix_pages ix) h = Some p \<Longrightarrow> page_ok h p \<Longrightarrow> page_ok h (f p)"
  shows "ix_inv (ix\<lparr>ix_pages := dmap_on ks f (ix_pages ix)\<rparr>)"
proof -
  note [simp] = proj_same_shape [OF shape]
  have "\<forall>h p. map_update ks f (map_of (ix_pages ix)) h = Some p \<longrightarrow> page_ok h p"
    using inv ok by (auto simp: ix_inv_def pages_inv_def map_update_apply)
  with inv show ?thesis
    by (simp add: ix_inv_def pages_inv_def contexts_ok_def map_of_dmap_update)
qed

lemma ix_inv_with_page:
  assumes "ix_inv ix" and "map_of (ix_pages ix) h = Some p"
    and "same_shape p (f p)" and "page_ok h p \<Longrightarrow> page_ok h (f p)"
  shows "ix_inv (with_page h f ix)"
  unfolding with_page_def using assms by (intro ix_inv_local) auto

section \<open>Per-page operations keep the invariant\<close>

lemma touch_transfer_inv:
  assumes "ix_inv ix" and "map_of (ix_pages ix) h = Some p"
    and "same_shape p (f p)" and "page_ok h p \<Longrightarrow> page_ok h (f p)"
  shows "ix_inv (touch_transfer h p comps f ix)"
  using ix_inv_with_page [of ix h p f] assms by (simp add: touch_transfer_def)

lemmas page_rewrite = same_shape_def page_ok_def

lemma set_engine_lock_inv:
  assumes "set_engine_lock h v ix = Inr ix'" and "ix_inv ix"
  shows "ix_inv ix'"
proof -
  from assms obtain p where p: "map_of (ix_pages ix) h = Some p" and v: "0 \<le> v"
    by (auto simp: set_engine_lock_def require_page_Inr split: if_splits)
  have "ix_inv (with_page h (\<lambda>p. p\<lparr>pg_engine_lock_ref := v\<rparr>) ix)"
    by (rule ix_inv_with_page [OF assms(2) p]) (use v in \<open>simp_all add: page_rewrite\<close>)
  with assms show ?thesis
    by (auto simp: set_engine_lock_def split: if_splits)
qed

lemma set_active_readers_inv:
  assumes "set_active_readers h v ix = Inr ix'" and "ix_inv ix"
  shows "ix_inv ix'"
proof -
  from assms obtain p where p: "map_of (ix_pages ix) h = Some p" and v: "0 \<le> v"
    by (auto simp: set_active_readers_def require_page_Inr split: if_splits)
  have "ix_inv (with_page h (\<lambda>p. p\<lparr>pg_active_reader_count := v\<rparr>) ix)"
    by (rule ix_inv_with_page [OF assms(2) p]) (use v in \<open>simp_all add: page_rewrite\<close>)
  with assms show ?thesis
    by (auto simp: set_active_readers_def split: if_splits)
qed

lemma begin_transfer_inv: "begin_transfer h d ix = Inr ix' \<Longrightarrow> ix_inv ix \<Longrightarrow> ix_inv ix'"
  by (cases d)
    (auto simp: begin_transfer_def require_page_Inr page_rewrite
      split: if_splits intro!: touch_transfer_inv)

lemma complete_transfer_inv: "complete_transfer h d k ix = Inr ix' \<Longrightarrow> ix_inv ix \<Longrightarrow> ix_inv ix'"
  by (auto simp: complete_transfer_def require_page_Inr page_rewrite Let_def
      split: if_splits intro!: touch_transfer_inv)

lemma abort_transfer_inv: "abort_transfer h ix = Inr ix' \<Longrightarrow> ix_inv ix \<Longrightarrow> ix_inv ix'"
  by (auto simp: abort_transfer_def require_page_Inr page_rewrite
      split: option.splits transfer_direction.splits intro!: touch_transfer_inv)

lemma commit_cpu_inv:
  assumes "commit_cpu h ix = Inr ix'" and "ix_inv ix"
  shows "ix_inv ix'"
proof (cases "ix' = ix")
  case False
  with assms obtain p where p: "map_of (ix_pages ix) h = Some p" "pg_residency p = DUAL_CLEAN"
    and ix': "ix' = touch_transfer h p {C_residency} (\<lambda>p. p\<lparr>pg_residency := CPU_ONLY\<rparr>) ix"
    by (auto simp: commit_cpu_def require_page_Inr split: if_splits)
  show ?thesis
    unfolding ix' using assms(2) p by (auto intro!: touch_transfer_inv simp: page_rewrite)
qed (use assms in simp)

lemma page_ok_ix: "ix_inv ix \<Longrightarrow> map_of (ix_pages ix) h = Some p \<Longrightarrow> page_ok h p"
  by (simp add: ix_inv_def pages_inv_def)

text \<open>An observation of the engine may overwrite the residency; it must not report a dead page
  and must not contradict a transfer in flight.\<close>

definition runtime_residency_ok :: "physical_residency option \<Rightarrow> page_record \<Rightarrow> bool" where
  "runtime_residency_ok residency p \<longleftrightarrow>
     (case residency of None \<Rightarrow> True | Some r \<Rightarrow> r \<noteq> DEAD \<and> (transfer_idle p \<or> r = pg_residency p))"

lemma opt_or_same: "\<not> opt_differs v x \<Longrightarrow> opt_or v x = x"
  by (cases v) (simp_all add: opt_differs_def opt_or_def)

lemma update_runtime_state_inv:
  assumes step: "update_runtime_state h res dep lk acc ix = Inr ix'" and inv: "ix_inv ix"
    and guard: "\<And>p. require_page ix h = Inr p \<Longrightarrow> runtime_residency_ok res p"
  shows "ix_inv ix'"
proof -
  from step obtain p where r: "require_page ix h = Inr p" and lk: "case lk of None \<Rightarrow> True | Some v \<Rightarrow> 0 \<le> v"
    by (auto simp: update_runtime_state_def split: if_splits option.splits)
  let ?f = "\<lambda>p. p\<lparr>pg_residency := opt_or res (pg_residency p),
                  pg_radix_depth := opt_or dep (pg_radix_depth p),
                  pg_engine_lock_ref := opt_or lk (pg_engine_lock_ref p),
                  pg_last_access_ms := opt_or acc (pg_last_access_ms p)\<rparr>"
  have p: "map_of (ix_pages ix) h = Some p" "\<not> page_dead p"
    using r by (simp_all add: require_page_Inr)
  have "ix_inv (with_page h ?f ix)"
  proof (rule ix_inv_with_page [OF inv p(1)])
    show "same_shape p (?f p)"
      using guard [OF r] p(2)
      by (auto simp: same_shape_def runtime_residency_ok_def opt_or_def split: option.splits)
    show "page_ok h p \<Longrightarrow> page_ok h (?f p)"
      using guard [OF r] lk
      by (auto simp: page_ok_def runtime_residency_ok_def opt_or_def transfer_idle_def split: option.splits)
  qed
  with step r show ?thesis
    by (auto simp: update_runtime_state_def Let_def split: if_splits)
qed

section \<open>Ownership operations keep the invariant\<close>

definition same_edges :: "page_record \<Rightarrow> page_record \<Rightarrow> bool" where
  "same_edges p p' \<longleftrightarrow>
     pg_parent p' = pg_parent p \<and> pg_children p' = pg_children p \<and> (page_dead p' \<longleftrightarrow> page_dead p)"

lemma proj_same_edges:
  assumes "\<And>h p. h \<in> ks \<Longrightarrow> M h = Some p \<Longrightarrow> same_edges p (f p)"
  shows "live_of (map_update ks f M) = live_of M" "parent_of (map_update ks f M) = parent_of M"
    "children_of (map_update ks f M) = children_of M"
proof -
  have "live_of (map_update ks f M) h = live_of M h \<and> parent_of (map_update ks f M) h = parent_of M h \<and>
      children_of (map_update ks f M) h = children_of M h" for h
    using assms [of h] by (cases "M h") (auto simp: proj_update same_edges_def)
  then show "live_of (map_update ks f M) = live_of M" "parent_of (map_update ks f M) = parent_of M"
    "children_of (map_update ks f M) = children_of M"
    by auto
qed

lemma ix_inv_owners:
  assumes inv: "ix_inv ix"
    and edges: "\<And>h p. h \<in> ks \<Longrightarrow> map_of (ix_pages ix) h = Some p \<Longrightarrow> same_edges p (f p)"
    and ok: "\<And>h p. h \<in> ks \<Longrightarrow> map_of (ix_pages ix) h = Some p \<Longrightarrow> page_ok h p \<Longrightarrow> page_ok h (f p)"
    and pages: "ix_pages ix' = dmap_on ks f (ix_pages ix)"
    and latest: "ix_latest_generation ix' = ix_latest_generation ix"
    and cp: "dict_ok (ix_context_pages ix')" and ctx: "contexts_ok ix'"
    and owners: "owners_ok (owner_of (map_update ks f (map_of (ix_pages ix))))
                   (map_of (ix_context_pages ix')) (map_of (ix_context_epoch ix'))"
  shows "ix_inv ix'"
proof -
  note [simp] = proj_same_edges [OF edges]
  have "\<forall>h p. map_update ks f (map_of (ix_pages ix)) h = Some p \<longrightarrow> page_ok h p"
    using inv ok by (auto simp: ix_inv_def pages_inv_def map_update_apply)
  with inv cp ctx owners show ?thesis
    by (simp add: ix_inv_def pages_inv_def map_of_dmap_update pages latest)
qed

lemma owners_okD:
  assumes "owners_ok owner CP CE"
  shows "CP c = Some hs \<Longrightarrow> h \<in> hs \<Longrightarrow> owner h c = CE c"
    and "CP c = Some hs \<Longrightarrow> h \<in> hs \<Longrightarrow> CE c \<noteq> None"
    and "owner h c \<noteq> None \<Longrightarrow> \<exists>hs. CP c = Some hs \<and> h \<in> hs"
  using assms by (auto simp: owners_ok_def)

lemma ix_inv_parts:
  assumes "ix_inv ix"
  shows "dict_ok (ix_pages ix)" "dict_ok (ix_context_pages ix)" "contexts_ok ix"
    "pages_inv (map_of (ix_pages ix)) (map_of (ix_latest_generation ix))"
    "owners_ok (owner_of (map_of (ix_pages ix))) (map_of (ix_context_pages ix))
       (map_of (ix_context_epoch ix))"
  using assms by (auto simp: ix_inv_def)

text \<open>A page listed for a context is registered and owned by it at the context's epoch.\<close>

lemma context_page_owned:
  assumes inv: "ix_inv ix" and h: "h \<in> context_page_set ix c"
  obtains p e where "map_of (ix_pages ix) h = Some p" "map_of (ix_context_epoch ix) c = Some e"
    "map_of (pg_owner_contexts p) c = Some e"
proof -
  from h obtain hs where hs: "map_of (ix_context_pages ix) c = Some hs" "h \<in> hs"
    by (auto simp: context_page_set_def dict_get_def split: option.splits)
  note o = owners_okD [OF ix_inv_parts(5) [OF inv]]
  obtain e where e: "map_of (ix_context_epoch ix) c = Some e" using o(2) [OF hs] by auto
  then have "owner_of (map_of (ix_pages ix)) h c = Some e" using o(1) [OF hs] by simp
  with e that show ?thesis by (cases "map_of (ix_pages ix) h") auto
qed

lemma owner_in_context_pages:
  assumes "ix_inv ix" and "map_of (ix_pages ix) h = Some p" and "map_of (pg_owner_contexts p) c = Some e"
  shows "h \<in> context_page_set ix c"
  using owners_okD(3) [OF ix_inv_parts(5) [OF assms(1)], of h c] assms
  by (auto simp: context_page_set_def)

lemma finite_context_page_set: "ix_inv ix \<Longrightarrow> finite (context_page_set ix c)"
  by (auto simp: ix_inv_def contexts_ok_def context_page_set_def dict_get_def split: option.split)

lemma context_pagesD:
  assumes "ix_inv ix" and "context_pages ix c = Inr ps" and "p \<in> set ps"
  shows "map_of (ix_pages ix) (pg_handle p) = Some p" and "pg_handle p \<in> context_page_set ix c"
    and "\<not> page_dead p"
proof -
  from assms(2,3) obtain qs where qs: "rmap (\<lambda>h. dict_item (ix_pages ix) h ''page'')
      (sorted_list_of_set (context_page_set ix c)) = Inr qs" "p \<in> set qs" "\<not> page_dead p"
    by (auto simp: context_pages_def)
  from rmap_mem [OF qs(1,2)] obtain h where h: "h \<in> context_page_set ix c"
      "map_of (ix_pages ix) h = Some p"
    using finite_context_page_set [OF assms(1), of c] by (auto simp: dict_item_eq_Inr)
  with page_ok_ix [OF assms(1) h(2)] qs(3)
  show "map_of (ix_pages ix) (pg_handle p) = Some p" "pg_handle p \<in> context_page_set ix c"
    "\<not> page_dead p"
    by (auto simp: page_ok_def)
qed

lemma pin_context_inv:
  assumes "pin_context c ix = Inr ix'" and inv: "ix_inv ix"
  shows "ix_inv ix'"
proof -
  let ?f = "\<lambda>p. p\<lparr>pg_semantic_pin_contexts := insert c (pg_semantic_pin_contexts p)\<rparr>"
  from assms(1) obtain ps where ps: "context_pages ix c = Inr ps"
    by (auto simp: pin_context_def)
  have "ix_inv (ix\<lparr>ix_pages := dmap_on (pg_handle ` set ps) ?f (ix_pages ix)\<rparr>)"
  proof (rule ix_inv_local [OF inv])
    fix h p assume h: "h \<in> pg_handle ` set ps" and p: "map_of (ix_pages ix) h = Some p"
    show "same_shape p (?f p)" by (simp add: same_shape_def)
    from h context_pagesD(2) [OF inv ps] have "h \<in> context_page_set ix c" by auto
    from context_page_owned [OF inv this] p have "c \<in> fst ` set (pg_owner_contexts p)"
      by (metis dict_key option.inject)
    then show "page_ok h p \<Longrightarrow> page_ok h (?f p)" by (simp add: page_ok_def)
  qed
  with assms(1) ps show ?thesis
    by (auto simp: pin_context_def Let_def split: if_splits)
qed

lemma unpin_context_inv:
  assumes "unpin_context c ix = Inr ix'" and inv: "ix_inv ix"
  shows "ix_inv ix'"
proof -
  let ?f = "\<lambda>p. p\<lparr>pg_semantic_pin_contexts := pg_semantic_pin_contexts p - {c}\<rparr>"
  from assms(1) obtain ps where ps: "context_pages ix c = Inr ps"
    by (auto simp: unpin_context_def)
  have "ix_inv (ix\<lparr>ix_pages := dmap_on (pg_handle ` set ps) ?f (ix_pages ix)\<rparr>)"
    by (rule ix_inv_local [OF inv]) (auto simp: page_rewrite)
  with assms(1) ps show ?thesis
    by (auto simp: unpin_context_def Let_def split: if_splits)
qed

lemma drop_owner_page_ok: "page_ok h p \<Longrightarrow> page_ok h (drop_owner c p)"
  by (auto simp: page_ok_def drop_owner_def)

lemma set_owner_page_ok: "page_ok h p \<Longrightarrow> page_ok h (set_owner c e p)"
  by (auto simp: page_ok_def set_owner_def)

lemma owner_edges [simp]: "same_edges p (drop_owner c p)" "same_edges p (set_owner c e p)"
  by (simp_all add: same_edges_def drop_owner_def set_owner_def)

lemma owner_of_drop_owner:
  "owner_of (map_update ks (drop_owner c) M) h =
     (if h \<in> ks then (owner_of M h)(c := None) else owner_of M h)"
  by (cases "M h") (auto simp: owner_of_update drop_owner_def map_of_delete)

lemma owner_of_set_owner:
  "owner_of (map_update ks (set_owner c e) M) h =
     (if h \<in> ks \<and> M h \<noteq> None then (owner_of M h)(c \<mapsto> e) else owner_of M h)"
  by (cases "M h") (auto simp: owner_of_update set_owner_def map_of_update)

lemma unbind_context_inv:
  assumes inv: "ix_inv ix"
  shows "ix_inv (unbind_context c ix)"
proof -
  let ?hs = "context_page_set ix c"
  let ?ix = "ix\<lparr>ix_pages := dmap_on ?hs (drop_owner c) (ix_pages ix),
                ix_context_pages := AList.update c {} (ix_context_pages ix)\<rparr>"
  note o = owners_okD [OF ix_inv_parts(5) [OF inv]]
  have "owners_ok (owner_of (map_update ?hs (drop_owner c) (map_of (ix_pages ix))))
          ((map_of (ix_context_pages ix))(c \<mapsto> {})) (map_of (ix_context_epoch ix))"
    unfolding owners_ok_def
  proof (intro conjI allI impI)
    fix c' hs h assume "((map_of (ix_context_pages ix))(c \<mapsto> {})) c' = Some hs" "h \<in> hs"
    then have *: "c' \<noteq> c" "map_of (ix_context_pages ix) c' = Some hs" "h \<in> hs"
      by (auto split: if_splits)
    then show "map_of (ix_context_epoch ix) c' \<noteq> None"
      "owner_of (map_update ?hs (drop_owner c) (map_of (ix_pages ix))) h c' = map_of (ix_context_epoch ix) c'"
      using o(1,2) [OF *(2,3)] by (auto simp: owner_of_drop_owner)
  next
    fix h c' assume "owner_of (map_update ?hs (drop_owner c) (map_of (ix_pages ix))) h c' \<noteq> None"
    then have *: "owner_of (map_of (ix_pages ix)) h c' \<noteq> None" "c' = c \<Longrightarrow> h \<notin> ?hs"
      by (auto simp: owner_of_drop_owner split: if_splits)
    from o(3) [OF *(1)] * show "\<exists>hs. ((map_of (ix_context_pages ix))(c \<mapsto> {})) c' = Some hs \<and> h \<in> hs"
      by (auto simp: context_page_set_def)
  qed
  then have "ix_inv ?ix"
    by (intro ix_inv_owners [OF inv, where ks = ?hs and f = "drop_owner c"])
      (use inv in \<open>auto simp: drop_owner_page_ok map_of_update ix_inv_def contexts_ok_def\<close>)
  then show ?thesis by (cases "?hs = {}") (simp_all add: unbind_context_def Let_def)
qed

text \<open>Adding pages to a context at the context's epoch.\<close>

lemma add_owner_inv:
  assumes inv: "ix_inv ix" and e: "map_of (ix_context_epoch ix) c = Some e"
    and res: "res \<subseteq> dom (map_of (ix_pages ix))" "finite res"
  shows "ix_inv (ix\<lparr>ix_pages := dmap_on res (set_owner c e) (ix_pages ix),
      ix_context_pages := AList.update c (context_page_set ix c \<union> res) (ix_context_pages ix)\<rparr>)"
proof -
  let ?M = "map_of (ix_pages ix)" and ?CP = "map_of (ix_context_pages ix)"
  let ?hs = "context_page_set ix c"
  note o = owners_okD [OF ix_inv_parts(5) [OF inv]]
  have "owners_ok (owner_of (map_update res (set_owner c e) ?M)) (?CP(c \<mapsto> ?hs \<union> res))
          (map_of (ix_context_epoch ix))"
    unfolding owners_ok_def
  proof (intro conjI allI impI)
    fix c' hs h assume a: "(?CP(c \<mapsto> ?hs \<union> res)) c' = Some hs" "h \<in> hs"
    have "map_of (ix_context_epoch ix) c' \<noteq> None \<and>
      owner_of (map_update res (set_owner c e) ?M) h c' = map_of (ix_context_epoch ix) c'"
    proof (cases "c' = c \<and> h \<in> res")
      case True then show ?thesis using e res by (auto simp: owner_of_set_owner)
    next
      case False
      with a have "c' = c \<Longrightarrow> h \<in> ?hs" "c' \<noteq> c \<Longrightarrow> ?CP c' = Some hs" by (auto split: if_splits)
      then obtain hs' where hs': "?CP c' = Some hs'" "h \<in> hs'"
        using a(2) by (cases "c' = c") (auto simp: context_page_set_def dict_get_def split: option.splits)
      from o(1,2) [OF hs'] False e show ?thesis by (auto simp: owner_of_set_owner)
    qed
    then show "map_of (ix_context_epoch ix) c' \<noteq> None"
      "owner_of (map_update res (set_owner c e) ?M) h c' = map_of (ix_context_epoch ix) c'" by auto
  next
    fix h c' assume "owner_of (map_update res (set_owner c e) ?M) h c' \<noteq> None"
    then have "(c' = c \<and> h \<in> res) \<or> owner_of ?M h c' \<noteq> None"
      by (auto simp: owner_of_set_owner split: if_splits)
    with o(3) [of h c'] show "\<exists>hs. (?CP(c \<mapsto> ?hs \<union> res)) c' = Some hs \<and> h \<in> hs"
      by (auto simp: context_page_set_def)
  qed
  then show ?thesis
    by (intro ix_inv_owners [OF inv, where ks = res and f = "set_owner c e"])
      (use inv res(2) finite_context_page_set [OF inv, of c] in
        \<open>auto simp: set_owner_page_ok map_of_update ix_inv_def contexts_ok_def\<close>)
qed

lemma unbind_context_sel [simp]:
  "ix_context_epoch (unbind_context c ix) = ix_context_epoch ix"
  "dom (map_of (ix_pages (unbind_context c ix))) = dom (map_of (ix_pages ix))"
  by (simp_all add: unbind_context_def Let_def map_of_dmap_update)

lemma bind_pages_inv:
  assumes step: "bind_pages c e hs replace ix = Inr ix'" and inv: "ix_inv ix"
  shows "ix_inv ix'"
proof -
  from step obtain ps where ps: "rmap (require_page ix) hs = Inr ps"
    and e: "map_of (ix_context_epoch ix) c = Some e"
    by (auto simp: bind_pages_def validate_context_epoch_def context_epoch_def
        split: if_splits option.splits)
  let ?res = "pg_handle ` set ps"
  let ?ix1 = "if replace then unbind_context c ix else ix"
  let ?ix2 = "?ix1\<lparr>ix_pages := dmap_on ?res (set_owner c e) (ix_pages ?ix1),
      ix_context_pages := AList.update c (context_page_set ?ix1 c \<union> ?res) (ix_context_pages ?ix1)\<rparr>"
  have "pg_handle p \<in> dom (map_of (ix_pages ix))" if "p \<in> set ps" for p
  proof -
    from rmap_mem [OF ps that] obtain h where "require_page ix h = Inr p" by blast
    then have h: "map_of (ix_pages ix) h = Some p" by (rule require_page_live)
    with page_ok_ix [OF inv h] show ?thesis by (auto simp: page_ok_def)
  qed
  then have "ix_inv ?ix2"
    by (intro add_owner_inv) (use inv e in \<open>auto simp: unbind_context_inv\<close>)
  with step ps show ?thesis
    by (auto simp: bind_pages_def Let_def split: if_splits)
qed

lemma update_context_epoch_inv:
  assumes step: "update_context_epoch c e ix = Inr ix'" and inv: "ix_inv ix"
  shows "ix_inv ix'"
proof -
  let ?hs = "context_page_set ix c" and ?M = "map_of (ix_pages ix)"
  let ?ix = "ix\<lparr>ix_context_epoch := AList.update c e (ix_context_epoch ix),
                ix_pages := dmap_on ?hs (set_owner c e) (ix_pages ix)\<rparr>"
  note o = owners_okD [OF ix_inv_parts(5) [OF inv]]
  from step have c: "c \<in> dom (map_of (ix_context_epoch ix))"
    by (auto simp: update_context_epoch_def context_epoch_def split: option.splits)
  have "owners_ok (owner_of (map_update ?hs (set_owner c e) ?M)) (map_of (ix_context_pages ix))
          ((map_of (ix_context_epoch ix))(c \<mapsto> e))"
    unfolding owners_ok_def
  proof (intro conjI allI impI)
    fix c' hs h assume a: "map_of (ix_context_pages ix) c' = Some hs" "h \<in> hs"
    then have "c' = c \<Longrightarrow> h \<in> ?hs" by (simp add: context_page_set_def)
    with context_page_owned [OF inv, of h c] have "c' = c \<Longrightarrow> ?M h \<noteq> None \<and> h \<in> ?hs" by blast
    then show "((map_of (ix_context_epoch ix))(c \<mapsto> e)) c' \<noteq> None"
      "owner_of (map_update ?hs (set_owner c e) ?M) h c' = ((map_of (ix_context_epoch ix))(c \<mapsto> e)) c'"
      using o(1,2) [OF a] by (auto simp: owner_of_set_owner)
  next
    fix h c' assume "owner_of (map_update ?hs (set_owner c e) ?M) h c' \<noteq> None"
    then have "(c' = c \<and> h \<in> ?hs) \<or> owner_of ?M h c' \<noteq> None"
      by (auto simp: owner_of_set_owner split: if_splits)
    with o(3) [of h c'] show "\<exists>hs. map_of (ix_context_pages ix) c' = Some hs \<and> h \<in> hs"
      by (auto simp: context_page_set_def dict_get_def split: option.splits)
  qed
  moreover have "contexts_ok ?ix"
    using inv c by (auto simp: ix_inv_def contexts_ok_def map_of_update)
  ultimately have "ix_inv ?ix"
    by (intro ix_inv_owners [OF inv, where ks = ?hs and f = "set_owner c e"])
      (use inv in \<open>auto simp: set_owner_page_ok map_of_update ix_inv_def\<close>)
  with step show ?thesis
    by (auto simp: update_context_epoch_def Let_def split: if_splits)
qed

text \<open>Registering a context again with a newer epoch is safe only while it owns no page.\<close>

lemma register_context_inv:
  assumes step: "register_context c w e ix = Inr ix'" and inv: "ix_inv ix"
    and fresh: "context_page_set ix c = {} \<or> map_of (ix_context_epoch ix) c = Some e"
  shows "ix_inv ix'"
proof -
  let ?CE = "map_of (ix_context_epoch ix)" and ?CP = "map_of (ix_context_pages ix)"
  let ?ix = "ix\<lparr>ix_context_epoch := AList.update c e (ix_context_epoch ix),
                ix_context_workflow := AList.update c w (ix_context_workflow ix),
                ix_context_pages := (if dict_in c (ix_context_pages ix) then ix_context_pages ix
                                     else AList.update c {} (ix_context_pages ix))\<rparr>"
  note o = owners_okD [OF ix_inv_parts(5) [OF inv]]
  have cp: "map_of (ix_context_pages ?ix) = ?CP(c \<mapsto> context_page_set ix c)"
    by (auto simp: dict_in_def map_of_update context_page_set_def dict_get_def fun_eq_iff
        split: option.splits)
  have "owners_ok (owner_of (map_of (ix_pages ix))) (map_of (ix_context_pages ?ix)) (?CE(c \<mapsto> e))"
    unfolding owners_ok_def cp
  proof (intro conjI allI impI)
    fix c' hs h assume a: "(?CP(c \<mapsto> context_page_set ix c)) c' = Some hs" "h \<in> hs"
    then obtain hs' where hs': "?CP c' = Some hs'" "h \<in> hs'"
      by (auto simp: context_page_set_def dict_get_def split: if_splits option.splits)
    show "(?CE(c \<mapsto> e)) c' \<noteq> None"
      "owner_of (map_of (ix_pages ix)) h c' = (?CE(c \<mapsto> e)) c'"
      using o(1,2) [OF hs'] fresh a by (auto split: if_splits)
  next
    fix h c' assume "owner_of (map_of (ix_pages ix)) h c' \<noteq> None"
    from o(3) [OF this] show "\<exists>hs. (?CP(c \<mapsto> context_page_set ix c)) c' = Some hs \<and> h \<in> hs"
      by (auto simp: context_page_set_def)
  qed
  moreover have "contexts_ok ?ix"
    unfolding contexts_ok_def cp using inv finite_context_page_set [OF inv, of c]
    by (auto simp: ix_inv_def contexts_ok_def map_of_update)
  ultimately have "ix_inv ?ix"
    using inv by (auto simp: ix_inv_def map_of_update)
  with step show ?thesis
    by (auto simp: register_context_def Let_def split: if_splits)
qed

section \<open>Topology operations keep the invariant\<close>

subsection \<open>Edges in the abstract\<close>

lemma edges_okD:
  assumes "edges_ok live parent children"
  shows "\<not> live h \<Longrightarrow> children h = {}"
    and "live h \<Longrightarrow> parent h = Some q \<Longrightarrow> live q"
    and "live h \<Longrightarrow> parent h = Some q \<Longrightarrow> h \<in> children q"
    and "k \<in> children h \<Longrightarrow> live k"
    and "k \<in> children h \<Longrightarrow> live h"
    and "k \<in> children h \<Longrightarrow> parent k = Some h"
  using assms unfolding edges_ok_def by blast+

lemma edges_okI:
  assumes "\<And>h q. live h \<Longrightarrow> parent h = Some q \<Longrightarrow> live q \<and> h \<in> children q"
    and "\<And>h k. k \<in> children h \<Longrightarrow> live h \<and> live k \<and> parent k = Some h"
  shows "edges_ok live parent children"
  unfolding edges_ok_def using assms by blast

lemma parent_edges_target_live:
  assumes e: "edges_ok live parent children" and "(x, y) \<in> (parent_edges live parent)\<^sup>*" and "live x"
  shows "live y"
  using assms(2,3)
proof (induction)
  case (step y z)
  then show ?case using edges_okD(2) [OF e, of y z] by (simp add: parent_edges_def)
qed

lemma not_own_parent:
  assumes "acyclic (parent_edges live parent)" and "live h"
  shows "parent h \<noteq> Some h"
  using assms by (auto simp: acyclic_def parent_edges_def)

text \<open>A new leaf below a live page, or a new root.\<close>

lemma edges_new_leaf:
  assumes e: "edges_ok live parent children" and "\<not> live h"
    and q: "\<And>x. q = Some x \<Longrightarrow> live x \<and> x \<noteq> h"
    and children': "\<And>k. children' k = (if k = h then {} else if q = Some k then insert h (children k)
                                        else children k)"
  shows "edges_ok (live(h := True)) (parent(h := q)) children'"
proof (rule edges_okI)
  fix k x show "(live(h := True)) k \<Longrightarrow> (parent(h := q)) k = Some x \<Longrightarrow>
      (live(h := True)) x \<and> k \<in> children' x"
    using q [of x] edges_okD(2,3) [OF e, of k x] assms(2) by (auto simp: children' split: if_splits)
next
  fix k x assume k: "k \<in> children' x"
  show "(live(h := True)) x \<and> (live(h := True)) k \<and> (parent(h := q)) k = Some x"
    using k q [of x] edges_okD(4-6) [OF e, of k x] assms(2) by (auto simp: children' split: if_splits)
qed

lemma acyclic_new_leaf:
  assumes e: "edges_ok live parent children" and ac: "acyclic (parent_edges live parent)"
    and h: "\<not> live h" and q: "\<And>x. q = Some x \<Longrightarrow> live x \<and> x \<noteq> h"
  shows "acyclic (parent_edges (live(h := True)) (parent(h := q)))"
proof (cases q)
  case None
  then have "parent_edges (live(h := True)) (parent(h := q)) \<subseteq> parent_edges live parent"
    by (auto simp: parent_edges_def split: if_splits)
  then show ?thesis by (rule acyclic_subset [OF ac])
next
  case (Some x)
  then have "parent_edges (live(h := True)) (parent(h := q)) \<subseteq> insert (h, x) (parent_edges live parent)"
    by (auto simp: parent_edges_def split: if_splits)
  moreover have "(x, h) \<notin> (parent_edges live parent)\<^sup>*"
    using parent_edges_target_live [OF e] q [OF Some] h by blast
  ultimately show ?thesis
    using ac acyclic_subset [of "insert (h, x) (parent_edges live parent)"] by (simp add: acyclic_insert)
qed

text \<open>Removing a live page: its children become roots.\<close>

lemma edges_remove:
  assumes e: "edges_ok live parent children" and "live h"
    and "\<And>k. parent' k = (if k \<in> children h then None else parent k)"
    and "\<And>k. children' k = (if k = h then {} else children k - {h})"
  shows "edges_ok (live(h := False)) parent' children'"
proof (rule edges_okI)
  fix k x show "(live(h := False)) k \<Longrightarrow> parent' k = Some x \<Longrightarrow>
      (live(h := False)) x \<and> k \<in> children' x"
    using edges_okD(2,3) [OF e, of k x] by (auto simp: assms(3,4) split: if_splits)
next
  fix k x assume k: "k \<in> children' x"
  show "(live(h := False)) x \<and> (live(h := False)) k \<and> parent' k = Some x"
    using k edges_okD(4-6) [OF e, of k x] edges_okD(6) [OF e, of k h]
    by (auto simp: assms(3,4) split: if_splits)
qed

lemma acyclic_remove:
  assumes "acyclic (parent_edges live parent)"
    and "\<And>k. parent' k = (if k \<in> K then None else parent k)"
  shows "acyclic (parent_edges (live(h := False)) parent')"
  using assms(1) by (rule acyclic_subset) (auto simp: parent_edges_def assms(2) split: if_splits)

text \<open>Moving a live page below another page, or making it a root.\<close>

lemma edges_move:
  assumes e: "edges_ok live parent children" and "live h"
    and q: "\<And>x. q = Some x \<Longrightarrow> live x \<and> x \<noteq> h"
    and "\<And>k. children' k = (if q = Some k then insert h (children k) else children k - {h})"
  shows "edges_ok live (parent(h := q)) children'"
proof (rule edges_okI)
  fix k x show "live k \<Longrightarrow> (parent(h := q)) k = Some x \<Longrightarrow> live x \<and> k \<in> children' x"
    using q [of x] edges_okD(2,3) [OF e, of k x] by (auto simp: assms(4) split: if_splits)
next
  fix k x assume k: "k \<in> children' x"
  show "live x \<and> live k \<and> (parent(h := q)) k = Some x"
    using k q [of x] \<open>live h\<close> edges_okD(4-6) [OF e, of k x] by (auto simp: assms(4) split: if_splits)
qed

lemma acyclic_move:
  assumes ac: "acyclic (parent_edges live parent)"
    and q: "\<And>x. q = Some x \<Longrightarrow> (x, h) \<notin> (parent_edges live parent)\<^sup>*"
  shows "acyclic (parent_edges live (parent(h := q)))"
proof (cases q)
  case None
  then have "parent_edges live (parent(h := q)) \<subseteq> parent_edges live parent"
    by (auto simp: parent_edges_def split: if_splits)
  then show ?thesis by (rule acyclic_subset [OF ac])
next
  case (Some x)
  then have "parent_edges live (parent(h := q)) \<subseteq> insert (h, x) (parent_edges live parent)"
    by (auto simp: parent_edges_def split: if_splits)
  with q [OF Some] ac show ?thesis
    using acyclic_subset [of "insert (h, x) (parent_edges live parent)"] by (simp add: acyclic_insert)
qed

subsection \<open>Registering a page\<close>

lemma proj_fun_upd:
  "live_of (M(h \<mapsto> p)) = (live_of M)(h := \<not> page_dead p)"
  "parent_of (M(h \<mapsto> p)) = (parent_of M)(h := pg_parent p)"
  "children_of (M(h \<mapsto> p)) = (children_of M)(h := pg_children p)"
  "owner_of (M(h \<mapsto> p)) = (owner_of M)(h := map_of (pg_owner_contexts p))"
  by (auto simp: proj_defs fun_eq_iff)

lemma generations_register:
  assumes g: "generations_ok (dom M) (live_of M) latest" and new: "M h = None"
    and le: "\<And>g. latest (page_id h) = Some g \<Longrightarrow> g \<le> allocation_generation h"
    and reuse: "\<And>g. latest (page_id h) = Some g \<Longrightarrow> g < allocation_generation h \<Longrightarrow>
                  \<not> live_of M (PageHandle (page_id h) g)"
  shows "generations_ok (insert h (dom M)) ((live_of M)(h := True))
           (latest(page_id h \<mapsto> allocation_generation h))"
  unfolding generations_ok_def
proof
  fix k assume "k \<in> insert h (dom M)"
  show "\<exists>g. (latest(page_id h \<mapsto> allocation_generation h)) (page_id k) = Some g \<and>
            allocation_generation k \<le> g \<and>
            (((live_of M)(h := True)) k \<longrightarrow> allocation_generation k = g)"
  proof (cases "k = h")
    case False
    with \<open>k \<in> _\<close> have k: "k \<in> dom M" by simp
    with g obtain n where n: "latest (page_id k) = Some n" "allocation_generation k \<le> n"
        "live_of M k \<Longrightarrow> allocation_generation k = n"
      by (auto simp: generations_ok_def)
    have "\<not> live_of M k" if "page_id k = page_id h"
    proof
      assume "live_of M k"
      with n that have gk: "latest (page_id h) = Some (allocation_generation k)" by simp
      have "allocation_generation k \<noteq> allocation_generation h"
        using False that by (cases k; cases h) auto
      with le [OF gk] have "\<not> live_of M (PageHandle (page_id h) (allocation_generation k))"
        by (intro reuse [OF gk]) simp
      with that \<open>live_of M k\<close> show False by (cases k) auto
    qed
    with n le [of n] False show ?thesis by auto
  qed simp
qed

lemma child_page_ok:
  "page_ok h p \<Longrightarrow> page_ok h (add_child k p)" "page_ok h p \<Longrightarrow> page_ok h (discard_child k p)"
  by (simp_all add: page_ok_def add_child_def discard_child_def)

lemma register_page_inv:
  assumes step: "register_page h sz res dep par sealed acc ix = Inr ix'" and inv: "ix_inv ix"
    and live: "res \<noteq> DEAD"
  shows "ix_inv ix'"
proof -
  let ?M = "map_of (ix_pages ix)" and ?L = "map_of (ix_latest_generation ix)"
  let ?p = "new_page h sz res dep par sealed acc"
  let ?M' = "case par of None \<Rightarrow> ?M(h \<mapsto> ?p) | Some q \<Rightarrow> map_update {q} (add_child h) (?M(h \<mapsto> ?p))"
  from step have sz: "0 < sz" and new: "?M h = None"
    and le: "\<And>g. ?L (page_id h) = Some g \<Longrightarrow> g \<le> allocation_generation h"
    and reuse: "\<And>g. ?L (page_id h) = Some g \<Longrightarrow> g < allocation_generation h \<Longrightarrow>
                  \<not> live_of ?M (PageHandle (page_id h) g)"
    and par: "\<And>q. par = Some q \<Longrightarrow> \<exists>p. ?M q = Some p \<and> \<not> page_dead p"
    by (auto simp: register_page_def Let_def dict_in_def live_of_def require_page_Inr
        split: if_splits option.splits)
  have pi: "pages_inv ?M ?L" using inv by (simp add: ix_inv_def)
  have q: "\<And>q. par = Some q \<Longrightarrow> live_of ?M q \<and> q \<noteq> h" using par new by fastforce
  have proj: "live_of ?M' = (live_of ?M)(h := True)" "parent_of ?M' = (parent_of ?M)(h := par)"
    "owner_of ?M' = owner_of ?M"
    "\<And>k. children_of ?M' k = (if k = h then {} else if par = Some k then insert h (children_of ?M k)
                               else children_of ?M k)"
    using live new par q
    by (auto simp: proj_fun_upd proj_update fun_eq_iff new_page_def add_child_def split: option.split)
  have "page_ok h ?p" using sz by (simp add: page_ok_def new_page_def)
  then have ok: "\<forall>k p. ?M' k = Some p \<longrightarrow> page_ok k p"
    using pi by (auto simp: pages_inv_def map_update_apply child_page_ok
        split: option.splits if_splits)
  have dom: "dom ?M' = insert h (dom ?M)" by (auto split: option.split)
  have "pages_inv ?M' (?L(page_id h \<mapsto> allocation_generation h))"
    unfolding pages_inv_def dom proj(1,2)
    using pi new q
    by (intro conjI ok edges_new_leaf [where children = "children_of ?M"] acyclic_new_leaf
          [where children = "children_of ?M"] generations_register le reuse proj(4))
       (auto simp: pages_inv_def)
  with inv proj(3) have "ix_inv (ix\<lparr>ix_pages := (case par of None \<Rightarrow> AList.update h ?p (ix_pages ix)
        | Some q \<Rightarrow> dmap_on {q} (add_child h) (AList.update h ?p (ix_pages ix))),
      ix_latest_generation := AList.update (page_id h) (allocation_generation h) (ix_latest_generation ix)\<rparr>)"
    by (cases par) (simp_all add: ix_inv_def contexts_ok_def map_of_update map_of_dmap_update)
  with step show ?thesis
    by (auto simp: register_page_def Let_def split: if_splits)
qed

subsection \<open>Freeing and invalidating a page\<close>

lemma pages_invD:
  assumes "ix_inv ix" and "M = map_of (ix_pages ix)"
  shows "edges_ok (live_of M) (parent_of M) (children_of M)"
    "acyclic (parent_edges (live_of M) (parent_of M))"
    "generations_ok (dom M) (live_of M) (map_of (ix_latest_generation ix))"
    "M h = Some p \<Longrightarrow> page_ok h p"
  using assms by (simp_all add: ix_inv_def pages_inv_def)

text \<open>The page map after \<open>detach_page\<close>, read off one handle at a time.\<close>

definition detached :: "page_handle \<Rightarrow> page_record \<Rightarrow> page_map \<Rightarrow> page_map" where
  "detached h page M k =
     (if k = h then Some ((kill_page page)\<lparr>pg_children := {}\<rparr>)
      else map_option (\<lambda>p. if k \<in> pg_children page then (discard_child h p)\<lparr>pg_parent := None\<rparr>
                             else discard_child h p) (M k))"

lemma discard_child_id: "h \<notin> pg_children p \<Longrightarrow> discard_child h p = p"
  by (simp add: discard_child_def)

lemma discard_child_sel [simp]:
  "pg_children (discard_child h p) = pg_children p - {h}" "pg_parent (discard_child h p) = pg_parent p"
  "pg_residency (discard_child h p) = pg_residency p"
  "pg_owner_contexts (discard_child h p) = pg_owner_contexts p"
  by (simp_all add: discard_child_def)

lemma detach_page_pages:
  assumes inv: "ix_inv ix" and p: "map_of (ix_pages ix) h = Some page" "\<not> page_dead page"
    and orphan: "\<And>p. \<not> page_dead p \<Longrightarrow> orphan p"
  shows "map_of (ix_pages (detach_page h page orphan ix)) = detached h page (map_of (ix_pages ix))"
proof
  fix k
  let ?M = "map_of (ix_pages ix)"
  note e = edges_okD [OF pages_invD(1) [OF inv refl]]
  have live: "live_of ?M h" using p by simp
  have self: "pg_parent page \<noteq> Some h"
    using not_own_parent [OF pages_invD(2) [OF inv refl] live] p by simp
  have noself: "h \<notin> pg_children page" using e(6) [of h h] self p by auto
  have kids: "\<not> page_dead q" if "?M x = Some q" "x \<in> pg_children page" for x q
    using e(4) [of x h] that p by simp
  have up: "discard_child h q = q" if "?M x = Some q" "pg_parent page \<noteq> Some x" for x q
    using e(6) [of h x] that p by (intro discard_child_id) auto
  have upd: "map_of (ix_pages (detach_page h page orphan ix)) k =
      map_update {h} (\<lambda>p. p\<lparr>pg_children := {}\<rparr>)
        (map_update (pg_children page) (\<lambda>p. if orphan p then p\<lparr>pg_parent := None\<rparr> else p)
          (case pg_parent page of None \<Rightarrow> map_update {h} kill_page ?M
           | Some q \<Rightarrow> map_update {q} (discard_child h) (map_update {h} kill_page ?M))) k"
    using self by (auto simp: detach_page_def Let_def map_of_dmap_update split: option.split)
  show "map_of (ix_pages (detach_page h page orphan ix)) k = detached h page ?M k"
  proof (cases "k = h")
    case True
    then show ?thesis
      unfolding upd using p self noself by (auto simp: map_update_apply detached_def split: option.split)
  next
    case False
    then show ?thesis
      unfolding upd using kids [of k] up [of k] orphan
      by (cases "?M k"; cases "pg_parent page")
        (auto simp: map_update_apply detached_def)
  qed
qed

lemma detached_proj:
  assumes e: "edges_ok (live_of M) (parent_of M) (children_of M)"
    and p: "M h = Some page" "\<not> page_dead page" and noself: "h \<notin> pg_children page"
  shows "live_of (detached h page M) = (live_of M)(h := False)"
    "parent_of (detached h page M) k = (if k \<in> children_of M h then None else parent_of M k)"
    "children_of (detached h page M) k = (if k = h then {} else children_of M k - {h})"
    "owner_of (detached h page M) = (owner_of M)(h := Map.empty)"
    "dom (detached h page M) = dom M"
proof -
  show "live_of (detached h page M) = (live_of M)(h := False)"
    by (auto simp: live_of_def detached_def kill_page_def fun_eq_iff split: option.split)
  show "parent_of (detached h page M) k = (if k \<in> children_of M h then None else parent_of M k)"
    using p noself by (auto simp: parent_of_def children_of_def detached_def kill_page_def split: option.split)
  show "children_of (detached h page M) k = (if k = h then {} else children_of M k - {h})"
    by (auto simp: children_of_def detached_def split: option.split)
  show "owner_of (detached h page M) = (owner_of M)(h := Map.empty)"
    by (auto simp: owner_of_def detached_def kill_page_def fun_eq_iff split: option.split)
  show "dom (detached h page M) = dom M"
    using p by (auto simp: detached_def dom_def split: if_splits)
qed

lemma detached_page_ok:
  assumes ok: "\<And>k p. M k = Some p \<Longrightarrow> page_ok k p" and h: "M h = Some page" "transfer_idle page"
    and p: "detached h page M k = Some p"
  shows "page_ok k p"
proof (cases "k = h")
  case True
  with p ok [OF h(1)] h(2) show ?thesis
    by (auto simp: detached_def page_ok_def kill_page_def transfer_idle_def)
next
  case False
  with p obtain q where q: "M k = Some q"
    and "p = (discard_child h q)\<lparr>pg_parent := None\<rparr> \<or> p = discard_child h q"
    by (auto simp: detached_def split: if_splits)
  with child_page_ok(2) [OF ok [OF q], of h] show ?thesis by (auto simp: page_ok_def)
qed

lemma detach_page_inv:
  assumes inv: "ix_inv ix" and p: "map_of (ix_pages ix) h = Some page" "\<not> page_dead page"
    and idle: "transfer_idle page" and orphan: "\<And>p. \<not> page_dead p \<Longrightarrow> orphan p"
  shows "ix_inv (detach_page h page orphan ix)"
proof -
  let ?M = "map_of (ix_pages ix)" and ?CP = "map_of (ix_context_pages ix)"
  let ?ix = "detach_page h page orphan ix"
  let ?cs = "set (map fst (pg_owner_contexts page))"
  note pi = pages_invD [OF inv refl] and o = owners_okD [OF ix_inv_parts(5) [OF inv]]
  note e = edges_okD [OF pi(1)]
  have noself: "h \<notin> pg_children page"
    using e(6) [of h h] not_own_parent [OF pi(2), of h] p by auto
  note proj = detached_proj [OF pi(1) p noself]
  have M': "map_of (ix_pages ?ix) = detached h page ?M"
    using detach_page_pages [OF inv p] orphan by blast
  have sel: "ix_latest_generation ?ix = ix_latest_generation ix" "ix_context_epoch ?ix = ix_context_epoch ix"
    "ix_context_workflow ?ix = ix_context_workflow ix"
    "map fst (ix_pages ?ix) = map fst (ix_pages ix)"
    "ix_context_pages ?ix = dmap_on ?cs (\<lambda>hs. hs - {h}) (ix_context_pages ix)"
    by (simp_all add: detach_page_def Let_def split: option.split)
  have cp: "map_of (ix_context_pages ?ix) c = map_option (\<lambda>hs. hs - {h}) (?CP c)" for c
  proof (cases "?CP c")
    case (Some hs)
    have "h \<notin> hs" if "c \<notin> ?cs"
    proof
      assume "h \<in> hs"
      with o(1) [OF Some this] o(2) [OF Some this] p have "map_of (pg_owner_contexts page) c \<noteq> None"
        by simp
      with that show False by (simp add: map_of_eq_None_iff)
    qed
    with Some show ?thesis by (simp add: sel map_of_dmap_on)
  qed (simp add: sel map_of_dmap_on)
  have "owners_ok ((owner_of ?M)(h := Map.empty)) (map_of (ix_context_pages ?ix)) (map_of (ix_context_epoch ix))"
    unfolding owners_ok_def cp
  proof (intro conjI allI impI)
    fix c hs k assume "map_option (\<lambda>hs. hs - {h}) (?CP c) = Some hs" "k \<in> hs"
    then obtain hs' where "?CP c = Some hs'" "k \<in> hs'" "k \<noteq> h" by auto
    with o(1,2) [OF this(1,2)] show "map_of (ix_context_epoch ix) c \<noteq> None"
      "((owner_of ?M)(h := Map.empty)) k c = map_of (ix_context_epoch ix) c" by auto
  next
    fix k c assume "((owner_of ?M)(h := Map.empty)) k c \<noteq> None"
    then have "k \<noteq> h" "owner_of ?M k c \<noteq> None" by (auto split: if_splits)
    with o(3) [of k c] show "\<exists>hs. map_option (\<lambda>hs. hs - {h}) (?CP c) = Some hs \<and> k \<in> hs" by auto
  qed
  moreover have "pages_inv (detached h page ?M) (map_of (ix_latest_generation ix))"
    unfolding pages_inv_def proj(1,5)
  proof (intro conjI allI impI)
    fix k q assume "detached h page ?M k = Some q"
    then show "page_ok k q" using detached_page_ok [of ?M h page k q] pi(4) p(1) idle by simp
  next
    show "edges_ok ((live_of ?M)(h := False)) (parent_of (detached h page ?M)) (children_of (detached h page ?M))"
      by (rule edges_remove [OF pi(1) _ proj(2,3)]) (use p in simp)
    show "acyclic (parent_edges ((live_of ?M)(h := False)) (parent_of (detached h page ?M)))"
      by (rule acyclic_remove [OF pi(2) proj(2)])
    show "generations_ok (dom ?M) ((live_of ?M)(h := False)) (map_of (ix_latest_generation ix))"
      using pi(3) by (auto simp: generations_ok_def)
  qed
  moreover have "contexts_ok ?ix"
    unfolding contexts_ok_def cp sel(2,3) using ix_inv_parts(3) [OF inv] by (auto simp: contexts_ok_def)
  ultimately show ?thesis
    unfolding ix_inv_def M' proj(4) using ix_inv_parts(1,2) [OF inv] by (simp add: sel)
qed

lemma free_page_inv: "free_page h ix = Inr ix' \<Longrightarrow> ix_inv ix \<Longrightarrow> ix_inv ix'"
  by (auto simp: free_page_def require_page_Inr split: if_splits intro!: detach_page_inv)

lemma invalidate_page_inv: "invalidate_page h ix = Inr ix' \<Longrightarrow> ix_inv ix \<Longrightarrow> ix_inv ix'"
  by (auto simp: invalidate_page_def require_page_Inr split: if_splits intro!: detach_page_inv)

subsection \<open>Moving a page\<close>

text \<open>The ancestor walk succeeds only if the page is not an ancestor of its new parent.\<close>

lemma check_ancestors_sound:
  assumes "check_ancestors ix h ao seen = Inr ()" and "ao = Some a"
    and "(a, x) \<in> (parent_edges (live_of (map_of (ix_pages ix))) (parent_of (map_of (ix_pages ix))))\<^sup>*"
  shows "x \<noteq> h"
  using assms
proof (induction ix h ao seen arbitrary: a rule: check_ancestors.induct)
  case (2 ix h b seen)
  then have b: "a = b" "b \<noteq> h" "b \<notin> seen" by (auto split: if_splits)
  with 2(2) obtain p where p: "require_page ix b = Inr p"
      "check_ancestors ix h (pg_parent p) (insert b seen) = Inr ()"
    by auto
  from 2(4) show ?case
  proof (cases rule: converse_rtranclE)
    case base then show ?thesis using b by simp
  next
    case (step c)
    then have "pg_parent p = Some c" using p(1) b(1) by (simp add: parent_edges_def require_page_Inr)
    with 2(1) [OF b(2,3) p] step(2) show ?thesis by blast
  qed
qed simp

lemma set_parent_pages:
  assumes inv: "ix_inv ix" and p: "map_of (ix_pages ix) h = Some page" "\<not> page_dead page"
    and q: "\<forall>x. q = Some x \<longrightarrow> live_of (map_of (ix_pages ix)) x \<and> x \<noteq> h"
    and moved: "pg_parent page \<noteq> q"
    and M1: "M1 = (case pg_parent page of None \<Rightarrow> map_of (ix_pages ix)
                   | Some x \<Rightarrow> map_update {x} (discard_child h) (map_of (ix_pages ix)))"
    and M2: "M2 = map_update {h} (\<lambda>p. p\<lparr>pg_parent := q\<rparr>) M1"
    and M3: "M3 = (case q of None \<Rightarrow> M2 | Some x \<Rightarrow> map_update {x} (add_child h) M2)"
  shows "live_of M3 = live_of (map_of (ix_pages ix))" "owner_of M3 = owner_of (map_of (ix_pages ix))"
    "parent_of M3 = (parent_of (map_of (ix_pages ix)))(h := q)"
    "children_of M3 k = (if q = Some k then insert h (children_of (map_of (ix_pages ix)) k)
                         else children_of (map_of (ix_pages ix)) k - {h})"
    "dom M3 = dom (map_of (ix_pages ix))" "M3 k = Some r \<Longrightarrow> page_ok k r"
proof -
  let ?M = "map_of (ix_pages ix)"
  note pi = pages_invD [OF inv refl]
  note e = edges_okD [OF pi(1)]
  have self: "pg_parent page \<noteq> Some h"
    using not_own_parent [OF pi(2), of h] p by simp
  have M3k: "M3 k = map_option (\<lambda>p. let p1 = if pg_parent page = Some k then discard_child h p else p;
      p2 = if k = h then p1\<lparr>pg_parent := q\<rparr> else p1
      in if q = Some k then add_child h p2 else p2) (?M k)" for k
    by (cases "?M k"; cases q; cases "pg_parent page")
      (auto simp: M3 M2 M1 map_update_apply Let_def)
  have up: "h \<notin> children_of ?M x" if "pg_parent page \<noteq> Some x" for x
    using e(6) [of h x] that p by auto
  have sel: "page_dead (discard_child h p) = page_dead p" "page_dead (add_child h p) = page_dead p"
    "pg_parent (add_child h p) = pg_parent p" "pg_owner_contexts (add_child h p) = pg_owner_contexts p"
    "pg_children (add_child h p) = insert h (pg_children p)" for p
    by (simp_all add: add_child_def)
  show "live_of M3 = live_of ?M" "owner_of M3 = owner_of ?M"
    by (auto simp: fun_eq_iff live_of_def owner_of_def M3k Let_def sel split: option.split)
  show "parent_of M3 = (parent_of ?M)(h := q)"
    using p q by (auto simp: fun_eq_iff parent_of_def M3k Let_def sel split: option.split)
  show "children_of M3 k = (if q = Some k then insert h (children_of ?M k) else children_of ?M k - {h})"
  proof (cases "?M k")
    case None
    with q show ?thesis by (auto simp: children_of_def M3k)
  next
    case (Some r)
    with up [of k] moved show ?thesis
      by (auto simp: children_of_def M3k Let_def sel)
  qed
  show "dom M3 = dom ?M" by (auto simp: dom_def M3k)
  show "page_ok k r" if r: "M3 k = Some r"
  proof -
    from r obtain r0 where r0: "?M k = Some r0" by (auto simp: M3k)
    note ok = pi(4) [OF r0] child_page_ok
    have "page_ok k (r\<lparr>pg_parent := q'\<rparr>)" if "page_ok k r" for r q'
      using that by (simp add: page_ok_def)
    with r r0 ok show ?thesis by (auto simp: M3k Let_def split: if_splits)
  qed
qed

lemma set_parent_inv:
  assumes step: "set_parent h q ix = Inr ix'" and inv: "ix_inv ix"
  shows "ix_inv ix'"
proof -
  let ?M = "map_of (ix_pages ix)"
  let ?E = "parent_edges (live_of ?M) (parent_of ?M)"
  note pi = pages_invD [OF inv refl]
  from step obtain page where page: "require_page ix h = Inr page" and qh: "q \<noteq> Some h"
    by (auto simp: set_parent_def split: if_splits)
  then have p: "?M h = Some page" "\<not> page_dead page" by (simp_all add: require_page_Inr)
  have q: "live_of ?M x \<and> x \<noteq> h \<and> (x, h) \<notin> ?E\<^sup>*" if "q = Some x" for x
  proof -
    from step page qh that obtain r where "require_page ix x = Inr r" "check_ancestors ix h (Some x) {} = Inr ()"
      by (auto simp: set_parent_def)
    then show ?thesis
      using check_ancestors_sound [of ix h "Some x" "{}" x h] qh that by (auto simp: require_page_Inr)
  qed
  show ?thesis
  proof (cases "pg_parent page = q")
    case True
    then have "ix' = ix" if "q = Some x" for x
      using step page qh that p edges_okD(3) [OF pi(1), of h x]
      by (auto simp: set_parent_def dict_item_eq_Inr split: if_splits)
    with True step page qh inv show ?thesis by (cases q) (auto simp: set_parent_def)
  next
    case False
    define P1 where "P1 = (case pg_parent page of None \<Rightarrow> ix_pages ix
                       | Some x \<Rightarrow> dmap_on {x} (discard_child h) (ix_pages ix))"
    define P2 where "P2 = dmap_on {h} (\<lambda>p. p\<lparr>pg_parent := q\<rparr>) P1"
    define P3 where "P3 = (case q of None \<Rightarrow> P2 | Some x \<Rightarrow> dmap_on {x} (add_child h) P2)"
    have M: "map_of P1 = (case pg_parent page of None \<Rightarrow> ?M | Some x \<Rightarrow> map_update {x} (discard_child h) ?M)"
      "map_of P2 = map_update {h} (\<lambda>p. p\<lparr>pg_parent := q\<rparr>) (map_of P1)"
      "map_of P3 = (case q of None \<Rightarrow> map_of P2 | Some x \<Rightarrow> map_update {x} (add_child h) (map_of P2))"
      by (simp_all add: P1_def P2_def P3_def map_of_dmap_update split: option.split)
    have q': "\<forall>x. q = Some x \<longrightarrow> live_of ?M x \<and> x \<noteq> h" using q by blast
    note proj = set_parent_pages [OF inv p q' False M]
    have "pages_inv (map_of P3) (map_of (ix_latest_generation ix))"
      unfolding pages_inv_def proj(1,3,5)
    proof (intro conjI allI impI)
      show "edges_ok (live_of ?M) ((parent_of ?M)(h := q)) (children_of (map_of P3))"
        by (rule edges_move [OF pi(1) _ _ proj(4)]) (use p q' in simp_all)
      show "acyclic (parent_edges (live_of ?M) ((parent_of ?M)(h := q)))"
        by (rule acyclic_move [OF pi(2)]) (use q in blast)
    qed (use proj(6) pi(3) in auto)
    moreover have "dict_ok P3"
      using inv by (simp add: P3_def P2_def P1_def ix_inv_def split: option.split)
    ultimately have "ix_inv (ix\<lparr>ix_pages := P3\<rparr>)"
      using inv proj(2) by (simp add: ix_inv_def contexts_ok_def)
    moreover have "ix' = touch True (insert h (set_option (pg_parent page) \<union> set_option q)) {}
        {C_topology} (ix\<lparr>ix_pages := P3\<rparr>)"
      using step page qh False by (cases q) (auto simp: set_parent_def Let_def P1_def P2_def P3_def)
    ultimately show ?thesis by simp
  qed
qed

lemma drop_page_inv: "drop_page h ix = Inr ix' \<Longrightarrow> ix_inv ix \<Longrightarrow> ix_inv ix'"
  by (auto simp: drop_page_def require_page_Inr page_rewrite transfer_idle_def
      split: if_splits intro!: touch_transfer_inv intro: free_page_inv)

lemma drop_host_copy_inv: "drop_host_copy h ix = Inr ix' \<Longrightarrow> ix_inv ix \<Longrightarrow> ix_inv ix'"
  by (auto simp: drop_host_copy_def require_page_Inr page_rewrite transfer_idle_def
      split: if_splits intro!: touch_transfer_inv intro: free_page_inv)

section \<open>The invariant implies the self-check\<close>

lemma raise_if_ok [simp]: "raise_if b e = Inr () \<longleftrightarrow> \<not> b"
  by (simp add: raise_if_def)

lemma assert_context_page_ok:
  assumes "ix_inv ix" and "h \<in> context_page_set ix c"
  shows "assert_context_page ix c h = Inr ()"
proof -
  obtain p e where "map_of (ix_pages ix) h = Some p" "map_of (ix_context_epoch ix) c = Some e"
    "map_of (pg_owner_contexts p) c = Some e"
    using context_page_owned [OF assms] .
  then show ?thesis by (simp add: assert_context_page_def dict_item_def)
qed

lemma assert_page_ok:
  assumes inv: "ix_inv ix" and p: "map_of (ix_pages ix) h = Some p"
  shows "assert_page ix p = Inr ()"
proof -
  note pi = pages_invD [OF inv refl]
  note e = edges_okD [OF pi(1)]
  have h: "pg_handle p = h" and n: "0 \<le> pg_engine_lock_ref p" "0 \<le> pg_active_reader_count p"
    and fin: "finite (pg_children p)" and d: "dict_ok (pg_owner_contexts p)"
    using pi(4) [OF p] by (auto simp: page_ok_def)
  have owners: "h \<in> context_page_set ix c" if "c \<in> fst ` set (pg_owner_contexts p)" for c
    using that d owner_in_context_pages [OF inv p] by (auto simp: map_of_eq_Some_iff)
  have dead: "page_dead p \<Longrightarrow> pg_children p = {}" using e(1) [of h] p by simp
  have up: "\<exists>r. map_of (ix_pages ix) q = Some r \<and> \<not> page_dead r \<and> h \<in> pg_children r"
    if "pg_parent p = Some q" "\<not> page_dead p" for q
    using e(2,3) [of h q] that p by (cases "map_of (ix_pages ix) q") auto
  have down: "\<exists>r. map_of (ix_pages ix) k = Some r \<and> \<not> page_dead r \<and> pg_parent r = Some h"
    if "k \<in> pg_children p" for k
    using e(4,6) [of k h] that p by (cases "map_of (ix_pages ix) k") auto
  show ?thesis
    using up down by (fastforce simp: assert_page_def rbind_eq_Inr rfold_unit h n fin owners dead not_less
        split: option.split)
qed

lemma ix_inv_assert_consistent:
  assumes inv: "ix_inv ix"
  shows "assert_consistent ix = Inr ()"
proof -
  have "assert_context_page ix c h = Inr ()"
    if "(c, hs) \<in> set (ix_context_pages ix)" and "h \<in> set (sorted_list_of_set hs)" for c hs h
  proof -
    from that(1) inv have "context_page_set ix c = hs"
      by (simp add: context_page_set_def ix_inv_def map_of_eq_Some_iff)
    with that(2) finite_context_page_set [OF inv, of c] show ?thesis
      by (intro assert_context_page_ok [OF inv]) simp
  qed
  moreover have "assert_page ix p = Inr ()" if "(h, p) \<in> set (ix_pages ix)" for h p
    using that inv by (intro assert_page_ok [OF inv]) (simp add: ix_inv_def map_of_eq_Some_iff)
  ultimately show ?thesis
    by (auto simp: assert_consistent_def rbind_eq_Inr rfold_unit)
qed

section \<open>Runs of the index\<close>

text \<open>One successful call of a state-changing method. Three calls that the code accepts are left
  out, as obligations of the caller: a page is not registered as \<open>DEAD\<close>; an observed residency is
  not \<open>DEAD\<close> and does not contradict a transfer in flight (\<open>runtime_residency_ok\<close>); and a context that
  owns pages is not registered again with another epoch but moves its epoch through
  \<open>update_context_epoch\<close>. The last one is necessary: without it the self-check fails.\<close>

inductive ix_step :: "page_index \<Rightarrow> page_index \<Rightarrow> bool" where
  register_context: "register_context c w e ix = Inr ix' \<Longrightarrow>
     context_page_set ix c = {} \<or> map_of (ix_context_epoch ix) c = Some e \<Longrightarrow> ix_step ix ix'"
| register_page: "register_page h sz res dep par sealed acc ix = Inr ix' \<Longrightarrow> res \<noteq> DEAD \<Longrightarrow> ix_step ix ix'"
| bind_pages: "bind_pages c e hs replace ix = Inr ix' \<Longrightarrow> ix_step ix ix'"
| unbind_context: "ix_step ix (unbind_context c ix)"
| update_context_epoch: "update_context_epoch c e ix = Inr ix' \<Longrightarrow> ix_step ix ix'"
| free_page: "free_page h ix = Inr ix' \<Longrightarrow> ix_step ix ix'"
| invalidate_page: "invalidate_page h ix = Inr ix' \<Longrightarrow> ix_step ix ix'"
| set_parent: "set_parent h q ix = Inr ix' \<Longrightarrow> ix_step ix ix'"
| set_engine_lock: "set_engine_lock h v ix = Inr ix' \<Longrightarrow> ix_step ix ix'"
| set_active_readers: "set_active_readers h v ix = Inr ix' \<Longrightarrow> ix_step ix ix'"
| pin_context: "pin_context c ix = Inr ix' \<Longrightarrow> ix_step ix ix'"
| unpin_context: "unpin_context c ix = Inr ix' \<Longrightarrow> ix_step ix ix'"
| update_runtime_state: "update_runtime_state h res dep lk acc ix = Inr ix' \<Longrightarrow>
     (\<And>p. require_page ix h = Inr p \<Longrightarrow> runtime_residency_ok res p) \<Longrightarrow> ix_step ix ix'"
| begin_transfer: "begin_transfer h d ix = Inr ix' \<Longrightarrow> ix_step ix ix'"
| complete_transfer: "complete_transfer h d k ix = Inr ix' \<Longrightarrow> ix_step ix ix'"
| abort_transfer: "abort_transfer h ix = Inr ix' \<Longrightarrow> ix_step ix ix'"
| commit_cpu: "commit_cpu h ix = Inr ix' \<Longrightarrow> ix_step ix ix'"
| drop_page: "drop_page h ix = Inr ix' \<Longrightarrow> ix_step ix ix'"
| drop_host_copy: "drop_host_copy h ix = Inr ix' \<Longrightarrow> ix_step ix ix'"

lemma ix_step_inv: "ix_step ix ix' \<Longrightarrow> ix_inv ix \<Longrightarrow> ix_inv ix'"
proof (induction rule: ix_step.induct)
  case register_context then show ?case by (metis register_context_inv)
next
  case register_page then show ?case by (metis register_page_inv)
next
  case bind_pages then show ?case by (rule bind_pages_inv)
next
  case unbind_context then show ?case by (rule unbind_context_inv)
next
  case update_context_epoch then show ?case by (rule update_context_epoch_inv)
next
  case free_page then show ?case by (rule free_page_inv)
next
  case invalidate_page then show ?case by (rule invalidate_page_inv)
next
  case set_parent then show ?case by (rule set_parent_inv)
next
  case set_engine_lock then show ?case by (rule set_engine_lock_inv)
next
  case set_active_readers then show ?case by (rule set_active_readers_inv)
next
  case pin_context then show ?case by (rule pin_context_inv)
next
  case unpin_context then show ?case by (rule unpin_context_inv)
next
  case (update_runtime_state h res dep lk acc ix ix')
  show ?case
    by (rule update_runtime_state_inv [OF update_runtime_state(1,3)]) (rule update_runtime_state(2))
next
  case begin_transfer then show ?case by (rule begin_transfer_inv)
next
  case complete_transfer then show ?case by (rule complete_transfer_inv)
next
  case abort_transfer then show ?case by (rule abort_transfer_inv)
next
  case commit_cpu then show ?case by (rule commit_cpu_inv)
next
  case drop_page then show ?case by (rule drop_page_inv)
next
  case drop_host_copy then show ?case by (rule drop_host_copy_inv)
qed

lemma ix_inv_init: "ix_inv page_index_init"
  by (auto simp: ix_inv_def page_index_init_def contexts_ok_def pages_inv_def edges_ok_def
      parent_edges_def generations_ok_def owners_ok_def proj_defs acyclic_def)

interpretation ix: invariant_machine ix_step ix_inv
  by unfold_locales (rule ix_step_inv)

lemmas ix_reachable_inv = ix.run_inv [OF _ ix_inv_init]

text \<open>Revisions only grow, and a dead handle stays dead: page ids come back only under a new
  allocation generation.\<close>

definition dead_in :: "page_map \<Rightarrow> page_handle set" where
  "dead_in M = {h \<in> dom M. \<not> live_of M h}"

definition dead_handles :: "page_index \<Rightarrow> page_handle set" where
  "dead_handles ix = dead_in (map_of (ix_pages ix))"

lemma dead_update:
  assumes "\<And>h p. h \<in> ks \<Longrightarrow> M h = Some p \<Longrightarrow> page_dead p \<Longrightarrow> page_dead (f p)"
  shows "dead_in M \<subseteq> dead_in (map_update ks f M)"
  using assms by (auto simp: dead_in_def live_of_update dom_def map_update_apply split: option.splits)

lemma dead_keep:
  assumes "\<And>p. page_dead (f p) = page_dead p"
  shows "dead_in (map_update ks f M) = dead_in M"
proof -
  have "live_of (map_update ks f M) h = live_of M h" for h
    using assms by (cases "M h") (auto simp: live_of_update)
  then show ?thesis by (simp add: dead_in_def)
qed

lemma dead_rewrites [simp]:
  "dead_in (map_update ks (drop_owner c) M) = dead_in M"
  "dead_in (map_update ks (set_owner c e) M) = dead_in M"
  "dead_in (map_update ks (add_child h) M) = dead_in M"
  "dead_in (map_update ks (discard_child h) M) = dead_in M"
  "dead_in (map_update ks (\<lambda>p. p\<lparr>pg_parent := q\<rparr>) M) = dead_in M"
  "dead_in (map_update ks (\<lambda>p. p\<lparr>pg_semantic_pin_contexts := g p\<rparr>) M) = dead_in M"
  by (intro dead_keep, simp add: drop_owner_def set_owner_def add_child_def discard_child_def)+

lemma dead_with_page:
  assumes "require_page ix h = Inr p"
  shows "dead_handles ix \<subseteq> dead_handles (with_page h f ix)"
  by (simp add: dead_handles_def with_page_def map_of_dmap_update, rule dead_update) (use assms in \<open>auto simp: require_page_Inr\<close>)

lemma dead_handles_sel [simp]:
  "dead_handles (touch t hs cs comps ix) = dead_handles ix"
  "dead_handles (touch_transfer h p comps f ix) = dead_handles (with_page h f ix)"
  by (simp_all add: dead_handles_def touch_transfer_def)

lemma dead_detach:
  assumes "ix_inv ix" and "require_page ix h = Inr page" and "\<And>p. \<not> page_dead p \<Longrightarrow> orphan p"
  shows "dead_handles ix \<subseteq> dead_handles (detach_page h page orphan ix)"
    and "h \<in> dead_handles (detach_page h page orphan ix)"
proof -
  from assms(2) have p: "map_of (ix_pages ix) h = Some page" "\<not> page_dead page"
    by (simp_all add: require_page_Inr)
  note pi = pages_invD [OF assms(1) refl]
  have noself: "h \<notin> pg_children page"
    using edges_okD(6) [OF pi(1), of h h] not_own_parent [OF pi(2), of h] p by auto
  note proj = detached_proj(1,5) [OF pi(1) p noself]
  have "map_of (ix_pages (detach_page h page orphan ix)) = detached h page (map_of (ix_pages ix))"
    by (rule detach_page_pages [OF assms(1) p]) (rule assms(3))
  then show "dead_handles ix \<subseteq> dead_handles (detach_page h page orphan ix)"
    "h \<in> dead_handles (detach_page h page orphan ix)"
    using p by (auto simp: dead_handles_def dead_in_def proj)
qed

lemma dead_fun_upd: "M h = None \<Longrightarrow> x \<in> dead_in M \<Longrightarrow> x \<in> dead_in (M(h \<mapsto> p))"
  by (auto simp: dead_in_def proj_fun_upd)

lemma register_page_dead:
  assumes "register_page h sz res dep par sealed acc ix = Inr ix'"
  shows "dead_handles ix \<subseteq> dead_handles ix'"
proof -
  from assms have new: "map_of (ix_pages ix) h = None"
    and ix': "map_of (ix_pages ix') = (let M = (map_of (ix_pages ix))(h \<mapsto> new_page h sz res dep par sealed acc)
      in case par of None \<Rightarrow> M | Some q \<Rightarrow> map_update {q} (add_child h) M)"
    by (auto simp: register_page_def Let_def dict_in_def map_of_update map_of_dmap_update
        split: if_splits option.splits)
  show ?thesis
    using dead_fun_upd [of "map_of (ix_pages ix)", OF new]
    by (cases par) (auto simp: dead_handles_def ix' Let_def)
qed

lemma set_parent_dead:
  assumes "set_parent h q ix = Inr ix'"
  shows "dead_handles ix' = dead_handles ix"
proof -
  from assms obtain page where page: "require_page ix h = Inr page"
    by (auto simp: set_parent_def)
  show ?thesis
    using assms page
    by (cases q; cases "pg_parent page")
      (auto simp: set_parent_def Let_def dead_handles_def map_of_dmap_update split: if_splits)
qed

lemma unbind_context_dead: "dead_handles (unbind_context c ix) = dead_handles ix"
  by (simp add: unbind_context_def Let_def dead_handles_def map_of_dmap_update)

lemma bind_pages_dead:
  assumes "bind_pages c e hs replace ix = Inr ix'"
  shows "dead_handles ix' = dead_handles ix"
proof -
  let ?ix1 = "if replace then unbind_context c ix else ix"
  from assms obtain res where "ix_pages ix' = dmap_on res (set_owner c e) (ix_pages ?ix1)"
    by (auto simp: bind_pages_def Let_def split: if_split_asm)
  then show ?thesis
    using unbind_context_dead [of c ix] by (simp add: dead_handles_def map_of_dmap_update)
qed

lemma update_context_epoch_dead:
  "update_context_epoch c e ix = Inr ix' \<Longrightarrow> dead_handles ix' = dead_handles ix"
  by (auto simp: update_context_epoch_def Let_def dead_handles_def map_of_dmap_update split: if_split_asm)

lemma register_context_dead:
  "register_context c w e ix = Inr ix' \<Longrightarrow> dead_handles ix' = dead_handles ix"
  by (auto simp: register_context_def Let_def dead_handles_def split: if_split_asm)

lemma pin_context_dead:
  "pin_context c ix = Inr ix' \<Longrightarrow> dead_handles ix' = dead_handles ix"
  "unpin_context c ix = Inr ix' \<Longrightarrow> dead_handles ix' = dead_handles ix"
  by (auto simp: pin_context_def unpin_context_def Let_def dead_handles_def map_of_dmap_update
      split: if_split_asm)

lemmas ownership_dead = unbind_context_dead bind_pages_dead update_context_epoch_dead
  register_context_dead pin_context_dead

lemma free_page_dead:
  assumes "free_page h ix = Inr ix'" and "ix_inv ix"
  shows "dead_handles ix \<subseteq> dead_handles ix'" and "h \<in> dead_handles ix'"
  using assms dead_detach [of ix h _ "\<lambda>_. True"] by (auto simp: free_page_def split: if_splits)

lemma invalidate_page_dead:
  assumes "invalidate_page h ix = Inr ix'" and "ix_inv ix"
  shows "dead_handles ix \<subseteq> dead_handles ix'" and "h \<in> dead_handles ix'"
  using assms dead_detach [of ix h _ "\<lambda>p. \<not> page_dead p"]
  by (auto simp: invalidate_page_def split: if_splits)

text \<open>The operations that rewrite one live page.\<close>

lemmas page_op_defs = set_engine_lock_def set_active_readers_def update_runtime_state_def
  begin_transfer_def complete_transfer_def abort_transfer_def commit_cpu_def

lemma page_op_dead:
  "set_engine_lock h v ix = Inr ix' \<Longrightarrow> dead_handles ix \<subseteq> dead_handles ix'"
  "set_active_readers h v ix = Inr ix' \<Longrightarrow> dead_handles ix \<subseteq> dead_handles ix'"
  "update_runtime_state h res dep lk acc ix = Inr ix' \<Longrightarrow> dead_handles ix \<subseteq> dead_handles ix'"
  "begin_transfer h d ix = Inr ix' \<Longrightarrow> dead_handles ix \<subseteq> dead_handles ix'"
  "complete_transfer h d k ix = Inr ix' \<Longrightarrow> dead_handles ix \<subseteq> dead_handles ix'"
  "abort_transfer h ix = Inr ix' \<Longrightarrow> dead_handles ix \<subseteq> dead_handles ix'"
  "commit_cpu h ix = Inr ix' \<Longrightarrow> dead_handles ix \<subseteq> dead_handles ix'"
  "drop_page h ix = Inr ix' \<Longrightarrow> ix_inv ix \<Longrightarrow> dead_handles ix \<subseteq> dead_handles ix'"
  "drop_host_copy h ix = Inr ix' \<Longrightarrow> ix_inv ix \<Longrightarrow> dead_handles ix \<subseteq> dead_handles ix'"
proof -
  note wp = dead_with_page [THEN subsetD] and free = free_page_dead(1) [THEN subsetD]
  show "set_engine_lock h v ix = Inr ix' \<Longrightarrow> dead_handles ix \<subseteq> dead_handles ix'"
    "set_active_readers h v ix = Inr ix' \<Longrightarrow> dead_handles ix \<subseteq> dead_handles ix'"
    "begin_transfer h d ix = Inr ix' \<Longrightarrow> dead_handles ix \<subseteq> dead_handles ix'"
    "complete_transfer h d k ix = Inr ix' \<Longrightarrow> dead_handles ix \<subseteq> dead_handles ix'"
    "commit_cpu h ix = Inr ix' \<Longrightarrow> dead_handles ix \<subseteq> dead_handles ix'"
    "drop_page h ix = Inr ix' \<Longrightarrow> ix_inv ix \<Longrightarrow> dead_handles ix \<subseteq> dead_handles ix'"
    "drop_host_copy h ix = Inr ix' \<Longrightarrow> ix_inv ix \<Longrightarrow> dead_handles ix \<subseteq> dead_handles ix'"
    by (auto simp: page_op_defs drop_page_def drop_host_copy_def Let_def split: if_splits intro!: wp intro: free)
  show "abort_transfer h ix = Inr ix' \<Longrightarrow> dead_handles ix \<subseteq> dead_handles ix'"
    by (auto simp: abort_transfer_def split: option.splits transfer_direction.splits intro!: wp)
  show "update_runtime_state h res dep lk acc ix = Inr ix' \<Longrightarrow> dead_handles ix \<subseteq> dead_handles ix'"
    by (auto simp: update_runtime_state_def Let_def split: if_splits intro!: wp)
qed

lemma ix_step_dead: "ix_step ix ix' \<Longrightarrow> ix_inv ix \<Longrightarrow> dead_handles ix \<subseteq> dead_handles ix'"
  by (induction rule: ix_step.induct)
    (simp_all add: register_page_dead set_parent_dead ownership_dead free_page_dead invalidate_page_dead
      page_op_dead)

interpretation ixd: monotone_machine ix_step ix_inv dead_handles
  by unfold_locales (rule ix_step_dead)

lemma require_page_dead: "h \<in> dead_handles ix \<Longrightarrow> require_page ix h \<noteq> Inr p"
  by (auto simp: dead_handles_def dead_in_def require_page_Inr live_of_def)

lemma live_handle_unique:
  assumes "ix_inv ix" and "page_is_live ix h" and "page_is_live ix k" and "page_id h = page_id k"
  shows "h = k"
proof -
  have live: "live_of (map_of (ix_pages ix)) h" "live_of (map_of (ix_pages ix)) k"
    using assms(2,3) by (simp_all add: page_is_live_def live_of_def)
  then have "h \<in> dom (map_of (ix_pages ix))" "k \<in> dom (map_of (ix_pages ix))"
    by (auto simp: live_of_def split: option.splits)
  with pages_invD(3) [OF assms(1) refl] live assms(4)
  have "allocation_generation h = allocation_generation k"
    by (metis (no_types, lifting) generations_ok_def option.inject)
  with assms(4) show ?thesis by (cases h; cases k) simp
qed

lemma live_require:
  assumes "ix_inv ix" and "map_of (ix_pages ix) h = Some p" and "\<not> page_dead p"
  shows "require_page ix h = Inr p"
proof -
  obtain gen where "map_of (ix_latest_generation ix) (page_id h) = Some gen" "allocation_generation h = gen"
    using pages_invD(3) [OF assms(1) refl] assms(2,3) unfolding generations_ok_def by fastforce
  with assms(2,3) show ?thesis by (simp add: require_page_Inr)
qed

section \<open>An example index\<close>

text \<open>A context, a parent page and a child page bound to the context.\<close>

definition demo_ix1 :: page_index where
  "demo_ix1 = projr (register_context ''ctx'' ''wf'' 0 page_index_init)"

definition demo_ix2 :: page_index where
  "demo_ix2 = projr (register_page (PageHandle 1 0) 64 GPU_ONLY 0 None True 0 demo_ix1)"

definition demo_ix3 :: page_index where
  "demo_ix3 = projr (register_page (PageHandle 2 0) 32 GPU_ONLY 1 (Some (PageHandle 1 0)) True 0 demo_ix2)"

definition demo_ix :: page_index where
  "demo_ix = projr (bind_pages ''ctx'' 0 [PageHandle 1 0, PageHandle 2 0] False demo_ix3)"

lemmas index_eval = page_index_init_def register_context_def register_page_def bind_pages_def
  require_page_def validate_context_epoch_def context_epoch_def context_page_set_def dict_in_def
  dict_get_def touch_def journal_append_def journal_maxlen_def new_page_def add_child_def set_owner_def
  dmap_on_def Let_def

lemma demo_ok:
  "register_context ''ctx'' ''wf'' 0 page_index_init = Inr demo_ix1"
  "register_page (PageHandle 1 0) 64 GPU_ONLY 0 None True 0 demo_ix1 = Inr demo_ix2"
  "register_page (PageHandle 2 0) 32 GPU_ONLY 1 (Some (PageHandle 1 0)) True 0 demo_ix2 = Inr demo_ix3"
  "bind_pages ''ctx'' 0 [PageHandle 1 0, PageHandle 2 0] False demo_ix3 = Inr demo_ix"
proof -
  show 1: "register_context ''ctx'' ''wf'' 0 page_index_init = Inr demo_ix1"
    by (simp add: demo_ix1_def index_eval)
  show 2: "register_page (PageHandle 1 0) 64 GPU_ONLY 0 None True 0 demo_ix1 = Inr demo_ix2"
    by (simp add: demo_ix2_def demo_ix1_def index_eval)
  show 3: "register_page (PageHandle 2 0) 32 GPU_ONLY 1 (Some (PageHandle 1 0)) True 0 demo_ix2 = Inr demo_ix3"
    by (simp add: demo_ix3_def demo_ix2_def demo_ix1_def index_eval)
  show "bind_pages ''ctx'' 0 [PageHandle 1 0, PageHandle 2 0] False demo_ix3 = Inr demo_ix"
    by (simp add: demo_ix_def demo_ix3_def demo_ix2_def demo_ix1_def index_eval)
qed

lemma demo_reachable: "rtranclp ix_step page_index_init demo_ix"
proof -
  have "ix_step page_index_init demo_ix1"
    by (rule ix_step.register_context [OF demo_ok(1)]) (simp add: index_eval)
  moreover have "ix_step demo_ix1 demo_ix2"
    by (rule ix_step.register_page [OF demo_ok(2)]) simp
  moreover have "ix_step demo_ix2 demo_ix3"
    by (rule ix_step.register_page [OF demo_ok(3)]) simp
  moreover have "ix_step demo_ix3 demo_ix"
    by (rule ix_step.bind_pages [OF demo_ok(4)])
  ultimately show ?thesis by (meson rtranclp.rtrancl_into_rtrancl rtranclp.rtrancl_refl)
qed

lemma demo_pages:
  "map_of (ix_pages demo_ix) = map_of
     [(PageHandle 1 0, (new_page (PageHandle 1 0) 64 GPU_ONLY 0 None True 0)
         \<lparr>pg_children := {PageHandle 2 0}, pg_owner_contexts := [(''ctx'', 0)]\<rparr>),
      (PageHandle 2 0, (new_page (PageHandle 2 0) 32 GPU_ONLY 1 (Some (PageHandle 1 0)) True 0)
         \<lparr>pg_owner_contexts := [(''ctx'', 0)]\<rparr>)]"
  "map_of (ix_latest_generation demo_ix) = [2 \<mapsto> 0, 1 \<mapsto> 0]"
  by (simp_all add: demo_ix_def demo_ix3_def demo_ix2_def demo_ix1_def index_eval)

lemma demo_require: "require_page demo_ix (PageHandle 2 0) =
    Inr ((new_page (PageHandle 2 0) 32 GPU_ONLY 1 (Some (PageHandle 1 0)) True 0)
         \<lparr>pg_owner_contexts := [(''ctx'', 0)]\<rparr>)"
  by (simp add: require_page_def demo_pages new_page_def)

section \<open>Properties\<close>

text \<open>C8. Every index reached from the empty one by successful method calls that keep the three
  obligations of callers spelt out in \<open>ix_step\<close> passes the code's own \<open>assert_consistent\<close>: ownership
  and Radix edges are mirrored on both sides, owner epochs agree with context epochs, reference
  counts are non-negative and dead pages keep no children. The obligations exclude calls that
  succeed: registering again, with a newer epoch, a context that owns pages (after which the
  self-check fails), registering a page as \<open>DEAD\<close>, and reporting through
  \<open>update_runtime_state\<close> that a page is dead or that a page in transfer changed its residency.\<close>

theorem reachable_index_consistent:
  assumes "rtranclp ix_step page_index_init ix"
  shows "assert_consistent ix = Inr ()"
  by (rule ix_inv_assert_consistent [OF ix_reachable_inv [OF assms]])

theorem reachable_index_consistent_witness: "assert_consistent demo_ix = Inr ()"
  by (rule reachable_index_consistent [OF demo_reachable])

text \<open>C4. Generation safety: once a page handle was freed, no later sequence of calls makes
  \<open>require_page\<close> accept it again, even when its page id is allocated anew; and at any time at
  most one generation of a page id is alive.\<close>

theorem freed_handle_never_revived:
  assumes "rtranclp ix_step page_index_init ix" and "free_page h ix = Inr ix1"
    and "rtranclp ix_step ix1 ix2"
  shows "(\<forall>p. require_page ix2 h \<noteq> Inr p) \<and>
    (\<forall>k k'. page_is_live ix2 k \<longrightarrow> page_is_live ix2 k' \<longrightarrow> page_id k = page_id k' \<longrightarrow> k = k')"
proof -
  have inv: "ix_inv ix" by (rule ix_reachable_inv [OF assms(1)])
  have inv1: "ix_inv ix1" by (rule free_page_inv [OF assms(2) inv])
  have "h \<in> dead_handles ix2"
    using free_page_dead(2) [OF assms(2) inv] ixd.run_mono [OF assms(3) inv1] by blast
  then have "\<forall>p. require_page ix2 h \<noteq> Inr p" using require_page_dead by blast
  with live_handle_unique [OF ix.run_inv [OF assms(3) inv1]] show ?thesis by blast
qed

lemma demo_free: "\<exists>ix1. free_page (PageHandle 2 0) demo_ix = Inr ix1"
  by (simp add: free_page_def demo_require transfer_idle_def new_page_def)

theorem freed_handle_never_revived_witness:
  "\<exists>ix1. free_page (PageHandle 2 0) demo_ix = Inr ix1 \<and>
     (\<forall>p. require_page ix1 (PageHandle 2 0) \<noteq> Inr p) \<and>
     (\<forall>k k'. page_is_live ix1 k \<longrightarrow> page_is_live ix1 k' \<longrightarrow> page_id k = page_id k' \<longrightarrow> k = k')"
  using demo_free freed_handle_never_revived [OF demo_reachable _ rtranclp.rtrancl_refl] by blast

text \<open>The Radix parent relation of a reachable index has no cycle: following parent pointers
  never returns to the page it started from, so every ancestor walk ends.\<close>

theorem reachable_index_acyclic:
  assumes "rtranclp ix_step page_index_init ix"
  shows "(h, h) \<notin> {(k, q). \<exists>p. map_of (ix_pages ix) k = Some p \<and> \<not> page_dead p \<and>
                            pg_parent p = Some q}\<^sup>+"
proof -
  have "{(k, q). \<exists>p. map_of (ix_pages ix) k = Some p \<and> \<not> page_dead p \<and> pg_parent p = Some q} =
      parent_edges (live_of (map_of (ix_pages ix))) (parent_of (map_of (ix_pages ix)))"
    by (auto simp: parent_edges_def live_of_def parent_of_def split: option.splits)
  with pages_invD(2) [OF ix_reachable_inv [OF assms] refl] show ?thesis by (simp add: acyclic_def)
qed

theorem reachable_index_acyclic_witness:
  "(PageHandle 2 0, PageHandle 2 0) \<notin> {(k, q). \<exists>p. map_of (ix_pages demo_ix) k = Some p \<and>
     \<not> page_dead p \<and> pg_parent p = Some q}\<^sup>+"
  by (rule reachable_index_acyclic [OF demo_reachable])

lemma begin_abort_page:
  assumes "map_of (ix_pages ix) h = Some p" and "g (f p) = p"
  shows "map_of (ix_pages (with_page h g (with_page h f ix))) = map_of (ix_pages ix)"
  using assms by (auto simp: with_page_def map_of_dmap_update map_update_def fun_eq_iff)

lemma with_page_sel [simp]:
  "ix_latest_generation (with_page h f ix) = ix_latest_generation ix"
  "ix_context_pages (with_page h f ix) = ix_context_pages ix"
  "ix_context_epoch (with_page h f ix) = ix_context_epoch ix"
  "ix_revision (with_page h f ix) = ix_revision ix"
  by (simp_all add: with_page_def)

lemma touch_transfer_sel [simp]:
  "ix_pages (touch_transfer h p comps f ix) = ix_pages (with_page h f ix)"
  "ix_latest_generation (touch_transfer h p comps f ix) = ix_latest_generation ix"
  "ix_context_pages (touch_transfer h p comps f ix) = ix_context_pages ix"
  "ix_context_epoch (touch_transfer h p comps f ix) = ix_context_epoch ix"
  "ix_revision (touch_transfer h p comps f ix) = ix_revision ix + 1"
  by (simp_all add: touch_transfer_def touch_def Let_def)

lemma require_with_page:
  assumes "require_page ix h = Inr p" and "\<not> page_dead (f p)"
    and "ix_pages ix1 = ix_pages (with_page h f ix)"
    and "ix_latest_generation ix1 = ix_latest_generation ix"
  shows "require_page ix1 h = Inr (f p)"
  using assms by (simp add: require_page_Inr with_page_def map_of_dmap_on)

lemma pages_with_page_cong:
  "ix_pages ix = ix_pages ix' \<Longrightarrow> ix_pages (with_page h f ix) = ix_pages (with_page h f ix')"
  by (simp add: with_page_def)

lemma abort_undoes:
  assumes r: "require_page ix h = Inr p" and idle: "transfer_idle p"
    and res: "pg_residency p = (case d of D2H \<Rightarrow> GPU_ONLY | H2D \<Rightarrow> CPU_ONLY)"
    and ix1: "ix1 = touch_transfer h p comps (\<lambda>p. p\<lparr>pg_residency := r', pg_transfer_direction := Some d\<rparr>) ix"
    and r': "r' \<noteq> DEAD"
  shows "\<exists>ix2. abort_transfer h ix1 = Inr ix2 \<and> map_of (ix_pages ix2) = map_of (ix_pages ix) \<and>
    ix_context_pages ix2 = ix_context_pages ix \<and> ix_context_epoch ix2 = ix_context_epoch ix \<and>
    ix_revision ix2 = ix_revision ix + 2"
proof -
  let ?f = "\<lambda>p. p\<lparr>pg_residency := r', pg_transfer_direction := Some d\<rparr>"
  let ?g = "\<lambda>p. p\<lparr>pg_residency := (case d of D2H \<Rightarrow> GPU_ONLY | H2D \<Rightarrow> CPU_ONLY), pg_transfer_direction := None\<rparr>"
  have "require_page ix1 h = Inr (?f p)"
    by (rule require_with_page [OF r]) (simp_all add: ix1 r')
  then have "abort_transfer h ix1 = Inr (touch_transfer h (?f p) {C_residency, C_transfer} ?g ix1)"
    by (simp add: abort_transfer_def split: transfer_direction.split)
  moreover have "?g (?f p) = p" using idle res by (simp add: transfer_idle_def)
  then have "map_of (ix_pages (with_page h ?g ix1)) = map_of (ix_pages ix)"
    using begin_abort_page [of ix h p ?g ?f] r pages_with_page_cong [of ix1 "with_page h ?f ix" h ?g]
    by (simp add: require_page_Inr ix1)
  ultimately show ?thesis by (simp add: ix1)
qed

text \<open>Aborting a transfer undoes it: after \<open>begin_transfer\<close> in either direction,
  \<open>abort_transfer\<close> succeeds, every page record is exactly what it was before, the contexts are
  untouched, and the revision has moved by two, so no reader takes the index for unchanged.\<close>

theorem abort_transfer_undoes_begin:
  assumes "begin_transfer h d ix = Inr ix1"
  shows "\<exists>ix2. abort_transfer h ix1 = Inr ix2 \<and> map_of (ix_pages ix2) = map_of (ix_pages ix) \<and>
    ix_context_pages ix2 = ix_context_pages ix \<and> ix_context_epoch ix2 = ix_context_epoch ix \<and>
    ix_revision ix2 = ix_revision ix + 2"
proof -
  from assms obtain p where p: "require_page ix h = Inr p" "transfer_idle p"
      "pg_residency p = (case d of D2H \<Rightarrow> GPU_ONLY | H2D \<Rightarrow> CPU_ONLY)"
      "ix1 = touch_transfer h p {C_residency, C_transfer}
         (\<lambda>p. p\<lparr>pg_residency := (case d of D2H \<Rightarrow> MIRRORING | H2D \<Rightarrow> PREFETCHING),
               pg_transfer_direction := Some d\<rparr>) ix"
    by (cases d) (auto simp: begin_transfer_def split: if_splits)
  show ?thesis by (rule abort_undoes [OF p]) (cases d; simp)
qed

lemma demo_begin: "\<exists>ix1. begin_transfer (PageHandle 2 0) D2H demo_ix = Inr ix1"
  by (simp add: begin_transfer_def demo_require transfer_idle_def new_page_def)

theorem abort_transfer_undoes_begin_witness:
  "\<exists>ix1 ix2. begin_transfer (PageHandle 2 0) D2H demo_ix = Inr ix1 \<and>
     abort_transfer (PageHandle 2 0) ix1 = Inr ix2 \<and> map_of (ix_pages ix2) = map_of (ix_pages demo_ix)"
  using demo_begin abort_transfer_undoes_begin by blast

text \<open>C20. A page in flight is protected: until its own ACK or an abort arrives it cannot be
  freed, invalidated, dropped, have its host copy dropped or enter another transfer, an ACK for
  the other direction is refused, and the matching ACK always succeeds, leaving the page idle
  with a CPU copy (and without a GPU copy only for a D2H that does not keep it).\<close>

theorem in_flight_page_protected:
  assumes "require_page ix h = Inr p" and "pg_transfer_direction p = Some d"
  shows "(\<exists>e. free_page h ix = Inl e) \<and> (\<exists>e. invalidate_page h ix = Inl e) \<and>
    (\<exists>e. drop_page h ix = Inl e) \<and> (\<exists>e. drop_host_copy h ix = Inl e) \<and>
    (\<forall>d'. \<exists>e. begin_transfer h d' ix = Inl e) \<and>
    (\<forall>d' keep. d' \<noteq> d \<longrightarrow> (\<exists>e. complete_transfer h d' keep ix = Inl e)) \<and>
    (\<forall>keep. \<exists>ix' p'. complete_transfer h d keep ix = Inr ix' \<and> require_page ix' h = Inr p' \<and>
       transfer_idle p' \<and> cpu_resident p' \<and> (gpu_resident p' \<longleftrightarrow> d = H2D \<or> keep))"
proof (intro conjI allI impI)
  fix keep
  let ?r = "if d = D2H then (if keep then DUAL_CLEAN else CPU_ONLY) else DUAL_CLEAN"
  let ?f = "\<lambda>p. p\<lparr>pg_residency := ?r, pg_transfer_direction := None\<rparr>"
  let ?ix = "touch_transfer h p {C_residency, C_transfer} ?f ix"
  have "complete_transfer h d keep ix = Inr ?ix"
    using assms by (simp add: complete_transfer_def Let_def)
  moreover have "require_page ?ix h = Inr (?f p)"
    by (rule require_with_page [OF assms(1)]) simp_all
  moreover have "transfer_idle (?f p) \<and> cpu_resident (?f p) \<and> (gpu_resident (?f p) \<longleftrightarrow> d = H2D \<or> keep)"
    by (cases d) (simp_all add: transfer_idle_def cpu_resident_def gpu_resident_def)
  ultimately show "\<exists>ix' p'. complete_transfer h d keep ix = Inr ix' \<and> require_page ix' h = Inr p' \<and>
       transfer_idle p' \<and> cpu_resident p' \<and> (gpu_resident p' \<longleftrightarrow> d = H2D \<or> keep)"
    by blast
qed (use assms in \<open>auto simp: free_page_def invalidate_page_def drop_page_def drop_host_copy_def
    begin_transfer_def complete_transfer_def transfer_idle_def\<close>)

lemma demo_in_flight:
  "\<exists>ix1 p. begin_transfer (PageHandle 2 0) D2H demo_ix = Inr ix1 \<and>
     require_page ix1 (PageHandle 2 0) = Inr p \<and> pg_transfer_direction p = Some D2H"
proof -
  let ?f = "\<lambda>p. p\<lparr>pg_residency := MIRRORING, pg_transfer_direction := Some D2H\<rparr>"
  obtain p where p: "require_page demo_ix (PageHandle 2 0) = Inr p" "transfer_idle p" "pg_residency p = GPU_ONLY"
    by (simp add: demo_require transfer_idle_def new_page_def)
  let ?ix1 = "touch_transfer (PageHandle 2 0) p {C_residency, C_transfer} ?f demo_ix"
  have "begin_transfer (PageHandle 2 0) D2H demo_ix = Inr ?ix1"
    using p by (simp add: begin_transfer_def)
  moreover have "require_page ?ix1 (PageHandle 2 0) = Inr (?f p)"
    by (rule require_with_page [OF p(1)]) simp_all
  ultimately show ?thesis by force
qed

theorem in_flight_page_protected_witness:
  "\<exists>ix1. begin_transfer (PageHandle 2 0) D2H demo_ix = Inr ix1 \<and>
     (\<exists>e. free_page (PageHandle 2 0) ix1 = Inl e) \<and>
     (\<exists>ix'. complete_transfer (PageHandle 2 0) D2H False ix1 = Inr ix')"
  using demo_in_flight in_flight_page_protected [where h = "PageHandle 2 0" and d = D2H] by blast

lemma assert_epochs_behind:
  assumes inv: "ix_inv ix" and h: "context_page_set ix c \<noteq> {}" and e: "map_of (ix_context_epoch ix) c \<noteq> Some e"
    and same: "ix_pages ix' = ix_pages ix" "ix_context_pages ix' = ix_context_pages ix"
    "map_of (ix_context_epoch ix') = (map_of (ix_context_epoch ix))(c \<mapsto> e)"
  shows "assert_consistent ix' = Inl (AssertionError ''page owner epoch differs from context epoch'')"
proof -
  let ?e = "AssertionError ''page owner epoch differs from context epoch''"
  let ?f = "\<lambda>(c, hs) _. rfold (\<lambda>h _. assert_context_page ix' c h) (sorted_list_of_set hs) ()"
  have page: "assert_context_page ix' c' h = (if c' = c then Inl ?e else Inr ())" if "h \<in> context_page_set ix c'" for c' h
    by (rule context_page_owned [OF inv that])
      (use e in \<open>auto simp: assert_context_page_def dict_item_def same raise_if_def\<close>)
  have set_of: "context_page_set ix c' = hs" "set (sorted_list_of_set hs) = hs" if "(c', hs) \<in> set (ix_context_pages ix)" for c' hs
    using that inv finite_context_page_set [OF inv, of c']
    by (simp_all add: context_page_set_def ix_inv_def map_of_eq_Some_iff)
  have "rfold ?f (ix_context_pages ix') () = Inl ?e"
  proof (rule rfold_unit_error)
    fix x assume "x \<in> set (ix_context_pages ix')"
    then obtain c' hs where x: "x = (c', hs)" "(c', hs) \<in> set (ix_context_pages ix)" by (metis same(2) surj_pair)
    show "?f x () = Inr () \<or> ?f x () = Inl ?e"
    proof (cases "c' = c \<and> hs \<noteq> {}")
      case True
      then have "?f x () = Inl ?e" unfolding x prod.case
        by (intro rfold_unit_error) (use page set_of [OF x(2)] in auto)
      then show ?thesis ..
    next
      case False
      then have "?f x () = Inr ()" unfolding x prod.case rfold_unit using page set_of [OF x(2)] by auto
      then show ?thesis ..
    qed
  next
    obtain hs where hs: "(c, hs) \<in> set (ix_context_pages ix)" "hs \<noteq> {}"
      using h by (auto simp: context_page_set_def dict_get_def split: option.splits dest: map_of_SomeD)
    then have "?f (c, hs) () = Inl ?e" unfolding prod.case
      by (intro rfold_unit_error) (use page set_of [OF hs(1)] in auto)
    with hs show "\<exists>x \<in> set (ix_context_pages ix'). ?f x () = Inl ?e" by (auto simp: same)
  qed
  then show ?thesis by (simp add: assert_consistent_def)
qed

text \<open>C27. The epoch of a context that owns pages must not move through \<open>register_context\<close>. In a
  reachable index \<open>register_context\<close> accepts every named context whose epoch it does not lower and whose
  workflow it does not change; afterwards the index passes its own \<open>assert_consistent\<close> exactly
  when the context owned no pages or kept its epoch. So registering a context that owns pages with a
  newer epoch leaves the owner epochs recorded on those pages behind and the self-check fails.
  (\<open>update_context_epoch\<close> moves both.)\<close>

theorem register_context_newer_epoch_inconsistent:
  assumes "rtranclp ix_step page_index_init ix" and "c \<noteq> []" and "w \<noteq> []"
    and "\<And>old. map_of (ix_context_epoch ix) c = Some old \<Longrightarrow> old \<le> e"
    and "\<And>w'. map_of (ix_context_workflow ix) c = Some w' \<Longrightarrow> w' = w"
  shows "\<exists>ix'. register_context c w e ix = Inr ix' \<and> assert_consistent ix' =
    (if context_page_set ix c = {} \<or> map_of (ix_context_epoch ix) c = Some e then Inr ()
     else Inl (AssertionError ''page owner epoch differs from context epoch''))"
proof -
  have inv: "ix_inv ix" by (rule ix_reachable_inv [OF assms(1)])
  have ok: "\<not> (case map_of (ix_context_epoch ix) c of None \<Rightarrow> False | Some old \<Rightarrow> e < old)"
    "\<not> (case map_of (ix_context_workflow ix) c of None \<Rightarrow> False | Some w' \<Rightarrow> w' \<noteq> w)"
    using assms(4,5) by (auto simp: not_less split: option.splits)
  obtain ix' where step: "register_context c w e ix = Inr ix'"
    unfolding register_context_def Let_def if_not_P [OF ok(1)] if_not_P [OF ok(2)] using assms(2,3) by simp
  have known: "dict_in c (ix_context_pages ix)" if "context_page_set ix c \<noteq> {}"
    using that by (auto simp: context_page_set_def dict_get_def dict_in_def split: option.splits)
  have "assert_consistent ix' = Inl (AssertionError ''page owner epoch differs from context epoch'')"
    if "context_page_set ix c \<noteq> {}" "map_of (ix_context_epoch ix) c \<noteq> Some e"
    by (rule assert_epochs_behind [OF inv that])
      (use step that known in \<open>auto simp: register_context_def Let_def touch_def map_of_update split: if_splits\<close>)
  then show ?thesis using step register_context_inv [OF step inv] ix_inv_assert_consistent by (intro exI [of _ ix']) auto
qed

lemma register_context_newer_epoch_inconsistent_witness:
  "\<exists>ix'. register_context ''ctx'' ''wf'' 1 demo_ix = Inr ix' \<and>
     assert_consistent ix' = Inl (AssertionError ''page owner epoch differs from context epoch'')"
proof -
  have owns: "context_page_set demo_ix ''ctx'' \<noteq> {}" and epoch: "map_of (ix_context_epoch demo_ix) ''ctx'' = Some 0"
    and workflow: "map_of (ix_context_workflow demo_ix) ''ctx'' = Some ''wf''"
    by (simp_all add: demo_ix_def demo_ix3_def demo_ix2_def demo_ix1_def index_eval)
  show ?thesis
    using register_context_newer_epoch_inconsistent [OF demo_reachable, of "''ctx''" "''wf''" 1] owns
    unfolding epoch workflow by simp
qed

end
