(* ===== verification/Page_Closure.thy ===== *)
theory Page_Closure
  imports Page_Index_Inv
begin

text \<open>
  Closure-aware byte accounting of the page index (\<open>_calculate_physical_kv_state\<close>,
  \<open>physical_kv_state_breakdown\<close>, \<open>preview_engine_lock_release\<close>, \<open>workflow_gpu_charges\<close>):
  which GPU pages can be moved without leaving a protected descendant behind, how many bytes
  fall into each category, what a lock release would gain, and how GPU bytes are charged to
  workflows. The results are cached under revision counters; the theory shows that the caches
  are never stale.
\<close>

section \<open>The single pass over the live pages\<close>

record closure_acc =
  ca_eligible :: "(page_handle, bool) dict"
  ca_breakdown :: kv_breakdown
  ca_locked :: "page_handle list"
  ca_migratable :: "page_handle set"

definition locally_eligible :: "int \<Rightarrow> page_record \<Rightarrow> bool" where
  "locally_eligible lock_ref page =
     (pg_sealed page \<and> lock_ref = 0 \<and> pg_active_reader_count page = 0 \<and>
      pg_semantic_pin_contexts page = {} \<and> transfer_idle page)"

definition live_pages :: "page_index \<Rightarrow> (page_handle, page_record) dict" where
  "live_pages ix = filter (\<lambda>(_, page). \<not> page_dead page) (ix_pages ix)"

definition closure_key :: "page_record \<Rightarrow> int \<times> page_handle" where
  "closure_key page = (- pg_radix_depth page, pg_handle page)"

abbreviation add_if :: "bool \<Rightarrow> int \<Rightarrow> int \<Rightarrow> int" where
  "add_if b n t \<equiv> (if b then t + n else t)"

definition child_subtrees_eligible :: "page_handle set \<Rightarrow> page_record \<Rightarrow> closure_acc \<Rightarrow> bool" where
  "child_subtrees_eligible live page acc =
     (\<forall>k \<in> pg_children page. k \<in> live \<longrightarrow> dict_get (ca_eligible acc) k False)"

definition closure_step ::
  "(page_handle, int) dict \<Rightarrow> page_handle set \<Rightarrow> page_record \<Rightarrow> closure_acc \<Rightarrow> closure_acc" where
  "closure_step overrides live page acc =
     (let engine_lock_ref = dict_get overrides (pg_handle page) (pg_engine_lock_ref page);
          local = locally_eligible engine_lock_ref page;
          eligible = (child_subtrees_eligible live page acc \<and> (if gpu_resident page then local else True));
          size = pg_size_bytes page;
          gpu = gpu_resident page;
          b = ca_breakdown acc
      in \<lparr>ca_eligible = AList.update (pg_handle page) eligible (ca_eligible acc),
          ca_breakdown =
            \<lparr>kb_gpu_bytes = add_if gpu size (kb_gpu_bytes b),
             kb_cpu_bytes = add_if (cpu_resident page) size (kb_cpu_bytes b),
             kb_engine_locked_bytes =
               add_if (gpu \<and> (engine_lock_ref > 0 \<or> pg_active_reader_count page > 0)) size
                 (kb_engine_locked_bytes b),
             kb_closure_blocked_bytes =
               add_if (gpu \<and> \<not> eligible \<and> local) size (kb_closure_blocked_bytes b),
             kb_migratable_bytes = add_if (gpu \<and> eligible) size (kb_migratable_bytes b),
             kb_dual_resident_bytes =
               add_if (gpu \<and> pg_residency page = DUAL_CLEAN) size (kb_dual_resident_bytes b)\<rparr>,
          ca_locked = (if gpu \<and> engine_lock_ref > 0 then ca_locked acc @ [pg_handle page]
                       else ca_locked acc),
          ca_migratable = (if gpu \<and> eligible then insert (pg_handle page) (ca_migratable acc)
                           else ca_migratable acc)\<rparr>)"

definition closure_init :: closure_acc where
  "closure_init = \<lparr>ca_eligible = [], ca_breakdown = kv_breakdown_zero, ca_locked = [],
                   ca_migratable = {}\<rparr>"

definition closure_pages :: "page_index \<Rightarrow> page_record list" where
  "closure_pages ix = sort_key closure_key (map snd (live_pages ix))"

definition closure_fold :: "(page_handle, int) dict \<Rightarrow> page_index \<Rightarrow> closure_acc" where
  "closure_fold overrides ix =
     fold (closure_step overrides (set (map fst (live_pages ix)))) (closure_pages ix) closure_init"

definition calculate_physical_kv_state ::
  "(page_handle, int) dict \<Rightarrow> page_index \<Rightarrow> kv_breakdown \<times> page_handle list \<times> page_handle set" where
  "calculate_physical_kv_state overrides ix =
     (let acc = closure_fold overrides ix in (ca_breakdown acc, ca_locked acc, ca_migratable acc))"

section \<open>The cached views\<close>

definition migratable_order :: "page_index \<Rightarrow> page_handle set \<Rightarrow> page_handle list result" where
  "migratable_order ix handles =
     rbind (rmap (\<lambda>h. rbind (dict_item (ix_pages ix) h ''page'')
                        (\<lambda>p. Inr ((- pg_radix_depth p, h), h))) (sorted_list_of_set handles))
       (\<lambda>keyed. Inr (map snd (sort_key fst keyed)))"

definition physical_kv_state_breakdown :: "page_index \<Rightarrow> (kv_breakdown \<times> page_index) result" where
  "physical_kv_state_breakdown ix =
     (if ix_physical_breakdown_revision ix = ix_physical_state_revision ix
      then Inr (ix_physical_breakdown ix, ix)
      else
        let (breakdown, locked, migratable) = calculate_physical_kv_state [] ix in
        rbind (migratable_order ix migratable) (\<lambda>ordered.
          Inr (breakdown,
               ix\<lparr>ix_physical_breakdown := breakdown,
                  ix_engine_locked_pages := locked,
                  ix_migratable_gpu_handles := migratable,
                  ix_migratable_gpu_pages := ordered,
                  ix_physical_breakdown_revision := ix_physical_state_revision ix\<rparr>)))"

definition index_gpu_bytes :: "page_index \<Rightarrow> (int \<times> page_index) result" where
  "index_gpu_bytes ix =
     rbind (physical_kv_state_breakdown ix) (\<lambda>(b, ix'). Inr (kb_gpu_bytes b, ix'))"

definition index_cpu_bytes :: "page_index \<Rightarrow> (int \<times> page_index) result" where
  "index_cpu_bytes ix =
     rbind (physical_kv_state_breakdown ix) (\<lambda>(b, ix'). Inr (kb_cpu_bytes b, ix'))"

definition engine_locked_gpu_pages :: "page_index \<Rightarrow> (page_handle list \<times> page_index) result" where
  "engine_locked_gpu_pages ix =
     rbind (physical_kv_state_breakdown ix) (\<lambda>(_, ix'). Inr (ix_engine_locked_pages ix', ix'))"

definition migratable_gpu_pages :: "page_index \<Rightarrow> (page_handle list \<times> page_index) result" where
  "migratable_gpu_pages ix =
     rbind (physical_kv_state_breakdown ix) (\<lambda>(_, ix'). Inr (ix_migratable_gpu_pages ix', ix'))"

record unlock_projection =
  up_page_revision :: int
  up_topology_revision :: int
  up_baseline :: kv_breakdown
  up_projected :: kv_breakdown
  up_overridden_handles :: "page_handle list"
  up_lock_ref_zeroed_handles :: "page_handle list"
  up_lock_ref_zeroed_bytes :: int
  up_newly_migratable_handles :: "page_handle list"
  up_newly_migratable_bytes :: int

definition check_override :: "page_index \<Rightarrow> page_handle \<times> int \<Rightarrow> unit \<Rightarrow> unit result" where
  "check_override ix = (\<lambda>(h, r) _.
     rbind (require_page ix h) (\<lambda>page.
       if r < 0 \<or> pg_engine_lock_ref page < r
       then Inl (ValueError ''projected engine lock ref must be within the current ref'')
       else Inr ()))"

definition page_size_of :: "page_index \<Rightarrow> page_handle \<Rightarrow> int" where
  "page_size_of ix h = (case map_of (ix_pages ix) h of None \<Rightarrow> 0 | Some p \<Rightarrow> pg_size_bytes p)"

definition page_lock_of :: "page_index \<Rightarrow> page_handle \<Rightarrow> int" where
  "page_lock_of ix h = (case map_of (ix_pages ix) h of None \<Rightarrow> 0 | Some p \<Rightarrow> pg_engine_lock_ref p)"

definition preview_engine_lock_release ::
  "(page_handle, int) dict \<Rightarrow> page_index \<Rightarrow> (unlock_projection \<times> page_index) result" where
  "preview_engine_lock_release overrides ix =
     rbind (rfold (check_override ix) overrides ()) (\<lambda>_.
     rbind (physical_kv_state_breakdown ix) (\<lambda>(baseline, ix').
       let (projected, _, projected_migratable) = calculate_physical_kv_state overrides ix';
           zeroed = sort (map fst (filter (\<lambda>(h, r). page_lock_of ix' h > 0 \<and> r = 0) overrides))
       in Inr (\<lparr>up_page_revision = ix_revision ix',
                up_topology_revision = ix_topology_revision ix',
                up_baseline = baseline,
                up_projected = projected,
                up_overridden_handles = sort (map fst overrides),
                up_lock_ref_zeroed_handles = zeroed,
                up_lock_ref_zeroed_bytes = sum_list (map (page_size_of ix') zeroed),
                up_newly_migratable_handles =
                  sorted_list_of_set (projected_migratable - ix_migratable_gpu_handles ix'),
                up_newly_migratable_bytes =
                  kb_migratable_bytes projected - kb_migratable_bytes baseline\<rparr>, ix')))"

section \<open>Workflow charges\<close>

definition page_workflows :: "page_index \<Rightarrow> page_record \<Rightarrow> string set" where
  "page_workflows ix page =
     {w. \<exists>c \<in> fst ` set (pg_owner_contexts page). map_of (ix_context_workflow ix) c = Some w}"

lemma page_workflows_code [code]:
  "page_workflows ix page =
     set (List.map_filter (map_of (ix_context_workflow ix)) (map fst (pg_owner_contexts page)))"
  by (force simp: page_workflows_def List.map_filter_def)

definition charge_page :: "page_index \<Rightarrow> page_record \<Rightarrow> (string, real) dict \<Rightarrow> (string, real) dict" where
  "charge_page ix page charges =
     (let workflows = page_workflows ix page in
      if \<not> gpu_resident page \<or> workflows = {} then charges
      else let share = of_int (pg_size_bytes page) / of_nat (card workflows) in
        fold (\<lambda>w d. AList.update w (dict_get d w 0 + share) d) (sorted_list_of_set workflows) charges)"

definition calculate_workflow_charges :: "page_index \<Rightarrow> (string, real) dict" where
  "calculate_workflow_charges ix = fold (charge_page ix) (map snd (ix_pages ix)) []"

definition workflow_gpu_charges :: "page_index \<Rightarrow> (string, real) dict \<times> page_index" where
  "workflow_gpu_charges ix =
     (if ix_workflow_charge_cache_revision ix = ix_accounting_revision ix
      then (ix_workflow_charge_cache ix, ix)
      else
        let charges = calculate_workflow_charges ix in
        (charges,
         ix\<lparr>ix_workflow_charge_cache := charges,
            ix_workflow_charge_cache_revision := ix_accounting_revision ix\<rparr>))"

section \<open>What the pass computes\<close>

abbreviation closure_acc_of :: "(page_handle, int) dict \<Rightarrow> page_handle set \<Rightarrow> page_record list \<Rightarrow> closure_acc" where
  "closure_acc_of ov live ps \<equiv> fold (closure_step ov live) ps closure_init"

abbreviation eligible_of :: "(page_handle, int) dict \<Rightarrow> page_handle set \<Rightarrow> page_record list \<Rightarrow> page_handle \<Rightarrow> bool" where
  "eligible_of ov live ps h \<equiv> dict_get (ca_eligible (closure_acc_of ov live ps)) h False"

definition lock_ref :: "(page_handle, int) dict \<Rightarrow> page_record \<Rightarrow> int" where
  "lock_ref ov p = dict_get ov (pg_handle p) (pg_engine_lock_ref p)"

text \<open>The gate a page contributes to the closure of its ancestors.\<close>

definition gate_open :: "(page_handle, int) dict \<Rightarrow> page_record \<Rightarrow> bool" where
  "gate_open ov p \<longleftrightarrow> (gpu_resident p \<longrightarrow> locally_eligible (lock_ref ov p) p)"

lemma closure_step_eligible:
  "ca_eligible (closure_step ov live p acc) = AList.update (pg_handle p)
     (child_subtrees_eligible live p acc \<and> gate_open ov p) (ca_eligible acc)"
  by (simp add: closure_step_def Let_def gate_open_def lock_ref_def)

lemma closure_step_migratable:
  "ca_migratable (closure_step ov live p acc) =
     (if gpu_resident p \<and> child_subtrees_eligible live p acc \<and> gate_open ov p
      then insert (pg_handle p) (ca_migratable acc) else ca_migratable acc)"
  by (simp add: closure_step_def Let_def gate_open_def lock_ref_def)

lemma closure_step_breakdown:
  "ca_breakdown (closure_step ov live p acc) =
     (let b = ca_breakdown acc; size = pg_size_bytes p; gpu = gpu_resident p;
          e = child_subtrees_eligible live p acc \<and> gate_open ov p
      in \<lparr>kb_gpu_bytes = add_if gpu size (kb_gpu_bytes b),
          kb_cpu_bytes = add_if (cpu_resident p) size (kb_cpu_bytes b),
          kb_engine_locked_bytes =
            add_if (gpu \<and> (lock_ref ov p > 0 \<or> pg_active_reader_count p > 0)) size
              (kb_engine_locked_bytes b),
          kb_closure_blocked_bytes =
            add_if (gpu \<and> \<not> e \<and> locally_eligible (lock_ref ov p) p) size (kb_closure_blocked_bytes b),
          kb_migratable_bytes = add_if (gpu \<and> e) size (kb_migratable_bytes b),
          kb_dual_resident_bytes =
            add_if (gpu \<and> pg_residency p = DUAL_CLEAN) size (kb_dual_resident_bytes b)\<rparr>)"
  by (cases "gpu_resident p") (simp_all add: closure_step_def Let_def gate_open_def lock_ref_def)

lemma eligible_keys:
  "fst ` set (ca_eligible (closure_acc_of ov live ps)) = pg_handle ` set ps"
  by (induction ps rule: rev_induct) (auto simp: closure_init_def closure_step_eligible)

lemma eligible_known: "eligible_of ov live ps h \<Longrightarrow> h \<in> pg_handle ` set ps"
  unfolding eligible_keys [symmetric, of ps ov live]
  by (auto simp: dict_get_def split: option.splits intro: dict_key)

lemma eligible_persists:
  "h \<notin> pg_handle ` set post \<Longrightarrow> eligible_of ov live (pre @ post) h = eligible_of ov live pre h"
proof (induction post rule: rev_induct)
  case (snoc p post)
  then show ?case
    by (simp only: append_assoc [symmetric] fold_append o_apply fold.simps id_apply
        closure_step_eligible dict_get_update) (simp add: image_iff)
qed simp

text \<open>The entry of a page is decided by the entries its children have at that moment.\<close>

lemma eligible_entry:
  assumes "distinct (map pg_handle (pre @ p # post))"
  shows "eligible_of ov live (pre @ p # post) (pg_handle p) \<longleftrightarrow>
    (\<forall>k \<in> pg_children p. k \<in> live \<longrightarrow> eligible_of ov live pre k) \<and> gate_open ov p"
proof -
  have "eligible_of ov live ((pre @ [p]) @ post) (pg_handle p) = eligible_of ov live (pre @ [p]) (pg_handle p)"
    by (rule eligible_persists) (use assms in auto)
  then show ?thesis by (simp add: closure_step_eligible dict_get_update child_subtrees_eligible_def)
qed

lemma distinct_split:
  "distinct (map f (pre @ post)) \<Longrightarrow> f ` set pre \<inter> f ` set post = {}"
  by simp

lemma eligible_sound:
  assumes d: "distinct (map pg_handle ps)" and e: "eligible_of ov live ps h"
  shows "\<exists>p \<in> set ps. pg_handle p = h \<and> gate_open ov p \<and>
    (\<forall>k \<in> pg_children p. k \<in> live \<longrightarrow> eligible_of ov live ps k)"
proof -
  from eligible_known [OF e] obtain p pre post where p: "pg_handle p = h" and ps: "ps = pre @ p # post"
    by (metis imageE in_set_conv_decomp)
  have "eligible_of ov live ps k" if "eligible_of ov live pre k" for k
  proof -
    have "k \<notin> pg_handle ` set (p # post)"
      using eligible_known [OF that] distinct_split [OF d [unfolded ps]] by blast
    then show ?thesis using that eligible_persists unfolding ps by blast
  qed
  with eligible_entry [of pre p post ov live] d e p ps show ?thesis by auto
qed

text \<open>If children come before their parents, the entry is the conjunction over the subtree.\<close>

lemma eligible_complete:
  assumes d: "distinct (map pg_handle ps)" and ps: "ps = pre @ p # post"
    and before: "\<And>k. k \<in> pg_children p \<Longrightarrow> k \<in> live \<Longrightarrow> k \<in> pg_handle ` set pre"
    and gate: "gate_open ov p"
    and kids: "\<And>k. k \<in> pg_children p \<Longrightarrow> k \<in> live \<Longrightarrow> eligible_of ov live ps k"
  shows "eligible_of ov live ps (pg_handle p)"
proof -
  have "eligible_of ov live pre k" if k: "k \<in> pg_children p" "k \<in> live" for k
  proof -
    have "k \<notin> pg_handle ` set (p # post)"
      using before [OF k] distinct_split [OF d [unfolded ps]] by blast
    then show ?thesis using kids [OF k] eligible_persists unfolding ps by blast
  qed
  with eligible_entry [of pre p post ov live] d gate show ?thesis unfolding ps by blast
qed

lemma migratable_eligible:
  assumes "distinct (map pg_handle ps)"
  shows "ca_migratable (closure_acc_of ov live ps) =
    pg_handle ` {p \<in> set ps. gpu_resident p \<and> eligible_of ov live ps (pg_handle p)}"
  using assms
proof (induction ps rule: rev_induct)
  case (snoc p ps)
  have old: "eligible_of ov live (ps @ [p]) (pg_handle q) = eligible_of ov live ps (pg_handle q)"
    if "q \<in> set ps" for q
    by (rule eligible_persists) (use distinct_split [OF snoc.prems] that in blast)
  have new: "eligible_of ov live (ps @ [p]) (pg_handle p) =
      (child_subtrees_eligible live p (closure_acc_of ov live ps) \<and> gate_open ov p)"
    by (simp add: closure_step_eligible dict_get_update)
  have "ca_migratable (closure_acc_of ov live (ps @ [p])) =
      (if gpu_resident p \<and> eligible_of ov live (ps @ [p]) (pg_handle p)
       then insert (pg_handle p) (ca_migratable (closure_acc_of ov live ps))
       else ca_migratable (closure_acc_of ov live ps))"
    unfolding new by (simp add: closure_step_migratable)
  moreover have "{q \<in> set (ps @ [p]). gpu_resident q \<and> eligible_of ov live (ps @ [p]) (pg_handle q)} =
      {q \<in> set ps. gpu_resident q \<and> eligible_of ov live ps (pg_handle q)} \<union>
      (if gpu_resident p \<and> eligible_of ov live (ps @ [p]) (pg_handle p) then {p} else {})"
    using old by (auto simp del: fold_append)
  ultimately show ?case using snoc.IH snoc.prems by (simp add: image_Un del: fold_append)
qed (simp add: closure_init_def)

definition bytes_where :: "(page_record \<Rightarrow> bool) \<Rightarrow> page_record list \<Rightarrow> int" where
  "bytes_where P ps = sum_list (map pg_size_bytes (filter P ps))"

lemma bytes_where_snoc:
  "bytes_where P (ps @ [p]) = add_if (P p) (pg_size_bytes p) (bytes_where P ps)"
  by (simp add: bytes_where_def)

lemma bytes_where_cong: "(\<And>p. p \<in> set ps \<Longrightarrow> P p = Q p) \<Longrightarrow> bytes_where P ps = bytes_where Q ps"
  by (simp add: bytes_where_def cong: filter_cong)

lemma closure_breakdown:
  assumes "distinct (map pg_handle ps)"
  shows "ca_breakdown (closure_acc_of ov live ps) =
    \<lparr>kb_gpu_bytes = bytes_where gpu_resident ps,
     kb_cpu_bytes = bytes_where cpu_resident ps,
     kb_engine_locked_bytes =
       bytes_where (\<lambda>p. gpu_resident p \<and> (lock_ref ov p > 0 \<or> pg_active_reader_count p > 0)) ps,
     kb_closure_blocked_bytes =
       bytes_where (\<lambda>p. gpu_resident p \<and> \<not> eligible_of ov live ps (pg_handle p) \<and>
                        locally_eligible (lock_ref ov p) p) ps,
     kb_migratable_bytes =
       bytes_where (\<lambda>p. gpu_resident p \<and> eligible_of ov live ps (pg_handle p)) ps,
     kb_dual_resident_bytes =
       bytes_where (\<lambda>p. gpu_resident p \<and> pg_residency p = DUAL_CLEAN) ps\<rparr>"
  using assms
proof (induction ps rule: rev_induct)
  case (snoc p ps)
  have old: "eligible_of ov live (ps @ [p]) (pg_handle q) = eligible_of ov live ps (pg_handle q)"
    if "q \<in> set ps" for q
    by (rule eligible_persists) (use distinct_split [OF snoc.prems] that in blast)
  have new: "eligible_of ov live (ps @ [p]) (pg_handle p) =
      (child_subtrees_eligible live p (closure_acc_of ov live ps) \<and> gate_open ov p)"
    by (simp add: closure_step_eligible dict_get_update)
  have b: "bytes_where (\<lambda>q. gpu_resident q \<and> eligible_of ov live (ps @ [p]) (pg_handle q)) ps =
      bytes_where (\<lambda>q. gpu_resident q \<and> eligible_of ov live ps (pg_handle q)) ps"
    "bytes_where (\<lambda>q. gpu_resident q \<and> \<not> eligible_of ov live (ps @ [p]) (pg_handle q) \<and>
        locally_eligible (lock_ref ov q) q) ps =
      bytes_where (\<lambda>q. gpu_resident q \<and> \<not> eligible_of ov live ps (pg_handle q) \<and>
        locally_eligible (lock_ref ov q) q) ps"
    using old by (intro bytes_where_cong; simp del: fold_append)+
  show ?case
    unfolding bytes_where_snoc b new
    using snoc.IH snoc.prems
    by (simp add: closure_step_breakdown Let_def)
qed (simp add: closure_init_def kv_breakdown_zero_def bytes_where_def)

section \<open>The pass over an index\<close>

lemma page_entry:
  assumes "ix_inv ix"
  shows "(h, p) \<in> set (ix_pages ix) \<longleftrightarrow> map_of (ix_pages ix) h = Some p"
    and "(h, p) \<in> set (ix_pages ix) \<Longrightarrow> pg_handle p = h"
  using ix_inv_parts(1) [OF assms] page_ok_ix [OF assms, of h p]
  by (auto simp: page_ok_def map_of_eq_Some_iff)

lemma set_live_pages:
  assumes "ix_inv ix"
  shows "set (map fst (live_pages ix)) = {h. live_of (map_of (ix_pages ix)) h}"
proof -
  have "h \<in> set (map fst (live_pages ix)) \<longleftrightarrow> live_of (map_of (ix_pages ix)) h" for h
    by (cases "map_of (ix_pages ix) h")
      (auto simp: live_pages_def page_entry(1) [OF assms] image_iff Bex_def)
  then show ?thesis by blast
qed

lemma set_closure_pages:
  assumes "ix_inv ix"
  shows "p \<in> set (closure_pages ix) \<longleftrightarrow> map_of (ix_pages ix) (pg_handle p) = Some p \<and> \<not> page_dead p"
proof -
  have "p \<in> set (closure_pages ix) \<longleftrightarrow> (\<exists>h. (h, p) \<in> set (ix_pages ix) \<and> \<not> page_dead p)"
    by (force simp: closure_pages_def live_pages_def image_iff)
  with page_entry [OF assms] show ?thesis by metis
qed

lemma distinct_map_sort_key: "distinct (map g (sort_key f xs)) = distinct (map g xs)"
  by (simp add: distinct_map)

lemma distinct_closure_pages:
  assumes "ix_inv ix"
  shows "distinct (map pg_handle (closure_pages ix))"
proof -
  have "map pg_handle (map snd (live_pages ix)) = map fst (live_pages ix)"
    using page_entry(2) [OF assms] by (auto simp: live_pages_def)
  moreover have "distinct (map fst (live_pages ix))"
    using ix_inv_parts(1) [OF assms] by (simp add: live_pages_def distinct_map_filter)
  ultimately show ?thesis
    by (simp add: closure_pages_def distinct_map_sort_key del: map_map)
qed

text \<open>The Radix subtree below a page.\<close>

definition child_edges :: "page_index \<Rightarrow> (page_handle \<times> page_handle) set" where
  "child_edges ix = {(h, k). k \<in> children_of (map_of (ix_pages ix)) h}"

definition closure_open :: "(page_handle, int) dict \<Rightarrow> page_index \<Rightarrow> page_handle \<Rightarrow> bool" where
  "closure_open ov ix h \<longleftrightarrow>
     (\<forall>d p. (h, d) \<in> (child_edges ix)\<^sup>* \<longrightarrow> map_of (ix_pages ix) d = Some p \<longrightarrow> gate_open ov p)"

definition depth_increasing :: "page_index \<Rightarrow> bool" where
  "depth_increasing ix \<longleftrightarrow>
     (\<forall>h p k q. map_of (ix_pages ix) h = Some p \<longrightarrow> k \<in> pg_children p \<longrightarrow>
        map_of (ix_pages ix) k = Some q \<longrightarrow> pg_radix_depth p < pg_radix_depth q)"

abbreviation index_eligible :: "(page_handle, int) dict \<Rightarrow> page_index \<Rightarrow> page_handle \<Rightarrow> bool" where
  "index_eligible ov ix h \<equiv>
     eligible_of ov {h. live_of (map_of (ix_pages ix)) h} (closure_pages ix) h"

lemma child_live:
  assumes "ix_inv ix" and "map_of (ix_pages ix) h = Some p" and "k \<in> pg_children p"
  shows "live_of (map_of (ix_pages ix)) k"
  using edges_okD(4) [OF pages_invD(1) [OF assms(1) refl], of k h] assms by simp

lemma index_eligible_sound:
  assumes inv: "ix_inv ix" and e: "index_eligible ov ix h"
  shows "closure_open ov ix h"
proof -
  note sound = eligible_sound [OF distinct_closure_pages [OF inv]]
  have "index_eligible ov ix d" if "(h, d) \<in> (child_edges ix)\<^sup>*" for d
    using that
  proof (induction)
    case (step a b)
    from sound [OF step.IH] obtain p where p: "p \<in> set (closure_pages ix)" "pg_handle p = a"
      and kids: "\<And>k. k \<in> pg_children p \<Longrightarrow> live_of (map_of (ix_pages ix)) k \<Longrightarrow> index_eligible ov ix k"
      by auto
    from p have M: "map_of (ix_pages ix) a = Some p" using set_closure_pages [OF inv] by simp
    with step(2) have "b \<in> pg_children p" by (simp add: child_edges_def)
    then show ?case using kids child_live [OF inv M] by blast
  qed (rule e)
  then show ?thesis
    unfolding closure_open_def using sound set_closure_pages [OF inv] by (metis option.inject)
qed

lemma index_eligible_complete:
  assumes inv: "ix_inv ix" and depth: "depth_increasing ix"
    and n: "n < length (closure_pages ix)" and open': "closure_open ov ix (pg_handle (closure_pages ix ! n))"
  shows "index_eligible ov ix (pg_handle (closure_pages ix ! n))"
  using n open'
proof (induction n rule: less_induct)
  case (less n)
  let ?ps = "closure_pages ix" and ?p = "closure_pages ix ! n"
  have p: "map_of (ix_pages ix) (pg_handle ?p) = Some ?p"
    using set_closure_pages [OF inv] less.prems(1) nth_mem by blast
  have srt: "sorted (map closure_key ?ps)" by (simp add: closure_pages_def)
  have kid: "\<exists>m < n. pg_handle (?ps ! m) = k" if k: "k \<in> pg_children ?p" for k
  proof -
    from child_live [OF inv p k] obtain q where q: "map_of (ix_pages ix) k = Some q" "\<not> page_dead q"
      by (auto simp: live_of_def split: option.splits)
    have qk: "pg_handle q = k" using page_ok_ix [OF inv q(1)] by (simp add: page_ok_def)
    with q have "q \<in> set ?ps" using set_closure_pages [OF inv] by simp
    then obtain m where m: "m < length ?ps" "?ps ! m = q" by (auto simp: in_set_conv_nth)
    have "closure_key q < closure_key ?p"
      using depth p k q(1) by (auto simp: depth_increasing_def closure_key_def less_prod_def)
    then have "\<not> n \<le> m"
      using sorted_nth_mono [OF srt, of n m] m by auto
    with m qk show ?thesis by (metis not_le)
  qed
  have sub: "closure_open ov ix k" if "k \<in> pg_children ?p" for k
  proof -
    have "(pg_handle ?p, k) \<in> child_edges ix" using that p by (simp add: child_edges_def)
    with less.prems(2) show ?thesis
      unfolding closure_open_def by (blast intro: converse_rtrancl_into_rtrancl)
  qed
  show ?case
  proof (rule eligible_complete [OF distinct_closure_pages [OF inv] id_take_nth_drop [OF less.prems(1)]])
    fix k assume k: "k \<in> pg_children ?p"
    from kid [OF k] obtain m where m: "m < n" "pg_handle (?ps ! m) = k" by blast
    show "k \<in> pg_handle ` set (take n ?ps)"
      using m less.prems(1) by (force simp: in_set_conv_nth image_iff)
    show "index_eligible ov ix k"
      using less.IH [OF m(1)] m sub [OF k] less.prems(1) by simp
  next
    show "gate_open ov ?p" using less.prems(2) p by (auto simp: closure_open_def)
  qed
qed

lemma closure_fold_eq:
  assumes "ix_inv ix"
  shows "closure_fold ov ix = closure_acc_of ov {h. live_of (map_of (ix_pages ix)) h} (closure_pages ix)"
  by (simp add: closure_fold_def set_live_pages [OF assms, simplified])

lemma migratable_iff:
  assumes inv: "ix_inv ix"
  shows "h \<in> ca_migratable (closure_fold ov ix) \<longleftrightarrow>
    (\<exists>p. map_of (ix_pages ix) h = Some p \<and> gpu_resident p \<and> index_eligible ov ix h)"
proof -
  have "\<not> page_dead p" if "gpu_resident p" for p using that by (auto simp: gpu_resident_def)
  then show ?thesis
    unfolding closure_fold_eq [OF inv] migratable_eligible [OF distinct_closure_pages [OF inv]]
    using set_closure_pages [OF inv] page_ok_ix [OF inv, of h]
    by (auto simp: page_ok_def image_iff)
qed

text \<open>Rewriting every page record in a way the pass does not see.\<close>

lemma insort_key_map: "insort_key f (g x) (map g ys) = map g (insort_key (\<lambda>a. f (g a)) x ys)"
  by (induction ys) auto

lemma sort_key_map: "sort_key f (map g xs) = map g (sort_key (\<lambda>a. f (g a)) xs)"
  by (induction xs) (simp_all add: insort_key_map)

lemma insort_key_cong:
  "f x = g x \<Longrightarrow> (\<And>y. y \<in> set xs \<Longrightarrow> f y = g y) \<Longrightarrow> insort_key f x xs = insort_key g x xs"
  by (induction xs) auto

lemma sort_key_cong: "(\<And>y. y \<in> set xs \<Longrightarrow> f y = g y) \<Longrightarrow> sort_key f xs = sort_key g xs"
proof (induction xs)
  case (Cons x xs)
  then have "sort_key f xs = sort_key g xs" by simp
  moreover have "insort_key f x (sort_key g xs) = insort_key g x (sort_key g xs)"
    by (rule insort_key_cong) (use Cons.prems in simp_all)
  ultimately show ?case by simp
qed simp

lemma closure_fold_map:
  assumes pages: "ix_pages ix' = map (\<lambda>(h, p). (h, g h p)) (ix_pages ix)"
    and step: "\<And>h p live. (h, p) \<in> set (ix_pages ix) \<Longrightarrow>
        closure_step ov' live (g h p) = closure_step ov live p \<and> closure_key (g h p) = closure_key p \<and>
        page_dead (g h p) = page_dead p"
  shows "closure_fold ov' ix' = closure_fold ov ix"
proof -
  let ?g = "\<lambda>(h, p). g h p"
  let ?L = "live_pages ix"
  have L: "live_pages ix' = map (\<lambda>hp. (fst hp, ?g hp)) ?L"
    unfolding live_pages_def pages filter_map o_def
    using step by (auto simp: case_prod_unfold intro!: filter_cong arg_cong [where f = "map _"])
  have sub: "set ?L \<subseteq> set (ix_pages ix)" by (auto simp: live_pages_def)
  have key: "map snd (live_pages ix') = map ?g ?L" by (simp add: L o_def)
  have "sort_key closure_key (map ?g ?L) = map ?g (sort_key (\<lambda>hp. closure_key (?g hp)) ?L)"
    by (rule sort_key_map)
  also have "sort_key (\<lambda>hp. closure_key (?g hp)) ?L = sort_key (\<lambda>hp. closure_key (snd hp)) ?L"
    using sub step by (intro sort_key_cong) auto
  finally have cp: "closure_pages ix' = map ?g (sort_key (\<lambda>hp. closure_key (snd hp)) ?L)"
    by (simp add: closure_pages_def key)
  have cp0: "closure_pages ix = map snd (sort_key (\<lambda>hp. closure_key (snd hp)) ?L)"
    by (simp add: closure_pages_def sort_key_map)
  have live: "map fst (live_pages ix') = map fst ?L" by (simp add: L o_def)
  have "fold (closure_step ov' lv) (closure_pages ix') acc = fold (closure_step ov lv) (closure_pages ix) acc"
    for lv acc
    unfolding cp cp0 fold_map
    by (rule fold_cong) (use sub step in \<open>auto simp: fun_eq_iff\<close>)
  then show ?thesis by (simp add: closure_fold_def live del: set_map)
qed

section \<open>Projecting a lock release\<close>

definition apply_locks :: "(page_handle, int) dict \<Rightarrow> page_index \<Rightarrow> page_index result" where
  "apply_locks ov ix = rfold (\<lambda>(h, r). set_engine_lock h r) ov ix"

definition locked_page :: "(page_handle, int) dict \<Rightarrow> page_handle \<Rightarrow> page_record \<Rightarrow> page_record" where
  "locked_page ov h p = p\<lparr>pg_engine_lock_ref := dict_get ov h (pg_engine_lock_ref p)\<rparr>"

lemma set_engine_lock_pages:
  assumes "set_engine_lock h r ix = Inr ix'" and "ix_inv ix"
  shows "ix_pages ix' = map (\<lambda>(k, p). (k, locked_page [(h, r)] k p)) (ix_pages ix)"
proof -
  from assms obtain q where q: "require_page ix h = Inr q"
    by (auto simp: set_engine_lock_def split: if_splits)
  then have "(h, p) \<in> set (ix_pages ix) \<Longrightarrow> p = q" for p
    using page_entry(1) [OF assms(2)] by (auto simp: require_page_Inr)
  with assms(1) q show ?thesis
    by (auto simp: set_engine_lock_def with_page_def dmap_on_def locked_page_def dict_get_def
        split: if_splits intro!: map_idI [symmetric])
qed

lemma apply_locks_pages:
  assumes "apply_locks ov ix = Inr ix'" and "ix_inv ix" and "dict_ok ov"
  shows "ix_pages ix' = map (\<lambda>(k, p). (k, locked_page ov k p)) (ix_pages ix)"
  using assms unfolding apply_locks_def
proof (induction ov arbitrary: ix)
  case Nil
  then show ?case by (simp add: locked_page_def map_idI)
next
  case (Cons a ov)
  obtain h r where a: "a = (h, r)" by fastforce
  with Cons.prems obtain ix1 where ix1: "set_engine_lock h r ix = Inr ix1"
    and rest: "rfold (\<lambda>(h, r). set_engine_lock h r) ov ix1 = Inr ix'" by auto
  have inv1: "ix_inv ix1" by (rule set_engine_lock_inv [OF ix1 Cons.prems(2)])
  have "map_of ov h = None" using Cons.prems(3) a by (simp add: map_of_eq_None_iff)
  then have "locked_page ov k (locked_page [(h, r)] k p) = locked_page (a # ov) k p" for k p
    by (simp add: locked_page_def dict_get_def a split: option.split)
  with Cons.IH [OF rest inv1] Cons.prems(3) show ?case
    by (auto simp: set_engine_lock_pages [OF ix1 Cons.prems(2)])
qed

lemma closure_fold_locks:
  assumes inv: "ix_inv ix" and pages: "ix_pages ix' = map (\<lambda>(k, p). (k, locked_page ov k p)) (ix_pages ix)"
  shows "closure_fold [] ix' = closure_fold ov ix"
proof (rule closure_fold_map [OF pages])
  fix h p live assume "(h, p) \<in> set (ix_pages ix)"
  then have h: "pg_handle p = h" by (rule page_entry(2) [OF inv])
  show "closure_step [] live (locked_page ov h p) = closure_step ov live p \<and>
      closure_key (locked_page ov h p) = closure_key p \<and> page_dead (locked_page ov h p) = page_dead p"
    by (auto simp: fun_eq_iff closure_step_def Let_def locked_page_def closure_key_def h
        locally_eligible_def gpu_resident_def cpu_resident_def transfer_idle_def
        child_subtrees_eligible_def dict_get_def)
qed

lemma gate_open_mono:
  assumes "0 \<le> lock_ref ov p" and "lock_ref ov p \<le> pg_engine_lock_ref p" and "gate_open [] p"
  shows "gate_open ov p"
  using assms by (auto simp: gate_open_def locally_eligible_def lock_ref_def [of "[]"])

lemma eligible_mono:
  assumes "\<And>p. p \<in> set ps \<Longrightarrow> 0 \<le> lock_ref ov p \<and> lock_ref ov p \<le> pg_engine_lock_ref p"
    and "eligible_of [] live ps h"
  shows "eligible_of ov live ps h"
  using assms
proof (induction ps arbitrary: h rule: rev_induct)
  case (snoc p ps)
  have IH: "eligible_of [] live ps k \<Longrightarrow> eligible_of ov live ps k" for k
    using snoc.IH snoc.prems(1) by simp
  then have "child_subtrees_eligible live p (closure_acc_of [] live ps) \<Longrightarrow>
      child_subtrees_eligible live p (closure_acc_of ov live ps)"
    by (auto simp: child_subtrees_eligible_def)
  moreover have "gate_open [] p \<Longrightarrow> gate_open ov p"
    using gate_open_mono snoc.prems(1) by simp
  ultimately show ?case
    using snoc.prems(2) IH by (auto simp: closure_step_eligible dict_get_update split: if_splits)
qed simp

lemma bytes_where_diff:
  "(\<And>p. p \<in> set ps \<Longrightarrow> Q p \<Longrightarrow> P p) \<Longrightarrow>
     bytes_where P ps - bytes_where Q ps = bytes_where (\<lambda>p. P p \<and> \<not> Q p) ps"
  by (induction ps) (auto simp: bytes_where_def)

lemma bytes_where_sum:
  assumes inv: "ix_inv ix"
  shows "bytes_where P (closure_pages ix) =
    (\<Sum>h \<in> pg_handle ` {p \<in> set (closure_pages ix). P p}. page_size_of ix h)"
proof -
  let ?S = "{p \<in> set (closure_pages ix). P p}"
  have inj: "inj_on pg_handle ?S"
    using distinct_closure_pages [OF inv] by (auto simp: distinct_map intro: inj_on_subset)
  have "bytes_where P (closure_pages ix) = (\<Sum>p \<in> set (filter P (closure_pages ix)). pg_size_bytes p)"
    unfolding bytes_where_def using distinct_closure_pages [OF inv]
    by (intro sum_list_distinct_conv_sum_set) (simp add: distinct_map)
  also have "\<dots> = (\<Sum>p \<in> ?S. page_size_of ix (pg_handle p))"
    using set_closure_pages [OF inv] by (intro sum.cong) (auto simp: page_size_of_def)
  finally show ?thesis by (simp add: sum.reindex [OF inj])
qed

section \<open>Cache coherence\<close>

text \<open>What the two caches depend on: the physical view of a page forgets owners and access
  time; the charge view keeps placement, size and owning contexts.\<close>

definition phys_view :: "page_record \<Rightarrow> page_record" where
  "phys_view p = p\<lparr>pg_owner_contexts := [], pg_last_access_ms := 0\<rparr>"

definition phys_pages :: "page_index \<Rightarrow> (page_handle \<times> page_record) list" where
  "phys_pages ix = map (\<lambda>(h, p). (h, phys_view p)) (ix_pages ix)"

definition charge_view :: "page_record \<Rightarrow> bool \<times> int \<times> string set" where
  "charge_view p = (gpu_resident p, pg_size_bytes p, fst ` set (pg_owner_contexts p))"

definition charge_pages :: "page_index \<Rightarrow> (bool \<times> int \<times> string set) list" where
  "charge_pages ix = map (\<lambda>(h, p). charge_view p) (ix_pages ix)"

lemma phys_view_sel:
  "gpu_resident (phys_view p) = gpu_resident p" "cpu_resident (phys_view p) = cpu_resident p"
  "pg_residency (phys_view p) = pg_residency p" "pg_handle (phys_view p) = pg_handle p"
  "pg_size_bytes (phys_view p) = pg_size_bytes p" "pg_engine_lock_ref (phys_view p) = pg_engine_lock_ref p"
  "pg_active_reader_count (phys_view p) = pg_active_reader_count p"
  "locally_eligible r (phys_view p) = locally_eligible r p" "closure_key (phys_view p) = closure_key p"
  "child_subtrees_eligible live (phys_view p) acc = child_subtrees_eligible live p acc"
  "pg_radix_depth (phys_view p) = pg_radix_depth p"
  by (simp_all add: phys_view_def gpu_resident_def cpu_resident_def locally_eligible_def
      transfer_idle_def closure_key_def child_subtrees_eligible_def)

lemma closure_fold_phys:
  assumes "phys_pages ix' = phys_pages ix"
  shows "closure_fold ov ix' = closure_fold ov ix"
proof -
  have *: "closure_fold ov (jx\<lparr>ix_pages := phys_pages jx\<rparr>) = closure_fold ov jx" for jx
    by (rule closure_fold_map [where g = "\<lambda>_. phys_view"], simp add: phys_pages_def)
      (simp only: fun_eq_iff closure_step_def phys_view_sel simp_thms)
  have "closure_fold ov (ix'\<lparr>ix_pages := phys_pages ix'\<rparr>) = closure_fold ov (ix\<lparr>ix_pages := phys_pages ix'\<rparr>)"
    by (simp add: closure_fold_def closure_pages_def live_pages_def)
  with * [of ix] * [of ix'] assms show ?thesis by simp
qed

lemma map_of_map_snd: "map_of (map (\<lambda>(k, v). (k, f v)) d) k = map_option f (map_of d k)"
  by (induction d) auto

lemma migratable_order_phys:
  assumes "phys_pages ix' = phys_pages ix"
  shows "migratable_order ix' hs = migratable_order ix hs"
proof -
  have key: "rbind (dict_item (ix_pages jx) h w) (\<lambda>p. Inr ((- pg_radix_depth p, h), h)) =
      rbind (dict_item (phys_pages jx) h w) (\<lambda>p. Inr ((- pg_radix_depth p, h), h))" for jx h w
    by (cases "map_of (ix_pages jx) h")
      (simp_all add: dict_item_def phys_pages_def map_of_map_snd phys_view_sel)
  show ?thesis unfolding migratable_order_def key assms ..
qed

lemma calculate_workflow_charges_view:
  assumes "charge_pages ix' = charge_pages ix"
    and "map_of (ix_context_workflow ix') = map_of (ix_context_workflow ix)"
  shows "calculate_workflow_charges ix' = calculate_workflow_charges ix"
proof -
  define h where "h = (\<lambda>(gpu, size, cs :: string set) charges.
     let workflows = {w. \<exists>c \<in> cs. map_of (ix_context_workflow ix) c = Some w} in
     if \<not> gpu \<or> workflows = {} then charges
     else let share = real_of_int size / of_nat (card workflows) in
       fold (\<lambda>w d. AList.update w (dict_get d w 0 + share) d) (sorted_list_of_set workflows) charges)"
  have "charge_page jx p = h (charge_view p)"
    if "map_of (ix_context_workflow jx) = map_of (ix_context_workflow ix)" for jx p
    using that by (simp add: fun_eq_iff charge_page_def h_def charge_view_def page_workflows_def Let_def)
  then have "calculate_workflow_charges jx = fold h (charge_pages jx) []"
    if "map_of (ix_context_workflow jx) = map_of (ix_context_workflow ix)" for jx
    using that by (simp add: calculate_workflow_charges_def charge_pages_def fold_map o_def case_prod_unfold)
  with assms show ?thesis by simp
qed

text \<open>Both caches are exact whenever their revision is current.\<close>

definition cache_ok :: "page_index \<Rightarrow> bool" where
  "cache_ok ix \<longleftrightarrow>
     ix_physical_breakdown_revision ix \<le> ix_physical_state_revision ix \<and>
     ix_workflow_charge_cache_revision ix \<le> ix_accounting_revision ix \<and>
     (ix_physical_breakdown_revision ix = ix_physical_state_revision ix \<longrightarrow>
        calculate_physical_kv_state [] ix =
          (ix_physical_breakdown ix, ix_engine_locked_pages ix, ix_migratable_gpu_handles ix) \<and>
        migratable_order ix (ix_migratable_gpu_handles ix) = Inr (ix_migratable_gpu_pages ix)) \<and>
     (ix_workflow_charge_cache_revision ix = ix_accounting_revision ix \<longrightarrow>
        calculate_workflow_charges ix = ix_workflow_charge_cache ix)"

text \<open>A step announces what it changed: a revision grows, or its view is unchanged.\<close>

definition announces :: "page_index \<Rightarrow> page_index \<Rightarrow> bool" where
  "announces ix ix' \<longleftrightarrow>
     ix_physical_breakdown_revision ix' = ix_physical_breakdown_revision ix \<and>
     ix_physical_breakdown ix' = ix_physical_breakdown ix \<and>
     ix_engine_locked_pages ix' = ix_engine_locked_pages ix \<and>
     ix_migratable_gpu_handles ix' = ix_migratable_gpu_handles ix \<and>
     ix_migratable_gpu_pages ix' = ix_migratable_gpu_pages ix \<and>
     ix_workflow_charge_cache_revision ix' = ix_workflow_charge_cache_revision ix \<and>
     ix_workflow_charge_cache ix' = ix_workflow_charge_cache ix \<and>
     (ix_physical_state_revision ix < ix_physical_state_revision ix' \<or>
      ix_physical_state_revision ix' = ix_physical_state_revision ix \<and> phys_pages ix' = phys_pages ix) \<and>
     (ix_accounting_revision ix < ix_accounting_revision ix' \<or>
      ix_accounting_revision ix' = ix_accounting_revision ix \<and> charge_pages ix' = charge_pages ix \<and>
      map_of (ix_context_workflow ix') = map_of (ix_context_workflow ix))"

lemma announces_cache_ok:
  assumes a: "announces ix ix'" and c: "cache_ok ix"
  shows "cache_ok ix'"
proof -
  have "calculate_physical_kv_state [] ix' =
        (ix_physical_breakdown ix', ix_engine_locked_pages ix', ix_migratable_gpu_handles ix') \<and>
      migratable_order ix' (ix_migratable_gpu_handles ix') = Inr (ix_migratable_gpu_pages ix')"
    if "ix_physical_breakdown_revision ix' = ix_physical_state_revision ix'"
  proof -
    from that a c have v: "phys_pages ix' = phys_pages ix" and
      r: "ix_physical_breakdown_revision ix = ix_physical_state_revision ix"
      by (auto simp: announces_def cache_ok_def)
    show ?thesis
      using a c r closure_fold_phys [OF v] migratable_order_phys [OF v]
      by (simp add: announces_def cache_ok_def calculate_physical_kv_state_def)
  qed
  moreover have "calculate_workflow_charges ix' = ix_workflow_charge_cache ix'"
    if "ix_workflow_charge_cache_revision ix' = ix_accounting_revision ix'"
  proof -
    from that a c have v: "charge_pages ix' = charge_pages ix"
      "map_of (ix_context_workflow ix') = map_of (ix_context_workflow ix)" and
      r: "ix_workflow_charge_cache_revision ix = ix_accounting_revision ix"
      by (auto simp: announces_def cache_ok_def)
    show ?thesis
      using a c r calculate_workflow_charges_view [OF v] by (simp add: announces_def cache_ok_def)
  qed
  ultimately show ?thesis using a c by (auto simp: announces_def cache_ok_def)
qed

lemma announces_refl [simp]: "announces ix ix"
  by (simp add: announces_def)

lemma announces_trans: "announces ix ix' \<Longrightarrow> announces ix' ix'' \<Longrightarrow> announces ix ix''"
  by (auto simp: announces_def)

subsection \<open>Every operation announces its changes\<close>

definition same_caches :: "page_index \<Rightarrow> page_index \<Rightarrow> bool" where
  "same_caches ix ix' \<longleftrightarrow>
     ix_physical_breakdown_revision ix' = ix_physical_breakdown_revision ix \<and>
     ix_physical_breakdown ix' = ix_physical_breakdown ix \<and>
     ix_engine_locked_pages ix' = ix_engine_locked_pages ix \<and>
     ix_migratable_gpu_handles ix' = ix_migratable_gpu_handles ix \<and>
     ix_migratable_gpu_pages ix' = ix_migratable_gpu_pages ix \<and>
     ix_workflow_charge_cache_revision ix' = ix_workflow_charge_cache_revision ix \<and>
     ix_workflow_charge_cache ix' = ix_workflow_charge_cache ix \<and>
     ix_physical_state_revision ix' = ix_physical_state_revision ix \<and>
     ix_accounting_revision ix' = ix_accounting_revision ix"

lemma same_caches_upd [simp]:
  "same_caches ix ix"
  "same_caches ix (ix'\<lparr>ix_pages := v1\<rparr>) = same_caches ix ix'"
  "same_caches ix (ix'\<lparr>ix_latest_generation := v2\<rparr>) = same_caches ix ix'"
  "same_caches ix (ix'\<lparr>ix_context_pages := v3\<rparr>) = same_caches ix ix'"
  "same_caches ix (ix'\<lparr>ix_context_epoch := v4\<rparr>) = same_caches ix ix'"
  "same_caches ix (ix'\<lparr>ix_context_workflow := v5\<rparr>) = same_caches ix ix'"
  "same_caches ix (with_page h f ix') = same_caches ix ix'"
  by (simp_all add: same_caches_def with_page_def)

lemma announces_touch:
  assumes "same_caches ix ix1"
    and "comps \<inter> physical_components \<noteq> {} \<or> phys_pages ix1 = phys_pages ix"
    and "comps \<inter> accounting_components \<noteq> {} \<or>
      charge_pages ix1 = charge_pages ix \<and> map_of (ix_context_workflow ix1) = map_of (ix_context_workflow ix)"
  shows "announces ix (touch t hs cs comps ix1)"
  using assms
  by (auto simp: announces_def same_caches_def touch_def Let_def phys_pages_def charge_pages_def)

lemma announces_quiet:
  assumes "same_caches ix ix1" and "phys_pages ix1 = phys_pages ix" and "charge_pages ix1 = charge_pages ix"
    and "map_of (ix_context_workflow ix1) = map_of (ix_context_workflow ix)"
  shows "announces ix ix1"
  using assms by (simp add: announces_def same_caches_def)

lemma map_dmap_on:
  assumes "\<And>k p. (k, p) \<in> set d \<Longrightarrow> k \<in> ks \<Longrightarrow> v k (f p) = v k p"
  shows "map (\<lambda>(k, p). v k p) (dmap_on ks f d) = map (\<lambda>(k, p). v k p) d"
  using assms by (auto simp: dmap_on_def)

lemma phys_pages_dmap:
  assumes "ix_pages ix' = dmap_on ks f (ix_pages ix)"
    and "\<And>k p. (k, p) \<in> set (ix_pages ix) \<Longrightarrow> k \<in> ks \<Longrightarrow> phys_view (f p) = phys_view p"
  shows "phys_pages ix' = phys_pages ix"
  unfolding phys_pages_def assms(1) by (rule map_dmap_on) (simp add: assms(2))

lemma charge_pages_dmap:
  assumes "ix_pages ix' = dmap_on ks f (ix_pages ix)"
    and "\<And>k p. (k, p) \<in> set (ix_pages ix) \<Longrightarrow> k \<in> ks \<Longrightarrow> charge_view (f p) = charge_view p"
  shows "charge_pages ix' = charge_pages ix"
  unfolding charge_pages_def assms(1) by (rule map_dmap_on) (simp add: assms(2))

lemmas component_simps = physical_components_def accounting_components_def

text \<open>Operations whose touch names components of both kinds.\<close>

lemma announces_transfer:
  "C_residency \<in> comps \<Longrightarrow> announces ix (touch_transfer h p comps f ix)"
  unfolding touch_transfer_def by (rule announces_touch) (auto simp: component_simps)

lemma transfer_announces:
  "begin_transfer h d ix = Inr ix' \<Longrightarrow> announces ix ix'"
  "complete_transfer h d k ix = Inr ix' \<Longrightarrow> announces ix ix'"
  "abort_transfer h ix = Inr ix' \<Longrightarrow> announces ix ix'"
  "commit_cpu h ix = Inr ix' \<Longrightarrow> announces ix ix'"
  by (auto simp: begin_transfer_def complete_transfer_def abort_transfer_def commit_cpu_def Let_def
      announces_transfer split: if_splits option.splits transfer_direction.splits)

lemma detach_announces: "announces ix (detach_page h p orphan ix)"
  unfolding detach_page_def Let_def by (rule announces_touch) (auto simp: component_simps)

lemma free_announces:
  "free_page h ix = Inr ix' \<Longrightarrow> announces ix ix'"
  "invalidate_page h ix = Inr ix' \<Longrightarrow> announces ix ix'"
  by (auto simp: free_page_def invalidate_page_def detach_announces split: if_splits)

lemma drop_announces:
  "drop_page h ix = Inr ix' \<Longrightarrow> announces ix ix'"
  "drop_host_copy h ix = Inr ix' \<Longrightarrow> announces ix ix'"
  by (auto simp: drop_page_def drop_host_copy_def announces_transfer split: if_splits intro: free_announces)

lemma register_page_announces:
  assumes "register_page h sz res dep par sealed acc ix = Inr ix'"
  shows "announces ix ix'"
proof -
  have "announces ix (touch True hs {} {C_topology, C_residency}
      (ix\<lparr>ix_pages := ps, ix_latest_generation := l\<rparr>))" for hs ps l
    by (rule announces_touch) (simp_all add: component_simps)
  with assms show ?thesis by (auto simp: register_page_def Let_def split: if_split_asm)
qed

text \<open>Operations that change one kind only.\<close>

lemma register_context_announces:
  assumes "register_context c w e ix = Inr ix'"
  shows "announces ix ix'"
proof -
  let ?ix = "ix\<lparr>ix_context_epoch := AList.update c e (ix_context_epoch ix),
                ix_context_workflow := AList.update c w (ix_context_workflow ix),
                ix_context_pages := (if dict_in c (ix_context_pages ix) then ix_context_pages ix
                                     else AList.update c {} (ix_context_pages ix))\<rparr>"
  have v: "phys_pages ?ix = phys_pages ix" "charge_pages ?ix = charge_pages ix"
    by (simp_all add: phys_pages_def charge_pages_def)
  have t: "announces ix (touch False {} {c} {C_context} ?ix)"
    by (rule announces_touch) (use v in \<open>auto simp: component_simps\<close>)
  show ?thesis
  proof (cases "map_of (ix_context_workflow ix) c")
    case None
    with assms t show ?thesis by (auto simp: register_context_def Let_def split: if_split_asm)
  next
    case (Some w')
    with assms have "w' = w" by (auto simp: register_context_def Let_def split: if_split_asm)
    with Some have "map_of (AList.update c w (ix_context_workflow ix)) = map_of (ix_context_workflow ix)"
      by (auto simp: map_of_update)
    with v have "announces ix ?ix" by (intro announces_quiet) simp_all
    with assms t show ?thesis by (auto simp: register_context_def Let_def split: if_split_asm)
  qed
qed

lemma phys_view_owner:
  "phys_view (set_owner c e p) = phys_view p"
  "c \<notin> pg_semantic_pin_contexts p \<Longrightarrow> phys_view (drop_owner c p) = phys_view p"
  by (simp_all add: phys_view_def set_owner_def drop_owner_def)

lemma unbind_context_announces: "announces ix (unbind_context c ix)"
proof -
  let ?hs = "context_page_set ix c"
  let ?ix = "ix\<lparr>ix_pages := dmap_on ?hs (drop_owner c) (ix_pages ix),
                ix_context_pages := AList.update c {} (ix_context_pages ix)\<rparr>"
  let ?pinned = "\<exists>p \<in> set (map snd (filter (\<lambda>(h, _). h \<in> ?hs) (ix_pages ix))). c \<in> pg_semantic_pin_contexts p"
  have phys: "phys_pages ?ix = phys_pages ix" if "\<not> ?pinned"
    by (rule phys_pages_dmap [where ks = ?hs and f = "drop_owner c"])
      (use that in \<open>force simp: phys_view_owner\<close>)+
  have "announces ix (touch False ?hs {c} (if ?pinned then {C_owner, C_semantic_pin} else {C_owner}) ?ix)"
    by (rule announces_touch) (use phys in \<open>auto simp: component_simps\<close>)
  moreover have "announces ix ?ix" if "?hs = {}"
    by (rule announces_quiet) (use that in \<open>simp_all add: phys_pages_def charge_pages_def dmap_on_def case_prod_unfold\<close>)
  ultimately show ?thesis by (simp add: unbind_context_def Let_def)
qed

lemma owner_known:
  assumes "ix_inv ix" and "(h, p) \<in> set (ix_pages ix)" and "h \<in> context_page_set ix c"
  shows "charge_view (set_owner c e p) = charge_view p"
proof -
  obtain q e' where "map_of (ix_pages ix) h = Some q" "map_of (pg_owner_contexts q) c = Some e'"
    using context_page_owned [OF assms(1,3)] .
  then have "c \<in> fst ` set (pg_owner_contexts p)"
    using page_entry(1) [OF assms(1), of h p] assms(2) by (auto intro: dict_key)
  then show ?thesis by (auto simp: charge_view_def set_owner_def gpu_resident_def)
qed

lemma set_owner_announces:
  assumes "same_caches ix ix1" and "ix_pages ix1 = dmap_on ks (set_owner c e) (ix_pages ix)"
    and "ix_context_workflow ix1 = ix_context_workflow ix"
  shows "comps \<inter> accounting_components \<noteq> {} \<Longrightarrow> announces ix (touch t hs cs comps ix1)"
    and "ix_inv ix \<Longrightarrow> ks \<subseteq> context_page_set ix c \<Longrightarrow> announces ix ix1"
proof -
  have v: "phys_pages ix1 = phys_pages ix"
    by (rule phys_pages_dmap [OF assms(2)]) (simp add: phys_view_owner)
  show "comps \<inter> accounting_components \<noteq> {} \<Longrightarrow> announces ix (touch t hs cs comps ix1)"
    using assms(1) v by (intro announces_touch) auto
  show "ix_inv ix \<Longrightarrow> ks \<subseteq> context_page_set ix c \<Longrightarrow> announces ix ix1"
    using assms(1,3) v
    by (intro announces_quiet charge_pages_dmap [OF assms(2)]) (auto intro: owner_known)
qed

lemma update_context_epoch_announces:
  assumes "update_context_epoch c e ix = Inr ix'" and "ix_inv ix"
  shows "announces ix ix'"
proof -
  let ?hs = "context_page_set ix c"
  let ?ix = "ix\<lparr>ix_context_epoch := AList.update c e (ix_context_epoch ix),
                ix_pages := dmap_on ?hs (set_owner c e) (ix_pages ix)\<rparr>"
  have "announces ix (touch False ?hs {c} {C_context, C_owner} ?ix)"
    by (rule set_owner_announces(1) [where ks = ?hs and c = c and e = e])
      (simp_all add: component_simps)
  moreover have "announces ix ?ix"
    by (rule set_owner_announces(2) [where ks = ?hs and c = c and e = e]) (simp_all add: assms(2))
  ultimately show ?thesis
    using assms(1) by (auto simp: update_context_epoch_def Let_def split: if_split_asm)
qed

lemma bind_pages_announces:
  assumes step: "bind_pages c e hs replace ix = Inr ix'" and inv: "ix_inv ix"
  shows "announces ix ix'"
proof -
  from step obtain ps where ps: "rmap (require_page ix) hs = Inr ps" by (auto simp: bind_pages_def)
  let ?res = "pg_handle ` set ps"
  let ?ix1 = "if replace then unbind_context c ix else ix"
  let ?ix2 = "?ix1\<lparr>ix_pages := dmap_on ?res (set_owner c e) (ix_pages ?ix1),
      ix_context_pages := AList.update c (context_page_set ?ix1 c \<union> ?res) (ix_context_pages ?ix1)\<rparr>"
  have 1: "announces ix ?ix1" by (simp add: unbind_context_announces)
  have inv1: "ix_inv ?ix1" using inv by (simp add: unbind_context_inv)
  have 2: "announces ?ix1 (touch False hs' {c} {C_owner} ?ix2)" for hs'
    by (rule set_owner_announces(1) [where ks = ?res and c = c and e = e]) (simp_all add: component_simps)
  have 3: "announces ?ix1 ?ix2" if "?res \<subseteq> context_page_set ?ix1 c"
    by (rule set_owner_announces(2) [where ks = ?res and c = c and e = e]) (use inv1 that in auto)
  have "ix' = (if \<not> replace \<and> \<not> ?res \<subseteq> context_page_set ix c
               then touch False (?res \<union> context_page_set ix c) {c} {C_owner} ?ix2
               else if replace \<and> ?res \<noteq> {} then touch False ?res {c} {C_owner} ?ix2 else ?ix2)"
    using step ps by (cases "validate_context_epoch ix c e") (simp_all add: bind_pages_def Let_def)
  with 2 3 have "announces ?ix1 ix'" by (cases replace) auto
  with 1 show ?thesis by (rule announces_trans)
qed

lemma charge_view_rewrites:
  "charge_view (add_child h p) = charge_view p" "charge_view (discard_child h p) = charge_view p"
  "charge_view (p\<lparr>pg_parent := q\<rparr>) = charge_view p"
  "charge_view (p\<lparr>pg_engine_lock_ref := v\<rparr>) = charge_view p"
  "charge_view (p\<lparr>pg_active_reader_count := v\<rparr>) = charge_view p"
  "charge_view (p\<lparr>pg_semantic_pin_contexts := cs\<rparr>) = charge_view p"
  by (simp_all add: charge_view_def add_child_def discard_child_def gpu_resident_def)

definition charge_list :: "(page_handle, page_record) dict \<Rightarrow> (bool \<times> int \<times> string set) list" where
  "charge_list d = map (\<lambda>(h, p). charge_view p) d"

lemma charge_list_dmap:
  "(\<And>p. charge_view (f p) = charge_view p) \<Longrightarrow> charge_list (dmap_on ks f d) = charge_list d"
  unfolding charge_list_def by (rule map_dmap_on) simp

lemma announces_topology:
  assumes "C_topology \<in> comps \<or> C_lock \<in> comps \<or> C_reader \<in> comps \<or> C_semantic_pin \<in> comps"
    and "charge_list d = charge_list (ix_pages ix)"
  shows "announces ix (touch t hs cs comps (ix\<lparr>ix_pages := d\<rparr>))"
  by (rule announces_touch)
    (use assms in \<open>auto simp: component_simps charge_pages_def charge_list_def\<close>)

lemma set_parent_announces:
  assumes "set_parent h q ix = Inr ix'"
  shows "announces ix ix'"
proof -
  have t: "announces ix (touch True hs {} {C_topology} (ix\<lparr>ix_pages := d\<rparr>))"
    if "charge_list d = charge_list (ix_pages ix)" for hs d
    using that by (intro announces_topology) simp_all
  note c = charge_list_dmap [OF charge_view_rewrites(1)] charge_list_dmap [OF charge_view_rewrites(2)]
    charge_list_dmap [OF charge_view_rewrites(3)]
  show ?thesis
    using assms by (cases q) (auto simp: set_parent_def Let_def c split: if_split_asm option.split intro!: t)
qed

lemma lock_announces:
  "set_engine_lock h v ix = Inr ix' \<Longrightarrow> announces ix ix'"
  "set_active_readers h v ix = Inr ix' \<Longrightarrow> announces ix ix'"
  by (auto simp: set_engine_lock_def set_active_readers_def with_page_def charge_list_dmap
      charge_view_rewrites split: if_split_asm intro!: announces_topology)

lemma pin_context_announces:
  assumes "pin_context c ix = Inr ix'" and inv: "ix_inv ix"
  shows "announces ix ix'"
proof -
  let ?f = "\<lambda>p. p\<lparr>pg_semantic_pin_contexts := insert c (pg_semantic_pin_contexts p)\<rparr>"
  from assms(1) obtain ps where ps: "context_pages ix c = Inr ps" by (auto simp: pin_context_def)
  let ?hs = "pg_handle ` set ps"
  let ?ix = "ix\<lparr>ix_pages := dmap_on ?hs ?f (ix_pages ix)\<rparr>"
  have c: "charge_list (dmap_on ?hs ?f (ix_pages ix)) = charge_list (ix_pages ix)"
    by (rule charge_list_dmap) (simp add: charge_view_rewrites)
  have "announces ix ?ix" if "\<forall>p \<in> set ps. c \<in> pg_semantic_pin_contexts p"
  proof (rule announces_quiet)
    show "phys_pages ?ix = phys_pages ix"
    proof (rule phys_pages_dmap [where ks = ?hs and f = ?f])
      fix k p assume "(k, p) \<in> set (ix_pages ix)" "k \<in> ?hs"
      then have "p \<in> set ps"
        using context_pagesD(1) [OF inv ps] page_entry(1) [OF inv, of k p] by auto
      with that show "phys_view (?f p) = phys_view p" by (simp add: insert_absorb)
    qed simp
  qed (use c in \<open>simp_all add: charge_pages_def charge_list_def\<close>)
  moreover have "announces ix (touch False ?hs {c} {C_semantic_pin} ?ix)"
    by (rule announces_topology) (use c in simp_all)
  ultimately show ?thesis
    using assms(1) ps by (auto simp: pin_context_def Let_def split: if_split_asm)
qed

lemma unpin_context_announces:
  assumes "unpin_context c ix = Inr ix'" and inv: "ix_inv ix"
  shows "announces ix ix'"
proof -
  let ?f = "\<lambda>p. p\<lparr>pg_semantic_pin_contexts := pg_semantic_pin_contexts p - {c}\<rparr>"
  from assms(1) obtain ps where ps: "context_pages ix c = Inr ps" by (auto simp: unpin_context_def)
  let ?hs = "pg_handle ` set ps"
  let ?ix = "ix\<lparr>ix_pages := dmap_on ?hs ?f (ix_pages ix)\<rparr>"
  have c: "charge_list (dmap_on ?hs ?f (ix_pages ix)) = charge_list (ix_pages ix)"
    by (rule charge_list_dmap) (simp add: charge_view_rewrites)
  have "announces ix ?ix" if "\<forall>p \<in> set ps. c \<notin> pg_semantic_pin_contexts p"
  proof (rule announces_quiet)
    show "phys_pages ?ix = phys_pages ix"
    proof (rule phys_pages_dmap [where ks = ?hs and f = ?f])
      fix k p assume "(k, p) \<in> set (ix_pages ix)" "k \<in> ?hs"
      then have "p \<in> set ps"
        using context_pagesD(1) [OF inv ps] page_entry(1) [OF inv, of k p] by auto
      with that show "phys_view (?f p) = phys_view p" by simp
    qed simp
  qed (use c in \<open>simp_all add: charge_pages_def charge_list_def\<close>)
  moreover have "announces ix (touch False ?hs {c} {C_semantic_pin} ?ix)"
    by (rule announces_topology) (use c in simp_all)
  ultimately show ?thesis
    using assms(1) ps by (auto simp: unpin_context_def Let_def split: if_split_asm)
qed

lemma update_runtime_state_announces:
  assumes step: "update_runtime_state h res dep lk acc ix = Inr ix'" and inv: "ix_inv ix"
  shows "announces ix ix'"
proof -
  let ?f = "\<lambda>p. p\<lparr>pg_residency := opt_or res (pg_residency p),
                  pg_radix_depth := opt_or dep (pg_radix_depth p),
                  pg_engine_lock_ref := opt_or lk (pg_engine_lock_ref p),
                  pg_last_access_ms := opt_or acc (pg_last_access_ms p)\<rparr>"
  let ?comps = "(if res \<noteq> None then {C_residency} else {}) \<union> (if dep \<noteq> None then {C_topology} else {})
      \<union> (if lk \<noteq> None then {C_lock} else {}) \<union> (if acc \<noteq> None then {C_access} else {})"
  from step obtain page where page: "require_page ix h = Inr page" by (auto simp: update_runtime_state_def)
  have guards: "\<not> (case dep of None \<Rightarrow> False | Some d \<Rightarrow> d < 0)" "\<not> (case lk of None \<Rightarrow> False | Some r \<Rightarrow> r < 0)"
    "\<not> (case acc of None \<Rightarrow> False | Some t \<Rightarrow> t < 0)"
    using step page by (simp_all add: update_runtime_state_def split: if_split_asm)
  let ?changed = "opt_differs res (pg_residency page) \<or> opt_differs dep (pg_radix_depth page) \<or>
      opt_differs lk (pg_engine_lock_ref page) \<or> opt_differs acc (pg_last_access_ms page)"
  let ?ix = "ix\<lparr>ix_pages := dmap_on {h} ?f (ix_pages ix)\<rparr>"
  have same: "p = page" if "(h, p) \<in> set (ix_pages ix)" for p
    using that page page_entry(1) [OF inv, of h p] by (simp add: require_page_Inr)
  have quiet: "announces ix ?ix" if "\<not> ?changed"
  proof -
    have "?f page = page"
      using that by (simp add: opt_or_same)
    then show ?thesis
      using same
      by (intro announces_quiet phys_pages_dmap [where ks = "{h}" and f = ?f]
          charge_pages_dmap [where ks = "{h}" and f = ?f]) auto
  qed
  have loud: "announces ix (touch t {h} cs ?comps ?ix)" for t cs
  proof (rule announces_touch)
    have "phys_pages ?ix = phys_pages ix" if "res = None" "dep = None" "lk = None"
      by (rule phys_pages_dmap [where ks = "{h}" and f = ?f])
        (simp_all add: that opt_or_def phys_view_def)
    then show "?comps \<inter> physical_components \<noteq> {} \<or> phys_pages ?ix = phys_pages ix"
      by (auto simp: component_simps)
    have "charge_pages ?ix = charge_pages ix" if "res = None"
      by (rule charge_pages_dmap [where ks = "{h}" and f = ?f])
        (simp_all add: that opt_or_def charge_view_def gpu_resident_def)
    then show "?comps \<inter> accounting_components \<noteq> {} \<or> charge_pages ?ix = charge_pages ix \<and>
        map_of (ix_context_workflow ?ix) = map_of (ix_context_workflow ix)"
      by (auto simp: component_simps)
  qed simp
  have "update_runtime_state h res dep lk acc ix =
      Inr (if ?changed then touch (opt_differs dep (pg_radix_depth page)) {h}
        (set (map fst (pg_owner_contexts page))) ?comps ?ix else ?ix)"
    by (simp only: update_runtime_state_def page rbind_simps Let_def with_page_def guards if_False)
  with step quiet loud show ?thesis by (cases ?changed) (auto simp del: set_map)
qed

lemma ix_step_announces: "ix_step ix ix' \<Longrightarrow> ix_inv ix \<Longrightarrow> announces ix ix'"
proof (induction rule: ix_step.induct)
  case update_runtime_state
  then show ?case by (blast intro: update_runtime_state_announces)
qed (simp_all add: register_context_announces register_page_announces bind_pages_announces
    unbind_context_announces update_context_epoch_announces free_announces set_parent_announces
    lock_announces pin_context_announces unpin_context_announces transfer_announces drop_announces)

subsection \<open>The machine with cache-filling queries\<close>

inductive ixq_step :: "page_index \<Rightarrow> page_index \<Rightarrow> bool" where
  update: "ix_step ix ix' \<Longrightarrow> ixq_step ix ix'"
| breakdown: "physical_kv_state_breakdown ix = Inr (b, ix') \<Longrightarrow> ixq_step ix ix'"
| charges: "workflow_gpu_charges ix = (d, ix') \<Longrightarrow> ixq_step ix ix'"

definition ixq_inv :: "page_index \<Rightarrow> bool" where
  "ixq_inv ix \<longleftrightarrow> ix_inv ix \<and> cache_ok ix"

lemma ix_inv_cong:
  "ix_pages ix' = ix_pages ix \<Longrightarrow> ix_latest_generation ix' = ix_latest_generation ix \<Longrightarrow>
   ix_context_pages ix' = ix_context_pages ix \<Longrightarrow> ix_context_epoch ix' = ix_context_epoch ix \<Longrightarrow>
   ix_context_workflow ix' = ix_context_workflow ix \<Longrightarrow> ix_inv ix' = ix_inv ix"
  by (simp add: ix_inv_def contexts_ok_def)

lemma breakdown_fills:
  assumes q: "physical_kv_state_breakdown ix = Inr (b, ix')" and c: "cache_ok ix"
  shows "cache_ok ix'" and "ix_pages ix' = ix_pages ix"
    and "calculate_physical_kv_state [] ix = (b, ix_engine_locked_pages ix', ix_migratable_gpu_handles ix')"
    and "ix_physical_breakdown_revision ix' = ix_physical_state_revision ix'"
    and "ix_inv ix' = ix_inv ix" and "b = ix_physical_breakdown ix'"
proof -
  have "cache_ok ix' \<and> ix_pages ix' = ix_pages ix \<and>
    calculate_physical_kv_state [] ix = (b, ix_engine_locked_pages ix', ix_migratable_gpu_handles ix') \<and>
    ix_physical_breakdown_revision ix' = ix_physical_state_revision ix' \<and> ix_inv ix' = ix_inv ix \<and>
    b = ix_physical_breakdown ix'"
  proof (cases "ix_physical_breakdown_revision ix = ix_physical_state_revision ix")
    case True
    with q c show ?thesis by (auto simp: physical_kv_state_breakdown_def cache_ok_def)
  next
    case False
    obtain lk mg og where calc: "calculate_physical_kv_state [] ix = (b, lk, mg)"
      and ord: "migratable_order ix mg = Inr og"
      and ix': "ix' = ix\<lparr>ix_physical_breakdown := b, ix_engine_locked_pages := lk,
                  ix_migratable_gpu_handles := mg, ix_migratable_gpu_pages := og,
                  ix_physical_breakdown_revision := ix_physical_state_revision ix\<rparr>"
      using q False by (auto simp: physical_kv_state_breakdown_def split: prod.splits)
    have v: "phys_pages ix' = phys_pages ix" "charge_pages ix' = charge_pages ix"
      "ix_context_workflow ix' = ix_context_workflow ix"
      by (simp_all add: ix' phys_pages_def charge_pages_def)
    have inv: "ix_inv ix' = ix_inv ix" by (rule ix_inv_cong) (simp_all add: ix')
    have "calculate_physical_kv_state [] ix' = (b, lk, mg)"
      using calc closure_fold_phys [OF v(1)] by (simp add: calculate_physical_kv_state_def)
    moreover have "migratable_order ix' mg = Inr og"
      using ord migratable_order_phys [OF v(1)] by simp
    moreover have "calculate_workflow_charges ix' = calculate_workflow_charges ix"
      using v by (intro calculate_workflow_charges_view) simp_all
    ultimately have "cache_ok ix'"
      using c unfolding cache_ok_def by (simp add: ix')
    with calc inv show ?thesis by (simp add: ix')
  qed
  then show "cache_ok ix'" "ix_pages ix' = ix_pages ix"
    "calculate_physical_kv_state [] ix = (b, ix_engine_locked_pages ix', ix_migratable_gpu_handles ix')"
    "ix_physical_breakdown_revision ix' = ix_physical_state_revision ix'"
    "ix_inv ix' = ix_inv ix" "b = ix_physical_breakdown ix'"
    by blast+
qed

lemma charges_fill:
  assumes q: "workflow_gpu_charges ix = (d, ix')" and c: "cache_ok ix"
  shows "cache_ok ix'" and "ix_inv ix' = ix_inv ix" and "d = calculate_workflow_charges ix"
proof -
  have "cache_ok ix' \<and> ix_inv ix' = ix_inv ix \<and> d = calculate_workflow_charges ix"
  proof (cases "ix_workflow_charge_cache_revision ix = ix_accounting_revision ix")
    case True
    with q c show ?thesis by (auto simp: workflow_gpu_charges_def cache_ok_def)
  next
    case False
    let ?d = "calculate_workflow_charges ix"
    let ?ix = "ix\<lparr>ix_workflow_charge_cache := ?d, ix_workflow_charge_cache_revision := ix_accounting_revision ix\<rparr>"
    from False have "workflow_gpu_charges ix = (?d, ?ix)" by (simp add: workflow_gpu_charges_def Let_def)
    with q have eq: "(d, ix') = (?d, ?ix)" by (rule trans [OF sym])
    have d: "d = ?d" using eq by (rule Pair_inject)
    have ix': "ix' = ?ix" using eq by (rule Pair_inject)
    have v: "phys_pages ix' = phys_pages ix" "charge_pages ix' = charge_pages ix"
      "ix_context_workflow ix' = ix_context_workflow ix"
      by (simp_all add: ix' phys_pages_def charge_pages_def)
    have "ix_inv ix' = ix_inv ix" by (rule ix_inv_cong) (simp_all add: ix')
    moreover have "calculate_workflow_charges ix' = ?d"
      by (rule calculate_workflow_charges_view) (simp_all only: v)
    moreover have "calculate_physical_kv_state [] ix' = calculate_physical_kv_state [] ix"
      using closure_fold_phys [OF v(1)] by (simp add: calculate_physical_kv_state_def)
    moreover note migratable_order_phys [OF v(1)]
    moreover have "ix_physical_breakdown_revision ix' = ix_physical_breakdown_revision ix"
      "ix_physical_state_revision ix' = ix_physical_state_revision ix"
      "ix_physical_breakdown ix' = ix_physical_breakdown ix"
      "ix_engine_locked_pages ix' = ix_engine_locked_pages ix"
      "ix_migratable_gpu_handles ix' = ix_migratable_gpu_handles ix"
      "ix_migratable_gpu_pages ix' = ix_migratable_gpu_pages ix"
      "ix_workflow_charge_cache_revision ix' = ix_accounting_revision ix"
      "ix_accounting_revision ix' = ix_accounting_revision ix" "ix_workflow_charge_cache ix' = ?d"
      by (simp_all add: ix')
    ultimately show ?thesis using c d by (simp add: cache_ok_def)
  qed
  then show "cache_ok ix'" "ix_inv ix' = ix_inv ix" "d = calculate_workflow_charges ix" by blast+
qed

interpretation ixq: invariant_machine ixq_step ixq_inv
proof
  show "ixq_inv t" if "ixq_step s t" and "ixq_inv s" for s t
    using that
  proof (cases rule: ixq_step.cases)
    case update
    then show ?thesis
      using that(2) ix_step_inv announces_cache_ok [OF ix_step_announces] by (simp add: ixq_inv_def)
  next
    case (breakdown b)
    then show ?thesis using that breakdown_fills by (auto simp: ixq_inv_def)
  next
    case (charges d)
    then show ?thesis using that charges_fill by (auto simp: ixq_inv_def)
  qed
qed

lemma ixq_inv_init: "ixq_inv page_index_init"
proof -
  have "cache_ok page_index_init"
    by (simp add: cache_ok_def page_index_init_def)
  then show ?thesis by (simp add: ixq_inv_def ix_inv_init)
qed

lemmas ixq_reachable = ixq.run_inv [OF _ ixq_inv_init]

lemma migratable_order_total:
  assumes inv: "ix_inv ix"
  shows "\<exists>xs. migratable_order ix (ca_migratable (closure_fold ov ix)) = Inr xs"
proof -
  have fin: "finite (ca_migratable (closure_fold ov ix))"
    by (rule finite_subset [of _ "fst ` set (ix_pages ix)"])
      (auto simp: migratable_iff [OF inv] intro: dict_key)
  have "\<exists>ys. rmap (\<lambda>h. rbind (dict_item (ix_pages ix) h ''page'') (\<lambda>p. Inr ((- pg_radix_depth p, h), h))) xs = Inr ys"
    if "\<forall>h \<in> set xs. map_of (ix_pages ix) h \<noteq> None" for xs
    using that by (induction xs) (auto simp: dict_item_def)
  moreover have "\<forall>h \<in> set (sorted_list_of_set (ca_migratable (closure_fold ov ix))). map_of (ix_pages ix) h \<noteq> None"
    using fin by (auto simp: migratable_iff [OF inv])
  ultimately show ?thesis by (force simp: migratable_order_def)
qed

lemma breakdown_total:
  assumes "ix_inv ix"
  shows "\<exists>b ix'. physical_kv_state_breakdown ix = Inr (b, ix')"
  using migratable_order_total [OF assms, of "[]"]
  by (auto simp: physical_kv_state_breakdown_def calculate_physical_kv_state_def Let_def)

section \<open>Properties\<close>

lemma calculate_eq:
  assumes "calculate_physical_kv_state ov ix = (b, lk, mg)"
  shows "b = ca_breakdown (closure_fold ov ix)" "mg = ca_migratable (closure_fold ov ix)"
  using assms by (simp_all add: calculate_physical_kv_state_def Let_def)

text \<open>C1. The breakdown query is never stale: in every state reached by any interleaving of
  updates and cached queries it succeeds, returns what a fresh computation over the current
  pages returns, and so do the derived views.\<close>

theorem breakdown_never_stale:
  assumes "rtranclp ixq_step page_index_init ix"
  shows "\<exists>b lk mg og ix'. calculate_physical_kv_state [] ix = (b, lk, mg) \<and>
    migratable_order ix mg = Inr og \<and> physical_kv_state_breakdown ix = Inr (b, ix') \<and>
    engine_locked_gpu_pages ix = Inr (lk, ix') \<and> migratable_gpu_pages ix = Inr (og, ix') \<and>
    index_gpu_bytes ix = Inr (kb_gpu_bytes b, ix') \<and> index_cpu_bytes ix = Inr (kb_cpu_bytes b, ix') \<and>
    ix_pages ix' = ix_pages ix"
proof -
  have inv: "ix_inv ix" and c: "cache_ok ix"
    using ixq_reachable [OF assms] by (simp_all add: ixq_inv_def)
  obtain b ix' where q: "physical_kv_state_breakdown ix = Inr (b, ix')"
    using breakdown_total [OF inv] by blast
  note f = breakdown_fills [OF q c]
  have v: "phys_pages ix' = phys_pages ix" by (simp add: phys_pages_def f(2))
  have "migratable_order ix' (ix_migratable_gpu_handles ix') = Inr (ix_migratable_gpu_pages ix')"
    using f(1,4) by (simp add: cache_ok_def)
  with q f(2,3) show ?thesis
    by (auto simp: engine_locked_gpu_pages_def migratable_gpu_pages_def index_gpu_bytes_def
        index_cpu_bytes_def migratable_order_phys [OF v])
qed

lemma demo_ixq_reachable: "rtranclp ixq_step page_index_init demo_ix"
  using demo_reachable by (induction) (auto intro: ixq_step.update rtranclp.rtrancl_into_rtrancl)

lemma demo_ixq_queried:
  "\<exists>b ix'. physical_kv_state_breakdown demo_ix = Inr (b, ix') \<and> rtranclp ixq_step page_index_init ix'"
  using breakdown_total [OF ix_reachable_inv [OF demo_reachable]] demo_ixq_reachable
  by (meson ixq_step.breakdown rtranclp.rtrancl_into_rtrancl)

theorem breakdown_never_stale_witness:
  "\<exists>b ix' ix''. physical_kv_state_breakdown demo_ix = Inr (b, ix') \<and>
     set_engine_lock (PageHandle 2 0) 1 ix' = Inr ix'' \<and>
     (\<exists>b' r jx. calculate_physical_kv_state [] ix'' = (b', r) \<and> physical_kv_state_breakdown ix'' = Inr (b', jx))"
proof -
  obtain b ix' where q: "physical_kv_state_breakdown demo_ix = Inr (b, ix')"
    and r: "rtranclp ixq_step page_index_init ix'" using demo_ixq_queried by blast
  have "cache_ok demo_ix" using ixq_reachable [OF demo_ixq_reachable] by (simp add: ixq_inv_def)
  have "ix_pages ix' = ix_pages demo_ix" "ix_latest_generation ix' = ix_latest_generation demo_ix"
    using q by (auto simp: physical_kv_state_breakdown_def split: if_split_asm prod.splits)
  then have "require_page ix' (PageHandle 2 0) = require_page demo_ix (PageHandle 2 0)"
    by (simp add: require_page_def)
  then obtain ix'' where l: "set_engine_lock (PageHandle 2 0) 1 ix' = Inr ix''"
    by (simp add: set_engine_lock_def demo_require)
  then have "rtranclp ixq_step page_index_init ix''"
    using r by (meson ix_step.set_engine_lock ixq_step.update rtranclp.rtrancl_into_rtrancl)
  from breakdown_never_stale [OF this] q l show ?thesis by blast
qed

lemma calculate_of_index:
  assumes inv: "ix_inv ix" and calc: "calculate_physical_kv_state ov ix = (b, lk, mg)"
  shows "mg = pg_handle ` {p \<in> set (closure_pages ix). gpu_resident p \<and> index_eligible ov ix (pg_handle p)}"
    and "kb_migratable_bytes b =
      bytes_where (\<lambda>p. gpu_resident p \<and> index_eligible ov ix (pg_handle p)) (closure_pages ix)"
    and "kb_closure_blocked_bytes b = bytes_where (\<lambda>p. gpu_resident p \<and>
      \<not> index_eligible ov ix (pg_handle p) \<and> locally_eligible (lock_ref ov p) p) (closure_pages ix)"
    and "kb_gpu_bytes b = bytes_where gpu_resident (closure_pages ix)"
    and "kb_engine_locked_bytes b = bytes_where
      (\<lambda>p. gpu_resident p \<and> (lock_ref ov p > 0 \<or> pg_active_reader_count p > 0)) (closure_pages ix)"
  using calculate_eq [OF calc] closure_breakdown [OF distinct_closure_pages [OF inv]]
    migratable_eligible [OF distinct_closure_pages [OF inv]]
  by (simp_all add: closure_fold_eq [OF inv])

text \<open>C7. The set of migratable pages is closed: a page is listed only if it is on the GPU and
  every GPU-resident page of its Radix subtree has its transfer gates open. If depths increase
  from parent to child, the list is also complete.\<close>

theorem migratable_closure_exact:
  assumes "rtranclp ixq_step page_index_init ix" and "calculate_physical_kv_state ov ix = (b, lk, mg)"
  shows "(\<forall>h \<in> mg. (\<exists>p. map_of (ix_pages ix) h = Some p \<and> gpu_resident p) \<and> closure_open ov ix h) \<and>
    (depth_increasing ix \<longrightarrow> (\<forall>h p. map_of (ix_pages ix) h = Some p \<longrightarrow> gpu_resident p \<longrightarrow>
       closure_open ov ix h \<longrightarrow> h \<in> mg))"
proof -
  have inv: "ix_inv ix" using ixq_reachable [OF assms(1)] by (simp add: ixq_inv_def)
  have mg: "h \<in> mg \<longleftrightarrow> (\<exists>p. map_of (ix_pages ix) h = Some p \<and> gpu_resident p \<and> index_eligible ov ix h)" for h
    unfolding calculate_eq(2) [OF assms(2)] by (rule migratable_iff [OF inv])
  have "h \<in> mg" if "depth_increasing ix" "map_of (ix_pages ix) h = Some p" "gpu_resident p" "closure_open ov ix h"
    for h p
  proof -
    have "\<not> page_dead p" using that(3) by (auto simp: gpu_resident_def)
    moreover have h: "pg_handle p = h" using page_ok_ix [OF inv that(2)] by (simp add: page_ok_def)
    ultimately have "p \<in> set (closure_pages ix)" using that(2) set_closure_pages [OF inv] by simp
    then obtain n where "n < length (closure_pages ix)" "closure_pages ix ! n = p"
      by (auto simp: in_set_conv_nth)
    with index_eligible_complete [OF inv that(1), of n ov] that h show ?thesis by (auto simp: mg)
  qed
  with index_eligible_sound [OF inv] show ?thesis by (auto simp: mg)
qed

lemma demo_depth: "depth_increasing demo_ix"
  by (auto simp: depth_increasing_def demo_pages new_page_def split: if_split_asm)

theorem migratable_closure_exact_witness:
  "\<exists>b lk mg. calculate_physical_kv_state [] demo_ix = (b, lk, mg) \<and> depth_increasing demo_ix \<and>
     (\<forall>h \<in> mg. closure_open [] demo_ix h) \<and>
     (\<forall>h p. map_of (ix_pages demo_ix) h = Some p \<longrightarrow> gpu_resident p \<longrightarrow> closure_open [] demo_ix h \<longrightarrow> h \<in> mg)"
  using migratable_closure_exact [OF demo_ixq_reachable, of "[]"] demo_depth
  by (cases "calculate_physical_kv_state [] demo_ix") blast

text \<open>The byte categories add up: GPU bytes are the bytes of the GPU-resident pages,
  migratable bytes are the bytes of the listed migratable pages, migratable plus
  closure-blocked bytes are exactly the bytes of the locally eligible GPU pages, and together
  with the engine-locked bytes they never exceed the GPU bytes.\<close>

theorem breakdown_accounting:
  assumes "rtranclp ixq_step page_index_init ix" and "calculate_physical_kv_state ov ix = (b, lk, mg)"
  shows "kb_gpu_bytes b = bytes_where gpu_resident (closure_pages ix) \<and>
    kb_migratable_bytes b = (\<Sum>h \<in> mg. page_size_of ix h) \<and>
    kb_migratable_bytes b + kb_closure_blocked_bytes b =
      bytes_where (\<lambda>p. gpu_resident p \<and> locally_eligible (lock_ref ov p) p) (closure_pages ix) \<and>
    kb_migratable_bytes b + kb_closure_blocked_bytes b + kb_engine_locked_bytes b \<le> kb_gpu_bytes b"
proof -
  have inv: "ix_inv ix" using ixq_reachable [OF assms(1)] by (simp add: ixq_inv_def)
  note c = calculate_of_index [OF inv assms(2)]
  let ?ps = "closure_pages ix"
  let ?L = "\<lambda>p. gpu_resident p \<and> locally_eligible (lock_ref ov p) p"
  let ?M = "\<lambda>p. gpu_resident p \<and> index_eligible ov ix (pg_handle p)"
  have mig: "?L p" if "p \<in> set ?ps" "?M p" for p
    using eligible_sound [OF distinct_closure_pages [OF inv], of ov _ "pg_handle p"] that
      set_closure_pages [OF inv] by (fastforce simp: gate_open_def)
  have "bytes_where ?L ?ps - bytes_where ?M ?ps = bytes_where (\<lambda>p. ?L p \<and> \<not> ?M p) ?ps"
    using mig by (rule bytes_where_diff)
  also have "\<dots> = kb_closure_blocked_bytes b"
    unfolding c(3) by (rule bytes_where_cong) auto
  finally have sum: "kb_migratable_bytes b + kb_closure_blocked_bytes b = bytes_where ?L ?ps"
    using c(2) by simp
  have "bytes_where ?L ps + bytes_where (\<lambda>p. gpu_resident p \<and> (lock_ref ov p > 0 \<or> pg_active_reader_count p > 0)) ps
      \<le> bytes_where gpu_resident ps" if "\<forall>p \<in> set ps. 0 < pg_size_bytes p" for ps
    using that by (induction ps) (auto simp: bytes_where_def locally_eligible_def)
  moreover have "\<forall>p \<in> set ?ps. 0 < pg_size_bytes p"
    using set_closure_pages [OF inv] page_ok_ix [OF inv] by (auto simp: page_ok_def)
  ultimately have "bytes_where ?L ?ps + kb_engine_locked_bytes b \<le> kb_gpu_bytes b"
    using c(4,5) by simp
  moreover have "kb_migratable_bytes b = (\<Sum>h \<in> mg. page_size_of ix h)"
    unfolding c(1,2) by (rule bytes_where_sum [OF inv])
  ultimately show ?thesis using sum c(4) by simp
qed

theorem breakdown_accounting_witness:
  "\<exists>b lk mg. calculate_physical_kv_state [] demo_ix = (b, lk, mg) \<and>
     kb_migratable_bytes b + kb_closure_blocked_bytes b + kb_engine_locked_bytes b \<le> kb_gpu_bytes b"
  using breakdown_accounting [OF demo_ixq_reachable, of "[]"]
  by (cases "calculate_physical_kv_state [] demo_ix") blast

lemma set_engine_lock_require:
  assumes "set_engine_lock h r ix = Inr ix'" and "require_page ix k = Inr p"
  shows "\<exists>p'. require_page ix' k = Inr p'"
  using assms
  by (auto simp: set_engine_lock_def with_page_def require_page_Inr map_of_dmap_on split: if_split_asm)

lemma apply_locks_total:
  assumes "\<forall>(h, r) \<in> set ov. 0 \<le> r \<and> (\<exists>p. require_page ix h = Inr p)"
  shows "\<exists>ix'. apply_locks ov ix = Inr ix'"
  using assms unfolding apply_locks_def
proof (induction ov arbitrary: ix)
  case (Cons a ov)
  obtain h r where a: "a = (h, r)" by fastforce
  with Cons.prems obtain ix1 where ix1: "set_engine_lock h r ix = Inr ix1"
    by (auto simp: set_engine_lock_def)
  with Cons.prems have "\<forall>(h, r) \<in> set ov. 0 \<le> r \<and> (\<exists>p. require_page ix1 h = Inr p)"
    by (auto dest: set_engine_lock_require)
  from Cons.IH [OF this] ix1 a show ?case by auto
qed auto

lemma check_overrides:
  "rfold (check_override ix) ov () = Inr () \<longleftrightarrow>
     (\<forall>(h, r) \<in> set ov. \<exists>p. require_page ix h = Inr p \<and> 0 \<le> r \<and> r \<le> pg_engine_lock_ref p)"
  by (auto simp: rfold_unit check_override_def rbind_eq_Inr not_less split: if_split_asm; fastforce)

lemma preview_result:
  assumes "preview_engine_lock_release ov ix = Inr (u, ix')"
  shows "rfold (check_override ix) ov () = Inr ()"
    and "\<exists>b. physical_kv_state_breakdown ix = Inr (b, ix') \<and> up_baseline u = b"
    and "\<exists>lk mg. calculate_physical_kv_state ov ix' = (up_projected u, lk, mg) \<and>
      up_newly_migratable_handles u = sorted_list_of_set (mg - ix_migratable_gpu_handles ix')"
    and "up_newly_migratable_bytes u = kb_migratable_bytes (up_projected u) - kb_migratable_bytes (up_baseline u)"
  using assms by (auto simp: preview_engine_lock_release_def Let_def split: prod.splits)

lemma lock_release_projection:
  assumes run: "rtranclp ixq_step page_index_init ix" and "dict_ok ov"
    and preview: "preview_engine_lock_release ov ix = Inr (u, ix')"
  shows "\<exists>ix2 lk mg lk2 mg2. apply_locks ov ix = Inr ix2 \<and>
    calculate_physical_kv_state [] ix = (up_baseline u, lk, mg) \<and>
    calculate_physical_kv_state [] ix2 = (up_projected u, lk2, mg2) \<and> mg \<subseteq> mg2 \<and>
    up_newly_migratable_handles u = sorted_list_of_set (mg2 - mg) \<and>
    up_newly_migratable_bytes u = (\<Sum>h \<in> mg2 - mg. page_size_of ix h)"
proof -
  have inv: "ix_inv ix" and c: "cache_ok ix" using ixq_reachable [OF run] by (simp_all add: ixq_inv_def)
  note r = preview_result [OF preview]
  obtain b where q: "physical_kv_state_breakdown ix = Inr (b, ix')" and b: "up_baseline u = b" using r(2) by blast
  note f = breakdown_fills [OF q c]
  obtain lk2 mg2 where p: "calculate_physical_kv_state ov ix' = (up_projected u, lk2, mg2)"
    and new: "up_newly_migratable_handles u = sorted_list_of_set (mg2 - ix_migratable_gpu_handles ix')"
    using r(3) by blast
  have "closure_fold ov ix' = closure_fold ov ix" by (rule closure_fold_phys) (simp add: phys_pages_def f(2))
  then have p': "calculate_physical_kv_state ov ix = (up_projected u, lk2, mg2)"
    using p by (simp add: calculate_physical_kv_state_def)
  note ok = r(1) [unfolded check_overrides]
  obtain ix2 where l: "apply_locks ov ix = Inr ix2" using apply_locks_total [of ov ix] ok by fastforce
  have p2: "calculate_physical_kv_state [] ix2 = (up_projected u, lk2, mg2)"
    using p' closure_fold_locks [OF inv apply_locks_pages [OF l inv assms(2)]]
    by (simp add: calculate_physical_kv_state_def)
  let ?mg = "ix_migratable_gpu_handles ix'" and ?ps = "closure_pages ix"
  have base: "calculate_physical_kv_state [] ix = (up_baseline u, ix_engine_locked_pages ix', ?mg)"
    using f(3) b by simp
  note c0 = calculate_of_index [OF inv base] and c1 = calculate_of_index [OF inv p']
  have lockb: "0 \<le> lock_ref ov q \<and> lock_ref ov q \<le> pg_engine_lock_ref q" if "q \<in> set ?ps" for q
  proof (cases "map_of ov (pg_handle q)")
    case None
    then show ?thesis using that set_closure_pages [OF inv] page_ok_ix [OF inv, of "pg_handle q" q]
      by (simp add: lock_ref_def page_ok_def)
  next
    case (Some v)
    then have "(pg_handle q, v) \<in> set ov" by (rule map_of_SomeD)
    with ok that set_closure_pages [OF inv] Some show ?thesis
      by (fastforce simp: lock_ref_def require_page_Inr)
  qed
  note mono = eligible_mono [OF lockb]
  have sub: "?mg \<subseteq> mg2" unfolding c0(1) c1(1) using mono by blast
  have "up_newly_migratable_bytes u = bytes_where (\<lambda>p. (gpu_resident p \<and> index_eligible ov ix (pg_handle p)) \<and>
      \<not> (gpu_resident p \<and> index_eligible [] ix (pg_handle p))) ?ps"
    unfolding r(4) c0(2) c1(2) by (rule bytes_where_diff) (use mono in blast)
  also have "\<dots> = (\<Sum>h \<in> mg2 - ?mg. page_size_of ix h)"
    unfolding bytes_where_sum [OF inv] c0(1) c1(1)
    by (rule sum.cong) (use distinct_closure_pages [OF inv] in \<open>auto simp: distinct_map dest: inj_onD\<close>)
  finally show ?thesis using l base p2 sub new by blast
qed

text \<open>C25. The unlock projection is exact: really setting the projected lock references
  succeeds, and recomputing the breakdown afterwards gives the projected one. No page stops
  being migratable, and the reported gain is the total size of the newly migratable pages.\<close>

theorem preview_engine_lock_release_exact:
  assumes run: "rtranclp ixq_step page_index_init ix" and "dict_ok ov"
    and preview: "preview_engine_lock_release ov ix = Inr (u, ix')"
  shows "\<exists>ix2 lk mg lk2 mg2. apply_locks ov ix = Inr ix2 \<and>
    calculate_physical_kv_state [] ix = (up_baseline u, lk, mg) \<and>
    calculate_physical_kv_state [] ix2 = (up_projected u, lk2, mg2) \<and> mg \<subseteq> mg2 \<and>
    up_newly_migratable_handles u = sorted_list_of_set (mg2 - mg) \<and>
    up_newly_migratable_bytes u = (\<Sum>h \<in> mg2 - mg. page_size_of ix h)"
  using assms by (rule lock_release_projection)

lemma preview_total:
  assumes "rfold (check_override ix) ov () = Inr ()" and "ix_inv ix"
  shows "\<exists>u ix'. preview_engine_lock_release ov ix = Inr (u, ix')"
  using breakdown_total [OF assms(2)] assms(1)
  by (auto simp: preview_engine_lock_release_def Let_def case_prod_unfold)

lemma demo_locked:
  "\<exists>ix1 u ix'. set_engine_lock (PageHandle 2 0) 1 demo_ix = Inr ix1 \<and>
     rtranclp ixq_step page_index_init ix1 \<and>
     preview_engine_lock_release [(PageHandle 2 0, 0)] ix1 = Inr (u, ix')"
proof -
  obtain p where p: "require_page demo_ix (PageHandle 2 0) = Inr p" "pg_engine_lock_ref p = 0"
    by (simp add: demo_require new_page_def)
  let ?f = "\<lambda>p. p\<lparr>pg_engine_lock_ref := 1\<rparr>"
  let ?ix1 = "touch False {PageHandle 2 0} {} {C_lock} (with_page (PageHandle 2 0) ?f demo_ix)"
  have l: "set_engine_lock (PageHandle 2 0) 1 demo_ix = Inr ?ix1"
    using p by (simp add: set_engine_lock_def)
  have run: "rtranclp ixq_step page_index_init ?ix1"
    using demo_ixq_reachable ixq_step.update [OF ix_step.set_engine_lock [OF l]] by (rule rtranclp.rtrancl_into_rtrancl)
  have "require_page ?ix1 (PageHandle 2 0) = Inr (?f p)"
    by (rule require_with_page [OF p(1)]) (use p in \<open>simp_all add: require_page_Inr\<close>)
  then have "rfold (check_override ?ix1) [(PageHandle 2 0, 0)] () = Inr ()"
    by (simp add: check_override_def)
  from preview_total [OF this] ixq_reachable [OF run] l run show ?thesis
    by (auto simp: ixq_inv_def)
qed

theorem preview_engine_lock_release_exact_witness:
  "\<exists>ix1 u ix' ix2 r. set_engine_lock (PageHandle 2 0) 1 demo_ix = Inr ix1 \<and>
     preview_engine_lock_release [(PageHandle 2 0, 0)] ix1 = Inr (u, ix') \<and>
     apply_locks [(PageHandle 2 0, 0)] ix1 = Inr ix2 \<and>
     calculate_physical_kv_state [] ix2 = (up_projected u, r)"
proof -
  obtain ix1 u ix' where l: "set_engine_lock (PageHandle 2 0) 1 demo_ix = Inr ix1"
    and run: "rtranclp ixq_step page_index_init ix1"
    and pv: "preview_engine_lock_release [(PageHandle 2 0, 0)] ix1 = Inr (u, ix')"
    using demo_locked by blast
  from preview_engine_lock_release_exact [OF run _ pv] l pv show ?thesis by fastforce
qed

subsection \<open>Charges\<close>

lemma sum_update_add:
  assumes "dict_ok d"
  shows "sum_list (map snd (AList.update w (dict_get d w 0 + x) d)) = sum_list (map snd d) + (x :: real)"
  using assms by (induction d) (auto simp: dict_get_def map_of_eq_None_iff image_iff split: option.split)

lemma sum_charge_fold:
  assumes "dict_ok d"
  shows "dict_ok (fold (\<lambda>w d. AList.update w (dict_get d w 0 + x) d) ws d) \<and>
    sum_list (map snd (fold (\<lambda>w d. AList.update w (dict_get d w 0 + x) d) ws d)) =
      sum_list (map snd d) + of_nat (length ws) * (x :: real)"
  using assms
proof (induction ws arbitrary: d)
  case (Cons w ws)
  then show ?case
    using Cons.IH [of "AList.update w (dict_get d w 0 + x) d"]
    by (simp add: sum_update_add distrib_right)
qed simp

definition charged_bytes :: "page_index \<Rightarrow> page_record \<Rightarrow> real" where
  "charged_bytes ix p =
     (if gpu_resident p \<and> page_workflows ix p \<noteq> {} then of_int (pg_size_bytes p) else 0)"

lemma charge_page_sum:
  assumes "dict_ok d"
  shows "dict_ok (charge_page ix p d) \<and>
    sum_list (map snd (charge_page ix p d)) = sum_list (map snd d) + charged_bytes ix p"
proof -
  have "finite (page_workflows ix p)" by (simp add: page_workflows_code)
  then have "of_nat (card (page_workflows ix p)) \<noteq> (0 :: real)" if "page_workflows ix p \<noteq> {}"
    using that by simp
  with \<open>finite _\<close> show ?thesis
    using assms sum_charge_fold [OF assms, of "of_int (pg_size_bytes p) / of_nat (card (page_workflows ix p))"
        "sorted_list_of_set (page_workflows ix p)"]
    by (simp add: charge_page_def charged_bytes_def Let_def)
qed

lemma charge_fold_sum:
  assumes "dict_ok d"
  shows "sum_list (map snd (fold (charge_page ix) ps d)) = sum_list (map snd d) + sum_list (map (charged_bytes ix) ps)"
  using assms
proof (induction ps arbitrary: d)
  case (Cons p ps)
  with charge_page_sum [OF Cons.prems, of ix p] Cons.IH [of "charge_page ix p d"] show ?case by simp
qed simp

text \<open>Workflow charges conserve bytes: in every reachable state the (possibly cached) charges
  add up to the total size of the GPU-resident pages that some known workflow owns, each page
  being counted once however many workflows share it.\<close>

theorem workflow_charges_conserve:
  assumes "rtranclp ixq_step page_index_init ix"
  shows "sum_list (map snd (fst (workflow_gpu_charges ix))) =
    sum_list (map (\<lambda>p. if gpu_resident p \<and> page_workflows ix p \<noteq> {} then of_int (pg_size_bytes p) else 0)
      (map snd (ix_pages ix)))"
proof -
  have "cache_ok ix" using ixq_reachable [OF assms] by (simp add: ixq_inv_def)
  then have "fst (workflow_gpu_charges ix) = calculate_workflow_charges ix"
    using charges_fill(3) [of ix] by (metis prod.collapse)
  then show ?thesis
    using charge_fold_sum [of "[]" ix "map snd (ix_pages ix)"]
    by (simp add: calculate_workflow_charges_def charged_bytes_def o_def)
qed

theorem workflow_charges_conserve_witness:
  "sum_list (map snd (fst (workflow_gpu_charges demo_ix))) =
    sum_list (map (\<lambda>p. if gpu_resident p \<and> page_workflows demo_ix p \<noteq> {} then of_int (pg_size_bytes p) else 0)
      (map snd (ix_pages demo_ix)))"
  by (rule workflow_charges_conserve [OF demo_ixq_reachable])

end
