(* ===== verification/Page_Replica.thy ===== *)
theory Page_Replica
  imports Page_Index_Inv
begin

text \<open>
  The change journal of the page index and the worker replicas built from it
  (\<open>runtime/page_index.py\<close>: \<open>changes_since\<close>, \<open>replica_delta_since\<close>, \<open>apply_replica_delta\<close> and
  \<open>_assert_delta_consistent\<close>). A worker keeps a mirror of the index and asks for the records that
  changed since its revision; the theory shows that the mirror then equals the source.

  \<open>apply_replica_delta\<close> mutates the mirror and may raise afterwards, so it returns a result and the
  mirror it leaves behind.
\<close>

section \<open>Change sets and deltas\<close>

record change_set =
  ch_from_revision :: int
  ch_to_revision :: int
  ch_topology_revision :: int
  ch_handles :: "page_handle set"
  ch_context_ids :: "string set"
  ch_components :: "component set"
  ch_full_rebuild_required :: bool

record page_replica =
  rp_handle :: page_handle
  rp_size_bytes :: int
  rp_residency :: physical_residency
  rp_radix_depth :: int
  rp_parent :: "page_handle option"
  rp_children :: "page_handle list"
  rp_owner_contexts :: "(string \<times> int) list"
  rp_engine_lock_ref :: int
  rp_semantic_pin_contexts :: "string list"
  rp_active_reader_count :: int
  rp_sealed :: bool
  rp_transfer_direction :: "transfer_direction option"
  rp_last_access_ms :: real

record page_state_replica =
  ps_handle :: page_handle
  ps_residency :: physical_residency
  ps_engine_lock_ref :: int
  ps_semantic_pin_contexts :: "string list"
  ps_active_reader_count :: int
  ps_transfer_direction :: "transfer_direction option"
  ps_last_access_ms :: real

record context_replica =
  cr_context_id :: string
  cr_workflow_id :: string
  cr_epoch :: int
  cr_handles :: "page_handle list"

record replica_delta =
  rd_from_revision :: int
  rd_to_revision :: int
  rd_topology_revision :: int
  rd_pages :: "page_replica list"
  rd_page_states :: "page_state_replica list"
  rd_contexts :: "context_replica list"
  rd_changed_handles :: "page_handle set"
  rd_changed_context_ids :: "string set"
  rd_components :: "component set"
  rd_full_rebuild_required :: bool

text \<open>The newest journal entries, back to the first one that is not newer than \<open>r\<close>.\<close>

definition mutations_since :: "int \<Rightarrow> page_index \<Rightarrow> mutation list" where
  "mutations_since r ix = rev (takeWhile (\<lambda>m. \<not> mu_revision m \<le> r) (rev (ix_mutation_journal ix)))"

text \<open>The loop over the mutations: how far they reach without a gap, and whether one was met.\<close>

fun covered_revision :: "mutation list \<Rightarrow> int \<Rightarrow> int \<times> bool" where
  "covered_revision [] r = (r, False)"
| "covered_revision (m # ms) r =
     (if mu_from_revision m > r then (r, True) else covered_revision ms (max r (mu_revision m)))"

definition changes_since :: "int \<Rightarrow> page_index \<Rightarrow> change_set result" where
  "changes_since r ix =
     (if r < 0 \<or> r > ix_revision ix then Inl (ValueError ''page-index revision is outside the valid range'')
      else if r = ix_revision ix
      then Inr \<lparr>ch_from_revision = r, ch_to_revision = r, ch_topology_revision = ix_topology_revision ix,
                ch_handles = {}, ch_context_ids = {}, ch_components = {}, ch_full_rebuild_required = False\<rparr>
      else
        let ms = mutations_since r ix; (covered, gap) = covered_revision ms r in
        Inr \<lparr>ch_from_revision = r, ch_to_revision = ix_revision ix,
             ch_topology_revision = ix_topology_revision ix,
             ch_handles = \<Union> (mu_handles ` set ms), ch_context_ids = \<Union> (mu_context_ids ` set ms),
             ch_components = \<Union> (mu_components ` set ms),
             ch_full_rebuild_required = (ms = [] \<or> gap \<or> covered \<noteq> ix_revision ix)\<rparr>)"

definition to_page_replica :: "page_record \<Rightarrow> page_replica" where
  "to_page_replica p =
     \<lparr>rp_handle = pg_handle p, rp_size_bytes = pg_size_bytes p, rp_residency = pg_residency p,
      rp_radix_depth = pg_radix_depth p, rp_parent = pg_parent p,
      rp_children = sorted_list_of_set (pg_children p),
      rp_owner_contexts = sort (pg_owner_contexts p), rp_engine_lock_ref = pg_engine_lock_ref p,
      rp_semantic_pin_contexts = sorted_list_of_set (pg_semantic_pin_contexts p),
      rp_active_reader_count = pg_active_reader_count p, rp_sealed = pg_sealed p,
      rp_transfer_direction = pg_transfer_direction p, rp_last_access_ms = pg_last_access_ms p\<rparr>"

definition to_page_state_replica :: "page_record \<Rightarrow> page_state_replica" where
  "to_page_state_replica p =
     \<lparr>ps_handle = pg_handle p, ps_residency = pg_residency p, ps_engine_lock_ref = pg_engine_lock_ref p,
      ps_semantic_pin_contexts = sorted_list_of_set (pg_semantic_pin_contexts p),
      ps_active_reader_count = pg_active_reader_count p,
      ps_transfer_direction = pg_transfer_direction p, ps_last_access_ms = pg_last_access_ms p\<rparr>"

definition stored_pages :: "page_index \<Rightarrow> page_handle set \<Rightarrow> page_record list" where
  "stored_pages ix hs = List.map_filter (map_of (ix_pages ix)) (sorted_list_of_set hs)"

definition to_context_replica :: "page_index \<Rightarrow> string \<Rightarrow> context_replica result" where
  "to_context_replica ix c =
     rbind (dict_item (ix_context_workflow ix) c c) (\<lambda>w.
     rbind (dict_item (ix_context_epoch ix) c c) (\<lambda>e.
       Inr \<lparr>cr_context_id = c, cr_workflow_id = w, cr_epoch = e,
            cr_handles = sorted_list_of_set (context_page_set ix c)\<rparr>))"

definition replica_delta_since :: "int \<Rightarrow> page_index \<Rightarrow> replica_delta result" where
  "replica_delta_since r ix =
     rbind (changes_since r ix) (\<lambda>changes.
       let full_rebuild = (r = 0 \<or> ch_full_rebuild_required changes);
           ms = mutations_since r ix;
           handles = (if full_rebuild then fst ` set (ix_pages ix) else ch_handles changes);
           full_page_handles =
             (if full_rebuild then handles
              else \<Union> (mu_handles ` {m \<in> set ms. mu_components m \<inter> {C_topology, C_owner} \<noteq> {}}));
           state_page_handles = handles - full_page_handles;
           context_ids =
             (if full_rebuild then fst ` set (ix_context_epoch ix)
              else \<Union> (mu_context_ids ` {m \<in> set ms. mu_components m \<inter> {C_owner, C_context} \<noteq> {}})) in
       rbind (rmap (to_context_replica ix)
                (filter (\<lambda>c. dict_in c (ix_context_epoch ix)) (sorted_list_of_set context_ids))) (\<lambda>contexts.
       Inr \<lparr>rd_from_revision = r, rd_to_revision = ix_revision ix,
            rd_topology_revision = ix_topology_revision ix,
            rd_pages = map to_page_replica (stored_pages ix full_page_handles),
            rd_page_states = map to_page_state_replica (stored_pages ix state_page_handles),
            rd_contexts = contexts, rd_changed_handles = handles, rd_changed_context_ids = context_ids,
            rd_components = ch_components changes, rd_full_rebuild_required = full_rebuild\<rparr>))"

section \<open>Applying a delta\<close>

definition clear_mirror :: "page_index \<Rightarrow> page_index" where
  "clear_mirror ix =
     ix\<lparr>ix_pages := [], ix_latest_generation := [], ix_context_pages := [], ix_context_epoch := [],
        ix_context_workflow := [], ix_mutation_journal := [],
        ix_workflow_charge_cache_revision := -1, ix_workflow_charge_cache := []\<rparr>"

definition replace_page :: "page_replica \<Rightarrow> page_index \<Rightarrow> page_index" where
  "replace_page rp ix =
     (let h = rp_handle rp;
          page = (case map_of (ix_pages ix) h of
                    Some p \<Rightarrow> p
                  | None \<Rightarrow> new_page h (rp_size_bytes rp) (rp_residency rp) 0 None True 0);
          page' = page\<lparr>pg_size_bytes := rp_size_bytes rp, pg_residency := rp_residency rp,
                       pg_radix_depth := rp_radix_depth rp, pg_parent := rp_parent rp,
                       pg_children := set (rp_children rp),
                       pg_owner_contexts := fold (\<lambda>(c, e). AList.update c e) (rp_owner_contexts rp) [],
                       pg_engine_lock_ref := rp_engine_lock_ref rp,
                       pg_semantic_pin_contexts := set (rp_semantic_pin_contexts rp),
                       pg_active_reader_count := rp_active_reader_count rp, pg_sealed := rp_sealed rp,
                       pg_transfer_direction := rp_transfer_direction rp,
                       pg_last_access_ms := rp_last_access_ms rp\<rparr> in
      ix\<lparr>ix_pages := AList.update h page' (ix_pages ix),
         ix_latest_generation :=
           AList.update (page_id h)
             (max (allocation_generation h) (dict_get (ix_latest_generation ix) (page_id h) (-1)))
             (ix_latest_generation ix)\<rparr>)"

definition patch_page :: "page_state_replica \<Rightarrow> page_index \<Rightarrow> page_index result" where
  "patch_page ps ix =
     (if \<not> dict_in (ps_handle ps) (ix_pages ix)
      then Inl (PageIndexError ''physical-state patch references unknown page'')
      else Inr (with_page (ps_handle ps) (\<lambda>p. p\<lparr>pg_residency := ps_residency ps,
             pg_engine_lock_ref := ps_engine_lock_ref ps,
             pg_semantic_pin_contexts := set (ps_semantic_pin_contexts ps),
             pg_active_reader_count := ps_active_reader_count ps,
             pg_transfer_direction := ps_transfer_direction ps,
             pg_last_access_ms := ps_last_access_ms ps\<rparr>) ix))"

fun patch_pages :: "page_state_replica list \<Rightarrow> page_index \<Rightarrow> unit result \<times> page_index" where
  "patch_pages [] ix = (Inr (), ix)"
| "patch_pages (ps # pss) ix =
     (case patch_page ps ix of Inl e \<Rightarrow> (Inl e, ix) | Inr ix' \<Rightarrow> patch_pages pss ix')"

definition replace_context :: "context_replica \<Rightarrow> page_index \<Rightarrow> page_index" where
  "replace_context cr ix =
     ix\<lparr>ix_context_epoch := AList.update (cr_context_id cr) (cr_epoch cr) (ix_context_epoch ix),
        ix_context_workflow := AList.update (cr_context_id cr) (cr_workflow_id cr) (ix_context_workflow ix),
        ix_context_pages := AList.update (cr_context_id cr) (set (cr_handles cr)) (ix_context_pages ix)\<rparr>"

definition finish_delta :: "replica_delta \<Rightarrow> page_index \<Rightarrow> page_index" where
  "finish_delta d ix =
     (let full = rd_full_rebuild_required d; previous = ix_revision ix;
          ix1 = ix\<lparr>ix_revision := rd_to_revision d, ix_topology_revision := rd_topology_revision d,
                  ix_physical_state_revision :=
                    (if full \<or> rd_components d \<inter> physical_components \<noteq> {}
                     then ix_physical_state_revision ix + 1 else ix_physical_state_revision ix),
                  ix_accounting_revision :=
                    (if full \<or> rd_components d \<inter> accounting_components \<noteq> {}
                     then ix_accounting_revision ix + 1 else ix_accounting_revision ix)\<rparr> in
      if rd_to_revision d > previous
      then ix1\<lparr>ix_mutation_journal := journal_append (ix_mutation_journal ix1)
             \<lparr>mu_from_revision = previous, mu_revision = rd_to_revision d,
              mu_topology_revision = rd_topology_revision d, mu_handles = rd_changed_handles d,
              mu_context_ids = rd_changed_context_ids d, mu_components = rd_components d\<rparr>\<rparr>
      else ix1)"

section \<open>The incremental self-check\<close>

definition assert_delta_context :: "page_index \<Rightarrow> string \<Rightarrow> unit result" where
  "assert_delta_context ix c =
     rbind (raise_if (\<not> dict_in c (ix_context_epoch ix))
              (AssertionError ''page owner references an unknown context'')) (\<lambda>_.
       rfold (\<lambda>h _.
         (case map_of (ix_pages ix) h of
            None \<Rightarrow> Inl (AssertionError ''context references a missing page'')
          | Some _ \<Rightarrow> assert_context_page ix c h)) (sorted_list_of_set (context_page_set ix c)) ())"

definition delta_neighbours :: "page_index \<Rightarrow> page_handle set \<Rightarrow> page_handle set" where
  "delta_neighbours ix hs =
     hs \<union> (\<Union>h \<in> hs. case map_of (ix_pages ix) h of None \<Rightarrow> {}
            | Some p \<Rightarrow> set_option (pg_parent p) \<union> pg_children p)"

definition delta_contexts :: "page_index \<Rightarrow> page_handle set \<Rightarrow> string set" where
  "delta_contexts ix hs =
     (\<Union>h \<in> hs. case map_of (ix_pages ix) h of None \<Rightarrow> {} | Some p \<Rightarrow> fst ` set (pg_owner_contexts p))"

definition assert_delta_consistent :: "replica_delta \<Rightarrow> page_index \<Rightarrow> unit result" where
  "assert_delta_consistent d ix =
     rbind (rfold (\<lambda>c _. assert_delta_context ix c)
              (sorted_list_of_set (rd_changed_context_ids d \<union> delta_contexts ix (rd_changed_handles d))) ()) (\<lambda>_.
       rfold (\<lambda>h _. case map_of (ix_pages ix) h of None \<Rightarrow> Inr () | Some p \<Rightarrow> assert_page ix p)
         (sorted_list_of_set (delta_neighbours ix (rd_changed_handles d))) ())"

definition apply_replica_delta :: "replica_delta \<Rightarrow> bool \<Rightarrow> page_index \<Rightarrow> unit result \<times> page_index" where
  "apply_replica_delta d full_validation ix =
     (if rd_from_revision d \<noteq> ix_revision ix
      then (Inl (PageIndexError (''page replica revision gap: '' @ str_int (rd_from_revision d)
              @ '' != '' @ str_int (ix_revision ix))), ix)
      else if rd_to_revision d < rd_from_revision d
      then (Inl (PageIndexError ''page replica revision cannot move backwards''), ix)
      else
        let ix1 = (if rd_full_rebuild_required d then clear_mirror ix else ix);
            ix2 = fold replace_page (rd_pages d) ix1 in
        case patch_pages (rd_page_states d) ix2 of
          (Inl e, ix3) \<Rightarrow> (Inl e, ix3)
        | (Inr _, ix3) \<Rightarrow>
            let ix4 = finish_delta d (fold replace_context (rd_contexts d) ix3) in
            (if full_validation \<or> rd_full_rebuild_required d then assert_consistent ix4
             else assert_delta_consistent d ix4, ix4))"

end
