(* ===== verification/Page_Journal.thy ===== *)
theory Page_Journal
  imports Page_Replica
begin

text \<open>
  The change journal of the page index is complete. Every operation writes journal entries that
  cover what it changed (\<open>logged\<close>), and the journal is the tail, at most 65536 entries long, of the
  whole history, so reading it back from an earlier revision gives exactly the entries since then
  unless more than 65536 were written.
\<close>

section \<open>Views\<close>

text \<open>What a replica must agree on: page records up to the order of the owner dictionary, and per
  context the epoch, the workflow and the page set. The static part of a page is what a
  physical-state patch does not carry.\<close>

definition page_view :: "page_record \<Rightarrow> page_record \<times> (string \<rightharpoonup> int)" where
  "page_view p = (p\<lparr>pg_owner_contexts := []\<rparr>, map_of (pg_owner_contexts p))"

definition static_view ::
  "page_record \<Rightarrow> page_handle \<times> int \<times> int \<times> page_handle option \<times> page_handle set \<times> bool \<times> (string \<rightharpoonup> int)" where
  "static_view p = (pg_handle p, pg_size_bytes p, pg_radix_depth p, pg_parent p, pg_children p, pg_sealed p,
     map_of (pg_owner_contexts p))"

definition views :: "page_index \<Rightarrow> page_handle \<rightharpoonup> page_record \<times> (string \<rightharpoonup> int)" where
  "views ix h = map_option page_view (map_of (ix_pages ix) h)"

definition statics :: "page_index \<Rightarrow> page_handle \<rightharpoonup>
    page_handle \<times> int \<times> int \<times> page_handle option \<times> page_handle set \<times> bool \<times> (string \<rightharpoonup> int)" where
  "statics ix h = map_option static_view (map_of (ix_pages ix) h)"

definition context_view :: "page_index \<Rightarrow> string \<Rightarrow> int option \<times> string option \<times> page_handle set" where
  "context_view ix c = (map_of (ix_context_epoch ix) c, map_of (ix_context_workflow ix) c, context_page_set ix c)"

lemma page_view_eq_iff:
  "page_view p = page_view q \<longleftrightarrow>
     pg_handle p = pg_handle q \<and> pg_size_bytes p = pg_size_bytes q \<and> pg_residency p = pg_residency q \<and>
     pg_radix_depth p = pg_radix_depth q \<and> pg_parent p = pg_parent q \<and> pg_children p = pg_children q \<and>
     map_of (pg_owner_contexts p) = map_of (pg_owner_contexts q) \<and>
     pg_engine_lock_ref p = pg_engine_lock_ref q \<and>
     pg_semantic_pin_contexts p = pg_semantic_pin_contexts q \<and>
     pg_active_reader_count p = pg_active_reader_count q \<and> pg_sealed p = pg_sealed q \<and>
     pg_transfer_direction p = pg_transfer_direction q \<and> pg_last_access_ms p = pg_last_access_ms q"
  by (cases p; cases q) (auto simp: page_view_def)

lemma views_statics: "views ix h = views ix' h \<Longrightarrow> statics ix h = statics ix' h"
  by (auto simp: views_def statics_def static_view_def page_view_eq_iff map_option_case split: option.splits)

lemma views_dom: "views ix h = None \<longleftrightarrow> h \<notin> dom (map_of (ix_pages ix))"
  "statics ix h = None \<longleftrightarrow> h \<notin> dom (map_of (ix_pages ix))"
  by (auto simp: views_def statics_def)

text \<open>Rewriting pages under the keys \<open>ks\<close> leaves every other page alone.\<close>

lemma views_dmap [simp]:
  "h \<notin> ks \<Longrightarrow> views (ix\<lparr>ix_pages := dmap_on ks f (ix_pages ix)\<rparr>) h = views ix h"
  by (simp add: views_def map_of_dmap_on)

lemma statics_dmap:
  "(\<And>p. static_view (f p) = static_view p) \<Longrightarrow>
   statics (ix\<lparr>ix_pages := dmap_on ks f (ix_pages ix)\<rparr>) = statics ix"
  by (auto simp: fun_eq_iff statics_def map_of_dmap_on option.map_comp comp_def)

lemma views_dmap_id:
  assumes "\<And>h p. h \<in> ks \<Longrightarrow> map_of (ix_pages ix) h = Some p \<Longrightarrow> page_view (f p) = page_view p"
  shows "views (ix\<lparr>ix_pages := dmap_on ks f (ix_pages ix)\<rparr>) = views ix"
proof
  fix h show "views (ix\<lparr>ix_pages := dmap_on ks f (ix_pages ix)\<rparr>) h = views ix h"
    using assms [of h] by (cases "map_of (ix_pages ix) h") (auto simp: views_def map_of_dmap_on)
qed

text \<open>The views read only the stored dictionaries.\<close>

lemma views_upd [simp]:
  "views (ix\<lparr>ix_latest_generation := v2\<rparr>) = views ix" "views (ix\<lparr>ix_context_pages := v3\<rparr>) = views ix"
  "views (ix\<lparr>ix_context_epoch := v4\<rparr>) = views ix" "views (ix\<lparr>ix_context_workflow := v5\<rparr>) = views ix"
  "views (touch t hs cs comps ix) = views ix"
  "statics (ix\<lparr>ix_latest_generation := v2\<rparr>) = statics ix" "statics (ix\<lparr>ix_context_pages := v3\<rparr>) = statics ix"
  "statics (ix\<lparr>ix_context_epoch := v4\<rparr>) = statics ix" "statics (ix\<lparr>ix_context_workflow := v5\<rparr>) = statics ix"
  "statics (touch t hs cs comps ix) = statics ix"
  "context_view (ix\<lparr>ix_pages := v1\<rparr>) = context_view ix"
  "context_view (ix\<lparr>ix_latest_generation := v2\<rparr>) = context_view ix"
  "context_view (touch t hs cs comps ix) = context_view ix"
  by (simp_all add: fun_eq_iff views_def statics_def context_view_def context_page_set_def)

section \<open>What an operation logs\<close>

abbreviation page_carrying :: "mutation \<Rightarrow> bool" where
  "page_carrying m \<equiv> mu_components m \<inter> {C_topology, C_owner} \<noteq> {}"

abbreviation context_carrying :: "mutation \<Rightarrow> bool" where
  "context_carrying m \<equiv> mu_components m \<inter> {C_owner, C_context} \<noteq> {}"

definition logged_handles :: "mutation list \<Rightarrow> page_handle set" where
  "logged_handles ms = \<Union> (mu_handles ` set ms)"

definition carried_handles :: "mutation list \<Rightarrow> page_handle set" where
  "carried_handles ms = \<Union> (mu_handles ` {m \<in> set ms. page_carrying m})"

definition carried_contexts :: "mutation list \<Rightarrow> string set" where
  "carried_contexts ms = \<Union> (mu_context_ids ` {m \<in> set ms. context_carrying m})"

lemma carried_simps [simp]:
  "logged_handles [] = {}" "carried_handles [] = {}" "carried_contexts [] = {}"
  "logged_handles (m # ms) = mu_handles m \<union> logged_handles ms"
  "carried_handles (m # ms) = (if page_carrying m then mu_handles m else {}) \<union> carried_handles ms"
  "carried_contexts (m # ms) = (if context_carrying m then mu_context_ids m else {}) \<union> carried_contexts ms"
  by (auto simp: logged_handles_def carried_handles_def carried_contexts_def)

lemma carried_append [simp]:
  "logged_handles (ms @ ms') = logged_handles ms \<union> logged_handles ms'"
  "carried_handles (ms @ ms') = carried_handles ms \<union> carried_handles ms'"
  "carried_contexts (ms @ ms') = carried_contexts ms \<union> carried_contexts ms'"
  by (auto simp: logged_handles_def carried_handles_def carried_contexts_def)

definition covers :: "mutation list \<Rightarrow> page_index \<Rightarrow> page_index \<Rightarrow> bool" where
  "covers ms ix ix' \<longleftrightarrow>
     (\<forall>h. h \<notin> logged_handles ms \<longrightarrow> views ix' h = views ix h) \<and>
     (\<forall>h. h \<notin> carried_handles ms \<longrightarrow> statics ix' h = statics ix h) \<and>
     (\<forall>c. c \<notin> carried_contexts ms \<longrightarrow> context_view ix' c = context_view ix c) \<and>
     carried_contexts ms \<subseteq> dom (map_of (ix_context_epoch ix')) \<and>
     dom (map_of (ix_context_epoch ix)) \<subseteq> dom (map_of (ix_context_epoch ix')) \<and>
     finite (logged_handles ms)"

text \<open>Consecutive entries starting at revision \<open>r\<close>.\<close>

fun chain :: "int \<Rightarrow> mutation list \<Rightarrow> bool" where
  "chain r [] \<longleftrightarrow> True"
| "chain r (m # ms) \<longleftrightarrow> mu_from_revision m = r \<and> mu_revision m = r + 1 \<and> chain (r + 1) ms"

definition logs :: "mutation list \<Rightarrow> page_index \<Rightarrow> page_index \<Rightarrow> bool" where
  "logs ms ix ix' \<longleftrightarrow>
     chain (ix_revision ix) ms \<and> ix_revision ix' = ix_revision ix + int (length ms) \<and>
     ix_mutation_journal ix' = foldl journal_append (ix_mutation_journal ix) ms \<and> covers ms ix ix'"

definition logged :: "page_index \<Rightarrow> page_index \<Rightarrow> bool" where
  "logged ix ix' \<longleftrightarrow> (\<exists>ms. logs ms ix ix')"

lemma chain_append: "chain r (ms @ ms') \<longleftrightarrow> chain r ms \<and> chain (r + int (length ms)) ms'"
  by (induction ms arbitrary: r) (simp_all add: algebra_simps)

lemma covers_trans: "covers ms ix ix' \<Longrightarrow> covers ms' ix' ix'' \<Longrightarrow> covers (ms @ ms') ix ix''"
  unfolding covers_def carried_append by (simp add: Un_iff) (metis subset_trans)

lemma covers_refl: "covers [] ix ix"
  by (simp add: covers_def)

lemma logs_trans: "logs ms ix ix' \<Longrightarrow> logs ms' ix' ix'' \<Longrightarrow> logs (ms @ ms') ix ix''"
  by (auto simp: logs_def chain_append intro: covers_trans)

lemma logged_trans: "logged ix ix' \<Longrightarrow> logged ix' ix'' \<Longrightarrow> logged ix ix''"
  by (auto simp: logged_def intro: logs_trans)

lemma logged_refl [simp]: "logged ix ix"
  by (auto simp: logged_def logs_def covers_refl intro!: exI [of _ "[]"])

text \<open>A change that no view sees needs no entry; any other must be announced by its touch.\<close>

definition same_log :: "page_index \<Rightarrow> page_index \<Rightarrow> bool" where
  "same_log ix ix' \<longleftrightarrow>
     ix_revision ix' = ix_revision ix \<and> ix_mutation_journal ix' = ix_mutation_journal ix"

lemma same_log_upd [simp]:
  "same_log ix ix"
  "same_log ix (ix'\<lparr>ix_pages := v1\<rparr>) = same_log ix ix'"
  "same_log ix (ix'\<lparr>ix_latest_generation := v2\<rparr>) = same_log ix ix'"
  "same_log ix (ix'\<lparr>ix_context_pages := v3\<rparr>) = same_log ix ix'"
  "same_log ix (ix'\<lparr>ix_context_epoch := v4\<rparr>) = same_log ix ix'"
  "same_log ix (ix'\<lparr>ix_context_workflow := v5\<rparr>) = same_log ix ix'"
  by (simp_all add: same_log_def)

lemma logged_quiet:
  assumes "same_log ix ix1" and "views ix1 = views ix" and "context_view ix1 = context_view ix"
  shows "logged ix ix1"
proof -
  have "dom (map_of (ix_context_epoch ix1)) = dom (map_of (ix_context_epoch ix))"
    using assms(3) by (auto simp: context_view_def fun_eq_iff dom_def)
  with assms have "covers [] ix ix1"
    using views_statics [of ix1 _ ix] by (auto simp: covers_def)
  with assms(1) have "logs [] ix ix1" by (simp add: logs_def same_log_def)
  then show ?thesis unfolding logged_def by blast
qed

lemma logged_touch:
  assumes log: "same_log ix ix1"
    and pages: "\<And>h. h \<notin> hs \<Longrightarrow> views ix1 h = views ix h"
    and static: "comps \<inter> {C_topology, C_owner} = {} \<Longrightarrow> statics ix1 = statics ix"
    and contexts: "\<And>c. comps \<inter> {C_owner, C_context} = {} \<or> c \<notin> cs \<Longrightarrow> context_view ix1 c = context_view ix c"
    and known: "comps \<inter> {C_owner, C_context} \<noteq> {} \<Longrightarrow> cs \<subseteq> dom (map_of (ix_context_epoch ix1))"
    and fin: "finite hs"
  shows "logged ix (touch t hs cs comps ix1)"
proof -
  let ?ix = "touch t hs cs comps ix1"
  let ?m = "\<lparr>mu_from_revision = ix_revision ix, mu_revision = ix_revision ix + 1,
    mu_topology_revision = ix_topology_revision ?ix, mu_handles = hs, mu_context_ids = cs, mu_components = comps\<rparr>"
  have dom: "dom (map_of (ix_context_epoch ix)) \<subseteq> dom (map_of (ix_context_epoch ix1))"
  proof
    fix c assume c: "c \<in> dom (map_of (ix_context_epoch ix))"
    show "c \<in> dom (map_of (ix_context_epoch ix1))"
    proof (cases "comps \<inter> {C_owner, C_context} = {} \<or> c \<notin> cs")
      case True
      with contexts [of c] c show ?thesis by (auto simp: context_view_def)
    qed (use known in blast)
  qed
  have st: "statics ix1 h = statics ix h" if "h \<notin> carried_handles [?m]" for h
    using that static pages [of h] views_statics [of ix1 h ix] by (simp split: if_split_asm)
  have "covers [?m] ix ?ix"
    unfolding covers_def using pages st contexts known dom fin by auto
  moreover have "ix_revision ?ix = ix_revision ix + 1"
    "ix_mutation_journal ?ix = journal_append (ix_mutation_journal ix) ?m"
    using log by (simp_all add: touch_def same_log_def Let_def)
  ultimately have "logs [?m] ix ?ix" by (simp add: logs_def)
  then show ?thesis unfolding logged_def by blast
qed

section \<open>Every operation logs its changes\<close>

text \<open>Operations on the page table alone: topology changes, and changes of the physical state.\<close>

lemma logged_pages:
  assumes "\<And>h. h \<notin> hs \<Longrightarrow> map_of d h = map_of (ix_pages ix) h" and "finite hs"
    and "comps \<inter> {C_owner, C_context} = {}"
    and "C_topology \<in> comps \<or> statics (ix\<lparr>ix_pages := d\<rparr>) = statics ix"
  shows "logged ix (touch t hs cs comps (ix\<lparr>ix_pages := d\<rparr>))"
  by (rule logged_touch) (use assms in \<open>auto simp: views_def\<close>)

lemma logged_with_page:
  assumes "\<And>p. static_view (f p) = static_view p" and "comps \<inter> {C_owner, C_context} = {}"
  shows "logged ix (touch t {h} cs comps (with_page h f ix))"
  unfolding with_page_def
  by (rule logged_pages) (use assms in \<open>auto simp: map_of_dmap_on statics_dmap\<close>)

lemma transfer_logged:
  "begin_transfer h d ix = Inr ix' \<Longrightarrow> logged ix ix'"
  "complete_transfer h d k ix = Inr ix' \<Longrightarrow> logged ix ix'"
  "abort_transfer h ix = Inr ix' \<Longrightarrow> logged ix ix'"
  "commit_cpu h ix = Inr ix' \<Longrightarrow> logged ix ix'"
  by (auto simp: begin_transfer_def complete_transfer_def abort_transfer_def commit_cpu_def touch_transfer_def
      static_view_def Let_def split: if_splits option.splits transfer_direction.splits intro!: logged_with_page)

lemma lock_logged:
  "set_engine_lock h v ix = Inr ix' \<Longrightarrow> logged ix ix'"
  "set_active_readers h v ix = Inr ix' \<Longrightarrow> logged ix ix'"
  by (auto simp: set_engine_lock_def set_active_readers_def static_view_def split: if_split_asm
      intro!: logged_with_page)

lemma register_page_logged:
  assumes "register_page h sz res dep par sealed acc ix = Inr ix'"
  shows "logged ix ix'"
proof -
  have "logged ix (touch True (insert h (set_option par)) {} {C_topology, C_residency}
      (ix\<lparr>ix_pages := d, ix_latest_generation := l\<rparr>))"
    if "\<And>k. k \<notin> insert h (set_option par) \<Longrightarrow> map_of d k = map_of (ix_pages ix) k" for d l
    by (rule logged_touch) (use that in \<open>auto simp: views_def\<close>)
  with assms show ?thesis
    by (auto simp: register_page_def Let_def map_of_update map_of_dmap_on split: if_split_asm option.split)
qed

lemma map_of_case_dmap:
  "map_of (case q of None \<Rightarrow> d | Some x \<Rightarrow> dmap_on {x} f d) k =
     (if q = Some k then map_option f (map_of d k) else map_of d k)"
  by (auto simp: map_of_dmap_on split: option.split)

lemma set_parent_logged:
  assumes step: "set_parent h q ix = Inr ix'"
  shows "logged ix ix'"
proof -
  have t: "logged ix (touch True hs {} {C_topology} (ix\<lparr>ix_pages := d\<rparr>))"
    if "\<And>k. k \<notin> hs \<Longrightarrow> map_of d k = map_of (ix_pages ix) k" "finite hs" for hs d
    using that by (intro logged_pages) auto
  show ?thesis
    using step by (cases q) (auto simp: set_parent_def Let_def map_of_dmap_on map_of_case_dmap split: if_split_asm intro!: t)
qed

lemma owner_context_known:
  assumes "ix_inv ix" and "map_of (ix_pages ix) h = Some p"
  shows "fst ` set (pg_owner_contexts p) \<subseteq> dom (map_of (ix_context_epoch ix))"
proof
  fix c assume "c \<in> fst ` set (pg_owner_contexts p)"
  then obtain e where "map_of (pg_owner_contexts p) c = Some e" by (metis domD dom_map_of_conv_image_fst)
  from owner_in_context_pages [OF assms this] show "c \<in> dom (map_of (ix_context_epoch ix))"
    using context_page_owned [OF assms(1)] by blast
qed

lemma detach_logged:
  assumes inv: "ix_inv ix" and p: "map_of (ix_pages ix) h = Some page"
  shows "logged ix (detach_page h page orphan ix)"
  unfolding detach_page_def Let_def
proof (rule logged_touch, goal_cases)
  case (2 k)
  then show ?case by (auto simp: views_def map_of_dmap_on split: option.split)
next
  case (4 c)
  then show ?case by (auto simp: context_view_def context_page_set_def dict_get_def map_of_dmap_on)
next
  case 5
  show ?case using owner_context_known [OF inv p] by simp
next
  case 6
  have "finite (pg_children page)" using page_ok_ix [OF inv p] by (simp add: page_ok_def)
  then show ?case by simp
qed auto

lemma free_logged:
  "free_page h ix = Inr ix' \<Longrightarrow> ix_inv ix \<Longrightarrow> logged ix ix'"
  "invalidate_page h ix = Inr ix' \<Longrightarrow> ix_inv ix \<Longrightarrow> logged ix ix'"
  by (auto simp: free_page_def invalidate_page_def require_page_Inr detach_logged split: if_split_asm)

lemma drop_logged:
  "drop_page h ix = Inr ix' \<Longrightarrow> ix_inv ix \<Longrightarrow> logged ix ix'"
  "drop_host_copy h ix = Inr ix' \<Longrightarrow> ix_inv ix \<Longrightarrow> logged ix ix'"
  by (auto simp: drop_page_def drop_host_copy_def touch_transfer_def static_view_def
      split: if_splits intro!: logged_with_page intro: free_logged)

text \<open>Operations on contexts and ownership.\<close>

lemma register_context_logged:
  assumes "register_context c w e ix = Inr ix'"
  shows "logged ix ix'"
proof -
  let ?ix = "ix\<lparr>ix_context_epoch := AList.update c e (ix_context_epoch ix),
                ix_context_workflow := AList.update c w (ix_context_workflow ix),
                ix_context_pages := (if dict_in c (ix_context_pages ix) then ix_context_pages ix
                                     else AList.update c {} (ix_context_pages ix))\<rparr>"
  have cps: "context_page_set ?ix c' = context_page_set ix c'" for c'
    by (auto simp: context_page_set_def dict_get_def dict_in_def map_of_update)
  have t: "logged ix (touch False {} {c} {C_context} ?ix)"
    by (rule logged_touch) (use cps in \<open>auto simp: context_view_def map_of_update\<close>)
  have quiet: "logged ix ?ix"
    if "map_of (ix_context_epoch ix) c = Some e" "map_of (ix_context_workflow ix) c = Some w"
    by (rule logged_quiet) (use that cps in \<open>auto simp: context_view_def map_of_update fun_eq_iff\<close>)
  show ?thesis
    using assms t quiet by (auto simp: register_context_def Let_def split: if_split_asm option.splits)
qed

lemma unbind_context_logged:
  assumes inv: "ix_inv ix"
  shows "logged ix (unbind_context c ix)"
proof -
  let ?hs = "context_page_set ix c"
  let ?ix = "ix\<lparr>ix_pages := dmap_on ?hs (drop_owner c) (ix_pages ix),
                ix_context_pages := AList.update c {} (ix_context_pages ix)\<rparr>"
  have other: "context_view ?ix c' = context_view ix c'" if "c' \<noteq> c" for c'
    using that by (simp add: context_view_def context_page_set_def dict_get_update)
  have "logged ix (touch False ?hs {c} comps ?ix)" if "C_owner \<in> comps" "?hs \<noteq> {}" for comps
  proof (rule logged_touch)
    from that(2) obtain h where "h \<in> ?hs" by blast
    then show "{c} \<subseteq> dom (map_of (ix_context_epoch ?ix))"
      using context_page_owned [OF inv, of h c] by auto
  qed (use that other finite_context_page_set [OF inv, of c] in \<open>auto simp: views_def map_of_dmap_on\<close>)
  moreover have "logged ix ?ix" if "?hs = {}"
  proof (rule logged_quiet)
    have "context_view ?ix c' = context_view ix c'" for c'
      using that other [of c'] by (cases "c' = c") (simp_all add: context_view_def context_page_set_def dict_get_update)
    then show "context_view ?ix = context_view ix" by (rule ext)
  qed (use that in \<open>auto simp: views_def map_of_dmap_on fun_eq_iff\<close>)
  ultimately show ?thesis by (simp add: unbind_context_def Let_def)
qed

lemma set_owner_view:
  assumes "ix_inv ix" and "h \<in> context_page_set ix c" and "map_of (ix_context_epoch ix) c = Some e"
    and "map_of (ix_pages ix) h = Some p"
  shows "page_view (set_owner c e p) = page_view p"
proof -
  have "map_of (pg_owner_contexts p) c = Some e"
    using context_page_owned [OF assms(1,2)] assms(3,4) by auto
  then show ?thesis by (auto simp: page_view_eq_iff set_owner_def map_of_update)
qed

lemma set_owner_logged:
  assumes inv: "ix_inv ix" and e: "map_of (ix_context_epoch ix) c = Some e"
    and "finite hs" and "ks \<subseteq> hs"
  shows "logged ix (touch t hs {c} {C_owner} (ix\<lparr>ix_pages := dmap_on ks (set_owner c e) (ix_pages ix),
           ix_context_pages := AList.update c v (ix_context_pages ix)\<rparr>))"
    and "ks \<subseteq> context_page_set ix c \<Longrightarrow> v = context_page_set ix c \<Longrightarrow>
         logged ix (ix\<lparr>ix_pages := dmap_on ks (set_owner c e) (ix_pages ix),
           ix_context_pages := AList.update c v (ix_context_pages ix)\<rparr>)"
proof -
  let ?ix = "ix\<lparr>ix_pages := dmap_on ks (set_owner c e) (ix_pages ix),
    ix_context_pages := AList.update c v (ix_context_pages ix)\<rparr>"
  have cv: "context_view ?ix c' = (if c' = c then (Some e, map_of (ix_context_workflow ix) c, v)
      else context_view ix c')" for c'
    by (simp add: context_view_def context_page_set_def dict_get_update e)
  show "logged ix (touch t hs {c} {C_owner} ?ix)"
    by (rule logged_touch) (use assms cv in \<open>auto simp: views_def map_of_dmap_on\<close>)
  show "logged ix ?ix" if "ks \<subseteq> context_page_set ix c" "v = context_page_set ix c"
  proof (rule logged_quiet)
    show "views ?ix = views ix"
      using that(1) set_owner_view [OF inv _ e] views_dmap_id [of ks ix "set_owner c e"] by auto
    show "context_view ?ix = context_view ix"
      using cv that(2) by (auto simp: fun_eq_iff context_view_def e)
  qed simp
qed

lemma bind_pages_logged:
  assumes step: "bind_pages c e hs replace ix = Inr ix'" and inv: "ix_inv ix"
  shows "logged ix ix'"
proof -
  from step obtain ps where ps: "rmap (require_page ix) hs = Inr ps"
    and e: "map_of (ix_context_epoch ix) c = Some e"
    by (auto simp: bind_pages_def validate_context_epoch_def context_epoch_def
        split: if_splits option.splits)
  let ?res = "pg_handle ` set ps"
  let ?ix1 = "if replace then unbind_context c ix else ix"
  let ?ix2 = "?ix1\<lparr>ix_pages := dmap_on ?res (set_owner c e) (ix_pages ?ix1),
      ix_context_pages := AList.update c (context_page_set ?ix1 c \<union> ?res) (ix_context_pages ?ix1)\<rparr>"
  have 1: "logged ix ?ix1" by (simp add: unbind_context_logged inv)
  have inv1: "ix_inv ?ix1" using inv by (simp add: unbind_context_inv)
  have e1: "map_of (ix_context_epoch ?ix1) c = Some e" using e by simp
  note o = set_owner_logged [OF inv1 e1]
  have fin: "finite (?res \<union> context_page_set ix c)" by (simp add: finite_context_page_set inv)
  have 2: "logged ?ix1 (touch False hs' {c} {C_owner} ?ix2)" if "finite hs'" "?res \<subseteq> hs'" for hs'
    by (rule o(1)) (rule that)+
  have 3: "logged ?ix1 ?ix2" if "?res \<subseteq> context_page_set ?ix1 c"
    by (rule o(2) [of ?res ?res]) (use that in auto)
  have "ix' = (if \<not> replace \<and> \<not> ?res \<subseteq> context_page_set ix c
               then touch False (?res \<union> context_page_set ix c) {c} {C_owner} ?ix2
               else if replace \<and> ?res \<noteq> {} then touch False ?res {c} {C_owner} ?ix2 else ?ix2)"
    using step ps by (cases "validate_context_epoch ix c e") (simp_all add: bind_pages_def Let_def)
  then have "logged ?ix1 ix'"
    using 2 [OF fin] 2 [of ?res] 3 by (auto split: if_split_asm)
  with 1 show ?thesis by (rule logged_trans)
qed

lemma update_context_epoch_logged:
  assumes step: "update_context_epoch c e ix = Inr ix'" and inv: "ix_inv ix"
  shows "logged ix ix'"
proof -
  let ?hs = "context_page_set ix c"
  let ?ix = "ix\<lparr>ix_context_epoch := AList.update c e (ix_context_epoch ix),
                ix_pages := dmap_on ?hs (set_owner c e) (ix_pages ix)\<rparr>"
  have cv: "context_view ?ix c' = context_view ix c'"
    if "c' \<noteq> c \<or> map_of (ix_context_epoch ix) c = Some e" for c'
    using that by (auto simp: context_view_def context_page_set_def map_of_update)
  have t: "logged ix (touch False ?hs {c} {C_context, C_owner} ?ix)"
    by (rule logged_touch)
      (use cv finite_context_page_set [OF inv] in \<open>auto simp: views_def map_of_dmap_on map_of_update\<close>)
  have quiet: "logged ix ?ix" if e: "map_of (ix_context_epoch ix) c = Some e"
  proof (rule logged_quiet)
    show "views ?ix = views ix"
      using set_owner_view [OF inv _ e] views_dmap_id [of ?hs ix "set_owner c e"] by (auto simp: views_def fun_eq_iff)
    show "context_view ?ix = context_view ix" using cv e by (simp add: fun_eq_iff)
  qed simp
  obtain e0 where "map_of (ix_context_epoch ix) c = Some e0"
    using step by (auto simp: update_context_epoch_def context_epoch_def split: option.splits)
  with step t quiet show ?thesis
    by (auto simp: update_context_epoch_def context_epoch_def Let_def split: if_split_asm)
qed

text \<open>Pinning and unpinning share the shape: rewrite the pins of the pages a context lists.\<close>

lemma pins_logged:
  assumes inv: "ix_inv ix" and ps: "context_pages ix c = Inr ps"
    and ix': "ix' = (if changed then touch False (pg_handle ` set ps) {c} {C_semantic_pin} ix1 else ix1)"
    and ix1: "ix1 = ix\<lparr>ix_pages := dmap_on (pg_handle ` set ps) f (ix_pages ix)\<rparr>"
    and f: "\<And>p. static_view (f p) = static_view p"
    and quiet: "\<And>p. \<not> changed \<Longrightarrow> p \<in> set ps \<Longrightarrow> f p = p"
  shows "logged ix ix'"
proof (cases changed)
  case True
  then show ?thesis
    unfolding ix' ix1 if_P [OF True] using f
    by (intro logged_pages) (auto simp: map_of_dmap_on statics_dmap)
next
  case False
  have "views ix1 = views ix"
    unfolding ix1
  proof (rule views_dmap_id)
    fix h p assume "h \<in> pg_handle ` set ps" "map_of (ix_pages ix) h = Some p"
    then have "p \<in> set ps" using context_pagesD(1) [OF inv ps] by fastforce
    with quiet [OF False] show "page_view (f p) = page_view p" by simp
  qed
  then have "logged ix ix1" by (intro logged_quiet) (simp_all add: ix1)
  with False ix' show ?thesis by simp
qed

lemma pin_context_logged:
  assumes "pin_context c ix = Inr ix'" and inv: "ix_inv ix"
  shows "logged ix ix'"
proof -
  from assms(1) obtain ps where ps: "context_pages ix c = Inr ps" by (auto simp: pin_context_def)
  show ?thesis
    by (rule pins_logged [OF inv ps, where changed = "\<exists>p \<in> set ps. c \<notin> pg_semantic_pin_contexts p"
          and f = "\<lambda>p. p\<lparr>pg_semantic_pin_contexts := insert c (pg_semantic_pin_contexts p)\<rparr>"])
      (use assms(1) ps in \<open>auto simp: pin_context_def Let_def static_view_def insert_absorb\<close>)
qed

lemma unpin_context_logged:
  assumes "unpin_context c ix = Inr ix'" and inv: "ix_inv ix"
  shows "logged ix ix'"
proof -
  from assms(1) obtain ps where ps: "context_pages ix c = Inr ps" by (auto simp: unpin_context_def)
  show ?thesis
    by (rule pins_logged [OF inv ps, where changed = "\<exists>p \<in> set ps. c \<in> pg_semantic_pin_contexts p"
          and f = "\<lambda>p. p\<lparr>pg_semantic_pin_contexts := pg_semantic_pin_contexts p - {c}\<rparr>"])
      (use assms(1) ps in \<open>auto simp: unpin_context_def Let_def static_view_def\<close>)
qed

lemma update_runtime_state_logged:
  assumes step: "update_runtime_state h res dep lk acc ix = Inr ix'"
  shows "logged ix ix'"
proof -
  let ?f = "\<lambda>p. p\<lparr>pg_residency := opt_or res (pg_residency p),
                  pg_radix_depth := opt_or dep (pg_radix_depth p),
                  pg_engine_lock_ref := opt_or lk (pg_engine_lock_ref p),
                  pg_last_access_ms := opt_or acc (pg_last_access_ms p)\<rparr>"
  let ?comps = "(if res \<noteq> None then {C_residency} else {}) \<union> (if dep \<noteq> None then {C_topology} else {})
      \<union> (if lk \<noteq> None then {C_lock} else {}) \<union> (if acc \<noteq> None then {C_access} else {})"
  from step obtain page where page: "require_page ix h = Inr page" by (auto simp: update_runtime_state_def)
  have guards: "\<not> (case dep of None \<Rightarrow> False | Some d \<Rightarrow> d < 0)" "\<not> (case lk of None \<Rightarrow> False | Some r \<Rightarrow> r < 0)"
    "\<not> (case acc of None \<Rightarrow> False | Some t \<Rightarrow> t < 0)"
    using step page by (simp_all add: update_runtime_state_def split: if_split_asm)
  let ?changed = "opt_differs res (pg_residency page) \<or> opt_differs dep (pg_radix_depth page) \<or>
      opt_differs lk (pg_engine_lock_ref page) \<or> opt_differs acc (pg_last_access_ms page)"
  let ?ix = "ix\<lparr>ix_pages := dmap_on {h} ?f (ix_pages ix)\<rparr>"
  have quiet: "logged ix ?ix" if "\<not> ?changed"
  proof -
    have "?f page = page"
      using that by (simp add: opt_or_same)
    then have "views ?ix = views ix"
      using page by (intro views_dmap_id) (auto simp: require_page_Inr)
    then show ?thesis by (intro logged_quiet) simp_all
  qed
  have loud: "logged ix (touch t {h} cs ?comps ?ix)" for t cs
  proof (rule logged_pages)
    have "statics ?ix = statics ix" if "dep = None"
      by (rule statics_dmap) (simp add: that opt_or_def static_view_def)
    then show "C_topology \<in> ?comps \<or> statics ?ix = statics ix" by auto
    show "?comps \<inter> {C_owner, C_context} = {}" by (simp add: Int_Un_distrib2)
  qed (simp_all add: map_of_dmap_on)
  have "update_runtime_state h res dep lk acc ix =
      Inr (if ?changed then touch (opt_differs dep (pg_radix_depth page)) {h}
        (set (map fst (pg_owner_contexts page))) ?comps ?ix else ?ix)"
    by (simp only: update_runtime_state_def page rbind_simps Let_def with_page_def guards if_False)
  with step have "ix' = (if ?changed then touch (opt_differs dep (pg_radix_depth page)) {h}
        (set (map fst (pg_owner_contexts page))) ?comps ?ix else ?ix)" by (simp only: sum.inject)
  with quiet loud show ?thesis by presburger
qed

lemmas op_logged = register_context_logged register_page_logged bind_pages_logged
  unbind_context_logged update_context_epoch_logged free_logged set_parent_logged
  lock_logged pin_context_logged unpin_context_logged transfer_logged drop_logged
  update_runtime_state_logged

lemma ix_step_logged: "ix_step ix ix' \<Longrightarrow> ix_inv ix \<Longrightarrow> logged ix ix'"
  by (erule ix_step.cases) (blast intro: op_logged)+

lemma run_logged: "rtranclp ix_step ix ix' \<Longrightarrow> ix_inv ix \<Longrightarrow> logged ix ix'"
proof (induction rule: rtranclp_induct)
  case (step y z)
  then show ?case by (blast intro: logged_trans ix_step_logged ix.run_inv)
qed simp

section \<open>The journal is the tail of the history\<close>

definition last_n :: "nat \<Rightarrow> 'a list \<Rightarrow> 'a list" where
  "last_n n xs = drop (length xs - n) xs"

definition history :: "mutation list \<Rightarrow> page_index \<Rightarrow> bool" where
  "history ms ix \<longleftrightarrow>
     chain 0 ms \<and> ix_revision ix = int (length ms) \<and> ix_mutation_journal ix = last_n journal_maxlen ms"

lemma last_n_snoc:
  assumes "0 < n"
  shows "drop (length (last_n n ms @ [m]) - n) (last_n n ms @ [m]) = last_n n (ms @ [m])"
proof (cases "length ms < n")
  case False
  with assms have "length (last_n n ms @ [m]) - n = 1" by (simp add: last_n_def)
  with False assms show ?thesis by (simp add: last_n_def Suc_diff_le)
qed (simp add: last_n_def)

lemma journal_append_last_n:
  "journal_append (last_n journal_maxlen ms) m = last_n journal_maxlen (ms @ [m])"
  unfolding journal_append_def Let_def by (rule last_n_snoc) (simp add: journal_maxlen_def)

lemma foldl_journal_append:
  "foldl journal_append (last_n journal_maxlen ms) ms' = last_n journal_maxlen (ms @ ms')"
proof (induction ms' arbitrary: ms)
  case (Cons m ms')
  show ?case using Cons.IH [of "ms @ [m]"] by (simp add: journal_append_last_n)
qed simp

lemma logs_history: "logs ms' ix ix' \<Longrightarrow> history ms ix \<Longrightarrow> history (ms @ ms') ix'"
  by (simp add: logs_def history_def chain_append foldl_journal_append)

lemma history_init: "history [] page_index_init"
  by (simp add: history_def page_index_init_def last_n_def)

lemma reachable_history:
  assumes "rtranclp ix_step page_index_init ix"
  obtains ms where "history ms ix"
  using run_logged [OF assms ix_inv_init] logs_history [OF _ history_init] by (auto simp: logged_def)

lemma chain_revisions:
  assumes "chain r ms"
  shows "m \<in> set ms \<Longrightarrow> r < mu_revision m \<and> mu_revision m \<le> r + int (length ms)"
    and "covered_revision ms r = (r + int (length ms), False)"
proof -
  show "m \<in> set ms \<Longrightarrow> r < mu_revision m \<and> mu_revision m \<le> r + int (length ms)"
    using assms by (induction ms arbitrary: r) (force simp: algebra_simps)+
  show "covered_revision ms r = (r + int (length ms), False)"
    using assms by (induction ms arbitrary: r) (simp_all add: algebra_simps)
qed

lemma last_n_append:
  "last_n n (ms @ ms') = (if length ms' \<le> n then last_n (n - length ms') ms @ ms' else last_n n ms')"
  by (simp add: last_n_def)

lemma takeWhile_all_append: "(\<forall>x \<in> set xs. P x) \<Longrightarrow> (\<forall>x \<in> set ys. \<not> P x) \<Longrightarrow> takeWhile P (xs @ ys) = xs"
  by (cases ys) (simp_all add: takeWhile_append2)

lemma set_last_n: "set (last_n n xs) \<subseteq> set xs"
  by (simp add: last_n_def set_drop_subset)

text \<open>Reading the journal back from an earlier revision gives the entries since then, cut to the
  length of the journal.\<close>

lemma mutations_since_history:
  assumes h: "history (ms @ ms') ix"
  shows "mutations_since (int (length ms)) ix = last_n journal_maxlen ms'"
proof -
  let ?r = "int (length ms)"
  have c: "chain 0 ms" "chain ?r ms'" using h by (simp_all add: history_def chain_append)
  have new: "\<not> mu_revision m \<le> ?r" if "m \<in> set (last_n journal_maxlen ms')" for m
    using chain_revisions(1) [OF c(2)] that set_last_n by fastforce
  have old: "mu_revision m \<le> ?r" if "m \<in> set (last_n n ms)" for m n
    using chain_revisions(1) [OF c(1)] that set_last_n by fastforce
  have "\<exists>n. last_n journal_maxlen (ms @ ms') = last_n n ms @ last_n journal_maxlen ms'"
  proof (cases "length ms' \<le> journal_maxlen")
    case True
    then have "last_n journal_maxlen ms' = ms'" by (simp add: last_n_def)
    with True show ?thesis by (auto simp: last_n_append)
  next
    case False
    then show ?thesis by (auto simp: last_n_append intro!: exI [of _ 0]) (simp add: last_n_def)
  qed
  then obtain n where n: "ix_mutation_journal ix = last_n n ms @ last_n journal_maxlen ms'"
    using h by (auto simp: history_def)
  show ?thesis
    unfolding mutations_since_def n rev_append
    by (subst takeWhile_all_append) (use new old in auto)
qed

end
