(* ===== verification/Page_Mirror.thy ===== *)
theory Page_Mirror
  imports Page_Journal
begin

text \<open>
  A worker's mirror follows the page index: the delta read from the journal, applied to a mirror
  of an earlier state, gives a mirror of the present one, and the self-checks of
  \<open>apply_replica_delta\<close> pass.
\<close>

section \<open>Mirrors\<close>

text \<open>The latest generation of a page id is the largest one among the stored handles.\<close>

definition latest_ok :: "page_index \<Rightarrow> bool" where
  "latest_ok ix \<longleftrightarrow>
     (\<forall>h \<in> dom (map_of (ix_pages ix)). \<exists>g. map_of (ix_latest_generation ix) (page_id h) = Some g \<and>
        allocation_generation h \<le> g) \<and>
     (\<forall>i g. map_of (ix_latest_generation ix) i = Some g \<longrightarrow> PageHandle i g \<in> dom (map_of (ix_pages ix)))"

lemma latest_okD:
  assumes "latest_ok ix"
  shows "PageHandle i g \<in> dom (map_of (ix_pages ix)) \<Longrightarrow>
      \<exists>g'. map_of (ix_latest_generation ix) i = Some g' \<and> g \<le> g'"
    and "map_of (ix_latest_generation ix) i = Some g \<Longrightarrow> PageHandle i g \<in> dom (map_of (ix_pages ix))"
proof -
  show "\<exists>g'. map_of (ix_latest_generation ix) i = Some g' \<and> g \<le> g'"
    if "PageHandle i g \<in> dom (map_of (ix_pages ix))"
    using bspec [OF assms [unfolded latest_ok_def, THEN conjunct1] that] by simp
  show "map_of (ix_latest_generation ix) i = Some g \<Longrightarrow> PageHandle i g \<in> dom (map_of (ix_pages ix))"
    using assms unfolding latest_ok_def by blast
qed

lemma latest_ok_unique:
  assumes "latest_ok ix" and "latest_ok ix'" and "dom (map_of (ix_pages ix)) = dom (map_of (ix_pages ix'))"
  shows "map_of (ix_latest_generation ix) = map_of (ix_latest_generation ix')"
proof -
  have half: "map_of (ix_latest_generation b) i = Some g"
    if l: "latest_ok a" "latest_ok b" "dom (map_of (ix_pages a)) = dom (map_of (ix_pages b))"
      "map_of (ix_latest_generation a) i = Some g" for a b i g
  proof -
    have "PageHandle i g \<in> dom (map_of (ix_pages b))" using latest_okD(2) [OF l(1,4)] l(3) by simp
    then obtain g' where g': "map_of (ix_latest_generation b) i = Some g'" "g \<le> g'"
      using latest_okD(1) [OF l(2)] by blast
    then have "PageHandle i g' \<in> dom (map_of (ix_pages a))" using latest_okD(2) [OF l(2)] l(3) by simp
    then have "g' \<le> g" using latest_okD(1) [OF l(1)] l(4) by fastforce
    with g' show ?thesis by simp
  qed
  show ?thesis
  proof
    fix i show "map_of (ix_latest_generation ix) i = map_of (ix_latest_generation ix') i"
      using half [OF assms, of i] half [OF assms(2,1) assms(3) [symmetric], of i]
      by (cases "map_of (ix_latest_generation ix) i"; cases "map_of (ix_latest_generation ix') i") auto
  qed
qed

definition same_handles :: "page_index \<Rightarrow> page_index \<Rightarrow> bool" where
  "same_handles ix ix' \<longleftrightarrow> map fst (ix_pages ix') = map fst (ix_pages ix) \<and>
     ix_latest_generation ix' = ix_latest_generation ix"

lemma same_handles_latest:
  assumes "same_handles ix ix'" and "latest_ok ix"
  shows "latest_ok ix'"
proof -
  have "fst ` set (ix_pages ix') = fst ` set (ix_pages ix)"
    using assms(1) by (metis same_handles_def image_set)
  with assms show ?thesis by (simp add: same_handles_def latest_ok_def dom_map_of_conv_image_fst)
qed

lemma same_handles_simps [simp]:
  "same_handles ix ix"
  "same_handles ix (ix'\<lparr>ix_pages := dmap_on ks f d\<rparr>) \<longleftrightarrow> same_handles ix (ix'\<lparr>ix_pages := d\<rparr>)"
  "same_handles ix (ix'\<lparr>ix_context_pages := v3\<rparr>) \<longleftrightarrow> same_handles ix ix'"
  "same_handles ix (ix'\<lparr>ix_context_epoch := v4\<rparr>) \<longleftrightarrow> same_handles ix ix'"
  "same_handles ix (ix'\<lparr>ix_context_workflow := v5\<rparr>) \<longleftrightarrow> same_handles ix ix'"
  "same_handles ix (touch t hs cs comps ix') \<longleftrightarrow> same_handles ix ix'"
  "same_handles ix (with_page h f ix') \<longleftrightarrow> same_handles ix ix'"
  "same_handles ix (touch_transfer h p comps f ix') \<longleftrightarrow> same_handles ix ix'"
  "same_handles ix (unbind_context c ix') \<longleftrightarrow> same_handles ix ix'"
  by (simp_all add: same_handles_def with_page_def touch_transfer_def unbind_context_def Let_def)

lemma same_handles_ops:
  "register_context c w e ix = Inr ix' \<Longrightarrow> same_handles ix ix'"
  "bind_pages c e hs replace ix = Inr ix' \<Longrightarrow> same_handles ix ix'"
  "update_context_epoch c e ix = Inr ix' \<Longrightarrow> same_handles ix ix'"
  "free_page h ix = Inr ix' \<Longrightarrow> same_handles ix ix'"
  "invalidate_page h ix = Inr ix' \<Longrightarrow> same_handles ix ix'"
  "set_engine_lock h v ix = Inr ix' \<Longrightarrow> same_handles ix ix'"
  "set_active_readers h v ix = Inr ix' \<Longrightarrow> same_handles ix ix'"
  "pin_context c ix = Inr ix' \<Longrightarrow> same_handles ix ix'"
  "unpin_context c ix = Inr ix' \<Longrightarrow> same_handles ix ix'"
  "begin_transfer h d ix = Inr ix' \<Longrightarrow> same_handles ix ix'"
  "complete_transfer h d k ix = Inr ix' \<Longrightarrow> same_handles ix ix'"
  "abort_transfer h ix = Inr ix' \<Longrightarrow> same_handles ix ix'"
  "commit_cpu h ix = Inr ix' \<Longrightarrow> same_handles ix ix'"
  by (auto simp: register_context_def bind_pages_def update_context_epoch_def free_page_def invalidate_page_def
      detach_page_def set_engine_lock_def set_active_readers_def pin_context_def unpin_context_def
      begin_transfer_def complete_transfer_def abort_transfer_def commit_cpu_def Let_def
      split: if_split_asm option.splits transfer_direction.splits)

lemma same_handles_ops2:
  "drop_page h ix = Inr ix' \<Longrightarrow> same_handles ix ix'"
  "drop_host_copy h ix = Inr ix' \<Longrightarrow> same_handles ix ix'"
  "update_runtime_state h res dep lk acc ix = Inr ix' \<Longrightarrow> same_handles ix ix'"
  by (auto simp: drop_page_def drop_host_copy_def update_runtime_state_def Let_def
      split: if_split_asm intro: same_handles_ops)

lemma set_parent_handles: "set_parent h q ix = Inr ix' \<Longrightarrow> same_handles ix ix'"
  by (cases q) (auto simp: set_parent_def Let_def split: if_split_asm option.splits)

lemma register_page_keys:
  assumes "register_page h sz res dep par sealed acc ix = Inr ix'"
  shows "fst ` set (ix_pages ix') = insert h (fst ` set (ix_pages ix))"
proof -
  from assms have "map fst (ix_pages ix') =
      map fst (AList.update h (new_page h sz res dep par sealed acc) (ix_pages ix))"
    by (auto simp: register_page_def Let_def split: if_split_asm option.splits)
  from arg_cong [OF this, of set] show ?thesis by simp
qed

lemma register_page_latest:
  assumes step: "register_page h sz res dep par sealed acc ix = Inr ix'" and "latest_ok ix"
  shows "latest_ok ix'"
proof -
  from step have latest: "map_of (ix_latest_generation ix') =
      (map_of (ix_latest_generation ix))(page_id h \<mapsto> allocation_generation h)"
    by (auto simp: register_page_def Let_def map_of_update split: if_split_asm option.splits)
  have dom: "dom (map_of (ix_pages ix')) = insert h (dom (map_of (ix_pages ix)))"
    using register_page_keys [OF step] by (simp add: dom_map_of_conv_image_fst)
  have old: "g \<le> allocation_generation h" if "map_of (ix_latest_generation ix) (page_id h) = Some g" for g
    using step that by (auto simp: register_page_def Let_def split: if_split_asm)
  have h: "PageHandle (page_id h) (allocation_generation h) = h" by simp
  show ?thesis
    unfolding latest_ok_def dom latest
  proof (intro conjI ballI allI impI)
    fix k assume k: "k \<in> insert h (dom (map_of (ix_pages ix)))"
    show "\<exists>g. ((map_of (ix_latest_generation ix))(page_id h \<mapsto> allocation_generation h)) (page_id k) = Some g \<and>
        allocation_generation k \<le> g"
    proof (cases "k = h")
      case False
      with k obtain g where "map_of (ix_latest_generation ix) (page_id k) = Some g" "allocation_generation k \<le> g"
        using assms(2) unfolding latest_ok_def by blast
      with old show ?thesis by (auto intro: order_trans)
    qed simp
  next
    fix i g assume "((map_of (ix_latest_generation ix))(page_id h \<mapsto> allocation_generation h)) i = Some g"
    then show "PageHandle i g \<in> insert h (dom (map_of (ix_pages ix)))"
      using latest_okD(2) [OF assms(2), of i g] h by (auto split: if_split_asm)
  qed
qed

lemma ix_step_latest: "ix_step ix ix' \<Longrightarrow> latest_ok ix \<Longrightarrow> latest_ok ix'"
proof (erule ix_step.cases)
  fix c and ix1 :: page_index
  assume "ix = ix1" "ix' = unbind_context c ix1" "latest_ok ix"
  then show "latest_ok ix'" using same_handles_latest [of ix ix'] by simp
qed (blast intro: same_handles_latest same_handles_ops same_handles_ops2 set_parent_handles register_page_latest)+

interpretation ixl: invariant_machine ix_step latest_ok
  by unfold_locales (rule ix_step_latest)

lemma latest_ok_init: "latest_ok page_index_init"
  by (simp add: latest_ok_def page_index_init_def)

text \<open>A mirror agrees with the index on every view; only dictionary order, caches and its own
  journal may differ.\<close>

definition pages_keyed :: "page_index \<Rightarrow> bool" where
  "pages_keyed ix \<longleftrightarrow> dict_ok (ix_pages ix) \<and> dict_ok (ix_context_pages ix) \<and>
     (\<forall>h p. map_of (ix_pages ix) h = Some p \<longrightarrow> pg_handle p = h \<and> dict_ok (pg_owner_contexts p))"

definition mirror_of :: "page_index \<Rightarrow> page_index \<Rightarrow> bool" where
  "mirror_of m ix \<longleftrightarrow>
     pages_keyed m \<and> views m = views ix \<and> context_view m = context_view ix \<and>
     map_of (ix_latest_generation m) = map_of (ix_latest_generation ix) \<and>
     ix_revision m = ix_revision ix \<and> ix_topology_revision m = ix_topology_revision ix"

lemma ix_inv_keyed: "ix_inv ix \<Longrightarrow> pages_keyed ix"
  using page_ok_ix by (auto simp: pages_keyed_def ix_inv_def page_ok_def)

lemma mirror_of_self: "ix_inv ix \<Longrightarrow> mirror_of ix ix"
  by (simp add: mirror_of_def ix_inv_keyed)

lemma viewsE:
  assumes "views m = views ix" and "map_of (ix_pages m) h = Some p"
  obtains q where "map_of (ix_pages ix) h = Some q" and "page_view p = page_view q"
proof -
  have "views ix h = Some (page_view p)" using assms by (metis option.simps(9) views_def)
  with that show thesis by (auto simp: views_def)
qed

lemma views_proj:
  assumes "views m = views ix"
  shows "live_of (map_of (ix_pages m)) = live_of (map_of (ix_pages ix))"
    "parent_of (map_of (ix_pages m)) = parent_of (map_of (ix_pages ix))"
    "children_of (map_of (ix_pages m)) = children_of (map_of (ix_pages ix))"
    "owner_of (map_of (ix_pages m)) = owner_of (map_of (ix_pages ix))"
    "dom (map_of (ix_pages m)) = dom (map_of (ix_pages ix))"
proof -
  have v: "map_option page_view (map_of (ix_pages m) h) = map_option page_view (map_of (ix_pages ix) h)" for h
    using assms by (metis views_def)
  have each: "live_of (map_of (ix_pages m)) h = live_of (map_of (ix_pages ix)) h \<and>
    parent_of (map_of (ix_pages m)) h = parent_of (map_of (ix_pages ix)) h \<and>
    children_of (map_of (ix_pages m)) h = children_of (map_of (ix_pages ix)) h \<and>
    owner_of (map_of (ix_pages m)) h = owner_of (map_of (ix_pages ix)) h \<and>
    (h \<in> dom (map_of (ix_pages m)) \<longleftrightarrow> h \<in> dom (map_of (ix_pages ix)))" for h
    using v [of h] by (cases "map_of (ix_pages m) h"; cases "map_of (ix_pages ix) h")
      (auto simp: page_view_eq_iff)
  then show "live_of (map_of (ix_pages m)) = live_of (map_of (ix_pages ix))"
    "parent_of (map_of (ix_pages m)) = parent_of (map_of (ix_pages ix))"
    "children_of (map_of (ix_pages m)) = children_of (map_of (ix_pages ix))"
    "owner_of (map_of (ix_pages m)) = owner_of (map_of (ix_pages ix))"
    "dom (map_of (ix_pages m)) = dom (map_of (ix_pages ix))" by blast+
qed

lemma owners_ok_sets:
  assumes "\<And>c. dict_get d c {} = dict_get d' c {}"
  shows "owners_ok owner (map_of d) CE \<longleftrightarrow> owners_ok owner (map_of d') CE"
proof -
  have mem: "h \<in> dict_get d c {} \<longleftrightarrow> (\<exists>hs. map_of d c = Some hs \<and> h \<in> hs)" for h c and d :: "(string, page_handle set) dict"
    by (auto simp: dict_get_def split: option.split)
  have "owners_ok owner (map_of d) CE \<longleftrightarrow>
     (\<forall>c h. h \<in> dict_get d c {} \<longrightarrow> CE c \<noteq> None \<and> owner h c = CE c) \<and>
     (\<forall>h c. owner h c \<noteq> None \<longrightarrow> h \<in> dict_get d c {})" for d
    unfolding owners_ok_def mem by blast
  then show ?thesis by (simp add: assms)
qed

lemma context_view_eq:
  assumes "context_view m = context_view ix"
  shows "map_of (ix_context_epoch m) = map_of (ix_context_epoch ix)"
    "map_of (ix_context_workflow m) = map_of (ix_context_workflow ix)"
    "context_page_set m c = context_page_set ix c"
  using fun_cong [OF assms] by (auto simp: context_view_def)

text \<open>The invariant reads an index through its views, so mirrors inherit it.\<close>

lemma mirror_inv:
  assumes m: "mirror_of m ix" and inv: "ix_inv ix"
  shows "ix_inv m"
proof -
  have v: "views m = views ix" and c: "context_view m = context_view ix" and k: "pages_keyed m"
    and l: "map_of (ix_latest_generation m) = map_of (ix_latest_generation ix)"
    using m by (simp_all add: mirror_of_def)
  note proj = views_proj [OF v] and cv = context_view_eq [OF c]
  have "page_ok h p" if p: "map_of (ix_pages m) h = Some p" for h p
  proof -
    obtain q where q: "map_of (ix_pages ix) h = Some q" "page_view p = page_view q"
      using viewsE [OF v p] .
    have "dict_ok (pg_owner_contexts p)" using k p by (auto simp: pages_keyed_def)
    with page_ok_ix [OF inv q(1)] q(2) show ?thesis
      by (simp add: page_ok_def page_view_eq_iff dom_map_of_conv_image_fst [symmetric])
  qed
  moreover have "finite hs" if "map_of (ix_context_pages m) c = Some hs" for c hs
    using that cv(3) [of c] finite_context_page_set [OF inv, of c] by (simp add: context_page_set_def)
  moreover have "owners_ok (owner_of (map_of (ix_pages m))) (map_of (ix_context_pages m)) (map_of (ix_context_epoch m))"
    using owners_ok_sets [of "ix_context_pages m" "ix_context_pages ix"] cv(3) ix_inv_parts(5) [OF inv]
    by (simp add: proj cv context_page_set_def)
  ultimately show ?thesis
    using k ix_inv_parts(3,4) [OF inv]
    by (auto simp: ix_inv_def pages_inv_def contexts_ok_def pages_keyed_def proj l cv)
qed

section \<open>Applying a delta\<close>

lemma map_of_fold_update:
  "map_of (fold (\<lambda>(c, e). AList.update c e) xs d) = map_of d ++ map_of (rev xs)"
  by (induction xs arbitrary: d) (auto simp: map_of_update)

lemma dict_ok_fold_update: "dict_ok d \<Longrightarrow> dict_ok (fold (\<lambda>(c, e). AList.update c e) xs d)"
  by (induction xs arbitrary: d) auto

text \<open>A dictionary lookup sees the same pairs in whatever order they are stored.\<close>

lemma map_of_sort:
  assumes "dict_ok xs"
  shows "map_of (rev (sort xs)) = map_of xs"
proof -
  have "dict_ok (rev (sort xs))" using assms by (simp add: distinct_map)
  then show ?thesis
    using assms by (intro map_of_eqI) (auto simp: map_of_eq_Some_iff)
qed

lemma replace_page_effect:
  assumes ok: "page_ok h p" and k: "pages_keyed m" and gen: "0 \<le> allocation_generation h" and l: "latest_ok m"
  defines "m' \<equiv> replace_page (to_page_replica p) m"
  shows "pages_keyed m'" and "latest_ok m'" and "views m' = (views m)(h \<mapsto> page_view p)"
    and "context_view m' = context_view m" and "ix_revision m' = ix_revision m"
proof -
  define old where "old = (case map_of (ix_pages m) h of Some q \<Rightarrow> q
    | None \<Rightarrow> new_page h (pg_size_bytes p) (pg_residency p) 0 None True 0)"
  define q where "q = old\<lparr>pg_size_bytes := pg_size_bytes p, pg_residency := pg_residency p,
     pg_radix_depth := pg_radix_depth p, pg_parent := pg_parent p,
     pg_children := set (sorted_list_of_set (pg_children p)),
     pg_owner_contexts := fold (\<lambda>(c, e). AList.update c e) (sort (pg_owner_contexts p)) [],
     pg_engine_lock_ref := pg_engine_lock_ref p,
     pg_semantic_pin_contexts := set (sorted_list_of_set (pg_semantic_pin_contexts p)),
     pg_active_reader_count := pg_active_reader_count p, pg_sealed := pg_sealed p,
     pg_transfer_direction := pg_transfer_direction p, pg_last_access_ms := pg_last_access_ms p\<rparr>"
  have h: "pg_handle p = h" and fin: "finite (pg_children p)" "finite (pg_semantic_pin_contexts p)"
    and d: "dict_ok (pg_owner_contexts p)"
    using ok by (auto simp: page_ok_def intro: finite_subset)
  let ?g = "max (allocation_generation h) (dict_get (ix_latest_generation m) (page_id h) (-1))"
  have m': "m' = m\<lparr>ix_pages := AList.update h q (ix_pages m),
      ix_latest_generation := AList.update (page_id h) ?g (ix_latest_generation m)\<rparr>"
    by (simp add: m'_def replace_page_def to_page_replica_def h q_def old_def Let_def cong: option.case_cong)
  have "pg_handle old = h"
    using k by (auto simp: old_def pages_keyed_def new_page_def split: option.split)
  then have q: "pg_handle q = h" "dict_ok (pg_owner_contexts q)" "page_view q = page_view p"
    using h fin d by (simp_all add: q_def dict_ok_fold_update page_view_eq_iff map_of_fold_update map_of_sort)
  show "pages_keyed m'"
    using k q(1,2) by (auto simp: m' pages_keyed_def map_of_update)
  show "views m' = (views m)(h \<mapsto> page_view p)"
    by (auto simp: m' views_def map_of_update q(3) fun_eq_iff)
  show "context_view m' = context_view m" by (simp add: m')
  show "ix_revision m' = ix_revision m" by (simp add: m')
  show "latest_ok m'"
    unfolding latest_ok_def
  proof (intro conjI ballI allI impI)
    fix j assume "j \<in> dom (map_of (ix_pages m'))"
    then have "j = h \<or> j \<in> dom (map_of (ix_pages m))" by (auto simp: m' map_of_update split: if_split_asm)
    then show "\<exists>g. map_of (ix_latest_generation m') (page_id j) = Some g \<and> allocation_generation j \<le> g"
    proof
      assume "j \<in> dom (map_of (ix_pages m))"
      then obtain g where "map_of (ix_latest_generation m) (page_id j) = Some g" "allocation_generation j \<le> g"
        using l unfolding latest_ok_def by blast
      then show ?thesis by (auto simp: m' map_of_update dict_get_def)
    qed (simp add: m' map_of_update)
  next
    fix i g assume g: "map_of (ix_latest_generation m') i = Some g"
    show "PageHandle i g \<in> dom (map_of (ix_pages m'))"
    proof (cases "i = page_id h \<and> g = allocation_generation h")
      case True
      then have "PageHandle i g = h" by simp
      then show ?thesis by (simp add: m' map_of_update)
    next
      case False
      with g gen have "map_of (ix_latest_generation m) i = Some g"
        by (auto simp: m' map_of_update dict_get_def max_def split: if_split_asm option.splits)
      from latest_okD(2) [OF l this] show ?thesis by (auto simp: m' map_of_update)
    qed
  qed
qed

text \<open>The pages of a delta are pages of the source index under the requested handles.\<close>

definition valid_handles :: "page_index \<Rightarrow> bool" where
  "valid_handles ix \<longleftrightarrow> (\<forall>h \<in> fst ` set (ix_pages ix). 0 \<le> allocation_generation h)"

lemma set_stored_pages:
  assumes inv: "ix_inv t" and fin: "finite hs"
  shows "p \<in> set (stored_pages t hs) \<Longrightarrow> map_of (ix_pages t) (pg_handle p) = Some p"
    and "pg_handle ` set (stored_pages t hs) = hs \<inter> dom (map_of (ix_pages t))"
proof -
  have mem: "p \<in> set (stored_pages t hs) \<longleftrightarrow> (\<exists>h \<in> hs. map_of (ix_pages t) h = Some p)" for p
    using fin by (force simp: stored_pages_def List.map_filter_def)
  have key: "pg_handle p = h" if "map_of (ix_pages t) h = Some p" for h p
    using page_ok_ix [OF inv that] by (simp add: page_ok_def)
  show "p \<in> set (stored_pages t hs) \<Longrightarrow> map_of (ix_pages t) (pg_handle p) = Some p"
    using key by (auto simp: mem)
  show "pg_handle ` set (stored_pages t hs) = hs \<inter> dom (map_of (ix_pages t))"
  proof (intro equalityI subsetI)
    fix h assume "h \<in> hs \<inter> dom (map_of (ix_pages t))"
    then obtain p where "h \<in> hs" "map_of (ix_pages t) h = Some p" by blast
    then have "p \<in> set (stored_pages t hs)" "pg_handle p = h" using key by (auto simp: mem)
    then show "h \<in> pg_handle ` set (stored_pages t hs)" by blast
  next
    fix h assume "h \<in> pg_handle ` set (stored_pages t hs)"
    then obtain p h' where p: "h = pg_handle p" "h' \<in> hs" "map_of (ix_pages t) h' = Some p" by (auto simp: mem)
    with key [OF p(3)] show "h \<in> hs \<inter> dom (map_of (ix_pages t))" by auto
  qed
qed

lemma views_Some: "map_of (ix_pages t) h = Some p \<Longrightarrow> views t h = Some (page_view p)"
  by (simp add: views_def)

text \<open>Each of the three loops overwrites exactly the listed records with the source's.\<close>

lemma override_on_twice: "override_on (override_on f g A) g B = override_on f g (A \<union> B)"
  by (simp add: override_on_def fun_eq_iff)

lemma replace_pages_effect:
  assumes inv: "ix_inv t" and gen: "valid_handles t"
    and ps: "\<forall>p \<in> set ps. map_of (ix_pages t) (pg_handle p) = Some p"
    and m: "pages_keyed m" "latest_ok m"
  defines "m' \<equiv> fold replace_page (map to_page_replica ps) m"
  shows "pages_keyed m' \<and> latest_ok m' \<and> context_view m' = context_view m \<and> ix_revision m' = ix_revision m \<and>
    views m' = override_on (views m) (views t) (pg_handle ` set ps)"
  unfolding m'_def using ps m
proof (induction ps arbitrary: m)
  case (Cons p ps)
  let ?m = "replace_page (to_page_replica p) m"
  have p: "map_of (ix_pages t) (pg_handle p) = Some p" using Cons.prems by simp
  have "0 \<le> allocation_generation (pg_handle p)" using gen dict_key [OF p] unfolding valid_handles_def by blast
  note e = replace_page_effect [OF page_ok_ix [OF inv p] Cons.prems(2) this Cons.prems(3)]
  have "views ?m = override_on (views m) (views t) {pg_handle p}"
    unfolding e(3) using views_Some [OF p] by (auto simp: override_on_def fun_eq_iff)
  with Cons.IH [OF _ e(1,2)] Cons.prems(1) e(4,5) show ?case
    by (simp add: override_on_twice)
qed simp

lemma patch_page_effect:
  assumes inv: "ix_inv t" and p: "map_of (ix_pages t) (pg_handle p) = Some p" and k: "pages_keyed m"
    and s: "statics m (pg_handle p) = statics t (pg_handle p)"
  obtains m' where "patch_page (to_page_state_replica p) m = Inr m'" and "pages_keyed m'"
    and "same_handles m m'" and "context_view m' = context_view m" and "ix_revision m' = ix_revision m"
    and "views m' = override_on (views m) (views t) {pg_handle p}"
proof -
  let ?h = "pg_handle p"
  let ?f = "\<lambda>q. q\<lparr>pg_residency := pg_residency p, pg_engine_lock_ref := pg_engine_lock_ref p,
    pg_semantic_pin_contexts := set (sorted_list_of_set (pg_semantic_pin_contexts p)),
    pg_active_reader_count := pg_active_reader_count p, pg_transfer_direction := pg_transfer_direction p,
    pg_last_access_ms := pg_last_access_ms p\<rparr>"
  from s p obtain q where q: "map_of (ix_pages m) ?h = Some q" "static_view q = static_view p"
    by (auto simp: statics_def)
  have "finite (pg_semantic_pin_contexts p)"
    using page_ok_ix [OF inv p] by (auto simp: page_ok_def intro: finite_subset)
  with q(2) have v: "page_view (?f q) = page_view p" by (auto simp: page_view_eq_iff static_view_def)
  let ?m = "with_page ?h ?f m"
  have "patch_page (to_page_state_replica p) m = Inr ?m"
    using q(1) by (simp add: patch_page_def to_page_state_replica_def dict_in_def)
  moreover have "pages_keyed ?m"
    using k by (auto simp: pages_keyed_def with_page_def map_of_dmap_on split: if_split_asm)
  moreover have "views ?m = override_on (views m) (views t) {?h}"
    using q(1) v views_Some [OF p]
    by (auto simp: override_on_def fun_eq_iff views_def with_page_def map_of_dmap_on)
  ultimately show thesis by (intro that) (simp_all add: with_page_def)
qed

lemma patch_pages_effect:
  assumes inv: "ix_inv t" and ps: "\<forall>p \<in> set ps. map_of (ix_pages t) (pg_handle p) = Some p"
    and m: "pages_keyed m" "\<forall>p \<in> set ps. statics m (pg_handle p) = statics t (pg_handle p)"
  shows "\<exists>m'. patch_pages (map to_page_state_replica ps) m = (Inr (), m') \<and> pages_keyed m' \<and>
    same_handles m m' \<and> context_view m' = context_view m \<and> ix_revision m' = ix_revision m \<and>
    views m' = override_on (views m) (views t) (pg_handle ` set ps)"
  using ps m
proof (induction ps arbitrary: m)
  case (Cons p ps)
  obtain m1 where m1: "patch_page (to_page_state_replica p) m = Inr m1" "pages_keyed m1" "same_handles m m1"
    "context_view m1 = context_view m" "ix_revision m1 = ix_revision m"
    "views m1 = override_on (views m) (views t) {pg_handle p}"
    by (rule patch_page_effect [OF inv, of p m]) (use Cons.prems in simp_all)
  have "statics m1 (pg_handle q) = statics t (pg_handle q)" if "q \<in> set ps" for q
  proof (cases "pg_handle q = pg_handle p")
    case True
    then have "views m1 (pg_handle q) = views t (pg_handle q)" using m1(6) by (simp add: override_on_def)
    then show ?thesis by (rule views_statics)
  next
    case False
    then have "views m1 (pg_handle q) = views m (pg_handle q)" using m1(6) by (simp add: override_on_def)
    then have "statics m1 (pg_handle q) = statics m (pg_handle q)" by (rule views_statics)
    with Cons.prems(3) that show ?thesis by simp
  qed
  then obtain m2 where m2: "patch_pages (map to_page_state_replica ps) m1 = (Inr (), m2)" "pages_keyed m2" "same_handles m1 m2"
    "context_view m2 = context_view m1" "ix_revision m2 = ix_revision m1"
    "views m2 = override_on (views m1) (views t) (pg_handle ` set ps)"
    using Cons.IH [OF _ m1(2)] Cons.prems(1) by (metis list.set_intros(2))
  have "same_handles m m2" using m1(3) m2(3) by (simp add: same_handles_def)
  with m1 m2 show ?case by (simp add: override_on_twice)
qed simp

definition replica_of_context :: "page_index \<Rightarrow> string \<Rightarrow> context_replica" where
  "replica_of_context t c =
     \<lparr>cr_context_id = c, cr_workflow_id = the (map_of (ix_context_workflow t) c),
      cr_epoch = the (map_of (ix_context_epoch t) c),
      cr_handles = sorted_list_of_set (context_page_set t c)\<rparr>"

lemma to_context_replica_known:
  assumes "ix_inv t" and "c \<in> dom (map_of (ix_context_epoch t))"
  shows "to_context_replica t c = Inr (replica_of_context t c)"
proof -
  have "c \<in> dom (map_of (ix_context_workflow t))" using assms by (simp add: ix_inv_def contexts_ok_def)
  with assms(2) show ?thesis by (auto simp: to_context_replica_def replica_of_context_def dict_item_def)
qed

lemma replace_contexts_effect:
  assumes inv: "ix_inv t" and cs: "set cs \<subseteq> dom (map_of (ix_context_epoch t))" and k: "pages_keyed m"
  defines "m' \<equiv> fold replace_context (map (replica_of_context t) cs) m"
  shows "pages_keyed m' \<and> views m' = views m \<and> same_handles m m' \<and> ix_revision m' = ix_revision m \<and>
    context_view m' = override_on (context_view m) (context_view t) (set cs)"
  unfolding m'_def using cs k
proof (induction cs arbitrary: m)
  case (Cons c cs)
  let ?m = "replace_context (replica_of_context t c) m"
  have "c \<in> dom (map_of (ix_context_workflow t))"
    using Cons.prems(1) inv by (simp add: ix_inv_def contexts_ok_def)
  then have v: "context_view ?m = override_on (context_view m) (context_view t) {c}"
    using Cons.prems(1) finite_context_page_set [OF inv, of c]
    by (auto simp: fun_eq_iff override_on_def context_view_def context_page_set_def replace_context_def
        replica_of_context_def map_of_update dict_get_update)
  have "pages_keyed ?m" using Cons.prems(2) by (simp add: pages_keyed_def replace_context_def)
  with Cons.IH [of ?m] Cons.prems(1) v show ?case
    by (simp add: override_on_twice) (simp add: replace_context_def same_handles_def)
qed simp

lemma finish_delta_sel [simp]:
  "views (finish_delta d ix) = views ix" "context_view (finish_delta d ix) = context_view ix"
  "same_handles ix0 (finish_delta d ix) = same_handles ix0 ix" "pages_keyed (finish_delta d ix) = pages_keyed ix"
  "ix_revision (finish_delta d ix) = rd_to_revision d"
  "ix_topology_revision (finish_delta d ix) = rd_topology_revision d"
  by (simp_all add: finish_delta_def Let_def views_def context_view_def context_page_set_def same_handles_def
      pages_keyed_def fun_eq_iff)

lemma set_sorted_subset: "x \<in> set (sorted_list_of_set A) \<Longrightarrow> x \<in> A"
  by (cases "finite A") simp_all

lemma assert_delta_context_ok:
  assumes inv: "ix_inv ix" and c: "c \<in> dom (map_of (ix_context_epoch ix))"
  shows "assert_delta_context ix c = Inr ()"
proof -
  have "(case map_of (ix_pages ix) h of None \<Rightarrow> Inl (AssertionError ''context references a missing page'')
       | Some _ \<Rightarrow> assert_context_page ix c h) = Inr ()" if h: "h \<in> context_page_set ix c" for h
  proof -
    obtain p where "map_of (ix_pages ix) h = Some p" using context_page_owned [OF inv h] by blast
    then show ?thesis using assert_context_page_ok [OF inv h] by simp
  qed
  then have "\<forall>h \<in> set (sorted_list_of_set (context_page_set ix c)).
      (case map_of (ix_pages ix) h of None \<Rightarrow> Inl (AssertionError ''context references a missing page'')
       | Some _ \<Rightarrow> assert_context_page ix c h) = Inr ()"
    using set_sorted_subset by metis
  then show ?thesis
    using c by (simp add: assert_delta_context_def rbind_eq_Inr rfold_unit dict_in_def domIff)
qed

lemma assert_delta_ok:
  assumes inv: "ix_inv ix" and cs: "rd_changed_context_ids d \<subseteq> dom (map_of (ix_context_epoch ix))"
  shows "assert_delta_consistent d ix = Inr ()"
proof -
  have "delta_contexts ix (rd_changed_handles d) \<subseteq> dom (map_of (ix_context_epoch ix))"
    unfolding delta_contexts_def using owner_context_known [OF inv] by (intro UN_least) (simp split: option.split)
  with cs have "rd_changed_context_ids d \<union> delta_contexts ix (rd_changed_handles d) \<subseteq> dom (map_of (ix_context_epoch ix))"
    by simp
  then have "\<forall>c \<in> set (sorted_list_of_set (rd_changed_context_ids d \<union> delta_contexts ix (rd_changed_handles d))).
      assert_delta_context ix c = Inr ()"
    using assert_delta_context_ok [OF inv] set_sorted_subset by (metis subsetD)
  moreover have "(case map_of (ix_pages ix) h of None \<Rightarrow> Inr () | Some p \<Rightarrow> assert_page ix p) = Inr ()" for h
    using assert_page_ok [OF inv] by (simp split: option.split)
  ultimately show ?thesis
    by (simp add: assert_delta_consistent_def rbind_eq_Inr rfold_unit)
qed

text \<open>A delta applied to a mirror in which everything outside the delta is already current.\<close>

lemma apply_delta_mirror:
  assumes inv: "ix_inv t" and gen: "valid_handles t" and l: "latest_ok t"
    and rev: "rd_from_revision d = ix_revision m" "rd_from_revision d \<le> rd_to_revision d"
      "rd_to_revision d = ix_revision t" "rd_topology_revision d = ix_topology_revision t"
    and base: "base = (if rd_full_rebuild_required d then clear_mirror m else m)" "pages_keyed base" "latest_ok base"
    and F: "finite F" "rd_pages d = map to_page_replica (stored_pages t F)"
    and S: "finite S" "rd_page_states d = map to_page_state_replica (stored_pages t S)" "F \<inter> S = {}"
    and C: "rd_contexts d = map (replica_of_context t) cs" "set cs \<subseteq> dom (map_of (ix_context_epoch t))"
      "rd_changed_context_ids d \<subseteq> dom (map_of (ix_context_epoch t))"
    and old_static: "\<And>h. h \<in> S \<Longrightarrow> statics base h = statics t h"
    and old_pages: "\<And>h. h \<notin> (F \<union> S) \<inter> dom (map_of (ix_pages t)) \<Longrightarrow> views base h = views t h"
    and old_contexts: "\<And>c. c \<notin> set cs \<Longrightarrow> context_view base c = context_view t c"
  shows "\<exists>m'. apply_replica_delta d full m = (Inr (), m') \<and> mirror_of m' t"
proof -
  note sp = set_stored_pages [OF inv]
  define m2 where "m2 = fold replace_page (rd_pages d) base"
  have m2: "pages_keyed m2" "latest_ok m2" "context_view m2 = context_view base"
    "views m2 = override_on (views base) (views t) (F \<inter> dom (map_of (ix_pages t)))"
    using replace_pages_effect [OF inv gen _ base(2,3), of "stored_pages t F"] sp [OF F(1)]
    by (simp_all add: m2_def F(2))
  have "statics m2 (pg_handle p) = statics t (pg_handle p)" if "p \<in> set (stored_pages t S)" for p
  proof -
    have p: "pg_handle p \<in> S" using sp(2) [OF S(1)] that by blast
    with S(3) have "pg_handle p \<notin> F" by blast
    then have "views m2 (pg_handle p) = views base (pg_handle p)" using m2(4) by (simp add: override_on_def)
    from views_statics [OF this] old_static [OF p] show ?thesis by simp
  qed
  then obtain m3 where m3: "patch_pages (rd_page_states d) m2 = (Inr (), m3)" "pages_keyed m3" "same_handles m2 m3"
    "context_view m3 = context_view m2"
    "views m3 = override_on (views m2) (views t) (S \<inter> dom (map_of (ix_pages t)))"
    using patch_pages_effect [OF inv _ m2(1), of "stored_pages t S"] sp [OF S(1)] S(2) by auto
  define m4 where "m4 = fold replace_context (rd_contexts d) m3"
  have m4: "pages_keyed m4" "views m4 = views m3" "same_handles m3 m4"
    "context_view m4 = override_on (context_view m3) (context_view t) (set cs)"
    using replace_contexts_effect [OF inv C(2) m3(2)] by (simp_all add: m4_def C(1))
  define m5 where "m5 = finish_delta d m4"
  have v: "views m5 = views t"
    using old_pages by (auto simp: m5_def m4(2) m3(5) m2(4) override_on_def fun_eq_iff)
  have c: "context_view m5 = context_view t"
    using old_contexts by (auto simp: m5_def m4(4) m3(4) m2(3) override_on_def fun_eq_iff)
  have "latest_ok m5"
    using same_handles_latest [OF _ m2(2), of m5] m3(3) m4(3) by (simp add: m5_def same_handles_def finish_delta_def Let_def)
  from latest_ok_unique [OF this l views_proj(5) [OF v]] have mirror: "mirror_of m5 t"
    using v c m4(1) rev by (simp add: mirror_of_def m5_def)
  have inv5: "ix_inv m5" by (rule mirror_inv [OF mirror inv])
  have "assert_delta_consistent d m5 = Inr ()"
    using assert_delta_ok [OF inv5, of d] C(3) context_view_eq(1) [OF c] by simp
  with ix_inv_assert_consistent [OF inv5]
  have "apply_replica_delta d full m = (Inr (), m5)"
    using rev m3(1) by (simp add: apply_replica_delta_def Let_def base(1) [symmetric] m2_def [symmetric] m4_def [symmetric] m5_def [symmetric])
  with mirror show ?thesis by blast
qed

section \<open>Reading the delta\<close>

lemma chain_nth: "chain r ms \<Longrightarrow> i < length ms \<Longrightarrow> mu_from_revision (ms ! i) = r + int i"
proof (induction ms arbitrary: r i)
  case (Cons m ms)
  then show ?case by (cases i) auto
qed simp

text \<open>Exactly when more entries were written than the journal holds, the reader meets a gap.\<close>

lemma covered_last_n:
  assumes c: "chain r ms" and ne: "ms \<noteq> []"
  shows "(case covered_revision (last_n journal_maxlen ms) r of (covered, gap) \<Rightarrow>
      last_n journal_maxlen ms = [] \<or> gap \<or> covered \<noteq> r + int (length ms)) \<longleftrightarrow> journal_maxlen < length ms"
proof (cases "length ms \<le> journal_maxlen")
  case True
  then have "last_n journal_maxlen ms = ms" by (simp add: last_n_def)
  with True ne chain_revisions(2) [OF c] show ?thesis by simp
next
  case False
  let ?n = "length ms - journal_maxlen"
  have n: "0 < ?n" "?n < length ms" using False by (simp_all add: journal_maxlen_def)
  have e: "last_n journal_maxlen ms = ms ! ?n # drop (Suc ?n) ms"
    using n(2) by (simp add: last_n_def Cons_nth_drop_Suc)
  have "r < mu_from_revision (ms ! ?n)" using chain_nth [OF c n(2)] n(1) by linarith
  then show ?thesis unfolding e using False by (simp add: not_le)
qed

lemma changes_since_history:
  assumes h: "history (as @ ms) t"
  shows "changes_since (int (length as)) t =
    Inr \<lparr>ch_from_revision = int (length as), ch_to_revision = ix_revision t,
         ch_topology_revision = ix_topology_revision t,
         ch_handles = logged_handles (last_n journal_maxlen ms),
         ch_context_ids = \<Union> (mu_context_ids ` set (last_n journal_maxlen ms)),
         ch_components = \<Union> (mu_components ` set (last_n journal_maxlen ms)),
         ch_full_rebuild_required = (journal_maxlen < length ms)\<rparr>"
proof (cases "ms = []")
  case True
  then show ?thesis using h by (simp add: changes_since_def history_def last_n_def)
next
  case False
  have r: "ix_revision t = int (length as) + int (length ms)" and c: "chain (int (length as)) ms"
    using h by (simp_all add: history_def chain_append)
  show ?thesis
    using False r covered_last_n [OF c False]
    by (simp add: changes_since_def mutations_since_history [OF h] logged_handles_def case_prod_unfold Let_def)
qed

lemma clear_mirror_empty:
  "pages_keyed (clear_mirror m)" "latest_ok (clear_mirror m)" "views (clear_mirror m) h = None"
  "context_view (clear_mirror m) c = (None, None, {})"
  by (simp_all add: clear_mirror_def pages_keyed_def latest_ok_def views_def context_view_def
      context_page_set_def dict_get_def)

lemma unknown_context:
  assumes "ix_inv t" and "c \<notin> dom (map_of (ix_context_epoch t))"
  shows "context_view t c = (None, None, {})"
proof -
  have "c \<notin> dom (map_of (ix_context_workflow t))" using assms by (simp add: ix_inv_def contexts_ok_def)
  moreover have "context_page_set t c = {}" using context_page_owned [OF assms(1)] assms(2) by blast
  ultimately show ?thesis using assms(2) by (simp add: context_view_def domIff)
qed

text \<open>A full delta rebuilds the mirror from nothing.\<close>

lemma full_delta_mirror:
  assumes inv: "ix_inv t" and gen: "valid_handles t" and l: "latest_ok t"
    and ch: "changes_since (ix_revision m) t = Inr changes"
    and full: "ix_revision m = 0 \<or> ch_full_rebuild_required changes" and r: "ix_revision m \<le> ix_revision t"
  shows "\<exists>d m'. replica_delta_since (ix_revision m) t = Inr d \<and> rd_full_rebuild_required d \<and>
    apply_replica_delta d v m = (Inr (), m') \<and> mirror_of m' t"
proof -
  let ?F = "fst ` set (ix_pages t)" and ?cs = "sorted_list_of_set (fst ` set (ix_context_epoch t))"
  have E: "fst ` set (ix_context_epoch t) = dom (map_of (ix_context_epoch t))"
    by (simp add: dom_map_of_conv_image_fst)
  have "rmap (to_context_replica t) (filter (\<lambda>c. dict_in c (ix_context_epoch t)) ?cs) =
      Inr (map (replica_of_context t) ?cs)"
    using to_context_replica_known [OF inv] by (subst filter_True) (auto simp: dict_in_iff E finite_dom_map_of intro!: rmap_total)
  then obtain d where d: "replica_delta_since (ix_revision m) t = Inr d"
    and sel: "rd_from_revision d = ix_revision m" "rd_to_revision d = ix_revision t"
      "rd_topology_revision d = ix_topology_revision t" "rd_full_rebuild_required d"
      "rd_pages d = map to_page_replica (stored_pages t ?F)"
      "rd_page_states d = map to_page_state_replica (stored_pages t {})"
      "rd_contexts d = map (replica_of_context t) ?cs" "rd_changed_context_ids d = dom (map_of (ix_context_epoch t))"
    using ch full by (auto simp: replica_delta_since_def Let_def E)
  have "\<exists>m'. apply_replica_delta d v m = (Inr (), m') \<and> mirror_of m' t"
  proof (rule apply_delta_mirror [OF inv gen l, where F = ?F and S = "{}" and cs = ?cs and base = "clear_mirror m"])
    show "views (clear_mirror m) h = views t h" if "h \<notin> (?F \<union> {}) \<inter> dom (map_of (ix_pages t))" for h
      using that views_dom(1) [of t h] by (simp add: clear_mirror_empty dom_map_of_conv_image_fst)
    show "context_view (clear_mirror m) c = context_view t c" if "c \<notin> set ?cs" for c
      using that unknown_context [OF inv] by (simp add: clear_mirror_empty E finite_dom_map_of)
  qed (use sel r clear_mirror_empty in \<open>simp_all add: E finite_dom_map_of\<close>)
  with d sel(4) show ?thesis by blast
qed

text \<open>Pages are never removed from the table.\<close>

lemma ix_step_pages_grow: "ix_step ix ix' \<Longrightarrow> fst ` set (ix_pages ix) \<subseteq> fst ` set (ix_pages ix')"
proof (erule ix_step.cases)
  have same: "fst ` set (ix_pages ix) \<subseteq> fst ` set (ix_pages ix')" if "same_handles ix ix'"
    using that by (metis image_set order_refl same_handles_def)
  fix c and ix1 :: page_index
  assume "ix = ix1" "ix' = unbind_context c ix1"
  then show "fst ` set (ix_pages ix) \<subseteq> fst ` set (ix_pages ix')" by (intro same) simp
qed (metis (no_types, lifting) image_set order_refl same_handles_def same_handles_ops same_handles_ops2
    set_parent_handles register_page_keys subset_insertI)+

interpretation ixp: monotone_machine ix_step latest_ok "\<lambda>ix. fst ` set (ix_pages ix)"
  by unfold_locales (rule ix_step_pages_grow)

text \<open>An incremental delta carries what the journal covers.\<close>

lemma incremental_delta_mirror:
  assumes inv: "ix_inv t" and gen: "valid_handles t" and l: "latest_ok t" "latest_ok s"
    and grow: "fst ` set (ix_pages s) \<subseteq> fst ` set (ix_pages t)"
    and h: "history (as @ ms) t" and r: "ix_revision s = int (length as)" "ix_revision s \<noteq> 0"
    and short: "length ms \<le> journal_maxlen" and cov: "covers ms s t" and m: "mirror_of m s"
  shows "\<exists>d m'. replica_delta_since (ix_revision m) t = Inr d \<and> \<not> rd_full_rebuild_required d \<and>
    apply_replica_delta d v m = (Inr (), m') \<and> mirror_of m' t"
proof -
  let ?F = "carried_handles ms" and ?S = "logged_handles ms - carried_handles ms"
  let ?cs = "sorted_list_of_set (carried_contexts ms)"
  have all: "last_n journal_maxlen ms = ms" using short by (simp add: last_n_def)
  have m': "ix_revision m = int (length as)" "views m = views s" "context_view m = context_view s"
    using m r by (simp_all add: mirror_of_def)
  note ch = changes_since_history [OF h, unfolded all] and mu = mutations_since_history [OF h, unfolded all]
  note cov' = cov [unfolded covers_def]
  have C: "carried_contexts ms \<subseteq> dom (map_of (ix_context_epoch t))" using cov' by blast
  then have fin: "finite (carried_contexts ms)" using finite_dom_map_of by (rule finite_subset)
  have finF: "finite ?F" using cov' by (auto simp: carried_handles_def logged_handles_def elim!: finite_subset [rotated])
  have "rmap (to_context_replica t) (filter (\<lambda>c. dict_in c (ix_context_epoch t)) ?cs) =
      Inr (map (replica_of_context t) ?cs)"
    using to_context_replica_known [OF inv] C fin
    by (subst filter_True) (auto simp: dict_in_def subset_iff intro!: rmap_total)
  then obtain d where d: "replica_delta_since (ix_revision m) t = Inr d"
    and sel: "rd_from_revision d = ix_revision m" "rd_to_revision d = ix_revision t"
      "rd_topology_revision d = ix_topology_revision t" "\<not> rd_full_rebuild_required d"
      "rd_pages d = map to_page_replica (stored_pages t ?F)"
      "rd_page_states d = map to_page_state_replica (stored_pages t ?S)"
      "rd_contexts d = map (replica_of_context t) ?cs" "rd_changed_context_ids d = carried_contexts ms"
    using r m'(1) short by (simp add: replica_delta_since_def ch mu Let_def carried_handles_def
        carried_contexts_def not_less)
  have "\<exists>m'. apply_replica_delta d v m = (Inr (), m') \<and> mirror_of m' t"
  proof (rule apply_delta_mirror [OF inv gen l(1), where F = ?F and S = ?S and cs = ?cs and base = m])
    have "map_of (ix_latest_generation m) = map_of (ix_latest_generation s)"
      "dom (map_of (ix_pages m)) = dom (map_of (ix_pages s))"
      using m views_proj(5) [OF m'(2)] by (simp_all add: mirror_of_def)
    with l(2) show "latest_ok m" by (simp add: latest_ok_def)
    fix h
    show "statics m h = statics t h" if "h \<in> ?S"
      using that cov' views_statics [of m h s] m'(2) by auto
    show "views m h = views t h" if out: "h \<notin> (?F \<union> ?S) \<inter> dom (map_of (ix_pages t))"
    proof (cases "h \<in> logged_handles ms")
      case True
      with out have "h \<notin> fst ` set (ix_pages t)" by (auto simp: dom_map_of_conv_image_fst)
      with grow have "views t h = None" "views s h = None" by (auto simp: views_dom dom_map_of_conv_image_fst)
      with m'(2) show ?thesis by simp
    qed (use cov' m'(2) in auto)
  qed (use sel m m' r h C fin finF cov' in \<open>auto simp: mirror_of_def history_def\<close>)
  with d sel(4) show ?thesis by blast
qed

text \<open>Everything a worker needs to know of a source between two synchronisations.\<close>

lemma run_history:
  assumes "rtranclp ix_step page_index_init s" and "rtranclp ix_step s t"
  obtains as ms where "history as s" and "history (as @ ms) t" and "covers ms s t"
proof -
  obtain as where as: "history as s" using reachable_history [OF assms(1)] .
  obtain ms where ms: "logs ms s t"
    using run_logged [OF assms(2) ix_reachable_inv [OF assms(1)]] by (auto simp: logged_def)
  show thesis by (rule that [OF as logs_history [OF ms as]]) (use ms in \<open>simp add: logs_def\<close>)
qed

lemma delta_mirror:
  assumes s: "rtranclp ix_step page_index_init s" and run: "rtranclp ix_step s t"
    and m: "mirror_of m s" and gen: "valid_handles t"
  shows "\<exists>d m'. replica_delta_since (ix_revision s) t = Inr d \<and>
    (rd_full_rebuild_required d \<longleftrightarrow> ix_revision s = 0 \<or> ix_revision t - ix_revision s > int journal_maxlen) \<and>
    apply_replica_delta d v m = (Inr (), m') \<and> mirror_of m' t"
proof -
  have t: "rtranclp ix_step page_index_init t" using s run by (rule rtranclp_trans)
  note inv = ix_reachable_inv [OF t] and latest = ixl.run_inv [OF _ latest_ok_init]
  note l = latest [OF t] latest [OF s]
  obtain as ms where h: "history as s" "history (as @ ms) t" and cov: "covers ms s t"
    using run_history [OF s run] .
  have r: "ix_revision s = int (length as)" "ix_revision t = int (length as) + int (length ms)"
    "ix_revision m = ix_revision s"
    using h m by (simp_all add: history_def mirror_of_def)
  show ?thesis
  proof (cases "ix_revision s = 0 \<or> journal_maxlen < length ms")
    case True
    then show ?thesis
      using full_delta_mirror [OF inv gen l(1), of m] changes_since_history [OF h(2)] r by auto
  next
    case False
    then show ?thesis
      using incremental_delta_mirror [OF inv gen l ixp.run_mono [OF run l(2)] h(2) r(1) _ _ cov m] r by auto
  qed
qed

section \<open>Properties\<close>

text \<open>C3. A worker's mirror refines the page index: from any synchronised state, the delta since the
  mirror's revision exists, applying it succeeds (with the full or the incremental self-check), and
  the mirror then agrees with the current index on every page record, owner, context, page set,
  latest generation and revision, however many operations ran in between.\<close>

theorem mirror_follows_index:
  assumes "rtranclp ix_step page_index_init s" and "rtranclp ix_step s t"
    and "mirror_of m s" and "valid_handles t"
  shows "\<exists>d m'. replica_delta_since (ix_revision s) t = Inr d \<and>
    apply_replica_delta d full_validation m = (Inr (), m') \<and> mirror_of m' t"
  using delta_mirror [OF assms, of full_validation] by blast

lemma demo_mirror_run:
  "rtranclp ix_step page_index_init demo_ix3" "rtranclp ix_step demo_ix3 demo_ix"
  "mirror_of demo_ix3 demo_ix3" "valid_handles demo_ix" "ix_revision demo_ix3 = 3" "ix_revision demo_ix = 4"
proof -
  have "ix_step page_index_init demo_ix1"
    by (rule ix_step.register_context [OF demo_ok(1)]) (simp add: index_eval)
  moreover have "ix_step demo_ix1 demo_ix2" "ix_step demo_ix2 demo_ix3"
    by (rule ix_step.register_page [OF demo_ok(2)], simp) (rule ix_step.register_page [OF demo_ok(3)], simp)
  ultimately show r: "rtranclp ix_step page_index_init demo_ix3"
    by (meson rtranclp.rtrancl_into_rtrancl rtranclp.rtrancl_refl)
  show "rtranclp ix_step demo_ix3 demo_ix"
    using ix_step.bind_pages [OF demo_ok(4)] by (rule r_into_rtranclp)
  show "mirror_of demo_ix3 demo_ix3" by (rule mirror_of_self [OF ix_reachable_inv [OF r]])
  have "fst ` set (ix_pages demo_ix) = {PageHandle 1 0, PageHandle 2 0}"
    unfolding dom_map_of_conv_image_fst [symmetric] demo_pages by auto
  then show "valid_handles demo_ix" unfolding valid_handles_def by simp
  show "ix_revision demo_ix3 = 3" "ix_revision demo_ix = 4"
    by (simp_all add: demo_ix_def demo_ix3_def demo_ix2_def demo_ix1_def index_eval)
qed

theorem mirror_follows_index_witness:
  "\<exists>d m'. replica_delta_since 3 demo_ix = Inr d \<and>
    apply_replica_delta d False demo_ix3 = (Inr (), m') \<and> mirror_of m' demo_ix"
  using mirror_follows_index [OF demo_mirror_run(1-4), of False] by (simp only: demo_mirror_run(5))

text \<open>The journal never holds more than 65536 entries, and a delta asks for a full rebuild
  exactly when the reader starts at revision 0 or is more than 65536 revisions behind.\<close>

theorem replica_delta_rebuild_bound:
  assumes "rtranclp ix_step page_index_init s" and "rtranclp ix_step s t" and "valid_handles t"
  shows "length (ix_mutation_journal t) \<le> 65536 \<and>
    (\<exists>d. replica_delta_since (ix_revision s) t = Inr d \<and>
      (rd_full_rebuild_required d \<longleftrightarrow> ix_revision s = 0 \<or> ix_revision t - ix_revision s > 65536))"
proof -
  obtain as ms where "history (as @ ms) t" using run_history [OF assms(1,2)] by metis
  then have "length (ix_mutation_journal t) \<le> 65536" by (simp add: history_def last_n_def journal_maxlen_def)
  with delta_mirror [OF assms(1,2) mirror_of_self [OF ix_reachable_inv [OF assms(1)]] assms(3)]
  show ?thesis by (auto simp: journal_maxlen_def)
qed

theorem replica_delta_rebuild_bound_witness:
  "\<exists>d. replica_delta_since 3 demo_ix = Inr d \<and> \<not> rd_full_rebuild_required d"
  using replica_delta_rebuild_bound [OF demo_mirror_run(1,2,4)] by (auto simp: demo_mirror_run(5,6))

end
