(* ===== verification/Restore_Obligation.thy ===== *)
theory Restore_Obligation
  imports Protocol
begin

text \<open>
  Restore debts (\<open>beliefkv/runtime/restore_obligation.py\<close>): the lifecycle of a request whose
  GPU KV has to be restored (obligation), of the admission capacity held for it (lease) and of
  the decode service owed after the restore (grace), the bounded indexes that own them, the
  transaction aggregate, and the tracker that turns their state into revisions.

  The objects an index hands out are mutated by the runtime through their methods; in the model
  such a mutation is an update of the entry stored under the request id.
\<close>

section \<open>Enumerations\<close>

datatype obligation_state =
    RETRACTION_PREPARED | D2H_INFLIGHT | PARKED_WAIT | EVICT_FOR_RESTORE | H2D_INFLIGHT
  | RESTORE_ACKED | TICKET_READY | SATISFIED | OB_CANCELLED | OB_FAILED

fun obligation_state_value :: "obligation_state \<Rightarrow> string" where
  "obligation_state_value RETRACTION_PREPARED = ''retraction_prepared''"
| "obligation_state_value D2H_INFLIGHT = ''d2h_inflight''"
| "obligation_state_value PARKED_WAIT = ''parked_wait''"
| "obligation_state_value EVICT_FOR_RESTORE = ''evict_for_restore''"
| "obligation_state_value H2D_INFLIGHT = ''h2d_inflight''"
| "obligation_state_value RESTORE_ACKED = ''restore_acked''"
| "obligation_state_value TICKET_READY = ''ticket_ready''"
| "obligation_state_value SATISFIED = ''satisfied''"
| "obligation_state_value OB_CANCELLED = ''cancelled''"
| "obligation_state_value OB_FAILED = ''failed''"

definition obligation_terminal :: "obligation_state \<Rightarrow> bool" where
  "obligation_terminal s = (s \<in> {SATISFIED, OB_CANCELLED, OB_FAILED})"

datatype lease_state =
    GRANTED | L_H2D_INFLIGHT | RESTORED_RESERVED | ADMISSION_COMMITTING | ADMITTED
  | RELEASED | ROLLED_BACK

fun lease_state_value :: "lease_state \<Rightarrow> string" where
  "lease_state_value GRANTED = ''granted''"
| "lease_state_value L_H2D_INFLIGHT = ''h2d_inflight''"
| "lease_state_value RESTORED_RESERVED = ''restored_reserved''"
| "lease_state_value ADMISSION_COMMITTING = ''admission_committing''"
| "lease_state_value ADMITTED = ''admitted''"
| "lease_state_value RELEASED = ''released''"
| "lease_state_value ROLLED_BACK = ''rolled_back''"

definition lease_terminal :: "lease_state \<Rightarrow> bool" where
  "lease_terminal s = (s \<in> {RELEASED, ROLLED_BACK})"

datatype obligation_cause = RUNNING_RETRACTION | ORDINARY_WAITING_PREFIX

datatype native_queue_location = Q_WAITING | Q_RUNNING | Q_CHUNKED | Q_NONE

datatype safe_point_phase = P_IDLE | APPLY_EVENTS | CAPTURE_AND_PLAN | TRANSACTIONAL_COMMIT

datatype transaction_stage =
    WAIT_FEASIBILITY | WAIT_FUNDING | WAIT_EVENT | T_PREPARED | H2D_QUEUED | H2D_ADOPTED
  | T_RESTORED_RESERVED | T_ADMISSION_COMMITTING | T_ADMITTED | SERVICE_GRACE | T_SATISFIED
  | T_CANCELLED | FAILED_UNRECOVERABLE

definition transaction_terminal :: "transaction_stage \<Rightarrow> bool" where
  "transaction_terminal s = (s \<in> {T_SATISFIED, T_CANCELLED, FAILED_UNRECOVERABLE})"

datatype authority_mode = NORMAL_JOINT | RESTORE_DRAIN_REQUESTED | RESTORE_DRAIN_ACTIVE

fun command_kind_value :: "command_kind \<Rightarrow> string" where
  "command_kind_value ADMIT_REQUEST = ''admit_request''"
| "command_kind_value DEFER_REQUEST = ''defer_request''"
| "command_kind_value OFFLOAD_CONTEXT = ''offload_context''"
| "command_kind_value DROP_CONTEXT = ''drop_context''"
| "command_kind_value SHADOW_CONTEXT = ''shadow_context''"
| "command_kind_value PREFETCH_CONTEXT = ''prefetch_context''"
| "command_kind_value DROP_UNOWNED = ''drop_unowned''"
| "command_kind_value DROP_TERMINAL_PRIVATE = ''drop_terminal_private''"
| "command_kind_value PIN_CONTEXT = ''pin_context''"
| "command_kind_value UNPIN_CONTEXT = ''unpin_context''"
| "command_kind_value SET_WORKFLOW_BUDGET = ''set_workflow_budget''"

section \<open>Safe-point snapshots\<close>

record native_request_snapshot =
  ns_request_id :: string
  ns_context_id :: string
  ns_queue_location :: native_queue_location
  ns_req_pool_slot :: "int option"
  ns_radix_lock_owned :: bool
  ns_native_load_operation_id :: "string option"
  ns_explicit_transfer_ids :: "string list"
  ns_request_generation :: int
  ns_terminal :: bool

definition native_request_snapshot_post_init ::
  "native_request_snapshot \<Rightarrow> native_request_snapshot result" where
  "native_request_snapshot_post_init s =
     (if ns_request_id s = [] \<or> ns_context_id s = []
      then Inl (ValueError ''native physical snapshot identity is required'')
      else if (case ns_req_pool_slot s of None \<Rightarrow> False | Some v \<Rightarrow> v < 0)
      then Inl (ValueError ''request pool slot must be non-negative'')
      else if ns_request_generation s < 0
      then Inl (ValueError ''request generation must be non-negative'')
      else Inr (s\<lparr>ns_explicit_transfer_ids := py_sorted_set (ns_explicit_transfer_ids s)\<rparr>))"

definition engine_owned :: "native_request_snapshot \<Rightarrow> bool" where
  "engine_owned s = (ns_req_pool_slot s \<noteq> None \<or> ns_radix_lock_owned s)"

record snapshot_timing =
  st_total_ms :: real
  st_queue_collection_ms :: real
  st_metadata_indexing_ms :: real
  st_radix_ownership_lookup_ms :: real
  st_operation_indexing_ms :: real
  st_sorting_allocation_ms :: real
  st_queue_record_count :: int
  st_metadata_record_count :: int
  st_matched_record_count :: int
  st_gc_collections :: int
  st_cold_build :: bool

definition snapshot_timing_post_init :: "snapshot_timing \<Rightarrow> snapshot_timing result" where
  "snapshot_timing_post_init t =
     (if list_ex (\<lambda>v. v < 0)
           [st_total_ms t, st_queue_collection_ms t, st_metadata_indexing_ms t,
            st_radix_ownership_lookup_ms t, st_operation_indexing_ms t, st_sorting_allocation_ms t]
      then Inl (ValueError ''snapshot timing values must be non-negative'')
      else if list_ex (\<lambda>v. v < 0)
           [st_queue_record_count t, st_metadata_record_count t, st_matched_record_count t,
            st_gc_collections t]
      then Inl (ValueError ''snapshot timing counts must be non-negative'')
      else Inr t)"

record safe_point_snapshot =
  sp_epoch :: int
  sp_records :: "native_request_snapshot list"
  sp_by_request :: "(string, native_request_snapshot) dict"
  sp_by_context :: "(string, native_request_snapshot list) dict"
  sp_explicit_transfers_by_context :: "(string, string list) dict"
  sp_queue_record_count :: int
  sp_metadata_record_count :: int
  sp_timing :: snapshot_timing

definition safe_point_snapshot_post_init :: "safe_point_snapshot \<Rightarrow> safe_point_snapshot result" where
  "safe_point_snapshot_post_init s =
     (if sp_epoch s < 0 then Inl (ValueError ''safe-point physical epoch must be non-negative'')
      else if sp_queue_record_count s < 0 \<or> sp_metadata_record_count s < 0
      then Inl (ValueError ''snapshot record counts must be non-negative'')
      else if length (sp_by_request s) \<noteq> length (sp_records s)
      then Inl (ValueError ''native request IDs must be unique in one snapshot'')
      else Inr (s\<lparr>sp_explicit_transfers_by_context :=
                   map (\<lambda>(c, ids). (c, py_sorted_set ids)) (sp_explicit_transfers_by_context s)\<rparr>))"

definition snapshot_for_context :: "safe_point_snapshot \<Rightarrow> string \<Rightarrow> native_request_snapshot list" where
  "snapshot_for_context s c = dict_get (sp_by_context s) c []"

definition context_readset ::
  "safe_point_snapshot \<Rightarrow> string \<Rightarrow> native_request_snapshot list \<times> string list" where
  "context_readset s c =
     (snapshot_for_context s c, dict_get (sp_explicit_transfers_by_context s) c [])"

section \<open>Progress tokens, certificates and service grace\<close>

record external_progress_token =
  xt_engine_owner_epoch :: "py_value list"
  xt_closure_fingerprint :: string
  xt_effective_capacity_threshold_epoch :: "py_value list"
  xt_command_ownership_epoch :: "py_value list"
  xt_guard_generation :: int
  xt_native_load_generation :: "py_value list"
  xt_restore_lease_epoch :: "py_value list"

definition external_progress_token_post_init ::
  "external_progress_token \<Rightarrow> external_progress_token result" where
  "external_progress_token_post_init t =
     (if xt_guard_generation t < 0 then Inl (ValueError ''guard generation must be non-negative'')
      else Inr t)"

record feasibility_certificate =
  fc_certificate_generation :: int
  fc_context_epoch :: int
  fc_attempt_key :: "py_value list"
  fc_required_bytes :: int
  fc_closure_fingerprint :: string

definition feasibility_certificate_post_init ::
  "feasibility_certificate \<Rightarrow> feasibility_certificate result" where
  "feasibility_certificate_post_init c =
     (if fc_certificate_generation c < 0 \<or> fc_context_epoch c < 0 \<or> fc_required_bytes c < 0
      then Inl (ValueError ''restore certificate values must be non-negative'')
      else Inr c)"

record service_grace =
  sg_request_id :: string
  sg_obligation_id :: string
  sg_granted_ts_ms :: real
  sg_required_decode_tokens :: int
  sg_served_decode_tokens :: int
  sg_last_observed_output_tokens :: "int option"
  sg_completed_ts_ms :: "real option"
  sg_terminal_reason :: "string option"

definition service_grace_post_init :: "service_grace \<Rightarrow> service_grace result" where
  "service_grace_post_init g =
     (if sg_request_id g = [] \<or> sg_obligation_id g = []
      then Inl (ValueError ''restore service grace identity must be non-empty'')
      else if sg_granted_ts_ms g < 0
      then Inl (ValueError ''restore service grace time must be non-negative'')
      else if sg_required_decode_tokens g \<le> 0
      then Inl (ValueError ''restore service grace quantum must be positive'')
      else if (case sg_last_observed_output_tokens g of None \<Rightarrow> False | Some v \<Rightarrow> v < 0)
      then Inl (ValueError ''observed output tokens must be non-negative'')
      else Inr g)"

definition grace_active :: "service_grace \<Rightarrow> bool" where
  "grace_active g = (sg_completed_ts_ms g = None)"

definition remaining_decode_tokens :: "service_grace \<Rightarrow> int" where
  "remaining_decode_tokens g = max 0 (sg_required_decode_tokens g - sg_served_decode_tokens g)"

definition observe_decode :: "int \<Rightarrow> real \<Rightarrow> service_grace \<Rightarrow> bool \<times> service_grace" where
  "observe_decode tokens now_ms g =
     (if \<not> grace_active g \<or> tokens \<le> 0 then (False, g)
      else
        let g' = g\<lparr>sg_served_decode_tokens := sg_served_decode_tokens g + tokens\<rparr> in
        if sg_served_decode_tokens g' < sg_required_decode_tokens g' then (False, g')
        else (True, g'\<lparr>sg_completed_ts_ms := Some now_ms,
                       sg_terminal_reason := Some ''service_quantum_satisfied''\<rparr>))"

definition grace_cancel :: "real \<Rightarrow> string \<Rightarrow> service_grace \<Rightarrow> service_grace" where
  "grace_cancel now_ms reason g =
     (if \<not> grace_active g then g
      else g\<lparr>sg_completed_ts_ms := Some now_ms, sg_terminal_reason := Some reason\<rparr>)"

section \<open>The obligation\<close>

record restore_obligation =
  ob_obligation_id :: string
  ob_request_id :: string
  ob_workflow_id :: string
  ob_invocation_id :: string
  ob_context_id :: string
  ob_context_epoch :: int
  ob_source_retraction_transaction_id :: string
  ob_source_joint_plan_id :: string
  ob_created_ts_ms :: real
  ob_path_extent_ids :: "string list"
  ob_cause :: obligation_cause
  ob_state :: obligation_state
  ob_required_extent_ids :: "string list"
  ob_source_transaction_terminal :: bool
  ob_requeued :: bool
  ob_pending_command_id :: "string option"
  ob_pending_command_kind :: "command_kind option"
  ob_command_ids :: "string list"
  ob_restore_bytes :: int
  ob_required_admission_bytes :: int
  ob_funding_reclaim_bytes :: int
  ob_funding_reserved_tokens :: int
  ob_funding_reserved_bytes :: int
  ob_restored_bytes :: int
  ob_last_progress_ts_ms :: "real option"
  ob_last_attempt_stamp :: "py_value list option"
  ob_last_external_progress_token :: "external_progress_token option"
  ob_wake_conditions :: "string list"
  ob_blocker_codes :: "string list"
  ob_blocker_fingerprint :: "string option"
  ob_retry_count :: int
  ob_bypass_count :: int
  ob_liveness_escalated :: bool
  ob_native_admission_fallback :: bool
  ob_first_service_ts_ms :: "real option"
  ob_terminal_ts_ms :: "real option"
  ob_terminal_reason :: "string option"

definition extent_ids :: "string list \<Rightarrow> string list result" where
  "extent_ids values =
     (let r = py_sorted_set values in
      if list_ex (\<lambda>x. x = []) r then Inl (ValueError ''restore extent IDs must be non-empty'') else Inr r)"

text \<open>The loop over named values at the start of the \<open>__post_init__\<close> methods: the first empty one is
  named in the error.\<close>

definition require_named :: "string \<Rightarrow> (string \<times> string) list \<Rightarrow> unit result" where
  "require_named what named =
     (case find (\<lambda>(v, name). v = []) named of
        None \<Rightarrow> Inr ()
      | Some (v, name) \<Rightarrow> Inl (ValueError (what @ name @ '' must be non-empty'')))"

definition restore_obligation_post_init :: "restore_obligation \<Rightarrow> restore_obligation result" where
  "restore_obligation_post_init ob =
     rbind (require_named ''restore obligation ''
        [(ob_obligation_id ob, ''obligation_id''), (ob_request_id ob, ''request_id''),
         (ob_workflow_id ob, ''workflow_id''), (ob_invocation_id ob, ''invocation_id''),
         (ob_context_id ob, ''context_id''),
         (ob_source_retraction_transaction_id ob, ''source_retraction_transaction_id''),
         (ob_source_joint_plan_id ob, ''source_joint_plan_id'')]) (\<lambda>_.
      if ob_context_epoch ob < 0 \<or> ob_created_ts_ms ob < 0
      then Inl (ValueError ''restore obligation epoch/time must be non-negative'')
      else rbind (extent_ids (ob_path_extent_ids ob)) (\<lambda>path.
           rbind (extent_ids (ob_required_extent_ids ob)) (\<lambda>required.
             Inr (ob\<lparr>ob_path_extent_ids := path, ob_required_extent_ids := required,
                     ob_last_progress_ts_ms :=
                       (case ob_last_progress_ts_ms ob of None \<Rightarrow> Some (ob_created_ts_ms ob)
                        | Some t \<Rightarrow> Some t)\<rparr>))))"

definition set_required_extents ::
  "string list \<Rightarrow> int \<Rightarrow> real \<Rightarrow> restore_obligation \<Rightarrow> restore_obligation result" where
  "set_required_extents ids bytes now_ms ob =
     (if obligation_terminal (ob_state ob) then Inr ob
      else rbind (extent_ids ids) (\<lambda>required.
        let b = max 0 bytes in
        Inr (if required \<noteq> ob_required_extent_ids ob \<or> b \<noteq> ob_restore_bytes ob
             then ob\<lparr>ob_required_extent_ids := required, ob_restore_bytes := b,
                     ob_last_progress_ts_ms := Some now_ms\<rparr>
             else ob)))"

definition start_command ::
  "string \<Rightarrow> command_kind \<Rightarrow> real \<Rightarrow> py_value list \<Rightarrow> restore_obligation \<Rightarrow> restore_obligation result" where
  "start_command command_id kind now_ms attempt_stamp ob =
     (if obligation_terminal (ob_state ob)
      then Inl (ValueError ''terminal restore obligation cannot start a command'')
      else if ob_pending_command_id ob \<noteq> None
      then Inl (ValueError ''restore obligation already has an in-flight command'')
      else Inr (ob\<lparr>ob_pending_command_id := Some command_id,
                   ob_pending_command_kind := Some kind,
                   ob_command_ids := ob_command_ids ob @ [command_id],
                   ob_last_attempt_stamp := Some attempt_stamp,
                   ob_blocker_codes := [],
                   ob_blocker_fingerprint := None,
                   ob_last_progress_ts_ms := Some now_ms,
                   ob_state := (if kind = PREFETCH_CONTEXT then H2D_INFLIGHT else EVICT_FOR_RESTORE)\<rparr>))"

definition clear_command :: "restore_obligation \<Rightarrow> command_kind option \<times> restore_obligation" where
  "clear_command ob =
     (ob_pending_command_kind ob,
      ob\<lparr>ob_pending_command_id := None, ob_pending_command_kind := None\<rparr>)"

definition obligation_block ::
  "string list \<Rightarrow> string \<Rightarrow> py_value list option \<Rightarrow> external_progress_token option \<Rightarrow> string list \<Rightarrow> real
   \<Rightarrow> restore_obligation \<Rightarrow> restore_obligation" where
  "obligation_block codes fingerprint stamp token wake now_ms ob =
     (if obligation_terminal (ob_state ob) then ob
      else
        let ob' = snd (clear_command ob) in
        ob'\<lparr>ob_state := PARKED_WAIT,
            ob_blocker_codes := py_sorted_set codes,
            ob_blocker_fingerprint := Some fingerprint,
            ob_last_attempt_stamp := stamp,
            ob_last_external_progress_token := token,
            ob_wake_conditions := py_sorted_set wake,
            ob_retry_count := ob_retry_count ob' + 1,
            ob_last_progress_ts_ms := Some now_ms\<rparr>)"

definition external_progressed :: "external_progress_token \<Rightarrow> restore_obligation \<Rightarrow> bool" where
  "external_progressed token ob =
     (case ob_last_external_progress_token ob of None \<Rightarrow> True | Some t \<Rightarrow> t \<noteq> token)"

definition mark_ticket_ready :: "real \<Rightarrow> restore_obligation \<Rightarrow> restore_obligation" where
  "mark_ticket_ready now_ms ob =
     (if obligation_terminal (ob_state ob) then ob
      else if ob_state ob = TICKET_READY then ob
      else
        let ob' = snd (clear_command ob) in
        ob'\<lparr>ob_required_extent_ids := [], ob_restore_bytes := 0, ob_blocker_codes := [],
            ob_blocker_fingerprint := None, ob_last_external_progress_token := None,
            ob_wake_conditions := [], ob_state := TICKET_READY,
            ob_last_progress_ts_ms := Some now_ms\<rparr>)"

definition use_native_admission_fallback :: "real \<Rightarrow> restore_obligation \<Rightarrow> restore_obligation" where
  "use_native_admission_fallback now_ms ob =
     (if obligation_terminal (ob_state ob) then ob
      else mark_ticket_ready now_ms (ob\<lparr>ob_native_admission_fallback := True\<rparr>))"

definition obligation_finish ::
  "obligation_state \<Rightarrow> real \<Rightarrow> string \<Rightarrow> restore_obligation \<Rightarrow> restore_obligation result" where
  "obligation_finish state now_ms reason ob =
     (if state \<notin> {SATISFIED, OB_CANCELLED, OB_FAILED}
      then Inl (ValueError ''restore obligation finish requires a terminal state'')
      else
        let ob' = snd (clear_command ob);
            ob'' = ob'\<lparr>ob_state := state, ob_terminal_ts_ms := Some now_ms,
                      ob_terminal_reason := Some reason, ob_last_progress_ts_ms := Some now_ms\<rparr>
        in Inr (if state = SATISFIED then ob''\<lparr>ob_first_service_ts_ms := Some now_ms\<rparr> else ob''))"

section \<open>The lease\<close>

record restore_lease =
  rl_lease_id :: string
  rl_obligation_id :: string
  rl_request_id :: string
  rl_workflow_id :: string
  rl_context_id :: string
  rl_granted_ts_ms :: real
  rl_reserved_tokens :: int
  rl_reserved_bytes :: int
  rl_h2d_bytes :: int
  rl_state :: lease_state
  rl_h2d_command_id :: "string option"
  rl_pin_active :: bool
  rl_admission_attempts :: int
  rl_terminal_ts_ms :: "real option"
  rl_terminal_reason :: "string option"

definition capacity_held :: "restore_lease \<Rightarrow> bool" where
  "capacity_held l = (rl_state l \<in> {GRANTED, L_H2D_INFLIGHT, RESTORED_RESERVED})"

definition restore_lease_post_init :: "restore_lease \<Rightarrow> restore_lease result" where
  "restore_lease_post_init l =
     rbind (require_named ''restore lease ''
        [(rl_lease_id l, ''lease_id''), (rl_obligation_id l, ''obligation_id''), (rl_request_id l, ''request_id''),
         (rl_workflow_id l, ''workflow_id''), (rl_context_id l, ''context_id'')]) (\<lambda>_.
      if rl_granted_ts_ms l < 0
      then Inl (ValueError ''restore lease grant time must be non-negative'')
      else if rl_reserved_tokens l < 0 \<or> rl_reserved_bytes l < 0 \<or> rl_h2d_bytes l < 0
      then Inl (ValueError ''restore lease capacities must be non-negative'')
      else if rl_reserved_tokens l = 0 \<or> rl_reserved_bytes l = 0
      then Inl (ValueError ''restore lease must reserve positive admission capacity'')
      else Inr l)"

definition mark_h2d_inflight :: "string \<Rightarrow> restore_lease \<Rightarrow> restore_lease result" where
  "mark_h2d_inflight command_id l =
     (if lease_terminal (rl_state l)
      then Inl (ValueError ''terminal restore lease cannot start H2D'')
      else if command_id = [] then Inl (ValueError ''restore lease H2D command id must be non-empty'')
      else Inr (l\<lparr>rl_h2d_command_id := Some command_id, rl_state := L_H2D_INFLIGHT\<rparr>))"

definition mark_restored :: "restore_lease \<Rightarrow> restore_lease" where
  "mark_restored l =
     (if lease_terminal (rl_state l) then l
      else l\<lparr>rl_h2d_command_id := None, rl_state := RESTORED_RESERVED\<rparr>)"

definition begin_admission :: "restore_lease \<Rightarrow> restore_lease result" where
  "begin_admission l =
     (if rl_state l \<notin> {RESTORED_RESERVED, GRANTED}
      then Inl (ValueError ''restore lease is not ready for admission'')
      else Inr (l\<lparr>rl_admission_attempts := rl_admission_attempts l + 1,
                  rl_state := ADMISSION_COMMITTING\<rparr>))"

definition admission_rejected :: "restore_lease \<Rightarrow> restore_lease result" where
  "admission_rejected l =
     (if rl_state l \<noteq> ADMISSION_COMMITTING
      then Inl (ValueError ''restore lease has no admission attempt to reject'')
      else Inr (l\<lparr>rl_state := RESTORED_RESERVED\<rparr>))"

definition mark_admitted :: "restore_lease \<Rightarrow> restore_lease result" where
  "mark_admitted l =
     (if rl_state l \<noteq> ADMISSION_COMMITTING
      then Inl (ValueError ''restore lease admission was not started'')
      else Inr (l\<lparr>rl_state := ADMITTED\<rparr>))"

definition lease_finish :: "lease_state \<Rightarrow> real \<Rightarrow> string \<Rightarrow> restore_lease \<Rightarrow> restore_lease result" where
  "lease_finish state now_ms reason l =
     (if state \<notin> {RELEASED, ROLLED_BACK}
      then Inl (ValueError ''restore lease finish requires a terminal state'')
      else if now_ms < 0 \<or> reason = []
      then Inl (ValueError ''restore lease terminal time/reason is required'')
      else Inr (l\<lparr>rl_h2d_command_id := None, rl_pin_active := False, rl_state := state,
                  rl_terminal_ts_ms := Some now_ms, rl_terminal_reason := Some reason\<rparr>))"

section \<open>The indexes\<close>

record lease_index =
  li_max_active :: int
  li_by_request :: "(string, restore_lease) dict"
  li_sequence :: int

definition lease_index_init :: "int \<Rightarrow> lease_index result" where
  "lease_index_init max_active =
     (if max_active \<le> 0 then Inl (ValueError ''maximum active restore leases must be positive'')
      else Inr \<lparr>li_max_active = max_active, li_by_request = [], li_sequence = 0\<rparr>)"

definition lease_get :: "lease_index \<Rightarrow> string \<Rightarrow> restore_lease option" where
  "lease_get ix r = map_of (li_by_request ix) r"

definition lease_active :: "lease_index \<Rightarrow> restore_lease list" where
  "lease_active ix =
     sort_key (\<lambda>l. (rl_granted_ts_ms l, rl_lease_id l))
       (filter (\<lambda>l. \<not> lease_terminal (rl_state l)) (map snd (li_by_request ix)))"

definition lease_all :: "lease_index \<Rightarrow> restore_lease list" where
  "lease_all ix = sort_key rl_lease_id (map snd (li_by_request ix))"

definition lease_reserved_tokens :: "lease_index \<Rightarrow> int" where
  "lease_reserved_tokens ix = sum_list (map rl_reserved_tokens (filter capacity_held (lease_active ix)))"

definition lease_reserved_bytes :: "lease_index \<Rightarrow> int" where
  "lease_reserved_bytes ix = sum_list (map rl_reserved_bytes (filter capacity_held (lease_active ix)))"

definition lease_grant ::
  "restore_obligation \<Rightarrow> real \<Rightarrow> int \<Rightarrow> int \<Rightarrow> int \<Rightarrow> lease_index \<Rightarrow> restore_lease result \<times> lease_index" where
  "lease_grant obligation granted_ts_ms reserved_tokens reserved_bytes h2d_bytes ix =
     (if (case lease_get ix (ob_request_id obligation) of
            None \<Rightarrow> False | Some current \<Rightarrow> \<not> lease_terminal (rl_state current))
      then (Inl (ValueError ''request already owns a restore lease''), ix)
      else if int (length (lease_active ix)) \<ge> li_max_active ix
      then (Inl (ValueError ''restore lease capacity is exhausted''), ix)
      else
        let n = li_sequence ix + 1; ix' = ix\<lparr>li_sequence := n\<rparr> in
        case restore_lease_post_init
                 \<lparr>rl_lease_id = ''restore-lease-'' @ str_int n,
                  rl_obligation_id = ob_obligation_id obligation,
                  rl_request_id = ob_request_id obligation,
                  rl_workflow_id = ob_workflow_id obligation,
                  rl_context_id = ob_context_id obligation,
                  rl_granted_ts_ms = granted_ts_ms, rl_reserved_tokens = reserved_tokens,
                  rl_reserved_bytes = reserved_bytes, rl_h2d_bytes = h2d_bytes,
                  rl_state = GRANTED, rl_h2d_command_id = None, rl_pin_active = False,
                  rl_admission_attempts = 0, rl_terminal_ts_ms = None, rl_terminal_reason = None\<rparr> of
          Inl e \<Rightarrow> (Inl e, ix')
        | Inr lease \<Rightarrow>
            (Inr lease,
             ix'\<lparr>li_by_request :=
                   AList.update (ob_request_id obligation) lease (li_by_request ix')\<rparr>))"

record obligation_index =
  oi_max_active :: int
  oi_by_request :: "(string, restore_obligation) dict"
  oi_sequence :: int

definition obligation_index_init :: "int \<Rightarrow> obligation_index result" where
  "obligation_index_init max_active =
     (if max_active \<le> 0 then Inl (ValueError ''max_active restore obligations must be positive'')
      else Inr \<lparr>oi_max_active = max_active, oi_by_request = [], oi_sequence = 0\<rparr>)"

abbreviation obligation_live :: "restore_obligation \<Rightarrow> bool" where
  "obligation_live ob \<equiv> \<not> obligation_terminal (ob_state ob)"

definition obligation_get :: "obligation_index \<Rightarrow> string \<Rightarrow> restore_obligation option" where
  "obligation_get ix r = map_of (oi_by_request ix) r"

definition obligation_active :: "obligation_index \<Rightarrow> restore_obligation list" where
  "obligation_active ix =
     sort_key (\<lambda>ob. (ob_created_ts_ms ob, ob_obligation_id ob))
       (filter obligation_live (map snd (oi_by_request ix)))"

definition obligation_all :: "obligation_index \<Rightarrow> restore_obligation list" where
  "obligation_all ix =
     sort_key (\<lambda>ob. (ob_created_ts_ms ob, ob_obligation_id ob)) (map snd (oi_by_request ix))"

definition for_source_transaction :: "obligation_index \<Rightarrow> string \<Rightarrow> restore_obligation list" where
  "for_source_transaction ix t =
     filter (\<lambda>ob. ob_source_retraction_transaction_id ob = t) (obligation_active ix)"

definition obligation_can_create :: "obligation_index \<Rightarrow> string list \<Rightarrow> bool" where
  "obligation_can_create ix request_ids =
     (let unique = set request_ids in
      if card unique \<noteq> length request_ids then False
      else if (\<exists>r \<in> unique. case map_of (oi_by_request ix) r of None \<Rightarrow> False | Some ob \<Rightarrow> obligation_live ob)
      then False
      else int (length (obligation_active ix) + card unique) \<le> oi_max_active ix)"

definition new_obligation ::
  "string \<Rightarrow> string \<Rightarrow> string \<Rightarrow> string \<Rightarrow> string \<Rightarrow> int \<Rightarrow> string \<Rightarrow> string \<Rightarrow> real \<Rightarrow> string list
   \<Rightarrow> obligation_cause \<Rightarrow> restore_obligation" where
  "new_obligation oid request_id workflow_id invocation_id context_id context_epoch source plan
     created_ts_ms path_extent_ids cause =
     \<lparr>ob_obligation_id = oid, ob_request_id = request_id, ob_workflow_id = workflow_id,
      ob_invocation_id = invocation_id, ob_context_id = context_id, ob_context_epoch = context_epoch,
      ob_source_retraction_transaction_id = source, ob_source_joint_plan_id = plan,
      ob_created_ts_ms = created_ts_ms, ob_path_extent_ids = path_extent_ids, ob_cause = cause,
      ob_state = RETRACTION_PREPARED, ob_required_extent_ids = [],
      ob_source_transaction_terminal = False, ob_requeued = False, ob_pending_command_id = None,
      ob_pending_command_kind = None, ob_command_ids = [], ob_restore_bytes = 0,
      ob_required_admission_bytes = 0, ob_funding_reclaim_bytes = 0, ob_funding_reserved_tokens = 0,
      ob_funding_reserved_bytes = 0, ob_restored_bytes = 0, ob_last_progress_ts_ms = None,
      ob_last_attempt_stamp = None, ob_last_external_progress_token = None, ob_wake_conditions = [],
      ob_blocker_codes = [], ob_blocker_fingerprint = None, ob_retry_count = 0, ob_bypass_count = 0,
      ob_liveness_escalated = False, ob_native_admission_fallback = False,
      ob_first_service_ts_ms = None, ob_terminal_ts_ms = None, ob_terminal_reason = None\<rparr>"

definition obligation_create ::
  "string \<Rightarrow> string \<Rightarrow> string \<Rightarrow> string \<Rightarrow> int \<Rightarrow> string \<Rightarrow> string \<Rightarrow> real \<Rightarrow> string list
   \<Rightarrow> obligation_cause \<Rightarrow> obligation_index \<Rightarrow> restore_obligation result \<times> obligation_index" where
  "obligation_create request_id workflow_id invocation_id context_id context_epoch source plan
     created_ts_ms path_extent_ids cause ix =
     (if \<not> obligation_can_create ix [request_id]
      then (Inl (ValueError ''restore obligation capacity conflict''), ix)
      else
        let n = oi_sequence ix + 1; ix' = ix\<lparr>oi_sequence := n\<rparr> in
        case restore_obligation_post_init
               (new_obligation (''restore-'' @ str_int n) request_id workflow_id invocation_id
                  context_id context_epoch source plan created_ts_ms path_extent_ids cause) of
          Inl e \<Rightarrow> (Inl e, ix')
        | Inr item \<Rightarrow>
            (Inr item, ix'\<lparr>oi_by_request := AList.update request_id item (oi_by_request ix')\<rparr>))"

section \<open>The transaction aggregate\<close>

record physical_operation =
  po_stage :: string
  po_attempt_key :: "py_value list"
  po_certificate_generation :: int
  po_canonical_command_id :: string
  po_adopted :: bool
  po_terminal_status :: "string option"

record restore_transaction =
  tx_transaction_id :: string
  tx_obligation :: restore_obligation
  tx_stage :: transaction_stage
  tx_feasibility_certificate :: "feasibility_certificate option"
  tx_capacity_reservation_id :: "string option"
  tx_prefix_pin_token :: "string option"
  tx_physical_operations :: "physical_operation list"
  tx_admission_state :: string
  tx_service_grace :: "service_grace option"
  tx_wait_condition :: "string list"
  tx_external_progress_token :: "external_progress_token option"
  tx_failure_evidence :: "(string, py_value) dict"

definition restore_transaction_post_init :: "restore_transaction \<Rightarrow> restore_transaction result" where
  "restore_transaction_post_init tx =
     (if tx_transaction_id tx = [] then Inl (ValueError ''restore transaction id must be non-empty'')
      else Inr tx)"

definition can_submit :: "string \<Rightarrow> py_value list \<Rightarrow> int \<Rightarrow> restore_transaction \<Rightarrow> bool" where
  "can_submit stage attempt_key generation tx =
     (\<not> (\<exists>item \<in> set (tx_physical_operations tx).
          po_stage item = stage \<and> po_attempt_key item = attempt_key \<and>
          po_certificate_generation item = generation \<and> po_terminal_status item = None))"

definition add_operation :: "physical_operation \<Rightarrow> restore_transaction \<Rightarrow> restore_transaction result" where
  "add_operation op tx =
     (if \<not> can_submit (po_stage op) (po_attempt_key op) (po_certificate_generation op) tx
      then Inl (ValueError ''duplicate canonical restore operation'')
      else Inr (tx\<lparr>tx_physical_operations := tx_physical_operations tx @ [op]\<rparr>))"

section \<open>The liveness revision tracker\<close>

record liveness_snapshot =
  ls_obligation_revision :: int
  ls_lease_revision :: int
  ls_grace_revision :: int
  ls_active_obligation_ids :: "string list"
  ls_active_lease_ids :: "string list"
  ls_active_grace_request_ids :: "string list"

definition liveness_snapshot_post_init :: "liveness_snapshot \<Rightarrow> liveness_snapshot result" where
  "liveness_snapshot_post_init s =
     (if ls_obligation_revision s < 0 \<or> ls_lease_revision s < 0 \<or> ls_grace_revision s < 0
      then Inl (ValueError ''persistent liveness revisions must be non-negative'')
      else
        let obs = py_sorted_set (ls_active_obligation_ids s);
            leases = py_sorted_set (ls_active_lease_ids s);
            graces = py_sorted_set (ls_active_grace_request_ids s)
        in if list_ex (\<lambda>x. x = []) (obs @ leases @ graces)
           then Inl (ValueError ''persistent liveness ids are invalid'')
           else Inr (s\<lparr>ls_active_obligation_ids := obs, ls_active_lease_ids := leases,
                       ls_active_grace_request_ids := graces\<rparr>))"

record obligation_fingerprint =
  fo_obligation_id :: string
  fo_request_id :: string
  fo_context_id :: string
  fo_context_epoch :: int
  fo_state :: string
  fo_required_extent_ids :: "string list"
  fo_source_transaction_terminal :: bool
  fo_requeued :: bool
  fo_pending_command_id :: "string option"
  fo_pending_command_kind :: "string option"
  fo_restore_bytes :: int
  fo_required_admission_bytes :: int
  fo_funding_reclaim_bytes :: int
  fo_funding_reserved_tokens :: int
  fo_funding_reserved_bytes :: int
  fo_restored_bytes :: int
  fo_blocker_codes :: "string list"
  fo_retry_count :: int
  fo_bypass_count :: int
  fo_liveness_escalated :: bool
  fo_native_admission_fallback :: bool
  fo_terminal_reason :: "string option"

definition obligation_fp :: "restore_obligation \<Rightarrow> obligation_fingerprint" where
  "obligation_fp ob =
     \<lparr>fo_obligation_id = ob_obligation_id ob, fo_request_id = ob_request_id ob,
      fo_context_id = ob_context_id ob, fo_context_epoch = ob_context_epoch ob,
      fo_state = obligation_state_value (ob_state ob),
      fo_required_extent_ids = ob_required_extent_ids ob,
      fo_source_transaction_terminal = ob_source_transaction_terminal ob,
      fo_requeued = ob_requeued ob, fo_pending_command_id = ob_pending_command_id ob,
      fo_pending_command_kind = map_option command_kind_value (ob_pending_command_kind ob),
      fo_restore_bytes = ob_restore_bytes ob,
      fo_required_admission_bytes = ob_required_admission_bytes ob,
      fo_funding_reclaim_bytes = ob_funding_reclaim_bytes ob,
      fo_funding_reserved_tokens = ob_funding_reserved_tokens ob,
      fo_funding_reserved_bytes = ob_funding_reserved_bytes ob,
      fo_restored_bytes = ob_restored_bytes ob, fo_blocker_codes = ob_blocker_codes ob,
      fo_retry_count = ob_retry_count ob, fo_bypass_count = ob_bypass_count ob,
      fo_liveness_escalated = ob_liveness_escalated ob,
      fo_native_admission_fallback = ob_native_admission_fallback ob,
      fo_terminal_reason = ob_terminal_reason ob\<rparr>"

type_synonym lease_fingerprint =
  "string \<times> string \<times> string \<times> string \<times> int \<times> int \<times> int \<times> string option \<times> bool \<times> int \<times> string option"

definition lease_fp :: "restore_lease \<Rightarrow> lease_fingerprint" where
  "lease_fp l =
     (rl_lease_id l, rl_obligation_id l, rl_request_id l, lease_state_value (rl_state l),
      rl_reserved_tokens l, rl_reserved_bytes l, rl_h2d_bytes l, rl_h2d_command_id l,
      rl_pin_active l, rl_admission_attempts l, rl_terminal_reason l)"

type_synonym grace_fingerprint =
  "string \<times> string \<times> int \<times> int \<times> int option \<times> real option \<times> string option"

definition grace_fp :: "service_grace \<Rightarrow> grace_fingerprint" where
  "grace_fp g =
     (sg_request_id g, sg_obligation_id g, sg_required_decode_tokens g, sg_served_decode_tokens g,
      sg_last_observed_output_tokens g, sg_completed_ts_ms g, sg_terminal_reason g)"

record revision_tracker =
  rt_obligation_revision :: int
  rt_lease_revision :: int
  rt_grace_revision :: int
  rt_obligation_fingerprint :: "obligation_fingerprint list option"
  rt_lease_fingerprint :: "lease_fingerprint list option"
  rt_grace_fingerprint :: "grace_fingerprint list option"

definition tracker_init :: revision_tracker where
  "tracker_init = \<lparr>rt_obligation_revision = 0, rt_lease_revision = 0, rt_grace_revision = 0,
     rt_obligation_fingerprint = None, rt_lease_fingerprint = None, rt_grace_fingerprint = None\<rparr>"

definition tracker_observe ::
  "restore_obligation list \<Rightarrow> restore_lease list \<Rightarrow> service_grace list \<Rightarrow> revision_tracker
   \<Rightarrow> liveness_snapshot result \<times> revision_tracker" where
  "tracker_observe obligations leases graces t =
     (let obf = map obligation_fp (sort_key ob_obligation_id obligations);
          lf = map lease_fp (sort_key rl_lease_id leases);
          gf = map grace_fp (sort_key sg_request_id graces);
          t1 = (if Some obf \<noteq> rt_obligation_fingerprint t
                then t\<lparr>rt_obligation_revision := rt_obligation_revision t + 1,
                       rt_obligation_fingerprint := Some obf\<rparr> else t);
          t2 = (if Some lf \<noteq> rt_lease_fingerprint t1
                then t1\<lparr>rt_lease_revision := rt_lease_revision t1 + 1,
                        rt_lease_fingerprint := Some lf\<rparr> else t1);
          t3 = (if Some gf \<noteq> rt_grace_fingerprint t2
                then t2\<lparr>rt_grace_revision := rt_grace_revision t2 + 1,
                        rt_grace_fingerprint := Some gf\<rparr> else t2)
      in (liveness_snapshot_post_init
                  \<lparr>ls_obligation_revision = rt_obligation_revision t3,
                   ls_lease_revision = rt_lease_revision t3,
                   ls_grace_revision = rt_grace_revision t3,
                   ls_active_obligation_ids = map ob_obligation_id (filter obligation_live obligations),
                   ls_active_lease_ids =
                     map rl_lease_id (filter (\<lambda>l. \<not> lease_terminal (rl_state l)) leases),
                   ls_active_grace_request_ids = map sg_request_id (filter grace_active graces)\<rparr>, t3))"

end
