(* ===== verification/Restore_Obligation_Inv.thy ===== *)
theory Restore_Obligation_Inv
  imports Restore_Obligation
begin

text \<open>
  Properties of restore debts: the life cycles of obligations, leases and graces as step
  relations, the capacity bound and identifier uniqueness of both indexes (proved once in the
  locale \<open>bounded_table\<close>), the no-duplicate rule of the transaction and the exactness of the
  revision tracker.
\<close>

section \<open>Life cycles\<close>

inductive lease_step :: "restore_lease \<Rightarrow> restore_lease \<Rightarrow> bool" where
  mark_h2d_inflight: "mark_h2d_inflight c l = Inr l' \<Longrightarrow> lease_step l l'"
| mark_restored: "lease_step l (mark_restored l)"
| begin_admission: "begin_admission l = Inr l' \<Longrightarrow> lease_step l l'"
| admission_rejected: "admission_rejected l = Inr l' \<Longrightarrow> lease_step l l'"
| mark_admitted: "mark_admitted l = Inr l' \<Longrightarrow> lease_step l l'"
| lease_finish: "lease_finish s now reason l = Inr l' \<Longrightarrow> lease_step l l'"

abbreviation lease_live :: "restore_lease \<Rightarrow> bool" where
  "lease_live l \<equiv> \<not> lease_terminal (rl_state l)"

lemmas lease_op_defs = mark_h2d_inflight_def mark_restored_def begin_admission_def
  admission_rejected_def mark_admitted_def lease_finish_def lease_terminal_def

lemma lease_step_keeps:
  assumes "lease_step l l'"
  shows "\<not> lease_live l \<Longrightarrow> \<not> lease_live l'" and "rl_lease_id l' = rl_lease_id l"
    and "rl_reserved_bytes l' = rl_reserved_bytes l" and "rl_request_id l' = rl_request_id l"
  using assms by (cases; auto simp: lease_op_defs split: if_split_asm)+

inductive obligation_step :: "restore_obligation \<Rightarrow> restore_obligation \<Rightarrow> bool" where
  set_required_extents: "set_required_extents ids b now ob = Inr ob' \<Longrightarrow> obligation_step ob ob'"
| start_command: "start_command c k now stamp ob = Inr ob' \<Longrightarrow> obligation_step ob ob'"
| clear_command: "obligation_step ob (snd (clear_command ob))"
| block: "obligation_step ob (obligation_block codes fp stamp token wake now ob)"
| mark_ticket_ready: "obligation_step ob (mark_ticket_ready now ob)"
| native_fallback: "obligation_step ob (use_native_admission_fallback now ob)"
| finish: "obligation_finish s now reason ob = Inr ob' \<Longrightarrow> obligation_step ob ob'"

lemmas obligation_op_defs = set_required_extents_def start_command_def clear_command_def
  obligation_block_def mark_ticket_ready_def use_native_admission_fallback_def obligation_finish_def
  obligation_terminal_def Let_def

lemma obligation_step_keeps:
  assumes "obligation_step ob ob'"
  shows "\<not> obligation_live ob \<Longrightarrow> \<not> obligation_live ob'"
    and "ob_obligation_id ob' = ob_obligation_id ob" and "ob_request_id ob' = ob_request_id ob"
  using assms by (cases; auto simp: obligation_op_defs split: if_split_asm)+

text \<open>At most one command is in flight, it is the last one started, and the state says which
  kind it is.\<close>

definition obligation_inv :: "restore_obligation \<Rightarrow> bool" where
  "obligation_inv ob \<longleftrightarrow>
     (ob_pending_command_id ob = None \<longrightarrow> ob_pending_command_kind ob = None) \<and>
     (\<forall>c. ob_pending_command_id ob = Some c \<longrightarrow>
        ob_command_ids ob \<noteq> [] \<and> last (ob_command_ids ob) = c \<and>
        ob_pending_command_kind ob \<noteq> None \<and>
        ob_state ob = (if ob_pending_command_kind ob = Some PREFETCH_CONTEXT then H2D_INFLIGHT
                       else EVICT_FOR_RESTORE))"

lemma obligation_inv_cleared:
  "ob_pending_command_id ob = None \<Longrightarrow> ob_pending_command_kind ob = None \<Longrightarrow> obligation_inv ob"
  by (simp add: obligation_inv_def)

lemma obligation_inv_cong:
  "ob_pending_command_id ob' = ob_pending_command_id ob \<Longrightarrow>
   ob_pending_command_kind ob' = ob_pending_command_kind ob \<Longrightarrow>
   ob_command_ids ob' = ob_command_ids ob \<Longrightarrow> ob_state ob' = ob_state ob \<Longrightarrow>
   obligation_inv ob' = obligation_inv ob"
  by (simp add: obligation_inv_def)

lemma mark_ticket_ready_inv: "obligation_inv ob \<Longrightarrow> obligation_inv (mark_ticket_ready now ob)"
  by (simp add: mark_ticket_ready_def Let_def clear_command_def obligation_inv_cleared)

lemma start_command_inv: "start_command c k now stamp ob = Inr ob' \<Longrightarrow> obligation_inv ob'"
  by (simp add: start_command_def split: if_split_asm)
    (clarsimp simp: obligation_inv_def)+

lemma finish_inv: "obligation_finish s now reason ob = Inr ob' \<Longrightarrow> obligation_inv ob'"
  by (rule obligation_inv_cleared)
    (auto simp: obligation_finish_def Let_def clear_command_def split: if_split_asm)

lemma obligation_step_inv: "obligation_step ob ob' \<Longrightarrow> obligation_inv ob \<Longrightarrow> obligation_inv ob'"
proof (induction rule: obligation_step.induct)
  case (set_required_extents ids b now ob ob')
  then have "ob_pending_command_id ob' = ob_pending_command_id ob \<and>
      ob_pending_command_kind ob' = ob_pending_command_kind ob \<and>
      ob_command_ids ob' = ob_command_ids ob \<and> ob_state ob' = ob_state ob"
    by (auto simp: set_required_extents_def Let_def split: if_split_asm)
  with set_required_extents obligation_inv_cong [of ob' ob] show ?case by simp
next
  case start_command
  then show ?case by (blast intro: start_command_inv)
next
  case clear_command
  then show ?case by (simp add: clear_command_def obligation_inv_cleared)
next
  case block
  then show ?case by (simp add: obligation_block_def Let_def clear_command_def obligation_inv_cleared)
next
  case mark_ticket_ready
  then show ?case by (rule mark_ticket_ready_inv)
next
  case (native_fallback ob now)
  then have "obligation_inv (ob\<lparr>ob_native_admission_fallback := True\<rparr>)"
    by (subst obligation_inv_cong [of _ ob]) simp_all
  with native_fallback show ?case
    by (simp add: use_native_admission_fallback_def mark_ticket_ready_inv)
next
  case finish
  then show ?case by (blast intro: finish_inv)
qed

interpretation ob: invariant_machine obligation_step obligation_inv
  by unfold_locales (rule obligation_step_inv)

section \<open>Bounded tables\<close>

definition live_count :: "('v \<Rightarrow> bool) \<Rightarrow> (string, 'v) dict \<Rightarrow> nat" where
  "live_count live d = length (filter (\<lambda>a. live (snd a)) d)"

definition table_inv ::
  "('v \<Rightarrow> bool) \<Rightarrow> ('v \<Rightarrow> string) \<Rightarrow> string \<Rightarrow> int \<Rightarrow> (string, 'v) dict \<Rightarrow> int \<Rightarrow> bool" where
  "table_inv live ident prefix max_active d seq \<longleftrightarrow>
     dict_ok d \<and> 0 \<le> seq \<and> int (live_count live d) \<le> max_active \<and>
     distinct (map (\<lambda>a. ident (snd a)) d) \<and>
     (\<forall>(k, v) \<in> set d. \<exists>n. 1 \<le> n \<and> n \<le> seq \<and> ident v = prefix @ str_int n)"

text \<open>Counting after an update: replacing a dead or absent entry adds at most one.\<close>

lemma count_update:
  assumes "dict_ok d"
  shows "live_count live (AList.update k v d) =
    live_count live d - (case map_of d k of None \<Rightarrow> 0 | Some u \<Rightarrow> if live u then 1 else 0)
      + (if live v then 1 else 0)"
  using assms
proof (induction d)
  case (Cons a d)
  have pos: "0 < live_count live d" if "map_of d k = Some u" "live u" for u
    using map_of_SomeD [OF that(1)] that(2) by (force simp: live_count_def filter_empty_conv)
  from Cons pos show ?case
    by (cases a) (auto simp: map_of_eq_None_iff live_count_def split: option.splits if_splits)
qed (simp add: live_count_def)

lemma count_pos: "map_of d k = Some u \<Longrightarrow> live u \<Longrightarrow> 0 < live_count live d"
  by (force simp: live_count_def filter_empty_conv dest: map_of_SomeD)

lemma ident_update:
  assumes "dict_ok d"
  shows "set (AList.update k v d) = insert (k, v) {(k', v'). (k', v') \<in> set d \<and> k' \<noteq> k}"
  using assms by (induction d) (auto simp: image_iff)

locale bounded_table =
  fixes live :: "'v \<Rightarrow> bool" and vstep :: "'v \<Rightarrow> 'v \<Rightarrow> bool" and ident :: "'v \<Rightarrow> string"
    and prefix :: string
  assumes dead_stays: "vstep v v' \<Longrightarrow> \<not> live v \<Longrightarrow> \<not> live v'"
    and ident_kept: "vstep v v' \<Longrightarrow> ident v' = ident v"
begin

lemma distinct_ident_update:
  assumes "dict_ok d" and "distinct (map (\<lambda>a. ident (snd a)) d)"
    and "\<forall>(k', u) \<in> set d. k' \<noteq> k \<longrightarrow> ident u \<noteq> ident v"
  shows "distinct (map (\<lambda>a. ident (snd a)) (AList.update k v d))"
  using assms
proof (induction d)
  case (Cons a d)
  then show ?case
  proof (cases "fst a = k")
    case True
    with Cons.prems show ?thesis by (cases a) fastforce
  next
    case False
    obtain k1 u1 where a: "a = (k1, u1)" by fastforce
    have IH: "distinct (map (\<lambda>a. ident (snd a)) (AList.update k v d))" using Cons by auto
    have "ident u1 \<notin> (\<lambda>a. ident (snd a)) ` set (AList.update k v d)"
      using Cons.prems False a by (auto simp: ident_update image_iff)
    with IH a False show ?thesis by simp
  qed
qed simp

lemma insert_keeps:
  assumes inv: "table_inv live ident prefix m d seq"
    and free: "\<And>u. map_of d k = Some u \<Longrightarrow> \<not> live u"
    and room: "int (live_count live d) < m"
    and new: "ident v = prefix @ str_int (seq + 1)"
  shows "table_inv live ident prefix m (AList.update k v d) (seq + 1)"
proof -
  have d: "dict_ok d" and s: "0 \<le> seq" and di: "distinct (map (\<lambda>a. ident (snd a)) d)"
    and ids: "\<And>k v. (k, v) \<in> set d \<Longrightarrow> \<exists>n. 1 \<le> n \<and> n \<le> seq \<and> ident v = prefix @ str_int n"
    using inv by (auto simp: table_inv_def)
  have "live_count live (AList.update k v d) \<le> live_count live d + 1"
    using free by (auto simp: count_update [OF d] split: option.split)
  moreover have "\<forall>(k', u) \<in> set d. k' \<noteq> k \<longrightarrow> ident u \<noteq> ident v"
    using ids s new by (fastforce simp: str_int_inject)
  moreover have "\<exists>n. 1 \<le> n \<and> n \<le> seq + 1 \<and> ident u = prefix @ str_int n"
    if "(k', u) \<in> set (AList.update k v d)" for k' u
  proof (cases "k' = k")
    case True
    with that new s show ?thesis by (intro exI [of _ "seq + 1"]) (auto simp: ident_update [OF d])
  next
    case False
    with that ids [of k' u] show ?thesis by (force simp: ident_update [OF d])
  qed
  ultimately show ?thesis
    using d s room distinct_ident_update [OF d di, of k v] by (auto simp: table_inv_def)
qed

lemma mutate_keeps:
  assumes inv: "table_inv live ident prefix m d seq" and v: "map_of d k = Some v" and step: "vstep v v'"
  shows "table_inv live ident prefix m (AList.update k v' d) seq"
proof -
  have d: "dict_ok d" and di: "distinct (map (\<lambda>a. ident (snd a)) d)"
    and ids: "\<And>k v. (k, v) \<in> set d \<Longrightarrow> \<exists>n. 1 \<le> n \<and> n \<le> seq \<and> ident v = prefix @ str_int n"
    using inv by (auto simp: table_inv_def)
  have vd: "(k, v) \<in> set d" using v by (rule map_of_SomeD)
  have "live_count live (AList.update k v' d) \<le> live_count live d"
    using dead_stays [OF step] v count_pos [of d k v live] by (auto simp: count_update [OF d])
  moreover have "\<forall>(k', u) \<in> set d. k' \<noteq> k \<longrightarrow> ident u \<noteq> ident v'"
    using di vd ident_kept [OF step] d by (fastforce simp: distinct_map inj_on_def)
  moreover have "\<exists>n. 1 \<le> n \<and> n \<le> seq \<and> ident u = prefix @ str_int n"
    if "(k', u) \<in> set (AList.update k v' d)" for k' u
    using that ids [OF vd] ids [of k' u] ident_kept [OF step] by (auto simp: ident_update [OF d])
  ultimately show ?thesis
    using inv d distinct_ident_update [OF d di, of k v'] by (auto simp: table_inv_def)
qed

lemma skip_keeps: "table_inv live ident prefix m d seq \<Longrightarrow> table_inv live ident prefix m d (seq + 1)"
  by (force simp: table_inv_def)

end

interpretation lt: bounded_table lease_live lease_step rl_lease_id "''restore-lease-''"
  by unfold_locales (auto simp: lease_step_keeps)

interpretation ot: bounded_table obligation_live obligation_step ob_obligation_id "''restore-''"
  by unfold_locales (auto simp: obligation_step_keeps)

section \<open>Runs of the indexes\<close>

inductive lease_index_step :: "lease_index \<Rightarrow> lease_index \<Rightarrow> bool" where
  grant: "lease_grant ob ts tok b h ix = (r, ix') \<Longrightarrow> lease_index_step ix ix'"
| mutate: "lease_get ix q = Some l \<Longrightarrow> lease_step l l' \<Longrightarrow>
     lease_index_step ix (ix\<lparr>li_by_request := AList.update q l' (li_by_request ix)\<rparr>)"

definition lease_index_inv :: "lease_index \<Rightarrow> bool" where
  "lease_index_inv ix \<longleftrightarrow>
     table_inv lease_live rl_lease_id ''restore-lease-'' (li_max_active ix) (li_by_request ix) (li_sequence ix)"

lemma length_lease_active: "length (lease_active ix) = live_count lease_live (li_by_request ix)"
  by (simp add: lease_active_def live_count_def filter_map o_def)

lemma lease_grant_inv:
  assumes g: "lease_grant ob ts tok b h ix = (r, ix')" and inv: "lease_index_inv ix"
  shows "lease_index_inv ix'"
proof -
  note skip = lt.skip_keeps [OF inv [unfolded lease_index_inv_def]]
  have "(case r of Inl e \<Rightarrow> True | Inr l \<Rightarrow> rl_lease_id l = ''restore-lease-'' @ str_int (li_sequence ix + 1))"
    and upd: "ix' = ix \<or> ix' = ix\<lparr>li_sequence := li_sequence ix + 1\<rparr> \<or>
      (\<exists>l. r = Inr l \<and> ix' = ix\<lparr>li_sequence := li_sequence ix + 1,
         li_by_request := AList.update (ob_request_id ob) l (li_by_request ix)\<rparr> \<and>
       (\<forall>u. map_of (li_by_request ix) (ob_request_id ob) = Some u \<longrightarrow> \<not> lease_live u) \<and>
       int (length (lease_active ix)) < li_max_active ix)"
    using g
    by (auto simp: lease_grant_def lease_get_def Let_def restore_lease_post_init_def rbind_eq_Inr
        split: if_split_asm option.splits sum.splits)
  from upd show ?thesis
  proof (elim disjE exE conjE)
    fix l assume l: "r = Inr l" and ix': "ix' = ix\<lparr>li_sequence := li_sequence ix + 1,
         li_by_request := AList.update (ob_request_id ob) l (li_by_request ix)\<rparr>"
      and "\<forall>u. map_of (li_by_request ix) (ob_request_id ob) = Some u \<longrightarrow> \<not> lease_live u"
      and "int (length (lease_active ix)) < li_max_active ix"
    then show ?thesis
      unfolding lease_index_inv_def ix' using inv l
        \<open>case r of Inl e \<Rightarrow> True | Inr l \<Rightarrow> rl_lease_id l = ''restore-lease-'' @ str_int (li_sequence ix + 1)\<close>
      by (auto simp: lease_index_inv_def length_lease_active intro!: lt.insert_keeps)
  qed (use inv skip in \<open>simp_all add: lease_index_inv_def\<close>)
qed

interpretation li: invariant_machine lease_index_step lease_index_inv
proof
  show "lease_index_inv t" if "lease_index_step s t" and "lease_index_inv s" for s t
    using that
  proof (cases rule: lease_index_step.cases)
    case grant
    with that(2) show ?thesis by (blast intro: lease_grant_inv)
  next
    case (mutate q l l')
    with that(2) show ?thesis by (simp add: lease_index_inv_def lease_get_def lt.mutate_keeps)
  qed
qed

lemma lease_index_inv_init: "lease_index_init m = Inr ix \<Longrightarrow> lease_index_inv ix"
  by (auto simp: lease_index_init_def lease_index_inv_def table_inv_def live_count_def split: if_split_asm)

inductive obligation_index_step :: "obligation_index \<Rightarrow> obligation_index \<Rightarrow> bool" where
  create: "obligation_create q w iv c e src plan ts path cause ix = (r, ix') \<Longrightarrow> obligation_index_step ix ix'"
| mutate: "obligation_get ix q = Some ob \<Longrightarrow> obligation_step ob ob' \<Longrightarrow>
     obligation_index_step ix (ix\<lparr>oi_by_request := AList.update q ob' (oi_by_request ix)\<rparr>)"

definition obligation_index_inv :: "obligation_index \<Rightarrow> bool" where
  "obligation_index_inv ix \<longleftrightarrow>
     table_inv obligation_live ob_obligation_id ''restore-'' (oi_max_active ix) (oi_by_request ix) (oi_sequence ix) \<and>
     (\<forall>q ob. map_of (oi_by_request ix) q = Some ob \<longrightarrow> obligation_inv ob)"

lemma length_obligation_active:
  "length (obligation_active ix) = live_count obligation_live (oi_by_request ix)"
  by (simp add: obligation_active_def live_count_def filter_map o_def)

lemma new_obligation_post_init:
  assumes "restore_obligation_post_init (new_obligation oid q w iv c e src plan ts path cause) = Inr ob"
  shows "ob_obligation_id ob = oid" and "obligation_inv ob"
  using assms by (auto simp: restore_obligation_post_init_def new_obligation_def obligation_inv_def
      split: if_split_asm)

lemma can_create_single:
  "obligation_can_create ix [q] \<Longrightarrow> int (live_count obligation_live (oi_by_request ix)) < oi_max_active ix"
  "obligation_can_create ix [q] \<Longrightarrow> map_of (oi_by_request ix) q = Some ob \<Longrightarrow> \<not> obligation_live ob"
  by (auto simp: obligation_can_create_def Let_def length_obligation_active split: if_split_asm option.splits)

lemma obligation_create_inv:
  assumes g: "obligation_create q w iv c e src plan ts path cause ix = (r, ix')"
    and inv: "obligation_index_inv ix"
  shows "obligation_index_inv ix'"
proof -
  let ?n = "oi_sequence ix + 1"
  let ?new = "restore_obligation_post_init
    (new_obligation (''restore-'' @ str_int ?n) q w iv c e src plan ts path cause)"
  have t: "table_inv obligation_live ob_obligation_id ''restore-'' (oi_max_active ix) (oi_by_request ix) (oi_sequence ix)"
    and obs: "\<And>q ob. map_of (oi_by_request ix) q = Some ob \<Longrightarrow> obligation_inv ob"
    using inv by (auto simp: obligation_index_inv_def)
  show ?thesis
  proof (cases "obligation_can_create ix [q]")
    case False
    with g inv show ?thesis by (simp add: obligation_create_def)
  next
    case True
    show ?thesis
    proof (cases ?new)
      case (Inl err)
      with g True have "ix' = ix\<lparr>oi_sequence := ?n\<rparr>" by (simp add: obligation_create_def Let_def)
      with ot.skip_keeps [OF t] obs show ?thesis by (simp add: obligation_index_inv_def)
    next
      case (Inr ob)
      with g True have ix': "ix' = ix\<lparr>oi_sequence := ?n, oi_by_request := AList.update q ob (oi_by_request ix)\<rparr>"
        by (simp add: obligation_create_def Let_def)
      have "table_inv obligation_live ob_obligation_id ''restore-'' (oi_max_active ix)
          (AList.update q ob (oi_by_request ix)) ?n"
        by (rule ot.insert_keeps [OF t can_create_single(2) [OF True] can_create_single(1) [OF True]
              new_obligation_post_init(1) [OF Inr]])
      with new_obligation_post_init(2) [OF Inr] obs show ?thesis
        by (simp add: ix' obligation_index_inv_def map_of_update)
    qed
  qed
qed

interpretation oi: invariant_machine obligation_index_step obligation_index_inv
proof
  show "obligation_index_inv t" if "obligation_index_step s t" and "obligation_index_inv s" for s t
    using that
  proof (cases rule: obligation_index_step.cases)
    case create
    with that(2) show ?thesis by (blast intro: obligation_create_inv)
  next
    case (mutate q ob ob')
    with that(2) show ?thesis
      by (simp add: obligation_index_inv_def obligation_get_def ot.mutate_keeps map_of_update obligation_step_inv)
  qed
qed

lemma obligation_index_inv_init: "obligation_index_init m = Inr ix \<Longrightarrow> obligation_index_inv ix"
  by (auto simp: obligation_index_init_def obligation_index_inv_def table_inv_def live_count_def split: if_split_asm)

section \<open>Service grace, transactions and the tracker\<close>

text \<open>Feeding a sequence of decode observations to a grace.\<close>

fun observe_all :: "(int \<times> real) list \<Rightarrow> service_grace \<Rightarrow> bool list \<times> service_grace" where
  "observe_all [] g = ([], g)"
| "observe_all ((n, now) # obs) g =
     (let (b, g1) = observe_decode n now g; (bs, g2) = observe_all obs g1 in (b # bs, g2))"

definition useful_tokens :: "(int \<times> real) list \<Rightarrow> int" where
  "useful_tokens obs = sum_list (map (\<lambda>(n, _). max 0 n) obs)"

lemma useful_tokens_simps [simp]:
  "useful_tokens [] = 0" "useful_tokens ((n, t) # obs) = max 0 n + useful_tokens obs"
  by (simp_all add: useful_tokens_def)

lemma useful_tokens_nonneg: "0 \<le> useful_tokens obs"
  by (induction obs) auto

lemma observe_all_done:
  assumes "\<not> grace_active g"
  shows "observe_all obs g = (replicate (length obs) False, g)"
  using assms by (induction obs) (auto simp: observe_decode_def)

lemma observe_decode_grace:
  assumes "grace_active g" and "0 < n"
  shows "observe_decode n now g =
    (let g' = g\<lparr>sg_served_decode_tokens := sg_served_decode_tokens g + n\<rparr> in
     if sg_served_decode_tokens g + n < sg_required_decode_tokens g then (False, g')
     else (True, g'\<lparr>sg_completed_ts_ms := Some now, sg_terminal_reason := Some ''service_quantum_satisfied''\<rparr>))"
  using assms by (simp add: observe_decode_def Let_def)

lemma observe_all_release:
  assumes "grace_active g" and "sg_served_decode_tokens g < sg_required_decode_tokens g"
  shows "(grace_active (snd (observe_all obs g)) \<longleftrightarrow>
           sg_served_decode_tokens g + useful_tokens obs < sg_required_decode_tokens g) \<and>
    length (filter id (fst (observe_all obs g))) =
      (if sg_served_decode_tokens g + useful_tokens obs < sg_required_decode_tokens g then 0 else 1)"
  using assms
proof (induction obs arbitrary: g)
  case (Cons a obs)
  obtain n now where a: "a = (n, now)" by fastforce
  note nonneg = useful_tokens_nonneg [of obs]
  show ?case
  proof (cases "0 < n")
    case False
    then have "observe_decode n now g = (False, g)" by (simp add: observe_decode_def)
    with Cons.IH [OF Cons.prems] False a show ?thesis by (simp add: case_prod_unfold Let_def max_def)
  next
    case True
    let ?g = "g\<lparr>sg_served_decode_tokens := sg_served_decode_tokens g + n\<rparr>"
    show ?thesis
    proof (cases "sg_served_decode_tokens g + n < sg_required_decode_tokens g")
      case less: True
      have "grace_active ?g" using Cons.prems by (simp add: grace_active_def)
      from Cons.IH [OF this] less True a Cons.prems(1) show ?thesis
        by (simp add: observe_decode_grace case_prod_unfold Let_def algebra_simps max_def)
    next
      case ge: False
      let ?d = "?g\<lparr>sg_completed_ts_ms := Some now, sg_terminal_reason := Some ''service_quantum_satisfied''\<rparr>"
      have "\<not> grace_active ?d" by (simp add: grace_active_def)
      from observe_all_done [OF this, of obs] ge True a Cons.prems(1) nonneg show ?thesis
        by (simp add: observe_decode_grace Let_def grace_active_def max_def)
    qed
  qed
qed simp

definition live_operation_key :: "physical_operation \<Rightarrow> string \<times> py_value list \<times> int" where
  "live_operation_key op = (po_stage op, po_attempt_key op, po_certificate_generation op)"

inductive transaction_step :: "restore_transaction \<Rightarrow> restore_transaction \<Rightarrow> bool" where
  add: "add_operation op tx = Inr tx' \<Longrightarrow> transaction_step tx tx'"
| finish: "i < length (tx_physical_operations tx) \<Longrightarrow> transaction_step tx
     (tx\<lparr>tx_physical_operations := (tx_physical_operations tx)
           [i := (tx_physical_operations tx ! i)\<lparr>po_terminal_status := Some status\<rparr>]\<rparr>)"

definition transaction_inv :: "restore_transaction \<Rightarrow> bool" where
  "transaction_inv tx \<longleftrightarrow>
     distinct (map live_operation_key (filter (\<lambda>op. po_terminal_status op = None) (tx_physical_operations tx)))"

lemma filter_finish:
  "i < length ops \<Longrightarrow>
     distinct (map f (filter P ops)) \<Longrightarrow> \<not> P x \<Longrightarrow> distinct (map f (filter P (ops[i := x])))"
proof (induction ops arbitrary: i)
  case (Cons a ops)
  have sub: "set (filter P (ops[j := x])) \<subseteq> set (filter P ops)" for j
    using set_update_subset_insert [of ops j x] Cons.prems(3) by auto
  show ?case
  proof (cases i)
    case 0
    with Cons.prems show ?thesis by (auto split: if_split_asm)
  next
    case (Suc j)
    with Cons sub [of j] show ?thesis by (auto split: if_split_asm)
  qed
qed simp

interpretation tx: invariant_machine transaction_step transaction_inv
proof
  show "transaction_inv t" if "transaction_step s t" and "transaction_inv s" for s t
    using that
  proof (cases rule: transaction_step.cases)
    case (add op)
    then have "can_submit (po_stage op) (po_attempt_key op) (po_certificate_generation op) s"
      and t: "t = s\<lparr>tx_physical_operations := tx_physical_operations s @ [op]\<rparr>"
      by (auto simp: add_operation_def split: if_split_asm)
    then have "live_operation_key op \<notin>
        live_operation_key ` set (filter (\<lambda>op. po_terminal_status op = None) (tx_physical_operations s))"
      by (auto simp: can_submit_def live_operation_key_def)
    with that(2) show ?thesis by (simp add: t transaction_inv_def)
  next
    case (finish i status)
    with that(2) show ?thesis by (simp add: transaction_inv_def filter_finish)
  qed
qed

definition tracker_update :: "'f \<Rightarrow> int \<times> 'f option \<Rightarrow> int \<times> 'f option" where
  "tracker_update f p = (if Some f \<noteq> snd p then (fst p + 1, Some f) else p)"

definition tracker_obligations :: "revision_tracker \<Rightarrow> int \<times> obligation_fingerprint list option" where
  "tracker_obligations t = (rt_obligation_revision t, rt_obligation_fingerprint t)"

definition tracker_leases :: "revision_tracker \<Rightarrow> int \<times> lease_fingerprint list option" where
  "tracker_leases t = (rt_lease_revision t, rt_lease_fingerprint t)"

definition tracker_graces :: "revision_tracker \<Rightarrow> int \<times> grace_fingerprint list option" where
  "tracker_graces t = (rt_grace_revision t, rt_grace_fingerprint t)"

lemma tracker_observe_updates:
  assumes "tracker_observe obs leases graces t = (r, t')"
  shows "tracker_obligations t' =
      tracker_update (map obligation_fp (sort_key ob_obligation_id obs)) (tracker_obligations t)"
    and "tracker_leases t' = tracker_update (map lease_fp (sort_key rl_lease_id leases)) (tracker_leases t)"
    and "tracker_graces t' = tracker_update (map grace_fp (sort_key sg_request_id graces)) (tracker_graces t)"
  using assms
  by (auto simp: tracker_observe_def Let_def tracker_obligations_def tracker_leases_def
      tracker_graces_def tracker_update_def)

inductive tracker_step :: "revision_tracker \<Rightarrow> revision_tracker \<Rightarrow> bool" where
  "tracker_observe obs leases graces t = (r, t') \<Longrightarrow> tracker_step t t'"

text \<open>Along a run the three counters grow, and a counter that did not move has kept its
  fingerprint.\<close>

definition tracked :: "int \<times> 'f option \<Rightarrow> int \<times> 'f option \<Rightarrow> bool" where
  "tracked p p' \<longleftrightarrow> fst p \<le> fst p' \<and> (fst p = fst p' \<longrightarrow> snd p = snd p')"

lemma tracked_update: "tracked p (tracker_update f p)"
  by (simp add: tracked_def tracker_update_def)

lemma tracked_trans: "tracked p q \<Longrightarrow> tracked q r \<Longrightarrow> tracked p r"
  by (auto simp: tracked_def)

lemma tracker_run_tracked:
  assumes "rtranclp tracker_step t t'"
  shows "tracked (tracker_obligations t) (tracker_obligations t')"
    and "tracked (tracker_leases t) (tracker_leases t')"
    and "tracked (tracker_graces t) (tracker_graces t')"
proof -
  have "tracked (tracker_obligations t) (tracker_obligations t') \<and>
    tracked (tracker_leases t) (tracker_leases t') \<and> tracked (tracker_graces t) (tracker_graces t')"
    using assms
  proof (induction)
    case (step u v)
    from step(2) obtain obs leases graces r where "tracker_observe obs leases graces u = (r, v)"
      by (auto elim: tracker_step.cases)
    note upd = tracker_observe_updates [OF this]
    show ?case
      unfolding upd by (intro conjI tracked_trans [OF _ tracked_update]) (simp_all add: step.IH)
  qed (simp add: tracked_def)
  then show "tracked (tracker_obligations t) (tracker_obligations t')"
    "tracked (tracker_leases t) (tracker_leases t')" "tracked (tracker_graces t) (tracker_graces t')"
    by blast+
qed

section \<open>Examples\<close>

definition demo_obligation :: "string \<Rightarrow> restore_obligation" where
  "demo_obligation q =
     new_obligation ''restore-1'' q ''wf'' ''inv'' ''ctx'' 0 ''tx'' ''plan'' 0 [''e''] RUNNING_RETRACTION"

definition demo_lease_index :: lease_index where
  "demo_lease_index = \<lparr>li_max_active = 1, li_by_request = [], li_sequence = 0\<rparr>"

lemma demo_lease_init: "lease_index_init 1 = Inr demo_lease_index"
  by (simp add: lease_index_init_def demo_lease_index_def)

lemma demo_lease_grant:
  "\<exists>l ix. lease_grant (demo_obligation ''r'') 0 1 1 0 demo_lease_index = (Inr l, ix) \<and>
     lease_active ix = [l]"
  by (simp add: lease_grant_def demo_lease_index_def demo_obligation_def new_obligation_def Let_def
      lease_get_def lease_active_def restore_lease_post_init_def require_named_def lease_terminal_def)

lemma demo_obligation_index:
  "\<exists>ix ob ix'. obligation_index_init 1 = Inr ix \<and>
     obligation_create ''r'' ''wf'' ''inv'' ''ctx'' 0 ''tx'' ''plan'' 0 [''e''] RUNNING_RETRACTION ix = (Inr ob, ix')"
  by (simp add: obligation_index_init_def obligation_create_def obligation_can_create_def Let_def
      obligation_active_def restore_obligation_post_init_def require_named_def new_obligation_def extent_ids_def
      py_sorted_set_def)

lemma demo_obligation_inv: "obligation_inv (demo_obligation q)"
  by (simp add: demo_obligation_def new_obligation_def obligation_inv_def)

definition demo_grace :: service_grace where
  "demo_grace = \<lparr>sg_request_id = ''r'', sg_obligation_id = ''o'', sg_granted_ts_ms = 0,
     sg_required_decode_tokens = 4, sg_served_decode_tokens = 0, sg_last_observed_output_tokens = None,
     sg_completed_ts_ms = None, sg_terminal_reason = None\<rparr>"

section \<open>Properties\<close>

text \<open>C5. The lease table never exceeds its capacity: after any sequence of grants (successful or
  refused) and lease transitions, at most \<open>max_active\<close> leases are active, lease identifiers
  are pairwise different, and a request that owns an active lease is refused a second one.\<close>

theorem lease_capacity_bounded:
  assumes "lease_index_init m = Inr ix0" and "rtranclp lease_index_step ix0 ix"
  shows "int (length (lease_active ix)) \<le> li_max_active ix \<and> distinct (map rl_lease_id (lease_all ix)) \<and>
    (\<forall>q l ob ts tok b h. lease_get ix q = Some l \<longrightarrow> \<not> lease_terminal (rl_state l) \<longrightarrow> ob_request_id ob = q \<longrightarrow>
       (\<exists>e. lease_grant ob ts tok b h ix = (Inl e, ix)))"
proof -
  have inv: "lease_index_inv ix" by (rule li.run_inv [OF assms(2) lease_index_inv_init [OF assms(1)]])
  have "distinct (map rl_lease_id (map snd (li_by_request ix)))"
    using inv by (simp add: lease_index_inv_def table_inv_def o_def)
  then have "distinct (map rl_lease_id (lease_all ix))"
    unfolding lease_all_def by (simp only: distinct_map distinct_sort set_sort)
  with inv show ?thesis
    by (auto simp: lease_index_inv_def table_inv_def length_lease_active lease_grant_def)
qed

theorem lease_capacity_bounded_witness:
  "\<exists>l ix. lease_grant (demo_obligation ''r'') 0 1 1 0 demo_lease_index = (Inr l, ix) \<and>
     int (length (lease_active ix)) \<le> li_max_active ix"
  using demo_lease_grant lease_capacity_bounded [OF demo_lease_init]
  by (meson lease_index_step.grant r_into_rtranclp)

text \<open>The obligation table never exceeds its capacity, obligation identifiers are unique, and
  every stored obligation has at most one command in flight: the last one it started, of the
  kind its state names.\<close>

theorem obligation_capacity_bounded:
  assumes "obligation_index_init m = Inr ix0" and "rtranclp obligation_index_step ix0 ix"
  shows "int (length (obligation_active ix)) \<le> oi_max_active ix \<and>
    distinct (map ob_obligation_id (obligation_all ix)) \<and>
    (\<forall>q ob c. obligation_get ix q = Some ob \<longrightarrow> ob_pending_command_id ob = Some c \<longrightarrow>
       last (ob_command_ids ob) = c \<and> \<not> obligation_terminal (ob_state ob) \<and>
       ob_state ob = (if ob_pending_command_kind ob = Some PREFETCH_CONTEXT then H2D_INFLIGHT
                      else EVICT_FOR_RESTORE))"
proof -
  have inv: "obligation_index_inv ix"
    by (rule oi.run_inv [OF assms(2) obligation_index_inv_init [OF assms(1)]])
  have "distinct (map ob_obligation_id (map snd (oi_by_request ix)))"
    using inv by (simp add: obligation_index_inv_def table_inv_def o_def)
  then have "distinct (map ob_obligation_id (obligation_all ix))"
    unfolding obligation_all_def by (simp only: distinct_map distinct_sort set_sort)
  moreover have "last (ob_command_ids ob) = c \<and> \<not> obligation_terminal (ob_state ob) \<and>
       ob_state ob = (if ob_pending_command_kind ob = Some PREFETCH_CONTEXT then H2D_INFLIGHT
                      else EVICT_FOR_RESTORE)"
    if "obligation_get ix q = Some ob" "ob_pending_command_id ob = Some c" for q ob c
  proof -
    have "obligation_inv ob" using inv that(1) by (simp add: obligation_index_inv_def obligation_get_def)
    with that(2) show ?thesis by (simp add: obligation_inv_def obligation_terminal_def)
  qed
  moreover have "int (length (obligation_active ix)) \<le> oi_max_active ix"
    using inv by (simp add: obligation_index_inv_def table_inv_def length_obligation_active)
  ultimately show ?thesis by blast
qed

theorem obligation_capacity_bounded_witness:
  "\<exists>ix ob ix'. obligation_index_init 1 = Inr ix \<and>
     obligation_create ''r'' ''wf'' ''inv'' ''ctx'' 0 ''tx'' ''plan'' 0 [''e''] RUNNING_RETRACTION ix = (Inr ob, ix') \<and>
     int (length (obligation_active ix')) \<le> oi_max_active ix'"
  using demo_obligation_index obligation_capacity_bounded
  by (meson obligation_index_step.create r_into_rtranclp)

text \<open>Terminal states are final: no sequence of method calls makes a terminal obligation or a
  terminal lease active again; a terminal obligation refuses to start a command, and blocking
  it or offering it a ticket changes nothing.\<close>

theorem terminal_restore_states_final:
  assumes "obligation_terminal (ob_state ob)" and "rtranclp obligation_step ob ob'"
    and "lease_terminal (rl_state l)" and "rtranclp lease_step l l'"
  shows "obligation_terminal (ob_state ob') \<and> lease_terminal (rl_state l') \<and>
    (\<forall>c k now stamp. \<exists>e. start_command c k now stamp ob' = Inl e) \<and>
    (\<forall>codes fp stamp token wake now. obligation_block codes fp stamp token wake now ob' = ob') \<and>
    (\<forall>now. mark_ticket_ready now ob' = ob' \<and> use_native_admission_fallback now ob' = ob') \<and>
    (\<forall>c. \<exists>e. mark_h2d_inflight c l' = Inl e) \<and> (\<exists>e. begin_admission l' = Inl e) \<and> mark_restored l' = l'"
proof -
  have "obligation_terminal (ob_state ob')"
    using assms(2,1) by (induction) (auto dest: obligation_step_keeps(1))
  moreover have "lease_terminal (rl_state l')"
    using assms(4,3) by (induction) (auto dest: lease_step_keeps(1))
  ultimately show ?thesis
    by (auto simp: start_command_def obligation_block_def mark_ticket_ready_def
        use_native_admission_fallback_def mark_h2d_inflight_def begin_admission_def mark_restored_def
        lease_terminal_def)
qed

definition demo_lease :: restore_lease where
  "demo_lease = \<lparr>rl_lease_id = ''l'', rl_obligation_id = ''o'', rl_request_id = ''r'', rl_workflow_id = ''w'',
     rl_context_id = ''c'', rl_granted_ts_ms = 0, rl_reserved_tokens = 1, rl_reserved_bytes = 1,
     rl_h2d_bytes = 0, rl_state = RELEASED, rl_h2d_command_id = None, rl_pin_active = False,
     rl_admission_attempts = 0, rl_terminal_ts_ms = Some 1, rl_terminal_reason = Some ''done''\<rparr>"

theorem terminal_restore_states_final_witness:
  "\<exists>ob e. obligation_finish SATISFIED 1 ''served'' (demo_obligation ''r'') = Inr ob \<and>
     start_command ''c'' PREFETCH_CONTEXT 2 [] ob = Inl e \<and> mark_restored demo_lease = demo_lease"
proof -
  obtain ob where ob: "obligation_finish SATISFIED 1 ''served'' (demo_obligation ''r'') = Inr ob"
      "obligation_terminal (ob_state ob)"
    by (simp add: obligation_finish_def Let_def clear_command_def obligation_terminal_def)
  have "lease_terminal (rl_state demo_lease)" by (simp add: demo_lease_def lease_terminal_def)
  from terminal_restore_states_final [OF ob(2) rtranclp.rtrancl_refl this rtranclp.rtrancl_refl] ob(1)
  show ?thesis by blast
qed

text \<open>Service grace: over any sequence of decode observations the grace is released exactly
  once, at the moment the useful tokens reach the required quantum, and it stays active as long
  as they do not.\<close>

theorem grace_released_once:
  assumes "service_grace_post_init g = Inr g" and "sg_served_decode_tokens g = 0" and "grace_active g"
  shows "(grace_active (snd (observe_all obs g)) \<longleftrightarrow> useful_tokens obs < sg_required_decode_tokens g) \<and>
    length (filter id (fst (observe_all obs g))) =
      (if useful_tokens obs < sg_required_decode_tokens g then 0 else 1)"
proof -
  have "0 < sg_required_decode_tokens g"
    using assms(1) by (simp add: service_grace_post_init_def split: if_split_asm)
  with observe_all_release [OF assms(3), of obs] assms(2) show ?thesis by simp
qed

theorem grace_released_once_witness:
  "\<not> grace_active (snd (observe_all [(3, 1), (0, 2), (2, 3), (7, 4)] demo_grace)) \<and>
   length (filter id (fst (observe_all [(3, 1), (0, 2), (2, 3), (7, 4)] demo_grace))) = 1"
  using grace_released_once [of demo_grace "[(3, 1), (0, 2), (2, 3), (7, 4)]"]
  by (simp add: demo_grace_def service_grace_post_init_def grace_active_def)

text \<open>The revision tracker is exact between any two of its states: the counters never
  decrease, and if a counter has the same value at two points of a run then the fingerprint of
  its objects was the same at both; one observation moves a counter exactly when the
  fingerprint differs from the last one.\<close>

theorem tracker_revisions_exact:
  assumes "rtranclp tracker_step t t'" and "tracker_observe obs leases graces t' = (r, t'')"
  shows "rt_obligation_revision t \<le> rt_obligation_revision t' \<and> rt_lease_revision t \<le> rt_lease_revision t' \<and>
    rt_grace_revision t \<le> rt_grace_revision t' \<and>
    (rt_obligation_revision t = rt_obligation_revision t' \<longrightarrow>
       rt_obligation_fingerprint t = rt_obligation_fingerprint t') \<and>
    (rt_lease_revision t = rt_lease_revision t' \<longrightarrow> rt_lease_fingerprint t = rt_lease_fingerprint t') \<and>
    (rt_grace_revision t = rt_grace_revision t' \<longrightarrow> rt_grace_fingerprint t = rt_grace_fingerprint t') \<and>
    rt_obligation_revision t'' = rt_obligation_revision t' +
      (if rt_obligation_fingerprint t' = Some (map obligation_fp (sort_key ob_obligation_id obs)) then 0 else 1)"
  using tracker_run_tracked [OF assms(1)] tracker_observe_updates(1) [OF assms(2)]
  by (auto simp: tracked_def tracker_obligations_def tracker_leases_def tracker_graces_def tracker_update_def
      split: if_split_asm)

theorem tracker_revisions_exact_witness:
  "\<exists>r t''. tracker_observe [demo_obligation ''r''] [] [] tracker_init = (r, t'') \<and>
     rt_obligation_revision t'' = 1"
proof -
  obtain r t'' where o: "tracker_observe [demo_obligation ''r''] [] [] tracker_init = (r, t'')"
    by fastforce
  from tracker_revisions_exact [OF rtranclp.rtrancl_refl o] o show ?thesis
    by (auto simp: tracker_init_def)
qed

text \<open>The documentation of the tracker promises to detect all mutations of an obligation,
  direct field assignments included. The fingerprint leaves out several fields: re-assigning the
  wake conditions, the external progress token, the attempt stamp, the blocker fingerprint or the
  progress time of an obligation is invisible to \<open>observe\<close>.\<close>

theorem tracker_misses_wake_conditions:
  assumes "tracker_observe [ob] leases graces t = (r, t')"
  shows "tracker_observe [ob\<lparr>ob_wake_conditions := wake, ob_last_external_progress_token := token,
      ob_last_attempt_stamp := stamp, ob_blocker_fingerprint := fp, ob_last_progress_ts_ms := ts\<rparr>]
      leases graces t = (r, t')"
proof -
  let ?ob = "ob\<lparr>ob_wake_conditions := wake, ob_last_external_progress_token := token,
      ob_last_attempt_stamp := stamp, ob_blocker_fingerprint := fp, ob_last_progress_ts_ms := ts\<rparr>"
  have fp: "map obligation_fp (sort_key ob_obligation_id [?ob]) = map obligation_fp (sort_key ob_obligation_id [ob])"
    by (simp add: obligation_fp_def)
  have ids: "map ob_obligation_id (filter obligation_live [?ob]) = map ob_obligation_id (filter obligation_live [ob])"
    by simp
  show ?thesis using assms unfolding tracker_observe_def fp ids .
qed

theorem tracker_misses_wake_conditions_witness:
  "\<exists>r t'. tracker_observe [demo_obligation ''r''] [] [] tracker_init = (r, t') \<and>
     tracker_observe [(demo_obligation ''r'')\<lparr>ob_wake_conditions := [''capacity''],
       ob_last_external_progress_token := None, ob_last_attempt_stamp := None,
       ob_blocker_fingerprint := Some ''f'', ob_last_progress_ts_ms := Some 9\<rparr>] [] [] tracker_init = (r, t')"
proof -
  obtain r t' where "tracker_observe [demo_obligation ''r''] [] [] tracker_init = (r, t')" by fastforce
  with tracker_misses_wake_conditions [OF this] show ?thesis by blast
qed

lemma distinct_filter_nth:
  assumes "distinct (map f (filter P xs))" and "i < j" and "j < length xs" and "P (xs ! i)" and "P (xs ! j)"
  shows "f (xs ! i) \<noteq> f (xs ! j)"
  using assms
proof (induction xs arbitrary: i j)
  case (Cons x xs)
  then obtain k where j: "j = Suc k" "k < length xs" by (cases j) auto
  show ?case
  proof (cases i)
    case 0
    with Cons.prems j have "xs ! k \<in> set (filter P xs)" by simp
    with 0 j Cons.prems show ?thesis by auto
  next
    case (Suc m)
    with Cons.IH [of m k] Cons.prems j show ?thesis by (auto split: if_split_asm)
  qed
qed simp

definition demo_operation :: "string \<Rightarrow> physical_operation" where
  "demo_operation stage = \<lparr>po_stage = stage, po_attempt_key = [], po_certificate_generation = 0,
     po_canonical_command_id = ''c'', po_adopted = False, po_terminal_status = None\<rparr>"

definition demo_transaction :: restore_transaction where
  "demo_transaction = \<lparr>tx_transaction_id = ''t'', tx_obligation = demo_obligation ''r'',
     tx_stage = WAIT_FEASIBILITY, tx_feasibility_certificate = None, tx_capacity_reservation_id = None,
     tx_prefix_pin_token = None, tx_physical_operations = [], tx_admission_state = ''waiting'',
     tx_service_grace = None, tx_wait_condition = [], tx_external_progress_token = None,
     tx_failure_evidence = []\<rparr>"

text \<open>A restore transaction never has two unfinished physical operations for the same stage,
  attempt key and certificate generation, whatever operations are added and finished.\<close>

theorem no_duplicate_live_operation:
  assumes "tx_physical_operations tx0 = []" and "rtranclp transaction_step tx0 tx"
    and "i < j" and "j < length (tx_physical_operations tx)"
    and "po_terminal_status (tx_physical_operations tx ! i) = None"
    and "po_terminal_status (tx_physical_operations tx ! j) = None"
  shows "live_operation_key (tx_physical_operations tx ! i) \<noteq> live_operation_key (tx_physical_operations tx ! j)"
proof -
  have "transaction_inv tx0" by (simp add: transaction_inv_def assms(1))
  then have "transaction_inv tx" by (rule tx.run_inv [OF assms(2)])
  then show ?thesis
    unfolding transaction_inv_def by (rule distinct_filter_nth) (use assms in simp_all)
qed

theorem no_duplicate_live_operation_witness:
  "\<exists>tx. rbind (add_operation (demo_operation ''h2d'') demo_transaction) (add_operation (demo_operation ''pin'')) = Inr tx \<and>
     live_operation_key (tx_physical_operations tx ! 0) \<noteq> live_operation_key (tx_physical_operations tx ! 1)"
proof -
  let ?a = "demo_operation ''h2d''" and ?b = "demo_operation ''pin''"
  let ?t1 = "demo_transaction\<lparr>tx_physical_operations := [?a]\<rparr>"
  let ?t2 = "demo_transaction\<lparr>tx_physical_operations := [?a, ?b]\<rparr>"
  have s1: "add_operation ?a demo_transaction = Inr ?t1"
    by (simp add: add_operation_def can_submit_def demo_transaction_def)
  have s2: "add_operation ?b ?t1 = Inr ?t2"
    by (simp add: add_operation_def can_submit_def demo_operation_def)
  have "rtranclp transaction_step demo_transaction ?t2"
    using transaction_step.add [OF s1] transaction_step.add [OF s2] by (meson converse_rtranclp_into_rtranclp r_into_rtranclp)
  from no_duplicate_live_operation [OF _ this, of 0 1] s1 s2 show ?thesis
    by (simp add: demo_transaction_def demo_operation_def)
qed

end
