(* ===== verification/Py_Data.thy ===== *)
theory Py_Data
  imports Prelude
begin

text \<open>
  Conversions between Python values and the typed records of the sources: \<open>str(x)\<close>, \<open>int(x)\<close>,
  \<open>float(x)\<close>, \<open>tuple(x)\<close>, \<open>dict(x)\<close> and the lookup of an \<open>Enum\<close> member by its value.

  What the interpreter does with the text of floating point numbers and of containers is a
  parameter: \<open>rt_repr\<close> is \<open>str(x)\<close> of a float, tuple, list or dict, and \<open>rt_float\<close> is
  \<open>float(s)\<close> of a string. Nothing is assumed of either.
\<close>

record py_runtime =
  rt_repr :: "py_value \<Rightarrow> string"
  rt_float :: "string \<Rightarrow> real result"

section \<open>Scalars\<close>

fun py_str :: "py_runtime \<Rightarrow> py_value \<Rightarrow> string" where
  "py_str rt PNone = ''None''"
| "py_str rt (PBool b) = (if b then ''True'' else ''False'')"
| "py_str rt (PInt i) = str_int i"
| "py_str rt (PStr s) = s"
| "py_str rt v = rt_repr rt v"

text \<open>\<open>int(s)\<close>: white space around an optional sign and decimal digits, single underscores
  allowed between digits.\<close>

definition is_digit :: "char \<Rightarrow> bool" where
  "is_digit c = (48 \<le> (of_char c :: nat) \<and> (of_char c :: nat) \<le> 57)"

fun int_digits :: "nat \<Rightarrow> string \<Rightarrow> nat option" where
  "int_digits n [] = Some n"
| "int_digits n (c # cs) =
     (if is_digit c then int_digits (n * 10 + (of_char c - 48)) cs
      else if c = CHR ''_'' then
        (case cs of d # ds \<Rightarrow> if is_digit d then int_digits (n * 10 + (of_char d - 48)) ds else None
         | [] \<Rightarrow> None)
      else None)"

definition int_unsigned :: "string \<Rightarrow> nat option" where
  "int_unsigned s = (case s of c # cs \<Rightarrow> if is_digit c then int_digits 0 s else None | [] \<Rightarrow> None)"

definition py_strip :: "string \<Rightarrow> string" where
  "py_strip s = rev (dropWhile py_isspace (rev (dropWhile py_isspace s)))"

definition int_of_str :: "string \<Rightarrow> int option" where
  "int_of_str s =
     (case py_strip s of
        c # cs \<Rightarrow>
          if c = CHR ''-'' then map_option (\<lambda>n. - int n) (int_unsigned cs)
          else if c = CHR ''+'' then map_option int (int_unsigned cs)
          else map_option int (int_unsigned (c # cs))
      | [] \<Rightarrow> None)"

text \<open>\<open>int(x)\<close> truncates a float towards zero.\<close>

fun py_int :: "py_value \<Rightarrow> int result" where
  "py_int (PInt i) = Inr i"
| "py_int (PBool b) = Inr (if b then 1 else 0)"
| "py_int (PFloat r) = Inr (if 0 \<le> r then floor r else ceiling r)"
| "py_int (PStr s) =
     (case int_of_str s of Some i \<Rightarrow> Inr i | None \<Rightarrow> Inl (ValueError ''invalid literal for int()''))"
| "py_int v = Inl (TypeError ''int() argument'')"

fun py_float :: "py_runtime \<Rightarrow> py_value \<Rightarrow> real result" where
  "py_float rt (PFloat r) = Inr r"
| "py_float rt (PInt i) = Inr (of_int i)"
| "py_float rt (PBool b) = Inr (if b then 1 else 0)"
| "py_float rt (PStr s) = rt_float rt s"
| "py_float rt v = Inl (TypeError ''float() argument'')"

section \<open>Containers and enumerations\<close>

text \<open>The elements \<open>tuple(x)\<close> or a \<open>for\<close> loop takes from an iterable: the characters of a string,
  the keys of a dictionary.\<close>

fun py_iter :: "py_value \<Rightarrow> py_value list result" where
  "py_iter (PTuple vs) = Inr vs"
| "py_iter (PList vs) = Inr vs"
| "py_iter (PStr s) = Inr (map (\<lambda>c. PStr [c]) s)"
| "py_iter (PDict d) = Inr (map (\<lambda>(k, v). PStr k) d)"
| "py_iter v = Inl (TypeError ''object is not iterable'')"

text \<open>\<open>Color(v)\<close> for a string enumeration with members \<open>all\<close>.\<close>

definition py_enum :: "('a \<Rightarrow> string) \<Rightarrow> 'a list \<Rightarrow> py_value \<Rightarrow> 'a result" where
  "py_enum val members v =
     (case find (\<lambda>x. PStr (val x) = v) members of
        Some x \<Rightarrow> Inr x
      | None \<Rightarrow> Inl (ValueError ''is not a valid member''))"

text \<open>\<open>d.get(k)\<close>, where a missing key and a stored \<open>None\<close> look the same.\<close>

definition py_get :: "(string, py_value) dict \<Rightarrow> string \<Rightarrow> py_value" where
  "py_get d k = dict_get d k PNone"

definition py_opt :: "(py_value \<Rightarrow> 'a result) \<Rightarrow> py_value \<Rightarrow> 'a option result" where
  "py_opt conv v = (if v = PNone then Inr None else rbind (conv v) (\<lambda>x. Inr (Some x)))"

text \<open>The value of an optional field on its way into a dictionary.\<close>

definition opt_value :: "('a \<Rightarrow> py_value) \<Rightarrow> 'a option \<Rightarrow> py_value" where
  "opt_value f x = (case x of None \<Rightarrow> PNone | Some y \<Rightarrow> f y)"

section \<open>Ordering and joining\<close>

text \<open>\<open>min(xs, key=f)\<close> and \<open>max(xs, key=f)\<close> of a non-empty sequence: the first extremal element.\<close>

fun py_min_by :: "('a \<Rightarrow> 'b::linorder) \<Rightarrow> 'a \<Rightarrow> 'a list \<Rightarrow> 'a" where
  "py_min_by f m [] = m"
| "py_min_by f m (x # xs) = py_min_by f (if f x < f m then x else m) xs"

fun py_max_by :: "('a \<Rightarrow> 'b::linorder) \<Rightarrow> 'a \<Rightarrow> 'a list \<Rightarrow> 'a" where
  "py_max_by f m [] = m"
| "py_max_by f m (x # xs) = py_max_by f (if f m < f x then x else m) xs"

text \<open>\<open>sep.join(xs)\<close>.\<close>

fun py_join :: "string \<Rightarrow> string list \<Rightarrow> string" where
  "py_join sep [] = []"
| "py_join sep [x] = x"
| "py_join sep (x # y # xs) = x @ sep @ py_join sep (y # xs)"

lemma py_min_by_mem: "py_min_by f m xs \<in> insert m (set xs)"
  by (induction xs arbitrary: m) fastforce+

lemma py_min_by_le: "x \<in> insert m (set xs) \<Longrightarrow> f (py_min_by f m xs) \<le> f x"
proof (induction xs arbitrary: m x)
  case (Cons y ys)
  let ?m = "if f y < f m then y else m"
  have "f (py_min_by f ?m ys) \<le> f ?m" by (rule Cons.IH) simp
  moreover have "f ?m \<le> f m" "f ?m \<le> f y" by auto
  ultimately show ?case using Cons.prems Cons.IH [of x ?m] by fastforce
qed simp

lemma py_max_by_mem: "py_max_by f m xs \<in> insert m (set xs)"
  by (induction xs arbitrary: m) fastforce+

lemma py_max_by_ge: "x \<in> insert m (set xs) \<Longrightarrow> f x \<le> f (py_max_by f m xs)"
proof (induction xs arbitrary: m x)
  case (Cons y ys)
  let ?m = "if f m < f y then y else m"
  have "f ?m \<le> f (py_max_by f ?m ys)" by (rule Cons.IH) simp
  moreover have "f m \<le> f ?m" "f y \<le> f ?m" by auto
  ultimately show ?case using Cons.prems Cons.IH [of x ?m] by fastforce
qed simp

section \<open>Round trips\<close>

lemma py_enum_value:
  assumes "x \<in> set members" and "inj_on val (set members)"
  shows "py_enum val members (PStr (val x)) = Inr x"
proof -
  have "find (\<lambda>y. PStr (val y) = PStr (val x)) members = Some x"
    using assms by (induction members) (auto simp: inj_on_def)
  then show ?thesis by (simp add: py_enum_def)
qed

lemma py_opt_value:
  assumes "\<And>x. y = Some x \<Longrightarrow> conv (f x) = Inr x" and "\<And>x. f x \<noteq> PNone"
  shows "py_opt conv (opt_value f y) = Inr y"
  using assms by (cases y) (auto simp: py_opt_def opt_value_def)

lemma opt_value_None [simp]: "opt_value f None = PNone" "opt_value f (Some x) = f x"
  by (simp_all add: opt_value_def)

lemma py_opt_None [simp]: "py_opt conv PNone = Inr None"
  by (simp add: py_opt_def)

lemma rmap_map_Inr: "(\<And>x. x \<in> set xs \<Longrightarrow> f (g x) = Inr x) \<Longrightarrow> rmap f (map g xs) = Inr xs"
  by (induction xs) auto

end
