(* ===== verification/Events.thy ===== *)
theory Events
  imports Py_Data
begin

text \<open>
  \<open>core/events.py\<close> and \<open>core/ids.py\<close>: the framework-neutral runtime event that adapters emit and
  the control plane consumes, its enumerations with their wire values, the validation of the
  constructor and the conversion to and from dictionaries.

  Identifier fields are strings or \<open>None\<close>; \<open>from_dict\<close> copies them unconverted, so a value of
  another type, which the annotations exclude, is rejected here as a \<open>TypeError\<close>.
\<close>

section \<open>Identifiers and enumerations\<close>

definition require_id :: "string option \<Rightarrow> string \<Rightarrow> string result" where
  "require_id v field =
     (case v of
        None \<Rightarrow> Inl (ValueError (field @ '' must be a non-empty string''))
      | Some s \<Rightarrow> if py_blank s then Inl (ValueError (field @ '' must be a non-empty string'')) else Inr s)"

datatype runtime_event_kind =
    WORKFLOW_START | WORKFLOW_END | INVOCATION_CREATE | INVOCATION_CANCEL | CONTEXT_ADVANCE
  | CONTEXT_COMPACT | CALL | SPAWN | RETURN | MESSAGE | HANDOFF | REACTIVATE | JOIN_CREATE
  | JOIN_WAIT | JOIN_SATISFIED | JOIN_TIMEOUT | TOOL_START | TOOL_END | LLM_SUBMIT | LLM_RESULT
  | CALL_CENSORED | STRUCTURED_ACTION

fun kind_value :: "runtime_event_kind \<Rightarrow> string" where
  "kind_value WORKFLOW_START = ''workflow_start''"
| "kind_value WORKFLOW_END = ''workflow_end''"
| "kind_value INVOCATION_CREATE = ''invocation_create''"
| "kind_value INVOCATION_CANCEL = ''invocation_cancel''"
| "kind_value CONTEXT_ADVANCE = ''context_advance''"
| "kind_value CONTEXT_COMPACT = ''context_compact''"
| "kind_value CALL = ''call''"
| "kind_value SPAWN = ''spawn''"
| "kind_value RETURN = ''return''"
| "kind_value MESSAGE = ''message''"
| "kind_value HANDOFF = ''handoff''"
| "kind_value REACTIVATE = ''reactivate''"
| "kind_value JOIN_CREATE = ''join_create''"
| "kind_value JOIN_WAIT = ''join_wait''"
| "kind_value JOIN_SATISFIED = ''join_satisfied''"
| "kind_value JOIN_TIMEOUT = ''join_timeout''"
| "kind_value TOOL_START = ''tool_start''"
| "kind_value TOOL_END = ''tool_end''"
| "kind_value LLM_SUBMIT = ''llm_submit''"
| "kind_value LLM_RESULT = ''llm_result''"
| "kind_value CALL_CENSORED = ''call_censored''"
| "kind_value STRUCTURED_ACTION = ''structured_action''"

definition all_kinds :: "runtime_event_kind list" where
  "all_kinds = [WORKFLOW_START, WORKFLOW_END, INVOCATION_CREATE, INVOCATION_CANCEL, CONTEXT_ADVANCE,
     CONTEXT_COMPACT, CALL, SPAWN, RETURN, MESSAGE, HANDOFF, REACTIVATE, JOIN_CREATE, JOIN_WAIT,
     JOIN_SATISFIED, JOIN_TIMEOUT, TOOL_START, TOOL_END, LLM_SUBMIT, LLM_RESULT, CALL_CENSORED,
     STRUCTURED_ACTION]"

datatype relation_type = REL_ROOT | REL_CALL | REL_SPAWN | REL_MESSAGE | REL_HANDOFF

fun relation_value :: "relation_type \<Rightarrow> string" where
  "relation_value REL_ROOT = ''root''"
| "relation_value REL_CALL = ''call''"
| "relation_value REL_SPAWN = ''spawn''"
| "relation_value REL_MESSAGE = ''message''"
| "relation_value REL_HANDOFF = ''handoff''"

definition all_relations :: "relation_type list" where
  "all_relations = [REL_ROOT, REL_CALL, REL_SPAWN, REL_MESSAGE, REL_HANDOFF]"

datatype context_mode = FRESH | FORK | RESUME

fun context_mode_value :: "context_mode \<Rightarrow> string" where
  "context_mode_value FRESH = ''fresh''"
| "context_mode_value FORK = ''fork''"
| "context_mode_value RESUME = ''resume''"

definition all_context_modes :: "context_mode list" where
  "all_context_modes = [FRESH, FORK, RESUME]"

datatype execution_mode = FOREGROUND | BACKGROUND

fun execution_mode_value :: "execution_mode \<Rightarrow> string" where
  "execution_mode_value FOREGROUND = ''foreground''"
| "execution_mode_value BACKGROUND = ''background''"

definition all_execution_modes :: "execution_mode list" where
  "all_execution_modes = [FOREGROUND, BACKGROUND]"

datatype event_confidence = DECLARED_RUNTIME | OBSERVED_EXACT | INFERRED

fun confidence_value :: "event_confidence \<Rightarrow> string" where
  "confidence_value DECLARED_RUNTIME = ''declared_runtime''"
| "confidence_value OBSERVED_EXACT = ''observed_exact''"
| "confidence_value INFERRED = ''inferred''"

definition all_confidences :: "event_confidence list" where
  "all_confidences = [DECLARED_RUNTIME, OBSERVED_EXACT, INFERRED]"

section \<open>The event\<close>

record runtime_event =
  ev_event_id :: string
  ev_ts_ms :: real
  ev_kind :: runtime_event_kind
  ev_workflow_id :: string
  ev_invocation_id :: "string option"
  ev_target_invocation_id :: "string option"
  ev_context_id :: "string option"
  ev_target_context_id :: "string option"
  ev_parent_invocation_id :: "string option"
  ev_parent_context_id :: "string option"
  ev_agent_definition_id :: "string option"
  ev_agent_instance_id :: "string option"
  ev_relation_type :: "relation_type option"
  ev_context_mode :: "context_mode option"
  ev_execution_mode :: "execution_mode option"
  ev_return_target_id :: "string option"
  ev_join_id :: "string option"
  ev_member_invocation_ids :: "string list"
  ev_context_epoch :: "int option"
  ev_confidence :: event_confidence
  ev_attributes :: "(string, py_value) dict"

definition runtime_event_post_init :: "runtime_event \<Rightarrow> runtime_event result" where
  "runtime_event_post_init e =
     rbind (require_id (Some (ev_event_id e)) ''event_id'') (\<lambda>_.
     rbind (require_id (Some (ev_workflow_id e)) ''workflow_id'') (\<lambda>_.
       if ev_ts_ms e < 0 then Inl (ValueError ''ts_ms must be non-negative'')
       else if (case ev_context_epoch e of None \<Rightarrow> False | Some k \<Rightarrow> k < 0)
       then Inl (ValueError ''context_epoch must be non-negative'')
       else if card (set (ev_member_invocation_ids e)) \<noteq> length (ev_member_invocation_ids e)
       then Inl (ValueError ''member_invocation_ids must not contain duplicates'')
       else Inr e))"

definition event_to_dict :: "runtime_event \<Rightarrow> (string, py_value) dict" where
  "event_to_dict e =
     [(''event_id'', PStr (ev_event_id e)),
      (''ts_ms'', PFloat (ev_ts_ms e)),
      (''kind'', PStr (kind_value (ev_kind e))),
      (''workflow_id'', PStr (ev_workflow_id e)),
      (''invocation_id'', opt_value PStr (ev_invocation_id e)),
      (''target_invocation_id'', opt_value PStr (ev_target_invocation_id e)),
      (''context_id'', opt_value PStr (ev_context_id e)),
      (''target_context_id'', opt_value PStr (ev_target_context_id e)),
      (''parent_invocation_id'', opt_value PStr (ev_parent_invocation_id e)),
      (''parent_context_id'', opt_value PStr (ev_parent_context_id e)),
      (''agent_definition_id'', opt_value PStr (ev_agent_definition_id e)),
      (''agent_instance_id'', opt_value PStr (ev_agent_instance_id e)),
      (''relation_type'', opt_value (\<lambda>r. PStr (relation_value r)) (ev_relation_type e)),
      (''context_mode'', opt_value (\<lambda>m. PStr (context_mode_value m)) (ev_context_mode e)),
      (''execution_mode'', opt_value (\<lambda>m. PStr (execution_mode_value m)) (ev_execution_mode e)),
      (''return_target_id'', opt_value PStr (ev_return_target_id e)),
      (''join_id'', opt_value PStr (ev_join_id e)),
      (''member_invocation_ids'', PList (map PStr (ev_member_invocation_ids e))),
      (''context_epoch'', opt_value PInt (ev_context_epoch e)),
      (''confidence'', PStr (confidence_value (ev_confidence e))),
      (''attributes'', PDict (ev_attributes e))]"

definition known_event_keys :: "string list" where
  "known_event_keys =
     [''event_id'', ''ts_ms'', ''kind'', ''workflow_id'', ''invocation_id'', ''target_invocation_id'',
      ''context_id'', ''target_context_id'', ''parent_invocation_id'', ''parent_context_id'',
      ''agent_definition_id'', ''agent_instance_id'', ''relation_type'', ''context_mode'',
      ''execution_mode'', ''return_target_id'', ''join_id'', ''member_invocation_ids'',
      ''context_epoch'', ''confidence'', ''attributes'', ''schema_version'', ''sequence'']"

text \<open>A string copied from the dictionary without conversion.\<close>

fun plain_str :: "py_value \<Rightarrow> string result" where
  "plain_str (PStr s) = Inr s"
| "plain_str _ = Inl (TypeError ''expected a string'')"

text \<open>\<open>dict(x)\<close> of the attributes, for a mapping.\<close>

fun plain_dict :: "py_value \<Rightarrow> (string, py_value) dict result" where
  "plain_dict (PDict d) = Inr d"
| "plain_dict _ = Inl (TypeError ''attributes must be a mapping'')"

definition event_attributes_of :: "(string, py_value) dict \<Rightarrow> (string, py_value) dict result" where
  "event_attributes_of raw =
     rbind (plain_dict (dict_get raw ''attributes'' (PDict []))) (\<lambda>attrs.
       Inr (fold (\<lambda>(k, v). AList.update k v)
              (filter (\<lambda>(k, v). k \<notin> set known_event_keys) raw) attrs))"

definition event_from_dict :: "py_runtime \<Rightarrow> (string, py_value) dict \<Rightarrow> runtime_event result" where
  "event_from_dict rt raw =
     rbind (event_attributes_of raw) (\<lambda>attributes.
     rbind (dict_item raw ''event_id'' ''event_id'') (\<lambda>event_id.
     rbind (dict_item raw ''ts_ms'' ''ts_ms'') (\<lambda>ts_raw.
     rbind (py_float rt ts_raw) (\<lambda>ts_ms.
     rbind (dict_item raw ''kind'' ''kind'') (\<lambda>kind_raw.
     rbind (py_enum kind_value all_kinds kind_raw) (\<lambda>kind.
     rbind (dict_item raw ''workflow_id'' ''workflow_id'') (\<lambda>workflow_id.
     rbind (py_opt plain_str (py_get raw ''invocation_id'')) (\<lambda>invocation_id.
     rbind (py_opt plain_str (py_get raw ''target_invocation_id'')) (\<lambda>target_invocation_id.
     rbind (py_opt plain_str (py_get raw ''context_id'')) (\<lambda>context_id.
     rbind (py_opt plain_str (py_get raw ''target_context_id'')) (\<lambda>target_context_id.
     rbind (py_opt plain_str (py_get raw ''parent_invocation_id'')) (\<lambda>parent_invocation_id.
     rbind (py_opt plain_str (py_get raw ''parent_context_id'')) (\<lambda>parent_context_id.
     rbind (py_opt plain_str (py_get raw ''agent_definition_id'')) (\<lambda>agent_definition_id.
     rbind (py_opt plain_str (py_get raw ''agent_instance_id'')) (\<lambda>agent_instance_id.
     rbind (py_opt (py_enum relation_value all_relations) (py_get raw ''relation_type'')) (\<lambda>relation.
     rbind (py_opt (py_enum context_mode_value all_context_modes) (py_get raw ''context_mode'')) (\<lambda>cmode.
     rbind (py_opt (py_enum execution_mode_value all_execution_modes) (py_get raw ''execution_mode'')) (\<lambda>emode.
     rbind (py_opt plain_str (py_get raw ''return_target_id'')) (\<lambda>return_target_id.
     rbind (py_opt plain_str (py_get raw ''join_id'')) (\<lambda>join_id.
     rbind (py_iter (dict_get raw ''member_invocation_ids'' (PTuple []))) (\<lambda>members_raw.
     rbind (rmap plain_str members_raw) (\<lambda>members.
     rbind (py_opt py_int (py_get raw ''context_epoch'')) (\<lambda>epoch.
     rbind (py_enum confidence_value all_confidences
              (dict_get raw ''confidence'' (PStr (confidence_value DECLARED_RUNTIME)))) (\<lambda>confidence.
     runtime_event_post_init
       \<lparr>ev_event_id = py_str rt event_id, ev_ts_ms = ts_ms, ev_kind = kind,
        ev_workflow_id = py_str rt workflow_id, ev_invocation_id = invocation_id,
        ev_target_invocation_id = target_invocation_id, ev_context_id = context_id,
        ev_target_context_id = target_context_id, ev_parent_invocation_id = parent_invocation_id,
        ev_parent_context_id = parent_context_id, ev_agent_definition_id = agent_definition_id,
        ev_agent_instance_id = agent_instance_id, ev_relation_type = relation,
        ev_context_mode = cmode, ev_execution_mode = emode, ev_return_target_id = return_target_id,
        ev_join_id = join_id, ev_member_invocation_ids = members, ev_context_epoch = epoch,
        ev_confidence = confidence, ev_attributes = attributes\<rparr>))))))))))))))))))))))))"

section \<open>The wire format\<close>

text \<open>Distinct members have distinct wire values and every member is listed, so looking a value
  up returns the member it was written from.\<close>

lemma kind_lookup: "py_enum kind_value all_kinds (PStr (kind_value k)) = Inr k"
  by (cases k) (simp_all add: py_enum_def all_kinds_def)

lemma relation_lookup: "py_enum relation_value all_relations (PStr (relation_value r)) = Inr r"
  by (cases r) (simp_all add: py_enum_def all_relations_def)

lemma context_mode_lookup:
  "py_enum context_mode_value all_context_modes (PStr (context_mode_value m)) = Inr m"
  by (cases m) (simp_all add: py_enum_def all_context_modes_def)

lemma execution_mode_lookup:
  "py_enum execution_mode_value all_execution_modes (PStr (execution_mode_value m)) = Inr m"
  by (cases m) (simp_all add: py_enum_def all_execution_modes_def)

lemma confidence_lookup:
  "py_enum confidence_value all_confidences (PStr (confidence_value c)) = Inr c"
  by (cases c) (simp_all add: py_enum_def all_confidences_def)

lemmas enum_lookups = kind_lookup relation_lookup context_mode_lookup execution_mode_lookup
  confidence_lookup

lemma opt_lookups:
  "py_opt plain_str (opt_value PStr s) = Inr s"
  "py_opt py_int (opt_value PInt i) = Inr i"
  "py_opt (py_enum relation_value all_relations) (opt_value (\<lambda>r. PStr (relation_value r)) r) = Inr r"
  "py_opt (py_enum context_mode_value all_context_modes) (opt_value (\<lambda>m. PStr (context_mode_value m)) c)
     = Inr c"
  "py_opt (py_enum execution_mode_value all_execution_modes)
     (opt_value (\<lambda>m. PStr (execution_mode_value m)) x) = Inr x"
  by (rule py_opt_value; simp add: enum_lookups)+

lemma to_dict_no_extra: "filter (\<lambda>(k, v). k \<notin> set known_event_keys) (event_to_dict e) = []"
  by (simp add: event_to_dict_def known_event_keys_def)

lemma to_dict_fields:
  "map_of (event_to_dict e) ''event_id'' = Some (PStr (ev_event_id e))"
  "map_of (event_to_dict e) ''ts_ms'' = Some (PFloat (ev_ts_ms e))"
  "map_of (event_to_dict e) ''kind'' = Some (PStr (kind_value (ev_kind e)))"
  "map_of (event_to_dict e) ''workflow_id'' = Some (PStr (ev_workflow_id e))"
  "py_get (event_to_dict e) ''invocation_id'' = opt_value PStr (ev_invocation_id e)"
  "py_get (event_to_dict e) ''target_invocation_id'' = opt_value PStr (ev_target_invocation_id e)"
  "py_get (event_to_dict e) ''context_id'' = opt_value PStr (ev_context_id e)"
  "py_get (event_to_dict e) ''target_context_id'' = opt_value PStr (ev_target_context_id e)"
  "py_get (event_to_dict e) ''parent_invocation_id'' = opt_value PStr (ev_parent_invocation_id e)"
  "py_get (event_to_dict e) ''parent_context_id'' = opt_value PStr (ev_parent_context_id e)"
  "py_get (event_to_dict e) ''agent_definition_id'' = opt_value PStr (ev_agent_definition_id e)"
  "py_get (event_to_dict e) ''agent_instance_id'' = opt_value PStr (ev_agent_instance_id e)"
  "py_get (event_to_dict e) ''relation_type'' = opt_value (\<lambda>r. PStr (relation_value r)) (ev_relation_type e)"
  "py_get (event_to_dict e) ''context_mode'' = opt_value (\<lambda>m. PStr (context_mode_value m)) (ev_context_mode e)"
  "py_get (event_to_dict e) ''execution_mode'' =
     opt_value (\<lambda>m. PStr (execution_mode_value m)) (ev_execution_mode e)"
  "py_get (event_to_dict e) ''return_target_id'' = opt_value PStr (ev_return_target_id e)"
  "py_get (event_to_dict e) ''join_id'' = opt_value PStr (ev_join_id e)"
  "dict_get (event_to_dict e) ''member_invocation_ids'' x = PList (map PStr (ev_member_invocation_ids e))"
  "py_get (event_to_dict e) ''context_epoch'' = opt_value PInt (ev_context_epoch e)"
  "dict_get (event_to_dict e) ''confidence'' x = PStr (confidence_value (ev_confidence e))"
  "dict_get (event_to_dict e) ''attributes'' x = PDict (ev_attributes e)"
  by (simp_all add: event_to_dict_def py_get_def dict_get_def)

lemma known_key:
  shows "''event_id'' \<in> set known_event_keys" and "''ts_ms'' \<in> set known_event_keys"
    and "''kind'' \<in> set known_event_keys" and "''workflow_id'' \<in> set known_event_keys"
    and "''invocation_id'' \<in> set known_event_keys"
    and "''target_invocation_id'' \<in> set known_event_keys"
    and "''context_id'' \<in> set known_event_keys"
    and "''target_context_id'' \<in> set known_event_keys"
    and "''parent_invocation_id'' \<in> set known_event_keys"
    and "''parent_context_id'' \<in> set known_event_keys"
    and "''agent_definition_id'' \<in> set known_event_keys"
    and "''agent_instance_id'' \<in> set known_event_keys"
    and "''relation_type'' \<in> set known_event_keys"
    and "''context_mode'' \<in> set known_event_keys"
    and "''execution_mode'' \<in> set known_event_keys"
    and "''return_target_id'' \<in> set known_event_keys"
    and "''join_id'' \<in> set known_event_keys"
    and "''member_invocation_ids'' \<in> set known_event_keys"
    and "''context_epoch'' \<in> set known_event_keys"
    and "''confidence'' \<in> set known_event_keys"
    and "''attributes'' \<in> set known_event_keys"
  by (simp_all add: known_event_keys_def)

text \<open>Reading depends only on the known keys and the collected attributes.\<close>

lemma from_dict_fields:
  assumes same: "\<And>j. j \<in> set known_event_keys \<Longrightarrow> map_of raw j = map_of (event_to_dict e) j"
    and attrs: "event_attributes_of raw = Inr a"
  shows "event_from_dict rt raw = runtime_event_post_init (e\<lparr>ev_attributes := a\<rparr>)"
proof -
  have item: "dict_item raw j w = dict_item (event_to_dict e) j w"
    and get: "dict_get raw j x = dict_get (event_to_dict e) j x"
    and pget: "py_get raw j = py_get (event_to_dict e) j"
    if "j \<in> set known_event_keys" for j w x
    using same [OF that] by (simp_all add: dict_item_def dict_get_def py_get_def)
  have members: "rmap plain_str (map PStr xs) = Inr xs" for xs by (rule rmap_map_Inr) simp
  have items: "dict_item (event_to_dict e) ''event_id'' w = Inr (PStr (ev_event_id e))"
    "dict_item (event_to_dict e) ''ts_ms'' w = Inr (PFloat (ev_ts_ms e))"
    "dict_item (event_to_dict e) ''kind'' w = Inr (PStr (kind_value (ev_kind e)))"
    "dict_item (event_to_dict e) ''workflow_id'' w = Inr (PStr (ev_workflow_id e))" for w
    by (simp_all add: dict_item_def to_dict_fields)
  note lookups = item [OF known_key(1)] item [OF known_key(2)] item [OF known_key(3)]
    item [OF known_key(4)] known_key [THEN pget] get [OF known_key(18)] get [OF known_key(20)]
  show ?thesis
    by (simp only: event_from_dict_def attrs rbind_simps lookups items to_dict_fields py_float.simps
        py_iter.simps py_str.simps enum_lookups opt_lookups members)
      (rule arg_cong [where f = runtime_event_post_init], simp)
qed

lemma require_id_eq_Inr [result_simps]:
  "require_id v f = Inr s \<longleftrightarrow> v = Some s \<and> \<not> py_blank s"
  by (auto simp: require_id_def split: option.splits)

lemma post_init_eq_Inr [result_simps]:
  "runtime_event_post_init e = Inr e' \<longleftrightarrow>
     e' = e \<and> \<not> py_blank (ev_event_id e) \<and> \<not> py_blank (ev_workflow_id e) \<and> 0 \<le> ev_ts_ms e \<and>
     (\<forall>k. ev_context_epoch e = Some k \<longrightarrow> 0 \<le> k) \<and> distinct (ev_member_invocation_ids e)"
proof -
  have "card (set xs) = length xs \<longleftrightarrow> distinct xs" for xs :: "string list"
    by (metis card_distinct distinct_card)
  then show ?thesis
    by (cases "ev_context_epoch e")
      (auto simp: runtime_event_post_init_def rbind_eq_Inr require_id_eq_Inr)
qed

lemma post_init_attributes:
  "runtime_event_post_init e = Inr e \<Longrightarrow>
   runtime_event_post_init (e\<lparr>ev_attributes := a\<rparr>) = Inr (e\<lparr>ev_attributes := a\<rparr>)"
  by (simp add: post_init_eq_Inr)

text \<open>
  C24. Writing a valid runtime event to a dictionary and reading it back returns the same event:
  every field, every enumeration member, the member list and the attributes survive, and the
  validation of the constructor succeeds again. Keys that are not fields of the event do not
  disappear on the way in: they end up among the attributes, later ones winning over the
  \<open>attributes\<close> entry itself.
\<close>

theorem event_dict_round_trip:
  assumes "runtime_event_post_init e = Inr e"
  shows "event_from_dict rt (event_to_dict e) = Inr e \<and>
    (k \<notin> set known_event_keys \<longrightarrow>
      event_from_dict rt (event_to_dict e @ [(k, v)])
        = Inr (e\<lparr>ev_attributes := AList.update k v (ev_attributes e)\<rparr>))"
proof (intro conjI impI)
  have attrs: "event_attributes_of (event_to_dict e) = Inr (ev_attributes e)"
    by (simp add: event_attributes_of_def to_dict_no_extra to_dict_fields)
  show "event_from_dict rt (event_to_dict e) = Inr e"
    using from_dict_fields [OF _ attrs] assms by simp
  assume k: "k \<notin> set known_event_keys"
  have other: "map_of (event_to_dict e @ [(k, v)]) j = map_of (event_to_dict e) j"
    if "j \<in> set known_event_keys" for j
    using k that by (auto simp: map_add_def split: option.split)
  have "dict_get (event_to_dict e @ [(k, v)]) ''attributes'' x = PDict (ev_attributes e)" for x
    using other [OF known_key(21)] to_dict_fields(21) [of e] by (simp add: dict_get_def)
  then have "event_attributes_of (event_to_dict e @ [(k, v)]) =
      Inr (AList.update k v (ev_attributes e))"
    using k by (simp add: event_attributes_of_def to_dict_no_extra)
  from from_dict_fields [OF other this] post_init_attributes [OF assms]
  show "event_from_dict rt (event_to_dict e @ [(k, v)])
        = Inr (e\<lparr>ev_attributes := AList.update k v (ev_attributes e)\<rparr>)" by simp
qed

definition demo_runtime :: py_runtime where
  "demo_runtime = \<lparr>rt_repr = \<lambda>_. ''?'', rt_float = \<lambda>_. Inl (ValueError ''could not convert'')\<rparr>"

definition demo_event :: "string \<Rightarrow> runtime_event_kind \<Rightarrow> runtime_event" where
  "demo_event ident kind =
     \<lparr>ev_event_id = ident, ev_ts_ms = 5, ev_kind = kind, ev_workflow_id = ''w'',
      ev_invocation_id = None, ev_target_invocation_id = None, ev_context_id = None,
      ev_target_context_id = None, ev_parent_invocation_id = None, ev_parent_context_id = None,
      ev_agent_definition_id = None, ev_agent_instance_id = None, ev_relation_type = None,
      ev_context_mode = None, ev_execution_mode = None, ev_return_target_id = None,
      ev_join_id = None, ev_member_invocation_ids = [], ev_context_epoch = None,
      ev_confidence = DECLARED_RUNTIME, ev_attributes = []\<rparr>"

lemma event_dict_round_trip_witness:
  "let e = (demo_event ''e1'' JOIN_CREATE)\<lparr>ev_join_id := Some ''j'', ev_context_mode := Some FORK,
       ev_member_invocation_ids := [''a'', ''b''], ev_attributes := [(''mode'', PStr ''any'')]\<rparr>
   in event_from_dict demo_runtime (event_to_dict e) = Inr e \<and>
      event_from_dict demo_runtime (event_to_dict e @ [(''persistent'', PBool True)])
        = Inr (e\<lparr>ev_attributes := [(''mode'', PStr ''any''), (''persistent'', PBool True)]\<rparr>)"
proof -
  define e where "e = (demo_event ''e1'' JOIN_CREATE)\<lparr>ev_join_id := Some ''j'',
    ev_context_mode := Some FORK, ev_member_invocation_ids := [''a'', ''b''],
    ev_attributes := [(''mode'', PStr ''any'')]\<rparr>"
  have ok: "runtime_event_post_init e = Inr e"
    by (simp add: e_def demo_event_def post_init_eq_Inr py_blank_def py_isspace_def)
  have new: "''persistent'' \<notin> set known_event_keys" by (simp add: known_event_keys_def)
  have "AList.update ''persistent'' (PBool True) (ev_attributes e) =
      [(''mode'', PStr ''any''), (''persistent'', PBool True)]"
    by (simp add: e_def)
  then show ?thesis
    using event_dict_round_trip [OF ok, of demo_runtime "''persistent''" "PBool True"] new
    by (simp add: e_def Let_def)
qed

end
