(* ===== verification/Causal_Graph.thy ===== *)
theory Causal_Graph
  imports Events
begin

text \<open>
  \<open>control/causal_graph.py\<close>: the runtime causal context graph, the control plane's source of
  truth for workflows, invocations, contexts, joins and messages, driven by runtime events.

  A handler mutates the graph in place and returns a delta or raises, so it is a function
  from the graph to a result paired with the graph it leaves behind, also when it raises. The
  object a dictionary holds is updated under its key (\<open>mod_inv\<close>, \<open>mod_ctx\<close>, \<open>mod_join\<close>,
  \<open>mod_workflow\<close>), which is what assigning to a field of the stored object does. Where the code
  iterates over a Python set, whose order is unspecified, the model states the combined effect.
\<close>

section \<open>State\<close>

datatype invocation_state =
    CREATED | READY | RUNNING_LLM | WAIT_TOOL | WAIT_CHILD | WAIT_JOIN | WAIT_MESSAGE
  | RETURNING | DONE | CANCELLED

definition state_terminal :: "invocation_state \<Rightarrow> bool" where
  "state_terminal s = (s = DONE \<or> s = CANCELLED)"

datatype join_mode = JOIN_ALL | JOIN_ANY

fun join_mode_value :: "join_mode \<Rightarrow> string" where
  "join_mode_value JOIN_ALL = ''all''"
| "join_mode_value JOIN_ANY = ''any''"

record workflow_record =
  wf_workflow_id :: string
  wf_start_ts_ms :: real
  wf_end_ts_ms :: "real option"
  wf_invocation_ids :: "string set"

record invocation_record =
  iv_workflow_id :: string
  iv_invocation_id :: string
  iv_context_id :: string
  iv_agent_definition_id :: string
  iv_agent_instance_id :: string
  iv_state :: invocation_state
  iv_created_ts_ms :: real
  iv_updated_ts_ms :: real
  iv_parent_invocation_id :: "string option"
  iv_parent_context_id :: "string option"
  iv_relation_type :: relation_type
  iv_context_mode :: context_mode
  iv_execution_mode :: execution_mode
  iv_return_target_id :: "string option"
  iv_join_id :: "string option"
  iv_persistent :: bool
  iv_pending_messages :: int
  iv_child_invocation_ids :: "string set"
  iv_blocking_child_ids :: "string set"
  iv_confidence :: event_confidence
  iv_active_tool_family :: "string option"
  iv_active_tool_start_ms :: "real option"
  iv_llm_round :: int

record context_record =
  cx_workflow_id :: string
  cx_context_id :: string
  cx_epoch :: int
  cx_created_ts_ms :: real
  cx_updated_ts_ms :: real
  cx_parent_context_id :: "string option"
  cx_context_mode :: context_mode
  cx_invocation_ids :: "string set"
  cx_persistent :: bool

record join_record =
  jn_workflow_id :: string
  jn_join_id :: string
  jn_member_invocation_ids :: "string set"
  jn_mode :: join_mode
  jn_waiter_invocation_ids :: "string set"
  jn_completed_member_ids :: "string set"
  jn_satisfied :: bool

record communication_edge =
  ce_source_invocation_id :: string
  ce_target_invocation_id :: string
  ce_count :: int
  ce_last_ts_ms :: real

record graph_delta =
  gd_event_id :: string
  gd_awakened_invocations :: "string set"
  gd_parked_invocations :: "string set"
  gd_completed_invocations :: "string set"
  gd_changed_contexts :: "string set"
  gd_graph_version :: int

record causal_graph =
  cg_workflows :: "(string, workflow_record) dict"
  cg_invocations :: "(string, invocation_record) dict"
  cg_contexts :: "(string, context_record) dict"
  cg_joins :: "(string, join_record) dict"
  cg_communication_edges :: "(string \<times> string, communication_edge) dict"
  cg_processed_event_ids :: "string set"
  cg_last_ts_by_workflow :: "(string, real) dict"
  cg_graph_version :: int
  cg_strict_timestamps :: bool

definition graph_init :: "bool \<Rightarrow> causal_graph" where
  "graph_init strict =
     \<lparr>cg_workflows = [], cg_invocations = [], cg_contexts = [], cg_joins = [],
      cg_communication_edges = [], cg_processed_event_ids = {}, cg_last_ts_by_workflow = [],
      cg_graph_version = 0, cg_strict_timestamps = strict\<rparr>"

definition timestamp_watermark :: "string \<Rightarrow> causal_graph \<Rightarrow> real option" where
  "timestamp_watermark w g = map_of (cg_last_ts_by_workflow g) w"

text \<open>\<open>GraphDelta(event_id)\<close> with its defaults.\<close>

definition empty_delta :: "string \<Rightarrow> graph_delta" where
  "empty_delta ident =
     \<lparr>gd_event_id = ident, gd_awakened_invocations = {}, gd_parked_invocations = {},
      gd_completed_invocations = {}, gd_changed_contexts = {}, gd_graph_version = 0\<rparr>"

section \<open>Effects\<close>

type_synonym 'a effect = "'a result \<times> causal_graph"

text \<open>A check that may raise, before anything else happens to the graph.\<close>

definition checked :: "causal_graph \<Rightarrow> 'a result \<Rightarrow> ('a \<Rightarrow> 'b effect) \<Rightarrow> 'b effect" where
  "checked g r k = (case r of Inl e \<Rightarrow> (Inl e, g) | Inr x \<Rightarrow> k x)"

text \<open>A mutation that may raise, followed by the rest of the handler.\<close>

definition after :: "'a effect \<Rightarrow> ('a \<Rightarrow> causal_graph \<Rightarrow> 'b effect) \<Rightarrow> 'b effect" where
  "after m k = (case m of (Inl e, g) \<Rightarrow> (Inl e, g) | (Inr x, g) \<Rightarrow> k x g)"

definition mod_inv :: "string set \<Rightarrow> (invocation_record \<Rightarrow> invocation_record) \<Rightarrow> causal_graph \<Rightarrow> causal_graph" where
  "mod_inv ks f g = g\<lparr>cg_invocations := dmap_on ks f (cg_invocations g)\<rparr>"

definition mod_ctx :: "string \<Rightarrow> (context_record \<Rightarrow> context_record) \<Rightarrow> causal_graph \<Rightarrow> causal_graph" where
  "mod_ctx k f g = g\<lparr>cg_contexts := dmap_on {k} f (cg_contexts g)\<rparr>"

definition mod_join :: "string \<Rightarrow> (join_record \<Rightarrow> join_record) \<Rightarrow> causal_graph \<Rightarrow> causal_graph" where
  "mod_join k f g = g\<lparr>cg_joins := dmap_on {k} f (cg_joins g)\<rparr>"

definition mod_workflow :: "string \<Rightarrow> (workflow_record \<Rightarrow> workflow_record) \<Rightarrow> causal_graph \<Rightarrow> causal_graph" where
  "mod_workflow k f g = g\<lparr>cg_workflows := dmap_on {k} f (cg_workflows g)\<rparr>"

text \<open>\<open>a or b\<close> on optional strings: the empty string counts as missing.\<close>

definition str_or :: "string option \<Rightarrow> string option \<Rightarrow> string option" where
  "str_or a b = (if a = None \<or> a = Some [] then b else a)"

definition str_default :: "string option \<Rightarrow> string \<Rightarrow> string" where
  "str_default a b = (case a of None \<Rightarrow> b | Some s \<Rightarrow> if s = [] then b else s)"

definition enum_or :: "'a option \<Rightarrow> 'a \<Rightarrow> 'a" where
  "enum_or a b = (case a of None \<Rightarrow> b | Some x \<Rightarrow> x)"

section \<open>Lookups and checks\<close>

definition get_workflow :: "string \<Rightarrow> causal_graph \<Rightarrow> workflow_record result" where
  "get_workflow w g =
     (case map_of (cg_workflows g) w of
        None \<Rightarrow> Inl (CausalGraphError (''unknown workflow: '' @ w))
      | Some r \<Rightarrow> Inr r)"

definition get_invocation :: "string \<Rightarrow> string \<Rightarrow> causal_graph \<Rightarrow> invocation_record result" where
  "get_invocation i w g =
     (case map_of (cg_invocations g) i of
        None \<Rightarrow> Inl (CausalGraphError (''unknown invocation: '' @ i))
      | Some r \<Rightarrow>
          if iv_workflow_id r \<noteq> w
          then Inl (CausalGraphError (''invocation '' @ i @ '' belongs to '' @ iv_workflow_id r @ '', not '' @ w))
          else Inr r)"

definition event_invocation :: "runtime_event \<Rightarrow> causal_graph \<Rightarrow> invocation_record result" where
  "event_invocation ev g =
     rbind (require_id (ev_invocation_id ev) ''invocation_id'') (\<lambda>i.
       get_invocation i (ev_workflow_id ev) g)"

definition get_join :: "string \<Rightarrow> string \<Rightarrow> causal_graph \<Rightarrow> join_record result" where
  "get_join j w g =
     (case map_of (cg_joins g) j of
        None \<Rightarrow> Inl (CausalGraphError (''unknown join: '' @ j))
      | Some r \<Rightarrow>
          if jn_workflow_id r \<noteq> w then Inl (CausalGraphError (''join '' @ j @ '' belongs to another workflow''))
          else Inr r)"

definition ensure_not_terminal :: "invocation_record \<Rightarrow> unit result" where
  "ensure_not_terminal r =
     (if state_terminal (iv_state r)
      then Inl (CausalGraphError (''invocation '' @ iv_invocation_id r @ '' is terminal'')) else Inr ())"

definition validate_event_epoch :: "context_record \<Rightarrow> int option \<Rightarrow> unit result" where
  "validate_event_epoch c k =
     (case k of
        None \<Rightarrow> Inr ()
      | Some e \<Rightarrow>
          if e < cx_epoch c
          then Inl (CausalGraphError (''stale context epoch for '' @ cx_context_id c @ '': '' @ str_int e
                 @ '' < '' @ str_int (cx_epoch c)))
          else Inr ())"

definition touch_context :: "string \<Rightarrow> runtime_event \<Rightarrow> causal_graph \<Rightarrow> unit effect" where
  "touch_context c ev g =
     checked g (dict_item (cg_contexts g) c c) (\<lambda>ctx.
     checked g (validate_event_epoch ctx (ev_context_epoch ev)) (\<lambda>_.
       (Inr (), mod_ctx c (\<lambda>x. x\<lparr>cx_epoch := (case ev_context_epoch ev of None \<Rightarrow> cx_epoch x | Some e \<Rightarrow> e),
                                cx_updated_ts_ms := ev_ts_ms ev\<rparr>) g)))"

text \<open>\<open>_is_ancestor\<close>: walk up the parent pointers; a repeated parent is an error.\<close>

function ancestor_walk ::
  "causal_graph \<Rightarrow> string \<Rightarrow> string set \<Rightarrow> invocation_record option \<Rightarrow> bool result" where
  "ancestor_walk g a seen cur =
     (case cur of
        None \<Rightarrow> Inr False
      | Some r \<Rightarrow>
          (case iv_parent_invocation_id r of
             None \<Rightarrow> Inr False
           | Some p \<Rightarrow>
               if p = a then Inr True
               else if p \<in> seen
               then Inl (CausalGraphError ''existing invocation graph contains a cycle'')
               else ancestor_walk g a (insert p seen) (map_of (cg_invocations g) p)))"
  by pat_completeness auto

text \<open>Every turn of a walk sees one more stored key, or leaves the dictionary.\<close>

definition unseen :: "('k, 'v) dict \<Rightarrow> 'k set \<Rightarrow> nat" where
  "unseen d seen = card (fst ` set d - seen)"

lemma unseen_insert:
  assumes "map_of d k = Some v" and "k \<notin> seen"
  shows "unseen d (insert k seen) < unseen d seen"
proof -
  have "fst ` set d - insert k seen \<subset> fst ` set d - seen"
    using assms dict_key [of d k] by blast
  then show ?thesis unfolding unseen_def by (rule psubset_card_mono [rotated]) simp
qed

termination ancestor_walk
proof (relation "measure (\<lambda>(g, a, seen, cur).
    case cur of None \<Rightarrow> 0 | Some _ \<Rightarrow> Suc (unseen (cg_invocations g) seen))", goal_cases)
  case (2 g a seen cur r p)
  then show ?case
    by (cases "map_of (cg_invocations g) p") (simp_all add: unseen_insert)
qed simp

declare ancestor_walk.simps [simp del]

definition is_ancestor :: "string \<Rightarrow> string \<Rightarrow> causal_graph \<Rightarrow> bool result" where
  "is_ancestor a i g = ancestor_walk g a {} (map_of (cg_invocations g) i)"

section \<open>Dependencies\<close>

definition join_is_satisfied :: "join_record \<Rightarrow> bool" where
  "join_is_satisfied j =
     (if jn_mode j = JOIN_ANY then jn_completed_member_ids j \<noteq> {}
      else jn_member_invocation_ids j \<subseteq> jn_completed_member_ids j)"

definition wake_waiter :: "real \<Rightarrow> invocation_record \<Rightarrow> invocation_record" where
  "wake_waiter ts r =
     (if iv_state r = WAIT_JOIN then r\<lparr>iv_state := READY, iv_updated_ts_ms := ts\<rparr> else r)"

definition in_state :: "invocation_state \<Rightarrow> causal_graph \<Rightarrow> string \<Rightarrow> bool" where
  "in_state s g i = (case map_of (cg_invocations g) i of None \<Rightarrow> False | Some r \<Rightarrow> iv_state r = s)"

text \<open>A waiter that is not in the table raises \<open>KeyError\<close>; the others may have been woken by then.\<close>

definition wake_join_waiters :: "join_record \<Rightarrow> real \<Rightarrow> causal_graph \<Rightarrow> string set effect" where
  "wake_join_waiters j ts g =
     (let ws = jn_waiter_invocation_ids j; g' = mod_inv ws (wake_waiter ts) g in
      if ws \<subseteq> fst ` set (cg_invocations g)
      then (Inr (Set.filter (in_state WAIT_JOIN g) ws), g')
      else (Inl (KeyError ''waiter''), g'))"

text \<open>The body of the loop over \<open>self.joins.values()\<close> in \<open>_complete_dependencies\<close>.\<close>

definition complete_join :: "string \<Rightarrow> real \<Rightarrow> string \<Rightarrow> causal_graph \<Rightarrow> string set effect" where
  "complete_join i ts k g =
     (case map_of (cg_joins g) k of
        None \<Rightarrow> (Inr {}, g)
      | Some j \<Rightarrow>
          if i \<notin> jn_member_invocation_ids j then (Inr {}, g)
          else
            let j1 = j\<lparr>jn_completed_member_ids := insert i (jn_completed_member_ids j)\<rparr> in
            if join_is_satisfied j1 then
              let j2 = j1\<lparr>jn_satisfied := True\<rparr> in
              wake_join_waiters j2 ts (mod_join k (\<lambda>_. j2) g)
            else (Inr {}, mod_join k (\<lambda>_. j1) g))"

fun complete_joins :: "string \<Rightarrow> real \<Rightarrow> string list \<Rightarrow> string set \<Rightarrow> causal_graph \<Rightarrow> string set effect" where
  "complete_joins i ts [] awakened g = (Inr awakened, g)"
| "complete_joins i ts (k # ks) awakened g =
     after (complete_join i ts k g) (\<lambda>ws. complete_joins i ts ks (awakened \<union> ws))"

definition complete_child :: "string \<Rightarrow> real \<Rightarrow> invocation_record \<Rightarrow> invocation_record" where
  "complete_child i ts p =
     (let p1 = p\<lparr>iv_blocking_child_ids := iv_blocking_child_ids p - {i}\<rparr> in
      if iv_state p1 = WAIT_CHILD \<and> iv_blocking_child_ids p1 = {} \<and> \<not> state_terminal (iv_state p1)
      then p1\<lparr>iv_state := READY, iv_updated_ts_ms := ts\<rparr> else p1)"

definition complete_dependencies :: "invocation_record \<Rightarrow> real \<Rightarrow> causal_graph \<Rightarrow> string set effect" where
  "complete_dependencies r ts g =
     (let i = iv_invocation_id r;
          parent = (case str_or (iv_return_target_id r) (iv_parent_invocation_id r) of
                      None \<Rightarrow> None
                    | Some t \<Rightarrow> map_option (\<lambda>p. (t, p)) (map_of (cg_invocations g) t));
          awakened = (case parent of
                        None \<Rightarrow> {}
                      | Some (t, p) \<Rightarrow>
                          if iv_state p = WAIT_CHILD \<and> iv_blocking_child_ids p - {i} = {}
                          then {iv_invocation_id p} else {});
          g1 = (case parent of
                  None \<Rightarrow> g
                | Some (t, p) \<Rightarrow> mod_inv {t} (complete_child i ts) g) in
      complete_joins i ts (map fst (cg_joins g1)) awakened g1)"

section \<open>Handlers\<close>

definition on_workflow_start :: "runtime_event \<Rightarrow> causal_graph \<Rightarrow> graph_delta effect" where
  "on_workflow_start ev g =
     (if dict_in (ev_workflow_id ev) (cg_workflows g)
      then (Inl (CausalGraphError (''workflow already exists: '' @ ev_workflow_id ev)), g)
      else (Inr (empty_delta (ev_event_id ev)),
            g\<lparr>cg_workflows := AList.update (ev_workflow_id ev)
                \<lparr>wf_workflow_id = ev_workflow_id ev, wf_start_ts_ms = ev_ts_ms ev,
                 wf_end_ts_ms = None, wf_invocation_ids = {}\<rparr> (cg_workflows g)\<rparr>))"

definition cancel_live :: "real \<Rightarrow> invocation_record \<Rightarrow> invocation_record" where
  "cancel_live ts r =
     (if state_terminal (iv_state r) then r else r\<lparr>iv_state := CANCELLED, iv_updated_ts_ms := ts\<rparr>)"

definition live_in :: "causal_graph \<Rightarrow> string \<Rightarrow> bool" where
  "live_in g i =
     (case map_of (cg_invocations g) i of None \<Rightarrow> False | Some r \<Rightarrow> \<not> state_terminal (iv_state r))"

definition context_of :: "causal_graph \<Rightarrow> string \<Rightarrow> string" where
  "context_of g i = (case map_of (cg_invocations g) i of None \<Rightarrow> [] | Some r \<Rightarrow> iv_context_id r)"

text \<open>\<open>{self.invocations[item].context_id for item in ids}\<close>, which raises for an unknown invocation.\<close>

definition contexts_of :: "string set \<Rightarrow> causal_graph \<Rightarrow> string set result" where
  "contexts_of ids g =
     (if ids \<subseteq> fst ` set (cg_invocations g) then Inr (context_of g ` ids) else Inl (KeyError ''invocation''))"

definition on_workflow_end :: "runtime_event \<Rightarrow> causal_graph \<Rightarrow> graph_delta effect" where
  "on_workflow_end ev g =
     checked g (get_workflow (ev_workflow_id ev) g) (\<lambda>w.
       let ids = wf_invocation_ids w; g1 = mod_inv ids (cancel_live (ev_ts_ms ev)) g;
           completed = Set.filter (live_in g) ids in
       if ids \<subseteq> fst ` set (cg_invocations g)
       then (Inr ((empty_delta (ev_event_id ev))
                \<lparr>gd_completed_invocations := completed, gd_changed_contexts := context_of g ` completed\<rparr>),
             mod_workflow (ev_workflow_id ev) (\<lambda>x. x\<lparr>wf_end_ts_ms := Some (ev_ts_ms ev)\<rparr>) g1)
       else (Inl (KeyError ''invocation''), g1))"

definition attr_bool :: "runtime_event \<Rightarrow> string \<Rightarrow> bool \<Rightarrow> bool" where
  "attr_bool ev k dflt = py_bool (dict_get (ev_attributes ev) k (PBool dflt))"

text \<open>The first half of \<open>_on_invocation_create\<close>: find or create the context.\<close>

definition create_context ::
  "runtime_event \<Rightarrow> string \<Rightarrow> string option \<Rightarrow> causal_graph \<Rightarrow> context_record effect" where
  "create_context ev c parent_ctx g =
     (let epoch = enum_or (ev_context_epoch ev) 0 in
      case map_of (cg_contexts g) c of
        None \<Rightarrow>
          let ctx = \<lparr>cx_workflow_id = ev_workflow_id ev, cx_context_id = c, cx_epoch = epoch,
                     cx_created_ts_ms = ev_ts_ms ev, cx_updated_ts_ms = ev_ts_ms ev,
                     cx_parent_context_id = parent_ctx,
                     cx_context_mode = enum_or (ev_context_mode ev) FRESH, cx_invocation_ids = {},
                     cx_persistent = attr_bool ev ''persistent'' False\<rparr> in
          (Inr ctx, g\<lparr>cg_contexts := AList.update c ctx (cg_contexts g)\<rparr>)
      | Some ctx \<Rightarrow>
          checked g (validate_event_epoch ctx (ev_context_epoch ev)) (\<lambda>_.
            if cx_workflow_id ctx \<noteq> ev_workflow_id ev
            then (Inl (CausalGraphError (''context '' @ c @ '' cannot cross root workflows'')), g)
            else
              let ctx' = ctx\<lparr>cx_epoch := max (cx_epoch ctx) epoch, cx_updated_ts_ms := ev_ts_ms ev\<rparr> in
              (Inr ctx', mod_ctx c (\<lambda>_. ctx') g)))"

definition new_invocation ::
  "runtime_event \<Rightarrow> string \<Rightarrow> string \<Rightarrow> string option \<Rightarrow> context_record \<Rightarrow> invocation_record" where
  "new_invocation ev i c parent_ctx ctx =
     \<lparr>iv_workflow_id = ev_workflow_id ev, iv_invocation_id = i, iv_context_id = c,
      iv_agent_definition_id = str_default (ev_agent_definition_id ev) ''unknown'',
      iv_agent_instance_id = str_default (ev_agent_instance_id ev) i,
      iv_state = READY, iv_created_ts_ms = ev_ts_ms ev, iv_updated_ts_ms = ev_ts_ms ev,
      iv_parent_invocation_id = ev_parent_invocation_id ev, iv_parent_context_id = parent_ctx,
      iv_relation_type = enum_or (ev_relation_type ev) REL_ROOT,
      iv_context_mode = enum_or (ev_context_mode ev) FRESH,
      iv_execution_mode = enum_or (ev_execution_mode ev) FOREGROUND,
      iv_return_target_id = str_or (ev_return_target_id ev) (ev_parent_invocation_id ev),
      iv_join_id = ev_join_id ev, iv_persistent = attr_bool ev ''persistent'' (cx_persistent ctx),
      iv_pending_messages = 0, iv_child_invocation_ids = {}, iv_blocking_child_ids = {},
      iv_confidence = ev_confidence ev, iv_active_tool_family = None,
      iv_active_tool_start_ms = None, iv_llm_round = 0\<rparr>"

definition on_invocation_create :: "runtime_event \<Rightarrow> causal_graph \<Rightarrow> graph_delta effect" where
  "on_invocation_create ev g =
     checked g (get_workflow (ev_workflow_id ev) g) (\<lambda>_.
     checked g (require_id (ev_invocation_id ev) ''invocation_id'') (\<lambda>i.
     checked g (require_id (ev_context_id ev) ''context_id'') (\<lambda>c.
       if dict_in i (cg_invocations g)
       then (Inl (CausalGraphError (''invocation already exists: '' @ i)), g)
       else
     checked g (case ev_parent_invocation_id ev of
                  None \<Rightarrow> Inr (ev_parent_context_id ev)
                | Some p \<Rightarrow> rbind (get_invocation p (ev_workflow_id ev) g) (\<lambda>parent.
                    Inr (str_or (ev_parent_context_id ev) (Some (iv_context_id parent))))) (\<lambda>parent_ctx.
     after (create_context ev c parent_ctx g) (\<lambda>ctx g1.
       let r = new_invocation ev i c parent_ctx ctx;
           g2 = g1\<lparr>cg_invocations := AList.update i r (cg_invocations g1)\<rparr>;
           g3 = mod_workflow (ev_workflow_id ev)
                  (\<lambda>w. w\<lparr>wf_invocation_ids := insert i (wf_invocation_ids w)\<rparr>) g2;
           g4 = mod_ctx c (\<lambda>x. x\<lparr>cx_invocation_ids := insert i (cx_invocation_ids x),
                               cx_persistent := cx_persistent x \<or> iv_persistent r\<rparr>) g3 in
       (Inr ((empty_delta (ev_event_id ev))
           \<lparr>gd_awakened_invocations := {i}, gd_changed_contexts := {c}\<rparr>), g4))))))"

text \<open>Cancelling and returning share everything but the final state and the changed contexts.\<close>

definition set_state :: "invocation_state \<Rightarrow> real \<Rightarrow> invocation_record \<Rightarrow> invocation_record" where
  "set_state s ts r = r\<lparr>iv_state := s, iv_updated_ts_ms := ts\<rparr>"

definition finish_invocation ::
  "invocation_state \<Rightarrow> real \<Rightarrow> string \<Rightarrow> invocation_record \<Rightarrow> causal_graph \<Rightarrow> string set effect" where
  "finish_invocation s ts i r g =
     complete_dependencies (set_state s ts r) ts (mod_inv {i} (set_state s ts) g)"

definition ev_inv_key :: "runtime_event \<Rightarrow> string" where
  "ev_inv_key ev = str_default (ev_invocation_id ev) []"

definition on_invocation_cancel :: "runtime_event \<Rightarrow> causal_graph \<Rightarrow> graph_delta effect" where
  "on_invocation_cancel ev g =
     checked g (event_invocation ev g) (\<lambda>r.
       if state_terminal (iv_state r) then (Inr (empty_delta (ev_event_id ev)), g)
       else after (finish_invocation CANCELLED (ev_ts_ms ev) (ev_inv_key ev) r g) (\<lambda>awakened g1.
         (Inr ((empty_delta (ev_event_id ev))
             \<lparr>gd_awakened_invocations := awakened, gd_completed_invocations := {iv_invocation_id r},
              gd_changed_contexts := {iv_context_id r}\<rparr>), g1)))"

definition changed_context :: "runtime_event \<Rightarrow> invocation_record \<Rightarrow> graph_delta" where
  "changed_context ev r = (empty_delta (ev_event_id ev))\<lparr>gd_changed_contexts := {iv_context_id r}\<rparr>"

definition set_updated :: "real \<Rightarrow> invocation_record \<Rightarrow> invocation_record" where
  "set_updated ts r = r\<lparr>iv_updated_ts_ms := ts\<rparr>"

definition on_context_advance :: "runtime_event \<Rightarrow> causal_graph \<Rightarrow> graph_delta effect" where
  "on_context_advance ev g =
     checked g (event_invocation ev g) (\<lambda>r.
     checked g (ensure_not_terminal r) (\<lambda>_.
       if ev_context_id ev \<notin> {None, Some (iv_context_id r)}
       then (Inl (CausalGraphError ''context advance does not match invocation context''), g)
       else after (touch_context (iv_context_id r) ev g) (\<lambda>_ g1.
         (Inr (changed_context ev r), mod_inv {ev_inv_key ev} (set_updated (ev_ts_ms ev)) g1))))"

definition on_context_compact :: "runtime_event \<Rightarrow> causal_graph \<Rightarrow> graph_delta effect" where
  "on_context_compact ev g =
     checked g (event_invocation ev g) (\<lambda>r.
     checked g (ensure_not_terminal r) (\<lambda>_.
       if ev_context_id ev \<notin> {None, Some (iv_context_id r)}
       then (Inl (CausalGraphError ''context compact does not match invocation context''), g)
       else
     checked g (dict_item (cg_contexts g) (iv_context_id r) (iv_context_id r)) (\<lambda>ctx.
     checked g (py_opt py_int (py_get (ev_attributes ev) ''previous_context_epoch'')) (\<lambda>previous.
       if (case previous of None \<Rightarrow> False | Some e \<Rightarrow> e \<noteq> cx_epoch ctx)
       then (Inl (CausalGraphError (''context compact previous epoch mismatch for '' @ cx_context_id ctx)), g)
       else if (case ev_context_epoch ev of None \<Rightarrow> True | Some e \<Rightarrow> e \<le> cx_epoch ctx)
       then (Inl (CausalGraphError ''context compact must advance the context epoch''), g)
       else after (touch_context (iv_context_id r) ev g) (\<lambda>_ g1.
         (Inr (changed_context ev r), mod_inv {ev_inv_key ev} (set_updated (ev_ts_ms ev)) g1))))))"

definition on_structured_action :: "runtime_event \<Rightarrow> causal_graph \<Rightarrow> graph_delta effect" where
  "on_structured_action ev g =
     checked g (event_invocation ev g) (\<lambda>r.
     checked g (dict_item (cg_contexts g) (iv_context_id r) (iv_context_id r)) (\<lambda>ctx.
     checked g (validate_event_epoch ctx (ev_context_epoch ev)) (\<lambda>_.
       (Inr (empty_delta (ev_event_id ev)), g))))"

definition on_call_censored :: "runtime_event \<Rightarrow> causal_graph \<Rightarrow> graph_delta effect" where
  "on_call_censored ev g =
     (if ev_invocation_id ev = None then (Inr (empty_delta (ev_event_id ev)), g)
      else checked g (event_invocation ev g) (\<lambda>_. (Inr (empty_delta (ev_event_id ev)), g)))"

text \<open>The updates at the end of \<open>_link_child\<close>: the child first, then the parent.\<close>

definition link_update ::
  "string \<Rightarrow> string \<Rightarrow> invocation_record \<Rightarrow> string option \<Rightarrow> execution_mode \<Rightarrow> relation_type \<Rightarrow> real \<Rightarrow>
   causal_graph \<Rightarrow> causal_graph" where
  "link_update pk c parent ret mode relation ts g =
     (let p = iv_invocation_id parent;
          g1 = mod_inv {c} (\<lambda>r. r\<lparr>
                 iv_parent_invocation_id := Some p,
                 iv_parent_context_id := Some (iv_context_id parent),
                 iv_return_target_id := str_or ret (Some p),
                 iv_execution_mode := mode, iv_relation_type := relation,
                 iv_updated_ts_ms := ts, iv_state := READY\<rparr>) g;
          g2 = mod_inv {pk} (\<lambda>r. r\<lparr>
                 iv_child_invocation_ids := insert c (iv_child_invocation_ids r)\<rparr>) g1 in
      if mode = FOREGROUND
      then mod_inv {pk} (\<lambda>r. r\<lparr>
             iv_blocking_child_ids := insert c (iv_blocking_child_ids r),
             iv_state := WAIT_CHILD, iv_updated_ts_ms := ts\<rparr>) g2
      else g2)"

definition link_child :: "runtime_event \<Rightarrow> execution_mode \<Rightarrow> causal_graph \<Rightarrow> graph_delta effect" where
  "link_child ev default_mode g =
     checked g (event_invocation ev g) (\<lambda>parent.
     checked g (require_id (ev_target_invocation_id ev) ''target_invocation_id'') (\<lambda>c.
     checked g (get_invocation c (ev_workflow_id ev) g) (\<lambda>child.
       if state_terminal (iv_state parent) \<or> state_terminal (iv_state child)
       then (Inl (CausalGraphError ''cannot link a terminal invocation''), g)
       else
     checked g (if iv_invocation_id parent = iv_invocation_id child then Inr True
                else is_ancestor (iv_invocation_id child) (iv_invocation_id parent) g) (\<lambda>cyclic.
       if cyclic then (Inl (CausalGraphError ''CALL/SPAWN would create an invocation cycle''), g)
       else if iv_parent_invocation_id child \<notin> {None, Some (iv_invocation_id parent)}
       then (Inl (CausalGraphError (''invocation '' @ c @ '' already has another parent'')), g)
       else
         let mode = enum_or (ev_execution_mode ev) default_mode;
             relation = (if ev_kind ev = CALL then REL_CALL else REL_SPAWN);
             p = iv_invocation_id parent in
         (Inr ((empty_delta (ev_event_id ev))
             \<lparr>gd_awakened_invocations := {c},
              gd_parked_invocations := (if mode = FOREGROUND then {p} else {}),
              gd_changed_contexts := {iv_context_id parent, iv_context_id child}\<rparr>),
          link_update (ev_inv_key ev) c parent (ev_return_target_id ev) mode relation (ev_ts_ms ev) g)))))"

definition on_call :: "runtime_event \<Rightarrow> causal_graph \<Rightarrow> graph_delta effect" where
  "on_call ev g = link_child ev FOREGROUND g"

definition on_spawn :: "runtime_event \<Rightarrow> causal_graph \<Rightarrow> graph_delta effect" where
  "on_spawn ev g = link_child ev (enum_or (ev_execution_mode ev) BACKGROUND) g"

definition on_return :: "runtime_event \<Rightarrow> causal_graph \<Rightarrow> graph_delta effect" where
  "on_return ev g =
     checked g (event_invocation ev g) (\<lambda>r.
       if state_terminal (iv_state r) then (Inr (empty_delta (ev_event_id ev)), g)
       else after (finish_invocation DONE (ev_ts_ms ev) (ev_inv_key ev) r g) (\<lambda>awakened g1.
         checked g1 (contexts_of awakened g1) (\<lambda>contexts.
         (Inr ((empty_delta (ev_event_id ev))
             \<lparr>gd_awakened_invocations := awakened, gd_completed_invocations := {iv_invocation_id r},
              gd_changed_contexts := insert (iv_context_id r) contexts\<rparr>), g1))))"

definition on_reactivate :: "runtime_event \<Rightarrow> causal_graph \<Rightarrow> graph_delta effect" where
  "on_reactivate ev g =
     checked g (event_invocation ev g) (\<lambda>r.
     checked g (ensure_not_terminal r) (\<lambda>_.
       if iv_state r = RUNNING_LLM
       then (Inl (CausalGraphError ''cannot reactivate an invocation already running''), g)
       else (Inr ((changed_context ev r)
               \<lparr>gd_awakened_invocations := (if iv_state r \<noteq> READY then {iv_invocation_id r} else {})\<rparr>),
             mod_inv {ev_inv_key ev} (set_state READY (ev_ts_ms ev)) g)))"

text \<open>The source of a message may be its own target; the updates happen one after the other on
  the stored objects.\<close>

definition bump_edge :: "string \<Rightarrow> string \<Rightarrow> real \<Rightarrow> causal_graph \<Rightarrow> causal_graph" where
  "bump_edge s t ts g =
     (let edge = (case map_of (cg_communication_edges g) (s, t) of
                    None \<Rightarrow> \<lparr>ce_source_invocation_id = s, ce_target_invocation_id = t, ce_count = 0,
                             ce_last_ts_ms = ts\<rparr>
                  | Some e \<Rightarrow> e) in
      g\<lparr>cg_communication_edges :=
          AList.update (s, t) (edge\<lparr>ce_count := ce_count edge + 1, ce_last_ts_ms := ts\<rparr>)
            (cg_communication_edges g)\<rparr>)"

definition deliver_message :: "runtime_event \<Rightarrow> bool \<Rightarrow> causal_graph \<Rightarrow> graph_delta effect" where
  "deliver_message ev handoff g =
     checked g (event_invocation ev g) (\<lambda>source.
     checked g (require_id (ev_target_invocation_id ev) ''target_invocation_id'') (\<lambda>t.
     checked g (get_invocation t (ev_workflow_id ev) g) (\<lambda>target.
       if state_terminal (iv_state target)
       then (Inl (CausalGraphError ''cannot send a message to a terminal invocation''), g)
       else
         let ts = ev_ts_ms ev;
             g1 = bump_edge (iv_invocation_id source) t ts g;
             g2 = mod_inv {t} (\<lambda>r. r\<lparr>iv_pending_messages := iv_pending_messages r + 1,
                                    iv_state := READY, iv_updated_ts_ms := ts\<rparr>) g1;
             parks = handoff \<and> live_in g2 (ev_inv_key ev);
             g3 = (if parks then mod_inv {ev_inv_key ev} (set_state WAIT_MESSAGE ts) g2 else g2) in
         (Inr ((empty_delta (ev_event_id ev))
             \<lparr>gd_awakened_invocations := {t},
              gd_parked_invocations := (if parks then {iv_invocation_id source} else {}),
              gd_changed_contexts := {iv_context_id source, iv_context_id target}\<rparr>), g3))))"

definition on_message :: "runtime_event \<Rightarrow> causal_graph \<Rightarrow> graph_delta effect" where
  "on_message ev g = deliver_message ev False g"

definition on_handoff :: "runtime_event \<Rightarrow> causal_graph \<Rightarrow> graph_delta effect" where
  "on_handoff ev g = deliver_message ev True g"

text \<open>\<open>JoinMode(str(attributes.get("mode", "all")))\<close>: only the two strings name a mode.\<close>

definition event_join_mode :: "py_runtime \<Rightarrow> runtime_event \<Rightarrow> join_mode result" where
  "event_join_mode rt ev =
     py_enum join_mode_value [JOIN_ALL, JOIN_ANY]
       (PStr (py_str rt (dict_get (ev_attributes ev) ''mode'' (PStr (join_mode_value JOIN_ALL)))))"

definition terminal_in :: "causal_graph \<Rightarrow> string \<Rightarrow> bool" where
  "terminal_in g i =
     (case map_of (cg_invocations g) i of None \<Rightarrow> False | Some r \<Rightarrow> state_terminal (iv_state r))"

definition on_join_create :: "py_runtime \<Rightarrow> runtime_event \<Rightarrow> causal_graph \<Rightarrow> graph_delta effect" where
  "on_join_create rt ev g =
     checked g (get_workflow (ev_workflow_id ev) g) (\<lambda>_.
     checked g (require_id (ev_join_id ev) ''join_id'') (\<lambda>j.
       if dict_in j (cg_joins g) then (Inl (CausalGraphError (''join already exists: '' @ j)), g)
       else if ev_member_invocation_ids ev = []
       then (Inl (CausalGraphError ''join must contain at least one member''), g)
       else
     checked g (rmap (\<lambda>m. get_invocation m (ev_workflow_id ev) g) (ev_member_invocation_ids ev)) (\<lambda>_.
     checked g (event_join_mode rt ev) (\<lambda>mode.
       let members = set (ev_member_invocation_ids ev);
           join = \<lparr>jn_workflow_id = ev_workflow_id ev, jn_join_id = j,
                   jn_member_invocation_ids = members, jn_mode = mode,
                   jn_waiter_invocation_ids = {},
                   jn_completed_member_ids = Set.filter (terminal_in g) members,
                   jn_satisfied = False\<rparr>;
           join' = join\<lparr>jn_satisfied := join_is_satisfied join\<rparr> in
       (Inr (empty_delta (ev_event_id ev)), g\<lparr>cg_joins := AList.update j join' (cg_joins g)\<rparr>)))))"

definition on_join_wait :: "runtime_event \<Rightarrow> causal_graph \<Rightarrow> graph_delta effect" where
  "on_join_wait ev g =
     checked g (event_invocation ev g) (\<lambda>r.
     checked g (require_id (ev_join_id ev) ''join_id'') (\<lambda>j.
     checked g (get_join j (ev_workflow_id ev) g) (\<lambda>join.
       let s = (if jn_satisfied join then READY else WAIT_JOIN);
           g1 = mod_join j (\<lambda>x. x\<lparr>jn_waiter_invocation_ids :=
                  insert (iv_invocation_id r) (jn_waiter_invocation_ids x)\<rparr>) g;
           g2 = mod_inv {ev_inv_key ev} (\<lambda>x. x\<lparr>iv_join_id := Some j, iv_updated_ts_ms := ev_ts_ms ev,
                  iv_state := s\<rparr>) g1 in
       (Inr (if jn_satisfied join
             then (changed_context ev r)\<lparr>gd_awakened_invocations := {iv_invocation_id r}\<rparr>
             else (changed_context ev r)\<lparr>gd_parked_invocations := {iv_invocation_id r}\<rparr>), g2))))"

definition woken_delta :: "runtime_event \<Rightarrow> string set \<Rightarrow> causal_graph \<Rightarrow> graph_delta effect" where
  "woken_delta ev awakened g =
     checked g (contexts_of awakened g) (\<lambda>contexts.
       (Inr ((empty_delta (ev_event_id ev))
          \<lparr>gd_awakened_invocations := awakened, gd_changed_contexts := contexts\<rparr>), g))"

definition on_join_satisfied :: "runtime_event \<Rightarrow> causal_graph \<Rightarrow> graph_delta effect" where
  "on_join_satisfied ev g =
     checked g (require_id (ev_join_id ev) ''join_id'') (\<lambda>j.
     checked g (get_join j (ev_workflow_id ev) g) (\<lambda>join.
       after (wake_join_waiters join (ev_ts_ms ev) (mod_join j (\<lambda>x. x\<lparr>jn_satisfied := True\<rparr>) g))
         (woken_delta ev)))"

definition on_join_timeout :: "runtime_event \<Rightarrow> causal_graph \<Rightarrow> graph_delta effect" where
  "on_join_timeout ev g =
     checked g (require_id (ev_join_id ev) ''join_id'') (\<lambda>j.
     checked g (get_join j (ev_workflow_id ev) g) (\<lambda>join.
       after (wake_join_waiters join (ev_ts_ms ev) g) (woken_delta ev)))"

definition on_tool_start :: "py_runtime \<Rightarrow> runtime_event \<Rightarrow> causal_graph \<Rightarrow> graph_delta effect" where
  "on_tool_start rt ev g =
     checked g (event_invocation ev g) (\<lambda>r.
     checked g (ensure_not_terminal r) (\<lambda>_.
       (Inr ((changed_context ev r)\<lparr>gd_parked_invocations := {iv_invocation_id r}\<rparr>),
        mod_inv {ev_inv_key ev} (\<lambda>x. x\<lparr>iv_state := WAIT_TOOL, iv_updated_ts_ms := ev_ts_ms ev,
          iv_active_tool_family :=
            Some (py_str rt (dict_get (ev_attributes ev) ''tool_family'' (PStr ''unknown''))),
          iv_active_tool_start_ms := Some (ev_ts_ms ev)\<rparr>) g)))"

definition on_tool_end :: "runtime_event \<Rightarrow> causal_graph \<Rightarrow> graph_delta effect" where
  "on_tool_end ev g =
     checked g (event_invocation ev g) (\<lambda>r.
     checked g (ensure_not_terminal r) (\<lambda>_.
       (Inr ((changed_context ev r)\<lparr>gd_awakened_invocations := {iv_invocation_id r}\<rparr>),
        mod_inv {ev_inv_key ev} (\<lambda>x. x\<lparr>iv_state := READY, iv_updated_ts_ms := ev_ts_ms ev,
          iv_active_tool_family := None, iv_active_tool_start_ms := None\<rparr>) g)))"

text \<open>The state is already \<open>RUNNING_LLM\<close> when a bad \<open>messages_consumed\<close> raises.\<close>

definition on_llm_submit :: "runtime_event \<Rightarrow> causal_graph \<Rightarrow> graph_delta effect" where
  "on_llm_submit ev g =
     checked g (event_invocation ev g) (\<lambda>r.
     checked g (ensure_not_terminal r) (\<lambda>_.
     after (touch_context (iv_context_id r) ev g) (\<lambda>_ g1.
       let g2 = mod_inv {ev_inv_key ev} (\<lambda>x. x\<lparr>iv_state := RUNNING_LLM\<rparr>) g1 in
     checked g2 (py_int (dict_get (ev_attributes ev) ''messages_consumed'' (PInt 0))) (\<lambda>n.
       (Inr (changed_context ev r),
        mod_inv {ev_inv_key ev} (\<lambda>x. x\<lparr>iv_pending_messages := max 0 (iv_pending_messages x - n),
          iv_updated_ts_ms := ev_ts_ms ev, iv_llm_round := iv_llm_round x + 1\<rparr>) g2)))))"

definition on_llm_result :: "runtime_event \<Rightarrow> causal_graph \<Rightarrow> graph_delta effect" where
  "on_llm_result ev g =
     checked g (event_invocation ev g) (\<lambda>r.
     checked g (ensure_not_terminal r) (\<lambda>_.
     after (touch_context (iv_context_id r) ev g) (\<lambda>_ g1.
       if attr_bool ev ''terminal'' False then
         after (finish_invocation DONE (ev_ts_ms ev) (ev_inv_key ev) r g1) (\<lambda>awakened g2.
           (Inr ((changed_context ev r)
               \<lparr>gd_awakened_invocations := awakened, gd_completed_invocations := {iv_invocation_id r}\<rparr>), g2))
       else
         (Inr ((changed_context ev r)\<lparr>gd_awakened_invocations := {iv_invocation_id r}\<rparr>),
          mod_inv {ev_inv_key ev} (set_state READY (ev_ts_ms ev)) g1))))"

section \<open>Applying events\<close>

fun handler :: "py_runtime \<Rightarrow> runtime_event_kind \<Rightarrow> runtime_event \<Rightarrow> causal_graph \<Rightarrow> graph_delta effect" where
  "handler rt WORKFLOW_START = on_workflow_start"
| "handler rt WORKFLOW_END = on_workflow_end"
| "handler rt INVOCATION_CREATE = on_invocation_create"
| "handler rt INVOCATION_CANCEL = on_invocation_cancel"
| "handler rt CONTEXT_ADVANCE = on_context_advance"
| "handler rt CONTEXT_COMPACT = on_context_compact"
| "handler rt CALL = on_call"
| "handler rt SPAWN = on_spawn"
| "handler rt RETURN = on_return"
| "handler rt MESSAGE = on_message"
| "handler rt HANDOFF = on_handoff"
| "handler rt REACTIVATE = on_reactivate"
| "handler rt JOIN_CREATE = on_join_create rt"
| "handler rt JOIN_WAIT = on_join_wait"
| "handler rt JOIN_SATISFIED = on_join_satisfied"
| "handler rt JOIN_TIMEOUT = on_join_timeout"
| "handler rt TOOL_START = on_tool_start rt"
| "handler rt TOOL_END = on_tool_end"
| "handler rt LLM_SUBMIT = on_llm_submit"
| "handler rt LLM_RESULT = on_llm_result"
| "handler rt CALL_CENSORED = on_call_censored"
| "handler rt STRUCTURED_ACTION = on_structured_action"

definition apply_event :: "py_runtime \<Rightarrow> runtime_event \<Rightarrow> causal_graph \<Rightarrow> graph_delta effect" where
  "apply_event rt ev g =
     (if ev_event_id ev \<in> cg_processed_event_ids g
      then (Inr ((empty_delta (ev_event_id ev))\<lparr>gd_graph_version := cg_graph_version g\<rparr>), g)
      else
        let last_ts = map_of (cg_last_ts_by_workflow g) (ev_workflow_id ev) in
        if cg_strict_timestamps g \<and> (case last_ts of None \<Rightarrow> False | Some t \<Rightarrow> ev_ts_ms ev < t)
        then (Inl (CausalGraphError (''out-of-order event '' @ ev_event_id ev)), g)
        else
          after (handler rt (ev_kind ev) ev g) (\<lambda>delta g1.
            let g2 = g1\<lparr>cg_processed_event_ids := insert (ev_event_id ev) (cg_processed_event_ids g1),
                        cg_last_ts_by_workflow := AList.update (ev_workflow_id ev)
                          (max (ev_ts_ms ev) (case last_ts of None \<Rightarrow> ev_ts_ms ev | Some t \<Rightarrow> t))
                          (cg_last_ts_by_workflow g1),
                        cg_graph_version := cg_graph_version g1 + 1\<rparr> in
            (Inr (delta\<lparr>gd_graph_version := cg_graph_version g2\<rparr>), g2)))"

fun apply_all :: "py_runtime \<Rightarrow> runtime_event list \<Rightarrow> causal_graph \<Rightarrow> graph_delta list effect" where
  "apply_all rt [] g = (Inr [], g)"
| "apply_all rt (ev # evs) g =
     after (apply_event rt ev g) (\<lambda>d g1.
     after (apply_all rt evs g1) (\<lambda>ds g2. (Inr (d # ds), g2)))"

definition apply_batch :: "py_runtime \<Rightarrow> runtime_event list \<Rightarrow> bool \<Rightarrow> causal_graph \<Rightarrow> graph_delta list effect" where
  "apply_batch rt evs atomic g =
     (if \<not> atomic then apply_all rt evs g
      else case apply_all rt evs g of
             (Inl e, _) \<Rightarrow> (Inl e, g)
           | (Inr ds, g') \<Rightarrow> (Inr ds, g'))"

section \<open>Queries\<close>

function ancestors_walk ::
  "causal_graph \<Rightarrow> string set \<Rightarrow> invocation_record \<Rightarrow> invocation_record list result" where
  "ancestors_walk g seen r =
     (case iv_parent_invocation_id r of
        None \<Rightarrow> Inr []
      | Some p \<Rightarrow>
          if p \<in> seen then Inl (CausalGraphError ''invocation graph contains a cycle'')
          else (case map_of (cg_invocations g) p of
                  None \<Rightarrow> Inl (KeyError p)
                | Some q \<Rightarrow> rbind (ancestors_walk g (insert p seen) q) (\<lambda>qs. Inr (q # qs))))"
  by pat_completeness auto

termination ancestors_walk
  by (relation "measure (\<lambda>(g, seen, r). unseen (cg_invocations g) seen)")
    (simp_all add: unseen_insert)

declare ancestors_walk.simps [simp del]

definition ancestors :: "string \<Rightarrow> causal_graph \<Rightarrow> invocation_record list result" where
  "ancestors i g = rbind (dict_item (cg_invocations g) i i) (ancestors_walk g {})"

text \<open>The stack of \<open>active_descendants\<close>, its top first; the children of an invocation are pushed in
  an unspecified order, here the lexicographic one.\<close>

function descendants_walk ::
  "causal_graph \<Rightarrow> string set \<Rightarrow> string list \<Rightarrow> invocation_record list result" where
  "descendants_walk g seen [] = Inr []"
| "descendants_walk g seen (c # stack) =
     (if c \<in> seen then descendants_walk g seen stack
      else (case map_of (cg_invocations g) c of
              None \<Rightarrow> Inl (KeyError c)
            | Some r \<Rightarrow>
                rbind (descendants_walk g (insert c seen)
                        (rev (sorted_list_of_set (iv_child_invocation_ids r)) @ stack)) (\<lambda>rs.
                  Inr (if state_terminal (iv_state r) then rs else r # rs))))"
  by pat_completeness auto

termination descendants_walk
  by (relation "(\<lambda>(g, seen, stack). unseen (cg_invocations g) seen) <*mlex*>
        measure (\<lambda>(g, seen, stack). length stack)")
    (simp_all add: unseen_insert wf_mlex mlex_iff)

declare descendants_walk.simps [simp del]

definition active_descendants :: "string \<Rightarrow> causal_graph \<Rightarrow> invocation_record list result" where
  "active_descendants i g =
     rbind (dict_item (cg_invocations g) i i) (\<lambda>r.
       descendants_walk g {} (rev (sorted_list_of_set (iv_child_invocation_ids r))))"

definition ready_invocations :: "string option \<Rightarrow> causal_graph \<Rightarrow> invocation_record list" where
  "ready_invocations w g =
     filter (\<lambda>r. iv_state r = READY \<and> (w = None \<or> w = Some (iv_workflow_id r)))
       (map snd (cg_invocations g))"

definition context_invocations :: "string \<Rightarrow> causal_graph \<Rightarrow> invocation_record list result" where
  "context_invocations c g =
     rbind (dict_item (cg_contexts g) c c) (\<lambda>ctx.
       rmap (\<lambda>i. dict_item (cg_invocations g) i i) (sorted_list_of_set (cx_invocation_ids ctx)))"

definition context_is_persistent :: "string \<Rightarrow> causal_graph \<Rightarrow> bool result" where
  "context_is_persistent c g = rbind (dict_item (cg_contexts g) c c) (\<lambda>ctx. Inr (cx_persistent ctx))"

end
