(* ===== verification/Causal_Graph_Inv.thy ===== *)
theory Causal_Graph_Inv
  imports Causal_Graph
begin

text \<open>
  Correctness of the causal graph. \<open>graph_step\<close> is an abstract step relation whose steps are the
  elementary changes the events make; every handler, also one that raises, is shown to be a
  sequence of such steps (\<open>handler_steps\<close>). The invariants are then proved once per elementary
  change:

  \<^item> \<open>shape_ok\<close>: identifiers, ownership and parent pointers are consistent and acyclic;
  \<^item> \<open>wait_ok\<close>: a waiting invocation is registered with what it waits for;
  \<^item> \<open>live_ok\<close>: for disciplined events, what it waits for is still alive.
\<close>

section \<open>Shapes\<close>

text \<open>The part of the graph that names things: who belongs to whom.\<close>

record inv_shape =
  is_workflow :: string
  is_id :: string
  is_context :: string
  is_parent :: "string option"
  is_children :: "string set"

record group_shape =
  gs_id :: string
  gs_workflow :: string
  gs_members :: "string set"
  gs_waiters :: "string set"

record shape =
  sh_workflows :: "string \<Rightarrow> group_shape option"
  sh_invocations :: "string \<Rightarrow> inv_shape option"
  sh_contexts :: "string \<Rightarrow> group_shape option"
  sh_joins :: "string \<Rightarrow> group_shape option"

definition invocation_shape :: "invocation_record \<Rightarrow> inv_shape" where
  "invocation_shape r = \<lparr>is_workflow = iv_workflow_id r, is_id = iv_invocation_id r,
     is_context = iv_context_id r, is_parent = iv_parent_invocation_id r,
     is_children = iv_child_invocation_ids r\<rparr>"

definition workflow_shape :: "workflow_record \<Rightarrow> group_shape" where
  "workflow_shape w = \<lparr>gs_id = wf_workflow_id w, gs_workflow = wf_workflow_id w,
     gs_members = wf_invocation_ids w, gs_waiters = {}\<rparr>"

definition context_shape :: "context_record \<Rightarrow> group_shape" where
  "context_shape c = \<lparr>gs_id = cx_context_id c, gs_workflow = cx_workflow_id c,
     gs_members = cx_invocation_ids c, gs_waiters = {}\<rparr>"

definition join_shape :: "join_record \<Rightarrow> group_shape" where
  "join_shape j = \<lparr>gs_id = jn_join_id j, gs_workflow = jn_workflow_id j,
     gs_members = jn_member_invocation_ids j, gs_waiters = jn_waiter_invocation_ids j\<rparr>"

definition graph_shape :: "causal_graph \<Rightarrow> shape" where
  "graph_shape g =
     \<lparr>sh_workflows = \<lambda>k. map_option workflow_shape (map_of (cg_workflows g) k),
      sh_invocations = \<lambda>k. map_option invocation_shape (map_of (cg_invocations g) k),
      sh_contexts = \<lambda>k. map_option context_shape (map_of (cg_contexts g) k),
      sh_joins = \<lambda>k. map_option join_shape (map_of (cg_joins g) k)\<rparr>"

definition parent_rel :: "shape \<Rightarrow> (string \<times> string) set" where
  "parent_rel s = {(i, p). \<exists>r. sh_invocations s i = Some r \<and> is_parent r = Some p}"

text \<open>\<open>i\<close> names an invocation of workflow \<open>w\<close>.\<close>

definition member_of :: "shape \<Rightarrow> string \<Rightarrow> string \<Rightarrow> bool" where
  "member_of s w i \<longleftrightarrow> (\<exists>r. sh_invocations s i = Some r \<and> is_workflow r = w)"

definition inv_ok :: "shape \<Rightarrow> string \<Rightarrow> inv_shape \<Rightarrow> bool" where
  "inv_ok s i r \<longleftrightarrow>
     is_id r = i \<and> finite (is_children r) \<and>
     (\<exists>w. sh_workflows s (is_workflow r) = Some w \<and> i \<in> gs_members w) \<and>
     (\<exists>c. sh_contexts s (is_context r) = Some c \<and> gs_workflow c = is_workflow r \<and> i \<in> gs_members c) \<and>
     (\<forall>p. is_parent r = Some p \<longrightarrow> member_of s (is_workflow r) p) \<and>
     (\<forall>c \<in> is_children r. (c, i) \<in> parent_rel s)"

definition groups_ok :: "shape \<Rightarrow> bool" where
  "groups_ok s \<longleftrightarrow>
     (\<forall>k w. sh_workflows s k = Some w \<longrightarrow>
        gs_id w = k \<and> (\<forall>i \<in> gs_members w. member_of s k i)) \<and>
     (\<forall>k c. sh_contexts s k = Some c \<longrightarrow>
        gs_id c = k \<and> finite (gs_members c) \<and>
        (\<forall>i \<in> gs_members c. \<exists>r. sh_invocations s i = Some r \<and> is_context r = k)) \<and>
     (\<forall>k j. sh_joins s k = Some j \<longrightarrow>
        gs_id j = k \<and> gs_members j \<noteq> {} \<and>
        (\<forall>i \<in> gs_members j \<union> gs_waiters j. member_of s (gs_workflow j) i))"

definition shape_ok :: "shape \<Rightarrow> bool" where
  "shape_ok s \<longleftrightarrow>
     (\<forall>i r. sh_invocations s i = Some r \<longrightarrow> inv_ok s i r) \<and> groups_ok s \<and> acyclic (parent_rel s)"

section \<open>Elementary changes\<close>

text \<open>A change of one invocation that keeps its place in the graph and either its state, or moves
  it between live states without making it wait for children or joins.\<close>

definition calm_change :: "invocation_record \<Rightarrow> invocation_record \<Rightarrow> bool" where
  "calm_change x y \<longleftrightarrow>
     invocation_shape y = invocation_shape x \<and> iv_blocking_child_ids y = iv_blocking_child_ids x \<and>
     iv_return_target_id y = iv_return_target_id x \<and> iv_join_id y = iv_join_id x \<and>
     (iv_state y = iv_state x \<or>
      \<not> state_terminal (iv_state x) \<and> \<not> state_terminal (iv_state y) \<and>
      iv_state y \<noteq> WAIT_CHILD \<and> iv_state y \<noteq> WAIT_JOIN)"

definition new_join_ok :: "causal_graph \<Rightarrow> string \<Rightarrow> join_record \<Rightarrow> bool" where
  "new_join_ok g k j \<longleftrightarrow>
     jn_join_id j = k \<and> jn_member_invocation_ids j \<noteq> {} \<and> jn_waiter_invocation_ids j = {} \<and>
     (\<forall>i \<in> jn_member_invocation_ids j. member_of (graph_shape g) (jn_workflow_id j) i) \<and>
     jn_completed_member_ids j = Set.filter (terminal_in g) (jn_member_invocation_ids j) \<and>
     jn_satisfied j = join_is_satisfied j"

definition new_invocation_ok :: "causal_graph \<Rightarrow> string \<Rightarrow> invocation_record \<Rightarrow> bool" where
  "new_invocation_ok g i r \<longleftrightarrow>
     map_of (cg_invocations g) i = None \<and> iv_invocation_id r = i \<and> iv_state r = READY \<and>
     iv_child_invocation_ids r = {} \<and> iv_blocking_child_ids r = {} \<and>
     map_of (cg_workflows g) (iv_workflow_id r) \<noteq> None \<and>
     (\<exists>c. map_of (cg_contexts g) (iv_context_id r) = Some c \<and> cx_workflow_id c = iv_workflow_id r) \<and>
     (\<forall>p. iv_parent_invocation_id r = Some p \<longrightarrow> member_of (graph_shape g) (iv_workflow_id r) p)"

definition add_invocation :: "string \<Rightarrow> invocation_record \<Rightarrow> bool \<Rightarrow> causal_graph \<Rightarrow> causal_graph" where
  "add_invocation i r persistent g =
     mod_ctx (iv_context_id r) (\<lambda>x. x\<lparr>cx_invocation_ids := insert i (cx_invocation_ids x),
                                     cx_persistent := cx_persistent x \<or> persistent\<rparr>)
       (mod_workflow (iv_workflow_id r) (\<lambda>w. w\<lparr>wf_invocation_ids := insert i (wf_invocation_ids w)\<rparr>)
         (g\<lparr>cg_invocations := AList.update i r (cg_invocations g)\<rparr>))"

definition wait_update :: "string \<Rightarrow> string \<Rightarrow> invocation_state \<Rightarrow> real \<Rightarrow> causal_graph \<Rightarrow> causal_graph" where
  "wait_update i j s ts g =
     mod_inv {i} (\<lambda>x. x\<lparr>iv_join_id := Some j, iv_updated_ts_ms := ts, iv_state := s\<rparr>)
       (mod_join j (\<lambda>x. x\<lparr>jn_waiter_invocation_ids := insert i (jn_waiter_invocation_ids x)\<rparr>) g)"

text \<open>The flag asks for the discipline of \<open>live_ok\<close>.\<close>

inductive graph_step :: "bool \<Rightarrow> causal_graph \<Rightarrow> causal_graph \<Rightarrow> bool" for d where
  workflow_new:
    "map_of (cg_workflows g) w = None \<Longrightarrow>
     graph_step d g (g\<lparr>cg_workflows := AList.update w \<lparr>wf_workflow_id = w, wf_start_ts_ms = ts,
       wf_end_ts_ms = None, wf_invocation_ids = {}\<rparr> (cg_workflows g)\<rparr>)"
| workflow_done:
    "map_of (cg_workflows g) w = Some W \<Longrightarrow>
     graph_step d g (mod_workflow w (\<lambda>x. x\<lparr>wf_end_ts_ms := Some ts\<rparr>)
       (mod_inv (wf_invocation_ids W) (cancel_live ts) g))"
| context_new:
    "map_of (cg_contexts g) c = None \<Longrightarrow> cx_context_id x = c \<Longrightarrow> cx_invocation_ids x = {} \<Longrightarrow>
     graph_step d g (g\<lparr>cg_contexts := AList.update c x (cg_contexts g)\<rparr>)"
| context_change:
    "(\<And>x. map_of (cg_contexts g) c = Some x \<Longrightarrow>
        context_shape (f x) = context_shape x \<and> cx_epoch x \<le> cx_epoch (f x)) \<Longrightarrow>
     graph_step d g (mod_ctx c f g)"
| invocation_new:
    "new_invocation_ok g i r \<Longrightarrow>
     (\<And>w. d \<Longrightarrow> map_of (cg_workflows g) (iv_workflow_id r) = Some w \<Longrightarrow> wf_end_ts_ms w = None) \<Longrightarrow>
     graph_step d g (add_invocation i r persistent g)"
| invocation_change:
    "(\<And>x. map_of (cg_invocations g) i = Some x \<Longrightarrow> calm_change x (f x)) \<Longrightarrow>
     graph_step d g (mod_inv {i} f g)"
| invocation_finish:
    "map_of (cg_invocations g) i = Some r \<Longrightarrow> \<not> state_terminal (iv_state r) \<Longrightarrow> state_terminal s \<Longrightarrow>
     graph_step d g (snd (finish_invocation s ts i r g))"
| invocation_link:
    "map_of (cg_invocations g) p = Some P \<Longrightarrow> map_of (cg_invocations g) c = Some C \<Longrightarrow>
     iv_workflow_id P = iv_workflow_id C \<Longrightarrow>
     \<not> state_terminal (iv_state P) \<Longrightarrow> \<not> state_terminal (iv_state C) \<Longrightarrow>
     p \<noteq> c \<Longrightarrow> is_ancestor c p g = Inr False \<Longrightarrow> iv_parent_invocation_id C \<in> {None, Some p} \<Longrightarrow>
     (d \<Longrightarrow> str_or ret (Some p) = Some p) \<Longrightarrow>
     graph_step d g (link_update p c P ret mode relation ts g)"
| message_edge: "graph_step d g (bump_edge s t ts g)"
| join_new:
    "map_of (cg_joins g) k = None \<Longrightarrow> new_join_ok g k j \<Longrightarrow>
     graph_step d g (g\<lparr>cg_joins := AList.update k j (cg_joins g)\<rparr>)"
| join_waits:
    "map_of (cg_invocations g) i = Some r \<Longrightarrow> map_of (cg_joins g) k = Some j \<Longrightarrow>
     iv_workflow_id r = jn_workflow_id j \<Longrightarrow> (d \<Longrightarrow> \<not> state_terminal (iv_state r)) \<Longrightarrow>
     graph_step d g (wait_update i k (if jn_satisfied j then READY else WAIT_JOIN) ts g)"
| join_wakes:
    "map_of (cg_joins g) k = Some j \<Longrightarrow>
     graph_step d g (mod_inv (jn_waiter_invocation_ids j) (wake_waiter ts) g)"
| join_satisfies:
    "map_of (cg_joins g) k = Some j \<Longrightarrow>
     graph_step d g (mod_inv (jn_waiter_invocation_ids j) (wake_waiter ts)
       (mod_join k (\<lambda>x. x\<lparr>jn_satisfied := True\<rparr>) g))"


section \<open>Fields of updated graphs\<close>

lemma mod_inv_fields [simp]:
  "cg_invocations (mod_inv ks f g) = dmap_on ks f (cg_invocations g)"
  "cg_workflows (mod_inv ks f g) = cg_workflows g" "cg_contexts (mod_inv ks f g) = cg_contexts g"
  "cg_joins (mod_inv ks f g) = cg_joins g"
  "cg_communication_edges (mod_inv ks f g) = cg_communication_edges g"
  "cg_processed_event_ids (mod_inv ks f g) = cg_processed_event_ids g"
  "cg_last_ts_by_workflow (mod_inv ks f g) = cg_last_ts_by_workflow g"
  "cg_graph_version (mod_inv ks f g) = cg_graph_version g"
  "cg_strict_timestamps (mod_inv ks f g) = cg_strict_timestamps g"
  by (simp_all add: mod_inv_def)

lemma mod_ctx_fields [simp]:
  "cg_contexts (mod_ctx c f g) = dmap_on {c} f (cg_contexts g)"
  "cg_workflows (mod_ctx c f g) = cg_workflows g" "cg_invocations (mod_ctx c f g) = cg_invocations g"
  "cg_joins (mod_ctx c f g) = cg_joins g"
  "cg_communication_edges (mod_ctx c f g) = cg_communication_edges g"
  "cg_processed_event_ids (mod_ctx c f g) = cg_processed_event_ids g"
  "cg_last_ts_by_workflow (mod_ctx c f g) = cg_last_ts_by_workflow g"
  "cg_graph_version (mod_ctx c f g) = cg_graph_version g"
  "cg_strict_timestamps (mod_ctx c f g) = cg_strict_timestamps g"
  by (simp_all add: mod_ctx_def)

lemma mod_join_fields [simp]:
  "cg_joins (mod_join k f g) = dmap_on {k} f (cg_joins g)"
  "cg_workflows (mod_join k f g) = cg_workflows g" "cg_invocations (mod_join k f g) = cg_invocations g"
  "cg_contexts (mod_join k f g) = cg_contexts g"
  "cg_communication_edges (mod_join k f g) = cg_communication_edges g"
  "cg_processed_event_ids (mod_join k f g) = cg_processed_event_ids g"
  "cg_last_ts_by_workflow (mod_join k f g) = cg_last_ts_by_workflow g"
  "cg_graph_version (mod_join k f g) = cg_graph_version g"
  "cg_strict_timestamps (mod_join k f g) = cg_strict_timestamps g"
  by (simp_all add: mod_join_def)

lemma mod_workflow_fields [simp]:
  "cg_workflows (mod_workflow w f g) = dmap_on {w} f (cg_workflows g)"
  "cg_joins (mod_workflow w f g) = cg_joins g" "cg_invocations (mod_workflow w f g) = cg_invocations g"
  "cg_contexts (mod_workflow w f g) = cg_contexts g"
  "cg_communication_edges (mod_workflow w f g) = cg_communication_edges g"
  "cg_processed_event_ids (mod_workflow w f g) = cg_processed_event_ids g"
  "cg_last_ts_by_workflow (mod_workflow w f g) = cg_last_ts_by_workflow g"
  "cg_graph_version (mod_workflow w f g) = cg_graph_version g"
  "cg_strict_timestamps (mod_workflow w f g) = cg_strict_timestamps g"
  by (simp_all add: mod_workflow_def)

lemma bump_edge_fields [simp]:
  "cg_workflows (bump_edge s t ts g) = cg_workflows g"
  "cg_joins (bump_edge s t ts g) = cg_joins g" "cg_invocations (bump_edge s t ts g) = cg_invocations g"
  "cg_contexts (bump_edge s t ts g) = cg_contexts g"
  "cg_processed_event_ids (bump_edge s t ts g) = cg_processed_event_ids g"
  "cg_last_ts_by_workflow (bump_edge s t ts g) = cg_last_ts_by_workflow g"
  "cg_graph_version (bump_edge s t ts g) = cg_graph_version g"
  "cg_strict_timestamps (bump_edge s t ts g) = cg_strict_timestamps g"
  by (simp_all add: bump_edge_def Let_def)

lemma checked_simps [simp]:
  "checked g (Inl e) k = (Inl e, g)" "checked g (Inr x) k = k x"
  by (simp_all add: checked_def)

lemma after_simps [simp]:
  "after (Inl e, g) k = (Inl e, g)" "after (Inr x, g) k = k x g"
  by (simp_all add: after_def)

text \<open>A property of the graph an effect leaves behind, by the outcome of its parts.\<close>

lemma snd_checked:
  "(\<And>e. r = Inl e \<Longrightarrow> P g) \<Longrightarrow> (\<And>x. r = Inr x \<Longrightarrow> P (snd (k x))) \<Longrightarrow> P (snd (checked g r k))"
  by (cases r) auto

lemma snd_after:
  "(\<And>e. fst m = Inl e \<Longrightarrow> P (snd m)) \<Longrightarrow> (\<And>x. fst m = Inr x \<Longrightarrow> P (snd (k x (snd m)))) \<Longrightarrow>
   P (snd (after m k))"
  by (cases m; cases "fst m") auto

lemma shape_fields [simp]:
  "sh_workflows (graph_shape g) k = map_option workflow_shape (map_of (cg_workflows g) k)"
  "sh_invocations (graph_shape g) k = map_option invocation_shape (map_of (cg_invocations g) k)"
  "sh_contexts (graph_shape g) k = map_option context_shape (map_of (cg_contexts g) k)"
  "sh_joins (graph_shape g) k = map_option join_shape (map_of (cg_joins g) k)"
  by (simp_all add: graph_shape_def)

lemma inv_shape_fields [simp]:
  "is_workflow (invocation_shape r) = iv_workflow_id r" "is_id (invocation_shape r) = iv_invocation_id r"
  "is_context (invocation_shape r) = iv_context_id r"
  "is_parent (invocation_shape r) = iv_parent_invocation_id r"
  "is_children (invocation_shape r) = iv_child_invocation_ids r"
  by (simp_all add: invocation_shape_def)

lemma group_shape_fields [simp]:
  "gs_id (workflow_shape w) = wf_workflow_id w" "gs_members (workflow_shape w) = wf_invocation_ids w"
  "gs_id (context_shape c) = cx_context_id c" "gs_workflow (context_shape c) = cx_workflow_id c"
  "gs_members (context_shape c) = cx_invocation_ids c"
  "gs_id (join_shape j) = jn_join_id j" "gs_workflow (join_shape j) = jn_workflow_id j"
  "gs_members (join_shape j) = jn_member_invocation_ids j"
  "gs_waiters (join_shape j) = jn_waiter_invocation_ids j"
  by (simp_all add: workflow_shape_def context_shape_def join_shape_def)

lemma graph_shape_eqI:
  assumes "\<And>k. map_option workflow_shape (map_of (cg_workflows g) k)
      = map_option workflow_shape (map_of (cg_workflows h) k)"
    and "\<And>k. map_option invocation_shape (map_of (cg_invocations g) k)
      = map_option invocation_shape (map_of (cg_invocations h) k)"
    and "\<And>k. map_option context_shape (map_of (cg_contexts g) k)
      = map_option context_shape (map_of (cg_contexts h) k)"
    and "\<And>k. map_option join_shape (map_of (cg_joins g) k) = map_option join_shape (map_of (cg_joins h) k)"
  shows "graph_shape g = graph_shape h"
  using assms by (simp add: graph_shape_def fun_eq_iff)

lemma map_option_same: "(\<And>x. m = Some x \<Longrightarrow> h (f x) = h x) \<Longrightarrow> map_option h (map_option f m) = map_option h m"
  by (cases m) auto

lemma shape_mod_inv:
  "(\<And>i x. i \<in> ks \<Longrightarrow> map_of (cg_invocations g) i = Some x \<Longrightarrow> invocation_shape (f x) = invocation_shape x) \<Longrightarrow>
   graph_shape (mod_inv ks f g) = graph_shape g"
  by (rule graph_shape_eqI) (auto simp: map_of_dmap_on intro: map_option_same)

lemma shape_mod_ctx:
  "(\<And>x. map_of (cg_contexts g) c = Some x \<Longrightarrow> context_shape (f x) = context_shape x) \<Longrightarrow>
   graph_shape (mod_ctx c f g) = graph_shape g"
  by (rule graph_shape_eqI) (auto simp: map_of_dmap_on intro: map_option_same)

lemma shape_mod_join:
  "(\<And>x. map_of (cg_joins g) k = Some x \<Longrightarrow> join_shape (f x) = join_shape x) \<Longrightarrow>
   graph_shape (mod_join k f g) = graph_shape g"
  by (rule graph_shape_eqI) (auto simp: map_of_dmap_on intro: map_option_same)

lemma shape_mod_workflow:
  "(\<And>x. map_of (cg_workflows g) w = Some x \<Longrightarrow> workflow_shape (f x) = workflow_shape x) \<Longrightarrow>
   graph_shape (mod_workflow w f g) = graph_shape g"
  by (rule graph_shape_eqI) (auto simp: map_of_dmap_on intro: map_option_same)

lemma small_change_shapes [simp]:
  "invocation_shape (wake_waiter ts r) = invocation_shape r"
  "invocation_shape (cancel_live ts r) = invocation_shape r"
  "invocation_shape (set_state s ts r) = invocation_shape r"
  "invocation_shape (complete_child i ts r) = invocation_shape r"
  "invocation_shape (set_updated ts r) = invocation_shape r"
  by (simp_all add: wake_waiter_def cancel_live_def set_state_def complete_child_def Let_def
      set_updated_def invocation_shape_def)

lemma complete_join_cases:
  obtains (same) "snd (complete_join i ts k g) = g"
      and "\<And>j. map_of (cg_joins g) k = Some j \<Longrightarrow> i \<notin> jn_member_invocation_ids j"
  | (more) j j1 where "map_of (cg_joins g) k = Some j" and "i \<in> jn_member_invocation_ids j"
      and "j1 = j\<lparr>jn_completed_member_ids := insert i (jn_completed_member_ids j)\<rparr>"
      and "\<not> join_is_satisfied j1" and "snd (complete_join i ts k g) = mod_join k (\<lambda>_. j1) g"
  | (wake) j j2 where "map_of (cg_joins g) k = Some j" and "i \<in> jn_member_invocation_ids j"
      and "j2 = j\<lparr>jn_completed_member_ids := insert i (jn_completed_member_ids j), jn_satisfied := True\<rparr>"
      and "snd (complete_join i ts k g)
        = mod_inv (jn_waiter_invocation_ids j) (wake_waiter ts) (mod_join k (\<lambda>_. j2) g)"
proof (cases "map_of (cg_joins g) k")
  case (Some j)
  define j1 where "j1 = j\<lparr>jn_completed_member_ids := insert i (jn_completed_member_ids j)\<rparr>"
  show ?thesis
  proof (cases "i \<in> jn_member_invocation_ids j")
    case True
    show ?thesis
    proof (cases "join_is_satisfied j1")
      case False
      with True Some show ?thesis
        by (intro more [of j j1]) (simp_all add: j1_def complete_join_def)
    next
      case sat: True
      with True Some show ?thesis
        by (intro wake [of j "j1\<lparr>jn_satisfied := True\<rparr>"])
          (simp_all add: j1_def complete_join_def wake_join_waiters_def Let_def)
    qed
  qed (rule same, simp_all add: complete_join_def Some)
qed (use same in \<open>auto simp: complete_join_def\<close>)

lemma shape_complete_join: "graph_shape (snd (complete_join i ts k g)) = graph_shape g"
proof (cases rule: complete_join_cases [of i ts k g])
  case same
  then show ?thesis by simp
next
  case (more j j1)
  then have "graph_shape (mod_join k (\<lambda>_. j1) g) = graph_shape g"
    by (intro shape_mod_join) (simp add: join_shape_def)
  with more show ?thesis by simp
next
  case (wake j j2)
  then have "graph_shape (mod_join k (\<lambda>_. j2) g) = graph_shape g"
    by (intro shape_mod_join) (simp add: join_shape_def)
  with wake show ?thesis by (simp add: shape_mod_inv)
qed

lemma complete_joins_induct:
  assumes "P g" and "\<And>k g. k \<in> set ks \<Longrightarrow> P g \<Longrightarrow> P (snd (complete_join i ts k g))"
  shows "P (snd (complete_joins i ts ks aw g))"
  using assms
proof (induction ks arbitrary: g aw)
  case (Cons k ks)
  then have "P (snd (complete_join i ts k g))" by simp
  with Cons show ?case by (auto intro: snd_after)
qed simp

lemma shape_complete_joins: "graph_shape (snd (complete_joins i ts ks aw g)) = graph_shape g"
  by (rule complete_joins_induct [where P = "\<lambda>h. graph_shape h = graph_shape g"])
    (simp_all add: shape_complete_join)

lemma finish_invocation_graph:
  obtains g1 aw where
    "finish_invocation s ts i r g = complete_joins (iv_invocation_id r) ts (map fst (cg_joins g)) aw g1"
    and "g1 = (case str_or (iv_return_target_id r) (iv_parent_invocation_id r) of
           None \<Rightarrow> mod_inv {i} (set_state s ts) g
         | Some t \<Rightarrow> mod_inv {t} (complete_child (iv_invocation_id r) ts) (mod_inv {i} (set_state s ts) g))"
proof -
  have none: "mod_inv {t} f h = h" if "map_of (cg_invocations h) t = None" for t f h
  proof -
    have "dmap_on {t} f (cg_invocations h) = cg_invocations h"
      using that unfolding dmap_on_def
      by (intro map_idI) (auto simp: map_of_eq_None_iff image_iff)
    then show ?thesis by (simp add: mod_inv_def)
  qed
  have fields: "iv_invocation_id (set_state s ts r) = iv_invocation_id r"
    "iv_return_target_id (set_state s ts r) = iv_return_target_id r"
    "iv_parent_invocation_id (set_state s ts r) = iv_parent_invocation_id r"
    by (simp_all add: set_state_def)
  show thesis
  proof (cases "str_or (iv_return_target_id r) (iv_parent_invocation_id r)")
    case None
    then show thesis
      by (intro that [of "{}", OF _ refl]) (simp add: finish_invocation_def complete_dependencies_def fields)
  next
    case (Some t)
    show thesis
    proof (cases "map_of (cg_invocations (mod_inv {i} (set_state s ts) g)) t")
      case None
      with Some show thesis
        by (intro that [of "{}", OF _ refl])
          (simp add: finish_invocation_def complete_dependencies_def fields none)
    next
      case (Some p)
      with \<open>str_or _ _ = Some t\<close> show thesis
        by (intro that [OF _ refl])
          (simp add: finish_invocation_def complete_dependencies_def fields Let_def)
    qed
  qed
qed

lemma shape_finish_invocation: "graph_shape (snd (finish_invocation s ts i r g)) = graph_shape g"
  by (rule finish_invocation_graph [of s ts i r g])
    (simp add: shape_complete_joins shape_mod_inv split: option.split)


section \<open>Shapes stay consistent\<close>

lemma member_of_mono:
  "member_of s w i \<Longrightarrow> (\<And>r. sh_invocations s i = Some r \<Longrightarrow>
     \<exists>r'. sh_invocations s' i = Some r' \<and> is_workflow r' = is_workflow r) \<Longrightarrow> member_of s' w i"
  by (fastforce simp: member_of_def)

lemma shape_add_workflow:
  assumes "shape_ok s" and "sh_workflows s k = None" and "gs_id W = k" and "gs_members W = {}"
  shows "shape_ok (s\<lparr>sh_workflows := (sh_workflows s)(k \<mapsto> W)\<rparr>)"
  using assms unfolding shape_ok_def inv_ok_def groups_ok_def member_of_def parent_rel_def
  by (auto; metis option.distinct(1))

lemma shape_add_context:
  assumes "shape_ok s" and "sh_contexts s k = None" and "gs_id C = k" and "gs_members C = {}"
  shows "shape_ok (s\<lparr>sh_contexts := (sh_contexts s)(k \<mapsto> C)\<rparr>)"
  using assms unfolding shape_ok_def inv_ok_def groups_ok_def member_of_def parent_rel_def
  by (auto; metis option.distinct(1))

lemma shape_put_join:
  assumes "shape_ok s" and "gs_id J = k" and "gs_members J \<noteq> {}"
    and "\<And>i. i \<in> gs_members J \<union> gs_waiters J \<Longrightarrow> member_of s (gs_workflow J) i"
  shows "shape_ok (s\<lparr>sh_joins := (sh_joins s)(k \<mapsto> J)\<rparr>)"
  using assms unfolding shape_ok_def inv_ok_def groups_ok_def member_of_def parent_rel_def
  by simp

lemma shape_add_invocation:
  assumes ok: "shape_ok s" and new: "sh_invocations s i = None" and ident: "is_id r = i"
    and children: "is_children r = {}" and W: "sh_workflows s (is_workflow r) = Some W"
    and C: "sh_contexts s (is_context r) = Some C" "gs_workflow C = is_workflow r"
    and parent: "\<And>p. is_parent r = Some p \<Longrightarrow> member_of s (is_workflow r) p"
  shows "shape_ok (s\<lparr>sh_invocations := (sh_invocations s)(i \<mapsto> r),
    sh_workflows := (sh_workflows s)(is_workflow r \<mapsto> W\<lparr>gs_members := insert i (gs_members W)\<rparr>),
    sh_contexts := (sh_contexts s)(is_context r \<mapsto> C\<lparr>gs_members := insert i (gs_members C)\<rparr>)\<rparr>)"
    (is "shape_ok ?s")
proof -
  have mem: "member_of ?s w k" if "member_of s w k" for w k
    using that new by (auto simp: member_of_def)
  have memi: "member_of ?s (is_workflow r) i" by (simp add: member_of_def)
  have rel: "parent_rel ?s = parent_rel s \<union> (case is_parent r of None \<Rightarrow> {} | Some p \<Rightarrow> {(i, p)})"
    using new by (auto simp: parent_rel_def split: option.splits if_split_asm)
  have absent: "(k, i) \<notin> parent_rel s" for k
    using ok new unfolding shape_ok_def inv_ok_def member_of_def parent_rel_def by fastforce
  have acyc: "acyclic (parent_rel ?s)"
  proof (cases "is_parent r")
    case None
    with ok rel show ?thesis by (simp add: shape_ok_def)
  next
    case (Some p)
    have "(p, i) \<notin> (parent_rel s)\<^sup>*"
      using absent parent [OF Some] new by (auto simp: member_of_def elim: rtranclE)
    with ok rel Some show ?thesis by (simp add: shape_ok_def acyclic_insert)
  qed
  have old: "inv_ok ?s k q" if "sh_invocations s k = Some q" for k q
  proof -
    have q: "inv_ok s k q" using ok that by (simp add: shape_ok_def)
    then obtain w c where w: "sh_workflows s (is_workflow q) = Some w" "k \<in> gs_members w"
      and c: "sh_contexts s (is_context q) = Some c" "gs_workflow c = is_workflow q" "k \<in> gs_members c"
      by (auto simp: inv_ok_def)
    have "\<exists>w. sh_workflows ?s (is_workflow q) = Some w \<and> k \<in> gs_members w" using w W by auto
    moreover have "\<exists>c. sh_contexts ?s (is_context q) = Some c \<and> gs_workflow c = is_workflow q \<and> k \<in> gs_members c"
      using c C by auto
    ultimately show ?thesis using q rel mem unfolding inv_ok_def by blast
  qed
  have "inv_ok ?s i r" using ident children C parent mem by (simp add: inv_ok_def)
  with old have invs: "inv_ok ?s k q" if "sh_invocations ?s k = Some q" for k q
    using that by (cases "k = i") auto
  have "groups_ok ?s"
    unfolding groups_ok_def
  proof (intro conjI allI impI, goal_cases)
    case (2 k w)
    then show ?case using ok mem memi W unfolding shape_ok_def groups_ok_def
      by (cases "k = is_workflow r") auto
  next
    case (1 k w)
    then show ?case using ok W unfolding shape_ok_def groups_ok_def by (cases "k = is_workflow r") auto
  next
    case (3 k c)
    then show ?case using ok C unfolding shape_ok_def groups_ok_def by (cases "k = is_context r") auto
  next
    case (4 k c)
    then show ?case using ok C unfolding shape_ok_def groups_ok_def by (cases "k = is_context r") auto
  next
    case (5 k c)
    then show ?case using ok C new unfolding shape_ok_def groups_ok_def
      by (cases "k = is_context r") (auto, metis option.distinct(1))
  qed (use ok mem in \<open>auto simp: shape_ok_def groups_ok_def\<close>)
  with acyc invs show ?thesis by (simp add: shape_ok_def)
qed

lemma shape_link:
  assumes ok: "shape_ok s" and P: "sh_invocations s p = Some P" and C: "sh_invocations s c = Some C"
    and same: "is_workflow P = is_workflow C" and ne: "p \<noteq> c"
    and parent: "is_parent C \<in> {None, Some p}" and no_cycle: "(p, c) \<notin> (parent_rel s)\<^sup>+"
  shows "shape_ok (s\<lparr>sh_invocations := (sh_invocations s)(c \<mapsto> C\<lparr>is_parent := Some p\<rparr>,
    p \<mapsto> P\<lparr>is_children := insert c (is_children P)\<rparr>)\<rparr>)" (is "shape_ok ?s")
proof -
  have mem: "member_of ?s w k" if "member_of s w k" for w k
    using that P C by (auto simp: member_of_def)
  have rel: "parent_rel ?s = insert (c, p) (parent_rel s)"
    using parent P C ne by (auto simp: parent_rel_def split: if_split_asm)
  have "(p, c) \<notin> (parent_rel s)\<^sup>*" using no_cycle ne by (auto simp: rtrancl_eq_or_trancl)
  then have acyc: "acyclic (parent_rel ?s)"
    using ok rel by (simp add: shape_ok_def acyclic_insert)
  have keep: "inv_ok ?s k q'" if q: "sh_invocations s k = Some q" and "is_id q' = is_id q"
      "is_workflow q' = is_workflow q" "is_context q' = is_context q" "finite (is_children q')"
      "\<And>p. is_parent q' = Some p \<Longrightarrow> member_of s (is_workflow q) p"
      "\<And>c. c \<in> is_children q' \<Longrightarrow> (c, k) \<in> parent_rel ?s" for k q q'
    using that ok mem unfolding shape_ok_def inv_ok_def by simp
  have "inv_ok ?s k q" if "sh_invocations ?s k = Some q" for k q
  proof (cases "k = p")
    case True
    then have q: "q = P\<lparr>is_children := insert c (is_children P)\<rparr>" using that by simp
    show ?thesis unfolding True q
      by (rule keep [OF P]) (use P ok rel in \<open>auto simp: shape_ok_def inv_ok_def\<close>)
  next
    case kp: False
    show ?thesis
    proof (cases "k = c")
      case True
      then have q: "q = C\<lparr>is_parent := Some p\<rparr>" using that kp by simp
      show ?thesis unfolding True q
        by (rule keep [OF C]) (use C P ok rel same in \<open>auto simp: shape_ok_def inv_ok_def member_of_def\<close>)
    next
      case False
      with that kp have q: "sh_invocations s k = Some q" by simp
      show ?thesis by (rule keep [OF q]) (use q ok rel in \<open>auto simp: shape_ok_def inv_ok_def\<close>)
    qed
  qed
  moreover have "groups_ok ?s"
  proof -
    have ctx: "\<exists>r. sh_invocations ?s k = Some r \<and> is_context r = x"
      if "\<exists>r. sh_invocations s k = Some r \<and> is_context r = x" for k x
      using that P C by auto
    have sel: "sh_workflows ?s = sh_workflows s" "sh_contexts ?s = sh_contexts s" "sh_joins ?s = sh_joins s"
      by simp_all
    have "groups_ok s" using ok by (simp add: shape_ok_def)
    then show ?thesis unfolding groups_ok_def sel using mem ctx by blast
  qed
  ultimately show ?thesis using acyc by (simp add: shape_ok_def)
qed

text \<open>\<open>_is_ancestor\<close> is exact: a negative answer means there is no chain of parents.\<close>

lemma ancestor_walk_False:
  "ancestor_walk g a seen cur = Inr False \<Longrightarrow> cur = map_of (cg_invocations g) i \<Longrightarrow>
   (i, a) \<notin> (parent_rel (graph_shape g))\<^sup>+"
proof (induction g a seen cur arbitrary: i rule: ancestor_walk.induct)
  case (1 g a seen cur)
  show ?case
  proof
    assume "(i, a) \<in> (parent_rel (graph_shape g))\<^sup>+"
    then obtain p where ip: "(i, p) \<in> parent_rel (graph_shape g)"
      and pa: "p = a \<or> (p, a) \<in> (parent_rel (graph_shape g))\<^sup>+"
      by (meson tranclD rtranclD)
    from ip 1 obtain r where r: "cur = Some r" "iv_parent_invocation_id r = Some p"
      by (auto simp: parent_rel_def)
    have "p \<noteq> a" and new: "p \<notin> seen"
      and rest: "ancestor_walk g a (insert p seen) (map_of (cg_invocations g) p) = Inr False"
      using "1.prems"(1) unfolding ancestor_walk.simps [of g a seen cur]
      by (simp_all add: r split: if_split_asm)
    with "1.IH" [OF r \<open>p \<noteq> a\<close> new rest refl] pa show False by simp
  qed
qed

lemma is_ancestor_False: "is_ancestor a i g = Inr False \<Longrightarrow> (i, a) \<notin> (parent_rel (graph_shape g))\<^sup>+"
  using ancestor_walk_False by (auto simp: is_ancestor_def)


text \<open>What each elementary change does to the shape: nothing, or one update that keeps it
  consistent.\<close>

lemma shape_add_invocation_graph:
  assumes "new_invocation_ok g i r" and ok: "shape_ok (graph_shape g)"
  shows "shape_ok (graph_shape (add_invocation i r persistent g))"
proof -
  obtain W C where W: "map_of (cg_workflows g) (iv_workflow_id r) = Some W"
    and C: "map_of (cg_contexts g) (iv_context_id r) = Some C" "cx_workflow_id C = iv_workflow_id r"
    using assms by (auto simp: new_invocation_ok_def)
  let ?r = "invocation_shape r"
  have "graph_shape (add_invocation i r persistent g) = (graph_shape g)
    \<lparr>sh_invocations := (sh_invocations (graph_shape g))(i \<mapsto> ?r),
     sh_workflows := (sh_workflows (graph_shape g))
       (is_workflow ?r \<mapsto> (workflow_shape W)\<lparr>gs_members := insert i (gs_members (workflow_shape W))\<rparr>),
     sh_contexts := (sh_contexts (graph_shape g))
       (is_context ?r \<mapsto> (context_shape C)\<lparr>gs_members := insert i (gs_members (context_shape C))\<rparr>)\<rparr>"
    using W C by (auto simp: graph_shape_def add_invocation_def map_of_dmap_on map_of_update fun_eq_iff
        workflow_shape_def context_shape_def)
  also have "shape_ok \<dots>"
    by (rule shape_add_invocation [OF ok]) (use assms W C in \<open>auto simp: new_invocation_ok_def\<close>)
  finally show ?thesis .
qed

lemma link_update_invocations:
  assumes "p \<noteq> c"
  shows "map_of (cg_invocations (link_update p c P ret mode relation ts g)) k =
    (if k = c then map_option (\<lambda>r. r\<lparr>iv_parent_invocation_id := Some (iv_invocation_id P),
         iv_parent_context_id := Some (iv_context_id P),
         iv_return_target_id := str_or ret (Some (iv_invocation_id P)), iv_execution_mode := mode,
         iv_relation_type := relation, iv_updated_ts_ms := ts, iv_state := READY\<rparr>) (map_of (cg_invocations g) c)
     else if k = p then map_option (\<lambda>r. if mode = FOREGROUND
       then r\<lparr>iv_child_invocation_ids := insert c (iv_child_invocation_ids r),
              iv_blocking_child_ids := insert c (iv_blocking_child_ids r), iv_state := WAIT_CHILD,
              iv_updated_ts_ms := ts\<rparr>
       else r\<lparr>iv_child_invocation_ids := insert c (iv_child_invocation_ids r)\<rparr>) (map_of (cg_invocations g) p)
     else map_of (cg_invocations g) k)"
  using assms by (auto simp: link_update_def Let_def map_of_dmap_on option.map_comp comp_def)

lemma link_update_other [simp]:
  "cg_workflows (link_update p c P ret mode relation ts g) = cg_workflows g"
  "cg_contexts (link_update p c P ret mode relation ts g) = cg_contexts g"
  "cg_joins (link_update p c P ret mode relation ts g) = cg_joins g"
  by (simp_all add: link_update_def Let_def)

lemma shape_link_update:
  assumes ok: "shape_ok (graph_shape g)"
    and P: "map_of (cg_invocations g) p = Some P" and C: "map_of (cg_invocations g) c = Some C"
    and "iv_workflow_id P = iv_workflow_id C" and ne: "p \<noteq> c" and anc: "is_ancestor c p g = Inr False"
    and "iv_parent_invocation_id C \<in> {None, Some p}"
  shows "shape_ok (graph_shape (link_update p c P ret mode relation ts g))"
proof -
  have idp: "iv_invocation_id P = p" using ok P by (force simp: shape_ok_def inv_ok_def)
  have "graph_shape (link_update p c P ret mode relation ts g) = (graph_shape g)
    \<lparr>sh_invocations := (sh_invocations (graph_shape g))(c \<mapsto> (invocation_shape C)\<lparr>is_parent := Some p\<rparr>,
      p \<mapsto> (invocation_shape P)\<lparr>is_children := insert c (is_children (invocation_shape P))\<rparr>)\<rparr>"
    using P C ne by (auto simp: graph_shape_def link_update_invocations fun_eq_iff invocation_shape_def idp)
  also have "shape_ok \<dots>"
    by (rule shape_link [OF ok _ _ _ ne _ is_ancestor_False [OF anc]]) (use assms in auto)
  finally show ?thesis .
qed

lemma shape_okD:
  assumes "shape_ok s"
  shows "sh_invocations s i = Some r \<Longrightarrow> inv_ok s i r"
    and "sh_joins s k = Some j \<Longrightarrow> gs_id j = k \<and> gs_members j \<noteq> {} \<and>
      (\<forall>i \<in> gs_members j \<union> gs_waiters j. member_of s (gs_workflow j) i)"
    and "sh_contexts s c = Some x \<Longrightarrow> gs_id x = c \<and> finite (gs_members x) \<and>
      (\<forall>i \<in> gs_members x. \<exists>r. sh_invocations s i = Some r \<and> is_context r = c)"
    and "sh_workflows s w = Some y \<Longrightarrow> gs_id y = w \<and> (\<forall>i \<in> gs_members y. member_of s w i)"
    and "acyclic (parent_rel s)"
  using assms unfolding shape_ok_def groups_ok_def by blast+

lemma shape_replace_join:
  assumes "map_of (cg_joins g) k = Some j"
  shows "graph_shape (mod_join k f g) =
    (graph_shape g)\<lparr>sh_joins := (sh_joins (graph_shape g))(k \<mapsto> join_shape (f j))\<rparr>"
proof -
  have "(\<lambda>q. map_option join_shape (map_of (dmap_on {k} f (cg_joins g)) q)) =
      (\<lambda>q. map_option join_shape (map_of (cg_joins g) q))(k \<mapsto> join_shape (f j))"
    by (rule ext) (simp add: map_of_dmap_on assms)
  then show ?thesis by (simp add: graph_shape_def)
qed

lemma shape_wait_update:
  assumes ok: "shape_ok (graph_shape g)" and r: "map_of (cg_invocations g) i = Some r"
    and j: "map_of (cg_joins g) k = Some j" and "iv_workflow_id r = jn_workflow_id j"
  shows "shape_ok (graph_shape (wait_update i k s ts g))"
proof -
  let ?j = "(join_shape j)\<lparr>gs_waiters := insert i (gs_waiters (join_shape j))\<rparr>"
  have inv: "graph_shape (wait_update i k s ts g) = graph_shape (mod_join k
      (\<lambda>x. x\<lparr>jn_waiter_invocation_ids := insert i (jn_waiter_invocation_ids x)\<rparr>) g)"
    unfolding wait_update_def by (rule shape_mod_inv) (simp add: invocation_shape_def)
  also have "\<dots> = (graph_shape g)\<lparr>sh_joins := (sh_joins (graph_shape g))(k \<mapsto> ?j)\<rparr>"
    using shape_replace_join [OF j] by (simp add: join_shape_def)
  also have "shape_ok \<dots>"
  proof (rule shape_put_join [OF ok])
    have J: "gs_id (join_shape j) = k" "gs_members (join_shape j) \<noteq> {}"
      "\<And>m. m \<in> gs_members (join_shape j) \<union> gs_waiters (join_shape j) \<Longrightarrow>
         member_of (graph_shape g) (jn_workflow_id j) m"
      using shape_okD(2) [OF ok, of k] j by auto
    have "member_of (graph_shape g) (jn_workflow_id j) i" using r assms(4) by (simp add: member_of_def)
    with J(3) show "member_of (graph_shape g) (gs_workflow ?j) m"
      if "m \<in> gs_members ?j \<union> gs_waiters ?j" for m
      using that by (cases "m = i") simp_all
    show "gs_id ?j = k" "gs_members ?j \<noteq> {}" using J(1,2) by simp_all
  qed
  finally show ?thesis .
qed

lemma graph_step_shape_ok: "graph_step d g g' \<Longrightarrow> shape_ok (graph_shape g) \<Longrightarrow> shape_ok (graph_shape g')"
proof (induction rule: graph_step.induct)
  case (workflow_new g w ts)
  have "graph_shape (g\<lparr>cg_workflows := AList.update w W (cg_workflows g)\<rparr>) = (graph_shape g)
    \<lparr>sh_workflows := (sh_workflows (graph_shape g))(w \<mapsto> workflow_shape W)\<rparr>" for W
    by (auto simp: graph_shape_def map_of_update fun_eq_iff)
  with workflow_new show ?case by (simp add: shape_add_workflow)
next
  case (workflow_done g w W ts)
  then show ?case
    by (subst shape_mod_workflow) (simp_all add: workflow_shape_def shape_mod_inv)
next
  case (context_new g c x)
  have "graph_shape (g\<lparr>cg_contexts := AList.update c x (cg_contexts g)\<rparr>) = (graph_shape g)
    \<lparr>sh_contexts := (sh_contexts (graph_shape g))(c \<mapsto> context_shape x)\<rparr>"
    by (auto simp: graph_shape_def map_of_update fun_eq_iff)
  with context_new show ?case by (simp add: shape_add_context)
next
  case (context_change g c f)
  then show ?case by (subst shape_mod_ctx) simp_all
next
  case (invocation_new g i r persistent)
  then show ?case by (blast intro: shape_add_invocation_graph)
next
  case (invocation_change g i f)
  then show ?case by (subst shape_mod_inv) (auto simp: calm_change_def)
next
  case invocation_finish
  then show ?case by (simp add: shape_finish_invocation)
next
  case invocation_link
  then show ?case by (blast intro: shape_link_update)
next
  case (message_edge g s t ts)
  have "graph_shape (bump_edge s t ts g) = graph_shape g" by (rule graph_shape_eqI) simp_all
  with message_edge show ?case by simp
next
  case (join_new g k j)
  have "graph_shape (g\<lparr>cg_joins := AList.update k j (cg_joins g)\<rparr>) = (graph_shape g)
    \<lparr>sh_joins := (sh_joins (graph_shape g))(k \<mapsto> join_shape j)\<rparr>"
    by (auto simp: graph_shape_def map_of_update fun_eq_iff)
  with join_new show ?case by (auto simp: new_join_ok_def intro!: shape_put_join)
next
  case join_waits
  then show ?case by (blast intro: shape_wait_update)
next
  case join_wakes
  then show ?case by (simp add: shape_mod_inv)
next
  case (join_satisfies g k j ts)
  then show ?case by (simp add: shape_mod_inv) (subst shape_mod_join, simp_all add: join_shape_def)
qed


section \<open>Nobody waits unregistered\<close>

definition waits_ok :: "(string, join_record) dict \<Rightarrow> string \<Rightarrow> invocation_record \<Rightarrow> bool" where
  "waits_ok joins i r \<longleftrightarrow>
     iv_blocking_child_ids r \<subseteq> iv_child_invocation_ids r \<and>
     (iv_state r = WAIT_CHILD \<longrightarrow> iv_blocking_child_ids r \<noteq> {}) \<and>
     (iv_state r = WAIT_JOIN \<longrightarrow>
        (\<exists>k j. iv_join_id r = Some k \<and> map_of joins k = Some j \<and>
               i \<in> jn_waiter_invocation_ids j \<and> \<not> jn_satisfied j))"

definition join_ok :: "join_record \<Rightarrow> bool" where
  "join_ok j \<longleftrightarrow>
     jn_completed_member_ids j \<subseteq> jn_member_invocation_ids j \<and> (join_is_satisfied j \<longrightarrow> jn_satisfied j)"

definition wait_ok :: "causal_graph \<Rightarrow> bool" where
  "wait_ok g \<longleftrightarrow>
     (\<forall>i r. map_of (cg_invocations g) i = Some r \<longrightarrow> waits_ok (cg_joins g) i r) \<and>
     (\<forall>k j. map_of (cg_joins g) k = Some j \<longrightarrow> join_ok j)"

lemma wait_okI:
  "(\<And>i r. map_of (cg_invocations g) i = Some r \<Longrightarrow> waits_ok (cg_joins g) i r) \<Longrightarrow>
   (\<And>k j. map_of (cg_joins g) k = Some j \<Longrightarrow> join_ok j) \<Longrightarrow> wait_ok g"
  by (simp add: wait_ok_def)

lemma wait_okD:
  assumes "wait_ok g"
  shows "map_of (cg_invocations g) i = Some r \<Longrightarrow> waits_ok (cg_joins g) i r"
    and "map_of (cg_joins g) k = Some j \<Longrightarrow> join_ok j"
  using assms by (auto simp: wait_ok_def)

lemma wait_ok_cong:
  "cg_invocations g' = cg_invocations g \<Longrightarrow> cg_joins g' = cg_joins g \<Longrightarrow> wait_ok g' = wait_ok g"
  by (simp add: wait_ok_def)

lemma wait_ok_mod_inv:
  assumes "wait_ok g"
    and "\<And>i x. i \<in> ks \<Longrightarrow> map_of (cg_invocations g) i = Some x \<Longrightarrow> waits_ok (cg_joins g) i x \<Longrightarrow>
      waits_ok (cg_joins g) i (f x)"
  shows "wait_ok (mod_inv ks f g)"
  using assms by (auto simp: wait_ok_def map_of_dmap_on split: if_split_asm)

lemma waits_ok_mono:
  assumes "waits_ok joins i r" and "\<And>k j. map_of joins k = Some j \<Longrightarrow> map_of joins' k = Some j"
  shows "waits_ok joins' i r"
  using assms unfolding waits_ok_def by blast

lemma waits_ok_wake: "waits_ok joins i r \<Longrightarrow> waits_ok joins i (wake_waiter ts r)"
  by (simp add: waits_ok_def wake_waiter_def)

lemma waits_ok_calm: "waits_ok joins i x \<Longrightarrow> calm_change x y \<Longrightarrow> waits_ok joins i y"
  by (auto simp: waits_ok_def calm_change_def invocation_shape_def)

lemma waits_ok_complete: "waits_ok joins i x \<Longrightarrow> waits_ok joins i (complete_child c ts x)"
  by (auto simp: waits_ok_def complete_child_def Let_def state_terminal_def)

lemma waits_ok_terminal:
  "waits_ok joins i x \<Longrightarrow> state_terminal s \<Longrightarrow> waits_ok joins i (set_state s ts x)"
  by (auto simp: waits_ok_def set_state_def state_terminal_def)

text \<open>Joins may gain waiters and completed members, as long as their flag stays.\<close>

lemma wait_ok_mod_join:
  assumes "wait_ok g"
    and "\<And>j. map_of (cg_joins g) k = Some j \<Longrightarrow> join_ok j \<Longrightarrow> join_ok (f j) \<and> jn_satisfied (f j) = jn_satisfied j \<and>
      jn_waiter_invocation_ids j \<subseteq> jn_waiter_invocation_ids (f j)"
  shows "wait_ok (mod_join k f g)"
proof (rule wait_okI)
  fix i r
  assume "map_of (cg_invocations (mod_join k f g)) i = Some r"
  then have w: "waits_ok (cg_joins g) i r" using assms(1) by (simp add: wait_okD)
  show "waits_ok (cg_joins (mod_join k f g)) i r"
  proof (cases "iv_state r = WAIT_JOIN")
    case True
    with w obtain q j where "iv_join_id r = Some q" "map_of (cg_joins g) q = Some j"
      "i \<in> jn_waiter_invocation_ids j" "\<not> jn_satisfied j" by (auto simp: waits_ok_def)
    with assms(2) [of j] wait_okD(2) [OF assms(1)] w True show ?thesis
      by (cases "q = k") (auto simp: waits_ok_def map_of_dmap_on)
  qed (use w in \<open>simp add: waits_ok_def\<close>)
qed (use assms wait_okD(2) [OF assms(1)] in \<open>auto simp: map_of_dmap_on split: if_split_asm\<close>)

text \<open>A join that becomes satisfied wakes everybody who waits for it.\<close>

lemma wait_ok_satisfy:
  assumes ok: "wait_ok g" and j: "map_of (cg_joins g) k = Some j" and J: "join_ok (f j)"
  shows "wait_ok (mod_inv (jn_waiter_invocation_ids j) (wake_waiter ts) (mod_join k f g))"
proof (rule wait_okI)
  fix i r
  assume "map_of (cg_invocations (mod_inv (jn_waiter_invocation_ids j) (wake_waiter ts) (mod_join k f g))) i = Some r"
  then obtain x where x: "map_of (cg_invocations g) i = Some x"
    and r: "r = (if i \<in> jn_waiter_invocation_ids j then wake_waiter ts x else x)"
    by (auto simp: map_of_dmap_on split: if_split_asm)
  have w: "waits_ok (cg_joins g) i r"
    using wait_okD(1) [OF ok x] by (simp add: r waits_ok_wake)
  show "waits_ok (cg_joins (mod_inv (jn_waiter_invocation_ids j) (wake_waiter ts) (mod_join k f g))) i r"
  proof (cases "iv_state r = WAIT_JOIN")
    case True
    with w obtain q j' where q: "iv_join_id r = Some q" "map_of (cg_joins g) q = Some j'"
      "i \<in> jn_waiter_invocation_ids j'" "\<not> jn_satisfied j'" by (auto simp: waits_ok_def)
    have "i \<notin> jn_waiter_invocation_ids j"
      using True by (auto simp: r wake_waiter_def split: if_split_asm)
    with q j have "q \<noteq> k" by auto
    with q w True show ?thesis by (auto simp: waits_ok_def map_of_dmap_on)
  qed (use w in \<open>simp add: waits_ok_def\<close>)
qed (use j J wait_okD(2) [OF ok] in \<open>auto simp: map_of_dmap_on split: if_split_asm\<close>)

lemma wait_ok_complete_join:
  assumes "wait_ok g" shows "wait_ok (snd (complete_join i ts k g))"
proof (cases rule: complete_join_cases [of i ts k g])
  case (more j j1)
  then have "join_ok j1" "jn_satisfied j1 = jn_satisfied j"
    "jn_waiter_invocation_ids j1 = jn_waiter_invocation_ids j"
    using wait_okD(2) [OF assms more(1)] by (auto simp: join_ok_def)
  then have "wait_ok (mod_join k (\<lambda>_. j1) g)"
    by (intro wait_ok_mod_join [OF assms]) (use more(1) in auto)
  with more show ?thesis by simp
next
  case (wake j j2)
  then have "join_ok j2" using wait_okD(2) [OF assms wake(1)] by (auto simp: join_ok_def)
  with wake wait_ok_satisfy [OF assms wake(1), of "\<lambda>_. j2"] show ?thesis by simp
qed (use assms in simp)

lemma wait_ok_finish:
  assumes "wait_ok g" and "state_terminal s"
  shows "wait_ok (snd (finish_invocation s ts i r g))"
proof -
  have g1: "wait_ok (mod_inv {i} (set_state s ts) g)"
    using assms by (intro wait_ok_mod_inv) (simp_all add: waits_ok_terminal)
  then have g2: "wait_ok (mod_inv {t} (complete_child c ts) (mod_inv {i} (set_state s ts) g))" for t c
    by (rule wait_ok_mod_inv) (simp add: waits_ok_complete)
  show ?thesis
    by (rule finish_invocation_graph [of s ts i r g])
      (use g1 g2 in \<open>auto intro: complete_joins_induct wait_ok_complete_join split: option.split\<close>)
qed

lemma wait_ok_link:
  assumes "wait_ok g" and "p \<noteq> c"
  shows "wait_ok (link_update p c P ret mode relation ts g)"
proof (rule wait_okI)
  fix i r
  assume r: "map_of (cg_invocations (link_update p c P ret mode relation ts g)) i = Some r"
  then obtain x where x: "map_of (cg_invocations g) i = Some x"
    by (auto simp: link_update_invocations [OF assms(2)] split: if_split_asm)
  have "waits_ok (cg_joins g) i x" using assms(1) x by (rule wait_okD)
  with r x show "waits_ok (cg_joins (link_update p c P ret mode relation ts g)) i r"
    by (auto simp: link_update_invocations [OF assms(2)] waits_ok_def split: if_split_asm)
qed (use wait_okD(2) [OF assms(1)] in simp)

lemma wait_ok_add_invocation:
  assumes "wait_ok g" and "new_invocation_ok g i r"
  shows "wait_ok (add_invocation i r persistent g)"
  using assms
  by (auto simp: wait_ok_def add_invocation_def map_of_update new_invocation_ok_def waits_ok_def
      split: if_split_asm)

lemma wait_ok_new_join:
  assumes ok: "wait_ok g" and new: "map_of (cg_joins g) k = None" and J: "join_ok j"
  shows "wait_ok (g\<lparr>cg_joins := AList.update k j (cg_joins g)\<rparr>)"
proof (rule wait_okI)
  fix i r
  assume "map_of (cg_invocations (g\<lparr>cg_joins := AList.update k j (cg_joins g)\<rparr>)) i = Some r"
  then have "waits_ok (cg_joins g) i r" using wait_okD(1) [OF ok] by simp
  then show "waits_ok (cg_joins (g\<lparr>cg_joins := AList.update k j (cg_joins g)\<rparr>)) i r"
    by (rule waits_ok_mono) (use new in \<open>auto simp: map_of_update\<close>)
qed (use J wait_okD(2) [OF ok] in \<open>auto simp: map_of_update split: if_split_asm\<close>)

lemma wait_ok_wait_update:
  assumes ok: "wait_ok g" and j: "map_of (cg_joins g) k = Some j"
  shows "wait_ok (wait_update i k (if jn_satisfied j then READY else WAIT_JOIN) ts g)"
proof -
  let ?f = "\<lambda>x. x\<lparr>jn_waiter_invocation_ids := insert i (jn_waiter_invocation_ids x)\<rparr>"
  have "wait_ok (mod_join k ?f g)"
    by (rule wait_ok_mod_join [OF ok]) (auto simp: join_ok_def join_is_satisfied_def)
  then show ?thesis
    unfolding wait_update_def
    by (rule wait_ok_mod_inv) (auto simp: waits_ok_def map_of_dmap_on j)
qed

lemma graph_step_wait_ok: "graph_step d g g' \<Longrightarrow> wait_ok g \<Longrightarrow> wait_ok g'"
proof (induction rule: graph_step.induct)
  case (workflow_done g w W ts)
  have "wait_ok (mod_inv (wf_invocation_ids W) (cancel_live ts) g)"
    using workflow_done(2)
    by (rule wait_ok_mod_inv) (simp add: cancel_live_def waits_ok_terminal [unfolded set_state_def] state_terminal_def)
  then show ?case by (subst wait_ok_cong [OF mod_workflow_fields(3,2)])
next
  case (context_change g c f)
  then show ?case by (subst wait_ok_cong [OF mod_ctx_fields(3,4)])
next
  case (invocation_change g i f)
  then show ?case by (intro wait_ok_mod_inv) (auto intro: waits_ok_calm)
next
  case (join_new g k j)
  then have "join_ok j" by (auto simp: new_join_ok_def join_ok_def)
  with join_new show ?case by (simp add: wait_ok_new_join)
next
  case (join_wakes g k j ts)
  then show ?case by (intro wait_ok_mod_inv) (auto intro: waits_ok_wake)
next
  case (join_satisfies g k j ts)
  have "join_ok (j\<lparr>jn_satisfied := True\<rparr>)"
    using wait_okD(2) [OF join_satisfies(2,1)] by (simp add: join_ok_def)
  then show ?case by (rule wait_ok_satisfy [OF join_satisfies(2,1)])
next
  case (message_edge g s t ts)
  then show ?case by (simp add: wait_ok_cong [OF bump_edge_fields(3,2)])
qed (simp_all add: wait_ok_finish wait_ok_link wait_ok_add_invocation wait_ok_wait_update,
  simp_all add: wait_ok_def)


section \<open>Nobody waits for the dead\<close>

abbreviation done_record :: "invocation_record \<Rightarrow> bool" where
  "done_record r \<equiv> state_terminal (iv_state r)"

definition target_of :: "invocation_record \<Rightarrow> string option" where
  "target_of r = str_or (iv_return_target_id r) (iv_parent_invocation_id r)"

definition ended :: "causal_graph \<Rightarrow> string \<Rightarrow> bool" where
  "ended g w = (case map_of (cg_workflows g) w of None \<Rightarrow> False | Some W \<Rightarrow> wf_end_ts_ms W \<noteq> None)"

definition child_live :: "causal_graph \<Rightarrow> bool" where
  "child_live g \<longleftrightarrow>
     (\<forall>p P c. map_of (cg_invocations g) p = Some P \<longrightarrow> \<not> done_record P \<longrightarrow> c \<in> iv_blocking_child_ids P \<longrightarrow>
        (\<exists>C. map_of (cg_invocations g) c = Some C \<and> \<not> done_record C \<and> target_of C = Some p))"

text \<open>Terminal members are recorded, except by the joins of ended workflows and, while the
  dependencies of \<open>i\<close> are being completed, by the joins \<open>K\<close> still to come.\<close>

definition join_live :: "string \<Rightarrow> string set \<Rightarrow> causal_graph \<Rightarrow> bool" where
  "join_live i K g \<longleftrightarrow>
     (\<forall>k j m. map_of (cg_joins g) k = Some j \<longrightarrow> m \<in> jn_member_invocation_ids j \<longrightarrow> terminal_in g m \<longrightarrow>
        m \<in> jn_completed_member_ids j \<or> ended g (jn_workflow_id j) \<or> m = i \<and> k \<in> K)"

definition ended_dead :: "causal_graph \<Rightarrow> bool" where
  "ended_dead g \<longleftrightarrow>
     (\<forall>i r. map_of (cg_invocations g) i = Some r \<longrightarrow> ended g (iv_workflow_id r) \<longrightarrow> done_record r)"

definition live_ok :: "causal_graph \<Rightarrow> bool" where
  "live_ok g \<longleftrightarrow> child_live g \<and> join_live [] {} g \<and> ended_dead g"

text \<open>A change that no part of \<open>live_ok\<close> can see.\<close>

definition quiet_change :: "invocation_record \<Rightarrow> invocation_record \<Rightarrow> bool" where
  "quiet_change x y \<longleftrightarrow>
     iv_blocking_child_ids y \<subseteq> iv_blocking_child_ids x \<and> done_record y = done_record x \<and>
     target_of y = target_of x \<and> iv_workflow_id y = iv_workflow_id x"

lemma quiet_changes:
  "calm_change x y \<Longrightarrow> quiet_change x y" "quiet_change x (wake_waiter ts x)"
  "quiet_change x (complete_child c ts x)"
  by (auto simp: quiet_change_def calm_change_def target_of_def invocation_shape_def wake_waiter_def
      complete_child_def state_terminal_def Let_def)

lemma terminal_in_iff:
  "terminal_in g i \<longleftrightarrow> (\<exists>r. map_of (cg_invocations g) i = Some r \<and> done_record r)"
  by (simp add: terminal_in_def split: option.split)

lemma ended_mod [simp]:
  "ended (mod_inv ks f g) = ended g" "ended (mod_join k h g) = ended g" "ended (mod_ctx c q g) = ended g"
  by (simp_all add: ended_def fun_eq_iff)

lemma mod_inv_lookup:
  "map_of (dmap_on ks f d) i = Some y \<longleftrightarrow>
     (\<exists>x. map_of d i = Some x \<and> y = (if i \<in> ks then f x else x))"
  by (auto simp: map_of_dmap_on)

lemma quiet_live:
  assumes "\<And>i x. i \<in> ks \<Longrightarrow> map_of (cg_invocations g) i = Some x \<Longrightarrow> quiet_change x (f x)"
  shows "child_live g \<Longrightarrow> child_live (mod_inv ks f g)"
    and "join_live q K g \<Longrightarrow> join_live q K (mod_inv ks f g)"
    and "ended_dead g \<Longrightarrow> ended_dead (mod_inv ks f g)"
proof -
  have same: "quiet_change x (if i \<in> ks then f x else x)" if "map_of (cg_invocations g) i = Some x" for i x
    using assms that by (simp add: quiet_change_def)
  have termi: "terminal_in (mod_inv ks f g) m = terminal_in g m" for m
    using same [of m] by (cases "map_of (cg_invocations g) m")
      (auto simp: terminal_in_def map_of_dmap_on quiet_change_def split: if_split_asm)
  then show "join_live q K g \<Longrightarrow> join_live q K (mod_inv ks f g)"
    by (simp add: join_live_def)
  show "ended_dead g \<Longrightarrow> ended_dead (mod_inv ks f g)"
    unfolding ended_dead_def ended_mod
  proof (intro allI impI)
    fix i r
    assume "\<forall>i r. map_of (cg_invocations g) i = Some r \<longrightarrow> ended g (iv_workflow_id r) \<longrightarrow> done_record r"
      and "map_of (cg_invocations (mod_inv ks f g)) i = Some r" and "ended g (iv_workflow_id r)"
    moreover from this obtain x where "map_of (cg_invocations g) i = Some x" "quiet_change x r"
      using same by (auto simp: mod_inv_lookup)
    ultimately show "done_record r" by (simp add: quiet_change_def)
  qed
  assume g: "child_live g"
  show "child_live (mod_inv ks f g)"
    unfolding child_live_def
  proof (intro allI impI)
    fix p P c
    assume "map_of (cg_invocations (mod_inv ks f g)) p = Some P" and P: "\<not> done_record P"
      and c: "c \<in> iv_blocking_child_ids P"
    then obtain X where X: "map_of (cg_invocations g) p = Some X" "quiet_change X P"
      using same by (auto simp: mod_inv_lookup)
    with g P c obtain C where C: "map_of (cg_invocations g) c = Some C" "\<not> done_record C" "target_of C = Some p"
      unfolding child_live_def quiet_change_def by blast
    with same [OF C(1)]
    show "\<exists>C. map_of (cg_invocations (mod_inv ks f g)) c = Some C \<and> \<not> done_record C \<and> target_of C = Some p"
      unfolding mod_inv_fields mod_inv_lookup quiet_change_def by auto
  qed
qed

lemma mod_join_live:
  "child_live (mod_join k f g) = child_live g" "ended_dead (mod_join k f g) = ended_dead g"
  by (simp_all add: child_live_def ended_dead_def)

lemma mod_join_join_live:
  assumes J: "join_live q K g"
    and f: "\<And>j. map_of (cg_joins g) k = Some j \<Longrightarrow> jn_member_invocation_ids (f j) = jn_member_invocation_ids j \<and>
      jn_workflow_id (f j) = jn_workflow_id j \<and> jn_completed_member_ids j \<subseteq> jn_completed_member_ids (f j)"
    and K: "\<And>j. map_of (cg_joins g) k = Some j \<Longrightarrow> k \<in> K \<Longrightarrow> k \<notin> K' \<Longrightarrow> q \<in> jn_completed_member_ids (f j)"
    and sub: "K - {k} \<subseteq> K'"
  shows "join_live q K' (mod_join k f g)"
  unfolding join_live_def
proof (intro allI impI)
  fix k' j' m
  assume "map_of (cg_joins (mod_join k f g)) k' = Some j'" and m: "m \<in> jn_member_invocation_ids j'"
    and "terminal_in (mod_join k f g) m"
  then obtain j where j: "map_of (cg_joins g) k' = Some j" "j' = (if k' = k then f j else j)"
    and t: "terminal_in g m"
    by (auto simp: map_of_dmap_on terminal_in_def split: if_split_asm)
  have "m \<in> jn_completed_member_ids j \<or> ended g (jn_workflow_id j) \<or> m = q \<and> k' \<in> K"
    using J j m t f unfolding join_live_def by (auto split: if_split_asm)
  with j f K sub show "m \<in> jn_completed_member_ids j' \<or> ended (mod_join k f g) (jn_workflow_id j') \<or>
      m = q \<and> k' \<in> K'"
    by (cases "k' = k") auto
qed

lemma complete_join_live:
  assumes "child_live g" and "ended_dead g" and J: "join_live i (insert k K) g"
  shows "child_live (snd (complete_join i ts k g))" "ended_dead (snd (complete_join i ts k g))"
    "join_live i K (snd (complete_join i ts k g))"
proof -
  show "child_live (snd (complete_join i ts k g))"
    by (cases rule: complete_join_cases [of i ts k g])
      (use assms in \<open>auto simp: mod_join_live intro!: quiet_live(1) quiet_changes\<close>)
  show "ended_dead (snd (complete_join i ts k g))"
    by (cases rule: complete_join_cases [of i ts k g])
      (use assms in \<open>auto simp: mod_join_live intro!: quiet_live(3) quiet_changes\<close>)
  show "join_live i K (snd (complete_join i ts k g))"
  proof (cases rule: complete_join_cases [of i ts k g])
    case same
    with J show ?thesis unfolding join_live_def by auto
  next
    case (more j j1)
    then have "join_live i K (mod_join k (\<lambda>_. j1) g)"
      by (intro mod_join_join_live [OF J]) auto
    with more show ?thesis by simp
  next
    case (wake j j2)
    then have "join_live i K (mod_join k (\<lambda>_. j2) g)"
      by (intro mod_join_join_live [OF J]) auto
    then have "join_live i K (mod_inv (jn_waiter_invocation_ids j) (wake_waiter ts) (mod_join k (\<lambda>_. j2) g))"
      by (rule quiet_live(2) [rotated]) (rule quiet_changes)
    with wake show ?thesis by simp
  qed
qed

lemma waiters_known:
  assumes "shape_ok (graph_shape g)" and "map_of (cg_joins g) k = Some j"
  shows "jn_waiter_invocation_ids j \<subseteq> fst ` set (cg_invocations g)"
  using shape_okD(2) [OF assms(1), of k] assms(2)
  by (auto simp: member_of_def dest!: dict_key)

lemma complete_join_Inr:
  "shape_ok (graph_shape g) \<Longrightarrow> \<exists>ws. fst (complete_join i ts k g) = Inr ws"
  using waiters_known [of g k]
  by (auto simp: complete_join_def wake_join_waiters_def Let_def split: option.split)

lemma complete_joins_Cons:
  assumes "shape_ok (graph_shape g)"
  obtains ws where "complete_joins i ts (k # ks) aw g =
    complete_joins i ts ks (aw \<union> ws) (snd (complete_join i ts k g))"
proof -
  obtain ws where ws: "fst (complete_join i ts k g) = Inr ws"
    using complete_join_Inr [OF assms] by blast
  then show thesis by (intro that [of ws]) (cases "complete_join i ts k g"; simp)
qed

lemma complete_joins_Inr:
  "shape_ok (graph_shape g) \<Longrightarrow> \<exists>ws. fst (complete_joins i ts ks aw g) = Inr ws"
proof (induction ks arbitrary: g aw)
  case (Cons k ks)
  then show ?case
    by (auto intro: complete_joins_Cons [of g i ts k ks aw] simp: shape_complete_join simp del: complete_joins.simps)
qed simp

lemma complete_joins_live:
  "shape_ok (graph_shape g) \<Longrightarrow> child_live g \<Longrightarrow> ended_dead g \<Longrightarrow> join_live i (set ks) g \<Longrightarrow>
   h = snd (complete_joins i ts ks aw g) \<Longrightarrow> child_live h \<and> ended_dead h \<and> join_live i {} h"
proof (induction ks arbitrary: g aw)
  case (Cons k ks)
  obtain ws where "complete_joins i ts (k # ks) aw g =
      complete_joins i ts ks (aw \<union> ws) (snd (complete_join i ts k g))"
    by (rule complete_joins_Cons [OF Cons.prems(1)])
  with Cons.prems complete_join_live [of g i k "set ks" ts]
  show ?case by (intro Cons.IH [of "snd (complete_join i ts k g)"]) (simp_all add: shape_complete_join)
qed simp


lemma live_ok_finish:
  assumes live: "live_ok g" and shape: "shape_ok (graph_shape g)"
    and r: "map_of (cg_invocations g) i = Some r" and s: "state_terminal s"
  shows "live_ok (snd (finish_invocation s ts i r g))"
proof -
  obtain g1 aw where eq: "finish_invocation s ts i r g =
      complete_joins (iv_invocation_id r) ts (map fst (cg_joins g)) aw g1"
    and g1: "g1 = (case str_or (iv_return_target_id r) (iv_parent_invocation_id r) of
           None \<Rightarrow> mod_inv {i} (set_state s ts) g
         | Some t \<Rightarrow> mod_inv {t} (complete_child (iv_invocation_id r) ts) (mod_inv {i} (set_state s ts) g))"
    by (rule finish_invocation_graph)
  have ident: "iv_invocation_id r = i" using shape_okD(1) [OF shape, of i] r by (simp add: inv_ok_def)
  let ?h = "mod_inv {i} (set_state s ts) g"
  have ended: "ended_dead ?h"
    using live s unfolding live_ok_def ended_dead_def
    by (auto simp: mod_inv_lookup set_state_def split: if_split_asm)
  have only: "m = i" if "terminal_in ?h m" "\<not> terminal_in g m" for m
    using that by (auto simp: terminal_in_iff mod_inv_lookup split: if_split_asm)
  have joins: "join_live i (fst ` set (cg_joins g)) ?h"
    unfolding join_live_def mod_inv_fields ended_mod
  proof (intro allI impI)
    fix k j m
    assume k: "map_of (cg_joins g) k = Some j" "m \<in> jn_member_invocation_ids j" and "terminal_in ?h m"
    then show "m \<in> jn_completed_member_ids j \<or> ended g (jn_workflow_id j) \<or> m = i \<and> k \<in> fst ` set (cg_joins g)"
      using live only [of m] dict_key [OF k(1)]
      by (cases "terminal_in g m") (auto simp: live_ok_def join_live_def)
  qed
  have below: "\<exists>X. map_of (cg_invocations g) p = Some X \<and> iv_blocking_child_ids P \<subseteq> iv_blocking_child_ids X \<and>
      done_record P = (p = i \<or> done_record X) \<and> target_of P = target_of X \<and>
      (target_of r = Some p \<longrightarrow> i \<notin> iv_blocking_child_ids P)"
    if P: "map_of (cg_invocations g1) p = Some P" for p P
  proof -
    let ?X = "\<lambda>X. if p = i then set_state s ts X else X"
    from P obtain X where X: "map_of (cg_invocations g) p = Some X"
      and P': "P = (if target_of r = Some p then complete_child i ts (?X X) else ?X X)"
      by (cases "target_of r") (auto simp: g1 mod_inv_lookup ident target_of_def [symmetric])
    have "iv_blocking_child_ids (?X X) = iv_blocking_child_ids X" "target_of (?X X) = target_of X"
      "done_record (?X X) = (p = i \<or> done_record X)"
      using s by (simp_all add: set_state_def target_of_def)
    moreover have "i \<notin> iv_blocking_child_ids (complete_child i ts Y)" for Y
      by (simp add: complete_child_def Let_def)
    ultimately show ?thesis
      using X P' quiet_changes(3) [of "?X X" i ts] by (auto simp: quiet_change_def split: if_split_asm)
  qed
  have above: "map_of (cg_invocations g1) p \<noteq> None" if "map_of (cg_invocations g) p \<noteq> None" for p
    using that by (cases "target_of r") (auto simp: g1 map_of_dmap_on target_of_def [symmetric])
  have others: "child_live g1"
    unfolding child_live_def
  proof (intro allI impI)
    fix p P c
    assume P: "map_of (cg_invocations g1) p = Some P" and lP: "\<not> done_record P" and c: "c \<in> iv_blocking_child_ids P"
    from below [OF P] lP c obtain X where X: "map_of (cg_invocations g) p = Some X" "\<not> done_record X"
      "c \<in> iv_blocking_child_ids X" and no: "target_of r = Some p \<Longrightarrow> c \<noteq> i" by auto
    then obtain C where C: "map_of (cg_invocations g) c = Some C" "\<not> done_record C" "target_of C = Some p"
      using live unfolding live_ok_def child_live_def by blast
    with no r have "c \<noteq> i" by auto
    moreover obtain D where D: "map_of (cg_invocations g1) c = Some D" using above [of c] C by auto
    ultimately show "\<exists>C. map_of (cg_invocations g1) c = Some C \<and> \<not> done_record C \<and> target_of C = Some p"
      using below [OF D] C by auto
  qed
  have shape1: "shape_ok (graph_shape g1)"
    using shape by (simp add: g1 shape_mod_inv split: option.split)
  have "ended_dead g1 \<and> join_live i (set (map fst (cg_joins g))) g1"
    using ended joins quiet_live(2,3) [of _ ?h "complete_child i ts"] quiet_changes(3)
    by (auto simp: g1 ident split: option.split)
  with complete_joins_live [OF shape1 others, of i "map fst (cg_joins g)" _ ts aw]
  show ?thesis by (simp add: eq ident live_ok_def join_live_def)
qed


lemma live_ok_cong:
  assumes "cg_invocations g' = cg_invocations g" and "cg_joins g' = cg_joins g"
    and "\<And>w. ended g' w = ended g w"
  shows "live_ok g' = live_ok g"
proof -
  have "terminal_in g' m = terminal_in g m" for m using assms by (simp add: terminal_in_def)
  then show ?thesis using assms by (simp add: live_ok_def child_live_def join_live_def ended_dead_def)
qed

lemma live_ok_quiet:
  "live_ok g \<Longrightarrow> (\<And>i x. i \<in> ks \<Longrightarrow> map_of (cg_invocations g) i = Some x \<Longrightarrow> quiet_change x (f x)) \<Longrightarrow>
   live_ok (mod_inv ks f g)"
  using quiet_live [of ks g f] by (simp add: live_ok_def)

lemma live_ok_mod_join:
  assumes "live_ok g"
    and "\<And>j. jn_member_invocation_ids (f j) = jn_member_invocation_ids j" "\<And>j. jn_workflow_id (f j) = jn_workflow_id j"
      "\<And>j. jn_completed_member_ids (f j) = jn_completed_member_ids j"
  shows "live_ok (mod_join k f g)"
  using assms mod_join_join_live [of "[]" "{}" g k f "{}"] by (simp add: live_ok_def mod_join_live)

lemma workflow_ids_exact:
  assumes "shape_ok (graph_shape g)" and "map_of (cg_workflows g) w = Some W"
    and "map_of (cg_invocations g) i = Some r"
  shows "i \<in> wf_invocation_ids W \<longleftrightarrow> iv_workflow_id r = w"
  using shape_okD(4) [OF assms(1), of w] shape_okD(1) [OF assms(1), of i] assms(2,3)
  by (auto simp: member_of_def inv_ok_def)

lemma blocking_parent:
  assumes "shape_ok (graph_shape g)" and "wait_ok g" and "map_of (cg_invocations g) p = Some P"
    and "c \<in> iv_blocking_child_ids P"
  obtains C where "map_of (cg_invocations g) c = Some C" and "iv_parent_invocation_id C = Some p"
    and "iv_workflow_id C = iv_workflow_id P"
proof -
  have "c \<in> iv_child_invocation_ids P" using wait_okD(1) [OF assms(2,3)] assms(4) by (auto simp: waits_ok_def)
  then obtain C where C: "map_of (cg_invocations g) c = Some C" "iv_parent_invocation_id C = Some p"
    using shape_okD(1) [OF assms(1), of p] assms(3) by (auto simp: inv_ok_def parent_rel_def)
  with shape_okD(1) [OF assms(1), of c] assms(3) that show thesis
    by (auto simp: inv_ok_def member_of_def)
qed

lemma join_member_workflow:
  assumes "shape_ok (graph_shape g)" and "map_of (cg_joins g) k = Some j"
    and "map_of (cg_invocations g) m = Some x"
    and "m \<in> jn_member_invocation_ids j \<union> jn_waiter_invocation_ids j"
  shows "iv_workflow_id x = jn_workflow_id j"
proof -
  have "member_of (graph_shape g) (jn_workflow_id j) m"
    using shape_okD(2) [OF assms(1), of k "join_shape j"] assms(2,4) by simp
  with assms(3) show ?thesis by (simp add: member_of_def)
qed

lemma live_ok_workflow_done:
  assumes live: "live_ok g" and shape: "shape_ok (graph_shape g)" and wait: "wait_ok g"
    and W: "map_of (cg_workflows g) w = Some W"
  shows "live_ok (mod_workflow w (\<lambda>x. x\<lparr>wf_end_ts_ms := Some ts\<rparr>)
    (mod_inv (wf_invocation_ids W) (cancel_live ts) g))" (is "live_ok ?g")
proof -
  have ended: "ended ?g v \<longleftrightarrow> v = w \<or> ended g v" for v
    using W by (auto simp: ended_def map_of_dmap_on)
  have lookup: "map_of (cg_invocations ?g) i = Some y \<longleftrightarrow> (\<exists>x. map_of (cg_invocations g) i = Some x \<and>
      y = (if iv_workflow_id x = w then cancel_live ts x else x))" for i y
  proof (cases "map_of (cg_invocations g) i")
    case (Some x)
    then show ?thesis using workflow_ids_exact [OF shape W Some] by (auto simp: map_of_dmap_on)
  qed (simp add: map_of_dmap_on)
  have "child_live ?g"
    unfolding child_live_def
  proof (intro allI impI)
    fix p P c
    assume a: "map_of (cg_invocations ?g) p = Some P" "\<not> done_record P" and c: "c \<in> iv_blocking_child_ids P"
    from a(1) [unfolded lookup] obtain x where x: "map_of (cg_invocations g) p = Some x"
      "P = (if iv_workflow_id x = w then cancel_live ts x else x)" by blast
    moreover have "done_record (cancel_live ts x)" by (simp add: cancel_live_def state_terminal_def)
    ultimately have P: "map_of (cg_invocations g) p = Some P" and "iv_workflow_id P \<noteq> w"
      using a(2) by (simp_all split: if_split_asm)
    moreover obtain C where C: "map_of (cg_invocations g) c = Some C" "\<not> done_record C" "target_of C = Some p"
      using live P c \<open>\<not> done_record P\<close> unfolding live_ok_def child_live_def by blast
    moreover have "iv_workflow_id C = iv_workflow_id P"
      by (rule blocking_parent [OF shape wait P c]) (use C in simp)
    ultimately show "\<exists>C. map_of (cg_invocations ?g) c = Some C \<and> \<not> done_record C \<and> target_of C = Some p"
      unfolding lookup by auto
  qed
  moreover have "ended_dead ?g"
    unfolding ended_dead_def ended lookup
  proof (intro allI impI, elim exE conjE)
    fix i y x
    assume x: "map_of (cg_invocations g) i = Some x" "y = (if iv_workflow_id x = w then cancel_live ts x else x)"
      and e: "iv_workflow_id y = w \<or> ended g (iv_workflow_id y)"
    show "done_record y"
    proof (cases "iv_workflow_id x = w")
      case True
      with x show ?thesis by (simp add: cancel_live_def state_terminal_def)
    next
      case False
      with x e live show ?thesis by (auto simp: live_ok_def ended_dead_def)
    qed
  qed
  moreover have "join_live [] {} ?g"
    unfolding join_live_def
  proof (intro allI impI)
    fix k j m
    assume "map_of (cg_joins ?g) k = Some j" and m: "m \<in> jn_member_invocation_ids j" and "terminal_in ?g m"
    then have j: "map_of (cg_joins g) k = Some j" by simp
    obtain x where x: "map_of (cg_invocations g) m = Some x" and "iv_workflow_id x = w \<or> done_record x"
      using \<open>terminal_in ?g m\<close> unfolding terminal_in_iff lookup by (auto split: if_split_asm)
    moreover have "iv_workflow_id x = jn_workflow_id j"
      using join_member_workflow [OF shape j x] m by simp
    moreover have "m \<in> jn_completed_member_ids j \<or> ended g (jn_workflow_id j)" if "done_record x"
    proof -
      have "terminal_in g m" using x that by (simp add: terminal_in_iff)
      with live j m show ?thesis by (auto simp: live_ok_def join_live_def)
    qed
    ultimately show "m \<in> jn_completed_member_ids j \<or> ended ?g (jn_workflow_id j) \<or> m = [] \<and> k \<in> {}"
      unfolding ended by auto
  qed
  ultimately show ?thesis by (simp add: live_ok_def)
qed


lemma live_ok_link:
  assumes live: "live_ok g" and shape: "shape_ok (graph_shape g)" and wait: "wait_ok g"
    and P: "map_of (cg_invocations g) p = Some P" and C: "map_of (cg_invocations g) c = Some C"
    and lP: "\<not> done_record P" and lC: "\<not> done_record C" and ne: "p \<noteq> c"
    and parent: "iv_parent_invocation_id C \<in> {None, Some p}" and ret: "str_or ret (Some p) = Some p"
  shows "live_ok (link_update p c P ret mode relation ts g)" (is "live_ok ?g")
proof -
  have idp: "iv_invocation_id P = p" using shape_okD(1) [OF shape, of p] P by (simp add: inv_ok_def)
  have ended: "ended ?g w = ended g w" for w by (simp add: ended_def)
  have look: "\<exists>x. map_of (cg_invocations g) i = Some x \<and> done_record y = done_record x \<and>
      iv_workflow_id y = iv_workflow_id x \<and> (i = c \<longrightarrow> target_of y = Some p) \<and>
      (i \<noteq> c \<longrightarrow> target_of y = target_of x) \<and>
      iv_blocking_child_ids y \<subseteq> iv_blocking_child_ids x \<union> (if i = p then {c} else {})"
    if "map_of (cg_invocations ?g) i = Some y" for i y
  proof -
    consider "i = c" | "i = p" | "i \<noteq> c" "i \<noteq> p" by blast
    then show ?thesis
    proof cases
      case 1
      with that lC C ret show ?thesis
        by (simp add: link_update_invocations [OF ne] idp target_of_def state_terminal_def)
          (auto simp: str_or_def)
    next
      case 2
      with that lP P ne show ?thesis
        by (cases mode) (auto simp: link_update_invocations [OF ne] target_of_def state_terminal_def)
    next
      case 3
      with that show ?thesis by (simp add: link_update_invocations [OF ne])
    qed
  qed
  have fwd: "\<exists>y. map_of (cg_invocations ?g) i = Some y" if "map_of (cg_invocations g) i = Some x" for i x
    using that by (auto simp: link_update_invocations [OF ne])
  have termi: "terminal_in ?g m = terminal_in g m" for m
    unfolding terminal_in_iff using look [of m] fwd [of m] by fastforce
  have "child_live ?g"
    unfolding child_live_def
  proof (intro allI impI)
    fix q Q b
    assume Q: "map_of (cg_invocations ?g) q = Some Q" "\<not> done_record Q" "b \<in> iv_blocking_child_ids Q"
    from look [OF Q(1)] Q obtain X where X: "map_of (cg_invocations g) q = Some X" "\<not> done_record X"
      and b: "b \<in> iv_blocking_child_ids X \<or> q = p \<and> b = c" by (auto split: if_split_asm)
    have "\<exists>B. map_of (cg_invocations g) b = Some B \<and> \<not> done_record B \<and> (b \<noteq> c \<longrightarrow> target_of B = Some q) \<and>
        (b = c \<longrightarrow> q = p)"
      using b
    proof
      assume old: "b \<in> iv_blocking_child_ids X"
      then obtain B where B: "map_of (cg_invocations g) b = Some B" "\<not> done_record B" "target_of B = Some q"
        using live X unfolding live_ok_def child_live_def by blast
      have "iv_parent_invocation_id B = Some q"
        by (rule blocking_parent [OF shape wait X(1) old]) (use B in simp)
      with B parent C show ?thesis by auto
    qed (use C lC in simp)
    then obtain B where B: "map_of (cg_invocations g) b = Some B" "\<not> done_record B"
      "b \<noteq> c \<Longrightarrow> target_of B = Some q" "b = c \<Longrightarrow> q = p" by blast
    from fwd [OF B(1)] obtain Y where Y: "map_of (cg_invocations ?g) b = Some Y" by blast
    with look [OF Y] B show "\<exists>C. map_of (cg_invocations ?g) b = Some C \<and> \<not> done_record C \<and> target_of C = Some q"
      by (cases "b = c") auto
  qed
  moreover have "join_live [] {} ?g"
    using live unfolding live_ok_def join_live_def termi ended link_update_other by blast
  moreover have "ended_dead ?g"
    using live look unfolding live_ok_def ended_dead_def ended by (metis (no_types, lifting))
  ultimately show ?thesis by (simp add: live_ok_def)
qed


lemma live_ok_add_invocation:
  assumes live: "live_ok g" and shape: "shape_ok (graph_shape g)" and wait: "wait_ok g"
    and new: "new_invocation_ok g i r" and open_: "\<not> ended g (iv_workflow_id r)"
  shows "live_ok (add_invocation i r persistent g)" (is "live_ok ?g")
proof -
  have none: "map_of (cg_invocations g) i = None" and r: "iv_blocking_child_ids r = {}" "iv_state r = READY"
    using new by (simp_all add: new_invocation_ok_def)
  have look: "map_of (cg_invocations ?g) = (map_of (cg_invocations g))(i \<mapsto> r)"
    by (simp add: add_invocation_def map_of_update)
  have ended: "ended ?g w = ended g w" for w
    by (auto simp: ended_def add_invocation_def map_of_dmap_on split: option.split)
  have joins: "cg_joins ?g = cg_joins g" by (simp add: add_invocation_def)
  have "child_live ?g"
    unfolding child_live_def look
  proof (intro allI impI)
    fix p P c
    assume P: "((map_of (cg_invocations g))(i \<mapsto> r)) p = Some P" "\<not> done_record P" "c \<in> iv_blocking_child_ids P"
    with r have "map_of (cg_invocations g) p = Some P" by (auto split: if_split_asm)
    with live P(2,3) obtain C where "map_of (cg_invocations g) c = Some C" "\<not> done_record C" "target_of C = Some p"
      unfolding live_ok_def child_live_def by blast
    with none show "\<exists>C. ((map_of (cg_invocations g))(i \<mapsto> r)) c = Some C \<and> \<not> done_record C \<and> target_of C = Some p"
      by auto
  qed
  moreover have "terminal_in ?g m = terminal_in g m" for m
    unfolding terminal_in_def look using r none by (simp add: state_terminal_def)
  then have "join_live [] {} ?g"
    using live unfolding live_ok_def join_live_def ended joins by simp
  moreover have "ended_dead ?g"
    using live open_ unfolding live_ok_def ended_dead_def ended look by simp
  ultimately show ?thesis by (simp add: live_ok_def)
qed

lemma live_ok_new_join:
  assumes live: "live_ok g" and J: "new_join_ok g k j"
  shows "live_ok (g\<lparr>cg_joins := AList.update k j (cg_joins g)\<rparr>)" (is "live_ok ?g")
proof -
  have "terminal_in ?g m = terminal_in g m" "ended ?g w = ended g w" for m w
    by (simp_all add: terminal_in_def ended_def)
  then show ?thesis
    using live J unfolding live_ok_def child_live_def join_live_def ended_dead_def new_join_ok_def
    by (simp add: map_of_update)
qed

lemma live_ok_wait_update:
  assumes live: "live_ok g" and r: "map_of (cg_invocations g) i = Some r" "\<not> done_record r"
    and s: "\<not> state_terminal s"
  shows "live_ok (wait_update i k s ts g)"
  unfolding wait_update_def
  by (rule live_ok_quiet)
    (use r s in \<open>auto simp: quiet_change_def target_of_def intro!: live_ok_mod_join live\<close>)

lemma graph_step_live_ok:
  "graph_step d g g' \<Longrightarrow> d \<Longrightarrow> shape_ok (graph_shape g) \<Longrightarrow> wait_ok g \<Longrightarrow> live_ok g \<Longrightarrow> live_ok g'"
proof (induction rule: graph_step.induct)
  case (workflow_new g w ts)
  have "live_ok (g\<lparr>cg_workflows := AList.update w \<lparr>wf_workflow_id = w, wf_start_ts_ms = ts,
      wf_end_ts_ms = None, wf_invocation_ids = {}\<rparr> (cg_workflows g)\<rparr>) = live_ok g"
    by (rule live_ok_cong) (use workflow_new in \<open>simp_all add: ended_def map_of_update\<close>)
  with workflow_new show ?case by simp
next
  case (context_new g c x)
  have "live_ok (g\<lparr>cg_contexts := AList.update c x (cg_contexts g)\<rparr>) = live_ok g"
    by (rule live_ok_cong) (simp_all add: ended_def)
  with context_new show ?case by simp
next
  case (context_change g c f)
  have "live_ok (mod_ctx c f g) = live_ok g" by (rule live_ok_cong) simp_all
  with context_change show ?case by simp
next
  case (invocation_new g i r persistent)
  then have "\<not> ended g (iv_workflow_id r)" by (auto simp: ended_def split: option.splits)
  with invocation_new show ?case by (blast intro: live_ok_add_invocation)
next
  case (invocation_change g i f)
  then show ?case by (intro live_ok_quiet) (auto intro: quiet_changes)
next
  case (invocation_link g p P c C ret mode relation ts)
  then show ?case by (blast intro: live_ok_link)
next
  case (message_edge g s t ts)
  have "live_ok (bump_edge s t ts g) = live_ok g" by (rule live_ok_cong) (simp_all add: ended_def)
  with message_edge show ?case by simp
next
  case (join_waits g i r k j ts)
  then show ?case by (intro live_ok_wait_update) (auto simp: state_terminal_def)
next
  case (join_wakes g k j ts)
  then show ?case by (intro live_ok_quiet) (auto intro: quiet_changes)
next
  case (join_satisfies g k j ts)
  then show ?case by (intro live_ok_quiet live_ok_mod_join) (auto intro: quiet_changes)
qed (simp_all add: live_ok_finish live_ok_workflow_done live_ok_new_join)

text \<open>Both invariants, and with discipline the third, hold along every run.\<close>

definition graph_ok :: "bool \<Rightarrow> causal_graph \<Rightarrow> bool" where
  "graph_ok d g \<longleftrightarrow> shape_ok (graph_shape g) \<and> wait_ok g \<and> (d \<longrightarrow> live_ok g)"

interpretation cg: invariant_machine "graph_step d" "graph_ok d" for d
  by unfold_locales
    (auto simp: graph_ok_def intro: graph_step_shape_ok graph_step_wait_ok graph_step_live_ok)

text \<open>Recording an event as processed is invisible to the invariants.\<close>

lemma graph_ok_ledger:
  "graph_ok d (g\<lparr>cg_processed_event_ids := P, cg_last_ts_by_workflow := L, cg_graph_version := v\<rparr>)
   = graph_ok d g" (is "graph_ok d ?g = _")
proof -
  have "graph_shape ?g = graph_shape g" by (rule graph_shape_eqI) simp_all
  moreover have "wait_ok ?g = wait_ok g" by (rule wait_ok_cong) simp_all
  moreover have "live_ok ?g = live_ok g" by (rule live_ok_cong) (simp_all add: ended_def)
  ultimately show ?thesis by (simp add: graph_ok_def)
qed

definition ledger :: "causal_graph \<Rightarrow> string set \<times> (string, real) dict \<times> int \<times> bool" where
  "ledger g = (cg_processed_event_ids g, cg_last_ts_by_workflow g, cg_graph_version g, cg_strict_timestamps g)"

lemma ledger_mods [simp]:
  "ledger (mod_inv ks f g) = ledger g" "ledger (mod_ctx c fc g) = ledger g" "ledger (mod_join k fj g) = ledger g"
  "ledger (mod_workflow w fw g) = ledger g" "ledger (bump_edge s t ts g) = ledger g"
  by (simp_all add: ledger_def)

lemma finish_invocation_ledger: "ledger (snd (finish_invocation s ts i r g)) = ledger g"
proof -
  have join: "ledger (snd (complete_join i ts k g)) = ledger g" for i k g
    by (cases rule: complete_join_cases [of i ts k g]) simp_all
  have "ledger (snd (complete_joins i ts ks aw h)) = ledger h" for i ks aw h
    by (rule complete_joins_induct [where P = "\<lambda>x. ledger x = ledger h"]) (simp_all add: join)
  then show ?thesis
    by (rule_tac finish_invocation_graph [of s ts i r g]) (simp split: option.split)
qed

lemma graph_step_ledger: "graph_step d g g' \<Longrightarrow> ledger g' = ledger g"
  by (induction rule: graph_step.induct)
    (simp_all add: finish_invocation_ledger add_invocation_def wait_update_def link_update_def Let_def,
     simp_all add: ledger_def)

lemma steps_ledger: "(graph_step d)\<^sup>*\<^sup>* g g' \<Longrightarrow> ledger g' = ledger g"
  by (induction rule: rtranclp_induct) (simp_all add: graph_step_ledger)

lemma graph_ok_init: "graph_ok d (graph_init strict)"
  by (simp add: graph_ok_def graph_init_def shape_ok_def groups_ok_def wait_ok_def live_ok_def
      child_live_def join_live_def ended_dead_def parent_rel_def acyclic_def)

end
