(* ===== verification/Causal_Graph_Run.thy ===== *)
theory Causal_Graph_Run
  imports Causal_Graph_Inv "HOL-Library.Option_ord"
begin

text \<open>
  Every event handler refines the abstract step relation of the causal graph, so the invariants
  hold after any sequence of events, applied one by one or in atomic batches, also when some of
  them raise. The properties of the component follow.
\<close>

section \<open>Handlers are sequences of elementary changes\<close>

lemma get_workflow_Inr [result_simps]: "get_workflow w g = Inr W \<longleftrightarrow> map_of (cg_workflows g) w = Some W"
  by (auto simp: get_workflow_def split: option.splits)

lemma get_invocation_Inr [result_simps]:
  "get_invocation i w g = Inr r \<longleftrightarrow> map_of (cg_invocations g) i = Some r \<and> iv_workflow_id r = w"
  by (auto simp: get_invocation_def split: option.splits if_split_asm)

lemma get_join_Inr [result_simps]:
  "get_join k w g = Inr j \<longleftrightarrow> map_of (cg_joins g) k = Some j \<and> jn_workflow_id j = w"
  by (auto simp: get_join_def split: option.splits if_split_asm)

lemma event_invocation_Inr [result_simps]:
  "event_invocation ev g = Inr r \<longleftrightarrow>
     ev_invocation_id ev = Some (ev_inv_key ev) \<and> \<not> py_blank (ev_inv_key ev) \<and>
     map_of (cg_invocations g) (ev_inv_key ev) = Some r \<and> iv_workflow_id r = ev_workflow_id ev"
proof -
  have "s \<noteq> []" if "\<not> py_blank s" for s using that by (auto simp: py_blank_def)
  then show ?thesis
    by (auto simp: event_invocation_def result_simps ev_inv_key_def str_default_def)
qed

lemma ensure_not_terminal_Inr [result_simps]:
  "ensure_not_terminal r = Inr u \<longleftrightarrow> \<not> state_terminal (iv_state r)"
  by (simp add: ensure_not_terminal_def)

lemma validate_event_epoch_Inr [result_simps]:
  "validate_event_epoch c k = Inr u \<longleftrightarrow> (\<forall>e. k = Some e \<longrightarrow> cx_epoch c \<le> e)"
  by (auto simp: validate_event_epoch_def split: option.splits)

abbreviation steps :: "bool \<Rightarrow> causal_graph \<Rightarrow> causal_graph \<Rightarrow> bool" where
  "steps d \<equiv> (graph_step d)\<^sup>*\<^sup>*"

lemma steps_change:
  "steps d g h \<Longrightarrow> (\<And>x. map_of (cg_invocations h) i = Some x \<Longrightarrow> calm_change x (f x)) \<Longrightarrow>
   steps d g (mod_inv {i} f h)"
  by (meson graph_step.invocation_change rtranclp.rtrancl_into_rtrancl)

lemma steps_checked:
  "(\<And>x. r = Inr x \<Longrightarrow> steps d g (snd (k x))) \<Longrightarrow> steps d g (snd (checked g r k))"
  by (cases r) auto

lemma steps_after:
  "steps d g (snd m) \<Longrightarrow> (\<And>x. fst m = Inr x \<Longrightarrow> steps d g (snd (k x (snd m)))) \<Longrightarrow>
   steps d g (snd (after m k))"
  by (cases m; cases "fst m") auto

lemma steps_if:
  "(b \<Longrightarrow> steps d g (snd x)) \<Longrightarrow> (\<not> b \<Longrightarrow> steps d g (snd y)) \<Longrightarrow> steps d g (snd (if b then x else y))"
  by simp

lemmas steps_rules = steps_checked steps_after steps_if

lemma touch_context_graph:
  shows "cg_invocations (snd (touch_context c ev g)) = cg_invocations g"
    and "steps d g (snd (touch_context c ev g))"
proof -
  show "cg_invocations (snd (touch_context c ev g)) = cg_invocations g"
    by (simp add: touch_context_def checked_def split: sum.split)
  show "steps d g (snd (touch_context c ev g))"
    unfolding touch_context_def
    by (intro steps_rules)
      (auto simp: result_simps context_shape_def split: option.split
        intro!: r_into_rtranclp graph_step.context_change)
qed

text \<open>What a caller must not do for the liveness invariant: make a terminal invocation wait, create
  invocations in an ended workflow, or give a child another return target than its parent.\<close>

definition disciplined :: "runtime_event \<Rightarrow> causal_graph \<Rightarrow> bool" where
  "disciplined ev g =
     (case ev_kind ev of
        JOIN_WAIT \<Rightarrow> \<not> terminal_in g (ev_inv_key ev)
      | INVOCATION_CREATE \<Rightarrow> \<not> ended g (ev_workflow_id ev)
      | CALL \<Rightarrow> ev_return_target_id ev \<in> {None, Some [], ev_invocation_id ev}
      | SPAWN \<Rightarrow> ev_return_target_id ev \<in> {None, Some [], ev_invocation_id ev}
      | _ \<Rightarrow> True)"

lemma calm_set_state:
  "\<not> state_terminal (iv_state x) \<Longrightarrow> s \<in> {READY, RUNNING_LLM, WAIT_TOOL, WAIT_MESSAGE} \<Longrightarrow>
   calm_change x (set_state s ts x)"
  by (auto simp: calm_change_def set_state_def invocation_shape_def state_terminal_def)

lemma workflow_start_steps: "steps d g (snd (on_workflow_start ev g))"
  by (auto simp: on_workflow_start_def dict_in_def intro: graph_step.workflow_new)

lemma workflow_end_steps:
  assumes "shape_ok (graph_shape g)"
  shows "steps d g (snd (on_workflow_end ev g))"
  unfolding on_workflow_end_def Let_def
proof (intro steps_rules, goal_cases)
  case (1 W)
  then show ?case by (auto simp: get_workflow_Inr intro: graph_step.workflow_done)
next
  case (2 W)
  then have "wf_invocation_ids W \<subseteq> fst ` set (cg_invocations g)"
    using shape_okD(4) [OF assms, of "ev_workflow_id ev" "workflow_shape W"]
    by (auto simp: member_of_def get_workflow_Inr dest!: dict_key)
  with 2 show ?case by simp
qed

lemma member_of_graph:
  "member_of (graph_shape g) w i \<longleftrightarrow> (\<exists>r. map_of (cg_invocations g) i = Some r \<and> iv_workflow_id r = w)"
  by (auto simp: member_of_def)

lemma create_context_graph:
  shows "cg_invocations (snd (create_context ev c pc g)) = cg_invocations g"
    and "cg_workflows (snd (create_context ev c pc g)) = cg_workflows g"
    and "fst (create_context ev c pc g) = Inr ctx \<Longrightarrow>
      \<exists>x. map_of (cg_contexts (snd (create_context ev c pc g))) c = Some x \<and> cx_workflow_id x = ev_workflow_id ev"
    and "steps d g (snd (create_context ev c pc g))"
proof -
  show "cg_invocations (snd (create_context ev c pc g)) = cg_invocations g"
    "cg_workflows (snd (create_context ev c pc g)) = cg_workflows g"
    by (auto simp: create_context_def Let_def checked_def split: option.split sum.split)
  show "\<exists>x. map_of (cg_contexts (snd (create_context ev c pc g))) c = Some x \<and> cx_workflow_id x = ev_workflow_id ev"
    if "fst (create_context ev c pc g) = Inr ctx"
    using that by (auto simp: create_context_def Let_def checked_def map_of_update map_of_dmap_on
        split: option.splits sum.splits if_split_asm)
  show "steps d g (snd (create_context ev c pc g))"
  proof (cases "map_of (cg_contexts g) c")
    case None
    then show ?thesis
      by (auto simp: create_context_def Let_def intro!: r_into_rtranclp graph_step.context_new)
  next
    case (Some ctx)
    show ?thesis
      unfolding create_context_def Let_def Some option.case
      by (intro steps_rules)
        (auto simp: Some context_shape_def intro!: r_into_rtranclp graph_step.context_change)
  qed
qed

lemma invocation_create_steps:
  assumes "d \<Longrightarrow> \<not> ended g (ev_workflow_id ev)"
  shows "steps d g (snd (on_invocation_create ev g))"
  unfolding on_invocation_create_def
proof (intro steps_rules, goal_cases)
  case (2 W i c pc)
  show ?case by (rule create_context_graph)
next
  case (3 W i c pc ctx)
  let ?h = "snd (create_context ev c pc g)" and ?r = "new_invocation ev i c pc ctx"
  note same = create_context_graph(1,2) [of ev c pc g]
  have r: "iv_invocation_id ?r = i" "iv_state ?r = READY" "iv_child_invocation_ids ?r = {}"
    "iv_blocking_child_ids ?r = {}" "iv_workflow_id ?r = ev_workflow_id ev" "iv_context_id ?r = c"
    "iv_parent_invocation_id ?r = ev_parent_invocation_id ev"
    by (simp_all add: new_invocation_def)
  have "new_invocation_ok ?h i ?r"
    unfolding new_invocation_ok_def
    using 3 same create_context_graph(3) [of ev c pc g ctx]
    by (auto simp: r get_workflow_Inr dict_in_def member_of_graph result_simps split: option.splits)
  moreover have "wf_end_ts_ms w = None"
    if "d" "map_of (cg_workflows ?h) (iv_workflow_id ?r) = Some w" for w
    using assms that by (auto simp: r same ended_def)
  ultimately have "graph_step d ?h (add_invocation i ?r (iv_persistent ?r) ?h)"
    by (rule graph_step.invocation_new)
  then have "steps d g (add_invocation i ?r (iv_persistent ?r) ?h)"
    using create_context_graph(4) [of d g ev c pc] by simp
  then show ?case by (simp add: Let_def add_invocation_def r)
qed simp

lemma checked_graph [simp]: "snd (checked g r (\<lambda>x. (f x, g))) = g"
  by (simp add: checked_def split: sum.split)

lemma finish_steps:
  assumes "steps d g h" and "map_of (cg_invocations h) i = Some r" and "\<not> state_terminal (iv_state r)"
    and "state_terminal s"
  shows "steps d g (snd (finish_invocation s ts i r h))"
  using assms graph_step.invocation_finish [of h i r s d ts] by auto

lemma invocation_cancel_steps: "steps d g (snd (on_invocation_cancel ev g))"
  unfolding on_invocation_cancel_def
  by (intro steps_rules) (auto simp: result_simps state_terminal_def intro!: finish_steps)

lemma return_steps: "steps d g (snd (on_return ev g))"
  unfolding on_return_def
  by (intro steps_rules) (auto simp: result_simps state_terminal_def intro!: finish_steps)

lemma calm_updated: "calm_change x (set_updated ts x)"
  by (simp add: calm_change_def set_updated_def invocation_shape_def)

lemma context_advance_steps: "steps d g (snd (on_context_advance ev g))"
  unfolding on_context_advance_def
  by (intro steps_rules) (auto intro!: steps_change touch_context_graph calm_updated)

lemma context_compact_steps: "steps d g (snd (on_context_compact ev g))"
  unfolding on_context_compact_def
  by (intro steps_rules) (auto intro!: steps_change touch_context_graph calm_updated)

lemma structured_action_steps: "steps d g (snd (on_structured_action ev g))"
  unfolding on_structured_action_def by (intro steps_rules) auto

lemma call_censored_steps: "steps d g (snd (on_call_censored ev g))"
  unfolding on_call_censored_def by (intro steps_rules) auto

lemma link_child_steps:
  assumes shape: "shape_ok (graph_shape g)"
    and "d \<Longrightarrow> ev_return_target_id ev \<in> {None, Some [], ev_invocation_id ev}"
  shows "steps d g (snd (link_child ev m g))"
  unfolding link_child_def Let_def
proof (intro steps_rules, goal_cases)
  case (4 P c C cyclic)
  then have P: "map_of (cg_invocations g) (ev_inv_key ev) = Some P" and C: "map_of (cg_invocations g) c = Some C"
    by (simp_all add: result_simps)
  have ids: "iv_invocation_id P = ev_inv_key ev" "iv_invocation_id C = c"
    using shape_okD(1) [OF shape, of "ev_inv_key ev"] shape_okD(1) [OF shape, of c] P C
    by (simp_all add: inv_ok_def)
  have "graph_step d g (link_update (ev_inv_key ev) c P (ev_return_target_id ev)
      (enum_or (ev_execution_mode ev) m) (if ev_kind ev = CALL then REL_CALL else REL_SPAWN) (ev_ts_ms ev) g)"
    by (rule graph_step.invocation_link [OF P C])
      (use 4 ids assms(2) in \<open>auto simp: result_simps str_or_def split: if_split_asm\<close>)
  then show ?case by simp
qed simp_all

lemma reactivate_steps: "steps d g (snd (on_reactivate ev g))"
  unfolding on_reactivate_def
  by (intro steps_rules) (auto simp: result_simps intro!: steps_change calm_set_state)

lemma deliver_message_steps: "steps d g (snd (deliver_message ev handoff g))"
  unfolding deliver_message_def Let_def
proof (intro steps_rules, goal_cases)
  case (2 source t target)
  let ?g1 = "bump_edge (iv_invocation_id source) t (ev_ts_ms ev) g"
  let ?g2 = "mod_inv {t} (\<lambda>r. r\<lparr>iv_pending_messages := iv_pending_messages r + 1, iv_state := READY,
    iv_updated_ts_ms := ev_ts_ms ev\<rparr>) ?g1"
  have "steps d g ?g1" by (auto intro: graph_step.message_edge)
  then have g2: "steps d g ?g2"
    by (rule steps_change) (use 2 in \<open>auto simp: result_simps calm_change_def invocation_shape_def state_terminal_def\<close>)
  then have "steps d g (mod_inv {ev_inv_key ev} (set_state WAIT_MESSAGE (ev_ts_ms ev)) ?g2)"
    if "live_in ?g2 (ev_inv_key ev)"
    by (rule steps_change) (use that in \<open>auto simp: live_in_def intro!: calm_set_state\<close>)
  with g2 show ?case by simp
qed simp

lemma join_create_steps: "steps d g (snd (on_join_create rt ev g))"
  unfolding on_join_create_def Let_def
proof (intro steps_rules, goal_cases)
  case (3 W j rs mode)
  define J where "J = \<lparr>jn_workflow_id = ev_workflow_id ev, jn_join_id = j,
    jn_member_invocation_ids = set (ev_member_invocation_ids ev), jn_mode = mode,
    jn_waiter_invocation_ids = {},
    jn_completed_member_ids = Set.filter (terminal_in g) (set (ev_member_invocation_ids ev)),
    jn_satisfied = False\<rparr>"
  have "new_join_ok g j (J\<lparr>jn_satisfied := join_is_satisfied J\<rparr>)"
    using 3 by (auto simp: new_join_ok_def J_def join_is_satisfied_def member_of_graph get_invocation_Inr
        dest: rmap_Inr_each)
  then have "graph_step d g (g\<lparr>cg_joins := AList.update j (J\<lparr>jn_satisfied := join_is_satisfied J\<rparr>) (cg_joins g)\<rparr>)"
    using 3 by (intro graph_step.join_new) (simp_all add: dict_in_def)
  then show ?case by (simp add: J_def)
qed simp_all

lemma join_wait_steps:
  assumes shape: "shape_ok (graph_shape g)" and "d \<Longrightarrow> \<not> terminal_in g (ev_inv_key ev)"
  shows "steps d g (snd (on_join_wait ev g))"
  unfolding on_join_wait_def Let_def
proof (intro steps_rules, goal_cases)
  case (1 r k j)
  then have r: "map_of (cg_invocations g) (ev_inv_key ev) = Some r" and j: "map_of (cg_joins g) k = Some j"
    and w: "iv_workflow_id r = jn_workflow_id j"
    by (simp_all add: result_simps)
  have ident: "iv_invocation_id r = ev_inv_key ev"
    using shape_okD(1) [OF shape, of "ev_inv_key ev"] r by (simp add: inv_ok_def)
  have "graph_step d g (wait_update (ev_inv_key ev) k (if jn_satisfied j then READY else WAIT_JOIN) (ev_ts_ms ev) g)"
    by (rule graph_step.join_waits [OF r j w]) (use assms(2) r in \<open>simp add: terminal_in_iff\<close>)
  then show ?case by (simp add: wait_update_def ident)
qed

lemma join_satisfied_steps: "steps d g (snd (on_join_satisfied ev g))"
  unfolding on_join_satisfied_def
  by (intro steps_rules)
    (auto simp: result_simps wake_join_waiters_def woken_delta_def Let_def
      intro!: r_into_rtranclp graph_step.join_satisfies)

lemma join_timeout_steps: "steps d g (snd (on_join_timeout ev g))"
  unfolding on_join_timeout_def
  by (intro steps_rules)
    (auto simp: result_simps wake_join_waiters_def woken_delta_def Let_def
      intro!: r_into_rtranclp graph_step.join_wakes)

lemma tool_start_steps: "steps d g (snd (on_tool_start rt ev g))"
  unfolding on_tool_start_def
  by (intro steps_rules)
    (auto simp: result_simps calm_change_def invocation_shape_def state_terminal_def intro!: steps_change)

lemma tool_end_steps: "steps d g (snd (on_tool_end ev g))"
  unfolding on_tool_end_def
  by (intro steps_rules)
    (auto simp: result_simps calm_change_def invocation_shape_def state_terminal_def intro!: steps_change)

lemma steps_checked_at:
  "steps d g h \<Longrightarrow> (\<And>x. r = Inr x \<Longrightarrow> steps d g (snd (k x))) \<Longrightarrow> steps d g (snd (checked h r k))"
  by (cases r) auto

lemma llm_submit_steps: "steps d g (snd (on_llm_submit ev g))"
  unfolding on_llm_submit_def Let_def
proof (intro steps_rules steps_checked_at, goal_cases)
  case (2 r u v)
  then show ?case
    by (auto simp: result_simps touch_context_graph calm_change_def invocation_shape_def state_terminal_def
        intro!: steps_change touch_context_graph(2))
next
  case (3 r u v n)
  then show ?case
    by (auto simp: result_simps touch_context_graph map_of_dmap_on calm_change_def invocation_shape_def
        state_terminal_def intro!: steps_change touch_context_graph(2))
qed (rule touch_context_graph)

lemma llm_result_steps: "steps d g (snd (on_llm_result ev g))"
  unfolding on_llm_result_def
  by (intro steps_rules)
    (auto simp: result_simps touch_context_graph(1) state_terminal_def
      intro!: finish_steps steps_change calm_set_state touch_context_graph(2))

lemma handler_steps:
  assumes "shape_ok (graph_shape g)" and "d \<Longrightarrow> disciplined ev g"
  shows "steps d g (snd (handler rt (ev_kind ev) ev g))"
  using assms
  by (cases "ev_kind ev")
    (simp_all add: workflow_start_steps workflow_end_steps invocation_create_steps invocation_cancel_steps
      context_advance_steps context_compact_steps on_call_def on_spawn_def link_child_steps return_steps
      on_message_def on_handoff_def deliver_message_steps reactivate_steps join_create_steps join_wait_steps
      join_satisfied_steps join_timeout_steps tool_start_steps tool_end_steps llm_submit_steps
      llm_result_steps call_censored_steps structured_action_steps disciplined_def)

text \<open>An event that is applied changes the graph by such steps and then records itself.\<close>

lemma apply_event_cases:
  obtains (skip) "snd (apply_event rt ev g) = g"
      and "ev_event_id ev \<notin> cg_processed_event_ids g \<Longrightarrow> \<exists>e. fst (apply_event rt ev g) = Inl e"
  | (raises) e where "handler rt (ev_kind ev) ev g = (Inl e, snd (apply_event rt ev g))"
      and "fst (apply_event rt ev g) = Inl e" and "ev_event_id ev \<notin> cg_processed_event_ids g"
  | (applies) delta h where "handler rt (ev_kind ev) ev g = (Inr delta, h)"
      and "snd (apply_event rt ev g) =
        h\<lparr>cg_processed_event_ids := insert (ev_event_id ev) (cg_processed_event_ids h),
          cg_last_ts_by_workflow := AList.update (ev_workflow_id ev)
            (max (ev_ts_ms ev) (case map_of (cg_last_ts_by_workflow g) (ev_workflow_id ev) of
               None \<Rightarrow> ev_ts_ms ev | Some t \<Rightarrow> t)) (cg_last_ts_by_workflow h),
          cg_graph_version := cg_graph_version h + 1\<rparr>"
      and "fst (apply_event rt ev g) = Inr (delta\<lparr>gd_graph_version := cg_graph_version h + 1\<rparr>)"
      and "ev_event_id ev \<notin> cg_processed_event_ids g"
proof (cases "ev_event_id ev \<in> cg_processed_event_ids g \<or> cg_strict_timestamps g \<and>
    (case map_of (cg_last_ts_by_workflow g) (ev_workflow_id ev) of None \<Rightarrow> False | Some t \<Rightarrow> ev_ts_ms ev < t)")
  case True
  then show ?thesis by (intro skip) (auto simp: apply_event_def Let_def)
next
  case False
  then have eq: "apply_event rt ev g = after (handler rt (ev_kind ev) ev g) (\<lambda>delta g1.
      let g2 = g1\<lparr>cg_processed_event_ids := insert (ev_event_id ev) (cg_processed_event_ids g1),
          cg_last_ts_by_workflow := AList.update (ev_workflow_id ev)
            (max (ev_ts_ms ev) (case map_of (cg_last_ts_by_workflow g) (ev_workflow_id ev) of
               None \<Rightarrow> ev_ts_ms ev | Some t \<Rightarrow> t)) (cg_last_ts_by_workflow g1),
          cg_graph_version := cg_graph_version g1 + 1\<rparr> in
      (Inr (delta\<lparr>gd_graph_version := cg_graph_version g2\<rparr>), g2))"
    by (auto simp: apply_event_def Let_def)
  show ?thesis
  proof (cases "handler rt (ev_kind ev) ev g")
    case (Pair res h)
    with False eq raises applies show ?thesis by (cases res) (simp_all add: Let_def)
  qed
qed

section \<open>Runs\<close>

text \<open>One event applied to the graph; with the flag, a disciplined one. Whether it raises does not
  matter.\<close>

inductive event_step :: "bool \<Rightarrow> py_runtime \<Rightarrow> causal_graph \<Rightarrow> causal_graph \<Rightarrow> bool" for d rt where
  applied: "(d \<Longrightarrow> disciplined ev g) \<Longrightarrow> event_step d rt g (snd (apply_event rt ev g))"

abbreviation reachable :: "bool \<Rightarrow> py_runtime \<Rightarrow> causal_graph \<Rightarrow> bool" where
  "reachable d rt g \<equiv> \<exists>strict. (event_step d rt)\<^sup>*\<^sup>* (graph_init strict) g"

lemma event_step_steps:
  assumes "event_step d rt g h" and "graph_ok d g"
  obtains h' P L v where "steps d g h'"
    and "h = h'\<lparr>cg_processed_event_ids := P, cg_last_ts_by_workflow := L, cg_graph_version := v\<rparr>"
  using assms(1)
proof cases
  case (applied ev)
  then have st: "steps d g (snd (handler rt (ev_kind ev) ev g))"
    using assms(2) by (intro handler_steps) (auto simp: graph_ok_def)
  show thesis
  proof (cases rule: apply_event_cases [of rt ev g])
    case skip
    with applied that [of g "cg_graph_version g" "cg_last_ts_by_workflow g" "cg_processed_event_ids g"]
    show thesis by simp
  next
    case (raises e)
    with applied st that [of h "cg_graph_version h" "cg_last_ts_by_workflow h" "cg_processed_event_ids h"]
    show thesis by simp
  next
    case (applies delta h')
    with st that [OF _ applied(1) [unfolded applies(2)]] show thesis by simp
  qed
qed

interpretation evm: invariant_machine "event_step d rt" "graph_ok d" for d rt
proof
  fix g h
  assume "event_step d rt g h" and ok: "graph_ok d g"
  then obtain h' P L v where h': "steps d g h'"
    and h: "h = h'\<lparr>cg_processed_event_ids := P, cg_last_ts_by_workflow := L, cg_graph_version := v\<rparr>"
    by (rule event_step_steps)
  have "graph_ok d h'" using h' ok by (rule cg.run_inv)
  then show "graph_ok d h" by (simp add: h graph_ok_ledger)
qed

lemma reachable_ok: "reachable d rt g \<Longrightarrow> graph_ok d g"
  using evm.run_inv graph_ok_init by blast

text \<open>Context epochs never decrease, along elementary changes and along events.\<close>

lemma complete_join_contexts: "cg_contexts (snd (complete_join i ts k g)) = cg_contexts g"
  by (cases rule: complete_join_cases [of i ts k g]) simp_all

lemma complete_joins_contexts: "cg_contexts (snd (complete_joins i ts ks aw g)) = cg_contexts g"
  by (rule complete_joins_induct [where P = "\<lambda>h. cg_contexts h = cg_contexts g"])
    (simp_all add: complete_join_contexts)

lemma finish_contexts: "cg_contexts (snd (finish_invocation s ts i r g)) = cg_contexts g"
  by (rule finish_invocation_graph [of s ts i r g]) (simp add: complete_joins_contexts split: option.split)

definition epoch_of_context :: "string \<Rightarrow> causal_graph \<Rightarrow> int option" where
  "epoch_of_context c g = map_option cx_epoch (map_of (cg_contexts g) c)"

lemma graph_step_epoch: "graph_step d g g' \<Longrightarrow> epoch_of_context c g \<le> epoch_of_context c g'"
proof (induction rule: graph_step.induct)
  case (context_change g k f)
  then show ?case
    by (cases "map_of (cg_contexts g) c") (auto simp: epoch_of_context_def map_of_dmap_on)
next
  case (invocation_new g i r persistent)
  then show ?case
    by (cases "map_of (cg_contexts g) c") (auto simp: epoch_of_context_def add_invocation_def map_of_dmap_on)
qed (simp_all add: epoch_of_context_def map_of_update finish_contexts wait_update_def bump_edge_def Let_def)

interpretation cge: monotone_machine "graph_step d" "graph_ok d" "epoch_of_context c" for d c
  by unfold_locales (rule graph_step_epoch)

interpretation eve: monotone_machine "event_step d rt" "graph_ok d" "epoch_of_context c" for d rt c
proof
  fix g h
  assume "event_step d rt g h" and ok: "graph_ok d g"
  then obtain h' P L v where h': "steps d g h'"
    and h: "h = h'\<lparr>cg_processed_event_ids := P, cg_last_ts_by_workflow := L, cg_graph_version := v\<rparr>"
    by (rule event_step_steps)
  have "epoch_of_context c g \<le> epoch_of_context c h'" using h' ok by (rule cge.run_mono)
  then show "epoch_of_context c g \<le> epoch_of_context c h" by (simp add: h epoch_of_context_def)
qed

text \<open>Processed ids accumulate, and an event whose id is known changes nothing.\<close>

lemma apply_event_processed:
  assumes "graph_ok d g" and "apply_event rt ev g = (Inr delta, h)"
  shows "insert (ev_event_id ev) (cg_processed_event_ids g) \<subseteq> cg_processed_event_ids h" and "graph_ok False h"
proof -
  have ok: "graph_ok False g" using assms(1) by (simp add: graph_ok_def)
  have "ledger (snd (handler rt (ev_kind ev) ev g)) = ledger g"
    by (rule steps_ledger [of False]) (rule handler_steps, use ok in \<open>simp_all add: graph_ok_def\<close>)
  then show "insert (ev_event_id ev) (cg_processed_event_ids g) \<subseteq> cg_processed_event_ids h"
    using assms(2) by (cases rule: apply_event_cases [of rt ev g]) (auto simp: ledger_def)
  have "event_step False rt g h" using event_step.applied [of False ev g rt] assms(2) by simp
  then show "graph_ok False h" using ok by (rule evm.step_inv)
qed

lemma apply_all_processed:
  "graph_ok d g \<Longrightarrow> apply_all rt evs g = (Inr ds, h) \<Longrightarrow>
   ev_event_id ` set evs \<union> cg_processed_event_ids g \<subseteq> cg_processed_event_ids h \<and> length ds = length evs"
proof (induction evs arbitrary: d g ds)
  case (Cons ev evs)
  from Cons.prems(2) obtain delta g1 ds' where one: "apply_event rt ev g = (Inr delta, g1)"
    and rest: "apply_all rt evs g1 = (Inr ds', h)" and ds: "ds = delta # ds'"
    by (auto simp: after_def split: prod.splits sum.splits)
  note first = apply_event_processed [OF Cons.prems(1) one]
  show ?case using Cons.IH [OF first(2) rest] first(1) by (auto simp: ds)
qed auto

lemma apply_all_known:
  "ev_event_id ` set evs \<subseteq> cg_processed_event_ids g \<Longrightarrow> \<exists>ds. apply_all rt evs g = (Inr ds, g)"
  by (induction evs) (auto simp: apply_event_def)

lemma apply_all_runs: "(event_step False rt)\<^sup>*\<^sup>* g (snd (apply_all rt evs g))"
proof (induction evs arbitrary: g)
  case (Cons ev evs)
  have one: "(event_step False rt)\<^sup>*\<^sup>* g (snd (apply_event rt ev g))"
    using event_step.applied [of False ev g rt] by blast
  then show ?case
    using rtranclp_trans [OF one Cons.IH]
    by (auto simp: after_def split: prod.splits sum.splits)
qed simp

section \<open>Properties\<close>

text \<open>
  C6. Consistency of the causal graph. After any sequence of runtime events, whether they succeed
  or raise, every invocation is stored under its own id, is listed by its workflow and by its
  context, and has a parent of the same workflow if it has one; every child it lists points back
  to it; the parent pointers form no cycle; and a join only names members and waiters that exist
  in its workflow.
\<close>

theorem causal_graph_consistent:
  assumes "reachable d rt g"
  shows "acyclic {(i, p). \<exists>r. map_of (cg_invocations g) i = Some r \<and> iv_parent_invocation_id r = Some p} \<and>
    (\<forall>i r. map_of (cg_invocations g) i = Some r \<longrightarrow>
      iv_invocation_id r = i \<and>
      (\<exists>w. map_of (cg_workflows g) (iv_workflow_id r) = Some w \<and> i \<in> wf_invocation_ids w) \<and>
      (\<exists>c. map_of (cg_contexts g) (iv_context_id r) = Some c \<and> cx_workflow_id c = iv_workflow_id r \<and>
           i \<in> cx_invocation_ids c) \<and>
      (\<forall>p. iv_parent_invocation_id r = Some p \<longrightarrow>
         (\<exists>q. map_of (cg_invocations g) p = Some q \<and> iv_workflow_id q = iv_workflow_id r)) \<and>
      (\<forall>c \<in> iv_child_invocation_ids r.
         \<exists>q. map_of (cg_invocations g) c = Some q \<and> iv_parent_invocation_id q = Some i)) \<and>
    (\<forall>k j. map_of (cg_joins g) k = Some j \<longrightarrow>
      jn_member_invocation_ids j \<noteq> {} \<and>
      (\<forall>m \<in> jn_member_invocation_ids j \<union> jn_waiter_invocation_ids j.
         \<exists>q. map_of (cg_invocations g) m = Some q \<and> iv_workflow_id q = jn_workflow_id j))"
proof -
  have shape: "shape_ok (graph_shape g)" using reachable_ok [OF assms] by (simp add: graph_ok_def)
  have rel: "parent_rel (graph_shape g) =
      {(i, p). \<exists>r. map_of (cg_invocations g) i = Some r \<and> iv_parent_invocation_id r = Some p}"
    by (auto simp: parent_rel_def)
  have invs: "iv_invocation_id r = i \<and>
      (\<exists>w. map_of (cg_workflows g) (iv_workflow_id r) = Some w \<and> i \<in> wf_invocation_ids w) \<and>
      (\<exists>c. map_of (cg_contexts g) (iv_context_id r) = Some c \<and> cx_workflow_id c = iv_workflow_id r \<and>
           i \<in> cx_invocation_ids c) \<and>
      (\<forall>p. iv_parent_invocation_id r = Some p \<longrightarrow>
         (\<exists>q. map_of (cg_invocations g) p = Some q \<and> iv_workflow_id q = iv_workflow_id r)) \<and>
      (\<forall>c \<in> iv_child_invocation_ids r.
         \<exists>q. map_of (cg_invocations g) c = Some q \<and> iv_parent_invocation_id q = Some i)"
    if "map_of (cg_invocations g) i = Some r" for i r
    using shape_okD(1) [OF shape, of i "invocation_shape r"] that
    by (auto simp: inv_ok_def rel member_of_graph)
  have joins: "jn_member_invocation_ids j \<noteq> {} \<and>
      (\<forall>m \<in> jn_member_invocation_ids j \<union> jn_waiter_invocation_ids j.
         \<exists>q. map_of (cg_invocations g) m = Some q \<and> iv_workflow_id q = jn_workflow_id j)"
    if "map_of (cg_joins g) k = Some j" for k j
    using shape_okD(2) [OF shape, of k "join_shape j"] that by (auto simp: member_of_graph)
  show ?thesis using shape_okD(5) [OF shape, unfolded rel] invs joins by blast
qed

text \<open>
  C22. Who waits is registered. In every reachable graph an invocation that waits for its children
  has a non-empty set of blocking children, all of them listed children of it, and an invocation
  that waits for a join is a registered waiter of the join it names, whose satisfied flag is unset
  and whose completed members do not satisfy it. For the children this says no more: a blocking
  child may have completed already, when it was called with a return target other than its
  caller (\<open>foreign_return_target_strands_parent\<close>).
\<close>

theorem waiting_is_registered:
  assumes "reachable d rt g" and "map_of (cg_invocations g) i = Some r"
  shows "(iv_state r = WAIT_CHILD \<longrightarrow>
      iv_blocking_child_ids r \<noteq> {} \<and> iv_blocking_child_ids r \<subseteq> iv_child_invocation_ids r) \<and>
    (iv_state r = WAIT_JOIN \<longrightarrow>
      (\<exists>k j. iv_join_id r = Some k \<and> map_of (cg_joins g) k = Some j \<and>
            i \<in> jn_waiter_invocation_ids j \<and> \<not> jn_satisfied j \<and> \<not> join_is_satisfied j))"
proof -
  have wait: "wait_ok g" using reachable_ok [OF assms(1)] by (simp add: graph_ok_def)
  have "\<not> join_is_satisfied j" if "map_of (cg_joins g) k = Some j" "\<not> jn_satisfied j" for k j
    using wait_okD(2) [OF wait that(1)] that(2) by (simp add: join_ok_def)
  with wait_okD(1) [OF wait assms(2)] show ?thesis unfolding waits_ok_def by blast
qed

text \<open>
  C2. Nobody waits for the dead. If the adapter follows the protocol (no join wait for a terminal
  invocation, no invocation created in an ended workflow, no return target other than the parent),
  an invocation that waits for its children has a blocking child that is still live and will
  report to it, and an invocation that waits for a join has a live member it depends on: under
  mode \<open>all\<close> one that has not completed, under mode \<open>any\<close> every member.
\<close>

theorem waits_for_the_living:
  assumes "reachable True rt g" and "map_of (cg_invocations g) i = Some r"
  shows "(iv_state r = WAIT_CHILD \<longrightarrow>
      (\<exists>c q. c \<in> iv_blocking_child_ids r \<and> map_of (cg_invocations g) c = Some q \<and>
            \<not> state_terminal (iv_state q) \<and> str_or (iv_return_target_id q) (iv_parent_invocation_id q) = Some i)) \<and>
    (iv_state r = WAIT_JOIN \<longrightarrow>
      (\<exists>k j m. iv_join_id r = Some k \<and> map_of (cg_joins g) k = Some j \<and>
        m \<in> jn_member_invocation_ids j \<and> m \<notin> jn_completed_member_ids j \<and> live_in g m \<and>
        (jn_mode j = JOIN_ANY \<longrightarrow> (\<forall>n \<in> jn_member_invocation_ids j. live_in g n))))"
proof (intro conjI impI)
  have shape: "shape_ok (graph_shape g)" and wait: "wait_ok g" and live: "live_ok g"
    using reachable_ok [OF assms(1)] by (simp_all add: graph_ok_def)
  have w: "waits_ok (cg_joins g) i r" by (rule wait_okD(1) [OF wait assms(2)])
  {
    assume s: "iv_state r = WAIT_CHILD"
    with w obtain c where "c \<in> iv_blocking_child_ids r" by (auto simp: waits_ok_def)
    moreover have "\<not> done_record r" by (simp add: s state_terminal_def)
    ultimately show "\<exists>c q. c \<in> iv_blocking_child_ids r \<and> map_of (cg_invocations g) c = Some q \<and>
            \<not> state_terminal (iv_state q) \<and> str_or (iv_return_target_id q) (iv_parent_invocation_id q) = Some i"
      using live assms(2) unfolding live_ok_def child_live_def target_of_def by blast
  }
  assume s: "iv_state r = WAIT_JOIN"
  with w obtain k j where k: "iv_join_id r = Some k" and j: "map_of (cg_joins g) k = Some j"
    "i \<in> jn_waiter_invocation_ids j" "\<not> jn_satisfied j" by (auto simp: waits_ok_def)
  have "iv_workflow_id r = jn_workflow_id j" using join_member_workflow [OF shape j(1) assms(2)] j(2) by simp
  moreover have "\<not> done_record r" by (simp add: s state_terminal_def)
  ultimately have open_: "\<not> ended g (jn_workflow_id j)"
    using live assms(2) unfolding live_ok_def ended_dead_def by metis
  have alive: "live_in g m" if "m \<in> jn_member_invocation_ids j" "m \<notin> jn_completed_member_ids j" for m
  proof -
    have "member_of (graph_shape g) (jn_workflow_id j) m"
      using shape_okD(2) [OF shape, of k "join_shape j"] j(1) that by simp
    moreover have "\<not> terminal_in g m"
      using live j(1) that open_ unfolding live_ok_def join_live_def by blast
    ultimately show ?thesis by (auto simp: member_of_graph live_in_def terminal_in_def)
  qed
  have "\<not> join_is_satisfied j" using wait_okD(2) [OF wait j(1)] j(3) by (simp add: join_ok_def)
  moreover have "jn_member_invocation_ids j \<noteq> {}"
    using shape_okD(2) [OF shape, of k "join_shape j"] j(1) by simp
  ultimately obtain m where "m \<in> jn_member_invocation_ids j" "m \<notin> jn_completed_member_ids j"
    "jn_mode j = JOIN_ANY \<Longrightarrow> jn_completed_member_ids j = {}"
    by (auto simp: join_is_satisfied_def split: if_split_asm)
  with k j alive show "\<exists>k j m. iv_join_id r = Some k \<and> map_of (cg_joins g) k = Some j \<and>
        m \<in> jn_member_invocation_ids j \<and> m \<notin> jn_completed_member_ids j \<and> live_in g m \<and>
        (jn_mode j = JOIN_ANY \<longrightarrow> (\<forall>n \<in> jn_member_invocation_ids j. live_in g n))"
    by auto
qed

text \<open>
  The ledger of applied events. An event that was processed before is a no-op that reports the
  current version. With strict timestamps an event older than its workflow's watermark is refused
  and nothing changes. Any other event either raises, and is then not recorded, or is recorded
  exactly once: the version grows by one, the id is remembered and the workflow's watermark
  becomes the larger of the two times. So applying an event twice equals applying it once.
\<close>

theorem apply_event_ledger:
  assumes "shape_ok (graph_shape g)" and "apply_event rt ev g = (res, h)"
  shows "(ev_event_id ev \<in> cg_processed_event_ids g \<longrightarrow>
      h = g \<and> res = Inr ((empty_delta (ev_event_id ev))\<lparr>gd_graph_version := cg_graph_version g\<rparr>)) \<and>
    (\<forall>t. cg_strict_timestamps g \<longrightarrow> timestamp_watermark (ev_workflow_id ev) g = Some t \<longrightarrow> ev_ts_ms ev < t \<longrightarrow>
      ev_event_id ev \<notin> cg_processed_event_ids g \<longrightarrow> h = g \<and> (\<exists>e. res = Inl e)) \<and>
    (\<forall>e. res = Inl e \<longrightarrow> ledger h = ledger g) \<and>
    (\<forall>delta. res = Inr delta \<longrightarrow> ev_event_id ev \<notin> cg_processed_event_ids g \<longrightarrow>
      cg_graph_version h = cg_graph_version g + 1 \<and> gd_graph_version delta = cg_graph_version h \<and>
      cg_processed_event_ids h = insert (ev_event_id ev) (cg_processed_event_ids g) \<and>
      timestamp_watermark (ev_workflow_id ev) h = Some (max (ev_ts_ms ev)
        (case timestamp_watermark (ev_workflow_id ev) g of None \<Rightarrow> ev_ts_ms ev | Some t \<Rightarrow> t))) \<and>
    (\<forall>delta. res = Inr delta \<longrightarrow>
      apply_event rt ev h = (Inr ((empty_delta (ev_event_id ev))\<lparr>gd_graph_version := cg_graph_version h\<rparr>), h))"
proof -
  have dup: "ev_event_id ev \<in> cg_processed_event_ids g \<Longrightarrow>
      h = g \<and> res = Inr ((empty_delta (ev_event_id ev))\<lparr>gd_graph_version := cg_graph_version g\<rparr>)"
    using assms(2) by (auto simp: apply_event_def)
  have stale: "cg_strict_timestamps g \<Longrightarrow> timestamp_watermark (ev_workflow_id ev) g = Some t \<Longrightarrow> ev_ts_ms ev < t \<Longrightarrow>
      ev_event_id ev \<notin> cg_processed_event_ids g \<Longrightarrow> h = g \<and> (\<exists>e. res = Inl e)" for t
    using assms(2) by (auto simp: apply_event_def timestamp_watermark_def Let_def)
  have led: "ledger (snd (handler rt (ev_kind ev) ev g)) = ledger g"
    by (rule steps_ledger [of False]) (rule handler_steps, use assms in simp_all)
  have failed: "ledger h = ledger g" if "res = Inl e" for e
    using led assms(2) that by (cases rule: apply_event_cases [of rt ev g]) auto
  have fresh: "cg_graph_version h = cg_graph_version g + 1 \<and> gd_graph_version delta = cg_graph_version h \<and>
      cg_processed_event_ids h = insert (ev_event_id ev) (cg_processed_event_ids g) \<and>
      timestamp_watermark (ev_workflow_id ev) h = Some (max (ev_ts_ms ev)
        (case timestamp_watermark (ev_workflow_id ev) g of None \<Rightarrow> ev_ts_ms ev | Some t \<Rightarrow> t))"
    if "res = Inr delta" and "ev_event_id ev \<notin> cg_processed_event_ids g" for delta
  proof (cases rule: apply_event_cases [of rt ev g])
    case skip
    with that assms(2) show ?thesis by simp
  qed (use led that assms(2) in \<open>auto simp: ledger_def timestamp_watermark_def map_of_update\<close>)
  have again: "apply_event rt ev h = (Inr ((empty_delta (ev_event_id ev))\<lparr>gd_graph_version := cg_graph_version h\<rparr>), h)"
    if "res = Inr delta" for delta
  proof -
    have "ev_event_id ev \<in> cg_processed_event_ids h"
      using dup fresh [OF that] by (cases "ev_event_id ev \<in> cg_processed_event_ids g") simp_all
    then show ?thesis by (simp add: apply_event_def)
  qed
show ?thesis using dup stale failed fresh again by blast
qed

text \<open>
  C21. Atomic batches. When any event of an atomic batch raises, the graph is exactly what it was
  before the batch; otherwise the batch equals applying its events one after the other, with one
  delta per event. Replaying a batch that succeeded changes nothing.
\<close>

theorem apply_batch_atomic:
  assumes "reachable d rt g"
  shows "(\<forall>e h. apply_batch rt evs True g = (Inl e, h) \<longrightarrow> h = g) \<and>
    (\<forall>ds h. apply_batch rt evs True g = (Inr ds, h) \<longrightarrow>
      apply_batch rt evs False g = (Inr ds, h) \<and> length ds = length evs \<and>
      (\<exists>ds'. apply_batch rt evs True h = (Inr ds', h)))"
proof (rule conjI; intro allI impI)
  obtain res h' where all: "apply_all rt evs g = (res, h')" by (cases "apply_all rt evs g")
  show "h = g" if "apply_batch rt evs True g = (Inl e, h)" for e h
    using all that by (cases res) (simp_all add: apply_batch_def)
  fix ds h
  assume "apply_batch rt evs True g = (Inr ds, h)"
  then have ds: "apply_all rt evs g = (Inr ds, h)"
    using all by (cases res) (simp_all add: apply_batch_def)
  note known = apply_all_processed [OF reachable_ok [OF assms] ds]
  obtain ds' where "apply_all rt evs h = (Inr ds', h)"
    using apply_all_known [of evs h rt] known by auto
  with ds known show "apply_batch rt evs False g = (Inr ds, h) \<and> length ds = length evs \<and>
      (\<exists>ds'. apply_batch rt evs True h = (Inr ds', h))"
    by (simp add: apply_batch_def)
qed

text \<open>
  Context epochs only move forward: once a context exists, no later event, successful or not,
  removes it or lowers its epoch.
\<close>

theorem context_epoch_monotone:
  assumes "reachable d rt g" and "(event_step d rt)\<^sup>*\<^sup>* g h" and "map_of (cg_contexts g) c = Some x"
  shows "\<exists>y. map_of (cg_contexts h) c = Some y \<and> cx_epoch x \<le> cx_epoch y"
proof -
  have "epoch_of_context c g \<le> epoch_of_context c h"
    using assms(2) reachable_ok [OF assms(1)] by (rule eve.run_mono)
  with assms(3) show ?thesis by (cases "map_of (cg_contexts h) c") (auto simp: epoch_of_context_def)
qed

section \<open>Which exceptions can happen\<close>

definition no_key_error :: "'a result \<Rightarrow> bool" where
  "no_key_error r \<longleftrightarrow> (\<forall>k. r \<noteq> Inl (KeyError k))"

lemma nk_Inr [simp]: "no_key_error (Inr x)"
  and nk_errors [simp]: "no_key_error (Inl (CausalGraphError m))" "no_key_error (Inl (ValueError m))"
    "no_key_error (Inl (TypeError m))"
  by (simp_all add: no_key_error_def)

lemma nk_checked:
  "no_key_error r \<Longrightarrow> (\<And>x. r = Inr x \<Longrightarrow> no_key_error (fst (k x))) \<Longrightarrow> no_key_error (fst (checked g r k))"
  by (cases r) (auto simp: no_key_error_def)

lemma nk_after:
  "no_key_error (fst m) \<Longrightarrow> (\<And>x. fst m = Inr x \<Longrightarrow> no_key_error (fst (k x (snd m)))) \<Longrightarrow>
   no_key_error (fst (after m k))"
  by (cases m; cases "fst m") (auto simp: no_key_error_def)

lemma nk_if:
  "(b \<Longrightarrow> no_key_error (fst x)) \<Longrightarrow> (\<not> b \<Longrightarrow> no_key_error (fst y)) \<Longrightarrow>
   no_key_error (fst (if b then x else y))"
  by simp

lemma nk_rbind: "no_key_error r \<Longrightarrow> (\<And>x. r = Inr x \<Longrightarrow> no_key_error (f x)) \<Longrightarrow> no_key_error (rbind r f)"
  by (cases r) (auto simp: no_key_error_def)

lemma nk_rmap: "(\<And>x. no_key_error (f x)) \<Longrightarrow> no_key_error (rmap f xs)"
  by (induction xs) (auto intro!: nk_rbind)

lemma nk_py_int [simp]: "no_key_error (py_int v)"
  by (cases v rule: py_int.cases) (simp_all split: option.split)

lemma nk_lookups [simp]:
  "no_key_error (require_id s f)" "no_key_error (get_workflow w g)" "no_key_error (get_invocation i w g)"
  "no_key_error (get_join k w g)" "no_key_error (ensure_not_terminal r)"
  "no_key_error (validate_event_epoch c e)" "no_key_error (py_enum val ms v)"
  by (auto simp: require_id_def get_workflow_def get_invocation_def get_join_def ensure_not_terminal_def
      validate_event_epoch_def py_enum_def split: option.split)

lemma nk_event_invocation [simp]: "no_key_error (event_invocation ev g)"
  by (auto simp: event_invocation_def intro: nk_rbind)

lemma nk_ancestor_walk: "no_key_error (ancestor_walk g a seen cur)"
proof (induction g a seen cur rule: ancestor_walk.induct)
  case (1 g a seen cur)
  then show ?case
    by (subst ancestor_walk.simps) (auto split: option.split)
qed

text \<open>The walk never returns to a parent it has seen: that parent would be its own ancestor.\<close>

lemma ancestor_walk_total:
  assumes "shape_ok (graph_shape g)"
  shows "(\<And>p. p \<in> seen \<Longrightarrow> cur = map_of (cg_invocations g) i \<Longrightarrow>
      (p, i) \<in> (parent_rel (graph_shape g))\<^sup>*) \<Longrightarrow> cur = map_of (cg_invocations g) i \<Longrightarrow>
    \<exists>b. ancestor_walk g a seen cur = Inr b"
  using assms
proof (induction g a seen cur arbitrary: i rule: ancestor_walk.induct)
  case (1 g a seen cur)
  show ?case
  proof (cases "\<exists>r p. cur = Some r \<and> iv_parent_invocation_id r = Some p \<and> p \<noteq> a")
    case True
    then obtain r p where r: "cur = Some r" "iv_parent_invocation_id r = Some p" "p \<noteq> a" by blast
    have ip: "(i, p) \<in> parent_rel (graph_shape g)"
      using r "1.prems"(2) by (auto simp: parent_rel_def)
    have new: "p \<notin> seen"
    proof
      assume "p \<in> seen"
      with "1.prems" ip have "(p, p) \<in> (parent_rel (graph_shape g))\<^sup>+" by (meson rtrancl_into_trancl1)
      with shape_okD(5) [OF "1.prems"(3)] show False by (simp add: acyclic_def)
    qed
    have "\<exists>b. ancestor_walk g a (insert p seen) (map_of (cg_invocations g) p) = Inr b"
      by (rule "1.IH" [OF r new _ refl "1.prems"(3)])
        (use "1.prems" ip in \<open>auto intro: rtrancl_into_rtrancl\<close>)
    with r new show ?thesis unfolding ancestor_walk.simps [of g a seen cur] by simp
  next
    case False
    then show ?thesis
      unfolding ancestor_walk.simps [of g a seen cur] by (auto split: option.split)
  qed
qed

lemma context_known:
  assumes "shape_ok (graph_shape g)" and "map_of (cg_invocations g) i = Some r"
  obtains c where "map_of (cg_contexts g) (iv_context_id r) = Some c"
  using shape_okD(1) [OF assms(1), of i "invocation_shape r"] assms(2) by (auto simp: inv_ok_def)

lemma nk_touch:
  assumes "shape_ok (graph_shape g)" and "map_of (cg_invocations g) i = Some r"
  shows "no_key_error (fst (touch_context (iv_context_id r) ev g))"
  by (rule context_known [OF assms]) (simp add: touch_context_def dict_item_def nk_checked)

lemma nk_finish:
  assumes "shape_ok (graph_shape g)"
  shows "no_key_error (fst (finish_invocation s ts i r g))"
proof (rule finish_invocation_graph [of s ts i r g])
  fix g1 aw
  assume eq: "finish_invocation s ts i r g = complete_joins (iv_invocation_id r) ts (map fst (cg_joins g)) aw g1"
    and "g1 = (case str_or (iv_return_target_id r) (iv_parent_invocation_id r) of
           None \<Rightarrow> mod_inv {i} (set_state s ts) g
         | Some t \<Rightarrow> mod_inv {t} (complete_child (iv_invocation_id r) ts) (mod_inv {i} (set_state s ts) g))"
  then have "shape_ok (graph_shape g1)" using assms by (simp add: shape_mod_inv split: option.split)
  then show ?thesis using complete_joins_Inr eq by (metis nk_Inr)
qed

lemma complete_join_keys:
  "map fst (cg_invocations (snd (complete_join i ts k g))) = map fst (cg_invocations g)"
  by (cases rule: complete_join_cases [of i ts k g]) simp_all

lemma complete_joins_keys:
  "map fst (cg_invocations (snd (complete_joins i ts ks aw g))) = map fst (cg_invocations g)"
  by (rule complete_joins_induct [where P = "\<lambda>h. map fst (cg_invocations h) = map fst (cg_invocations g)"])
    (simp_all add: complete_join_keys)

lemma finish_invocation_keys:
  "map fst (cg_invocations (snd (finish_invocation s ts i r g))) = map fst (cg_invocations g)"
  by (rule finish_invocation_graph [of s ts i r g]) (simp add: complete_joins_keys split: option.split)

lemma complete_join_awake: "fst (complete_join i ts k g) = Inr ws \<Longrightarrow> ws \<subseteq> fst ` set (cg_invocations g)"
  by (auto simp: complete_join_def wake_join_waiters_def Let_def split: option.splits if_splits)

lemma complete_joins_awake:
  "fst (complete_joins i ts ks aw g) = Inr ws \<Longrightarrow> aw \<subseteq> fst ` set (cg_invocations g) \<Longrightarrow> ws \<subseteq> fst ` set (cg_invocations g)"
proof (induction ks arbitrary: aw g)
  case (Cons k ks)
  show ?case
  proof (cases "fst (complete_join i ts k g)")
    case (Inl e)
    with Cons.prems(1) show ?thesis by (cases "complete_join i ts k g") simp
  next
    case (Inr us)
    let ?h = "snd (complete_join i ts k g)"
    have keys: "fst ` set (cg_invocations ?h) = fst ` set (cg_invocations g)"
      using arg_cong [OF complete_join_keys [of i ts k g], of set] by simp
    have "fst (complete_joins i ts ks (aw \<union> us) ?h) = Inr ws"
      using Cons.prems(1) Inr by (cases "complete_join i ts k g") simp
    then show ?thesis using Cons.IH [of "aw \<union> us" ?h] complete_join_awake [OF Inr] Cons.prems(2) unfolding keys by blast
  qed
qed simp

text \<open>Whatever is reported as awakened is an invocation of the table, so its context can be looked up.\<close>

lemma finish_awake:
  assumes shape: "shape_ok (graph_shape g)" and aw: "fst (finish_invocation s ts i r g) = Inr aw"
  shows "aw \<subseteq> fst ` set (cg_invocations g)"
proof -
  let ?g = "mod_inv {i} (set_state s ts) g"
  have shape': "shape_ok (graph_shape ?g)" using shape by (simp add: shape_mod_inv)
  have ids: "iv_invocation_id p = t" if "map_of (cg_invocations ?g) t = Some p" for t p
    using shape_okD(1) [OF shape', of t "invocation_shape p"] that by (simp add: inv_ok_def)
  have keys: "fst ` set (cg_invocations (mod_inv ks f h)) = fst ` set (cg_invocations h)" for ks f h
    by (simp add: mod_inv_def)
  let ?target = "case str_or (iv_return_target_id (set_state s ts r)) (iv_parent_invocation_id (set_state s ts r)) of
    None \<Rightarrow> None | Some t \<Rightarrow> map_option (\<lambda>p. (t, p)) (map_of (cg_invocations ?g) t)"
  show ?thesis
  proof (cases ?target)
    case None
    then have "fst (complete_joins (iv_invocation_id (set_state s ts r)) ts (map fst (cg_joins ?g)) {} ?g) = Inr aw"
      using aw by (simp add: finish_invocation_def complete_dependencies_def)
    then show ?thesis using complete_joins_awake by (fastforce simp: keys)
  next
    case (Some x)
    then obtain t p where x: "x = (t, p)" "map_of (cg_invocations ?g) t = Some p" by (auto split: option.splits)
    let ?i = "iv_invocation_id (set_state s ts r)" and ?h = "mod_inv {t} (complete_child (iv_invocation_id (set_state s ts r)) ts) ?g"
    let ?aw = "if iv_state p = WAIT_CHILD \<and> iv_blocking_child_ids p - {?i} = {} then {iv_invocation_id p} else {}"
    have fin: "finish_invocation s ts i r g = complete_joins ?i ts (map fst (cg_joins ?h)) ?aw ?h"
      unfolding finish_invocation_def complete_dependencies_def Let_def Some x(1) by simp
    have "?aw \<subseteq> fst ` set (cg_invocations ?h)" using dict_key [OF x(2)] ids [OF x(2)] by (simp add: keys)
    from complete_joins_awake [OF aw [unfolded fin] this] show ?thesis by (simp add: keys)
  qed
qed

lemma nk_contexts_of: "ids \<subseteq> fst ` set (cg_invocations g) \<Longrightarrow> no_key_error (contexts_of ids g)"
  by (simp add: contexts_of_def)

lemma nk_finish_contexts:
  assumes "shape_ok (graph_shape g)" and "fst (finish_invocation s ts i r g) = Inr aw"
  shows "no_key_error (contexts_of aw (snd (finish_invocation s ts i r g)))"
proof (rule nk_contexts_of)
  have "fst ` set (cg_invocations (snd (finish_invocation s ts i r g))) = fst ` set (cg_invocations g)"
    using arg_cong [OF finish_invocation_keys [of s ts i r g], of set] by simp
  with finish_awake [OF assms] show "aw \<subseteq> fst ` set (cg_invocations (snd (finish_invocation s ts i r g)))" by simp
qed

lemma nk_wake_contexts:
  assumes "fst (wake_join_waiters j ts g) = Inr aw"
  shows "no_key_error (contexts_of aw (snd (wake_join_waiters j ts g)))"
proof (rule nk_contexts_of)
  have "fst ` set (cg_invocations (snd (wake_join_waiters j ts g))) = fst ` set (cg_invocations g)"
    by (simp add: wake_join_waiters_def Let_def mod_inv_def)
  with assms show "aw \<subseteq> fst ` set (cg_invocations (snd (wake_join_waiters j ts g)))"
    by (auto simp: wake_join_waiters_def Let_def split: if_splits)
qed

lemma steps_shape: "steps d g h \<Longrightarrow> shape_ok (graph_shape g) \<Longrightarrow> shape_ok (graph_shape h)"
  by (induction rule: rtranclp_induct) (auto intro: graph_step_shape_ok)

lemmas nk_rules = nk_checked nk_after nk_if

lemma nk_workflow_end:
  assumes "shape_ok (graph_shape g)"
  shows "no_key_error (fst (on_workflow_end ev g))"
  unfolding on_workflow_end_def Let_def
proof (intro nk_rules, goal_cases)
  case (3 W)
  then have "wf_invocation_ids W \<subseteq> fst ` set (cg_invocations g)"
    using shape_okD(4) [OF assms, of "ev_workflow_id ev" "workflow_shape W"]
    by (auto simp: member_of_def get_workflow_Inr dest!: dict_key)
  with 3 show ?case by simp
qed simp_all

lemma nk_create_context: "no_key_error (fst (create_context ev c pc g))"
  by (auto simp: create_context_def Let_def nk_checked split: option.split)

lemma nk_invocation_create: "no_key_error (fst (on_invocation_create ev g))"
  unfolding on_invocation_create_def Let_def
  by (intro nk_rules) (auto simp: nk_create_context split: option.split intro: nk_rbind)

lemma nk_wake: 
  assumes "shape_ok (graph_shape g)" and "map_of (cg_joins g) k = Some j"
  shows "no_key_error (fst (wake_join_waiters j ts (mod_join k f g)))"
    and "no_key_error (fst (wake_join_waiters j ts g))"
  using waiters_known [OF assms] by (simp_all add: wake_join_waiters_def Let_def)

lemma nk_handlers:
  assumes shape: "shape_ok (graph_shape g)"
  shows "no_key_error (fst (on_invocation_cancel ev g))" "no_key_error (fst (on_return ev g))"
    "no_key_error (fst (on_context_advance ev g))" "no_key_error (fst (on_context_compact ev g))"
    "no_key_error (fst (on_structured_action ev g))" "no_key_error (fst (on_call_censored ev g))"
    "no_key_error (fst (link_child ev m g))" "no_key_error (fst (on_reactivate ev g))"
    "no_key_error (fst (deliver_message ev ho g))" "no_key_error (fst (on_join_create rt ev g))"
    "no_key_error (fst (on_join_wait ev g))" "no_key_error (fst (on_join_satisfied ev g))"
    "no_key_error (fst (on_join_timeout ev g))" "no_key_error (fst (on_tool_start rt ev g))"
    "no_key_error (fst (on_tool_end ev g))"
proof -
  have item: "no_key_error (dict_item (cg_contexts g) (iv_context_id r) w)" if "event_invocation ev g = Inr r" for r w
    by (rule context_known [OF shape, of "ev_inv_key ev" r])
      (use that in \<open>simp_all add: event_invocation_Inr dict_item_def\<close>)
  have touch: "no_key_error (fst (touch_context (iv_context_id r) ev g))" if "event_invocation ev g = Inr r" for r
    using that by (auto simp: event_invocation_Inr intro: nk_touch [OF shape])
  show "no_key_error (fst (on_invocation_cancel ev g))" "no_key_error (fst (on_return ev g))"
    unfolding on_invocation_cancel_def on_return_def by (intro nk_rules; simp add: nk_finish nk_finish_contexts shape)+
  show "no_key_error (fst (on_context_advance ev g))"
    unfolding on_context_advance_def by (intro nk_rules) (simp_all add: touch)
  show "no_key_error (fst (on_context_compact ev g))"
    unfolding on_context_compact_def
    by (intro nk_rules) (simp_all add: touch item py_opt_def nk_rbind)
  show "no_key_error (fst (on_structured_action ev g))" "no_key_error (fst (on_call_censored ev g))"
    unfolding on_structured_action_def on_call_censored_def by (intro nk_rules; simp add: item)+
  show "no_key_error (fst (link_child ev m g))"
    unfolding link_child_def Let_def by (intro nk_rules) (simp_all add: is_ancestor_def nk_ancestor_walk)
  show "no_key_error (fst (on_reactivate ev g))" "no_key_error (fst (on_tool_start rt ev g))"
    "no_key_error (fst (on_tool_end ev g))" "no_key_error (fst (on_join_wait ev g))"
    unfolding on_reactivate_def on_tool_start_def on_tool_end_def on_join_wait_def Let_def
    by (intro nk_rules; simp)+
  show "no_key_error (fst (deliver_message ev ho g))"
    unfolding deliver_message_def Let_def by (intro nk_rules) simp_all
  show "no_key_error (fst (on_join_create rt ev g))"
    unfolding on_join_create_def Let_def by (intro nk_rules) (simp_all add: nk_rmap event_join_mode_def)
  show "no_key_error (fst (on_join_satisfied ev g))" "no_key_error (fst (on_join_timeout ev g))"
    unfolding on_join_satisfied_def on_join_timeout_def
    unfolding woken_delta_def
    by (intro nk_rules; auto simp: get_join_Inr intro: nk_wake [OF shape] nk_wake_contexts)+
qed

lemma nk_llm:
  assumes shape: "shape_ok (graph_shape g)"
  shows "no_key_error (fst (on_llm_submit ev g))" "no_key_error (fst (on_llm_result ev g))"
proof -
  have touch: "no_key_error (fst (touch_context (iv_context_id r) ev g))" if "event_invocation ev g = Inr r" for r
    using that by (auto simp: event_invocation_Inr intro: nk_touch [OF shape])
  have shape': "shape_ok (graph_shape (snd (touch_context c ev g)))" for c
    using steps_shape [OF touch_context_graph(2) shape] .
  show "no_key_error (fst (on_llm_submit ev g))"
    unfolding on_llm_submit_def Let_def by (intro nk_rules) (simp_all add: touch)
  show "no_key_error (fst (on_llm_result ev g))"
    unfolding on_llm_result_def by (intro nk_rules) (simp_all add: touch nk_finish shape')
qed

text \<open>
  C29. In a reachable graph no event can make a handler fail on a missing dictionary key: the
  lookups \<open>self.invocations[...]\<close> and \<open>self.contexts[...]\<close> that the code leaves unguarded, those
  of the waiters of a join and of the invocations just awakened included, always succeed, so an exception is always one of the validation errors. In particular the ancestor
  walk never meets the cycle it guards against.
\<close>

theorem apply_event_no_key_error:
  assumes "reachable d rt g"
  shows "fst (apply_event rt ev g) \<noteq> Inl (KeyError k) \<and> (\<exists>b. is_ancestor a i g = Inr b)"
proof (rule conjI)
  have shape: "shape_ok (graph_shape g)" using reachable_ok [OF assms] by (simp add: graph_ok_def)
  have "no_key_error (fst (handler rt (ev_kind ev) ev g))"
    by (cases "ev_kind ev")
      (simp_all add: nk_workflow_end nk_invocation_create nk_handlers nk_llm shape on_workflow_start_def
        on_call_def on_spawn_def on_message_def on_handoff_def)
  then have "no_key_error (fst (apply_event rt ev g))"
    unfolding apply_event_def Let_def by (intro nk_rules) simp_all
  then show "fst (apply_event rt ev g) \<noteq> Inl (KeyError k)" by (simp add: no_key_error_def)
  show "\<exists>b. is_ancestor a i g = Inr b"
    unfolding is_ancestor_def by (rule ancestor_walk_total [OF shape]) auto
qed

section \<open>Descendants\<close>

definition child_rel :: "causal_graph \<Rightarrow> (string \<times> string) set" where
  "child_rel g = {(p, c). \<exists>r. map_of (cg_invocations g) p = Some r \<and> c \<in> iv_child_invocation_ids r}"

text \<open>What is reachable from the stack without what has been seen, where the children of
  everything seen are seen or on the stack.\<close>

definition frontier :: "causal_graph \<Rightarrow> string set \<Rightarrow> string set \<Rightarrow> string set" where
  "frontier g seen stack = (child_rel g)\<^sup>* `` stack - seen"

lemma frontier_skip:
  assumes closed: "child_rel g `` seen \<subseteq> seen \<union> stack" and c: "c \<in> seen"
  shows "frontier g seen (insert c stack) = frontier g seen stack"
proof -
  have "y \<in> seen \<or> y \<in> (child_rel g)\<^sup>* `` stack" if "(c, y) \<in> (child_rel g)\<^sup>*" for y
    using that
  proof (induction rule: rtrancl_induct)
    case (step y z)
    then show ?case using closed by (blast intro: rtrancl.rtrancl_into_rtrancl)
  qed (use c in simp)
  then show ?thesis by (auto simp: frontier_def)
qed

lemma frontier_visit:
  assumes "c \<notin> seen"
  shows "frontier g seen (insert c stack) =
    insert c (frontier g (insert c seen) (child_rel g `` {c} \<union> stack))"
proof -
  have "(child_rel g)\<^sup>* `` {c} = insert c ((child_rel g)\<^sup>* `` (child_rel g `` {c}))"
    by (auto elim: converse_rtranclE intro: converse_rtrancl_into_rtrancl)
  with assms show ?thesis by (auto simp: frontier_def)
qed

lemma descendants_walk_exact:
  assumes shape: "shape_ok (graph_shape g)"
  shows "set stack \<subseteq> fst ` set (cg_invocations g) \<Longrightarrow> child_rel g `` seen \<subseteq> seen \<union> set stack \<Longrightarrow>
    \<exists>ds. descendants_walk g seen stack = Inr ds \<and> distinct (map iv_invocation_id ds) \<and>
      iv_invocation_id ` set ds = {c \<in> frontier g seen (set stack). live_in g c}"
  using shape
proof (induction g seen stack rule: descendants_walk.induct)
  case (1 g seen)
  then show ?case by (simp add: descendants_walk.simps frontier_def)
next
  case (2 g seen c stack)
  show ?case
  proof (cases "c \<in> seen")
    case True
    have "child_rel g `` seen \<subseteq> seen \<union> set stack" using "2.prems"(2) True by auto
    then show ?thesis
      using "2.IH"(1) [OF True _ _ "2.prems"(3)] "2.prems"(1) frontier_skip [of g seen "set stack" c] True
      by (simp add: descendants_walk.simps(2) [of g seen c stack])
  next
    case False
    obtain r where r: "map_of (cg_invocations g) c = Some r"
      using "2.prems"(1) by (auto simp: dict_in_iff [symmetric] dict_in_def)
    have R: "inv_ok (graph_shape g) c (invocation_shape r)"
      using shape_okD(1) [OF "2.prems"(3)] r by simp
    let ?new = "rev (sorted_list_of_set (iv_child_invocation_ids r)) @ stack"
    have kids: "set (rev (sorted_list_of_set (iv_child_invocation_ids r))) = child_rel g `` {c}"
      using R r by (auto simp: inv_ok_def child_rel_def)
    have "child_rel g `` {c} \<subseteq> fst ` set (cg_invocations g)"
      using R r by (auto simp: inv_ok_def child_rel_def parent_rel_def dest!: dict_key)
    then have sub: "set ?new \<subseteq> fst ` set (cg_invocations g)" using "2.prems"(1) kids by simp
    have clo: "child_rel g `` insert c seen \<subseteq> insert c seen \<union> set ?new"
      using "2.prems"(2) kids by auto
    from "2.IH"(2) [OF False r sub clo "2.prems"(3)] obtain ds where
      ds: "descendants_walk g (insert c seen) ?new = Inr ds" "distinct (map iv_invocation_id ds)"
      and set_ds: "iv_invocation_id ` set ds = {x \<in> frontier g (insert c seen) (set ?new). live_in g x}"
      by blast
    have split: "frontier g seen (set (c # stack)) = insert c (frontier g (insert c seen) (set ?new))"
      using frontier_visit [OF False, of g "set stack"] kids by simp
    define res where "res = (if state_terminal (iv_state r) then ds else r # ds)"
    have "descendants_walk g seen (c # stack) = Inr res"
      using ds(1) r False by (simp add: descendants_walk.simps(2) [of g seen c stack] res_def)
    moreover have rc: "iv_invocation_id r = c" using R by (simp add: inv_ok_def)
    have "c \<notin> iv_invocation_id ` set ds" using set_ds by (simp add: frontier_def)
    then have "distinct (map iv_invocation_id res)" using ds(2) rc by (simp add: res_def)
    moreover have "iv_invocation_id ` set res = {x \<in> frontier g seen (set (c # stack)). live_in g x}"
      unfolding split using set_ds rc r by (auto simp: res_def live_in_def)
    ultimately show ?thesis by blast
  qed
qed

lemma active_descendants_shape:
  assumes shape: "shape_ok (graph_shape g)" and i: "map_of (cg_invocations g) i = Some r"
  shows "\<exists>ds. active_descendants i g = Inr ds \<and> distinct (map iv_invocation_id ds) \<and>
    iv_invocation_id ` set ds = {c. (i, c) \<in> (child_rel g)\<^sup>+ \<and> live_in g c}"
proof -
  have R: "inv_ok (graph_shape g) i (invocation_shape r)" using shape_okD(1) [OF shape] i by simp
  let ?stack = "rev (sorted_list_of_set (iv_child_invocation_ids r))"
  have kids: "set ?stack = child_rel g `` {i}" using R i by (auto simp: inv_ok_def child_rel_def)
  have "set ?stack \<subseteq> fst ` set (cg_invocations g)"
    using R kids i by (auto simp: inv_ok_def child_rel_def parent_rel_def dest!: dict_key)
  from descendants_walk_exact [OF shape this, of "{}"] obtain ds where
    "descendants_walk g {} ?stack = Inr ds" "distinct (map iv_invocation_id ds)"
    "iv_invocation_id ` set ds = {c \<in> frontier g {} (set ?stack). live_in g c}" by auto
  moreover have "frontier g {} (set ?stack) = (child_rel g)\<^sup>+ `` {i}"
    unfolding kids frontier_def by (auto simp: trancl_unfold_left)
  ultimately show ?thesis using i by (auto simp: active_descendants_def dict_item_def)
qed

text \<open>
  C26. \<open>active_descendants\<close> terminates and is exact: for an invocation of a reachable graph it
  returns, each once, the invocations that are not terminal among those connected to it by one or
  more child links, whatever order the children are visited in.
\<close>

theorem active_descendants_exact:
  assumes "reachable d rt g" and "map_of (cg_invocations g) i = Some r"
  shows "\<exists>ds. active_descendants i g = Inr ds \<and> distinct (map iv_invocation_id ds) \<and>
    iv_invocation_id ` set ds = {c. (i, c) \<in> (child_rel g)\<^sup>+ \<and> live_in g c}"
  using assms(2) reachable_ok [OF assms(1)] by (intro active_descendants_shape) (simp_all add: graph_ok_def)

end
