(* ===== verification/Causal_Graph_Cases.thy ===== *)
theory Causal_Graph_Cases
  imports Causal_Graph_Run
begin

text \<open>
  Concrete runs of the causal graph: a workflow in which a parent waits for a called child and a
  second invocation waits for a join on that child, evaluated by the simplifier, and two event
  sequences that lead where the protocol does not intend.
\<close>

section \<open>A run\<close>

definition create_ev :: "string \<Rightarrow> string \<Rightarrow> runtime_event" where
  "create_ev ident i = (demo_event ident INVOCATION_CREATE)
     \<lparr>ev_invocation_id := Some i, ev_context_id := Some (''ctx-'' @ i), ev_context_epoch := Some 1\<rparr>"

definition demo_events :: "runtime_event list" where
  "demo_events =
     [demo_event ''e1'' WORKFLOW_START,
      create_ev ''e2'' ''p'', create_ev ''e3'' ''c'', create_ev ''e4'' ''q'',
      (demo_event ''e5'' CALL)\<lparr>ev_invocation_id := Some ''p'', ev_target_invocation_id := Some ''c''\<rparr>,
      (demo_event ''e6'' JOIN_CREATE)\<lparr>ev_join_id := Some ''j'', ev_member_invocation_ids := [''c'']\<rparr>,
      (demo_event ''e7'' JOIN_WAIT)\<lparr>ev_invocation_id := Some ''q'', ev_join_id := Some ''j''\<rparr>]"

definition demo_graph :: causal_graph where
  "demo_graph = snd (apply_all demo_runtime demo_events (graph_init True))"

lemmas graph_eval = apply_event_def after_def checked_def Let_def on_workflow_start_def on_workflow_end_def
  on_invocation_create_def on_invocation_cancel_def on_call_def on_spawn_def link_child_def on_return_def
  on_join_create_def on_join_wait_def on_join_satisfied_def on_join_timeout_def get_workflow_def
  get_invocation_def event_invocation_def get_join_def require_id_def py_blank_def py_isspace_def
  create_context_def new_invocation_def mod_inv_def mod_ctx_def mod_join_def mod_workflow_def dmap_on_def
  link_update_def is_ancestor_def ancestor_walk.simps state_terminal_def finish_invocation_def
  complete_dependencies_def complete_join_def wake_join_waiters_def woken_delta_def event_join_mode_def
  py_enum_def join_is_satisfied_def set_state_def complete_child_def wake_waiter_def ev_inv_key_def
  str_or_def str_default_def enum_or_def attr_bool_def dict_in_def dict_get_def empty_delta_def
  changed_context_def graph_init_def demo_event_def demo_runtime_def terminal_in_def in_state_def
  live_in_def context_of_def contexts_of_def create_ev_def


fun disciplined_run :: "py_runtime \<Rightarrow> runtime_event list \<Rightarrow> causal_graph \<Rightarrow> bool" where
  "disciplined_run rt [] g = True"
| "disciplined_run rt (ev # evs) g =
     (disciplined ev g \<and> disciplined_run rt evs (snd (apply_event rt ev g)))"

lemma disciplined_run_steps:
  "disciplined_run rt evs g \<Longrightarrow> (event_step True rt)\<^sup>*\<^sup>* g (snd (apply_all rt evs g))"
proof (induction evs arbitrary: g)
  case (Cons ev evs)
  have one: "(event_step True rt)\<^sup>*\<^sup>* g (snd (apply_event rt ev g))"
    using event_step.applied [of True ev g rt] Cons.prems by auto
  with rtranclp_trans [OF one Cons.IH] Cons.prems show ?case
    by (auto simp: after_def split: prod.splits sum.splits)
qed simp

lemma demo_graph_reachable: "reachable True demo_runtime demo_graph"
proof -
  have "disciplined_run demo_runtime demo_events (graph_init True)"
    unfolding demo_events_def by (simp add: graph_eval disciplined_def ended_def)
  then show ?thesis unfolding demo_graph_def by (blast intro: disciplined_run_steps)
qed

lemma demo_lookups:
  "\<exists>r. map_of (cg_invocations demo_graph) ''p'' = Some r \<and> iv_state r = WAIT_CHILD \<and>
     iv_blocking_child_ids r = {''c''} \<and> iv_child_invocation_ids r = {''c''}"
  "\<exists>r. map_of (cg_invocations demo_graph) ''q'' = Some r \<and> iv_state r = WAIT_JOIN \<and> iv_join_id r = Some ''j''"
  "\<exists>r. map_of (cg_invocations demo_graph) ''c'' = Some r \<and> iv_state r = READY \<and>
     iv_parent_invocation_id r = Some ''p'' \<and> iv_child_invocation_ids r = {}"
  "\<exists>j. map_of (cg_joins demo_graph) ''j'' = Some j \<and> jn_member_invocation_ids j = {''c''} \<and>
     jn_workflow_id j = ''w'' \<and> jn_mode j = JOIN_ALL \<and> jn_waiter_invocation_ids j = {''q''}"
  "\<exists>c. map_of (cg_contexts demo_graph) ''ctx-c'' = Some c \<and> cx_epoch c = 1"
  "cg_graph_version demo_graph = 7" "''e1'' \<in> cg_processed_event_ids demo_graph"
  "''e8'' \<notin> cg_processed_event_ids demo_graph"
  "timestamp_watermark ''w'' demo_graph = Some 5" "cg_strict_timestamps demo_graph"
  unfolding demo_graph_def demo_events_def by (simp_all add: graph_eval timestamp_watermark_def)

definition return_ev :: runtime_event where
  "return_ev = (demo_event ''e8'' RETURN)\<lparr>ev_invocation_id := Some ''c''\<rparr>"

definition advance_ev :: runtime_event where
  "advance_ev = (demo_event ''e8'' CONTEXT_ADVANCE)
     \<lparr>ev_invocation_id := Some ''c'', ev_context_epoch := Some 3\<rparr>"

text \<open>The child's return wakes both who wait for it.\<close>

lemma demo_return:
  "let (res, g) = apply_event demo_runtime return_ev demo_graph in
     (\<exists>delta. res = Inr delta \<and> gd_awakened_invocations delta = {''p'', ''q''} \<and>
              gd_completed_invocations delta = {''c''}) \<and>
     in_state READY g ''p'' \<and> in_state READY g ''q'' \<and> in_state DONE g ''c''"
  unfolding demo_graph_def demo_events_def return_ev_def
  by (simp add: graph_eval)

section \<open>Witnesses\<close>

lemma causal_graph_consistent_witness:
  "acyclic {(i, p). \<exists>r. map_of (cg_invocations demo_graph) i = Some r \<and> iv_parent_invocation_id r = Some p} \<and>
   (\<exists>q. map_of (cg_invocations demo_graph) ''p'' = Some q) \<and>
   (\<exists>q. map_of (cg_invocations demo_graph) ''c'' = Some q \<and> iv_workflow_id q = ''w'')"
proof -
  obtain c where c: "map_of (cg_invocations demo_graph) ''c'' = Some c" "iv_parent_invocation_id c = Some ''p''"
    using demo_lookups(3) by blast
  obtain j where j: "map_of (cg_joins demo_graph) ''j'' = Some j" "jn_member_invocation_ids j = {''c''}"
    "jn_workflow_id j = ''w''" using demo_lookups(4) by blast
  show ?thesis
    using causal_graph_consistent [OF demo_graph_reachable, THEN conjunct1]
      causal_graph_consistent [OF demo_graph_reachable, THEN conjunct2, THEN conjunct1, rule_format, OF c(1)]
      causal_graph_consistent [OF demo_graph_reachable, THEN conjunct2, THEN conjunct2, rule_format, OF j(1)]
      c j by auto
qed

lemma waiting_is_registered_witness:
  "(\<exists>r. map_of (cg_invocations demo_graph) ''p'' = Some r \<and> iv_blocking_child_ids r \<noteq> {}) \<and>
   (\<exists>j. map_of (cg_joins demo_graph) ''j'' = Some j \<and> ''q'' \<in> jn_waiter_invocation_ids j \<and> \<not> jn_satisfied j)"
proof -
  obtain p where p: "map_of (cg_invocations demo_graph) ''p'' = Some p" "iv_state p = WAIT_CHILD"
    using demo_lookups(1) by blast
  obtain q where q: "map_of (cg_invocations demo_graph) ''q'' = Some q" "iv_state q = WAIT_JOIN"
    "iv_join_id q = Some ''j''" using demo_lookups(2) by blast
  show ?thesis
    using waiting_is_registered [OF demo_graph_reachable p(1)] waiting_is_registered [OF demo_graph_reachable q(1)]
      p q by auto
qed

lemma waits_for_the_living_witness:
  "live_in demo_graph ''c'' \<and> (\<exists>j m. map_of (cg_joins demo_graph) ''j'' = Some j \<and>
     m \<in> jn_member_invocation_ids j \<and> m \<notin> jn_completed_member_ids j \<and> live_in demo_graph m)"
proof -
  obtain p where p: "map_of (cg_invocations demo_graph) ''p'' = Some p" "iv_state p = WAIT_CHILD"
    "iv_blocking_child_ids p = {''c''}" using demo_lookups(1) by blast
  obtain q where q: "map_of (cg_invocations demo_graph) ''q'' = Some q" "iv_state q = WAIT_JOIN"
    "iv_join_id q = Some ''j''" using demo_lookups(2) by blast
  obtain c r where "c \<in> iv_blocking_child_ids p" "map_of (cg_invocations demo_graph) c = Some r"
    "\<not> state_terminal (iv_state r)"
    using waits_for_the_living [OF demo_graph_reachable p(1)] p(2) by blast
  then have "live_in demo_graph ''c''" using p(3) by (simp add: live_in_def)
  moreover obtain k j m where "iv_join_id q = Some k" "map_of (cg_joins demo_graph) k = Some j"
    "m \<in> jn_member_invocation_ids j" "m \<notin> jn_completed_member_ids j" "live_in demo_graph m"
    using waits_for_the_living [OF demo_graph_reachable q(1)] q(2) by blast
  ultimately show ?thesis using q(3) by auto
qed

lemma demo_graph_ok: "shape_ok (graph_shape demo_graph)"
  using reachable_ok [OF demo_graph_reachable] by (simp add: graph_ok_def)

lemma apply_event_ledger_witness:
  "snd (apply_event demo_runtime (demo_event ''e1'' WORKFLOW_START) demo_graph) = demo_graph \<and>
   snd (apply_event demo_runtime (return_ev\<lparr>ev_ts_ms := 4\<rparr>) demo_graph) = demo_graph \<and>
   cg_graph_version (snd (apply_event demo_runtime return_ev demo_graph)) = 8"
proof -
  obtain res h where one: "apply_event demo_runtime (demo_event ''e1'' WORKFLOW_START) demo_graph = (res, h)"
    by fastforce
  obtain res2 h2 where two: "apply_event demo_runtime (return_ev\<lparr>ev_ts_ms := 4\<rparr>) demo_graph = (res2, h2)"
    by fastforce
  obtain delta h3 where three: "apply_event demo_runtime return_ev demo_graph = (Inr delta, h3)"
    using demo_return by (auto split: prod.splits)
  have "h = demo_graph"
    using apply_event_ledger [OF demo_graph_ok one] demo_lookups(7) by (simp add: demo_event_def)
  moreover have "h2 = demo_graph"
    using apply_event_ledger [OF demo_graph_ok two] demo_lookups(8,9,10)
    by (simp add: return_ev_def demo_event_def)
  moreover have "cg_graph_version h3 = 8"
    using apply_event_ledger [OF demo_graph_ok three] demo_lookups(6,8)
    by (simp add: return_ev_def demo_event_def)
  ultimately show ?thesis by (simp add: one two three)
qed

lemma apply_batch_atomic_witness:
  "snd (apply_batch demo_runtime [return_ev, create_ev ''e9'' ''p''] True demo_graph) = demo_graph \<and>
   (\<exists>ds. apply_batch demo_runtime [return_ev] False demo_graph = (Inr ds,
      snd (apply_event demo_runtime return_ev demo_graph)))"
proof -
  obtain e h where bad: "apply_batch demo_runtime [return_ev, create_ev ''e9'' ''p''] True demo_graph = (Inl e, h)"
    unfolding demo_graph_def demo_events_def return_ev_def apply_batch_def by (simp add: graph_eval)
  obtain delta h3 where good: "apply_event demo_runtime return_ev demo_graph = (Inr delta, h3)"
    using demo_return by (auto split: prod.splits)
  then have batch: "apply_batch demo_runtime [return_ev] True demo_graph = (Inr [delta], h3)"
    by (simp add: apply_batch_def)
  show ?thesis
    using apply_batch_atomic [OF demo_graph_reachable, of "[return_ev, create_ev ''e9'' ''p'']"]
      apply_batch_atomic [OF demo_graph_reachable, of "[return_ev]"] bad good batch
    by simp
qed

lemma context_epoch_monotone_witness:
  "\<exists>y. map_of (cg_contexts (snd (apply_event demo_runtime advance_ev demo_graph))) ''ctx-c'' = Some y \<and> 1 \<le> cx_epoch y"
proof -
  obtain c where c: "map_of (cg_contexts demo_graph) ''ctx-c'' = Some c" "cx_epoch c = 1"
    using demo_lookups(5) by blast
  have "(event_step True demo_runtime)\<^sup>*\<^sup>* demo_graph (snd (apply_event demo_runtime advance_ev demo_graph))"
    using event_step.applied [of True advance_ev demo_graph demo_runtime]
    by (auto simp: disciplined_def advance_ev_def demo_event_def)
  with context_epoch_monotone [OF demo_graph_reachable _ c(1)] c(2) show ?thesis by auto
qed

lemma apply_event_no_key_error_witness:
  "fst (apply_event demo_runtime return_ev demo_graph) \<noteq> Inl (KeyError ''waiter'')"
  using apply_event_no_key_error [OF demo_graph_reachable] by blast

lemma active_descendants_exact_witness:
  "\<exists>ds. active_descendants ''p'' demo_graph = Inr ds \<and> ''c'' \<in> iv_invocation_id ` set ds"
proof -
  obtain p where p: "map_of (cg_invocations demo_graph) ''p'' = Some p" "iv_child_invocation_ids p = {''c''}"
    using demo_lookups(1) by blast
  have "live_in demo_graph ''c''" using demo_lookups(3) by (auto simp: live_in_def state_terminal_def)
  moreover have "(''p'', ''c'') \<in> (child_rel demo_graph)\<^sup>+" using p by (auto simp: child_rel_def)
  ultimately show ?thesis using active_descendants_exact [OF demo_graph_reachable p(1)] by auto
qed

section \<open>Where the code does not do what it means to\<close>

lemma terminal_kept_mod_inv:
  "terminal_in g i \<Longrightarrow>
   (\<And>x. state_terminal (iv_state x) \<Longrightarrow> i \<in> ks \<Longrightarrow> map_of (cg_invocations g) i = Some x \<Longrightarrow> state_terminal (iv_state (f x))) \<Longrightarrow>
   terminal_in (mod_inv ks f g) i"
  by (auto simp: terminal_in_def map_of_dmap_on split: option.splits)

lemma terminal_kept_simps [simp]:
  "terminal_in (mod_join k f g) i = terminal_in g i" "terminal_in (mod_ctx k f' g) i = terminal_in g i"
  "terminal_in (mod_workflow k f'' g) i = terminal_in g i"
  by (simp_all add: terminal_in_def)

lemma terminal_kept_wake: "terminal_in g i \<Longrightarrow> terminal_in (mod_inv ks (wake_waiter ts) g) i"
  by (rule terminal_kept_mod_inv) (auto simp: wake_waiter_def state_terminal_def)

lemma terminal_kept_join: "terminal_in g i \<Longrightarrow> terminal_in (snd (complete_join j ts k g)) i"
  by (cases rule: complete_join_cases [of j ts k g]) (auto intro: terminal_kept_wake)

lemma terminal_kept_finish:
  assumes "terminal_in g i" and "map_of (cg_invocations g) j = Some r" and "\<not> state_terminal (iv_state r)" and "state_terminal s"
  shows "terminal_in (snd (finish_invocation s ts j r g)) i"
proof (rule finish_invocation_graph [of s ts j r g])
  fix g1 aw
  assume eq: "finish_invocation s ts j r g = complete_joins (iv_invocation_id r) ts (map fst (cg_joins g)) aw g1"
    and g1: "g1 = (case str_or (iv_return_target_id r) (iv_parent_invocation_id r) of
           None \<Rightarrow> mod_inv {j} (set_state s ts) g
         | Some t \<Rightarrow> mod_inv {t} (complete_child (iv_invocation_id r) ts) (mod_inv {j} (set_state s ts) g))"
  have g0: "terminal_in (mod_inv {j} (set_state s ts) g) i"
    using assms(1) by (rule terminal_kept_mod_inv) (simp add: set_state_def assms(4))
  have "terminal_in (mod_inv {t} (complete_child k ts) (mod_inv {j} (set_state s ts) g)) i" for t k
    using g0 by (rule terminal_kept_mod_inv) (auto simp: complete_child_def Let_def state_terminal_def)
  with g0 have "terminal_in g1 i" by (simp add: g1 split: option.split)
  then have "terminal_in (snd (complete_joins (iv_invocation_id r) ts (map fst (cg_joins g)) aw g1)) i"
    by (rule complete_joins_induct [where P = "\<lambda>h. terminal_in h i"]) (rule terminal_kept_join)
  then show ?thesis by (simp add: eq)
qed

text \<open>No elementary change under the discipline revives a terminal invocation.\<close>

lemma graph_step_terminal: "graph_step True g h \<Longrightarrow> terminal_in g i \<Longrightarrow> terminal_in h i"
proof (induction rule: graph_step.induct)
  case (invocation_new g j r persistent)
  then show ?case by (auto simp: add_invocation_def terminal_in_def new_invocation_ok_def map_of_update split: option.splits)
next
  case (invocation_change g j f)
  then show ?case by (auto simp: calm_change_def intro!: terminal_kept_mod_inv)
next
  case (invocation_finish g j r s ts)
  then show ?case by (blast intro: terminal_kept_finish)
next
  case (invocation_link g p P c C ret mode relation ts)
  then show ?case by (auto simp: link_update_def Let_def terminal_in_def map_of_dmap_on split: option.splits if_splits)
next
  case (join_waits g j r k jn ts)
  then show ?case by (auto simp: wait_update_def terminal_in_def map_of_dmap_on split: option.splits if_splits)
qed (auto simp: terminal_in_def cancel_live_def map_of_dmap_on bump_edge_def Let_def wake_waiter_def state_terminal_def
    split: option.splits if_splits)

lemma steps_terminal: "steps True g h \<Longrightarrow> terminal_in g i \<Longrightarrow> terminal_in h i"
  by (induction rule: rtranclp_induct) (auto intro: graph_step_terminal)

lemma keeps_checked:
  "terminal_in g i \<Longrightarrow> (\<And>x. r = Inr x \<Longrightarrow> terminal_in (snd (k x)) i) \<Longrightarrow> terminal_in (snd (checked g r k)) i"
  by (cases r) auto

lemma keeps_after:
  "terminal_in (snd m) i \<Longrightarrow> (\<And>x. terminal_in (snd m) i \<Longrightarrow> fst m = Inr x \<Longrightarrow> terminal_in (snd (k x (snd m))) i) \<Longrightarrow>
   terminal_in (snd (after m k)) i"
  by (cases m; cases "fst m") auto

lemma keeps_if:
  "(b \<Longrightarrow> terminal_in (snd x) i) \<Longrightarrow> (\<not> b \<Longrightarrow> terminal_in (snd y) i) \<Longrightarrow> terminal_in (snd (if b then x else y)) i"
  by simp

lemmas keeps_rules = keeps_checked keeps_after keeps_if

lemma create_keeps_terminal:
  assumes "terminal_in g i"
  shows "terminal_in (snd (on_invocation_create ev g)) i"
proof -
  have same: "terminal_in (snd (create_context ev c pc g)) j = terminal_in g j" for c pc j
    by (simp add: terminal_in_def create_context_graph(1))
  show ?thesis
    unfolding on_invocation_create_def Let_def
    by (intro keeps_rules)
      (use assms in \<open>auto simp: same terminal_in_def map_of_update dict_in_def create_context_graph(1)
         split: option.splits\<close>)
qed

lemma link_update_keeps:
  assumes "terminal_in g i" and "map_of (cg_invocations g) p = Some P" and "\<not> state_terminal (iv_state P)"
    and "map_of (cg_invocations g) c = Some C" and "\<not> state_terminal (iv_state C)"
  shows "terminal_in (link_update p c P ret mode relation ts g) i"
proof -
  have "i \<noteq> p" "i \<noteq> c" using assms by (auto simp: terminal_in_def)
  then show ?thesis using assms(1) by (simp add: link_update_def Let_def terminal_in_def map_of_dmap_on)
qed

lemma link_keeps_terminal:
  assumes "terminal_in g i"
  shows "terminal_in (snd (link_child ev m g)) i"
  unfolding link_child_def Let_def
  by (intro keeps_rules) (use assms in \<open>auto simp: result_simps intro!: link_update_keeps\<close>)

lemma wait_keeps_terminal:
  assumes "terminal_in g i"
  shows "terminal_in (snd (on_join_wait ev g)) i \<longleftrightarrow>
    \<not> (ev_invocation_id ev = Some i \<and> (\<exists>d. fst (on_join_wait ev g) = Inr d))"
proof (cases "\<exists>d. fst (on_join_wait ev g) = Inr d")
  case True
  then obtain r k j where r: "event_invocation ev g = Inr r" and k: "require_id (ev_join_id ev) ''join_id'' = Inr k"
    and j: "get_join k (ev_workflow_id ev) g = Inr j"
    by (auto simp: on_join_wait_def checked_def split: sum.splits)
  have ev: "ev_invocation_id ev = Some (ev_inv_key ev)" using r by (simp add: event_invocation_Inr)
  have "\<not> state_terminal (if jn_satisfied j then READY else WAIT_JOIN)" by (simp add: state_terminal_def)
  then show ?thesis
    using assms True ev by (auto simp: on_join_wait_def r k j Let_def terminal_in_def map_of_dmap_on split: option.splits)
next
  case False
  then have "snd (on_join_wait ev g) = g" by (auto simp: on_join_wait_def checked_def Let_def split: sum.splits)
  with False assms show ?thesis by auto
qed

lemma handler_keeps_terminal:
  assumes "shape_ok (graph_shape g)" and "terminal_in g i" and "ev_kind ev \<noteq> JOIN_WAIT"
  shows "terminal_in (snd (handler rt (ev_kind ev) ev g)) i"
proof (cases "ev_kind ev \<in> {INVOCATION_CREATE, CALL, SPAWN}")
  case True
  with assms(2) show ?thesis by (auto simp: create_keeps_terminal on_call_def on_spawn_def link_keeps_terminal)
next
  case False
  with assms(3) have "disciplined ev g" by (auto simp: disciplined_def split: runtime_event_kind.splits)
  with steps_terminal [OF handler_steps [OF assms(1)] assms(2)] show ?thesis by blast
qed

lemma apply_event_terminal:
  assumes "shape_ok (graph_shape g)" and "terminal_in g i"
  shows "terminal_in (snd (apply_event rt ev g)) i \<longleftrightarrow>
    \<not> (ev_kind ev = JOIN_WAIT \<and> ev_invocation_id ev = Some i \<and> ev_event_id ev \<notin> cg_processed_event_ids g \<and>
       (\<exists>d. fst (apply_event rt ev g) = Inr d))"
proof (cases rule: apply_event_cases [of rt ev g])
  case skip
  with assms(2) show ?thesis by auto
next
  case (raises e)
  have "terminal_in (snd (handler rt (ev_kind ev) ev g)) i"
    by (cases "ev_kind ev = JOIN_WAIT")
      (use raises(1) wait_keeps_terminal [OF assms(2), of ev] handler_keeps_terminal [OF assms, of ev rt] in auto)
  with raises show ?thesis by simp
next
  case (applies delta h)
  have "terminal_in h i \<longleftrightarrow> \<not> (ev_kind ev = JOIN_WAIT \<and> ev_invocation_id ev = Some i)"
    by (cases "ev_kind ev = JOIN_WAIT")
      (use applies(1) wait_keeps_terminal [OF assms(2), of ev] handler_keeps_terminal [OF assms, of ev rt] in auto)
  with applies show ?thesis by (simp add: terminal_in_def)
qed

text \<open>The conditions under which the handler of \<open>JOIN_WAIT\<close> is reached and raises no error: the event is new
  and not older than its workflow's watermark, and the invocation and the join exist in its workflow.
  The state of the invocation is not among them.\<close>

definition admissible_wait :: "runtime_event \<Rightarrow> causal_graph \<Rightarrow> string \<Rightarrow> bool" where
  "admissible_wait ev g i \<longleftrightarrow>
     ev_kind ev = JOIN_WAIT \<and> ev_invocation_id ev = Some i \<and> \<not> py_blank i \<and>
     ev_event_id ev \<notin> cg_processed_event_ids g \<and>
     \<not> (cg_strict_timestamps g \<and> (\<exists>t. timestamp_watermark (ev_workflow_id ev) g = Some t \<and> ev_ts_ms ev < t)) \<and>
     (\<exists>r. map_of (cg_invocations g) i = Some r \<and> iv_workflow_id r = ev_workflow_id ev) \<and>
     (\<exists>k j. ev_join_id ev = Some k \<and> \<not> py_blank k \<and> map_of (cg_joins g) k = Some j \<and>
        jn_workflow_id j = ev_workflow_id ev)"

lemma join_wait_accepted:
  "(\<exists>d. fst (on_join_wait ev g) = Inr d) \<longleftrightarrow>
     (\<exists>r k j. event_invocation ev g = Inr r \<and> require_id (ev_join_id ev) ''join_id'' = Inr k \<and>
        get_join k (ev_workflow_id ev) g = Inr j)"
  by (auto simp: on_join_wait_def checked_def split: sum.splits)

lemma admissible_wait_iff:
  "admissible_wait ev g i \<longleftrightarrow>
     ev_kind ev = JOIN_WAIT \<and> ev_invocation_id ev = Some i \<and> ev_event_id ev \<notin> cg_processed_event_ids g \<and>
     (\<exists>d. fst (apply_event rt ev g) = Inr d)"
proof -
  have "(\<exists>d. fst (apply_event rt ev g) = Inr d) \<longleftrightarrow>
      \<not> (cg_strict_timestamps g \<and> (\<exists>t. timestamp_watermark (ev_workflow_id ev) g = Some t \<and> ev_ts_ms ev < t)) \<and>
      (\<exists>d. fst (on_join_wait ev g) = Inr d)"
    if "ev_kind ev = JOIN_WAIT" "ev_event_id ev \<notin> cg_processed_event_ids g"
    using that by (cases "on_join_wait ev g"; cases "fst (on_join_wait ev g)")
      (auto simp: apply_event_def timestamp_watermark_def Let_def split: option.split)
  moreover have "ev_inv_key ev = i" if "ev_invocation_id ev = Some i" "\<not> py_blank i"
    using that by (auto simp: ev_inv_key_def str_default_def py_blank_def)
  ultimately show ?thesis
    unfolding admissible_wait_def join_wait_accepted by (auto simp: result_simps)
qed

text \<open>
  C30. A terminal state is final, with one exception. In a reachable graph an invocation that is
  \<open>DONE\<close> or \<open>CANCELLED\<close> stays terminal under every event, accepted or not, unless the event is a
  \<open>JOIN_WAIT\<close> that names it, is new and in time and names a join of the same workflow; every such event
  revives it. The handler of that event checks the invocation and the join but not, as the other
  handlers do, that the invocation is still live, and sets it to \<open>WAIT_JOIN\<close> or \<open>READY\<close>.
\<close>

theorem join_wait_revives_terminal:
  assumes "reachable d rt g" and "terminal_in g i"
  shows "terminal_in (snd (apply_event rt ev g)) i \<longleftrightarrow> \<not> admissible_wait ev g i"
  using reachable_ok [OF assms(1)] apply_event_terminal [OF _ assms(2), of rt ev]
  by (simp add: graph_ok_def admissible_wait_iff [of ev g i rt])

definition revive_ev :: runtime_event where
  "revive_ev = (demo_event ''e9'' JOIN_WAIT)\<lparr>ev_invocation_id := Some ''c'', ev_join_id := Some ''j''\<rparr>"

lemma join_wait_revives_terminal_witness:
  "cg_strict_timestamps (snd (apply_event demo_runtime return_ev demo_graph)) \<and>
   terminal_in (snd (apply_event demo_runtime return_ev demo_graph)) ''c'' \<and>
   \<not> terminal_in (snd (apply_event demo_runtime revive_ev (snd (apply_event demo_runtime return_ev demo_graph)))) ''c''"
proof -
  let ?g = "snd (apply_event demo_runtime return_ev demo_graph)"
  have "event_step True demo_runtime demo_graph ?g"
    using event_step.applied [of True return_ev demo_graph demo_runtime]
    by (simp add: disciplined_def return_ev_def demo_event_def)
  then have reach: "reachable True demo_runtime ?g"
    using demo_graph_reachable by (meson rtranclp.rtrancl_into_rtrancl)
  have "cg_strict_timestamps ?g" "terminal_in ?g ''c''" "admissible_wait revive_ev ?g ''c''"
    unfolding demo_graph_def demo_events_def return_ev_def revive_ev_def admissible_wait_def
    by (simp_all add: graph_eval timestamp_watermark_def)
  then show ?thesis using join_wait_revives_terminal [OF reach, of "''c''" revive_ev] by blast
qed

text \<open>What an accepted event that wakes the waiters of a join does.\<close>

lemma wake_event_applies:
  assumes "ev_kind ev \<in> {JOIN_SATISFIED, JOIN_TIMEOUT}" and "ev_event_id ev \<notin> cg_processed_event_ids g"
    and "ev_join_id ev = Some k" and "map_of (cg_joins g) k = Some j" and "fst (apply_event rt ev g) = Inr delta"
  shows "gd_awakened_invocations delta = Set.filter (in_state WAIT_JOIN g) (jn_waiter_invocation_ids j)"
    and "map_of (cg_invocations (snd (apply_event rt ev g))) i =
      map_option (if i \<in> jn_waiter_invocation_ids j then wake_waiter (ev_ts_ms ev) else id) (map_of (cg_invocations g) i)"
    and "k' \<noteq> k \<Longrightarrow> map_of (cg_joins (snd (apply_event rt ev g))) k' = map_of (cg_joins g) k'"
proof -
  have wake: "in_state WAIT_JOIN (mod_join k f g) = in_state WAIT_JOIN g" for f by (simp add: in_state_def fun_eq_iff)
  have opt: "map_option id x = x" for x :: "invocation_record option" by (simp add: option.map_id)
  from assms(5) show "gd_awakened_invocations delta = Set.filter (in_state WAIT_JOIN g) (jn_waiter_invocation_ids j)"
    "map_of (cg_invocations (snd (apply_event rt ev g))) i =
      map_option (if i \<in> jn_waiter_invocation_ids j then wake_waiter (ev_ts_ms ev) else id) (map_of (cg_invocations g) i)"
    "k' \<noteq> k \<Longrightarrow> map_of (cg_joins (snd (apply_event rt ev g))) k' = map_of (cg_joins g) k'"
    using assms(1-4)
    by (cases rule: apply_event_cases [of rt ev g];
        auto simp: on_join_satisfied_def on_join_timeout_def checked_def after_def woken_delta_def get_join_Inr
          require_id_def wake_join_waiters_def Let_def wake map_of_dmap_on opt split: sum.splits if_splits)+
qed

text \<open>
  C31. A spurious wake-up. A waiter is never removed from a join, and waking does not look at which
  join the waiter waits for now. In a reachable graph, let an invocation wait for the join \<open>k2\<close> while
  it is still listed as a waiter of another join \<open>k1\<close>, which it waited for before and left by a
  timeout, say. An accepted \<open>JOIN_SATISFIED\<close> or \<open>JOIN_TIMEOUT\<close> event for \<open>k1\<close> then wakes it: it is
  reported as awakened and becomes \<open>READY\<close> although \<open>k2\<close> is still not satisfied.
\<close>

theorem stale_join_wakes_other_wait:
  assumes "reachable d rt g" and q: "map_of (cg_invocations g) q = Some r" "iv_state r = WAIT_JOIN"
    "iv_join_id r = Some k2"
    and j1: "map_of (cg_joins g) k1 = Some j1" "q \<in> jn_waiter_invocation_ids j1" "k1 \<noteq> k2"
    and ev: "ev_kind ev \<in> {JOIN_SATISFIED, JOIN_TIMEOUT}" "ev_event_id ev \<notin> cg_processed_event_ids g"
    "ev_join_id ev = Some k1" "fst (apply_event rt ev g) = Inr delta"
  shows "q \<in> gd_awakened_invocations delta \<and> in_state READY (snd (apply_event rt ev g)) q \<and>
    (\<exists>j2. map_of (cg_joins (snd (apply_event rt ev g))) k2 = Some j2 \<and> \<not> jn_satisfied j2)"
proof -
  note wake = wake_event_applies [OF ev(1,2,3) j1(1) ev(4)]
  have "wait_ok g" using reachable_ok [OF assms(1)] by (simp add: graph_ok_def)
  then obtain j2 where "map_of (cg_joins g) k2 = Some j2" "\<not> jn_satisfied j2"
    using wait_okD(1) [of g q r] q by (auto simp: waits_ok_def)
  then show ?thesis
    using q j1 wake(1) wake(2) [of q] wake(3) [of k2] by (auto simp: in_state_def wake_waiter_def)
qed

definition join_ev :: "string \<Rightarrow> string \<Rightarrow> string \<Rightarrow> runtime_event" where
  "join_ev ident k m = (demo_event ident JOIN_CREATE)\<lparr>ev_join_id := Some k, ev_member_invocation_ids := [m]\<rparr>"

definition wait_ev :: "string \<Rightarrow> string \<Rightarrow> runtime_event" where
  "wait_ev ident k = (demo_event ident JOIN_WAIT)\<lparr>ev_invocation_id := Some ''q'', ev_join_id := Some k\<rparr>"

definition two_joins :: causal_graph where
  "two_joins = snd (apply_all demo_runtime
     [demo_event ''e1'' WORKFLOW_START, create_ev ''e2'' ''a'', create_ev ''e3'' ''b'',
      create_ev ''e4'' ''q'', join_ev ''e5'' ''j1'' ''a'', join_ev ''e6'' ''j2'' ''b'', wait_ev ''e7'' ''j1'',
      (demo_event ''e8'' JOIN_TIMEOUT)\<lparr>ev_join_id := Some ''j1''\<rparr>, wait_ev ''e9'' ''j2''] (graph_init True))"

lemma stale_join_wakes_other_wait_witness:
  "in_state READY (snd (apply_event demo_runtime ((demo_event ''e10'' JOIN_SATISFIED)\<lparr>ev_join_id := Some ''j1''\<rparr>)
     two_joins)) ''q'' \<and> in_state WAIT_JOIN two_joins ''q''"
proof -
  let ?ev = "(demo_event ''e10'' JOIN_SATISFIED)\<lparr>ev_join_id := Some ''j1''\<rparr>"
  have reach: "reachable False demo_runtime two_joins" unfolding two_joins_def by (rule exI) (rule apply_all_runs)
  obtain r where r: "map_of (cg_invocations two_joins) ''q'' = Some r" "iv_state r = WAIT_JOIN" "iv_join_id r = Some ''j2''"
    unfolding two_joins_def join_ev_def wait_ev_def by (simp add: graph_eval)
  obtain j where j: "map_of (cg_joins two_joins) ''j1'' = Some j" "''q'' \<in> jn_waiter_invocation_ids j"
    and w: "jn_waiter_invocation_ids j = {''q''}" "jn_workflow_id j = ''w''"
    unfolding two_joins_def join_ev_def wait_ev_def by (simp add: graph_eval)
  have fresh: "ev_event_id ?ev \<notin> cg_processed_event_ids two_joins"
    and ts: "map_of (cg_last_ts_by_workflow two_joins) ''w'' = Some 5"
    unfolding two_joins_def join_ev_def wait_ev_def by (simp_all add: graph_eval)
  have "''q'' \<in> fst ` set (cg_invocations two_joins)" using r(1) by (rule dict_key)
  then have "\<exists>delta. fst (apply_event demo_runtime ?ev two_joins) = Inr delta"
    using fresh ts j w
    by (auto simp: apply_event_def after_def checked_def on_join_satisfied_def require_id_def py_blank_def py_isspace_def
        get_join_def wake_join_waiters_def woken_delta_def contexts_of_def mod_join_def mod_inv_def demo_event_def Let_def)
  then obtain delta where d: "fst (apply_event demo_runtime ?ev two_joins) = Inr delta" by blast
  have "ev_kind ?ev \<in> {JOIN_SATISFIED, JOIN_TIMEOUT}" "ev_join_id ?ev = Some ''j1''" by (simp_all add: demo_event_def)
  from stale_join_wakes_other_wait [OF reach r j _ this(1) fresh this(2) d]
  show ?thesis using r by (simp add: in_state_def)
qed

text \<open>A child called with a return target other than its caller leaves the caller waiting for ever:
  after the child is done, the caller still waits for it.\<close>

lemma foreign_return_target_strands_parent:
  "let (_, g) = apply_all demo_runtime
       [demo_event ''e1'' WORKFLOW_START, create_ev ''e2'' ''p'', create_ev ''e3'' ''c'', create_ev ''e4'' ''q'',
        (demo_event ''e5'' CALL)\<lparr>ev_invocation_id := Some ''p'', ev_target_invocation_id := Some ''c'',
           ev_return_target_id := Some ''q''\<rparr>,
        (demo_event ''e6'' RETURN)\<lparr>ev_invocation_id := Some ''c''\<rparr>] (graph_init True) in
   in_state DONE g ''c'' \<and> in_state WAIT_CHILD g ''p'' \<and>
   map_option iv_blocking_child_ids (map_of (cg_invocations g) ''p'') = Some {''c''}"
  by (simp add: graph_eval)

end
