(* ===== verification/Residency.thy ===== *)
theory Residency
  imports Causal_Graph_Cases Page_Index_Inv
begin

text \<open>
  The two readings of the causal graph that decide what a context's cache is worth:
  \<open>policy/leases.py\<close> projects a context or a bundle of contexts to a lease, \<open>policy/residency.py\<close>
  classifies contexts and pages and drops the ownership of dead contexts from the page index.

  Both read the graph and the index without owning them. The callback of
  \<open>release_terminal_owners\<close> is a parameter: a function on a state of its own that may raise.
\<close>

section \<open>Leases\<close>

fun state_value :: "invocation_state \<Rightarrow> string" where
  "state_value CREATED = ''created''"
| "state_value READY = ''ready''"
| "state_value RUNNING_LLM = ''running_llm''"
| "state_value WAIT_TOOL = ''wait_tool''"
| "state_value WAIT_CHILD = ''wait_child''"
| "state_value WAIT_JOIN = ''wait_join''"
| "state_value WAIT_MESSAGE = ''wait_message''"
| "state_value RETURNING = ''returning''"
| "state_value DONE = ''done''"
| "state_value CANCELLED = ''cancelled''"

datatype lease_kind = LEASE_DEAD | LEASE_SPECULATIVE | LEASE_CONDITIONAL_RESUME | LEASE_READY | LEASE_RUNNING

fun lease_strength :: "lease_kind \<Rightarrow> int" where
  "lease_strength LEASE_DEAD = 0"
| "lease_strength LEASE_SPECULATIVE = 1"
| "lease_strength LEASE_CONDITIONAL_RESUME = 2"
| "lease_strength LEASE_READY = 3"
| "lease_strength LEASE_RUNNING = 4"

datatype lease_condition =
  LeaseCondition (lc_event_kind: string) (lc_subject_id: string) (lc_condition_id: string)

text \<open>\<open>@dataclass(order=True)\<close>: conditions compare field by field.\<close>

definition condition_key :: "lease_condition \<Rightarrow> string \<times> string \<times> string" where
  "condition_key c = (lc_event_kind c, lc_subject_id c, lc_condition_id c)"

instantiation lease_condition :: linorder
begin

definition less_eq_lease_condition :: "lease_condition \<Rightarrow> lease_condition \<Rightarrow> bool" where
  "less_eq_lease_condition a b \<longleftrightarrow> condition_key a \<le> condition_key b"

definition less_lease_condition :: "lease_condition \<Rightarrow> lease_condition \<Rightarrow> bool" where
  "less_lease_condition a b \<longleftrightarrow> condition_key a < condition_key b"

instance
proof
  fix a b c :: lease_condition
  show "a < b \<longleftrightarrow> a \<le> b \<and> \<not> b \<le> a"
    by (simp only: less_eq_lease_condition_def less_lease_condition_def less_le_not_le)
  show "a \<le> a" by (simp add: less_eq_lease_condition_def)
  show "a \<le> b \<Longrightarrow> b \<le> c \<Longrightarrow> a \<le> c" unfolding less_eq_lease_condition_def by (rule order_trans)
  show "a \<le> b \<Longrightarrow> b \<le> a \<Longrightarrow> a = b"
    unfolding less_eq_lease_condition_def using order_antisym [of "condition_key a" "condition_key b"]
    by (cases a; cases b) (simp add: condition_key_def)
  show "a \<le> b \<or> b \<le> a" unfolding less_eq_lease_condition_def by (rule linear)
qed

end

record context_lease =
  cl_context_id :: string
  cl_context_epoch :: int
  cl_workflow_id :: string
  cl_kind :: lease_kind
  cl_condition :: "lease_condition option"
  cl_issued_ts_ms :: real
  cl_confidence :: real
  cl_reason :: string

record bundle_lease =
  bl_bundle_id :: string
  bl_owner_context_ids :: "string list"
  bl_strongest_kind :: lease_kind
  bl_conditions :: "lease_condition list"
  bl_scenario_support :: "string set"

definition lease_condition_of :: "invocation_record \<Rightarrow> lease_condition" where
  "lease_condition_of r =
     (let i = iv_invocation_id r in
      if iv_state r = WAIT_TOOL
      then LeaseCondition ''tool_result'' i (''tool:'' @ i @ '':''
             @ str_default (iv_active_tool_family r) ''unknown'' @ '':'' @ str_int (iv_llm_round r))
      else if iv_state r = WAIT_CHILD
      then LeaseCondition ''child_return'' i (''children:'' @ i @ '':''
             @ py_join '','' (sorted_list_of_set (iv_blocking_child_ids r)))
      else if iv_state r = WAIT_JOIN
      then LeaseCondition ''join_satisfied'' i (''join:'' @ str_default (iv_join_id r) ''unknown'')
      else if iv_state r = WAIT_MESSAGE
      then LeaseCondition ''message'' i (''message:'' @ i)
      else LeaseCondition ''invocation_ready'' i (''state:'' @ i @ '':'' @ state_value (iv_state r)))"

definition make_lease ::
  "causal_graph \<Rightarrow> string \<Rightarrow> lease_kind \<Rightarrow> real \<Rightarrow> string \<Rightarrow> lease_condition option \<Rightarrow> context_lease result" where
  "make_lease g c kind now reason condition =
     rbind (dict_item (cg_contexts g) c c) (\<lambda>x.
       Inr \<lparr>cl_context_id = c, cl_context_epoch = cx_epoch x, cl_workflow_id = cx_workflow_id x,
            cl_kind = kind, cl_condition = condition, cl_issued_ts_ms = now, cl_confidence = 1,
            cl_reason = reason\<rparr>)"

text \<open>\<open>"+".join(sorted({item.state.value for item in items}))\<close>.\<close>

definition state_reasons :: "invocation_record list \<Rightarrow> string" where
  "state_reasons rs = py_join ''+'' (sorted_list_of_set ((\<lambda>r. state_value (iv_state r)) ` set rs))"

definition workflow_ended :: "causal_graph \<Rightarrow> string \<Rightarrow> real option" where
  "workflow_ended g w = (case map_of (cg_workflows g) w of None \<Rightarrow> None | Some r \<Rightarrow> wf_end_ts_ms r)"

definition lease_ready :: "invocation_record \<Rightarrow> bool" where
  "lease_ready r = (iv_state r \<in> {CREATED, READY, RETURNING} \<or> iv_pending_messages r > 0)"

definition lease_context :: "causal_graph \<Rightarrow> string \<Rightarrow> real \<Rightarrow> context_lease result" where
  "lease_context g c now =
     (if now < 0 then Inl (ValueError ''lease timestamp must be non-negative'')
      else case map_of (cg_contexts g) c of
        None \<Rightarrow>
          Inr \<lparr>cl_context_id = c, cl_context_epoch = 0, cl_workflow_id = ''unknown'', cl_kind = LEASE_RUNNING,
               cl_condition = None, cl_issued_ts_ms = now, cl_confidence = 1,
               cl_reason = ''missing_context_safety_pin''\<rparr>
      | Some x \<Rightarrow>
          if workflow_ended g (cx_workflow_id x) \<noteq> None
          then make_lease g c LEASE_DEAD now ''workflow_ended'' None
          else
            rbind (context_invocations c g) (\<lambda>rs.
              let waiting = filter (\<lambda>r. \<not> state_terminal (iv_state r)) rs in
              if filter (\<lambda>r. iv_state r = RUNNING_LLM) rs \<noteq> []
              then make_lease g c LEASE_RUNNING now ''running_llm'' None
              else if filter lease_ready rs \<noteq> []
              then make_lease g c LEASE_READY now ''ready_or_pending_message'' None
              else case waiting of
                r # rest \<Rightarrow>
                  make_lease g c LEASE_CONDITIONAL_RESUME now (state_reasons waiting)
                    (Some (lease_condition_of
                       (py_min_by (\<lambda>r. (iv_updated_ts_ms r, iv_invocation_id r)) r rest)))
              | [] \<Rightarrow>
                  if cx_persistent x
                  then make_lease g c LEASE_CONDITIONAL_RESUME now ''persistent_inactive''
                    (Some (LeaseCondition ''context_resume'' c
                       (''persistent:'' @ c @ '':'' @ str_int (cx_epoch x))))
                  else make_lease g c LEASE_DEAD now ''all_invocations_terminal'' None))"

definition lease_speculative ::
  "string \<Rightarrow> string \<Rightarrow> int \<Rightarrow> real \<Rightarrow> string \<Rightarrow> real \<Rightarrow> context_lease result" where
  "lease_speculative c w epoch now reason confidence =
     (if \<not> (0 \<le> confidence \<and> confidence \<le> 1) then Inl (ValueError ''lease confidence must be in [0, 1]'')
      else Inr \<lparr>cl_context_id = c, cl_context_epoch = epoch, cl_workflow_id = w, cl_kind = LEASE_SPECULATIVE,
                cl_condition = None, cl_issued_ts_ms = now, cl_confidence = confidence,
                cl_reason = reason\<rparr>)"

definition lease_bundle :: "causal_graph \<Rightarrow> string \<Rightarrow> string list \<Rightarrow> real \<Rightarrow> bundle_lease result" where
  "lease_bundle g b owner_ids now =
     (let owners = py_sorted_set owner_ids in
      rbind (rmap (\<lambda>c. lease_context g c now) owners) (\<lambda>leases.
        Inr \<lparr>bl_bundle_id = b, bl_owner_context_ids = owners,
             bl_strongest_kind =
               (case map cl_kind leases of [] \<Rightarrow> LEASE_DEAD | k # ks \<Rightarrow> py_max_by lease_strength k ks),
             bl_conditions = py_sorted_set (List.map_filter cl_condition leases),
             bl_scenario_support = {}\<rparr>))"

section \<open>Residency classes\<close>

datatype residency_class = DEAD_UNOWNED | PARKED | IMMINENT | PINNED

fun class_rank :: "residency_class \<Rightarrow> int" where
  "class_rank DEAD_UNOWNED = 0"
| "class_rank PARKED = 1"
| "class_rank IMMINENT = 2"
| "class_rank PINNED = 3"

record assessment =
  as_class :: residency_class
  as_reason :: string
  as_since_ms :: real

text \<open>\<open>min(item.updated_ts_ms for item in items)\<close> of a non-empty list.\<close>

definition earliest :: "invocation_record list \<Rightarrow> real" where
  "earliest rs = Min (set (map iv_updated_ts_ms rs))"

definition frontier_ready :: "invocation_record \<Rightarrow> bool" where
  "frontier_ready r = (iv_state r = READY \<or> iv_pending_messages r > 0)"

definition assess_context :: "causal_graph \<Rightarrow> string \<Rightarrow> real \<Rightarrow> assessment result" where
  "assess_context g c now =
     (case map_of (cg_contexts g) c of
        None \<Rightarrow> Inr \<lparr>as_class = DEAD_UNOWNED, as_reason = ''missing_context'', as_since_ms = now\<rparr>
      | Some x \<Rightarrow>
          (case workflow_ended g (cx_workflow_id x) of
             Some t \<Rightarrow> Inr \<lparr>as_class = DEAD_UNOWNED, as_reason = ''workflow_ended'', as_since_ms = t\<rparr>
           | None \<Rightarrow>
               rbind (context_invocations c g) (\<lambda>rs.
                 let running = filter (\<lambda>r. iv_state r = RUNNING_LLM) rs;
                     ready = filter frontier_ready rs;
                     live = filter (\<lambda>r. \<not> state_terminal (iv_state r)) rs in
                 if running \<noteq> []
                 then Inr \<lparr>as_class = PINNED, as_reason = ''active_llm'', as_since_ms = earliest running\<rparr>
                 else if ready \<noteq> []
                 then Inr \<lparr>as_class = IMMINENT, as_reason = ''causal_frontier'', as_since_ms = earliest ready\<rparr>
                 else if live \<noteq> []
                 then Inr \<lparr>as_class = PARKED, as_reason = state_reasons live, as_since_ms = earliest live\<rparr>
                 else if cx_persistent x
                 then Inr \<lparr>as_class = PARKED, as_reason = ''persistent_inactive'',
                           as_since_ms = cx_updated_ts_ms x\<rparr>
                 else Inr \<lparr>as_class = DEAD_UNOWNED, as_reason = ''all_invocations_terminal'',
                           as_since_ms = cx_updated_ts_ms x\<rparr>)))"

definition assess_page :: "causal_graph \<Rightarrow> page_record \<Rightarrow> real \<Rightarrow> assessment result" where
  "assess_page g p now =
     (if pg_engine_lock_ref p > 0 \<or> pg_active_reader_count p > 0
      then Inr \<lparr>as_class = PINNED, as_reason = ''engine_active'', as_since_ms = now\<rparr>
      else if pg_semantic_pin_contexts p \<noteq> {}
      then Inr \<lparr>as_class = PINNED, as_reason = ''semantic_pin'', as_since_ms = now\<rparr>
      else
        rbind (rmap (\<lambda>c. assess_context g c now) (map fst (pg_owner_contexts p))) (\<lambda>as.
          case as of
            [] \<Rightarrow> Inr \<lparr>as_class = DEAD_UNOWNED, as_reason = ''no_semantic_owner'',
                        as_since_ms = pg_last_access_ms p\<rparr>
          | a # rest \<Rightarrow>
              let strongest = py_max_by (\<lambda>x. class_rank (as_class x)) a rest in
              Inr \<lparr>as_class = as_class strongest,
                   as_reason = ''strongest_owner:'' @ as_reason strongest,
                   as_since_ms = as_since_ms strongest\<rparr>))"

text \<open>The body of the loop of \<open>release_terminal_owners\<close>. The callback runs between reading the
  context's private host pages and dropping its ownership; when it raises, the loop is left.\<close>

definition private_host_handles :: "string \<Rightarrow> page_record list \<Rightarrow> page_handle set" where
  "private_host_handles c pages =
     pg_handle ` set (filter (\<lambda>p. cpu_resident p \<and> fst ` set (pg_owner_contexts p) = {c}) pages)"

definition release_context ::
  "(string \<Rightarrow> page_handle set \<Rightarrow> 's \<Rightarrow> 's result) \<Rightarrow> causal_graph \<Rightarrow> string \<Rightarrow> 's \<times> page_index
   \<Rightarrow> (bool \<times> 's \<times> page_index) result" where
  "release_context on_release g c st =
     (case st of (s, ix) \<Rightarrow>
        rbind (assess_context g c 0) (\<lambda>a.
          if as_class a = DEAD_UNOWNED
          then rbind (context_pages ix c) (\<lambda>pages.
               rbind (on_release c (private_host_handles c pages) s) (\<lambda>s'.
                 Inr (True, s', unbind_context c ix)))
          else Inr (False, s, ix)))"

text \<open>An error leaves the index as the contexts before it left it.\<close>

fun release_loop ::
  "(string \<Rightarrow> page_handle set \<Rightarrow> 's \<Rightarrow> 's result) \<Rightarrow> causal_graph \<Rightarrow> string list \<Rightarrow> string set
   \<Rightarrow> 's \<times> page_index \<Rightarrow> string set result \<times> 's \<times> page_index" where
  "release_loop on_release g [] released st = (Inr released, st)"
| "release_loop on_release g (c # cs) released st =
     (case release_context on_release g c st of
        Inl e \<Rightarrow> (Inl e, st)
      | Inr (b, st') \<Rightarrow> release_loop on_release g cs (if b then insert c released else released) st')"

definition release_terminal_owners ::
  "(string \<Rightarrow> page_handle set \<Rightarrow> 's \<Rightarrow> 's result) \<Rightarrow> causal_graph \<Rightarrow> 's \<times> page_index
   \<Rightarrow> string set result \<times> 's \<times> page_index" where
  "release_terminal_owners on_release g st = release_loop on_release g (map fst (cg_contexts g)) {} st"

section \<open>The invocations of a context\<close>

text \<open>In a consistent graph the members a context lists are exactly the invocations that name it,
  so looking them up does not raise.\<close>

lemma context_invocations_exact:
  assumes shape: "shape_ok (graph_shape g)" and x: "map_of (cg_contexts g) c = Some x"
  obtains rs where "context_invocations c g = Inr rs"
    and "set rs = {r. \<exists>i. map_of (cg_invocations g) i = Some r \<and> iv_context_id r = c}"
proof -
  let ?ids = "cx_invocation_ids x"
  have "sh_contexts (graph_shape g) c = Some (context_shape x)" using x by (simp add: graph_shape_def)
  note ctx = shape_okD(3) [OF shape this]
  have fin: "finite ?ids" using ctx by (simp add: context_shape_def)
  have members: "\<exists>r. map_of (cg_invocations g) i = Some r \<and> iv_context_id r = c" if "i \<in> ?ids" for i
    using ctx that by (auto simp: context_shape_def graph_shape_def invocation_shape_def)
  have listed: "i \<in> ?ids" if r: "map_of (cg_invocations g) i = Some r" "iv_context_id r = c" for i r
  proof -
    have "inv_ok (graph_shape g) i (invocation_shape r)"
      using shape r(1) by (simp add: shape_ok_def graph_shape_def)
    then show ?thesis using x r(2) by (auto simp: inv_ok_def graph_shape_def invocation_shape_def context_shape_def)
  qed
  define look where "look i = the (map_of (cg_invocations g) i)" for i
  have look: "map_of (cg_invocations g) i = Some (look i)" if "i \<in> ?ids" for i
    using members [OF that] by (auto simp: look_def)
  have "rmap (\<lambda>i. dict_item (cg_invocations g) i i) is = Inr (map look is)" if "set is \<subseteq> ?ids" for "is"
    using that by (induction "is") (simp_all add: look dict_item_def)
  from this [of "sorted_list_of_set ?ids"] fin x
  have "context_invocations c g = Inr (map look (sorted_list_of_set ?ids))"
    by (simp add: context_invocations_def dict_item_def)
  moreover have "look ` ?ids = {r. \<exists>i. map_of (cg_invocations g) i = Some r \<and> iv_context_id r = c}"
    using members listed by (force simp: look_def image_iff)
  moreover have "set (map look (sorted_list_of_set ?ids)) = look ` ?ids"
    by (simp only: set_map set_sorted_list_of_set [OF fin])
  ultimately show thesis by (intro that) (simp_all only:)
qed

lemma reachable_context_invocations:
  assumes "reachable d rt g" and "map_of (cg_contexts g) c = Some x"
  obtains rs where "context_invocations c g = Inr rs"
    and "set rs = {r. \<exists>i. map_of (cg_invocations g) i = Some r \<and> iv_context_id r = c}"
  using context_invocations_exact [of g c x] reachable_ok [OF assms(1)] assms(2) by (auto simp: graph_ok_def)

text \<open>What makes a context dead: its workflow has ended, or it is not persistent and every
  invocation in it is terminal with no pending message.\<close>

definition context_dead :: "causal_graph \<Rightarrow> string \<Rightarrow> context_record \<Rightarrow> bool" where
  "context_dead g c x \<longleftrightarrow>
     ended g (cx_workflow_id x) \<or>
     \<not> cx_persistent x \<and>
     (\<forall>i r. map_of (cg_invocations g) i = Some r \<longrightarrow> iv_context_id r = c \<longrightarrow>
        state_terminal (iv_state r) \<and> iv_pending_messages r \<le> 0)"

lemma workflow_ended_iff: "workflow_ended g w \<noteq> None \<longleftrightarrow> ended g w"
  by (simp add: workflow_ended_def ended_def split: option.split)

lemma live_states: "\<not> state_terminal RUNNING_LLM" "\<not> state_terminal READY" "\<not> state_terminal CREATED"
  "\<not> state_terminal RETURNING"
  by (simp_all add: state_terminal_def)

lemma make_lease_known:
  "map_of (cg_contexts g) c = Some x \<Longrightarrow>
   \<exists>l. make_lease g c k now reason condition = Inr l \<and> cl_kind l = k \<and> cl_condition l = condition"
  by (simp add: make_lease_def dict_item_def)

text \<open>Both readings classify the same invocations in the same order.\<close>

lemma assess_context_cases:
  assumes x: "map_of (cg_contexts g) c = Some x" and rs: "context_invocations c g = Inr rs"
  shows "\<exists>a. assess_context g c now = Inr a \<and> as_class a =
      (if ended g (cx_workflow_id x) then DEAD_UNOWNED
       else if \<exists>r \<in> set rs. iv_state r = RUNNING_LLM then PINNED
       else if \<exists>r \<in> set rs. frontier_ready r then IMMINENT
       else if (\<exists>r \<in> set rs. \<not> state_terminal (iv_state r)) \<or> cx_persistent x then PARKED
       else DEAD_UNOWNED)"
proof (cases "workflow_ended g (cx_workflow_id x)")
  case None
  then have "\<not> ended g (cx_workflow_id x)" by (simp flip: workflow_ended_iff)
  with None x rs show ?thesis
    by (simp add: assess_context_def Let_def filter_empty_conv cong: if_cong)
next
  case (Some t)
  then have "ended g (cx_workflow_id x)" by (simp flip: workflow_ended_iff)
  with Some x show ?thesis by (simp add: assess_context_def)
qed

lemma lease_context_cases:
  assumes x: "map_of (cg_contexts g) c = Some x" and rs: "context_invocations c g = Inr rs" and now: "0 \<le> now"
  shows "\<exists>l. lease_context g c now = Inr l \<and> cl_kind l =
      (if ended g (cx_workflow_id x) then LEASE_DEAD
       else if \<exists>r \<in> set rs. iv_state r = RUNNING_LLM then LEASE_RUNNING
       else if \<exists>r \<in> set rs. lease_ready r then LEASE_READY
       else if (\<exists>r \<in> set rs. \<not> state_terminal (iv_state r)) \<or> cx_persistent x then LEASE_CONDITIONAL_RESUME
       else LEASE_DEAD)"
proof -
  let ?waiting = "filter (\<lambda>r. \<not> state_terminal (iv_state r)) rs"
  have w: "(\<exists>r \<in> set rs. \<not> state_terminal (iv_state r)) \<longleftrightarrow> ?waiting \<noteq> []" by (simp add: filter_empty_conv)
  have e: "workflow_ended g (cx_workflow_id x) = None \<longleftrightarrow> \<not> ended g (cx_workflow_id x)"
    using workflow_ended_iff by blast
  have q: "filter (\<lambda>r. iv_state r = RUNNING_LLM) rs = [] \<longleftrightarrow> \<not> (\<exists>r \<in> set rs. iv_state r = RUNNING_LLM)"
    "filter lease_ready rs = [] \<longleftrightarrow> \<not> (\<exists>r \<in> set rs. lease_ready r)" by (simp_all add: filter_empty_conv)
  show ?thesis
    unfolding w
    by (cases ?waiting) (use now x rs in \<open>simp_all add: lease_context_def e q Let_def make_lease_def dict_item_def
        del: filter_eq_Cons_iff cong: if_cong\<close>)
qed

lemma context_dead_iff:
  assumes "set rs = {r. \<exists>i. map_of (cg_invocations g) i = Some r \<and> iv_context_id r = c}"
  shows "context_dead g c x \<longleftrightarrow> ended g (cx_workflow_id x) \<or>
    \<not> cx_persistent x \<and> (\<forall>r \<in> set rs. state_terminal (iv_state r) \<and> \<not> frontier_ready r)"
proof -
  have "(\<forall>i r. map_of (cg_invocations g) i = Some r \<longrightarrow> iv_context_id r = c \<longrightarrow>
      state_terminal (iv_state r) \<and> iv_pending_messages r \<le> 0) \<longleftrightarrow>
    (\<forall>r \<in> set rs. state_terminal (iv_state r) \<and> iv_pending_messages r \<le> 0)"
    unfolding assms by blast
  moreover have "state_terminal (iv_state r) \<and> \<not> frontier_ready r \<longleftrightarrow>
      state_terminal (iv_state r) \<and> iv_pending_messages r \<le> 0" for r
    using live_states(2) by (auto simp: frontier_ready_def not_less)
  ultimately show ?thesis unfolding context_dead_def by simp
qed

lemma assess_dead_iff:
  assumes "reachable d rt g" and x: "map_of (cg_contexts g) c = Some x"
  shows "\<exists>a. assess_context g c now = Inr a \<and> (as_class a = DEAD_UNOWNED \<longleftrightarrow> context_dead g c x)"
proof -
  obtain rs where rs: "context_invocations c g = Inr rs"
    and set: "set rs = {r. \<exists>i. map_of (cg_invocations g) i = Some r \<and> iv_context_id r = c}"
    using reachable_context_invocations [OF assms] .
  obtain a where "assess_context g c now = Inr a" and "as_class a =
      (if ended g (cx_workflow_id x) then DEAD_UNOWNED
       else if \<exists>r \<in> set rs. iv_state r = RUNNING_LLM then PINNED
       else if \<exists>r \<in> set rs. frontier_ready r then IMMINENT
       else if (\<exists>r \<in> set rs. \<not> state_terminal (iv_state r)) \<or> cx_persistent x then PARKED
       else DEAD_UNOWNED)"
    using assess_context_cases [OF x rs] by blast
  then show ?thesis
    using context_dead_iff [OF set, of x] live_states(1) by (intro exI [of _ a]) (auto split: if_split_asm)
qed

section \<open>Releasing dead contexts\<close>

lemma unbind_context_page_set:
  "context_page_set (unbind_context c ix) c' = (if c' = c then {} else context_page_set ix c')"
  by (simp add: unbind_context_def Let_def context_page_set_def dict_get_update)

lemma context_pages_total:
  assumes inv: "ix_inv ix"
  obtains ps where "context_pages ix c = Inr ps"
proof -
  have known: "\<exists>p. dict_item (ix_pages ix) h ''page'' = Inr p" if "h \<in> context_page_set ix c" for h
    using context_page_owned [OF inv that] by (auto simp: dict_item_eq_Inr)
  have "\<exists>ps. rmap (\<lambda>h. dict_item (ix_pages ix) h ''page'') hs = Inr ps" if "set hs \<subseteq> context_page_set ix c" for hs
    using that
  proof (induction hs)
    case (Cons h hs)
    with known [of h] show ?case by auto
  qed simp
  from this [of "sorted_list_of_set (context_page_set ix c)"] finite_context_page_set [OF inv, of c]
  show thesis using that by (auto simp: context_pages_def)
qed

text \<open>The contexts that are dead, and what is true after each turn of the loop: ownership is only dropped
  for dead contexts, and an error is one of the callback.\<close>

definition dead_contexts :: "causal_graph \<Rightarrow> string set" where
  "dead_contexts g = {c. \<exists>x. map_of (cg_contexts g) c = Some x \<and> context_dead g c x}"

definition released_so_far ::
  "(string \<Rightarrow> page_handle set \<Rightarrow> 's \<Rightarrow> 's result) \<Rightarrow> string set \<Rightarrow> page_index \<Rightarrow> string set \<Rightarrow>
   string set result \<times> 's \<times> page_index \<Rightarrow> bool" where
  "released_so_far on_release dead ix released = (\<lambda>(res, s', ix').
     ix_step\<^sup>*\<^sup>* ix ix' \<and>
     (\<forall>c. context_page_set ix' c = context_page_set ix c \<or> c \<in> dead \<and> context_page_set ix' c = {}) \<and>
     (case res of
        Inr cs \<Rightarrow> cs = released \<union> dead \<and> (\<forall>c \<in> dead. context_page_set ix' c = {})
      | Inl e \<Rightarrow> \<exists>c \<in> dead. \<exists>hs s. on_release c hs s = Inl e))"

lemma release_context_cases:
  assumes "reachable d rt g" and "ix_inv ix" and "map_of (cg_contexts g) c = Some x"
  obtains (live) "c \<notin> dead_contexts g" and "release_context on_release g c (s, ix) = Inr (False, s, ix)"
  | (dead) s' where "c \<in> dead_contexts g" and "release_context on_release g c (s, ix) = Inr (True, s', unbind_context c ix)"
  | (raises) e hs where "c \<in> dead_contexts g" and "release_context on_release g c (s, ix) = Inl e" and "on_release c hs s = Inl e"
proof -
  obtain a where a: "assess_context g c 0 = Inr a" "as_class a = DEAD_UNOWNED \<longleftrightarrow> c \<in> dead_contexts g"
    using assess_dead_iff [OF assms(1,3), of 0] assms(3) by (auto simp: dead_contexts_def)
  obtain ps where ps: "context_pages ix c = Inr ps" using context_pages_total [OF assms(2)] .
  show thesis
  proof (cases "c \<in> dead_contexts g")
    case False
    then show thesis using live a by (simp add: release_context_def)
  next
    case True
    then show thesis
      using dead raises [of _ "private_host_handles c ps"] a ps
      by (cases "on_release c (private_host_handles c ps) s") (simp_all add: release_context_def)
  qed
qed

lemma released_more:
  assumes step: "ix_step\<^sup>*\<^sup>* ix ix1" and sets: "\<And>c'. context_page_set ix1 c' = (if c' = c then {} else context_page_set ix c')"
    and so_far: "released_so_far on_release D ix1 (insert c R) (res, s', ix')"
  shows "released_so_far on_release (insert c D) ix R (res, s', ix')"
proof -
  from so_far have run: "ix_step\<^sup>*\<^sup>* ix1 ix'"
    and pages: "\<And>c'. context_page_set ix' c' = context_page_set ix1 c' \<or> c' \<in> D \<and> context_page_set ix' c' = {}"
    by (simp_all add: released_so_far_def)
  have gone: "context_page_set ix' c = {}" using pages [of c] sets [of c] by auto
  have "context_page_set ix' c' = context_page_set ix c' \<or> c' \<in> insert c D \<and> context_page_set ix' c' = {}" for c'
    using pages [of c'] sets [of c'] gone by (cases "c' = c") simp_all
  then show ?thesis
    using so_far gone rtranclp_trans [OF step run] by (auto simp: released_so_far_def split: sum.splits)
qed

lemma release_loop_effect:
  assumes g: "reachable d rt g" and inv: "ix_inv ix" and cs: "set cs \<subseteq> fst ` set (cg_contexts g)"
  shows "released_so_far on_release (set cs \<inter> dead_contexts g) ix released (release_loop on_release g cs released (s, ix))"
  using inv cs
proof (induction cs arbitrary: released s ix)
  case Nil
  show ?case by (simp add: released_so_far_def)
next
  case (Cons c cs)
  obtain x where x: "map_of (cg_contexts g) c = Some x"
    using Cons.prems(2) by (metis dom_map_of_conv_image_fst domD insert_subset list.set(2))
  have cs: "set cs \<subseteq> fst ` set (cg_contexts g)" using Cons.prems(2) by simp
  show ?case
    using g Cons.prems(1) x
  proof (cases rule: release_context_cases [where on_release = on_release and s = s, case_names live dead raises])
    case live
    then show ?thesis using Cons.IH [OF Cons.prems(1) cs, of released s] by simp
  next
    case (dead s')
    have step: "ix_step\<^sup>*\<^sup>* ix (unbind_context c ix)" using ix_step.unbind_context [of ix c] by auto
    have "released_so_far on_release (set cs \<inter> dead_contexts g) (unbind_context c ix) (insert c released)
        (release_loop on_release g cs (insert c released) (s', unbind_context c ix))"
      by (rule Cons.IH [OF ix.run_inv [OF step Cons.prems(1)] cs])
    from released_more [OF step unbind_context_page_set] this
    have "released_so_far on_release (insert c (set cs \<inter> dead_contexts g)) ix released
        (release_loop on_release g cs (insert c released) (s', unbind_context c ix))"
      by (metis prod_cases3)
    then show ?thesis using dead by simp
  next
    case (raises e hs)
    then show ?thesis by (auto simp: released_so_far_def)
  qed
qed

text \<open>The two case distinctions compared, in terms of what they ask of the invocations.\<close>

lemma classes_agree:
  assumes "F \<Longrightarrow> L" and "L \<Longrightarrow> F \<or> N" and "N \<or> R \<Longrightarrow> W"
    and "D \<longleftrightarrow> E \<or> \<not> P \<and> \<not> W \<and> \<not> F"
    and "k = (if E then LEASE_DEAD else if R then LEASE_RUNNING else if L then LEASE_READY
       else if W \<or> P then LEASE_CONDITIONAL_RESUME else LEASE_DEAD)"
    and "a = (if E then DEAD_UNOWNED else if R then PINNED else if F then IMMINENT
       else if W \<or> P then PARKED else DEAD_UNOWNED)"
  shows "(k = LEASE_DEAD \<longleftrightarrow> D) \<and> (a = DEAD_UNOWNED \<longleftrightarrow> D) \<and> (k = LEASE_RUNNING \<longleftrightarrow> a = PINNED) \<and>
    (a = IMMINENT \<longrightarrow> k = LEASE_READY) \<and> (k = LEASE_CONDITIONAL_RESUME \<longrightarrow> a = PARKED) \<and>
    (k = LEASE_READY \<and> a = PARKED \<longrightarrow> N)"
  using assms by auto

section \<open>Properties\<close>

text \<open>C32. The lease of a context and its residency class agree: in every reachable graph both exist for
  a known context; the lease is dead exactly when the class is dead, which is when the workflow has
  ended or the context is not persistent and all its invocations are terminal without pending
  messages; it is running exactly when the class is pinned; an imminent context has a ready lease
  and a conditional lease means a parked context. The only difference is that an invocation in
  state \<open>CREATED\<close> or \<open>RETURNING\<close> makes a lease ready while the context counts as parked.\<close>

theorem lease_residency_agree:
  assumes "reachable d rt g" and "map_of (cg_contexts g) c = Some x" and "0 \<le> now"
  shows "\<exists>l a. lease_context g c now = Inr l \<and> assess_context g c now = Inr a \<and>
    (cl_kind l = LEASE_DEAD \<longleftrightarrow> context_dead g c x) \<and> (as_class a = DEAD_UNOWNED \<longleftrightarrow> context_dead g c x) \<and>
    (cl_kind l = LEASE_RUNNING \<longleftrightarrow> as_class a = PINNED) \<and>
    (as_class a = IMMINENT \<longrightarrow> cl_kind l = LEASE_READY) \<and>
    (cl_kind l = LEASE_CONDITIONAL_RESUME \<longrightarrow> as_class a = PARKED) \<and>
    (cl_kind l = LEASE_READY \<and> as_class a = PARKED \<longrightarrow>
       (\<exists>i r. map_of (cg_invocations g) i = Some r \<and> iv_context_id r = c \<and> iv_state r \<in> {CREATED, RETURNING}))"
proof -
  obtain rs where rs: "context_invocations c g = Inr rs"
    and set: "set rs = {r. \<exists>i. map_of (cg_invocations g) i = Some r \<and> iv_context_id r = c}"
    using reachable_context_invocations [OF assms(1,2)] .
  note dead = context_dead_iff [OF set, of x]
  have ready: "lease_ready r \<longleftrightarrow> frontier_ready r \<or> iv_state r \<in> {CREATED, RETURNING}" for r
    by (auto simp: lease_ready_def frontier_ready_def)
  have live: "\<not> state_terminal (iv_state r)" if "iv_state r \<in> {CREATED, RETURNING, RUNNING_LLM}" for r
    using that live_states by auto
  obtain l where l: "lease_context g c now = Inr l" "cl_kind l =
      (if ended g (cx_workflow_id x) then LEASE_DEAD
       else if \<exists>r \<in> set rs. iv_state r = RUNNING_LLM then LEASE_RUNNING
       else if \<exists>r \<in> set rs. lease_ready r then LEASE_READY
       else if (\<exists>r \<in> set rs. \<not> state_terminal (iv_state r)) \<or> cx_persistent x then LEASE_CONDITIONAL_RESUME
       else LEASE_DEAD)"
    using lease_context_cases [OF assms(2) rs assms(3)] by blast
  obtain a where a: "assess_context g c now = Inr a" "as_class a =
      (if ended g (cx_workflow_id x) then DEAD_UNOWNED
       else if \<exists>r \<in> set rs. iv_state r = RUNNING_LLM then PINNED
       else if \<exists>r \<in> set rs. frontier_ready r then IMMINENT
       else if (\<exists>r \<in> set rs. \<not> state_terminal (iv_state r)) \<or> cx_persistent x then PARKED
       else DEAD_UNOWNED)"
    using assess_context_cases [OF assms(2) rs] by blast
  have N: "(\<exists>r \<in> set rs. iv_state r \<in> {CREATED, RETURNING}) \<longleftrightarrow>
      (\<exists>i r. map_of (cg_invocations g) i = Some r \<and> iv_context_id r = c \<and> iv_state r \<in> {CREATED, RETURNING})"
    unfolding set by blast
  have L: "(\<exists>r \<in> set rs. lease_ready r) \<longleftrightarrow>
      (\<exists>r \<in> set rs. frontier_ready r) \<or> (\<exists>r \<in> set rs. iv_state r \<in> {CREATED, RETURNING})"
    unfolding ready by blast
  have W: "\<exists>r \<in> set rs. \<not> state_terminal (iv_state r)"
    if "(\<exists>r \<in> set rs. iv_state r \<in> {CREATED, RETURNING}) \<or> (\<exists>r \<in> set rs. iv_state r = RUNNING_LLM)"
    using that live by blast
  have D: "context_dead g c x \<longleftrightarrow> ended g (cx_workflow_id x) \<or> \<not> cx_persistent x \<and>
      \<not> (\<exists>r \<in> set rs. \<not> state_terminal (iv_state r)) \<and> \<not> (\<exists>r \<in> set rs. frontier_ready r)"
    unfolding dead by blast
  note agree = classes_agree [OF _ _ W D l(2) a(2)]
  have "(cl_kind l = LEASE_DEAD \<longleftrightarrow> context_dead g c x) \<and> (as_class a = DEAD_UNOWNED \<longleftrightarrow> context_dead g c x) \<and>
    (cl_kind l = LEASE_RUNNING \<longleftrightarrow> as_class a = PINNED) \<and>
    (as_class a = IMMINENT \<longrightarrow> cl_kind l = LEASE_READY) \<and>
    (cl_kind l = LEASE_CONDITIONAL_RESUME \<longrightarrow> as_class a = PARKED) \<and>
    (cl_kind l = LEASE_READY \<and> as_class a = PARKED \<longrightarrow> (\<exists>r \<in> set rs. iv_state r \<in> {CREATED, RETURNING}))"
    by (rule agree) (simp_all only: L simp_thms)
  then show ?thesis unfolding N using l(1) a(1) by blast
qed

lemma demo_context: "\<exists>x. map_of (cg_contexts demo_graph) ''ctx-c'' = Some x"
  using demo_lookups(5) by blast

theorem lease_residency_agree_witness:
  "\<exists>l a. lease_context demo_graph ''ctx-c'' 7 = Inr l \<and> assess_context demo_graph ''ctx-c'' 7 = Inr a \<and>
    (cl_kind l = LEASE_RUNNING \<longleftrightarrow> as_class a = PINNED)"
proof -
  obtain x where x: "map_of (cg_contexts demo_graph) ''ctx-c'' = Some x" using demo_context by blast
  show ?thesis using lease_residency_agree [OF demo_graph_reachable x, of 7] by auto
qed

text \<open>C33. Releasing dead contexts is safe and complete. Run on a reachable graph and a reachable index
  with any callback, \<open>release_terminal_owners\<close> keeps the index consistent and leaves the pages of every
  context that is not dead alone. Dead are the contexts of an ended workflow, persistent ones included
  (the method's docstring promises to spare those), and the non-persistent ones whose invocations are
  all terminal without pending messages. If the method returns, it has released exactly the dead
  contexts and none of them owns a page; if it raises, the error is one the callback raised for a
  dead context.\<close>

theorem release_terminal_owners_safe:
  assumes "reachable d rt g" and "rtranclp ix_step page_index_init ix"
  shows "\<exists>res s' ix'. release_terminal_owners on_release g (s, ix) = (res, s', ix') \<and> assert_consistent ix' = Inr () \<and>
    (\<forall>c. c \<notin> dead_contexts g \<longrightarrow> context_page_set ix' c = context_page_set ix c) \<and>
    (case res of
       Inr released \<Rightarrow> released = dead_contexts g \<and> (\<forall>c \<in> released. context_page_set ix' c = {})
     | Inl e \<Rightarrow> \<exists>c hs s1. c \<in> dead_contexts g \<and> on_release c hs s1 = Inl e)"
proof -
  have keys: "set (map fst (cg_contexts g)) \<inter> dead_contexts g = dead_contexts g"
    by (auto simp: dead_contexts_def intro: dict_key)
  have inv: "ix_inv ix" by (rule ix_reachable_inv [OF assms(2)])
  obtain res s' ix' where r: "release_terminal_owners on_release g (s, ix) = (res, s', ix')" by (metis prod_cases3)
  then have eff: "released_so_far on_release (dead_contexts g) ix {} (res, s', ix')"
    using release_loop_effect [OF assms(1) inv, of "map fst (cg_contexts g)" on_release "{}" s]
    unfolding release_terminal_owners_def keys by simp
  then have "assert_consistent ix' = Inr ()"
    using ix.run_inv [OF _ inv] ix_inv_assert_consistent by (auto simp: released_so_far_def)
  with r eff show ?thesis
    by (intro exI [of _ res] exI [of _ s'] exI [of _ ix']) (auto simp: released_so_far_def split: sum.splits)
qed

theorem release_terminal_owners_safe_witness:
  "\<exists>released s' ix'. release_terminal_owners (\<lambda>c hs s. Inr (s @ [c])) demo_graph ([], demo_ix) =
     (Inr released, s', ix') \<and> released = dead_contexts demo_graph \<and> assert_consistent ix' = Inr ()"
  using release_terminal_owners_safe [OF demo_graph_reachable demo_reachable, of "\<lambda>c hs s. Inr (s @ [c])" "[]"]
  by (fastforce split: sum.splits)

definition unread_events :: "runtime_event list" where
  "unread_events = demo_events @
     [(demo_event ''e8'' MESSAGE)\<lparr>ev_invocation_id := Some ''q'', ev_target_invocation_id := Some ''c''\<rparr>,
      (demo_event ''e9'' RETURN)\<lparr>ev_invocation_id := Some ''c''\<rparr>]"

definition unread_graph :: causal_graph where
  "unread_graph = snd (apply_all demo_runtime unread_events (graph_init True))"

text \<open>C34. An unread message keeps a finished context. In a reachable graph take a context of a running
  workflow all of whose invocations are terminal. If one of them has an unread message, the context
  is classified as imminent and its lease is ready, although nothing in it can run again; only
  without unread messages is it parked (when persistent) or dead.\<close>

theorem unread_message_keeps_context:
  assumes g: "reachable d rt g" and x: "map_of (cg_contexts g) c = Some x" and open_: "\<not> ended g (cx_workflow_id x)"
    and now: "0 \<le> now"
    and over: "\<And>i r. map_of (cg_invocations g) i = Some r \<Longrightarrow> iv_context_id r = c \<Longrightarrow> state_terminal (iv_state r)"
  shows "\<exists>a l. assess_context g c now = Inr a \<and> lease_context g c now = Inr l \<and>
    (if \<exists>i r. map_of (cg_invocations g) i = Some r \<and> iv_context_id r = c \<and> 0 < iv_pending_messages r
     then as_class a = IMMINENT \<and> cl_kind l = LEASE_READY
     else if cx_persistent x then as_class a = PARKED \<and> cl_kind l = LEASE_CONDITIONAL_RESUME
     else as_class a = DEAD_UNOWNED \<and> cl_kind l = LEASE_DEAD)"
proof -
  obtain rs where rs: "context_invocations c g = Inr rs"
    and set: "set rs = {r. \<exists>i. map_of (cg_invocations g) i = Some r \<and> iv_context_id r = c}"
    using reachable_context_invocations [OF g x] .
  have done_: "state_terminal (iv_state r)" if "r \<in> set rs" for r using over that unfolding set by blast
  have states: "\<not> (\<exists>r \<in> set rs. iv_state r = RUNNING_LLM)" "\<not> (\<exists>r \<in> set rs. \<not> state_terminal (iv_state r))"
    using done_ live_states by fastforce+
  have unread: "(\<exists>r \<in> set rs. frontier_ready r) \<longleftrightarrow> (\<exists>r \<in> set rs. 0 < iv_pending_messages r)"
    "(\<exists>r \<in> set rs. lease_ready r) \<longleftrightarrow> (\<exists>r \<in> set rs. 0 < iv_pending_messages r)"
    using done_ by (fastforce simp: frontier_ready_def lease_ready_def state_terminal_def)+
  have P: "(\<exists>r \<in> set rs. 0 < iv_pending_messages r) \<longleftrightarrow>
      (\<exists>i r. map_of (cg_invocations g) i = Some r \<and> iv_context_id r = c \<and> 0 < iv_pending_messages r)"
    unfolding set by blast
  obtain l where l: "lease_context g c now = Inr l" "cl_kind l = (if \<exists>r \<in> set rs. 0 < iv_pending_messages r then LEASE_READY
      else if cx_persistent x then LEASE_CONDITIONAL_RESUME else LEASE_DEAD)"
    using lease_context_cases [OF x rs now] states unfolding unread if_not_P [OF open_] by auto
  obtain a where a: "assess_context g c now = Inr a" "as_class a = (if \<exists>r \<in> set rs. 0 < iv_pending_messages r then IMMINENT
      else if cx_persistent x then PARKED else DEAD_UNOWNED)"
    using assess_context_cases [OF x rs, of now] states unfolding unread if_not_P [OF open_] by auto
  show ?thesis unfolding P [symmetric] using l a by (intro exI [of _ a] exI [of _ l]) simp
qed

lemma unread_reachable: "reachable False demo_runtime unread_graph"
  unfolding unread_graph_def by (rule exI) (rule apply_all_runs)

theorem unread_message_keeps_context_witness:
  "\<exists>r a l. context_invocations ''ctx-c'' unread_graph = Inr [r] \<and> iv_state r = DONE \<and>
     assess_context unread_graph ''ctx-c'' 9 = Inr a \<and> as_class a = IMMINENT \<and>
     lease_context unread_graph ''ctx-c'' 9 = Inr l \<and> cl_kind l = LEASE_READY"
proof -
  have "\<exists>r. context_invocations ''ctx-c'' unread_graph = Inr [r] \<and> iv_state r = DONE \<and> 0 < iv_pending_messages r"
    "\<exists>x. map_of (cg_contexts unread_graph) ''ctx-c'' = Some x \<and> cx_workflow_id x = ''w''" "\<not> ended unread_graph ''w''"
    unfolding unread_graph_def unread_events_def demo_events_def
    by (simp_all add: graph_eval on_message_def deliver_message_def bump_edge_def context_invocations_def dict_item_def ended_def)
  then obtain r x where r: "context_invocations ''ctx-c'' unread_graph = Inr [r]" "iv_state r = DONE" "0 < iv_pending_messages r"
    and x: "map_of (cg_contexts unread_graph) ''ctx-c'' = Some x" and o: "\<not> ended unread_graph (cx_workflow_id x)" by auto
  have set: "{r} = {r. \<exists>i. map_of (cg_invocations unread_graph) i = Some r \<and> iv_context_id r = ''ctx-c''}"
    using reachable_context_invocations [OF unread_reachable x] r(1) by auto
  then have only: "q = r" if "map_of (cg_invocations unread_graph) i = Some q" "iv_context_id q = ''ctx-c''" for i q
    using that by blast
  have "\<exists>i q. map_of (cg_invocations unread_graph) i = Some q \<and> iv_context_id q = ''ctx-c'' \<and> 0 < iv_pending_messages q"
    using set r(3) by blast
  moreover have "\<exists>a l. assess_context unread_graph ''ctx-c'' 9 = Inr a \<and> lease_context unread_graph ''ctx-c'' 9 = Inr l \<and>
    (if \<exists>i q. map_of (cg_invocations unread_graph) i = Some q \<and> iv_context_id q = ''ctx-c'' \<and> 0 < iv_pending_messages q
     then as_class a = IMMINENT \<and> cl_kind l = LEASE_READY
     else if cx_persistent x then as_class a = PARKED \<and> cl_kind l = LEASE_CONDITIONAL_RESUME
     else as_class a = DEAD_UNOWNED \<and> cl_kind l = LEASE_DEAD)"
    by (rule unread_message_keeps_context [OF unread_reachable x o]) (use only r(2) in \<open>auto simp: state_terminal_def\<close>)
  ultimately show ?thesis using r by auto
qed

end
