(* ===== verification/Workflow_Fairness.thy ===== *)
theory Workflow_Fairness
  imports Py_Data "HOL-Library.Multiset"
begin

text \<open>
  \<open>policy/workflow_fairness.py\<close>: the weighted fair queue over root workflows. An account records the
  service a workflow attained; \<open>select\<close> picks the runnable workflow with the least effective
  virtual runtime, \<open>ordered\<close> repeats it, \<open>fair_memory_shares\<close> divides memory by weight. Service times,
  runtimes and shares are real numbers here and floats in the code.

  Every operation registers the workflows it is given, with the default weight. Sets are passed
  as lists without repetition in ascending order, which only fixes the order in which new accounts
  are inserted.
\<close>

section \<open>Accounts\<close>

record workflow_account =
  wa_workflow_id :: string
  wa_weight :: real
  wa_attained_service_ms :: real
  wa_dispatch_count :: int

definition virtual_runtime :: "workflow_account \<Rightarrow> real" where
  "virtual_runtime a = wa_attained_service_ms a / wa_weight a"

record fair_scheduler =
  fs_accounts :: "(string, workflow_account) dict"
  fs_memory_penalty_ms :: real
  fs_revision :: int

definition fair_init :: "real \<Rightarrow> fair_scheduler" where
  "fair_init penalty = \<lparr>fs_accounts = [], fs_memory_penalty_ms = penalty, fs_revision = 0\<rparr>"

definition new_account :: "string \<Rightarrow> real \<Rightarrow> workflow_account" where
  "new_account w weight = \<lparr>wa_workflow_id = w, wa_weight = weight, wa_attained_service_ms = 0, wa_dispatch_count = 0\<rparr>"

definition fair_register :: "string \<Rightarrow> real \<Rightarrow> fair_scheduler \<Rightarrow> fair_scheduler result" where
  "fair_register w weight s =
     (if weight \<le> 0 then Inl (ValueError ''workflow weight must be positive'')
      else case map_of (fs_accounts s) w of
        None \<Rightarrow> Inr (s\<lparr>fs_accounts := AList.update w (new_account w weight) (fs_accounts s),
                       fs_revision := fs_revision s + 1\<rparr>)
      | Some a \<Rightarrow>
          if wa_weight a \<noteq> weight
          then Inr (s\<lparr>fs_accounts := dmap_on {w} (\<lambda>a. a\<lparr>wa_weight := weight\<rparr>) (fs_accounts s),
                     fs_revision := fs_revision s + 1\<rparr>)
          else Inr s)"

text \<open>\<open>for workflow_id in ...: self.register(workflow_id)\<close>, with the default weight.\<close>

definition register_all :: "string list \<Rightarrow> fair_scheduler \<Rightarrow> fair_scheduler result" where
  "register_all ws s = rfold (\<lambda>w. fair_register w 1) ws s"

text \<open>A refused charge leaves the scheduler alone.\<close>

definition charge_service :: "string \<Rightarrow> real \<Rightarrow> fair_scheduler \<Rightarrow> fair_scheduler result" where
  "charge_service w service_ms s =
     (if service_ms < 0 then Inl (ValueError ''service_ms must be non-negative'')
      else rbind (fair_register w 1 s) (\<lambda>s1.
        if service_ms = 0 then Inr s1
        else Inr (s1\<lparr>fs_accounts := dmap_on {w} (\<lambda>a. a\<lparr>
                      wa_attained_service_ms := wa_attained_service_ms a + service_ms,
                      wa_dispatch_count := wa_dispatch_count a + 1\<rparr>) (fs_accounts s1),
                    fs_revision := fs_revision s1 + 1\<rparr>)))"

section \<open>Selection\<close>

type_synonym fair_key = "real \<times> real \<times> int \<times> string"

definition memory_share :: "(string, real) dict \<Rightarrow> int \<Rightarrow> string \<Rightarrow> real" where
  "memory_share charges hbm w = (if hbm > 0 then dict_get charges w 0 / of_int hbm else 0)"

definition account_key ::
  "real \<Rightarrow> (string, real) dict \<Rightarrow> int \<Rightarrow> string \<Rightarrow> workflow_account \<Rightarrow> fair_key" where
  "account_key penalty charges hbm w a =
     (let share = memory_share charges hbm w in
      (virtual_runtime a + share * penalty, share, wa_dispatch_count a, w))"

text \<open>\<open>min(runnable, key=key)\<close>; the last component of the least key is the workflow.\<close>

definition fair_select ::
  "string list \<Rightarrow> (string, real) dict \<Rightarrow> int \<Rightarrow> fair_scheduler \<Rightarrow> (string option \<times> fair_scheduler) result" where
  "fair_select runnable charges hbm s =
     (if runnable = [] then Inr (None, s)
      else
        rbind (register_all runnable s) (\<lambda>s1.
        rbind (rmap (\<lambda>w. rbind (dict_item (fs_accounts s1) w w) (\<lambda>a.
                  Inr (account_key (fs_memory_penalty_ms s1) charges hbm w a, w))) runnable) (\<lambda>keyed.
          case keyed of [] \<Rightarrow> Inr (None, s1) | k # ks \<Rightarrow> Inr (Some (snd (py_min_by fst k ks)), s1))))"

text \<open>The loop of \<open>ordered\<close>. It ends because every turn removes a workflow.\<close>

function ordered_loop ::
  "(string, real) dict \<Rightarrow> int \<Rightarrow> string list \<Rightarrow> fair_scheduler \<Rightarrow> (string list \<times> fair_scheduler) result" where
  "ordered_loop charges hbm remaining s =
     (if remaining = [] then Inr ([], s)
      else
        rbind (fair_select remaining charges hbm s) (\<lambda>(selected, s1).
          case selected of
            None \<Rightarrow> Inl (AssertionError ''selected is not None'')
          | Some w \<Rightarrow>
              if w \<notin> set remaining then Inl (KeyError w)
              else rbind (ordered_loop charges hbm (remove1 w remaining) s1) (\<lambda>(ws, s2). Inr (w # ws, s2))))"
  by pat_completeness auto

termination ordered_loop
  by (relation "measure (\<lambda>(charges, hbm, remaining, s). length remaining)")
    (auto simp: length_remove1 length_greater_0_conv [symmetric] simp del: length_greater_0_conv)

declare ordered_loop.simps [simp del]

definition fair_ordered ::
  "string list \<Rightarrow> (string, real) dict \<Rightarrow> int \<Rightarrow> fair_scheduler \<Rightarrow> (string list \<times> fair_scheduler) result" where
  "fair_ordered runnable charges hbm s = ordered_loop charges hbm (py_sorted_set runnable) s"

definition fair_memory_shares ::
  "string list \<Rightarrow> int \<Rightarrow> fair_scheduler \<Rightarrow> ((string, real) dict \<times> fair_scheduler) result" where
  "fair_memory_shares active allocatable s =
     (let ws = py_sorted_set active in
      if ws = [] then Inr ([], s)
      else
        rbind (register_all ws s) (\<lambda>s1.
        rbind (rmap (\<lambda>w. dict_item (fs_accounts s1) w w) ws) (\<lambda>as.
          let total_weight = sum_list (map wa_weight as) in
          Inr (map (\<lambda>(w, a). (w, of_int allocatable * wa_weight a / total_weight)) (zip ws as), s1))))"

section \<open>What registering changes\<close>

definition attained :: "fair_scheduler \<Rightarrow> string \<Rightarrow> real" where
  "attained s w = (case map_of (fs_accounts s) w of None \<Rightarrow> 0 | Some a \<Rightarrow> wa_attained_service_ms a)"

definition dispatches :: "fair_scheduler \<Rightarrow> string \<Rightarrow> int" where
  "dispatches s w = (case map_of (fs_accounts s) w of None \<Rightarrow> 0 | Some a \<Rightarrow> wa_dispatch_count a)"

definition unit_weight :: "fair_scheduler \<Rightarrow> string \<Rightarrow> bool" where
  "unit_weight s w \<longleftrightarrow> (\<exists>a. map_of (fs_accounts s) w = Some a \<and> wa_weight a = 1)"

text \<open>The state after registering differs only in new empty accounts and in weights reset to 1.\<close>

definition same_service :: "fair_scheduler \<Rightarrow> fair_scheduler \<Rightarrow> bool" where
  "same_service s s' \<longleftrightarrow> attained s' = attained s \<and> dispatches s' = dispatches s \<and>
     fs_memory_penalty_ms s' = fs_memory_penalty_ms s \<and> (\<forall>w. unit_weight s w \<longrightarrow> unit_weight s' w)"

lemma same_service_refl [simp]: "same_service s s"
  by (simp add: same_service_def)

lemma same_service_trans: "same_service s s' \<Longrightarrow> same_service s' s'' \<Longrightarrow> same_service s s''"
  by (simp add: same_service_def)

lemma fair_register_effect:
  obtains s' where "fair_register w 1 s = Inr s'" and "same_service s s'" and "unit_weight s' w"
proof (cases "map_of (fs_accounts s) w")
  case None
  then show thesis
    by (intro that) (auto simp: fair_register_def same_service_def unit_weight_def attained_def dispatches_def
        new_account_def map_of_update fun_eq_iff)
next
  case (Some a)
  then show thesis
    by (cases "wa_weight a = 1"; intro that)
      (auto simp: fair_register_def same_service_def unit_weight_def attained_def dispatches_def
        map_of_dmap_on fun_eq_iff)
qed

lemma register_all_effect:
  obtains s' where "register_all ws s = Inr s'" and "same_service s s'" and "\<forall>w \<in> set ws. unit_weight s' w"
proof -
  have "\<exists>s'. register_all ws s = Inr s' \<and> same_service s s' \<and> (\<forall>w \<in> set ws. unit_weight s' w)"
  proof (induction ws arbitrary: s)
    case (Cons w ws)
    obtain s1 where s1: "fair_register w 1 s = Inr s1" "same_service s s1" "unit_weight s1 w"
      by (rule fair_register_effect)
    obtain s2 where s2: "register_all ws s1 = Inr s2" "same_service s1 s2" "\<forall>w \<in> set ws. unit_weight s2 w"
      using Cons.IH by blast
    from s1(3) s2(2) have "unit_weight s2 w" by (simp add: same_service_def)
    with s1 s2 show ?case by (auto simp: register_all_def intro: same_service_trans)
  qed (simp add: register_all_def)
  with that show thesis by blast
qed

text \<open>The reference order: attained service plus the memory penalty, with no weights in it.\<close>

definition service_key :: "fair_scheduler \<Rightarrow> (string, real) dict \<Rightarrow> int \<Rightarrow> string \<Rightarrow> fair_key" where
  "service_key s charges hbm w =
     (attained s w + memory_share charges hbm w * fs_memory_penalty_ms s, memory_share charges hbm w,
      dispatches s w, w)"

lemma service_key_same: "same_service s s' \<Longrightarrow> service_key s' charges hbm = service_key s charges hbm"
  by (simp add: fun_eq_iff service_key_def same_service_def)

lemma account_key_unit:
  "map_of (fs_accounts s) w = Some a \<Longrightarrow> wa_weight a = 1 \<Longrightarrow>
   account_key (fs_memory_penalty_ms s) charges hbm w a = service_key s charges hbm w"
  by (simp add: account_key_def service_key_def virtual_runtime_def attained_def dispatches_def Let_def)

lemma rmap_accounts:
  assumes "\<forall>w \<in> set ws. unit_weight s w"
  shows "rmap (\<lambda>w. rbind (dict_item (fs_accounts s) w w) (\<lambda>a.
      Inr (account_key (fs_memory_penalty_ms s) charges hbm w a, w))) ws =
    Inr (map (\<lambda>w. (service_key s charges hbm w, w)) ws)"
  using assms by (induction ws) (auto simp: unit_weight_def dict_item_def account_key_unit)

lemma fair_select_effect:
  assumes "ws \<noteq> []"
  obtains w s' where "fair_select ws charges hbm s = Inr (Some w, s')" and "same_service s s'"
    and "w \<in> set ws" and "\<forall>v \<in> set ws. service_key s charges hbm w \<le> service_key s charges hbm v"
proof -
  obtain s1 where s1: "register_all ws s = Inr s1" "same_service s s1" "\<forall>w \<in> set ws. unit_weight s1 w"
    by (rule register_all_effect)
  let ?key = "service_key s charges hbm"
  obtain v vs where ws: "ws = v # vs" using assms by (cases ws) auto
  let ?m = "py_min_by fst (?key v, v) (map (\<lambda>w. (?key w, w)) vs)"
  have sel: "fair_select ws charges hbm s = Inr (Some (snd ?m), s1)"
    using s1(1) assms
    by (simp add: fair_select_def rmap_accounts [OF s1(3)] service_key_same [OF s1(2)]) (simp add: ws)
  have mem: "?m \<in> (\<lambda>w. (?key w, w)) ` set ws"
    using py_min_by_mem [of fst "(?key v, v)" "map (\<lambda>w. (?key w, w)) vs"] by (auto simp: ws)
  have least: "fst ?m \<le> ?key u" if "u \<in> set ws" for u
    using py_min_by_le [of "(?key u, u)" "(?key v, v)" "map (\<lambda>w. (?key w, w)) vs" fst] that by (auto simp: ws)
  from mem have "snd ?m \<in> set ws" "?key (snd ?m) = fst ?m" by auto
  with least that [OF sel s1(2)] show thesis by auto
qed

text \<open>The loop is a selection sort by that order.\<close>

lemma ordered_loop_sorts:
  "\<exists>out s'. ordered_loop charges hbm ws s = Inr (out, s') \<and> mset out = mset ws \<and>
     sorted (map (service_key s charges hbm) out) \<and> same_service s s'"
proof (induction "length ws" arbitrary: ws s)
  case 0
  then show ?case by (simp add: ordered_loop.simps)
next
  case (Suc n)
  then have ne: "ws \<noteq> []" by auto
  obtain w s1 where w: "fair_select ws charges hbm s = Inr (Some w, s1)" "same_service s s1" "w \<in> set ws"
    "\<forall>v \<in> set ws. service_key s charges hbm w \<le> service_key s charges hbm v"
    by (rule fair_select_effect [OF ne])
  have "n = length (remove1 w ws)" using Suc.hyps(2) w(3) by (simp add: length_remove1)
  from Suc.hyps(1) [OF this] obtain out s2 where
    o: "ordered_loop charges hbm (remove1 w ws) s1 = Inr (out, s2)" "mset out = mset (remove1 w ws)"
    "sorted (map (service_key s1 charges hbm) out)" "same_service s1 s2" by blast
  have "set out \<subseteq> set ws" using o(2) set_remove1_subset by (metis set_mset_mset)
  then have "sorted (map (service_key s charges hbm) (w # out))"
    using o(3) w(4) by (auto simp: service_key_same [OF w(2)])
  moreover have "mset (w # out) = mset ws" using o(2) w(3) by simp
  moreover have "ordered_loop charges hbm ws s = Inr (w # out, s2)"
    using ne w(1,3) o(1) by (subst ordered_loop.simps) simp
  ultimately show ?case using same_service_trans [OF w(2) o(4)] by blast
qed

section \<open>Properties\<close>

text \<open>\<open>ordered\<close> always returns, and it returns the runnable workflows, each once, sorted by the
  service they attained plus the memory penalty, with ties broken by memory share, dispatch count
  and name. Weights do not enter: the operation resets them to 1 first.\<close>

theorem fair_order_sorted:
  "\<exists>s'. fair_ordered runnable charges hbm s =
     Inr (sort_key (service_key s charges hbm) (py_sorted_set runnable), s') \<and>
     attained s' = attained s \<and> dispatches s' = dispatches s"
proof -
  obtain out s' where out: "fair_ordered runnable charges hbm s = Inr (out, s')"
    "mset out = mset (py_sorted_set runnable)" "sorted (map (service_key s charges hbm) out)" "same_service s s'"
    using ordered_loop_sorts unfolding fair_ordered_def by blast
  have "inj_on (service_key s charges hbm) (set (py_sorted_set runnable))"
    by (simp add: inj_on_def service_key_def)
  then have "sort_key (service_key s charges hbm) (py_sorted_set runnable) = out"
    using out(2,3) by (intro sort_key_inj_key_eq) simp_all
  with out(1,4) show ?thesis by (auto simp: same_service_def)
qed

lemma rmap_unit_accounts:
  assumes "\<forall>w \<in> set ws. unit_weight s w"
  obtains as where "rmap (\<lambda>w. dict_item (fs_accounts s) w w) ws = Inr as" and "length as = length ws"
    and "\<forall>a \<in> set as. wa_weight a = 1"
proof -
  have "\<exists>as. rmap (\<lambda>w. dict_item (fs_accounts s) w w) ws = Inr as \<and> length as = length ws \<and>
      (\<forall>a \<in> set as. wa_weight a = 1)"
    using assms by (induction ws) (auto simp: unit_weight_def dict_item_def)
  with that show thesis by blast
qed

lemma sum_list_ones: "\<forall>a \<in> set as. f a = (1::real) \<Longrightarrow> sum_list (map f as) = of_nat (length as)"
  by (induction as) simp_all

lemma map_zip_const:
  "length as = length ws \<Longrightarrow> \<forall>a \<in> set as. f a = y \<Longrightarrow> map (\<lambda>(w, a). (w, f a)) (zip ws as) = map (\<lambda>w. (w, y)) ws"
  by (induction ws as rule: list_induct2') simp_all

lemma fair_memory_shares_equal:
  assumes "active \<noteq> []"
  obtains s' where "fair_memory_shares active allocatable s =
    Inr (map (\<lambda>w. (w, of_int allocatable / of_nat (card (set active)))) (py_sorted_set active), s')"
proof -
  let ?ws = "py_sorted_set active" and ?y = "of_int allocatable / of_nat (card (set active)) :: real"
  have ne: "?ws \<noteq> []" using assms set_py_sorted_set [of active] by force
  have n: "length ?ws = card (set active)" using distinct_card [of ?ws] by simp
  obtain s1 where s1: "register_all ?ws s = Inr s1" "\<forall>w \<in> set ?ws. unit_weight s1 w"
    by (rule register_all_effect)
  obtain as where as: "rmap (\<lambda>w. dict_item (fs_accounts s1) w w) ?ws = Inr as" "length as = length ?ws"
    "\<forall>a \<in> set as. wa_weight a = 1" by (rule rmap_unit_accounts [OF s1(2)])
  have "map (\<lambda>(w, a). (w, of_int allocatable * wa_weight a / sum_list (map wa_weight as))) (zip ?ws as) =
      map (\<lambda>w. (w, ?y)) ?ws"
    using as(2,3) sum_list_ones [OF as(3)] n by (intro map_zip_const) simp_all
  then have "fair_memory_shares active allocatable s = Inr (map (\<lambda>w. (w, ?y)) ?ws, s1)"
    using ne s1(1) as(1) by (simp add: fair_memory_shares_def Let_def)
  then show thesis by (rule that)
qed

text \<open>C35. Memory shares ignore the weights. Whatever weights were registered before, every active
  workflow gets the same share, the allocatable bytes divided by the number of active workflows, and
  any two schedulers give the same shares: the shares are computed after registering each
  workflow again with the default weight. (In the code the quotient is rounded to a float, the same
  for every workflow, so that the shares need not add up to the allocatable bytes exactly.)\<close>

theorem memory_shares_ignore_weights:
  assumes "active \<noteq> []"
  shows "\<exists>shares s' t'. fair_memory_shares active allocatable s = Inr (shares, s') \<and>
    fair_memory_shares active allocatable t = Inr (shares, t') \<and>
    shares = map (\<lambda>w. (w, of_int allocatable / of_nat (card (set active)))) (py_sorted_set active)"
proof -
  obtain s' where s': "fair_memory_shares active allocatable s =
      Inr (map (\<lambda>w. (w, of_int allocatable / of_nat (card (set active)))) (py_sorted_set active), s')"
    by (rule fair_memory_shares_equal [OF assms])
  obtain t' where t': "fair_memory_shares active allocatable t =
      Inr (map (\<lambda>w. (w, of_int allocatable / of_nat (card (set active)))) (py_sorted_set active), t')"
    by (rule fair_memory_shares_equal [OF assms])
  show ?thesis using s' t' by blast
qed

text \<open>Two workflows registered with the weights 3 and 1 share a hundred bytes equally.\<close>

definition weighted_demo :: fair_scheduler where
  "weighted_demo = projr (rbind (fair_register ''a'' 3 (fair_init 5)) (fair_register ''b'' 1))"

theorem memory_shares_ignore_weights_witness:
  "map_option wa_weight (map_of (fs_accounts weighted_demo) ''a'') = Some 3 \<and>
   (\<exists>s'. fair_memory_shares [''a'', ''b''] 100 weighted_demo = Inr ([(''a'', 50), (''b'', 50)], s'))"
proof -
  have "py_sorted_set [''a'', ''b''] = [''a'', ''b'']" by (simp add: py_sorted_set_def)
  then show ?thesis
    using memory_shares_ignore_weights [of "[''a'', ''b'']" 100 weighted_demo weighted_demo]
    by (auto simp: weighted_demo_def fair_init_def fair_register_def new_account_def)
qed

end
