(* ===== verification/Causal_Frontier.thy ===== *)
theory Causal_Frontier
  imports Causal_Graph_Cases
begin

text \<open>
  \<open>policy/causal_frontier.py\<close>: ordering the ready invocations of a workflow by how much they unblock.
  The classes of the source are the last member of an unsatisfied join, the tail of a chain of
  blocked callers, an invocation with messages, an ordinary one and a background one.

  The walk of \<open>ancestor_distance_to_active_leaf\<close> has no guard against cycles, so it is a
  \<open>partial_function\<close>; it is shown to end in every reachable graph.
\<close>

section \<open>Candidates\<close>

type_synonym frontier_score = "int \<times> int \<times> int \<times> real \<times> string"

record frontier_candidate =
  fc_invocation_id :: string
  fc_workflow_id :: string
  fc_context_id :: string
  fc_causal_class :: string
  fc_unblock_depth :: int
  fc_score :: frontier_score

definition is_join_straggler :: "string \<Rightarrow> causal_graph \<Rightarrow> bool" where
  "is_join_straggler i g =
     (\<exists>j \<in> set (map snd (cg_joins g)).
        \<not> jn_satisfied j \<and> i \<in> jn_member_invocation_ids j \<and>
        jn_member_invocation_ids j - jn_completed_member_ids j = {i} \<and> jn_waiter_invocation_ids j \<noteq> {})"

text \<open>The loop over the ancestors: count while each waits for the one below it.\<close>

fun blocked_chain :: "string \<Rightarrow> invocation_record list \<Rightarrow> int" where
  "blocked_chain c [] = 0"
| "blocked_chain c (a # as) =
     (if iv_state a = WAIT_CHILD \<and> c \<in> iv_blocking_child_ids a
      then 1 + blocked_chain (iv_invocation_id a) as else 0)"

definition unblock_depth :: "invocation_record \<Rightarrow> causal_graph \<Rightarrow> int result" where
  "unblock_depth r g =
     rbind (ancestors (iv_invocation_id r) g) (\<lambda>as. Inr (blocked_chain (iv_invocation_id r) as))"

definition causal_class :: "bool \<Rightarrow> int \<Rightarrow> bool \<Rightarrow> bool \<Rightarrow> string \<times> int" where
  "causal_class straggler depth message_ready background =
     (if straggler then (''join_straggler'', 0)
      else if depth > 0 then (''blocking_chain'', 1)
      else if message_ready then (''message_ready'', 2)
      else if background then (''background'', 4)
      else (''ready'', 3))"

definition candidate :: "causal_graph \<Rightarrow> invocation_record \<Rightarrow> frontier_candidate result" where
  "candidate g r =
     (let straggler = is_join_straggler (iv_invocation_id r) g in
      rbind (unblock_depth r g) (\<lambda>depth.
        let (cls, rank) = causal_class straggler depth (iv_pending_messages r > 0)
                            (iv_execution_mode r = BACKGROUND) in
        Inr \<lparr>fc_invocation_id = iv_invocation_id r, fc_workflow_id = iv_workflow_id r,
             fc_context_id = iv_context_id r, fc_causal_class = cls, fc_unblock_depth = depth,
             fc_score = (rank, - depth, - iv_pending_messages r, iv_updated_ts_ms r, iv_invocation_id r)\<rparr>))"

definition candidates :: "string \<Rightarrow> causal_graph \<Rightarrow> frontier_candidate list result" where
  "candidates w g =
     rbind (rmap (candidate g) (ready_invocations (Some w) g)) (\<lambda>cs. Inr (sort_key fc_score cs))"

definition frontier_select :: "string \<Rightarrow> causal_graph \<Rightarrow> frontier_candidate option result" where
  "frontier_select w g =
     rbind (candidates w g) (\<lambda>cs. Inr (case cs of [] \<Rightarrow> None | c # _ \<Rightarrow> Some c))"

definition describe_invocation :: "string \<Rightarrow> causal_graph \<Rightarrow> frontier_candidate result" where
  "describe_invocation i g = rbind (dict_item (cg_invocations g) i i) (candidate g)"

section \<open>Distance to the active leaves\<close>

text \<open>The inner loop: climb from a descendant until the invocation \<open>i\<close> is its parent. \<open>None\<close> means
  that the loop does not end; \<open>Some (Inr 0)\<close> that it ended without meeting \<open>i\<close>.\<close>

partial_function (option) climb ::
  "causal_graph \<Rightarrow> string \<Rightarrow> nat \<Rightarrow> invocation_record \<Rightarrow> nat result option" where
  "climb g i distance r =
     (case iv_parent_invocation_id r of
        None \<Rightarrow> Some (Inr 0)
      | Some p \<Rightarrow>
          if p = i then Some (Inr (Suc distance))
          else case map_of (cg_invocations g) p of
                 None \<Rightarrow> Some (Inl (KeyError p))
               | Some q \<Rightarrow> climb g i (Suc distance) q)"

fun max_climb :: "causal_graph \<Rightarrow> string \<Rightarrow> invocation_record list \<Rightarrow> nat \<Rightarrow> nat result option" where
  "max_climb g i [] m = Some (Inr m)"
| "max_climb g i (r # rs) m =
     (case climb g i 0 r of
        None \<Rightarrow> None
      | Some (Inl e) \<Rightarrow> Some (Inl e)
      | Some (Inr n) \<Rightarrow> max_climb g i rs (max m n))"

definition ancestor_distance_to_active_leaf :: "string \<Rightarrow> causal_graph \<Rightarrow> nat result option" where
  "ancestor_distance_to_active_leaf i g =
     (case rbind (dict_item (cg_invocations g) i i) (\<lambda>_. active_descendants i g) of
        Inl e \<Rightarrow> Some (Inl e)
      | Inr rs \<Rightarrow> max_climb g i rs 0)"

section \<open>Parent pointers are well founded\<close>

lemma parent_rel_finite: "finite (parent_rel (graph_shape g))"
proof -
  let ?f = "\<lambda>i. (i, the (iv_parent_invocation_id (the (map_of (cg_invocations g) i))))"
  have "parent_rel (graph_shape g) \<subseteq> ?f ` fst ` set (cg_invocations g)"
    by (force simp: parent_rel_def dest: dict_key)
  then show ?thesis by (rule finite_subset) simp
qed

lemma parent_wf:
  assumes "shape_ok (graph_shape g)"
  shows "wf ((parent_rel (graph_shape g))\<inverse>)"
  by (rule finite_acyclic_wf_converse [OF parent_rel_finite shape_okD(5) [OF assms]])

lemma parent_known:
  assumes shape: "shape_ok (graph_shape g)" and r: "map_of (cg_invocations g) i = Some r"
    and p: "iv_parent_invocation_id r = Some p"
  obtains q where "map_of (cg_invocations g) p = Some q" and "iv_invocation_id q = p"
    and "(i, p) \<in> parent_rel (graph_shape g)"
proof -
  have ok: "inv_ok (graph_shape g) i (invocation_shape r)" using shape_okD(1) [OF shape] r by simp
  then obtain q where q: "map_of (cg_invocations g) p = Some q" using p by (auto simp: inv_ok_def member_of_graph)
  have "inv_ok (graph_shape g) p (invocation_shape q)" using shape_okD(1) [OF shape] q by simp
  then have "iv_invocation_id q = p" by (simp add: inv_ok_def)
  moreover have "(i, p) \<in> parent_rel (graph_shape g)" using r p by (auto simp: parent_rel_def)
  ultimately show thesis using q that by blast
qed

lemma ancestors_walk_total:
  assumes shape: "shape_ok (graph_shape g)"
  shows "map_of (cg_invocations g) i = Some r \<Longrightarrow> \<forall>x \<in> seen. (x, i) \<in> (parent_rel (graph_shape g))\<^sup>* \<Longrightarrow>
    \<exists>as. ancestors_walk g seen r = Inr as"
proof (induction i arbitrary: r seen rule: wf_induct_rule [OF parent_wf [OF shape]])
  case (1 i)
  show ?case
  proof (cases "iv_parent_invocation_id r")
    case None
    then show ?thesis by (simp add: ancestors_walk.simps)
  next
    case (Some p)
    obtain q where q: "map_of (cg_invocations g) p = Some q" "(i, p) \<in> parent_rel (graph_shape g)"
      using parent_known [OF shape "1.prems"(1) Some] by blast
    have fresh: "p \<notin> seen"
    proof
      assume "p \<in> seen"
      with "1.prems"(2) q(2) have "(p, p) \<in> (parent_rel (graph_shape g))\<^sup>+" by (meson rtrancl_into_trancl1)
      with shape_okD(5) [OF shape] show False by (simp add: acyclic_def)
    qed
    have seen: "\<forall>x \<in> insert p seen. (x, p) \<in> (parent_rel (graph_shape g))\<^sup>*"
      using "1.prems"(2) q(2) by (auto intro: rtrancl_into_rtrancl)
    obtain as where "ancestors_walk g (insert p seen) q = Inr as"
      using "1.IH" [OF converseI [OF q(2)] q(1) seen] by blast
    then show ?thesis using Some fresh q(1) by (simp add: ancestors_walk.simps [of g seen r])
  qed
qed

lemma candidate_total:
  assumes shape: "shape_ok (graph_shape g)" and r: "map_of (cg_invocations g) i = Some r"
  obtains c where "candidate g r = Inr c" and "fc_invocation_id c = i" and "snd (snd (snd (snd (fc_score c)))) = i"
proof -
  have i: "iv_invocation_id r = i" using shape_okD(1) [OF shape, of i "invocation_shape r"] r by (simp add: inv_ok_def)
  obtain as where "ancestors_walk g {} r = Inr as" using ancestors_walk_total [OF shape r, of "{}"] by auto
  then have "unblock_depth r g = Inr (blocked_chain i as)"
    using r by (simp add: unblock_depth_def ancestors_def dict_item_def i)
  then show thesis using that by (simp add: candidate_def Let_def i case_prod_unfold)
qed

text \<open>The records that the walk over the descendants returns are those of the table.\<close>

lemma descendants_walk_known:
  "shape_ok (graph_shape g) \<Longrightarrow> descendants_walk g seen stack = Inr ds \<Longrightarrow> q \<in> set ds \<Longrightarrow>
   map_of (cg_invocations g) (iv_invocation_id q) = Some q"
proof (induction g seen stack arbitrary: ds rule: descendants_walk.induct)
  case (1 g seen)
  then show ?case by (simp add: descendants_walk.simps)
next
  case (2 g seen c stack)
  show ?case
  proof (cases "c \<in> seen")
    case True
    with 2 show ?thesis by (simp add: descendants_walk.simps(2) [of g seen c stack])
  next
    case False
    then obtain r where r: "map_of (cg_invocations g) c = Some r"
      using "2.prems"(2) by (cases "map_of (cg_invocations g) c") (simp_all add: descendants_walk.simps(2) [of g seen c stack])
    let ?new = "rev (sorted_list_of_set (iv_child_invocation_ids r)) @ stack"
    obtain rest where rest: "descendants_walk g (insert c seen) ?new = Inr rest"
      and "ds = (if state_terminal (iv_state r) then rest else r # rest)"
      using "2.prems"(2) False r
      by (cases "descendants_walk g (insert c seen) ?new") (simp_all add: descendants_walk.simps(2) [of g seen c stack])
    then have "set ds \<subseteq> insert r (set rest)" by auto
    moreover have "iv_invocation_id r = c" using shape_okD(1) [OF "2.prems"(1), of c] r by (auto simp: inv_ok_def)
    ultimately show ?thesis
      using "2.IH"(2) [OF False r "2.prems"(1) rest] "2.prems"(3) r by (cases "q = r") auto
  qed
qed

lemma active_descendants_known:
  assumes "shape_ok (graph_shape g)" and "active_descendants i g = Inr ds" and "q \<in> set ds"
  shows "map_of (cg_invocations g) (iv_invocation_id q) = Some q"
  using assms descendants_walk_known by (auto simp: active_descendants_def)

text \<open>Climbing ends, and counts the parent links up to \<open>i\<close> when it meets \<open>i\<close> on the way.\<close>

lemma climb_total:
  assumes shape: "shape_ok (graph_shape g)"
  shows "map_of (cg_invocations g) k = Some r \<Longrightarrow> (k, i) \<in> (parent_rel (graph_shape g))\<^sup>+ \<Longrightarrow>
    \<exists>m. climb g i d r = Some (Inr (d + m)) \<and> 0 < m \<and> (k, i) \<in> parent_rel (graph_shape g) ^^ m"
proof (induction k arbitrary: r d rule: wf_induct_rule [OF parent_wf [OF shape]])
  case (1 k)
  let ?R = "parent_rel (graph_shape g)"
  obtain p where p: "(k, p) \<in> ?R" "(p, i) \<in> ?R\<^sup>*" using "1.prems"(2) by (meson tranclD)
  then have Some: "iv_parent_invocation_id r = Some p" using "1.prems"(1) by (simp add: parent_rel_def)
  obtain q where q: "map_of (cg_invocations g) p = Some q"
    using parent_known [OF shape "1.prems"(1) Some] by blast
  show ?case
  proof (cases "p = i")
    case True
    then show ?thesis using Some p(1) by (intro exI [of _ 1]) (simp add: climb.simps)
  next
    case False
    then have up: "(p, i) \<in> ?R\<^sup>+" using p(2) by (meson rtranclD)
    obtain m where m: "climb g i (Suc d) q = Some (Inr (Suc d + m))" "(p, i) \<in> ?R ^^ m"
      using "1.IH" [OF converseI [OF p(1)] q up] by blast
    have "(k, i) \<in> ?R ^^ Suc m" using p(1) m(2) by (rule relpow_Suc_I2)
    moreover have "climb g i d r = Some (Inr (d + Suc m))"
      using m(1) q Some False by (simp add: climb.simps [of g i d r])
    ultimately show ?thesis by blast
  qed
qed

lemma child_rel_parent:
  assumes shape: "shape_ok (graph_shape g)" and "(i, c) \<in> (child_rel g)\<^sup>+"
  shows "(c, i) \<in> (parent_rel (graph_shape g))\<^sup>+"
proof -
  have "child_rel g \<subseteq> (parent_rel (graph_shape g))\<inverse>"
  proof
    fix e assume "e \<in> child_rel g"
    then obtain p c r where e: "e = (p, c)" "map_of (cg_invocations g) p = Some r" "c \<in> iv_child_invocation_ids r"
      by (auto simp: child_rel_def)
    have "inv_ok (graph_shape g) p (invocation_shape r)" using shape_okD(1) [OF shape] e(2) by simp
    with e show "e \<in> (parent_rel (graph_shape g))\<inverse>" by (simp add: inv_ok_def)
  qed
  then have "(i, c) \<in> ((parent_rel (graph_shape g))\<inverse>)\<^sup>+" using assms(2) by (meson subsetD trancl_mono)
  then show ?thesis by (simp add: trancl_converse)
qed

text \<open>The outer loop returns the larger of its start and the longest climb.\<close>

lemma max_climb_total:
  assumes shape: "shape_ok (graph_shape g)"
  shows "\<forall>r \<in> set rs. map_of (cg_invocations g) (iv_invocation_id r) = Some r \<and>
      (iv_invocation_id r, i) \<in> (parent_rel (graph_shape g))\<^sup>+ \<Longrightarrow>
    \<exists>n. max_climb g i rs m = Some (Inr n) \<and> m \<le> n \<and>
      (n = m \<or> (\<exists>r \<in> set rs. (iv_invocation_id r, i) \<in> parent_rel (graph_shape g) ^^ n)) \<and>
      (\<forall>r \<in> set rs. \<exists>k. 0 < k \<and> k \<le> n \<and> (iv_invocation_id r, i) \<in> parent_rel (graph_shape g) ^^ k)"
proof (induction rs arbitrary: m)
  case Nil
  then show ?case by simp
next
  case (Cons r rs)
  let ?R = "parent_rel (graph_shape g)"
  obtain l where l: "climb g i 0 r = Some (Inr l)" "0 < l" "(iv_invocation_id r, i) \<in> ?R ^^ l"
    using climb_total [OF shape, where k = "iv_invocation_id r" and d = 0 and r = r and i = i] Cons.prems by auto
  have rs: "\<forall>r \<in> set rs. map_of (cg_invocations g) (iv_invocation_id r) = Some r \<and> (iv_invocation_id r, i) \<in> ?R\<^sup>+"
    using Cons.prems by simp
  obtain n where n: "max_climb g i rs (max m l) = Some (Inr n)" "max m l \<le> n"
    "n = max m l \<or> (\<exists>r \<in> set rs. (iv_invocation_id r, i) \<in> ?R ^^ n)"
    "\<forall>r \<in> set rs. \<exists>k. 0 < k \<and> k \<le> n \<and> (iv_invocation_id r, i) \<in> ?R ^^ k"
    using Cons.IH [OF rs, of "max m l"] by blast
  have "n = m \<or> (\<exists>q \<in> set (r # rs). (iv_invocation_id q, i) \<in> ?R ^^ n)"
    using n(3) l(3) by (auto simp: max_def split: if_splits)
  moreover have "\<forall>q \<in> set (r # rs). \<exists>k. 0 < k \<and> k \<le> n \<and> (iv_invocation_id q, i) \<in> ?R ^^ k"
    using n(2,4) l(2,3) by auto
  ultimately show ?case using n(1,2) l(1) by simp
qed

section \<open>The table of invocations has each id once\<close>

lemma graph_step_keys:
  "graph_step d g h \<Longrightarrow> dict_ok (cg_invocations g) \<Longrightarrow> dict_ok (cg_invocations h)"
  by (induction rule: graph_step.induct)
    (simp_all add: finish_invocation_keys wait_update_def add_invocation_def link_update_def bump_edge_def Let_def)

interpretation cgk: invariant_machine "graph_step d" "\<lambda>g. dict_ok (cg_invocations g)" for d
  by unfold_locales (rule graph_step_keys)

interpretation evk: invariant_machine "event_step d rt" "\<lambda>g. graph_ok d g \<and> dict_ok (cg_invocations g)" for d rt
proof
  fix g h
  assume st: "event_step d rt g h" and ok: "graph_ok d g \<and> dict_ok (cg_invocations g)"
  then obtain h' P L v where h': "steps d g h'"
    and h: "h = h'\<lparr>cg_processed_event_ids := P, cg_last_ts_by_workflow := L, cg_graph_version := v\<rparr>"
    by (blast elim: event_step_steps)
  have "dict_ok (cg_invocations h')" using h' conjunct2 [OF ok] by (rule cgk.run_inv)
  then show "graph_ok d h \<and> dict_ok (cg_invocations h)"
    using evm.step_inv [OF st conjunct1 [OF ok]] by (simp add: h)
qed

lemma reachable_keys: "reachable d rt g \<Longrightarrow> dict_ok (cg_invocations g)"
  using evk.run_inv graph_ok_init by (fastforce simp: graph_init_def)

lemma ready_known:
  assumes "shape_ok (graph_shape g)" and "dict_ok (cg_invocations g)"
  shows "r \<in> set (ready_invocations (Some w) g) \<longleftrightarrow>
    map_of (cg_invocations g) (iv_invocation_id r) = Some r \<and> iv_state r = READY \<and> iv_workflow_id r = w"
proof -
  have "(iv_invocation_id r, r) \<in> set (cg_invocations g)" if "(k, r) \<in> set (cg_invocations g)" for k
  proof -
    have "map_of (cg_invocations g) k = Some r" using that assms(2) by simp
    then have "iv_invocation_id r = k" using shape_okD(1) [OF assms(1), of k "invocation_shape r"] by (simp add: inv_ok_def)
    with that show ?thesis by simp
  qed
  then show ?thesis
    unfolding dict_mem_iff [OF assms(2), symmetric]
    by (force simp: ready_invocations_def)
qed

lemma ready_ids:
  assumes shape: "shape_ok (graph_shape g)" and keys: "dict_ok (cg_invocations g)"
  shows "iv_invocation_id ` set (ready_invocations (Some w) g) =
    {i. \<exists>r. map_of (cg_invocations g) i = Some r \<and> iv_state r = READY \<and> iv_workflow_id r = w}"
proof -
  have "iv_invocation_id r = i" if "map_of (cg_invocations g) i = Some r" for i r
    using that shape_okD(1) [OF shape, of i "invocation_shape r"] by (simp add: inv_ok_def)
  then show ?thesis by (force simp: ready_known [OF shape keys] image_iff)
qed

lemma demo_workflow:
  "map_of (cg_invocations demo_graph) ''c'' = Some c \<Longrightarrow> iv_workflow_id c = ''w''"
  unfolding demo_graph_def demo_events_def by (auto simp: graph_eval)

text \<open>Sorting a list of candidates by their scores.\<close>

lemma candidates_total:
  assumes shape: "shape_ok (graph_shape g)" and keys: "dict_ok (cg_invocations g)"
  obtains cs where "candidates w g = Inr cs" and "sorted (map fc_score cs)"
    and "fc_invocation_id ` set cs = iv_invocation_id ` set (ready_invocations (Some w) g)"
    and "length cs = length (ready_invocations (Some w) g)"
proof -
  have known: "map_of (cg_invocations g) (iv_invocation_id r) = Some r" if "r \<in> set (ready_invocations (Some w) g)" for r
    using that ready_known [OF shape keys] by blast
  have "\<exists>cs. rmap (candidate g) rs = Inr cs \<and> map fc_invocation_id cs = map iv_invocation_id rs"
    if "set rs \<subseteq> set (ready_invocations (Some w) g)" for rs
    using that
  proof (induction rs)
    case (Cons r rs)
    then obtain c where "candidate g r = Inr c" "fc_invocation_id c = iv_invocation_id r"
      using candidate_total [OF shape known [of r]] by auto
    with Cons show ?case by auto
  qed simp
  then obtain cs where cs: "rmap (candidate g) (ready_invocations (Some w) g) = Inr cs"
    "map fc_invocation_id cs = map iv_invocation_id (ready_invocations (Some w) g)" by blast
  show thesis
  proof (rule that [of "sort_key fc_score cs"])
    show "candidates w g = Inr (sort_key fc_score cs)" using cs(1) by (simp add: candidates_def)
    show "sorted (map fc_score (sort_key fc_score cs))" by simp
    show "fc_invocation_id ` set (sort_key fc_score cs) = iv_invocation_id ` set (ready_invocations (Some w) g)"
      using arg_cong [OF cs(2), of set] by simp
    show "length (sort_key fc_score cs) = length (ready_invocations (Some w) g)"
      using arg_cong [OF cs(2), of length] by simp
  qed
qed

section \<open>The queries answer\<close>

lemma describe_invocation_total:
  assumes shape: "shape_ok (graph_shape g)" and r: "map_of (cg_invocations g) i = Some r"
  obtains c where "describe_invocation i g = Inr c" and "fc_invocation_id c = i"
  using candidate_total [OF shape r] r that by (auto simp: describe_invocation_def dict_item_def)

lemma distance_total:
  assumes shape: "shape_ok (graph_shape g)" and r: "map_of (cg_invocations g) i = Some r"
  shows "\<exists>n. ancestor_distance_to_active_leaf i g = Some (Inr n) \<and>
    (n = 0 \<or> (\<exists>c. live_in g c \<and> (c, i) \<in> parent_rel (graph_shape g) ^^ n)) \<and>
    (\<forall>c. (i, c) \<in> (child_rel g)\<^sup>+ \<and> live_in g c \<longrightarrow>
       (\<exists>k. 0 < k \<and> k \<le> n \<and> (c, i) \<in> parent_rel (graph_shape g) ^^ k))"
proof -
  obtain ds where ds: "active_descendants i g = Inr ds"
    "iv_invocation_id ` set ds = {c. (i, c) \<in> (child_rel g)\<^sup>+ \<and> live_in g c}"
    using active_descendants_shape [OF shape r] by blast
  have "\<forall>q \<in> set ds. map_of (cg_invocations g) (iv_invocation_id q) = Some q \<and>
      (iv_invocation_id q, i) \<in> (parent_rel (graph_shape g))\<^sup>+"
    using ds active_descendants_known [OF shape ds(1)] child_rel_parent [OF shape, of i] by auto
  from max_climb_total [OF shape this, of 0] obtain n where n: "max_climb g i ds 0 = Some (Inr n)"
    "n = 0 \<or> (\<exists>q \<in> set ds. (iv_invocation_id q, i) \<in> parent_rel (graph_shape g) ^^ n)"
    "\<forall>q \<in> set ds. \<exists>k. 0 < k \<and> k \<le> n \<and> (iv_invocation_id q, i) \<in> parent_rel (graph_shape g) ^^ k" by blast
  have "n = 0 \<or> (\<exists>c. live_in g c \<and> (c, i) \<in> parent_rel (graph_shape g) ^^ n)" using n(2) ds(2) by blast
  moreover have "\<forall>c. (i, c) \<in> (child_rel g)\<^sup>+ \<and> live_in g c \<longrightarrow>
       (\<exists>k. 0 < k \<and> k \<le> n \<and> (c, i) \<in> parent_rel (graph_shape g) ^^ k)"
    using n(3) ds(2) by (metis (mono_tags, lifting) imageE mem_Collect_eq)
  ultimately show ?thesis using n(1) ds(1) r
    by (simp add: ancestor_distance_to_active_leaf_def dict_item_def)
qed

text \<open>
  C36. The scheduler answers in every reachable graph. \<open>candidates\<close> ranks exactly the ready
  invocations of the workflow, in the order of their scores, and \<open>select\<close> returns the first, or
  nothing when none is ready. For every invocation of the graph \<open>describe_invocation\<close> returns and
  the unguarded climb of \<open>ancestor_distance_to_active_leaf\<close> ends without a missing key: its result
  is the number of parent links from the furthest live descendant, and 0 only without one.
\<close>

theorem frontier_queries_answer:
  assumes "reachable d rt g"
  shows "(\<exists>cs. candidates w g = Inr cs \<and> sorted (map fc_score cs) \<and>
      fc_invocation_id ` set cs =
        {i. \<exists>r. map_of (cg_invocations g) i = Some r \<and> iv_state r = READY \<and> iv_workflow_id r = w} \<and>
      frontier_select w g = Inr (if cs = [] then None else Some (hd cs))) \<and>
    (\<forall>i r. map_of (cg_invocations g) i = Some r \<longrightarrow>
      (\<exists>c. describe_invocation i g = Inr c \<and> fc_invocation_id c = i) \<and>
      (\<exists>n. ancestor_distance_to_active_leaf i g = Some (Inr n) \<and>
         (n = 0 \<or> (\<exists>c. live_in g c \<and> (c, i) \<in> parent_rel (graph_shape g) ^^ n)) \<and>
         (\<forall>c. (i, c) \<in> (child_rel g)\<^sup>+ \<and> live_in g c \<longrightarrow>
            (\<exists>k. 0 < k \<and> k \<le> n \<and> (c, i) \<in> parent_rel (graph_shape g) ^^ k))))"
proof (intro conjI allI impI)
  have shape: "shape_ok (graph_shape g)" using reachable_ok [OF assms] by (simp add: graph_ok_def)
  have keys: "dict_ok (cg_invocations g)" using assms by (rule reachable_keys)
  obtain cs where cs: "candidates w g = Inr cs" "sorted (map fc_score cs)"
    "fc_invocation_id ` set cs = iv_invocation_id ` set (ready_invocations (Some w) g)"
    by (rule candidates_total [OF shape keys])
  note ids = cs(3) [unfolded ready_ids [OF shape keys]]
  have first: "frontier_select w g = Inr (if cs = [] then None else Some (hd cs))"
    using cs(1) by (cases cs) (simp_all add: frontier_select_def)
  show "\<exists>cs. candidates w g = Inr cs \<and> sorted (map fc_score cs) \<and>
      fc_invocation_id ` set cs =
        {i. \<exists>r. map_of (cg_invocations g) i = Some r \<and> iv_state r = READY \<and> iv_workflow_id r = w} \<and>
      frontier_select w g = Inr (if cs = [] then None else Some (hd cs))"
    by (intro exI [of _ cs] conjI cs(1,2) ids first)
  fix i r
  assume r: "map_of (cg_invocations g) i = Some r"
  show "\<exists>c. describe_invocation i g = Inr c \<and> fc_invocation_id c = i"
    by (rule describe_invocation_total [OF shape r]) (intro exI conjI)
  show "\<exists>n. ancestor_distance_to_active_leaf i g = Some (Inr n) \<and>
      (n = 0 \<or> (\<exists>c. live_in g c \<and> (c, i) \<in> parent_rel (graph_shape g) ^^ n)) \<and>
      (\<forall>c. (i, c) \<in> (child_rel g)\<^sup>+ \<and> live_in g c \<longrightarrow>
         (\<exists>k. 0 < k \<and> k \<le> n \<and> (c, i) \<in> parent_rel (graph_shape g) ^^ k))"
    by (rule distance_total [OF shape r])
qed

theorem frontier_queries_answer_witness:
  "\<exists>cs. candidates ''w'' demo_graph = Inr cs \<and> ''c'' \<in> fc_invocation_id ` set cs \<and>
     (\<exists>n. ancestor_distance_to_active_leaf ''p'' demo_graph = Some (Inr n) \<and> 0 < n)"
proof -
  obtain c where c: "map_of (cg_invocations demo_graph) ''c'' = Some c" "iv_state c = READY" "iv_workflow_id c = ''w''"
    using demo_lookups(3) demo_workflow by blast
  obtain p where p: "map_of (cg_invocations demo_graph) ''p'' = Some p" "iv_child_invocation_ids p = {''c''}"
    using demo_lookups(1) by blast
  have "(''p'', ''c'') \<in> child_rel demo_graph" using p by (auto simp: child_rel_def)
  then have "(''p'', ''c'') \<in> (child_rel demo_graph)\<^sup>+" by blast
  moreover have "live_in demo_graph ''c''" using c by (simp add: live_in_def state_terminal_def)
  ultimately have "(''p'', ''c'') \<in> (child_rel demo_graph)\<^sup>+ \<and> live_in demo_graph ''c''" by blast
  then obtain n where "ancestor_distance_to_active_leaf ''p'' demo_graph = Some (Inr n)" "0 < n"
    using frontier_queries_answer [OF demo_graph_reachable, of "''w''", THEN conjunct2, rule_format, OF p(1), THEN conjunct2]
    by (metis less_le_trans)
  moreover obtain cs where "candidates ''w'' demo_graph = Inr cs" "''c'' \<in> fc_invocation_id ` set cs"
    using frontier_queries_answer [OF demo_graph_reachable, of "''w''", THEN conjunct1] c by blast
  ultimately show ?thesis by blast
qed

end
