(* ===== verification/Data_Consumers.thy ===== *)
theory Data_Consumers
  imports Causal_Graph_Cases
begin

text \<open>
  \<open>control/data_consumers.py\<close>: which invocations were observed to consume the output of which others.
  The index reads the causal graph, which its owner keeps updating, so the graph is an argument of
  every operation. \<open>apply\<close> records the edges of an event one after the other and may raise between
  two of them; it returns a result and the index it leaves behind.
\<close>

section \<open>Edges\<close>

datatype consumer_relation = CR_RETURN | CR_MESSAGE | CR_BROADCAST | CR_WORKSPACE | CR_HANDOFF

fun consumer_value :: "consumer_relation \<Rightarrow> string" where
  "consumer_value CR_RETURN = ''return''"
| "consumer_value CR_MESSAGE = ''message''"
| "consumer_value CR_BROADCAST = ''broadcast''"
| "consumer_value CR_WORKSPACE = ''workspace''"
| "consumer_value CR_HANDOFF = ''handoff''"

definition all_consumer_relations :: "consumer_relation list" where
  "all_consumer_relations = [CR_RETURN, CR_MESSAGE, CR_BROADCAST, CR_WORKSPACE, CR_HANDOFF]"

record consumer_edge =
  de_producer :: string
  de_consumer :: string
  de_relation :: consumer_relation
  de_observed :: bool
  de_confidence :: real
  de_last_observed_ts_ms :: real
  de_workflow_id :: string
  de_observation_count :: int

definition consumer_edge_post_init :: "consumer_edge \<Rightarrow> consumer_edge result" where
  "consumer_edge_post_init e =
     (if de_producer e = [] \<or> de_consumer e = []
      then Inl (ValueError ''consumer edge invocation IDs must be non-empty'')
      else if de_producer e = de_consumer e then Inl (ValueError ''a producer cannot consume its own output'')
      else if de_workflow_id e = [] then Inl (ValueError ''consumer edge workflow_id must be non-empty'')
      else if \<not> (0 \<le> de_confidence e \<and> de_confidence e \<le> 1)
      then Inl (ValueError ''consumer edge confidence must be in [0, 1]'')
      else if de_last_observed_ts_ms e < 0
      then Inl (ValueError ''consumer edge timestamp must be non-negative'')
      else if de_observation_count e \<le> 0
      then Inl (ValueError ''consumer edge observation_count must be positive'')
      else if \<not> de_observed e
      then Inl (ValueError ''predicted consumers do not belong in the observed index'')
      else Inr e)"

record consumer_delta =
  cd_event_id :: string
  cd_changed_edges :: "consumer_edge list"
  cd_reactivated_invocation_ids :: "string set"
  cd_index_version :: int

type_synonym edge_key = "string \<times> string \<times> consumer_relation"

record consumer_index =
  ci_edges :: "(edge_key, consumer_edge) dict"
  ci_processed_event_ids :: "string set"
  ci_delta_by_event_id :: "(string, consumer_delta) dict"
  ci_version :: int

definition consumer_index_init :: consumer_index where
  "consumer_index_init =
     \<lparr>ci_edges = [], ci_processed_event_ids = {}, ci_delta_by_event_id = [], ci_version = 0\<rparr>"

fun confidence_score :: "event_confidence \<Rightarrow> real" where
  "confidence_score OBSERVED_EXACT = 1"
| "confidence_score DECLARED_RUNTIME = 9 / 10"
| "confidence_score INFERRED = 1 / 2"

section \<open>Observations\<close>

definition observe ::
  "causal_graph \<Rightarrow> edge_key \<Rightarrow> string \<Rightarrow> real \<Rightarrow> real \<Rightarrow> consumer_index
   \<Rightarrow> (consumer_edge \<times> consumer_index) result" where
  "observe g key w ts confidence ix =
     (case key of (p, c, relation) \<Rightarrow>
        case (map_of (cg_invocations g) p, map_of (cg_invocations g) c) of
          (Some producer, Some consumer) \<Rightarrow>
            if iv_workflow_id producer \<noteq> w \<or> iv_workflow_id consumer \<noteq> w
            then Inl (ValueError ''consumer edge cannot cross root workflows'')
            else
              rbind (case map_of (ci_edges ix) key of
                  None \<Rightarrow>
                    consumer_edge_post_init
                      \<lparr>de_producer = p, de_consumer = c, de_relation = relation, de_observed = True,
                       de_confidence = confidence, de_last_observed_ts_ms = ts, de_workflow_id = w,
                       de_observation_count = 1\<rparr>
                | Some previous \<Rightarrow>
                    if ts < de_last_observed_ts_ms previous
                    then Inl (ValueError ''consumer observations must be timestamp-monotonic'')
                    else consumer_edge_post_init
                      (previous\<lparr>de_confidence := max (de_confidence previous) confidence,
                                de_last_observed_ts_ms := ts,
                                de_observation_count := de_observation_count previous + 1\<rparr>)) (\<lambda>edge.
                Inr (edge, ix\<lparr>ci_edges := AList.update key edge (ci_edges ix)\<rparr>))
        | _ \<Rightarrow> Inl (ValueError ''consumer edge refers to an unknown invocation''))"

text \<open>The edge an event implies by its kind.\<close>

definition implied_observation :: "causal_graph \<Rightarrow> runtime_event \<Rightarrow> edge_key list" where
  "implied_observation g ev =
     (case ev_invocation_id ev of
        None \<Rightarrow> []
      | Some i \<Rightarrow>
          if ev_kind ev \<in> {MESSAGE, HANDOFF} \<and> ev_target_invocation_id ev \<noteq> None
          then [(i, the (ev_target_invocation_id ev), if ev_kind ev = MESSAGE then CR_MESSAGE else CR_HANDOFF)]
          else if ev_kind ev = RETURN
          then (case str_or (ev_return_target_id ev)
                       (case map_of (cg_invocations g) i of None \<Rightarrow> None | Some r \<Rightarrow> iv_return_target_id r) of
                  None \<Rightarrow> []
                | Some t \<Rightarrow> if t = i then [] else [(i, t, CR_RETURN)])
          else [])"

text \<open>The consumers an event names in its attributes: one string, or a list or tuple whose other
  members are skipped. An unknown relation counts as a broadcast.\<close>

fun explicit_consumers :: "py_value \<Rightarrow> py_value list" where
  "explicit_consumers (PStr s) = [PStr s]"
| "explicit_consumers (PList vs) = vs"
| "explicit_consumers (PTuple vs) = vs"
| "explicit_consumers v = []"

definition explicit_relation :: "py_runtime \<Rightarrow> runtime_event \<Rightarrow> consumer_relation" where
  "explicit_relation rt ev =
     (case py_enum consumer_value all_consumer_relations
             (PStr (py_str rt (dict_get (ev_attributes ev) ''consumer_relation''
                (PStr (consumer_value CR_BROADCAST))))) of
        Inl _ \<Rightarrow> CR_BROADCAST | Inr r \<Rightarrow> r)"

fun named_consumer :: "causal_graph \<Rightarrow> string \<Rightarrow> consumer_relation \<Rightarrow> py_value \<Rightarrow> edge_key option" where
  "named_consumer g i r (PStr c) = (if c \<noteq> i \<and> dict_in c (cg_invocations g) then Some (i, c, r) else None)"
| "named_consumer g i r v = None"

definition explicit_observations :: "py_runtime \<Rightarrow> causal_graph \<Rightarrow> runtime_event \<Rightarrow> edge_key list" where
  "explicit_observations rt g ev =
     (case ev_invocation_id ev of
        None \<Rightarrow> []
      | Some i \<Rightarrow>
          List.map_filter (named_consumer g i (explicit_relation rt ev))
            (explicit_consumers (dict_get (ev_attributes ev) ''consumer_invocation_ids'' (PTuple []))))"

definition observation_key :: "edge_key \<Rightarrow> string \<times> string \<times> string" where
  "observation_key k = (case k of (p, c, r) \<Rightarrow> (p, c, consumer_value r))"

definition observations :: "py_runtime \<Rightarrow> causal_graph \<Rightarrow> runtime_event \<Rightarrow> edge_key list" where
  "observations rt g ev =
     sort_key observation_key (remdups (implied_observation g ev @ explicit_observations rt g ev))"

section \<open>Applying events\<close>

fun observe_all ::
  "causal_graph \<Rightarrow> runtime_event \<Rightarrow> edge_key list \<Rightarrow> consumer_index \<Rightarrow> consumer_edge list result \<times> consumer_index"
  where
  "observe_all g ev [] ix = (Inr [], ix)"
| "observe_all g ev (k # ks) ix =
     (case observe g k (ev_workflow_id ev) (ev_ts_ms ev) (confidence_score (ev_confidence ev)) ix of
        Inl e \<Rightarrow> (Inl e, ix)
      | Inr (edge, ix1) \<Rightarrow>
          (case observe_all g ev ks ix1 of
             (Inl e, ix2) \<Rightarrow> (Inl e, ix2)
           | (Inr edges, ix2) \<Rightarrow> (Inr (edge # edges), ix2)))"

definition consumer_apply ::
  "py_runtime \<Rightarrow> causal_graph \<Rightarrow> runtime_event \<Rightarrow> consumer_index \<Rightarrow> consumer_delta result \<times> consumer_index" where
  "consumer_apply rt g ev ix =
     (if ev_event_id ev \<in> ci_processed_event_ids ix
      then (Inr \<lparr>cd_event_id = ev_event_id ev, cd_changed_edges = [], cd_reactivated_invocation_ids = {},
                 cd_index_version = ci_version ix\<rparr>, ix)
      else
        case observe_all g ev (observations rt g ev) ix of
          (Inl e, ix1) \<Rightarrow> (Inl e, ix1)
        | (Inr changed, ix1) \<Rightarrow>
            let reactivated = (if ev_kind ev = REACTIVATE then set_option (ev_invocation_id ev) else {});
                version = (if changed \<noteq> [] \<or> reactivated \<noteq> {} then ci_version ix1 + 1 else ci_version ix1);
                delta = \<lparr>cd_event_id = ev_event_id ev, cd_changed_edges = changed,
                         cd_reactivated_invocation_ids = reactivated, cd_index_version = version\<rparr> in
            (Inr delta,
             ix1\<lparr>ci_processed_event_ids := insert (ev_event_id ev) (ci_processed_event_ids ix1),
                 ci_version := version,
                 ci_delta_by_event_id := AList.update (ev_event_id ev) delta (ci_delta_by_event_id ix1)\<rparr>))"

fun consumer_apply_all ::
  "py_runtime \<Rightarrow> causal_graph \<Rightarrow> runtime_event list \<Rightarrow> consumer_index
   \<Rightarrow> consumer_delta list result \<times> consumer_index" where
  "consumer_apply_all rt g [] ix = (Inr [], ix)"
| "consumer_apply_all rt g (ev # evs) ix =
     (case consumer_apply rt g ev ix of
        (Inl e, ix1) \<Rightarrow> (Inl e, ix1)
      | (Inr d, ix1) \<Rightarrow>
          (case consumer_apply_all rt g evs ix1 of
             (Inl e, ix2) \<Rightarrow> (Inl e, ix2)
           | (Inr ds, ix2) \<Rightarrow> (Inr (d # ds), ix2)))"

definition consumer_apply_batch ::
  "py_runtime \<Rightarrow> causal_graph \<Rightarrow> runtime_event list \<Rightarrow> bool \<Rightarrow> consumer_index
   \<Rightarrow> consumer_delta list result \<times> consumer_index" where
  "consumer_apply_batch rt g evs atomic ix =
     (if \<not> atomic then consumer_apply_all rt g evs ix
      else case consumer_apply_all rt g evs ix of
             (Inl e, _) \<Rightarrow> (Inl e, ix)
           | (Inr ds, ix') \<Rightarrow> (Inr ds, ix'))"

section \<open>Queries\<close>

definition delta_for_event :: "string \<Rightarrow> consumer_index \<Rightarrow> consumer_delta option" where
  "delta_for_event i ix = map_of (ci_delta_by_event_id ix) i"

definition edge_sort_key :: "consumer_edge \<Rightarrow> string \<times> string \<times> string \<times> string" where
  "edge_sort_key e = (de_workflow_id e, de_producer e, de_consumer e, consumer_value (de_relation e))"

definition consumers_for :: "string \<Rightarrow> consumer_index \<Rightarrow> consumer_edge list" where
  "consumers_for p ix = sort_key edge_sort_key (filter (\<lambda>e. de_producer e = p) (map snd (ci_edges ix)))"

definition producers_for :: "string \<Rightarrow> consumer_index \<Rightarrow> consumer_edge list" where
  "producers_for c ix = sort_key edge_sort_key (filter (\<lambda>e. de_consumer e = c) (map snd (ci_edges ix)))"

definition consumer_fanout :: "string \<Rightarrow> consumer_index \<Rightarrow> nat" where
  "consumer_fanout p ix = card (set (map de_consumer (consumers_for p ix)))"

definition edge_to_dict :: "consumer_edge \<Rightarrow> (string, py_value) dict" where
  "edge_to_dict e =
     [(''workflow_id'', PStr (de_workflow_id e)), (''producer_invocation_id'', PStr (de_producer e)),
      (''consumer_invocation_id'', PStr (de_consumer e)), (''relation'', PStr (consumer_value (de_relation e))),
      (''observed'', PBool (de_observed e)), (''confidence'', PFloat (de_confidence e)),
      (''last_observed_ts_ms'', PFloat (de_last_observed_ts_ms e)),
      (''observation_count'', PInt (de_observation_count e))]"

definition consumer_snapshot :: "consumer_index \<Rightarrow> (string, py_value) dict" where
  "consumer_snapshot ix =
     [(''index_version'', PInt (ci_version ix)),
      (''edges'', PList (map (\<lambda>e. PDict (edge_to_dict e)) (sort_key edge_sort_key (map snd (ci_edges ix)))))]"

section \<open>Invocations keep their workflow\<close>

definition workflow_of :: "causal_graph \<Rightarrow> (string \<times> string) set" where
  "workflow_of g = {(i, w). \<exists>r. map_of (cg_invocations g) i = Some r \<and> iv_workflow_id r = w}"

lemma workflow_of_shape: "(i, w) \<in> workflow_of g \<longleftrightarrow> member_of (graph_shape g) w i"
  by (auto simp: workflow_of_def member_of_def)

lemma workflow_of_same_shape: "graph_shape g' = graph_shape g \<Longrightarrow> workflow_of g' = workflow_of g"
  by (auto simp: workflow_of_shape)

lemma workflow_of_mod [simp]:
  "workflow_of (mod_workflow w f g) = workflow_of g" "workflow_of (mod_ctx c h g) = workflow_of g"
  "workflow_of (mod_join j k g) = workflow_of g" "workflow_of (bump_edge s t ts g) = workflow_of g"
  "workflow_of (g\<lparr>cg_workflows := v1\<rparr>) = workflow_of g" "workflow_of (g\<lparr>cg_contexts := v2\<rparr>) = workflow_of g"
  "workflow_of (g\<lparr>cg_joins := v3\<rparr>) = workflow_of g"
  by (simp_all add: workflow_of_def bump_edge_def Let_def)

lemma workflow_of_mod_inv:
  assumes "\<And>r. iv_workflow_id (f r) = iv_workflow_id r"
  shows "workflow_of (mod_inv ks f g) = workflow_of g"
  using assms by (auto simp: workflow_of_def map_of_dmap_on split: if_split_asm)

lemma workflow_of_updates [simp]:
  "workflow_of (mod_inv ks (cancel_live ts) g) = workflow_of g"
  "workflow_of (mod_inv ks (wake_waiter ts) g) = workflow_of g"
  "workflow_of (wait_update i k s ts g) = workflow_of g"
  "workflow_of (link_update p c P ret mode relation ts g) = workflow_of g"
  by (simp_all add: workflow_of_mod_inv cancel_live_def wake_waiter_def wait_update_def link_update_def Let_def)

lemma graph_step_workflow_of: "graph_step d g g' \<Longrightarrow> workflow_of g \<subseteq> workflow_of g'"
proof (induction rule: graph_step.induct)
  case (invocation_new g i r persistent)
  then have "map_of (cg_invocations g) i = None" by (simp add: new_invocation_ok_def)
  then show ?case by (auto simp: workflow_of_def add_invocation_def map_of_update)
next
  case (invocation_change g i f)
  have "graph_shape (mod_inv {i} f g) = graph_shape g"
    using invocation_change by (subst shape_mod_inv) (auto simp: calm_change_def)
  from workflow_of_same_shape [OF this] show ?case by simp
next
  case (invocation_finish g i r s ts)
  from workflow_of_same_shape [OF shape_finish_invocation] show ?case by simp
qed simp_all

interpretation cgw: monotone_machine "graph_step d" "graph_ok d" workflow_of for d
  by unfold_locales (rule graph_step_workflow_of)

lemma event_step_workflow_of:
  assumes "event_step d rt g h" and ok: "graph_ok d g"
  shows "workflow_of g \<subseteq> workflow_of h"
proof -
  obtain h' P L v where h': "steps d g h'"
    and h: "h = h'\<lparr>cg_processed_event_ids := P, cg_last_ts_by_workflow := L, cg_graph_version := v\<rparr>"
    using event_step_steps [OF assms] .
  have "workflow_of g \<subseteq> workflow_of h'" using h' ok by (rule cgw.run_mono)
  then show ?thesis by (simp add: h workflow_of_def)
qed

section \<open>The index stays well formed\<close>

definition edge_ok :: "causal_graph \<Rightarrow> edge_key \<Rightarrow> consumer_edge \<Rightarrow> bool" where
  "edge_ok g k e \<longleftrightarrow>
     k = (de_producer e, de_consumer e, de_relation e) \<and> de_producer e \<noteq> de_consumer e \<and>
     0 \<le> de_confidence e \<and> de_confidence e \<le> 1 \<and> 0 \<le> de_last_observed_ts_ms e \<and>
     0 < de_observation_count e \<and> de_observed e \<and>
     (de_producer e, de_workflow_id e) \<in> workflow_of g \<and> (de_consumer e, de_workflow_id e) \<in> workflow_of g"

definition edges_wf :: "causal_graph \<Rightarrow> consumer_index \<Rightarrow> bool" where
  "edges_wf g ix \<longleftrightarrow> dict_ok (ci_edges ix) \<and> (\<forall>k e. map_of (ci_edges ix) k = Some e \<longrightarrow> edge_ok g k e)"

definition ledger_wf :: "consumer_index \<Rightarrow> bool" where
  "ledger_wf ix \<longleftrightarrow>
     dict_ok (ci_delta_by_event_id ix) \<and> fst ` set (ci_delta_by_event_id ix) = ci_processed_event_ids ix \<and>
     0 \<le> ci_version ix \<and> ci_version ix \<le> int (card (ci_processed_event_ids ix))"

lemma post_init_edge:
  "consumer_edge_post_init e = Inr e' \<longleftrightarrow>
     e' = e \<and> de_producer e \<noteq> [] \<and> de_consumer e \<noteq> [] \<and> de_producer e \<noteq> de_consumer e \<and>
     de_workflow_id e \<noteq> [] \<and> 0 \<le> de_confidence e \<and> de_confidence e \<le> 1 \<and>
     0 \<le> de_last_observed_ts_ms e \<and> 0 < de_observation_count e \<and> de_observed e"
  by (auto simp: consumer_edge_post_init_def split: if_split_asm)

lemma observe_wf:
  assumes "observe g k w ts conf ix = Inr (e, ix')" and wf: "edges_wf g ix"
  shows "edges_wf g ix'" and "ledger_wf ix' = ledger_wf ix"
    and "ci_processed_event_ids ix' = ci_processed_event_ids ix"
proof -
  obtain p c r where k: "k = (p, c, r)" by (cases k)
  from assms(1) obtain P C where P: "map_of (cg_invocations g) p = Some P" "iv_workflow_id P = w"
    and C: "map_of (cg_invocations g) c = Some C" "iv_workflow_id C = w"
    by (auto simp: observe_def k split: option.splits if_split_asm)
  then have known: "(p, w) \<in> workflow_of g" "(c, w) \<in> workflow_of g" by (auto simp: workflow_of_def)
  have ix': "ix' = ix\<lparr>ci_edges := AList.update k e (ci_edges ix)\<rparr>"
    using assms(1) P C by (auto simp: observe_def k split: option.splits if_split_asm)
  have "edge_ok g k e"
  proof (cases "map_of (ci_edges ix) k")
    case None
    with assms(1) P C known show ?thesis by (auto simp: observe_def k post_init_edge edge_ok_def)
  next
    case (Some e0)
    then have "edge_ok g k e0" using wf unfolding edges_wf_def by blast
    with Some assms(1) P C known show ?thesis
      by (auto simp: observe_def k post_init_edge edge_ok_def split: if_split_asm)
  qed
  with wf show "edges_wf g ix'" by (auto simp: ix' edges_wf_def map_of_update)
  show "ledger_wf ix' = ledger_wf ix" "ci_processed_event_ids ix' = ci_processed_event_ids ix"
    by (simp_all add: ix' ledger_wf_def)
qed

lemma observe_all_wf:
  assumes "edges_wf g ix"
  shows "edges_wf g (snd (observe_all g ev ks ix)) \<and>
    ledger_wf (snd (observe_all g ev ks ix)) = ledger_wf ix \<and>
    ci_processed_event_ids (snd (observe_all g ev ks ix)) = ci_processed_event_ids ix"
  using assms
proof (induction ks arbitrary: ix)
  case (Cons k ks)
  show ?case
  proof (cases "observe g k (ev_workflow_id ev) (ev_ts_ms ev) (confidence_score (ev_confidence ev)) ix")
    case (Inl e)
    with Cons.prems show ?thesis by simp
  next
    case (Inr r)
    then obtain e ix1 where r: "observe g k (ev_workflow_id ev) (ev_ts_ms ev) (confidence_score (ev_confidence ev)) ix
        = Inr (e, ix1)" by (cases r) auto
    note wf = observe_wf [OF r Cons.prems]
    from Cons.IH [OF wf(1)] wf r show ?thesis by (auto split: prod.splits sum.splits)
  qed
qed simp

lemma consumer_apply_wf:
  assumes "edges_wf g ix" and "ledger_wf ix"
  shows "edges_wf g (snd (consumer_apply rt g ev ix))" and "ledger_wf (snd (consumer_apply rt g ev ix))"
proof -
  obtain res ix1 where o: "observe_all g ev (observations rt g ev) ix = (res, ix1)" by force
  have ix1: "edges_wf g ix1" "ledger_wf ix1" "ci_processed_event_ids ix1 = ci_processed_event_ids ix"
    using observe_all_wf [OF assms(1), of ev "observations rt g ev"] assms(2) by (simp_all add: o)
  have fin: "finite (ci_processed_event_ids ix1)"
    using ix1(2) by (metis List.finite_set finite_imageI ledger_wf_def)
  show "edges_wf g (snd (consumer_apply rt g ev ix))"
    using assms(1) ix1(1) by (cases res) (simp_all add: consumer_apply_def o Let_def edges_wf_def)
  show "ledger_wf (snd (consumer_apply rt g ev ix))"
  proof (cases "ev_event_id ev \<in> ci_processed_event_ids ix")
    case True
    then show ?thesis using assms(2) by (simp add: consumer_apply_def)
  next
    case False
    then have "ev_event_id ev \<notin> ci_processed_event_ids ix1" by (simp add: ix1(3))
    with False ix1(2) fin show ?thesis
      by (cases res) (simp_all add: consumer_apply_def o Let_def ledger_wf_def)
  qed
qed

lemma consumer_apply_all_wf:
  assumes "edges_wf g ix" and "ledger_wf ix"
  shows "edges_wf g (snd (consumer_apply_all rt g evs ix)) \<and> ledger_wf (snd (consumer_apply_all rt g evs ix))"
  using assms
proof (induction evs arbitrary: ix)
  case (Cons ev evs)
  obtain res ix1 where o: "consumer_apply rt g ev ix = (res, ix1)" by force
  have "edges_wf g ix1" "ledger_wf ix1" using consumer_apply_wf [OF Cons.prems, of rt ev] by (simp_all add: o)
  with Cons.IH [of ix1] o show ?case by (auto split: prod.splits sum.splits)
qed simp

lemma edges_wf_mono: "edges_wf g ix \<Longrightarrow> workflow_of g \<subseteq> workflow_of h \<Longrightarrow> edges_wf h ix"
  unfolding edges_wf_def edge_ok_def by blast

text \<open>The graph and the index run side by side: events change the graph, and the index takes in
  events one at a time or in batches, successfully or not.\<close>

inductive feed_step :: "py_runtime \<Rightarrow> causal_graph \<times> consumer_index \<Rightarrow> causal_graph \<times> consumer_index \<Rightarrow> bool"
  for rt where
  graph_event: "event_step False rt g h \<Longrightarrow> feed_step rt (g, ix) (h, ix)"
| consume: "feed_step rt (g, ix) (g, snd (consumer_apply rt g ev ix))"
| consume_batch: "feed_step rt (g, ix) (g, snd (consumer_apply_batch rt g evs atomic ix))"

definition feed_inv :: "causal_graph \<times> consumer_index \<Rightarrow> bool" where
  "feed_inv st \<longleftrightarrow> graph_ok False (fst st) \<and> edges_wf (fst st) (snd st) \<and> ledger_wf (snd st)"

lemma feed_step_inv: "feed_step rt st st' \<Longrightarrow> feed_inv st \<Longrightarrow> feed_inv st'"
proof (induction rule: feed_step.induct)
  case (graph_event g h ix)
  then have "graph_ok False h" using evm.step_inv by (auto simp: feed_inv_def)
  with graph_event show ?case
    using event_step_workflow_of [OF graph_event(1)] by (auto simp: feed_inv_def intro: edges_wf_mono)
next
  case (consume g ix ev)
  then show ?case by (simp add: feed_inv_def consumer_apply_wf)
next
  case (consume_batch g ix evs atomic)
  then show ?case
    using consumer_apply_all_wf [of g ix rt evs]
    by (auto simp: feed_inv_def consumer_apply_batch_def split: prod.splits sum.splits)
qed

interpretation feed: invariant_machine "feed_step rt" feed_inv for rt
  by unfold_locales (rule feed_step_inv)

lemma feed_inv_init: "feed_inv (graph_init strict, consumer_index_init)"
  using graph_ok_init [of False strict]
  by (simp add: feed_inv_def edges_wf_def ledger_wf_def consumer_index_init_def)

lemma fanout_exact:
  assumes "edges_wf g ix"
  shows "consumer_fanout p ix = card {c. \<exists>r. (p, c, r) \<in> fst ` set (ci_edges ix)}"
proof -
  have key: "k = (de_producer e, de_consumer e, de_relation e)" if "(k, e) \<in> set (ci_edges ix)" for k e
  proof -
    have "map_of (ci_edges ix) k = Some e" using that assms by (simp add: edges_wf_def)
    then show ?thesis using assms unfolding edges_wf_def edge_ok_def by blast
  qed
  have "set (map de_consumer (consumers_for p ix)) = {c. \<exists>r. (p, c, r) \<in> fst ` set (ci_edges ix)}"
  proof (intro equalityI subsetI)
    fix c assume "c \<in> set (map de_consumer (consumers_for p ix))"
    then obtain k e where "(k, e) \<in> set (ci_edges ix)" "de_producer e = p" "de_consumer e = c"
      by (auto simp: consumers_for_def)
    with key [of k e] show "c \<in> {c. \<exists>r. (p, c, r) \<in> fst ` set (ci_edges ix)}" by force
  next
    fix c assume "c \<in> {c. \<exists>r. (p, c, r) \<in> fst ` set (ci_edges ix)}"
    then obtain r e where e: "((p, c, r), e) \<in> set (ci_edges ix)" by auto
    with key [OF e] show "c \<in> set (map de_consumer (consumers_for p ix))"
      by (force simp: consumers_for_def)
  qed
  then show ?thesis by (simp only: consumer_fanout_def)
qed

section \<open>Properties\<close>

text \<open>Whatever the graph and the index go through, events applied or refused, one by one or in
  batches, every stored edge sits under its own key, joins two different known invocations of its
  workflow, and has a confidence between 0 and 1 and a positive count; a delta is stored exactly
  for the processed events; the version never exceeds their number; and the fan-out of a producer
  counts its distinct consumers.\<close>

theorem consumer_index_sound:
  assumes "(feed_step rt)\<^sup>*\<^sup>* (graph_init strict, consumer_index_init) (g, ix)"
  shows "(\<forall>k e. map_of (ci_edges ix) k = Some e \<longrightarrow> edge_ok g k e) \<and>
    (\<forall>i. delta_for_event i ix \<noteq> None \<longleftrightarrow> i \<in> ci_processed_event_ids ix) \<and>
    0 \<le> ci_version ix \<and> ci_version ix \<le> int (card (ci_processed_event_ids ix)) \<and>
    (\<forall>p. consumer_fanout p ix = card {c. \<exists>r. (p, c, r) \<in> fst ` set (ci_edges ix)})"
proof -
  have inv: "edges_wf g ix" "ledger_wf ix"
    using feed.run_inv [OF assms feed_inv_init] by (simp_all add: feed_inv_def)
  have "delta_for_event i ix \<noteq> None \<longleftrightarrow> i \<in> ci_processed_event_ids ix" for i
    using inv(2) by (simp add: delta_for_event_def ledger_wf_def map_of_eq_None_iff)
  with inv fanout_exact [OF inv(1)] show ?thesis unfolding edges_wf_def ledger_wf_def by blast
qed

definition consumer_demo_event :: runtime_event where
  "consumer_demo_event = (demo_event ''e8'' MESSAGE)
     \<lparr>ev_invocation_id := Some ''p'', ev_target_invocation_id := Some ''c''\<rparr>"

definition consumer_demo :: consumer_index where
  "consumer_demo = snd (consumer_apply demo_runtime demo_graph consumer_demo_event consumer_index_init)"

lemma consumer_demo_run:
  "(feed_step demo_runtime)\<^sup>*\<^sup>* (graph_init True, consumer_index_init) (demo_graph, consumer_demo)"
proof -
  have "(event_step False rt)\<^sup>*\<^sup>* g (snd (apply_all rt evs g))" for rt evs g
  proof (induction evs arbitrary: g)
    case (Cons ev evs)
    have "event_step False rt g (snd (apply_event rt ev g))" by (rule event_step.applied) simp
    from converse_rtranclp_into_rtranclp [OF this Cons.IH] r_into_rtranclp [of "event_step False rt", OF this]
    show ?case by (auto simp: after_def split: prod.splits sum.splits)
  qed simp
  then have "(event_step False demo_runtime)\<^sup>*\<^sup>* (graph_init True) demo_graph" by (simp add: demo_graph_def)
  then have "(feed_step demo_runtime)\<^sup>*\<^sup>* (graph_init True, consumer_index_init) (demo_graph, consumer_index_init)"
    by (induction rule: rtranclp_induct) (auto intro: rtranclp.rtrancl_into_rtrancl feed_step.graph_event)
  then show ?thesis unfolding consumer_demo_def by (rule rtranclp.rtrancl_into_rtrancl) (rule feed_step.consume)
qed

lemma consumer_demo_edge: "fst ` set (ci_edges consumer_demo) = {(''p'', ''c'', CR_MESSAGE)}"
proof -
  obtain P where P: "map_of (cg_invocations demo_graph) ''p'' = Some P" "iv_workflow_id P = ''w''"
    unfolding demo_graph_def demo_events_def by (simp add: graph_eval)
  obtain C where C: "map_of (cg_invocations demo_graph) ''c'' = Some C" "iv_workflow_id C = ''w''"
    unfolding demo_graph_def demo_events_def by (simp add: graph_eval)
  show ?thesis
    by (simp add: consumer_demo_def consumer_apply_def consumer_demo_event_def demo_event_def observations_def
        implied_observation_def explicit_observations_def dict_get_def List.map_filter_def observe_def P C
        consumer_index_init_def consumer_edge_post_init_def Let_def)
qed

theorem consumer_index_sound_witness:
  "consumer_fanout ''p'' consumer_demo = card {c. \<exists>r. (''p'', c, r) \<in> fst ` set (ci_edges consumer_demo)} \<and>
   consumer_fanout ''p'' consumer_demo = 1"
proof -
  have "{c. \<exists>r. (''p'', c, r) \<in> fst ` set (ci_edges consumer_demo)} = {''c''}"
    unfolding consumer_demo_edge by auto
  then show ?thesis using consumer_index_sound [OF consumer_demo_run] by simp
qed

end
