(* ===== verification/Bundles.thy ===== *)
theory Bundles
  imports Residency
begin

text \<open>
  \<open>runtime/bundles.py\<close>: closure-complete transfer candidates. A preview of a bundle collects the
  GPU-resident descendants of a page (or, for a prefetch, its evicted ancestors), the action for
  each of them and every reason why the bundle may not be moved; only a preview without such a
  blocker becomes an intent that a command can carry.

  Identifiers and fingerprints are hashes of printed tuples. The hash is a parameter \<open>digest\<close>: the
  hexadecimal BLAKE2b digest, of a given size, of the text of a value. A lease condition is printed
  as its class name and its fields.

  The walk over the ancestors of an offloaded page has no guard against cycles; coming back to a
  page is the outcome \<open>NonTermination\<close>.
\<close>

section \<open>Wire values\<close>

fun residency_value :: "physical_residency \<Rightarrow> string" where
  "residency_value GPU_ONLY = ''gpu_only''"
| "residency_value MIRRORING = ''mirroring''"
| "residency_value DUAL_CLEAN = ''dual_clean''"
| "residency_value CPU_ONLY = ''cpu_only''"
| "residency_value PREFETCHING = ''prefetching''"
| "residency_value DEAD = ''dead''"

fun direction_value :: "transfer_direction \<Rightarrow> string" where
  "direction_value D2H = ''d2h''"
| "direction_value H2D = ''h2d''"

fun command_kind_value :: "command_kind \<Rightarrow> string" where
  "command_kind_value ADMIT_REQUEST = ''admit_request''"
| "command_kind_value DEFER_REQUEST = ''defer_request''"
| "command_kind_value OFFLOAD_CONTEXT = ''offload_context''"
| "command_kind_value DROP_CONTEXT = ''drop_context''"
| "command_kind_value SHADOW_CONTEXT = ''shadow_context''"
| "command_kind_value PREFETCH_CONTEXT = ''prefetch_context''"
| "command_kind_value DROP_UNOWNED = ''drop_unowned''"
| "command_kind_value DROP_TERMINAL_PRIVATE = ''drop_terminal_private''"
| "command_kind_value PIN_CONTEXT = ''pin_context''"
| "command_kind_value UNPIN_CONTEXT = ''unpin_context''"
| "command_kind_value SET_WORKFLOW_BUDGET = ''set_workflow_budget''"

fun lease_kind_value :: "lease_kind \<Rightarrow> string" where
  "lease_kind_value LEASE_DEAD = ''dead''"
| "lease_kind_value LEASE_SPECULATIVE = ''speculative''"
| "lease_kind_value LEASE_CONDITIONAL_RESUME = ''conditional_resume''"
| "lease_kind_value LEASE_READY = ''ready''"
| "lease_kind_value LEASE_RUNNING = ''running''"

section \<open>Records\<close>

datatype bundle_scope = EXCLUSIVE_SUFFIX | SHARED_SUBTREE

record physical_bundle =
  bd_bundle_id :: string
  bd_handles :: "page_handle list"
  bd_owner_context_ids :: "string list"
  bd_scope :: bundle_scope
  bd_exclusive_action_bytes :: int
  bd_cross_context_action_bytes :: int
  bd_foreign_owner_context_ids :: "string list"
  bd_physical_unique_bytes :: int
  bd_gpu_bytes :: int
  bd_cpu_bytes :: int
  bd_marginal_reclaimable_bytes :: int
  bd_closure_bytes :: int
  bd_locked_bytes :: int
  bd_residency :: string
  bd_generation_fingerprint :: string
  bd_lease :: bundle_lease

record bundle_preview =
  bp_command_kind :: command_kind
  bp_context_id :: string
  bp_context_epoch :: int
  bp_bundle :: physical_bundle
  bp_page_actions :: "resolved_page_action list"
  bp_blockers :: "transfer_blocker list"
  bp_copy_bytes :: int

definition preview_eligible :: "bundle_preview \<Rightarrow> bool" where
  "preview_eligible p = (bp_page_actions p \<noteq> [] \<and> bp_blockers p = [])"

definition preview_intent :: "bundle_preview \<Rightarrow> physical_bundle_intent result" where
  "preview_intent p =
     (if \<not> preview_eligible p
      then Inl (ValueError ''a blocked physical bundle cannot become an intent'')
      else physical_bundle_intent_post_init
        \<lparr>pbi_bundle_id = bd_bundle_id (bp_bundle p), pbi_closure_handles = bd_handles (bp_bundle p),
         pbi_page_actions = bp_page_actions p,
         pbi_generation_fingerprint = bd_generation_fingerprint (bp_bundle p),
         pbi_closure_bytes = bd_closure_bytes (bp_bundle p),
         pbi_expected_reclaimable_bytes = bd_marginal_reclaimable_bytes (bp_bundle p),
         pbi_locked_bytes = bd_locked_bytes (bp_bundle p)\<rparr>)"

type_synonym page_closure = "(page_handle, page_record) dict"

text \<open>The keyword arguments that say which owners may lose their pages. \<open>ow_protected\<close> comes from the
  metadata of a command and may be any value.\<close>

record owner_rules =
  ow_allow_ready :: bool
  ow_protected :: py_value
  ow_bypass :: "string set"

section \<open>Blockers\<close>

definition make_blocker ::
  "transfer_blocker_code \<Rightarrow> page_handle \<Rightarrow> int \<Rightarrow> string \<Rightarrow> transfer_blocker result" where
  "make_blocker code h bytes detail =
     transfer_blocker_post_init
       \<lparr>tb_code = code, tb_page_handle = Some h, tb_required_bytes = bytes, tb_detail = detail\<rparr>"

definition page_blocker ::
  "page_record \<Rightarrow> transfer_blocker_code \<times> string \<Rightarrow> transfer_blocker result" where
  "page_blocker p = (\<lambda>(code, detail). make_blocker code (pg_handle p) (pg_size_bytes p) detail)"

definition page_action :: "page_record \<Rightarrow> physical_page_action \<Rightarrow> resolved_page_action result" where
  "page_action p a =
     resolved_page_action_post_init
       \<lparr>rpa_handle = pg_handle p, rpa_action = a, rpa_size_bytes = pg_size_bytes p\<rparr>"

definition page_obstacles :: "page_record \<Rightarrow> (transfer_blocker_code \<times> string) list" where
  "page_obstacles p =
     (if \<not> pg_sealed p then [(UNSEALED, ''page extent is not sealed'')] else [])
     @ (if pg_engine_lock_ref p > 0 \<or> pg_active_reader_count p > 0
        then [(NODE_LOCKED, ''page has an engine lock or active reader'')] else [])
     @ (if pg_semantic_pin_contexts p \<noteq> {} then [(SEMANTIC_PIN, ''page is semantically pinned'')] else [])
     @ (if \<not> transfer_idle p
        then [(if pg_residency p = PREFETCHING then NODE_LOADING else INFLIGHT, ''page has an in-flight transfer'')]
        else [])"

definition page_blockers :: "page_record \<Rightarrow> transfer_blocker list result" where
  "page_blockers p = rmap (page_blocker p) (page_obstacles p)"

definition owner_blocked :: "owner_rules \<Rightarrow> string \<Rightarrow> lease_kind \<Rightarrow> bool" where
  "owner_blocked rules c kind =
     (PStr c = ow_protected rules \<or> kind = LEASE_RUNNING \<or> (kind = LEASE_READY \<and> \<not> ow_allow_ready rules))"

definition owner_blocker ::
  "causal_graph \<Rightarrow> real \<Rightarrow> owner_rules \<Rightarrow> page_record \<Rightarrow> string \<Rightarrow> transfer_blocker list result" where
  "owner_blocker g now rules p c =
     (if c \<in> ow_bypass rules then Inr []
      else rbind (lease_context g c now) (\<lambda>lease.
        if owner_blocked rules c (cl_kind lease)
        then rbind (page_blocker p (ENGINE_BUSY,
               ''owner '' @ c @ '' has '' @ lease_kind_value (cl_kind lease) @ '' lease'')) (\<lambda>b. Inr [b])
        else Inr []))"

definition owner_blockers ::
  "causal_graph \<Rightarrow> real \<Rightarrow> owner_rules \<Rightarrow> page_record \<Rightarrow> transfer_blocker list result" where
  "owner_blockers g now rules p =
     rbind (rmap (owner_blocker g now rules p) (sort (map fst (pg_owner_contexts p)))) (\<lambda>bss. Inr (concat bss))"

text \<open>The dictionary keyed by all fields of a blocker keeps the first position of each.\<close>

definition blocker_key :: "transfer_blocker \<Rightarrow> string \<times> page_handle \<times> int \<times> string" where
  "blocker_key b =
     (transfer_blocker_code_value (tb_code b),
      (case tb_page_handle b of None \<Rightarrow> PageHandle 0 0 | Some h \<Rightarrow> h), tb_required_bytes b, tb_detail b)"

definition deduplicate_blockers :: "transfer_blocker list \<Rightarrow> transfer_blocker list" where
  "deduplicate_blockers bs = sort_key blocker_key (rev (remdups (rev bs)))"

section \<open>Closures\<close>

definition closure_blocker :: "transfer_blocker_code \<Rightarrow> page_handle \<Rightarrow> string \<Rightarrow> transfer_blocker" where
  "closure_blocker code h detail =
     \<lparr>tb_code = code, tb_page_handle = Some h, tb_required_bytes = 0, tb_detail = detail\<rparr>"

text \<open>\<open>_gpu_descendant_closure\<close>, the stack with its top first.\<close>

function gpu_closure ::
  "page_index \<Rightarrow> page_handle list \<Rightarrow> page_closure \<Rightarrow> transfer_blocker list \<Rightarrow> page_closure \<times> transfer_blocker list"
  where
  "gpu_closure ix [] closure bs = (closure, bs)"
| "gpu_closure ix (h # stack) closure bs =
     (if dict_in h closure
      then gpu_closure ix stack closure (bs @ [closure_blocker EXTENT_MUTATED h ''Radix descendant cycle''])
      else case map_of (ix_pages ix) h of
        None \<Rightarrow> gpu_closure ix stack closure
          (bs @ [closure_blocker DESCENDANT_CLOSURE h ''Radix descendant is missing''])
      | Some p \<Rightarrow>
          if page_dead p
          then gpu_closure ix stack closure
            (bs @ [closure_blocker DESCENDANT_CLOSURE h ''Radix descendant is missing''])
          else if \<not> gpu_resident p then gpu_closure ix stack closure bs
          else gpu_closure ix (sorted_list_of_set (pg_children p) @ stack) (closure @ [(h, p)]) bs)"
  by pat_completeness auto

lemma unseen_new:
  assumes "\<not> dict_in k closure" and "map_of d k = Some v"
  shows "unseen d (insert k (fst ` set closure)) < unseen d (fst ` set closure)"
  using assms(1) by (intro unseen_insert [OF assms(2)]) (simp add: dict_in_def map_of_eq_None_iff)

termination gpu_closure
  by (relation "(\<lambda>(ix, stack, closure, bs). unseen (ix_pages ix) (fst ` set closure)) <*mlex*>
    measure (\<lambda>(ix, stack, closure, bs). length stack)")
    (simp_all add: wf_mlex mlex_iff unseen_new)

declare gpu_closure.simps [simp del]

text \<open>The climb from an offloaded page: the blocker it ends with, if any.\<close>

function ancestor_blockers ::
  "page_index \<Rightarrow> page_record \<Rightarrow> page_handle set \<Rightarrow> page_handle option \<Rightarrow> transfer_blocker list result" where
  "ancestor_blockers ix p seen None = Inr []"
| "ancestor_blockers ix p seen (Some a) =
     (case map_of (ix_pages ix) a of
        None \<Rightarrow> rbind (page_blocker p (ANCESTOR_CLOSURE, ''D2H closure has a missing ancestor'')) (\<lambda>b. Inr [b])
      | Some q \<Rightarrow>
          if page_dead q
          then rbind (page_blocker p (ANCESTOR_CLOSURE, ''D2H closure has a missing ancestor'')) (\<lambda>b. Inr [b])
          else if \<not> gpu_resident q
          then rbind (page_blocker p (ANCESTOR_CLOSURE, ''D2H target has a non-resident ancestor'')) (\<lambda>b. Inr [b])
          else if a \<in> seen then Inl (NonTermination ''Radix ancestor cycle'')
          else ancestor_blockers ix p (insert a seen) (pg_parent q))"
  by pat_completeness auto

termination ancestor_blockers
  by (relation "measure (\<lambda>(ix, p, seen, a). unseen (ix_pages ix) seen)") (simp_all add: unseen_insert)

declare ancestor_blockers.simps [simp del]

text \<open>The climb of a prefetch, from an evicted page to the first resident ancestor.\<close>

function prefetch_climb ::
  "page_index \<Rightarrow> page_record \<Rightarrow> page_handle set \<Rightarrow> page_closure \<Rightarrow> (page_closure \<times> transfer_blocker list) result" where
  "prefetch_climb ix node seen closure =
     (if gpu_resident node then Inr (AList.update (pg_handle node) node closure, [])
      else if pg_handle node \<in> seen
      then rbind (page_blocker node (EXTENT_MUTATED, ''Radix ancestor cycle'')) (\<lambda>b. Inr (closure, [b]))
      else
        let closure' = AList.update (pg_handle node) node closure in
        case pg_parent node of
          None \<Rightarrow> Inr (closure', [])
        | Some a \<Rightarrow>
            (case map_of (ix_pages ix) a of
               None \<Rightarrow> rbind (page_blocker node (ANCESTOR_CLOSURE, ''H2D closure has a missing ancestor''))
                         (\<lambda>b. Inr (closure', [b]))
             | Some q \<Rightarrow>
                 if page_dead q
                 then rbind (page_blocker node (ANCESTOR_CLOSURE, ''H2D closure has a missing ancestor''))
                        (\<lambda>b. Inr (closure', [b]))
                 else prefetch_climb ix q (insert (pg_handle node) seen) closure'))"
  by pat_completeness auto

termination prefetch_climb
proof (relation "measure (\<lambda>(ix, node, seen, closure).
    card (insert (pg_handle node) (pg_handle ` snd ` set (ix_pages ix)) - seen))", goal_cases)
  case (2 ix node seen closure closure' a q)
  let ?H = "pg_handle ` snd ` set (ix_pages ix)"
  have "pg_handle q \<in> ?H" using map_of_SomeD [OF 2(5)] by force
  then have "insert (pg_handle q) ?H - insert (pg_handle node) seen \<subset> insert (pg_handle node) ?H - seen"
    using 2(2) by auto
  then show ?case by (auto intro: psubset_card_mono)
qed simp

declare prefetch_climb.simps [simp del]

section \<open>Identity of a bundle\<close>

type_synonym py_digest = "int \<Rightarrow> py_value \<Rightarrow> string"

definition handle_value :: "page_handle \<Rightarrow> py_value" where
  "handle_value h = PTuple [PInt (page_id h), PInt (allocation_generation h)]"

definition bundle_id :: "py_digest \<Rightarrow> command_kind \<Rightarrow> page_handle list \<Rightarrow> string" where
  "bundle_id digest kind hs =
     ''bundle-'' @ digest 10 (PTuple [PStr (command_kind_value kind), PTuple (map handle_value hs)])"

definition condition_value :: "lease_condition \<Rightarrow> py_value" where
  "condition_value c =
     PTuple [PStr ''LeaseCondition'', PStr (lc_event_kind c), PStr (lc_subject_id c), PStr (lc_condition_id c)]"

definition page_state_value :: "page_handle set \<Rightarrow> page_handle \<Rightarrow> page_record \<Rightarrow> py_value" where
  "page_state_value blocker_scope h p =
     (let scoped = (\<lambda>v. if h \<in> blocker_scope then v else PNone) in
      PTuple [PInt (page_id h), PInt (allocation_generation h), PInt (pg_size_bytes p),
        PStr (residency_value (pg_residency p)), opt_value handle_value (pg_parent p),
        PTuple (map handle_value (sorted_list_of_set (pg_children p))),
        PTuple (map (\<lambda>(c, e). PTuple [PStr c, PInt e]) (sort (pg_owner_contexts p))),
        scoped (PInt (pg_engine_lock_ref p)), scoped (PInt (pg_active_reader_count p)),
        scoped (PTuple (map PStr (sorted_list_of_set (pg_semantic_pin_contexts p)))),
        scoped (PBool (pg_sealed p)),
        scoped (opt_value (\<lambda>d. PStr (direction_value d)) (pg_transfer_direction p))])"

text \<open>\<open>sorted(closure)\<close> and the pages in that order.\<close>

abbreviation closure_items :: "page_closure \<Rightarrow> (page_handle \<times> page_record) list" where
  "closure_items closure \<equiv> sort_key fst closure"

definition fingerprint ::
  "py_digest \<Rightarrow> command_kind \<Rightarrow> page_closure \<Rightarrow> bundle_lease \<Rightarrow> page_handle set \<Rightarrow> string" where
  "fingerprint digest kind closure lease blocker_scope =
     digest 16 (PTuple [PStr (command_kind_value kind),
       PTuple (map (\<lambda>(h, p). page_state_value blocker_scope h p) (closure_items closure)),
       PStr (lease_kind_value (bl_strongest_kind lease)),
       PTuple (map PStr (bl_owner_context_ids lease)),
       PTuple (map condition_value (bl_conditions lease))])"

section \<open>Previews\<close>

definition action_scope ::
  "string \<Rightarrow> page_closure \<Rightarrow> resolved_page_action list \<Rightarrow> (bundle_scope \<times> int \<times> int \<times> string list) result" where
  "action_scope c closure actions =
     rbind (rfold (\<lambda>a (exclusive, cross, foreign).
              rbind (dict_item closure (rpa_handle a) ''handle'') (\<lambda>p.
                let others = set (map fst (pg_owner_contexts p)) - {c} in
                Inr (if others \<noteq> {} then (exclusive, cross + rpa_size_bytes a, foreign \<union> others)
                     else (exclusive + rpa_size_bytes a, cross, foreign))))
            actions (0, 0, {})) (\<lambda>(exclusive, cross, foreign).
       Inr (if foreign \<noteq> {} then SHARED_SUBTREE else EXCLUSIVE_SUFFIX, exclusive, cross,
            sorted_list_of_set foreign))"

definition closure_bytes_if :: "(page_record \<Rightarrow> bool) \<Rightarrow> page_closure \<Rightarrow> int" where
  "closure_bytes_if P closure = sum_list (map pg_size_bytes (filter P (map snd closure)))"

definition action_bytes :: "resolved_page_action list \<Rightarrow> int" where
  "action_bytes actions = sum_list (map rpa_size_bytes actions)"

definition common_residency :: "page_closure \<Rightarrow> string" where
  "common_residency closure =
     (case py_sorted_set (map (\<lambda>(h, p). residency_value (pg_residency p)) closure) of
        [r] \<Rightarrow> r | _ \<Rightarrow> ''mixed'')"

definition build_preview ::
  "py_digest \<Rightarrow> causal_graph \<Rightarrow> command_kind \<Rightarrow> string \<Rightarrow> int \<Rightarrow> page_closure \<Rightarrow> resolved_page_action list
   \<Rightarrow> transfer_blocker list \<Rightarrow> page_handle set \<Rightarrow> real \<Rightarrow> bundle_preview result" where
  "build_preview digest g kind c epoch closure actions blockers blocked now =
     (let handles = map fst (closure_items closure);
          bid = bundle_id digest kind handles;
          owners = py_sorted_set (concat (map (\<lambda>(h, p). map fst (pg_owner_contexts p)) closure)) in
      rbind (action_scope c closure actions) (\<lambda>(scope, exclusive, cross, foreign).
      rbind (lease_bundle g bid owners now) (\<lambda>lease.
        let bytes = action_bytes actions;
            blocker_scope = (if kind \<in> {OFFLOAD_CONTEXT, DROP_CONTEXT, SHADOW_CONTEXT} then fst ` set closure
                             else fst ` set (filter (\<lambda>(h, p). \<not> gpu_resident p) closure)) in
        Inr \<lparr>bp_command_kind = kind, bp_context_id = c, bp_context_epoch = epoch,
             bp_bundle =
               \<lparr>bd_bundle_id = bid, bd_handles = handles, bd_owner_context_ids = owners, bd_scope = scope,
                bd_exclusive_action_bytes = exclusive, bd_cross_context_action_bytes = cross,
                bd_foreign_owner_context_ids = foreign,
                bd_physical_unique_bytes = closure_bytes_if (\<lambda>_. True) closure,
                bd_gpu_bytes = closure_bytes_if gpu_resident closure,
                bd_cpu_bytes = closure_bytes_if cpu_resident closure,
                bd_marginal_reclaimable_bytes =
                  (if kind \<in> {OFFLOAD_CONTEXT, DROP_CONTEXT} \<and> blockers = [] then bytes else 0),
                bd_closure_bytes = bytes,
                bd_locked_bytes = sum_list (map (\<lambda>(h, p). pg_size_bytes p) (filter (\<lambda>(h, p). h \<in> blocked) closure)),
                bd_residency = common_residency closure,
                bd_generation_fingerprint = fingerprint digest kind closure lease blocker_scope,
                bd_lease = lease\<rparr>,
             bp_page_actions = actions, bp_blockers = blockers,
             bp_copy_bytes = action_bytes (filter (\<lambda>a. rpa_action a \<in> {START_D2H, START_H2D}) actions)\<rparr>)))"

text \<open>The closures are visited from the deepest page up, and down for a prefetch.\<close>

definition pages_up :: "page_record list \<Rightarrow> page_record list" where
  "pages_up ps = sort_key (\<lambda>p. (- pg_radix_depth p, pg_handle p)) ps"

definition pages_down :: "page_record list \<Rightarrow> page_record list" where
  "pages_down ps = sort_key (\<lambda>p. (pg_radix_depth p, pg_handle p)) ps"

type_synonym preview_acc = "resolved_page_action list \<times> transfer_blocker list \<times> page_handle set"

definition offload_action :: "command_kind \<Rightarrow> page_record \<Rightarrow> resolved_page_action list result" where
  "offload_action kind p =
     (if pg_residency p = DUAL_CLEAN
      then (if kind = OFFLOAD_CONTEXT then rbind (page_action p COMMIT_CPU) (\<lambda>a. Inr [a]) else Inr [])
      else if pg_residency p = GPU_ONLY then rbind (page_action p START_D2H) (\<lambda>a. Inr [a])
      else Inr [])"

definition offload_page ::
  "causal_graph \<Rightarrow> page_index \<Rightarrow> command_kind \<Rightarrow> real \<Rightarrow> owner_rules \<Rightarrow> page_record \<Rightarrow> preview_acc
   \<Rightarrow> preview_acc result" where
  "offload_page g ix kind now rules p = (\<lambda>(actions, blockers, blocked).
     rbind (offload_action kind p) (\<lambda>new.
     rbind (page_blockers p) (\<lambda>pbs.
     rbind (owner_blockers g now rules p) (\<lambda>obs.
       if pbs @ obs \<noteq> []
       then Inr (actions @ new, blockers @ pbs @ obs, insert (pg_handle p) blocked)
       else rbind (ancestor_blockers ix p {} (pg_parent p)) (\<lambda>abs.
         Inr (actions @ new, blockers @ abs, if abs = [] then blocked else insert (pg_handle p) blocked))))))"

definition capacity_blocker ::
  "int option \<Rightarrow> int \<Rightarrow> transfer_blocker_code \<Rightarrow> page_handle \<Rightarrow> string \<Rightarrow> transfer_blocker list result" where
  "capacity_blocker available needed code h detail =
     (case available of
        None \<Rightarrow> Inr []
      | Some n \<Rightarrow> if needed > n then rbind (make_blocker code h needed detail) (\<lambda>b. Inr [b]) else Inr [])"

definition preview_offload_root ::
  "py_digest \<Rightarrow> causal_graph \<Rightarrow> page_index \<Rightarrow> command_kind \<Rightarrow> string \<Rightarrow> int \<Rightarrow> page_handle \<Rightarrow> real \<Rightarrow> owner_rules
   \<Rightarrow> int option \<Rightarrow> bundle_preview option result" where
  "preview_offload_root digest g ix kind c epoch root_handle now rules host_available =
     (if kind \<notin> {OFFLOAD_CONTEXT, SHADOW_CONTEXT} then Inr None
      else case (map_of (cg_contexts g) c, map_of (ix_pages ix) root_handle) of
        (Some x, Some base) \<Rightarrow>
          if cx_epoch x \<noteq> epoch \<or> \<not> gpu_resident base \<or> \<not> dict_in c (pg_owner_contexts base) then Inr None
          else
            let (closure, closure_bs) = gpu_closure ix [pg_handle base] [] [] in
            if closure = [] then Inr None
            else
              rbind (rfold (offload_page g ix kind now rules) (pages_up (map snd closure))
                       ([], closure_bs, set (List.map_filter tb_page_handle closure_bs)))
                (\<lambda>(actions, blockers, blocked).
              rbind (capacity_blocker host_available
                       (action_bytes (filter (\<lambda>a. rpa_action a = START_D2H) actions)) HOST_CAPACITY (pg_handle base)
                       ''D2H bundle exceeds current host availability'') (\<lambda>cap.
              rbind (build_preview digest g kind c epoch closure actions (deduplicate_blockers (blockers @ cap)) blocked now)
                (\<lambda>p. Inr (Some p))))
      | _ \<Rightarrow> Inr None)"

text \<open>The loops over the roots skip a closure that an earlier root gave.\<close>

fun offload_roots ::
  "(page_handle \<Rightarrow> bundle_preview option result) \<Rightarrow> page_record list \<Rightarrow> page_handle list set \<Rightarrow> bundle_preview list result"
  where
  "offload_roots f [] seen = Inr []"
| "offload_roots f (base # roots) seen =
     rbind (f (pg_handle base)) (\<lambda>preview.
       case preview of
         None \<Rightarrow> offload_roots f roots seen
       | Some p \<Rightarrow>
           let handles = bd_handles (bp_bundle p) in
           if handles \<in> seen then offload_roots f roots seen
           else rbind (offload_roots f roots (insert handles seen)) (\<lambda>ps. Inr (p # ps)))"

definition offload_previews ::
  "py_digest \<Rightarrow> causal_graph \<Rightarrow> page_index \<Rightarrow> command_kind \<Rightarrow> string \<Rightarrow> int \<Rightarrow> real \<Rightarrow> owner_rules \<Rightarrow> int option
   \<Rightarrow> bundle_preview list result" where
  "offload_previews digest g ix kind c epoch now rules host_available =
     rbind (context_pages ix c) (\<lambda>pages.
       offload_roots (\<lambda>h. preview_offload_root digest g ix kind c epoch h now rules host_available)
         (pages_up (filter gpu_resident pages)) {})"

definition drop_page_step ::
  "causal_graph \<Rightarrow> real \<Rightarrow> owner_rules \<Rightarrow> page_record \<Rightarrow> preview_acc \<Rightarrow> preview_acc result" where
  "drop_page_step g now rules p = (\<lambda>(actions, blockers, blocked).
     rbind (page_action p DROP) (\<lambda>a.
     rbind (page_blockers p) (\<lambda>pbs.
     rbind (owner_blockers g now rules p) (\<lambda>obs.
       Inr (actions @ [a], blockers @ pbs @ obs,
            if pbs @ obs \<noteq> [] then insert (pg_handle p) blocked else blocked)))))"

fun drop_roots ::
  "py_digest \<Rightarrow> causal_graph \<Rightarrow> page_index \<Rightarrow> string \<Rightarrow> int \<Rightarrow> real \<Rightarrow> owner_rules \<Rightarrow> page_record list
   \<Rightarrow> page_handle list set \<Rightarrow> bundle_preview list result" where
  "drop_roots digest g ix c epoch now rules [] seen = Inr []"
| "drop_roots digest g ix c epoch now rules (base # roots) seen =
     (let (closure, closure_bs) = gpu_closure ix [pg_handle base] [] [];
          handles = map fst (closure_items closure) in
      if handles = [] \<or> handles \<in> seen then drop_roots digest g ix c epoch now rules roots seen
      else
        rbind (rfold (drop_page_step g now rules) (pages_up (map snd closure)) ([], closure_bs, {}))
          (\<lambda>(actions, blockers, blocked).
        rbind (build_preview digest g DROP_CONTEXT c epoch closure actions (deduplicate_blockers blockers) blocked now)
          (\<lambda>p.
        rbind (drop_roots digest g ix c epoch now rules roots (insert handles seen)) (\<lambda>ps. Inr (p # ps)))))"

definition drop_previews ::
  "py_digest \<Rightarrow> causal_graph \<Rightarrow> page_index \<Rightarrow> string \<Rightarrow> int \<Rightarrow> real \<Rightarrow> owner_rules \<Rightarrow> bundle_preview list result" where
  "drop_previews digest g ix c epoch now rules =
     rbind (context_pages ix c) (\<lambda>pages.
       drop_roots digest g ix c epoch now rules (pages_up (filter gpu_resident pages)) {})"

definition prefetch_page :: "page_record \<Rightarrow> preview_acc \<Rightarrow> preview_acc result" where
  "prefetch_page p = (\<lambda>(actions, blockers, blocked).
     if gpu_resident p then Inr (actions, blockers, blocked)
     else
       rbind (if pg_residency p = CPU_ONLY then rbind (page_action p START_H2D) (\<lambda>a. Inr [a]) else Inr []) (\<lambda>new.
       rbind (page_blockers p) (\<lambda>pbs.
         if pbs \<noteq> [] then Inr (actions @ new, blockers @ pbs, insert (pg_handle p) blocked)
         else if pg_residency p \<noteq> CPU_ONLY
         then rbind (page_blocker p (NODE_LOADING, ''H2D closure extent is not CPU_ONLY'')) (\<lambda>b.
                Inr (actions @ new, blockers @ [b], insert (pg_handle p) blocked))
         else Inr (actions @ new, blockers, blocked))))"

fun prefetch_targets ::
  "py_digest \<Rightarrow> causal_graph \<Rightarrow> page_index \<Rightarrow> string \<Rightarrow> int \<Rightarrow> real \<Rightarrow> int option \<Rightarrow> page_record list
   \<Rightarrow> page_handle list set \<Rightarrow> bundle_preview list result" where
  "prefetch_targets digest g ix c epoch now device_available [] seen = Inr []"
| "prefetch_targets digest g ix c epoch now device_available (target # targets) seen =
     rbind (prefetch_climb ix target {} []) (\<lambda>(closure, climb_bs).
       let handles = map fst (closure_items closure) in
       if handles = [] \<or> handles \<in> seen
       then prefetch_targets digest g ix c epoch now device_available targets seen
       else
         rbind (rfold prefetch_page (pages_down (map snd closure)) ([], climb_bs, {})) (\<lambda>(actions, blockers, blocked).
         rbind (capacity_blocker device_available (action_bytes actions) DEVICE_CAPACITY (pg_handle target)
                  ''H2D bundle exceeds current device availability'') (\<lambda>cap.
         rbind (build_preview digest g PREFETCH_CONTEXT c epoch closure actions
                  (deduplicate_blockers (blockers @ cap)) blocked now) (\<lambda>p.
         rbind (prefetch_targets digest g ix c epoch now device_available targets (insert handles seen))
           (\<lambda>ps. Inr (p # ps))))))"

definition prefetch_previews ::
  "py_digest \<Rightarrow> causal_graph \<Rightarrow> page_index \<Rightarrow> string \<Rightarrow> int \<Rightarrow> real \<Rightarrow> int option \<Rightarrow> bundle_preview list result" where
  "prefetch_previews digest g ix c epoch now device_available =
     rbind (context_pages ix c) (\<lambda>pages.
       prefetch_targets digest g ix c epoch now device_available
         (pages_up (filter (\<lambda>p. pg_residency p = CPU_ONLY) pages)) {})"

definition preview_order :: "bundle_preview \<Rightarrow> bool \<times> int \<times> int \<times> string" where
  "preview_order p =
     (\<not> preview_eligible p, - bd_marginal_reclaimable_bytes (bp_bundle p), bd_closure_bytes (bp_bundle p),
      bd_bundle_id (bp_bundle p))"

definition previews_for_context ::
  "py_digest \<Rightarrow> causal_graph \<Rightarrow> page_index \<Rightarrow> command_kind \<Rightarrow> string \<Rightarrow> int \<Rightarrow> real \<Rightarrow> owner_rules \<Rightarrow> int option
   \<Rightarrow> int option \<Rightarrow> bundle_preview list result" where
  "previews_for_context digest g ix kind c epoch now rules host_available device_available =
     (case map_of (cg_contexts g) c of
        None \<Rightarrow> Inr []
      | Some x \<Rightarrow>
          if cx_epoch x \<noteq> epoch \<or> \<not> has_context ix c then Inr []
          else rbind (context_epoch ix c) (\<lambda>current.
            if current \<noteq> epoch then Inr []
            else
              rbind (if kind \<in> {OFFLOAD_CONTEXT, SHADOW_CONTEXT}
                     then offload_previews digest g ix kind c epoch now rules host_available
                     else if kind = DROP_CONTEXT then drop_previews digest g ix c epoch now rules
                     else if kind = PREFETCH_CONTEXT then prefetch_previews digest g ix c epoch now device_available
                     else Inr []) (\<lambda>previews.
                Inr (sort_key preview_order previews))))"

definition find_intent_preview ::
  "py_digest \<Rightarrow> causal_graph \<Rightarrow> page_index \<Rightarrow> command_kind \<Rightarrow> string \<Rightarrow> int \<Rightarrow> string \<Rightarrow> real \<Rightarrow> owner_rules
   \<Rightarrow> int option \<Rightarrow> int option \<Rightarrow> bundle_preview option result" where
  "find_intent_preview digest g ix kind c epoch bid now rules host_available device_available =
     rbind (previews_for_context digest g ix kind c epoch now rules host_available device_available) (\<lambda>previews.
       Inr (find (\<lambda>p. bd_bundle_id (bp_bundle p) = bid) previews))"

end
