(* ===== verification/Action_Lifecycle.thy ===== *)
theory Action_Lifecycle
  imports Page_Index_Inv
begin

text \<open>
  How the controller carries out the page actions of a resolved command (\<open>control/controller.py\<close>):
  \<open>mark_command_started\<close> starts the transfers among them, and \<open>acknowledge_command\<close> finishes every
  completed action on the page index. Only what the two methods do to a single page of the command is
  modelled; the bookkeeping of commands in flight and the handling of partial acknowledgements are not.

  Whether an action can be carried out depends on the residency, the transfer, the locks and the
  readers of its own page alone, and carrying it out leaves these of the other pages alone. So actions on
  different pages that can each be carried out can be carried out one after the other.
\<close>

section \<open>Starting and finishing an action\<close>

text \<open>The branches of the loop of \<open>mark_command_started\<close> for a handle not started before.\<close>

definition start_action :: "resolved_page_action \<Rightarrow> page_index \<Rightarrow> page_index result" where
  "start_action a ix =
     (if rpa_action a = START_D2H then begin_transfer (rpa_handle a) D2H ix
      else if rpa_action a = START_H2D then begin_transfer (rpa_handle a) H2D ix
      else Inr ix)"

text \<open>\<open>self.page_index.pages[handle].semantic_pin_contexts.add(context_id)\<close> and \<open>discard\<close>, which announce
  no change of the index.\<close>

definition pin_page ::
  "string option \<Rightarrow> (string \<Rightarrow> string set \<Rightarrow> string set) \<Rightarrow> page_handle \<Rightarrow> page_index \<Rightarrow> page_index result" where
  "pin_page ctx f h ix =
     (case ctx of
        None \<Rightarrow> Inr ix
      | Some c \<Rightarrow> rbind (dict_item (ix_pages ix) h ''page'') (\<lambda>_.
          Inr (with_page h (\<lambda>p. p\<lparr>pg_semantic_pin_contexts := f c (pg_semantic_pin_contexts p)\<rparr>) ix)))"

text \<open>The branches of the loop of \<open>acknowledge_command\<close> for a completed action whose transfer, if it
  is one, was started; \<open>kind\<close> and \<open>ctx\<close> are those of the command.\<close>

definition finish_action ::
  "command_kind \<Rightarrow> string option \<Rightarrow> resolved_page_action \<Rightarrow> page_index \<Rightarrow> page_index result" where
  "finish_action kind ctx a ix =
     (let h = rpa_handle a in
      case rpa_action a of
        START_D2H \<Rightarrow> complete_transfer h D2H (kind = SHADOW_CONTEXT) ix
      | START_H2D \<Rightarrow> complete_transfer h H2D False ix
      | COMMIT_CPU \<Rightarrow> commit_cpu h ix
      | DROP \<Rightarrow> drop_page h ix
      | DROP_HOST \<Rightarrow> drop_host_copy h ix
      | PIN \<Rightarrow> pin_page ctx insert h ix
      | UNPIN \<Rightarrow> pin_page ctx (\<lambda>c cs. cs - {c}) h ix)"

section \<open>What an action needs\<close>

type_synonym page_core = "physical_residency \<times> transfer_direction option \<times> int \<times> int"

definition core_of :: "page_record \<Rightarrow> page_core" where
  "core_of p = (pg_residency p, pg_transfer_direction p, pg_engine_lock_ref p, pg_active_reader_count p)"

definition page_core :: "page_index \<Rightarrow> page_handle \<Rightarrow> page_core option" where
  "page_core ix h = (case require_page ix h of Inl _ \<Rightarrow> None | Inr p \<Rightarrow> Some (core_of p))"

fun action_ready :: "physical_page_action \<Rightarrow> page_core \<Rightarrow> bool" where
  "action_ready START_D2H (r, t, l, n) = (r = GPU_ONLY \<and> t = None)"
| "action_ready START_H2D (r, t, l, n) = (r = CPU_ONLY \<and> t = None)"
| "action_ready COMMIT_CPU (r, t, l, n) = (r \<in> {CPU_ONLY, DUAL_CLEAN})"
| "action_ready DROP (r, t, l, n) = (t = None \<and> (r = DUAL_CLEAN \<or> r \<in> {GPU_ONLY, CPU_ONLY} \<and> l = 0 \<and> n = 0))"
| "action_ready DROP_HOST (r, t, l, n) = (t = None \<and> (r = DUAL_CLEAN \<or> r = CPU_ONLY \<and> l = 0 \<and> n = 0))"
| "action_ready _ _ = True"

fun action_started :: "physical_page_action \<Rightarrow> page_core \<Rightarrow> bool" where
  "action_started START_D2H (r, t, l, n) = (t = Some D2H)"
| "action_started START_H2D (r, t, l, n) = (t = Some H2D)"
| "action_started a k = action_ready a k"

lemma core_touch [simp]: "page_core (touch t hs cs ks ix) h = page_core ix h"
  by (simp add: page_core_def require_page_def touch_def Let_def)

lemma core_other:
  assumes "h' \<noteq> h"
  shows "page_core (with_page h f ix) h' = page_core ix h'"
    and "page_core (detach_page h p orphan ix) h' = page_core ix h'"
  using assms
  by (auto simp: page_core_def require_page_def with_page_def detach_page_def Let_def map_of_dmap_on core_of_def
      discard_child_def split: option.split)

lemma core_same:
  assumes "\<And>p. core_of (f p) = core_of p"
  shows "page_core (with_page h f ix) h' = page_core ix h'"
  using assms
  by (auto simp: page_core_def require_page_def with_page_def map_of_dmap_on core_of_def split: option.split)

lemma core_with_page:
  assumes "require_page ix h = Inr p" and "pg_residency (f p) \<noteq> DEAD"
  shows "page_core (with_page h f ix) h = Some (core_of (f p))"
  using assms
  by (auto simp: page_core_def require_page_def with_page_def map_of_dmap_on split: option.splits if_splits)

lemma page_coreE:
  assumes "page_core ix h = Some k"
  obtains p where "require_page ix h = Inr p" and "k = core_of p" and "map_of (ix_pages ix) h = Some p"
    and "pg_residency p \<noteq> DEAD"
  using assms by (auto simp: page_core_def require_page_def split: sum.splits if_splits option.splits)

lemmas action_defs = start_action_def finish_action_def begin_transfer_def complete_transfer_def commit_cpu_def
  drop_page_def drop_host_copy_def free_page_def pin_page_def touch_transfer_def transfer_idle_def Let_def

text \<open>Starting a ready action succeeds and leaves it to be finished; finishing it succeeds. Neither
  touches the core of another page.\<close>

lemma start_action_ok:
  assumes "page_core ix (rpa_handle a) = Some k" and "action_ready (rpa_action a) k"
  obtains ix' k' where "start_action a ix = Inr ix'" and "page_core ix' (rpa_handle a) = Some k'"
    and "action_started (rpa_action a) k'" and "\<And>h. h \<noteq> rpa_handle a \<Longrightarrow> page_core ix' h = page_core ix h"
proof -
  obtain p where p: "require_page ix (rpa_handle a) = Inr p" "k = core_of p" using assms(1) by (rule page_coreE)
  show thesis
    using that assms p
    by (cases "rpa_action a") (auto simp: action_defs core_of_def core_other core_with_page)
qed

lemma finish_action_ok:
  assumes "page_core ix (rpa_handle a) = Some k" and "action_started (rpa_action a) k"
  obtains ix' where "finish_action kind ctx a ix = Inr ix'"
    and "\<And>h. h \<noteq> rpa_handle a \<Longrightarrow> page_core ix' h = page_core ix h"
proof -
  obtain p where p: "require_page ix (rpa_handle a) = Inr p" "k = core_of p" "map_of (ix_pages ix) (rpa_handle a) = Some p"
    using assms(1) by (rule page_coreE)
  show thesis
    using that assms p
    by (cases "rpa_action a"; cases "pg_residency p"; cases ctx)
      (auto simp: action_defs core_of_def core_other dict_item_def)
qed

text \<open>Conversely, an action on a live page that can be carried out was ready.\<close>

definition index_accepts :: "page_index \<Rightarrow> resolved_page_action \<Rightarrow> bool" where
  "index_accepts ix a \<longleftrightarrow>
     (\<forall>kind ctx. \<exists>ix1 ix2. start_action a ix = Inr ix1 \<and> finish_action kind ctx a ix1 = Inr ix2)"

lemma index_accepts_iff:
  assumes "page_core ix (rpa_handle a) = Some k"
  shows "index_accepts ix a \<longleftrightarrow> action_ready (rpa_action a) k"
proof
  obtain p where p: "require_page ix (rpa_handle a) = Inr p" "k = core_of p" using assms by (rule page_coreE)
  show "action_ready (rpa_action a) k" if "index_accepts ix a"
    using that p
    by (cases "rpa_action a"; cases "pg_residency p")
      (auto simp: index_accepts_def action_defs core_of_def split: if_splits)
  show "index_accepts ix a" if "action_ready (rpa_action a) k"
    unfolding index_accepts_def using start_action_ok [OF assms that] finish_action_ok by metis
qed

text \<open>A list of actions on different pages.\<close>

lemma start_actions_ok:
  assumes "distinct (map rpa_handle as)"
    and "\<And>a. a \<in> set as \<Longrightarrow> \<exists>k. page_core ix (rpa_handle a) = Some k \<and> action_ready (rpa_action a) k"
  shows "\<exists>ix'. rfold start_action as ix = Inr ix' \<and>
    (\<forall>a \<in> set as. \<exists>k. page_core ix' (rpa_handle a) = Some k \<and> action_started (rpa_action a) k) \<and>
    (\<forall>h. h \<notin> rpa_handle ` set as \<longrightarrow> page_core ix' h = page_core ix h)"
  using assms
proof (induction as arbitrary: ix)
  case (Cons a as)
  obtain k where "page_core ix (rpa_handle a) = Some k" "action_ready (rpa_action a) k" using Cons.prems(2) [of a] by auto
  then obtain ix1 k1 where a: "start_action a ix = Inr ix1" "page_core ix1 (rpa_handle a) = Some k1"
    "action_started (rpa_action a) k1" and frame: "\<And>h. h \<noteq> rpa_handle a \<Longrightarrow> page_core ix1 h = page_core ix h"
    by (rule start_action_ok) blast
  have "\<exists>k. page_core ix1 (rpa_handle b) = Some k \<and> action_ready (rpa_action b) k" if "b \<in> set as" for b
  proof -
    have "rpa_handle b \<noteq> rpa_handle a" using Cons.prems(1) that by (auto simp: image_iff)
    then show ?thesis using Cons.prems(2) [of b] that frame by simp
  qed
  with Cons.IH [of ix1] Cons.prems(1) obtain ix' where ix': "rfold start_action as ix1 = Inr ix'"
    "\<forall>a \<in> set as. \<exists>k. page_core ix' (rpa_handle a) = Some k \<and> action_started (rpa_action a) k"
    "\<forall>h. h \<notin> rpa_handle ` set as \<longrightarrow> page_core ix' h = page_core ix1 h" by auto
  have "page_core ix' (rpa_handle a) = Some k1" using ix'(3) a(2) Cons.prems(1) by simp
  then have "\<forall>b \<in> set (a # as). \<exists>k. page_core ix' (rpa_handle b) = Some k \<and> action_started (rpa_action b) k"
    using ix'(2) a(3) by (simp del: split_paired_Ex)
  moreover have "rfold start_action (a # as) ix = Inr ix'" using a(1) ix'(1) by simp
  ultimately show ?case using ix'(3) frame by (intro exI [of _ ix']) simp
qed simp

lemma finish_actions_ok:
  assumes "distinct (map rpa_handle as)"
    and "\<And>a. a \<in> set as \<Longrightarrow> \<exists>k. page_core ix (rpa_handle a) = Some k \<and> action_started (rpa_action a) k"
  shows "\<exists>ix'. rfold (finish_action kind ctx) as ix = Inr ix'"
  using assms
proof (induction as arbitrary: ix)
  case (Cons a as)
  obtain k where "page_core ix (rpa_handle a) = Some k" "action_started (rpa_action a) k" using Cons.prems(2) [of a] by auto
  then obtain ix1 where a: "finish_action kind ctx a ix = Inr ix1"
    and frame: "\<And>h. h \<noteq> rpa_handle a \<Longrightarrow> page_core ix1 h = page_core ix h"
    by (rule finish_action_ok [where kind = kind and ctx = ctx]) blast
  have "\<exists>k. page_core ix1 (rpa_handle b) = Some k \<and> action_started (rpa_action b) k" if "b \<in> set as" for b
  proof -
    have "rpa_handle b \<noteq> rpa_handle a" using Cons.prems(1) that by (auto simp: image_iff)
    then show ?thesis using Cons.prems(2) [of b] that frame by simp
  qed
  with Cons.IH [of ix1] Cons.prems(1) a show ?case by auto
qed simp

theorem accepted_actions_run:
  assumes "distinct (map rpa_handle as)"
    and "\<And>a. a \<in> set as \<Longrightarrow> page_core ix (rpa_handle a) \<noteq> None \<and> index_accepts ix a"
  shows "\<exists>ix1 ix2. rfold start_action as ix = Inr ix1 \<and> rfold (finish_action kind ctx) as ix1 = Inr ix2"
proof -
  have "\<exists>k. page_core ix (rpa_handle a) = Some k \<and> action_ready (rpa_action a) k" if "a \<in> set as" for a
    using assms(2) [OF that] index_accepts_iff by blast
  with start_actions_ok [OF assms(1), of ix] finish_actions_ok [OF assms(1)] show ?thesis by metis
qed

end
