(* ===== verification/Bundle_Safety.thy ===== *)
theory Bundle_Safety
  imports Bundles Action_Lifecycle "HOL-Library.Multiset"
begin

text \<open>
  What a bundle preview promises. In a reachable graph and a reachable index the builder always
  returns; the closure it finds is exactly the GPU-resident subtree; and a preview without blockers
  names only pages that can be moved at once, so that the index accepts each of its actions.
\<close>

section \<open>Leases and single pages\<close>

lemma lease_total:
  assumes "reachable d rt g" and "0 \<le> now"
  shows "\<exists>l. lease_context g c now = Inr l"
proof (cases "map_of (cg_contexts g) c")
  case None
  then show ?thesis using assms(2) by (simp add: lease_context_def)
next
  case (Some x)
  obtain rs where rs: "context_invocations c g = Inr rs" using reachable_context_invocations [OF assms(1) Some] .
  show ?thesis using Some rs assms(2) by (auto simp: lease_context_def make_lease_def dict_item_def Let_def split: list.split)
qed

definition page_movable :: "page_record \<Rightarrow> bool" where
  "page_movable p \<longleftrightarrow>
     pg_sealed p \<and> pg_engine_lock_ref p = 0 \<and> pg_active_reader_count p = 0 \<and>
     pg_semantic_pin_contexts p = {} \<and> transfer_idle p"

lemma page_action_ok:
  "page_ok h p \<Longrightarrow> page_action p a = Inr \<lparr>rpa_handle = h, rpa_action = a, rpa_size_bytes = pg_size_bytes p\<rparr>"
  by (simp add: page_action_def resolved_page_action_post_init_def page_ok_def)

lemma page_blocker_ok:
  "page_ok h p \<Longrightarrow> page_blocker p cd =
     Inr \<lparr>tb_code = fst cd, tb_page_handle = Some h, tb_required_bytes = pg_size_bytes p, tb_detail = snd cd\<rparr>"
  by (simp add: page_blocker_def make_blocker_def transfer_blocker_post_init_def page_ok_def case_prod_unfold)

lemma page_blockers_ok:
  assumes "page_ok h p"
  obtains bs where "page_blockers p = Inr bs" and "bs = [] \<longleftrightarrow> page_movable p"
proof -
  have "\<exists>bs. rmap (page_blocker p) cds = Inr bs \<and> (bs = [] \<longleftrightarrow> cds = [])" for cds
    by (induction cds) (auto simp: page_blocker_ok [OF assms])
  then obtain bs where "rmap (page_blocker p) (page_obstacles p) = Inr bs" "bs = [] \<longleftrightarrow> page_obstacles p = []" by blast
  moreover have "page_obstacles p = [] \<longleftrightarrow> page_movable p"
    using assms by (auto simp: page_obstacles_def page_movable_def page_ok_def)
  ultimately show thesis using that by (simp add: page_blockers_def)
qed

text \<open>The owners that keep a page where it is.\<close>

definition owner_free :: "causal_graph \<Rightarrow> real \<Rightarrow> owner_rules \<Rightarrow> page_record \<Rightarrow> bool" where
  "owner_free g now rules p \<longleftrightarrow>
     (\<forall>c l. dict_in c (pg_owner_contexts p) \<longrightarrow> c \<notin> ow_bypass rules \<longrightarrow> lease_context g c now = Inr l \<longrightarrow>
        \<not> owner_blocked rules c (cl_kind l))"

lemma owner_blocker_ok:
  assumes "page_ok h p" and "lease_context g c now = Inr l"
  shows "\<exists>bs. owner_blocker g now rules p c = Inr bs \<and>
    (bs = [] \<longleftrightarrow> c \<in> ow_bypass rules \<or> \<not> owner_blocked rules c (cl_kind l))"
  by (simp add: owner_blocker_def assms(2) page_blocker_ok [OF assms(1)])

lemma owner_blockers_ok:
  assumes ok: "page_ok h p" and leases: "\<And>c. \<exists>l. lease_context g c now = Inr l"
  obtains bs where "owner_blockers g now rules p = Inr bs" and "bs = [] \<longleftrightarrow> owner_free g now rules p"
proof -
  let ?free = "\<lambda>c. c \<in> ow_bypass rules \<or> (\<forall>l. lease_context g c now = Inr l \<longrightarrow> \<not> owner_blocked rules c (cl_kind l))"
  have "\<exists>bss. rmap (owner_blocker g now rules p) cs = Inr bss \<and> (concat bss = [] \<longleftrightarrow> (\<forall>c \<in> set cs. ?free c))" for cs
  proof (induction cs)
    case (Cons c cs)
    obtain l where l: "lease_context g c now = Inr l" using leases by blast
    obtain bss where bss: "rmap (owner_blocker g now rules p) cs = Inr bss"
      "concat bss = [] \<longleftrightarrow> (\<forall>c \<in> set cs. ?free c)" using Cons by blast
    obtain bs where bs: "owner_blocker g now rules p c = Inr bs"
      "bs = [] \<longleftrightarrow> c \<in> ow_bypass rules \<or> \<not> owner_blocked rules c (cl_kind l)"
      using owner_blocker_ok [OF ok l] by blast
    have "concat (bs # bss) = [] \<longleftrightarrow> bs = [] \<and> concat bss = []" by simp
    then have "concat (bs # bss) = [] \<longleftrightarrow> (\<forall>c \<in> set (c # cs). ?free c)" unfolding bs(2) bss(2) using l by simp
    then show ?case using bs(1) bss(1) by (intro exI [of _ "bs # bss"]) simp
  qed simp
  then obtain bss where "rmap (owner_blocker g now rules p) (sort (map fst (pg_owner_contexts p))) = Inr bss"
    "concat bss = [] \<longleftrightarrow> (\<forall>c \<in> set (sort (map fst (pg_owner_contexts p))). ?free c)" by blast
  then show thesis
    using that [of "concat bss"] by (auto simp: owner_blockers_def owner_free_def dict_in_iff)
qed

section \<open>Walks over the Radix tree\<close>

lemma parent_edges_finite: "finite (parent_edges (live_of (map_of (ix_pages ix))) (parent_of (map_of (ix_pages ix))))"
proof -
  let ?M = "map_of (ix_pages ix)"
  have "parent_edges (live_of ?M) (parent_of ?M) \<subseteq> (\<lambda>h. (h, the (parent_of ?M h))) ` dom ?M"
    by (auto simp: parent_edges_def proj_defs split: option.splits)
  then show ?thesis by (rule finite_subset) (simp add: finite_dom_map_of)
qed

lemma parent_edges_wf:
  assumes "ix_inv ix"
  shows "wf ((parent_edges (live_of (map_of (ix_pages ix))) (parent_of (map_of (ix_pages ix))))\<inverse>)"
  by (rule finite_acyclic_wf_converse [OF parent_edges_finite pages_invD(2) [OF assms refl]])

lemma live_parent:
  assumes inv: "ix_inv ix" and q: "map_of (ix_pages ix) h = Some q" "\<not> page_dead q" "pg_parent q = Some a"
  obtains r where "map_of (ix_pages ix) a = Some r" and "\<not> page_dead r" and "h \<in> pg_children r"
    and "(h, a) \<in> parent_edges (live_of (map_of (ix_pages ix))) (parent_of (map_of (ix_pages ix)))"
proof -
  let ?M = "map_of (ix_pages ix)"
  note e = edges_okD [OF pages_invD(1) [OF inv refl]]
  have "live_of ?M h" "parent_of ?M h = Some a" using q by simp_all
  with e(2,3) have "live_of ?M a" "h \<in> children_of ?M a" by auto
  then obtain r where "?M a = Some r" "\<not> page_dead r" "h \<in> pg_children r" by (auto simp: proj_defs split: option.splits)
  moreover have "(h, a) \<in> parent_edges (live_of ?M) (parent_of ?M)" using q by (simp add: parent_edges_def)
  ultimately show thesis by (rule that)
qed

lemma live_child:
  assumes inv: "ix_inv ix" and q: "map_of (ix_pages ix) h = Some q" "k \<in> pg_children q"
  obtains r where "map_of (ix_pages ix) k = Some r" and "\<not> page_dead r" and "pg_parent r = Some h"
proof -
  let ?M = "map_of (ix_pages ix)"
  note e = edges_okD [OF pages_invD(1) [OF inv refl]]
  have "k \<in> children_of ?M h" using q by simp
  with e(4,6) have "live_of ?M k" "parent_of ?M k = Some h" by auto
  then show thesis using that by (auto simp: proj_defs split: option.splits)
qed

text \<open>The climb over the ancestors of an offloaded page ends, and finds nothing exactly when every
  ancestor is resident.\<close>

definition ancestors_resident :: "page_index \<Rightarrow> page_handle \<Rightarrow> bool" where
  "ancestors_resident ix h \<longleftrightarrow>
     (\<forall>a q. (h, a) \<in> (parent_edges (live_of (map_of (ix_pages ix))) (parent_of (map_of (ix_pages ix))))\<^sup>+ \<longrightarrow>
        map_of (ix_pages ix) a = Some q \<longrightarrow> gpu_resident q)"

lemma ancestor_blockers_total:
  assumes inv: "ix_inv ix" and ok: "page_ok b p"
  shows "map_of (ix_pages ix) h = Some q \<Longrightarrow> \<not> page_dead q \<Longrightarrow>
    \<forall>x \<in> seen. (x, h) \<in> (parent_edges (live_of (map_of (ix_pages ix))) (parent_of (map_of (ix_pages ix))))\<^sup>* \<Longrightarrow>
    \<exists>bs. ancestor_blockers ix p seen (pg_parent q) = Inr bs \<and> (bs = [] \<longrightarrow> ancestors_resident ix h)"
proof (induction h arbitrary: q seen rule: wf_induct_rule [OF parent_edges_wf [OF inv]])
  case (1 h)
  let ?R = "parent_edges (live_of (map_of (ix_pages ix))) (parent_of (map_of (ix_pages ix)))"
  have only: "(h, x) \<in> ?R \<Longrightarrow> pg_parent q = Some x" for x using "1.prems"(1) by (simp add: parent_edges_def)
  show ?case
  proof (cases "pg_parent q")
    case None
    then have "ancestors_resident ix h" using only by (auto simp: ancestors_resident_def dest: tranclD)
    then show ?thesis using None by (simp add: ancestor_blockers.simps)
  next
    case (Some a)
    obtain r where r: "map_of (ix_pages ix) a = Some r" "\<not> page_dead r" "(h, a) \<in> ?R"
      using live_parent [OF inv "1.prems"(1,2) Some] by blast
    have fresh: "a \<notin> seen"
    proof
      assume "a \<in> seen"
      with "1.prems"(3) r(3) have "(a, a) \<in> ?R\<^sup>+" by (meson rtrancl_into_trancl1)
      with pages_invD(2) [OF inv refl] show False by (simp add: acyclic_def)
    qed
    show ?thesis
    proof (cases "gpu_resident r")
      case False
      then show ?thesis using Some r by (simp add: ancestor_blockers.simps(2) [of ix p seen a] page_blocker_ok [OF ok])
    next
      case True
      have seen: "\<forall>x \<in> insert a seen. (x, a) \<in> ?R\<^sup>*"
        using "1.prems"(3) r(3) by (auto intro: rtrancl_into_rtrancl)
      obtain bs where bs: "ancestor_blockers ix p (insert a seen) (pg_parent r) = Inr bs"
        "bs = [] \<longrightarrow> ancestors_resident ix a"
        using "1.IH" [OF converseI [OF r(3)] r(1,2) seen] by blast
      have "ancestors_resident ix h" if up: "ancestors_resident ix a"
        unfolding ancestors_resident_def
      proof (intro allI impI)
        fix x y
        assume "(h, x) \<in> ?R\<^sup>+" and y: "map_of (ix_pages ix) x = Some y"
        then obtain z where "(h, z) \<in> ?R" "(z, x) \<in> ?R\<^sup>*" by (meson tranclD)
        with only Some have "(a, x) \<in> ?R\<^sup>*" by simp
        then consider "x = a" | "(a, x) \<in> ?R\<^sup>+" by (metis rtranclD)
        then show "gpu_resident y" using True r(1) y up by cases (simp, auto simp: ancestors_resident_def)
      qed
      with bs Some r fresh True show ?thesis by (simp add: ancestor_blockers.simps(2) [of ix p seen a])
    qed
  qed
qed

text \<open>The descent finds exactly the pages connected to the root by GPU-resident pages.\<close>

definition gpu_child :: "page_index \<Rightarrow> (page_handle \<times> page_handle) set" where
  "gpu_child ix = {(h, k). \<exists>p q. map_of (ix_pages ix) h = Some p \<and> gpu_resident p \<and> k \<in> pg_children p \<and>
     map_of (ix_pages ix) k = Some q \<and> gpu_resident q}"

abbreviation resident_at :: "page_index \<Rightarrow> page_handle \<Rightarrow> bool" where
  "resident_at ix h \<equiv> \<exists>p. map_of (ix_pages ix) h = Some p \<and> gpu_resident p"

definition closure_ok :: "page_index \<Rightarrow> page_closure \<Rightarrow> bool" where
  "closure_ok ix cl \<longleftrightarrow> dict_ok cl \<and> (\<forall>(h, p) \<in> set cl. map_of (ix_pages ix) h = Some p \<and> \<not> page_dead p)"

lemma gpu_not_dead: "gpu_resident p \<Longrightarrow> \<not> page_dead p"
  by (auto simp: gpu_resident_def)

text \<open>What the walk guarantees of its result, from a closure \<open>K\<close> and a stack.\<close>

definition descended :: "page_index \<Rightarrow> page_handle set \<Rightarrow> page_handle set \<Rightarrow> page_closure \<Rightarrow> bool" where
  "descended ix S K cl \<longleftrightarrow>
     closure_ok ix cl \<and> (\<forall>(h, p) \<in> set cl. gpu_resident p) \<and>
     (\<forall>k j. k \<in> fst ` set cl \<longrightarrow> (k, j) \<in> gpu_child ix \<longrightarrow> j \<in> fst ` set cl) \<and> K \<subseteq> fst ` set cl \<and>
     (\<forall>h \<in> S. resident_at ix h \<longrightarrow> h \<in> fst ` set cl) \<and>
     (\<forall>k \<in> fst ` set cl. k \<in> K \<or> (\<exists>h \<in> S. resident_at ix h \<and> (h, k) \<in> (gpu_child ix)\<^sup>*))"

lemma descendedD:
  assumes "descended ix S K cl"
  shows "closure_ok ix cl" "\<forall>(h, p) \<in> set cl. gpu_resident p"
    "\<forall>k j. k \<in> fst ` set cl \<longrightarrow> (k, j) \<in> gpu_child ix \<longrightarrow> j \<in> fst ` set cl" "K \<subseteq> fst ` set cl"
    "\<forall>h \<in> S. resident_at ix h \<longrightarrow> h \<in> fst ` set cl"
    "\<forall>k \<in> fst ` set cl. k \<in> K \<or> (\<exists>h \<in> S. resident_at ix h \<and> (h, k) \<in> (gpu_child ix)\<^sup>*)"
  using assms unfolding descended_def
  by (rule conjunct1 conjunct2 [THEN conjunct1] conjunct2 [THEN conjunct2, THEN conjunct1]
      conjunct2 [THEN conjunct2, THEN conjunct2, THEN conjunct1]
      conjunct2 [THEN conjunct2, THEN conjunct2, THEN conjunct2, THEN conjunct1]
      conjunct2 [THEN conjunct2, THEN conjunct2, THEN conjunct2, THEN conjunct2])+

lemma descended_skip:
  assumes "descended ix S K cl" and "resident_at ix h \<Longrightarrow> h \<in> K"
  shows "descended ix (insert h S) K cl"
  using assms unfolding descended_def by blast

lemma descended_visit:
  assumes d: "descended ix (pg_children p \<union> S) (insert h K) cl"
    and p: "map_of (ix_pages ix) h = Some p" "gpu_resident p"
  shows "descended ix (insert h S) K cl"
proof -
  have res: "resident_at ix h" using p by blast
  have step: "\<exists>y \<in> insert h S. resident_at ix y \<and> (y, k) \<in> (gpu_child ix)\<^sup>*"
    if x: "x \<in> pg_children p \<union> S" "resident_at ix x" "(x, k) \<in> (gpu_child ix)\<^sup>*" for x k
  proof (cases "x \<in> S")
    case True
    with x show ?thesis by blast
  next
    case False
    with x(1,2) p have "(h, x) \<in> gpu_child ix" by (simp add: gpu_child_def)
    with x(3) have "(h, k) \<in> (gpu_child ix)\<^sup>*" by (rule converse_rtrancl_into_rtrancl [rotated])
    with res show ?thesis by blast
  qed
  note orig = descendedD(6) [OF d] and rest = descendedD(1,2,4,3,5) [OF d]
  have "\<forall>k \<in> fst ` set cl. k \<in> K \<or> (\<exists>y \<in> insert h S. resident_at ix y \<and> (y, k) \<in> (gpu_child ix)\<^sup>*)"
  proof
    fix k
    assume "k \<in> fst ` set cl"
    with orig consider "k = h" | "k \<in> K" | x where "x \<in> pg_children p \<union> S" "resident_at ix x" "(x, k) \<in> (gpu_child ix)\<^sup>*"
      by blast
    then show "k \<in> K \<or> (\<exists>y \<in> insert h S. resident_at ix y \<and> (y, k) \<in> (gpu_child ix)\<^sup>*)"
      using res step by cases blast+
  qed
  moreover have "K \<subseteq> fst ` set cl" "\<forall>x \<in> insert h S. resident_at ix x \<longrightarrow> x \<in> fst ` set cl" using rest(3,5) by blast+
  ultimately show ?thesis unfolding descended_def using rest(1,2,4) by (intro conjI)
qed

lemma gpu_closure_spec:
  "ix_inv ix \<Longrightarrow> gpu_closure ix stack cl bs = (cl', bs') \<Longrightarrow> closure_ok ix cl \<Longrightarrow>
   \<forall>(h, p) \<in> set cl. gpu_resident p \<Longrightarrow>
   \<forall>k j. k \<in> fst ` set cl \<longrightarrow> (k, j) \<in> gpu_child ix \<longrightarrow> j \<in> fst ` set cl \<union> set stack \<Longrightarrow>
   descended ix (set stack) (fst ` set cl) cl'"
proof (induction ix stack cl bs rule: gpu_closure.induct)
  case (1 ix cl bs)
  then show ?case by (simp add: gpu_closure.simps descended_def)
next
  case (2 ix h stack cl bs)
  note step = gpu_closure.simps(2) [of ix h stack cl bs]
  consider (seen) "dict_in h cl" | (out) "\<not> dict_in h cl" "\<not> resident_at ix h"
    | (new) p where "\<not> dict_in h cl" "map_of (ix_pages ix) h = Some p" "gpu_resident p" by blast
  then show ?case
  proof cases
    case seen
    then have h: "h \<in> fst ` set cl" by (simp add: dict_in_iff)
    have clo: "\<forall>k j. k \<in> fst ` set cl \<longrightarrow> (k, j) \<in> gpu_child ix \<longrightarrow> j \<in> fst ` set cl \<union> set stack"
      using "2.prems"(5) h by auto
    have "descended ix (set stack) (fst ` set cl) cl'"
      using "2.prems"(2) seen unfolding step by (intro "2.IH"(1) [OF seen "2.prems"(1) _ "2.prems"(3,4) clo]) simp
    then show ?thesis using descended_skip [of ix "set stack" "fst ` set cl" cl' h] h by simp
  next
    case out
    have clo: "\<forall>k j. k \<in> fst ` set cl \<longrightarrow> (k, j) \<in> gpu_child ix \<longrightarrow> j \<in> fst ` set cl \<union> set stack"
    proof (intro allI impI)
      fix k j
      assume "k \<in> fst ` set cl" and kj: "(k, j) \<in> gpu_child ix"
      with "2.prems"(5) have "j \<in> fst ` set cl \<union> set (h # stack)" by blast
      moreover have "j \<noteq> h" using kj out(2) by (auto simp: gpu_child_def)
      ultimately show "j \<in> fst ` set cl \<union> set stack" by simp
    qed
    have "descended ix (set stack) (fst ` set cl) cl'"
    proof (cases "map_of (ix_pages ix) h")
      case None
      then show ?thesis using "2.prems"(2) out(1) unfolding step
        by (intro "2.IH"(2) [OF out(1) None "2.prems"(1) _ "2.prems"(3,4) clo]) simp
    next
      case (Some p)
      with out(2) have g: "\<not> gpu_resident p" by simp
      show ?thesis
      proof (cases "page_dead p")
        case True
        then show ?thesis using "2.prems"(2) out(1) Some unfolding step
          by (intro "2.IH"(3) [OF out(1) Some True "2.prems"(1) _ "2.prems"(3,4) clo]) simp
      next
        case False
        then show ?thesis using "2.prems"(2) out(1) Some g unfolding step
          by (intro "2.IH"(4) [OF out(1) Some False g "2.prems"(1) _ "2.prems"(3,4) clo]) simp
      qed
    qed
    then show ?thesis using descended_skip [of ix "set stack" "fst ` set cl" cl' h] out(2) by simp
  next
    case (new p)
    let ?cl = "cl @ [(h, p)]" and ?st = "sorted_list_of_set (pg_children p) @ stack"
    have live: "\<not> page_dead p" using new(3) by (rule gpu_not_dead)
    have fin: "finite (pg_children p)" using pages_invD(4) [OF "2.prems"(1) refl new(2)] by (simp add: page_ok_def)
    have hcl: "h \<notin> fst ` set cl" using new(1) by (simp add: dict_in_iff)
    have ok: "closure_ok ix ?cl" using "2.prems"(3) new(2) live hcl by (auto simp: closure_ok_def)
    have gpu: "\<forall>(h, p) \<in> set ?cl. gpu_resident p" using "2.prems"(4) new(3) by auto
    have clo: "\<forall>k j. k \<in> fst ` set ?cl \<longrightarrow> (k, j) \<in> gpu_child ix \<longrightarrow> j \<in> fst ` set ?cl \<union> set ?st"
    proof (intro allI impI)
      fix k j
      assume k: "k \<in> fst ` set ?cl" and kj: "(k, j) \<in> gpu_child ix"
      show "j \<in> fst ` set ?cl \<union> set ?st"
      proof (cases "k = h")
        case True
        with kj new(2) fin show ?thesis by (auto simp: gpu_child_def)
      next
        case False
        with k have "k \<in> fst ` set cl" by simp
        with "2.prems"(5) kj have "j \<in> fst ` set cl \<union> set (h # stack)" by blast
        then show ?thesis by auto
      qed
    qed
    have eq: "gpu_closure ix (h # stack) cl bs = gpu_closure ix ?st ?cl bs" unfolding step using new live by simp
    have "descended ix (set ?st) (fst ` set ?cl) cl'"
      by (rule "2.IH"(5) [OF new(1,2) live _ "2.prems"(1) "2.prems"(2) [unfolded eq] ok gpu clo]) (simp add: new(3))
    then show ?thesis using descended_visit [of ix p "set stack" h "fst ` set cl" cl'] new(2,3) fin by simp
  qed
qed

section \<open>The loops over a closure\<close>

text \<open>The residency that an action needs.\<close>

fun action_fits :: "physical_page_action \<Rightarrow> page_record \<Rightarrow> bool" where
  "action_fits START_D2H p = (pg_residency p = GPU_ONLY)"
| "action_fits COMMIT_CPU p = (pg_residency p = DUAL_CLEAN)"
| "action_fits START_H2D p = (pg_residency p = CPU_ONLY)"
| "action_fits DROP_HOST p = (pg_residency p \<in> {DUAL_CLEAN, CPU_ONLY})"
| "action_fits _ p = True"

text \<open>The actions a kind of command may take.\<close>

fun kind_allows :: "command_kind \<Rightarrow> physical_page_action \<Rightarrow> bool" where
  "kind_allows OFFLOAD_CONTEXT a = (a \<in> {START_D2H, COMMIT_CPU})"
| "kind_allows SHADOW_CONTEXT a = (a = START_D2H)"
| "kind_allows DROP_CONTEXT a = (a = DROP)"
| "kind_allows PREFETCH_CONTEXT a = (a = START_H2D)"
| "kind_allows _ a = False"

text \<open>What one page contributes: at most one action, which fits it.\<close>

definition one_action :: "command_kind \<Rightarrow> page_record \<Rightarrow> resolved_page_action list \<Rightarrow> bool" where
  "one_action kind p as \<longleftrightarrow> as = [] \<or>
     (\<exists>a. as = [\<lparr>rpa_handle = pg_handle p, rpa_action = a, rpa_size_bytes = pg_size_bytes p\<rparr>] \<and>
        kind_allows kind a \<and> action_fits a p)"

definition adds ::
  "(preview_acc \<Rightarrow> preview_acc result) \<Rightarrow> resolved_page_action list \<Rightarrow> transfer_blocker list \<Rightarrow> page_handle set \<Rightarrow> bool" where
  "adds f as bs xs \<longleftrightarrow> (\<forall>A B X. f (A, B, X) = Inr (A @ as, B @ bs, X \<union> xs))"

lemma addsI: "(\<And>A B X. f (A, B, X) = Inr (A @ as, B @ bs, X \<union> xs)) \<Longrightarrow> adds f as bs xs"
  by (simp add: adds_def)

lemma rfold_adds:
  assumes "\<And>p. p \<in> set ps \<Longrightarrow> \<exists>as bs xs. adds (f p) as bs xs \<and> (bs = [] \<longrightarrow> P p) \<and> one_action kind p as"
  shows "\<exists>ass bs xs. adds (rfold f ps) (concat ass) bs xs \<and> (bs = [] \<longrightarrow> (\<forall>p \<in> set ps. P p)) \<and>
    list_all2 (one_action kind) ps ass"
  using assms
proof (induction ps)
  case Nil
  have "adds (rfold f []) (concat []) [] {}" by (rule addsI) simp
  then show ?case by (metis list.rel_intros(1) empty_iff list.set(1))
next
  case (Cons p ps)
  obtain as bs xs where one: "adds (f p) as bs xs" "bs = [] \<longrightarrow> P p" "one_action kind p as" using Cons.prems [of p] by auto
  obtain ass bs' xs' where more: "adds (rfold f ps) (concat ass) bs' xs'" "bs' = [] \<longrightarrow> (\<forall>p \<in> set ps. P p)"
    "list_all2 (one_action kind) ps ass" using Cons.IH Cons.prems by auto
  have "adds (rfold f (p # ps)) (concat (as # ass)) (bs @ bs') (xs \<union> xs')"
    using one(1) more(1) by (simp add: adds_def Un_assoc)
  moreover have "bs @ bs' = [] \<longrightarrow> (\<forall>q \<in> set (p # ps). P q)" using one(2) more(2) by simp
  moreover have "list_all2 (one_action kind) (p # ps) (as # ass)" using one(3) more(3) by simp
  ultimately show ?case by blast
qed

lemma offload_action_ok:
  assumes "page_ok h p" and kind: "kind \<in> {OFFLOAD_CONTEXT, SHADOW_CONTEXT}"
  shows "\<exists>as. offload_action kind p = Inr as \<and> one_action kind p as"
proof -
  have "pg_handle p = h" using assms by (simp add: page_ok_def)
  then show ?thesis using kind by (auto simp: offload_action_def page_action_ok [OF assms(1)] one_action_def)
qed

lemma offload_page_adds:
  assumes inv: "ix_inv ix" and leases: "\<And>c. \<exists>l. lease_context g c now = Inr l"
    and p: "map_of (ix_pages ix) h = Some p" "\<not> page_dead p" and kind: "kind \<in> {OFFLOAD_CONTEXT, SHADOW_CONTEXT}"
  shows "\<exists>as bs xs. adds (offload_page g ix kind now rules p) as bs xs \<and>
    (bs = [] \<longrightarrow> page_movable p \<and> owner_free g now rules p \<and> ancestors_resident ix h) \<and> one_action kind p as"
proof -
  have ok: "page_ok h p" by (rule pages_invD(4) [OF inv refl p(1)])
  then have h: "pg_handle p = h" by (simp add: page_ok_def)
  obtain as where as: "offload_action kind p = Inr as" "one_action kind p as"
    using offload_action_ok [OF ok kind] by blast
  obtain pbs where pbs: "page_blockers p = Inr pbs" "pbs = [] \<longleftrightarrow> page_movable p" by (rule page_blockers_ok [OF ok])
  obtain obs where obs: "owner_blockers g now rules p = Inr obs" "obs = [] \<longleftrightarrow> owner_free g now rules p"
    by (rule owner_blockers_ok [OF ok leases])
  obtain abs where abs: "ancestor_blockers ix p {} (pg_parent p) = Inr abs" "abs = [] \<longrightarrow> ancestors_resident ix h"
    using ancestor_blockers_total [OF inv ok p, of "{}"] by auto
  show ?thesis
  proof (cases "pbs @ obs = []")
    case True
    have "adds (offload_page g ix kind now rules p) as abs (if abs = [] then {} else {pg_handle p})"
      using True as pbs obs abs by (intro addsI) (simp add: offload_page_def)
    with True as(2) pbs(2) obs(2) abs(2) show ?thesis by auto
  next
    case False
    have "adds (offload_page g ix kind now rules p) as (pbs @ obs) {pg_handle p}"
      using False as pbs obs by (intro addsI) (simp add: offload_page_def)
    with False as(2) show ?thesis by blast
  qed
qed

lemma drop_page_adds:
  assumes ok: "page_ok h p" and leases: "\<And>c. \<exists>l. lease_context g c now = Inr l"
  shows "\<exists>as bs xs. adds (drop_page_step g now rules p) as bs xs \<and>
    (bs = [] \<longrightarrow> page_movable p \<and> owner_free g now rules p) \<and> one_action DROP_CONTEXT p as"
proof -
  have h: "pg_handle p = h" using ok by (simp add: page_ok_def)
  obtain pbs where pbs: "page_blockers p = Inr pbs" "pbs = [] \<longleftrightarrow> page_movable p" by (rule page_blockers_ok [OF ok])
  obtain obs where obs: "owner_blockers g now rules p = Inr obs" "obs = [] \<longleftrightarrow> owner_free g now rules p"
    by (rule owner_blockers_ok [OF ok leases])
  let ?a = "\<lparr>rpa_handle = pg_handle p, rpa_action = DROP, rpa_size_bytes = pg_size_bytes p\<rparr>"
  have "adds (drop_page_step g now rules p) [?a] (pbs @ obs) (if pbs @ obs \<noteq> [] then {pg_handle p} else {})"
    using pbs obs by (intro addsI) (simp add: drop_page_step_def page_action_ok [OF ok] h)
  moreover have "one_action DROP_CONTEXT p [?a]" by (simp add: one_action_def)
  ultimately show ?thesis using pbs(2) obs(2) by (metis append_is_Nil_conv)
qed

lemma prefetch_page_adds:
  assumes ok: "page_ok h p"
  shows "\<exists>as bs xs. adds (prefetch_page p) as bs xs \<and>
    (bs = [] \<longrightarrow> gpu_resident p \<or> pg_residency p = CPU_ONLY \<and> page_movable p) \<and> one_action PREFETCH_CONTEXT p as"
proof (cases "gpu_resident p")
  case True
  then have "adds (prefetch_page p) [] [] {}" by (intro addsI) (simp add: prefetch_page_def)
  with True show ?thesis by (auto simp: one_action_def)
next
  case False
  have h: "pg_handle p = h" using ok by (simp add: page_ok_def)
  obtain pbs where pbs: "page_blockers p = Inr pbs" "pbs = [] \<longleftrightarrow> page_movable p" by (rule page_blockers_ok [OF ok])
  let ?as = "if pg_residency p = CPU_ONLY
    then [\<lparr>rpa_handle = h, rpa_action = START_H2D, rpa_size_bytes = pg_size_bytes p\<rparr>] else []"
  have one: "one_action PREFETCH_CONTEXT p ?as" by (simp add: one_action_def h)
  show ?thesis
  proof (cases "pbs = [] \<and> pg_residency p = CPU_ONLY")
    case True
    have "adds (prefetch_page p) ?as [] {}"
      using False True pbs by (intro addsI) (simp add: prefetch_page_def page_action_ok [OF ok])
    with True one pbs(2) show ?thesis by blast
  next
    case blocked: False
    have "\<exists>bs. bs \<noteq> [] \<and> adds (prefetch_page p) ?as bs {h}"
    proof (cases "pbs = []")
      case True
      with False blocked pbs show ?thesis
        by (intro exI conjI addsI) (simp_all add: prefetch_page_def page_blocker_ok [OF ok] h)
    next
      case nonempty: False
      with False pbs have "adds (prefetch_page p) ?as pbs {h}"
        by (intro addsI) (simp add: prefetch_page_def page_action_ok [OF ok] h)
      with nonempty show ?thesis by blast
    qed
    with one show ?thesis by blast
  qed
qed

text \<open>The actions of a loop act on different pages of the closure, each on a page it fits.\<close>

definition actions_ok :: "command_kind \<Rightarrow> page_record list \<Rightarrow> resolved_page_action list \<Rightarrow> bool" where
  "actions_ok kind ps as \<longleftrightarrow> distinct (map rpa_handle as) \<and>
     (\<forall>a \<in> set as. \<exists>p \<in> set ps. rpa_handle a = pg_handle p \<and> rpa_size_bytes a = pg_size_bytes p \<and>
        kind_allows kind (rpa_action a) \<and> action_fits (rpa_action a) p)"

lemma one_actions_ok:
  "list_all2 (one_action kind) ps ass \<Longrightarrow> distinct (map pg_handle ps) \<Longrightarrow> actions_ok kind ps (concat ass)"
proof (induction ps ass rule: list_all2_induct)
  case (Cons p ps as ass)
  then have rest: "actions_ok kind ps (concat ass)" by simp
  then have sub: "rpa_handle ` set (concat ass) \<subseteq> pg_handle ` set ps" by (auto simp: actions_ok_def)
  from Cons.hyps(1) consider "as = []"
    | a where "as = [\<lparr>rpa_handle = pg_handle p, rpa_action = a, rpa_size_bytes = pg_size_bytes p\<rparr>]" "kind_allows kind a" "action_fits a p"
    by (auto simp: one_action_def)
  then show ?case
  proof cases
    case 1
    with rest show ?thesis by (auto simp: actions_ok_def)
  next
    case 2
    have "pg_handle p \<notin> rpa_handle ` set (concat ass)" using Cons.prems sub by auto
    with rest 2 show ?thesis by (auto simp: actions_ok_def)
  qed
qed (simp add: actions_ok_def)

lemma closure_handles:
  assumes "ix_inv ix" and "closure_ok ix cl"
  shows "map (pg_handle \<circ> snd) cl = map fst cl"
  using assms pages_invD(4) [OF assms(1) refl] by (force simp: closure_ok_def page_ok_def)

lemma closure_pages_distinct:
  assumes inv: "ix_inv ix" and ok: "closure_ok ix cl" and ps: "mset ps = mset (map snd cl)"
  shows "distinct (map pg_handle ps)" and "pg_handle ` set ps = fst ` set cl"
proof -
  have eq: "mset (map pg_handle ps) = mset (map fst cl)"
    using closure_handles [OF inv ok] ps by (metis (no_types, lifting) map_map mset_map)
  then show "distinct (map pg_handle ps)" using ok by (metis closure_ok_def mset_eq_imp_distinct_iff)
  from eq show "pg_handle ` set ps = fst ` set cl" by (metis list.set_map mset_eq_setD)
qed

section \<open>Building the preview\<close>

lemma rfold_total:
  "(\<And>x s. x \<in> set xs \<Longrightarrow> \<exists>s'. f x s = Inr s') \<Longrightarrow> \<exists>s'. rfold f xs s = Inr s'"
proof (induction xs arbitrary: s)
  case (Cons x xs)
  obtain s1 where "f x s = Inr s1" using Cons.prems [of x s] by auto
  moreover obtain s2 where "rfold f xs s1 = Inr s2" using Cons.IH [of s1] Cons.prems by auto
  ultimately show ?case by simp
qed simp

lemma action_scope_total:
  assumes "rpa_handle ` set as \<subseteq> fst ` set cl"
  obtains sc where "action_scope c cl as = Inr sc"
proof -
  let ?f = "\<lambda>a (exclusive, cross, foreign). rbind (dict_item cl (rpa_handle a) ''handle'') (\<lambda>p.
      let others = set (map fst (pg_owner_contexts p)) - {c} in
      Inr (if others \<noteq> {} then (exclusive, cross + rpa_size_bytes a, foreign \<union> others)
           else (exclusive + rpa_size_bytes a, cross, foreign)))"
  have "\<exists>s'. ?f a s = Inr s'" if "a \<in> set as" for a s
  proof -
    have "dict_in (rpa_handle a) cl" using that assms by (auto simp: dict_in_iff)
    then obtain p where "dict_item cl (rpa_handle a) ''handle'' = Inr p" by (auto simp: dict_in_def dict_item_def)
    then show ?thesis by (cases s) (simp add: Let_def)
  qed
  then have "\<exists>s'. rfold ?f as s = Inr s'" for s by (rule rfold_total)
  then obtain s' where s': "rfold ?f as (0, 0, {}) = Inr s'" by blast
  have "\<exists>sc. action_scope c cl as = Inr sc" unfolding action_scope_def s' by (cases s') simp
  with that show thesis by blast
qed

lemma lease_bundle_total:
  assumes "\<And>c. \<exists>l. lease_context g c now = Inr l"
  obtains b where "lease_bundle g bid owners now = Inr b"
proof -
  have "\<exists>ls. rmap (\<lambda>c. lease_context g c now) cs = Inr ls" for cs
  proof (induction cs)
    case (Cons c cs)
    with assms [of c] show ?case by auto
  qed simp
  then obtain ls where "rmap (\<lambda>c. lease_context g c now) (py_sorted_set owners) = Inr ls" by blast
  then show thesis using that by (simp add: lease_bundle_def Let_def)
qed

lemma deduplicate_blockers_Nil [simp]: "deduplicate_blockers bs = [] \<longleftrightarrow> bs = []"
proof -
  have "length (deduplicate_blockers bs) = card (set bs)"
    by (simp add: deduplicate_blockers_def length_remdups_card_conv)
  then show ?thesis by (metis List.finite_set card_eq_0_iff length_0_conv set_empty)
qed

text \<open>What a preview says about the closure it was built from.\<close>

definition preview_of :: "py_digest \<Rightarrow> command_kind \<Rightarrow> page_closure \<Rightarrow> resolved_page_action list \<Rightarrow> transfer_blocker list \<Rightarrow>
  bundle_preview \<Rightarrow> bool" where
  "preview_of digest kind cl as bs p \<longleftrightarrow>
     bp_command_kind p = kind \<and> bd_handles (bp_bundle p) = map fst (closure_items cl) \<and>
     bp_page_actions p = as \<and> bp_blockers p = bs \<and> bd_closure_bytes (bp_bundle p) = action_bytes as \<and>
     bd_marginal_reclaimable_bytes (bp_bundle p) \<in> {0, action_bytes as} \<and> 0 \<le> bd_locked_bytes (bp_bundle p) \<and>
     bd_bundle_id (bp_bundle p) \<noteq> [] \<and> (\<exists>lease scope.
       bd_generation_fingerprint (bp_bundle p) = fingerprint digest kind cl lease scope)"

lemma build_preview_total:
  assumes inv: "ix_inv ix" and leases: "\<And>c. \<exists>l. lease_context g c now = Inr l" and ok: "closure_ok ix cl"
    and sub: "rpa_handle ` set as \<subseteq> fst ` set cl"
  obtains p where "build_preview digest g kind c epoch cl as bs blocked now = Inr p" and "preview_of digest kind cl as bs p"
proof -
  obtain sc where sc: "action_scope c cl as = Inr sc" by (rule action_scope_total [OF sub])
  let ?bid = "bundle_id digest kind (map fst (closure_items cl))"
  obtain l where l: "lease_bundle g ?bid
      (py_sorted_set (concat (map (\<lambda>(h, p). map fst (pg_owner_contexts p)) cl))) now = Inr l"
    by (rule lease_bundle_total [OF leases])
  have "0 \<le> pg_size_bytes p" if "(h, p) \<in> set cl" for h p
    using that ok pages_invD(4) [OF inv refl, of h p] by (auto simp: closure_ok_def page_ok_def)
  then have "0 \<le> sum_list (map (\<lambda>(h, p). pg_size_bytes p) (filter (\<lambda>(h, p). h \<in> blocked) cl))"
    by (intro sum_list_nonneg) auto
  moreover have "?bid \<noteq> []" by (simp add: bundle_id_def)
  moreover obtain scope ex cr fo where "sc = (scope, ex, cr, fo)" by (cases sc)
  ultimately have "\<exists>p. build_preview digest g kind c epoch cl as bs blocked now = Inr p \<and> preview_of digest kind cl as bs p"
    using sc l by (simp add: build_preview_def Let_def preview_of_def) blast
  with that show thesis by blast
qed

section \<open>Previews are sound\<close>

text \<open>What an eligible preview promises.\<close>

definition bundle_safe :: "causal_graph \<Rightarrow> page_index \<Rightarrow> real \<Rightarrow> owner_rules \<Rightarrow> command_kind \<Rightarrow> page_handle set \<Rightarrow> bool" where
  "bundle_safe g ix now rules kind H \<longleftrightarrow>
     (if kind = PREFETCH_CONTEXT then
        (\<forall>h \<in> H. \<exists>p. map_of (ix_pages ix) h = Some p \<and>
           (gpu_resident p \<or> pg_residency p = CPU_ONLY \<and> page_movable p \<and> set_option (pg_parent p) \<subseteq> H))
      else
        (\<forall>h \<in> H. \<exists>p. map_of (ix_pages ix) h = Some p \<and> gpu_resident p \<and> page_movable p \<and> owner_free g now rules p \<and>
           (kind \<noteq> DROP_CONTEXT \<longrightarrow> ancestors_resident ix h)) \<and>
        (\<forall>h k. h \<in> H \<longrightarrow> (h, k) \<in> gpu_child ix \<longrightarrow> k \<in> H))"

definition preview_sound ::
  "py_digest \<Rightarrow> causal_graph \<Rightarrow> page_index \<Rightarrow> real \<Rightarrow> owner_rules \<Rightarrow> command_kind \<Rightarrow> bundle_preview \<Rightarrow> bool" where
  "preview_sound digest g ix now rules kind p \<longleftrightarrow>
     (\<exists>cl. closure_ok ix cl \<and> preview_of digest kind cl (bp_page_actions p) (bp_blockers p) p \<and>
        actions_ok kind (map snd cl) (bp_page_actions p) \<and>
        (bp_blockers p = [] \<longrightarrow> bundle_safe g ix now rules kind (fst ` set cl)))"

lemma actions_ok_set: "set ps = set qs \<Longrightarrow> actions_ok kind ps as = actions_ok kind qs as"
  by (simp add: actions_ok_def)

lemma mset_pages_up [simp]: "mset (pages_up ps) = mset ps" "set (pages_up ps) = set ps"
  by (simp_all add: pages_up_def)

lemma mset_pages_down [simp]: "mset (pages_down ps) = mset ps" "set (pages_down ps) = set ps"
  by (simp_all add: pages_down_def)

lemma rfold_closure:
  assumes inv: "ix_inv ix" and ok: "closure_ok ix cl" and ps: "mset ps = mset (map snd cl)"
    and steps: "\<And>p. p \<in> snd ` set cl \<Longrightarrow> \<exists>as bs xs. adds (f p) as bs xs \<and> (bs = [] \<longrightarrow> P p) \<and> one_action kind p as"
  obtains as bs xs where "rfold f ps (A, B, X) = Inr (A @ as, B @ bs, X \<union> xs)"
    and "bs = [] \<longrightarrow> (\<forall>(h, p) \<in> set cl. P p)" and "actions_ok kind (map snd cl) as" and "rpa_handle ` set as \<subseteq> fst ` set cl"
proof -
  have set: "set ps = snd ` set cl" using ps by (metis list.set_map mset_eq_setD)
  then have "\<exists>as bs xs. adds (f p) as bs xs \<and> (bs = [] \<longrightarrow> P p) \<and> one_action kind p as" if "p \<in> set ps" for p
    using that steps by simp
  from rfold_adds [OF this] obtain ass bs xs where r: "adds (rfold f ps) (concat ass) bs xs"
    "bs = [] \<longrightarrow> (\<forall>p \<in> set ps. P p)" "list_all2 (one_action kind) ps ass" by blast
  have as: "actions_ok kind ps (concat ass)" using one_actions_ok [OF r(3) closure_pages_distinct(1) [OF inv ok ps]] .
  show thesis
  proof (rule that)
    show "rfold f ps (A, B, X) = Inr (A @ concat ass, B @ bs, X \<union> xs)" using r(1) by (simp add: adds_def)
    show "bs = [] \<longrightarrow> (\<forall>(h, p) \<in> set cl. P p)" using r(2) set by force
    show "actions_ok kind (map snd cl) (concat ass)" using as actions_ok_set [of ps "map snd cl"] set by simp
    show "rpa_handle ` set (concat ass) \<subseteq> fst ` set cl"
      using as unfolding closure_pages_distinct(2) [OF inv ok ps, symmetric] actions_ok_def by blast
  qed
qed

lemma closure_lookup: "closure_ok ix cl \<Longrightarrow> (h, p) \<in> set cl \<Longrightarrow> map_of (ix_pages ix) h = Some p \<and> \<not> page_dead p"
  by (auto simp: closure_ok_def)

lemma gpu_closure_root:
  assumes inv: "ix_inv ix" and "gpu_closure ix [h] [] [] = (cl, bs)"
  shows "closure_ok ix cl" "\<forall>(h, p) \<in> set cl. gpu_resident p"
    "\<forall>k j. k \<in> fst ` set cl \<longrightarrow> (k, j) \<in> gpu_child ix \<longrightarrow> j \<in> fst ` set cl"
    "resident_at ix h \<Longrightarrow> fst ` set cl = (gpu_child ix)\<^sup>* `` {h}"
proof -
  have d: "descended ix {h} {} cl" using gpu_closure_spec [OF inv assms(2)] by (simp add: closure_ok_def)
  note dd = descendedD [OF d]
  show "closure_ok ix cl" "\<forall>(h, p) \<in> set cl. gpu_resident p"
    and closed: "\<forall>k j. k \<in> fst ` set cl \<longrightarrow> (k, j) \<in> gpu_child ix \<longrightarrow> j \<in> fst ` set cl"
    by (fact dd)+
  assume "resident_at ix h"
  then have h: "h \<in> fst ` set cl" using dd(5) by blast
  have "k \<in> fst ` set cl" if "(h, k) \<in> (gpu_child ix)\<^sup>*" for k
    using that by (induction rule: rtrancl_induct) (use h closed in blast)+
  then show "fst ` set cl = (gpu_child ix)\<^sup>* `` {h}" using dd(6) by blast
qed

lemma preview_soundI:
  assumes "closure_ok ix cl" and "preview_of digest kind cl as bs p" and "actions_ok kind (map snd cl) as"
    and "bs = [] \<Longrightarrow> bundle_safe g ix now rules kind (fst ` set cl)"
  shows "preview_sound digest g ix now rules kind p"
  using assms by (auto simp: preview_sound_def preview_of_def)

lemma actions_bytes_nonneg:
  assumes "ix_inv ix" and "closure_ok ix cl" and "actions_ok kind (map snd cl) as"
  shows "0 \<le> action_bytes (filter P as)"
proof -
  have "0 \<le> rpa_size_bytes a" if a: "a \<in> set as" for a
  proof -
    obtain h p where p: "(h, p) \<in> set cl" "rpa_size_bytes a = pg_size_bytes p"
      using assms(3) a by (auto simp: actions_ok_def)
    then have "page_ok h p" using pages_invD(4) [OF assms(1) refl] closure_lookup [OF assms(2) p(1)] by blast
    then show ?thesis using p(2) by (simp add: page_ok_def)
  qed
  then show ?thesis by (auto simp: action_bytes_def intro!: sum_list_nonneg)
qed

lemma capacity_blocker_total:
  "0 \<le> n \<Longrightarrow> \<exists>bs. capacity_blocker available n code h detail = Inr bs"
  by (simp add: capacity_blocker_def make_blocker_def transfer_blocker_post_init_def split: option.split)

lemma bundle_safeI:
  assumes inv: "ix_inv ix" and cl: "closure_ok ix cl" "\<forall>(h, p) \<in> set cl. gpu_resident p"
    "\<forall>k j. k \<in> fst ` set cl \<longrightarrow> (k, j) \<in> gpu_child ix \<longrightarrow> j \<in> fst ` set cl"
    and kind: "kind \<noteq> PREFETCH_CONTEXT"
    and free: "\<forall>(h, p) \<in> set cl. page_movable p \<and> owner_free g now rules p \<and>
      (kind \<noteq> DROP_CONTEXT \<longrightarrow> ancestors_resident ix (pg_handle p))"
  shows "bundle_safe g ix now rules kind (fst ` set cl)"
proof -
  have "\<exists>p. map_of (ix_pages ix) h = Some p \<and> gpu_resident p \<and> page_movable p \<and> owner_free g now rules p \<and>
      (kind \<noteq> DROP_CONTEXT \<longrightarrow> ancestors_resident ix h)" if h: "h \<in> fst ` set cl" for h
  proof -
    obtain p where p: "(h, p) \<in> set cl" using h by force
    then have l: "map_of (ix_pages ix) h = Some p" using closure_lookup [OF cl(1)] by blast
    then have "pg_handle p = h" using pages_invD(4) [OF inv refl] by (simp add: page_ok_def)
    with p l cl(2) free show ?thesis by auto
  qed
  then show ?thesis using kind cl(3) by (simp add: bundle_safe_def)
qed

lemma preview_offload_root_sound:
  assumes inv: "ix_inv ix" and leases: "\<And>c. \<exists>l. lease_context g c now = Inr l"
  shows "\<exists>r. preview_offload_root digest g ix kind c epoch h now rules host = Inr r \<and>
    (\<forall>p. r = Some p \<longrightarrow> preview_sound digest g ix now rules kind p)"
proof (cases "kind \<in> {OFFLOAD_CONTEXT, SHADOW_CONTEXT} \<and> (\<exists>x base. map_of (cg_contexts g) c = Some x \<and>
    map_of (ix_pages ix) h = Some base \<and> cx_epoch x = epoch \<and> gpu_resident base \<and> dict_in c (pg_owner_contexts base))")
  case False
  then have "preview_offload_root digest g ix kind c epoch h now rules host = Inr None"
    by (auto simp: preview_offload_root_def split: option.split)
  then show ?thesis by simp
next
  case True
  then obtain x base where kind: "kind \<in> {OFFLOAD_CONTEXT, SHADOW_CONTEXT}"
    and base: "map_of (cg_contexts g) c = Some x" "map_of (ix_pages ix) h = Some base" "cx_epoch x = epoch"
    "gpu_resident base" "dict_in c (pg_owner_contexts base)" by blast
  obtain cl cbs where cl: "gpu_closure ix [pg_handle base] [] [] = (cl, cbs)" by fastforce
  note c = gpu_closure_root(1-3) [OF inv cl]
  show ?thesis
  proof (cases "cl = []")
    case True
    with kind base cl show ?thesis by (simp add: preview_offload_root_def)
  next
    case False
    have steps: "\<exists>as bs xs. adds (offload_page g ix kind now rules p) as bs xs \<and>
        (bs = [] \<longrightarrow> page_movable p \<and> owner_free g now rules p \<and> ancestors_resident ix (pg_handle p)) \<and> one_action kind p as"
      if p: "p \<in> snd ` set cl" for p
    proof -
      obtain k where "(k, p) \<in> set cl" using p by force
      then have k: "map_of (ix_pages ix) k = Some p" "\<not> page_dead p" using closure_lookup [OF c(1)] by blast+
      then have "pg_handle p = k" using pages_invD(4) [OF inv refl k(1)] by (simp add: page_ok_def)
      with offload_page_adds [OF inv leases k kind] show ?thesis by simp
    qed
    let ?X = "set (List.map_filter tb_page_handle cbs)"
    obtain as bs xs where loop: "rfold (offload_page g ix kind now rules) (pages_up (map snd cl)) ([], cbs, ?X) =
          Inr ([] @ as, cbs @ bs, ?X \<union> xs)"
      and free: "bs = [] \<longrightarrow> (\<forall>(k, p) \<in> set cl. page_movable p \<and> owner_free g now rules p \<and> ancestors_resident ix (pg_handle p))"
      and as: "actions_ok kind (map snd cl) as" "rpa_handle ` set as \<subseteq> fst ` set cl"
      by (rule rfold_closure [OF inv c(1) mset_pages_up(1) steps])
    obtain cap where cap: "capacity_blocker host (action_bytes (filter (\<lambda>a. rpa_action a = START_D2H) as)) HOST_CAPACITY
        (pg_handle base) ''D2H bundle exceeds current host availability'' = Inr cap"
      using capacity_blocker_total [OF actions_bytes_nonneg [OF inv c(1) as(1)]] by blast
    obtain p where p: "build_preview digest g kind c epoch cl as (deduplicate_blockers ((cbs @ bs) @ cap))
        (?X \<union> xs) now = Inr p"
      "preview_of digest kind cl as (deduplicate_blockers ((cbs @ bs) @ cap)) p"
      by (rule build_preview_total [OF inv leases c(1) as(2)])
    have "preview_offload_root digest g ix kind c epoch h now rules host = Inr (Some p)"
      using kind base cl False loop cap p(1) by (simp add: preview_offload_root_def)
    moreover have "preview_sound digest g ix now rules kind p"
      using kind free by (intro preview_soundI [OF c(1) p(2) as(1)] bundle_safeI [OF inv c]) auto
    ultimately show ?thesis by simp
  qed
qed

lemma offload_roots_sound:
  assumes "\<And>h. \<exists>r. f h = Inr r \<and> (\<forall>p. r = Some p \<longrightarrow> S p)"
  shows "\<exists>ps. offload_roots f roots seen = Inr ps \<and> (\<forall>p \<in> set ps. S p)"
proof (induction roots arbitrary: seen)
  case (Cons base roots)
  obtain r where r: "f (pg_handle base) = Inr r" "\<forall>p. r = Some p \<longrightarrow> S p" using assms by blast
  show ?case
  proof (cases r)
    case None
    then show ?thesis using r Cons by simp
  next
    case (Some p)
    let ?h = "bd_handles (bp_bundle p)"
    obtain ps where "offload_roots f roots (insert ?h seen) = Inr ps" "\<forall>p \<in> set ps. S p" using Cons by blast
    moreover obtain qs where "offload_roots f roots seen = Inr qs" "\<forall>p \<in> set qs. S p" using Cons by blast
    ultimately show ?thesis using r Some by (simp add: Let_def)
  qed
qed simp

lemma offload_previews_sound:
  assumes inv: "ix_inv ix" and leases: "\<And>c. \<exists>l. lease_context g c now = Inr l"
  shows "\<exists>ps. offload_previews digest g ix kind c epoch now rules host = Inr ps \<and>
    (\<forall>p \<in> set ps. preview_sound digest g ix now rules kind p)"
proof -
  obtain pages where "context_pages ix c = Inr pages" by (rule context_pages_total [OF inv])
  with offload_roots_sound [OF preview_offload_root_sound [OF inv leases]] show ?thesis
    by (simp add: offload_previews_def)
qed

lemma drop_roots_sound:
  assumes inv: "ix_inv ix" and leases: "\<And>c. \<exists>l. lease_context g c now = Inr l"
  shows "\<exists>ps. drop_roots digest g ix c epoch now rules roots seen = Inr ps \<and>
    (\<forall>p \<in> set ps. preview_sound digest g ix now rules DROP_CONTEXT p)"
proof (induction roots arbitrary: seen)
  case (Cons base roots)
  obtain cl cbs where cl: "gpu_closure ix [pg_handle base] [] [] = (cl, cbs)" by fastforce
  note c = gpu_closure_root(1-3) [OF inv cl]
  let ?h = "map fst (closure_items cl)"
  show ?case
  proof (cases "?h = [] \<or> ?h \<in> seen")
    case True
    then show ?thesis using Cons cl by simp
  next
    case False
    have steps: "\<exists>as bs xs. adds (drop_page_step g now rules p) as bs xs \<and>
        (bs = [] \<longrightarrow> page_movable p \<and> owner_free g now rules p) \<and> one_action DROP_CONTEXT p as"
      if p: "p \<in> snd ` set cl" for p
    proof -
      obtain k where "(k, p) \<in> set cl" using p by force
      then have "page_ok k p" using closure_lookup [OF c(1)] pages_invD(4) [OF inv refl] by blast
      then show ?thesis by (rule drop_page_adds [OF _ leases])
    qed
    obtain as bs xs where loop: "rfold (drop_page_step g now rules) (pages_up (map snd cl)) ([], cbs, {}) =
          Inr ([] @ as, cbs @ bs, {} \<union> xs)"
      and free: "bs = [] \<longrightarrow> (\<forall>(k, p) \<in> set cl. page_movable p \<and> owner_free g now rules p)"
      and as: "actions_ok DROP_CONTEXT (map snd cl) as" "rpa_handle ` set as \<subseteq> fst ` set cl"
      by (rule rfold_closure [OF inv c(1) mset_pages_up(1) steps])
    obtain p where p: "build_preview digest g DROP_CONTEXT c epoch cl as (deduplicate_blockers (cbs @ bs)) xs now = Inr p"
      "preview_of digest DROP_CONTEXT cl as (deduplicate_blockers (cbs @ bs)) p"
      by (rule build_preview_total [OF inv leases c(1) as(2)])
    obtain ps where ps: "drop_roots digest g ix c epoch now rules roots (insert ?h seen) = Inr ps"
      "\<forall>p \<in> set ps. preview_sound digest g ix now rules DROP_CONTEXT p" using Cons by blast
    have "drop_roots digest g ix c epoch now rules (base # roots) seen = Inr (p # ps)"
      using cl False loop p(1) ps(1) by simp
    moreover have "preview_sound digest g ix now rules DROP_CONTEXT p"
      using free by (intro preview_soundI [OF c(1) p(2) as(1)] bundle_safeI [OF inv c]) auto
    ultimately show ?thesis using ps(2) by simp
  qed
qed simp

lemma drop_previews_sound:
  assumes inv: "ix_inv ix" and leases: "\<And>c. \<exists>l. lease_context g c now = Inr l"
  shows "\<exists>ps. drop_previews digest g ix c epoch now rules = Inr ps \<and>
    (\<forall>p \<in> set ps. preview_sound digest g ix now rules DROP_CONTEXT p)"
proof -
  obtain pages where "context_pages ix c = Inr pages" by (rule context_pages_total [OF inv])
  with drop_roots_sound [OF inv leases] show ?thesis by (simp add: drop_previews_def)
qed

text \<open>A prefetch climbs until it meets a resident page; its closure then contains the parent of every
  page it loads.\<close>

definition parents_in :: "page_handle set \<Rightarrow> page_closure \<Rightarrow> bool" where
  "parents_in H cl \<longleftrightarrow> (\<forall>(k, p) \<in> set cl. \<not> gpu_resident p \<longrightarrow> set_option (pg_parent p) \<subseteq> H)"

lemma closure_ok_update:
  assumes "closure_ok ix cl" and "map_of (ix_pages ix) h = Some p" and "\<not> page_dead p"
  shows "closure_ok ix (AList.update h p cl)" and "set (AList.update h p cl) \<subseteq> insert (h, p) (set cl)"
proof -
  have d: "dict_ok (AList.update h p cl)" "dict_ok cl" using assms(1) by (simp_all add: closure_ok_def)
  show sub: "set (AList.update h p cl) \<subseteq> insert (h, p) (set cl)"
  proof
    fix e
    assume "e \<in> set (AList.update h p cl)"
    then have "map_of (AList.update h p cl) (fst e) = Some (snd e)" using dict_mem_iff [OF d(1), of "fst e" "snd e"] by simp
    then have "(fst e, snd e) \<in> insert (h, p) (set cl)"
      by (cases e; cases "fst e = h") (auto simp: map_of_update dest: map_of_SomeD)
    then show "e \<in> insert (h, p) (set cl)" by simp
  qed
  show "closure_ok ix (AList.update h p cl)" unfolding closure_ok_def
  proof (intro conjI d(1) ballI)
    fix e
    assume "e \<in> set (AList.update h p cl)"
    with sub have "e = (h, p) \<or> e \<in> set cl" by blast
    then show "case e of (k, q) \<Rightarrow> map_of (ix_pages ix) k = Some q \<and> \<not> page_dead q"
      using assms by (auto simp: closure_ok_def)
  qed
qed

lemma prefetch_climb_spec:
  "ix_inv ix \<Longrightarrow> map_of (ix_pages ix) (pg_handle node) = Some node \<Longrightarrow> \<not> page_dead node \<Longrightarrow> closure_ok ix cl \<Longrightarrow>
   parents_in (insert (pg_handle node) (fst ` set cl)) cl \<Longrightarrow>
   \<exists>cl' bs. prefetch_climb ix node seen cl = Inr (cl', bs) \<and> closure_ok ix cl' \<and>
     (bs = [] \<longrightarrow> parents_in (fst ` set cl') cl')"
proof (induction ix node seen cl rule: prefetch_climb.induct)
  case (1 ix node seen cl)
  let ?h = "pg_handle node" let ?cl = "AList.update ?h node cl"
  note step = prefetch_climb.simps [of ix node seen cl]
  have ok: "page_ok ?h node" using pages_invD(4) [OF "1.prems"(1) refl "1.prems"(2)] .
  note c = closure_ok_update [OF "1.prems"(4,2,3)]
  have here: "parents_in (insert a (fst ` set ?cl)) ?cl" if "gpu_resident node \<or> pg_parent node \<in> {None, Some a}" for a
    unfolding parents_in_def
  proof
    fix e
    assume "e \<in> set ?cl"
    with c(2) have "e = (?h, node) \<or> e \<in> set cl" by blast
    then show "case e of (k, p) \<Rightarrow> \<not> gpu_resident p \<longrightarrow> set_option (pg_parent p) \<subseteq> insert a (fst ` set ?cl)"
      using that "1.prems"(5) by (auto simp: parents_in_def)
  qed
  show ?case
  proof (cases "gpu_resident node")
    case True
    have "parents_in (fst ` set ?cl) ?cl" using here [of ?h] True by (simp add: insert_absorb)
    with True c(1) show ?thesis unfolding step by simp
  next
    case False
    show ?thesis
    proof (cases "?h \<in> seen")
      case True
      then show ?thesis using False "1.prems"(4) unfolding step by (simp add: page_blocker_ok [OF ok])
    next
      case fresh: False
      show ?thesis
      proof (cases "pg_parent node")
        case None
        have "parents_in (fst ` set ?cl) ?cl" using here [of ?h] None by (simp add: insert_absorb)
        with None False fresh c(1) show ?thesis unfolding step by (simp add: Let_def)
      next
        case (Some a)
        obtain r where r: "map_of (ix_pages ix) a = Some r" "\<not> page_dead r"
          using live_parent [OF "1.prems"(1-3) Some] by blast
        then have "pg_handle r = a" using pages_invD(4) [OF "1.prems"(1) refl r(1)] by (simp add: page_ok_def)
        with "1.IH" [OF False fresh refl Some r "1.prems"(1) _ r(2) c(1)] here [of a] r Some False fresh
        show ?thesis unfolding step by (simp add: Let_def)
      qed
    qed
  qed
qed

lemma prefetch_targets_sound:
  assumes inv: "ix_inv ix" and leases: "\<And>c. \<exists>l. lease_context g c now = Inr l"
  shows "\<forall>t \<in> set targets. map_of (ix_pages ix) (pg_handle t) = Some t \<and> \<not> page_dead t \<Longrightarrow>
    \<exists>ps. prefetch_targets digest g ix c epoch now device targets seen = Inr ps \<and>
      (\<forall>p \<in> set ps. preview_sound digest g ix now rules PREFETCH_CONTEXT p)"
proof (induction targets arbitrary: seen)
  case (Cons t targets)
  have "closure_ok ix []" "parents_in (insert (pg_handle t) (fst ` set [])) []" by (simp_all add: closure_ok_def parents_in_def)
  with Cons.prems obtain cl cbs where cl: "prefetch_climb ix t {} [] = Inr (cl, cbs)" "closure_ok ix cl"
    and up: "cbs = [] \<longrightarrow> parents_in (fst ` set cl) cl" using prefetch_climb_spec [OF inv, of t "[]" "{}"] by auto
  let ?h = "map fst (closure_items cl)"
  have IH: "\<exists>ps. prefetch_targets digest g ix c epoch now device targets s = Inr ps \<and>
      (\<forall>p \<in> set ps. preview_sound digest g ix now rules PREFETCH_CONTEXT p)" for s using Cons by simp
  show ?case
  proof (cases "?h = [] \<or> ?h \<in> seen")
    case True
    then show ?thesis using IH cl by (auto simp: Let_def)
  next
    case False
    have steps: "\<exists>as bs xs. adds (prefetch_page p) as bs xs \<and>
        (bs = [] \<longrightarrow> gpu_resident p \<or> pg_residency p = CPU_ONLY \<and> page_movable p) \<and> one_action PREFETCH_CONTEXT p as"
      if p: "p \<in> snd ` set cl" for p
    proof -
      obtain k where "(k, p) \<in> set cl" using p by force
      then have "page_ok k p" using closure_lookup [OF cl(2)] pages_invD(4) [OF inv refl] by blast
      then show ?thesis by (rule prefetch_page_adds)
    qed
    obtain as bs xs where loop: "rfold prefetch_page (pages_down (map snd cl)) ([], cbs, {}) =
          Inr ([] @ as, cbs @ bs, {} \<union> xs)"
      and free: "bs = [] \<longrightarrow> (\<forall>(k, p) \<in> set cl. gpu_resident p \<or> pg_residency p = CPU_ONLY \<and> page_movable p)"
      and as: "actions_ok PREFETCH_CONTEXT (map snd cl) as" "rpa_handle ` set as \<subseteq> fst ` set cl"
      by (rule rfold_closure [OF inv cl(2) mset_pages_down(1) steps])
    obtain cap where cap: "capacity_blocker device (action_bytes as) DEVICE_CAPACITY (pg_handle t)
        ''H2D bundle exceeds current device availability'' = Inr cap"
      using capacity_blocker_total actions_bytes_nonneg [OF inv cl(2) as(1), of "\<lambda>_. True"] by force
    obtain p where p: "build_preview digest g PREFETCH_CONTEXT c epoch cl as (deduplicate_blockers ((cbs @ bs) @ cap)) xs now = Inr p"
      "preview_of digest PREFETCH_CONTEXT cl as (deduplicate_blockers ((cbs @ bs) @ cap)) p"
      by (rule build_preview_total [OF inv leases cl(2) as(2)])
    obtain ps where ps: "prefetch_targets digest g ix c epoch now device targets (insert ?h seen) = Inr ps"
      "\<forall>p \<in> set ps. preview_sound digest g ix now rules PREFETCH_CONTEXT p" using IH by blast
    have "prefetch_targets digest g ix c epoch now device (t # targets) seen = Inr (p # ps)"
      using cl(1) False loop cap p(1) ps(1) by (simp add: Let_def)
    moreover have "bundle_safe g ix now rules PREFETCH_CONTEXT (fst ` set cl)" if "cbs = []" "bs = []"
    proof -
      have "\<forall>(k, p) \<in> set cl. gpu_resident p \<or> pg_residency p = CPU_ONLY \<and> page_movable p"
        "parents_in (fst ` set cl) cl" using up free that by blast+
      then show ?thesis using closure_lookup [OF cl(2)] by (force simp: bundle_safe_def parents_in_def)
    qed
    then have "preview_sound digest g ix now rules PREFETCH_CONTEXT p"
      by (intro preview_soundI [OF cl(2) p(2) as(1)]) auto
    ultimately show ?thesis using ps(2) by simp
  qed
qed simp

lemma prefetch_previews_sound:
  assumes inv: "ix_inv ix" and leases: "\<And>c. \<exists>l. lease_context g c now = Inr l"
  shows "\<exists>ps. prefetch_previews digest g ix c epoch now device = Inr ps \<and>
    (\<forall>p \<in> set ps. preview_sound digest g ix now rules PREFETCH_CONTEXT p)"
proof -
  obtain pages where pages: "context_pages ix c = Inr pages" by (rule context_pages_total [OF inv])
  have "\<forall>t \<in> set (pages_up (filter (\<lambda>p. pg_residency p = CPU_ONLY) pages)).
      map_of (ix_pages ix) (pg_handle t) = Some t \<and> \<not> page_dead t"
    using context_pagesD [OF inv pages] by auto
  from prefetch_targets_sound [OF inv leases this] pages show ?thesis by (simp add: prefetch_previews_def)
qed

lemma previews_sound:
  assumes inv: "ix_inv ix" and leases: "\<And>c. \<exists>l. lease_context g c now = Inr l"
  shows "\<exists>ps. previews_for_context digest g ix kind c epoch now rules host device = Inr ps \<and>
    (\<forall>p \<in> set ps. preview_sound digest g ix now rules kind p)"
proof -
  let ?body = "if kind \<in> {OFFLOAD_CONTEXT, SHADOW_CONTEXT} then offload_previews digest g ix kind c epoch now rules host
    else if kind = DROP_CONTEXT then drop_previews digest g ix c epoch now rules
    else if kind = PREFETCH_CONTEXT then prefetch_previews digest g ix c epoch now device else Inr []"
  consider "kind \<in> {OFFLOAD_CONTEXT, SHADOW_CONTEXT}" | "kind = DROP_CONTEXT" | "kind = PREFETCH_CONTEXT"
    | "kind \<notin> {OFFLOAD_CONTEXT, SHADOW_CONTEXT, DROP_CONTEXT, PREFETCH_CONTEXT}" by blast
  then have "\<exists>ps. ?body = Inr ps \<and> (\<forall>p \<in> set ps. preview_sound digest g ix now rules kind p)"
  proof cases
    case 1
    then show ?thesis using offload_previews_sound [OF inv leases, of digest kind c epoch rules host] by simp
  next
    case 2
    then show ?thesis using drop_previews_sound [OF inv leases, of digest c epoch rules] by simp
  next
    case 3
    then show ?thesis using prefetch_previews_sound [OF inv leases, of digest c epoch device rules] by simp
  qed simp
  then obtain ps where ps: "?body = Inr ps" "\<forall>p \<in> set ps. preview_sound digest g ix now rules kind p" by blast
  show ?thesis
  proof (cases "map_of (cg_contexts g) c")
    case None
    then show ?thesis by (simp add: previews_for_context_def)
  next
    case (Some x)
    show ?thesis
    proof (cases "cx_epoch x \<noteq> epoch \<or> map_of (ix_context_epoch ix) c \<noteq> Some epoch")
      case True
      then have "previews_for_context digest g ix kind c epoch now rules host device = Inr []"
        using Some by (auto simp: previews_for_context_def has_context_def dict_in_def context_epoch_def split: option.split)
      then show ?thesis by simp
    next
      case False
      then have "previews_for_context digest g ix kind c epoch now rules host device = Inr (sort_key preview_order ps)"
        using Some ps(1) by (simp add: previews_for_context_def has_context_def dict_in_def context_epoch_def)
      then show ?thesis using ps(2) by simp
    qed
  qed
qed

section \<open>The index accepts the actions\<close>

text \<open>\<open>index_accepts\<close> says that the controller can start and finish an action; for a live page that
  depends on the page's core alone.\<close>

lemma live_core:
  "ix_inv ix \<Longrightarrow> map_of (ix_pages ix) h = Some p \<Longrightarrow> \<not> page_dead p \<Longrightarrow> page_core ix h = Some (core_of p)"
  by (simp add: page_core_def live_require)

text \<open>A page that the engine reports as in flight although no transfer is recorded for it cannot be
  dropped.\<close>

definition drop_refused :: "physical_page_action \<Rightarrow> page_record \<Rightarrow> bool" where
  "drop_refused a p \<longleftrightarrow> a = DROP \<and> pg_residency p \<in> {MIRRORING, PREFETCHING}"

lemma movable_accepted:
  assumes inv: "ix_inv ix" and p: "map_of (ix_pages ix) (rpa_handle a) = Some p" "\<not> page_dead p"
    and mv: "page_movable p" and fits: "action_fits (rpa_action a) p" and "\<not> drop_refused (rpa_action a) p"
  shows "index_accepts ix a"
  unfolding index_accepts_iff [OF live_core [OF inv p]]
  using mv fits assms(6) p(2)
  by (cases "rpa_action a"; cases "pg_residency p")
    (simp_all add: core_of_def page_movable_def transfer_idle_def drop_refused_def)

lemma eligible_actions_accepted:
  assumes inv: "ix_inv ix" and sound: "preview_sound digest g ix now rules kind p" and el: "preview_eligible p"
    and a: "a \<in> set (bp_page_actions p)"
  obtains q where "map_of (ix_pages ix) (rpa_handle a) = Some q" and "rpa_handle a \<in> set (bd_handles (bp_bundle p))"
    and "rpa_size_bytes a = pg_size_bytes q" and "kind_allows kind (rpa_action a)" and "index_accepts ix a \<or> drop_refused (rpa_action a) q"
    and "\<not> page_dead q"
proof -
  obtain cl where cl: "closure_ok ix cl" "preview_of digest kind cl (bp_page_actions p) (bp_blockers p) p"
    "actions_ok kind (map snd cl) (bp_page_actions p)" "bundle_safe g ix now rules kind (fst ` set cl)"
    using sound el by (auto simp: preview_sound_def preview_eligible_def)
  obtain h q where q: "(h, q) \<in> set cl" "rpa_handle a = pg_handle q" "rpa_size_bytes a = pg_size_bytes q"
    "kind_allows kind (rpa_action a)" "action_fits (rpa_action a) q" using cl(3) a by (auto simp: actions_ok_def)
  have l: "map_of (ix_pages ix) h = Some q" "\<not> page_dead q" using closure_lookup [OF cl(1) q(1)] by blast+
  have h: "pg_handle q = h" using pages_invD(4) [OF inv refl l(1)] by (simp add: page_ok_def)
  have "h \<in> fst ` set cl" using q(1) by force
  then have mv: "page_movable q \<or> kind = PREFETCH_CONTEXT \<and> gpu_resident q" using cl(4) l(1) by (auto simp: bundle_safe_def split: if_splits)
  have "page_movable q"
  proof (rule ccontr)
    assume "\<not> page_movable q"
    with mv have "kind = PREFETCH_CONTEXT" "gpu_resident q" by blast+
    with q(4,5) show False by (simp add: gpu_resident_def)
  qed
  then have "index_accepts ix a \<or> drop_refused (rpa_action a) q"
    using movable_accepted [OF inv, of a q] l q(2,5) h by auto
  then show thesis using that l q h \<open>h \<in> fst ` set cl\<close> cl(2) by (auto simp: preview_of_def)
qed

lemma eligible_intent:
  assumes inv: "ix_inv ix" and sound: "preview_sound digest g ix now rules kind p" and el: "preview_eligible p"
    and digest: "\<And>n v. digest n v \<noteq> []"
  shows "\<exists>i. preview_intent p = Inr i \<and> pbi_page_actions i = bp_page_actions p \<and>
    pbi_closure_handles i = bd_handles (bp_bundle p)"
proof -
  obtain cl where cl: "closure_ok ix cl" "preview_of digest kind cl (bp_page_actions p) (bp_blockers p) p"
    "actions_ok kind (map snd cl) (bp_page_actions p)" using sound by (auto simp: preview_sound_def)
  have bytes: "0 \<le> action_bytes (bp_page_actions p)" using actions_bytes_nonneg [OF inv cl(1,3), of "\<lambda>_. True"] by simp
  obtain lease sc where fp: "bd_generation_fingerprint (bp_bundle p) = fingerprint digest kind cl lease sc"
    using cl(2) by (auto simp: preview_of_def)
  have "bd_generation_fingerprint (bp_bundle p) \<noteq> []" unfolding fp fingerprint_def by (rule digest)
  moreover have "bd_bundle_id (bp_bundle p) \<noteq> []" using cl(2) by (simp add: preview_of_def)
  ultimately have ids: "bd_bundle_id (bp_bundle p) \<noteq> []" "bd_generation_fingerprint (bp_bundle p) \<noteq> []" by blast+
  have hs: "bd_handles (bp_bundle p) = map fst (closure_items cl)" using cl(2) by (simp add: preview_of_def)
  have "distinct (map fst (closure_items cl))" using cl(1) by (simp add: closure_ok_def distinct_map inj_on_def)
  then have "distinct (bd_handles (bp_bundle p))" by (simp add: hs)
  moreover have "rpa_handle ` set (bp_page_actions p) \<subseteq> set (bd_handles (bp_bundle p))"
  proof
    fix h
    assume "h \<in> rpa_handle ` set (bp_page_actions p)"
    then obtain k q where q: "(k, q) \<in> set cl" "h = pg_handle q" using cl(3) by (auto simp: actions_ok_def)
    have "pg_handle q = k" using closure_lookup [OF cl(1) q(1)] pages_invD(4) [OF inv refl] by (auto simp: page_ok_def)
    with q show "h \<in> set (bd_handles (bp_bundle p))" by (force simp: hs)
  qed
  moreover have "distinct (map rpa_handle (bp_page_actions p))" using cl(3) by (simp add: actions_ok_def)
  ultimately show ?thesis
    using el ids bytes cl(2)
    by (auto simp: preview_intent_def physical_bundle_intent_post_init_def Let_def preview_of_def action_bytes_def)
qed

text \<open>
  C11. Bundles can be executed. In a reachable graph and index the builder returns for every command
  and context. Of an eligible preview, for an offload or a drop: every page of the bundle is on
  the GPU, sealed, unlocked, unpinned, unread and not in flight; none of its owners, except those the
  command names as bypassed, is running, protected or (unless allowed) ready; every
  resident child of a page of the bundle is in it; and for an offload every ancestor is resident.
  For a prefetch: every page to load is idle on the CPU and its parent is in the bundle too; the
  owners play no part. In each case the controller can start and finish every action on the index,
  taken alone, except the \<open>DROP\<close> of a page registered as \<open>MIRRORING\<close> or \<open>PREFETCHING\<close> without a recorded
  transfer, which the index refuses. If the hash never yields the empty string, the preview
  becomes an intent with the same actions.
\<close>

theorem eligible_bundle_sound:
  assumes "reachable d rt g" and "rtranclp ix_step page_index_init ix" and "0 \<le> now"
  shows "\<exists>ps. previews_for_context digest g ix kind c epoch now rules host device = Inr ps \<and>
    (\<forall>p \<in> set ps. preview_eligible p \<longrightarrow>
       bundle_safe g ix now rules kind (set (bd_handles (bp_bundle p))) \<and>
       (\<forall>a \<in> set (bp_page_actions p). \<exists>q. map_of (ix_pages ix) (rpa_handle a) = Some q \<and>
          rpa_size_bytes a = pg_size_bytes q \<and> kind_allows kind (rpa_action a) \<and>
          (index_accepts ix a \<or> drop_refused (rpa_action a) q)) \<and>
       ((\<forall>n v. digest n v \<noteq> []) \<longrightarrow> (\<exists>i. preview_intent p = Inr i \<and> pbi_page_actions i = bp_page_actions p)))"
proof -
  have inv: "ix_inv ix" by (rule ix_reachable_inv [OF assms(2)])
  have leases: "\<exists>l. lease_context g c now = Inr l" for c by (rule lease_total [OF assms(1,3)])
  obtain ps where ps: "previews_for_context digest g ix kind c epoch now rules host device = Inr ps"
    "\<forall>p \<in> set ps. preview_sound digest g ix now rules kind p" using previews_sound [OF inv leases] by blast
  show ?thesis
  proof (intro exI [of _ ps] conjI ps(1) ballI impI)
    fix p
    assume "p \<in> set ps" and el: "preview_eligible p"
    then have sound: "preview_sound digest g ix now rules kind p" using ps(2) by blast
    from sound el show "bundle_safe g ix now rules kind (set (bd_handles (bp_bundle p)))"
      by (auto simp: preview_sound_def preview_eligible_def preview_of_def)
    show "\<exists>q. map_of (ix_pages ix) (rpa_handle a) = Some q \<and> rpa_size_bytes a = pg_size_bytes q \<and>
        kind_allows kind (rpa_action a) \<and> (index_accepts ix a \<or> drop_refused (rpa_action a) q)"
      if "a \<in> set (bp_page_actions p)" for a
      by (rule eligible_actions_accepted [OF inv sound el that]) blast
    show "\<exists>i. preview_intent p = Inr i \<and> pbi_page_actions i = bp_page_actions p" if "\<forall>n v. digest n v \<noteq> []"
      using eligible_intent [OF inv sound el] that by blast
  qed
qed

section \<open>A bundle of one page\<close>

text \<open>Two pages of the context of the waiting caller of the example graph, the second below the
  first.\<close>

definition bundle_ix1 :: page_index where
  "bundle_ix1 = projr (register_context ''ctx-p'' ''w'' 1 page_index_init)"

definition bundle_ix2 :: page_index where
  "bundle_ix2 = projr (register_page (PageHandle 1 0) 64 GPU_ONLY 0 None True 0 bundle_ix1)"

definition bundle_ix3 :: page_index where
  "bundle_ix3 = projr (register_page (PageHandle 2 0) 32 GPU_ONLY 1 (Some (PageHandle 1 0)) True 0 bundle_ix2)"

definition bundle_ix :: page_index where
  "bundle_ix = projr (bind_pages ''ctx-p'' 1 [PageHandle 1 0, PageHandle 2 0] False bundle_ix3)"

lemmas bundle_ix_defs = bundle_ix_def bundle_ix3_def bundle_ix2_def bundle_ix1_def

lemma bundle_ix_reachable: "rtranclp ix_step page_index_init bundle_ix"
proof -
  have "register_context ''ctx-p'' ''w'' 1 page_index_init = Inr bundle_ix1"
    "register_page (PageHandle 1 0) 64 GPU_ONLY 0 None True 0 bundle_ix1 = Inr bundle_ix2"
    "register_page (PageHandle 2 0) 32 GPU_ONLY 1 (Some (PageHandle 1 0)) True 0 bundle_ix2 = Inr bundle_ix3"
    "bind_pages ''ctx-p'' 1 [PageHandle 1 0, PageHandle 2 0] False bundle_ix3 = Inr bundle_ix"
    by (simp_all add: bundle_ix_defs index_eval)
  note ok = this
  have "ix_step page_index_init bundle_ix1" by (rule ix_step.register_context [OF ok(1)]) (simp add: index_eval)
  moreover have "ix_step bundle_ix1 bundle_ix2" by (rule ix_step.register_page [OF ok(2)]) simp
  moreover have "ix_step bundle_ix2 bundle_ix3" by (rule ix_step.register_page [OF ok(3)]) simp
  moreover have "ix_step bundle_ix3 bundle_ix" by (rule ix_step.bind_pages [OF ok(4)])
  ultimately show ?thesis by (meson rtranclp.rtrancl_into_rtrancl rtranclp.rtrancl_refl)
qed

definition demo_rules :: owner_rules where
  "demo_rules = \<lparr>ow_allow_ready = False, ow_protected = PNone, ow_bypass = {}\<rparr>"

definition leaf_page :: page_record where
  "leaf_page = (new_page (PageHandle 2 0) 32 GPU_ONLY 1 (Some (PageHandle 1 0)) True 0)
     \<lparr>pg_owner_contexts := [(''ctx-p'', 1)]\<rparr>"

definition base_page :: page_record where
  "base_page = (new_page (PageHandle 1 0) 64 GPU_ONLY 0 None True 0)
     \<lparr>pg_owner_contexts := [(''ctx-p'', 1)], pg_children := {PageHandle 2 0}\<rparr>"

lemma bundle_ix_pages:
  "ix_pages bundle_ix = [(PageHandle 1 0, base_page), (PageHandle 2 0, leaf_page)]"
  "context_page_set bundle_ix ''ctx-p'' = {PageHandle 1 0, PageHandle 2 0}"
  "ix_context_epoch bundle_ix = [(''ctx-p'', 1)]"
  by (simp_all add: bundle_ix_defs index_eval base_page_def leaf_page_def)

lemma demo_lease:
  "\<exists>l. lease_context demo_graph ''ctx-p'' 9 = Inr l \<and> cl_kind l = LEASE_CONDITIONAL_RESUME"
  "\<exists>x. map_of (cg_contexts demo_graph) ''ctx-p'' = Some x \<and> cx_epoch x = 1"
  unfolding demo_graph_def demo_events_def
  by (simp_all add: graph_eval context_invocations_def dict_item_def lease_context_def workflow_ended_def make_lease_def lease_ready_def)

lemma leaf_closure: "gpu_closure bundle_ix [PageHandle 2 0] [] [] = ([(PageHandle 2 0, leaf_page)], [])"
  by (simp add: gpu_closure.simps bundle_ix_pages dict_in_def leaf_page_def new_page_def gpu_resident_def)

lemma leaf_step:
  "\<exists>a. offload_page demo_graph bundle_ix OFFLOAD_CONTEXT 9 demo_rules leaf_page ([], [], {}) = Inr ([a], [], {}) \<and>
     rpa_handle a = PageHandle 2 0"
proof -
  obtain l where l: "lease_context demo_graph ''ctx-p'' 9 = Inr l" "cl_kind l = LEASE_CONDITIONAL_RESUME"
    using demo_lease(1) by blast
  have "page_blockers leaf_page = Inr []"
    by (simp add: page_blockers_def page_obstacles_def leaf_page_def new_page_def transfer_idle_def)
  moreover have "owner_blockers demo_graph 9 demo_rules leaf_page = Inr []"
    using l by (simp add: owner_blockers_def owner_blocker_def owner_blocked_def demo_rules_def leaf_page_def)
  moreover have "ancestor_blockers bundle_ix leaf_page {} (pg_parent leaf_page) = Inr []"
    by (simp add: ancestor_blockers.simps bundle_ix_pages leaf_page_def base_page_def new_page_def gpu_resident_def)
  ultimately show ?thesis
    by (simp add: offload_page_def offload_action_def page_action_def resolved_page_action_post_init_def leaf_page_def new_page_def)
qed

lemma leaf_preview:
  "\<exists>p. preview_offload_root digest demo_graph bundle_ix OFFLOAD_CONTEXT ''ctx-p'' 1 (PageHandle 2 0) 9 demo_rules None
     = Inr (Some p) \<and> preview_eligible p \<and> bd_handles (bp_bundle p) = [PageHandle 2 0]"
proof -
  have inv: "ix_inv bundle_ix" by (rule ix_reachable_inv [OF bundle_ix_reachable])
  have leases: "\<exists>l. lease_context demo_graph c 9 = Inr l" for c by (rule lease_total [OF demo_graph_reachable]) simp
  obtain x where x: "map_of (cg_contexts demo_graph) ''ctx-p'' = Some x" "cx_epoch x = 1" using demo_lease(2) by blast
  obtain a where a: "offload_page demo_graph bundle_ix OFFLOAD_CONTEXT 9 demo_rules leaf_page ([], [], {}) = Inr ([a], [], {})"
    "rpa_handle a = PageHandle 2 0" using leaf_step by blast
  have "closure_ok bundle_ix [(PageHandle 2 0, leaf_page)]"
    by (simp add: closure_ok_def bundle_ix_pages leaf_page_def new_page_def)
  note ok = this
  have sub: "rpa_handle ` set [a] \<subseteq> fst ` set [(PageHandle 2 0, leaf_page)]" using a(2) by simp
  obtain p where p: "build_preview digest demo_graph OFFLOAD_CONTEXT ''ctx-p'' 1 [(PageHandle 2 0, leaf_page)] [a]
      (deduplicate_blockers []) {} 9 = Inr p"
    "preview_of digest OFFLOAD_CONTEXT [(PageHandle 2 0, leaf_page)] [a] (deduplicate_blockers []) p"
    by (rule build_preview_total [OF inv leases ok sub])
  have page: "map_of (ix_pages bundle_ix) (PageHandle 2 0) = Some leaf_page" "gpu_resident leaf_page"
    "dict_in ''ctx-p'' (pg_owner_contexts leaf_page)" "pg_handle leaf_page = PageHandle 2 0"
    by (simp_all add: bundle_ix_pages leaf_page_def new_page_def gpu_resident_def dict_in_def)
  have "preview_offload_root digest demo_graph bundle_ix OFFLOAD_CONTEXT ''ctx-p'' 1 (PageHandle 2 0) 9 demo_rules None
      = Inr (Some p)"
    using x page leaf_closure a(1) p(1)
    by (simp add: preview_offload_root_def pages_up_def capacity_blocker_def List.map_filter_simps)
  moreover have "preview_eligible p" "bd_handles (bp_bundle p) = [PageHandle 2 0]"
    using p(2) by (simp_all add: preview_of_def preview_eligible_def deduplicate_blockers_def)
  ultimately show ?thesis by blast
qed

lemma demo_previews:
  "\<exists>ps p. previews_for_context digest demo_graph bundle_ix OFFLOAD_CONTEXT ''ctx-p'' 1 9 demo_rules None None = Inr ps \<and>
     p \<in> set ps \<and> preview_eligible p \<and> bd_handles (bp_bundle p) = [PageHandle 2 0]"
proof -
  have inv: "ix_inv bundle_ix" by (rule ix_reachable_inv [OF bundle_ix_reachable])
  have leases: "\<exists>l. lease_context demo_graph c 9 = Inr l" for c by (rule lease_total [OF demo_graph_reachable]) simp
  obtain x where x: "map_of (cg_contexts demo_graph) ''ctx-p'' = Some x" "cx_epoch x = 1" using demo_lease(2) by blast
  let ?f = "\<lambda>h. preview_offload_root digest demo_graph bundle_ix OFFLOAD_CONTEXT ''ctx-p'' 1 h 9 demo_rules None"
  have pages: "context_pages bundle_ix ''ctx-p'' = Inr [base_page, leaf_page]"
    by (simp add: context_pages_def bundle_ix_pages dict_item_def base_page_def leaf_page_def new_page_def less_eq_page_handle_def)
  have order: "pages_up (filter gpu_resident [base_page, leaf_page]) = [leaf_page, base_page]"
    by (simp add: pages_up_def base_page_def leaf_page_def new_page_def gpu_resident_def)
  have handle: "pg_handle leaf_page = PageHandle 2 0" by (simp add: leaf_page_def new_page_def)
  obtain p where p: "?f (PageHandle 2 0) = Inr (Some p)" "preview_eligible p" "bd_handles (bp_bundle p) = [PageHandle 2 0]"
    using leaf_preview by blast
  obtain ps where ps: "offload_roots ?f [base_page] (insert [PageHandle 2 0] {}) = Inr ps"
    using offload_roots_sound [of ?f, OF preview_offload_root_sound [OF inv leases]] by blast
  have "offload_roots ?f [leaf_page, base_page] {} = Inr (p # ps)"
    unfolding offload_roots.simps(2) [of ?f leaf_page] handle p(1) using p(3) ps by (simp del: offload_roots.simps)
  then have "offload_previews digest demo_graph bundle_ix OFFLOAD_CONTEXT ''ctx-p'' 1 9 demo_rules None = Inr (p # ps)"
    unfolding offload_previews_def pages rbind_simps order .
  then show ?thesis using x p(2,3)
    by (intro exI [of _ "sort_key preview_order (p # ps)"] exI [of _ p])
      (simp add: previews_for_context_def has_context_def dict_in_def context_epoch_def bundle_ix_pages set_insort_key)
qed

theorem eligible_bundle_sound_witness:
  "\<exists>p i. bd_handles (bp_bundle p) = [PageHandle 2 0] \<and> preview_eligible p \<and> preview_intent p = Inr i \<and>
     bundle_safe demo_graph bundle_ix 9 demo_rules OFFLOAD_CONTEXT {PageHandle 2 0} \<and>
     (\<forall>a \<in> set (bp_page_actions p). index_accepts bundle_ix a)"
proof -
  obtain ps p where p: "previews_for_context (\<lambda>n v. ''d'') demo_graph bundle_ix OFFLOAD_CONTEXT ''ctx-p'' 1 9 demo_rules None None = Inr ps"
    "p \<in> set ps" "preview_eligible p" "bd_handles (bp_bundle p) = [PageHandle 2 0]" using demo_previews by blast
  from eligible_bundle_sound [OF demo_graph_reachable bundle_ix_reachable, of 9 "\<lambda>n v. ''d''" OFFLOAD_CONTEXT "''ctx-p''" 1
      demo_rules None None] p(1)
  have "\<forall>p \<in> set ps. preview_eligible p \<longrightarrow>
      bundle_safe demo_graph bundle_ix 9 demo_rules OFFLOAD_CONTEXT (set (bd_handles (bp_bundle p))) \<and>
      (\<forall>a \<in> set (bp_page_actions p). index_accepts bundle_ix a) \<and>
      (\<exists>i. preview_intent p = Inr i)" by (fastforce simp: drop_refused_def)
  with p(2,3) have "bundle_safe demo_graph bundle_ix 9 demo_rules OFFLOAD_CONTEXT (set (bd_handles (bp_bundle p)))"
    "\<forall>a \<in> set (bp_page_actions p). index_accepts bundle_ix a"
    "\<exists>i. preview_intent p = Inr i" by blast+
  with p(3,4) show ?thesis by auto
qed

end
