(* ===== verification/Radix_Arbiter.thy ===== *)
theory Radix_Arbiter
  imports Bundles
begin

text \<open>
  \<open>runtime/radix_arbiter.py\<close>: a queued command names a context; when it is taken, the arbiter
  resolves it against the pages as they are now, into a list of page actions or the reasons why
  there is none.

  \<open>list(page.children)\<close> and the loop over the invocations of a context run over sets; the model takes
  them in ascending order. The climb of \<open>_prefetch_closure_allows\<close> has no guard; coming back to a page
  is the outcome \<open>NonTermination\<close>.
\<close>

section \<open>Configuration and results\<close>

record arbitration_config =
  ac_shadow_chunk_bytes :: int
  ac_urgent_chunk_bytes :: int

definition arbitration_config_default :: arbitration_config where
  "arbitration_config_default = \<lparr>ac_shadow_chunk_bytes = 64 * 1024 * 1024, ac_urgent_chunk_bytes = 256 * 1024 * 1024\<rparr>"

definition resolved ::
  "control_command \<Rightarrow> resolved_page_action list \<Rightarrow> int \<Rightarrow> string \<Rightarrow> transfer_blocker list \<Rightarrow> string \<Rightarrow> resolved_command" where
  "resolved cmd actions bytes reason blockers closure_fp =
     \<lparr>rc_command = cmd, rc_page_actions = actions, rc_resolved_bytes = bytes, rc_reason = reason,
      rc_blockers = blockers, rc_closure_fingerprint = closure_fp\<rparr>"

definition bare_blocker :: "transfer_blocker_code \<Rightarrow> string \<Rightarrow> transfer_blocker" where
  "bare_blocker code detail =
     \<lparr>tb_code = code, tb_page_handle = None, tb_required_bytes = 0, tb_detail = detail\<rparr>"

definition refused :: "control_command \<Rightarrow> string \<Rightarrow> resolved_command" where
  "refused cmd reason = resolved cmd [] 0 reason [bare_blocker STALE_GENERATION []] []"

text \<open>\<open>command.target_bytes or default\<close>.\<close>

definition byte_limit :: "control_command \<Rightarrow> int \<Rightarrow> int" where
  "byte_limit cmd dflt = (if cc_target_bytes cmd \<noteq> 0 then cc_target_bytes cmd else dflt)"

section \<open>Pages and owners\<close>

definition transfer_eligible :: "page_record \<Rightarrow> bool" where
  "transfer_eligible p =
     (pg_sealed p \<and> pg_engine_lock_ref p = 0 \<and> pg_semantic_pin_contexts p = {} \<and>
      pg_active_reader_count p = 0 \<and> transfer_idle p)"

text \<open>The same statements as in \<open>bundles.py\<close>.\<close>

definition page_transfer_blockers :: "page_record \<Rightarrow> transfer_blocker list result" where
  "page_transfer_blockers p = page_blockers p"

fun invocations_active :: "causal_graph \<Rightarrow> bool \<Rightarrow> string list \<Rightarrow> bool result" where
  "invocations_active g allow_ready [] = Inr False"
| "invocations_active g allow_ready (i # is) =
     rbind (dict_item (cg_invocations g) i i) (\<lambda>r.
       if iv_state r = RUNNING_LLM then Inr True
       else if iv_state r = READY \<and> \<not> allow_ready then Inr True
       else invocations_active g allow_ready is)"

fun active_owner :: "causal_graph \<Rightarrow> bool \<Rightarrow> py_value \<Rightarrow> string list \<Rightarrow> bool result" where
  "active_owner g allow_ready protected [] = Inr False"
| "active_owner g allow_ready protected (c # cs) =
     (if PStr c = protected then Inr True
      else case map_of (cg_contexts g) c of
        None \<Rightarrow> Inr True
      | Some x \<Rightarrow>
          rbind (invocations_active g allow_ready (sorted_list_of_set (cx_invocation_ids x))) (\<lambda>active.
            if active then Inr True else active_owner g allow_ready protected cs))"

definition page_has_active_owner :: "causal_graph \<Rightarrow> page_record \<Rightarrow> bool \<Rightarrow> py_value \<Rightarrow> bool result" where
  "page_has_active_owner g p allow_ready protected =
     active_owner g allow_ready protected (map fst (pg_owner_contexts p))"

section \<open>Closures\<close>

function leaf_allows :: "page_index \<Rightarrow> page_handle set \<Rightarrow> page_handle list \<Rightarrow> page_handle set \<Rightarrow> bool" where
  "leaf_allows ix selected [] seen = True"
| "leaf_allows ix selected (c # stack) seen =
     (if c \<in> seen then False
      else case map_of (ix_pages ix) c of
        None \<Rightarrow> leaf_allows ix selected stack (insert c seen)
      | Some child \<Rightarrow>
          if page_dead child then leaf_allows ix selected stack (insert c seen)
          else if gpu_resident child \<and> c \<notin> selected then False
          else leaf_allows ix selected (rev (sorted_list_of_set (pg_children child)) @ stack) (insert c seen))"
  by pat_completeness auto

lemma unseen_missing:
  assumes "map_of d k = None"
  shows "unseen d (insert k seen) = unseen d seen"
proof -
  have "k \<notin> fst ` set d" using assms by (simp add: map_of_eq_None_iff)
  then have "fst ` set d - insert k seen = fst ` set d - seen" by blast
  then show ?thesis by (simp add: unseen_def)
qed

termination leaf_allows
  by (relation "(\<lambda>(ix, selected, stack, seen). unseen (ix_pages ix) seen) <*mlex*>
    measure (\<lambda>(ix, selected, stack, seen). length stack)")
    (simp_all add: wf_mlex mlex_iff unseen_insert unseen_missing)

declare leaf_allows.simps [simp del]

definition leaf_closure_allows :: "page_index \<Rightarrow> page_record \<Rightarrow> page_handle set \<Rightarrow> bool" where
  "leaf_closure_allows ix p selected = leaf_allows ix selected (rev (sorted_list_of_set (pg_children p))) {}"

function prefetch_allows ::
  "page_index \<Rightarrow> page_handle set \<Rightarrow> page_handle set \<Rightarrow> page_handle option \<Rightarrow> bool result" where
  "prefetch_allows ix selected seen None = Inr True"
| "prefetch_allows ix selected seen (Some a) =
     (case map_of (ix_pages ix) a of
        None \<Rightarrow> Inr False
      | Some q \<Rightarrow>
          if page_dead q then Inr False
          else if \<not> gpu_resident q \<and> a \<notin> selected then Inr False
          else if a \<in> seen then Inl (NonTermination ''Radix ancestor cycle'')
          else prefetch_allows ix selected (insert a seen) (pg_parent q))"
  by pat_completeness auto

termination prefetch_allows
  by (relation "measure (\<lambda>(ix, selected, seen, a). unseen (ix_pages ix) seen)") (simp_all add: unseen_insert)

declare prefetch_allows.simps [simp del]

definition prefetch_closure_allows :: "page_index \<Rightarrow> page_record \<Rightarrow> page_handle set \<Rightarrow> bool result" where
  "prefetch_closure_allows ix p selected = prefetch_allows ix selected {} (pg_parent p)"

section \<open>Selection\<close>

text \<open>The loop that all four resolutions share: take pages in order until the limit is reached, skipping
  (and reporting) those whose closure is incomplete.\<close>

type_synonym selection = "resolved_page_action list \<times> transfer_blocker list \<times> int"

fun select_pages ::
  "int \<Rightarrow> (page_record \<Rightarrow> page_handle set \<Rightarrow> bool result) \<Rightarrow> (page_record \<Rightarrow> transfer_blocker list result)
   \<Rightarrow> (page_record \<times> physical_page_action) list \<Rightarrow> selection \<Rightarrow> selection result" where
  "select_pages limit allows report [] sel = Inr sel"
| "select_pages limit allows report ((p, action) # cands) (selected, blockers, bytes) =
     (if bytes \<ge> limit then Inr (selected, blockers, bytes)
      else
        rbind (allows p (set (map rpa_handle selected))) (\<lambda>ok.
          if \<not> ok
          then rbind (report p) (\<lambda>bs. select_pages limit allows report cands (selected, blockers @ bs, bytes))
          else rbind (page_action p action) (\<lambda>a.
            select_pages limit allows report cands (selected @ [a], blockers, bytes + pg_size_bytes p))))"

definition offload_candidate ::
  "causal_graph \<Rightarrow> bool \<Rightarrow> bool \<Rightarrow> py_value \<Rightarrow> page_record
   \<Rightarrow> (page_record \<times> physical_page_action) list \<times> transfer_blocker list
   \<Rightarrow> ((page_record \<times> physical_page_action) list \<times> transfer_blocker list) result" where
  "offload_candidate g shadow allow_ready protected p = (\<lambda>(candidates, blockers).
     rbind (page_transfer_blockers p) (\<lambda>pbs.
       if pbs \<noteq> [] then Inr (candidates, blockers @ pbs)
       else rbind (page_has_active_owner g p allow_ready protected) (\<lambda>active.
         if active
         then rbind (page_blocker p (ENGINE_BUSY, ''active context owner'')) (\<lambda>b. Inr (candidates, blockers @ [b]))
         else if pg_residency p = DUAL_CLEAN \<and> \<not> shadow then Inr (candidates @ [(p, COMMIT_CPU)], blockers)
         else if pg_residency p = GPU_ONLY then Inr (candidates @ [(p, START_D2H)], blockers)
         else Inr (candidates, blockers))))"

definition offload_order :: "page_record \<times> physical_page_action \<Rightarrow> int \<times> nat \<times> real \<times> page_handle" where
  "offload_order = (\<lambda>(p, _). (- pg_radix_depth p, length (pg_owner_contexts p), pg_last_access_ms p, pg_handle p))"

definition closure_report :: "transfer_blocker_code \<Rightarrow> string \<Rightarrow> page_record \<Rightarrow> transfer_blocker list result" where
  "closure_report code detail p = rbind (page_blocker p (code, detail)) (\<lambda>b. Inr [b])"

text \<open>The end of a resolution: blockers are reported only when nothing was selected.\<close>

definition finish_selection :: "control_command \<Rightarrow> string \<Rightarrow> selection \<Rightarrow> resolved_command" where
  "finish_selection cmd none = (\<lambda>(selected, blockers, bytes).
     resolved cmd selected bytes (if selected \<noteq> [] then ''resolved'' else none)
       (if selected = [] then deduplicate_blockers blockers else []) [])"

definition resolve_offload ::
  "causal_graph \<Rightarrow> page_index \<Rightarrow> arbitration_config \<Rightarrow> bool \<Rightarrow> string \<Rightarrow> control_command \<Rightarrow> resolved_command result" where
  "resolve_offload g ix config shadow c cmd =
     (let limit0 = byte_limit cmd (if shadow then ac_shadow_chunk_bytes config else ac_urgent_chunk_bytes config);
          limit = (if shadow then min limit0 (ac_shadow_chunk_bytes config) else limit0) in
      rbind (context_pages ix c) (\<lambda>pages.
        let allow_ready = py_bool (dict_get (cc_metadata cmd) ''allow_ready_owners'' (PBool False));
            protected = py_get (cc_metadata cmd) ''protected_context_id'' in
        rbind (rfold (offload_candidate g shadow allow_ready protected) pages ([], [])) (\<lambda>(candidates, blockers).
        rbind (select_pages limit (\<lambda>p sel. Inr (leaf_closure_allows ix p sel))
                 (closure_report DESCENDANT_CLOSURE ''GPU-resident descendant is outside the selected bundle'')
                 (sort_key offload_order candidates) ([], blockers, 0)) (\<lambda>sel.
          Inr (finish_selection cmd ''no_migratable_marginal_pages'' sel)))))"

definition prefetch_candidate ::
  "page_record \<Rightarrow> page_record list \<times> transfer_blocker list \<Rightarrow> (page_record list \<times> transfer_blocker list) result" where
  "prefetch_candidate p = (\<lambda>(pages, blockers).
     if pg_residency p \<noteq> CPU_ONLY
     then (if pg_residency p = PREFETCHING
           then rbind (page_blocker p (NODE_LOADING, ''page is already prefetching'')) (\<lambda>b. Inr (pages, blockers @ [b]))
           else Inr (pages, blockers))
     else if \<not> transfer_idle p
     then rbind (page_blocker p (INFLIGHT, ''page has an in-flight transfer'')) (\<lambda>b. Inr (pages, blockers @ [b]))
     else if \<not> pg_sealed p
     then rbind (page_blocker p (UNSEALED, ''page extent is not sealed'')) (\<lambda>b. Inr (pages, blockers @ [b]))
     else Inr (pages @ [p], blockers))"

definition resolve_prefetch ::
  "page_index \<Rightarrow> arbitration_config \<Rightarrow> string \<Rightarrow> control_command \<Rightarrow> resolved_command result" where
  "resolve_prefetch ix config c cmd =
     (let limit = byte_limit cmd (ac_urgent_chunk_bytes config) in
      rbind (context_pages ix c) (\<lambda>context_pages.
      rbind (rfold prefetch_candidate context_pages ([], [])) (\<lambda>(pages, blockers).
      rbind (select_pages limit (prefetch_closure_allows ix)
               (closure_report ANCESTOR_CLOSURE ''GPU ancestor closure is incomplete'')
               (map (\<lambda>p. (p, START_H2D)) (pages_down pages)) ([], blockers, 0)) (\<lambda>sel.
        Inr (finish_selection cmd ''no_cpu_pages'' sel)))))"

definition drop_order :: "page_record \<Rightarrow> int \<times> real \<times> page_handle" where
  "drop_order p = (- pg_radix_depth p, pg_last_access_ms p, pg_handle p)"

definition resolve_drop_unowned ::
  "page_index \<Rightarrow> arbitration_config \<Rightarrow> control_command \<Rightarrow> resolved_command result" where
  "resolve_drop_unowned ix config cmd =
     (let limit = byte_limit cmd (ac_urgent_chunk_bytes config);
          pages = filter (\<lambda>p. \<not> page_dead p \<and> pg_owner_contexts p = [] \<and> transfer_eligible p) (map snd (ix_pages ix)) in
      rbind (select_pages limit (\<lambda>p sel. Inr (leaf_closure_allows ix p sel)) (\<lambda>_. Inr [])
               (map (\<lambda>p. (p, DROP)) (sort_key drop_order pages)) ([], [], 0)) (\<lambda>(selected, _, bytes).
        Inr (resolved cmd selected bytes (if selected \<noteq> [] then ''resolved'' else ''no_unowned_pages'') [] [])))"

definition has_live_child :: "page_index \<Rightarrow> page_record \<Rightarrow> bool" where
  "has_live_child ix p = (\<exists>k \<in> pg_children p. page_is_live ix k)"

definition terminal_candidate ::
  "page_index \<Rightarrow> page_handle \<Rightarrow> page_record list \<times> transfer_blocker list
   \<Rightarrow> (page_record list \<times> transfer_blocker list) result" where
  "terminal_candidate ix h = (\<lambda>(pages, blockers).
     case map_of (ix_pages ix) h of
       None \<Rightarrow> Inr (pages, blockers)
     | Some p \<Rightarrow>
         if page_dead p then Inr (pages, blockers)
         else if pg_owner_contexts p \<noteq> []
         then rbind (make_blocker EXTENT_MUTATED h (pg_size_bytes p) ''terminal-private extent acquired another owner'')
                (\<lambda>b. Inr (pages, blockers @ [b]))
         else if pg_residency p \<notin> {DUAL_CLEAN, CPU_ONLY} then Inr (pages, blockers)
         else rbind (page_transfer_blockers p) (\<lambda>pbs.
           if pbs \<noteq> [] then Inr (pages, blockers @ pbs)
           else if pg_residency p = CPU_ONLY \<and> has_live_child ix p
           then rbind (make_blocker DESCENDANT_CLOSURE h (pg_size_bytes p) ''CPU-only terminal extent is not yet a Radix leaf'')
                  (\<lambda>b. Inr (pages, blockers @ [b]))
           else Inr (pages @ [p], blockers)))"

definition resolve_terminal_private_drop ::
  "page_index \<Rightarrow> arbitration_config \<Rightarrow> control_command \<Rightarrow> resolved_command result" where
  "resolve_terminal_private_drop ix config cmd =
     (let limit = byte_limit cmd (ac_urgent_chunk_bytes config) in
      rbind (rfold (terminal_candidate ix) (cc_target_handles cmd) ([], [])) (\<lambda>(pages, blockers).
      rbind (select_pages limit (\<lambda>_ _. Inr True) (\<lambda>_. Inr [])
               (map (\<lambda>p. (p, DROP_HOST)) (sort_key drop_order pages)) ([], blockers, 0)) (\<lambda>sel.
        Inr (finish_selection cmd ''no_terminal_private_host_pages'' sel))))"

section \<open>Resolving a command\<close>

definition resolve_physical_bundle ::
  "py_runtime \<Rightarrow> py_digest \<Rightarrow> causal_graph \<Rightarrow> page_index \<Rightarrow> string \<Rightarrow> int \<Rightarrow> physical_bundle_intent \<Rightarrow> control_command
   \<Rightarrow> resolved_command result" where
  "resolve_physical_bundle rt digest g ix c epoch intent cmd =
     rbind (py_iter (dict_get (cc_metadata cmd) ''bypass_owner_context_ids'' (PTuple []))) (\<lambda>bypass.
       let rules = \<lparr>ow_allow_ready = py_bool (dict_get (cc_metadata cmd) ''allow_ready_owners'' (PBool False)),
                    ow_protected = py_get (cc_metadata cmd) ''protected_context_id'',
                    ow_bypass = set (map (py_str rt) bypass)\<rparr> in
       rbind (find_intent_preview digest g ix (cc_kind cmd) c epoch (pbi_bundle_id intent) (cc_created_ts_ms cmd)
                rules None None) (\<lambda>found.
         case found of
           None \<Rightarrow>
             Inr (resolved cmd [] 0 ''physical_bundle_no_longer_exists''
               [bare_blocker EXTENT_MUTATED ''bundle closure is absent from the authoritative mirror'']
               (pbi_generation_fingerprint intent))
         | Some preview \<Rightarrow>
             let bundle = bp_bundle preview; fp = bd_generation_fingerprint bundle in
             if fp \<noteq> pbi_generation_fingerprint intent
             then Inr (resolved cmd [] 0 ''physical_bundle_fingerprint_changed''
                    (if bp_blockers preview \<noteq> [] then bp_blockers preview
                     else [bare_blocker EXTENT_MUTATED ''physical bundle fingerprint changed before execution'']) fp)
             else if bp_blockers preview \<noteq> []
             then Inr (resolved cmd [] 0 ''physical_bundle_blocked'' (bp_blockers preview) fp)
             else if bd_handles bundle \<noteq> pbi_closure_handles intent \<or> bp_page_actions preview \<noteq> pbi_page_actions intent
                     \<or> bd_closure_bytes bundle \<noteq> pbi_closure_bytes intent
             then Inr (resolved cmd [] 0 ''physical_bundle_intent_diverged''
                    [bare_blocker EXTENT_MUTATED ''resolved physical actions differ from the selected intent''] fp)
             else Inr (resolved cmd (bp_page_actions preview) (bd_closure_bytes bundle) ''physical_bundle_resolved'' [] fp)))"

definition resolve_pin :: "page_index \<Rightarrow> string \<Rightarrow> control_command \<Rightarrow> resolved_command result" where
  "resolve_pin ix c cmd =
     rbind (context_pages ix c) (\<lambda>pages.
     rbind (rmap (\<lambda>p. page_action p (if cc_kind cmd = PIN_CONTEXT then PIN else UNPIN)) pages) (\<lambda>actions.
       Inr (resolved cmd actions (action_bytes actions) ''resolved'' [] [])))"

definition resolve ::
  "py_runtime \<Rightarrow> py_digest \<Rightarrow> causal_graph \<Rightarrow> page_index \<Rightarrow> arbitration_config \<Rightarrow> control_command
   \<Rightarrow> resolved_command result" where
  "resolve rt digest g ix config cmd =
     (if cc_kind cmd = DROP_UNOWNED then resolve_drop_unowned ix config cmd
      else case (cc_context_id cmd, cc_context_epoch cmd) of
        (Some c, Some epoch) \<Rightarrow>
          (case map_of (cg_contexts g) c of
             None \<Rightarrow> Inr (refused cmd ''unknown_context'')
           | Some x \<Rightarrow>
               (case validate_context_epoch ix c epoch of
                  Inl (PageIndexError _) \<Rightarrow> Inr (refused cmd ''stale_context_epoch'')
                | Inl e \<Rightarrow> Inl e
                | Inr _ \<Rightarrow>
                    if cx_epoch x \<noteq> epoch then Inr (refused cmd ''graph_page_epoch_divergence'')
                    else case cc_physical_bundle cmd of
                      Some intent \<Rightarrow> resolve_physical_bundle rt digest g ix c epoch intent cmd
                    | None \<Rightarrow>
                        if cc_kind cmd = OFFLOAD_CONTEXT then resolve_offload g ix config False c cmd
                        else if cc_kind cmd = SHADOW_CONTEXT then resolve_offload g ix config True c cmd
                        else if cc_kind cmd = PREFETCH_CONTEXT then resolve_prefetch ix config c cmd
                        else if cc_kind cmd = DROP_TERMINAL_PRIVATE then resolve_terminal_private_drop ix config cmd
                        else if cc_kind cmd \<in> {PIN_CONTEXT, UNPIN_CONTEXT} then resolve_pin ix c cmd
                        else Inr (resolved cmd [] 0 ''command_not_page_resident'' [] [])))
      | _ \<Rightarrow> Inr (refused cmd ''missing_context_identity''))"

end
