(* ===== verification/Arbiter_Safety.thy ===== *)
theory Arbiter_Safety
  imports Bundle_Safety Radix_Arbiter "HOL-Library.Sublist"
begin

text \<open>
  What the arbiter promises. Whatever command is taken from the queue, resolving it against a
  reachable graph and index returns; the index accepts every action of the result; an offload takes
  a page only after every GPU-resident page below it, a prefetch only after every page above it; and
  the limit is exceeded by at most the last page.
\<close>

section \<open>The selection loop\<close>

abbreviation action_on :: "page_record \<Rightarrow> physical_page_action \<Rightarrow> resolved_page_action" where
  "action_on p a \<equiv> \<lparr>rpa_handle = pg_handle p, rpa_action = a, rpa_size_bytes = pg_size_bytes p\<rparr>"

text \<open>The actions \<open>new\<close> taken from the candidates after \<open>pre\<close>, each allowed by those before it and none
  once the limit was reached.\<close>

definition taken ::
  "int \<Rightarrow> (page_record \<Rightarrow> page_handle set \<Rightarrow> bool result) \<Rightarrow> (page_record \<times> physical_page_action) list
   \<Rightarrow> resolved_page_action list \<Rightarrow> resolved_page_action list \<Rightarrow> bool" where
  "taken limit allows cands pre new \<longleftrightarrow>
     (\<forall>i < length new. \<exists>p a. (p, a) \<in> set cands \<and> new ! i = action_on p a \<and>
        allows p (rpa_handle ` set (pre @ take i new)) = Inr True \<and> action_bytes (pre @ take i new) < limit)"

lemma action_bytes_append [simp]:
  "action_bytes (xs @ ys) = action_bytes xs + action_bytes ys" "action_bytes [] = 0"
  "action_bytes (a # xs) = rpa_size_bytes a + action_bytes xs"
  by (simp_all add: action_bytes_def)

lemma taken_more: "taken limit allows cands pre new \<Longrightarrow> taken limit allows (c # cands) pre new"
  unfolding taken_def by (meson list.set_intros(2))

lemma taken_Cons:
  assumes "taken limit allows cands (pre @ [action_on p a]) new"
    and "allows p (rpa_handle ` set pre) = Inr True" and "action_bytes pre < limit"
  shows "taken limit allows ((p, a) # cands) pre (action_on p a # new)"
  unfolding taken_def
proof (intro allI impI)
  fix i
  assume i: "i < length (action_on p a # new)"
  show "\<exists>q b. (q, b) \<in> set ((p, a) # cands) \<and> (action_on p a # new) ! i = action_on q b \<and>
      allows q (rpa_handle ` set (pre @ take i (action_on p a # new))) = Inr True \<and>
      action_bytes (pre @ take i (action_on p a # new)) < limit"
  proof (cases i)
    case 0
    then show ?thesis using assms(2,3) by auto
  next
    case (Suc j)
    with i have j: "j < length new" by simp
    obtain q b where "(q, b) \<in> set cands" "new ! j = action_on q b"
      "allows q (rpa_handle ` set ((pre @ [action_on p a]) @ take j new)) = Inr True"
      "action_bytes ((pre @ [action_on p a]) @ take j new) < limit"
      using assms(1) j unfolding taken_def by blast
    then show ?thesis using Suc by (intro exI [of _ q] exI [of _ b]) simp
  qed
qed

lemma select_pages_taken:
  assumes "\<And>p a sel. (p, a) \<in> set cands \<Longrightarrow> \<exists>b. allows p sel = Inr b"
    and "\<And>p a. (p, a) \<in> set cands \<Longrightarrow> \<exists>bs. report p = Inr bs"
    and "\<And>p a. (p, a) \<in> set cands \<Longrightarrow> page_ok (pg_handle p) p"
  shows "\<exists>new bs. select_pages limit allows report cands (pre, blockers, action_bytes pre) =
    Inr (pre @ new, blockers @ bs, action_bytes (pre @ new)) \<and> taken limit allows cands pre new \<and>
    (\<exists>ks. subseq ks cands \<and> new = map (\<lambda>(p, a). action_on p a) ks)"
  using assms
proof (induction cands arbitrary: pre blockers)
  case Nil
  show ?case by (intro exI [of _ "[]"]) (simp add: taken_def)
next
  case (Cons c cands)
  obtain p a where c: "c = (p, a)" by fastforce
  have IH: "\<exists>new bs. select_pages limit allows report cands (pre, blockers, action_bytes pre) =
      Inr (pre @ new, blockers @ bs, action_bytes (pre @ new)) \<and> taken limit allows cands pre new \<and>
      (\<exists>ks. subseq ks cands \<and> new = map (\<lambda>(p, a). action_on p a) ks)" for pre blockers
    by (rule Cons.IH) (rule Cons.prems, erule list.set_intros(2))+
  obtain b where b: "allows p (rpa_handle ` set pre) = Inr b" using Cons.prems(1) [of p a] c by auto
  show ?case
  proof (cases "action_bytes pre \<ge> limit")
    case True
    then show ?thesis using c by (intro exI [of _ "[]"]) (simp add: taken_def)
  next
    case False
    show ?thesis
    proof (cases b)
      case True
      have "page_ok (pg_handle p) p" using Cons.prems(3) [of p a] c by simp
      note act = page_action_ok [OF this, of a]
      obtain new bs ks where r: "select_pages limit allows report cands
          (pre @ [action_on p a], blockers, action_bytes (pre @ [action_on p a])) =
          Inr ((pre @ [action_on p a]) @ new, blockers @ bs, action_bytes ((pre @ [action_on p a]) @ new))"
        and t: "taken limit allows cands (pre @ [action_on p a]) new"
        and ks: "subseq ks cands" "new = map (\<lambda>(p, a). action_on p a) ks"
        using IH [of "pre @ [action_on p a]" blockers] by (elim exE conjE)
      have run: "select_pages limit allows report (c # cands) (pre, blockers, action_bytes pre) =
          Inr (pre @ (action_on p a # new), blockers @ bs, action_bytes (pre @ (action_on p a # new)))"
        using r c False b True act by (simp add: add.assoc)
      have tk: "taken limit allows (c # cands) pre (action_on p a # new)"
        unfolding c using False b True by (intro taken_Cons [OF t]) simp_all
      have sub: "subseq (c # ks) (c # cands)" using ks(1) by simp
      have img: "action_on p a # new = map (\<lambda>(p, a). action_on p a) (c # ks)" using ks(2) c by simp
      show ?thesis by (rule exI, rule exI, rule conjI, rule run, rule conjI, rule tk, rule exI, rule conjI, rule sub, rule img)
    next
      case b2: False
      obtain rs where rs: "report p = Inr rs" using Cons.prems(2) [of p a] c by auto
      obtain new bs ks where r: "select_pages limit allows report cands (pre, blockers @ rs, action_bytes pre) =
          Inr (pre @ new, (blockers @ rs) @ bs, action_bytes (pre @ new))"
        and t: "taken limit allows cands pre new"
        and ks: "subseq ks cands" "new = map (\<lambda>(p, a). action_on p a) ks"
        using IH [of pre "blockers @ rs"] by (elim exE conjE)
      have run: "select_pages limit allows report (c # cands) (pre, blockers, action_bytes pre) =
          Inr (pre @ new, blockers @ (rs @ bs), action_bytes (pre @ new))"
        using r c False b b2 rs by simp
      have sub: "subseq ks (c # cands)" using ks(1) by (rule list_emb_Cons)
      show ?thesis by (rule exI, rule exI, rule conjI, rule run, rule conjI, rule taken_more [OF t], rule exI, rule conjI, rule sub, rule ks(2))
    qed
  qed
qed

lemma rfold_collect:
  assumes "\<And>x. x \<in> set xs \<Longrightarrow> \<exists>ys bs. (\<forall>C B. f x (C, B) = Inr (C @ ys, B @ bs)) \<and>
      (ys = [] \<or> (\<exists>y. ys = [y] \<and> key y = x \<and> Q y))"
  shows "\<exists>ys bs. (\<forall>C B. rfold f xs (C, B) = Inr (C @ ys, B @ bs)) \<and> subseq (map key ys) xs \<and> (\<forall>y \<in> set ys. Q y)"
  using assms
proof (induction xs)
  case Nil
  have "\<forall>C B. rfold f [] (C, B) = Inr (C @ [], B @ [])" by simp
  then show ?case by (metis empty_iff list.map_disc_iff list.set(1) subseq_order.refl)
next
  case (Cons x xs)
  obtain ys bs where ys: "\<forall>C B. rfold f xs (C, B) = Inr (C @ ys, B @ bs)" "subseq (map key ys) xs" "\<forall>y \<in> set ys. Q y"
    using Cons.IH Cons.prems by (metis list.set_intros(2))
  obtain zs cs where zs: "\<forall>C B. f x (C, B) = Inr (C @ zs, B @ cs)" "zs = [] \<or> (\<exists>y. zs = [y] \<and> key y = x \<and> Q y)"
    using Cons.prems [of x] by auto
  have "rfold f (x # xs) (C, B) = Inr (C @ (zs @ ys), B @ (cs @ bs))" for C B using ys(1) zs(1) by simp
  moreover have "subseq (map key (zs @ ys)) (x # xs)" using zs(2) ys(2) by (auto intro: list_emb_Cons)
  moreover have "\<forall>y \<in> set (zs @ ys). Q y" using zs(2) ys(3) by auto
  ultimately show ?case by blast
qed

section \<open>Closures\<close>

definition live_below :: "page_index \<Rightarrow> (page_handle \<times> page_handle) set" where
  "live_below ix = {(h, k). \<exists>p. map_of (ix_pages ix) h = Some p \<and> \<not> page_dead p \<and> k \<in> pg_children p}"

lemma leaf_allows_sound:
  "ix_inv ix \<Longrightarrow> leaf_allows ix selected stack seen \<Longrightarrow> s \<in> set stack \<Longrightarrow> (s, k) \<in> (live_below ix)\<^sup>* \<Longrightarrow>
   resident_at ix k \<Longrightarrow> k \<in> selected"
proof (induction ix selected stack seen arbitrary: s rule: leaf_allows.induct)
  case (1 ix selected seen)
  then show ?case by simp
next
  case (2 ix selected c stack seen)
  note step = leaf_allows.simps(2) [of ix selected c stack seen]
  have new: "c \<notin> seen" using "2.prems"(2) unfolding step by (auto split: if_splits)
  show ?case
  proof (cases "page_is_live ix c")
    case False
    then have stuck: "(c, j) \<notin> live_below ix" "\<not> resident_at ix c" for j
      by (auto simp: live_below_def page_is_live_def gpu_resident_def)
    have "k \<noteq> c" using stuck(2) "2.prems"(5) by blast
    have s: "s \<in> set stack"
    proof (rule ccontr)
      assume "s \<notin> set stack"
      with "2.prems"(3,4) have "(c, k) \<in> (live_below ix)\<^sup>*" by simp
      then show False using stuck(1) \<open>k \<noteq> c\<close> by (metis converse_rtranclE)
    qed
    show ?thesis
    proof (cases "map_of (ix_pages ix) c")
      case None
      with "2.prems"(2) new have "leaf_allows ix selected stack (insert c seen)" unfolding step by simp
      then show ?thesis using "2.IH"(1) [OF new None "2.prems"(1) _ s "2.prems"(4,5)] by blast
    next
      case (Some q)
      with False have d: "page_dead q" by (simp add: page_is_live_def)
      with "2.prems"(2) new Some have "leaf_allows ix selected stack (insert c seen)" unfolding step by simp
      then show ?thesis using "2.IH"(2) [OF new Some d "2.prems"(1) _ s "2.prems"(4,5)] by blast
    qed
  next
    case True
    then obtain q where q: "map_of (ix_pages ix) c = Some q" "\<not> page_dead q"
      by (auto simp: page_is_live_def split: option.splits)
    let ?st = "rev (sorted_list_of_set (pg_children q)) @ stack"
    have ok: "\<not> (gpu_resident q \<and> c \<notin> selected)" and go: "leaf_allows ix selected ?st (insert c seen)"
      using "2.prems"(2) q new unfolding step by (auto split: if_splits)
    have fin: "finite (pg_children q)" using pages_invD(4) [OF "2.prems"(1) refl q(1)] by (simp add: page_ok_def)
    note IH = "2.IH"(3) [OF new q ok "2.prems"(1) go _ _ "2.prems"(5)]
    show ?thesis
    proof (cases "s = c \<and> s \<notin> set stack")
      case False
      then have "s \<in> set ?st" using "2.prems"(3) by auto
      then show ?thesis using IH "2.prems"(4) by blast
    next
      case at: True
      show ?thesis
      proof (cases "k = c")
        case True
        then show ?thesis using ok q "2.prems"(5) by auto
      next
        case False
        then obtain j where j: "(c, j) \<in> live_below ix" "(j, k) \<in> (live_below ix)\<^sup>*"
          using at "2.prems"(4) by (metis converse_rtranclE)
        then have "j \<in> set ?st" using q fin by (auto simp: live_below_def)
        then show ?thesis using IH j(2) by blast
      qed
    qed
  qed
qed

lemma leaf_closure_sound:
  assumes inv: "ix_inv ix" and p: "map_of (ix_pages ix) h = Some p" and "leaf_closure_allows ix p selected"
    and below: "(h, k) \<in> (live_below ix)\<^sup>+" and k: "resident_at ix k"
  shows "k \<in> selected"
proof -
  obtain j where j: "(h, j) \<in> live_below ix" "(j, k) \<in> (live_below ix)\<^sup>*" using below by (meson tranclD)
  have "finite (pg_children p)" using pages_invD(4) [OF inv refl p] by (simp add: page_ok_def)
  then have "j \<in> set (rev (sorted_list_of_set (pg_children p)))" using j(1) p by (simp add: live_below_def)
  with leaf_allows_sound [OF inv assms(3) [unfolded leaf_closure_allows_def] _ j(2) k] show ?thesis by blast
qed

abbreviation above :: "page_index \<Rightarrow> (page_handle \<times> page_handle) set" where
  "above ix \<equiv> parent_edges (live_of (map_of (ix_pages ix))) (parent_of (map_of (ix_pages ix)))"

lemma prefetch_allows_total:
  assumes inv: "ix_inv ix"
  shows "map_of (ix_pages ix) h = Some q \<Longrightarrow> \<not> page_dead q \<Longrightarrow> \<forall>x \<in> seen. (x, h) \<in> (above ix)\<^sup>* \<Longrightarrow>
    \<exists>b. prefetch_allows ix selected seen (pg_parent q) = Inr b \<and>
      (b \<longrightarrow> (\<forall>a. (h, a) \<in> (above ix)\<^sup>+ \<longrightarrow> resident_at ix a \<or> a \<in> selected))"
proof (induction h arbitrary: q seen rule: wf_induct_rule [OF parent_edges_wf [OF inv]])
  case (1 h)
  have only: "(h, x) \<in> above ix \<Longrightarrow> pg_parent q = Some x" for x using "1.prems"(1) by (simp add: parent_edges_def)
  show ?case
  proof (cases "pg_parent q")
    case None
    then have "\<forall>a. (h, a) \<notin> (above ix)\<^sup>+" using only by (metis option.distinct(1) tranclD)
    then show ?thesis using None by (auto simp: prefetch_allows.simps)
  next
    case (Some a)
    obtain r where r: "map_of (ix_pages ix) a = Some r" "\<not> page_dead r" "(h, a) \<in> above ix"
      using live_parent [OF inv "1.prems"(1,2) Some] by blast
    have fresh: "a \<notin> seen"
    proof
      assume "a \<in> seen"
      with "1.prems"(3) r(3) have "(a, a) \<in> (above ix)\<^sup>+" by (meson rtrancl_into_trancl1)
      with pages_invD(2) [OF inv refl] show False by (simp add: acyclic_def)
    qed
    show ?thesis
    proof (cases "gpu_resident r \<or> a \<in> selected")
      case False
      then show ?thesis using Some r by (auto simp: prefetch_allows.simps(2) [of ix selected seen a])
    next
      case True
      have seen: "\<forall>x \<in> insert a seen. (x, a) \<in> (above ix)\<^sup>*"
        using "1.prems"(3) r(3) by (auto intro: rtrancl_into_rtrancl)
      obtain b where b: "prefetch_allows ix selected (insert a seen) (pg_parent r) = Inr b"
        "b \<longrightarrow> (\<forall>x. (a, x) \<in> (above ix)\<^sup>+ \<longrightarrow> resident_at ix x \<or> x \<in> selected)"
        using "1.IH" [OF converseI [OF r(3)] r(1,2) seen] by blast
      have "resident_at ix x \<or> x \<in> selected" if "b" and x: "(h, x) \<in> (above ix)\<^sup>+" for x
      proof -
        obtain z where "(h, z) \<in> above ix" "(z, x) \<in> (above ix)\<^sup>*" using x by (meson tranclD)
        with only Some have "(a, x) \<in> (above ix)\<^sup>*" by simp
        then consider "x = a" | "(a, x) \<in> (above ix)\<^sup>+" by (metis rtranclD)
        then show ?thesis
        proof cases
          case 1
          then show ?thesis using True r(1) by blast
        qed (use b(2) \<open>b\<close> in blast)
      qed
      moreover have "prefetch_allows ix selected seen (pg_parent q) = Inr b"
        using b(1) Some r fresh True by (auto simp: prefetch_allows.simps(2) [of ix selected seen a])
      ultimately show ?thesis by blast
    qed
  qed
qed

section \<open>Owners\<close>

text \<open>No owner is protected, unknown, running or (unless allowed) ready.\<close>

definition owners_idle :: "causal_graph \<Rightarrow> bool \<Rightarrow> py_value \<Rightarrow> page_record \<Rightarrow> bool" where
  "owners_idle g allow_ready protected p \<longleftrightarrow>
     (\<forall>c. dict_in c (pg_owner_contexts p) \<longrightarrow> PStr c \<noteq> protected \<and> map_of (cg_contexts g) c \<noteq> None \<and>
        (\<forall>i r. map_of (cg_invocations g) i = Some r \<longrightarrow> iv_context_id r = c \<longrightarrow>
           iv_state r \<noteq> RUNNING_LLM \<and> (iv_state r = READY \<longrightarrow> allow_ready)))"

lemma invocations_active_total:
  assumes "\<And>i. i \<in> set is \<Longrightarrow> \<exists>r. map_of (cg_invocations g) i = Some r"
  shows "\<exists>b. invocations_active g allow_ready is = Inr b \<and>
    (\<not> b \<longrightarrow> (\<forall>i r. i \<in> set is \<longrightarrow> map_of (cg_invocations g) i = Some r \<longrightarrow>
       iv_state r \<noteq> RUNNING_LLM \<and> (iv_state r = READY \<longrightarrow> allow_ready)))"
  using assms
proof (induction "is")
  case (Cons i "is")
  obtain r where r: "map_of (cg_invocations g) i = Some r" using Cons.prems [of i] by auto
  obtain b where b: "invocations_active g allow_ready is = Inr b"
    "\<not> b \<longrightarrow> (\<forall>i r. i \<in> set is \<longrightarrow> map_of (cg_invocations g) i = Some r \<longrightarrow>
       iv_state r \<noteq> RUNNING_LLM \<and> (iv_state r = READY \<longrightarrow> allow_ready))" using Cons by auto
  show ?case
  proof (cases "iv_state r = RUNNING_LLM \<or> iv_state r = READY \<and> \<not> allow_ready")
    case True
    then have "invocations_active g allow_ready (i # is) = Inr True" using r by (auto simp: dict_item_def)
    then show ?thesis by blast
  next
    case False
    then have "invocations_active g allow_ready (i # is) = Inr b" using r b(1) by (auto simp: dict_item_def)
    moreover have "\<not> b \<longrightarrow> (\<forall>j q. j \<in> set (i # is) \<longrightarrow> map_of (cg_invocations g) j = Some q \<longrightarrow>
       iv_state q \<noteq> RUNNING_LLM \<and> (iv_state q = READY \<longrightarrow> allow_ready))"
      using b(2) False r by auto
    ultimately show ?thesis by blast
  qed
qed auto

lemma context_members:
  assumes g: "reachable d rt g" and x: "map_of (cg_contexts g) c = Some x"
  shows "set (sorted_list_of_set (cx_invocation_ids x)) =
    {i. \<exists>r. map_of (cg_invocations g) i = Some r \<and> iv_context_id r = c}"
proof -
  have shape: "shape_ok (graph_shape g)" using reachable_ok [OF g] by (simp add: graph_ok_def)
  have ok: "inv_ok (graph_shape g) i (invocation_shape r)" if "map_of (cg_invocations g) i = Some r" for i r
    using shape_okD(1) [OF shape] that by simp
  obtain rs where rs: "context_invocations c g = Inr rs"
    "set rs = {r. \<exists>i. map_of (cg_invocations g) i = Some r \<and> iv_context_id r = c}"
    by (rule reachable_context_invocations [OF g x])
  have m: "rmap (\<lambda>i. dict_item (cg_invocations g) i i) (sorted_list_of_set (cx_invocation_ids x)) = Inr rs"
    using rs(1) x by (simp add: context_invocations_def dict_item_def)
  have "map iv_invocation_id rs' = is" if "rmap (\<lambda>i. dict_item (cg_invocations g) i i) is = Inr rs'" for "is" rs'
    using that
  proof (induction "is" arbitrary: rs')
    case (Cons i "is")
    then show ?case using ok by (auto simp: dict_item_eq_Inr inv_ok_def)
  qed simp
  from this [OF m] have "set (sorted_list_of_set (cx_invocation_ids x)) = iv_invocation_id ` set rs" by (metis list.set_map)
  also have "\<dots> = {i. \<exists>r. map_of (cg_invocations g) i = Some r \<and> iv_context_id r = c}"
    unfolding rs(2) using ok by (force simp: inv_ok_def)
  finally show ?thesis .
qed

lemma active_owner_total:
  assumes g: "reachable d rt g"
  shows "\<exists>b. active_owner g allow_ready protected cs = Inr b \<and>
    (\<not> b \<longrightarrow> (\<forall>c \<in> set cs. PStr c \<noteq> protected \<and> map_of (cg_contexts g) c \<noteq> None \<and>
        (\<forall>i r. map_of (cg_invocations g) i = Some r \<longrightarrow> iv_context_id r = c \<longrightarrow>
           iv_state r \<noteq> RUNNING_LLM \<and> (iv_state r = READY \<longrightarrow> allow_ready))))"
proof (induction cs)
  case (Cons c cs)
  let ?idle = "\<lambda>c. PStr c \<noteq> protected \<and> map_of (cg_contexts g) c \<noteq> None \<and>
      (\<forall>i r. map_of (cg_invocations g) i = Some r \<longrightarrow> iv_context_id r = c \<longrightarrow>
         iv_state r \<noteq> RUNNING_LLM \<and> (iv_state r = READY \<longrightarrow> allow_ready))"
  obtain b where b: "active_owner g allow_ready protected cs = Inr b" "\<not> b \<longrightarrow> (\<forall>c \<in> set cs. ?idle c)"
    using Cons by blast
  show ?case
  proof (cases "PStr c = protected \<or> map_of (cg_contexts g) c = None")
    case True
    then have "active_owner g allow_ready protected (c # cs) = Inr True" by (auto split: option.split)
    then show ?thesis by blast
  next
    case False
    then obtain x where x: "map_of (cg_contexts g) c = Some x" by blast
    let ?is = "sorted_list_of_set (cx_invocation_ids x)"
    obtain a where a: "invocations_active g allow_ready ?is = Inr a"
      "\<not> a \<longrightarrow> (\<forall>i r. i \<in> set ?is \<longrightarrow> map_of (cg_invocations g) i = Some r \<longrightarrow>
         iv_state r \<noteq> RUNNING_LLM \<and> (iv_state r = READY \<longrightarrow> allow_ready))"
      using invocations_active_total [of ?is g allow_ready] unfolding context_members [OF g x] by blast
    have "active_owner g allow_ready protected (c # cs) = Inr (a \<or> b)" using False x a(1) b(1) by simp
    moreover have "?idle c" if "\<not> a" using False a(2) that unfolding context_members [OF g x] by blast
    ultimately show ?thesis using b(2) by auto
  qed
qed auto

lemma page_has_active_owner_total:
  assumes "reachable d rt g"
  shows "\<exists>b. page_has_active_owner g p allow_ready protected = Inr b \<and> (\<not> b \<longrightarrow> owners_idle g allow_ready protected p)"
  using active_owner_total [OF assms, of allow_ready protected "map fst (pg_owner_contexts p)"]
  unfolding page_has_active_owner_def owners_idle_def dict_in_iff set_map by blast

section \<open>Candidates\<close>

definition offload_ok :: "causal_graph \<Rightarrow> bool \<Rightarrow> bool \<Rightarrow> py_value \<Rightarrow> page_record \<times> physical_page_action \<Rightarrow> bool" where
  "offload_ok g shadow allow_ready protected = (\<lambda>(p, a).
     page_movable p \<and> owners_idle g allow_ready protected p \<and> action_fits a p \<and>
     a \<in> (if shadow then {START_D2H} else {START_D2H, COMMIT_CPU}))"

lemma offload_candidates:
  assumes g: "reachable d rt g" and ok: "\<And>p. p \<in> set ps \<Longrightarrow> page_ok (pg_handle p) p"
  shows "\<exists>cs bs. (\<forall>C B. rfold (offload_candidate g shadow allow_ready protected) ps (C, B) = Inr (C @ cs, B @ bs)) \<and>
    subseq (map fst cs) ps \<and> (\<forall>c \<in> set cs. offload_ok g shadow allow_ready protected c)"
proof (rule rfold_collect)
  fix p
  assume p: "p \<in> set ps"
  note k = ok [OF p]
  obtain pbs where pbs: "page_blockers p = Inr pbs" "pbs = [] \<longleftrightarrow> page_movable p" by (rule page_blockers_ok [OF k])
  obtain active where active: "page_has_active_owner g p allow_ready protected = Inr active"
    "\<not> active \<longrightarrow> owners_idle g allow_ready protected p" using page_has_active_owner_total [OF g] by blast
  let ?f = "offload_candidate g shadow allow_ready protected p"
  note defs = offload_candidate_def page_transfer_blockers_def
  consider (blocked) "pbs \<noteq> []" | (busy) "pbs = []" active
    | (commit) "pbs = []" "\<not> active" "pg_residency p = DUAL_CLEAN" "\<not> shadow"
    | (copy) "pbs = []" "\<not> active" "pg_residency p = GPU_ONLY"
    | (none) "pbs = []" "\<not> active" "\<not> (pg_residency p = DUAL_CLEAN \<and> \<not> shadow)" "pg_residency p \<noteq> GPU_ONLY" by blast
  then show "\<exists>ys bs. (\<forall>C B. ?f (C, B) = Inr (C @ ys, B @ bs)) \<and>
      (ys = [] \<or> (\<exists>y. ys = [y] \<and> fst y = p \<and> offload_ok g shadow allow_ready protected y))"
  proof cases
    case blocked
    then show ?thesis using pbs by (intro exI [of _ "[]"] exI [of _ pbs]) (simp add: defs)
  next
    case busy
    then show ?thesis using pbs active
      by (intro exI [of _ "[]"] exI conjI allI disjI1 refl) (simp add: defs page_blocker_ok [OF k])
  next
    case commit
    then show ?thesis using pbs active
      by (intro exI [of _ "[(p, COMMIT_CPU)]"] exI [of _ "[]"]) (simp add: defs offload_ok_def)
  next
    case copy
    then show ?thesis using pbs active
      by (intro exI [of _ "[(p, START_D2H)]"] exI [of _ "[]"]) (simp add: defs offload_ok_def)
  next
    case none
    then show ?thesis using pbs active by (intro exI [of _ "[]"]) (simp add: defs)
  qed
qed

lemma prefetch_candidates:
  assumes ok: "\<And>p. p \<in> set ps \<Longrightarrow> page_ok (pg_handle p) p"
  shows "\<exists>cs bs. (\<forall>C B. rfold prefetch_candidate ps (C, B) = Inr (C @ cs, B @ bs)) \<and>
    subseq (map id cs) ps \<and> (\<forall>p \<in> set cs. pg_residency p = CPU_ONLY \<and> transfer_idle p \<and> pg_sealed p)"
proof (rule rfold_collect)
  fix p
  assume "p \<in> set ps"
  note k = ok [OF this]
  show "\<exists>ys bs. (\<forall>C B. prefetch_candidate p (C, B) = Inr (C @ ys, B @ bs)) \<and>
      (ys = [] \<or> (\<exists>y. ys = [y] \<and> id y = p \<and> pg_residency y = CPU_ONLY \<and> transfer_idle y \<and> pg_sealed y))"
  proof (cases "pg_residency p = CPU_ONLY \<and> transfer_idle p \<and> pg_sealed p")
    case True
    then show ?thesis by (intro exI [of _ "[p]"] exI [of _ "[]"]) (simp add: prefetch_candidate_def)
  next
    case False
    then consider "pg_residency p = PREFETCHING" | "pg_residency p \<notin> {CPU_ONLY, PREFETCHING}"
      | "pg_residency p = CPU_ONLY" "\<not> transfer_idle p" | "pg_residency p = CPU_ONLY" "transfer_idle p" "\<not> pg_sealed p" by blast
    then have "\<exists>bs. \<forall>C B. prefetch_candidate p (C, B) = Inr (C @ [], B @ bs)"
      by cases (simp add: prefetch_candidate_def page_blocker_ok [OF k], blast?)+
    then show ?thesis by blast
  qed
qed



section \<open>Resolutions\<close>

definition actions_sound :: "page_index \<Rightarrow> resolved_page_action list \<Rightarrow> bool" where
  "actions_sound ix as \<longleftrightarrow> distinct (map rpa_handle as) \<and>
     (\<forall>a \<in> set as. \<exists>q. map_of (ix_pages ix) (rpa_handle a) = Some q \<and> \<not> page_dead q \<and>
        rpa_size_bytes a = pg_size_bytes q \<and> (index_accepts ix a \<or> drop_refused (rpa_action a) q))"

lemma subseq_set: "subseq xs ys \<Longrightarrow> set xs \<subseteq> set ys"
  by (induction rule: list_emb.induct) auto

lemma subseq_distinct_map:
  assumes "subseq xs ys" and "distinct (map f ys)"
  shows "distinct (map f xs)"
  using assms
proof (induction xs ys rule: list_emb.induct)
  case (list_emb_Cons2 x y xs ys)
  then have "f x \<notin> f ` set xs" using subseq_set [of xs ys] by auto
  with list_emb_Cons2 show ?case by simp
qed simp_all

lemma distinct_map_sort [simp]: "distinct (map f (sort_key k xs)) \<longleftrightarrow> distinct (map f xs)"
proof -
  have "mset (map f (sort_key k xs)) = mset (map f xs)" by simp
  then show ?thesis by (rule mset_eq_imp_distinct_iff)
qed

definition candidate_ok :: "page_index \<Rightarrow> page_record \<times> physical_page_action \<Rightarrow> bool" where
  "candidate_ok ix = (\<lambda>(p, a). map_of (ix_pages ix) (pg_handle p) = Some p \<and> \<not> page_dead p \<and>
     (index_accepts ix (action_on p a) \<or> drop_refused a p))"

lemma select_sound:
  assumes inv: "ix_inv ix" and ok: "\<And>c. c \<in> set cands \<Longrightarrow> candidate_ok ix c"
    and dist: "distinct (map (\<lambda>(p, a). pg_handle p) cands)"
    and allows: "\<And>p a sel. (p, a) \<in> set cands \<Longrightarrow> \<exists>b. allows p sel = Inr b"
    and report: "\<And>p. page_ok (pg_handle p) p \<Longrightarrow> \<exists>bs. report p = Inr bs"
  obtains new bs where "select_pages limit allows report cands ([], blockers, 0) = Inr (new, blockers @ bs, action_bytes new)"
    and "taken limit allows cands [] new" and "actions_sound ix new"
proof -
  have pk: "page_ok (pg_handle p) p" if "(p, a) \<in> set cands" for p a
    using pages_invD(4) [OF inv refl] ok [OF that] by (simp add: candidate_ok_def)
  have rep: "\<exists>bs. report p = Inr bs" if "(p, a) \<in> set cands" for p a using report pk [OF that] by blast
  have "\<exists>new bs. select_pages limit allows report cands ([], blockers, action_bytes []) =
      Inr ([] @ new, blockers @ bs, action_bytes ([] @ new)) \<and> taken limit allows cands [] new \<and>
      (\<exists>ks. subseq ks cands \<and> new = map (\<lambda>(p, a). action_on p a) ks)"
    by (rule select_pages_taken) (erule allows rep pk)+
  then obtain new bs ks where run: "select_pages limit allows report cands ([], blockers, action_bytes []) =
      Inr ([] @ new, blockers @ bs, action_bytes ([] @ new))" and tk: "taken limit allows cands [] new"
    and ks: "subseq ks cands" "new = map (\<lambda>(p, a). action_on p a) ks"
    by (elim exE conjE)
  have "map rpa_handle new = map (\<lambda>(p, a). pg_handle p) ks" unfolding ks(2) by (simp add: case_prod_unfold)
  with subseq_distinct_map [OF ks(1) dist] have d: "distinct (map rpa_handle new)" by simp
  have "\<exists>q. map_of (ix_pages ix) (rpa_handle x) = Some q \<and> \<not> page_dead q \<and> rpa_size_bytes x = pg_size_bytes q \<and>
      (index_accepts ix x \<or> drop_refused (rpa_action x) q)" if x: "x \<in> set new" for x
  proof -
    obtain p a where pa: "(p, a) \<in> set ks" "x = action_on p a" using x unfolding ks(2) by auto
    then have "candidate_ok ix (p, a)" using ok subseq_set [OF ks(1)] by blast
    then show ?thesis using pa(2) by (intro exI [of _ p]) (simp add: candidate_ok_def)
  qed
  with d have "actions_sound ix new" by (simp add: actions_sound_def)
  with run tk show thesis by (intro that [of new bs]) simp_all
qed

lemma context_pages_distinct:
  assumes inv: "ix_inv ix" and ps: "context_pages ix c = Inr ps"
  shows "distinct (map pg_handle ps)"
proof -
  obtain qs where qs: "rmap (\<lambda>h. dict_item (ix_pages ix) h ''page'') (sorted_list_of_set (context_page_set ix c)) = Inr qs"
    "ps = filter (\<lambda>p. \<not> page_dead p) qs" using ps by (auto simp: context_pages_def)
  have "map pg_handle qs' = hs" if "rmap (\<lambda>h. dict_item (ix_pages ix) h ''page'') hs = Inr qs'" for hs qs'
    using that
  proof (induction hs arbitrary: qs')
    case (Cons h hs)
    then show ?case using pages_invD(4) [OF inv refl] by (auto simp: dict_item_eq_Inr page_ok_def)
  qed simp
  from this [OF qs(1)] have "distinct (map pg_handle qs)" by simp
  then show ?thesis unfolding qs(2) by (rule subseq_distinct_map [rotated]) (rule subseq_filter_left)
qed

definition command_sound :: "page_index \<Rightarrow> resolved_command \<Rightarrow> bool" where
  "command_sound ix rc \<longleftrightarrow> actions_sound ix (rc_page_actions rc) \<and> rc_resolved_bytes rc = action_bytes (rc_page_actions rc) \<and>
     (rc_blockers rc \<noteq> [] \<longrightarrow> rc_page_actions rc = [])"




lemma command_sound_finish:
  "actions_sound ix new \<Longrightarrow> command_sound ix (finish_selection cmd none (new, bs, action_bytes new))"
  by (simp add: command_sound_def finish_selection_def resolved_def)

lemma closure_report_total: "page_ok (pg_handle p) p \<Longrightarrow> \<exists>bs. closure_report code detail p = Inr bs"
  by (simp add: closure_report_def page_blocker_ok)

text \<open>What an offload, a prefetch and the two drops select.\<close>

definition offload_limit :: "arbitration_config \<Rightarrow> bool \<Rightarrow> control_command \<Rightarrow> int" where
  "offload_limit config shadow cmd =
     (if shadow then min (byte_limit cmd (ac_shadow_chunk_bytes config)) (ac_shadow_chunk_bytes config)
      else byte_limit cmd (ac_urgent_chunk_bytes config))"

abbreviation meta_allow_ready :: "control_command \<Rightarrow> bool" where
  "meta_allow_ready cmd \<equiv> py_bool (dict_get (cc_metadata cmd) ''allow_ready_owners'' (PBool False))"

abbreviation meta_protected :: "control_command \<Rightarrow> py_value" where
  "meta_protected cmd \<equiv> py_get (cc_metadata cmd) ''protected_context_id''"

lemma context_pages_ok:
  assumes inv: "ix_inv ix" and ps: "context_pages ix c = Inr ps" and p: "p \<in> set ps"
  shows "map_of (ix_pages ix) (pg_handle p) = Some p" "\<not> page_dead p" "page_ok (pg_handle p) p"
  using context_pagesD [OF inv ps p] pages_invD(4) [OF inv refl] by auto

lemma always: "\<exists>y. Inr x = Inr y"
  by (rule exI) (rule refl)

lemma resolve_offload_sound:
  assumes g: "reachable d rt g" and inv: "ix_inv ix"
  obtains rc cands where "resolve_offload g ix config shadow c cmd = Inr rc" and "command_sound ix rc"
    and "taken (offload_limit config shadow cmd) (\<lambda>p sel. Inr (leaf_closure_allows ix p sel)) cands [] (rc_page_actions rc)"
    and "\<forall>x \<in> set cands. offload_ok g shadow (meta_allow_ready cmd) (meta_protected cmd) x \<and> candidate_ok ix x"
proof -
  obtain ps where ps: "context_pages ix c = Inr ps" by (rule context_pages_total [OF inv])
  note ok = context_pages_ok [OF inv ps]
  obtain cs bs where cs: "\<And>C B. rfold (offload_candidate g shadow (meta_allow_ready cmd) (meta_protected cmd)) ps (C, B) =
      Inr (C @ cs, B @ bs)" and sub: "subseq (map fst cs) ps"
    and good: "\<forall>x \<in> set cs. offload_ok g shadow (meta_allow_ready cmd) (meta_protected cmd) x"
    using offload_candidates [OF g ok(3)] by blast
  let ?cands = "sort_key offload_order cs"
  have cand: "candidate_ok ix x" if x: "x \<in> set ?cands" for x
  proof -
    obtain p a where pa: "x = (p, a)" by fastforce
    then have "p \<in> set ps" using x subseq_set [OF sub] by force
    moreover have "page_movable p" "action_fits a p" "\<not> drop_refused a p"
      using good x pa by (auto simp: offload_ok_def drop_refused_def split: if_splits)
    ultimately have "index_accepts ix (action_on p a)" using movable_accepted [OF inv, of "action_on p a" p] ok by simp
    then show ?thesis using pa ok [OF \<open>p \<in> set ps\<close>] by (simp add: candidate_ok_def)
  qed
  have "distinct (map pg_handle (map fst cs))"
    using subseq_distinct_map [OF sub context_pages_distinct [OF inv ps]] .
  then have dist: "distinct (map (\<lambda>(p, a). pg_handle p) ?cands)" by (simp add: case_prod_unfold comp_def)
  obtain new bs' where sel: "select_pages (offload_limit config shadow cmd) (\<lambda>p sel. Inr (leaf_closure_allows ix p sel))
      (closure_report DESCENDANT_CLOSURE ''GPU-resident descendant is outside the selected bundle'') ?cands ([], bs, 0) =
      Inr (new, bs @ bs', action_bytes new)"
    and tk: "taken (offload_limit config shadow cmd) (\<lambda>p sel. Inr (leaf_closure_allows ix p sel)) ?cands [] new"
    and sound: "actions_sound ix new"
    by (rule select_sound [where allows = "\<lambda>p sel. Inr (leaf_closure_allows ix p sel)", OF inv cand dist always closure_report_total])
  let ?rc = "finish_selection cmd ''no_migratable_marginal_pages'' (new, bs @ bs', action_bytes new)"
  have "resolve_offload g ix config shadow c cmd = Inr ?rc"
    using ps cs [of "[]" "[]"] sel by (cases shadow) (simp_all add: resolve_offload_def Let_def offload_limit_def)
  moreover have "rc_page_actions ?rc = new" by (simp add: finish_selection_def resolved_def)
  ultimately show thesis using that [of ?rc ?cands] command_sound_finish [OF sound] tk good cand by simp
qed

lemma resolve_prefetch_sound:
  assumes inv: "ix_inv ix"
  obtains rc cands where "resolve_prefetch ix config c cmd = Inr rc" and "command_sound ix rc"
    and "taken (byte_limit cmd (ac_urgent_chunk_bytes config)) (prefetch_closure_allows ix) cands [] (rc_page_actions rc)"
    and "\<forall>x \<in> set cands. candidate_ok ix x \<and> snd x = START_H2D \<and> pg_residency (fst x) = CPU_ONLY"
proof -
  obtain ps where ps: "context_pages ix c = Inr ps" by (rule context_pages_total [OF inv])
  note ok = context_pages_ok [OF inv ps]
  obtain cs bs where cs: "\<And>C B. rfold prefetch_candidate ps (C, B) = Inr (C @ cs, B @ bs)"
    and sub: "subseq (map id cs) ps" and good: "\<forall>p \<in> set cs. pg_residency p = CPU_ONLY \<and> transfer_idle p \<and> pg_sealed p"
    using prefetch_candidates [OF ok(3)] by blast
  let ?cands = "map (\<lambda>p. (p, START_H2D)) (pages_down cs)"
  have known: "p \<in> set ps" if "(p, a) \<in> set ?cands" for p a using that subseq_set [OF sub] by auto
  have cand: "candidate_ok ix x" if x: "x \<in> set ?cands" for x
  proof -
    obtain p where p: "x = (p, START_H2D)" "p \<in> set cs" using x by auto
    then have k: "p \<in> set ps" using x known by blast
    have "index_accepts ix (action_on p START_H2D)"
      using index_accepts_iff [of ix "action_on p START_H2D"] live_core [OF inv ok(1,2) [OF k]] good p(2)
      by (simp add: core_of_def transfer_idle_def)
    then show ?thesis using p ok [OF k] by (simp add: candidate_ok_def)
  qed
  have "distinct (map pg_handle cs)" using subseq_distinct_map [OF sub context_pages_distinct [OF inv ps]] by simp
  then have dist: "distinct (map (\<lambda>(p, a). pg_handle p) ?cands)" by (simp add: comp_def pages_down_def)
  have total: "\<exists>b. prefetch_closure_allows ix p sel = Inr b" if "(p, a) \<in> set ?cands" for p a sel
    using prefetch_allows_total [OF inv ok(1,2) [OF known [OF that]], of "{}" sel] by (auto simp: prefetch_closure_allows_def)
  obtain new bs' where sel: "select_pages (byte_limit cmd (ac_urgent_chunk_bytes config)) (prefetch_closure_allows ix)
      (closure_report ANCESTOR_CLOSURE ''GPU ancestor closure is incomplete'') ?cands ([], bs, 0) =
      Inr (new, bs @ bs', action_bytes new)"
    and tk: "taken (byte_limit cmd (ac_urgent_chunk_bytes config)) (prefetch_closure_allows ix) ?cands [] new"
    and sound: "actions_sound ix new"
    by (rule select_sound [OF inv cand dist total closure_report_total])
  let ?rc = "finish_selection cmd ''no_cpu_pages'' (new, bs @ bs', action_bytes new)"
  have "resolve_prefetch ix config c cmd = Inr ?rc"
    using ps cs [of "[]" "[]"] sel by (simp add: resolve_prefetch_def Let_def)
  moreover have "rc_page_actions ?rc = new" by (simp add: finish_selection_def resolved_def)
  ultimately show thesis using that [of ?rc ?cands] command_sound_finish [OF sound] tk good cand by auto
qed











section \<open>The promises\<close>



lemma taken_nth:
  assumes "taken limit allows cands [] new" and "i < length new"
  obtains p a where "(p, a) \<in> set cands" and "new ! i = action_on p a"
    and "allows p (rpa_handle ` set (take i new)) = Inr True" and "action_bytes (take i new) < limit"
  using assms unfolding taken_def by auto

text \<open>C10. An offload (or a shadow copy) resolved without a bundle evicts leaves first. Each page it selects can
  be moved, none of its owners is protected, unknown, running or (unless the command allows it) ready, and
  every page below it that is still on the GPU was selected before it; a shadow copy only starts copies
  to the host; and what was selected before each page is below the byte limit, so that the limit is
  exceeded by at most the last page.\<close>

theorem resolve_offload_leaf_first:
  assumes g: "reachable d rt g" and ix: "rtranclp ix_step page_index_init ix"
  shows "\<exists>rc. resolve_offload g ix config shadow c cmd = Inr rc \<and>
    (\<forall>i < length (rc_page_actions rc). \<exists>p a.
       rc_page_actions rc ! i = action_on p a \<and> map_of (ix_pages ix) (pg_handle p) = Some p \<and> page_movable p \<and>
       owners_idle g (meta_allow_ready cmd) (meta_protected cmd) p \<and>
       a \<in> (if shadow then {START_D2H} else {START_D2H, COMMIT_CPU}) \<and>
       (\<forall>k. (pg_handle p, k) \<in> (live_below ix)\<^sup>+ \<and> resident_at ix k \<longrightarrow>
          k \<in> rpa_handle ` set (take i (rc_page_actions rc))) \<and>
       action_bytes (take i (rc_page_actions rc)) < offload_limit config shadow cmd)"
proof -
  have inv: "ix_inv ix" by (rule ix_reachable_inv [OF ix])
  obtain rc cands where rc: "resolve_offload g ix config shadow c cmd = Inr rc"
    and tk: "taken (offload_limit config shadow cmd) (\<lambda>p sel. Inr (leaf_closure_allows ix p sel)) cands [] (rc_page_actions rc)"
    and ok: "\<forall>x \<in> set cands. offload_ok g shadow (meta_allow_ready cmd) (meta_protected cmd) x \<and> candidate_ok ix x"
    by (rule resolve_offload_sound [OF g inv])
  show ?thesis
  proof (rule exI [of _ rc], rule conjI [OF rc], intro allI impI)
    fix i
    assume i: "i < length (rc_page_actions rc)"
    obtain p a where pa: "(p, a) \<in> set cands" "rc_page_actions rc ! i = action_on p a"
      "leaf_closure_allows ix p (rpa_handle ` set (take i (rc_page_actions rc)))"
      "action_bytes (take i (rc_page_actions rc)) < offload_limit config shadow cmd"
      using taken_nth [OF tk i] by auto
    have f: "page_movable p" "owners_idle g (meta_allow_ready cmd) (meta_protected cmd) p"
      "a \<in> (if shadow then {START_D2H} else {START_D2H, COMMIT_CPU})" "map_of (ix_pages ix) (pg_handle p) = Some p"
      using ok pa(1) by (auto simp: offload_ok_def candidate_ok_def)
    show "\<exists>p a. rc_page_actions rc ! i = action_on p a \<and> map_of (ix_pages ix) (pg_handle p) = Some p \<and> page_movable p \<and>
       owners_idle g (meta_allow_ready cmd) (meta_protected cmd) p \<and>
       a \<in> (if shadow then {START_D2H} else {START_D2H, COMMIT_CPU}) \<and>
       (\<forall>k. (pg_handle p, k) \<in> (live_below ix)\<^sup>+ \<and> resident_at ix k \<longrightarrow>
          k \<in> rpa_handle ` set (take i (rc_page_actions rc))) \<and>
       action_bytes (take i (rc_page_actions rc)) < offload_limit config shadow cmd"
      using leaf_closure_sound [OF inv f(4) pa(3)]
      by (intro exI [of _ p] exI [of _ a] conjI allI impI pa f) blast
  qed
qed

text \<open>A prefetch resolved without a bundle loads roots first: each page it selects is on the host only and
  starts a transfer to the GPU, and every page above it is on the GPU or was selected before it; what was
  selected before each page is below the byte limit. The walk up the parents, which the code does not
  guard, ends for every reachable index.\<close>

theorem resolve_prefetch_root_first:
  assumes ix: "rtranclp ix_step page_index_init ix"
  shows "\<exists>rc. resolve_prefetch ix config c cmd = Inr rc \<and>
    (\<forall>i < length (rc_page_actions rc). \<exists>p.
       rc_page_actions rc ! i = action_on p START_H2D \<and> map_of (ix_pages ix) (pg_handle p) = Some p \<and>
       pg_residency p = CPU_ONLY \<and>
       (\<forall>k. (pg_handle p, k) \<in> (above ix)\<^sup>+ \<longrightarrow>
          resident_at ix k \<or> k \<in> rpa_handle ` set (take i (rc_page_actions rc))) \<and>
       action_bytes (take i (rc_page_actions rc)) < byte_limit cmd (ac_urgent_chunk_bytes config))"
proof -
  have inv: "ix_inv ix" by (rule ix_reachable_inv [OF ix])
  obtain rc cands where rc: "resolve_prefetch ix config c cmd = Inr rc"
    and tk: "taken (byte_limit cmd (ac_urgent_chunk_bytes config)) (prefetch_closure_allows ix) cands [] (rc_page_actions rc)"
    and ok: "\<forall>x \<in> set cands. candidate_ok ix x \<and> snd x = START_H2D \<and> pg_residency (fst x) = CPU_ONLY"
    by (rule resolve_prefetch_sound [OF inv])
  show ?thesis
  proof (rule exI [of _ rc], rule conjI [OF rc], intro allI impI)
    fix i
    assume i: "i < length (rc_page_actions rc)"
    let ?sel = "rpa_handle ` set (take i (rc_page_actions rc))"
    obtain p a where pa: "(p, a) \<in> set cands" "rc_page_actions rc ! i = action_on p a" "prefetch_closure_allows ix p ?sel = Inr True"
      "action_bytes (take i (rc_page_actions rc)) < byte_limit cmd (ac_urgent_chunk_bytes config)"
      by (rule taken_nth [OF tk i])
    have f: "a = START_H2D" "pg_residency p = CPU_ONLY" "map_of (ix_pages ix) (pg_handle p) = Some p" "\<not> page_dead p"
      using ok pa(1) by (auto simp: candidate_ok_def)
    have "\<forall>k. (pg_handle p, k) \<in> (above ix)\<^sup>+ \<longrightarrow> resident_at ix k \<or> k \<in> ?sel"
      using prefetch_allows_total [OF inv f(3,4), of "{}" ?sel] pa(3)
      unfolding prefetch_closure_allows_def by auto
    with pa f show "\<exists>p. rc_page_actions rc ! i = action_on p START_H2D \<and> map_of (ix_pages ix) (pg_handle p) = Some p \<and>
       pg_residency p = CPU_ONLY \<and> (\<forall>k. (pg_handle p, k) \<in> (above ix)\<^sup>+ \<longrightarrow> resident_at ix k \<or> k \<in> ?sel) \<and>
       action_bytes (take i (rc_page_actions rc)) < byte_limit cmd (ac_urgent_chunk_bytes config)"
      by (intro exI [of _ p] conjI) simp_all
  qed
qed

section \<open>Concrete resolutions\<close>

definition offload_cmd :: control_command where
  "offload_cmd = \<lparr>cc_command_id = ''k1'', cc_kind = OFFLOAD_CONTEXT, cc_created_ts_ms = 9, cc_context_id = Some ''ctx-p'',
     cc_context_epoch = Some 1, cc_target_bytes = 0, cc_priority = 0, cc_deadline_ms = PosInf, cc_queue_class = URGENT,
     cc_metadata = [], cc_physical_bundle = None, cc_target_handles = []\<rparr>"

lemma demo_owner_context:
  "\<exists>x. map_of (cg_contexts demo_graph) ''ctx-p'' = Some x \<and> cx_epoch x = 1 \<and> cx_invocation_ids x = {''p''}"
  unfolding demo_graph_def demo_events_def by (simp add: graph_eval)

lemma demo_owner: "page_has_active_owner demo_graph p False PNone = Inr False" if "map fst (pg_owner_contexts p) = [''ctx-p'']"
proof -
  obtain x where x: "map_of (cg_contexts demo_graph) ''ctx-p'' = Some x" "cx_invocation_ids x = {''p''}"
    using demo_owner_context by blast
  obtain r where r: "map_of (cg_invocations demo_graph) ''p'' = Some r" "iv_state r = WAIT_CHILD"
    using demo_lookups(1) by blast
  show ?thesis using x r that by (simp add: page_has_active_owner_def dict_item_def)
qed

lemma offload_pages:
  "context_pages bundle_ix ''ctx-p'' = Inr [base_page, leaf_page]"
  "page_transfer_blockers base_page = Inr []" "page_transfer_blockers leaf_page = Inr []"
  "page_has_active_owner demo_graph base_page False PNone = Inr False"
  "page_has_active_owner demo_graph leaf_page False PNone = Inr False"
  by (simp_all add: context_pages_def bundle_ix_pages dict_item_def base_page_def leaf_page_def new_page_def
      less_eq_page_handle_def demo_owner page_transfer_blockers_def page_blockers_def page_obstacles_def transfer_idle_def)

lemma offload_closures:
  "leaf_closure_allows bundle_ix leaf_page {}" "leaf_closure_allows bundle_ix base_page {PageHandle 2 0}"
  by (simp_all add: leaf_closure_allows_def leaf_allows.simps bundle_ix_pages base_page_def leaf_page_def new_page_def)

lemma offload_result:
  "resolve_offload demo_graph bundle_ix arbitration_config_default False ''ctx-p'' offload_cmd =
     Inr (resolved offload_cmd [action_on leaf_page START_D2H, action_on base_page START_D2H] 96 ''resolved'' [] [])"
proof -
  have meta: "py_bool (dict_get (cc_metadata offload_cmd) ''allow_ready_owners'' (PBool False)) = False"
    "py_get (cc_metadata offload_cmd) ''protected_context_id'' = PNone"
    by (simp_all add: offload_cmd_def dict_get_def py_get_def)
  have limit: "byte_limit offload_cmd (ac_urgent_chunk_bytes arbitration_config_default) = 268435456"
    by (simp add: byte_limit_def offload_cmd_def arbitration_config_default_def)
  have fields: "pg_handle base_page = PageHandle 1 0" "pg_handle leaf_page = PageHandle 2 0" "pg_residency base_page = GPU_ONLY"
    "pg_residency leaf_page = GPU_ONLY" "pg_size_bytes base_page = 64" "pg_size_bytes leaf_page = 32"
    "pg_radix_depth base_page = 0" "pg_radix_depth leaf_page = 1"
    by (simp_all add: base_page_def leaf_page_def new_page_def)
  have act: "page_action base_page a = Inr (action_on base_page a)" "page_action leaf_page a = Inr (action_on leaf_page a)" for a
    by (simp_all add: page_action_def resolved_page_action_post_init_def fields)
  have cands: "rfold (offload_candidate demo_graph False False PNone) [base_page, leaf_page] ([], []) =
      Inr ([(base_page, START_D2H), (leaf_page, START_D2H)], [])"
    by (simp add: offload_candidate_def offload_pages fields)
  have "sort_key offload_order [(base_page, START_D2H), (leaf_page, START_D2H)] = [(leaf_page, START_D2H), (base_page, START_D2H)]"
    by (simp add: offload_order_def fields)
  then show ?thesis
    unfolding resolve_offload_def Let_def offload_pages(1) rbind_simps meta limit cands if_False prod.case
    by (simp add: act offload_closures fields finish_selection_def)
qed


theorem resolve_offload_leaf_first_witness:
  "\<exists>rc. resolve_offload demo_graph bundle_ix arbitration_config_default False ''ctx-p'' offload_cmd = Inr rc \<and>
     length (rc_page_actions rc) = 2 \<and>
     (\<forall>k. (PageHandle 1 0, k) \<in> (live_below bundle_ix)\<^sup>+ \<and> resident_at bundle_ix k \<longrightarrow> k = PageHandle 2 0)"
proof -
  let ?as = "[action_on leaf_page START_D2H, action_on base_page START_D2H]"
  have h: "pg_handle leaf_page = PageHandle 2 0" "pg_handle base_page = PageHandle 1 0"
    by (simp_all add: leaf_page_def base_page_def new_page_def)
  obtain rc where rc: "resolve_offload demo_graph bundle_ix arbitration_config_default False ''ctx-p'' offload_cmd = Inr rc"
    and first: "\<forall>i < length (rc_page_actions rc). \<exists>p a. rc_page_actions rc ! i = action_on p a \<and>
      (\<forall>k. (pg_handle p, k) \<in> (live_below bundle_ix)\<^sup>+ \<and> resident_at bundle_ix k \<longrightarrow>
         k \<in> rpa_handle ` set (take i (rc_page_actions rc)))"
    using resolve_offload_leaf_first [OF demo_graph_reachable bundle_ix_reachable,
        of arbitration_config_default False "''ctx-p''" offload_cmd] by meson
  have as: "rc_page_actions rc = ?as" using rc by (auto simp: offload_result resolved_def)
  obtain p a where "?as ! 1 = action_on p a" "\<forall>k. (pg_handle p, k) \<in> (live_below bundle_ix)\<^sup>+ \<and> resident_at bundle_ix k \<longrightarrow>
      k \<in> rpa_handle ` set (take 1 ?as)" using first [rule_format, of 1] unfolding as by auto
  then show ?thesis using rc as h by (intro exI [of _ rc]) auto
qed

definition host_ix1 :: page_index where
  "host_ix1 = projr (register_page (PageHandle 1 0) 64 CPU_ONLY 0 None True 0 bundle_ix1)"

definition host_ix2 :: page_index where
  "host_ix2 = projr (register_page (PageHandle 2 0) 32 CPU_ONLY 1 (Some (PageHandle 1 0)) True 0 host_ix1)"

definition host_ix :: page_index where
  "host_ix = projr (bind_pages ''ctx-p'' 1 [PageHandle 1 0, PageHandle 2 0] False host_ix2)"

lemmas host_ix_defs = host_ix_def host_ix2_def host_ix1_def bundle_ix1_def

lemma host_ix_reachable: "rtranclp ix_step page_index_init host_ix"
proof -
  have ok: "register_context ''ctx-p'' ''w'' 1 page_index_init = Inr bundle_ix1"
    "register_page (PageHandle 1 0) 64 CPU_ONLY 0 None True 0 bundle_ix1 = Inr host_ix1"
    "register_page (PageHandle 2 0) 32 CPU_ONLY 1 (Some (PageHandle 1 0)) True 0 host_ix1 = Inr host_ix2"
    "bind_pages ''ctx-p'' 1 [PageHandle 1 0, PageHandle 2 0] False host_ix2 = Inr host_ix"
    by (simp_all add: host_ix_defs index_eval)
  have "ix_step page_index_init bundle_ix1" by (rule ix_step.register_context [OF ok(1)]) (simp add: index_eval)
  moreover have "ix_step bundle_ix1 host_ix1" by (rule ix_step.register_page [OF ok(2)]) simp
  moreover have "ix_step host_ix1 host_ix2" by (rule ix_step.register_page [OF ok(3)]) simp
  moreover have "ix_step host_ix2 host_ix" by (rule ix_step.bind_pages [OF ok(4)])
  ultimately show ?thesis by (meson rtranclp.rtrancl_into_rtrancl rtranclp.rtrancl_refl)
qed

definition host_leaf :: page_record where
  "host_leaf = (new_page (PageHandle 2 0) 32 CPU_ONLY 1 (Some (PageHandle 1 0)) True 0)
     \<lparr>pg_owner_contexts := [(''ctx-p'', 1)]\<rparr>"

definition host_base :: page_record where
  "host_base = (new_page (PageHandle 1 0) 64 CPU_ONLY 0 None True 0)
     \<lparr>pg_owner_contexts := [(''ctx-p'', 1)], pg_children := {PageHandle 2 0}\<rparr>"

lemma host_pages:
  "ix_pages host_ix = [(PageHandle 1 0, host_base), (PageHandle 2 0, host_leaf)]"
  "context_pages host_ix ''ctx-p'' = Inr [host_base, host_leaf]"
  by (simp_all add: host_ix_defs index_eval host_base_def host_leaf_def context_pages_def dict_item_def less_eq_page_handle_def
      context_page_set_def)

lemma prefetch_result:
  "resolve_prefetch host_ix arbitration_config_default ''ctx-p'' offload_cmd =
     Inr (resolved offload_cmd [action_on host_base START_H2D, action_on host_leaf START_H2D] 96 ''resolved'' [] [])"
proof -
  have limit: "byte_limit offload_cmd (ac_urgent_chunk_bytes arbitration_config_default) = 268435456"
    by (simp add: byte_limit_def offload_cmd_def arbitration_config_default_def)
  have cands: "rfold prefetch_candidate [host_base, host_leaf] ([], []) = Inr ([host_base, host_leaf], [])"
    by (simp add: prefetch_candidate_def host_base_def host_leaf_def new_page_def transfer_idle_def)
  have order: "pages_down [host_base, host_leaf] = [host_base, host_leaf]"
    by (simp add: pages_down_def host_base_def host_leaf_def new_page_def)
  have "prefetch_closure_allows host_ix host_base {} = Inr True" "prefetch_closure_allows host_ix host_leaf {PageHandle 1 0} = Inr True"
    by (simp_all add: prefetch_closure_allows_def prefetch_allows.simps host_pages host_base_def host_leaf_def new_page_def)
  moreover have "page_action host_base a = Inr (action_on host_base a)" "page_action host_leaf a = Inr (action_on host_leaf a)" for a
    by (simp_all add: page_action_def resolved_page_action_post_init_def host_base_def host_leaf_def new_page_def)
  moreover have "pg_handle host_base = PageHandle 1 0" "pg_size_bytes host_base = 64" "pg_size_bytes host_leaf = 32"
    by (simp_all add: host_base_def host_leaf_def new_page_def)
  ultimately show ?thesis
    unfolding resolve_prefetch_def Let_def host_pages(2) rbind_simps limit cands prod.case order
    by (simp add: finish_selection_def)
qed

theorem resolve_prefetch_root_first_witness:
  "\<exists>rc. resolve_prefetch host_ix arbitration_config_default ''ctx-p'' offload_cmd = Inr rc \<and>
     map rpa_handle (rc_page_actions rc) = [PageHandle 1 0, PageHandle 2 0] \<and>
     (\<forall>k. (PageHandle 2 0, k) \<in> (above host_ix)\<^sup>+ \<longrightarrow> resident_at host_ix k \<or> k = PageHandle 1 0)"
proof -
  let ?as = "[action_on host_base START_H2D, action_on host_leaf START_H2D]"
  have h: "pg_handle host_leaf = PageHandle 2 0" "pg_handle host_base = PageHandle 1 0"
    by (simp_all add: host_leaf_def host_base_def new_page_def)
  obtain rc where rc: "resolve_prefetch host_ix arbitration_config_default ''ctx-p'' offload_cmd = Inr rc"
    and first: "\<forall>i < length (rc_page_actions rc). \<exists>p. rc_page_actions rc ! i = action_on p START_H2D \<and>
      (\<forall>k. (pg_handle p, k) \<in> (above host_ix)\<^sup>+ \<longrightarrow> resident_at host_ix k \<or> k \<in> rpa_handle ` set (take i (rc_page_actions rc)))"
    using resolve_prefetch_root_first [OF host_ix_reachable, of arbitration_config_default "''ctx-p''" offload_cmd] by meson
  have as: "rc_page_actions rc = ?as" using rc by (auto simp: prefetch_result resolved_def)
  obtain p where "?as ! 1 = action_on p START_H2D" "\<forall>k. (pg_handle p, k) \<in> (above host_ix)\<^sup>+ \<longrightarrow>
      resident_at host_ix k \<or> k \<in> rpa_handle ` set (take 1 ?as)" using first [rule_format, of 1] unfolding as by auto
  then show ?thesis using rc as h by (intro exI [of _ rc]) auto
qed

end
