(* ===== verification/Lock_Service.thy ===== *)
theory Lock_Service
  imports Page_Closure Py_Data
begin

text \<open>
  \<open>runtime/lock_service.py\<close>: which requests hold the engine's locks. The previewer projects what
  would become migratable if some requests were removed, from the lock provenance the adapter
  observed; the ledger records when the engine last served each request and classifies locked bytes
  by how recent that service is.

  The pages that \<open>engine_locked_gpu_pages\<close> returns are objects of the index; they are looked up by
  their handle. How Python prints a float with the format \<open>g\<close> is a parameter.
\<close>

section \<open>Attributed locks\<close>

record locked_extent =
  lx_handle :: page_handle
  lx_size_bytes :: int
  lx_engine_lock_ref :: int
  lx_blocker_request_ids :: "string list"

definition locked_extent_post_init :: "locked_extent \<Rightarrow> locked_extent result" where
  "locked_extent_post_init e =
     (if lx_size_bytes e \<le> 0 then Inl (ValueError ''locked extent size must be positive'')
      else if lx_engine_lock_ref e \<le> 0
      then Inl (ValueError ''locked extent requires a positive engine lock ref'')
      else if py_sorted_set (lx_blocker_request_ids e) \<noteq> lx_blocker_request_ids e
      then Inl (ValueError ''blocker request ids must be sorted and unique'')
      else Inr e)"

record unlock_preview =
  tu_request_ids :: "string list"
  tu_page_revision :: int
  tu_topology_revision :: int
  tu_exact :: bool
  tu_reason :: string
  tu_path_error_count :: int
  tu_provenance_extent_count :: int
  tu_selected_blocker_extent_count :: int
  tu_attribution_gap_bytes :: int
  tu_baseline_engine_locked_bytes :: int
  tu_projected_engine_locked_bytes :: int
  tu_projected_engine_lock_release_bytes :: int
  tu_baseline_migratable_bytes :: int
  tu_projected_migratable_bytes :: int
  tu_lock_ref_zeroed_bytes :: int
  tu_newly_migratable_bytes :: int
  tu_lock_ref_zeroed_handles :: "page_handle list"
  tu_newly_migratable_handles :: "page_handle list"

definition closure_amplification :: "unlock_preview \<Rightarrow> real" where
  "closure_amplification v =
     (if tu_lock_ref_zeroed_bytes v \<le> 0 then 0
      else of_int (tu_newly_migratable_bytes v) / of_int (tu_lock_ref_zeroed_bytes v))"

definition handle_label :: "page_handle \<Rightarrow> string" where
  "handle_label h = str_int (page_id h) @ '':'' @ str_int (allocation_generation h)"

definition unlock_audit_fields :: "unlock_preview \<Rightarrow> (string, py_value) dict" where
  "unlock_audit_fields v =
     [(''preview_request_ids'', PList (map PStr (tu_request_ids v))),
      (''preview_page_revision'', PInt (tu_page_revision v)),
      (''preview_topology_revision'', PInt (tu_topology_revision v)),
      (''preview_exact'', PBool (tu_exact v)),
      (''preview_reason'', PStr (tu_reason v)),
      (''preview_path_error_count'', PInt (tu_path_error_count v)),
      (''preview_provenance_extent_count'', PInt (tu_provenance_extent_count v)),
      (''preview_selected_blocker_extent_count'', PInt (tu_selected_blocker_extent_count v)),
      (''preview_attribution_gap_bytes'', PInt (tu_attribution_gap_bytes v)),
      (''preview_baseline_engine_locked_bytes'', PInt (tu_baseline_engine_locked_bytes v)),
      (''preview_projected_engine_locked_bytes'', PInt (tu_projected_engine_locked_bytes v)),
      (''preview_projected_engine_lock_release_bytes'', PInt (tu_projected_engine_lock_release_bytes v)),
      (''preview_baseline_migratable_bytes'', PInt (tu_baseline_migratable_bytes v)),
      (''preview_projected_migratable_bytes'', PInt (tu_projected_migratable_bytes v)),
      (''preview_lock_ref_zeroed_bytes'', PInt (tu_lock_ref_zeroed_bytes v)),
      (''preview_newly_migratable_bytes'', PInt (tu_newly_migratable_bytes v)),
      (''preview_closure_amplification'', PFloat (closure_amplification v)),
      (''preview_lock_ref_zeroed_handles'', PList (map (PStr \<circ> handle_label) (tu_lock_ref_zeroed_handles v))),
      (''preview_newly_migratable_handles'', PList (map (PStr \<circ> handle_label) (tu_newly_migratable_handles v)))]"

section \<open>The tentative unlock\<close>

text \<open>The first extent of each handle, and the handles that occur again.\<close>

definition index_extent ::
  "locked_extent \<Rightarrow> (page_handle, locked_extent) dict \<times> page_handle set
   \<Rightarrow> (page_handle, locked_extent) dict \<times> page_handle set" where
  "index_extent e = (\<lambda>(by_handle, duplicates).
     if dict_in (lx_handle e) by_handle then (by_handle, insert (lx_handle e) duplicates)
     else (AList.update (lx_handle e) e by_handle, duplicates))"

definition locked_pages :: "page_index \<Rightarrow> page_handle list \<Rightarrow> (page_handle, page_record) dict" where
  "locked_pages ix handles =
     fold (\<lambda>h d. case map_of (ix_pages ix) h of None \<Rightarrow> d | Some p \<Rightarrow> AList.update (pg_handle p) p d) handles []"

text \<open>The gap of a page, the projected lock references, and how many pages a selected request blocks.\<close>

type_synonym unlock_acc = "(page_handle, int) dict \<times> (page_handle, int) dict \<times> int"

definition attribute_page ::
  "string set \<Rightarrow> (page_handle, locked_extent) dict \<Rightarrow> page_handle \<times> page_record \<Rightarrow> unlock_acc \<Rightarrow> unlock_acc" where
  "attribute_page selected by_handle = (\<lambda>(h, p) (gaps, overrides, count).
     case map_of by_handle h of
       None \<Rightarrow> (AList.update h (pg_size_bytes p) gaps, overrides, count)
     | Some e \<Rightarrow>
         let matches_page = (lx_size_bytes e = pg_size_bytes p \<and> lx_engine_lock_ref e = pg_engine_lock_ref p);
             fully_attributed = (lx_blocker_request_ids e \<noteq> [] \<and>
               lx_engine_lock_ref e = int (length (lx_blocker_request_ids e)));
             selected_blockers = selected \<inter> set (lx_blocker_request_ids e);
             count' = (if selected_blockers \<noteq> {} then count + 1 else count) in
         if \<not> matches_page \<or> \<not> fully_attributed
         then (AList.update h (pg_size_bytes p) gaps, overrides, count')
         else if selected_blockers \<noteq> {}
         then (gaps, AList.update h (pg_engine_lock_ref p - int (card selected_blockers)) overrides, count')
         else (gaps, overrides, count'))"

definition duplicate_gaps :: "(page_handle, page_record) dict \<Rightarrow> page_handle set \<Rightarrow> (page_handle, int) dict" where
  "duplicate_gaps locked duplicates =
     List.map_filter (\<lambda>h. map_option (\<lambda>p. (h, pg_size_bytes p)) (map_of locked h)) (sorted_list_of_set duplicates)"

definition unlock_reason :: "bool \<Rightarrow> int \<Rightarrow> int \<Rightarrow> string" where
  "unlock_reason exact count newly =
     (if \<not> exact then ''provenance_incomplete''
      else if count = 0 then ''no_selected_blocker''
      else if newly = 0 then ''lock_release_without_migratable_closure''
      else ''projected_unlock'')"

definition tentative_unlock ::
  "page_index \<Rightarrow> locked_extent list \<Rightarrow> string list \<Rightarrow> int \<Rightarrow> (unlock_preview \<times> page_index) result" where
  "tentative_unlock ix extents request_ids path_errors =
     (let selected_ids = py_sorted_set request_ids in
      if selected_ids = [] \<or> length selected_ids \<noteq> length request_ids
      then Inl (ValueError ''tentative unlock requires unique request ids'')
      else if path_errors < 0 then Inl (ValueError ''path error count must be non-negative'')
      else
        let (by_handle, duplicates) = fold index_extent extents ([], {}) in
        rbind (engine_locked_gpu_pages ix) (\<lambda>(handles, ix1).
          let locked = locked_pages ix1 handles;
              (gaps, overrides, count) =
                fold (attribute_page (set selected_ids) by_handle) locked (duplicate_gaps locked duplicates, [], 0);
              stale = sum_list (map (\<lambda>(h, e). lx_size_bytes e) (filter (\<lambda>(h, e). \<not> dict_in h locked) by_handle)) in
          rbind (preview_engine_lock_release overrides ix1) (\<lambda>(u, ix2).
            let gap = sum_list (map snd gaps) + stale;
                exact = (path_errors = 0 \<and> gap = 0 \<and> duplicates = {}) in
            Inr (\<lparr>tu_request_ids = selected_ids,
                  tu_page_revision = up_page_revision u,
                  tu_topology_revision = up_topology_revision u,
                  tu_exact = exact,
                  tu_reason = unlock_reason exact count (up_newly_migratable_bytes u),
                  tu_path_error_count = path_errors,
                  tu_provenance_extent_count = int (length extents),
                  tu_selected_blocker_extent_count = count,
                  tu_attribution_gap_bytes = gap,
                  tu_baseline_engine_locked_bytes = kb_engine_locked_bytes (up_baseline u),
                  tu_projected_engine_locked_bytes = kb_engine_locked_bytes (up_projected u),
                  tu_projected_engine_lock_release_bytes =
                    max 0 (kb_engine_locked_bytes (up_baseline u) - kb_engine_locked_bytes (up_projected u)),
                  tu_baseline_migratable_bytes = kb_migratable_bytes (up_baseline u),
                  tu_projected_migratable_bytes = kb_migratable_bytes (up_projected u),
                  tu_lock_ref_zeroed_bytes = up_lock_ref_zeroed_bytes u,
                  tu_newly_migratable_bytes = up_newly_migratable_bytes u,
                  tu_lock_ref_zeroed_handles = up_lock_ref_zeroed_handles u,
                  tu_newly_migratable_handles = up_newly_migratable_handles u\<rparr>, ix2))))"

section \<open>The service ledger\<close>

record service_record =
  sv_request_id :: string
  sv_workflow_id :: string
  sv_invocation_id :: string
  sv_context_id :: string
  sv_first_selected_ts_ms :: real
  sv_last_selected_ts_ms :: real
  sv_last_completed_service_ts_ms :: "real option"
  sv_last_service_phase :: "string option"
  sv_completed_service_count :: int

text \<open>\<open>RequestServiceLedger._records\<close>.\<close>

type_synonym service_ledger = "(string, service_record) dict"

definition validate_identity :: "string list \<Rightarrow> unit result" where
  "validate_identity values =
     (if [] \<in> set values then Inl (ValueError ''request service identities must be non-empty'') else Inr ())"

text \<open>Every real is finite.\<close>

definition validate_ts :: "real \<Rightarrow> unit result" where
  "validate_ts ts =
     (if ts < 0 then Inl (ValueError ''request service timestamp must be finite and non-negative'') else Inr ())"

definition observe_selected ::
  "string \<Rightarrow> string \<Rightarrow> string \<Rightarrow> string \<Rightarrow> real \<Rightarrow> service_ledger \<Rightarrow> service_ledger result" where
  "observe_selected r w i c ts ledger =
     rbind (validate_identity [r, w, i, c]) (\<lambda>_.
     rbind (validate_ts ts) (\<lambda>_.
       case map_of ledger r of
         None \<Rightarrow>
           Inr (AList.update r \<lparr>sv_request_id = r, sv_workflow_id = w, sv_invocation_id = i, sv_context_id = c,
             sv_first_selected_ts_ms = ts, sv_last_selected_ts_ms = ts, sv_last_completed_service_ts_ms = None,
             sv_last_service_phase = None, sv_completed_service_count = 0\<rparr> ledger)
       | Some previous \<Rightarrow>
           if sv_workflow_id previous \<noteq> w \<or> sv_invocation_id previous \<noteq> i \<or> sv_context_id previous \<noteq> c
           then Inl (ValueError ''request service identity changed after selection'')
           else if ts < sv_last_selected_ts_ms previous
           then Inl (ValueError ''request selection time moved backwards'')
           else Inr (AList.update r (previous\<lparr>sv_last_selected_ts_ms := ts\<rparr>) ledger)))"

definition observe_completed :: "string \<Rightarrow> real \<Rightarrow> string \<Rightarrow> service_ledger \<Rightarrow> service_ledger result" where
  "observe_completed r ts phase ledger =
     rbind (validate_ts ts) (\<lambda>_.
       if phase = [] then Inl (ValueError ''GPU service phase must be non-empty'')
       else case map_of ledger r of
         None \<Rightarrow> Inl (KeyError (''GPU service completed before selection: '' @ r))
       | Some previous \<Rightarrow>
           if ts < sv_last_selected_ts_ms previous \<or>
              (case sv_last_completed_service_ts_ms previous of None \<Rightarrow> False | Some t \<Rightarrow> ts < t)
           then Inl (ValueError ''GPU service completion time moved backwards'')
           else Inr (AList.update r (previous\<lparr>sv_last_completed_service_ts_ms := Some ts,
             sv_last_service_phase := Some phase,
             sv_completed_service_count := sv_completed_service_count previous + 1\<rparr>) ledger))"

definition ledger_forget :: "string \<Rightarrow> service_ledger \<Rightarrow> service_ledger" where
  "ledger_forget r ledger = AList.delete r ledger"

definition ledger_clear :: "service_ledger \<Rightarrow> service_ledger" where
  "ledger_clear ledger = []"

definition ledger_tracks :: "string \<Rightarrow> service_ledger \<Rightarrow> bool" where
  "ledger_tracks r ledger = dict_in r ledger"

definition progress_record :: "string \<Rightarrow> service_ledger \<Rightarrow> service_record option" where
  "progress_record r ledger = map_of ledger r"

definition status_of :: "service_ledger \<Rightarrow> real \<Rightarrow> real \<Rightarrow> string \<Rightarrow> string" where
  "status_of ledger now window r =
     (case map_of ledger r of
        None \<Rightarrow> ''unknown''
      | Some rec \<Rightarrow>
          (case sv_last_completed_service_ts_ms rec of
             Some t \<Rightarrow> if now - t \<le> window then ''recent'' else ''stale''
           | None \<Rightarrow> if now - sv_first_selected_ts_ms rec \<le> window then ''warming'' else ''stale''))"

definition service_status :: "service_ledger \<Rightarrow> string \<Rightarrow> real \<Rightarrow> real \<Rightarrow> string result" where
  "service_status ledger r now window =
     rbind (validate_ts now) (\<lambda>_.
       if window \<le> 0 then Inl (ValueError ''service status window must be positive'')
       else Inr (status_of ledger now window r))"

definition stale_for_ms :: "service_ledger \<Rightarrow> string \<Rightarrow> real \<Rightarrow> real result" where
  "stale_for_ms ledger r now =
     rbind (validate_ts now) (\<lambda>_.
       case map_of ledger r of
         None \<Rightarrow> Inr 0
       | Some rec \<Rightarrow>
           Inr (max 0 (now - (case sv_last_completed_service_ts_ms rec of
             Some t \<Rightarrow> t | None \<Rightarrow> sv_first_selected_ts_ms rec))))"

section \<open>Diagnostics\<close>

record window_diagnostics =
  wd_window_ms :: real
  wd_recently_served_request_count :: int
  wd_not_served_request_count :: int
  wd_warming_request_count :: int
  wd_unknown_request_count :: int
  wd_recently_served_unique_bytes :: int
  wd_locked_but_not_served_unique_bytes :: int
  wd_warming_unique_bytes :: int
  wd_unknown_unique_bytes :: int
  wd_not_served_logical_request_bytes :: int

record lock_diagnostics =
  ld_observed_ts_ms :: real
  ld_engine_locked_unique_bytes :: int
  ld_attributed_unique_bytes :: int
  ld_fully_attributed_unique_bytes :: int
  ld_partially_attributed_unique_bytes :: int
  ld_unattributed_unique_bytes :: int
  ld_locked_extent_count :: int
  ld_attributed_extent_count :: int
  ld_blocker_request_count :: int
  ld_request_path_error_count :: int
  ld_lock_ref_mismatch_extent_count :: int
  ld_logical_request_lock_bytes :: int
  ld_windows :: "window_diagnostics list"

definition count_if :: "('a \<Rightarrow> bool) \<Rightarrow> 'a list \<Rightarrow> int" where
  "count_if P xs = int (length (filter P xs))"

definition extent_bytes_if :: "(locked_extent \<Rightarrow> bool) \<Rightarrow> locked_extent list \<Rightarrow> int" where
  "extent_bytes_if P extents = sum_list (map lx_size_bytes (filter P extents))"

definition extent_status :: "locked_extent \<Rightarrow> string list \<Rightarrow> string" where
  "extent_status e statuses =
     (if ''recent'' \<in> set statuses then ''recent''
      else if lx_engine_lock_ref e \<noteq> int (length (lx_blocker_request_ids e)) then ''unknown''
      else if ''warming'' \<in> set statuses then ''warming''
      else if ''unknown'' \<in> set statuses then ''unknown''
      else ''stale'')"

text \<open>The body of the loop over the extents: \<open>physical_bytes\<close> and \<open>stale_logical_bytes\<close>.\<close>

definition window_step ::
  "(string \<Rightarrow> string) \<Rightarrow> locked_extent \<Rightarrow> (string, int) dict \<times> int \<Rightarrow> (string, int) dict \<times> int" where
  "window_step status e = (\<lambda>(physical, stale_logical).
     if lx_blocker_request_ids e = [] then (physical, stale_logical)
     else
       let statuses = map status (lx_blocker_request_ids e); s = extent_status e statuses in
       (AList.update s (dict_get physical s 0 + lx_size_bytes e) physical,
        stale_logical + lx_size_bytes e * count_if (\<lambda>x. x = ''stale'') statuses))"

definition window_diag ::
  "service_ledger \<Rightarrow> locked_extent list \<Rightarrow> string set \<Rightarrow> real \<Rightarrow> real \<Rightarrow> window_diagnostics" where
  "window_diag ledger extents blocker_ids now window =
     (let status = status_of ledger now window;
          statuses = map status (sorted_list_of_set blocker_ids);
          (physical, stale_logical) =
            fold (window_step status) extents
              ([(''recent'', 0), (''stale'', 0), (''warming'', 0), (''unknown'', 0)], 0) in
      \<lparr>wd_window_ms = window,
       wd_recently_served_request_count = count_if (\<lambda>s. s = ''recent'') statuses,
       wd_not_served_request_count = count_if (\<lambda>s. s = ''stale'') statuses,
       wd_warming_request_count = count_if (\<lambda>s. s = ''warming'') statuses,
       wd_unknown_request_count = count_if (\<lambda>s. s = ''unknown'') statuses,
       wd_recently_served_unique_bytes = dict_get physical ''recent'' 0,
       wd_locked_but_not_served_unique_bytes = dict_get physical ''stale'' 0,
       wd_warming_unique_bytes = dict_get physical ''warming'' 0,
       wd_unknown_unique_bytes = dict_get physical ''unknown'' 0,
       wd_not_served_logical_request_bytes = stale_logical\<rparr>)"

definition summarize ::
  "service_ledger \<Rightarrow> locked_extent list \<Rightarrow> real \<Rightarrow> real list \<Rightarrow> int \<Rightarrow> lock_diagnostics result" where
  "summarize ledger extents now windows path_errors =
     rbind (validate_ts now) (\<lambda>_.
       if path_errors < 0 then Inl (ValueError ''request path error count must be non-negative'')
       else if windows = [] \<or> list_ex (\<lambda>w. w \<le> 0) windows
       then Inl (ValueError ''service windows must be positive'')
       else
         let blocker_ids = \<Union> (set ` lx_blocker_request_ids ` set extents);
             attributed = (\<lambda>e. lx_blocker_request_ids e \<noteq> []);
             full = (\<lambda>e. lx_engine_lock_ref e = int (length (lx_blocker_request_ids e)));
             total_bytes = extent_bytes_if (\<lambda>_. True) extents;
             attributed_bytes = extent_bytes_if attributed extents in
         Inr \<lparr>ld_observed_ts_ms = now,
              ld_engine_locked_unique_bytes = total_bytes,
              ld_attributed_unique_bytes = attributed_bytes,
              ld_fully_attributed_unique_bytes = extent_bytes_if (\<lambda>e. attributed e \<and> full e) extents,
              ld_partially_attributed_unique_bytes = extent_bytes_if (\<lambda>e. attributed e \<and> \<not> full e) extents,
              ld_unattributed_unique_bytes = total_bytes - attributed_bytes,
              ld_locked_extent_count = int (length extents),
              ld_attributed_extent_count = count_if attributed extents,
              ld_blocker_request_count = int (card blocker_ids),
              ld_request_path_error_count = path_errors,
              ld_lock_ref_mismatch_extent_count = count_if (\<lambda>e. \<not> full e) extents,
              ld_logical_request_lock_bytes =
                sum_list (map (\<lambda>e. lx_size_bytes e * int (length (lx_blocker_request_ids e))) extents),
              ld_windows = map (window_diag ledger extents blocker_ids now) windows\<rparr>)"

definition default_service_windows_ms :: "real list" where
  "default_service_windows_ms = [100, 500]"

definition attribution_coverage :: "lock_diagnostics \<Rightarrow> real" where
  "attribution_coverage d =
     (if ld_engine_locked_unique_bytes d = 0 then 1
      else of_int (ld_attributed_unique_bytes d) / of_int (ld_engine_locked_unique_bytes d))"

definition window_suffix :: "(real \<Rightarrow> string) \<Rightarrow> real \<Rightarrow> string" where
  "window_suffix format_g window =
     (if of_int (floor window) = window then str_int (floor window) else format_g window) @ ''ms''"

definition window_fields :: "(real \<Rightarrow> string) \<Rightarrow> window_diagnostics \<Rightarrow> (string, py_value) dict" where
  "window_fields format_g w =
     (let suffix = window_suffix format_g (wd_window_ms w) in
      [(''lock_recently_served_request_count_'' @ suffix, PInt (wd_recently_served_request_count w)),
       (''lock_not_served_request_count_'' @ suffix, PInt (wd_not_served_request_count w)),
       (''lock_warming_request_count_'' @ suffix, PInt (wd_warming_request_count w)),
       (''lock_unknown_request_count_'' @ suffix, PInt (wd_unknown_request_count w)),
       (''lock_recently_served_gpu_bytes_'' @ suffix, PInt (wd_recently_served_unique_bytes w)),
       (''locked_but_not_served_gpu_bytes_'' @ suffix, PInt (wd_locked_but_not_served_unique_bytes w)),
       (''lock_warming_gpu_bytes_'' @ suffix, PInt (wd_warming_unique_bytes w)),
       (''lock_unknown_gpu_bytes_'' @ suffix, PInt (wd_unknown_unique_bytes w)),
       (''lock_not_served_logical_request_bytes_'' @ suffix, PInt (wd_not_served_logical_request_bytes w))])"

definition lock_audit_fields :: "(real \<Rightarrow> string) \<Rightarrow> lock_diagnostics \<Rightarrow> (string, py_value) dict" where
  "lock_audit_fields format_g d =
     fold (\<lambda>w fields. fold (\<lambda>(k, v). AList.update k v) (window_fields format_g w) fields) (ld_windows d)
       [(''engine_lock_ref_gpu_bytes'', PInt (ld_engine_locked_unique_bytes d)),
        (''engine_lock_attributed_gpu_bytes'', PInt (ld_attributed_unique_bytes d)),
        (''engine_lock_fully_attributed_gpu_bytes'', PInt (ld_fully_attributed_unique_bytes d)),
        (''engine_lock_partially_attributed_gpu_bytes'', PInt (ld_partially_attributed_unique_bytes d)),
        (''engine_lock_unattributed_gpu_bytes'', PInt (ld_unattributed_unique_bytes d)),
        (''engine_lock_attribution_coverage'', PFloat (attribution_coverage d)),
        (''engine_lock_full_attribution_coverage'',
          PFloat (if ld_engine_locked_unique_bytes d = 0 then 1
                  else of_int (ld_fully_attributed_unique_bytes d) / of_int (ld_engine_locked_unique_bytes d))),
        (''engine_lock_extent_count'', PInt (ld_locked_extent_count d)),
        (''engine_lock_attributed_extent_count'', PInt (ld_attributed_extent_count d)),
        (''engine_lock_blocker_request_count'', PInt (ld_blocker_request_count d)),
        (''engine_lock_request_path_error_count'', PInt (ld_request_path_error_count d)),
        (''engine_lock_ref_mismatch_extent_count'', PInt (ld_lock_ref_mismatch_extent_count d)),
        (''engine_lock_logical_request_bytes'', PInt (ld_logical_request_lock_bytes d)),
        (''engine_lock_provenance_scope'', PStr ''running_request_last_node_to_radix_root''),
        (''engine_lock_service_evidence'', PStr ''completed_gpu_batch'')]"

end
