(* ===== verification/Lock_Attribution.thy ===== *)
theory Lock_Attribution
  imports Lock_Service
begin

text \<open>
  What the lock service promises. The tentative unlock is read-only, calls itself exact exactly when
  the provenance covers every locked page, and then projects what really removing the requests gives.
  The windows of the diagnostics split the attributed bytes and requests, and the two queries of the
  ledger agree.
\<close>

section \<open>The locked pages of the index\<close>

lemma closure_step_locked:
  "ca_locked (closure_step ov live p acc) =
     ca_locked acc @ (if gpu_resident p \<and> lock_ref ov p > 0 then [pg_handle p] else [])"
  by (simp add: closure_step_def Let_def lock_ref_def)

lemma closure_fold_locked:
  "ca_locked (fold (closure_step ov live) ps acc) =
     ca_locked acc @ map pg_handle (filter (\<lambda>p. gpu_resident p \<and> lock_ref ov p > 0) ps)"
  by (induction ps arbitrary: acc) (auto simp: closure_step_locked)

definition page_locked :: "page_record \<Rightarrow> bool" where
  "page_locked p \<longleftrightarrow> gpu_resident p \<and> pg_engine_lock_ref p > 0"

lemma locked_handles:
  assumes inv: "ix_inv ix" and calc: "calculate_physical_kv_state [] ix = (b, lk, mg)"
  shows "distinct lk" and "h \<in> set lk \<longleftrightarrow> (\<exists>p. map_of (ix_pages ix) h = Some p \<and> page_locked p)"
proof -
  have lk: "lk = map pg_handle (filter (\<lambda>p. gpu_resident p \<and> lock_ref [] p > 0) (closure_pages ix))"
    using calc by (simp add: calculate_physical_kv_state_def Let_def closure_fold_def closure_fold_locked closure_init_def)
  have ref: "lock_ref [] p = pg_engine_lock_ref p" for p by (simp add: lock_ref_def dict_get_def)
  show "distinct lk" unfolding lk using distinct_closure_pages [OF inv] by (rule distinct_map_filter)
  have "page_locked p \<Longrightarrow> \<not> page_dead p" for p by (auto simp: page_locked_def gpu_resident_def)
  moreover have "map_of (ix_pages ix) h = Some p \<Longrightarrow> pg_handle p = h" for h p
    using page_ok_ix [OF inv] by (simp add: page_ok_def)
  ultimately show "h \<in> set lk \<longleftrightarrow> (\<exists>p. map_of (ix_pages ix) h = Some p \<and> page_locked p)"
    unfolding lk by (auto simp: set_closure_pages [OF inv] page_locked_def ref image_iff)
qed

lemma locked_pages_lookup:
  assumes inv: "ix_inv ix"
  shows "dict_ok (locked_pages ix hs) \<and>
    map_of (locked_pages ix hs) h = (if h \<in> set hs then map_of (ix_pages ix) h else None)"
proof (induction hs rule: rev_induct)
  case (snoc k hs)
  have "map_of (ix_pages ix) k = Some p \<Longrightarrow> pg_handle p = k" for p using page_ok_ix [OF inv] by (simp add: page_ok_def)
  with snoc show ?case by (auto simp: locked_pages_def map_of_update split: option.split)
qed (simp add: locked_pages_def)

section \<open>The index of extents\<close>

lemma index_extents:
  assumes "fold index_extent es ([], {}) = (d, dup)"
  shows "dict_ok d" "map_of d = map_of (map (\<lambda>e. (lx_handle e, e)) es)"
    "finite dup" "dup = {} \<longleftrightarrow> distinct (map lx_handle es)"
proof -
  have "dict_ok d \<and> map_of d = map_of (map (\<lambda>e. (lx_handle e, e)) es) \<and> finite dup \<and>
      (dup = {} \<longleftrightarrow> distinct (map lx_handle es))"
    using assms
  proof (induction es arbitrary: d dup rule: rev_induct)
    case (snoc e es)
    obtain d0 dup0 where f: "fold index_extent es ([], {}) = (d0, dup0)" by fastforce
    note IH = snoc.IH [OF f]
    then have m: "dict_in h d0 \<longleftrightarrow> h \<in> lx_handle ` set es" for h
      by (simp add: dict_in_def map_of_eq_None_iff image_image)
    have r: "index_extent e (d0, dup0) = (d, dup)" using snoc.prems f by simp
    show ?case
    proof (cases "lx_handle e \<in> lx_handle ` set es")
      case True
      then have "map_of (map (\<lambda>e. (lx_handle e, e)) es) (lx_handle e) \<noteq> None"
        unfolding map_of_eq_None_iff by (simp add: image_image)
      then have "map_of (map (\<lambda>e. (lx_handle e, e)) (es @ [e])) = map_of (map (\<lambda>e. (lx_handle e, e)) es)"
        by (auto simp: map_add_def fun_eq_iff split: option.split)
      with True IH r m show ?thesis by (auto simp: index_extent_def)
    next
      case False
      then have "map_of (map (\<lambda>e. (lx_handle e, e)) es) (lx_handle e) = None"
        unfolding map_of_eq_None_iff by (simp add: image_image)
      then have "map_of (map (\<lambda>e. (lx_handle e, e)) (es @ [e])) = (map_of (map (\<lambda>e. (lx_handle e, e)) es))(lx_handle e \<mapsto> e)"
        by (auto simp: map_add_def fun_eq_iff split: option.split)
      with False IH r m show ?thesis by (auto simp: index_extent_def map_of_update)
    qed
  qed simp
  then show "dict_ok d" "map_of d = map_of (map (\<lambda>e. (lx_handle e, e)) es)"
    "finite dup" "dup = {} \<longleftrightarrow> distinct (map lx_handle es)" by blast+
qed

section \<open>Attributing the pages\<close>

lemma set_update_subset: "set (AList.update k v d) \<subseteq> insert (k, v) (set d)"
  by (induction d) auto

definition attributed :: "page_record \<Rightarrow> locked_extent \<Rightarrow> bool" where
  "attributed p e \<longleftrightarrow> lx_size_bytes e = pg_size_bytes p \<and> lx_engine_lock_ref e = pg_engine_lock_ref p \<and>
     lx_blocker_request_ids e \<noteq> [] \<and> lx_engine_lock_ref e = int (length (lx_blocker_request_ids e))"

definition page_override :: "string set \<Rightarrow> page_record \<Rightarrow> locked_extent option \<Rightarrow> int option" where
  "page_override sel p e = (case e of
     Some e \<Rightarrow> if attributed p e \<and> sel \<inter> set (lx_blocker_request_ids e) \<noteq> {}
       then Some (pg_engine_lock_ref p - int (card (sel \<inter> set (lx_blocker_request_ids e)))) else None
   | None \<Rightarrow> None)"

definition page_gap :: "page_record \<Rightarrow> locked_extent option \<Rightarrow> bool" where
  "page_gap p e = (case e of None \<Rightarrow> True | Some e \<Rightarrow> \<not> attributed p e)"

lemma attribute_page_eq:
  "\<exists>n. attribute_page sel bh (h, p) (gaps, ov, cnt) =
     (if page_gap p (map_of bh h) then AList.update h (pg_size_bytes p) gaps else gaps,
      case page_override sel p (map_of bh h) of None \<Rightarrow> ov | Some r \<Rightarrow> AList.update h r ov, n)"
  by (auto simp: attribute_page_def page_gap_def page_override_def attributed_def Let_def split: option.split)

lemma attribute_pages:
  assumes "dict_ok L" and "fold (attribute_page sel bh) L (gaps0, ov0, n0) = (gaps, ov, n)"
    and "dict_ok ov0" and "\<And>h. h \<in> fst ` set L \<Longrightarrow> map_of ov0 h = None"
  shows "dict_ok ov \<and>
    (\<forall>h. map_of ov h = (case map_of L h of Some p \<Rightarrow> page_override sel p (map_of bh h) | None \<Rightarrow> map_of ov0 h)) \<and>
    set gaps \<subseteq> set gaps0 \<union> {(h, pg_size_bytes p) | h p. (h, p) \<in> set L} \<and>
    (gaps = [] \<longleftrightarrow> gaps0 = [] \<and> (\<forall>(h, p) \<in> set L. \<not> page_gap p (map_of bh h)))"
  using assms
proof (induction L arbitrary: gaps0 ov0 n0)
  case (Cons x L)
  obtain h p where x: "x = (h, p)" by fastforce
  let ?g = "if page_gap p (map_of bh h) then AList.update h (pg_size_bytes p) gaps0 else gaps0"
  let ?o = "case page_override sel p (map_of bh h) of None \<Rightarrow> ov0 | Some r \<Rightarrow> AList.update h r ov0"
  obtain k where k: "attribute_page sel bh x (gaps0, ov0, n0) = (?g, ?o, k)" using attribute_page_eq x by metis
  have fr: "fold (attribute_page sel bh) L (?g, ?o, k) = (gaps, ov, n)" using Cons.prems(2) k by simp
  have hL: "h \<notin> fst ` set L" using Cons.prems(1) x by (auto simp: image_iff)
  have o: "map_of ?o = (map_of ov0)(h := page_override sel p (map_of bh h))"
    using Cons.prems(4) [of h] x by (auto simp: map_of_update split: option.split)
  have "dict_ok ?o" using Cons.prems(3) by (auto split: option.split)
  moreover have "map_of ?o h' = None" if "h' \<in> fst ` set L" for h' using that hL Cons.prems(4) [of h'] o by auto
  ultimately have IH: "dict_ok ov \<and>
    (\<forall>h. map_of ov h = (case map_of L h of Some p \<Rightarrow> page_override sel p (map_of bh h) | None \<Rightarrow> map_of ?o h)) \<and>
    set gaps \<subseteq> set ?g \<union> {(h, pg_size_bytes p) | h p. (h, p) \<in> set L} \<and>
    (gaps = [] \<longleftrightarrow> ?g = [] \<and> (\<forall>(h, p) \<in> set L. \<not> page_gap p (map_of bh h)))"
    using Cons.IH [OF _ fr] Cons.prems(1) by simp
  have "map_of L h = None" using hL by (simp add: map_of_eq_None_iff)
  moreover have "set ?g \<subseteq> insert (h, pg_size_bytes p) (set gaps0)" using set_update_subset [of h "pg_size_bytes p" gaps0] by auto
  moreover have "?g = [] \<longleftrightarrow> gaps0 = [] \<and> \<not> page_gap p (map_of bh h)" by (cases gaps0) auto
  ultimately have none: "map_of L h = None" and sub: "set ?g \<subseteq> insert (h, pg_size_bytes p) (set gaps0)"
    and emp: "?g = [] \<longleftrightarrow> gaps0 = [] \<and> \<not> page_gap p (map_of bh h)" by blast+
  have "map_of ov h' = (case map_of (x # L) h' of Some p \<Rightarrow> page_override sel p (map_of bh h') | None \<Rightarrow> map_of ov0 h')" for h'
    using IH none unfolding o x by (auto split: option.split)
  moreover have "set gaps \<subseteq> set gaps0 \<union> {(h, pg_size_bytes p) | h p. (h, p) \<in> set (x # L)}"
  proof
    fix y
    assume "y \<in> set gaps"
    then have "y \<in> set ?g \<or> y \<in> {(h, pg_size_bytes p) | h p. (h, p) \<in> set L}" using IH by blast
    then show "y \<in> set gaps0 \<union> {(h, pg_size_bytes p) | h p. (h, p) \<in> set (x # L)}"
    proof
      assume "y \<in> set ?g"
      then have "y = (h, pg_size_bytes p) \<or> y \<in> set gaps0" using sub by blast
      then show ?thesis unfolding x by auto
    qed auto
  qed
  moreover have "gaps = [] \<longleftrightarrow> gaps0 = [] \<and> (\<forall>(h, p) \<in> set (x # L). \<not> page_gap p (map_of bh h))"
    using IH unfolding emp x by auto
  ultimately show ?case using IH by blast
qed auto

section \<open>The tentative unlock\<close>

abbreviation extent_of :: "locked_extent list \<Rightarrow> page_handle \<Rightarrow> locked_extent option" where
  "extent_of es \<equiv> map_of (map (\<lambda>e. (lx_handle e, e)) es)"

definition extent_valid :: "locked_extent \<Rightarrow> bool" where
  "extent_valid e \<longleftrightarrow> locked_extent_post_init e = Inr e"

lemma extent_validD: "extent_valid e \<Longrightarrow> 0 < lx_size_bytes e"
  by (auto simp: extent_valid_def locked_extent_post_init_def split: if_splits)

text \<open>One extent for every locked page and none else, with its size and lock references, each
  reference held by a known request.\<close>

definition provenance_complete :: "page_index \<Rightarrow> locked_extent list \<Rightarrow> bool" where
  "provenance_complete ix es \<longleftrightarrow>
     distinct (map lx_handle es) \<and>
     lx_handle ` set es = {h. \<exists>p. map_of (ix_pages ix) h = Some p \<and> page_locked p} \<and>
     (\<forall>e \<in> set es. \<forall>p. map_of (ix_pages ix) (lx_handle e) = Some p \<longrightarrow> attributed p e)"

lemma page_override_bounds:
  assumes "page_override sel p e = Some r"
  shows "0 \<le> r" and "r \<le> pg_engine_lock_ref p"
proof -
  obtain x where x: "attributed p x" "r = pg_engine_lock_ref p - int (card (sel \<inter> set (lx_blocker_request_ids x)))"
    using assms by (auto simp: page_override_def split: option.splits if_splits)
  have "card (sel \<inter> set (lx_blocker_request_ids x)) \<le> card (set (lx_blocker_request_ids x))" by (rule card_mono) auto
  also have "\<dots> \<le> length (lx_blocker_request_ids x)" by (rule card_length)
  finally show "0 \<le> r" "r \<le> pg_engine_lock_ref p" using x by (auto simp: attributed_def)
qed

lemma sum_positive_zero: "\<forall>x \<in> set xs. 0 < (f x :: int) \<Longrightarrow> 0 \<le> sum_list (map f xs) \<and> (sum_list (map f xs) = 0 \<longleftrightarrow> xs = [])"
  by (induction xs) auto

lemma provenance_complete_iff:
  assumes L: "\<And>h. map_of L h = (case map_of (ix_pages ix) h of Some p \<Rightarrow> if page_locked p then Some p else None | None \<Rightarrow> None)"
    and "dict_ok L" and "map_of d = extent_of es" and "dict_ok d"
  shows "(\<forall>(h, p) \<in> set L. \<not> page_gap p (map_of d h)) \<and> filter (\<lambda>(h, e). \<not> dict_in h L) d = [] \<and>
      distinct (map lx_handle es) \<longleftrightarrow> provenance_complete ix es"
proof (cases "distinct (map lx_handle es)")
  case True
  have ext: "extent_of es h = Some e \<longleftrightarrow> e \<in> set es \<and> lx_handle e = h" for h e
  proof -
    have "dict_ok (map (\<lambda>e. (lx_handle e, e)) es)" using True by (simp add: comp_def)
    then show ?thesis by (auto simp: map_of_eq_Some_iff)
  qed
  have none: "extent_of es h = None \<longleftrightarrow> h \<notin> lx_handle ` set es" for h
    unfolding map_of_eq_None_iff by (simp add: image_image)
  have mem: "(h, p) \<in> set L \<longleftrightarrow> map_of (ix_pages ix) h = Some p \<and> page_locked p" for h p
    using dict_mem_iff [OF assms(2), of h p] L [of h] by (auto split: option.splits if_splits)
  have in_L: "dict_in h L \<longleftrightarrow> (\<exists>p. map_of (ix_pages ix) h = Some p \<and> page_locked p)" for h
    using L [of h] by (auto simp: dict_in_def split: option.splits if_splits)
  have stale: "filter (\<lambda>(h, e). \<not> dict_in h L) d = [] \<longleftrightarrow> (\<forall>e \<in> set es. dict_in (lx_handle e) L)"
    using dict_mem_iff [OF assms(4)] by (auto simp: filter_empty_conv assms(3) ext)
  have gap: "\<not> page_gap p (map_of d h) \<longleftrightarrow> (\<exists>e \<in> set es. lx_handle e = h \<and> attributed p e)" for h p
  proof (cases "extent_of es h")
    case None
    then show ?thesis using none [of h] by (auto simp: page_gap_def assms(3))
  next
    case (Some e)
    then have "e' = e" if "e' \<in> set es" "lx_handle e' = h" for e' using ext [of h e'] that by simp
    with Some ext [of h e] show ?thesis by (auto simp: page_gap_def assms(3))
  qed
  show ?thesis
  proof
    assume a: "(\<forall>(h, p) \<in> set L. \<not> page_gap p (map_of d h)) \<and> filter (\<lambda>(h, e). \<not> dict_in h L) d = [] \<and>
      distinct (map lx_handle es)"
    have "lx_handle ` set es = {h. \<exists>p. map_of (ix_pages ix) h = Some p \<and> page_locked p}"
    proof (intro set_eqI iffI)
      fix h
      assume "h \<in> lx_handle ` set es"
      then show "h \<in> {h. \<exists>p. map_of (ix_pages ix) h = Some p \<and> page_locked p}" using a in_L unfolding stale by auto
    next
      fix h
      assume "h \<in> {h. \<exists>p. map_of (ix_pages ix) h = Some p \<and> page_locked p}"
      then obtain p where "(h, p) \<in> set L" using mem by blast
      then show "h \<in> lx_handle ` set es" using a unfolding gap by blast
    qed
    moreover have "attributed p e" if e: "e \<in> set es" "map_of (ix_pages ix) (lx_handle e) = Some p" for e p
    proof -
      have "page_locked p" using a e in_L unfolding stale by auto
      then obtain e' where "e' \<in> set es" "lx_handle e' = lx_handle e" "attributed p e'"
        using a [unfolded gap] mem [of "lx_handle e" p] e(2) by blast
      then show ?thesis using True e(1) by (auto simp: distinct_map dest: inj_onD)
    qed
    ultimately show "provenance_complete ix es" using True unfolding provenance_complete_def by blast
  next
    assume a: "provenance_complete ix es"
    then have "\<forall>e \<in> set es. dict_in (lx_handle e) L" unfolding in_L provenance_complete_def by blast
    moreover have "\<exists>e \<in> set es. lx_handle e = h \<and> attributed p e" if "(h, p) \<in> set L" for h p
    proof -
      have "h \<in> lx_handle ` set es" using a that unfolding provenance_complete_def mem by blast
      then show ?thesis using a that unfolding provenance_complete_def mem by blast
    qed
    ultimately show "(\<forall>(h, p) \<in> set L. \<not> page_gap p (map_of d h)) \<and> filter (\<lambda>(h, e). \<not> dict_in h L) d = [] \<and>
      distinct (map lx_handle es)" using True unfolding stale gap by blast
  qed
qed (simp add: provenance_complete_def)

text \<open>What a call computes: the projection of the overrides the provenance supports.\<close>

definition supported_overrides :: "page_index \<Rightarrow> locked_extent list \<Rightarrow> string set \<Rightarrow> (page_handle, int) dict \<Rightarrow> bool" where
  "supported_overrides ix es sel ov \<longleftrightarrow> dict_ok ov \<and>
     (\<forall>h. map_of ov h = (case map_of (ix_pages ix) h of
        Some p \<Rightarrow> if page_locked p then page_override sel p (extent_of es h) else None | None \<Rightarrow> None))"

lemma supported_overrides_checked:
  assumes inv: "ix_inv ix" and "supported_overrides ix es sel ov"
  shows "rfold (check_override ix) ov () = Inr ()"
  unfolding check_overrides
proof (clarify)
  fix h r
  assume "(h, r) \<in> set ov"
  moreover have "dict_ok ov" using assms(2) by (simp add: supported_overrides_def)
  ultimately have "map_of ov h = Some r" by simp
  then obtain p where p: "map_of (ix_pages ix) h = Some p" "page_locked p" "page_override sel p (extent_of es h) = Some r"
    using assms(2) by (auto simp: supported_overrides_def split: option.splits if_splits)
  have "\<not> page_dead p" using p(2) by (auto simp: page_locked_def gpu_resident_def)
  then have "require_page ix h = Inr p" by (rule live_require [OF inv p(1)])
  then show "\<exists>p. require_page ix h = Inr p \<and> 0 \<le> r \<and> r \<le> pg_engine_lock_ref p"
    using page_override_bounds [OF p(3)] by blast
qed

lemma tentative_unlock_run:
  assumes run: "rtranclp ixq_step page_index_init ix" and valid: "list_all extent_valid es"
    and ids: "rids \<noteq> []" "distinct rids" and errs: "0 \<le> errs"
  obtains v ov u ix1 ix2 where "tentative_unlock ix es rids errs = Inr (v, ix2)"
    and "rtranclp ixq_step page_index_init ix1" and "ix_pages ix1 = ix_pages ix" and "ix_pages ix2 = ix_pages ix"
    and "supported_overrides ix es (set rids) ov" and "preview_engine_lock_release ov ix1 = Inr (u, ix2)"
    and "tu_exact v \<longleftrightarrow> errs = 0 \<and> provenance_complete ix es"
    and "tu_projected_engine_locked_bytes v = kb_engine_locked_bytes (up_projected u)"
    and "tu_projected_migratable_bytes v = kb_migratable_bytes (up_projected u)"
    and "tu_newly_migratable_handles v = up_newly_migratable_handles u"
    and "tu_newly_migratable_bytes v = up_newly_migratable_bytes u"
proof -
  have inv: "ix_inv ix" and c: "cache_ok ix" using ixq_reachable [OF run] by (simp_all add: ixq_inv_def)
  obtain b ix1 where q: "physical_kv_state_breakdown ix = Inr (b, ix1)" using breakdown_total [OF inv] by blast
  note f = breakdown_fills [OF q c]
  have inv1: "ix_inv ix1" using f(5) inv by simp
  have run1: "rtranclp ixq_step page_index_init ix1" using run ixq_step.breakdown [OF q] by (rule rtranclp.rtrancl_into_rtrancl)
  define lk where "lk = ix_engine_locked_pages ix1"
  have calc: "calculate_physical_kv_state [] ix = (b, lk, ix_migratable_gpu_handles ix1)" using f(3) by (simp add: lk_def)
  define L where "L = locked_pages ix1 lk"
  have Lok: "dict_ok L" and Lm: "map_of L h = (case map_of (ix_pages ix) h of
      Some p \<Rightarrow> if page_locked p then Some p else None | None \<Rightarrow> None)" for h
    using locked_pages_lookup [OF inv1, of lk h] locked_handles(2) [OF inv calc, of h] f(2)
    by (auto simp: L_def split: option.split)
  obtain d dup where d: "fold index_extent es ([], {}) = (d, dup)" by fastforce
  note D = index_extents [OF d]
  obtain gaps ov n where a: "fold (attribute_page (set rids) d) L (duplicate_gaps L dup, [], 0) = (gaps, ov, n)"
    by (metis prod_cases3)
  have A: "dict_ok ov"
    "\<And>h. map_of ov h = (case map_of L h of Some p \<Rightarrow> page_override (set rids) p (map_of d h) | None \<Rightarrow> None)"
    "set gaps \<subseteq> set (duplicate_gaps L dup) \<union> {(h, pg_size_bytes p) | h p. (h, p) \<in> set L}"
    "gaps = [] \<longleftrightarrow> duplicate_gaps L dup = [] \<and> (\<forall>(h, p) \<in> set L. \<not> page_gap p (map_of d h))"
    using attribute_pages [OF Lok a] by (simp_all split: option.split)
  have sup: "supported_overrides ix es (set rids) ov"
    using A(1,2) Lm unfolding supported_overrides_def D(2) by (auto split: option.split)
  moreover have "supported_overrides ix1 es (set rids) ov" using sup by (simp add: supported_overrides_def f(2))
  ultimately obtain u ix2 where u: "preview_engine_lock_release ov ix1 = Inr (u, ix2)"
    using preview_total [OF supported_overrides_checked [OF inv1] inv1] by blast
  have p2: "ix_pages ix2 = ix_pages ix"
    using preview_result(2) [OF u] breakdown_fills(2) [OF _ f(1)] f(2) by metis
  let ?stale = "filter (\<lambda>(h, e). \<not> dict_in h L) d"
  let ?gap = "sum_list (map snd gaps) + sum_list (map (\<lambda>(h, e). lx_size_bytes e) ?stale)"
  have sizes: "0 < pg_size_bytes p" if "map_of L h = Some p" for h p
    using that Lm [of h] page_ok_ix [OF inv, of h p] by (auto simp: page_ok_def split: option.splits if_splits)
  have "\<forall>x \<in> set gaps. 0 < snd x"
    using A(3) sizes dict_mem_iff [OF Lok] by (fastforce simp: duplicate_gaps_def List.map_filter_def)
  then have g: "0 \<le> sum_list (map snd gaps)" "sum_list (map snd gaps) = 0 \<longleftrightarrow> gaps = []"
    using sum_positive_zero [of gaps snd] by simp_all
  have "0 < lx_size_bytes e" if "(h, e) \<in> set d" for h e
  proof -
    have "extent_of es h = Some e" using that dict_mem_iff [OF D(1)] D(2) by metis
    then have "e \<in> set es" by (auto dest: map_of_SomeD)
    then show ?thesis using valid extent_validD by (auto simp: list_all_iff)
  qed
  then have s: "0 \<le> sum_list (map (\<lambda>(h, e). lx_size_bytes e) ?stale)"
    "sum_list (map (\<lambda>(h, e). lx_size_bytes e) ?stale) = 0 \<longleftrightarrow> ?stale = []"
    using sum_positive_zero [of ?stale "\<lambda>(h, e). lx_size_bytes e"] by auto
  have "?gap = 0 \<and> dup = {} \<longleftrightarrow> gaps = [] \<and> ?stale = [] \<and> dup = {}" using g s by linarith
  also have "\<dots> \<longleftrightarrow> (\<forall>(h, p) \<in> set L. \<not> page_gap p (map_of d h)) \<and> ?stale = [] \<and> distinct (map lx_handle es)"
    unfolding A(4) D(4) [symmetric] by (auto simp: duplicate_gaps_def List.map_filter_def)
  also have "\<dots> \<longleftrightarrow> provenance_complete ix es" by (rule provenance_complete_iff [OF Lm Lok D(2,1)])
  finally have exact: "errs = 0 \<and> ?gap = 0 \<and> dup = {} \<longleftrightarrow> errs = 0 \<and> provenance_complete ix es" by blast
  have ids': "py_sorted_set rids \<noteq> []" "length (py_sorted_set rids) = length rids"
    using ids set_py_sorted_set [of rids] set_empty by (metis, simp add: py_sorted_set_def distinct_remdups_id)
  have eng: "engine_locked_gpu_pages ix = Inr (lk, ix1)" by (simp add: engine_locked_gpu_pages_def q lk_def)
  let ?v = "fst (projr (tentative_unlock ix es rids errs))"
  have "tentative_unlock ix es rids errs = Inr (?v, ix2) \<and> (tu_exact ?v \<longleftrightarrow> errs = 0 \<and> ?gap = 0 \<and> dup = {}) \<and>
      tu_projected_engine_locked_bytes ?v = kb_engine_locked_bytes (up_projected u) \<and>
      tu_projected_migratable_bytes ?v = kb_migratable_bytes (up_projected u) \<and>
      tu_newly_migratable_handles ?v = up_newly_migratable_handles u \<and>
      tu_newly_migratable_bytes ?v = up_newly_migratable_bytes u"
    using ids' errs d eng a u by (simp add: tentative_unlock_def Let_def L_def [symmetric])
  then obtain v where v: "tentative_unlock ix es rids errs = Inr (v, ix2)" "tu_exact v \<longleftrightarrow> errs = 0 \<and> ?gap = 0 \<and> dup = {}"
    "tu_projected_engine_locked_bytes v = kb_engine_locked_bytes (up_projected u)"
    "tu_projected_migratable_bytes v = kb_migratable_bytes (up_projected u)"
    "tu_newly_migratable_handles v = up_newly_migratable_handles u"
    "tu_newly_migratable_bytes v = up_newly_migratable_bytes u" by blast
  show thesis by (rule that [OF v(1) run1 f(2) p2 sup u v(2) [unfolded exact] v(3-6)])
qed

text \<open>The tentative unlock is total, read-only and honest about its provenance. In every state of the
  index reached by updates and cached queries, for valid extents and distinct request identifiers, the
  preview returns and changes no page; it calls itself exact if and only if no path error was reported
  and the extents name every locked GPU page once and nothing else, with its size and lock references,
  all of them attributed to requests.\<close>

theorem tentative_unlock_exact_iff:
  assumes "rtranclp ixq_step page_index_init ix" and "list_all extent_valid es"
    and "rids \<noteq> []" and "distinct rids" and "0 \<le> errs"
  shows "\<exists>v ix'. tentative_unlock ix es rids errs = Inr (v, ix') \<and> ix_pages ix' = ix_pages ix \<and>
    (tu_exact v \<longleftrightarrow> errs = 0 \<and> provenance_complete ix es)"
  by (rule tentative_unlock_run [OF assms]) blast

text \<open>The lock references a page keeps when the selected requests are removed.\<close>

definition holders :: "locked_extent list \<Rightarrow> page_handle \<Rightarrow> string set" where
  "holders es h = \<Union> (set ` lx_blocker_request_ids ` {e \<in> set es. lx_handle e = h})"

definition without_requests :: "locked_extent list \<Rightarrow> string set \<Rightarrow> page_handle \<times> page_record \<Rightarrow> page_handle \<times> page_record" where
  "without_requests es sel = (\<lambda>(h, p).
     (h, p\<lparr>pg_engine_lock_ref := pg_engine_lock_ref p - int (card (sel \<inter> holders es h))\<rparr>))"

lemma supported_overrides_complete:
  assumes inv: "ix_inv ix" and sup: "supported_overrides ix es sel ov" and full: "provenance_complete ix es"
    and hp: "(h, p) \<in> set (ix_pages ix)"
  shows "(h, locked_page ov h p) = without_requests es sel (h, p)"
proof -
  have p: "map_of (ix_pages ix) h = Some p" using dict_mem_iff [OF ix_inv_parts(1) [OF inv]] hp by blast
  show ?thesis
  proof (cases "page_locked p")
    case True
    then have "h \<in> lx_handle ` set es" using full p unfolding provenance_complete_def by simp
    then obtain e where e: "e \<in> set es" "lx_handle e = h" "attributed p e"
      using full p unfolding provenance_complete_def by blast
    have one: "e' = e" if "e' \<in> set es" "lx_handle e' = h" for e'
    proof -
      have "inj_on lx_handle (set es)" using full by (simp add: provenance_complete_def distinct_map)
      moreover have "lx_handle e' = lx_handle e" by (simp add: that(2) e(2))
      ultimately show ?thesis using that(1) e(1) by (rule inj_onD)
    qed
    have "dict_ok (map (\<lambda>e. (lx_handle e, e)) es)" using full by (simp add: provenance_complete_def comp_def)
    moreover have "(h, e) \<in> set (map (\<lambda>e. (lx_handle e, e)) es)" using e(1,2) by force
    ultimately have "extent_of es h = Some e" by (rule map_of_is_SomeI)
    then have ov: "map_of ov h = page_override sel p (Some e)" using sup True p by (simp add: supported_overrides_def)
    have "{x \<in> set es. lx_handle x = h} = {e}" using e(1,2) one by blast
    then have "holders es h = set (lx_blocker_request_ids e)" by (simp add: holders_def)
    then have "dict_get ov h (pg_engine_lock_ref p) = pg_engine_lock_ref p - int (card (sel \<inter> holders es h))"
      using ov e(3) by (cases "sel \<inter> holders es h = {}") (simp_all add: page_override_def dict_get_def)
    then show ?thesis by (simp add: locked_page_def without_requests_def)
  next
    case False
    then have "h \<notin> lx_handle ` set es" using full p unfolding provenance_complete_def by simp
    then have "{x \<in> set es. lx_handle x = h} = {}" by blast
    then have "holders es h = {}" by (simp only: holders_def image_empty Union_empty)
    moreover have "map_of ov h = None" using sup False p by (simp add: supported_overrides_def)
    ultimately show ?thesis by (simp add: locked_page_def without_requests_def dict_get_def)
  qed
qed

lemma apply_locks_run: "apply_locks ov ix = Inr ix' \<Longrightarrow> rtranclp ix_step ix ix'"
  unfolding apply_locks_def
proof (induction ov arbitrary: ix)
  case (Cons a ov)
  obtain h r where a: "a = (h, r)" by fastforce
  with Cons.prems obtain ix1 where "set_engine_lock h r ix = Inr ix1" "rfold (\<lambda>(h, r). set_engine_lock h r) ov ix1 = Inr ix'"
    by auto
  with Cons.IH ix_step.set_engine_lock show ?case by (metis converse_rtranclp_into_rtranclp)
qed simp

text \<open>C19. An exact tentative unlock projects the truth: there is a sequence of index updates after which every
  page has lost exactly the lock references of the selected requests, and the breakdown computed then
  has the projected locked and migratable bytes; the pages reported as newly migratable are those that
  are migratable then and were not before, and the reported gain is their size.\<close>

theorem tentative_unlock_projects:
  assumes run: "rtranclp ixq_step page_index_init ix" and valid: "list_all extent_valid es"
    and ids: "rids \<noteq> []" "distinct rids" and full: "provenance_complete ix es"
  shows "\<exists>v ix' ix1 ix2 b lk mg b2 lk2 mg2. tentative_unlock ix es rids 0 = Inr (v, ix') \<and>
    ix_pages ix1 = ix_pages ix \<and> rtranclp ix_step ix1 ix2 \<and>
    ix_pages ix2 = map (without_requests es (set rids)) (ix_pages ix) \<and>
    calculate_physical_kv_state [] ix = (b, lk, mg) \<and> calculate_physical_kv_state [] ix2 = (b2, lk2, mg2) \<and>
    tu_projected_engine_locked_bytes v = kb_engine_locked_bytes b2 \<and>
    tu_projected_migratable_bytes v = kb_migratable_bytes b2 \<and>
    tu_newly_migratable_handles v = sorted_list_of_set (mg2 - mg) \<and>
    tu_newly_migratable_bytes v = (\<Sum>h \<in> mg2 - mg. page_size_of ix h)"
proof -
  obtain v ov u ix1 ix' where v: "tentative_unlock ix es rids 0 = Inr (v, ix')"
    and run1: "rtranclp ixq_step page_index_init ix1" and p1: "ix_pages ix1 = ix_pages ix"
    and sup: "supported_overrides ix es (set rids) ov" and u: "preview_engine_lock_release ov ix1 = Inr (u, ix')"
    and eqs: "tu_projected_engine_locked_bytes v = kb_engine_locked_bytes (up_projected u)"
      "tu_projected_migratable_bytes v = kb_migratable_bytes (up_projected u)"
      "tu_newly_migratable_handles v = up_newly_migratable_handles u"
      "tu_newly_migratable_bytes v = up_newly_migratable_bytes u"
    by (rule tentative_unlock_run [OF run valid ids order_refl])
  have inv: "ix_inv ix" "ix_inv ix1" using ixq_reachable [OF run] ixq_reachable [OF run1] by (simp_all add: ixq_inv_def)
  have ok: "dict_ok ov" using sup by (simp add: supported_overrides_def)
  obtain ix2 lk mg lk2 mg2 where l: "apply_locks ov ix1 = Inr ix2"
    and base: "calculate_physical_kv_state [] ix1 = (up_baseline u, lk, mg)"
    and proj: "calculate_physical_kv_state [] ix2 = (up_projected u, lk2, mg2)"
    and new: "up_newly_migratable_handles u = sorted_list_of_set (mg2 - mg)"
      "up_newly_migratable_bytes u = (\<Sum>h \<in> mg2 - mg. page_size_of ix1 h)"
    using lock_release_projection [OF run1 ok u] by blast
  have "ix_pages ix2 = map (\<lambda>(k, p). (k, locked_page ov k p)) (ix_pages ix)"
    using apply_locks_pages [OF l inv(2) ok] p1 by simp
  also have "\<dots> = map (without_requests es (set rids)) (ix_pages ix)"
    using supported_overrides_complete [OF inv(1) sup full] by (intro map_cong) auto
  finally have p2: "ix_pages ix2 = map (without_requests es (set rids)) (ix_pages ix)" .
  have "closure_fold [] ix1 = closure_fold [] ix" by (rule closure_fold_phys) (simp add: phys_pages_def p1)
  then have base': "calculate_physical_kv_state [] ix = (up_baseline u, lk, mg)"
    using base by (simp add: calculate_physical_kv_state_def)
  have size: "page_size_of ix1 = page_size_of ix" by (simp add: page_size_of_def fun_eq_iff p1)
  show ?thesis
    by (intro exI [of _ v] exI [of _ ix'] exI [of _ ix1] exI [of _ ix2] exI [of _ "up_baseline u"] exI [of _ lk] exI [of _ mg]
        exI [of _ "up_projected u"] exI [of _ lk2] exI [of _ mg2] conjI v p1 apply_locks_run [OF l] p2 base' proj)
      (simp_all add: eqs new size)
qed

section \<open>Diagnostics\<close>

lemma extent_bytes_split: "extent_bytes_if P es = extent_bytes_if (\<lambda>e. P e \<and> Q e) es + extent_bytes_if (\<lambda>e. P e \<and> \<not> Q e) es"
  by (induction es) (auto simp: extent_bytes_if_def)

lemma extent_bytes_mono:
  assumes "list_all extent_valid es" and "\<And>e. e \<in> set es \<Longrightarrow> P e \<Longrightarrow> Q e"
  shows "extent_bytes_if P es \<le> extent_bytes_if Q es"
  using assms by (induction es) (auto simp: extent_bytes_if_def less_imp_le dest: extent_validD)

lemma extent_bytes_nonneg: "list_all extent_valid es \<Longrightarrow> 0 \<le> extent_bytes_if P es"
  by (induction es) (auto simp: extent_bytes_if_def dest: extent_validD)

definition extent_in :: "(string \<Rightarrow> string) \<Rightarrow> string \<Rightarrow> locked_extent \<Rightarrow> bool" where
  "extent_in status s e \<longleftrightarrow> lx_blocker_request_ids e \<noteq> [] \<and> extent_status e (map status (lx_blocker_request_ids e)) = s"

lemma window_fold_bytes:
  "dict_get (fst (fold (window_step status) es (d, n))) s 0 = dict_get d s 0 + extent_bytes_if (extent_in status s) es"
proof (induction es arbitrary: d n)
  case (Cons e es)
  obtain d' n' where s1: "window_step status e (d, n) = (d', n')" by fastforce
  then have "dict_get d' s 0 = dict_get d s 0 + extent_bytes_if (extent_in status s) [e]"
    by (auto simp: window_step_def extent_in_def extent_bytes_if_def Let_def dict_get_update split: if_splits)
  with Cons.IH [of d' n'] s1 show ?case by (simp add: extent_bytes_if_def)
qed (simp add: extent_bytes_if_def)

lemma extent_status_cases: "extent_status e xs \<in> {''recent'', ''stale'', ''warming'', ''unknown''}"
  by (simp add: extent_status_def)

lemma status_of_cases: "status_of l now w r \<in> {''recent'', ''stale'', ''warming'', ''unknown''}"
  by (simp add: status_of_def split: option.split)

lemma four_bytes:
  "extent_bytes_if (extent_in st ''recent'') es + extent_bytes_if (extent_in st ''stale'') es
   + extent_bytes_if (extent_in st ''warming'') es + extent_bytes_if (extent_in st ''unknown'') es
   = extent_bytes_if (\<lambda>e. lx_blocker_request_ids e \<noteq> []) es"
proof (induction es)
  case (Cons e es)
  then show ?case using extent_status_cases [of e "map st (lx_blocker_request_ids e)"]
    by (auto simp: extent_bytes_if_def extent_in_def)
qed (simp add: extent_bytes_if_def)

lemma four_counts:
  "set xs \<subseteq> {''recent'', ''stale'', ''warming'', ''unknown''} \<Longrightarrow>
   count_if (\<lambda>s. s = ''recent'') xs + count_if (\<lambda>s. s = ''stale'') xs + count_if (\<lambda>s. s = ''warming'') xs
   + count_if (\<lambda>s. s = ''unknown'') xs = int (length xs)"
  by (induction xs) (auto simp: count_if_def)

lemma window_diag_bytes:
  "wd_recently_served_unique_bytes (window_diag l es B now w) = extent_bytes_if (extent_in (status_of l now w) ''recent'') es"
  "wd_locked_but_not_served_unique_bytes (window_diag l es B now w) = extent_bytes_if (extent_in (status_of l now w) ''stale'') es"
  "wd_warming_unique_bytes (window_diag l es B now w) = extent_bytes_if (extent_in (status_of l now w) ''warming'') es"
  "wd_unknown_unique_bytes (window_diag l es B now w) = extent_bytes_if (extent_in (status_of l now w) ''unknown'') es"
proof -
  have zero: "dict_get [(''recent'', 0), (''stale'', 0), (''warming'', 0), (''unknown'', 0)] s (0 :: int) = 0" for s
    by (simp add: dict_get_def)
  show "wd_recently_served_unique_bytes (window_diag l es B now w) = extent_bytes_if (extent_in (status_of l now w) ''recent'') es"
    "wd_locked_but_not_served_unique_bytes (window_diag l es B now w) = extent_bytes_if (extent_in (status_of l now w) ''stale'') es"
    "wd_warming_unique_bytes (window_diag l es B now w) = extent_bytes_if (extent_in (status_of l now w) ''warming'') es"
    "wd_unknown_unique_bytes (window_diag l es B now w) = extent_bytes_if (extent_in (status_of l now w) ''unknown'') es"
    by (simp_all add: window_diag_def Let_def case_prod_unfold window_fold_bytes zero)
qed

lemma window_diag_counts:
  assumes "finite B"
  shows "wd_recently_served_request_count (window_diag l es B now w) + wd_not_served_request_count (window_diag l es B now w)
    + wd_warming_request_count (window_diag l es B now w) + wd_unknown_request_count (window_diag l es B now w) = int (card B)"
proof -
  have "set (map (status_of l now w) (sorted_list_of_set B)) \<subseteq> {''recent'', ''stale'', ''warming'', ''unknown''}"
    using status_of_cases by auto
  from four_counts [OF this] assms show ?thesis by (simp add: window_diag_def Let_def case_prod_unfold)
qed

text \<open>A longer window turns statuses only towards service.\<close>

lemma status_recent_mono: "w \<le> w' \<Longrightarrow> status_of l now w r = ''recent'' \<Longrightarrow> status_of l now w' r = ''recent''"
  by (auto simp: status_of_def split: option.splits if_splits)

lemma status_stale_anti: "w \<le> w' \<Longrightarrow> status_of l now w' r = ''stale'' \<Longrightarrow> status_of l now w r = ''stale''"
  by (auto simp: status_of_def split: option.splits if_splits)

lemma not_image_iff: "x \<notin> f ` S \<longleftrightarrow> (\<forall>r \<in> S. f r \<noteq> x)"
  by auto

lemma extent_recent_iff:
  "extent_in status ''recent'' e \<longleftrightarrow> (\<exists>r \<in> set (lx_blocker_request_ids e). status r = ''recent'')"
proof -
  have "extent_in status ''recent'' e \<longleftrightarrow> lx_blocker_request_ids e \<noteq> [] \<and> ''recent'' \<in> status ` set (lx_blocker_request_ids e)"
    by (simp add: extent_in_def extent_status_def)
  moreover have "lx_blocker_request_ids e \<noteq> []" if "r \<in> set (lx_blocker_request_ids e)" for r using that by auto
  ultimately show ?thesis using not_image_iff [of "''recent''" status "set (lx_blocker_request_ids e)"] by blast
qed

lemma extent_stale_iff:
  "extent_in (status_of l now w) ''stale'' e \<longleftrightarrow> lx_blocker_request_ids e \<noteq> [] \<and>
     lx_engine_lock_ref e = int (length (lx_blocker_request_ids e)) \<and>
     (\<forall>r \<in> set (lx_blocker_request_ids e). status_of l now w r = ''stale'')"
proof -
  have "status_of l now w r = ''stale'' \<longleftrightarrow> status_of l now w r \<notin> {''recent'', ''warming'', ''unknown''}" for r
    using status_of_cases [of l now w r] by auto
  moreover have "extent_in (status_of l now w) ''stale'' e \<longleftrightarrow> lx_blocker_request_ids e \<noteq> [] \<and>
      ''recent'' \<notin> status_of l now w ` set (lx_blocker_request_ids e) \<and>
      lx_engine_lock_ref e = int (length (lx_blocker_request_ids e)) \<and>
      ''warming'' \<notin> status_of l now w ` set (lx_blocker_request_ids e) \<and>
      ''unknown'' \<notin> status_of l now w ` set (lx_blocker_request_ids e)"
    by (simp add: extent_in_def extent_status_def)
  ultimately show ?thesis unfolding not_image_iff by blast
qed

text \<open>The diagnostics are a partition. For valid extents, a non-negative time and positive windows
  \<open>summarize\<close> returns; the attributed bytes are the fully plus the partially attributed ones, and with
  the unattributed bytes they make up all locked bytes. In every window the recently served, not
  served, warming and unknown bytes are non-negative and add up to the attributed bytes, and the
  four request counts add up to the number of blocking requests. A longer window can only raise the
  recently served bytes and lower the bytes that count as not served.\<close>

theorem service_windows_partition:
  assumes valid: "list_all extent_valid es" and "0 \<le> now" and "0 \<le> errs" and "windows \<noteq> []" and "\<forall>w \<in> set windows. 0 < w"
  shows "\<exists>d. summarize l es now windows errs = Inr d \<and> map wd_window_ms (ld_windows d) = windows \<and>
    ld_fully_attributed_unique_bytes d + ld_partially_attributed_unique_bytes d = ld_attributed_unique_bytes d \<and>
    ld_attributed_unique_bytes d + ld_unattributed_unique_bytes d = ld_engine_locked_unique_bytes d \<and>
    0 \<le> ld_unattributed_unique_bytes d \<and>
    (\<forall>w \<in> set (ld_windows d).
       0 \<le> wd_recently_served_unique_bytes w \<and> 0 \<le> wd_locked_but_not_served_unique_bytes w \<and>
       0 \<le> wd_warming_unique_bytes w \<and> 0 \<le> wd_unknown_unique_bytes w \<and>
       wd_recently_served_unique_bytes w + wd_locked_but_not_served_unique_bytes w + wd_warming_unique_bytes w
         + wd_unknown_unique_bytes w = ld_attributed_unique_bytes d \<and>
       wd_recently_served_request_count w + wd_not_served_request_count w + wd_warming_request_count w
         + wd_unknown_request_count w = ld_blocker_request_count d) \<and>
    (\<forall>w \<in> set (ld_windows d). \<forall>w' \<in> set (ld_windows d). wd_window_ms w \<le> wd_window_ms w' \<longrightarrow>
       wd_recently_served_unique_bytes w \<le> wd_recently_served_unique_bytes w' \<and>
       wd_locked_but_not_served_unique_bytes w' \<le> wd_locked_but_not_served_unique_bytes w)"
proof -
  let ?B = "\<Union> (set ` lx_blocker_request_ids ` set es)"
  let ?d = "projr (summarize l es now windows errs)"
  have ok: "\<not> list_ex (\<lambda>w. w \<le> 0) windows" using assms(5) by (auto simp: list_ex_iff)
  have d: "summarize l es now windows errs = Inr ?d" "ld_windows ?d = map (window_diag l es ?B now) windows"
    "ld_attributed_unique_bytes ?d = extent_bytes_if (\<lambda>e. lx_blocker_request_ids e \<noteq> []) es"
    "ld_engine_locked_unique_bytes ?d = extent_bytes_if (\<lambda>_. True) es"
    "ld_unattributed_unique_bytes ?d = ld_engine_locked_unique_bytes ?d - ld_attributed_unique_bytes ?d"
    "ld_blocker_request_count ?d = int (card ?B)"
    "ld_fully_attributed_unique_bytes ?d + ld_partially_attributed_unique_bytes ?d = ld_attributed_unique_bytes ?d"
    using assms(2-4) ok
      extent_bytes_split [of "\<lambda>e. lx_blocker_request_ids e \<noteq> []" es "\<lambda>e. lx_engine_lock_ref e = int (length (lx_blocker_request_ids e))"]
    by (simp_all add: summarize_def validate_ts_def Let_def)
  have win: "wd_window_ms (window_diag l es B now w) = w" for B w by (simp add: window_diag_def Let_def case_prod_unfold)
  have le: "0 \<le> ld_unattributed_unique_bytes ?d"
    unfolding d(3-5) using extent_bytes_mono [OF valid, of "\<lambda>e. lx_blocker_request_ids e \<noteq> []" "\<lambda>_. True"] by simp
  have mono: "extent_bytes_if (extent_in (status_of l now w) ''recent'') es \<le> extent_bytes_if (extent_in (status_of l now w') ''recent'') es"
    "extent_bytes_if (extent_in (status_of l now w') ''stale'') es \<le> extent_bytes_if (extent_in (status_of l now w) ''stale'') es"
    if w: "w \<le> w'" for w w'
    by (intro extent_bytes_mono [OF valid]; use status_recent_mono [OF w] status_stale_anti [OF w] in
        \<open>unfold extent_recent_iff extent_stale_iff, blast\<close>)+
  have fin: "finite ?B" by simp
  show ?thesis
  proof (rule exI [of _ ?d], intro conjI ballI impI)
    show "map wd_window_ms (ld_windows ?d) = windows" unfolding d(2) by (simp add: win comp_def)
    fix w w'
    assume "w \<in> set (ld_windows ?d)" "w' \<in> set (ld_windows ?d)" "wd_window_ms w \<le> wd_window_ms w'"
    then show "wd_recently_served_unique_bytes w \<le> wd_recently_served_unique_bytes w'"
      "wd_locked_but_not_served_unique_bytes w' \<le> wd_locked_but_not_served_unique_bytes w"
      unfolding d(2) by (auto simp: win window_diag_bytes mono)
  next
    fix w
    assume "w \<in> set (ld_windows ?d)"
    then obtain x where w: "w = window_diag l es ?B now x" unfolding d(2) by auto
    show "0 \<le> wd_recently_served_unique_bytes w" "0 \<le> wd_locked_but_not_served_unique_bytes w"
      "0 \<le> wd_warming_unique_bytes w" "0 \<le> wd_unknown_unique_bytes w"
      unfolding w window_diag_bytes by (simp_all add: extent_bytes_nonneg [OF valid])
    show "wd_recently_served_unique_bytes w + wd_locked_but_not_served_unique_bytes w + wd_warming_unique_bytes w
        + wd_unknown_unique_bytes w = ld_attributed_unique_bytes ?d"
      unfolding w window_diag_bytes d(3) by (rule four_bytes)
    show "wd_recently_served_request_count w + wd_not_served_request_count w + wd_warming_request_count w
        + wd_unknown_request_count w = ld_blocker_request_count ?d"
      unfolding w d(6) by (rule window_diag_counts [OF fin])
  qed (use d le in simp_all)
qed

section \<open>The ledger\<close>

definition service_ok :: "string \<Rightarrow> service_record \<Rightarrow> bool" where
  "service_ok r rec \<longleftrightarrow> sv_request_id rec = r \<and> [] \<notin> {r, sv_workflow_id rec, sv_invocation_id rec, sv_context_id rec} \<and>
     0 \<le> sv_first_selected_ts_ms rec \<and> sv_first_selected_ts_ms rec \<le> sv_last_selected_ts_ms rec \<and>
     0 \<le> sv_completed_service_count rec \<and>
     (sv_last_completed_service_ts_ms rec = None \<longleftrightarrow> sv_completed_service_count rec = 0) \<and>
     (sv_last_service_phase rec = None \<longleftrightarrow> sv_completed_service_count rec = 0) \<and>
     (\<forall>t. sv_last_completed_service_ts_ms rec = Some t \<longrightarrow> sv_first_selected_ts_ms rec \<le> t)"

definition ledger_inv :: "service_ledger \<Rightarrow> bool" where
  "ledger_inv l \<longleftrightarrow> dict_ok l \<and> (\<forall>r rec. map_of l r = Some rec \<longrightarrow> service_ok r rec)"

inductive ledger_step :: "service_ledger \<Rightarrow> service_ledger \<Rightarrow> bool" where
  selected: "observe_selected r w i c ts l = Inr l' \<Longrightarrow> ledger_step l l'"
| completed: "observe_completed r ts phase l = Inr l' \<Longrightarrow> ledger_step l l'"
| forget: "ledger_step l (ledger_forget r l)"
| clear: "ledger_step l (ledger_clear l)"

lemma ledger_inv_update:
  "ledger_inv l \<Longrightarrow> service_ok r rec \<Longrightarrow> ledger_inv (AList.update r rec l)"
  by (auto simp: ledger_inv_def map_of_update split: if_splits)

lemma observe_selected_inv:
  assumes "observe_selected r w i c ts l = Inr l'" and inv: "ledger_inv l"
  shows "ledger_inv l'"
proof -
  have v: "[] \<notin> {r, w, i, c}" "0 \<le> ts"
    using assms(1) by (auto simp: observe_selected_def validate_identity_def validate_ts_def split: if_splits)
  show ?thesis
  proof (cases "map_of l r")
    case None
    then show ?thesis using assms(1) v inv
      by (auto simp: observe_selected_def service_ok_def intro!: ledger_inv_update)
  next
    case (Some p)
    then have "service_ok r p" using inv by (simp add: ledger_inv_def)
    then show ?thesis using assms(1) v inv Some
      by (auto simp: observe_selected_def service_ok_def split: if_splits intro!: ledger_inv_update)
  qed
qed

lemma observe_completed_inv:
  assumes "observe_completed r ts phase l = Inr l'" and inv: "ledger_inv l"
  shows "ledger_inv l'"
proof (cases "map_of l r")
  case None
  then show ?thesis using assms(1) by (auto simp: observe_completed_def split: if_splits)
next
  case (Some p)
  then have "service_ok r p" using inv by (simp add: ledger_inv_def)
  then show ?thesis using assms(1) inv Some
    by (auto simp: observe_completed_def service_ok_def split: if_splits intro!: ledger_inv_update)
qed

interpretation ledger: invariant_machine ledger_step ledger_inv
proof
  fix l l'
  assume "ledger_step l l'" and inv: "ledger_inv l"
  then show "ledger_inv l'"
  proof cases
    case selected
    then show ?thesis using inv by (rule observe_selected_inv)
  next
    case completed
    then show ?thesis using inv by (rule observe_completed_inv)
  next
    case forget
    then show ?thesis using inv by (auto simp: ledger_inv_def ledger_forget_def map_of_delete split: if_splits)
  next
    case clear
    then show ?thesis by (simp add: ledger_inv_def ledger_clear_def)
  qed
qed

text \<open>The ledger keeps its evidence in order and its two queries agree. In every ledger reached from the
  empty one, a record is stored under its own request, its first selection is not after its last one
  nor after a completion, and completion time, phase and a positive count come together. For every
  request, non-negative time and positive window, both queries return: the status is unknown exactly
  for requests the ledger does not track, recent or warming exactly for tracked requests whose
  staleness is within the window, recent with and warming without a completed service, and stale
  otherwise.\<close>

theorem ledger_queries_agree:
  assumes run: "rtranclp ledger_step [] l" and "0 \<le> now" and "0 < window"
  shows "\<exists>s age. service_status l r now window = Inr s \<and> stale_for_ms l r now = Inr age \<and> 0 \<le> age \<and>
    (s = ''unknown'' \<longleftrightarrow> \<not> ledger_tracks r l) \<and>
    (\<forall>rec. progress_record r l = Some rec \<longrightarrow> service_ok r rec \<and>
       s = (if window < age then ''stale'' else if 0 < sv_completed_service_count rec then ''recent'' else ''warming''))"
proof -
  have inv: "ledger_inv l" by (rule ledger.run_inv [OF run]) (simp add: ledger_inv_def)
  show ?thesis
  proof (cases "map_of l r")
    case None
    then show ?thesis using assms(2,3)
      by (simp add: service_status_def stale_for_ms_def validate_ts_def status_of_def ledger_tracks_def dict_in_def progress_record_def)
  next
    case (Some rec)
    then have ok: "service_ok r rec" using inv by (simp add: ledger_inv_def)
    then have "0 < sv_completed_service_count rec \<longleftrightarrow> sv_last_completed_service_ts_ms rec \<noteq> None"
      by (auto simp: service_ok_def)
    then show ?thesis using Some ok assms(2,3)
      by (cases "sv_last_completed_service_ts_ms rec")
        (auto simp: service_status_def stale_for_ms_def validate_ts_def status_of_def ledger_tracks_def dict_in_def progress_record_def)
  qed
qed

section \<open>A locked page\<close>

definition demo_extent :: locked_extent where
  "demo_extent = \<lparr>lx_handle = PageHandle 2 0, lx_size_bytes = 32, lx_engine_lock_ref = 1, lx_blocker_request_ids = [''r1'']\<rparr>"

lemma demo_extent_valid: "list_all extent_valid [demo_extent]"
  by (simp add: extent_valid_def locked_extent_post_init_def demo_extent_def py_sorted_set_def)

lemma map_of_keyed: "map_of (map (\<lambda>(k, v). (k, f k v)) d) k = map_option (f k) (map_of d k)"
  by (induction d) auto

lemma demo_provenance:
  assumes "set_engine_lock (PageHandle 2 0) 1 demo_ix = Inr ix1"
  shows "provenance_complete ix1 [demo_extent]"
proof -
  have inv: "ix_inv demo_ix" by (rule ix_reachable_inv [OF demo_reachable])
  have "ix_pages ix1 = map (\<lambda>(k, p). (k, locked_page [(PageHandle 2 0, 1)] k p)) (ix_pages demo_ix)"
    by (rule set_engine_lock_pages [OF assms inv])
  then have m: "map_of (ix_pages ix1) h = map_option (locked_page [(PageHandle 2 0, 1)] h) (map_of (ix_pages demo_ix) h)" for h
    by (simp add: map_of_keyed)
  have one: "map_of (ix_pages ix1) h = Some p \<and> page_locked p \<longleftrightarrow> h = PageHandle 2 0 \<and> map_of (ix_pages ix1) h = Some p" for h p
    unfolding m by (auto simp: demo_pages locked_page_def new_page_def page_locked_def gpu_resident_def dict_get_def split: if_splits)
  have page: "\<exists>p. map_of (ix_pages ix1) (PageHandle 2 0) = Some p \<and> pg_size_bytes p = 32 \<and> pg_engine_lock_ref p = 1"
    unfolding m by (simp add: demo_pages locked_page_def new_page_def dict_get_def)
  then have "{h. \<exists>p. map_of (ix_pages ix1) h = Some p \<and> page_locked p} = {PageHandle 2 0}" unfolding one by auto
  with page show ?thesis by (auto simp: provenance_complete_def demo_extent_def attributed_def)
qed

theorem tentative_unlock_exact_iff_witness:
  "\<exists>ix1 v ix'. set_engine_lock (PageHandle 2 0) 1 demo_ix = Inr ix1 \<and>
     tentative_unlock ix1 [demo_extent] [''r1''] 0 = Inr (v, ix') \<and> tu_exact v"
proof -
  obtain ix1 where l: "set_engine_lock (PageHandle 2 0) 1 demo_ix = Inr ix1" and run: "rtranclp ixq_step page_index_init ix1"
    using demo_locked by blast
  from tentative_unlock_exact_iff [OF run demo_extent_valid, of "[''r1'']" 0] demo_provenance [OF l] l show ?thesis by fastforce
qed

theorem tentative_unlock_projects_witness:
  "\<exists>ix1 v ix' ix2 b2 lk2 mg2. set_engine_lock (PageHandle 2 0) 1 demo_ix = Inr ix1 \<and>
     tentative_unlock ix1 [demo_extent] [''r1''] 0 = Inr (v, ix') \<and>
     ix_pages ix2 = map (without_requests [demo_extent] {''r1''}) (ix_pages ix1) \<and>
     calculate_physical_kv_state [] ix2 = (b2, lk2, mg2) \<and> tu_projected_migratable_bytes v = kb_migratable_bytes b2"
proof -
  obtain ix1 where l: "set_engine_lock (PageHandle 2 0) 1 demo_ix = Inr ix1" and run: "rtranclp ixq_step page_index_init ix1"
    using demo_locked by blast
  have ids: "[''r1''] \<noteq> []" "distinct [''r1'']" by simp_all
  note t = tentative_unlock_projects [OF run demo_extent_valid ids demo_provenance [OF l]]
  then obtain v ix' ix2 b2 lk2 mg2 where "tentative_unlock ix1 [demo_extent] [''r1''] 0 = Inr (v, ix')"
    "ix_pages ix2 = map (without_requests [demo_extent] (set [''r1''])) (ix_pages ix1)"
    "calculate_physical_kv_state [] ix2 = (b2, lk2, mg2)" "tu_projected_migratable_bytes v = kb_migratable_bytes b2"
    by (elim exE conjE) (rule that)
  with l show ?thesis by (intro exI conjI) simp_all
qed

definition demo_ledger :: service_ledger where
  "demo_ledger = projr (rbind (observe_selected ''r1'' ''w'' ''i'' ''c'' 5 []) (observe_completed ''r1'' 10 ''decode''))"

lemma demo_ledger_eval:
  "observe_selected ''r1'' ''w'' ''i'' ''c'' 5 [] = Inr l \<Longrightarrow> observe_completed ''r1'' 10 ''decode'' l = Inr demo_ledger"
  "\<exists>l. observe_selected ''r1'' ''w'' ''i'' ''c'' 5 [] = Inr l"
  "status_of demo_ledger 200 100 ''r1'' = ''stale''" "status_of demo_ledger 200 500 ''r1'' = ''recent''"
  "map_of demo_ledger ''r1'' \<noteq> None"
  by (auto simp: demo_ledger_def observe_selected_def observe_completed_def validate_identity_def validate_ts_def status_of_def)

theorem service_windows_partition_witness:
  "\<exists>d. summarize demo_ledger [demo_extent] 200 default_service_windows_ms 0 = Inr d \<and>
     map wd_window_ms (ld_windows d) = [100, 500] \<and> ld_attributed_unique_bytes d \<le> ld_engine_locked_unique_bytes d"
proof -
  have "default_service_windows_ms \<noteq> []" "\<forall>w \<in> set default_service_windows_ms. 0 < w"
    by (simp_all add: default_service_windows_ms_def)
  from service_windows_partition [OF demo_extent_valid _ _ this, of 200 0 demo_ledger] show ?thesis
    by (auto simp: default_service_windows_ms_def)
qed

theorem ledger_queries_agree_witness:
  "\<exists>s age. service_status demo_ledger ''r1'' 200 100 = Inr s \<and> stale_for_ms demo_ledger ''r1'' 200 = Inr age \<and>
     s \<noteq> ''unknown'' \<and> 0 \<le> age"
proof -
  have run: "rtranclp ledger_step [] demo_ledger"
    using demo_ledger_eval(1,2) ledger_step.selected ledger_step.completed
    by (metis rtranclp.rtrancl_into_rtrancl rtranclp.rtrancl_refl)
  have "ledger_tracks ''r1'' demo_ledger" using demo_ledger_eval(5) by (simp add: ledger_tracks_def dict_in_def)
  with ledger_queries_agree [OF run, of 200 100 "''r1''"] show ?thesis by auto
qed

end
