(* ===== verification/Retraction.thy ===== *)
theory Retraction
  imports Prelude
begin

text \<open>
  \<open>policy/retraction.py\<close>: choosing running requests to retract. When admission stalls, the planner
  looks for stale requests whose removal frees their private cache and unlocks the shared extents that
  only they hold, until a byte target is reached. The choice is greedy: each turn takes the package of
  requests with the best marginal gain.

  A \<open>frozenset\<close> of request identifiers is the sorted list of its elements. The loop over the set of
  packages takes them in ascending order; the comparison key ends with the added requests, so the order
  does not matter. Without the frontier option the key has no tier and no distance, here constants.
\<close>

section \<open>Records\<close>

record retraction_candidate =
  rtc_request_id :: string
  rtc_workflow_id :: string
  rtc_invocation_id :: string
  rtc_context_id :: string
  rtc_private_kv_bytes :: int
  rtc_service_status :: string
  rtc_stale_for_ms :: real
  rtc_causal_rank :: int
  rtc_unblock_depth :: int
  rtc_workflow_fair_rank :: int
  rtc_prior_retraction_count :: int
  rtc_policy_eligible :: bool
  rtc_frontier_class :: string
  rtc_prediction_support :: string
  rtc_service_to_boundary_tokens :: "real option"
  rtc_join_criticality :: real

definition candidate_post_init :: "retraction_candidate \<Rightarrow> retraction_candidate result" where
  "candidate_post_init c =
     (if [] \<in> {rtc_request_id c, rtc_workflow_id c, rtc_invocation_id c, rtc_context_id c}
      then Inl (ValueError ''retraction candidate identities must be non-empty'')
      else if rtc_service_status c \<notin> {''recent'', ''stale'', ''warming'', ''unknown''}
      then Inl (ValueError ''unsupported request service status'')
      else if Min {rtc_private_kv_bytes c, rtc_causal_rank c, rtc_unblock_depth c, rtc_workflow_fair_rank c,
                   rtc_prior_retraction_count c} < 0
      then Inl (ValueError ''retraction candidate counters must be non-negative'')
      else if rtc_stale_for_ms c < 0 then Inl (ValueError ''retraction service age must be non-negative'')
      else if rtc_frontier_class c \<notin> {''expand'', ''close'', ''hold'', ''unknown''}
      then Inl (ValueError ''unsupported retraction frontier class'')
      else if rtc_prediction_support c \<notin> {''exact'', ''backoff'', ''unavailable''}
      then Inl (ValueError ''unsupported retraction prediction support'')
      else if (case rtc_service_to_boundary_tokens c of None \<Rightarrow> False | Some t \<Rightarrow> t < 0)
      then Inl (ValueError ''service-to-boundary demand must be non-negative'')
      else if \<not> (0 \<le> rtc_join_criticality c \<and> rtc_join_criticality c \<le> 1)
      then Inl (ValueError ''join criticality must be in [0, 1]'')
      else Inr c)"

record retraction_extent =
  rtx_extent_id :: string
  rtx_size_bytes :: int
  rtx_blocker_request_ids :: "string list"
  rtx_fully_attributed :: bool

definition retraction_extent_post_init :: "retraction_extent \<Rightarrow> retraction_extent result" where
  "retraction_extent_post_init e =
     (if rtx_extent_id e = [] \<or> rtx_size_bytes e \<le> 0
      then Inl (ValueError ''retraction extent identity and size are required'')
      else if py_sorted_set (rtx_blocker_request_ids e) \<noteq> rtx_blocker_request_ids e
      then Inl (ValueError ''extent blockers must be sorted and unique'')
      else Inr e)"

record retraction_replacement =
  rtr_request_id :: string
  rtr_estimated_incremental_bytes :: int
  rtr_frontier_class :: string
  rtr_prediction_support :: string
  rtr_service_to_boundary_tokens :: "real option"
  rtr_join_criticality :: real

definition replacement_post_init :: "retraction_replacement \<Rightarrow> retraction_replacement result" where
  "replacement_post_init r =
     (if rtr_request_id r = [] then Inl (ValueError ''replacement request id must be non-empty'')
      else if rtr_estimated_incremental_bytes r < 0
      then Inl (ValueError ''replacement bytes must be non-negative'')
      else if rtr_frontier_class r \<notin> {''expand'', ''close'', ''hold'', ''unknown''}
      then Inl (ValueError ''unsupported replacement frontier class'')
      else if rtr_prediction_support r \<notin> {''exact'', ''backoff'', ''unavailable''}
      then Inl (ValueError ''unsupported replacement prediction support'')
      else if (case rtr_service_to_boundary_tokens r of None \<Rightarrow> False | Some t \<Rightarrow> t < 0)
      then Inl (ValueError ''replacement service demand must be non-negative'')
      else if \<not> (0 \<le> rtr_join_criticality r \<and> rtr_join_criticality r \<le> 1)
      then Inl (ValueError ''replacement join criticality must be in [0, 1]'')
      else Inr r)"

record retraction_snapshot =
  rts_observed_ts_ms :: real
  rts_page_revision :: int
  rts_topology_revision :: int
  rts_hbm_capacity_bytes :: int
  rts_active_kv_budget_bytes :: int
  rts_active_kv_footprint_bytes :: int
  rts_native_reclaim_capacity_bytes :: int
  rts_admission_stall_ms :: real
  rts_running_request_count :: int
  rts_minimum_active_requests :: int
  rts_candidates :: "retraction_candidate list"
  rts_locked_extents :: "retraction_extent list"
  rts_replacements :: "retraction_replacement list"

definition retraction_snapshot_post_init :: "retraction_snapshot \<Rightarrow> retraction_snapshot result" where
  "retraction_snapshot_post_init s =
     (if rts_observed_ts_ms s < 0 then Inl (ValueError ''retraction observation time must be non-negative'')
      else if rts_hbm_capacity_bytes s \<le> 0 then Inl (ValueError ''retraction HBM capacity must be positive'')
      else if Min {rts_page_revision s, rts_topology_revision s, rts_active_kv_budget_bytes s,
                   rts_active_kv_footprint_bytes s, rts_native_reclaim_capacity_bytes s,
                   rts_running_request_count s, rts_minimum_active_requests s} < 0
      then Inl (ValueError ''retraction snapshot counters must be non-negative'')
      else if rts_admission_stall_ms s < 0
      then Inl (ValueError ''retraction admission stall must be non-negative'')
      else if \<not> distinct (map rtc_request_id (rts_candidates s))
      then Inl (ValueError ''retraction candidates must be unique'')
      else if \<not> distinct (map rtr_request_id (rts_replacements s))
      then Inl (ValueError ''retraction replacements must be unique'')
      else Inr s)"

record retraction_plan =
  rtp_request_ids :: "string list"
  rtp_replacement_request_ids :: "string list"
  rtp_target_reclaim_bytes :: int
  rtp_expected_private_reclaim_bytes :: int
  rtp_expected_lock_release_bytes :: int
  rtp_expected_reclaim_capacity_bytes :: int
  rtp_native_reclaim_capacity_before :: int
  rtp_engine_locked_bytes_before :: int
  rtp_page_revision :: int
  rtp_topology_revision :: int
  rtp_observed_ts_ms :: real
  rtp_reason :: string

definition plan_post_init :: "retraction_plan \<Rightarrow> retraction_plan result" where
  "plan_post_init p =
     (if rtp_request_ids p = [] \<or> \<not> distinct (rtp_request_ids p)
      then Inl (ValueError ''retraction plan requires unique request ids'')
      else if \<not> distinct (rtp_replacement_request_ids p)
      then Inl (ValueError ''replacement request ids must be unique'')
      else if Min {rtp_target_reclaim_bytes p, rtp_expected_private_reclaim_bytes p, rtp_expected_lock_release_bytes p,
                   rtp_expected_reclaim_capacity_bytes p, rtp_native_reclaim_capacity_before p,
                   rtp_engine_locked_bytes_before p, rtp_page_revision p, rtp_topology_revision p} < 0
      then Inl (ValueError ''retraction plan counters must be non-negative'')
      else if rtp_expected_reclaim_capacity_bytes p < rtp_target_reclaim_bytes p
      then Inl (ValueError ''retraction plan does not cover its reclaim target'')
      else if rtp_reason p = [] then Inl (ValueError ''retraction plan reason must be non-empty'')
      else Inr p)"

record retraction_decision =
  rtd_plan :: "retraction_plan option"
  rtd_reason :: string
  rtd_target_reclaim_bytes :: int
  rtd_candidate_count :: int
  rtd_eligible_candidate_count :: int
  rtd_fully_attributed_extent_count :: int
  rtd_reclaim_capacity_bytes :: int

definition decision_post_init :: "retraction_decision \<Rightarrow> retraction_decision result" where
  "decision_post_init d =
     (if rtd_reason d = [] then Inl (ValueError ''retraction decision reason must be non-empty'')
      else if Min {rtd_target_reclaim_bytes d, rtd_candidate_count d, rtd_eligible_candidate_count d,
                   rtd_fully_attributed_extent_count d, rtd_reclaim_capacity_bytes d} < 0
      then Inl (ValueError ''retraction decision counters must be non-negative'')
      else if rtd_plan d \<noteq> None \<and> rtd_reason d \<noteq> ''plan_created''
      then Inl (ValueError ''a retraction plan requires plan_created reason'')
      else Inr d)"

record retraction_config =
  rtg_minimum_admission_stall_ms :: real
  rtg_minimum_reclaim_bytes :: int
  rtg_maximum_retractions_per_request :: int
  rtg_frontier_aware_enabled :: bool

definition retraction_config_post_init :: "retraction_config \<Rightarrow> retraction_config result" where
  "retraction_config_post_init c =
     (if rtg_minimum_admission_stall_ms c \<le> 0 then Inl (ValueError ''minimum admission stall must be positive'')
      else if rtg_minimum_reclaim_bytes c \<le> 0 then Inl (ValueError ''minimum retraction reclaim must be positive'')
      else if rtg_maximum_retractions_per_request c \<le> 0
      then Inl (ValueError ''maximum request retractions must be positive'')
      else Inr c)"

definition retraction_config_default :: retraction_config where
  "retraction_config_default =
     \<lparr>rtg_minimum_admission_stall_ms = 100, rtg_minimum_reclaim_bytes = 64 * 1024 * 1024,
      rtg_maximum_retractions_per_request = 3, rtg_frontier_aware_enabled = False\<rparr>"

section \<open>Candidates and replacements\<close>

definition frontier_protected :: "retraction_config \<Rightarrow> retraction_candidate \<Rightarrow> bool" where
  "frontier_protected cfg c =
     (if \<not> rtg_frontier_aware_enabled cfg then False
      else if rtc_prediction_support c \<noteq> ''exact'' then False
      else rtc_frontier_class c = ''expand'' \<or> (rtc_frontier_class c = ''close'' \<and> rtc_join_criticality c > 0))"

definition frontier_victim_tier :: "retraction_candidate \<Rightarrow> int" where
  "frontier_victim_tier c =
     (if rtc_prediction_support c = ''unavailable'' then 1
      else if rtc_frontier_class c = ''hold'' then 4
      else if rtc_frontier_class c = ''close'' then (if rtc_join_criticality c = 0 then 3 else 0)
      else if rtc_frontier_class c = ''unknown'' then 1
      else 0)"

definition replacement_priority :: "retraction_replacement \<Rightarrow> int" where
  "replacement_priority r =
     (if rtr_prediction_support r \<noteq> ''exact'' then 2
      else if rtr_frontier_class r = ''expand'' then 0
      else if rtr_frontier_class r = ''close'' \<and> rtr_join_criticality r > 0 then 1
      else 2)"

definition ordered_replacements :: "retraction_config \<Rightarrow> retraction_replacement list \<Rightarrow> retraction_replacement list" where
  "ordered_replacements cfg rs =
     (if \<not> rtg_frontier_aware_enabled cfg then rs
      else map snd (sort_key (\<lambda>(i, r). (replacement_priority r, i)) (enumerate 0 rs)))"

definition eligible_candidate :: "retraction_config \<Rightarrow> retraction_candidate \<Rightarrow> bool" where
  "eligible_candidate cfg c =
     (rtc_policy_eligible c \<and> rtc_service_status c = ''stale'' \<and>
      rtc_prior_retraction_count c < rtg_maximum_retractions_per_request cfg \<and> \<not> frontier_protected cfg c)"

definition eligible_dict :: "retraction_config \<Rightarrow> retraction_candidate list \<Rightarrow> (string, retraction_candidate) dict" where
  "eligible_dict cfg cs = fold (\<lambda>c. AList.update (rtc_request_id c) c) (filter (eligible_candidate cfg) cs) []"

definition usable_extents :: "retraction_extent list \<Rightarrow> retraction_extent list" where
  "usable_extents es = filter (\<lambda>e. rtx_fully_attributed e \<and> rtx_blocker_request_ids e \<noteq> []) es"

definition unlocked_bytes :: "retraction_extent list \<Rightarrow> string set \<Rightarrow> int" where
  "unlocked_bytes es selected =
     sum_list (map rtx_size_bytes (filter (\<lambda>e. set (rtx_blocker_request_ids e) \<subseteq> selected) es))"

definition lookup_all :: "(string, retraction_candidate) dict \<Rightarrow> string set \<Rightarrow> retraction_candidate list result" where
  "lookup_all eligible ids = rmap (\<lambda>r. dict_item eligible r r) (sorted_list_of_set ids)"

definition reclaim_capacity ::
  "string set \<Rightarrow> (string, retraction_candidate) dict \<Rightarrow> retraction_extent list \<Rightarrow> int result" where
  "reclaim_capacity selected eligible es =
     rbind (lookup_all eligible selected) (\<lambda>cs.
       Inr (sum_list (map rtc_private_kv_bytes cs) + unlocked_bytes es selected))"

definition packages :: "(string, retraction_candidate) dict \<Rightarrow> retraction_extent list \<Rightarrow> string list list" where
  "packages eligible es =
     py_sorted_set (map (\<lambda>(r, c). [r]) eligible @
       map (\<lambda>e. py_sorted_set (rtx_blocker_request_ids e))
         (filter (\<lambda>e. set (rtx_blocker_request_ids e) \<subseteq> fst ` set eligible) es))"

section \<open>The greedy choice\<close>

type_synonym package_key = "(int \<times> real) \<times> real \<times> int \<times> int \<times> int \<times> int \<times> real \<times> int \<times> int \<times> string list"

definition package_key ::
  "retraction_config \<Rightarrow> int \<Rightarrow> string set \<Rightarrow> retraction_candidate list \<Rightarrow> package_key" where
  "package_key cfg marginal additions cs =
     (let recompute_bytes = sum_list (map rtc_private_kv_bytes cs);
          frontier = (if rtg_frontier_aware_enabled cfg
            then (Min (frontier_victim_tier ` set cs),
                  Min ((\<lambda>c. case rtc_service_to_boundary_tokens c of None \<Rightarrow> 0 | Some t \<Rightarrow> t) ` set cs))
            else (0, 0)) in
      (frontier, of_int marginal / of_int (max 1 recompute_bytes), marginal, Min (rtc_causal_rank ` set cs),
       - Max (rtc_unblock_depth ` set cs), Min (rtc_workflow_fair_rank ` set cs), Min (rtc_stale_for_ms ` set cs),
       - Max (rtc_prior_retraction_count ` set cs), - int (card additions), sorted_list_of_set additions))"

type_synonym best_choice = "(package_key \<times> string set \<times> int) option"

definition improves :: "package_key \<Rightarrow> best_choice \<Rightarrow> bool" where
  "improves key best = (case best of None \<Rightarrow> True | Some (key', _, _) \<Rightarrow> key > key')"

definition try_package ::
  "retraction_config \<Rightarrow> (string, retraction_candidate) dict \<Rightarrow> retraction_extent list \<Rightarrow> int \<Rightarrow> string set \<Rightarrow> int
   \<Rightarrow> string list \<Rightarrow> best_choice \<Rightarrow> best_choice result" where
  "try_package cfg eligible es max_victims selected current_reclaim package best =
     (let additions = set package - selected in
      if additions = {} \<or> int (card (selected \<union> additions)) > max_victims then Inr best
      else rbind (reclaim_capacity (selected \<union> additions) eligible es) (\<lambda>reclaim.
        let marginal = reclaim - current_reclaim in
        if marginal \<le> 0 then Inr best
        else rbind (lookup_all eligible additions) (\<lambda>cs.
          let key = package_key cfg marginal additions cs in
          if improves key best then Inr (Some (key, additions, reclaim)) else Inr best)))"

definition best_package ::
  "retraction_config \<Rightarrow> (string, retraction_candidate) dict \<Rightarrow> retraction_extent list \<Rightarrow> int \<Rightarrow> string set \<Rightarrow> int
   \<Rightarrow> string list list \<Rightarrow> best_choice result" where
  "best_package cfg eligible es max_victims selected current_reclaim pks =
     rfold (try_package cfg eligible es max_victims selected current_reclaim) pks None"

lemma try_package_cases:
  assumes "try_package cfg eligible es mv sel cur p best = Inr b" and "b \<noteq> best"
  obtains key reclaim where "b = Some (key, set p - sel, reclaim)" and "set p - sel \<noteq> {}"
    and "int (card (sel \<union> (set p - sel))) \<le> mv" and "reclaim_capacity (sel \<union> (set p - sel)) eligible es = Inr reclaim"
    and "cur < reclaim"
proof -
  have guard: "set p - sel \<noteq> {}" "int (card (sel \<union> (set p - sel))) \<le> mv"
    using assms by (auto simp only: try_package_def Let_def split: if_split_asm)
  then obtain reclaim where r: "reclaim_capacity (sel \<union> (set p - sel)) eligible es = Inr reclaim"
    using assms(1) by (auto simp only: try_package_def Let_def split: if_split_asm)
  have less: "cur < reclaim" using assms guard r by (simp only: try_package_def Let_def rbind_simps split: if_split_asm) simp_all
  then obtain cs where cs: "lookup_all eligible (set p - sel) = Inr cs"
    using assms guard r by (auto simp only: try_package_def Let_def rbind_simps split: if_split_asm)
  have "b = Some (package_key cfg (reclaim - cur) (set p - sel) cs, set p - sel, reclaim)"
    using assms guard r less cs by (simp only: try_package_def Let_def rbind_simps split: if_split_asm) simp_all
  then show thesis by (rule that [OF _ guard r less])
qed

definition choice_ok ::
  "(string, retraction_candidate) dict \<Rightarrow> retraction_extent list \<Rightarrow> int \<Rightarrow> string set \<Rightarrow> int \<Rightarrow> string list list
   \<Rightarrow> best_choice \<Rightarrow> bool" where
  "choice_ok eligible es mv sel cur pks b \<longleftrightarrow> (\<forall>key adds reclaim. b = Some (key, adds, reclaim) \<longrightarrow>
     adds \<noteq> {} \<and> (\<exists>p \<in> set pks. adds = set p - sel) \<and> int (card (sel \<union> adds)) \<le> mv \<and>
     reclaim_capacity (sel \<union> adds) eligible es = Inr reclaim \<and> cur < reclaim)"

lemma best_package_ok:
  assumes "best_package cfg eligible es mv sel cur pks = Inr b"
  shows "choice_ok eligible es mv sel cur pks b"
proof (rule rfold_invariant [where P = "choice_ok eligible es mv sel cur pks", OF assms [unfolded best_package_def]])
  show "choice_ok eligible es mv sel cur pks None" by (simp add: choice_ok_def)
  fix p s t
  assume p: "p \<in> set pks" "choice_ok eligible es mv sel cur pks s" "try_package cfg eligible es mv sel cur p s = Inr t"
  show "choice_ok eligible es mv sel cur pks t"
  proof (cases "t = s")
    case False
    then show ?thesis by (rule try_package_cases [OF p(3)]) (use p(1) in \<open>auto simp: choice_ok_def\<close>)
  qed (use p(2) in simp)
qed

text \<open>The loop until the target is reached; \<open>None\<close> when no package helps any more.\<close>

function greedy ::
  "retraction_config \<Rightarrow> (string, retraction_candidate) dict \<Rightarrow> retraction_extent list \<Rightarrow> int \<Rightarrow> string list list \<Rightarrow> int
   \<Rightarrow> string set \<Rightarrow> int \<Rightarrow> (string set \<times> int) option result" where
  "greedy cfg eligible es max_victims pks target selected current_reclaim =
     (if current_reclaim < target
      then case best_package cfg eligible es max_victims selected current_reclaim pks of
          Inl e \<Rightarrow> Inl e
        | Inr None \<Rightarrow> Inr None
        | Inr (Some (_, additions, reclaim)) \<Rightarrow>
            greedy cfg eligible es max_victims pks target (selected \<union> additions) reclaim
      else Inr (Some (selected, current_reclaim)))"
  by pat_completeness auto

termination greedy
proof (relation "measure (\<lambda>(cfg, eligible, es, mv, pks, target, selected, cur). card (\<Union> (set ` set pks) - selected))", goal_cases)
  case (2 cfg eligible es mv pks target sel cur x2 y key z adds reclaim)
  then have "best_package cfg eligible es mv sel cur pks = Inr (Some (key, adds, reclaim))" by simp
  from best_package_ok [OF this] have "adds \<noteq> {}" "\<exists>p \<in> set pks. adds = set p - sel"
    unfolding choice_ok_def by blast+
  then have "\<Union> (set ` set pks) - (sel \<union> adds) \<subset> \<Union> (set ` set pks) - sel" by blast
  then show ?case by (auto intro: psubset_card_mono)
qed simp

declare greedy.simps [simp del]

section \<open>The decision\<close>

definition victim_order :: "retraction_config \<Rightarrow> retraction_candidate \<Rightarrow> int \<times> int \<times> int \<times> real \<times> string" where
  "victim_order cfg c =
     (if rtg_frontier_aware_enabled cfg then - frontier_victim_tier c else 0,
      - rtc_causal_rank c, - rtc_workflow_fair_rank c, - rtc_stale_for_ms c, rtc_request_id c)"

fun fit_replacements :: "retraction_replacement list \<Rightarrow> int \<Rightarrow> string list" where
  "fit_replacements [] remaining = []"
| "fit_replacements (r # rs) remaining =
     (if rtr_estimated_incremental_bytes r > remaining then []
      else rtr_request_id r # fit_replacements rs (remaining - rtr_estimated_incremental_bytes r))"

definition no_plan :: "string \<Rightarrow> int \<Rightarrow> int \<Rightarrow> int \<Rightarrow> int \<Rightarrow> int \<Rightarrow> retraction_decision result" where
  "no_plan reason target count eligible_count extent_count capacity =
     decision_post_init
       \<lparr>rtd_plan = None, rtd_reason = reason, rtd_target_reclaim_bytes = target, rtd_candidate_count = count,
        rtd_eligible_candidate_count = eligible_count, rtd_fully_attributed_extent_count = extent_count,
        rtd_reclaim_capacity_bytes = capacity\<rparr>"

definition build_plan ::
  "retraction_config \<Rightarrow> retraction_snapshot \<Rightarrow> retraction_replacement list \<Rightarrow> int \<Rightarrow> (string, retraction_candidate) dict
   \<Rightarrow> retraction_extent list \<Rightarrow> string set \<Rightarrow> int \<Rightarrow> retraction_plan result" where
  "build_plan cfg s replacements target eligible es selected current_reclaim =
     rbind (lookup_all eligible selected) (\<lambda>cs.
       plan_post_init
         \<lparr>rtp_request_ids = map rtc_request_id (sort_key (victim_order cfg) cs),
          rtp_replacement_request_ids =
            fit_replacements replacements (rts_native_reclaim_capacity_bytes s + current_reclaim),
          rtp_target_reclaim_bytes = target,
          rtp_expected_private_reclaim_bytes = sum_list (map rtc_private_kv_bytes cs),
          rtp_expected_lock_release_bytes = unlocked_bytes es selected,
          rtp_expected_reclaim_capacity_bytes = current_reclaim,
          rtp_native_reclaim_capacity_before = rts_native_reclaim_capacity_bytes s,
          rtp_engine_locked_bytes_before = sum_list (map rtx_size_bytes (rts_locked_extents s)),
          rtp_page_revision = rts_page_revision s,
          rtp_topology_revision = rts_topology_revision s,
          rtp_observed_ts_ms = rts_observed_ts_ms s,
          rtp_reason = (if rtg_frontier_aware_enabled cfg then ''frontier_aware_lock_closure_reclaim''
                        else ''observed_lock_closure_reclaim'')\<rparr>)"

definition decide :: "retraction_config \<Rightarrow> retraction_snapshot \<Rightarrow> retraction_decision result" where
  "decide cfg s =
     (let count = int (length (rts_candidates s)) in
      if rts_admission_stall_ms s < rtg_minimum_admission_stall_ms cfg
      then no_plan ''admission_stall_below_threshold'' 0 count 0 0 0
      else case ordered_replacements cfg (rts_replacements s) of
        [] \<Rightarrow> no_plan ''replacement_absent'' 0 count 0 0 0
      | first # rest \<Rightarrow>
          if rts_running_request_count s \<le> rts_minimum_active_requests s
          then no_plan ''active_floor'' 0 count 0 0 0
          else
            let deficit = max 0 (rtr_estimated_incremental_bytes first - rts_native_reclaim_capacity_bytes s);
                excess = max 0 (rts_active_kv_footprint_bytes s - rts_active_kv_budget_bytes s) in
            if deficit = 0 \<and> excess = 0 then no_plan ''pressure_absent'' 0 count 0 0 0
            else
              let target = max (rtg_minimum_reclaim_bytes cfg) (max deficit excess);
                  eligible = eligible_dict cfg (rts_candidates s);
                  max_victims = max 0 (rts_running_request_count s - rts_minimum_active_requests s) in
              if eligible = [] \<or> max_victims = 0
              then no_plan ''no_eligible_stale_candidate'' target count (int (length eligible)) 0 0
              else
                let es = usable_extents (rts_locked_extents s) in
                rbind (greedy cfg eligible es max_victims (packages eligible es) target {} 0) (\<lambda>chosen.
                  case chosen of
                    None \<Rightarrow>
                      rbind (reclaim_capacity (fst ` set eligible) eligible es) (\<lambda>optimistic.
                        no_plan (if optimistic < target then ''insufficient_unlock_capacity''
                                 else ''selection_search_exhausted'')
                          target count (int (length eligible)) (int (length es)) optimistic)
                  | Some (selected, current_reclaim) \<Rightarrow>
                      rbind (build_plan cfg s (first # rest) target eligible es selected current_reclaim) (\<lambda>p.
                        decision_post_init
                          \<lparr>rtd_plan = Some p, rtd_reason = ''plan_created'', rtd_target_reclaim_bytes = target,
                           rtd_candidate_count = count, rtd_eligible_candidate_count = int (length eligible),
                           rtd_fully_attributed_extent_count = int (length es),
                           rtd_reclaim_capacity_bytes = current_reclaim\<rparr>)))"

definition plan :: "retraction_config \<Rightarrow> retraction_snapshot \<Rightarrow> retraction_plan option result" where
  "plan cfg s = rbind (decide cfg s) (\<lambda>d. Inr (rtd_plan d))"

end
