(* ===== verification/Retraction_Safety.thy ===== *)
theory Retraction_Safety
  imports Retraction "HOL-Library.Multiset"
begin

text \<open>
  What the retraction planner promises: for every valid snapshot it returns; a plan names only stale,
  unprotected candidates, keeps the floor of active requests, frees at least its target and makes room
  for the replacements it lists; and a refusal for lack of capacity means that no choice of victims
  would have been enough.
\<close>

section \<open>Eligible candidates\<close>

lemma eligible_dict_ok: "dict_ok (eligible_dict cfg cs)"
proof -
  have "dict_ok (fold (\<lambda>c. AList.update (rtc_request_id c) c) xs d)" if "dict_ok d"
    for xs :: "retraction_candidate list" and d
    using that by (induction xs arbitrary: d) auto
  then show ?thesis by (simp add: eligible_dict_def)
qed

lemma eligible_dict_lookup:
  assumes "map_of (eligible_dict cfg cs) r = Some c"
  shows "c \<in> set cs" "rtc_request_id c = r" "eligible_candidate cfg c"
proof -
  have "c \<in> set xs \<and> rtc_request_id c = r" if "map_of (fold (\<lambda>c. AList.update (rtc_request_id c) c) xs []) r = Some c"
    for xs :: "retraction_candidate list"
    using that by (induction xs rule: rev_induct) (auto simp: map_of_update split: if_splits)
  from this [OF assms [unfolded eligible_dict_def]]
  show "c \<in> set cs" "rtc_request_id c = r" "eligible_candidate cfg c" by auto
qed

lemma eligible_dict_keys: "fst ` set (eligible_dict cfg cs) = rtc_request_id ` {c \<in> set cs. eligible_candidate cfg c}"
proof -
  have "fst ` set (fold (\<lambda>c. AList.update (rtc_request_id c) c) xs []) = rtc_request_id ` set xs"
    for xs :: "retraction_candidate list"
    by (induction xs rule: rev_induct) auto
  then show ?thesis by (simp add: eligible_dict_def)
qed

section \<open>Reclaimed bytes\<close>

definition cand :: "(string, retraction_candidate) dict \<Rightarrow> string \<Rightarrow> retraction_candidate" where
  "cand d r = the (map_of d r)"

definition reclaim_of :: "(string, retraction_candidate) dict \<Rightarrow> retraction_extent list \<Rightarrow> string set \<Rightarrow> int" where
  "reclaim_of d es sel = (\<Sum>r \<in> sel. rtc_private_kv_bytes (cand d r)) + unlocked_bytes es sel"

lemma lookup_all_total:
  assumes "ids \<subseteq> fst ` set d"
  shows "lookup_all d ids = Inr (map (cand d) (sorted_list_of_set ids))"
proof -
  have "finite ids" using assms by (rule finite_subset) simp
  have "rmap (\<lambda>r. dict_item d r r) xs = Inr (map (cand d) xs)" if "set xs \<subseteq> fst ` set d" for xs
    using that
  proof (induction xs)
    case (Cons x xs)
    then obtain c where "map_of d x = Some c" by (metis insert_subset list.simps(15) map_of_eq_None_iff not_None_eq)
    with Cons show ?case by (simp add: cand_def dict_item_def)
  qed simp
  then show ?thesis using assms \<open>finite ids\<close> by (simp add: lookup_all_def)
qed

lemma reclaim_capacity_total:
  assumes "sel \<subseteq> fst ` set d"
  shows "reclaim_capacity sel d es = Inr (reclaim_of d es sel)"
proof -
  have "finite sel" using assms by (rule finite_subset) simp
  then have "sum_list (map rtc_private_kv_bytes (map (cand d) (sorted_list_of_set sel))) = (\<Sum>r \<in> sel. rtc_private_kv_bytes (cand d r))"
    by (simp add: comp_def sum_list_distinct_conv_sum_set)
  then show ?thesis by (simp add: reclaim_capacity_def lookup_all_total [OF assms] reclaim_of_def)
qed

definition costs_ok :: "(string, retraction_candidate) dict \<Rightarrow> retraction_extent list \<Rightarrow> bool" where
  "costs_ok d es \<longleftrightarrow> (\<forall>r \<in> fst ` set d. 0 \<le> rtc_private_kv_bytes (cand d r)) \<and> (\<forall>e \<in> set es. 0 < rtx_size_bytes e)"

lemma unlocked_bytes_mono:
  assumes "\<forall>e \<in> set es. 0 < rtx_size_bytes e" and "A \<subseteq> B"
  shows "0 \<le> unlocked_bytes es A" and "unlocked_bytes es A \<le> unlocked_bytes es B"
  using assms by (induction es) (auto simp: unlocked_bytes_def)

lemma reclaim_of_mono:
  assumes "costs_ok d es" and "A \<subseteq> B" and B: "B \<subseteq> fst ` set d"
  shows "reclaim_of d es A \<le> reclaim_of d es B" and "0 \<le> reclaim_of d es A"
proof -
  have fin: "finite B" using B by (rule finite_subset) simp
  have "(\<Sum>r \<in> A. rtc_private_kv_bytes (cand d r)) \<le> (\<Sum>r \<in> B. rtc_private_kv_bytes (cand d r))"
    by (rule sum_mono2 [OF fin assms(2)]) (use assms B in \<open>auto simp: costs_ok_def\<close>)
  moreover have "0 \<le> (\<Sum>r \<in> A. rtc_private_kv_bytes (cand d r))"
    by (rule sum_nonneg) (use assms B in \<open>auto simp: costs_ok_def\<close>)
  ultimately show "reclaim_of d es A \<le> reclaim_of d es B" "0 \<le> reclaim_of d es A"
    using unlocked_bytes_mono [OF _ assms(2)] assms(1) by (fastforce simp: reclaim_of_def costs_ok_def)+
qed

section \<open>The greedy loop\<close>

lemma packages_eligible: "p \<in> set (packages d es) \<Longrightarrow> set p \<subseteq> fst ` set d"
  by (force simp: packages_def)

lemma try_package_total:
  assumes "set p \<subseteq> fst ` set d" and "sel \<subseteq> fst ` set d"
  shows "\<exists>b. try_package cfg d es mv sel cur p best = Inr b"
proof -
  have "sel \<union> (set p - sel) \<subseteq> fst ` set d" "set p - sel \<subseteq> fst ` set d" using assms by auto
  note tot = reclaim_capacity_total [OF this(1)] lookup_all_total [OF this(2)]
  show ?thesis unfolding try_package_def Let_def tot rbind_simps by (simp del: Un_Diff_cancel)
qed

lemma best_package_total:
  assumes "\<And>p. p \<in> set pks \<Longrightarrow> set p \<subseteq> fst ` set d" and "sel \<subseteq> fst ` set d"
  shows "\<exists>b. best_package cfg d es mv sel cur pks = Inr b"
proof -
  have "\<exists>b. rfold (try_package cfg d es mv sel cur) pks best = Inr b" for best
    using assms(1)
  proof (induction pks arbitrary: best)
    case (Cons p pks)
    obtain b where "try_package cfg d es mv sel cur p best = Inr b" using try_package_total [OF Cons.prems assms(2)] by fastforce
    with Cons show ?case by simp
  qed simp
  then show ?thesis by (simp add: best_package_def)
qed

lemma greedy_sound:
  assumes "\<And>p. p \<in> set pks \<Longrightarrow> set p \<subseteq> fst ` set d" and "sel \<subseteq> fst ` set d" and "int (card sel) \<le> mv" and "cur = reclaim_of d es sel"
  shows "greedy cfg d es mv pks target sel cur = Inr None \<or>
    (\<exists>S. greedy cfg d es mv pks target sel cur = Inr (Some (S, reclaim_of d es S)) \<and> S \<subseteq> fst ` set d \<and>
       int (card S) \<le> mv \<and> target \<le> reclaim_of d es S)"
  using assms
proof (induction cfg d es mv pks target sel cur rule: greedy.induct)
  case (1 cfg d es mv pks target sel cur)
  show ?case
  proof (cases "cur < target")
    case True
    obtain b where b: "best_package cfg d es mv sel cur pks = Inr b" using best_package_total [OF "1.prems"(1,2)] by blast
    show ?thesis
    proof (cases b)
      case None
      then show ?thesis using True b by (simp add: greedy.simps)
    next
      case (Some x)
      obtain key adds reclaim where x: "x = (key, adds, reclaim)" by (rule prod_cases3)
      have ok: "\<exists>p \<in> set pks. adds = set p - sel" "int (card (sel \<union> adds)) \<le> mv" "reclaim_capacity (sel \<union> adds) d es = Inr reclaim"
        using best_package_ok [OF b] unfolding Some x choice_ok_def by blast+
      have sub: "sel \<union> adds \<subseteq> fst ` set d" using ok(1) "1.prems"(1,2) by blast
      then have "reclaim = reclaim_of d es (sel \<union> adds)" using ok(3) reclaim_capacity_total [OF sub] by simp
      from "1.IH" [OF True b Some x [symmetric] refl "1.prems"(1) sub ok(2) this]
      show ?thesis using True b by (simp add: greedy.simps [of cfg d es mv pks target sel cur] Some x)
    qed
  next
    case False
    then show ?thesis using "1.prems" by (simp add: greedy.simps)
  qed
qed

section \<open>Replacements\<close>

lemma ordered_replacements_mset: "mset (ordered_replacements cfg rs) = mset rs"
proof -
  have "mset (map snd (sort_key f (enumerate 0 rs))) = mset rs" for f :: "nat \<times> retraction_replacement \<Rightarrow> int \<times> nat"
    by (metis map_snd_enumerate mset_map mset_sort)
  then show ?thesis by (simp add: ordered_replacements_def)
qed

lemma ordered_replacements_empty [simp]: "ordered_replacements cfg rs = [] \<longleftrightarrow> rs = []"
  using ordered_replacements_mset [of cfg rs] by (metis mset_zero_iff)

lemma fit_replacements_prefix:
  assumes "0 \<le> remaining"
  shows "\<exists>n. fit_replacements rs remaining = map rtr_request_id (take n rs) \<and>
    sum_list (map rtr_estimated_incremental_bytes (take n rs)) \<le> remaining"
  using assms
proof (induction rs arbitrary: remaining)
  case (Cons r rs)
  show ?case
  proof (cases "rtr_estimated_incremental_bytes r > remaining")
    case True
    then show ?thesis using Cons.prems by (intro exI [of _ 0]) simp
  next
    case False
    then obtain n where "fit_replacements rs (remaining - rtr_estimated_incremental_bytes r) = map rtr_request_id (take n rs)"
      "sum_list (map rtr_estimated_incremental_bytes (take n rs)) \<le> remaining - rtr_estimated_incremental_bytes r"
      using Cons.IH [of "remaining - rtr_estimated_incremental_bytes r"] by auto
    with False show ?thesis by (intro exI [of _ "Suc n"]) simp
  qed
qed simp

section \<open>The plan\<close>

definition snapshot_valid :: "retraction_config \<Rightarrow> retraction_snapshot \<Rightarrow> bool" where
  "snapshot_valid cfg s \<longleftrightarrow> retraction_config_post_init cfg = Inr cfg \<and> retraction_snapshot_post_init s = Inr s \<and>
     (\<forall>c \<in> set (rts_candidates s). candidate_post_init c = Inr c) \<and>
     (\<forall>e \<in> set (rts_locked_extents s). retraction_extent_post_init e = Inr e) \<and>
     (\<forall>r \<in> set (rts_replacements s). replacement_post_init r = Inr r)"

lemma snapshot_validD:
  assumes "snapshot_valid cfg s"
  shows "0 < rtg_minimum_reclaim_bytes cfg" "0 \<le> rts_native_reclaim_capacity_bytes s" "0 \<le> rts_page_revision s"
    "0 \<le> rts_topology_revision s" "distinct (map rtc_request_id (rts_candidates s))"
    "distinct (map rtr_request_id (rts_replacements s))"
    "\<And>c. c \<in> set (rts_candidates s) \<Longrightarrow> 0 \<le> rtc_private_kv_bytes c"
    "\<And>e. e \<in> set (rts_locked_extents s) \<Longrightarrow> 0 < rtx_size_bytes e"
proof -
  show "0 < rtg_minimum_reclaim_bytes cfg"
    using assms unfolding snapshot_valid_def retraction_config_post_init_def guard_Inr by simp
  show "0 \<le> rts_native_reclaim_capacity_bytes s" "0 \<le> rts_page_revision s" "0 \<le> rts_topology_revision s"
    "distinct (map rtc_request_id (rts_candidates s))" "distinct (map rtr_request_id (rts_replacements s))"
    using assms unfolding snapshot_valid_def retraction_snapshot_post_init_def guard_Inr by (simp_all add: not_less)
  show "0 \<le> rtc_private_kv_bytes c" if "c \<in> set (rts_candidates s)" for c
  proof -
    have "candidate_post_init c = Inr c" using assms that by (simp add: snapshot_valid_def)
    then have "\<not> Min {rtc_private_kv_bytes c, rtc_causal_rank c, rtc_unblock_depth c, rtc_workflow_fair_rank c,
        rtc_prior_retraction_count c} < 0" unfolding candidate_post_init_def guard_Inr by blast
    then show ?thesis by (simp add: not_less)
  qed
  show "0 < rtx_size_bytes e" if "e \<in> set (rts_locked_extents s)" for e
  proof -
    have "retraction_extent_post_init e = Inr e" using assms that by (simp add: snapshot_valid_def)
    then show ?thesis unfolding retraction_extent_post_init_def guard_Inr by simp
  qed
qed

lemma costs_ok_snapshot:
  assumes "snapshot_valid cfg s"
  shows "costs_ok (eligible_dict cfg (rts_candidates s)) (usable_extents (rts_locked_extents s))"
proof -
  note v = snapshot_validD [OF assms]
  have "0 \<le> rtc_private_kv_bytes (cand (eligible_dict cfg (rts_candidates s)) r)"
    if r: "r \<in> fst ` set (eligible_dict cfg (rts_candidates s))" for r
  proof -
    obtain c where c: "map_of (eligible_dict cfg (rts_candidates s)) r = Some c" using r by (metis map_of_eq_None_iff not_None_eq)
    then show ?thesis using v(7) [OF eligible_dict_lookup(1) [OF c]] by (simp add: cand_def)
  qed
  then show ?thesis using v(8) by (auto simp: costs_ok_def usable_extents_def)
qed

text \<open>What a plan says about the requests it removes and the ones it lets in.\<close>

definition plan_sound :: "retraction_config \<Rightarrow> retraction_snapshot \<Rightarrow> retraction_plan \<Rightarrow> bool" where
  "plan_sound cfg s p \<longleftrightarrow>
     rtp_request_ids p \<noteq> [] \<and> distinct (rtp_request_ids p) \<and>
     (\<forall>r \<in> set (rtp_request_ids p). \<exists>c \<in> set (rts_candidates s). rtc_request_id c = r \<and> eligible_candidate cfg c) \<and>
     int (length (rtp_request_ids p)) \<le> rts_running_request_count s - rts_minimum_active_requests s \<and>
     rtp_expected_private_reclaim_bytes p =
       (\<Sum>c \<in> {c \<in> set (rts_candidates s). rtc_request_id c \<in> set (rtp_request_ids p)}. rtc_private_kv_bytes c) \<and>
     rtp_expected_lock_release_bytes p = unlocked_bytes (usable_extents (rts_locked_extents s)) (set (rtp_request_ids p)) \<and>
     rtp_expected_reclaim_capacity_bytes p = rtp_expected_private_reclaim_bytes p + rtp_expected_lock_release_bytes p \<and>
     rtg_minimum_reclaim_bytes cfg \<le> rtp_expected_reclaim_capacity_bytes p \<and>
     rts_active_kv_footprint_bytes s - rtp_expected_reclaim_capacity_bytes p \<le> rts_active_kv_budget_bytes s \<and>
     (\<exists>n > 0. rtp_replacement_request_ids p = map rtr_request_id (take n (ordered_replacements cfg (rts_replacements s))) \<and>
        sum_list (map rtr_estimated_incremental_bytes (take n (ordered_replacements cfg (rts_replacements s))))
          \<le> rts_native_reclaim_capacity_bytes s + rtp_expected_reclaim_capacity_bytes p)"

lemma cand_ids:
  assumes "S \<subseteq> fst ` set (eligible_dict cfg cs)" and "distinct (map rtc_request_id cs)"
  shows "inj_on (cand (eligible_dict cfg cs)) S" and "rtc_request_id ` cand (eligible_dict cfg cs) ` S = S"
    "\<And>r. r \<in> S \<Longrightarrow> rtc_request_id (cand (eligible_dict cfg cs) r) = r \<and> cand (eligible_dict cfg cs) r \<in> set cs \<and>
       eligible_candidate cfg (cand (eligible_dict cfg cs) r)"
    "cand (eligible_dict cfg cs) ` S = {c \<in> set cs. rtc_request_id c \<in> S}"
proof -
  let ?d = "eligible_dict cfg cs"
  have c: "rtc_request_id (cand ?d r) = r \<and> cand ?d r \<in> set cs \<and> eligible_candidate cfg (cand ?d r)" if r: "r \<in> S" for r
  proof -
    have "r \<in> fst ` set ?d" using r assms(1) by blast
    then obtain c where "map_of ?d r = Some c" by (metis map_of_eq_None_iff not_None_eq)
    with eligible_dict_lookup [OF this] show ?thesis by (simp add: cand_def)
  qed
  show "\<And>r. r \<in> S \<Longrightarrow> rtc_request_id (cand ?d r) = r \<and> cand ?d r \<in> set cs \<and> eligible_candidate cfg (cand ?d r)" by (rule c)
  show "inj_on (cand ?d) S" by (rule inj_on_inverseI [of S rtc_request_id]) (use c in blast)
  show "rtc_request_id ` cand ?d ` S = S" using c by (force simp: image_image)
  show "cand ?d ` S = {c \<in> set cs. rtc_request_id c \<in> S}"
  proof (intro set_eqI iffI)
    fix x
    assume "x \<in> {c \<in> set cs. rtc_request_id c \<in> S}"
    then have x: "x \<in> set cs" "rtc_request_id x \<in> S" by auto
    with c [OF x(2)] assms(2) have "x = cand ?d (rtc_request_id x)" by (metis (no_types, lifting) distinct_map inj_onD)
    then show "x \<in> cand ?d ` S" using x(2) by blast
  qed (use c in auto)
qed

lemma plan_post_init_ok:
  assumes "rtp_request_ids p \<noteq> []" "distinct (rtp_request_ids p)" "distinct (rtp_replacement_request_ids p)"
    and "0 \<le> rtp_target_reclaim_bytes p" "0 \<le> rtp_expected_private_reclaim_bytes p" "0 \<le> rtp_expected_lock_release_bytes p"
    "0 \<le> rtp_native_reclaim_capacity_before p" "0 \<le> rtp_engine_locked_bytes_before p" "0 \<le> rtp_page_revision p"
    "0 \<le> rtp_topology_revision p" "rtp_target_reclaim_bytes p \<le> rtp_expected_reclaim_capacity_bytes p" "rtp_reason p \<noteq> []"
  shows "plan_post_init p = Inr p"
proof -
  have "\<not> Min {rtp_target_reclaim_bytes p, rtp_expected_private_reclaim_bytes p, rtp_expected_lock_release_bytes p,
      rtp_expected_reclaim_capacity_bytes p, rtp_native_reclaim_capacity_before p, rtp_engine_locked_bytes_before p,
      rtp_page_revision p, rtp_topology_revision p} < 0" (is "\<not> Min ?A < 0")
  proof -
    have "0 \<le> x" if "x \<in> ?A" for x using that assms(4-11) by auto
    then have "0 \<le> Min ?A" by (intro Min.boundedI) simp_all
    then show ?thesis by (simp only: not_less)
  qed
  with assms show ?thesis unfolding plan_post_init_def by (simp only: if_False not_less [symmetric] simp_thms)
qed

lemma build_plan_sound:
  assumes valid: "snapshot_valid cfg s" and repl: "ordered_replacements cfg (rts_replacements s) = first # rest"
    and d: "d = eligible_dict cfg (rts_candidates s)" and es: "es = usable_extents (rts_locked_extents s)"
    and S: "S \<subseteq> fst ` set d" and card: "int (card S) \<le> rts_running_request_count s - rts_minimum_active_requests s"
    and target: "target \<le> reclaim_of d es S" "rtg_minimum_reclaim_bytes cfg \<le> target"
      "rtr_estimated_incremental_bytes first - rts_native_reclaim_capacity_bytes s \<le> target"
      "rts_active_kv_footprint_bytes s - rts_active_kv_budget_bytes s \<le> target"
  shows "\<exists>p. build_plan cfg s (first # rest) target d es S (reclaim_of d es S) = Inr p \<and> plan_sound cfg s p"
proof -
  note v = snapshot_validD [OF valid] and costs = costs_ok_snapshot [OF valid, folded d es]
  note ids = cand_ids [OF S [unfolded d] v(5), folded d]
  have fin: "finite S" using S by (rule finite_subset) simp
  let ?cs = "map (cand d) (sorted_list_of_set S)"
  let ?ids = "map rtc_request_id (sort_key (victim_order cfg) ?cs)"
  let ?R = "reclaim_of d es S"
  have set_ids: "set ?ids = S" using ids(2) fin by simp
  have "distinct ?cs" using ids(1) fin by (simp add: distinct_map)
  then have "distinct (sort_key (victim_order cfg) ?cs)" by simp
  moreover have "inj_on rtc_request_id (set (sort_key (victim_order cfg) ?cs))"
    using ids(3) fin by (auto simp: inj_on_def)
  ultimately have dist: "distinct ?ids" by (simp add: distinct_map)
  then have len: "length ?ids = card S" using distinct_card [OF dist] set_ids by simp
  have pos: "0 < target" using v(1) target(2) by linarith
  have nonempty: "S \<noteq> {}"
  proof
    assume "S = {}"
    then have "?R = 0" using costs
      by (auto simp: reclaim_of_def unlocked_bytes_def es usable_extents_def filter_empty_conv)
    with pos target(1) show False by simp
  qed
  have priv: "sum_list (map rtc_private_kv_bytes ?cs) = (\<Sum>r \<in> S. rtc_private_kv_bytes (cand d r))"
    using fin by (simp add: comp_def sum_list_distinct_conv_sum_set)
  also have "\<dots> = (\<Sum>c \<in> cand d ` S. rtc_private_kv_bytes c)" by (rule sum.reindex_cong [OF ids(1) refl refl, symmetric])
  finally have priv': "sum_list (map rtc_private_kv_bytes ?cs) = (\<Sum>c \<in> {c \<in> set (rts_candidates s). rtc_request_id c \<in> S}. rtc_private_kv_bytes c)"
    unfolding ids(4) .
  have nn: "0 \<le> (\<Sum>r \<in> S. rtc_private_kv_bytes (cand d r))" by (rule sum_nonneg) (use costs S in \<open>auto simp: costs_ok_def\<close>)
  have un: "0 \<le> unlocked_bytes es S" using unlocked_bytes_mono(1) [of es S S] costs by (simp add: costs_ok_def)
  have lockb: "0 \<le> sum_list (map rtx_size_bytes (rts_locked_extents s))"
    by (rule sum_list_nonneg) (use v(8) in \<open>auto simp: less_imp_le\<close>)
  have rem: "0 \<le> rts_native_reclaim_capacity_bytes s + ?R" using v(2) target(1) pos by linarith
  obtain n where n: "fit_replacements (first # rest) (rts_native_reclaim_capacity_bytes s + ?R) = map rtr_request_id (take n (first # rest))"
    "sum_list (map rtr_estimated_incremental_bytes (take n (first # rest))) \<le> rts_native_reclaim_capacity_bytes s + ?R"
    using fit_replacements_prefix [OF rem] by blast
  have fits: "\<not> rtr_estimated_incremental_bytes first > rts_native_reclaim_capacity_bytes s + ?R" using target(1,3) by linarith
  have "n > 0"
  proof (rule ccontr)
    assume "\<not> n > 0"
    then have "fit_replacements (first # rest) (rts_native_reclaim_capacity_bytes s + ?R) = []" using n(1) by simp
    with fits show False by simp
  qed
  have "distinct (map rtr_request_id (first # rest))"
    using v(6) ordered_replacements_mset [of cfg "rts_replacements s"] unfolding repl
    by (metis mset_eq_imp_distinct_iff mset_map)
  then have "distinct (take n (map rtr_request_id (first # rest)))" by (rule distinct_take)
  then have dr: "distinct (map rtr_request_id (take n (first # rest)))" by (simp only: take_map)
  define p where "p = \<lparr>rtp_request_ids = ?ids, rtp_replacement_request_ids = map rtr_request_id (take n (first # rest)),
    rtp_target_reclaim_bytes = target, rtp_expected_private_reclaim_bytes = sum_list (map rtc_private_kv_bytes ?cs),
    rtp_expected_lock_release_bytes = unlocked_bytes es S, rtp_expected_reclaim_capacity_bytes = ?R,
    rtp_native_reclaim_capacity_before = rts_native_reclaim_capacity_bytes s,
    rtp_engine_locked_bytes_before = sum_list (map rtx_size_bytes (rts_locked_extents s)),
    rtp_page_revision = rts_page_revision s, rtp_topology_revision = rts_topology_revision s,
    rtp_observed_ts_ms = rts_observed_ts_ms s,
    rtp_reason = (if rtg_frontier_aware_enabled cfg then ''frontier_aware_lock_closure_reclaim'' else ''observed_lock_closure_reclaim'')\<rparr>"
  have ne: "?ids \<noteq> []" using set_ids nonempty by (metis set_empty)
  have "build_plan cfg s (first # rest) target d es S ?R = plan_post_init p"
    unfolding build_plan_def lookup_all_total [OF S] rbind_simps n(1) p_def ..
  also have "\<dots> = Inr p"
    by (rule plan_post_init_ok)
      (simp_all only: p_def retraction_plan.simps ne dist dr un lockb v(2-4) priv nn target(1) less_imp_le [OF pos]
        not_False_eq_True if_split list.simps refl, simp)
  finally have ok: "build_plan cfg s (first # rest) target d es S ?R = Inr p" .
  moreover have "plan_sound cfg s p"
    unfolding plan_sound_def repl
  proof (intro conjI ballI)
    show "rtp_request_ids p \<noteq> []" "distinct (rtp_request_ids p)" using ne dist by (simp_all add: p_def)
    show "\<exists>c \<in> set (rts_candidates s). rtc_request_id c = r \<and> eligible_candidate cfg c" if "r \<in> set (rtp_request_ids p)" for r
    proof -
      have "r \<in> S" using that set_ids by (simp add: p_def)
      then show ?thesis using ids(3) by blast
    qed
    show "int (length (rtp_request_ids p)) \<le> rts_running_request_count s - rts_minimum_active_requests s"
      using card len by (simp add: p_def)
    show "rtp_expected_private_reclaim_bytes p =
       (\<Sum>c \<in> {c \<in> set (rts_candidates s). rtc_request_id c \<in> set (rtp_request_ids p)}. rtc_private_kv_bytes c)"
      using priv' set_ids by (simp add: p_def)
    show "rtp_expected_lock_release_bytes p = unlocked_bytes (usable_extents (rts_locked_extents s)) (set (rtp_request_ids p))"
      using set_ids by (simp add: p_def es)
    show "rtp_expected_reclaim_capacity_bytes p = rtp_expected_private_reclaim_bytes p + rtp_expected_lock_release_bytes p"
      using priv by (simp add: p_def reclaim_of_def)
    show "rtg_minimum_reclaim_bytes cfg \<le> rtp_expected_reclaim_capacity_bytes p"
      "rts_active_kv_footprint_bytes s - rtp_expected_reclaim_capacity_bytes p \<le> rts_active_kv_budget_bytes s"
      using target by (simp_all add: p_def)
    show "\<exists>n > 0. rtp_replacement_request_ids p = map rtr_request_id (take n (first # rest)) \<and>
        sum_list (map rtr_estimated_incremental_bytes (take n (first # rest)))
          \<le> rts_native_reclaim_capacity_bytes s + rtp_expected_reclaim_capacity_bytes p"
      using \<open>n > 0\<close> n(2) by (intro exI [of _ n]) (simp add: p_def)
  qed
  ultimately show ?thesis by blast
qed

section \<open>The decision\<close>

lemma decision_post_init_ok:
  assumes "rtd_reason d \<noteq> []" and "0 \<le> rtd_target_reclaim_bytes d" "0 \<le> rtd_candidate_count d" "0 \<le> rtd_eligible_candidate_count d"
    "0 \<le> rtd_fully_attributed_extent_count d" "0 \<le> rtd_reclaim_capacity_bytes d"
    and "rtd_plan d = None \<or> rtd_reason d = ''plan_created''"
  shows "decision_post_init d = Inr d"
proof -
  have "\<not> Min {rtd_target_reclaim_bytes d, rtd_candidate_count d, rtd_eligible_candidate_count d,
      rtd_fully_attributed_extent_count d, rtd_reclaim_capacity_bytes d} < 0" (is "\<not> Min ?A < 0")
  proof -
    have "0 \<le> x" if "x \<in> ?A" for x using that assms(2-6) by auto
    then have "0 \<le> Min ?A" by (intro Min.boundedI) simp_all
    then show ?thesis by (simp only: not_less)
  qed
  with assms(1,7) show ?thesis unfolding decision_post_init_def by (auto simp only: if_False simp_thms)
qed

lemma no_plan_ok:
  assumes "reason \<noteq> []" and "0 \<le> target" "0 \<le> ccount" "0 \<le> ecount" "0 \<le> xcount" "0 \<le> capacity"
  shows "no_plan reason target ccount ecount xcount capacity =
    Inr \<lparr>rtd_plan = None, rtd_reason = reason, rtd_target_reclaim_bytes = target, rtd_candidate_count = ccount,
      rtd_eligible_candidate_count = ecount, rtd_fully_attributed_extent_count = xcount, rtd_reclaim_capacity_bytes = capacity\<rparr>"
  unfolding no_plan_def by (rule decision_post_init_ok) (simp_all add: assms)

definition eligible_ids :: "retraction_config \<Rightarrow> retraction_snapshot \<Rightarrow> string set" where
  "eligible_ids cfg s = rtc_request_id ` {c \<in> set (rts_candidates s). eligible_candidate cfg c}"

definition freed_bytes :: "retraction_snapshot \<Rightarrow> string set \<Rightarrow> int" where
  "freed_bytes s S = (\<Sum>c \<in> {c \<in> set (rts_candidates s). rtc_request_id c \<in> S}. rtc_private_kv_bytes c)
     + unlocked_bytes (usable_extents (rts_locked_extents s)) S"

lemma reclaim_of_freed:
  assumes "snapshot_valid cfg s" and "S \<subseteq> eligible_ids cfg s"
  shows "reclaim_of (eligible_dict cfg (rts_candidates s)) (usable_extents (rts_locked_extents s)) S = freed_bytes s S"
proof -
  have S: "S \<subseteq> fst ` set (eligible_dict cfg (rts_candidates s))" using assms(2) by (simp add: eligible_dict_keys eligible_ids_def)
  note ids = cand_ids [OF S snapshot_validD(5) [OF assms(1)]]
  have "(\<Sum>r \<in> S. rtc_private_kv_bytes (cand (eligible_dict cfg (rts_candidates s)) r)) =
      (\<Sum>c \<in> cand (eligible_dict cfg (rts_candidates s)) ` S. rtc_private_kv_bytes c)"
    by (rule sum.reindex_cong [OF ids(1) refl refl, symmetric])
  then show ?thesis by (simp add: reclaim_of_def freed_bytes_def ids(4))
qed

text \<open>The three ways a decision ends.\<close>

definition decision_sound :: "retraction_config \<Rightarrow> retraction_snapshot \<Rightarrow> retraction_decision \<Rightarrow> bool" where
  "decision_sound cfg s d \<longleftrightarrow>
     (\<forall>p. rtd_plan d = Some p \<longrightarrow> plan_sound cfg s p) \<and>
     (rtd_reason d = ''insufficient_unlock_capacity'' \<longrightarrow>
        (\<forall>S \<subseteq> eligible_ids cfg s. freed_bytes s S < rtd_target_reclaim_bytes d))"

lemma decision_soundI:
  assumes "pl = None" and "reason \<noteq> ''insufficient_unlock_capacity''"
  shows "decision_sound cfg s \<lparr>rtd_plan = pl, rtd_reason = reason, rtd_target_reclaim_bytes = a, rtd_candidate_count = b,
    rtd_eligible_candidate_count = c, rtd_fully_attributed_extent_count = e, rtd_reclaim_capacity_bytes = f\<rparr>"
  using assms by (simp only: decision_sound_def retraction_decision.simps simp_thms option.simps)

lemma decide_greedy:
  assumes valid: "snapshot_valid cfg s" and repl: "ordered_replacements cfg (rts_replacements s) = first # rest"
    and floor: "rts_minimum_active_requests s < rts_running_request_count s"
    and d: "d = eligible_dict cfg (rts_candidates s)" and es: "es = usable_extents (rts_locked_extents s)"
    and target: "rtg_minimum_reclaim_bytes cfg \<le> target"
      "rtr_estimated_incremental_bytes first - rts_native_reclaim_capacity_bytes s \<le> target"
      "rts_active_kv_footprint_bytes s - rts_active_kv_budget_bytes s \<le> target"
    and mv: "mv = max 0 (rts_running_request_count s - rts_minimum_active_requests s)"
  shows "\<exists>x. rbind (greedy cfg d es mv (packages d es) target {} 0) (\<lambda>chosen.
      case chosen of
        None \<Rightarrow>
          rbind (reclaim_capacity (fst ` set d) d es) (\<lambda>optimistic.
            no_plan (if optimistic < target then ''insufficient_unlock_capacity'' else ''selection_search_exhausted'')
              target (int (length (rts_candidates s))) (int (length d)) (int (length es)) optimistic)
      | Some (selected, current_reclaim) \<Rightarrow>
          rbind (build_plan cfg s (first # rest) target d es selected current_reclaim) (\<lambda>p.
            decision_post_init
              \<lparr>rtd_plan = Some p, rtd_reason = ''plan_created'', rtd_target_reclaim_bytes = target,
               rtd_candidate_count = int (length (rts_candidates s)), rtd_eligible_candidate_count = int (length d),
               rtd_fully_attributed_extent_count = int (length es),
               rtd_reclaim_capacity_bytes = current_reclaim\<rparr>)) = Inr x \<and> decision_sound cfg s x"
proof -
  note costs = costs_ok_snapshot [OF valid, folded d es]
  have pos: "0 < target" using snapshot_validD(1) [OF valid] target(1) by linarith
  have keys: "fst ` set d = eligible_ids cfg s" by (simp add: d eligible_dict_keys eligible_ids_def)
  have mv': "mv = rts_running_request_count s - rts_minimum_active_requests s" using mv floor by simp
  have zero: "0 = reclaim_of d es {}" by (auto simp: reclaim_of_def unlocked_bytes_def es usable_extents_def filter_empty_conv)
  have start: "{} \<subseteq> fst ` set d" "int (card {}) \<le> mv" using floor mv' by simp_all
  have pk: "set p \<subseteq> fst ` set d" if "p \<in> set (packages d es)" for p using that by (rule packages_eligible)
  consider (none) "greedy cfg d es mv (packages d es) target {} 0 = Inr None"
    | (some) S where "greedy cfg d es mv (packages d es) target {} 0 = Inr (Some (S, reclaim_of d es S))" "S \<subseteq> fst ` set d"
        "int (card S) \<le> mv" "target \<le> reclaim_of d es S"
    using greedy_sound [OF pk start zero] by blast
  then show ?thesis
  proof cases
    case none
    let ?o = "reclaim_of d es (fst ` set d)"
    have nn: "0 \<le> ?o" using reclaim_of_mono(2) [OF costs order_refl order_refl] .
    have best: "freed_bytes s S \<le> ?o" if "S \<subseteq> eligible_ids cfg s" for S
      using reclaim_of_mono(1) [OF costs that [folded keys] order_refl] reclaim_of_freed [OF valid that] by (simp add: d es)
    let ?x = "\<lparr>rtd_plan = None, rtd_reason = (if ?o < target then ''insufficient_unlock_capacity'' else ''selection_search_exhausted''),
      rtd_target_reclaim_bytes = target, rtd_candidate_count = int (length (rts_candidates s)),
      rtd_eligible_candidate_count = int (length d), rtd_fully_attributed_extent_count = int (length es), rtd_reclaim_capacity_bytes = ?o\<rparr>"
    have "no_plan (if ?o < target then ''insufficient_unlock_capacity'' else ''selection_search_exhausted'')
        target (int (length (rts_candidates s))) (int (length d)) (int (length es)) ?o = Inr ?x"
      by (rule no_plan_ok) (simp_all add: less_imp_le [OF pos] nn)
    moreover have "decision_sound cfg s ?x"
      unfolding decision_sound_def using best by (auto intro: le_less_trans)
    ultimately show ?thesis unfolding none rbind_simps option.case reclaim_capacity_total [OF order_refl] by blast
  next
    case some
    obtain p where p: "build_plan cfg s (first # rest) target d es S (reclaim_of d es S) = Inr p" "plan_sound cfg s p"
      using build_plan_sound [OF valid repl d es some(2) some(3) [unfolded mv'] some(4) target] by blast
    let ?x = "\<lparr>rtd_plan = Some p, rtd_reason = ''plan_created'', rtd_target_reclaim_bytes = target,
      rtd_candidate_count = int (length (rts_candidates s)), rtd_eligible_candidate_count = int (length d),
      rtd_fully_attributed_extent_count = int (length es), rtd_reclaim_capacity_bytes = reclaim_of d es S\<rparr>"
    have "decision_post_init ?x = Inr ?x"
      by (rule decision_post_init_ok) (use pos some(4) in simp_all)
    moreover have "decision_sound cfg s ?x" using p(2) by (simp add: decision_sound_def)
    ultimately show ?thesis unfolding some(1) rbind_simps option.case prod.case p(1) by blast
  qed
qed

lemma decide_sound:
  assumes valid: "snapshot_valid cfg s"
  shows "\<exists>x. decide cfg s = Inr x \<and> decision_sound cfg s x"
proof -
  let ?n = "int (length (rts_candidates s))"
  have pos: "0 < rtg_minimum_reclaim_bytes cfg" by (rule snapshot_validD(1) [OF valid])
  have np: "\<exists>x. no_plan reason t ?n k 0 0 = Inr x \<and> decision_sound cfg s x"
    if "reason \<noteq> []" "reason \<noteq> ''insufficient_unlock_capacity''" "0 \<le> t" "0 \<le> k" for reason t k
    using no_plan_ok [of reason t ?n k 0 0] decision_soundI [OF refl that(2)] that by simp
  show ?thesis
  proof (cases "ordered_replacements cfg (rts_replacements s)")
    case Nil
    show ?thesis unfolding decide_def Let_def Nil list.case
      by (cases "rts_admission_stall_ms s < rtg_minimum_admission_stall_ms cfg") (simp_all add: np)
  next
    case (Cons first rest)
    let ?deficit = "max 0 (rtr_estimated_incremental_bytes first - rts_native_reclaim_capacity_bytes s)"
    let ?excess = "max 0 (rts_active_kv_footprint_bytes s - rts_active_kv_budget_bytes s)"
    let ?target = "max (rtg_minimum_reclaim_bytes cfg) (max ?deficit ?excess)"
    have t: "rtg_minimum_reclaim_bytes cfg \<le> ?target" "rtr_estimated_incremental_bytes first - rts_native_reclaim_capacity_bytes s \<le> ?target"
      "rts_active_kv_footprint_bytes s - rts_active_kv_budget_bytes s \<le> ?target" "0 \<le> ?target" using pos by linarith+
    note g = decide_greedy [OF valid Cons _ refl refl t(1-3) refl]
    have split: "\<exists>x. (if b then r else r') = Inr x \<and> decision_sound cfg s x"
      if "b \<Longrightarrow> \<exists>x. r = Inr x \<and> decision_sound cfg s x" "\<not> b \<Longrightarrow> \<exists>x. r' = Inr x \<and> decision_sound cfg s x" for b r r'
      using that by simp
    show ?thesis unfolding decide_def Let_def Cons list.case
      by (intro split np g) (use t(4) in simp_all)
  qed
qed

text \<open>C18. The retraction planner is total and its plans are sound. For every valid configuration and snapshot
  \<open>decide\<close> returns (none of the checks of the plan and the decision fails). A plan names distinct requests,
  at least one, all of them eligible: allowed by policy, stale, below the retraction limit and not protected
  by the frontier; retracting them leaves at least the minimum of active requests running. Its reclaimed
  bytes are exactly the private bytes of these requests plus the fully attributed extents that only they
  block, cover the configured minimum and the active excess, and together with the native capacity make
  room for the replacements it lists, a non-empty prefix of the replacement order.\<close>

theorem retraction_plan_sound:
  assumes "snapshot_valid cfg s"
  shows "\<exists>d. decide cfg s = Inr d \<and> (\<forall>p. rtd_plan d = Some p \<longrightarrow> plan_sound cfg s p)"
  using decide_sound [OF assms] by (auto simp: decision_sound_def)

text \<open>A refusal for lack of capacity is justified: when \<open>decide\<close> answers
  \<open>insufficient_unlock_capacity\<close>, retracting any set of eligible candidates, of any size, would free fewer
  bytes than the target. The greedy search never gives up wrongly for this reason.\<close>

theorem retraction_refusal_justified:
  assumes "snapshot_valid cfg s" and "decide cfg s = Inr d" and "rtd_reason d = ''insufficient_unlock_capacity''"
    and "S \<subseteq> eligible_ids cfg s"
  shows "freed_bytes s S < rtd_target_reclaim_bytes d"
  using decide_sound [OF assms(1)] assms(2-4) by (auto simp: decision_sound_def)

section \<open>Examples\<close>

definition demo_candidate :: "string \<Rightarrow> int \<Rightarrow> retraction_candidate" where
  "demo_candidate r bytes = \<lparr>rtc_request_id = r, rtc_workflow_id = ''w'', rtc_invocation_id = ''i'', rtc_context_id = ''c'',
     rtc_private_kv_bytes = bytes, rtc_service_status = ''stale'', rtc_stale_for_ms = 900, rtc_causal_rank = 1,
     rtc_unblock_depth = 0, rtc_workflow_fair_rank = 0, rtc_prior_retraction_count = 0, rtc_policy_eligible = True,
     rtc_frontier_class = ''unknown'', rtc_prediction_support = ''unavailable'', rtc_service_to_boundary_tokens = None,
     rtc_join_criticality = 0\<rparr>"

definition demo_snapshot :: "int \<Rightarrow> retraction_snapshot" where
  "demo_snapshot needed = \<lparr>rts_observed_ts_ms = 1000, rts_page_revision = 3, rts_topology_revision = 2, rts_hbm_capacity_bytes = 1000,
     rts_active_kv_budget_bytes = 500, rts_active_kv_footprint_bytes = 400, rts_native_reclaim_capacity_bytes = 10,
     rts_admission_stall_ms = 200, rts_running_request_count = 3, rts_minimum_active_requests = 1,
     rts_candidates = [demo_candidate ''r1'' 5, demo_candidate ''r2'' 7],
     rts_locked_extents = [\<lparr>rtx_extent_id = ''x'', rtx_size_bytes = 40, rtx_blocker_request_ids = [''r1'', ''r2''], rtx_fully_attributed = True\<rparr>],
     rts_replacements = [\<lparr>rtr_request_id = ''n'', rtr_estimated_incremental_bytes = needed, rtr_frontier_class = ''unknown'',
       rtr_prediction_support = ''unavailable'', rtr_service_to_boundary_tokens = None, rtr_join_criticality = 0\<rparr>]\<rparr>"

definition demo_config :: retraction_config where
  "demo_config = \<lparr>rtg_minimum_admission_stall_ms = 100, rtg_minimum_reclaim_bytes = 20, rtg_maximum_retractions_per_request = 3,
     rtg_frontier_aware_enabled = False\<rparr>"

lemma demo_snapshot_valid: "0 \<le> needed \<Longrightarrow> snapshot_valid demo_config (demo_snapshot needed)"
  by (simp add: snapshot_valid_def demo_snapshot_def demo_config_def demo_candidate_def retraction_config_post_init_def
      retraction_snapshot_post_init_def candidate_post_init_def retraction_extent_post_init_def replacement_post_init_def py_sorted_set_def)

lemma demo_plan: "(case decide demo_config (demo_snapshot 60) of Inl e \<Rightarrow> None | Inr d \<Rightarrow> map_option rtp_request_ids (rtd_plan d))
    = Some [''r1'', ''r2'']"
  by code_simp

lemma demo_refusal: "(case decide demo_config (demo_snapshot 100) of Inl e \<Rightarrow> None | Inr d \<Rightarrow> Some (rtd_reason d, rtd_target_reclaim_bytes d))
    = Some (''insufficient_unlock_capacity'', 90)"
  by code_simp

theorem retraction_plan_sound_witness:
  "\<exists>d p. decide demo_config (demo_snapshot 60) = Inr d \<and> rtd_plan d = Some p \<and> rtp_request_ids p = [''r1'', ''r2''] \<and>
     plan_sound demo_config (demo_snapshot 60) p"
proof -
  have "snapshot_valid demo_config (demo_snapshot 60)" by (rule demo_snapshot_valid) simp
  from retraction_plan_sound [OF this] demo_plan show ?thesis by auto
qed

theorem retraction_refusal_justified_witness:
  "\<exists>d. decide demo_config (demo_snapshot 100) = Inr d \<and> freed_bytes (demo_snapshot 100) {''r1'', ''r2''} < 90"
proof -
  have v: "snapshot_valid demo_config (demo_snapshot 100)" by (rule demo_snapshot_valid) simp
  obtain d where d: "decide demo_config (demo_snapshot 100) = Inr d" "rtd_reason d = ''insufficient_unlock_capacity''"
    "rtd_target_reclaim_bytes d = 90" using demo_refusal by (auto split: sum.splits)
  have "{''r1'', ''r2''} \<subseteq> eligible_ids demo_config (demo_snapshot 100)"
  proof -
    have e: "r \<in> eligible_ids demo_config (demo_snapshot 100)" if "demo_candidate r n \<in> set (rts_candidates (demo_snapshot 100))" for r n
    proof -
      have "eligible_candidate demo_config (demo_candidate r n)"
        by (simp add: demo_config_def demo_candidate_def eligible_candidate_def frontier_protected_def)
      with that have "rtc_request_id (demo_candidate r n) \<in> eligible_ids demo_config (demo_snapshot 100)"
        unfolding eligible_ids_def by blast
      then show ?thesis by (simp add: demo_candidate_def)
    qed
    have "demo_candidate ''r1'' 5 \<in> set (rts_candidates (demo_snapshot 100))" "demo_candidate ''r2'' 7 \<in> set (rts_candidates (demo_snapshot 100))"
      by (simp_all add: demo_snapshot_def)
    from this [THEN e] show ?thesis by blast
  qed
  from retraction_refusal_justified [OF v d(1,2) this] d show ?thesis by auto
qed

end
