(* ===== verification/Transfer_Guard.thy ===== *)
theory Transfer_Guard
  imports Bundles
begin

text \<open>
  \<open>policy/transfer_guard.py\<close>: a transfer that was rejected is not tried again until the condition
  that rejected it changes. An attempt is identified by its context, epoch, kind and bundle and by
  a fingerprint of the pages and owners it depends on; a failure blocks exactly this key. Known
  blockers wait for a new fingerprint or for free capacity, an unknown failure of the backend
  backs off exponentially until a circuit breaker opens.

  The graph and the page index the guard holds by reference are arguments. A \<open>BlockedTransferAttempt\<close> is
  mutated in place; the dictionary is its only owner between two calls, so the mutation is an update
  under its key. A loop over \<open>tuple(d.items())\<close> folds over the entries the dictionary had when it began.
\<close>

section \<open>Records\<close>

definition guarded_kinds :: "command_kind set" where
  "guarded_kinds = {OFFLOAD_CONTEXT, SHADOW_CONTEXT, PREFETCH_CONTEXT, DROP_TERMINAL_PRIVATE}"

record attempt_key =
  ak_context_id :: string
  ak_context_epoch :: int
  ak_command_kind :: command_kind
  ak_bundle_id :: string
  ak_closure_fingerprint :: string

record guard_event =
  ge_kind :: string
  ge_ts_ms :: real
  ge_fields :: "(string, py_value) dict"

record attempt_snapshot =
  as_key :: attempt_key
  as_target_bytes :: int
  as_device_available_bytes :: int
  as_host_available_bytes :: int

record blocked_attempt =
  ba_key :: attempt_key
  ba_blocker_codes :: "transfer_blocker_code list"
  ba_required_bytes :: int
  ba_failed_device_available_bytes :: int
  ba_failed_host_available_bytes :: int
  ba_failed_ts_ms :: real
  ba_last_command_id :: string
  ba_identical_failure_count :: int
  ba_next_retry_ts_ms :: "real option"
  ba_suppressed_count :: int
  ba_suppression_reported :: bool
  ba_capacity_snapshot_pending :: bool

record transfer_guard =
  tg_enabled :: bool
  tg_max_same_snapshot_attempts :: int
  tg_unknown_base_ms :: real
  tg_unknown_max_ms :: real
  tg_unknown_circuit_breaker_failures :: int
  tg_device_available_bytes :: int
  tg_host_available_bytes :: int
  tg_inflight :: "(string, attempt_snapshot) dict"
  tg_blocked :: "(attempt_key, blocked_attempt) dict"
  tg_unknown_failure_counts :: "(attempt_key, int) dict"
  tg_generations :: "(attempt_key, int) dict"
  tg_events :: "guard_event list"
  tg_blocked_count :: int
  tg_suppressed_count :: int
  tg_released_count :: int

definition transfer_guard_init :: "bool \<Rightarrow> int \<Rightarrow> real \<Rightarrow> real \<Rightarrow> int \<Rightarrow> transfer_guard result" where
  "transfer_guard_init enabled max_attempts base_ms max_ms breaker =
     (if max_attempts \<le> 0 then Inl (ValueError ''max_same_snapshot_attempts must be positive'')
      else if base_ms \<le> 0 \<or> max_ms < base_ms then Inl (ValueError ''invalid unknown-backend retry interval'')
      else if breaker \<le> 0 then Inl (ValueError ''unknown circuit-breaker threshold must be positive'')
      else Inr \<lparr>tg_enabled = enabled, tg_max_same_snapshot_attempts = max_attempts, tg_unknown_base_ms = base_ms,
                tg_unknown_max_ms = max_ms, tg_unknown_circuit_breaker_failures = breaker,
                tg_device_available_bytes = 0, tg_host_available_bytes = 0, tg_inflight = [], tg_blocked = [],
                tg_unknown_failure_counts = [], tg_generations = [], tg_events = [], tg_blocked_count = 0,
                tg_suppressed_count = 0, tg_released_count = 0\<rparr>)"

definition same_identity :: "attempt_key \<Rightarrow> attempt_key \<Rightarrow> bool" where
  "same_identity l r =
     (ak_context_id l = ak_context_id r \<and> ak_context_epoch l = ak_context_epoch r \<and>
      ak_command_kind l = ak_command_kind r \<and> ak_bundle_id l = ak_bundle_id r)"

section \<open>Events and releases\<close>

definition guard_emit ::
  "string \<Rightarrow> real \<Rightarrow> blocked_attempt \<Rightarrow> (string, py_value) dict \<Rightarrow> transfer_guard \<Rightarrow> transfer_guard" where
  "guard_emit kind ts b extra tg =
     (let key = ba_key b;
          fields =
            [(''context_id'', PStr (ak_context_id key)),
             (''context_epoch'', PInt (ak_context_epoch key)),
             (''command_kind'', PStr (command_kind_value (ak_command_kind key))),
             (''bundle_id'', PStr (ak_bundle_id key)),
             (''closure_fingerprint'', PStr (ak_closure_fingerprint key)),
             (''blocker_codes'', PList (map (\<lambda>c. PStr (transfer_blocker_code_value c)) (ba_blocker_codes b))),
             (''required_bytes'', PInt (ba_required_bytes b)),
             (''failed_device_available_bytes'', PInt (ba_failed_device_available_bytes b)),
             (''failed_host_available_bytes'', PInt (ba_failed_host_available_bytes b)),
             (''failed_ts_ms'', PFloat (ba_failed_ts_ms b)),
             (''next_retry_ts_ms'', opt_value PFloat (ba_next_retry_ts_ms b)),
             (''identical_failure_count'', PInt (ba_identical_failure_count b)),
             (''last_command_id'', PStr (ba_last_command_id b)),
             (''circuit_open'', PBool (UNKNOWN_BACKEND \<in> set (ba_blocker_codes b) \<and> ba_next_retry_ts_ms b = None)),
             (''capacity_snapshot_pending'', PBool (ba_capacity_snapshot_pending b))]
      in tg\<lparr>tg_events := tg_events tg @
           [\<lparr>ge_kind = kind, ge_ts_ms = ts, ge_fields = fold (\<lambda>(k, v). AList.update k v) extra fields\<rparr>]\<rparr>)"

definition bump_generation :: "attempt_key \<Rightarrow> transfer_guard \<Rightarrow> transfer_guard" where
  "bump_generation k tg =
     tg\<lparr>tg_generations := AList.update k (dict_get (tg_generations tg) k 0 + 1) (tg_generations tg)\<rparr>"

definition guard_release :: "real \<Rightarrow> string \<Rightarrow> blocked_attempt \<Rightarrow> transfer_guard \<Rightarrow> transfer_guard" where
  "guard_release now reason b tg =
     (if \<not> dict_in (ba_key b) (tg_blocked tg) then tg
      else
        let tg1 = bump_generation (ba_key b) (tg\<lparr>tg_blocked := AList.delete (ba_key b) (tg_blocked tg)\<rparr>) in
        guard_emit ''transfer_retry_released'' now b
          [(''release_reason'', PStr reason), (''suppressed_count'', PInt (ba_suppressed_count b))]
          (tg1\<lparr>tg_released_count := tg_released_count tg1 + 1\<rparr>))"

section \<open>Resources\<close>

definition update_resources :: "int \<Rightarrow> int \<Rightarrow> real \<Rightarrow> transfer_guard \<Rightarrow> transfer_guard result" where
  "update_resources device host now tg =
     (if device < 0 \<or> host < 0 then Inl (ValueError ''transfer resource availability must be non-negative'')
      else
        let tg1 = tg\<lparr>tg_device_available_bytes := device, tg_host_available_bytes := host\<rparr> in
        Inr (fold (\<lambda>(k, b) tg.
            if \<not> ba_capacity_snapshot_pending b then tg
            else
              let b1 = b\<lparr>ba_failed_device_available_bytes := device, ba_failed_host_available_bytes := host,
                         ba_capacity_snapshot_pending := False\<rparr> in
              guard_emit ''transfer_retry_capacity_anchored'' now b1 []
                (tg\<lparr>tg_blocked := AList.update k b1 (tg_blocked tg)\<rparr>))
          (tg_blocked tg1) tg1))"

definition capacity_codes :: "transfer_blocker_code set" where
  "capacity_codes = {DEVICE_CAPACITY, HOST_CAPACITY}"

definition capacity_predicate_satisfied ::
  "transfer_guard \<Rightarrow> transfer_blocker_code \<Rightarrow> blocked_attempt \<Rightarrow> bool result" where
  "capacity_predicate_satisfied tg code b =
     (if ba_capacity_snapshot_pending b then Inr False
      else if code = DEVICE_CAPACITY
      then Inr (tg_device_available_bytes tg > ba_failed_device_available_bytes b \<and>
                tg_device_available_bytes tg \<ge> ba_required_bytes b)
      else if code = HOST_CAPACITY
      then Inr (tg_host_available_bytes tg > ba_failed_host_available_bytes b \<and>
                tg_host_available_bytes tg \<ge> ba_required_bytes b)
      else Inl (ValueError (''not a capacity blocker: '' @ transfer_blocker_code_value code)))"

definition resource_predicate :: "transfer_guard \<Rightarrow> blocked_attempt \<Rightarrow> real \<Rightarrow> transfer_blocker_code \<Rightarrow> bool result" where
  "resource_predicate tg b now code =
     (if code \<in> capacity_codes then capacity_predicate_satisfied tg code b
      else if code = UNKNOWN_BACKEND
      then Inr (case ba_next_retry_ts_ms b of None \<Rightarrow> False | Some t \<Rightarrow> now \<ge> t)
      else Inr False)"

definition resource_predicates_satisfied :: "transfer_guard \<Rightarrow> blocked_attempt \<Rightarrow> real \<Rightarrow> bool result" where
  "resource_predicates_satisfied tg b now =
     rbind (rmap (resource_predicate tg b now) (ba_blocker_codes b)) (\<lambda>predicates.
       Inr (predicates \<noteq> [] \<and> list_all id predicates))"

section \<open>Keys\<close>

definition handle_tuple :: "page_handle option \<Rightarrow> py_value" where
  "handle_tuple h = opt_value handle_value h"

definition owners_value :: "page_record \<Rightarrow> py_value" where
  "owners_value p = PTuple (map (\<lambda>(c, e). PTuple [PStr c, PInt e]) (sort (pg_owner_contexts p)))"

definition missing_value :: "page_handle \<Rightarrow> py_value" where
  "missing_value h = PTuple [PInt (page_id h), PInt (allocation_generation h), PStr ''missing'']"

definition target_state :: "page_index \<Rightarrow> page_handle \<Rightarrow> py_value" where
  "target_state ix h =
     (case map_of (ix_pages ix) h of
        None \<Rightarrow> missing_value h
      | Some p \<Rightarrow>
          PTuple [PInt (page_id h), PInt (allocation_generation h), PStr (residency_value (pg_residency p)), owners_value p,
            PInt (pg_engine_lock_ref p), PInt (pg_active_reader_count p),
            opt_value (\<lambda>d. PStr (direction_value d)) (pg_transfer_direction p),
            PTuple (map handle_value (sorted_list_of_set (pg_children p)))])"

definition target_handles_fingerprint :: "py_digest \<Rightarrow> page_index \<Rightarrow> page_handle list \<Rightarrow> string" where
  "target_handles_fingerprint digest ix handles = digest 16 (PTuple (map (target_state ix) (sort handles)))"

text \<open>The two loops that grow \<open>relevant\<close>, the stack with its top first: \<open>next\<close> gives the parent of a page for
  a prefetch, its children for an offload.\<close>

function grow_relevant ::
  "(page_record \<Rightarrow> page_handle list) \<Rightarrow> page_index \<Rightarrow> page_handle list \<Rightarrow> page_handle set \<Rightarrow> page_handle set" where
  "grow_relevant next ix [] relevant = relevant"
| "grow_relevant next ix (h # stack) relevant =
     (case map_of (ix_pages ix) h of
        None \<Rightarrow> grow_relevant next ix stack relevant
      | Some p \<Rightarrow>
          let fresh = filter (\<lambda>k. k \<notin> relevant) (next p) in
          grow_relevant next ix (rev fresh @ stack) (relevant \<union> set fresh))"
  by pat_completeness auto

definition unreached :: "(page_record \<Rightarrow> page_handle list) \<Rightarrow> page_index \<Rightarrow> page_handle set \<Rightarrow> nat" where
  "unreached next ix relevant = card ((\<Union>(h, p) \<in> set (ix_pages ix). set (next p)) - relevant)"

lemma unreached_fresh:
  assumes "map_of (ix_pages ix) h = Some p" and "filter (\<lambda>k. k \<notin> relevant) (next p) \<noteq> []"
  shows "unreached next ix (relevant \<union> set (filter (\<lambda>k. k \<notin> relevant) (next p))) < unreached next ix relevant"
proof -
  obtain k where k: "k \<in> set (next p)" "k \<notin> relevant" using assms(2) by (auto simp: filter_empty_conv)
  moreover have "k \<in> (\<Union>(h, p) \<in> set (ix_pages ix). set (next p))" using map_of_SomeD [OF assms(1)] k(1) by blast
  ultimately show ?thesis unfolding unreached_def by (intro psubset_card_mono) auto
qed

termination grow_relevant
proof (relation "(\<lambda>(next, ix, stack, relevant). unreached next ix relevant) <*mlex*>
    measure (\<lambda>(next, ix, stack, relevant). length stack)", goal_cases)
  case (3 "next" ix h stack relevant p fresh)
  show ?case
  proof (cases "fresh = []")
    case False
    with 3 have "unreached next ix (relevant \<union> set fresh) < unreached next ix relevant"
      using unreached_fresh [of ix h p relevant "next"] by simp
    then show ?thesis by (simp add: mlex_iff)
  qed (simp add: mlex_iff)
qed (simp_all add: wf_mlex mlex_iff)

declare grow_relevant.simps [simp del]

definition relevant_handles :: "page_index \<Rightarrow> command_kind \<Rightarrow> page_handle set \<Rightarrow> page_handle set" where
  "relevant_handles ix kind pages =
     (let stack = sorted_list_of_set pages in
      if kind = PREFETCH_CONTEXT
      then grow_relevant (\<lambda>p. case pg_parent p of None \<Rightarrow> [] | Some a \<Rightarrow> [a]) ix stack pages
      else if kind \<in> {OFFLOAD_CONTEXT, SHADOW_CONTEXT}
      then grow_relevant (\<lambda>p. sorted_list_of_set (pg_children p)) ix stack pages
      else pages)"

definition guard_page_state :: "page_index \<Rightarrow> page_handle set \<Rightarrow> page_handle \<Rightarrow> py_value" where
  "guard_page_state ix own h =
     (case map_of (ix_pages ix) h of
        None \<Rightarrow> missing_value h
      | Some p \<Rightarrow>
          PTuple [PInt (page_id h), PInt (allocation_generation h), PInt (pg_size_bytes p),
            PStr (residency_value (pg_residency p)), handle_tuple (pg_parent p),
            PTuple (map (\<lambda>k. handle_tuple (Some k)) (sorted_list_of_set (pg_children p))), owners_value p,
            PInt (pg_engine_lock_ref p), PInt (pg_active_reader_count p),
            PTuple (map PStr (sorted_list_of_set (pg_semantic_pin_contexts p))), PBool (pg_sealed p),
            opt_value (\<lambda>d. PStr (direction_value d)) (pg_transfer_direction p), PBool (h \<in> own)])"

definition relevant_owners :: "page_index \<Rightarrow> string \<Rightarrow> page_handle set \<Rightarrow> string set" where
  "relevant_owners ix c relevant =
     insert c (\<Union>h \<in> relevant. case map_of (ix_pages ix) h of None \<Rightarrow> {} | Some p \<Rightarrow> fst ` set (pg_owner_contexts p))"

definition causal_state :: "causal_graph \<Rightarrow> string \<Rightarrow> py_value" where
  "causal_state g c =
     (case map_of (cg_contexts g) c of
        None \<Rightarrow> PTuple [PStr c, PStr ''missing'']
      | Some x \<Rightarrow>
          PTuple [PStr c, PInt (cx_epoch x),
            PTuple (map (\<lambda>(i, s). PTuple [PStr i, PStr s])
              (sort (concat (map (\<lambda>i. case map_of (cg_invocations g) i of
                   None \<Rightarrow> [] | Some r \<Rightarrow> [(i, state_value (iv_state r))])
                 (sorted_list_of_set (cx_invocation_ids x))))))])"

definition closure_payload ::
  "causal_graph \<Rightarrow> page_index \<Rightarrow> string \<Rightarrow> int \<Rightarrow> command_kind \<Rightarrow> page_handle set \<Rightarrow> py_value" where
  "closure_payload g ix c epoch kind own =
     (let relevant = relevant_handles ix kind own in
      PTuple [PStr c, PInt epoch, PStr (command_kind_value kind),
        PTuple (map (guard_page_state ix own) (sorted_list_of_set relevant)),
        PTuple (map (causal_state g) (sorted_list_of_set (relevant_owners ix c relevant)))])"

definition closure_fingerprint ::
  "py_digest \<Rightarrow> causal_graph \<Rightarrow> page_index \<Rightarrow> string \<Rightarrow> int \<Rightarrow> command_kind \<Rightarrow> string result" where
  "closure_fingerprint digest g ix c epoch kind =
     rbind (context_pages ix c) (\<lambda>pages.
       Inr (digest 16 (closure_payload g ix c epoch kind (set (map pg_handle pages)))))"

definition key_for ::
  "py_digest \<Rightarrow> causal_graph \<Rightarrow> page_index \<Rightarrow> string \<Rightarrow> int \<Rightarrow> command_kind \<Rightarrow> attempt_key result" where
  "key_for digest g ix c epoch kind =
     rbind (closure_fingerprint digest g ix c epoch kind) (\<lambda>fp.
       Inr \<lparr>ak_context_id = c, ak_context_epoch = epoch, ak_command_kind = kind, ak_bundle_id = [],
            ak_closure_fingerprint = fp\<rparr>)"

definition key_for_command ::
  "py_digest \<Rightarrow> causal_graph \<Rightarrow> page_index \<Rightarrow> control_command \<Rightarrow> attempt_key result" where
  "key_for_command digest g ix cmd =
     (case (cc_context_id cmd, cc_context_epoch cmd) of
        (Some c, Some epoch) \<Rightarrow>
          if cc_target_handles cmd \<noteq> []
          then Inr \<lparr>ak_context_id = c, ak_context_epoch = epoch, ak_command_kind = cc_kind cmd,
                    ak_bundle_id = ''terminal-private'',
                    ak_closure_fingerprint = target_handles_fingerprint digest ix (cc_target_handles cmd)\<rparr>
          else (case cc_physical_bundle cmd of
              None \<Rightarrow> key_for digest g ix c epoch (cc_kind cmd)
            | Some intent \<Rightarrow>
                Inr \<lparr>ak_context_id = c, ak_context_epoch = epoch, ak_command_kind = cc_kind cmd,
                     ak_bundle_id = pbi_bundle_id intent,
                     ak_closure_fingerprint = pbi_generation_fingerprint intent\<rparr>)
      | _ \<Rightarrow> Inl (ValueError ''a guarded transfer command requires context identity''))"

section \<open>Asking\<close>

definition remaining_codes :: "transfer_guard \<Rightarrow> blocked_attempt \<Rightarrow> transfer_blocker_code list result" where
  "remaining_codes tg b =
     rbind (rmap (\<lambda>code.
         if code \<in> capacity_codes
         then rbind (capacity_predicate_satisfied tg code b) (\<lambda>satisfied. Inr (if satisfied then [] else [code]))
         else Inr []) (ba_blocker_codes b)) (\<lambda>codes. Inr (concat codes))"

definition stale_entry :: "attempt_key \<Rightarrow> attempt_key \<Rightarrow> bool" where
  "stale_entry current k = (same_identity k current \<and> k \<noteq> current)"

definition forget_unknown :: "attempt_key \<Rightarrow> transfer_guard \<Rightarrow> transfer_guard" where
  "forget_unknown k tg = tg\<lparr>tg_unknown_failure_counts := AList.delete k (tg_unknown_failure_counts tg)\<rparr>"

definition forget_unknowns :: "(attempt_key \<Rightarrow> bool) \<Rightarrow> transfer_guard \<Rightarrow> transfer_guard" where
  "forget_unknowns P tg =
     fold (\<lambda>(k, n) tg. if P k then forget_unknown k tg else tg) (tg_unknown_failure_counts tg) tg"

definition release_if :: "(attempt_key \<Rightarrow> bool) \<Rightarrow> real \<Rightarrow> string \<Rightarrow> transfer_guard \<Rightarrow> transfer_guard" where
  "release_if P now reason tg =
     fold (\<lambda>(k, b) tg. if P k then guard_release now reason b tg else tg) (tg_blocked tg) tg"

definition release_changed_entry ::
  "attempt_key \<Rightarrow> real \<Rightarrow> attempt_key \<times> blocked_attempt \<Rightarrow> transfer_guard \<Rightarrow> transfer_guard result" where
  "release_changed_entry current now = (\<lambda>(k, b) tg.
     if \<not> stale_entry current k then Inr tg
     else rbind (remaining_codes tg b) (\<lambda>remaining.
       Inr (forget_unknown k
         (if remaining \<noteq> []
          then
            let b1 = b\<lparr>ba_key := current, ba_blocker_codes := remaining, ba_suppression_reported := False\<rparr> in
            guard_emit ''transfer_retry_rekeyed'' now b1
              [(''previous_closure_fingerprint'', PStr (ak_closure_fingerprint k))]
              (tg\<lparr>tg_blocked := AList.update current b1 (AList.delete k (tg_blocked tg))\<rparr>)
          else guard_release now ''physical_fingerprint_changed'' b tg))))"

definition release_changed_snapshots :: "attempt_key \<Rightarrow> real \<Rightarrow> transfer_guard \<Rightarrow> transfer_guard result" where
  "release_changed_snapshots current now tg =
     rbind (rfold (release_changed_entry current now) (tg_blocked tg) tg) (\<lambda>tg1.
       Inr (forget_unknowns (stale_entry current) tg1))"

definition key_is_eligible :: "attempt_key \<Rightarrow> real \<Rightarrow> transfer_guard \<Rightarrow> (bool \<times> transfer_guard) result" where
  "key_is_eligible k now tg0 =
     rbind (release_changed_snapshots k now tg0) (\<lambda>tg.
       case map_of (tg_blocked tg) k of
         None \<Rightarrow> Inr (True, tg)
       | Some b \<Rightarrow>
           if ba_identical_failure_count b < tg_max_same_snapshot_attempts tg then Inr (True, tg)
           else rbind (resource_predicates_satisfied tg b now) (\<lambda>satisfied.
             if satisfied then Inr (True, guard_release now ''resource_predicate_satisfied'' b tg)
             else
               let b1 = b\<lparr>ba_suppressed_count := ba_suppressed_count b + 1\<rparr>;
                   tg1 = tg\<lparr>tg_suppressed_count := tg_suppressed_count tg + 1\<rparr> in
               if ba_suppression_reported b
               then Inr (False, tg1\<lparr>tg_blocked := AList.update k b1 (tg_blocked tg1)\<rparr>)
               else
                 let b2 = b1\<lparr>ba_suppression_reported := True\<rparr> in
                 Inr (False, guard_emit ''transfer_retry_suppressed'' now b2
                        [(''suppressed_count'', PInt (ba_suppressed_count b2))]
                        (tg1\<lparr>tg_blocked := AList.update k b2 (tg_blocked tg1)\<rparr>))))"

definition is_eligible ::
  "py_digest \<Rightarrow> causal_graph \<Rightarrow> page_index \<Rightarrow> string \<Rightarrow> int \<Rightarrow> command_kind \<Rightarrow> real \<Rightarrow> transfer_guard
   \<Rightarrow> (bool \<times> transfer_guard) result" where
  "is_eligible digest g ix c epoch kind now tg =
     (if \<not> tg_enabled tg \<or> kind \<notin> guarded_kinds then Inr (True, tg)
      else rbind (key_for digest g ix c epoch kind) (\<lambda>k. key_is_eligible k now tg))"

definition command_is_eligible ::
  "py_digest \<Rightarrow> causal_graph \<Rightarrow> page_index \<Rightarrow> control_command \<Rightarrow> real \<Rightarrow> transfer_guard
   \<Rightarrow> (bool \<times> transfer_guard) result" where
  "command_is_eligible digest g ix cmd now tg =
     (if cc_context_id cmd = None \<or> cc_context_epoch cmd = None then Inr (True, tg)
      else if \<not> tg_enabled tg \<or> cc_kind cmd \<notin> guarded_kinds then Inr (True, tg)
      else rbind (key_for_command digest g ix cmd) (\<lambda>k. key_is_eligible k now tg))"

definition suppression_blockers ::
  "py_digest \<Rightarrow> causal_graph \<Rightarrow> page_index \<Rightarrow> control_command \<Rightarrow> transfer_guard \<Rightarrow> transfer_blocker list result" where
  "suppression_blockers digest g ix cmd tg =
     (if cc_context_id cmd = None \<or> cc_context_epoch cmd = None \<or> \<not> tg_enabled tg \<or> cc_kind cmd \<notin> guarded_kinds
      then Inr []
      else rbind (key_for_command digest g ix cmd) (\<lambda>k.
        case map_of (tg_blocked tg) k of
          None \<Rightarrow> Inr []
        | Some b \<Rightarrow>
            rmap (\<lambda>code. transfer_blocker_post_init
                \<lparr>tb_code = code, tb_page_handle = None, tb_required_bytes = ba_required_bytes b,
                 tb_detail = ''retry suppressed after '' @ ba_last_command_id b\<rparr>)
              (ba_blocker_codes b)))"

definition generation_for ::
  "py_digest \<Rightarrow> causal_graph \<Rightarrow> page_index \<Rightarrow> control_command \<Rightarrow> transfer_guard \<Rightarrow> int result" where
  "generation_for digest g ix cmd tg =
     (if cc_context_id cmd = None \<or> cc_context_epoch cmd = None \<or> cc_kind cmd \<notin> guarded_kinds then Inr 0
      else rbind (key_for_command digest g ix cmd) (\<lambda>k. Inr (dict_get (tg_generations tg) k 0)))"

section \<open>Attempts\<close>

definition begin_attempt ::
  "py_digest \<Rightarrow> causal_graph \<Rightarrow> page_index \<Rightarrow> control_command \<Rightarrow> transfer_guard \<Rightarrow> (string \<times> transfer_guard) result" where
  "begin_attempt digest g ix cmd tg =
     (if dict_in (cc_command_id cmd) (tg_inflight tg)
      then Inl (ValueError (''duplicate transfer attempt: '' @ cc_command_id cmd))
      else if \<not> tg_enabled tg \<or> cc_kind cmd \<notin> guarded_kinds \<or> cc_context_id cmd = None \<or> cc_context_epoch cmd = None
      then Inr ([], tg)
      else rbind (key_for_command digest g ix cmd) (\<lambda>k.
        Inr (ak_closure_fingerprint k,
          tg\<lparr>tg_inflight := AList.update (cc_command_id cmd)
               \<lparr>as_key = k, as_target_bytes = cc_target_bytes cmd,
                as_device_available_bytes = tg_device_available_bytes tg,
                as_host_available_bytes = tg_host_available_bytes tg\<rparr> (tg_inflight tg)\<rparr>)))"

definition drop_inflight :: "string \<Rightarrow> transfer_guard \<Rightarrow> transfer_guard" where
  "drop_inflight i tg = tg\<lparr>tg_inflight := AList.delete i (tg_inflight tg)\<rparr>"

definition normalized_codes :: "transfer_blocker list \<Rightarrow> transfer_blocker_code list" where
  "normalized_codes blockers =
     (let codes = map tb_code blockers in
      sort_key transfer_blocker_code_value (remdups (if codes = [] then [UNKNOWN_BACKEND] else codes)))"

text \<open>\<open>max(x, *ys)\<close>: with nothing after \<open>x\<close> this is \<open>max(x)\<close>, which wants an iterable.\<close>

definition py_max_star :: "int \<Rightarrow> int list \<Rightarrow> int result" where
  "py_max_star x ys = (if ys = [] then Inl (TypeError ''int object is not iterable'') else Inr (fold max ys x))"

definition retry_delay :: "transfer_guard \<Rightarrow> int \<Rightarrow> real" where
  "retry_delay tg failure_count =
     min (tg_unknown_max_ms tg) (tg_unknown_base_ms tg * 2 ^ nat (max 0 (failure_count - 1)))"

definition failure_counts ::
  "attempt_key \<Rightarrow> transfer_blocker_code list \<Rightarrow> transfer_guard \<Rightarrow> int \<times> (attempt_key, int) dict" where
  "failure_counts k codes tg =
     (let unknown = tg_unknown_failure_counts tg in
      if UNKNOWN_BACKEND \<in> set codes
      then let n = dict_get unknown k 0 + 1 in (n, AList.update k n unknown)
      else (case map_of (tg_blocked tg) k of None \<Rightarrow> 1 | Some b \<Rightarrow> ba_identical_failure_count b + 1, unknown))"

definition record_failure ::
  "string \<Rightarrow> transfer_blocker list \<Rightarrow> int \<Rightarrow> real \<Rightarrow> transfer_guard \<Rightarrow> unit result \<times> transfer_guard" where
  "record_failure i blockers required_bytes now tg0 =
     (let tg = drop_inflight i tg0 in
      case map_of (tg_inflight tg0) i of
        None \<Rightarrow> (Inr (), tg)
      | Some attempt \<Rightarrow>
          if \<not> tg_enabled tg then (Inr (), tg)
          else
            let k = as_key attempt; codes = normalized_codes blockers in
            case py_max_star (if required_bytes > 0 then required_bytes else as_target_bytes attempt)
                   (map tb_required_bytes blockers) of
              Inl e \<Rightarrow> (Inl e, tg)
            | Inr required \<Rightarrow>
                let previous = map_of (tg_blocked tg) k;
                    (n, unknown) = failure_counts k codes tg;
                    b = \<lparr>ba_key = k, ba_blocker_codes = codes, ba_required_bytes = required,
                         ba_failed_device_available_bytes = as_device_available_bytes attempt,
                         ba_failed_host_available_bytes = as_host_available_bytes attempt,
                         ba_failed_ts_ms = now, ba_last_command_id = i, ba_identical_failure_count = n,
                         ba_next_retry_ts_ms =
                           (if UNKNOWN_BACKEND \<in> set codes \<and> n < tg_unknown_circuit_breaker_failures tg
                            then Some (now + retry_delay tg n) else None),
                         ba_suppressed_count = (case previous of None \<Rightarrow> 0 | Some p \<Rightarrow> ba_suppressed_count p),
                         ba_suppression_reported = (case previous of None \<Rightarrow> False | Some p \<Rightarrow> ba_suppression_reported p),
                         ba_capacity_snapshot_pending = (\<exists>c \<in> set codes. c \<in> capacity_codes)\<rparr>;
                    tg1 = bump_generation k
                      (tg\<lparr>tg_unknown_failure_counts := unknown, tg_blocked := AList.update k b (tg_blocked tg)\<rparr>)
                in (Inr (), guard_emit ''transfer_attempt_blocked'' now b []
                      (tg1\<lparr>tg_blocked_count := tg_blocked_count tg1 + 1\<rparr>)))"

definition record_success :: "string \<Rightarrow> real \<Rightarrow> transfer_guard \<Rightarrow> transfer_guard" where
  "record_success i now tg =
     (case map_of (tg_inflight tg) i of
        None \<Rightarrow> tg
      | Some attempt \<Rightarrow>
          let same = (\<lambda>k. same_identity k (as_key attempt)) in
          forget_unknowns same (release_if same now ''transfer_succeeded'' (drop_inflight i tg)))"

definition cancel_attempt :: "string \<Rightarrow> transfer_guard \<Rightarrow> transfer_guard" where
  "cancel_attempt i tg = drop_inflight i tg"

definition invalidated :: "string \<Rightarrow> int option \<Rightarrow> attempt_key \<Rightarrow> bool" where
  "invalidated c keep_epoch k =
     (ak_context_id k = c \<and> (case keep_epoch of None \<Rightarrow> True | Some e \<Rightarrow> ak_context_epoch k \<noteq> e))"

definition invalidate_context :: "string \<Rightarrow> real \<Rightarrow> int option \<Rightarrow> transfer_guard \<Rightarrow> transfer_guard" where
  "invalidate_context c now keep_epoch tg =
     forget_unknowns (invalidated c keep_epoch)
       (release_if (invalidated c keep_epoch) now ''context_epoch_invalidated''
         (fold (\<lambda>(i, attempt) tg. if invalidated c keep_epoch (as_key attempt) then drop_inflight i tg else tg)
           (tg_inflight tg) tg))"

definition guard_reset :: "real \<Rightarrow> transfer_guard \<Rightarrow> transfer_guard" where
  "guard_reset now tg =
     release_if (\<lambda>_. True) now ''cache_reset'' (tg\<lparr>tg_inflight := [], tg_unknown_failure_counts := []\<rparr>)"

section \<open>Reports\<close>

definition drain_events :: "transfer_guard \<Rightarrow> guard_event list \<times> transfer_guard" where
  "drain_events tg = (tg_events tg, tg\<lparr>tg_events := []\<rparr>)"

definition guard_summary :: "transfer_guard \<Rightarrow> (string, int) dict" where
  "guard_summary tg =
     [(''blocked_attempt_count'', tg_blocked_count tg),
      (''suppressed_retry_count'', tg_suppressed_count tg),
      (''released_attempt_count'', tg_released_count tg),
      (''active_blocked_attempt_count'', int (length (tg_blocked tg))),
      (''inflight_attempt_count'', int (length (tg_inflight tg))),
      (''unknown_circuit_open_count'',
         int (length (filter (\<lambda>(k, n). n \<ge> tg_unknown_circuit_breaker_failures tg) (tg_unknown_failure_counts tg))))]"

end
