(* ===== verification/Guard_Safety.thy ===== *)
theory Guard_Safety
  imports Transfer_Guard Radix_Arbiter
begin

text \<open>
  What the transfer guard promises: its books stay consistent along every run; a blocked attempt is
  refused as long as nothing it waits for happens; a capacity failure is retried once capacity has
  grown; and a change of what blocked an attempt changes its key. One run that the code does not
  intend is evaluated at the end.
\<close>

section \<open>Predicates without errors\<close>

definition code_open :: "transfer_guard \<Rightarrow> blocked_attempt \<Rightarrow> real \<Rightarrow> transfer_blocker_code \<Rightarrow> bool" where
  "code_open tg b now code \<longleftrightarrow>
     (if code = DEVICE_CAPACITY
      then \<not> ba_capacity_snapshot_pending b \<and> ba_failed_device_available_bytes b < tg_device_available_bytes tg \<and>
        ba_required_bytes b \<le> tg_device_available_bytes tg
      else if code = HOST_CAPACITY
      then \<not> ba_capacity_snapshot_pending b \<and> ba_failed_host_available_bytes b < tg_host_available_bytes tg \<and>
        ba_required_bytes b \<le> tg_host_available_bytes tg
      else code = UNKNOWN_BACKEND \<and> (\<exists>t. ba_next_retry_ts_ms b = Some t \<and> t \<le> now))"

lemma resource_predicate_Inr: "resource_predicate tg b now code = Inr (code_open tg b now code)"
  by (auto simp: resource_predicate_def capacity_predicate_satisfied_def capacity_codes_def code_open_def
      split: option.splits)

lemma resource_predicates_Inr:
  "resource_predicates_satisfied tg b now =
     Inr (ba_blocker_codes b \<noteq> [] \<and> (\<forall>c \<in> set (ba_blocker_codes b). code_open tg b now c))"
  by (simp add: resource_predicates_satisfied_def rmap_total [OF resource_predicate_Inr] list_all_iff)

definition left_codes :: "transfer_guard \<Rightarrow> blocked_attempt \<Rightarrow> transfer_blocker_code list" where
  "left_codes tg b = filter (\<lambda>c. c \<in> capacity_codes \<and> \<not> code_open tg b 0 c) (ba_blocker_codes b)"

lemma remaining_codes_Inr: "remaining_codes tg b = Inr (left_codes tg b)"
proof -
  let ?f = "\<lambda>c. if c \<in> capacity_codes \<and> \<not> code_open tg b 0 c then [c] else []"
  have "rmap (\<lambda>code. if code \<in> capacity_codes
         then rbind (capacity_predicate_satisfied tg code b) (\<lambda>satisfied. Inr (if satisfied then [] else [code]))
         else Inr []) xs = Inr (map ?f xs)" for xs
    by (rule rmap_total) (auto simp: capacity_codes_def capacity_predicate_satisfied_def code_open_def)
  moreover have "concat (map ?f xs) = filter (\<lambda>c. c \<in> capacity_codes \<and> \<not> code_open tg b 0 c) xs" for xs
    by (induction xs) auto
  ultimately show ?thesis by (simp add: remaining_codes_def left_codes_def)
qed

definition rekeyed :: "attempt_key \<Rightarrow> transfer_guard \<Rightarrow> blocked_attempt \<Rightarrow> blocked_attempt" where
  "rekeyed current tg b = b\<lparr>ba_key := current, ba_blocker_codes := left_codes tg b, ba_suppression_reported := False\<rparr>"

definition change_entry ::
  "attempt_key \<Rightarrow> real \<Rightarrow> attempt_key \<times> blocked_attempt \<Rightarrow> transfer_guard \<Rightarrow> transfer_guard" where
  "change_entry current now = (\<lambda>(k, b) tg.
     if \<not> stale_entry current k then tg
     else forget_unknown k
       (if left_codes tg b \<noteq> []
        then guard_emit ''transfer_retry_rekeyed'' now (rekeyed current tg b)
              [(''previous_closure_fingerprint'', PStr (ak_closure_fingerprint k))]
              (tg\<lparr>tg_blocked := AList.update current (rekeyed current tg b) (AList.delete k (tg_blocked tg))\<rparr>)
        else guard_release now ''physical_fingerprint_changed'' b tg))"

lemma release_changed_Inr:
  "release_changed_snapshots current now tg =
     Inr (forget_unknowns (stale_entry current) (fold (change_entry current now) (tg_blocked tg) tg))"
proof -
  have "release_changed_entry current now e s = Inr (change_entry current now e s)" for e s
    by (cases e) (simp add: release_changed_entry_def change_entry_def remaining_codes_Inr rekeyed_def Let_def)
  then have "rfold (release_changed_entry current now) xs s = Inr (fold (change_entry current now) xs s)" for xs s
    by (induction xs arbitrary: s) simp_all
  then show ?thesis by (simp add: release_changed_snapshots_def)
qed

section \<open>What the helpers leave alone\<close>

definition guard_core :: "transfer_guard \<Rightarrow> bool \<times> int \<times> real \<times> real \<times> int \<times> int \<times> int" where
  "guard_core tg = (tg_enabled tg, tg_max_same_snapshot_attempts tg, tg_unknown_base_ms tg, tg_unknown_max_ms tg,
     tg_unknown_circuit_breaker_failures tg, tg_device_available_bytes tg, tg_host_available_bytes tg)"

lemma emit_simps [simp]:
  "guard_core (guard_emit kind ts b extra tg) = guard_core tg"
  "tg_inflight (guard_emit kind ts b extra tg) = tg_inflight tg"
  "tg_blocked (guard_emit kind ts b extra tg) = tg_blocked tg"
  "tg_unknown_failure_counts (guard_emit kind ts b extra tg) = tg_unknown_failure_counts tg"
  "tg_generations (guard_emit kind ts b extra tg) = tg_generations tg"
  "tg_blocked_count (guard_emit kind ts b extra tg) = tg_blocked_count tg"
  "tg_suppressed_count (guard_emit kind ts b extra tg) = tg_suppressed_count tg"
  "tg_released_count (guard_emit kind ts b extra tg) = tg_released_count tg"
  by (simp_all add: guard_emit_def Let_def guard_core_def)

lemma bump_simps [simp]:
  "guard_core (bump_generation k tg) = guard_core tg"
  "tg_inflight (bump_generation k tg) = tg_inflight tg"
  "tg_blocked (bump_generation k tg) = tg_blocked tg"
  "tg_unknown_failure_counts (bump_generation k tg) = tg_unknown_failure_counts tg"
  "tg_blocked_count (bump_generation k tg) = tg_blocked_count tg"
  "tg_suppressed_count (bump_generation k tg) = tg_suppressed_count tg"
  "tg_released_count (bump_generation k tg) = tg_released_count tg"
  by (simp_all add: bump_generation_def guard_core_def)

lemma forget_unknown_simps [simp]:
  "guard_core (forget_unknown k tg) = guard_core tg"
  "tg_inflight (forget_unknown k tg) = tg_inflight tg"
  "tg_blocked (forget_unknown k tg) = tg_blocked tg"
  "tg_generations (forget_unknown k tg) = tg_generations tg"
  "tg_blocked_count (forget_unknown k tg) = tg_blocked_count tg"
  "tg_suppressed_count (forget_unknown k tg) = tg_suppressed_count tg"
  "tg_released_count (forget_unknown k tg) = tg_released_count tg"
  by (simp_all add: forget_unknown_def guard_core_def)

lemma drop_inflight_simps [simp]:
  "guard_core (drop_inflight i tg) = guard_core tg"
  "tg_blocked (drop_inflight i tg) = tg_blocked tg"
  "tg_unknown_failure_counts (drop_inflight i tg) = tg_unknown_failure_counts tg"
  "tg_generations (drop_inflight i tg) = tg_generations tg"
  "tg_blocked_count (drop_inflight i tg) = tg_blocked_count tg"
  "tg_suppressed_count (drop_inflight i tg) = tg_suppressed_count tg"
  "tg_released_count (drop_inflight i tg) = tg_released_count tg"
  by (simp_all add: drop_inflight_def guard_core_def)

lemma core_update_simps [simp]:
  "guard_core (tg\<lparr>tg_inflight := a\<rparr>) = guard_core tg"
  "guard_core (tg\<lparr>tg_blocked := bl\<rparr>) = guard_core tg"
  "guard_core (tg\<lparr>tg_unknown_failure_counts := u\<rparr>) = guard_core tg"
  "guard_core (tg\<lparr>tg_events := ev\<rparr>) = guard_core tg"
  "guard_core (tg\<lparr>tg_blocked_count := n\<rparr>) = guard_core tg"
  "guard_core (tg\<lparr>tg_suppressed_count := n\<rparr>) = guard_core tg"
  "guard_core (tg\<lparr>tg_released_count := n\<rparr>) = guard_core tg"
  by (simp_all add: guard_core_def)

lemma release_simps [simp]:
  "guard_core (guard_release now reason b tg) = guard_core tg"
  "tg_inflight (guard_release now reason b tg) = tg_inflight tg"
  "tg_unknown_failure_counts (guard_release now reason b tg) = tg_unknown_failure_counts tg"
  "tg_blocked_count (guard_release now reason b tg) = tg_blocked_count tg"
  "tg_suppressed_count (guard_release now reason b tg) = tg_suppressed_count tg"
  "tg_blocked (guard_release now reason b tg) = AList.delete (ba_key b) (tg_blocked tg)"
  by (auto simp: guard_release_def Let_def dict_in_iff delete_id)

lemma forget_unknowns_simps [simp]:
  "guard_core (forget_unknowns P tg) = guard_core tg"
  "tg_inflight (forget_unknowns P tg) = tg_inflight tg"
  "tg_blocked (forget_unknowns P tg) = tg_blocked tg"
  "tg_generations (forget_unknowns P tg) = tg_generations tg"
  "tg_blocked_count (forget_unknowns P tg) = tg_blocked_count tg"
  "tg_suppressed_count (forget_unknowns P tg) = tg_suppressed_count tg"
  "tg_released_count (forget_unknowns P tg) = tg_released_count tg"
proof -
  have "guard_core (fold (\<lambda>(k, n) tg. if P k then forget_unknown k tg else tg) xs tg) = guard_core tg \<and>
    tg_inflight (fold (\<lambda>(k, n) tg. if P k then forget_unknown k tg else tg) xs tg) = tg_inflight tg \<and>
    tg_blocked (fold (\<lambda>(k, n) tg. if P k then forget_unknown k tg else tg) xs tg) = tg_blocked tg \<and>
    tg_generations (fold (\<lambda>(k, n) tg. if P k then forget_unknown k tg else tg) xs tg) = tg_generations tg \<and>
    tg_blocked_count (fold (\<lambda>(k, n) tg. if P k then forget_unknown k tg else tg) xs tg) = tg_blocked_count tg \<and>
    tg_suppressed_count (fold (\<lambda>(k, n) tg. if P k then forget_unknown k tg else tg) xs tg) = tg_suppressed_count tg \<and>
    tg_released_count (fold (\<lambda>(k, n) tg. if P k then forget_unknown k tg else tg) xs tg) = tg_released_count tg"
    for xs :: "(attempt_key \<times> int) list"
    by (induction xs arbitrary: tg) (auto split: if_splits)
  then show "guard_core (forget_unknowns P tg) = guard_core tg"
    "tg_inflight (forget_unknowns P tg) = tg_inflight tg"
    "tg_blocked (forget_unknowns P tg) = tg_blocked tg"
    "tg_generations (forget_unknowns P tg) = tg_generations tg"
    "tg_blocked_count (forget_unknowns P tg) = tg_blocked_count tg"
    "tg_suppressed_count (forget_unknowns P tg) = tg_suppressed_count tg"
    "tg_released_count (forget_unknowns P tg) = tg_released_count tg"
    by (simp_all add: forget_unknowns_def)
qed

lemma forget_unknowns_counts:
  "\<exists>xs. tg_unknown_failure_counts (forget_unknowns P tg) = fold AList.delete xs (tg_unknown_failure_counts tg)"
proof -
  have "\<exists>ys. tg_unknown_failure_counts (fold (\<lambda>(k, n) tg. if P k then forget_unknown k tg else tg) xs tg) =
    fold AList.delete ys (tg_unknown_failure_counts tg)" for xs :: "(attempt_key \<times> int) list"
  proof (induction xs arbitrary: tg)
    case Nil
    show ?case by (rule exI [of _ "[]"]) simp
  next
    case (Cons x xs)
    obtain k n where x: "x = (k, n)" by (cases x)
    obtain ys where "tg_unknown_failure_counts (fold (\<lambda>(k, n) tg. if P k then forget_unknown k tg else tg) xs
        (if P k then forget_unknown k tg else tg)) =
      fold AList.delete ys (tg_unknown_failure_counts (if P k then forget_unknown k tg else tg))"
      using Cons.IH by blast
    then show ?case
      by (cases "P k") (auto simp: x forget_unknown_def intro: exI [of _ "k # ys"] exI [of _ ys])
  qed
  then show ?thesis by (simp add: forget_unknowns_def)
qed

section \<open>The books\<close>

definition dict_total :: "('v \<Rightarrow> int) \<Rightarrow> ('k, 'v) dict \<Rightarrow> int" where
  "dict_total f d = sum_list (map (\<lambda>(k, v). f v) d)"

lemma dict_total_delete:
  assumes "dict_ok d"
  shows "dict_total f (AList.delete k d) = dict_total f d - (case map_of d k of None \<Rightarrow> 0 | Some v \<Rightarrow> f v)"
  using assms
proof (induction d)
  case (Cons e d)
  obtain k' v where e: "e = (k', v)" by (cases e)
  show ?case
  proof (cases "k' = k")
    case True
    then have "k \<notin> fst ` set d" using Cons.prems e by simp
    then show ?thesis using True e by (simp add: dict_total_def delete_id)
  next
    case False
    then show ?thesis using Cons e by (simp add: dict_total_def)
  qed
qed (simp add: dict_total_def)

lemma dict_total_update:
  assumes "dict_ok d"
  shows "dict_total f (AList.update k v d) = dict_total f d + f v - (case map_of d k of None \<Rightarrow> 0 | Some w \<Rightarrow> f w)"
  using assms by (induction d) (auto simp: dict_total_def split: option.splits)

lemma dict_total_length: "int (length d) = dict_total (\<lambda>_. 1) d"
  by (induction d) (auto simp: dict_total_def)

definition entry_ok :: "attempt_key \<Rightarrow> blocked_attempt \<Rightarrow> bool" where
  "entry_ok k b \<longleftrightarrow> ba_key b = k \<and> ak_command_kind k \<in> guarded_kinds \<and> ba_blocker_codes b \<noteq> [] \<and>
     distinct (ba_blocker_codes b) \<and> sorted (map transfer_blocker_code_value (ba_blocker_codes b)) \<and>
     1 \<le> ba_identical_failure_count b \<and> 0 \<le> ba_suppressed_count b \<and> 0 \<le> ba_required_bytes b \<and>
     (ba_capacity_snapshot_pending b \<longrightarrow> set (ba_blocker_codes b) \<inter> capacity_codes \<noteq> {})"

definition attempt_ok :: "attempt_snapshot \<Rightarrow> bool" where
  "attempt_ok a \<longleftrightarrow> ak_command_kind (as_key a) \<in> guarded_kinds \<and> 0 \<le> as_target_bytes a"

definition config_ok :: "transfer_guard \<Rightarrow> bool" where
  "config_ok tg \<longleftrightarrow> 0 < tg_max_same_snapshot_attempts tg \<and> 0 < tg_unknown_base_ms tg \<and>
     tg_unknown_base_ms tg \<le> tg_unknown_max_ms tg \<and> 0 < tg_unknown_circuit_breaker_failures tg \<and>
     0 \<le> tg_device_available_bytes tg \<and> 0 \<le> tg_host_available_bytes tg"

definition blocked_ok :: "transfer_guard \<Rightarrow> bool" where
  "blocked_ok tg \<longleftrightarrow> dict_ok (tg_blocked tg) \<and> (\<forall>k b. map_of (tg_blocked tg) k = Some b \<longrightarrow> entry_ok k b) \<and>
     tg_released_count tg + int (length (tg_blocked tg)) \<le> tg_blocked_count tg \<and>
     dict_total ba_suppressed_count (tg_blocked tg) \<le> tg_suppressed_count tg \<and> 0 \<le> tg_released_count tg"

definition rest_ok :: "transfer_guard \<Rightarrow> bool" where
  "rest_ok tg \<longleftrightarrow> config_ok tg \<and> dict_ok (tg_inflight tg) \<and> (\<forall>i a. map_of (tg_inflight tg) i = Some a \<longrightarrow> attempt_ok a) \<and>
     dict_ok (tg_unknown_failure_counts tg) \<and> (\<forall>k n. map_of (tg_unknown_failure_counts tg) k = Some n \<longrightarrow> 1 \<le> n)"

definition guard_inv :: "transfer_guard \<Rightarrow> bool" where
  "guard_inv tg \<longleftrightarrow> blocked_ok tg \<and> rest_ok tg"

lemma config_ok_core: "guard_core tg = guard_core tg' \<Longrightarrow> config_ok tg = config_ok tg'"
  by (simp add: config_ok_def guard_core_def)

lemma blocked_ok_cong:
  assumes "blocked_ok tg" and "tg_blocked tg' = tg_blocked tg" and "tg_blocked_count tg' = tg_blocked_count tg"
    and "tg_suppressed_count tg' = tg_suppressed_count tg" and "tg_released_count tg' = tg_released_count tg"
  shows "blocked_ok tg'"
  using assms by (simp add: blocked_ok_def)

lemma release_released:
  "tg_released_count (guard_release now reason b tg) =
     tg_released_count tg + (if dict_in (ba_key b) (tg_blocked tg) then 1 else 0)"
  by (simp add: guard_release_def Let_def)

lemma entry_nonneg: "blocked_ok tg \<Longrightarrow> map_of (tg_blocked tg) k = Some b \<Longrightarrow> 0 \<le> ba_suppressed_count b"
  by (simp add: blocked_ok_def entry_ok_def)

lemma blocked_ok_release:
  assumes "blocked_ok tg"
  shows "blocked_ok (guard_release now reason b tg)"
proof (cases "map_of (tg_blocked tg) (ba_key b)")
  case None
  then show ?thesis using assms by (simp add: guard_release_def dict_in_def)
next
  case (Some c)
  have "0 \<le> ba_suppressed_count c" using entry_nonneg [OF assms Some] .
  with assms Some show ?thesis
    by (simp add: blocked_ok_def release_released dict_in_def dict_total_delete dict_total_length map_of_delete)
qed

lemma blocked_ok_replace:
  assumes "blocked_ok tg" and "map_of (tg_blocked tg) k = Some b" and "entry_ok k b'" and "ba_suppressed_count b' = ba_suppressed_count b"
  shows "blocked_ok (tg\<lparr>tg_blocked := AList.update k b' (tg_blocked tg)\<rparr>)"
  using assms by (simp add: blocked_ok_def dict_total_update dict_total_length map_of_update)

lemma left_codes_sub: "set (left_codes tg b) \<subseteq> set (ba_blocker_codes b) \<inter> capacity_codes"
  by (auto simp: left_codes_def)

lemma entry_ok_rekeyed:
  assumes "entry_ok k b" and "left_codes tg b \<noteq> []" and "stale_entry current k"
  shows "entry_ok current (rekeyed current tg b)"
proof -
  have "hd (left_codes tg b) \<in> set (left_codes tg b)" using assms(2) by simp
  then have "set (left_codes tg b) \<inter> capacity_codes \<noteq> {}" using left_codes_sub [of tg b] by blast
  moreover have "ak_command_kind current = ak_command_kind k" using assms(3) by (simp add: stale_entry_def same_identity_def)
  ultimately show ?thesis using assms(1,2)
    by (auto simp: entry_ok_def rekeyed_def left_codes_def intro: sorted_filter)
qed

lemma blocked_ok_rekey:
  assumes "blocked_ok tg" and "map_of (tg_blocked tg) k = Some b" and "left_codes tg b \<noteq> []" and "stale_entry current k"
  shows "blocked_ok (tg\<lparr>tg_blocked := AList.update current (rekeyed current tg b) (AList.delete k (tg_blocked tg))\<rparr>)"
proof -
  have "entry_ok k b" using assms(1,2) by (simp add: blocked_ok_def)
  then have e: "entry_ok current (rekeyed current tg b)" by (rule entry_ok_rekeyed) fact+
  have ne: "current \<noteq> k" using assms(4) by (auto simp: stale_entry_def)
  have s: "ba_suppressed_count (rekeyed current tg b) = ba_suppressed_count b" by (simp add: rekeyed_def)
  have n: "0 \<le> ba_suppressed_count c" if "map_of (tg_blocked tg) current = Some c" for c
    using entry_nonneg [OF assms(1) that] .
  have t: "dict_total f (AList.update current (rekeyed current tg b) (AList.delete k (tg_blocked tg))) \<le> dict_total f (tg_blocked tg)"
    if "f (rekeyed current tg b) = f b" "\<And>c. map_of (tg_blocked tg) current = Some c \<Longrightarrow> 0 \<le> f c" for f
    using assms(1,2) ne that
    by (cases "map_of (tg_blocked tg) current")
      (simp_all add: blocked_ok_def dict_total_update dict_total_delete map_of_delete)
  have "dict_total ba_suppressed_count (AList.update current (rekeyed current tg b) (AList.delete k (tg_blocked tg)))
      \<le> tg_suppressed_count tg"
    using t [OF s n] assms(1) by (simp add: blocked_ok_def)
  moreover have "tg_released_count tg + int (length (AList.update current (rekeyed current tg b) (AList.delete k (tg_blocked tg))))
      \<le> tg_blocked_count tg"
    using t [of "\<lambda>_. 1"] assms(1) by (simp add: blocked_ok_def dict_total_length)
  ultimately show ?thesis using assms(1) e
    by (simp add: blocked_ok_def map_of_update map_of_delete)
qed

text \<open>A loop over a snapshot of the blocked attempts whose body, for the keys it cares about, changes no
  other such key, finds every entry of the snapshot still in place.\<close>

lemma fold_entries:
  assumes "distinct (map fst xs)" and "P s" and "\<forall>(k, b) \<in> set xs. Q k \<longrightarrow> map_of (tg_blocked s) k = Some b"
    and step: "\<And>k b s. P s \<Longrightarrow> Q k \<Longrightarrow> map_of (tg_blocked s) k = Some b \<Longrightarrow> P (f (k, b) s)"
    and others: "\<And>k b s k'. P s \<Longrightarrow> Q k \<Longrightarrow> map_of (tg_blocked s) k = Some b \<Longrightarrow> k' \<noteq> k \<Longrightarrow> Q k' \<Longrightarrow>
      map_of (tg_blocked (f (k, b) s)) k' = map_of (tg_blocked s) k'"
    and idle: "\<And>k b s. \<not> Q k \<Longrightarrow> f (k, b) s = s"
  shows "P (fold f xs s)"
  using assms(1-3)
proof (induction xs arbitrary: s)
  case (Cons x xs)
  obtain k b where x: "x = (k, b)" by (cases x)
  show ?case
  proof (cases "Q k")
    case True
    then have at: "map_of (tg_blocked s) k = Some b" using Cons.prems(3) x by simp
    have "P (fold f xs (f (k, b) s))"
    proof (rule Cons.IH)
      show "P (f (k, b) s)" by (rule step [OF Cons.prems(2) True at])
      show "\<forall>(k', b') \<in> set xs. Q k' \<longrightarrow> map_of (tg_blocked (f (k, b) s)) k' = Some b'"
      proof (intro ballI, clarify)
        fix k' b' assume m: "(k', b') \<in> set xs" "Q k'"
        then have "k' \<noteq> k" using Cons.prems(1) x by force
        then show "map_of (tg_blocked (f (k, b) s)) k' = Some b'"
          using others [OF Cons.prems(2) True at _ m(2)] Cons.prems(3) m by fastforce
      qed
    qed (use Cons.prems(1) in simp)
    then show ?thesis by (simp add: x)
  next
    case False
    then show ?thesis using Cons by (simp add: x idle)
  qed
qed simp

lemma change_entry_blocked:
  "stale_entry current k \<Longrightarrow> ba_key b = k \<Longrightarrow> tg_blocked (change_entry current now (k, b) tg) =
     (if left_codes tg b \<noteq> [] then AList.update current (rekeyed current tg b) (AList.delete k (tg_blocked tg))
      else AList.delete k (tg_blocked tg))"
  by (simp add: change_entry_def)

lemma change_entry_ok:
  assumes "blocked_ok tg" and "stale_entry current k" and "map_of (tg_blocked tg) k = Some b"
  shows "blocked_ok (change_entry current now (k, b) tg)"
proof (cases "left_codes tg b = []")
  case True
  have "blocked_ok (guard_release now ''physical_fingerprint_changed'' b tg)" by (rule blocked_ok_release) fact
  then show ?thesis using assms(2) True by (auto simp: change_entry_def intro: blocked_ok_cong)
next
  case False
  from blocked_ok_rekey [OF assms(1,3) False assms(2)]
  show ?thesis using assms(2) False by (auto simp: change_entry_def intro: blocked_ok_cong)
qed

lemma snapshot_entries:
  assumes "blocked_ok tg"
  shows "distinct (map fst (tg_blocked tg))" and "\<forall>(k, b) \<in> set (tg_blocked tg). Q k \<longrightarrow> map_of (tg_blocked tg) k = Some b"
  using assms by (auto simp: blocked_ok_def)

lemma change_entries_invariant:
  assumes "blocked_ok tg" and "P tg"
    and "\<And>k b s. blocked_ok s \<Longrightarrow> P s \<Longrightarrow> stale_entry current k \<Longrightarrow> map_of (tg_blocked s) k = Some b \<Longrightarrow>
      P (change_entry current now (k, b) s)"
  shows "blocked_ok (fold (change_entry current now) (tg_blocked tg) tg) \<and>
    P (fold (change_entry current now) (tg_blocked tg) tg)"
proof (rule fold_entries [where Q = "stale_entry current" and P = "\<lambda>s. blocked_ok s \<and> P s", OF snapshot_entries(1) [OF assms(1)] _ snapshot_entries(2) [OF assms(1)]])
  show "blocked_ok tg \<and> P tg" using assms by simp
next
  fix k b s assume "blocked_ok s \<and> P s" "stale_entry current k" "map_of (tg_blocked s) k = Some b"
  then show "blocked_ok (change_entry current now (k, b) s) \<and> P (change_entry current now (k, b) s)"
    using assms(3) change_entry_ok by blast
next
  fix k b s k' assume *: "blocked_ok s \<and> P s" "stale_entry current k" "map_of (tg_blocked s) k = Some b" "k' \<noteq> k" "stale_entry current k'"
  then have "ba_key b = k" "k' \<noteq> current" by (auto simp: blocked_ok_def entry_ok_def stale_entry_def)
  with * show "map_of (tg_blocked (change_entry current now (k, b) s)) k' = map_of (tg_blocked s) k'"
    by (simp add: change_entry_blocked map_of_update map_of_delete)
qed (simp add: change_entry_def)


lemma dict_fold_delete:
  "dict_ok d \<Longrightarrow> dict_ok (fold AList.delete ks d)"
  "map_of (fold AList.delete ks d) k = Some v \<Longrightarrow> map_of d k = Some v"
proof -
  show "dict_ok d \<Longrightarrow> dict_ok (fold AList.delete ks d)" by (induction ks arbitrary: d) simp_all
  show "map_of (fold AList.delete ks d) k = Some v \<Longrightarrow> map_of d k = Some v"
  proof (induction ks arbitrary: d)
    case (Cons a ks)
    then have "map_of (AList.delete a d) k = Some v" by simp
    then show ?case by (simp add: map_of_delete split: if_splits)
  qed simp
qed

lemma rest_ok_cong:
  assumes "rest_ok tg" and "guard_core tg' = guard_core tg" and "tg_inflight tg' = tg_inflight tg"
    and "tg_unknown_failure_counts tg' = fold AList.delete ks (tg_unknown_failure_counts tg)"
  shows "rest_ok tg'"
  using assms dict_fold_delete [where d = "tg_unknown_failure_counts tg"] config_ok_core [OF assms(2)]
  unfolding rest_ok_def by fastforce

lemma rest_ok_same:
  assumes "rest_ok tg" and "guard_core tg' = guard_core tg" and "tg_inflight tg' = tg_inflight tg"
    and "tg_unknown_failure_counts tg' = tg_unknown_failure_counts tg"
  shows "rest_ok tg'"
  using rest_ok_cong [OF assms(1-3), of "[]"] assms(4) by simp

lemma guard_inv_forget_unknowns:
  assumes "guard_inv tg"
  shows "guard_inv (forget_unknowns P tg)"
proof -
  obtain ks where "tg_unknown_failure_counts (forget_unknowns P tg) = fold AList.delete ks (tg_unknown_failure_counts tg)"
    using forget_unknowns_counts by blast
  moreover have "blocked_ok tg" "rest_ok tg" using assms by (simp_all add: guard_inv_def)
  ultimately show ?thesis unfolding guard_inv_def
    by (auto intro: blocked_ok_cong [of tg] rest_ok_cong [of tg])
qed

lemma change_entry_rest: "rest_ok tg \<Longrightarrow> rest_ok (change_entry current now e tg)"
proof (cases e)
  case (Pair k b)
  assume "rest_ok tg"
  moreover have "guard_core (change_entry current now e tg) = guard_core tg" "tg_inflight (change_entry current now e tg) = tg_inflight tg"
    by (simp_all add: Pair change_entry_def)
  moreover have "\<exists>ks. tg_unknown_failure_counts (change_entry current now e tg) = fold AList.delete ks (tg_unknown_failure_counts tg)"
    by (auto simp: Pair change_entry_def forget_unknown_def intro: exI [of _ "[]"] exI [of _ "[k]"])
  ultimately show ?thesis by (auto intro: rest_ok_cong)
qed

definition settle :: "attempt_key \<Rightarrow> real \<Rightarrow> transfer_guard \<Rightarrow> transfer_guard" where
  "settle current now tg = forget_unknowns (stale_entry current) (fold (change_entry current now) (tg_blocked tg) tg)"

lemma release_changed_settle: "release_changed_snapshots current now tg = Inr (settle current now tg)"
  by (simp add: release_changed_Inr settle_def)

lemma guard_inv_settle:
  assumes "guard_inv tg"
  shows "guard_inv (settle current now tg)"
proof -
  have "blocked_ok (fold (change_entry current now) (tg_blocked tg) tg) \<and>
    rest_ok (fold (change_entry current now) (tg_blocked tg) tg)"
    using assms by (intro change_entries_invariant change_entry_rest) (simp_all add: guard_inv_def)
  then show ?thesis unfolding settle_def by (intro guard_inv_forget_unknowns) (simp add: guard_inv_def)
qed

lemma settle_core [simp]:
  "guard_core (settle current now tg) = guard_core tg" "tg_inflight (settle current now tg) = tg_inflight tg"
proof -
  have "guard_core (fold (change_entry current now) xs tg) = guard_core tg \<and>
    tg_inflight (fold (change_entry current now) xs tg) = tg_inflight tg" for xs
  proof (induction xs arbitrary: tg)
    case (Cons x xs)
    then show ?case by (cases x) (simp add: change_entry_def)
  qed simp
  then show "guard_core (settle current now tg) = guard_core tg" "tg_inflight (settle current now tg) = tg_inflight tg"
    by (simp_all add: settle_def)
qed

lemma guard_inv_release: "guard_inv tg \<Longrightarrow> guard_inv (guard_release now reason b tg)"
  by (auto simp: guard_inv_def intro: blocked_ok_release rest_ok_same [of tg])

lemma guard_inv_release_if: "guard_inv tg \<Longrightarrow> guard_inv (release_if P now reason tg)"
  unfolding release_if_def by (rule fold_invariant [where Q = "\<lambda>_. True"]) (auto intro: guard_inv_release)

lemma guard_inv_drop_inflight: "guard_inv tg \<Longrightarrow> guard_inv (drop_inflight i tg)"
  using config_ok_core [of "drop_inflight i tg" tg]
  by (auto simp: guard_inv_def blocked_ok_def rest_ok_def drop_inflight_def map_of_delete split: if_splits)

section \<open>Answers\<close>

text \<open>A refusal, as a function of the settled guard and the entry.\<close>

definition refuse :: "attempt_key \<Rightarrow> real \<Rightarrow> blocked_attempt \<Rightarrow> transfer_guard \<Rightarrow> transfer_guard" where
  "refuse k now b tg =
     (let b1 = b\<lparr>ba_suppressed_count := ba_suppressed_count b + 1\<rparr>;
          tg1 = tg\<lparr>tg_suppressed_count := tg_suppressed_count tg + 1\<rparr> in
      if ba_suppression_reported b then tg1\<lparr>tg_blocked := AList.update k b1 (tg_blocked tg1)\<rparr>
      else
        let b2 = b1\<lparr>ba_suppression_reported := True\<rparr> in
        guard_emit ''transfer_retry_suppressed'' now b2 [(''suppressed_count'', PInt (ba_suppressed_count b2))]
          (tg1\<lparr>tg_blocked := AList.update k b2 (tg_blocked tg1)\<rparr>))"

definition held :: "transfer_guard \<Rightarrow> blocked_attempt \<Rightarrow> real \<Rightarrow> bool" where
  "held tg b now \<longleftrightarrow> tg_max_same_snapshot_attempts tg \<le> ba_identical_failure_count b \<and>
     (ba_blocker_codes b = [] \<or> (\<exists>c \<in> set (ba_blocker_codes b). \<not> code_open tg b now c))"

lemma key_is_eligible_Inr:
  "key_is_eligible k now tg0 =
     (let tg = settle k now tg0 in
      Inr (case map_of (tg_blocked tg) k of
        None \<Rightarrow> (True, tg)
      | Some b \<Rightarrow>
          if held tg b now then (False, refuse k now b tg)
          else if ba_identical_failure_count b < tg_max_same_snapshot_attempts tg then (True, tg)
          else (True, guard_release now ''resource_predicate_satisfied'' b tg)))"
proof (cases "map_of (tg_blocked (settle k now tg0)) k")
  case (Some b)
  then show ?thesis
    by (cases "ba_identical_failure_count b < tg_max_same_snapshot_attempts (settle k now tg0)")
      (auto simp: key_is_eligible_def release_changed_settle resource_predicates_Inr held_def refuse_def Let_def)
qed (simp add: key_is_eligible_def release_changed_settle)

lemma guard_inv_refuse:
  assumes "guard_inv tg" and "map_of (tg_blocked tg) k = Some b"
  shows "guard_inv (refuse k now b tg)"
proof -
  have e: "entry_ok k b" using assms by (simp add: guard_inv_def blocked_ok_def)
  define b' where "b' = (if ba_suppression_reported b then b\<lparr>ba_suppressed_count := ba_suppressed_count b + 1\<rparr>
    else b\<lparr>ba_suppressed_count := ba_suppressed_count b + 1, ba_suppression_reported := True\<rparr>)"
  define tg' where "tg' = tg\<lparr>tg_suppressed_count := tg_suppressed_count tg + 1, tg_blocked := AList.update k b' (tg_blocked tg)\<rparr>"
  have "entry_ok k b'" "ba_suppressed_count b' = ba_suppressed_count b + 1" using e by (auto simp: b'_def entry_ok_def)
  then have "blocked_ok tg'" using assms
    by (simp add: tg'_def guard_inv_def blocked_ok_def dict_total_update dict_total_length map_of_update)
  moreover have "rest_ok tg'" using assms by (auto simp: guard_inv_def tg'_def intro: rest_ok_same [of tg])
  moreover have "refuse k now b tg = tg' \<or> (\<exists>kind ex. refuse k now b tg = guard_emit kind now b' ex tg')"
    by (auto simp: refuse_def tg'_def b'_def Let_def)
  ultimately show ?thesis unfolding guard_inv_def by (auto intro: blocked_ok_cong rest_ok_same)
qed

lemma guard_inv_ask:
  assumes "guard_inv tg" and "key_is_eligible k now tg = Inr (ok, tg')"
  shows "guard_inv tg'"
  using assms(2) guard_inv_settle [OF assms(1), of k now]
  by (auto simp: key_is_eligible_Inr Let_def intro: guard_inv_refuse guard_inv_release split: option.splits if_splits)

section \<open>Operations keep the books\<close>

definition anchored :: "int \<Rightarrow> int \<Rightarrow> blocked_attempt \<Rightarrow> blocked_attempt" where
  "anchored device host b =
     (if ba_capacity_snapshot_pending b
      then b\<lparr>ba_failed_device_available_bytes := device, ba_failed_host_available_bytes := host,
             ba_capacity_snapshot_pending := False\<rparr>
      else b)"

definition anchor_entry ::
  "int \<Rightarrow> int \<Rightarrow> real \<Rightarrow> attempt_key \<times> blocked_attempt \<Rightarrow> transfer_guard \<Rightarrow> transfer_guard" where
  "anchor_entry device host now = (\<lambda>(k, b) tg.
     if \<not> ba_capacity_snapshot_pending b then tg
     else guard_emit ''transfer_retry_capacity_anchored'' now (anchored device host b) []
       (tg\<lparr>tg_blocked := AList.update k (anchored device host b) (tg_blocked tg)\<rparr>))"

definition with_resources :: "int \<Rightarrow> int \<Rightarrow> transfer_guard \<Rightarrow> transfer_guard" where
  "with_resources device host tg = tg\<lparr>tg_device_available_bytes := device, tg_host_available_bytes := host\<rparr>"

lemma with_resources_simps [simp]:
  "tg_blocked (with_resources d h tg) = tg_blocked tg" "tg_inflight (with_resources d h tg) = tg_inflight tg"
  "tg_unknown_failure_counts (with_resources d h tg) = tg_unknown_failure_counts tg"
  "tg_blocked_count (with_resources d h tg) = tg_blocked_count tg"
  "tg_suppressed_count (with_resources d h tg) = tg_suppressed_count tg"
  "tg_released_count (with_resources d h tg) = tg_released_count tg"
  by (simp_all add: with_resources_def)

lemma update_resources_Inr:
  assumes "0 \<le> device" and "0 \<le> host"
  shows "update_resources device host now tg =
    Inr (fold (anchor_entry device host now) (tg_blocked tg) (with_resources device host tg))"
proof -
  have "(\<lambda>(k, b) tg. if \<not> ba_capacity_snapshot_pending b then tg
      else let b1 = b\<lparr>ba_failed_device_available_bytes := device, ba_failed_host_available_bytes := host,
                 ba_capacity_snapshot_pending := False\<rparr> in
           guard_emit ''transfer_retry_capacity_anchored'' now b1 [] (tg\<lparr>tg_blocked := AList.update k b1 (tg_blocked tg)\<rparr>))
      = anchor_entry device host now"
    by (auto simp: anchor_entry_def anchored_def Let_def fun_eq_iff)
  then show ?thesis using assms by (simp add: update_resources_def with_resources_def Let_def)
qed

lemma update_resources_valid: "update_resources device host now tg = Inr tg' \<Longrightarrow> 0 \<le> device \<and> 0 \<le> host"
  by (auto simp: update_resources_def split: if_splits)

lemma anchor_entries:
  assumes "blocked_ok tg"
  shows "blocked_ok (fold (anchor_entry device host now) (tg_blocked tg) tg)"
proof (rule fold_entries [where Q = "\<lambda>_. True" and P = blocked_ok and f = "anchor_entry device host now", OF snapshot_entries(1) [OF assms] assms snapshot_entries(2) [OF assms]])
  fix k b s assume *: "blocked_ok s" "map_of (tg_blocked s) k = Some b"
  then have "entry_ok k (anchored device host b)" "ba_suppressed_count (anchored device host b) = ba_suppressed_count b"
    by (auto simp: blocked_ok_def entry_ok_def anchored_def)
  from blocked_ok_replace [OF * this] show "blocked_ok (anchor_entry device host now (k, b) s)"
    using *(1) by (auto simp: anchor_entry_def intro: blocked_ok_cong)
next
  fix k b s k' assume "k' \<noteq> (k :: attempt_key)"
  then show "map_of (tg_blocked (anchor_entry device host now (k, b) s)) k' = map_of (tg_blocked s) k'"
    by (simp add: anchor_entry_def map_of_update)
qed simp

lemma anchor_entries_rest:
  "guard_core (fold (anchor_entry device host now) xs tg) = guard_core tg \<and>
   tg_inflight (fold (anchor_entry device host now) xs tg) = tg_inflight tg \<and>
   tg_unknown_failure_counts (fold (anchor_entry device host now) xs tg) = tg_unknown_failure_counts tg"
proof (induction xs arbitrary: tg)
  case (Cons x xs)
  then show ?case by (cases x) (simp add: anchor_entry_def)
qed simp

lemma guard_inv_update:
  assumes "guard_inv tg" and "update_resources device host now tg = Inr tg'"
  shows "guard_inv tg'"
proof -
  have v: "0 \<le> device" "0 \<le> host" using update_resources_valid [OF assms(2)] by simp_all
  let ?w = "with_resources device host tg"
  have tg': "tg' = fold (anchor_entry device host now) (tg_blocked ?w) ?w"
    using assms(2) update_resources_Inr [OF v] by simp
  have "blocked_ok ?w" using assms(1) by (auto simp: guard_inv_def intro: blocked_ok_cong [of tg])
  then have "blocked_ok tg'" unfolding tg' by (rule anchor_entries)
  moreover have "config_ok ?w" using assms(1) v unfolding guard_inv_def rest_ok_def config_ok_def with_resources_def by simp
  then have "rest_ok ?w" using assms(1) by (simp add: guard_inv_def rest_ok_def)
  then have "rest_ok tg'" unfolding tg' by (rule rest_ok_same) (simp_all add: anchor_entries_rest)
  ultimately show ?thesis by (simp add: guard_inv_def)
qed

lemma key_for_command_kind: "key_for_command digest g ix cmd = Inr k \<Longrightarrow> ak_command_kind k = cc_kind cmd"
  by (auto simp: key_for_command_def key_for_def split: option.splits if_splits)

lemma guard_inv_begin:
  assumes inv: "guard_inv tg" and valid: "control_command_post_init cmd = Inr cmd" and run: "begin_attempt digest g ix cmd tg = Inr (fp, tg')"
  shows "guard_inv tg'"
proof (cases "tg' = tg")
  case False
  with run obtain k where k: "cc_kind cmd \<in> guarded_kinds" "key_for_command digest g ix cmd = Inr k"
    "tg' = tg\<lparr>tg_inflight := AList.update (cc_command_id cmd)
       \<lparr>as_key = k, as_target_bytes = cc_target_bytes cmd, as_device_available_bytes = tg_device_available_bytes tg,
        as_host_available_bytes = tg_host_available_bytes tg\<rparr> (tg_inflight tg)\<rparr>"
    by (auto simp: begin_attempt_def split: if_splits)
  have "0 \<le> cc_target_bytes cmd" using valid by (auto simp: control_command_post_init_def split: if_splits)
  then show ?thesis
    using inv k key_for_command_kind [OF k(2)]
    by (auto simp: guard_inv_def blocked_ok_def rest_ok_def config_ok_def attempt_ok_def map_of_update split: if_splits)
qed (use inv in simp)

lemma normalized_codes_ok:
  "normalized_codes bs \<noteq> []" "distinct (normalized_codes bs)" "sorted (map transfer_blocker_code_value (normalized_codes bs))"
  "set (normalized_codes bs) = (if bs = [] then {UNKNOWN_BACKEND} else tb_code ` set bs)"
proof -
  show s: "set (normalized_codes bs) = (if bs = [] then {UNKNOWN_BACKEND} else tb_code ` set bs)"
    by (simp add: normalized_codes_def Let_def)
  then have "set (normalized_codes bs) \<noteq> {}" by simp
  then show "normalized_codes bs \<noteq> []" by auto
  show "distinct (normalized_codes bs)" "sorted (map transfer_blocker_code_value (normalized_codes bs))"
    by (simp_all add: normalized_codes_def Let_def)
qed

text \<open>The entry a failure leaves.\<close>

definition failed_entry ::
  "string \<Rightarrow> attempt_snapshot \<Rightarrow> transfer_blocker list \<Rightarrow> int \<Rightarrow> real \<Rightarrow> transfer_guard \<Rightarrow> blocked_attempt" where
  "failed_entry i a blockers required now tg =
     (let k = as_key a; codes = normalized_codes blockers; previous = map_of (tg_blocked tg) k;
          n = fst (failure_counts k codes tg) in
      \<lparr>ba_key = k, ba_blocker_codes = codes, ba_required_bytes = required,
       ba_failed_device_available_bytes = as_device_available_bytes a,
       ba_failed_host_available_bytes = as_host_available_bytes a,
       ba_failed_ts_ms = now, ba_last_command_id = i, ba_identical_failure_count = n,
       ba_next_retry_ts_ms =
         (if UNKNOWN_BACKEND \<in> set codes \<and> n < tg_unknown_circuit_breaker_failures tg
          then Some (now + retry_delay tg n) else None),
       ba_suppressed_count = (case previous of None \<Rightarrow> 0 | Some p \<Rightarrow> ba_suppressed_count p),
       ba_suppression_reported = (case previous of None \<Rightarrow> False | Some p \<Rightarrow> ba_suppression_reported p),
       ba_capacity_snapshot_pending = (\<exists>c \<in> set codes. c \<in> capacity_codes)\<rparr>)"

definition fail_with :: "blocked_attempt \<Rightarrow> (attempt_key, int) dict \<Rightarrow> real \<Rightarrow> transfer_guard \<Rightarrow> transfer_guard" where
  "fail_with b unknown now tg =
     (let tg1 = bump_generation (ba_key b)
            (tg\<lparr>tg_unknown_failure_counts := unknown, tg_blocked := AList.update (ba_key b) b (tg_blocked tg)\<rparr>)
      in guard_emit ''transfer_attempt_blocked'' now b [] (tg1\<lparr>tg_blocked_count := tg_blocked_count tg1 + 1\<rparr>))"

lemma fail_with_simps [simp]:
  "guard_core (fail_with b u now tg) = guard_core tg" "tg_inflight (fail_with b u now tg) = tg_inflight tg"
  "tg_unknown_failure_counts (fail_with b u now tg) = u"
  "tg_blocked (fail_with b u now tg) = AList.update (ba_key b) b (tg_blocked tg)"
  "tg_blocked_count (fail_with b u now tg) = tg_blocked_count tg + 1"
  "tg_suppressed_count (fail_with b u now tg) = tg_suppressed_count tg"
  "tg_released_count (fail_with b u now tg) = tg_released_count tg"
  by (simp_all add: fail_with_def Let_def)

lemma record_failure_cases:
  "record_failure i blockers req now tg =
     (case map_of (tg_inflight tg) i of
        None \<Rightarrow> (Inr (), drop_inflight i tg)
      | Some a \<Rightarrow>
          if \<not> tg_enabled tg then (Inr (), drop_inflight i tg)
          else if blockers = [] then (Inl (TypeError ''int object is not iterable''), drop_inflight i tg)
          else
            let b = failed_entry i a blockers
                  (fold max (map tb_required_bytes blockers) (if req > 0 then req else as_target_bytes a)) now tg in
            (Inr (), fail_with b (snd (failure_counts (as_key a) (normalized_codes blockers) tg)) now (drop_inflight i tg)))"
proof (cases "map_of (tg_inflight tg) i")
  case (Some a)
  have e: "tg_enabled (drop_inflight i tg) = tg_enabled tg"
    "tg_unknown_circuit_breaker_failures (drop_inflight i tg) = tg_unknown_circuit_breaker_failures tg"
    "retry_delay (drop_inflight i tg) n = retry_delay tg n"
    "failure_counts k codes (drop_inflight i tg) = failure_counts k codes tg" for n k codes
    by (simp_all add: drop_inflight_def retry_delay_def failure_counts_def Let_def)
  show ?thesis
    by (simp add: record_failure_def Some e py_max_star_def failed_entry_def fail_with_def Let_def case_prod_unfold)
qed (simp add: record_failure_def)

lemma fold_max_ge: "(x::int) \<le> fold max ys x"
proof (induction ys arbitrary: x)
  case (Cons y ys)
  have "x \<le> max y x" by simp
  also have "\<dots> \<le> fold max ys (max y x)" by (rule Cons.IH)
  finally show ?case by simp
qed simp

lemma failure_counts_ok:
  assumes "guard_inv tg" and "failure_counts k codes tg = (n, unknown)"
  shows "1 \<le> n" and "dict_ok unknown" and "\<And>k' m. map_of unknown k' = Some m \<Longrightarrow> 1 \<le> m"
proof -
  have u: "dict_ok (tg_unknown_failure_counts tg)" "\<And>k n. map_of (tg_unknown_failure_counts tg) k = Some n \<Longrightarrow> 1 \<le> n"
    using assms(1) by (auto simp: guard_inv_def rest_ok_def)
  have d: "0 \<le> dict_get (tg_unknown_failure_counts tg) k 0"
    using u(2) [of k] by (cases "map_of (tg_unknown_failure_counts tg) k") auto
  have b: "1 \<le> ba_identical_failure_count b" if "map_of (tg_blocked tg) k = Some b" for b
    using assms(1) that by (auto simp: guard_inv_def blocked_ok_def entry_ok_def)
  show n: "1 \<le> n" using assms(2) d b
    by (auto simp: failure_counts_def Let_def split: if_splits option.splits)
  show "dict_ok unknown" "\<And>k' m. map_of unknown k' = Some m \<Longrightarrow> 1 \<le> m"
    using assms(2) u d by (auto simp: failure_counts_def Let_def map_of_update split: if_splits)
qed

definition blockers_valid :: "transfer_blocker list \<Rightarrow> bool" where
  "blockers_valid bs = list_all (\<lambda>b. transfer_blocker_post_init b = Inr b) bs"

lemma guard_inv_fail_with:
  assumes inv: "guard_inv tg" and b: "entry_ok (ba_key b) b"
    and s: "ba_suppressed_count b = (case map_of (tg_blocked tg) (ba_key b) of None \<Rightarrow> 0 | Some p \<Rightarrow> ba_suppressed_count p)"
    and u: "dict_ok unknown" "\<And>k' m. map_of unknown k' = Some m \<Longrightarrow> 1 \<le> m"
  shows "guard_inv (fail_with b unknown now tg)"
proof -
  have "blocked_ok (fail_with b unknown now tg)"
    using inv b s by (cases "map_of (tg_blocked tg) (ba_key b)")
      (simp_all add: guard_inv_def blocked_ok_def dict_total_update dict_total_length map_of_update)
  moreover have "rest_ok (fail_with b unknown now tg)"
    using inv u config_ok_core [of "fail_with b unknown now tg" tg] by (simp add: guard_inv_def rest_ok_def)
  ultimately show ?thesis by (simp add: guard_inv_def)
qed

lemma failed_entry_ok:
  assumes inv: "guard_inv tg" and a: "map_of (tg_inflight tg) i = Some a" and r: "0 \<le> required"
  shows "entry_ok (as_key a) (failed_entry i a blockers required now tg)"
proof -
  have "1 \<le> fst (failure_counts (as_key a) (normalized_codes blockers) tg)"
    using failure_counts_ok(1) [OF inv] by (metis prod.collapse)
  moreover have "ak_command_kind (as_key a) \<in> guarded_kinds" using inv a by (auto simp: guard_inv_def rest_ok_def attempt_ok_def)
  moreover have "0 \<le> (case map_of (tg_blocked tg) (as_key a) of None \<Rightarrow> 0 | Some p \<Rightarrow> ba_suppressed_count p)"
    using inv by (auto simp: guard_inv_def entry_nonneg split: option.splits)
  ultimately show ?thesis using r normalized_codes_ok [of blockers]
    by (auto simp: entry_ok_def failed_entry_def Let_def)
qed

lemma guard_inv_failure:
  assumes inv: "guard_inv tg" and valid: "blockers_valid blockers" and run: "record_failure i blockers req now tg = (r, tg')"
  shows "guard_inv tg'"
proof (cases "tg' = drop_inflight i tg")
  case False
  let ?req = "\<lambda>a. fold max (map tb_required_bytes blockers) (if req > 0 then req else as_target_bytes a)"
  obtain a where a: "map_of (tg_inflight tg) i = Some a" and tg': "tg' = fail_with (failed_entry i a blockers (?req a) now tg)
      (snd (failure_counts (as_key a) (normalized_codes blockers) tg)) now (drop_inflight i tg)"
    using run False by (auto simp: record_failure_cases Let_def split: option.splits if_splits)
  have "0 \<le> as_target_bytes a" using inv a by (auto simp: guard_inv_def rest_ok_def attempt_ok_def)
  then have "0 \<le> ?req a" using fold_max_ge by (smt (verit))
  from failed_entry_ok [OF inv a this]
  have e: "entry_ok (as_key a) (failed_entry i a blockers (?req a) now tg)" .
  have k: "ba_key (failed_entry i a blockers (?req a) now tg) = as_key a" using e by (simp add: entry_ok_def)
  show ?thesis unfolding tg'
  proof (rule guard_inv_fail_with [OF guard_inv_drop_inflight [OF inv]])
    show "entry_ok (ba_key (failed_entry i a blockers (?req a) now tg)) (failed_entry i a blockers (?req a) now tg)"
      using e k by simp
    show "ba_suppressed_count (failed_entry i a blockers (?req a) now tg) =
      (case map_of (tg_blocked (drop_inflight i tg)) (ba_key (failed_entry i a blockers (?req a) now tg)) of
         None \<Rightarrow> 0 | Some p \<Rightarrow> ba_suppressed_count p)"
      unfolding k by (simp add: failed_entry_def Let_def)
  qed (use failure_counts_ok(2,3) [OF inv] in \<open>metis prod.collapse\<close>)+
qed (use guard_inv_drop_inflight [OF inv] in simp)

lemma guard_inv_success: "guard_inv tg \<Longrightarrow> guard_inv (record_success i now tg)"
  by (auto simp: record_success_def Let_def split: option.splits
      intro!: guard_inv_forget_unknowns guard_inv_release_if guard_inv_drop_inflight)

lemma guard_inv_invalidate:
  assumes "guard_inv tg"
  shows "guard_inv (invalidate_context c now keep tg)"
proof -
  have "guard_inv (fold (\<lambda>(i, attempt) tg. if invalidated c keep (as_key attempt) then drop_inflight i tg else tg) xs tg)" for xs
    by (rule fold_invariant [where Q = "\<lambda>_. True"]) (auto intro: guard_inv_drop_inflight assms)
  then show ?thesis unfolding invalidate_context_def by (intro guard_inv_forget_unknowns guard_inv_release_if)
qed

lemma guard_inv_reset: "guard_inv tg \<Longrightarrow> guard_inv (guard_reset now tg)"
  unfolding guard_reset_def
  by (rule guard_inv_release_if) (simp add: guard_inv_def blocked_ok_def rest_ok_def config_ok_def)

lemma guard_inv_drain: "guard_inv tg \<Longrightarrow> guard_inv (snd (drain_events tg))"
  by (simp add: drain_events_def guard_inv_def blocked_ok_def rest_ok_def config_ok_def)

section \<open>Runs\<close>

text \<open>Every public operation of the guard, against any graph and page index. Commands and blockers are those
  their constructors accept.\<close>

inductive guard_step :: "py_digest \<Rightarrow> transfer_guard \<Rightarrow> transfer_guard \<Rightarrow> bool" for digest where
  update: "update_resources device host now tg = Inr tg' \<Longrightarrow> guard_step digest tg tg'"
| ask: "is_eligible digest g ix c epoch kind now tg = Inr (ok, tg') \<Longrightarrow> guard_step digest tg tg'"
| ask_command: "command_is_eligible digest g ix cmd now tg = Inr (ok, tg') \<Longrightarrow> guard_step digest tg tg'"
| attempt: "control_command_post_init cmd = Inr cmd \<Longrightarrow> begin_attempt digest g ix cmd tg = Inr (fp, tg') \<Longrightarrow>
    guard_step digest tg tg'"
| failure: "blockers_valid blockers \<Longrightarrow> record_failure i blockers required now tg = (r, tg') \<Longrightarrow> guard_step digest tg tg'"
| success: "guard_step digest tg (record_success i now tg)"
| cancel: "guard_step digest tg (cancel_attempt i tg)"
| invalidate: "guard_step digest tg (invalidate_context c now keep tg)"
| reset: "guard_step digest tg (guard_reset now tg)"
| drain: "guard_step digest tg (snd (drain_events tg))"

interpretation guard: invariant_machine "guard_step digest" guard_inv
proof
  fix s t assume "guard_step digest s t" and "guard_inv s"
  then show "guard_inv t"
    by (induction rule: guard_step.induct)
      (auto simp: is_eligible_def command_is_eligible_def cancel_attempt_def split: if_splits
        intro: guard_inv_update guard_inv_ask guard_inv_begin guard_inv_failure guard_inv_success guard_inv_drop_inflight
          guard_inv_invalidate guard_inv_reset guard_inv_drain)
qed

lemma guard_inv_init: "transfer_guard_init en n base mx br = Inr tg \<Longrightarrow> guard_inv tg"
  by (auto simp: transfer_guard_init_def guard_inv_def blocked_ok_def rest_ok_def config_ok_def dict_total_def split: if_splits)

lemma guard_run_inv:
  assumes "transfer_guard_init en n base mx br = Inr tg0" and "rtranclp (guard_step digest) tg0 tg"
  shows "guard_inv tg"
  using guard.run_inv [OF assms(2) guard_inv_init [OF assms(1)]] .

section \<open>What asking changes\<close>

lemma change_entry_map:
  assumes "ba_key b = k" and "k' \<noteq> current"
  shows "map_of (tg_blocked (change_entry current now (k, b) tg)) k' =
    (if k' = k \<and> stale_entry current k then None else map_of (tg_blocked tg) k')"
  using assms by (cases "stale_entry current k")
    (auto simp: change_entry_blocked map_of_update map_of_delete, simp add: change_entry_def)

lemma change_entries_map:
  assumes "\<forall>(k, b) \<in> set xs. ba_key b = k" and "k' \<noteq> current"
  shows "map_of (tg_blocked (fold (change_entry current now) xs tg)) k' =
    (if k' \<in> fst ` set xs \<and> stale_entry current k' then None else map_of (tg_blocked tg) k')"
  using assms(1)
proof (induction xs arbitrary: tg)
  case (Cons x xs)
  obtain k b where x: "x = (k, b)" by (cases x)
  then have "ba_key b = k" using Cons.prems by simp
  from change_entry_map [OF this assms(2)] show ?case using Cons x by auto
qed simp

lemma guard_inv_keys: "guard_inv tg \<Longrightarrow> \<forall>(k, b) \<in> set (tg_blocked tg). ba_key b = k"
  by (auto simp: guard_inv_def blocked_ok_def entry_ok_def)

lemma settle_map:
  assumes "guard_inv tg" and "k' \<noteq> current"
  shows "map_of (tg_blocked (settle current now tg)) k' = (if stale_entry current k' then None else map_of (tg_blocked tg) k')"
proof -
  have "map_of (tg_blocked tg) k' = None" if "k' \<notin> fst ` set (tg_blocked tg)" using that by (simp add: map_of_eq_None_iff)
  then show ?thesis using change_entries_map [OF guard_inv_keys [OF assms(1)] assms(2), of now tg] by (simp add: settle_def)
qed

definition undisturbed :: "transfer_guard \<Rightarrow> attempt_key \<Rightarrow> bool" where
  "undisturbed tg k \<longleftrightarrow> (\<forall>k'. stale_entry k k' \<longrightarrow> map_of (tg_blocked tg) k' = None)"

lemma settle_undisturbed:
  assumes "undisturbed tg k"
  shows "tg_blocked (settle k now tg) = tg_blocked tg" and "tg_suppressed_count (settle k now tg) = tg_suppressed_count tg"
proof -
  have "fold (change_entry k now) xs s = s" if "\<forall>(k', b) \<in> set xs. \<not> stale_entry k k'" for xs s
    using that by (induction xs) (auto simp: change_entry_def)
  moreover have "\<forall>(k', b) \<in> set (tg_blocked tg). \<not> stale_entry k k'"
    using assms unfolding undisturbed_def map_of_eq_None_iff by force
  ultimately show "tg_blocked (settle k now tg) = tg_blocked tg" "tg_suppressed_count (settle k now tg) = tg_suppressed_count tg"
    by (simp_all add: settle_def)
qed

lemma settle_suppressed: "tg_suppressed_count (settle k now tg) = tg_suppressed_count tg"
proof -
  have "tg_suppressed_count (fold (change_entry k now) xs s) = tg_suppressed_count s" for xs s
  proof (induction xs arbitrary: s)
    case (Cons x xs)
    then show ?case by (cases x) (simp add: change_entry_def)
  qed simp
  then show ?thesis by (simp add: settle_def)
qed

definition same_hold :: "blocked_attempt \<Rightarrow> blocked_attempt \<Rightarrow> bool" where
  "same_hold b b' \<longleftrightarrow> ba_blocker_codes b' = ba_blocker_codes b \<and> ba_next_retry_ts_ms b' = ba_next_retry_ts_ms b \<and>
     ba_identical_failure_count b' = ba_identical_failure_count b \<and> ba_required_bytes b' = ba_required_bytes b \<and>
     ba_failed_device_available_bytes b' = ba_failed_device_available_bytes b \<and>
     ba_failed_host_available_bytes b' = ba_failed_host_available_bytes b \<and>
     ba_capacity_snapshot_pending b' = ba_capacity_snapshot_pending b"

lemma held_same: "same_hold b b' \<Longrightarrow> guard_core tg' = guard_core tg \<Longrightarrow> held tg' b' now = held tg b now"
  by (simp add: held_def same_hold_def code_open_def guard_core_def)

lemma refuse_simps [simp]:
  "guard_core (refuse k now b tg) = guard_core tg"
  "tg_suppressed_count (refuse k now b tg) = tg_suppressed_count tg + 1"
  by (simp_all add: refuse_def Let_def)

lemma refuse_blocked: "\<exists>b'. same_hold b b' \<and> tg_blocked (refuse k now b tg) = AList.update k b' (tg_blocked tg)"
proof (intro exI conjI)
  let ?b = "if ba_suppression_reported b then b\<lparr>ba_suppressed_count := ba_suppressed_count b + 1\<rparr>
    else b\<lparr>ba_suppressed_count := ba_suppressed_count b + 1, ba_suppression_reported := True\<rparr>"
  show "same_hold b ?b" by (simp add: same_hold_def)
  show "tg_blocked (refuse k now b tg) = AList.update k ?b (tg_blocked tg)" by (simp add: refuse_def Let_def)
qed

lemma asked:
  assumes inv: "guard_inv tg" and run: "key_is_eligible k now tg = Inr (ok, tg')"
  shows "guard_core tg' = guard_core tg"
    and "tg_inflight tg' = tg_inflight tg"
    and "ok \<longleftrightarrow> \<not> (\<exists>b. map_of (tg_blocked tg') k = Some b \<and> held tg' b now)"
    and "tg_suppressed_count tg' = tg_suppressed_count tg + (if ok then 0 else 1)"
    and "k' \<noteq> k \<Longrightarrow> map_of (tg_blocked tg') k' = (if stale_entry k k' then None else map_of (tg_blocked tg) k')"
proof -
  let ?t = "settle k now tg"
  have i: "tg_inflight (refuse k now b s) = tg_inflight s" for b s by (simp add: refuse_def Let_def)
  consider (free) "map_of (tg_blocked ?t) k = None" "ok" "tg' = ?t"
    | (refused) b where "map_of (tg_blocked ?t) k = Some b" "held ?t b now" "\<not> ok" "tg' = refuse k now b ?t"
    | (early) b where "map_of (tg_blocked ?t) k = Some b" "\<not> held ?t b now" "ok" "tg' = ?t"
    | (freed) b where "map_of (tg_blocked ?t) k = Some b" "ok" "tg' = guard_release now ''resource_predicate_satisfied'' b ?t"
    using run by (cases "map_of (tg_blocked ?t) k") (auto simp: key_is_eligible_Inr Let_def split: if_splits)
  note c = this
  have key: "ba_key b = k" if "map_of (tg_blocked ?t) k = Some b" for b
    using guard_inv_settle [OF inv, of k now] that by (auto simp: guard_inv_def blocked_ok_def entry_ok_def)
  show "guard_core tg' = guard_core tg" "tg_inflight tg' = tg_inflight tg" using c by (cases; simp add: i)+
  show "ok \<longleftrightarrow> \<not> (\<exists>b. map_of (tg_blocked tg') k = Some b \<and> held tg' b now)"
    using c
  proof cases
    case (refused b)
    obtain b' where b': "same_hold b b'" "tg_blocked (refuse k now b ?t) = AList.update k b' (tg_blocked ?t)"
      using refuse_blocked by blast
    then have "held tg' b' now" using held_same [OF b'(1), of tg' ?t now] refused by simp
    with refused b'(2) show ?thesis by (simp add: map_of_update)
  next
    case (freed b)
    then show ?thesis using key by (simp add: map_of_delete)
  qed simp_all
  show "tg_suppressed_count tg' = tg_suppressed_count tg + (if ok then 0 else 1)"
    using c by cases (simp_all add: settle_suppressed)
  have "map_of (tg_blocked tg') k' = map_of (tg_blocked ?t) k'" if "k' \<noteq> k"
    using c
  proof cases
    case (refused b)
    obtain b' where "tg_blocked (refuse k now b ?t) = AList.update k b' (tg_blocked ?t)" using refuse_blocked by blast
    then show ?thesis using that refused by (simp add: map_of_update)
  next
    case (freed b)
    then show ?thesis using key that by (simp add: map_of_delete)
  qed simp_all
  then show "k' \<noteq> k \<Longrightarrow> map_of (tg_blocked tg') k' = (if stale_entry k k' then None else map_of (tg_blocked tg) k')"
    using settle_map [OF inv, of k' k now] by simp
qed

lemma asked_undisturbed:
  assumes "guard_inv tg" and "undisturbed tg k" and "key_is_eligible k now tg = Inr (ok, tg')"
  shows "ok \<longleftrightarrow> (\<forall>b. map_of (tg_blocked tg) k = Some b \<longrightarrow> \<not> held tg b now)"
    and "\<not> ok \<Longrightarrow> \<exists>b b'. map_of (tg_blocked tg) k = Some b \<and> map_of (tg_blocked tg') k = Some b' \<and> same_hold b b'"
proof -
  have h: "held (settle k now tg) b now = held tg b now" for b
    by (rule held_same) (simp_all add: same_hold_def)
  note s = settle_undisturbed(1) [OF assms(2), of now]
  show "ok \<longleftrightarrow> (\<forall>b. map_of (tg_blocked tg) k = Some b \<longrightarrow> \<not> held tg b now)"
    using assms(3) by (cases "map_of (tg_blocked tg) k") (auto simp: key_is_eligible_Inr s h Let_def split: if_splits)
  assume "\<not> ok"
  then obtain b where b: "map_of (tg_blocked tg) k = Some b" "tg' = refuse k now b (settle k now tg)"
    using assms(3) by (cases "map_of (tg_blocked tg) k") (auto simp: key_is_eligible_Inr s h Let_def split: if_splits)
  obtain b' where "same_hold b b'" "tg_blocked tg' = AList.update k b' (tg_blocked tg)"
    using refuse_blocked [of b k now "settle k now tg"] b(2) s by auto
  then show "\<exists>b b'. map_of (tg_blocked tg) k = Some b \<and> map_of (tg_blocked tg') k = Some b' \<and> same_hold b b'"
    using b(1) by (auto simp: map_of_update)
qed

section \<open>Quiet runs\<close>









lemma core_fields:
  "guard_core tg' = guard_core tg \<Longrightarrow> tg_enabled tg' = tg_enabled tg \<and>
     tg_max_same_snapshot_attempts tg' = tg_max_same_snapshot_attempts tg"
  by (simp add: guard_core_def)


lemma anchor_entries_map:
  assumes "distinct (map fst xs)" and "\<forall>(k, b) \<in> set xs. map_of (tg_blocked tg) k = Some b"
  shows "map_of (tg_blocked (fold (anchor_entry d h now) xs tg)) k' =
    (if k' \<in> fst ` set xs then map_option (anchored d h) (map_of (tg_blocked tg) k') else map_of (tg_blocked tg) k')"
  using assms
proof (induction xs arbitrary: tg)
  case (Cons x xs)
  obtain k b where x: "x = (k, b)" by (cases x)
  let ?t = "anchor_entry d h now (k, b) tg"
  have at: "map_of (tg_blocked ?t) j = (if j = k then Some (anchored d h b) else map_of (tg_blocked tg) j)" for j
    using Cons.prems(2) x by (auto simp: anchor_entry_def anchored_def map_of_update)
  have "k \<notin> fst ` set xs" using Cons.prems(1) x by simp
  moreover have "\<forall>(k, b) \<in> set xs. map_of (tg_blocked ?t) k = Some b"
    using Cons.prems x calculation by (force simp: at)
  ultimately show ?case using Cons.IH [of ?t] Cons.prems x by (auto simp: at)
qed simp

lemma update_resources_map:
  assumes "guard_inv tg" and "update_resources d h now tg = Inr tg'"
  shows "map_of (tg_blocked tg') k = map_option (anchored d h) (map_of (tg_blocked tg) k)"
    and "guard_core tg' = guard_core (with_resources d h tg)"
proof -
  have v: "0 \<le> d" "0 \<le> h" using update_resources_valid [OF assms(2)] by simp_all
  have tg': "tg' = fold (anchor_entry d h now) (tg_blocked tg) (with_resources d h tg)"
    using assms(2) update_resources_Inr [OF v] by simp
  have "dict_ok (tg_blocked tg)" using assms(1) by (simp add: guard_inv_def blocked_ok_def)
  then show "map_of (tg_blocked tg') k = map_option (anchored d h) (map_of (tg_blocked tg) k)"
    using anchor_entries_map [of "tg_blocked tg" "with_resources d h tg" d h now k] dict_key [of "tg_blocked tg" k]
    unfolding tg' by (cases "map_of (tg_blocked tg) k") (simp_all split: if_splits)
  show "guard_core tg' = guard_core (with_resources d h tg)" unfolding tg' by (simp add: anchor_entries_rest)
qed


lemma release_if_core [simp]: "guard_core (release_if P now reason tg) = guard_core tg"
proof -
  have "guard_core (fold (\<lambda>(k, b) tg. if P k then guard_release now reason b tg else tg) xs s) = guard_core s" for xs s
    by (induction xs arbitrary: s) auto
  then show ?thesis by (simp add: release_if_def)
qed











section \<open>Promises\<close>

lemma asking_returns: "\<exists>ok tg'. key_is_eligible k now tg = Inr (ok, tg')"
  by (simp add: key_is_eligible_Inr Let_def split: option.splits)

lemma guard_inv_entry: "guard_inv tg \<Longrightarrow> map_of (tg_blocked tg) k = Some b \<Longrightarrow> entry_ok k b"
  by (simp add: guard_inv_def blocked_ok_def)

lemma key_for_command_total:
  assumes "ix_inv ix" and "cc_context_id cmd = Some c" and "cc_context_epoch cmd = Some epoch"
  shows "\<exists>k. key_for_command digest g ix cmd = Inr k"
proof -
  obtain ps where "context_pages ix c = Inr ps" by (rule context_pages_total [OF assms(1)])
  then show ?thesis using assms(2,3)
    by (cases "cc_target_handles cmd = []"; cases "cc_physical_bundle cmd")
      (simp_all add: key_for_command_def key_for_def closure_fingerprint_def)
qed

definition guard_config :: "transfer_guard \<Rightarrow> bool \<times> int \<times> real \<times> real \<times> int" where
  "guard_config tg = (tg_enabled tg, tg_max_same_snapshot_attempts tg, tg_unknown_base_ms tg, tg_unknown_max_ms tg,
     tg_unknown_circuit_breaker_failures tg)"

lemma core_config: "guard_core tg' = guard_core tg \<Longrightarrow> guard_config tg' = guard_config tg"
  by (simp add: guard_core_def guard_config_def)

lemma run_config:
  assumes "rtranclp (guard_step digest) tg0 tg" and start: "guard_inv tg0"
  shows "guard_config tg = guard_config tg0"
  using assms(1)
proof (induction rule: rtranclp_induct)
  case (step s t)
  have inv: "guard_inv s" by (rule guard.run_inv [OF step.hyps(1) start])
  let ?f = "\<lambda>c keep (i, attempt) tg. if invalidated c keep (as_key attempt) then drop_inflight i tg else tg"
  have fold: "guard_core (fold (?f c keep) xs s) = guard_core s" for c keep xs s
  proof (induction xs arbitrary: s)
    case (Cons x xs)
    then show ?case by (cases x) auto
  qed simp
  from step.hyps(2) have "guard_config t = guard_config s"
  proof cases
    case (update d h now)
    then show ?thesis using update_resources_map(2) [OF inv update] by (simp add: guard_core_def guard_config_def with_resources_def)
  next
    case (ask g ix c epoch kind now ok)
    then have "guard_core t = guard_core s" using asked(1) [OF inv] by (auto simp: is_eligible_def split: if_splits)
    then show ?thesis using core_config by blast
  next
    case (ask_command g ix cmd now ok)
    then have "guard_core t = guard_core s" using asked(1) [OF inv] by (auto simp: command_is_eligible_def split: if_splits)
    then show ?thesis using core_config by blast
  next
    case (attempt cmd g ix fp)
    then show ?thesis by (auto simp: begin_attempt_def guard_config_def split: if_splits)
  next
    case (failure blockers i required now r)
    then have "guard_core t = guard_core s" by (auto simp: record_failure_cases Let_def split: option.splits if_splits)
    then show ?thesis using core_config by blast
  next
    case (success i now)
    then have "guard_core t = guard_core s" by (auto simp: record_success_def Let_def split: option.splits)
    then show ?thesis using core_config by blast
  next
    case (invalidate c now keep)
    then have "guard_core t = guard_core s" using fold by (simp add: invalidate_context_def)
    then show ?thesis using core_config by blast
  next
    case (reset now)
    then have "guard_core t = guard_core s" by (simp add: guard_reset_def)
    then show ?thesis using core_config by blast
  qed (simp_all add: cancel_attempt_def drop_inflight_def drain_events_def guard_config_def)
  with step.IH show ?case by simp
qed simp

lemma run_config_init:
  assumes "transfer_guard_init enabled attempts base_ms max_ms breaker = Inr tg0" and "rtranclp (guard_step digest) tg0 tg"
  shows "guard_config tg = (enabled, attempts, base_ms, max_ms, breaker)" and "0 < base_ms" and "base_ms \<le> max_ms"
proof -
  have "guard_config tg0 = (enabled, attempts, base_ms, max_ms, breaker)"
    using assms(1) by (auto simp: transfer_guard_init_def guard_config_def split: if_splits)
  then show "guard_config tg = (enabled, attempts, base_ms, max_ms, breaker)"
    using run_config [OF assms(2) guard_inv_init [OF assms(1)]] by simp
  show "0 < base_ms" "base_ms \<le> max_ms" using assms(1) by (auto simp: transfer_guard_init_def split: if_splits)
qed

text \<open>The guard's books are consistent. In every state reached from a new guard, a blocked attempt is stored
  under its own key, belongs to a guarded kind of command and carries a non-empty, sorted list of distinct
  blocker codes; it waits for a capacity snapshot only when a capacity code is among them. The attempts released
  and those still blocked are at most as many as were blocked, and the suppressions still recorded are at most as
  many as were counted.\<close>

theorem guard_books_consistent:
  assumes "transfer_guard_init enabled attempts base_ms max_ms breaker = Inr tg0" and "rtranclp (guard_step digest) tg0 tg"
  shows "(\<forall>k b. map_of (tg_blocked tg) k = Some b \<longrightarrow> entry_ok k b) \<and>
    (\<forall>i a. map_of (tg_inflight tg) i = Some a \<longrightarrow> attempt_ok a) \<and>
    tg_released_count tg + int (length (tg_blocked tg)) \<le> tg_blocked_count tg \<and>
    dict_total ba_suppressed_count (tg_blocked tg) \<le> tg_suppressed_count tg"
  using guard_run_inv [OF assms] by (simp add: guard_inv_def blocked_ok_def rest_ok_def)


text \<open>C38. Asking is total and settles the transfer. In every reachable state of the guard and of the page index the
  question whether a guarded command may be sent returns; afterwards no entry with another fingerprint of the same
  transfer is left, entries of other transfers are untouched, and the command is refused if and only if its key is
  then blocked, has failed as often as the limit, and one of its blockers is not yet open. When no other fingerprint
  of the transfer was blocked before, the answer is that of the entry the guard had.\<close>

theorem guard_answers_exactly:
  assumes "transfer_guard_init True attempts base_ms max_ms breaker = Inr tg0" and "rtranclp (guard_step digest) tg0 tg"
    and "rtranclp ix_step page_index_init ix" and "cc_kind cmd \<in> guarded_kinds"
    and "cc_context_id cmd = Some c" and "cc_context_epoch cmd = Some epoch"
  shows "\<exists>k ok tg'. key_for_command digest g ix cmd = Inr k \<and> command_is_eligible digest g ix cmd now tg = Inr (ok, tg') \<and>
    (\<forall>k'. stale_entry k k' \<longrightarrow> map_of (tg_blocked tg') k' = None) \<and>
    (\<forall>k'. \<not> same_identity k' k \<longrightarrow> map_of (tg_blocked tg') k' = map_of (tg_blocked tg) k') \<and>
    (ok \<longleftrightarrow> \<not> (\<exists>b. map_of (tg_blocked tg') k = Some b \<and> held tg' b now)) \<and>
    (undisturbed tg k \<longrightarrow> (ok \<longleftrightarrow> \<not> (\<exists>b. map_of (tg_blocked tg) k = Some b \<and> held tg b now)))"
proof -
  have inv: "guard_inv tg" by (rule guard_run_inv [OF assms(1,2)])
  obtain k where k: "key_for_command digest g ix cmd = Inr k"
    using key_for_command_total [OF ix_reachable_inv [OF assms(3)] assms(5,6)] by blast
  obtain ok tg' where a: "key_is_eligible k now tg = Inr (ok, tg')" using asking_returns by blast
  note eff = asked [OF inv a]
  have "command_is_eligible digest g ix cmd now tg = Inr (ok, tg')"
    using assms(4-6) k a run_config_init(1) [OF assms(1,2)] by (simp add: command_is_eligible_def guard_config_def)
  moreover have "map_of (tg_blocked tg') k' = None" if "stale_entry k k'" for k'
    using eff(5) [of k'] that by (auto simp: stale_entry_def)
  moreover have "map_of (tg_blocked tg') k' = map_of (tg_blocked tg) k'" if "\<not> same_identity k' k" for k'
    using eff(5) [of k'] that by (cases "k' = k") (auto simp: stale_entry_def same_identity_def)
  ultimately show ?thesis using k eff(3) asked_undisturbed(1) [OF inv _ a]
    by (intro exI [of _ k] exI [of _ ok] exI [of _ tg'] conjI) auto
qed

lemma retry_delay_bounds:
  assumes "guard_config tg = (enabled, attempts, base_ms, max_ms, breaker)" and "0 < base_ms" and "base_ms \<le> max_ms"
  shows "base_ms \<le> retry_delay tg n" and "retry_delay tg n \<le> max_ms"
proof -
  have c: "tg_unknown_base_ms tg = base_ms" "tg_unknown_max_ms tg = max_ms" using assms(1) by (simp_all add: guard_config_def)
  have "base_ms * 1 \<le> base_ms * 2 ^ nat (max 0 (n - 1))" using assms(2) by (intro mult_left_mono) simp_all
  then show "base_ms \<le> retry_delay tg n" "retry_delay tg n \<le> max_ms" using assms(3) by (simp_all add: retry_delay_def c)
qed

lemma fold_max_upper: "y \<in> set ys \<Longrightarrow> (y::int) \<le> fold max ys x"
proof (induction ys arbitrary: x)
  case (Cons z ys)
  then show ?case using fold_max_ge [of "max z x" ys] by auto
qed simp

text \<open>C39. A failure with a blocker blocks the attempt's key, and unknown failures back off. In every reachable state of
  an enabled guard, reporting a failure with at least one blocker ends the attempt, blocks its key with the codes of the
  blockers and at least their bytes, and changes no other entry. (A failure reported without blockers raises and blocks
  nothing.) With an unknown failure of the backend among them, the consecutive unknown failures of the key are counted, and
  after the \<open>n\<close>-th of them the next retry comes after \<open>base * 2 ^ (n - 1)\<close> milliseconds, but not later than the maximal
  interval, until the count reaches the threshold of the circuit breaker, from which on there is none. Without an unknown
  failure the entry counts the failures of the key since it was last released and sets no retry time.\<close>

theorem failure_blocks_and_backs_off:
  assumes "transfer_guard_init True attempts base_ms max_ms breaker = Inr tg0" and "rtranclp (guard_step digest) tg0 tg"
    and "map_of (tg_inflight tg) i = Some a" and "blockers \<noteq> []"
  shows "\<exists>tg' b. record_failure i blockers required now tg = (Inr (), tg') \<and> map_of (tg_inflight tg') i = None \<and>
    map_of (tg_blocked tg') = (map_of (tg_blocked tg))(as_key a \<mapsto> b) \<and> set (ba_blocker_codes b) = tb_code ` set blockers \<and>
    (\<forall>x \<in> set blockers. tb_required_bytes x \<le> ba_required_bytes b) \<and>
    (if UNKNOWN_BACKEND \<in> set (ba_blocker_codes b)
     then ba_identical_failure_count b = dict_get (tg_unknown_failure_counts tg) (as_key a) 0 + 1 \<and>
       ba_next_retry_ts_ms b = (if ba_identical_failure_count b < breaker
         then Some (now + min max_ms (base_ms * 2 ^ nat (ba_identical_failure_count b - 1))) else None) \<and>
       (\<forall>t. ba_next_retry_ts_ms b = Some t \<longrightarrow> now + base_ms \<le> t \<and> t \<le> now + max_ms)
     else ba_identical_failure_count b =
         (case map_of (tg_blocked tg) (as_key a) of None \<Rightarrow> 1 | Some old \<Rightarrow> ba_identical_failure_count old + 1) \<and>
       ba_next_retry_ts_ms b = None)"
proof -
  note cfg = run_config_init [OF assms(1,2)]
  define req where "req = fold max (map tb_required_bytes blockers) (if required > 0 then required else as_target_bytes a)"
  define b where "b = failed_entry i a blockers req now tg"
  define tg' where "tg' = fail_with b (snd (failure_counts (as_key a) (normalized_codes blockers) tg)) now (drop_inflight i tg)"
  have run: "record_failure i blockers required now tg = (Inr (), tg')"
    using assms(3,4) cfg(1) by (simp add: record_failure_cases req_def b_def tg'_def Let_def guard_config_def)
  have k: "ba_key b = as_key a" and codes: "set (ba_blocker_codes b) = tb_code ` set blockers"
    using assms(4) by (simp_all add: b_def failed_entry_def Let_def normalized_codes_ok(4))
  have m: "map_of (tg_blocked tg') = (map_of (tg_blocked tg))(as_key a \<mapsto> b)" by (simp add: tg'_def k map_of_update)
  have d: "map_of (tg_inflight tg') i = None" by (simp add: tg'_def) (simp add: drop_inflight_def map_of_delete)
  have r: "\<forall>x \<in> set blockers. tb_required_bytes x \<le> ba_required_bytes b"
    by (auto simp: b_def failed_entry_def Let_def req_def intro: fold_max_upper)
  have u: "UNKNOWN_BACKEND \<in> set (normalized_codes blockers) \<longleftrightarrow> UNKNOWN_BACKEND \<in> set (ba_blocker_codes b)"
    by (simp add: b_def failed_entry_def Let_def)
  have br: "tg_unknown_circuit_breaker_failures tg = breaker" "tg_unknown_base_ms tg = base_ms" "tg_unknown_max_ms tg = max_ms"
    using cfg(1) by (simp_all add: guard_config_def)
  have n: "ba_identical_failure_count b = (if UNKNOWN_BACKEND \<in> set (ba_blocker_codes b)
      then dict_get (tg_unknown_failure_counts tg) (as_key a) 0 + 1
      else case map_of (tg_blocked tg) (as_key a) of None \<Rightarrow> 1 | Some old \<Rightarrow> ba_identical_failure_count old + 1)"
    unfolding u [symmetric] by (simp add: b_def failed_entry_def failure_counts_def Let_def)
  have t: "ba_next_retry_ts_ms b = (if UNKNOWN_BACKEND \<in> set (ba_blocker_codes b) \<and> ba_identical_failure_count b < breaker
      then Some (now + retry_delay tg (ba_identical_failure_count b)) else None)"
    unfolding u [symmetric] by (simp add: b_def failed_entry_def Let_def br)
  have delay: "retry_delay tg m = min max_ms (base_ms * 2 ^ nat (m - 1))" for m
    by (simp add: retry_delay_def br max_def)
  have some: "\<forall>x. ba_next_retry_ts_ms b = Some x \<longrightarrow> now + base_ms \<le> x \<and> x \<le> now + max_ms"
    using t retry_delay_bounds [OF cfg, of "ba_identical_failure_count b"] by (auto split: if_splits)
  show ?thesis
  proof (intro exI [of _ tg'] exI [of _ b] conjI run d m codes r, cases "UNKNOWN_BACKEND \<in> set (ba_blocker_codes b)", goal_cases)
    case 1
    note c = n [unfolded if_P [OF 1]]
    have "ba_next_retry_ts_ms b = (if ba_identical_failure_count b < breaker
        then Some (now + min max_ms (base_ms * 2 ^ nat (ba_identical_failure_count b - 1))) else None)"
      using 1 t unfolding delay by simp
    then show ?case unfolding if_P [OF 1] by (intro conjI c some)
  next
    case 2
    then show ?case using n t by simp
  qed
qed

lemma anchored_simps [simp]:
  "ba_blocker_codes (anchored d h b) = ba_blocker_codes b" "ba_required_bytes (anchored d h b) = ba_required_bytes b"
  "ba_identical_failure_count (anchored d h b) = ba_identical_failure_count b" "\<not> ba_capacity_snapshot_pending (anchored d h b)"
  "ba_key (anchored d h b) = ba_key b"
  by (simp_all add: anchored_def)

lemma with_resources_fields [simp]:
  "tg_device_available_bytes (with_resources d h tg) = d" "tg_host_available_bytes (with_resources d h tg) = h"
  by (simp_all add: with_resources_def)

lemma update_resources_fields:
  assumes "guard_inv tg" and "update_resources d h now tg = Inr tg'"
  shows "tg_device_available_bytes tg' = d" "tg_host_available_bytes tg' = h"
    "tg_max_same_snapshot_attempts tg' = tg_max_same_snapshot_attempts tg"
  using update_resources_map(2) [OF assms] by (simp_all add: guard_core_def with_resources_def)

lemma asked_open:
  assumes inv: "guard_inv tg" and u: "undisturbed tg k" and b: "map_of (tg_blocked tg) k = Some b"
    and n: "tg_max_same_snapshot_attempts tg \<le> ba_identical_failure_count b" and o: "\<not> held tg b now"
  shows "\<exists>tg'. key_is_eligible k now tg = Inr (True, tg') \<and> map_of (tg_blocked tg') k = None"
proof -
  let ?t = "settle k now tg"
  have s: "map_of (tg_blocked ?t) k = Some b" using settle_undisturbed(1) [OF u] b by simp
  have h: "held ?t b now = held tg b now" by (rule held_same) (simp_all add: same_hold_def)
  have "tg_max_same_snapshot_attempts ?t = tg_max_same_snapshot_attempts tg" using core_fields [OF settle_core(1)] by blast
  then have "key_is_eligible k now tg = Inr (True, guard_release now ''resource_predicate_satisfied'' b ?t)"
    using s h o n by (simp add: key_is_eligible_Inr)
  moreover have "ba_key b = k" using guard_inv_entry [OF inv b] by (simp add: entry_ok_def)
  ultimately show ?thesis by (simp add: map_of_delete)
qed

lemma capacity_failure:
  assumes inv: "guard_inv tg" and en: "tg_enabled tg" and "map_of (tg_inflight tg) i = Some a" and "undisturbed tg (as_key a)"
    and "blockers_valid blockers" and "blockers \<noteq> []" and cap: "tb_code ` set blockers \<subseteq> capacity_codes"
    and run: "record_failure i blockers required ts tg = (Inr (), tg1)"
    and b: "map_of (tg_blocked tg1) (as_key a) = Some b"
  shows "set (ba_blocker_codes b) = tb_code ` set blockers" and "ba_capacity_snapshot_pending b"
    and "tg_max_same_snapshot_attempts tg1 = tg_max_same_snapshot_attempts tg" and "undisturbed tg1 (as_key a)"
proof -
  define q where "q = fold max (map tb_required_bytes blockers) (if required > 0 then required else as_target_bytes a)"
  let ?b = "failed_entry i a blockers q ts tg"
  have tg1: "tg1 = fail_with ?b (snd (failure_counts (as_key a) (normalized_codes blockers) tg)) ts (drop_inflight i tg)"
    using assms(3,6) run en by (simp add: record_failure_cases q_def Let_def)
  have "ba_key ?b = as_key a" by (simp add: failed_entry_def Let_def)
  then have m1: "map_of (tg_blocked tg1) = (map_of (tg_blocked tg))(as_key a \<mapsto> ?b)" by (simp add: tg1 map_of_update)
  then have eq: "b = ?b" using b by simp
  show codes: "set (ba_blocker_codes b) = tb_code ` set blockers"
    using assms(6) by (simp add: eq failed_entry_def Let_def normalized_codes_ok(4))
  obtain x xs where "blockers = x # xs" using assms(6) by (cases blockers) auto
  then show "ba_capacity_snapshot_pending b" using cap
    by (auto simp: eq failed_entry_def Let_def normalized_codes_ok(4))
  show "tg_max_same_snapshot_attempts tg1 = tg_max_same_snapshot_attempts tg"
    using core_fields [of tg1 tg] by (simp add: tg1)
  show "undisturbed tg1 (as_key a)" using assms(4) by (auto simp: undisturbed_def m1 stale_entry_def)
qed

lemma anchored_state:
  assumes "guard_inv tg" and "update_resources d h now tg = Inr tg'"
  shows "guard_inv tg'" and "map_of (tg_blocked tg') k = map_option (anchored d h) (map_of (tg_blocked tg) k)"
    and "tg_device_available_bytes tg' = d" and "tg_host_available_bytes tg' = h"
    and "tg_max_same_snapshot_attempts tg' = tg_max_same_snapshot_attempts tg"
    and "undisturbed tg k \<Longrightarrow> undisturbed tg' k"
  using guard_inv_update [OF assms] update_resources_map(1) [OF assms] update_resources_fields [OF assms]
  by (simp_all add: undisturbed_def)

text \<open>C37. A capacity failure is retried exactly when capacity has grown. Let an attempt of an enabled guard fail for
  capacity only, with no other fingerprint of the transfer blocked, and as often as the limit. The first report of the
  allocator after the failure anchors the wait: asked then, the guard refuses. If a later report shows, for every
  exhausted side, more than the anchor and at least the bytes required, the guard lets the attempt through and
  forgets the failure.\<close>

theorem capacity_retry_granted:
  assumes "transfer_guard_init True attempts base_ms max_ms breaker = Inr tg0" and "rtranclp (guard_step digest) tg0 tg"
    and "map_of (tg_inflight tg) i = Some a" and "undisturbed tg (as_key a)"
    and "blockers_valid blockers" and "blockers \<noteq> []" and "tb_code ` set blockers \<subseteq> capacity_codes"
    and "record_failure i blockers required ts tg = (Inr (), tg1)"
    and "map_of (tg_blocked tg1) (as_key a) = Some b" and "attempts \<le> ba_identical_failure_count b"
    and "update_resources d1 h1 ts1 tg1 = Inr tg2" and "update_resources d2 h2 ts2 tg2 = Inr tg3"
    and "DEVICE_CAPACITY \<in> tb_code ` set blockers \<longrightarrow> d1 < d2 \<and> ba_required_bytes b \<le> d2"
    and "HOST_CAPACITY \<in> tb_code ` set blockers \<longrightarrow> h1 < h2 \<and> ba_required_bytes b \<le> h2"
  shows "\<exists>tg2' tg4. key_is_eligible (as_key a) now tg2 = Inr (False, tg2') \<and>
    key_is_eligible (as_key a) now' tg3 = Inr (True, tg4) \<and> map_of (tg_blocked tg4) (as_key a) = None"
proof -
  let ?k = "as_key a" and ?b = "anchored d1 h1 b"
  have inv: "guard_inv tg" and cfg: "tg_enabled tg" "tg_max_same_snapshot_attempts tg = attempts"
    using guard_run_inv [OF assms(1,2)] run_config_init(1) [OF assms(1,2)] by (simp_all add: guard_config_def)
  note e = capacity_failure [OF inv cfg(1) assms(3-9)]
  have inv1: "guard_inv tg1" by (rule guard_inv_failure [OF inv assms(5,8)])
  note s2 = anchored_state [OF inv1 assms(11)]
  note s3 = anchored_state [OF s2(1) assms(12)]
  have at: "map_of (tg_blocked tg2) ?k = Some ?b" "map_of (tg_blocked tg3) ?k = Some ?b"
    using assms(9) s2(2) s3(2) by (simp_all add: anchored_def)
  have anchor: "ba_failed_device_available_bytes ?b = d1" "ba_failed_host_available_bytes ?b = h1"
    using e(2) by (simp_all add: anchored_def)
  have n: "tg_max_same_snapshot_attempts tg2 \<le> ba_identical_failure_count ?b" "tg_max_same_snapshot_attempts tg3 \<le> ba_identical_failure_count ?b"
    using s2(5) s3(5) e(3) cfg(2) assms(10) by simp_all
  have u: "undisturbed tg2 ?k" "undisturbed tg3 ?k" using e(4) s2(6) s3(6) by blast+
  have side: "c \<in> tb_code ` set blockers" "c = DEVICE_CAPACITY \<or> c = HOST_CAPACITY" if "c \<in> set (ba_blocker_codes b)" for c
    using that e(1) assms(7) by (auto simp: capacity_codes_def)
  have "\<not> code_open tg2 ?b now c" if "c \<in> set (ba_blocker_codes b)" for c
    using side [OF that] s2(3,4) anchor by (auto simp: code_open_def)
  moreover have ne: "ba_blocker_codes b \<noteq> []" using e(1) assms(6) by auto
  ultimately have "held tg2 ?b now" using n(1) by (auto simp: held_def neq_Nil_conv)
  moreover obtain ok tg2' where a2: "key_is_eligible ?k now tg2 = Inr (ok, tg2')" using asking_returns by blast
  ultimately have "\<not> ok" using asked_undisturbed(1) [OF s2(1) u(1) a2] at(1) by blast
  have "code_open tg3 ?b now' c" if "c \<in> set (ba_blocker_codes b)" for c
    using side [OF that] assms(13,14) s3(3,4) anchor by (elim disjE) (simp_all add: code_open_def)
  then have "\<not> held tg3 ?b now'" using ne by (simp add: held_def)
  from asked_open [OF s3(1) u(2) at(2) n(2) this] show ?thesis using a2 \<open>\<not> ok\<close> by auto
qed

end
