(* ===== verification/Guard_Cases.thy ===== *)
theory Guard_Cases
  imports Guard_Safety Arbiter_Safety
begin

text \<open>
  The transfer guard together with the page index, the graph and the arbiter: a key determines everything
  physical and causal that its transfer depends on; a resolution that reports no blocker breaks the guard's
  bookkeeping. The witnesses of the guard's properties are evaluated here.
\<close>

section \<open>What a key determines\<close>

text \<open>What can block a page, and what can make an owner busy.\<close>

definition page_view where
  "page_view p = (pg_size_bytes p, pg_residency p, pg_parent p, pg_children p, sort (pg_owner_contexts p),
     pg_engine_lock_ref p, pg_active_reader_count p, pg_semantic_pin_contexts p, pg_sealed p, pg_transfer_direction p)"

definition owner_view :: "causal_graph \<Rightarrow> string \<Rightarrow> (int \<times> (string \<times> invocation_state) set) option" where
  "owner_view g c = map_option (\<lambda>x. (cx_epoch x,
     {(i, iv_state r) |i r. map_of (cg_invocations g) i = Some r \<and> iv_context_id r = c})) (map_of (cg_contexts g) c)"

lemma value_injective:
  "residency_value a = residency_value a' \<longleftrightarrow> a = a'"
  "direction_value d = direction_value d' \<longleftrightarrow> d = d'"
  by (cases a; cases a'; simp) (cases d; cases d'; simp)

lemma state_value_injective: "state_value s = state_value s' \<longleftrightarrow> s = s'"
  by (cases s; cases s') simp_all

lemma opt_value_injective:
  assumes "\<And>x y. f x = f y \<Longrightarrow> x = y" and "\<And>x. f x \<noteq> PNone"
  shows "opt_value f a = opt_value f b \<longleftrightarrow> a = b"
  using assms by (cases a; cases b) (auto, metis)

lemma handle_value_injective: "handle_value h = handle_value k \<longleftrightarrow> h = k"
  by (auto simp: handle_value_def page_handle.expand)

lemma handle_tuple_injective: "handle_tuple a = handle_tuple b \<longleftrightarrow> a = b"
  unfolding handle_tuple_def by (rule opt_value_injective) (auto simp: handle_value_injective, simp add: handle_value_def)

lemma map_injective: "(\<And>x y. f x = f y \<Longrightarrow> x = y) \<Longrightarrow> map f xs = map f ys \<longleftrightarrow> xs = ys"
  by (metis inj_map_eq_map injI)

lemma set_list_injective: "finite A \<Longrightarrow> finite B \<Longrightarrow> sorted_list_of_set A = sorted_list_of_set B \<longleftrightarrow> A = B"
  by (metis sorted_list_of_set.set_sorted_key_list_of_set)

lemma owners_value_injective: "owners_value p = owners_value q \<longleftrightarrow> sort (pg_owner_contexts p) = sort (pg_owner_contexts q)"
  unfolding owners_value_def by (simp, rule map_injective) auto

lemma page_ok_finite: "page_ok h p \<Longrightarrow> finite (pg_children p) \<and> finite (pg_semantic_pin_contexts p)"
  by (auto simp: page_ok_def intro: finite_subset)

lemma guard_page_state_fields:
  assumes fin: "page_ok k p" "page_ok k' p'" and p: "map_of (ix_pages ix) h = Some p" "map_of (ix_pages ix') h' = Some p'"
    and eq: "guard_page_state ix own h = guard_page_state ix' own' h'"
  shows "page_view p = page_view p'" and "h \<in> own \<longleftrightarrow> h' \<in> own'"
proof -
  have inj: "map (\<lambda>k. handle_tuple (Some k)) xs = map (\<lambda>k. handle_tuple (Some k)) ys \<longleftrightarrow> xs = ys" "map PStr zs = map PStr ws \<longleftrightarrow> zs = ws"
    for xs ys zs ws by (rule map_injective; simp add: handle_tuple_injective)+
  have dir: "opt_value (\<lambda>d. PStr (direction_value d)) a = opt_value (\<lambda>d. PStr (direction_value d)) b \<longleftrightarrow> a = b" for a b
    by (rule opt_value_injective) (simp_all add: value_injective)
  note l = page_ok_finite [OF fin(1)] page_ok_finite [OF fin(2)]
  have eqs: "pg_size_bytes p = pg_size_bytes p'" "residency_value (pg_residency p) = residency_value (pg_residency p')"
    "handle_tuple (pg_parent p) = handle_tuple (pg_parent p')"
    "map (\<lambda>k. handle_tuple (Some k)) (sorted_list_of_set (pg_children p)) = map (\<lambda>k. handle_tuple (Some k)) (sorted_list_of_set (pg_children p'))"
    "owners_value p = owners_value p'" "pg_engine_lock_ref p = pg_engine_lock_ref p'" "pg_active_reader_count p = pg_active_reader_count p'"
    "map PStr (sorted_list_of_set (pg_semantic_pin_contexts p)) = map PStr (sorted_list_of_set (pg_semantic_pin_contexts p'))"
    "pg_sealed p = pg_sealed p'"
    "opt_value (\<lambda>d. PStr (direction_value d)) (pg_transfer_direction p) = opt_value (\<lambda>d. PStr (direction_value d)) (pg_transfer_direction p')"
    "(h \<in> own) = (h' \<in> own')"
    using eq unfolding guard_page_state_def p option.case py_value.inject list.inject by blast+
  show "page_view p = page_view p'" unfolding page_view_def
    using eqs(1,2,3,4,5,6,7,8,9,10) l
    by (simp only: value_injective handle_tuple_injective inj dir owners_value_injective set_list_injective)
  show "h \<in> own \<longleftrightarrow> h' \<in> own'" by (rule eqs(11))
qed

lemma guard_page_state_head:
  "\<exists>vs. guard_page_state ix own h = PTuple (PInt (page_id h) # PInt (allocation_generation h) # vs) \<and>
     (map_of (ix_pages ix) h = None \<longleftrightarrow> length vs = 1)"
  by (cases "map_of (ix_pages ix) h") (simp_all add: guard_page_state_def missing_value_def)

lemma guard_page_state_same:
  assumes inv: "ix_inv ix" "ix_inv ix'" and eq: "guard_page_state ix own h = guard_page_state ix' own' h'"
  shows "h = h'" and "map_option page_view (map_of (ix_pages ix) h) = map_option page_view (map_of (ix_pages ix') h)"
    and "map_of (ix_pages ix) h \<noteq> None \<Longrightarrow> h \<in> own \<longleftrightarrow> h \<in> own'"
proof -
  obtain vs vs' where v: "guard_page_state ix own h = PTuple (PInt (page_id h) # PInt (allocation_generation h) # vs)"
    "map_of (ix_pages ix) h = None \<longleftrightarrow> length vs = 1"
    "guard_page_state ix' own' h' = PTuple (PInt (page_id h') # PInt (allocation_generation h') # vs')"
    "map_of (ix_pages ix') h' = None \<longleftrightarrow> length vs' = 1"
    using guard_page_state_head [of ix own h] guard_page_state_head [of ix' own' h'] by (elim exE conjE) (rule that)
  show hh: "h = h'" using eq v(1,3) by (simp add: page_handle.expand)
  have "map_of (ix_pages ix) h = None \<longleftrightarrow> map_of (ix_pages ix') h = None" using eq v hh by simp
  then consider (none) "map_of (ix_pages ix) h = None" "map_of (ix_pages ix') h = None"
    | (both) p p' where "map_of (ix_pages ix) h = Some p" "map_of (ix_pages ix') h = Some p'"
    by (cases "map_of (ix_pages ix) h"; cases "map_of (ix_pages ix') h") simp_all
  then have "map_option page_view (map_of (ix_pages ix) h) = map_option page_view (map_of (ix_pages ix') h) \<and>
    (map_of (ix_pages ix) h \<noteq> None \<longrightarrow> (h \<in> own \<longleftrightarrow> h \<in> own'))"
  proof cases
    case (both p p')
    have "page_ok h p" by (rule pages_invD(4) [OF inv(1) refl both(1)])
    moreover have "page_ok h p'" by (rule pages_invD(4) [OF inv(2) refl both(2)])
    ultimately show ?thesis
      using guard_page_state_fields [OF _ _ both, of h h own own'] eq both unfolding hh by simp
  qed simp
  then show "map_option page_view (map_of (ix_pages ix) h) = map_option page_view (map_of (ix_pages ix') h)"
    "map_of (ix_pages ix) h \<noteq> None \<Longrightarrow> h \<in> own \<longleftrightarrow> h \<in> own'" by simp_all
qed

lemma map_pointwise:
  assumes "map f xs = map f' ys" and "\<And>x y. f x = f' y \<Longrightarrow> x = y"
  shows "xs = ys" and "x \<in> set xs \<Longrightarrow> f x = f' x"
proof -
  show e: "xs = ys" using assms by (induction xs arbitrary: ys) (auto simp: Cons_eq_map_conv)
  then show "x \<in> set xs \<Longrightarrow> f x = f' x" using assms(1) by simp
qed

lemma member_states:
  assumes g: "reachable d rt g" and x: "map_of (cg_contexts g) c = Some x"
  shows "set (concat (map (\<lambda>i. case map_of (cg_invocations g) i of None \<Rightarrow> [] | Some r \<Rightarrow> [(i, state_value (iv_state r))])
      (sorted_list_of_set (cx_invocation_ids x)))) =
    (\<lambda>(i, s). (i, state_value s)) ` {(i, iv_state r) |i r. map_of (cg_invocations g) i = Some r \<and> iv_context_id r = c}"
  using context_members [OF g x] by (auto simp: image_iff split: option.splits)

lemma causal_state_same:
  assumes g: "reachable d rt g" "reachable d' rt' g'" and eq: "causal_state g c = causal_state g' c'"
  shows "c = c'" and "owner_view g c = owner_view g' c"
proof -
  show cc: "c = c'" using eq by (auto simp: causal_state_def split: option.splits)
  consider (none) "map_of (cg_contexts g) c = None" "map_of (cg_contexts g') c = None"
    | (both) x x' where "map_of (cg_contexts g) c = Some x" "map_of (cg_contexts g') c = Some x'"
    using eq cc by (cases "map_of (cg_contexts g) c"; cases "map_of (cg_contexts g') c") (auto simp: causal_state_def)
  then show "owner_view g c = owner_view g' c"
  proof cases
    case (both x x')
    let ?l = "\<lambda>g x. sort (concat (map (\<lambda>i. case map_of (cg_invocations g) i of None \<Rightarrow> [] | Some r \<Rightarrow> [(i, state_value (iv_state r))])
      (sorted_list_of_set (cx_invocation_ids x))))"
    have "map (\<lambda>(i, s). PTuple [PStr i, PStr s]) (?l g x) = map (\<lambda>(i, s). PTuple [PStr i, PStr s]) (?l g' x')"
      and e: "cx_epoch x = cx_epoch x'" using eq cc both by (simp_all add: causal_state_def)
    then have "?l g x = ?l g' x'" by (subst (asm) map_injective) auto
    then have "set (?l g x) = set (?l g' x')" by simp
    then have "(\<lambda>(i, s). (i, state_value s)) ` {(i, iv_state r) |i r. map_of (cg_invocations g) i = Some r \<and> iv_context_id r = c} =
      (\<lambda>(i, s). (i, state_value s)) ` {(i, iv_state r) |i r. map_of (cg_invocations g') i = Some r \<and> iv_context_id r = c}"
      unfolding set_sort member_states [OF g(1) both(1)] member_states [OF g(2) both(2)] .
    moreover have "inj (\<lambda>(i :: string, s). (i, state_value s))" by (auto simp: inj_def state_value_injective)
    ultimately have "{(i, iv_state r) |i r. map_of (cg_invocations g) i = Some r \<and> iv_context_id r = c} =
      {(i, iv_state r) |i r. map_of (cg_invocations g') i = Some r \<and> iv_context_id r = c}"
      by (simp only: inj_image_eq_iff)
    then show ?thesis using e both by (simp add: owner_view_def)
  qed (simp add: owner_view_def)
qed

lemma grow_relevant_finite: "finite relevant \<Longrightarrow> finite (grow_relevant next ix stack relevant)"
  by (induction "next" ix stack relevant rule: grow_relevant.induct)
    (auto simp: grow_relevant.simps Let_def split: option.splits)

lemma grow_relevant_mono: "relevant \<subseteq> grow_relevant next ix stack relevant"
proof (induction "next" ix stack relevant rule: grow_relevant.induct)
  case (2 "next" ix h stack relevant)
  then show ?case by (cases "map_of (ix_pages ix) h") (auto simp: grow_relevant.simps Let_def)
qed (simp add: grow_relevant.simps)

lemma relevant_handles_finite: "finite own \<Longrightarrow> finite (relevant_handles ix kind own)"
  by (simp add: relevant_handles_def Let_def grow_relevant_finite)

lemma relevant_handles_own: "own \<subseteq> relevant_handles ix kind own"
  using grow_relevant_mono by (simp add: relevant_handles_def Let_def)

lemma relevant_owners_finite: "finite R \<Longrightarrow> finite (relevant_owners ix c R)"
  by (auto simp: relevant_owners_def split: option.splits)

text \<open>C13. A key sees what it waits for. If two reachable states of graph and page index give the same key for a transfer of
  a context, and the digest does not collide on the two printed closures, then the context owns the same pages in both,
  the closure consists of the same pages, each of them has the same size, residency, tree edges, owners, locks, readers,
  pins, seal and transfer direction, and every owner has the same epoch and its invocations are in the same states. So a
  change of any of these gives a new key, and the guard releases what it held under the old one.\<close>

theorem guard_key_sees_changes:
  assumes "rtranclp ix_step page_index_init ix" and "rtranclp ix_step page_index_init ix'"
    and "reachable d rt g" and "reachable d' rt' g'"
    and "context_pages ix c = Inr ps" and "context_pages ix' c = Inr ps'"
    and "inj_on (digest 16) {closure_payload g ix c epoch kind (pg_handle ` set ps), closure_payload g' ix' c epoch kind (pg_handle ` set ps')}"
    and "key_for digest g ix c epoch kind = key_for digest g' ix' c epoch kind"
  shows "pg_handle ` set ps = pg_handle ` set ps' \<and>
    relevant_handles ix kind (pg_handle ` set ps) = relevant_handles ix' kind (pg_handle ` set ps') \<and>
    (\<forall>h \<in> relevant_handles ix kind (pg_handle ` set ps).
       map_option page_view (map_of (ix_pages ix) h) = map_option page_view (map_of (ix_pages ix') h)) \<and>
    (\<forall>c' \<in> relevant_owners ix c (relevant_handles ix kind (pg_handle ` set ps)). owner_view g c' = owner_view g' c')"
proof -
  have inv: "ix_inv ix" "ix_inv ix'" using ix_reachable_inv assms(1,2) by blast+
  let ?O = "pg_handle ` set ps" and ?O' = "pg_handle ` set ps'"
  let ?R = "relevant_handles ix kind ?O" and ?R' = "relevant_handles ix' kind ?O'"
  have fin: "finite ?R" "finite ?R'" by (simp_all add: relevant_handles_finite)
  have "digest 16 (closure_payload g ix c epoch kind ?O) = digest 16 (closure_payload g' ix' c epoch kind ?O')"
    using assms(5,6,8) by (simp add: key_for_def closure_fingerprint_def)
  then have "closure_payload g ix c epoch kind ?O = closure_payload g' ix' c epoch kind ?O'"
    using inj_onD [OF assms(7)] by blast
  then have pages: "map (guard_page_state ix ?O) (sorted_list_of_set ?R) = map (guard_page_state ix' ?O') (sorted_list_of_set ?R')"
    and owners: "map (causal_state g) (sorted_list_of_set (relevant_owners ix c ?R)) =
      map (causal_state g') (sorted_list_of_set (relevant_owners ix' c ?R'))"
    unfolding closure_payload_def Let_def py_value.inject list.inject by blast+
  have heads: "\<And>x y. guard_page_state ix ?O x = guard_page_state ix' ?O' y \<Longrightarrow> x = y" by (rule guard_page_state_same(1) [OF inv])
  note pp = map_pointwise [OF pages heads]
  have R: "?R = ?R'" using pp(1) set_list_injective [OF fin] by blast
  have same: "guard_page_state ix ?O h = guard_page_state ix' ?O' h" if "h \<in> ?R" for h using pp(2) that fin(1) by simp
  have known: "map_of (ix_pages ix) h \<noteq> None" if "h \<in> ?O" for h using context_pages_ok(1) [OF inv(1) assms(5)] that by auto
  have known': "map_of (ix_pages ix') h \<noteq> None" if "h \<in> ?O'" for h using context_pages_ok(1) [OF inv(2) assms(6)] that by auto
  have views: "map_option page_view (map_of (ix_pages ix) h) = map_option page_view (map_of (ix_pages ix') h)" if "h \<in> ?R" for h
    by (rule guard_page_state_same(2) [OF inv same [OF that]])
  have "h \<in> ?O \<longleftrightarrow> h \<in> ?O'" for h
  proof (cases "h \<in> ?R \<and> map_of (ix_pages ix) h \<noteq> None")
    case True
    then show ?thesis using guard_page_state_same(3) [OF inv same] by blast
  next
    case False
    then have "h \<notin> ?O" using known relevant_handles_own by blast
    moreover have "h \<notin> ?O'"
    proof
      assume h: "h \<in> ?O'"
      then have "h \<in> ?R" using relevant_handles_own R by blast
      then show False using views [of h] known' [OF h] False by (cases "map_of (ix_pages ix) h") auto
    qed
    ultimately show ?thesis by blast
  qed
  then have "?O = ?O'" by blast
  moreover have "owner_view g c' = owner_view g' c'" if "c' \<in> relevant_owners ix c ?R" for c'
    using map_pointwise(2) [OF owners causal_state_same(1) [OF assms(3,4)]] that fin(1)
    by (intro causal_state_same(2) [OF assms(3,4)]) (simp add: relevant_owners_finite)
  ultimately show ?thesis using R views by blast
qed

section \<open>A rejection without blockers\<close>

lemma resolve_nothing:
  assumes "cc_kind cmd \<in> {OFFLOAD_CONTEXT, SHADOW_CONTEXT, PREFETCH_CONTEXT}"
    and "cc_context_id cmd = Some c" and "cc_context_epoch cmd = Some epoch" and "cc_physical_bundle cmd = None"
    and "map_of (cg_contexts g) c = Some x" and "cx_epoch x = epoch" and "validate_context_epoch ix c epoch = Inr u"
    and "context_pages ix c = Inr []"
  shows "\<exists>rc. resolve rt digest g ix config cmd = Inr rc \<and> rc_page_actions rc = [] \<and> rc_blockers rc = [] \<and> rc_resolved_bytes rc = 0"
proof -
  have "resolve_offload g ix config shadow c cmd = Inr (resolved cmd [] 0 ''no_migratable_marginal_pages'' [] [])" for shadow
    using assms(8) by (simp add: resolve_offload_def finish_selection_def deduplicate_blockers_def Let_def)
  moreover have "resolve_prefetch ix config c cmd = Inr (resolved cmd [] 0 ''no_cpu_pages'' [] [])"
    using assms(8) by (simp add: resolve_prefetch_def finish_selection_def deduplicate_blockers_def pages_down_def Let_def)
  ultimately show ?thesis using assms(1-7) by (auto simp: resolve_def resolved_def)
qed

text \<open>C40. A rejection without blockers breaks the guard. \<open>record_failure\<close> replaces an empty set of codes
  by \<open>UNKNOWN_BACKEND\<close>, so a failure without blockers is meant to back off, but \<open>max(required, *())\<close> raises a
  \<open>TypeError\<close>. The arbiter produces such rejections: a well-formed command to offload, shadow or prefetch a context that
  owns no page is resolved to no action and no blocker. In every reachable state of an enabled guard, starting such a
  command, resolving it and reporting the rejection raises; the attempt is forgotten, nothing is blocked and no failure
  is counted, so nothing holds back the next try.\<close>

theorem rejection_without_blockers_raises:
  assumes "transfer_guard_init True attempts base_ms max_ms breaker = Inr tg0" and "rtranclp (guard_step digest) tg0 tg"
    and "cc_kind cmd \<in> {OFFLOAD_CONTEXT, SHADOW_CONTEXT, PREFETCH_CONTEXT}"
    and "cc_context_id cmd = Some c" and "cc_context_epoch cmd = Some epoch" and "cc_physical_bundle cmd = None"
    and "cc_target_handles cmd = []" and "map_of (tg_inflight tg) (cc_command_id cmd) = None"
    and "map_of (cg_contexts g) c = Some x" and "cx_epoch x = epoch" and "validate_context_epoch ix c epoch = Inr u"
    and "context_pages ix c = Inr []"
  shows "\<exists>fp tg1 rc tg2. begin_attempt digest g ix cmd tg = Inr (fp, tg1) \<and> resolve rt digest g ix config cmd = Inr rc \<and>
    rc_page_actions rc = [] \<and>
    record_failure (cc_command_id cmd) (rc_blockers rc) (max (rc_resolved_bytes rc) (cc_target_bytes cmd)) now tg1 =
      (Inl (TypeError ''int object is not iterable''), tg2) \<and>
    map_of (tg_inflight tg2) (cc_command_id cmd) = None \<and> tg_blocked tg2 = tg_blocked tg \<and>
    tg_unknown_failure_counts tg2 = tg_unknown_failure_counts tg"
proof -
  have en: "tg_enabled tg" using run_config_init(1) [OF assms(1,2)] by (simp add: guard_config_def)
  obtain rc where rc: "resolve rt digest g ix config cmd = Inr rc" "rc_page_actions rc = []" "rc_blockers rc = []"
    using resolve_nothing [OF assms(3-6,9-12)] by blast
  obtain k where k: "key_for_command digest g ix cmd = Inr k"
    using assms(4-7,12) by (simp add: key_for_command_def key_for_def closure_fingerprint_def)
  define a where "a = \<lparr>as_key = k, as_target_bytes = cc_target_bytes cmd, as_device_available_bytes = tg_device_available_bytes tg,
    as_host_available_bytes = tg_host_available_bytes tg\<rparr>"
  define tg1 where "tg1 = tg\<lparr>tg_inflight := AList.update (cc_command_id cmd) a (tg_inflight tg)\<rparr>"
  have "begin_attempt digest g ix cmd tg = Inr (ak_closure_fingerprint k, tg1)"
    using assms(3-5,8) en k by (auto simp: begin_attempt_def dict_in_def guarded_kinds_def tg1_def a_def)
  moreover have "record_failure (cc_command_id cmd) (rc_blockers rc) (max (rc_resolved_bytes rc) (cc_target_bytes cmd)) now tg1 =
      (Inl (TypeError ''int object is not iterable''), drop_inflight (cc_command_id cmd) tg1)"
    using en by (simp add: record_failure_cases rc(3) tg1_def map_of_update)
  moreover have "map_of (tg_inflight (drop_inflight (cc_command_id cmd) tg1)) (cc_command_id cmd) = None"
    by (simp add: drop_inflight_def map_of_delete)
  moreover have "tg_blocked (drop_inflight (cc_command_id cmd) tg1) = tg_blocked tg"
    "tg_unknown_failure_counts (drop_inflight (cc_command_id cmd) tg1) = tg_unknown_failure_counts tg"
    by (simp_all add: tg1_def)
  ultimately show ?thesis using rc(1,2) by blast
qed

section \<open>Examples\<close>

definition gd_digest :: py_digest where
  "gd_digest n v = ''d''"

definition gd_cmd :: control_command where
  "gd_cmd = \<lparr>cc_command_id = ''k7'', cc_kind = DROP_TERMINAL_PRIVATE, cc_created_ts_ms = 9, cc_context_id = Some ''ctx-p'',
     cc_context_epoch = Some 1, cc_target_bytes = 32, cc_priority = 0, cc_deadline_ms = PosInf, cc_queue_class = URGENT,
     cc_metadata = [], cc_physical_bundle = None, cc_target_handles = [PageHandle 7 0]\<rparr>"

definition gd_key :: attempt_key where
  "gd_key = \<lparr>ak_context_id = ''ctx-p'', ak_context_epoch = 1, ak_command_kind = DROP_TERMINAL_PRIVATE,
     ak_bundle_id = ''terminal-private'', ak_closure_fingerprint = ''d''\<rparr>"

definition gd_guard0 :: transfer_guard where
  "gd_guard0 = projr (transfer_guard_init True 1 10 1000 8)"

definition gd_guard1 :: transfer_guard where
  "gd_guard1 = snd (projr (begin_attempt gd_digest demo_graph bundle_ix gd_cmd gd_guard0))"

definition gd_blocker :: "transfer_blocker_code \<Rightarrow> transfer_blocker" where
  "gd_blocker code = \<lparr>tb_code = code, tb_page_handle = None, tb_required_bytes = 64, tb_detail = ''x''\<rparr>"

definition gd_guard2 :: "transfer_blocker_code \<Rightarrow> transfer_guard" where
  "gd_guard2 code = snd (record_failure ''k7'' [gd_blocker code] 0 5 gd_guard1)"

lemma gd_key_for: "key_for_command gd_digest g ix gd_cmd = Inr gd_key"
  by (simp add: key_for_command_def gd_cmd_def gd_key_def target_handles_fingerprint_def gd_digest_def)

lemma gd_init: "transfer_guard_init True 1 10 1000 8 = Inr gd_guard0"
  by (simp add: gd_guard0_def transfer_guard_init_def)

lemma gd_begin: "begin_attempt gd_digest demo_graph bundle_ix gd_cmd gd_guard0 = Inr (''d'', gd_guard1)"
  unfolding gd_guard1_def begin_attempt_def gd_key_for
  by (simp add: gd_guard0_def transfer_guard_init_def gd_cmd_def guarded_kinds_def gd_key_def dict_in_def)

lemma gd_inflight: "map_of (tg_inflight gd_guard1) ''k7'' =
    Some \<lparr>as_key = gd_key, as_target_bytes = 32, as_device_available_bytes = 0, as_host_available_bytes = 0\<rparr>"
  and gd_blocked: "tg_blocked gd_guard1 = []"
  unfolding gd_guard1_def begin_attempt_def gd_key_for
  by (simp_all add: gd_guard0_def transfer_guard_init_def gd_cmd_def guarded_kinds_def dict_in_def)

lemma gd_blocker_valid: "blockers_valid [gd_blocker code]"
  by (simp add: blockers_valid_def gd_blocker_def transfer_blocker_post_init_def)

lemma gd_run1: "rtranclp (guard_step gd_digest) gd_guard0 gd_guard1"
  by (rule r_into_rtranclp, rule guard_step.attempt [OF _ gd_begin])
    (simp add: gd_cmd_def control_command_post_init_def)

lemma gd_fail: "\<exists>b. record_failure ''k7'' [gd_blocker code] 0 5 gd_guard1 = (Inr (), gd_guard2 code) \<and>
    map_of (tg_blocked (gd_guard2 code)) = [gd_key \<mapsto> b] \<and> ba_blocker_codes b = [code] \<and> ba_required_bytes b = 64 \<and>
    ba_identical_failure_count b = 1 \<and> ba_next_retry_ts_ms b = (if code = UNKNOWN_BACKEND then Some 15 else None)"
proof -
  have c: "tg_enabled gd_guard1" "tg_unknown_circuit_breaker_failures gd_guard1 = 8" "tg_unknown_base_ms gd_guard1 = 10"
    "tg_unknown_max_ms gd_guard1 = 1000"
    using run_config_init(1) [OF gd_init gd_run1] by (simp_all add: guard_config_def)
  have u: "tg_unknown_failure_counts gd_guard1 = []" unfolding gd_guard1_def begin_attempt_def gd_key_for
    by (simp add: gd_guard0_def transfer_guard_init_def gd_cmd_def guarded_kinds_def dict_in_def)
  show ?thesis
    by (simp add: gd_guard2_def record_failure_cases gd_inflight c u gd_blocked failed_entry_def Let_def normalized_codes_def
        gd_blocker_def failure_counts_def retry_delay_def map_of_update fun_eq_iff dict_get_def)
qed

lemma gd_run2: "rtranclp (guard_step gd_digest) gd_guard0 (gd_guard2 code)"
  using gd_run1 gd_fail [of code] guard_step.failure [OF gd_blocker_valid]
  by (meson rtranclp.rtrancl_into_rtrancl)

lemma gd_undisturbed: "undisturbed gd_guard1 gd_key" "undisturbed (gd_guard2 code) gd_key"
  using gd_fail [of code] by (auto simp: undisturbed_def gd_blocked stale_entry_def)

theorem guard_books_consistent_witness:
  "\<exists>b. map_of (tg_blocked (gd_guard2 NODE_LOCKED)) gd_key = Some b \<and> entry_ok gd_key b \<and>
     tg_released_count (gd_guard2 NODE_LOCKED) + 1 \<le> tg_blocked_count (gd_guard2 NODE_LOCKED)"
proof -
  obtain b where b: "map_of (tg_blocked (gd_guard2 NODE_LOCKED)) = [gd_key \<mapsto> b]" using gd_fail [of NODE_LOCKED] by blast
  then have "tg_blocked (gd_guard2 NODE_LOCKED) \<noteq> []"
    by (metis map_of.simps(1) map_upd_Some_unfold option.distinct(1))
  then have "1 \<le> int (length (tg_blocked (gd_guard2 NODE_LOCKED)))" by (cases "tg_blocked (gd_guard2 NODE_LOCKED)") auto
  moreover note guard_books_consistent [OF gd_init gd_run2, of NODE_LOCKED]
  ultimately show ?thesis using b by auto
qed


theorem guard_answers_exactly_witness:
  "\<exists>ok tg'. command_is_eligible gd_digest demo_graph bundle_ix gd_cmd 100 (gd_guard2 UNKNOWN_BACKEND) = Inr (ok, tg') \<and> ok"
proof -
  obtain b where b: "map_of (tg_blocked (gd_guard2 UNKNOWN_BACKEND)) = [gd_key \<mapsto> b]" "ba_blocker_codes b = [UNKNOWN_BACKEND]"
    "ba_next_retry_ts_ms b = Some 15" using gd_fail [of UNKNOWN_BACKEND] by auto
  have "\<not> held (gd_guard2 UNKNOWN_BACKEND) b 100" using b by (simp add: held_def code_open_def)
  moreover have "cc_kind gd_cmd \<in> guarded_kinds" "cc_context_id gd_cmd = Some ''ctx-p''" "cc_context_epoch gd_cmd = Some 1"
    by (simp_all add: gd_cmd_def guarded_kinds_def)
  note guard_answers_exactly [OF gd_init gd_run2 [of UNKNOWN_BACKEND] bundle_ix_reachable this, of demo_graph 100]
  ultimately show ?thesis using b(1) gd_key_for gd_undisturbed(2) by auto
qed

theorem failure_blocks_and_backs_off_witness:
  "\<exists>tg' b. record_failure ''k7'' [gd_blocker UNKNOWN_BACKEND] 0 5 gd_guard1 = (Inr (), tg') \<and>
     map_of (tg_blocked tg') gd_key = Some b \<and>
     ba_next_retry_ts_ms b = Some (5 + min 1000 (10 * 2 ^ nat (ba_identical_failure_count b - 1)))"
proof -
  obtain b where b: "record_failure ''k7'' [gd_blocker UNKNOWN_BACKEND] 0 5 gd_guard1 = (Inr (), gd_guard2 UNKNOWN_BACKEND)"
    "map_of (tg_blocked (gd_guard2 UNKNOWN_BACKEND)) = [gd_key \<mapsto> b]" "ba_next_retry_ts_ms b = Some 15" "ba_blocker_codes b = [UNKNOWN_BACKEND]"
    using gd_fail [of UNKNOWN_BACKEND] by auto
  from failure_blocks_and_backs_off [OF gd_init gd_run1 gd_inflight, of "[gd_blocker UNKNOWN_BACKEND]" 0 5] b
  have "ba_next_retry_ts_ms b = Some (5 + min 1000 (10 * 2 ^ nat (ba_identical_failure_count b - 1)))"
    by (auto simp: fun_eq_iff split: if_splits)
  then show ?thesis using b by auto
qed

theorem capacity_retry_granted_witness:
  "\<exists>tg2 tg3 tg4. update_resources 10 0 6 (gd_guard2 DEVICE_CAPACITY) = Inr tg2 \<and> update_resources 80 0 7 tg2 = Inr tg3 \<and>
     key_is_eligible gd_key 8 tg3 = Inr (True, tg4)"
proof -
  obtain b where b: "record_failure ''k7'' [gd_blocker DEVICE_CAPACITY] 0 5 gd_guard1 = (Inr (), gd_guard2 DEVICE_CAPACITY)"
    "map_of (tg_blocked (gd_guard2 DEVICE_CAPACITY)) = [gd_key \<mapsto> b]" "ba_required_bytes b = 64" "ba_identical_failure_count b = 1"
    using gd_fail [of DEVICE_CAPACITY] by auto
  obtain tg2 where u2: "update_resources 10 0 6 (gd_guard2 DEVICE_CAPACITY) = Inr tg2" using update_resources_Inr [of 10 0 6] by simp
  obtain tg3 where u3: "update_resources 80 0 7 tg2 = Inr tg3" using update_resources_Inr [of 80 0 7] by simp
  have "\<exists>tg2' tg4. key_is_eligible gd_key 8 tg2 = Inr (False, tg2') \<and> key_is_eligible gd_key 8 tg3 = Inr (True, tg4) \<and>
    map_of (tg_blocked tg4) gd_key = None"
    using capacity_retry_granted [OF gd_init gd_run1 gd_inflight _ gd_blocker_valid _ _ b(1) _ _ u2 u3, of b 8 8] gd_undisturbed(1) b(2-4)
    by (simp add: gd_blocker_def capacity_codes_def)
  then show ?thesis using u2 u3 by blast
qed

theorem rejection_without_blockers_raises_witness:
  "\<exists>fp tg1 rc tg2. begin_attempt gd_digest demo_graph bundle_ix1 offload_cmd gd_guard0 = Inr (fp, tg1) \<and>
     resolve demo_runtime gd_digest demo_graph bundle_ix1 arbitration_config_default offload_cmd = Inr rc \<and>
     record_failure ''k1'' (rc_blockers rc) (max (rc_resolved_bytes rc) 0) 9 tg1 = (Inl (TypeError ''int object is not iterable''), tg2) \<and>
     rtranclp ix_step page_index_init bundle_ix1"
proof -
  obtain x where x: "map_of (cg_contexts demo_graph) ''ctx-p'' = Some x" "cx_epoch x = 1" using demo_owner_context by blast
  have ix: "validate_context_epoch bundle_ix1 ''ctx-p'' 1 = Inr ()" "context_pages bundle_ix1 ''ctx-p'' = Inr []"
    by (simp_all add: bundle_ix1_def index_eval validate_context_epoch_def context_epoch_def context_pages_def context_page_set_def)
  have run: "rtranclp ix_step page_index_init bundle_ix1"
    by (rule r_into_rtranclp, rule ix_step.register_context [of "''ctx-p''" "''w''" 1]) (simp_all add: bundle_ix1_def index_eval)
  have "map_of (tg_inflight gd_guard0) (cc_command_id offload_cmd) = None" by (simp add: gd_guard0_def transfer_guard_init_def)
  from rejection_without_blockers_raises [OF gd_init rtranclp.rtrancl_refl _ _ _ _ _ this x ix,
      of gd_digest demo_runtime arbitration_config_default 9]
  show ?thesis using run by (simp add: offload_cmd_def) blast
qed

definition locked_ix :: page_index where
  "locked_ix = projr (set_engine_lock (PageHandle 2 0) 1 bundle_ix)"

theorem guard_key_sees_changes_witness:
  "\<exists>digest. key_for digest demo_graph bundle_ix ''ctx-p'' 1 OFFLOAD_CONTEXT \<noteq> key_for digest demo_graph locked_ix ''ctx-p'' 1 OFFLOAD_CONTEXT"
proof -
  have "map_of (ix_latest_generation bundle_ix) 2 = Some 0" by (simp add: bundle_ix_defs index_eval)
  then have lock: "set_engine_lock (PageHandle 2 0) 1 bundle_ix = Inr locked_ix" and
    at: "map_of (ix_pages locked_ix) (PageHandle 2 0) = Some (leaf_page\<lparr>pg_engine_lock_ref := 1\<rparr>)"
    "map_of (ix_pages bundle_ix) (PageHandle 2 0) = Some leaf_page"
    by (simp_all add: locked_ix_def set_engine_lock_def bundle_ix_pages index_eval leaf_page_def with_page_def map_of_dmap_on)
  have run: "rtranclp ix_step page_index_init locked_ix"
    using bundle_ix_reachable ix_step.set_engine_lock [OF lock] by (rule rtranclp.rtrancl_into_rtrancl)
  obtain ps' where ps': "context_pages locked_ix ''ctx-p'' = Inr ps'" by (rule context_pages_total [OF ix_reachable_inv [OF run]])
  let ?O = "pg_handle ` set [base_page, leaf_page]"
  let ?p = "closure_payload demo_graph bundle_ix ''ctx-p'' 1 OFFLOAD_CONTEXT ?O"
  define digest :: py_digest where "digest n v = (if v = ?p then ''a'' else ''b'')" for n v
  have inj: "inj_on (digest 16) {?p, closure_payload demo_graph locked_ix ''ctx-p'' 1 OFFLOAD_CONTEXT (pg_handle ` set ps')}"
    by (auto simp: inj_on_def digest_def)
  have in_closure: "PageHandle 2 0 \<in> relevant_handles bundle_ix OFFLOAD_CONTEXT ?O"
    using relevant_handles_own [of ?O] by (auto simp: leaf_page_def new_page_def)
  have views: "page_view leaf_page \<noteq> page_view (leaf_page\<lparr>pg_engine_lock_ref := 1\<rparr>)"
    by (simp add: page_view_def leaf_page_def new_page_def)
  have "key_for digest demo_graph bundle_ix ''ctx-p'' 1 OFFLOAD_CONTEXT \<noteq> key_for digest demo_graph locked_ix ''ctx-p'' 1 OFFLOAD_CONTEXT"
  proof
    assume "key_for digest demo_graph bundle_ix ''ctx-p'' 1 OFFLOAD_CONTEXT = key_for digest demo_graph locked_ix ''ctx-p'' 1 OFFLOAD_CONTEXT"
    from guard_key_sees_changes [where digest = digest, OF bundle_ix_reachable run demo_graph_reachable demo_graph_reachable
        offload_pages(1) ps' inj this]
    have "map_option page_view (map_of (ix_pages bundle_ix) (PageHandle 2 0)) = map_option page_view (map_of (ix_pages locked_ix) (PageHandle 2 0))"
      using in_closure by blast
    then show False using at views by simp
  qed
  then show ?thesis by blast
qed

end
