(* ===== verification/Graph_Snapshot.thy ===== *)
theory Graph_Snapshot
  imports Residency
begin

text \<open>
  \<open>control/causal_graph.py\<close>, the snapshot of the graph as JSON-compatible values and its reader
  \<open>from_snapshot\<close>, which rebuilds a graph for read-only planning. The workflow of a join is not written; the
  reader recovers it from the members and waiters, which works because a reachable graph keeps them in one
  workflow.
\<close>

section \<open>Writing\<close>

definition id_list :: "string set \<Rightarrow> py_value" where
  "id_list ids = PList (map PStr (sorted_list_of_set ids))"

definition workflow_snapshot :: "workflow_record \<Rightarrow> (string, py_value) dict" where
  "workflow_snapshot w =
     [(''start_ts_ms'', PFloat (wf_start_ts_ms w)), (''end_ts_ms'', opt_value PFloat (wf_end_ts_ms w)),
      (''invocation_ids'', id_list (wf_invocation_ids w))]"

definition invocation_snapshot_of :: "invocation_record \<Rightarrow> (string, py_value) dict" where
  "invocation_snapshot_of r =
     [(''workflow_id'', PStr (iv_workflow_id r)),
      (''context_id'', PStr (iv_context_id r)),
      (''agent_definition_id'', PStr (iv_agent_definition_id r)),
      (''agent_instance_id'', PStr (iv_agent_instance_id r)),
      (''state'', PStr (state_value (iv_state r))),
      (''created_ts_ms'', PFloat (iv_created_ts_ms r)),
      (''updated_ts_ms'', PFloat (iv_updated_ts_ms r)),
      (''parent_invocation_id'', opt_value PStr (iv_parent_invocation_id r)),
      (''parent_context_id'', opt_value PStr (iv_parent_context_id r)),
      (''relation_type'', PStr (relation_value (iv_relation_type r))),
      (''context_mode'', PStr (context_mode_value (iv_context_mode r))),
      (''execution_mode'', PStr (execution_mode_value (iv_execution_mode r))),
      (''return_target_id'', opt_value PStr (iv_return_target_id r)),
      (''children'', id_list (iv_child_invocation_ids r)),
      (''blocking_children'', id_list (iv_blocking_child_ids r)),
      (''pending_messages'', PInt (iv_pending_messages r)),
      (''join_id'', opt_value PStr (iv_join_id r)),
      (''persistent'', PBool (iv_persistent r)),
      (''confidence'', PStr (confidence_value (iv_confidence r))),
      (''active_tool_family'', opt_value PStr (iv_active_tool_family r)),
      (''active_tool_start_ms'', opt_value PFloat (iv_active_tool_start_ms r)),
      (''llm_round'', PInt (iv_llm_round r))]"

definition context_snapshot :: "context_record \<Rightarrow> (string, py_value) dict" where
  "context_snapshot x =
     [(''workflow_id'', PStr (cx_workflow_id x)),
      (''epoch'', PInt (cx_epoch x)),
      (''created_ts_ms'', PFloat (cx_created_ts_ms x)),
      (''updated_ts_ms'', PFloat (cx_updated_ts_ms x)),
      (''parent_context_id'', opt_value PStr (cx_parent_context_id x)),
      (''context_mode'', PStr (context_mode_value (cx_context_mode x))),
      (''invocation_ids'', id_list (cx_invocation_ids x)),
      (''persistent'', PBool (cx_persistent x))]"

definition join_snapshot_of :: "join_record \<Rightarrow> (string, py_value) dict" where
  "join_snapshot_of j =
     [(''members'', id_list (jn_member_invocation_ids j)),
      (''completed'', id_list (jn_completed_member_ids j)),
      (''waiters'', id_list (jn_waiter_invocation_ids j)),
      (''mode'', PStr (join_mode_value (jn_mode j))),
      (''satisfied'', PBool (jn_satisfied j))]"

definition edge_snapshot :: "communication_edge \<Rightarrow> (string, py_value) dict" where
  "edge_snapshot e =
     [(''source_invocation_id'', PStr (ce_source_invocation_id e)),
      (''target_invocation_id'', PStr (ce_target_invocation_id e)),
      (''count'', PInt (ce_count e)),
      (''last_ts_ms'', PFloat (ce_last_ts_ms e))]"

definition invocation_snapshot :: "string \<Rightarrow> causal_graph \<Rightarrow> (string, py_value) dict" where
  "invocation_snapshot i g =
     (case map_of (cg_invocations g) i of None \<Rightarrow> [] | Some r \<Rightarrow> invocation_snapshot_of r)"

definition join_snapshot :: "string \<Rightarrow> causal_graph \<Rightarrow> (string, py_value) dict" where
  "join_snapshot k g = (case map_of (cg_joins g) k of None \<Rightarrow> [] | Some j \<Rightarrow> join_snapshot_of j)"

text \<open>\<open>{key: f(value) for key, value in sorted(d.items())}\<close>; the keys are distinct, so values are never compared.\<close>

definition snapshot_items :: "('r \<Rightarrow> (string, py_value) dict) \<Rightarrow> (string, 'r) dict \<Rightarrow> py_value" where
  "snapshot_items f d = PDict (map (\<lambda>(k, r). (k, PDict (f r))) (sort_key fst d))"

definition graph_snapshot :: "causal_graph \<Rightarrow> (string, py_value) dict" where
  "graph_snapshot g =
     [(''graph_version'', PInt (cg_graph_version g)),
      (''workflows'', snapshot_items workflow_snapshot (cg_workflows g)),
      (''invocations'', snapshot_items invocation_snapshot_of (cg_invocations g)),
      (''contexts'', snapshot_items context_snapshot (cg_contexts g)),
      (''joins'', snapshot_items join_snapshot_of (cg_joins g)),
      (''communication_edges'',
         PList (map (\<lambda>(k, e). PDict (edge_snapshot e)) (sort_key fst (cg_communication_edges g))))]"

section \<open>Reading\<close>

definition all_states :: "invocation_state list" where
  "all_states = [CREATED, READY, RUNNING_LLM, WAIT_TOOL, WAIT_CHILD, WAIT_JOIN, WAIT_MESSAGE, RETURNING, DONE, CANCELLED]"

definition all_join_modes :: "join_mode list" where
  "all_join_modes = [JOIN_ALL, JOIN_ANY]"

definition str_item :: "py_runtime \<Rightarrow> (string, py_value) dict \<Rightarrow> string \<Rightarrow> string result" where
  "str_item rt d k = rbind (dict_item d k k) (\<lambda>v. Inr (py_str rt v))"

definition float_item :: "py_runtime \<Rightarrow> (string, py_value) dict \<Rightarrow> string \<Rightarrow> real result" where
  "float_item rt d k = rbind (dict_item d k k) (py_float rt)"

definition int_item :: "(string, py_value) dict \<Rightarrow> string \<Rightarrow> int result" where
  "int_item d k = rbind (dict_item d k k) py_int"

definition opt_str :: "py_runtime \<Rightarrow> (string, py_value) dict \<Rightarrow> string \<Rightarrow> string option result" where
  "opt_str rt d k = py_opt (\<lambda>v. Inr (py_str rt v)) (py_get d k)"

text \<open>\<open>{str(item) for item in value.get(k, ())}\<close>.\<close>

definition str_set :: "py_runtime \<Rightarrow> (string, py_value) dict \<Rightarrow> string \<Rightarrow> string set result" where
  "str_set rt d k = rbind (py_iter (dict_get d k (PTuple []))) (\<lambda>xs. Inr (set (map (py_str rt) xs)))"

text \<open>\<open>Enum(str(value.get(k, default)))\<close>.\<close>

definition enum_get ::
  "py_runtime \<Rightarrow> ('a \<Rightarrow> string) \<Rightarrow> 'a list \<Rightarrow> (string, py_value) dict \<Rightarrow> string \<Rightarrow> string \<Rightarrow> 'a result" where
  "enum_get rt val members d k dflt = py_enum val members (PStr (py_str rt (dict_get d k (PStr dflt))))"

definition read_workflow :: "py_runtime \<Rightarrow> string \<Rightarrow> (string, py_value) dict \<Rightarrow> workflow_record result" where
  "read_workflow rt k d =
     rbind (float_item rt d ''start_ts_ms'') (\<lambda>start.
     rbind (py_opt (py_float rt) (py_get d ''end_ts_ms'')) (\<lambda>end_ts.
     rbind (str_set rt d ''invocation_ids'') (\<lambda>ids.
       Inr \<lparr>wf_workflow_id = k, wf_start_ts_ms = start, wf_end_ts_ms = end_ts, wf_invocation_ids = ids\<rparr>)))"

definition read_invocation :: "py_runtime \<Rightarrow> string \<Rightarrow> (string, py_value) dict \<Rightarrow> invocation_record result" where
  "read_invocation rt k d =
     rbind (str_item rt d ''workflow_id'') (\<lambda>workflow.
     rbind (str_item rt d ''context_id'') (\<lambda>context.
     rbind (str_item rt d ''agent_definition_id'') (\<lambda>definition_id.
     rbind (str_item rt d ''agent_instance_id'') (\<lambda>instance_id.
     rbind (str_item rt d ''state'') (\<lambda>state_str.
     rbind (py_enum state_value all_states (PStr state_str)) (\<lambda>state.
     rbind (float_item rt d ''created_ts_ms'') (\<lambda>created.
     rbind (float_item rt d ''updated_ts_ms'') (\<lambda>updated.
     rbind (opt_str rt d ''parent_invocation_id'') (\<lambda>parent.
     rbind (opt_str rt d ''parent_context_id'') (\<lambda>parent_context.
     rbind (enum_get rt relation_value all_relations d ''relation_type'' ''root'') (\<lambda>relation.
     rbind (enum_get rt context_mode_value all_context_modes d ''context_mode'' ''fresh'') (\<lambda>cmode.
     rbind (enum_get rt execution_mode_value all_execution_modes d ''execution_mode'' ''foreground'') (\<lambda>emode.
     rbind (opt_str rt d ''return_target_id'') (\<lambda>ret.
     rbind (opt_str rt d ''join_id'') (\<lambda>join.
     rbind (py_int (dict_get d ''pending_messages'' (PInt 0))) (\<lambda>pending.
     rbind (str_set rt d ''children'') (\<lambda>children.
     rbind (str_set rt d ''blocking_children'') (\<lambda>blocking.
     rbind (enum_get rt confidence_value all_confidences d ''confidence'' ''declared_runtime'') (\<lambda>confidence.
     rbind (opt_str rt d ''active_tool_family'') (\<lambda>tool.
     rbind (py_opt (py_float rt) (py_get d ''active_tool_start_ms'')) (\<lambda>tool_start.
     rbind (py_int (dict_get d ''llm_round'' (PInt 0))) (\<lambda>round.
       Inr \<lparr>iv_workflow_id = workflow, iv_invocation_id = k, iv_context_id = context, iv_agent_definition_id = definition_id,
            iv_agent_instance_id = instance_id, iv_state = state, iv_created_ts_ms = created, iv_updated_ts_ms = updated,
            iv_parent_invocation_id = parent, iv_parent_context_id = parent_context, iv_relation_type = relation,
            iv_context_mode = cmode, iv_execution_mode = emode, iv_return_target_id = ret, iv_join_id = join,
            iv_persistent = py_bool (dict_get d ''persistent'' (PBool False)), iv_pending_messages = pending,
            iv_child_invocation_ids = children, iv_blocking_child_ids = blocking, iv_confidence = confidence,
            iv_active_tool_family = tool, iv_active_tool_start_ms = tool_start, iv_llm_round = round\<rparr>))))))))))))))))))))))"

definition read_context :: "py_runtime \<Rightarrow> string \<Rightarrow> (string, py_value) dict \<Rightarrow> context_record result" where
  "read_context rt k d =
     rbind (str_item rt d ''workflow_id'') (\<lambda>workflow.
     rbind (int_item d ''epoch'') (\<lambda>epoch.
     rbind (float_item rt d ''created_ts_ms'') (\<lambda>created.
     rbind (float_item rt d ''updated_ts_ms'') (\<lambda>updated.
     rbind (opt_str rt d ''parent_context_id'') (\<lambda>parent.
     rbind (enum_get rt context_mode_value all_context_modes d ''context_mode'' ''fresh'') (\<lambda>cmode.
     rbind (str_set rt d ''invocation_ids'') (\<lambda>ids.
       Inr \<lparr>cx_workflow_id = workflow, cx_context_id = k, cx_epoch = epoch, cx_created_ts_ms = created,
            cx_updated_ts_ms = updated, cx_parent_context_id = parent, cx_context_mode = cmode, cx_invocation_ids = ids,
            cx_persistent = py_bool (dict_get d ''persistent'' (PBool False))\<rparr>)))))))"

definition known_workflows :: "(string, invocation_record) dict \<Rightarrow> string set \<Rightarrow> string set" where
  "known_workflows invs ids = (\<Union>i \<in> ids. case map_of invs i of None \<Rightarrow> {} | Some r \<Rightarrow> {iv_workflow_id r})"

definition read_join ::
  "py_runtime \<Rightarrow> (string, invocation_record) dict \<Rightarrow> string \<Rightarrow> (string, py_value) dict \<Rightarrow> join_record result" where
  "read_join rt invs k d =
     rbind (str_set rt d ''members'') (\<lambda>members.
     rbind (str_set rt d ''waiters'') (\<lambda>waiters.
       case sorted_list_of_set (known_workflows invs members \<union> known_workflows invs waiters) of
         [workflow] \<Rightarrow>
           rbind (enum_get rt join_mode_value all_join_modes d ''mode'' ''all'') (\<lambda>mode.
           rbind (str_set rt d ''completed'') (\<lambda>completed.
             Inr \<lparr>jn_workflow_id = workflow, jn_join_id = k, jn_member_invocation_ids = members, jn_mode = mode,
                  jn_waiter_invocation_ids = waiters, jn_completed_member_ids = completed,
                  jn_satisfied = py_bool (dict_get d ''satisfied'' (PBool False))\<rparr>))
       | _ \<Rightarrow> Inl (ValueError ''join snapshot must resolve to one workflow'')))"

definition read_edge :: "py_runtime \<Rightarrow> (string, py_value) dict \<Rightarrow> communication_edge result" where
  "read_edge rt d =
     rbind (str_item rt d ''source_invocation_id'') (\<lambda>source.
     rbind (str_item rt d ''target_invocation_id'') (\<lambda>target.
     rbind (int_item d ''count'') (\<lambda>n.
     rbind (float_item rt d ''last_ts_ms'') (\<lambda>last.
       Inr \<lparr>ce_source_invocation_id = source, ce_target_invocation_id = target, ce_count = n, ce_last_ts_ms = last\<rparr>))))"

text \<open>The loop over the items of a mapping whose values must be mappings themselves.\<close>

definition read_items ::
  "string \<Rightarrow> (string \<Rightarrow> (string, py_value) dict \<Rightarrow> 'r result) \<Rightarrow> (string, py_value) dict \<Rightarrow> (string, 'r) dict result" where
  "read_items what rd d =
     rfold (\<lambda>(k, v) acc. case v of
         PDict x \<Rightarrow> rbind (rd k x) (\<lambda>r. Inr (AList.update k r acc))
       | _ \<Rightarrow> Inl (ValueError what)) d []"

definition read_edges :: "py_runtime \<Rightarrow> py_value list \<Rightarrow> (string \<times> string, communication_edge) dict result" where
  "read_edges rt vs =
     rfold (\<lambda>v acc. case v of
         PDict x \<Rightarrow> rbind (read_edge rt x) (\<lambda>e.
           Inr (AList.update (ce_source_invocation_id e, ce_target_invocation_id e) e acc))
       | _ \<Rightarrow> Inl (ValueError ''invalid communication edge snapshot'')) vs []"

fun sequence_items :: "py_value \<Rightarrow> py_value list option" where
  "sequence_items (PList vs) = Some vs"
| "sequence_items (PTuple vs) = Some vs"
| "sequence_items _ = None"

definition graph_from_snapshot :: "py_runtime \<Rightarrow> (string, py_value) dict \<Rightarrow> causal_graph result" where
  "graph_from_snapshot rt outer =
     (let raw = (case py_get outer ''rccg'' of PDict nested \<Rightarrow> nested | _ \<Rightarrow> outer) in
      case (dict_get raw ''workflows'' (PDict []), dict_get raw ''invocations'' (PDict []), dict_get raw ''contexts'' (PDict []),
            dict_get raw ''joins'' (PDict []), sequence_items (dict_get raw ''communication_edges'' (PTuple []))) of
        (PDict workflows, PDict invocations, PDict contexts, PDict joins, Some edges) \<Rightarrow>
          rbind (read_items ''invalid workflow snapshot'' (read_workflow rt) workflows) (\<lambda>ws.
          rbind (read_items ''invalid invocation snapshot'' (read_invocation rt) invocations) (\<lambda>invs.
          rbind (read_items ''invalid context snapshot'' (read_context rt) contexts) (\<lambda>cs.
          rbind (read_items ''invalid join snapshot'' (read_join rt invs) joins) (\<lambda>js.
          rbind (read_edges rt edges) (\<lambda>es.
          rbind (py_int (dict_get raw ''graph_version'' (PInt 0))) (\<lambda>version.
            Inr ((graph_init False)\<lparr>cg_workflows := ws, cg_invocations := invs, cg_contexts := cs, cg_joins := js,
              cg_communication_edges := es, cg_graph_version := version\<rparr>)))))))
      | _ \<Rightarrow> Inl (ValueError ''invalid RCCG snapshot shape''))"

section \<open>Tables are well formed\<close>

text \<open>What a round trip needs beyond the shape: distinct keys, finite sets, edges stored under their ends.\<close>

definition tidy :: "causal_graph \<Rightarrow> bool" where
  "tidy g \<longleftrightarrow> dict_ok (cg_workflows g) \<and> dict_ok (cg_invocations g) \<and> dict_ok (cg_contexts g) \<and> dict_ok (cg_joins g) \<and>
     dict_ok (cg_communication_edges g) \<and>
     (\<forall>i r. map_of (cg_invocations g) i = Some r \<longrightarrow> finite (iv_blocking_child_ids r)) \<and>
     (\<forall>k j. map_of (cg_joins g) k = Some j \<longrightarrow> finite (jn_completed_member_ids j)) \<and>
     (\<forall>k e. map_of (cg_communication_edges g) k = Some e \<longrightarrow> (ce_source_invocation_id e, ce_target_invocation_id e) = k)"

lemma tidy_mod_inv:
  assumes "tidy g" and "\<And>x. finite (iv_blocking_child_ids x) \<Longrightarrow> finite (iv_blocking_child_ids (f x))"
  shows "tidy (mod_inv ks f g)"
  using assms by (auto simp: tidy_def map_of_dmap_on split: if_splits)

lemma tidy_mod_inv_at:
  assumes "tidy g" and "\<And>x. map_of (cg_invocations g) i = Some x \<Longrightarrow> finite (iv_blocking_child_ids x) \<Longrightarrow> finite (iv_blocking_child_ids (f x))"
  shows "tidy (mod_inv {i} f g)"
  using assms by (auto simp: tidy_def map_of_dmap_on split: if_splits)

lemma tidy_mods:
  "tidy g \<Longrightarrow> tidy (mod_ctx c fc g)" "tidy g \<Longrightarrow> tidy (mod_workflow w fw g)"
  by (simp_all add: tidy_def)

lemma tidy_mod_join:
  assumes "tidy g" and "\<And>x. map_of (cg_joins g) k = Some x \<Longrightarrow> finite (jn_completed_member_ids x) \<Longrightarrow> finite (jn_completed_member_ids (f x))"
  shows "tidy (mod_join k f g)"
  using assms by (auto simp: tidy_def map_of_dmap_on split: if_splits)

lemma blocking_kept [simp]:
  "iv_blocking_child_ids (wake_waiter ts r) = iv_blocking_child_ids r"
  "iv_blocking_child_ids (cancel_live ts r) = iv_blocking_child_ids r"
  "iv_blocking_child_ids (set_state s ts r) = iv_blocking_child_ids r"
  "iv_blocking_child_ids (complete_child i ts r) = iv_blocking_child_ids r - {i}"
  by (simp_all add: wake_waiter_def cancel_live_def set_state_def complete_child_def Let_def)

lemma tidy_complete_join: "tidy g \<Longrightarrow> tidy (snd (complete_join i ts k g))"
proof (cases rule: complete_join_cases [of i ts k g])
  case same
  then show "tidy g \<Longrightarrow> tidy (snd (complete_join i ts k g))" by simp
next
  case (more j j1)
  then show "tidy g \<Longrightarrow> tidy (snd (complete_join i ts k g))" by (auto intro!: tidy_mod_join)
next
  case (wake j j2)
  then show "tidy g \<Longrightarrow> tidy (snd (complete_join i ts k g))" by (auto intro!: tidy_mod_inv tidy_mod_join)
qed

lemma tidy_finish: "tidy g \<Longrightarrow> tidy (snd (finish_invocation s ts i r g))"
  by (rule finish_invocation_graph [of s ts i r g])
    (auto intro!: complete_joins_induct [where P = tidy] tidy_complete_join tidy_mod_inv split: option.split)

lemma graph_step_tidy:
  assumes "graph_step d g h" and "shape_ok (graph_shape g)" and "tidy g"
  shows "tidy h"
  using assms
proof (induction rule: graph_step.induct)
  case (invocation_new g i r persistent)
  then have "tidy (g\<lparr>cg_invocations := AList.update i r (cg_invocations g)\<rparr>)"
    by (auto simp: tidy_def map_of_update new_invocation_ok_def split: if_splits)
  then show ?case unfolding add_invocation_def by (intro tidy_mods)
next
  case (invocation_change g i f)
  then show ?case by (intro tidy_mod_inv_at) (auto simp: calm_change_def)
next
  case (join_new g k j)
  have "finite (jn_member_invocation_ids j)"
  proof (rule finite_subset)
    show "jn_member_invocation_ids j \<subseteq> fst ` set (cg_invocations g)"
      using join_new(2) by (auto simp: new_join_ok_def member_of_def dest: dict_key)
  qed simp
  then have "finite (jn_completed_member_ids j)" using join_new(2) by (simp add: new_join_ok_def)
  then show ?case using join_new by (auto simp: tidy_def map_of_update split: if_splits)
next
  case (message_edge g s t ts)
  then show ?case
    by (auto simp: tidy_def bump_edge_def Let_def map_of_update split: option.splits if_splits)
next
  case (invocation_link g p P c C ret mode relation ts)
  then show ?case unfolding link_update_def Let_def by (auto intro!: tidy_mod_inv)
next
  case (join_waits g i r k j ts)
  then show ?case unfolding wait_update_def by (auto intro!: tidy_mod_inv tidy_mod_join)
next
  case (join_satisfies g k j ts)
  then show ?case by (auto intro!: tidy_mod_inv tidy_mod_join)
qed (auto simp: tidy_finish tidy_mods tidy_mod_inv, auto simp: tidy_def map_of_update split: if_splits)

lemma event_step_tidy:
  assumes "event_step d rt g h" and "graph_ok d g" and "tidy g"
  shows "tidy h"
proof -
  obtain h' P L v where h': "steps d g h'"
    and h: "h = h'\<lparr>cg_processed_event_ids := P, cg_last_ts_by_workflow := L, cg_graph_version := v\<rparr>"
    using assms(1,2) by (rule event_step_steps)
  from h' have "graph_ok d h' \<and> tidy h'"
  proof (induction rule: rtranclp_induct)
    case (step x y)
    then show ?case using cg.step_inv graph_step_tidy by (auto simp: graph_ok_def)
  qed (use assms in simp)
  then show ?thesis by (simp add: h tidy_def)
qed

lemma reachable_tidy:
  assumes "reachable d rt g"
  shows "tidy g"
proof -
  obtain strict where "(event_step d rt)\<^sup>*\<^sup>* (graph_init strict) g" using assms by blast
  then have "graph_ok d g \<and> tidy g"
  proof (induction rule: rtranclp_induct)
    case base
    then show ?case using graph_ok_init by (simp add: tidy_def graph_init_def)
  next
    case (step x y)
    then show ?case using evm.step_inv event_step_tidy by blast
  qed
  then show ?thesis ..
qed

section \<open>Round trip\<close>

lemma state_lookup: "py_enum state_value all_states (PStr (state_value x)) = Inr x"
  by (cases x) (simp_all add: py_enum_def all_states_def)

lemma join_mode_lookup: "py_enum join_mode_value all_join_modes (PStr (join_mode_value m)) = Inr m"
  by (cases m) (simp_all add: py_enum_def all_join_modes_def)

lemma read_values:
  "map_of d k = Some (PStr x) \<Longrightarrow> str_item rt d k = Inr x"
  "map_of d k = Some (PFloat t) \<Longrightarrow> float_item rt d k = Inr t"
  "map_of d k = Some (PInt n) \<Longrightarrow> int_item d k = Inr n"
  "map_of d k = Some (opt_value PStr s) \<Longrightarrow> opt_str rt d k = Inr s"
  "map_of d k = Some (opt_value PFloat f) \<Longrightarrow> py_opt (py_float rt) (py_get d k) = Inr f"
  "map_of d k = Some (id_list A) \<Longrightarrow> finite A \<Longrightarrow> str_set rt d k = Inr A"
  by (simp_all add: str_item_def float_item_def int_item_def opt_str_def dict_item_def py_get_def py_opt_value str_set_def
      id_list_def image_image)

lemma read_enum:
  "map_of d k = Some (PStr (val x)) \<Longrightarrow> py_enum val members (PStr (val x)) = Inr x \<Longrightarrow> enum_get rt val members d k dflt = Inr x"
  by (simp add: enum_get_def)

lemma read_workflow_snapshot:
  assumes "wf_workflow_id w = k" and "finite (wf_invocation_ids w)"
  shows "read_workflow rt k (workflow_snapshot w) = Inr w"
proof -
  have "map_of (workflow_snapshot w) ''start_ts_ms'' = Some (PFloat (wf_start_ts_ms w))"
    "map_of (workflow_snapshot w) ''end_ts_ms'' = Some (opt_value PFloat (wf_end_ts_ms w))"
    "map_of (workflow_snapshot w) ''invocation_ids'' = Some (id_list (wf_invocation_ids w))"
    by (simp_all add: workflow_snapshot_def)
  then show ?thesis using assms by (simp add: read_workflow_def read_values)
qed

lemma invocation_snapshot_fields:
  "map_of (invocation_snapshot_of r) ''workflow_id'' = Some (PStr (iv_workflow_id r))"
  "map_of (invocation_snapshot_of r) ''context_id'' = Some (PStr (iv_context_id r))"
  "map_of (invocation_snapshot_of r) ''agent_definition_id'' = Some (PStr (iv_agent_definition_id r))"
  "map_of (invocation_snapshot_of r) ''agent_instance_id'' = Some (PStr (iv_agent_instance_id r))"
  "map_of (invocation_snapshot_of r) ''state'' = Some (PStr (state_value (iv_state r)))"
  "map_of (invocation_snapshot_of r) ''created_ts_ms'' = Some (PFloat (iv_created_ts_ms r))"
  "map_of (invocation_snapshot_of r) ''updated_ts_ms'' = Some (PFloat (iv_updated_ts_ms r))"
  "map_of (invocation_snapshot_of r) ''parent_invocation_id'' = Some (opt_value PStr (iv_parent_invocation_id r))"
  "map_of (invocation_snapshot_of r) ''parent_context_id'' = Some (opt_value PStr (iv_parent_context_id r))"
  "map_of (invocation_snapshot_of r) ''relation_type'' = Some (PStr (relation_value (iv_relation_type r)))"
  "map_of (invocation_snapshot_of r) ''context_mode'' = Some (PStr (context_mode_value (iv_context_mode r)))"
  "map_of (invocation_snapshot_of r) ''execution_mode'' = Some (PStr (execution_mode_value (iv_execution_mode r)))"
  "map_of (invocation_snapshot_of r) ''return_target_id'' = Some (opt_value PStr (iv_return_target_id r))"
  "map_of (invocation_snapshot_of r) ''children'' = Some (id_list (iv_child_invocation_ids r))"
  "map_of (invocation_snapshot_of r) ''blocking_children'' = Some (id_list (iv_blocking_child_ids r))"
  "map_of (invocation_snapshot_of r) ''pending_messages'' = Some (PInt (iv_pending_messages r))"
  "map_of (invocation_snapshot_of r) ''join_id'' = Some (opt_value PStr (iv_join_id r))"
  "map_of (invocation_snapshot_of r) ''persistent'' = Some (PBool (iv_persistent r))"
  "map_of (invocation_snapshot_of r) ''confidence'' = Some (PStr (confidence_value (iv_confidence r)))"
  "map_of (invocation_snapshot_of r) ''active_tool_family'' = Some (opt_value PStr (iv_active_tool_family r))"
  "map_of (invocation_snapshot_of r) ''active_tool_start_ms'' = Some (opt_value PFloat (iv_active_tool_start_ms r))"
  "map_of (invocation_snapshot_of r) ''llm_round'' = Some (PInt (iv_llm_round r))"
  by (simp_all add: invocation_snapshot_of_def)

lemma read_invocation_snapshot:
  assumes "iv_invocation_id r = k" and "finite (iv_child_invocation_ids r)" and "finite (iv_blocking_child_ids r)"
  shows "read_invocation rt k (invocation_snapshot_of r) = Inr r"
proof -
  note l = invocation_snapshot_fields [of r]
  note reads = read_values(1) [OF l(1)] read_values(1) [OF l(2)] read_values(1) [OF l(3)] read_values(1) [OF l(4)] read_values(1) [OF l(5)]
    read_values(2) [OF l(6)] read_values(2) [OF l(7)] read_values(4) [OF l(8)] read_values(4) [OF l(9)]
    read_enum [OF l(10) relation_lookup] read_enum [OF l(11) context_mode_lookup] read_enum [OF l(12) execution_mode_lookup]
    read_values(4) [OF l(13)] read_values(6) [OF l(14) assms(2)] read_values(6) [OF l(15) assms(3)] dict_get_Some [OF l(16)]
    read_values(4) [OF l(17)] dict_get_Some [OF l(18)] read_enum [OF l(19) confidence_lookup] read_values(4) [OF l(20)]
    read_values(5) [OF l(21)] dict_get_Some [OF l(22)]
  show ?thesis unfolding read_invocation_def reads state_lookup rbind_simps py_int.simps py_bool.simps
    using assms(1) by (cases r) simp
qed

lemma read_context_snapshot:
  assumes "cx_context_id x = k" and "finite (cx_invocation_ids x)"
  shows "read_context rt k (context_snapshot x) = Inr x"
proof -
  have l: "map_of (context_snapshot x) ''workflow_id'' = Some (PStr (cx_workflow_id x))"
    "map_of (context_snapshot x) ''epoch'' = Some (PInt (cx_epoch x))"
    "map_of (context_snapshot x) ''created_ts_ms'' = Some (PFloat (cx_created_ts_ms x))"
    "map_of (context_snapshot x) ''updated_ts_ms'' = Some (PFloat (cx_updated_ts_ms x))"
    "map_of (context_snapshot x) ''parent_context_id'' = Some (opt_value PStr (cx_parent_context_id x))"
    "map_of (context_snapshot x) ''context_mode'' = Some (PStr (context_mode_value (cx_context_mode x)))"
    "map_of (context_snapshot x) ''invocation_ids'' = Some (id_list (cx_invocation_ids x))"
    "map_of (context_snapshot x) ''persistent'' = Some (PBool (cx_persistent x))"
    by (simp_all add: context_snapshot_def)
  show ?thesis unfolding read_context_def read_values(1) [OF l(1)] read_values(3) [OF l(2)] read_values(2) [OF l(3)]
      read_values(2) [OF l(4)] read_values(4) [OF l(5)] read_enum [OF l(6) context_mode_lookup] read_values(6) [OF l(7) assms(2)]
      dict_get_Some [OF l(8)] rbind_simps py_bool.simps
    using assms(1) by (cases x) simp
qed

lemma read_join_snapshot:
  assumes "jn_join_id j = k" and "finite (jn_member_invocation_ids j)" and "finite (jn_waiter_invocation_ids j)"
    and "finite (jn_completed_member_ids j)" and "jn_member_invocation_ids j \<noteq> {}"
    and w: "\<And>i. i \<in> jn_member_invocation_ids j \<union> jn_waiter_invocation_ids j \<Longrightarrow>
      \<exists>r. map_of invs i = Some r \<and> iv_workflow_id r = jn_workflow_id j"
  shows "read_join rt invs k (join_snapshot_of j) = Inr j"
proof -
  have l: "map_of (join_snapshot_of j) ''members'' = Some (id_list (jn_member_invocation_ids j))"
    "map_of (join_snapshot_of j) ''completed'' = Some (id_list (jn_completed_member_ids j))"
    "map_of (join_snapshot_of j) ''waiters'' = Some (id_list (jn_waiter_invocation_ids j))"
    "map_of (join_snapshot_of j) ''mode'' = Some (PStr (join_mode_value (jn_mode j)))"
    "map_of (join_snapshot_of j) ''satisfied'' = Some (PBool (jn_satisfied j))"
    by (simp_all add: join_snapshot_of_def)
  have "known_workflows invs (jn_member_invocation_ids j) = {jn_workflow_id j}" using w assms(5) by (force simp: known_workflows_def)
  moreover have "known_workflows invs (jn_waiter_invocation_ids j) \<subseteq> {jn_workflow_id j}" using w by (force simp: known_workflows_def)
  ultimately have one: "known_workflows invs (jn_member_invocation_ids j) \<union> known_workflows invs (jn_waiter_invocation_ids j) = {jn_workflow_id j}"
    by blast
  show ?thesis unfolding read_join_def read_values(6) [OF l(1) assms(2)] read_values(6) [OF l(3) assms(3)]
      read_enum [OF l(4) join_mode_lookup] read_values(6) [OF l(2) assms(4)] dict_get_Some [OF l(5)] rbind_simps py_bool.simps one
    using assms(1) by (cases j) simp
qed

lemma read_edge_snapshot: "read_edge rt (edge_snapshot e) = Inr e"
proof -
  have l: "map_of (edge_snapshot e) ''source_invocation_id'' = Some (PStr (ce_source_invocation_id e))"
    "map_of (edge_snapshot e) ''target_invocation_id'' = Some (PStr (ce_target_invocation_id e))"
    "map_of (edge_snapshot e) ''count'' = Some (PInt (ce_count e))"
    "map_of (edge_snapshot e) ''last_ts_ms'' = Some (PFloat (ce_last_ts_ms e))"
    by (simp_all add: edge_snapshot_def)
  show ?thesis unfolding read_edge_def read_values(1) [OF l(1)] read_values(1) [OF l(2)] read_values(3) [OF l(3)]
      read_values(2) [OF l(4)] rbind_simps by (cases e) simp
qed

lemma read_items_snapshot:
  assumes "dict_ok d" and "\<And>k r. (k, r) \<in> set d \<Longrightarrow> rd k (snap r) = Inr r"
  shows "read_items what rd (map (\<lambda>(k, r). (k, PDict (snap r))) d) = Inr d"
proof -
  let ?f = "\<lambda>(k, v) acc. case v of PDict x \<Rightarrow> rbind (rd k x) (\<lambda>r. Inr (AList.update k r acc)) | _ \<Rightarrow> Inl (ValueError what)"
  have "rfold ?f (map (\<lambda>(k, r). (k, PDict (snap r))) xs) acc = Inr (acc @ xs)"
    if "dict_ok (acc @ xs)" "\<And>k r. (k, r) \<in> set xs \<Longrightarrow> rd k (snap r) = Inr r" for xs acc
    using that
  proof (induction xs arbitrary: acc)
    case (Cons x xs)
    obtain k r where x: "x = (k, r)" by (cases x)
    have "k \<notin> fst ` set acc" using Cons.prems(1) x by auto
    then have u: "AList.update k r acc = acc @ [(k, r)]" by (rule update_fresh)
    have "rfold ?f (map (\<lambda>(k, r). (k, PDict (snap r))) xs) (acc @ [(k, r)]) = Inr ((acc @ [(k, r)]) @ xs)"
      by (rule Cons.IH) (use Cons.prems x in auto)
    then show ?case using Cons.prems(2) [of k r] x u by simp
  qed simp
  from this [of "[]" d] assms show ?thesis by (simp add: read_items_def)
qed

lemma read_edges_snapshot:
  assumes "dict_ok d" and "\<And>k e. (k, e) \<in> set d \<Longrightarrow> (ce_source_invocation_id e, ce_target_invocation_id e) = k"
  shows "read_edges rt (map (\<lambda>(k, e). PDict (edge_snapshot e)) d) = Inr d"
proof -
  let ?f = "\<lambda>v acc. case v of PDict x \<Rightarrow> rbind (read_edge rt x) (\<lambda>e.
      Inr (AList.update (ce_source_invocation_id e, ce_target_invocation_id e) e acc))
    | _ \<Rightarrow> Inl (ValueError ''invalid communication edge snapshot'')"
  have "rfold ?f (map (\<lambda>(k, e). PDict (edge_snapshot e)) xs) acc = Inr (acc @ xs)"
    if "dict_ok (acc @ xs)" "\<And>k e. (k, e) \<in> set xs \<Longrightarrow> (ce_source_invocation_id e, ce_target_invocation_id e) = k" for xs acc
    using that
  proof (induction xs arbitrary: acc)
    case (Cons x xs)
    obtain k e where x: "x = (k, e)" by (cases x)
    have key: "(ce_source_invocation_id e, ce_target_invocation_id e) = k" using Cons.prems(2) x by simp
    have "k \<notin> fst ` set acc" using Cons.prems(1) x by auto
    then have u: "AList.update k e acc = acc @ [(k, e)]" by (rule update_fresh)
    have "rfold ?f (map (\<lambda>(k, e). PDict (edge_snapshot e)) xs) (acc @ [(k, e)]) = Inr ((acc @ [(k, e)]) @ xs)"
      by (rule Cons.IH) (use Cons.prems x in auto)
    then show ?case using x u key by (simp add: read_edge_snapshot)
  qed simp
  from this [of "[]" d] assms show ?thesis by (simp add: read_edges_def)
qed

lemma sorted_dict:
  assumes "dict_ok d"
  shows "dict_ok (sort_key fst d)" and "map_of (sort_key fst d) = map_of d" and "sort_key fst (sort_key fst d) = sort_key fst d"
proof -
  have "distinct (sort_key fst d)" "inj_on fst (set (sort_key fst d))" using assms by (simp_all add: distinct_map)
  then show ok: "dict_ok (sort_key fst d)" by (simp add: distinct_map)
  show "map_of (sort_key fst d) = map_of d"
    by (rule ext) (metis assms ok map_of_eq_Some_iff not_Some_eq set_sort)
  show "sort_key fst (sort_key fst d) = sort_key fst d" by (rule sort_key_id_if_sorted) simp
qed

lemma group_finite: "(\<And>i. i \<in> A \<Longrightarrow> \<exists>r. map_of d i = Some r) \<Longrightarrow> finite A"
  by (rule finite_subset [of _ "fst ` set d"]) (auto dest: dict_key)

lemma table_facts:
  assumes "shape_ok (graph_shape g)"
  shows "map_of (cg_workflows g) k = Some w \<Longrightarrow> wf_workflow_id w = k \<and> finite (wf_invocation_ids w)"
    and "map_of (cg_invocations g) k = Some r \<Longrightarrow> iv_invocation_id r = k \<and> finite (iv_child_invocation_ids r)"
    and "map_of (cg_contexts g) k = Some x \<Longrightarrow> cx_context_id x = k \<and> finite (cx_invocation_ids x)"
    and "map_of (cg_joins g) k = Some j \<Longrightarrow> jn_join_id j = k \<and> jn_member_invocation_ids j \<noteq> {} \<and>
      (\<forall>i \<in> jn_member_invocation_ids j \<union> jn_waiter_invocation_ids j. \<exists>r. map_of (cg_invocations g) i = Some r \<and> iv_workflow_id r = jn_workflow_id j)"
proof -
  have m: "\<exists>r. map_of (cg_invocations g) i = Some r \<and> iv_workflow_id r = w" if "member_of (graph_shape g) w i" for w i
    using that by (auto simp: member_of_def)
  {
    assume "map_of (cg_workflows g) k = Some w"
    then have *: "wf_workflow_id w = k" "\<forall>i \<in> wf_invocation_ids w. member_of (graph_shape g) k i"
      using shape_okD(4) [OF assms, of k "workflow_shape w"] by simp_all
    have "finite (wf_invocation_ids w)" by (rule group_finite [of _ "cg_invocations g"]) (use *(2) m in blast)
    then show "wf_workflow_id w = k \<and> finite (wf_invocation_ids w)" using *(1) by blast
  next
    assume "map_of (cg_invocations g) k = Some r"
    then show "iv_invocation_id r = k \<and> finite (iv_child_invocation_ids r)"
      using shape_okD(1) [OF assms, of k "invocation_shape r"] by (simp add: inv_ok_def)
  next
    assume "map_of (cg_contexts g) k = Some x"
    then show "cx_context_id x = k \<and> finite (cx_invocation_ids x)"
      using shape_okD(3) [OF assms, of k "context_shape x"] by simp
  next
    assume "map_of (cg_joins g) k = Some j"
    then have *: "jn_join_id j = k" "jn_member_invocation_ids j \<noteq> {}"
      "\<forall>i \<in> jn_member_invocation_ids j \<union> jn_waiter_invocation_ids j. member_of (graph_shape g) (jn_workflow_id j) i"
      using shape_okD(2) [OF assms, of k "join_shape j"] by simp_all
    then show "jn_join_id j = k \<and> jn_member_invocation_ids j \<noteq> {} \<and>
      (\<forall>i \<in> jn_member_invocation_ids j \<union> jn_waiter_invocation_ids j. \<exists>r. map_of (cg_invocations g) i = Some r \<and> iv_workflow_id r = jn_workflow_id j)"
      using m by blast
  }
qed

lemma sorted_dict_mem: "dict_ok d \<Longrightarrow> (k, v) \<in> set (sort_key fst d) \<Longrightarrow> map_of d k = Some v"
  by simp

text \<open>The graph for planning: the same tables in key order, without the ledger of events.\<close>

definition planning_copy :: "causal_graph \<Rightarrow> causal_graph" where
  "planning_copy g = (graph_init False)\<lparr>cg_workflows := sort_key fst (cg_workflows g),
     cg_invocations := sort_key fst (cg_invocations g), cg_contexts := sort_key fst (cg_contexts g),
     cg_joins := sort_key fst (cg_joins g), cg_communication_edges := sort_key fst (cg_communication_edges g),
     cg_graph_version := cg_graph_version g\<rparr>"

lemma read_tables:
  assumes shape: "shape_ok (graph_shape g)" and tidy: "tidy g"
  shows "read_items a (read_workflow rt) (map (\<lambda>(k, r). (k, PDict (workflow_snapshot r))) (sort_key fst (cg_workflows g))) =
      Inr (sort_key fst (cg_workflows g))"
    and "read_items a (read_invocation rt) (map (\<lambda>(k, r). (k, PDict (invocation_snapshot_of r))) (sort_key fst (cg_invocations g))) =
      Inr (sort_key fst (cg_invocations g))"
    and "read_items a (read_context rt) (map (\<lambda>(k, r). (k, PDict (context_snapshot r))) (sort_key fst (cg_contexts g))) =
      Inr (sort_key fst (cg_contexts g))"
    and "read_items a (read_join rt (sort_key fst (cg_invocations g)))
        (map (\<lambda>(k, r). (k, PDict (join_snapshot_of r))) (sort_key fst (cg_joins g))) = Inr (sort_key fst (cg_joins g))"
    and "read_edges rt (map (\<lambda>(k, e). PDict (edge_snapshot e)) (sort_key fst (cg_communication_edges g))) =
      Inr (sort_key fst (cg_communication_edges g))"
proof -
  have ok: "dict_ok (cg_workflows g)" "dict_ok (cg_invocations g)" "dict_ok (cg_contexts g)" "dict_ok (cg_joins g)"
    "dict_ok (cg_communication_edges g)" using tidy by (simp_all add: tidy_def)
  note facts = table_facts [OF shape]
  show "read_items a (read_workflow rt) (map (\<lambda>(k, r). (k, PDict (workflow_snapshot r))) (sort_key fst (cg_workflows g))) =
      Inr (sort_key fst (cg_workflows g))"
    by (rule read_items_snapshot [OF sorted_dict(1) [OF ok(1)]], rule read_workflow_snapshot)
      (simp_all only: facts(1) [OF sorted_dict_mem [OF ok(1)]])
  show "read_items a (read_invocation rt) (map (\<lambda>(k, r). (k, PDict (invocation_snapshot_of r))) (sort_key fst (cg_invocations g))) =
      Inr (sort_key fst (cg_invocations g))"
  proof (rule read_items_snapshot [OF sorted_dict(1) [OF ok(2)]])
    fix k r assume "(k, r) \<in> set (sort_key fst (cg_invocations g))"
    then have r: "map_of (cg_invocations g) k = Some r" by (rule sorted_dict_mem [OF ok(2)])
    then have "finite (iv_blocking_child_ids r)" using tidy unfolding tidy_def by blast
    then show "read_invocation rt k (invocation_snapshot_of r) = Inr r" using facts(2) [OF r] by (simp only: read_invocation_snapshot)
  qed
  show "read_items a (read_context rt) (map (\<lambda>(k, r). (k, PDict (context_snapshot r))) (sort_key fst (cg_contexts g))) =
      Inr (sort_key fst (cg_contexts g))"
    by (rule read_items_snapshot [OF sorted_dict(1) [OF ok(3)]], rule read_context_snapshot)
      (simp_all only: facts(3) [OF sorted_dict_mem [OF ok(3)]])
  show "read_items a (read_join rt (sort_key fst (cg_invocations g)))
      (map (\<lambda>(k, r). (k, PDict (join_snapshot_of r))) (sort_key fst (cg_joins g))) = Inr (sort_key fst (cg_joins g))"
  proof (rule read_items_snapshot [OF sorted_dict(1) [OF ok(4)]])
    fix k j assume "(k, j) \<in> set (sort_key fst (cg_joins g))"
    then have j: "map_of (cg_joins g) k = Some j" by (rule sorted_dict_mem [OF ok(4)])
    note f = facts(4) [OF j]
    show "read_join rt (sort_key fst (cg_invocations g)) k (join_snapshot_of j) = Inr j"
    proof (rule read_join_snapshot)
      show "finite (jn_member_invocation_ids j)" "finite (jn_waiter_invocation_ids j)"
        by (rule group_finite [of _ "cg_invocations g"]; use f in blast)+
      show "finite (jn_completed_member_ids j)" using tidy j unfolding tidy_def by blast
      show "\<exists>r. map_of (sort_key fst (cg_invocations g)) i = Some r \<and> iv_workflow_id r = jn_workflow_id j"
        if "i \<in> jn_member_invocation_ids j \<union> jn_waiter_invocation_ids j" for i
        unfolding sorted_dict(2) [OF ok(2)] using f that by blast
    qed (use f in blast)+
  qed
  show "read_edges rt (map (\<lambda>(k, e). PDict (edge_snapshot e)) (sort_key fst (cg_communication_edges g))) =
      Inr (sort_key fst (cg_communication_edges g))"
  proof (rule read_edges_snapshot [OF sorted_dict(1) [OF ok(5)]])
    fix k e assume "(k, e) \<in> set (sort_key fst (cg_communication_edges g))"
    then have "map_of (cg_communication_edges g) k = Some e" by (rule sorted_dict_mem [OF ok(5)])
    then show "(ce_source_invocation_id e, ce_target_invocation_id e) = k" using tidy unfolding tidy_def by blast
  qed
qed

lemma snapshot_fields:
  "map_of (graph_snapshot g) ''graph_version'' = Some (PInt (cg_graph_version g))"
  "map_of (graph_snapshot g) ''workflows'' = Some (snapshot_items workflow_snapshot (cg_workflows g))"
  "map_of (graph_snapshot g) ''invocations'' = Some (snapshot_items invocation_snapshot_of (cg_invocations g))"
  "map_of (graph_snapshot g) ''contexts'' = Some (snapshot_items context_snapshot (cg_contexts g))"
  "map_of (graph_snapshot g) ''joins'' = Some (snapshot_items join_snapshot_of (cg_joins g))"
  "map_of (graph_snapshot g) ''communication_edges'' =
     Some (PList (map (\<lambda>(k, e). PDict (edge_snapshot e)) (sort_key fst (cg_communication_edges g))))"
  "map_of (graph_snapshot g) ''rccg'' = None"
  by (simp_all add: graph_snapshot_def)

lemma from_snapshot_copy:
  assumes "shape_ok (graph_shape g)" and "tidy g"
    and raw: "(case py_get outer ''rccg'' of PDict nested \<Rightarrow> nested | _ \<Rightarrow> outer) = graph_snapshot g"
  shows "graph_from_snapshot rt outer = Inr (planning_copy g)"
  unfolding graph_from_snapshot_def raw Let_def
    dict_get_Some [OF snapshot_fields(1)] dict_get_Some [OF snapshot_fields(2)] dict_get_Some [OF snapshot_fields(3)]
    dict_get_Some [OF snapshot_fields(4)] dict_get_Some [OF snapshot_fields(5)] dict_get_Some [OF snapshot_fields(6)]
  by (simp add: snapshot_items_def read_tables [OF assms(1,2)] planning_copy_def)

text \<open>C28. A snapshot of the graph can be read back. For every reachable graph, reading its snapshot, alone or nested
  under \<open>rccg\<close>, succeeds and gives a graph with the same workflows, invocations, contexts, joins (their workflow is
  recovered from the members) and communication edges under the same keys and the same version, with no processed
  events, no watermarks and lenient timestamps; the snapshot of that graph is the one it was read from.\<close>

theorem graph_snapshot_round_trip:
  assumes "reachable d rt' g"
  shows "\<exists>h. graph_from_snapshot rt (graph_snapshot g) = Inr h \<and>
    graph_from_snapshot rt [(''rccg'', PDict (graph_snapshot g))] = Inr h \<and>
    map_of (cg_workflows h) = map_of (cg_workflows g) \<and> map_of (cg_invocations h) = map_of (cg_invocations g) \<and>
    map_of (cg_contexts h) = map_of (cg_contexts g) \<and> map_of (cg_joins h) = map_of (cg_joins g) \<and>
    map_of (cg_communication_edges h) = map_of (cg_communication_edges g) \<and>
    ledger h = ({}, [], cg_graph_version g, False) \<and> graph_snapshot h = graph_snapshot g"
proof -
  have shape: "shape_ok (graph_shape g)" using reachable_ok [OF assms] by (simp add: graph_ok_def)
  have tidy: "tidy g" by (rule reachable_tidy [OF assms])
  have "graph_from_snapshot rt (graph_snapshot g) = Inr (planning_copy g)"
    by (rule from_snapshot_copy [OF shape tidy]) (simp add: py_get_def dict_get_def snapshot_fields(7))
  moreover have "graph_from_snapshot rt [(''rccg'', PDict (graph_snapshot g))] = Inr (planning_copy g)"
    by (rule from_snapshot_copy [OF shape tidy]) (simp add: py_get_def)
  moreover have "graph_snapshot (planning_copy g) = graph_snapshot g"
    using tidy by (simp add: tidy_def graph_snapshot_def planning_copy_def snapshot_items_def sorted_dict(3))
  ultimately show ?thesis using tidy
    by (intro exI [of _ "planning_copy g"]) (simp add: tidy_def planning_copy_def sorted_dict(2) ledger_def graph_init_def)
qed

theorem graph_snapshot_round_trip_witness:
  "\<exists>h r. graph_from_snapshot demo_runtime (graph_snapshot demo_graph) = Inr h \<and>
     map_of (cg_invocations h) ''p'' = Some r \<and> iv_state r = WAIT_CHILD \<and> graph_snapshot h = graph_snapshot demo_graph"
proof -
  obtain r where "map_of (cg_invocations demo_graph) ''p'' = Some r" "iv_state r = WAIT_CHILD" using demo_lookups(1) by blast
  then show ?thesis using graph_snapshot_round_trip [OF demo_graph_reachable, of demo_runtime] by auto
qed

end
