(* ===== verification/Admission.thy ===== *)
theory Admission
  imports Py_Data
begin

text \<open>
  \<open>policy/admission.py\<close>, the part without reservations: requests and their byte estimates, the side index of
  visible requests with its local versions, the compiler of short-lived tickets, and the scheduler that
  bounds the growth of the active set from observed facts.

  A method of the index returns its result together with the index, because some of them draw a new
  generation before they raise. Mappings passed as arguments have distinct string keys.
\<close>

section \<open>Requests\<close>

record admission_request =
  ar_request_id :: string
  ar_workflow_id :: string
  ar_invocation_id :: string
  ar_context_id :: string
  ar_context_epoch :: int
  ar_submitted_ts_ms :: real
  ar_uncached_prompt_tokens :: int
  ar_expected_output_tokens :: int
  ar_kv_bytes_per_token :: int
  ar_fixed_overhead_bytes :: int
  ar_prompt_tokens :: "int option"

definition admission_request_post_init :: "admission_request \<Rightarrow> admission_request result" where
  "admission_request_post_init r =
     (if ar_request_id r = [] then Inl (ValueError ''request_id must be non-empty'')
      else if ar_workflow_id r = [] then Inl (ValueError ''workflow_id must be non-empty'')
      else if ar_invocation_id r = [] then Inl (ValueError ''invocation_id must be non-empty'')
      else if ar_context_id r = [] then Inl (ValueError ''context_id must be non-empty'')
      else if ar_context_epoch r < 0 \<or> ar_submitted_ts_ms r < 0
      then Inl (ValueError ''context epoch and submit time must be non-negative'')
      else if Min {ar_uncached_prompt_tokens r, ar_expected_output_tokens r, ar_fixed_overhead_bytes r} < 0
      then Inl (ValueError ''admission token/byte estimates must be non-negative'')
      else if (case ar_prompt_tokens r of None \<Rightarrow> False | Some n \<Rightarrow> n < 0)
      then Inl (ValueError ''prompt_tokens must be non-negative or null'')
      else if ar_kv_bytes_per_token r \<le> 0 then Inl (ValueError ''kv_bytes_per_token must be positive'')
      else Inr r)"

definition estimated_incremental_bytes :: "admission_request \<Rightarrow> int" where
  "estimated_incremental_bytes r =
     max 0 ((ar_uncached_prompt_tokens r + ar_expected_output_tokens r) * ar_kv_bytes_per_token r +
            ar_fixed_overhead_bytes r)"

definition estimated_working_set_bytes :: "admission_request \<Rightarrow> int" where
  "estimated_working_set_bytes r =
     (let prompt = (case ar_prompt_tokens r of Some n \<Rightarrow> n | None \<Rightarrow> ar_uncached_prompt_tokens r) in
      max 0 ((prompt + ar_expected_output_tokens r) * ar_kv_bytes_per_token r + ar_fixed_overhead_bytes r))"

record admission_decision =
  ad_request_id :: string
  ad_admitted :: bool
  ad_reason :: string
  ad_reserved_bytes :: int
  ad_required_bytes :: int
  ad_native_reclaim_capacity_bytes :: int

section \<open>Entries and versions\<close>

datatype side_state = VISIBLE_PENDING | WAIT_RESTORE | POLICY_BLOCKED

fun side_state_value :: "side_state \<Rightarrow> string" where
  "side_state_value VISIBLE_PENDING = ''visible_pending''"
| "side_state_value WAIT_RESTORE = ''wait_restore''"
| "side_state_value POLICY_BLOCKED = ''policy_blocked''"

record local_version =
  lv_request_generation :: int
  lv_prompt_generation :: int
  lv_prefix_generation :: int
  lv_transition_generation :: int
  lv_bundle_generations :: "(string \<times> string) list"

definition local_version_post_init :: "local_version \<Rightarrow> local_version result" where
  "local_version_post_init v =
     (let ids = map fst (lv_bundle_generations v) in
      if Min {lv_request_generation v, lv_prompt_generation v, lv_prefix_generation v, lv_transition_generation v} < 0
      then Inl (ValueError ''admission generations must be non-negative'')
      else if [] \<in> set ids then Inl (ValueError ''bundle IDs must be non-empty'')
      else if \<not> distinct ids then Inl (ValueError ''bundle generations must have unique bundle IDs'')
      else if [] \<in> snd ` set (lv_bundle_generations v) then Inl (ValueError ''bundle generations must be non-empty'')
      else Inr (v\<lparr>lv_bundle_generations := sort (lv_bundle_generations v)\<rparr>))"

record visible_entry =
  ve_request :: admission_request
  ve_state :: side_state
  ve_version :: local_version
  ve_blocker_reason :: "string option"
  ve_restore_bundle_ids :: "string list"

text \<open>\<open>not reason\<close> of an optional string.\<close>

definition no_text :: "string option \<Rightarrow> bool" where
  "no_text x = (x = None \<or> x = Some [])"

definition visible_entry_post_init :: "visible_entry \<Rightarrow> visible_entry result" where
  "visible_entry_post_init e =
     (let ids = sort (ve_restore_bundle_ids e) in
      if \<not> distinct ids then Inl (ValueError ''restore bundle IDs must be unique'')
      else if [] \<in> set ids then Inl (ValueError ''restore bundle IDs must be non-empty'')
      else rbind
        (case ve_state e of
           VISIBLE_PENDING \<Rightarrow>
             if ve_blocker_reason e \<noteq> None \<or> ids \<noteq> []
             then Inl (ValueError ''visible requests cannot retain blockers'') else Inr ()
         | WAIT_RESTORE \<Rightarrow>
             if ids = [] then Inl (ValueError ''WAIT_RESTORE requires at least one bundle'')
             else if no_text (ve_blocker_reason e) then Inl (ValueError ''WAIT_RESTORE requires a blocker reason'')
             else Inr ()
         | POLICY_BLOCKED \<Rightarrow>
             if no_text (ve_blocker_reason e) then Inl (ValueError ''POLICY_BLOCKED requires a blocker reason'')
             else Inr ())
        (\<lambda>_. Inr (e\<lparr>ve_restore_bundle_ids := ids\<rparr>)))"

section \<open>Tickets\<close>

record admission_ticket =
  tk_epoch :: int
  tk_rank :: int
  tk_request_id :: string
  tk_workflow_id :: string
  tk_invocation_id :: string
  tk_context_id :: string
  tk_context_epoch :: int
  tk_version :: local_version
  tk_estimated_prefill_tokens :: int
  tk_estimated_incremental_bytes :: int
  tk_issued_ts_ms :: real
  tk_source :: string
  tk_reason :: string
  tk_reservation_credit_bytes :: int

definition ticket_post_init :: "admission_ticket \<Rightarrow> admission_ticket result" where
  "ticket_post_init t =
     (if Min {tk_epoch t, tk_rank t, tk_context_epoch t, tk_estimated_prefill_tokens t,
              tk_estimated_incremental_bytes t, tk_reservation_credit_bytes t} < 0
      then Inl (ValueError ''ticket counters must be non-negative'')
      else if tk_issued_ts_ms t < 0 then Inl (ValueError ''ticket issue time must be non-negative'')
      else if tk_request_id t = [] then Inl (ValueError ''ticket request_id must be non-empty'')
      else if tk_workflow_id t = [] then Inl (ValueError ''ticket workflow_id must be non-empty'')
      else if tk_invocation_id t = [] then Inl (ValueError ''ticket invocation_id must be non-empty'')
      else if tk_context_id t = [] then Inl (ValueError ''ticket context_id must be non-empty'')
      else if tk_source t = [] then Inl (ValueError ''ticket source must be non-empty'')
      else if tk_reason t = [] then Inl (ValueError ''ticket reason must be non-empty'')
      else Inr t)"

record ticket_validation =
  tv_valid :: bool
  tv_reasons :: "string list"

record ticket_epoch =
  te_epoch :: int
  te_tickets :: "admission_ticket list"
  te_skipped :: "(string \<times> string) list"
  te_scanned_count :: int
  te_source :: string

definition ticket_epoch_post_init :: "ticket_epoch \<Rightarrow> ticket_epoch result" where
  "ticket_epoch_post_init x =
     (if te_epoch x < 0 \<or> te_scanned_count x < 0
      then Inl (ValueError ''ticket epoch counters must be non-negative'')
      else if \<not> distinct (map tk_request_id (te_tickets x))
      then Inl (ValueError ''ticket epoch contains duplicate request IDs'')
      else if \<exists>t \<in> set (te_tickets x). tk_epoch t \<noteq> te_epoch x
      then Inl (ValueError ''ticket belongs to a different epoch'')
      else if te_source x = [] then Inl (ValueError ''ticket epoch source must be non-empty'')
      else Inr x)"

definition by_request_id :: "ticket_epoch \<Rightarrow> (string, admission_ticket) dict" where
  "by_request_id x = fold (\<lambda>t d. AList.update (tk_request_id t) t d) (te_tickets x) []"

record compile_budget =
  cb_max_prefill_tokens :: int
  cb_max_requests :: int
  cb_max_candidates :: int
  cb_available_hbm_bytes :: int
  cb_reclaimable_hbm_bytes :: int
  cb_protected_hbm_bytes :: int

definition compile_budget_post_init :: "compile_budget \<Rightarrow> compile_budget result" where
  "compile_budget_post_init b =
     (if Min {cb_max_prefill_tokens b, cb_max_requests b, cb_max_candidates b, cb_available_hbm_bytes b,
              cb_reclaimable_hbm_bytes b, cb_protected_hbm_bytes b} < 0
      then Inl (ValueError ''admission compile budgets must be non-negative'') else Inr b)"

definition bounded_hbm_bytes :: "compile_budget \<Rightarrow> int" where
  "bounded_hbm_bytes b =
     max 0 (cb_available_hbm_bytes b + cb_reclaimable_hbm_bytes b - cb_protected_hbm_bytes b)"

section \<open>The index of visible requests\<close>

record visible_index =
  vi_entries :: "(string, visible_entry) dict"
  vi_generation :: int
  vi_revision :: int

definition visible_init :: visible_index where
  "visible_init = \<lparr>vi_entries = [], vi_generation = 0, vi_revision = 0\<rparr>"

definition visible_reserved_bytes :: "visible_index \<Rightarrow> int" where
  "visible_reserved_bytes vx = 0"

definition visible_get :: "string \<Rightarrow> visible_index \<Rightarrow> visible_entry option" where
  "visible_get r vx = map_of (vi_entries vx) r"

definition visible_entries :: "visible_index \<Rightarrow> visible_entry list" where
  "visible_entries vx = map snd (vi_entries vx)"

definition visible_require :: "string \<Rightarrow> visible_index \<Rightarrow> visible_entry result" where
  "visible_require r vx = dict_item (vi_entries vx) r (''unknown visible request: '' @ r)"

definition next_generation :: "visible_index \<Rightarrow> int \<times> visible_index" where
  "next_generation vx = (vi_generation vx + 1, vx\<lparr>vi_generation := vi_generation vx + 1\<rparr>)"

definition bundle_tuple :: "(string, string) dict option \<Rightarrow> (string \<times> string) list" where
  "bundle_tuple values = sort (case values of None \<Rightarrow> [] | Some d \<Rightarrow> d)"

text \<open>An operation of the index: its result and the index afterwards.\<close>

type_synonym visible_op = "visible_entry result \<times> visible_index"

text \<open>\<open>_replace\<close>: the changed copy is validated again and stored under the identifier of \<open>current\<close>.\<close>

definition visible_replace :: "visible_entry \<Rightarrow> visible_entry \<Rightarrow> visible_index \<Rightarrow> visible_op" where
  "visible_replace current changed vx =
     (case visible_entry_post_init changed of
        Inl e \<Rightarrow> (Inl e, vx)
      | Inr updated \<Rightarrow>
          (Inr updated, vx\<lparr>vi_entries := AList.update (ar_request_id (ve_request current)) updated (vi_entries vx),
                            vi_revision := vi_revision vx + 1\<rparr>))"

text \<open>\<open>replace(current.version, ...)\<close> validates the version; what follows runs only if it succeeds.\<close>

definition with_version :: "local_version \<Rightarrow> visible_index \<Rightarrow> (local_version \<Rightarrow> visible_op) \<Rightarrow> visible_op" where
  "with_version v vx f = (case local_version_post_init v of Inl e \<Rightarrow> (Inl e, vx) | Inr v' \<Rightarrow> f v')"

definition visible_register ::
  "admission_request \<Rightarrow> int \<Rightarrow> (string, string) dict option \<Rightarrow> visible_index \<Rightarrow> visible_op" where
  "visible_register request transition bundles vx =
     (if dict_in (ar_request_id request) (vi_entries vx)
      then (Inl (ValueError (''duplicate visible request id: '' @ ar_request_id request)), vx)
      else
        let (generation, vx1) = next_generation vx in
        with_version
          \<lparr>lv_request_generation = generation, lv_prompt_generation = generation, lv_prefix_generation = generation,
           lv_transition_generation = transition, lv_bundle_generations = bundle_tuple bundles\<rparr> vx1
          (\<lambda>version.
            case visible_entry_post_init
                \<lparr>ve_request = request, ve_state = VISIBLE_PENDING, ve_version = version,
                 ve_blocker_reason = None, ve_restore_bundle_ids = []\<rparr> of
              Inl e \<Rightarrow> (Inl e, vx1)
            | Inr entry \<Rightarrow>
                (Inr entry, vx1\<lparr>vi_entries := AList.update (ar_request_id request) entry (vi_entries vx1),
                                vi_revision := vi_revision vx1 + 1\<rparr>)))"

definition visible_cancel :: "string \<Rightarrow> visible_index \<Rightarrow> visible_entry option \<times> visible_index" where
  "visible_cancel r vx =
     (case map_of (vi_entries vx) r of
        None \<Rightarrow> (None, vx)
      | Some entry \<Rightarrow>
          (Some entry, (snd (next_generation (vx\<lparr>vi_entries := AList.delete r (vi_entries vx)\<rparr>)))
             \<lparr>vi_revision := vi_revision vx + 1\<rparr>))"

text \<open>What may not change under one request identifier.\<close>

definition request_identity :: "admission_request \<Rightarrow> string \<times> string \<times> string \<times> int" where
  "request_identity r = (ar_workflow_id r, ar_invocation_id r, ar_context_id r, ar_context_epoch r)"

definition visible_update_request :: "admission_request \<Rightarrow> bool \<Rightarrow> visible_index \<Rightarrow> visible_op" where
  "visible_update_request request prompt_changed vx =
     (case visible_require (ar_request_id request) vx of
        Inl e \<Rightarrow> (Inl e, vx)
      | Inr current \<Rightarrow>
          if request_identity (ve_request current) \<noteq> request_identity request
          then (Inl (ValueError ''visible request identity cannot change in place''), vx)
          else if ve_request current = request \<and> \<not> prompt_changed then (Inr current, vx)
          else
            let (generation, vx1) = next_generation vx in
            with_version
              ((ve_version current)\<lparr>lv_request_generation := generation,
                 lv_prompt_generation :=
                   (if prompt_changed then generation else lv_prompt_generation (ve_version current))\<rparr>) vx1
              (\<lambda>version. visible_replace current (current\<lparr>ve_request := request, ve_version := version\<rparr>) vx1))"

definition visible_observe_prefix ::
  "string \<Rightarrow> int \<Rightarrow> (string, string) dict option \<Rightarrow> visible_index \<Rightarrow> visible_op" where
  "visible_observe_prefix r uncached bundle_generations vx =
     (if uncached < 0 then (Inl (ValueError ''uncached prompt tokens must be non-negative''), vx)
      else case visible_require r vx of
        Inl e \<Rightarrow> (Inl e, vx)
      | Inr current \<Rightarrow>
          let bundles = bundle_tuple bundle_generations in
          case admission_request_post_init ((ve_request current)\<lparr>ar_uncached_prompt_tokens := uncached\<rparr>) of
            Inl e \<Rightarrow> (Inl e, vx)
          | Inr request \<Rightarrow>
              if request = ve_request current \<and> bundles = lv_bundle_generations (ve_version current)
              then (Inr current, vx)
              else
                let (generation, vx1) = next_generation vx in
                with_version
                  ((ve_version current)\<lparr>lv_request_generation := generation, lv_prefix_generation := generation,
                     lv_bundle_generations := bundles\<rparr>) vx1
                  (\<lambda>version. visible_replace current (current\<lparr>ve_request := request, ve_version := version\<rparr>) vx1))"

definition set_transition_generation :: "string \<Rightarrow> int \<Rightarrow> visible_index \<Rightarrow> visible_op" where
  "set_transition_generation r transition vx =
     (if transition < 0 then (Inl (ValueError ''transition generation must be non-negative''), vx)
      else case visible_require r vx of
        Inl e \<Rightarrow> (Inl e, vx)
      | Inr current \<Rightarrow>
          if lv_transition_generation (ve_version current) = transition then (Inr current, vx)
          else
            let (generation, vx1) = next_generation vx in
            with_version
              ((ve_version current)\<lparr>lv_request_generation := generation, lv_transition_generation := transition\<rparr>) vx1
              (\<lambda>version. visible_replace current (current\<lparr>ve_version := version\<rparr>) vx1))"

definition visible_set_state ::
  "string \<Rightarrow> side_state \<Rightarrow> string option \<Rightarrow> string list \<Rightarrow> visible_index \<Rightarrow> visible_op" where
  "visible_set_state r state blocker bundles vx =
     (case visible_require r vx of
        Inl e \<Rightarrow> (Inl e, vx)
      | Inr current \<Rightarrow>
          (case visible_entry_post_init
              \<lparr>ve_request = ve_request current, ve_state = state, ve_version = ve_version current,
               ve_blocker_reason = blocker, ve_restore_bundle_ids = bundles\<rparr> of
            Inl e \<Rightarrow> (Inl e, vx)
          | Inr candidate \<Rightarrow>
              if candidate = current then (Inr current, vx)
              else
                let (generation, vx1) = next_generation vx in
                with_version ((ve_version current)\<lparr>lv_request_generation := generation\<rparr>) vx1
                  (\<lambda>version. visible_replace candidate (candidate\<lparr>ve_version := version\<rparr>) vx1)))"

definition set_wait_restore :: "string \<Rightarrow> string list \<Rightarrow> string \<Rightarrow> visible_index \<Rightarrow> visible_op" where
  "set_wait_restore r bundles reason vx = visible_set_state r WAIT_RESTORE (Some reason) bundles vx"

definition set_policy_blocked :: "string \<Rightarrow> string \<Rightarrow> visible_index \<Rightarrow> visible_op" where
  "set_policy_blocked r reason vx = visible_set_state r POLICY_BLOCKED (Some reason) [] vx"

definition set_visible :: "string \<Rightarrow> visible_index \<Rightarrow> visible_op" where
  "set_visible r vx = visible_set_state r VISIBLE_PENDING None [] vx"

section \<open>Validating tickets\<close>

text \<open>The four generations of a version under the names of their attributes.\<close>

definition version_fields :: "local_version \<Rightarrow> (string \<times> int) list" where
  "version_fields v =
     [(''request_generation'', lv_request_generation v), (''prompt_generation'', lv_prompt_generation v),
      (''prefix_generation'', lv_prefix_generation v), (''transition_generation'', lv_transition_generation v)]"

definition validate_ticket ::
  "admission_ticket \<Rightarrow> int \<Rightarrow> (string, string) dict option \<Rightarrow> visible_index \<Rightarrow> ticket_validation" where
  "validate_ticket t epoch bundle_generations vx =
     (let expired = (if tk_epoch t \<noteq> epoch then [''epoch_expired''] else []) in
      case map_of (vi_entries vx) (tk_request_id t) of
        None \<Rightarrow> \<lparr>tv_valid = False, tv_reasons = expired @ [''request_missing'']\<rparr>
      | Some current \<Rightarrow>
          let observed = (case bundle_generations of
                None \<Rightarrow> lv_bundle_generations (ve_version current)
              | Some d \<Rightarrow> bundle_tuple (Some d));
              reasons = expired @
                (if ve_state current \<noteq> VISIBLE_PENDING then [side_state_value (ve_state current)] else []) @
                (if tk_context_epoch t \<noteq> ar_context_epoch (ve_request current) then [''context_epoch''] else []) @
                [name. (name, g) \<leftarrow> version_fields (tk_version t),
                       map_of (version_fields (ve_version current)) name \<noteq> Some g] @
                [''bundle_generation:'' @ b. (b, g) \<leftarrow> lv_bundle_generations (tk_version t),
                       map_of observed b \<noteq> Some g]
          in \<lparr>tv_valid = (reasons = []), tv_reasons = reasons\<rparr>)"

section \<open>Compiling tickets\<close>

record compile_state =
  cs_tickets :: "admission_ticket list"
  cs_skipped :: "(string \<times> string) list"
  cs_remaining_tokens :: int
  cs_remaining_hbm :: int
  cs_scanned :: int

definition skip_request :: "string \<Rightarrow> string \<Rightarrow> compile_state \<Rightarrow> compile_state" where
  "skip_request r why st = st\<lparr>cs_skipped := cs_skipped st @ [(r, why)]\<rparr>"

text \<open>The body of the loop, after \<open>scanned\<close> was increased. \<open>cx\<close> is the epoch, the time, the source and the reason.\<close>

definition compile_one ::
  "int \<times> real \<times> string \<times> string \<Rightarrow> (string, visible_entry) dict \<Rightarrow> compile_budget \<Rightarrow> (string, int) dict \<Rightarrow>
   string \<Rightarrow> compile_state \<Rightarrow> compile_state result" where
  "compile_one cx entries budget credits r st =
     (case map_of entries r of
        None \<Rightarrow> Inr (skip_request r ''request_missing'' st)
      | Some entry \<Rightarrow>
          let request = ve_request entry;
              uncached = ar_uncached_prompt_tokens request;
              required = estimated_incremental_bytes request;
              credit = min required (dict_get credits r 0);
              budgeted = required - credit;
              prefill = min uncached (cs_remaining_tokens st);
              (epoch, now_ms, source, reason) = cx
          in
          if ve_state entry \<noteq> VISIBLE_PENDING then Inr (skip_request r (side_state_value (ve_state entry)) st)
          else if int (length (cs_tickets st)) \<ge> cb_max_requests budget
          then Inr (skip_request r ''request_slot_budget'' st)
          else if uncached > 0 \<and> cs_remaining_tokens st \<le> 0
          then Inr (skip_request r ''prefill_token_budget'' st)
          else if budgeted > cs_remaining_hbm st then Inr (skip_request r ''bounded_hbm_budget'' st)
          else
            rbind (ticket_post_init
                \<lparr>tk_epoch = epoch, tk_rank = int (length (cs_tickets st)), tk_request_id = r,
                 tk_workflow_id = ar_workflow_id request, tk_invocation_id = ar_invocation_id request,
                 tk_context_id = ar_context_id request, tk_context_epoch = ar_context_epoch request,
                 tk_version = ve_version entry, tk_estimated_prefill_tokens = prefill,
                 tk_estimated_incremental_bytes = required, tk_issued_ts_ms = now_ms, tk_source = source,
                 tk_reason = reason, tk_reservation_credit_bytes = credit\<rparr>) (\<lambda>ticket.
              Inr (st\<lparr>cs_tickets := cs_tickets st @ [ticket],
                      cs_remaining_tokens := cs_remaining_tokens st - prefill,
                      cs_remaining_hbm := cs_remaining_hbm st - budgeted\<rparr>)))"

fun compile_loop ::
  "int \<times> real \<times> string \<times> string \<Rightarrow> (string, visible_entry) dict \<Rightarrow> compile_budget \<Rightarrow> (string, int) dict \<Rightarrow>
   string list \<Rightarrow> compile_state \<Rightarrow> compile_state result" where
  "compile_loop cx entries budget credits [] st = Inr st"
| "compile_loop cx entries budget credits (r # rs) st =
     (if cs_scanned st \<ge> cb_max_candidates budget then Inr st
      else rbind (compile_one cx entries budget credits r (st\<lparr>cs_scanned := cs_scanned st + 1\<rparr>))
             (compile_loop cx entries budget credits rs))"

definition compile_tickets ::
  "int \<Rightarrow> real \<Rightarrow> string list \<Rightarrow> (string, visible_entry) dict \<Rightarrow> compile_budget \<Rightarrow> string \<Rightarrow> string \<Rightarrow>
   (string, int) dict option \<Rightarrow> ticket_epoch result" where
  "compile_tickets epoch now_ms ordered entries budget source reason reservation_credits =
     (let credits = (case reservation_credits of None \<Rightarrow> [] | Some d \<Rightarrow> d) in
      if epoch < 0 \<or> now_ms < 0 then Inl (ValueError ''ticket epoch and time must be non-negative'')
      else if source = [] \<or> reason = [] then Inl (ValueError ''ticket source and reason must be non-empty'')
      else if \<not> distinct ordered then Inl (ValueError ''ordered request IDs must be unique'')
      else if \<exists>(r, v) \<in> set credits. r = [] \<or> v < 0
      then Inl (ValueError ''admission reservation credits must be non-negative'')
      else
        rbind (compile_loop (epoch, now_ms, source, reason) entries budget credits ordered
            \<lparr>cs_tickets = [], cs_skipped = [], cs_remaining_tokens = cb_max_prefill_tokens budget,
             cs_remaining_hbm = bounded_hbm_bytes budget, cs_scanned = 0\<rparr>) (\<lambda>st.
        ticket_epoch_post_init
          \<lparr>te_epoch = epoch, te_tickets = cs_tickets st, te_skipped = cs_skipped st,
           te_scanned_count = cs_scanned st, te_source = source\<rparr>))"

end
