(* ===== verification/Ticket_Safety.thy ===== *)
theory Ticket_Safety
  imports Admission "HOL-Library.Multiset"
begin

text \<open>
  What an admission ticket is worth. Every change of a visible request draws a fresh generation, so a ticket
  is valid exactly as long as the entry it was compiled from is in place: there is no way back to an old
  version, not even by cancelling and registering a request again. The compiler stays within its budgets and
  leaves out only what does not fit.
\<close>

section \<open>Valid entries\<close>

lemma version_idem:
  assumes "local_version_post_init v = Inr w"
  shows "local_version_post_init w = Inr w" and "w = v\<lparr>lv_bundle_generations := sort (lv_bundle_generations v)\<rparr>"
    and "distinct (map fst (lv_bundle_generations w))"
proof -
  show w: "w = v\<lparr>lv_bundle_generations := sort (lv_bundle_generations v)\<rparr>"
    using assms by (auto simp: local_version_post_init_def Let_def split: if_splits)
  have "mset (map fst (sort (lv_bundle_generations v))) = mset (map fst (lv_bundle_generations v))" by simp
  then have d: "distinct (map fst (sort (lv_bundle_generations v))) \<longleftrightarrow> distinct (map fst (lv_bundle_generations v))"
    using mset_eq_imp_distinct_iff by blast
  show "local_version_post_init w = Inr w"
    using assms d unfolding w by (simp add: local_version_post_init_def Let_def sort_key_id_if_sorted split: if_splits)
  show "distinct (map fst (lv_bundle_generations w))"
    using assms d unfolding w by (simp add: local_version_post_init_def Let_def split: if_splits)
qed

lemma entry_idem:
  assumes "visible_entry_post_init e = Inr f"
  shows "visible_entry_post_init f = Inr f" and "f = e\<lparr>ve_restore_bundle_ids := sort (ve_restore_bundle_ids e)\<rparr>"
proof -
  show f: "f = e\<lparr>ve_restore_bundle_ids := sort (ve_restore_bundle_ids e)\<rparr>"
    using assms by (auto simp: visible_entry_post_init_def Let_def split: if_splits)
  have d: "distinct (sort (ve_restore_bundle_ids e)) \<longleftrightarrow> distinct (ve_restore_bundle_ids e)" by simp
  show "visible_entry_post_init f = Inr f"
    using assms unfolding f
    by (simp add: visible_entry_post_init_def Let_def sort_key_id_if_sorted split: if_splits side_state.splits)
qed

lemma request_idem: "admission_request_post_init r = Inr s \<Longrightarrow> s = r"
  unfolding admission_request_post_init_def by (simp only: guard_Inr sum.inject)

lemma ticket_idem: "ticket_post_init t = Inr u \<Longrightarrow> u = t"
  unfolding ticket_post_init_def by (simp only: guard_Inr sum.inject)

text \<open>What the index guarantees of an entry stored under a key.\<close>

definition visible_entry_ok :: "string \<Rightarrow> visible_entry \<Rightarrow> bool" where
  "visible_entry_ok k e \<longleftrightarrow> ar_request_id (ve_request e) = k \<and>
     admission_request_post_init (ve_request e) = Inr (ve_request e) \<and>
     local_version_post_init (ve_version e) = Inr (ve_version e) \<and> visible_entry_post_init e = Inr e"

definition visible_ok :: "visible_index \<Rightarrow> bool" where
  "visible_ok vx \<longleftrightarrow> dict_ok (vi_entries vx) \<and>
     (\<forall>k e. map_of (vi_entries vx) k = Some e \<longrightarrow>
        visible_entry_ok k e \<and> lv_request_generation (ve_version e) \<le> vi_generation vx)"

lemma visible_okD:
  "visible_ok vx \<Longrightarrow> map_of (vi_entries vx) k = Some e \<Longrightarrow> visible_entry_ok k e"
  "visible_ok vx \<Longrightarrow> map_of (vi_entries vx) k = Some e \<Longrightarrow> lv_request_generation (ve_version e) \<le> vi_generation vx"
  "visible_ok vx \<Longrightarrow> visible_require k vx = Inr e \<Longrightarrow> visible_entry_ok k e"
  by (auto simp: visible_ok_def visible_require_def result_simps)

section \<open>What an operation changes\<close>

text \<open>Either nothing, or a generation is drawn and at most one entry is removed or replaced by a valid one that
  carries the new generation.\<close>

inductive visible_effect :: "visible_index \<Rightarrow> visible_index \<Rightarrow> bool" where
  same: "visible_effect vx vx"
| drawn: "visible_effect vx (vx\<lparr>vi_generation := vi_generation vx + 1\<rparr>)"
| removed: "visible_effect vx (vx\<lparr>vi_entries := AList.delete k (vi_entries vx), vi_generation := vi_generation vx + 1,
      vi_revision := vi_revision vx + 1\<rparr>)"
| stored: "visible_entry_ok k e \<Longrightarrow> lv_request_generation (ve_version e) = vi_generation vx + 1 \<Longrightarrow>
    visible_effect vx (vx\<lparr>vi_entries := AList.update k e (vi_entries vx), vi_generation := vi_generation vx + 1,
      vi_revision := vi_revision vx + 1\<rparr>)"

inductive visible_step :: "visible_index \<Rightarrow> visible_index \<Rightarrow> bool" where
  register: "admission_request_post_init r = Inr r \<Longrightarrow> visible_register r tg b vx = (out, vx') \<Longrightarrow> visible_step vx vx'"
| cancel: "visible_cancel k vx = (old, vx') \<Longrightarrow> visible_step vx vx'"
| update: "admission_request_post_init r = Inr r \<Longrightarrow> visible_update_request r p vx = (out, vx') \<Longrightarrow> visible_step vx vx'"
| observe: "visible_observe_prefix k n b vx = (out, vx') \<Longrightarrow> visible_step vx vx'"
| transition: "set_transition_generation k n vx = (out, vx') \<Longrightarrow> visible_step vx vx'"
| wait: "set_wait_restore k bs why vx = (out, vx') \<Longrightarrow> visible_step vx vx'"
| block: "set_policy_blocked k why vx = (out, vx') \<Longrightarrow> visible_step vx vx'"
| show_again: "set_visible k vx = (out, vx') \<Longrightarrow> visible_step vx vx'"

lemma versioned_replace_effect:
  assumes r: "with_version v (vx\<lparr>vi_generation := vi_generation vx + 1\<rparr>)
      (\<lambda>version. visible_replace current (changed\<lparr>ve_version := version\<rparr>) (vx\<lparr>vi_generation := vi_generation vx + 1\<rparr>)) = (out, vx')"
    and v: "lv_request_generation v = vi_generation vx + 1"
    and k: "ar_request_id (ve_request current) = ar_request_id (ve_request changed)"
    and q: "admission_request_post_init (ve_request changed) = Inr (ve_request changed)"
  shows "visible_effect vx vx'"
proof (cases "local_version_post_init v")
  case (Inl e)
  with r show ?thesis by (auto simp: with_version_def intro: visible_effect.intros)
next
  case (Inr w)
  note w = version_idem [OF Inr]
  show ?thesis
  proof (cases "visible_entry_post_init (changed\<lparr>ve_version := w\<rparr>)")
    case (Inl e)
    with r Inr show ?thesis by (auto simp: with_version_def visible_replace_def intro: visible_effect.intros)
  next
    case (Inr f)
    note f = entry_idem [OF this]
    have e: "ve_request f = ve_request changed" "ve_version f = w" by (simp_all add: f(2))
    have ok: "visible_entry_ok (ar_request_id (ve_request changed)) f"
      using f(1) w(1) q by (simp add: visible_entry_ok_def e)
    have g: "lv_request_generation (ve_version f) = vi_generation vx + 1" using v by (simp add: e w(2))
    have "vx' = vx\<lparr>vi_entries := AList.update (ar_request_id (ve_request changed)) f (vi_entries vx),
        vi_generation := vi_generation vx + 1, vi_revision := vi_revision vx + 1\<rparr>"
      using r \<open>local_version_post_init v = Inr w\<close> Inr k by (cases vx) (auto simp: with_version_def visible_replace_def)
    then show ?thesis using visible_effect.stored [OF ok g] by simp
  qed
qed

lemma register_effect:
  assumes q: "admission_request_post_init r = Inr r" and r: "visible_register r tg b vx = (out, vx')"
  shows "visible_effect vx vx'"
proof (cases "dict_in (ar_request_id r) (vi_entries vx)")
  case True
  with r show ?thesis by (auto simp: visible_register_def intro: visible_effect.intros)
next
  case False
  let ?e = "\<lambda>w. \<lparr>ve_request = r, ve_state = VISIBLE_PENDING, ve_version = w, ve_blocker_reason = None, ve_restore_bundle_ids = []\<rparr>"
  let ?v = "\<lparr>lv_request_generation = vi_generation vx + 1, lv_prompt_generation = vi_generation vx + 1,
    lv_prefix_generation = vi_generation vx + 1, lv_transition_generation = tg, lv_bundle_generations = bundle_tuple b\<rparr>"
  have "with_version ?v (vx\<lparr>vi_generation := vi_generation vx + 1\<rparr>)
      (\<lambda>version. visible_replace (?e ?v) ((?e ?v)\<lparr>ve_version := version\<rparr>) (vx\<lparr>vi_generation := vi_generation vx + 1\<rparr>)) = (out, vx')"
    using r False by (simp add: visible_register_def next_generation_def visible_replace_def cong: sum.case_cong)
  then show ?thesis by (rule versioned_replace_effect) (simp_all add: q)
qed

lemma set_state_effect:
  assumes ok: "visible_ok vx" and r: "visible_set_state k st why bs vx = (out, vx')"
  shows "visible_effect vx vx'"
proof (cases "visible_require k vx")
  case (Inl e)
  with r show ?thesis by (auto simp: visible_set_state_def intro: visible_effect.intros)
next
  case (Inr e)
  note e = visible_okD(3) [OF ok Inr]
  let ?new = "\<lparr>ve_request = ve_request e, ve_state = st, ve_version = ve_version e, ve_blocker_reason = why, ve_restore_bundle_ids = bs\<rparr>"
  show ?thesis
  proof (cases "visible_entry_post_init ?new")
    case (Inl x)
    with r Inr show ?thesis by (auto simp: visible_set_state_def intro: visible_effect.intros)
  next
    case f: (Inr f)
    show ?thesis
    proof (cases "f = e")
      case True
      with r Inr f show ?thesis by (auto simp: visible_set_state_def intro: visible_effect.intros)
    next
      case False
      have "with_version ((ve_version e)\<lparr>lv_request_generation := vi_generation vx + 1\<rparr>) (vx\<lparr>vi_generation := vi_generation vx + 1\<rparr>)
          (\<lambda>version. visible_replace f (f\<lparr>ve_version := version\<rparr>) (vx\<lparr>vi_generation := vi_generation vx + 1\<rparr>)) = (out, vx')"
        using r Inr f False by (simp add: visible_set_state_def next_generation_def)
      then show ?thesis
        by (rule versioned_replace_effect) (use e entry_idem(2) [OF f] in \<open>simp_all add: visible_entry_ok_def\<close>)
    qed
  qed
qed

lemma update_request_effect:
  assumes ok: "visible_ok vx" and q: "admission_request_post_init r = Inr r" and r: "visible_update_request r p vx = (out, vx')"
  shows "visible_effect vx vx'"
proof (cases "visible_require (ar_request_id r) vx")
  case (Inl e)
  with r show ?thesis by (auto simp: visible_update_request_def intro: visible_effect.intros)
next
  case (Inr e)
  note e = visible_okD(3) [OF ok Inr]
  show ?thesis
  proof (cases "request_identity (ve_request e) \<noteq> request_identity r \<or> (ve_request e = r \<and> \<not> p)")
    case True
    with r Inr show ?thesis by (auto simp: visible_update_request_def intro: visible_effect.intros split: if_splits)
  next
    case False
    let ?v = "(ve_version e)\<lparr>lv_request_generation := vi_generation vx + 1,
      lv_prompt_generation := (if p then vi_generation vx + 1 else lv_prompt_generation (ve_version e))\<rparr>"
    have "with_version ?v (vx\<lparr>vi_generation := vi_generation vx + 1\<rparr>)
        (\<lambda>version. visible_replace e ((e\<lparr>ve_request := r\<rparr>)\<lparr>ve_version := version\<rparr>) (vx\<lparr>vi_generation := vi_generation vx + 1\<rparr>)) = (out, vx')"
      using r Inr False by (auto simp: visible_update_request_def next_generation_def Let_def split: if_splits)
    then show ?thesis by (rule versioned_replace_effect) (use e q in \<open>simp_all add: visible_entry_ok_def\<close>)
  qed
qed

lemma observe_prefix_effect:
  assumes ok: "visible_ok vx" and r: "visible_observe_prefix k n b vx = (out, vx')"
  shows "visible_effect vx vx'"
proof (cases "n < 0 \<or> (\<exists>x. visible_require k vx = Inl x)")
  case True
  with r show ?thesis by (auto simp: visible_observe_prefix_def intro: visible_effect.intros split: if_splits)
next
  case False
  then obtain e where e: "visible_require k vx = Inr e" and n: "\<not> n < 0" by (cases "visible_require k vx") auto
  note eok = visible_okD(3) [OF ok e]
  let ?r = "(ve_request e)\<lparr>ar_uncached_prompt_tokens := n\<rparr>"
  show ?thesis
  proof (cases "admission_request_post_init ?r")
    case (Inl x)
    with r e n show ?thesis by (auto simp: visible_observe_prefix_def Let_def intro: visible_effect.intros)
  next
    case (Inr q)
    then have q: "admission_request_post_init ?r = Inr ?r" using request_idem by blast
    show ?thesis
    proof (cases "?r = ve_request e \<and> bundle_tuple b = lv_bundle_generations (ve_version e)")
      case True
      with r e n q show ?thesis by (auto simp: visible_observe_prefix_def Let_def intro: visible_effect.intros)
    next
      case False
      let ?v = "(ve_version e)\<lparr>lv_request_generation := vi_generation vx + 1, lv_prefix_generation := vi_generation vx + 1,
        lv_bundle_generations := bundle_tuple b\<rparr>"
      have "with_version ?v (vx\<lparr>vi_generation := vi_generation vx + 1\<rparr>)
          (\<lambda>version. visible_replace e ((e\<lparr>ve_request := ?r\<rparr>)\<lparr>ve_version := version\<rparr>) (vx\<lparr>vi_generation := vi_generation vx + 1\<rparr>)) = (out, vx')"
        using r e n q False by (auto simp: visible_observe_prefix_def next_generation_def Let_def split: if_splits)
      then show ?thesis by (rule versioned_replace_effect) (use eok q in \<open>simp_all add: visible_entry_ok_def\<close>)
    qed
  qed
qed

lemma transition_effect:
  assumes ok: "visible_ok vx" and r: "set_transition_generation k n vx = (out, vx')"
  shows "visible_effect vx vx'"
proof (cases "n < 0 \<or> (\<exists>x. visible_require k vx = Inl x)")
  case True
  with r show ?thesis by (auto simp: set_transition_generation_def intro: visible_effect.intros split: if_splits)
next
  case False
  then obtain e where e: "visible_require k vx = Inr e" and n: "\<not> n < 0" by (cases "visible_require k vx") auto
  note eok = visible_okD(3) [OF ok e]
  show ?thesis
  proof (cases "lv_transition_generation (ve_version e) = n")
    case True
    with r e n show ?thesis by (auto simp: set_transition_generation_def intro: visible_effect.intros)
  next
    case False
    have "with_version ((ve_version e)\<lparr>lv_request_generation := vi_generation vx + 1, lv_transition_generation := n\<rparr>)
        (vx\<lparr>vi_generation := vi_generation vx + 1\<rparr>)
        (\<lambda>version. visible_replace e (e\<lparr>ve_version := version\<rparr>) (vx\<lparr>vi_generation := vi_generation vx + 1\<rparr>)) = (out, vx')"
      using r e n False by (simp add: set_transition_generation_def next_generation_def)
    then show ?thesis by (rule versioned_replace_effect) (use eok in \<open>simp_all add: visible_entry_ok_def\<close>)
  qed
qed

lemma visible_step_effect:
  assumes "visible_step vx vx'" and ok: "visible_ok vx"
  shows "visible_effect vx vx'"
  using assms(1)
proof cases
  case (cancel k old)
  show ?thesis
  proof (cases "map_of (vi_entries vx) k")
    case None
    with cancel show ?thesis by (auto simp: visible_cancel_def intro: visible_effect.intros)
  next
    case (Some e)
    with cancel have "vx' = vx\<lparr>vi_entries := AList.delete k (vi_entries vx), vi_generation := vi_generation vx + 1,
      vi_revision := vi_revision vx + 1\<rparr>" by (simp add: visible_cancel_def next_generation_def)
    then show ?thesis using visible_effect.removed by simp
  qed
qed (use ok in \<open>auto simp: set_wait_restore_def set_policy_blocked_def set_visible_def
      intro: register_effect update_request_effect observe_prefix_effect transition_effect set_state_effect\<close>)

section \<open>Generations are never reused\<close>

lemma effect_ok:
  assumes "visible_effect vx vx'" and "visible_ok vx"
  shows "visible_ok vx'"
  using assms
proof cases
  case (stored k e)
  then show ?thesis using assms(2) by (auto simp: visible_ok_def dict_simps split: if_splits intro: add_increasing2)
qed (use assms(2) in \<open>auto simp: visible_ok_def dict_simps split: if_splits intro: add_increasing2\<close>)

interpretation visible: invariant_machine visible_step visible_ok
  by unfold_locales (blast intro: effect_ok visible_step_effect)

text \<open>An entry of a later index is an old one or carries a generation that was not drawn before.\<close>

definition entries_newer :: "visible_index \<Rightarrow> visible_index \<Rightarrow> bool" where
  "entries_newer vx vx' \<longleftrightarrow> vi_generation vx \<le> vi_generation vx' \<and>
     (\<forall>k e. map_of (vi_entries vx') k = Some e \<longrightarrow>
        map_of (vi_entries vx) k = Some e \<or> vi_generation vx < lv_request_generation (ve_version e))"

lemma effect_newer: "visible_effect vx vx' \<Longrightarrow> entries_newer vx vx'"
  by (induction rule: visible_effect.induct) (auto simp: entries_newer_def dict_simps)

lemma entries_newer_trans: "entries_newer a b \<Longrightarrow> entries_newer b c \<Longrightarrow> entries_newer a c"
  unfolding entries_newer_def by (meson order_trans order.strict_trans1)

lemma run_newer:
  assumes "visible_step\<^sup>*\<^sup>* vx vx'" and "visible_ok vx"
  shows "entries_newer vx vx'"
  using assms(1)
proof (induction rule: rtranclp_induct)
  case base
  then show ?case by (simp add: entries_newer_def)
next
  case (step u w)
  have "visible_ok u" by (rule visible.run_inv [OF step.hyps(1) assms(2)])
  then have "entries_newer u w" by (intro effect_newer visible_step_effect [OF step.hyps(2)])
  then show ?case by (rule entries_newer_trans [OF step.IH])
qed

lemma visible_init_ok: "visible_ok visible_init"
  by (simp add: visible_ok_def visible_init_def)

lemma same_generation_same_entry:
  assumes "visible_step\<^sup>*\<^sup>* vx vx'" and ok: "visible_ok vx" and "map_of (vi_entries vx) k = Some e"
    and "map_of (vi_entries vx') k = Some f" and "lv_request_generation (ve_version f) = lv_request_generation (ve_version e)"
  shows "f = e"
proof -
  have "lv_request_generation (ve_version e) \<le> vi_generation vx" by (rule visible_okD(2) [OF ok assms(3)])
  then have "map_of (vi_entries vx) k = Some f"
    using run_newer [OF assms(1) ok] assms(4,5) unfolding entries_newer_def by fastforce
  with assms(3) show ?thesis by simp
qed

section \<open>What the compiler puts on a ticket\<close>

definition ticket_for :: "(string, visible_entry) dict \<Rightarrow> int \<Rightarrow> admission_ticket \<Rightarrow> visible_entry \<Rightarrow> bool" where
  "ticket_for entries epoch t e \<longleftrightarrow> map_of entries (tk_request_id t) = Some e \<and> ve_state e = VISIBLE_PENDING \<and>
     tk_epoch t = epoch \<and> tk_version t = ve_version e \<and> tk_context_epoch t = ar_context_epoch (ve_request e)"

lemma compile_one_tickets:
  assumes "compile_one (epoch, now, source, reason) entries budget credits r st = Inr st'"
    and "\<forall>t \<in> set (cs_tickets st). \<exists>e. ticket_for entries epoch t e"
  shows "\<forall>t \<in> set (cs_tickets st'). \<exists>e. ticket_for entries epoch t e"
proof (cases "map_of entries r")
  case None
  with assms show ?thesis by (auto simp: compile_one_def skip_request_def)
next
  case (Some e)
  from assms(1) consider "cs_tickets st' = cs_tickets st"
    | t where "cs_tickets st' = cs_tickets st @ [t]" "tk_request_id t = r" "tk_epoch t = epoch"
      "tk_version t = ve_version e" "tk_context_epoch t = ar_context_epoch (ve_request e)" "ve_state e = VISIBLE_PENDING"
    by (auto simp: compile_one_def Some skip_request_def Let_def dest!: ticket_idem split: if_splits)
  then show ?thesis
  proof cases
    case 1
    with assms(2) show ?thesis by simp
  next
    case (2 t)
    then have "ticket_for entries epoch t e" using Some by (simp add: ticket_for_def)
    with 2(1) assms(2) show ?thesis by auto
  qed
qed

lemma compile_loop_tickets:
  "compile_loop (epoch, now, source, reason) entries budget credits rs st = Inr st' \<Longrightarrow>
   \<forall>t \<in> set (cs_tickets st). \<exists>e. ticket_for entries epoch t e \<Longrightarrow>
   \<forall>t \<in> set (cs_tickets st'). \<exists>e. ticket_for entries epoch t e"
proof (induction rs arbitrary: st)
  case (Cons r rs)
  show ?case
  proof (cases "cb_max_candidates budget \<le> cs_scanned st")
    case True
    with Cons.prems show ?thesis by simp
  next
    case False
    with Cons.prems(1) obtain st1 where st1: "compile_one (epoch, now, source, reason) entries budget credits r
        (st\<lparr>cs_scanned := cs_scanned st + 1\<rparr>) = Inr st1"
      "compile_loop (epoch, now, source, reason) entries budget credits rs st1 = Inr st'" by auto
    have "\<forall>t \<in> set (cs_tickets st1). \<exists>e. ticket_for entries epoch t e"
      by (rule compile_one_tickets [OF st1(1)]) (use Cons.prems(2) in simp)
    then show ?thesis by (rule Cons.IH [OF st1(2)])
  qed
qed simp

lemma compile_tickets_from_entries:
  assumes "compile_tickets epoch now ordered entries budget source reason credits = Inr x" and "t \<in> set (te_tickets x)"
  obtains e where "ticket_for entries epoch t e" and "te_epoch x = epoch"
proof -
  from assms(1) obtain st where st: "compile_loop (epoch, now, source, reason) entries budget (case credits of None \<Rightarrow> [] | Some d \<Rightarrow> d) ordered
      \<lparr>cs_tickets = [], cs_skipped = [], cs_remaining_tokens = cb_max_prefill_tokens budget,
       cs_remaining_hbm = bounded_hbm_bytes budget, cs_scanned = 0\<rparr> = Inr st"
    "te_tickets x = cs_tickets st" "te_epoch x = epoch"
    unfolding compile_tickets_def Let_def guard_Inr rbind_eq_Inr ticket_epoch_post_init_def by auto
  from compile_loop_tickets [OF st(1)] st assms(2) that show thesis by auto
qed

section \<open>Properties of tickets\<close>

lemma validate_ticket_iff:
  "tv_valid (validate_ticket t n b vx) \<longleftrightarrow>
   tk_epoch t = n \<and> (\<exists>e. map_of (vi_entries vx) (tk_request_id t) = Some e \<and> ve_state e = VISIBLE_PENDING \<and>
      tk_context_epoch t = ar_context_epoch (ve_request e) \<and> version_fields (tk_version t) = version_fields (ve_version e) \<and>
      (\<forall>(x, g) \<in> set (lv_bundle_generations (tk_version t)).
        map_of (case b of None \<Rightarrow> lv_bundle_generations (ve_version e) | Some d \<Rightarrow> sort d) x = Some g))"
  by (cases "map_of (vi_entries vx) (tk_request_id t)"; cases b)
    (auto simp: validate_ticket_def Let_def version_fields_def bundle_tuple_def split: prod.splits)

lemma bundles_of_sort: "dict_ok d \<Longrightarrow> map_of (sort d) = map_of d" for d :: "(string, string) dict"
  by (rule map_of_inject_set [THEN iffD2]) (simp_all add: distinct_map)

text \<open>C15. A ticket is good exactly as long as nothing about its request changed. Compile tickets from a reachable index
  and let any operations follow, failing ones included: the ticket is valid if and only if it is presented in
  its own epoch, the request's entry is the very entry it was compiled from, and the bundle generations observed
  by the caller, if it gives any, still include those of the ticket. In particular a request that was cancelled
  and registered again with the same data does not revive its old ticket.\<close>

theorem ticket_valid_iff_unchanged:
  assumes "visible_step\<^sup>*\<^sup>* visible_init vx"
    and "compile_tickets epoch now ordered (vi_entries vx) budget source reason credits = Inr x"
    and "t \<in> set (te_tickets x)" and "visible_step\<^sup>*\<^sup>* vx vx'" and "\<forall>d. b = Some d \<longrightarrow> dict_ok d"
  shows "tv_valid (validate_ticket t n b vx') \<longleftrightarrow>
    n = epoch \<and> visible_get (tk_request_id t) vx' = visible_get (tk_request_id t) vx \<and>
    (\<forall>d. b = Some d \<longrightarrow> set (lv_bundle_generations (tk_version t)) \<subseteq> set d)"
proof -
  have ok: "visible_ok vx" by (rule visible.run_inv [OF assms(1) visible_init_ok])
  obtain e where "ticket_for (vi_entries vx) epoch t e" by (rule compile_tickets_from_entries [OF assms(2,3)])
  then have e: "map_of (vi_entries vx) (tk_request_id t) = Some e" "ve_state e = VISIBLE_PENDING" "tk_epoch t = epoch"
    "tk_version t = ve_version e" "tk_context_epoch t = ar_context_epoch (ve_request e)"
    by (simp_all add: ticket_for_def)
  have d: "dict_ok (lv_bundle_generations (ve_version e))"
    using visible_okD(1) [OF ok e(1)] version_idem(3) by (auto simp: visible_entry_ok_def)
  have bundles: "(\<forall>(y, g) \<in> set (lv_bundle_generations (ve_version e)).
      map_of (case b of None \<Rightarrow> lv_bundle_generations (ve_version e) | Some d \<Rightarrow> sort d) y = Some g) \<longleftrightarrow>
    (\<forall>d. b = Some d \<longrightarrow> set (lv_bundle_generations (ve_version e)) \<subseteq> set d)"
    using d assms(5) by (cases b) (auto simp: bundles_of_sort)
  have same: "f = e"
    if "map_of (vi_entries vx') (tk_request_id t) = Some f" "version_fields (ve_version e) = version_fields (ve_version f)" for f
    by (rule same_generation_same_entry [OF assms(4) ok e(1) that(1)]) (use that(2) in \<open>simp add: version_fields_def\<close>)
  let ?cur = "map_of (vi_entries vx') (tk_request_id t)"
  show ?thesis
  proof (cases "?cur = Some e")
    case True
    then show ?thesis unfolding validate_ticket_iff visible_get_def e(3,4,5) e(1) True using e(2) bundles by auto
  next
    case False
    then have "\<not> tv_valid (validate_ticket t n b vx')" unfolding validate_ticket_iff e(4) using same by blast
    with False show ?thesis by (simp add: visible_get_def e(1))
  qed
qed

section \<open>The compiler is greedy within its budgets\<close>

definition ticket_cost :: "admission_ticket \<Rightarrow> int" where
  "ticket_cost t = tk_estimated_incremental_bytes t - tk_reservation_credit_bytes t"

text \<open>The bytes a request would take from the budget, after its reservation credit.\<close>

definition entry_cost :: "(string, int) dict \<Rightarrow> string \<Rightarrow> visible_entry \<Rightarrow> int" where
  "entry_cost credits r e =
     (let required = estimated_incremental_bytes (ve_request e) in required - min required (dict_get credits r 0))"

definition no_room :: "compile_budget \<Rightarrow> (string, int) dict \<Rightarrow> string \<Rightarrow> visible_entry \<Rightarrow> nat \<Rightarrow> int \<Rightarrow> int \<Rightarrow> bool" where
  "no_room budget credits r e n tokens hbm \<longleftrightarrow> cb_max_requests budget \<le> int n \<or>
     (0 < ar_uncached_prompt_tokens (ve_request e) \<and> tokens \<le> 0) \<or> hbm < entry_cost credits r e"

lemma no_room_mono:
  "no_room budget credits r e n tokens hbm \<Longrightarrow> n \<le> n' \<Longrightarrow> tokens' \<le> tokens \<Longrightarrow> hbm' \<le> hbm \<Longrightarrow>
   no_room budget credits r e n' tokens' hbm'"
  by (auto simp: no_room_def)

definition compile_inv ::
  "(string, visible_entry) dict \<Rightarrow> compile_budget \<Rightarrow> (string, int) dict \<Rightarrow> string list \<Rightarrow> compile_state \<Rightarrow> bool" where
  "compile_inv entries budget credits seen st \<longleftrightarrow>
     map tk_request_id (cs_tickets st) = filter (\<lambda>r. r \<notin> fst ` set (cs_skipped st)) seen \<and>
     map tk_rank (cs_tickets st) = map int [0..<length (cs_tickets st)] \<and>
     fst ` set (cs_skipped st) \<subseteq> set seen \<and> cs_scanned st = int (length seen) \<and>
     int (length (cs_tickets st)) \<le> cb_max_requests budget \<and>
     0 \<le> cs_remaining_tokens st \<and>
     cs_remaining_tokens st + sum_list (map tk_estimated_prefill_tokens (cs_tickets st)) = cb_max_prefill_tokens budget \<and>
     0 \<le> cs_remaining_hbm st \<and>
     cs_remaining_hbm st + sum_list (map ticket_cost (cs_tickets st)) = bounded_hbm_bytes budget \<and>
     (\<forall>r e. r \<in> fst ` set (cs_skipped st) \<and> map_of entries r = Some e \<and> ve_state e = VISIBLE_PENDING \<longrightarrow>
        no_room budget credits r e (length (cs_tickets st)) (cs_remaining_tokens st) (cs_remaining_hbm st))"

lemma compile_inv_skip:
  assumes inv: "compile_inv entries budget credits seen st" and new: "r \<notin> set seen"
    and room: "\<And>e. map_of entries r = Some e \<Longrightarrow> ve_state e = VISIBLE_PENDING \<Longrightarrow>
      no_room budget credits r e (length (cs_tickets st)) (cs_remaining_tokens st) (cs_remaining_hbm st)"
  shows "compile_inv entries budget credits (seen @ [r]) (skip_request r why (st\<lparr>cs_scanned := cs_scanned st + 1\<rparr>))"
proof -
  have "filter (\<lambda>x. x \<notin> insert r (fst ` set (cs_skipped st))) seen = filter (\<lambda>x. x \<notin> fst ` set (cs_skipped st)) seen"
    by (rule filter_cong) (use new in auto)
  moreover have "no_room budget credits q e (length (cs_tickets st)) (cs_remaining_tokens st) (cs_remaining_hbm st)"
    if "q \<in> insert r (fst ` set (cs_skipped st)) \<and> map_of entries q = Some e \<and> ve_state e = VISIBLE_PENDING" for q e
    using that inv room unfolding compile_inv_def by blast
  ultimately show ?thesis using inv unfolding compile_inv_def by (simp add: skip_request_def subset_insertI2)
qed

lemma compile_inv_issue:
  assumes inv: "compile_inv entries budget credits seen st" and new: "r \<notin> set seen"
    and t: "tk_request_id t = r" "tk_rank t = int (length (cs_tickets st))" "int (length (cs_tickets st)) < cb_max_requests budget"
    and p: "0 \<le> tk_estimated_prefill_tokens t" "tk_estimated_prefill_tokens t \<le> cs_remaining_tokens st"
    and c: "0 \<le> ticket_cost t" "ticket_cost t \<le> cs_remaining_hbm st"
  shows "compile_inv entries budget credits (seen @ [r])
    (st\<lparr>cs_scanned := cs_scanned st + 1, cs_tickets := cs_tickets st @ [t],
        cs_remaining_tokens := cs_remaining_tokens st - tk_estimated_prefill_tokens t,
        cs_remaining_hbm := cs_remaining_hbm st - ticket_cost t\<rparr>)"
proof -
  have "r \<notin> fst ` set (cs_skipped st)" using inv new by (auto simp: compile_inv_def)
  moreover have "no_room budget credits q e (Suc (length (cs_tickets st))) (cs_remaining_tokens st - tk_estimated_prefill_tokens t)
      (cs_remaining_hbm st - ticket_cost t)"
    if "q \<in> fst ` set (cs_skipped st)" "map_of entries q = Some e" "ve_state e = VISIBLE_PENDING" for q e
    by (rule no_room_mono [of _ _ _ _ "length (cs_tickets st)" "cs_remaining_tokens st" "cs_remaining_hbm st"])
      (use inv that p c in \<open>auto simp: compile_inv_def\<close>)
  ultimately show ?thesis using inv t p c unfolding compile_inv_def by auto
qed

lemma request_validD:
  assumes "admission_request_post_init r = Inr r"
  shows "ar_request_id r \<noteq> []" "ar_workflow_id r \<noteq> []" "ar_invocation_id r \<noteq> []" "ar_context_id r \<noteq> []"
    "0 \<le> ar_context_epoch r" "0 \<le> ar_uncached_prompt_tokens r"
  using assms unfolding admission_request_post_init_def guard_Inr by (simp_all add: not_less)

lemma compile_one_step:
  assumes inv: "compile_inv entries budget credits seen st" and new: "r \<notin> set seen"
    and ok: "\<And>e. map_of entries r = Some e \<Longrightarrow> visible_entry_ok r e"
    and cr: "0 \<le> dict_get credits r 0"
    and args: "0 \<le> epoch" "0 \<le> now" "source \<noteq> []" "reason \<noteq> []"
  shows "\<exists>st'. compile_one (epoch, now, source, reason) entries budget credits r (st\<lparr>cs_scanned := cs_scanned st + 1\<rparr>) = Inr st' \<and>
    compile_inv entries budget credits (seen @ [r]) st'"
proof (cases "map_of entries r")
  case None
  then show ?thesis using compile_inv_skip [OF inv new] by (simp add: compile_one_def)
next
  case (Some e)
  let ?room = "no_room budget credits r e (length (cs_tickets st)) (cs_remaining_tokens st) (cs_remaining_hbm st)"
  show ?thesis
  proof (cases "ve_state e = VISIBLE_PENDING \<and> \<not> ?room")
    case False
    then have "\<exists>why. compile_one (epoch, now, source, reason) entries budget credits r (st\<lparr>cs_scanned := cs_scanned st + 1\<rparr>) =
        Inr (skip_request r why (st\<lparr>cs_scanned := cs_scanned st + 1\<rparr>))"
      using Some by (auto simp: compile_one_def no_room_def entry_cost_def Let_def)
    moreover have "compile_inv entries budget credits (seen @ [r]) (skip_request r why (st\<lparr>cs_scanned := cs_scanned st + 1\<rparr>))" for why
      by (rule compile_inv_skip [OF inv new]) (use False Some in auto)
    ultimately show ?thesis by blast
  next
    case True
    let ?q = "ve_request e" and ?req = "estimated_incremental_bytes (ve_request e)"
    let ?t = "\<lparr>tk_epoch = epoch, tk_rank = int (length (cs_tickets st)), tk_request_id = r,
      tk_workflow_id = ar_workflow_id ?q, tk_invocation_id = ar_invocation_id ?q, tk_context_id = ar_context_id ?q,
      tk_context_epoch = ar_context_epoch ?q, tk_version = ve_version e,
      tk_estimated_prefill_tokens = min (ar_uncached_prompt_tokens ?q) (cs_remaining_tokens st),
      tk_estimated_incremental_bytes = ?req, tk_issued_ts_ms = now, tk_source = source, tk_reason = reason,
      tk_reservation_credit_bytes = min ?req (dict_get credits r 0)\<rparr>"
    have q: "admission_request_post_init ?q = Inr ?q" "ar_request_id ?q = r" using ok [OF Some] by (simp_all add: visible_entry_ok_def)
    note q' = request_validD [OF q(1), unfolded q(2)]
    have tok: "0 \<le> cs_remaining_tokens st" using inv by (simp add: compile_inv_def)
    have req: "0 \<le> ?req" by (simp add: estimated_incremental_bytes_def)
    have "ticket_post_init ?t = Inr ?t"
      unfolding ticket_post_init_def guard_Inr using q' args tok req cr by (simp add: not_less)
    then have one: "compile_one (epoch, now, source, reason) entries budget credits r (st\<lparr>cs_scanned := cs_scanned st + 1\<rparr>) =
        Inr (st\<lparr>cs_scanned := cs_scanned st + 1, cs_tickets := cs_tickets st @ [?t],
          cs_remaining_tokens := cs_remaining_tokens st - tk_estimated_prefill_tokens ?t,
          cs_remaining_hbm := cs_remaining_hbm st - ticket_cost ?t\<rparr>)"
      using True Some by (auto simp: compile_one_def no_room_def entry_cost_def Let_def ticket_cost_def)
    have "compile_inv entries budget credits (seen @ [r]) (st\<lparr>cs_scanned := cs_scanned st + 1, cs_tickets := cs_tickets st @ [?t],
          cs_remaining_tokens := cs_remaining_tokens st - tk_estimated_prefill_tokens ?t,
          cs_remaining_hbm := cs_remaining_hbm st - ticket_cost ?t\<rparr>)"
      by (rule compile_inv_issue [OF inv new])
        (use True q' tok in \<open>auto simp: no_room_def entry_cost_def Let_def ticket_cost_def\<close>)
    with one show ?thesis by blast
  qed
qed

lemma compile_loop_inv:
  assumes "compile_inv entries budget credits seen st" and "distinct (seen @ rs)" and "int (length seen) \<le> cb_max_candidates budget"
    and ok: "\<And>r e. map_of entries r = Some e \<Longrightarrow> visible_entry_ok r e" and cr: "\<And>r. 0 \<le> dict_get credits r 0"
    and args: "0 \<le> epoch" "0 \<le> now" "source \<noteq> []" "reason \<noteq> []"
  shows "\<exists>st'. compile_loop (epoch, now, source, reason) entries budget credits rs st = Inr st' \<and>
    compile_inv entries budget credits (take (nat (cb_max_candidates budget)) (seen @ rs)) st'"
  using assms(1-3)
proof (induction rs arbitrary: seen st)
  case (Cons r rs)
  have n: "cs_scanned st = int (length seen)" using Cons.prems(1) by (simp add: compile_inv_def)
  show ?case
  proof (cases "cb_max_candidates budget \<le> cs_scanned st")
    case True
    then have "nat (cb_max_candidates budget) = length seen" using n Cons.prems(3) by linarith
    with True Cons.prems(1) show ?thesis by simp
  next
    case False
    have "r \<notin> set seen" using Cons.prems(2) by simp
    from compile_one_step [OF Cons.prems(1) this ok cr args] obtain st1 where
      st1: "compile_one (epoch, now, source, reason) entries budget credits r (st\<lparr>cs_scanned := cs_scanned st + 1\<rparr>) = Inr st1"
        "compile_inv entries budget credits (seen @ [r]) st1" by blast
    have "\<exists>st'. compile_loop (epoch, now, source, reason) entries budget credits rs st1 = Inr st' \<and>
        compile_inv entries budget credits (take (nat (cb_max_candidates budget)) ((seen @ [r]) @ rs)) st'"
      by (rule Cons.IH [OF st1(2)]) (use Cons.prems False n in auto)
    with False st1(1) show ?thesis by simp
  qed
qed simp

text \<open>C16. The ticket compiler is greedy and keeps its budgets. On a reachable index, with a valid budget and valid
  arguments, it returns. It scans the given order up to the candidate limit; the tickets go, ranked from zero, to
  the scanned requests it did not skip, in that order. There are at most the allowed number of tickets, their
  prefill tokens and their bytes beyond the reservation credits stay within the budgets. A visible request that
  was skipped does not fit beside the tickets: the slots are used up, or it needs prefill and the tokens are used
  up, or its bytes would exceed the byte budget.\<close>

theorem compile_greedy_within_budgets:
  assumes "visible_step\<^sup>*\<^sup>* visible_init vx" and "compile_budget_post_init budget = Inr budget"
    and "0 \<le> epoch" and "0 \<le> now" and "source \<noteq> []" and "reason \<noteq> []" and "distinct ordered"
    and "\<forall>(r, v) \<in> set credits. r \<noteq> [] \<and> 0 \<le> v"
  shows "\<exists>x. compile_tickets epoch now ordered (vi_entries vx) budget source reason (Some credits) = Inr x \<and>
    te_scanned_count x = min (cb_max_candidates budget) (int (length ordered)) \<and>
    map tk_request_id (te_tickets x) =
      filter (\<lambda>r. r \<notin> fst ` set (te_skipped x)) (take (nat (cb_max_candidates budget)) ordered) \<and>
    map tk_rank (te_tickets x) = map int [0..<length (te_tickets x)] \<and>
    int (length (te_tickets x)) \<le> cb_max_requests budget \<and>
    sum_list (map tk_estimated_prefill_tokens (te_tickets x)) \<le> cb_max_prefill_tokens budget \<and>
    sum_list (map ticket_cost (te_tickets x)) \<le> bounded_hbm_bytes budget \<and>
    (\<forall>r e. r \<in> fst ` set (te_skipped x) \<and> visible_get r vx = Some e \<and> ve_state e = VISIBLE_PENDING \<longrightarrow>
       int (length (te_tickets x)) = cb_max_requests budget \<or>
       (0 < ar_uncached_prompt_tokens (ve_request e) \<and>
        sum_list (map tk_estimated_prefill_tokens (te_tickets x)) = cb_max_prefill_tokens budget) \<or>
       bounded_hbm_bytes budget < sum_list (map ticket_cost (te_tickets x)) + entry_cost credits r e)"
proof -
  let ?st = "\<lparr>cs_tickets = [], cs_skipped = [], cs_remaining_tokens = cb_max_prefill_tokens budget,
    cs_remaining_hbm = bounded_hbm_bytes budget, cs_scanned = 0\<rparr>"
  have ok: "visible_ok vx" by (rule visible.run_inv [OF assms(1) visible_init_ok])
  have b: "0 \<le> cb_max_prefill_tokens budget" "0 \<le> cb_max_requests budget" "0 \<le> cb_max_candidates budget"
    using assms(2) unfolding compile_budget_post_init_def guard_Inr by (simp_all add: not_less)
  have cr: "0 \<le> dict_get credits r 0" for r
    using assms(8) by (auto simp: dict_get_def split: option.split dest!: map_of_SomeD)
  have "compile_inv (vi_entries vx) budget credits [] ?st" using b by (simp add: compile_inv_def bounded_hbm_bytes_def)
  from compile_loop_inv [OF this _ _ visible_okD(1) [OF ok] cr assms(3-6), of ordered] assms(7) b(3) obtain st where
    st: "compile_loop (epoch, now, source, reason) (vi_entries vx) budget credits ordered ?st = Inr st"
    and inv: "compile_inv (vi_entries vx) budget credits (take (nat (cb_max_candidates budget)) ordered) st" by auto
  let ?x = "\<lparr>te_epoch = epoch, te_tickets = cs_tickets st, te_skipped = cs_skipped st, te_scanned_count = cs_scanned st, te_source = source\<rparr>"
  have ids: "distinct (map tk_request_id (cs_tickets st))" using inv assms(7) by (simp add: compile_inv_def)
  have ep: "\<forall>t \<in> set (cs_tickets st). tk_epoch t = epoch"
    using compile_loop_tickets [OF st] by (auto simp: ticket_for_def)
  have n: "cs_scanned st = min (cb_max_candidates budget) (int (length ordered))"
    using inv b(3) by (simp add: compile_inv_def)
  have "ticket_epoch_post_init ?x = Inr ?x" unfolding ticket_epoch_post_init_def guard_Inr using ids ep n b(3) assms(3,5) by simp
  then have "compile_tickets epoch now ordered (vi_entries vx) budget source reason (Some credits) = Inr ?x"
    unfolding compile_tickets_def Let_def guard_Inr using st assms(3-8) by (auto simp: not_less)
  moreover have "int (length (cs_tickets st)) = cb_max_requests budget \<or>
       (0 < ar_uncached_prompt_tokens (ve_request e) \<and>
        sum_list (map tk_estimated_prefill_tokens (cs_tickets st)) = cb_max_prefill_tokens budget) \<or>
       bounded_hbm_bytes budget < sum_list (map ticket_cost (cs_tickets st)) + entry_cost credits r e"
    if "r \<in> fst ` set (cs_skipped st) \<and> visible_get r vx = Some e \<and> ve_state e = VISIBLE_PENDING" for r e
  proof -
    have "no_room budget credits r e (length (cs_tickets st)) (cs_remaining_tokens st) (cs_remaining_hbm st)"
      using inv that unfolding compile_inv_def visible_get_def by blast
    then show ?thesis using inv unfolding compile_inv_def no_room_def by linarith
  qed
  ultimately show ?thesis using inv n by (intro exI [of _ ?x]) (auto simp: compile_inv_def)
qed

section \<open>A run\<close>

definition demo_request :: admission_request where
  "demo_request = \<lparr>ar_request_id = ''r'', ar_workflow_id = ''w'', ar_invocation_id = ''i'', ar_context_id = ''c'',
     ar_context_epoch = 0, ar_submitted_ts_ms = 0, ar_uncached_prompt_tokens = 6, ar_expected_output_tokens = 2,
     ar_kv_bytes_per_token = 10, ar_fixed_overhead_bytes = 0, ar_prompt_tokens = None\<rparr>"

definition demo_visible :: visible_index where
  "demo_visible = snd (visible_register demo_request 0 None visible_init)"

text \<open>The same request, cancelled and registered again.\<close>

definition demo_again :: visible_index where
  "demo_again = snd (visible_register demo_request 0 None (snd (visible_cancel ''r'' demo_visible)))"

definition demo_budget :: compile_budget where
  "demo_budget = \<lparr>cb_max_prefill_tokens = 4, cb_max_requests = 2, cb_max_candidates = 5, cb_available_hbm_bytes = 90,
     cb_reclaimable_hbm_bytes = 0, cb_protected_hbm_bytes = 0\<rparr>"

lemma demo_request_valid: "admission_request_post_init demo_request = Inr demo_request"
  by (simp add: admission_request_post_init_def demo_request_def)

lemma demo_visible_reached: "visible_step\<^sup>*\<^sup>* visible_init demo_visible"
  by (rule r_into_rtranclp, rule visible_step.register [OF demo_request_valid, of 0 None _ "fst (visible_register demo_request 0 None visible_init)"])
    (simp add: demo_visible_def)

lemma demo_again_reached: "visible_step\<^sup>*\<^sup>* demo_visible demo_again"
proof -
  have "visible_step demo_visible (snd (visible_cancel ''r'' demo_visible))"
    by (rule visible_step.cancel [of "''r''" _ "fst (visible_cancel ''r'' demo_visible)"]) simp
  moreover have "visible_step (snd (visible_cancel ''r'' demo_visible)) demo_again"
    by (rule visible_step.register [OF demo_request_valid, of 0 None _ "fst (visible_register demo_request 0 None (snd (visible_cancel ''r'' demo_visible)))"])
      (simp add: demo_again_def)
  ultimately show ?thesis by simp
qed

definition demo_entry :: "int \<Rightarrow> visible_entry" where
  "demo_entry g = \<lparr>ve_request = demo_request, ve_state = VISIBLE_PENDING, ve_version =
     \<lparr>lv_request_generation = g, lv_prompt_generation = g, lv_prefix_generation = g, lv_transition_generation = 0,
      lv_bundle_generations = []\<rparr>, ve_blocker_reason = None, ve_restore_bundle_ids = []\<rparr>"

lemmas visible_eval = visible_register_def next_generation_def with_version_def bundle_tuple_def
  local_version_post_init_def visible_entry_post_init_def visible_cancel_def dict_in_def

lemma demo_visible_eval: "demo_visible = \<lparr>vi_entries = [(''r'', demo_entry 1)], vi_generation = 1, vi_revision = 1\<rparr>"
  by (simp add: demo_visible_def visible_eval visible_init_def demo_request_def demo_entry_def)

lemma demo_again_eval: "demo_again = \<lparr>vi_entries = [(''r'', demo_entry 3)], vi_generation = 3, vi_revision = 3\<rparr>"
  by (simp add: demo_again_def demo_visible_eval visible_eval demo_request_def demo_entry_def)

definition demo_ticket :: admission_ticket where
  "demo_ticket = \<lparr>tk_epoch = 7, tk_rank = 0, tk_request_id = ''r'', tk_workflow_id = ''w'', tk_invocation_id = ''i'',
     tk_context_id = ''c'', tk_context_epoch = 0, tk_version = ve_version (demo_entry 1), tk_estimated_prefill_tokens = 4,
     tk_estimated_incremental_bytes = 80, tk_issued_ts_ms = 1, tk_source = ''s'', tk_reason = ''x'',
     tk_reservation_credit_bytes = 0\<rparr>"

lemma demo_compile:
  "compile_tickets 7 1 [''r'', ''q''] (vi_entries demo_visible) demo_budget ''s'' ''x'' None =
   Inr \<lparr>te_epoch = 7, te_tickets = [demo_ticket], te_skipped = [(''q'', ''request_missing'')], te_scanned_count = 2, te_source = ''s''\<rparr>"
  by (simp add: compile_tickets_def compile_one_def demo_visible_eval demo_budget_def bounded_hbm_bytes_def skip_request_def
      demo_entry_def demo_request_def estimated_incremental_bytes_def dict_get_def ticket_post_init_def ticket_epoch_post_init_def
      demo_ticket_def)

theorem ticket_valid_iff_unchanged_witness:
  "tv_valid (validate_ticket demo_ticket 7 None demo_visible) \<and> \<not> tv_valid (validate_ticket demo_ticket 8 None demo_visible) \<and>
   \<not> tv_valid (validate_ticket demo_ticket 7 None demo_again)"
proof -
  note v = ticket_valid_iff_unchanged [OF demo_visible_reached demo_compile, of demo_ticket _ None]
  show ?thesis
    using v [of demo_visible 7] v [of demo_visible 8] v [of demo_again 7] demo_again_reached
    by (simp add: visible_get_def demo_ticket_def) (simp add: demo_visible_eval demo_again_eval demo_entry_def)
qed

theorem compile_greedy_within_budgets_witness:
  "\<exists>x. compile_tickets 7 1 [''r'', ''q''] (vi_entries demo_visible) demo_budget ''s'' ''x'' (Some [(''r'', 5)]) = Inr x \<and>
     te_scanned_count x = 2 \<and> sum_list (map ticket_cost (te_tickets x)) \<le> 90"
proof -
  have b: "compile_budget_post_init demo_budget = Inr demo_budget" by (simp add: compile_budget_post_init_def demo_budget_def)
  obtain x where "compile_tickets 7 1 [''r'', ''q''] (vi_entries demo_visible) demo_budget ''s'' ''x'' (Some [(''r'', 5)]) = Inr x"
    "te_scanned_count x = min (cb_max_candidates demo_budget) (int (length [''r'', ''q'']))"
    "sum_list (map ticket_cost (te_tickets x)) \<le> bounded_hbm_bytes demo_budget"
    using compile_greedy_within_budgets [OF demo_visible_reached b, of 7 1 "''s''" "''x''" "[''r'', ''q'']" "[(''r'', 5)]"] by auto
  then show ?thesis by (intro exI [of _ x]) (simp add: demo_budget_def bounded_hbm_bytes_def)
qed

end
