(* ===== verification/Observed_Admission.thy ===== *)
theory Observed_Admission
  imports Admission "HOL-Library.Multiset"
begin

text \<open>
  \<open>policy/admission.py\<close>, \<open>ObservedAdmissionScheduler\<close>: ordering the engine's waiting requests by observed facts and
  bounding how many may become active in one batch and how many bytes they may add.

  The comparison key of a candidate is a tuple whose first component selects its shape; here it is the
  class, the numbers in between as a list of reals, and the request identifier. Keys of one class have lists
  of the same length, so the order is the one of the tuples. \<open>int(x)\<close> of a non-negative number is its floor.
  The watermark is \<open>int(allocatable * ratio)\<close>: the code rounds the product to a float before it takes the
  floor, the model takes the floor of the exact product, so the two watermarks may differ by a rounding error.
\<close>

section \<open>Records\<close>

record observed_candidate =
  oc_request_id :: string
  oc_workflow_id :: string
  oc_invocation_id :: string
  oc_native_index :: int
  oc_causal_rank :: int
  oc_unblock_depth :: int
  oc_frontier_rank :: int
  oc_workflow_fair_rank :: int
  oc_wait_ms :: real
  oc_estimated_incremental_bytes :: int
  oc_starvation :: bool
  oc_policy_eligible :: bool

definition observed_candidate_post_init :: "observed_candidate \<Rightarrow> observed_candidate result" where
  "observed_candidate_post_init c =
     (if [] \<in> {oc_request_id c, oc_workflow_id c, oc_invocation_id c}
      then Inl (ValueError ''observed admission identities must be non-empty'')
      else if Min {oc_native_index c, oc_causal_rank c, oc_unblock_depth c, oc_frontier_rank c, oc_workflow_fair_rank c,
                   oc_estimated_incremental_bytes c} < 0
      then Inl (ValueError ''observed admission counters must be non-negative'')
      else if oc_wait_ms c < 0 then Inl (ValueError ''observed admission wait must be non-negative'')
      else Inr c)"

definition observed_order_key :: "observed_candidate \<Rightarrow> nat \<times> real list \<times> string" where
  "observed_order_key c =
     (let causal = [of_int (oc_causal_rank c), of_int (- oc_unblock_depth c), of_int (oc_frontier_rank c),
                    of_int (oc_workflow_fair_rank c), of_int (oc_estimated_incremental_bytes c)]
      in if \<not> oc_policy_eligible c then (2, [of_int (oc_native_index c)], oc_request_id c)
         else if oc_starvation c then (0, - oc_wait_ms c # causal @ [of_int (oc_native_index c)], oc_request_id c)
         else (1, causal @ [- oc_wait_ms c, of_int (oc_native_index c)], oc_request_id c))"

record observed_snapshot =
  os_hbm_capacity_bytes :: int
  os_reserve_hbm_bytes :: int
  os_native_available_hbm_bytes :: int
  os_native_max_requests :: int
  os_running_request_count :: int
  os_radix_locked_bytes :: int
  os_running_private_bytes :: int

definition observed_snapshot_post_init :: "observed_snapshot \<Rightarrow> observed_snapshot result" where
  "observed_snapshot_post_init s =
     (if os_hbm_capacity_bytes s \<le> 0 then Inl (ValueError ''observed admission HBM capacity must be positive'')
      else if \<not> (0 \<le> os_reserve_hbm_bytes s \<and> os_reserve_hbm_bytes s < os_hbm_capacity_bytes s)
      then Inl (ValueError ''observed admission reserve must be within capacity'')
      else if Min {os_native_available_hbm_bytes s, os_native_max_requests s, os_running_request_count s,
                   os_radix_locked_bytes s, os_running_private_bytes s} < 0
      then Inl (ValueError ''observed admission resources must be non-negative'')
      else Inr s)"

definition active_kv_footprint_bytes :: "observed_snapshot \<Rightarrow> int" where
  "active_kv_footprint_bytes s = os_radix_locked_bytes s + os_running_private_bytes s"

record observed_window =
  ow_ordered_request_ids :: "string list"
  ow_max_new_requests :: int
  ow_active_growth_budget_bytes :: int
  ow_active_kv_budget_bytes :: int
  ow_active_kv_footprint_bytes :: int
  ow_active_kv_headroom_bytes :: int
  ow_radix_locked_bytes :: int
  ow_running_private_bytes :: int
  ow_running_request_count :: int
  ow_mode :: string

definition observed_window_post_init :: "observed_window \<Rightarrow> observed_window result" where
  "observed_window_post_init w =
     (if \<not> distinct (ow_ordered_request_ids w)
      then Inl (ValueError ''observed admission order contains duplicate requests'')
      else if Min {ow_max_new_requests w, ow_active_growth_budget_bytes w, ow_active_kv_budget_bytes w,
                   ow_active_kv_footprint_bytes w, ow_active_kv_headroom_bytes w, ow_radix_locked_bytes w,
                   ow_running_private_bytes w, ow_running_request_count w} < 0
      then Inl (ValueError ''observed admission window values must be non-negative'')
      else if ow_mode w = [] then Inl (ValueError ''observed admission mode must be non-empty'')
      else Inr w)"

definition active_kv_pressure :: "observed_window \<Rightarrow> real" where
  "active_kv_pressure w =
     (if ow_active_kv_budget_bytes w = 0 then (if ow_active_kv_footprint_bytes w \<noteq> 0 then 1 else 0)
      else of_int (ow_active_kv_footprint_bytes w) / of_int (ow_active_kv_budget_bytes w))"

section \<open>The scheduler\<close>

record observed_scheduler =
  ob_active_kv_high_watermark_ratio :: real
  ob_minimum_active_requests :: int

definition observed_scheduler_init :: "real \<Rightarrow> int \<Rightarrow> observed_scheduler result" where
  "observed_scheduler_init ratio minimum =
     (if \<not> (0 < ratio \<and> ratio \<le> 1) then Inl (ValueError ''active KV high watermark must be in (0, 1]'')
      else if minimum < 0 then Inl (ValueError ''minimum active requests must be non-negative'')
      else Inr \<lparr>ob_active_kv_high_watermark_ratio = ratio, ob_minimum_active_requests = minimum\<rparr>)"

text \<open>The mode, the number of new requests and the bytes they may add.\<close>

definition growth_mode :: "int \<Rightarrow> int \<Rightarrow> int \<Rightarrow> int \<Rightarrow> string \<times> int \<times> int" where
  "growth_mode native_slots floor_deficit available headroom =
     (if native_slots = 0 then (''no_native_slot'', 0, 0)
      else if floor_deficit > 0 then (''work_conserving_floor'', min native_slots floor_deficit, available)
      else (if headroom = 0 then ''active_kv_pressure_hold'' else ''active_kv_bounded'',
            native_slots, min available headroom))"

definition observed_decide ::
  "observed_candidate list \<Rightarrow> observed_snapshot \<Rightarrow> observed_scheduler \<Rightarrow> observed_window result" where
  "observed_decide candidates snapshot sch =
     (let ordered = map oc_request_id (sort_key observed_order_key candidates);
          allocatable = max 0 (os_hbm_capacity_bytes snapshot - os_reserve_hbm_bytes snapshot);
          active_budget = \<lfloor>of_int allocatable * ob_active_kv_high_watermark_ratio sch\<rfloor>;
          footprint = active_kv_footprint_bytes snapshot;
          headroom = max 0 (active_budget - footprint);
          native_slots = min (os_native_max_requests snapshot) (int (length ordered));
          floor_deficit = max 0 (ob_minimum_active_requests sch - os_running_request_count snapshot);
          (mode, max_new, growth) =
            growth_mode native_slots floor_deficit (os_native_available_hbm_bytes snapshot) headroom
      in observed_window_post_init
           \<lparr>ow_ordered_request_ids = ordered, ow_max_new_requests = max_new, ow_active_growth_budget_bytes = growth,
            ow_active_kv_budget_bytes = active_budget, ow_active_kv_footprint_bytes = footprint,
            ow_active_kv_headroom_bytes = headroom, ow_radix_locked_bytes = os_radix_locked_bytes snapshot,
            ow_running_private_bytes = os_running_private_bytes snapshot,
            ow_running_request_count = os_running_request_count snapshot, ow_mode = mode\<rparr>)"

section \<open>The window\<close>

text \<open>What the order promises of two candidates, the first ahead of the second.\<close>

definition ahead_ok :: "observed_candidate \<Rightarrow> observed_candidate \<Rightarrow> bool" where
  "ahead_ok a b \<longleftrightarrow> (oc_policy_eligible b \<longrightarrow> oc_policy_eligible a) \<and>
     (oc_policy_eligible b \<and> oc_starvation b \<longrightarrow> oc_starvation a \<and> oc_wait_ms b \<le> oc_wait_ms a) \<and>
     (oc_policy_eligible b \<and> \<not> oc_starvation a \<longrightarrow> oc_causal_rank a \<le> oc_causal_rank b)"

lemma order_key_ahead: "observed_order_key a \<le> observed_order_key b \<Longrightarrow> ahead_ok a b"
  by (auto simp: observed_order_key_def Let_def ahead_ok_def less_eq_prod_def split: if_splits)

lemma sorted_ahead:
  assumes "i < j" and "j < length cs"
  shows "ahead_ok (sort_key observed_order_key cs ! i) (sort_key observed_order_key cs ! j)"
proof (rule order_key_ahead)
  have "sorted (map observed_order_key (sort_key observed_order_key cs))" by simp
  then show "observed_order_key (sort_key observed_order_key cs ! i) \<le> observed_order_key (sort_key observed_order_key cs ! j)"
    using sorted_nth_mono [of "map observed_order_key (sort_key observed_order_key cs)" i j] assms by simp
qed

lemma growth_mode_bounds:
  assumes "0 \<le> slots" and "0 \<le> available" and "0 \<le> headroom"
  obtains mode new growth where "growth_mode slots deficit available headroom = (mode, new, growth)" and "mode \<noteq> []"
    and "0 \<le> new" and "new \<le> slots" and "0 \<le> growth" and "growth \<le> available"
    and "deficit \<le> 0 \<Longrightarrow> growth \<le> headroom"
    and "0 < deficit \<Longrightarrow> 0 < slots \<Longrightarrow> 0 < new \<and> new \<le> deficit \<and> growth = available"
proof (cases "slots = 0")
  case True
  then show thesis by (intro that [of "''no_native_slot''" 0 0]) (use assms in \<open>simp_all add: growth_mode_def\<close>)
next
  case slots: False
  show thesis
  proof (cases "0 < deficit")
    case True
    then show thesis
      by (intro that [of "''work_conserving_floor''" "min slots deficit" available]) (use assms slots in \<open>simp_all add: growth_mode_def\<close>)
  next
    case False
    then show thesis
      by (intro that [of "if headroom = 0 then ''active_kv_pressure_hold'' else ''active_kv_bounded''" slots "min available headroom"])
        (use assms slots in \<open>simp_all add: growth_mode_def\<close>)
  qed
qed

text \<open>C17. The observed scheduler bounds the growth of the active set. For a valid scheduler and snapshot and waiting
  requests with distinct identifiers it returns a window. The window lists each request once; no ineligible request
  is ahead of an eligible one, starving requests come first, the longest waiting ahead, and the others by their
  causal rank. No more requests and bytes are let in than the engine has slots and memory. If the floor of active
  requests is met, the active footprint with the permitted growth does not pass the watermark, unless it is
  already beyond it, and then nothing may grow. Below the floor, a free slot and a waiting request suffice for
  letting requests in, at most up to the floor.\<close>

theorem observed_window_bounded:
  assumes "observed_scheduler_init ratio minimum = Inr sch" and "observed_snapshot_post_init s = Inr s"
    and "distinct (map oc_request_id cs)"
  shows "\<exists>w order. observed_decide cs s sch = Inr w \<and> mset order = mset cs \<and> ow_ordered_request_ids w = map oc_request_id order \<and>
    (\<forall>i j. i < j \<and> j < length order \<longrightarrow> ahead_ok (order ! i) (order ! j)) \<and>
    ow_max_new_requests w \<le> min (os_native_max_requests s) (int (length cs)) \<and>
    ow_active_growth_budget_bytes w \<le> os_native_available_hbm_bytes s \<and>
    (minimum \<le> os_running_request_count s \<longrightarrow>
       active_kv_footprint_bytes s + ow_active_growth_budget_bytes w \<le> max (active_kv_footprint_bytes s) (ow_active_kv_budget_bytes w) \<and>
       real_of_int (ow_active_kv_budget_bytes w) \<le> real_of_int (os_hbm_capacity_bytes s - os_reserve_hbm_bytes s) * ratio) \<and>
    (os_running_request_count s < minimum \<and> 0 < os_native_max_requests s \<and> cs \<noteq> [] \<longrightarrow>
       0 < ow_max_new_requests w \<and> os_running_request_count s + ow_max_new_requests w \<le> minimum \<and>
       ow_active_growth_budget_bytes w = os_native_available_hbm_bytes s)"
proof -
  let ?order = "sort_key observed_order_key cs"
  have sch: "sch = \<lparr>ob_active_kv_high_watermark_ratio = ratio, ob_minimum_active_requests = minimum\<rparr>" "0 < ratio" "ratio \<le> 1" "0 \<le> minimum"
    using assms(1) unfolding observed_scheduler_init_def guard_Inr by (auto simp: not_less)
  have s: "0 \<le> os_reserve_hbm_bytes s" "os_reserve_hbm_bytes s < os_hbm_capacity_bytes s"
    "0 \<le> os_native_available_hbm_bytes s" "0 \<le> os_native_max_requests s" "0 \<le> os_running_request_count s"
    "0 \<le> os_radix_locked_bytes s" "0 \<le> os_running_private_bytes s"
    using assms(2) unfolding observed_snapshot_post_init_def guard_Inr by (auto simp: not_less)
  have "mset (map oc_request_id ?order) = mset (map oc_request_id cs)" by simp
  then have ids: "distinct (map oc_request_id ?order)" using assms(3) mset_eq_imp_distinct_iff by blast
  define b where "b = \<lfloor>of_int (os_hbm_capacity_bytes s - os_reserve_hbm_bytes s) * ratio\<rfloor>"
  have b: "0 \<le> b" "real_of_int b \<le> real_of_int (os_hbm_capacity_bytes s - os_reserve_hbm_bytes s) * ratio"
    unfolding b_def using s(2) sch(2) by simp_all
  let ?fp = "active_kv_footprint_bytes s"
  let ?slots = "min (os_native_max_requests s) (int (length cs))"
  let ?deficit = "max 0 (minimum - os_running_request_count s)"
  obtain mode new growth where m: "growth_mode ?slots ?deficit (os_native_available_hbm_bytes s) (max 0 (b - ?fp)) = (mode, new, growth)"
    "mode \<noteq> []" "0 \<le> new" "new \<le> ?slots" "0 \<le> growth" "growth \<le> os_native_available_hbm_bytes s"
    "?deficit \<le> 0 \<Longrightarrow> growth \<le> max 0 (b - ?fp)"
    "0 < ?deficit \<Longrightarrow> 0 < ?slots \<Longrightarrow> 0 < new \<and> new \<le> ?deficit \<and> growth = os_native_available_hbm_bytes s"
    using growth_mode_bounds [of ?slots "os_native_available_hbm_bytes s" "max 0 (b - ?fp)" ?deficit] s(3,4) by auto
  let ?w = "\<lparr>ow_ordered_request_ids = map oc_request_id ?order, ow_max_new_requests = new, ow_active_growth_budget_bytes = growth,
    ow_active_kv_budget_bytes = b, ow_active_kv_footprint_bytes = ?fp, ow_active_kv_headroom_bytes = max 0 (b - ?fp),
    ow_radix_locked_bytes = os_radix_locked_bytes s, ow_running_private_bytes = os_running_private_bytes s,
    ow_running_request_count = os_running_request_count s, ow_mode = mode\<rparr>"
  have "0 \<le> ?fp" using s(6,7) by (simp add: active_kv_footprint_bytes_def)
  then have "observed_window_post_init ?w = Inr ?w"
    unfolding observed_window_post_init_def guard_Inr using ids m(2,3,5) s b(1) by (simp add: not_less)
  then have d: "observed_decide cs s sch = Inr ?w"
    unfolding observed_decide_def Let_def using s(2) m(1) by (simp add: sch(1) b_def [symmetric] flip: of_int_diff)
  have "\<forall>i j. i < j \<and> j < length ?order \<longrightarrow> ahead_ok (?order ! i) (?order ! j)" by (simp add: sorted_ahead)
  moreover have "minimum \<le> os_running_request_count s \<Longrightarrow> ?fp + growth \<le> max ?fp b" using m(7) by linarith
  moreover have "0 < new \<and> os_running_request_count s + new \<le> minimum \<and> growth = os_native_available_hbm_bytes s"
    if "os_running_request_count s < minimum" "0 < os_native_max_requests s" "cs \<noteq> []" using m(8) that by simp
  ultimately show ?thesis using d m(4,6) b(2) by (intro exI [of _ ?w] exI [of _ ?order]) simp
qed

text \<open>Two waiting requests, the second one starving, with one request running above the floor of one.\<close>

definition waiting_candidate :: "string \<Rightarrow> bool \<Rightarrow> observed_candidate" where
  "waiting_candidate r starving = \<lparr>oc_request_id = r, oc_workflow_id = ''w'', oc_invocation_id = ''i'', oc_native_index = 0,
     oc_causal_rank = 3, oc_unblock_depth = 0, oc_frontier_rank = 0, oc_workflow_fair_rank = 0, oc_wait_ms = 5,
     oc_estimated_incremental_bytes = 10, oc_starvation = starving, oc_policy_eligible = True\<rparr>"

definition busy_snapshot :: observed_snapshot where
  "busy_snapshot = \<lparr>os_hbm_capacity_bytes = 100, os_reserve_hbm_bytes = 10, os_native_available_hbm_bytes = 60,
     os_native_max_requests = 4, os_running_request_count = 1, os_radix_locked_bytes = 20, os_running_private_bytes = 10\<rparr>"

theorem observed_window_bounded_witness:
  "\<exists>w. observed_decide [waiting_candidate ''a'' False, waiting_candidate ''b'' True] busy_snapshot
       \<lparr>ob_active_kv_high_watermark_ratio = 1 / 2, ob_minimum_active_requests = 1\<rparr> = Inr w \<and>
     ow_max_new_requests w \<le> 2 \<and> 30 + ow_active_growth_budget_bytes w \<le> 45"
proof -
  have sch: "observed_scheduler_init (1 / 2) 1 = Inr \<lparr>ob_active_kv_high_watermark_ratio = 1 / 2, ob_minimum_active_requests = 1\<rparr>"
    by (simp add: observed_scheduler_init_def)
  have s: "observed_snapshot_post_init busy_snapshot = Inr busy_snapshot"
    by (simp add: observed_snapshot_post_init_def busy_snapshot_def)
  have ids: "distinct (map oc_request_id [waiting_candidate ''a'' False, waiting_candidate ''b'' True])"
    by (simp add: waiting_candidate_def)
  from observed_window_bounded [OF sch s ids] obtain w where
    w: "observed_decide [waiting_candidate ''a'' False, waiting_candidate ''b'' True] busy_snapshot
      \<lparr>ob_active_kv_high_watermark_ratio = 1 / 2, ob_minimum_active_requests = 1\<rparr> = Inr w"
    "ow_max_new_requests w \<le> 2" "30 + ow_active_growth_budget_bytes w \<le> max 30 (ow_active_kv_budget_bytes w)"
    "real_of_int (ow_active_kv_budget_bytes w) \<le> 45"
    by (auto simp: busy_snapshot_def active_kv_footprint_bytes_def)
  from w(4) have "ow_active_kv_budget_bytes w \<le> 45" by simp
  with w show ?thesis by (intro exI [of _ w]) simp
qed

end
