(* ===== verification/Admission_Control.thy ===== *)
theory Admission_Control
  imports Admission Workflow_Fairness Causal_Frontier Page_Closure
begin

text \<open>
  \<open>policy/admission.py\<close>, the controller that admits requests one at a time and reserves their bytes until the engine
  acknowledges them. It composes the page index (what is in use), the fair scheduler (whose turn it is) and
  the causal frontier (which request of that workflow).

  The controller holds the page index and the fair scheduler, which its queries change (a cache is filled,
  an account is opened); the causal graph behind the frontier is only read and is an argument. Sets of
  workflows are passed in ascending order, see \<open>Workflow_Fairness\<close>.
\<close>

section \<open>State\<close>

record admission_controller =
  ac_page_index :: page_index
  ac_fairness :: fair_scheduler
  ac_reserve_hbm_bytes :: int
  ac_max_borrow_fraction :: real
  ac_pending :: "(string, admission_request) dict"
  ac_reserved :: "(string, admission_request) dict"
  ac_revision :: int

definition admission_init :: "page_index \<Rightarrow> fair_scheduler \<Rightarrow> int \<Rightarrow> real \<Rightarrow> admission_controller result" where
  "admission_init ix fs reserve borrow =
     (if reserve < 0 then Inl (ValueError ''reserve_hbm_bytes must be non-negative'')
      else if \<not> (0 \<le> borrow \<and> borrow \<le> 1) then Inl (ValueError ''max_borrow_fraction must be in [0, 1]'')
      else Inr \<lparr>ac_page_index = ix, ac_fairness = fs, ac_reserve_hbm_bytes = reserve, ac_max_borrow_fraction = borrow,
                ac_pending = [], ac_reserved = [], ac_revision = 0\<rparr>)"

definition admission_enqueue :: "admission_request \<Rightarrow> admission_controller \<Rightarrow> unit result \<times> admission_controller" where
  "admission_enqueue r ac =
     (if dict_in (ar_request_id r) (ac_pending ac) \<or> dict_in (ar_request_id r) (ac_reserved ac)
      then (Inl (ValueError (''duplicate request id: '' @ ar_request_id r)), ac)
      else
        let ac1 = ac\<lparr>ac_pending := AList.update (ar_request_id r) r (ac_pending ac)\<rparr> in
        case fair_register (ar_workflow_id r) 1 (ac_fairness ac1) of
          Inl e \<Rightarrow> (Inl e, ac1)
        | Inr fs \<Rightarrow> (Inr (), ac1\<lparr>ac_fairness := fs, ac_revision := ac_revision ac1 + 1\<rparr>))"

definition admission_cancel :: "string \<Rightarrow> admission_controller \<Rightarrow> admission_controller" where
  "admission_cancel k ac =
     (let found = (dict_in k (ac_pending ac) \<or> dict_in k (ac_reserved ac)) in
      ac\<lparr>ac_pending := AList.delete k (ac_pending ac), ac_reserved := AList.delete k (ac_reserved ac),
         ac_revision := (if found then ac_revision ac + 1 else ac_revision ac)\<rparr>)"

definition update_pending_estimate ::
  "string \<Rightarrow> int \<Rightarrow> admission_controller \<Rightarrow> admission_request result \<times> admission_controller" where
  "update_pending_estimate k uncached ac =
     (if uncached < 0 then (Inl (ValueError ''uncached_prompt_tokens must be non-negative''), ac)
      else case map_of (ac_pending ac) k of
        None \<Rightarrow> (Inl (KeyError (''request is not pending: '' @ k)), ac)
      | Some request \<Rightarrow>
          (case admission_request_post_init (request\<lparr>ar_uncached_prompt_tokens := uncached\<rparr>) of
             Inl e \<Rightarrow> (Inl e, ac)
           | Inr updated \<Rightarrow>
               (Inr updated, ac\<lparr>ac_pending := AList.update k updated (ac_pending ac),
                                ac_revision := ac_revision ac + (if updated \<noteq> request then 1 else 0)\<rparr>)))"

definition reserved_bytes :: "admission_controller \<Rightarrow> int" where
  "reserved_bytes ac = sum_list (map (estimated_incremental_bytes \<circ> snd) (ac_reserved ac))"

definition request_order :: "admission_request \<Rightarrow> real \<times> string" where
  "request_order r = (ar_submitted_ts_ms r, ar_request_id r)"

definition reserved_requests :: "admission_controller \<Rightarrow> admission_request list" where
  "reserved_requests ac = sort_key request_order (map snd (ac_reserved ac))"

definition pending_requests :: "admission_controller \<Rightarrow> admission_request list" where
  "pending_requests ac = sort_key request_order (map snd (ac_pending ac))"

definition pending_count :: "admission_controller \<Rightarrow> nat" where
  "pending_count ac = length (ac_pending ac)"

text \<open>\<open>_reserve\<close>; the request is pending wherever it is called.\<close>

definition admission_reserve :: "admission_request \<Rightarrow> admission_controller \<Rightarrow> admission_controller" where
  "admission_reserve r ac =
     ac\<lparr>ac_pending := AList.delete (ar_request_id r) (ac_pending ac),
        ac_reserved := AList.update (ar_request_id r) r (ac_reserved ac), ac_revision := ac_revision ac + 1\<rparr>"

definition admission_acknowledge :: "string \<Rightarrow> admission_controller \<Rightarrow> int result \<times> admission_controller" where
  "admission_acknowledge k ac =
     (case map_of (ac_reserved ac) k of
        None \<Rightarrow> (Inl (KeyError (''request has no admission reservation: '' @ k)), ac)
      | Some r \<Rightarrow>
          (Inr (estimated_incremental_bytes r),
           ac\<lparr>ac_reserved := AList.delete k (ac_reserved ac), ac_revision := ac_revision ac + 1\<rparr>))"

section \<open>Deciding\<close>

text \<open>\<open>result.setdefault(workflow, []).append(request)\<close> over the pending requests that fit.\<close>

definition fitting_requests :: "int \<Rightarrow> (string, admission_request) dict \<Rightarrow> (string, admission_request list) dict" where
  "fitting_requests available pending =
     fold (\<lambda>r d. if estimated_incremental_bytes r \<le> available
                 then AList.update (ar_workflow_id r) (dict_get d (ar_workflow_id r) [] @ [r]) d else d)
       (map snd pending) []"

definition add_external :: "(string, real) dict \<Rightarrow> (string, real) dict \<Rightarrow> (string, real) dict" where
  "add_external external charges =
     fold (\<lambda>(w, c) d. AList.update w (dict_get d w 0 + max 0 c) d) external charges"

definition refusal :: "admission_request \<Rightarrow> string \<Rightarrow> int \<Rightarrow> admission_decision" where
  "refusal r why native = \<lparr>ad_request_id = ar_request_id r, ad_admitted = False, ad_reason = why, ad_reserved_bytes = 0,
     ad_required_bytes = estimated_incremental_bytes r, ad_native_reclaim_capacity_bytes = native\<rparr>"

definition admitted :: "admission_request \<Rightarrow> string \<Rightarrow> int \<Rightarrow> admission_decision" where
  "admitted r why native = \<lparr>ad_request_id = ar_request_id r, ad_admitted = True, ad_reason = why,
     ad_reserved_bytes = estimated_incremental_bytes r, ad_required_bytes = estimated_incremental_bytes r,
     ad_native_reclaim_capacity_bytes = native\<rparr>"

text \<open>The branch of a preferred request that is pending.\<close>

definition decide_preferred ::
  "int \<Rightarrow> int \<Rightarrow> int \<Rightarrow> bool \<Rightarrow> int option \<Rightarrow> admission_request \<Rightarrow> admission_controller \<Rightarrow>
   admission_decision \<times> admission_controller" where
  "decide_preferred hbm physical_used free borrow reclaim r ac =
     (let need = estimated_incremental_bytes r;
          hard_free = max 0 (hbm - physical_used - reserved_bytes ac);
          (limit, why) = (if need > free \<and> borrow then (hard_free, ''admission_liveness_reserve_borrow'')
                          else (free, ''admission_liveness_target''))
      in
      if need > limit then
        (case reclaim of
           Some native \<Rightarrow>
             if estimated_working_set_bytes r > hbm then (refusal r ''request_exceeds_hbm_capacity'' native, ac)
             else if need < native
             then (admitted r ''admission_liveness_native_reclaim'' native, admission_reserve r ac)
             else (refusal r ''insufficient_native_reclaim_capacity'' native, ac)
         | None \<Rightarrow> (refusal r ''insufficient_actual_hbm'' 0, ac))
      else (admitted r why 0, admission_reserve r ac))"

text \<open>\<open>{w for w, requests in fitting.items() if any(charge + bytes <= shares[w] + slack for item in requests)}\<close>.\<close>

definition within_share ::
  "(string, real) dict \<Rightarrow> (string, real) dict \<Rightarrow> real \<Rightarrow> (string, admission_request list) dict \<Rightarrow> string list result" where
  "within_share charges shares slack fitting =
     rbind (rmap (\<lambda>(w, rs). rbind (dict_item shares w w) (\<lambda>share.
              Inr (w, list_ex (\<lambda>r. dict_get charges w 0 + of_int (estimated_incremental_bytes r) \<le> share + slack) rs)))
            fitting) (\<lambda>flags. Inr (map fst (filter snd flags)))"

definition eligible_workflows ::
  "(string, real) dict \<Rightarrow> (string, real) dict \<Rightarrow> real \<Rightarrow> (string, admission_request list) dict \<Rightarrow> string list result" where
  "eligible_workflows charges shares borrow_limit fitting =
     rbind (within_share charges shares 0 fitting) (\<lambda>under.
       if under \<noteq> [] then Inr under
       else rbind (within_share charges shares borrow_limit fitting) (\<lambda>borrowable.
         if borrowable \<noteq> [] then Inr borrowable else Inr (map fst fitting)))"

definition frontier_order :: "frontier_candidate list \<Rightarrow> (string, int) dict" where
  "frontier_order cs = fold (\<lambda>(n, c) d. AList.update (fc_invocation_id c) (int n) d) (enumerate 0 cs) []"

definition frontier_key :: "(string, int) dict \<Rightarrow> admission_request \<Rightarrow> int \<times> real \<times> string" where
  "frontier_key order r = (dict_get order (ar_invocation_id r) (2 ^ 30), ar_submitted_ts_ms r, ar_request_id r)"

text \<open>The fair branch, once some request fits.\<close>

definition decide_fair ::
  "causal_graph \<Rightarrow> int \<Rightarrow> (string, real) dict \<Rightarrow> (string, real) dict \<Rightarrow> real \<Rightarrow> bool \<Rightarrow>
   (string, admission_request list) dict \<Rightarrow> admission_controller \<Rightarrow>
   admission_decision result \<times> admission_controller" where
  "decide_fair g hbm charges shares borrow_limit borrowed fitting ac =
     (case rbind (eligible_workflows charges shares borrow_limit fitting) (\<lambda>ws.
             fair_select (py_sorted_set ws) charges hbm (ac_fairness ac)) of
        Inl e \<Rightarrow> (Inl e, ac)
      | Inr (None, fs) \<Rightarrow> (Inl (AssertionError ''selected_workflow is not None''), ac\<lparr>ac_fairness := fs\<rparr>)
      | Inr (Some w, fs) \<Rightarrow>
          let ac1 = ac\<lparr>ac_fairness := fs\<rparr> in
          (case rbind (dict_item fitting w w) (\<lambda>requests. rbind (candidates w g) (\<lambda>cs. Inr (requests, frontier_order cs))) of
             Inl e \<Rightarrow> (Inl e, ac1)
           | Inr ([], order) \<Rightarrow> (Inl (ValueError ''min() arg is an empty sequence''), ac1)
           | Inr (r # rs, order) \<Rightarrow>
               let selected = py_min_by (frontier_key order) r rs in
               (Inr (admitted selected (if borrowed then ''engine_idle_reserve_borrow'' else ''workflow_fair_causal_frontier'') 0),
                admission_reserve selected ac1)))"

text \<open>What a caller passes to \<open>decide_next\<close>.\<close>

record decide_args =
  da_hbm_capacity_bytes :: int
  da_actual_hbm_used_bytes :: "int option"
  da_external_workflow_charges :: "(string, real) dict option"
  da_allow_reserve_borrow :: bool
  da_preferred_request_id :: "string option"
  da_native_reclaim_capacity_bytes :: "int option"

definition decide_among ::
  "causal_graph \<Rightarrow> decide_args \<Rightarrow> int \<Rightarrow> int \<Rightarrow> (string, real) dict \<Rightarrow> (string, real) dict \<Rightarrow> admission_controller \<Rightarrow>
   admission_decision result \<times> admission_controller" where
  "decide_among g da allocatable physical_used charges shares ac =
     (let hbm = da_hbm_capacity_bytes da;
          free = max 0 (allocatable - physical_used - reserved_bytes ac);
          hard_free = max 0 (hbm - physical_used - reserved_bytes ac);
          preferred = (case da_preferred_request_id da of None \<Rightarrow> None | Some k \<Rightarrow> map_of (ac_pending ac) k)
      in
      case preferred of
        Some r \<Rightarrow>
          (case decide_preferred hbm physical_used free (da_allow_reserve_borrow da)
                  (da_native_reclaim_capacity_bytes da) r ac of (d, ac') \<Rightarrow> (Inr d, ac'))
      | None \<Rightarrow>
          let tight = fitting_requests free (ac_pending ac);
              borrow = (tight = [] \<and> da_allow_reserve_borrow da);
              fitting = (if borrow then fitting_requests hard_free (ac_pending ac) else tight)
          in
          if fitting = [] then
            (case map snd (ac_pending ac) of
               [] \<Rightarrow> (Inl (ValueError ''min() arg is an empty sequence''), ac)
             | r # rs \<Rightarrow> (Inr (refusal (py_min_by request_order r rs) ''insufficient_actual_hbm'' 0), ac))
          else decide_fair g hbm charges shares (of_int allocatable * ac_max_borrow_fraction ac) borrow fitting ac)"

definition decide_next ::
  "causal_graph \<Rightarrow> decide_args \<Rightarrow> admission_controller \<Rightarrow> admission_decision option result \<times> admission_controller" where
  "decide_next g da ac =
     (if ac_pending ac = [] then (Inr None, ac)
      else if (case da_native_reclaim_capacity_bytes da of None \<Rightarrow> False | Some n \<Rightarrow> n < 0)
      then (Inl (ValueError ''native reclaim capacity must be non-negative or null''), ac)
      else
        let allocatable = max 0 (da_hbm_capacity_bytes da - ac_reserve_hbm_bytes ac) in
        case index_gpu_bytes (ac_page_index ac) of
          Inl e \<Rightarrow> (Inl e, ac)
        | Inr (gpu, ix1) \<Rightarrow>
            let physical_used = max gpu (case da_actual_hbm_used_bytes da of Some n \<Rightarrow> n | None \<Rightarrow> 0);
                (charges0, ix2) = workflow_gpu_charges ix1;
                charges = add_external (case da_external_workflow_charges da of Some d \<Rightarrow> d | None \<Rightarrow> []) charges0;
                ac1 = ac\<lparr>ac_page_index := ix2\<rparr>
            in
            (case fair_memory_shares (map (ar_workflow_id \<circ> snd) (ac_pending ac)) allocatable (ac_fairness ac) of
               Inl e \<Rightarrow> (Inl e, ac1)
             | Inr (shares, fs) \<Rightarrow>
                 (case decide_among g da allocatable physical_used charges shares (ac1\<lparr>ac_fairness := fs\<rparr>) of
                    (d, ac') \<Rightarrow> (rbind d (\<lambda>x. Inr (Some x)), ac'))))"

end
