(* ===== verification/Admission_Safety.thy ===== *)
theory Admission_Safety
  imports Admission_Control
begin

text \<open>
  What a decision of the admission controller is worth: it always returns on the states the other components
  can reach, a reservation fits into the memory that is left, a refusal means that nothing asked for fits, and
  the books of pending and reserved requests stay apart.
\<close>

section \<open>The books\<close>

definition requests_ok :: "(string, admission_request) dict \<Rightarrow> bool" where
  "requests_ok d \<longleftrightarrow> dict_ok d \<and> (\<forall>k r. map_of d k = Some r \<longrightarrow> ar_request_id r = k)"

definition controller_ok :: "admission_controller \<Rightarrow> bool" where
  "controller_ok ac \<longleftrightarrow> requests_ok (ac_pending ac) \<and> requests_ok (ac_reserved ac) \<and>
     fst ` set (ac_pending ac) \<inter> fst ` set (ac_reserved ac) = {}"

text \<open>Between calls the other components change the page index and the fair scheduler.\<close>

inductive admission_step :: "admission_controller \<Rightarrow> admission_controller \<Rightarrow> bool" where
  enqueue: "admission_enqueue r ac = (out, ac') \<Longrightarrow> admission_step ac ac'"
| cancel: "admission_step ac (admission_cancel k ac)"
| estimate: "update_pending_estimate k n ac = (out', ac') \<Longrightarrow> admission_step ac ac'"
| decide: "decide_next g da ac = (out'', ac') \<Longrightarrow> admission_step ac ac'"
| acknowledge: "admission_acknowledge k ac = (out''', ac') \<Longrightarrow> admission_step ac ac'"
| others: "admission_step ac (ac\<lparr>ac_page_index := ix, ac_fairness := fs\<rparr>)"

lemma requests_ok_update: "requests_ok d \<Longrightarrow> ar_request_id r = k \<Longrightarrow> requests_ok (AList.update k r d)"
  by (simp add: requests_ok_def map_of_update)

lemma requests_ok_delete: "requests_ok d \<Longrightarrow> requests_ok (AList.delete k d)"
  by (auto simp: requests_ok_def map_of_delete split: if_splits)

lemma requests_ok_mem: "requests_ok d \<Longrightarrow> r \<in> snd ` set d \<Longrightarrow> map_of d (ar_request_id r) = Some r"
  by (force simp: requests_ok_def)

lemma reserve_ok: "controller_ok ac \<Longrightarrow> controller_ok (admission_reserve r ac)"
  by (auto simp: controller_ok_def admission_reserve_def requests_ok_update requests_ok_delete)

lemma enqueue_ok:
  assumes "controller_ok ac" and "admission_enqueue r ac = (out, ac')"
  shows "controller_ok ac'"
proof (cases "dict_in (ar_request_id r) (ac_pending ac) \<or> dict_in (ar_request_id r) (ac_reserved ac)")
  case True
  with assms show ?thesis by (simp add: admission_enqueue_def)
next
  case False
  then have "ac_pending ac' = AList.update (ar_request_id r) r (ac_pending ac)" "ac_reserved ac' = ac_reserved ac"
    using assms(2) by (auto simp: admission_enqueue_def Let_def split: sum.splits)
  then show ?thesis using assms(1) False by (auto simp: controller_ok_def requests_ok_update dict_simps)
qed

lemma estimate_ok:
  assumes ok: "controller_ok ac" and e: "update_pending_estimate k n ac = (out, ac')"
  shows "controller_ok ac'"
proof (cases "n < 0 \<or> map_of (ac_pending ac) k = None")
  case True
  with assms show ?thesis by (auto simp: update_pending_estimate_def split: if_splits)
next
  case False
  then obtain r where r: "map_of (ac_pending ac) k = Some r" "\<not> n < 0" by auto
  show ?thesis
  proof (cases "admission_request_post_init (r\<lparr>ar_uncached_prompt_tokens := n\<rparr>)")
    case (Inl x)
    with e r ok show ?thesis by (simp add: update_pending_estimate_def)
  next
    case (Inr q)
    then have "q = r\<lparr>ar_uncached_prompt_tokens := n\<rparr>" unfolding admission_request_post_init_def guard_Inr by simp
    then have "ar_request_id q = k" using ok r(1) by (simp add: controller_ok_def requests_ok_def)
    moreover have "ac_pending ac' = AList.update k q (ac_pending ac)" "ac_reserved ac' = ac_reserved ac"
      using e r Inr by (auto simp: update_pending_estimate_def)
    moreover have "k \<in> fst ` set (ac_pending ac)" by (rule dict_key [OF r(1)])
    ultimately show ?thesis using ok by (auto simp: controller_ok_def requests_ok_update)
  qed
qed

text \<open>Every branch of a decision reserves one request or leaves the books alone.\<close>

definition same_books :: "admission_controller \<Rightarrow> admission_controller \<Rightarrow> bool" where
  "same_books ac ac' \<longleftrightarrow> ac_pending ac' = ac_pending ac \<and> ac_reserved ac' = ac_reserved ac"

lemma same_books_simps [simp]:
  "same_books ac ac" "same_books ac (ac\<lparr>ac_fairness := fs\<rparr>)" "same_books ac (ac\<lparr>ac_page_index := ix\<rparr>)"
  "same_books (ac\<lparr>ac_page_index := ix, ac_fairness := fs\<rparr>) b = same_books ac b"
  by (simp_all add: same_books_def)

lemma same_books_ok: "same_books ac b \<Longrightarrow> controller_ok ac \<Longrightarrow> controller_ok b"
  by (simp add: same_books_def controller_ok_def)

inductive books_step :: "admission_controller \<Rightarrow> admission_controller \<Rightarrow> bool" where
  kept: "same_books ac ac' \<Longrightarrow> books_step ac ac'"
| reserved: "same_books ac b \<Longrightarrow> books_step ac (admission_reserve r b)"

lemma decide_fair_books:
  "books_step ac (snd (decide_fair g hbm charges shares limit borrowed fitting ac))"
  by (auto simp: decide_fair_def Let_def split: sum.split option.split list.split prod.split intro: books_step.intros)

lemma decide_preferred_books: "books_step ac (snd (decide_preferred hbm used free borrow reclaim r ac))"
  by (auto simp: decide_preferred_def Let_def split: option.split intro: books_step.intros)

lemma decide_among_books: "books_step ac (snd (decide_among g da allocatable used charges shares ac))"
  by (auto simp: decide_among_def Let_def case_prod_unfold split: option.split list.split
      intro: books_step.intros decide_fair_books decide_preferred_books)

lemma books_step_others: "books_step (ac\<lparr>ac_page_index := ix, ac_fairness := fs\<rparr>) b \<Longrightarrow> books_step ac b"
  by (erule books_step.cases) (auto intro: books_step.intros)

lemma decide_next_books: "books_step ac (snd (decide_next g da ac))"
  by (auto simp: decide_next_def Let_def case_prod_unfold split: sum.split
      intro: books_step.intros books_step_others [OF decide_among_books])

lemma controller_ok_release:
  "controller_ok ac \<Longrightarrow> controller_ok (ac\<lparr>ac_reserved := AList.delete k (ac_reserved ac), ac_revision := n\<rparr>)"
  unfolding controller_ok_def by (simp add: requests_ok_delete) blast

lemma admission_step_ok: "admission_step ac ac' \<Longrightarrow> controller_ok ac \<Longrightarrow> controller_ok ac'"
proof (induction rule: admission_step.induct)
  case (enqueue r ac out ac')
  then show ?case by (blast intro: enqueue_ok)
next
  case (cancel ac k)
  then show ?case unfolding admission_cancel_def Let_def controller_ok_def by (simp add: requests_ok_delete) blast
next
  case (estimate k n ac out' ac')
  then show ?case by (blast intro: estimate_ok)
next
  case (decide g da ac out'' ac')
  have "books_step ac ac'" using decide_next_books [of ac g da] decide.hyps by simp
  then show ?case using decide.prems
    by cases (auto intro: reserve_ok same_books_ok)
next
  case (acknowledge k ac out''' ac')
  then show ?case by (cases "map_of (ac_reserved ac) k") (auto simp: admission_acknowledge_def controller_ok_release)
next
  case (others ac ix fs)
  then show ?case by (simp add: controller_ok_def)
qed

interpretation admission: invariant_machine admission_step controller_ok
  by unfold_locales (rule admission_step_ok)

lemma admission_init_ok: "admission_init ix fs reserve borrow = Inr ac \<Longrightarrow> controller_ok ac"
  unfolding admission_init_def guard_Inr by (auto simp: controller_ok_def requests_ok_def)

section \<open>The steps of a decision\<close>

definition fit_groups :: "int \<Rightarrow> admission_request list \<Rightarrow> (string, admission_request list) dict \<Rightarrow> bool" where
  "fit_groups av xs d \<longleftrightarrow>
     (\<forall>w rs. map_of d w = Some rs \<longrightarrow>
        rs \<noteq> [] \<and> (\<forall>r \<in> set rs. r \<in> set xs \<and> ar_workflow_id r = w \<and> estimated_incremental_bytes r \<le> av)) \<and>
     (\<forall>r \<in> set xs. estimated_incremental_bytes r \<le> av \<longrightarrow> ar_workflow_id r \<in> fst ` set d)"

lemma fit_groups_skip: "fit_groups av xs d \<Longrightarrow> \<not> estimated_incremental_bytes x \<le> av \<Longrightarrow> fit_groups av (xs @ [x]) d"
  unfolding fit_groups_def by simp

lemma fit_groups_add:
  assumes g: "fit_groups av xs d" and x: "estimated_incremental_bytes x \<le> av"
  shows "fit_groups av (xs @ [x]) (AList.update (ar_workflow_id x) (dict_get d (ar_workflow_id x) [] @ [x]) d)"
proof -
  let ?w = "ar_workflow_id x" and ?l = "dict_get d (ar_workflow_id x) []"
  have old: "\<forall>r \<in> set ?l. r \<in> set xs \<and> ar_workflow_id r = ?w \<and> estimated_incremental_bytes r \<le> av"
  proof (cases "map_of d ?w")
    case (Some l)
    then have "?l = l" by simp
    with Some g show ?thesis unfolding fit_groups_def by blast
  qed simp
  have "rs \<noteq> [] \<and> (\<forall>r \<in> set rs. r \<in> set (xs @ [x]) \<and> ar_workflow_id r = w \<and> estimated_incremental_bytes r \<le> av)"
    if m: "map_of (AList.update ?w (?l @ [x]) d) w = Some rs" for w rs
  proof (cases "w = ?w")
    case True
    with m have "rs = ?l @ [x]" by (simp add: map_of_update)
    then have eqs: "rs \<noteq> []" "set rs = insert x (set ?l)" "set (xs @ [x]) = insert x (set xs)" by simp_all
    have "\<forall>r \<in> insert x (set ?l). r \<in> insert x (set xs) \<and> ar_workflow_id r = ?w \<and> estimated_incremental_bytes r \<le> av"
      using old x by blast
    then show ?thesis unfolding True eqs(2,3) using eqs(1) by blast
  next
    case False
    with m have "map_of d w = Some rs" by (simp add: map_of_update)
    with g have "rs \<noteq> []" "\<forall>r \<in> set rs. r \<in> set xs \<and> ar_workflow_id r = w \<and> estimated_incremental_bytes r \<le> av"
      unfolding fit_groups_def by blast+
    then show ?thesis by simp
  qed
  moreover have "ar_workflow_id r \<in> fst ` set (AList.update ?w (?l @ [x]) d)"
    if "r \<in> set (xs @ [x])" "estimated_incremental_bytes r \<le> av" for r
  proof (cases "r = x")
    case True
    then show ?thesis by simp
  next
    case False
    then have "r \<in> set xs" using that(1) by simp
    with g that(2) have "ar_workflow_id r \<in> fst ` set d" unfolding fit_groups_def by blast
    then show ?thesis by simp
  qed
  ultimately show ?thesis unfolding fit_groups_def by blast
qed

lemma fitting_groups: "fit_groups av (map snd pending) (fitting_requests av pending)"
proof -
  have "fit_groups av xs (fold (\<lambda>r d. if estimated_incremental_bytes r \<le> av
      then AList.update (ar_workflow_id r) (dict_get d (ar_workflow_id r) [] @ [r]) d else d) xs [])" for xs
    by (induction xs rule: rev_induct) (simp_all add: fit_groups_skip fit_groups_add, simp add: fit_groups_def)
  then show ?thesis by (simp add: fitting_requests_def)
qed

lemma fitting_spec:
  shows "map_of (fitting_requests av pending) w = Some rs \<Longrightarrow>
      rs \<noteq> [] \<and> (\<forall>r \<in> set rs. r \<in> snd ` set pending \<and> ar_workflow_id r = w \<and> estimated_incremental_bytes r \<le> av)"
    and "r \<in> snd ` set pending \<Longrightarrow> estimated_incremental_bytes r \<le> av \<Longrightarrow>
      ar_workflow_id r \<in> fst ` set (fitting_requests av pending)"
  using fitting_groups [of av pending] unfolding fit_groups_def set_map by blast+

lemma fitting_nothing: "fitting_requests av pending = [] \<Longrightarrow> r \<in> snd ` set pending \<Longrightarrow> av < estimated_incremental_bytes r"
  using fitting_spec(2) [of r pending av] by (force simp: not_le [symmetric])

lemma fitting_workflow:
  assumes "w \<in> fst ` set (fitting_requests av pending)"
  shows "w \<in> ar_workflow_id ` snd ` set pending"
proof -
  obtain rs where rs: "map_of (fitting_requests av pending) w = Some rs"
    using assms by (metis dict_in_def dict_in_iff not_None_eq)
  from fitting_spec(1) [OF this] obtain r where "r \<in> snd ` set pending" "ar_workflow_id r = w" by (cases rs) auto
  then show ?thesis by blast
qed

lemma within_share_total:
  assumes "fst ` set fitting \<subseteq> fst ` set shares"
  obtains ws where "within_share charges shares slack fitting = Inr ws" and "set ws \<subseteq> fst ` set fitting"
proof -
  let ?g = "\<lambda>(w, rs). (w, list_ex (\<lambda>r. dict_get charges w 0 + of_int (estimated_incremental_bytes r) \<le> the (map_of shares w) + slack) rs)"
  have "rmap (\<lambda>(w, rs). rbind (dict_item shares w w) (\<lambda>share.
      Inr (w, list_ex (\<lambda>r. dict_get charges w 0 + of_int (estimated_incremental_bytes r) \<le> share + slack) rs))) fitting = Inr (map ?g fitting)"
  proof (rule rmap_total)
    fix x assume "x \<in> set fitting"
    then have "fst x \<in> fst ` set shares" using assms by blast
    then obtain y where "map_of shares (fst x) = Some y" by (metis dict_in_def dict_in_iff not_None_eq)
    then show "(case x of (w, rs) \<Rightarrow> rbind (dict_item shares w w) (\<lambda>share.
        Inr (w, list_ex (\<lambda>r. dict_get charges w 0 + of_int (estimated_incremental_bytes r) \<le> share + slack) rs))) = Inr (?g x)"
      by (cases x) (simp add: dict_item_def)
  qed
  then have "within_share charges shares slack fitting = Inr (map fst (filter snd (map ?g fitting)))"
    by (simp add: within_share_def)
  moreover have "set (map fst (filter snd (map ?g fitting))) \<subseteq> fst ` set fitting" by force
  ultimately show thesis by (rule that)
qed

lemma eligible_workflows_total:
  assumes "fst ` set fitting \<subseteq> fst ` set shares" and "fitting \<noteq> []"
  obtains ws where "eligible_workflows charges shares limit fitting = Inr ws" and "ws \<noteq> []" and "set ws \<subseteq> fst ` set fitting"
proof -
  obtain us where us: "within_share charges shares 0 fitting = Inr us" "set us \<subseteq> fst ` set fitting"
    by (rule within_share_total [OF assms(1)])
  obtain bs where bs: "within_share charges shares limit fitting = Inr bs" "set bs \<subseteq> fst ` set fitting"
    by (rule within_share_total [OF assms(1)])
  show thesis
    by (rule that [of "if us \<noteq> [] then us else if bs \<noteq> [] then bs else map fst fitting"])
      (use us bs assms(2) in \<open>simp_all add: eligible_workflows_def\<close>)
qed

lemma decide_fair_sound:
  assumes keys: "fst ` set fitting \<subseteq> fst ` set shares" and ne: "fitting \<noteq> []"
    and rs: "\<And>w rs. map_of fitting w = Some rs \<Longrightarrow> rs \<noteq> [] \<and> (\<forall>r \<in> set rs. P r)"
    and g: "shape_ok (graph_shape g)" "dict_ok (cg_invocations g)"
  obtains r why fs where "P r"
    and "decide_fair g hbm charges shares limit borrowed fitting ac = (Inr (admitted r why 0), admission_reserve r (ac\<lparr>ac_fairness := fs\<rparr>))"
proof -
  obtain ws where ws: "eligible_workflows charges shares limit fitting = Inr ws" "ws \<noteq> []" "set ws \<subseteq> fst ` set fitting"
    by (rule eligible_workflows_total [OF keys ne])
  have "py_sorted_set ws \<noteq> []" using ws(2) set_py_sorted_set [of ws] by force
  then obtain w fs where w: "fair_select (py_sorted_set ws) charges hbm (ac_fairness ac) = Inr (Some w, fs)" "w \<in> set ws"
    using fair_select_effect by (metis set_py_sorted_set)
  then obtain l where l: "map_of fitting w = Some l" using ws(3) by (metis dict_in_def dict_in_iff not_None_eq subsetD)
  then obtain q qs where q: "l = q # qs" "\<forall>r \<in> set (q # qs). P r" using rs [OF l] by (cases l) auto
  obtain cs where cs: "candidates w g = Inr cs" by (rule candidates_total [OF g])
  let ?r = "py_min_by (frontier_key (frontier_order cs)) q qs"
  have "P ?r" using q(2) py_min_by_mem [of "frontier_key (frontier_order cs)" q qs] by auto
  moreover have "decide_fair g hbm charges shares limit borrowed fitting ac =
      (Inr (admitted ?r (if borrowed then ''engine_idle_reserve_borrow'' else ''workflow_fair_causal_frontier'') 0),
       admission_reserve ?r (ac\<lparr>ac_fairness := fs\<rparr>))"
    unfolding decide_fair_def by (simp add: ws(1) w(1) cs l q(1) dict_item_def Let_def)
  ultimately show thesis by (rule that)
qed

section \<open>Decisions are sound\<close>

text \<open>The memory in use, and the requests a decision is about: the preferred one when it is pending, or all.\<close>

definition used_bytes :: "decide_args \<Rightarrow> page_index \<Rightarrow> int" where
  "used_bytes da ix = max (kb_gpu_bytes (fst (calculate_physical_kv_state [] ix)))
     (case da_actual_hbm_used_bytes da of Some n \<Rightarrow> n | None \<Rightarrow> 0)"

definition asked_requests :: "decide_args \<Rightarrow> admission_controller \<Rightarrow> admission_request set" where
  "asked_requests da ac =
     (case da_preferred_request_id da of
        None \<Rightarrow> snd ` set (ac_pending ac)
      | Some k \<Rightarrow> (case map_of (ac_pending ac) k of None \<Rightarrow> snd ` set (ac_pending ac) | Some r \<Rightarrow> {r}))"

text \<open>A request fits into what is allocatable, or into the whole memory when the reserve may be borrowed.\<close>

definition request_fits :: "decide_args \<Rightarrow> int \<Rightarrow> int \<Rightarrow> admission_request \<Rightarrow> bool" where
  "request_fits da allocatable taken r \<longleftrightarrow> estimated_incremental_bytes r = 0 \<or>
     taken + estimated_incremental_bytes r \<le> allocatable \<or>
     (da_allow_reserve_borrow da \<and> taken + estimated_incremental_bytes r \<le> da_hbm_capacity_bytes da)"

text \<open>The engine promised to reclaim enough for the preferred request.\<close>

definition reclaim_suffices :: "decide_args \<Rightarrow> admission_request \<Rightarrow> bool" where
  "reclaim_suffices da r \<longleftrightarrow> da_preferred_request_id da = Some (ar_request_id r) \<and>
     estimated_working_set_bytes r \<le> da_hbm_capacity_bytes da \<and>
     (\<exists>n. da_native_reclaim_capacity_bytes da = Some n \<and> estimated_incremental_bytes r < n)"

definition decision_ok :: "decide_args \<Rightarrow> int \<Rightarrow> int \<Rightarrow> admission_controller \<Rightarrow> admission_decision \<Rightarrow> admission_controller \<Rightarrow> bool" where
  "decision_ok da allocatable taken ac dn ac' \<longleftrightarrow>
     (if ad_admitted dn
      then \<exists>r \<in> asked_requests da ac. \<exists>why n b. dn = admitted r why n \<and> same_books ac b \<and> ac' = admission_reserve r b \<and>
             (request_fits da allocatable taken r \<or> reclaim_suffices da r)
      else same_books ac ac' \<and>
        (\<forall>r \<in> asked_requests da ac. \<not> request_fits da allocatable taken r \<and> \<not> reclaim_suffices da r))"

lemma decision_ok_admitted:
  assumes "r \<in> asked_requests da ac" and "same_books ac b" and "request_fits da allocatable taken r \<or> reclaim_suffices da r"
  shows "decision_ok da allocatable taken ac (admitted r why n) (admission_reserve r b)"
proof -
  have "ad_admitted (admitted r why n)" by (simp add: admitted_def)
  then show ?thesis unfolding decision_ok_def using assms by (simp only: if_True) blast
qed

lemma estimate_nonneg: "0 \<le> estimated_incremental_bytes r"
  by (simp add: estimated_incremental_bytes_def)

lemma within_free_fits:
  "estimated_incremental_bytes r \<le> max 0 (allocatable - used - res) \<Longrightarrow> request_fits da allocatable (used + res) r"
  "estimated_incremental_bytes r \<le> max 0 (da_hbm_capacity_bytes da - used - res) \<Longrightarrow> da_allow_reserve_borrow da \<Longrightarrow>
   request_fits da allocatable (used + res) r"
  using estimate_nonneg [of r] by (auto simp: request_fits_def)

lemma beyond_free_fits:
  "max 0 (allocatable - used - res) < estimated_incremental_bytes r \<Longrightarrow>
   (da_allow_reserve_borrow da \<Longrightarrow> max 0 (da_hbm_capacity_bytes da - used - res) < estimated_incremental_bytes r) \<Longrightarrow>
   \<not> request_fits da allocatable (used + res) r"
  by (auto simp: request_fits_def)

lemma decide_preferred_ok:
  assumes "da_preferred_request_id da = Some k" and r: "map_of (ac_pending ac) k = Some r" and ok: "controller_ok ac"
    and "decide_preferred (da_hbm_capacity_bytes da) used (max 0 (allocatable - used - reserved_bytes ac))
      (da_allow_reserve_borrow da) (da_native_reclaim_capacity_bytes da) r ac = (dn, ac')"
  shows "decision_ok da allocatable (used + reserved_bytes ac) ac dn ac'"
proof -
  let ?free = "max 0 (allocatable - used - reserved_bytes ac)" and ?hard = "max 0 (da_hbm_capacity_bytes da - used - reserved_bytes ac)"
  let ?need = "estimated_incremental_bytes r" and ?b = "da_allow_reserve_borrow da" and ?n = "da_native_reclaim_capacity_bytes da"
  have asked: "asked_requests da ac = {r}" using assms(1) r by (simp add: asked_requests_def)
  have k: "ar_request_id r = k" using ok r by (simp add: controller_ok_def requests_ok_def)
  show ?thesis
  proof (cases "?need \<le> (if ?need > ?free \<and> ?b then ?hard else ?free)")
    case True
    have "request_fits da allocatable (used + reserved_bytes ac) r"
      using True within_free_fits [of r] by (auto split: if_splits)
    moreover have "\<exists>why. dn = admitted r why 0 \<and> ac' = admission_reserve r ac"
      using assms(4) True by (auto simp: decide_preferred_def Let_def split: if_splits)
    ultimately show ?thesis using asked by (auto intro: decision_ok_admitted)
  next
    case False
    have nofit: "\<not> request_fits da allocatable (used + reserved_bytes ac) r"
      by (rule beyond_free_fits) (use False in \<open>auto split: if_splits\<close>)
    have out: "(dn, ac') = (case ?n of
        Some native \<Rightarrow>
          if estimated_working_set_bytes r > da_hbm_capacity_bytes da then (refusal r ''request_exceeds_hbm_capacity'' native, ac)
          else if ?need < native then (admitted r ''admission_liveness_native_reclaim'' native, admission_reserve r ac)
          else (refusal r ''insufficient_native_reclaim_capacity'' native, ac)
      | None \<Rightarrow> (refusal r ''insufficient_actual_hbm'' 0, ac))"
      using assms(4) False by (auto simp: decide_preferred_def Let_def split: if_splits)
    show ?thesis
    proof (cases "reclaim_suffices da r")
      case True
      then obtain n where "dn = admitted r ''admission_liveness_native_reclaim'' n" "ac' = admission_reserve r ac"
        using out by (auto simp: reclaim_suffices_def)
      then show ?thesis using asked True by (auto intro: decision_ok_admitted)
    next
      case no: False
      then have "\<not> ad_admitted dn \<and> ac' = ac"
        using out assms(1) k by (auto simp: reclaim_suffices_def refusal_def split: option.splits if_splits)
      then show ?thesis unfolding decision_ok_def asked using no nofit by simp
    qed
  qed
qed

lemma reclaim_only_preferred:
  assumes "controller_ok ac" and "r \<in> snd ` set (ac_pending ac)"
    and "\<And>k. da_preferred_request_id da = Some k \<Longrightarrow> map_of (ac_pending ac) k = None"
  shows "\<not> reclaim_suffices da r"
proof
  assume "reclaim_suffices da r"
  then have "map_of (ac_pending ac) (ar_request_id r) = None" using assms(3) by (simp add: reclaim_suffices_def)
  moreover have "map_of (ac_pending ac) (ar_request_id r) = Some r"
    by (rule requests_ok_mem) (use assms(1,2) in \<open>simp_all add: controller_ok_def\<close>)
  ultimately show False by simp
qed

text \<open>The requests the fair branch chooses from: those that fit, or with the reserve when none does.\<close>

definition fair_groups :: "decide_args \<Rightarrow> int \<Rightarrow> int \<Rightarrow> admission_controller \<Rightarrow> (string, admission_request list) dict" where
  "fair_groups da allocatable used ac =
     (let tight = fitting_requests (max 0 (allocatable - used - reserved_bytes ac)) (ac_pending ac) in
      if tight = [] \<and> da_allow_reserve_borrow da
      then fitting_requests (max 0 (da_hbm_capacity_bytes da - used - reserved_bytes ac)) (ac_pending ac) else tight)"

lemma fair_groups_cases:
  obtains av where "fair_groups da allocatable used ac = fitting_requests av (ac_pending ac)"
    and "\<forall>r. estimated_incremental_bytes r \<le> av \<longrightarrow> request_fits da allocatable (used + reserved_bytes ac) r"
proof (cases "fitting_requests (max 0 (allocatable - used - reserved_bytes ac)) (ac_pending ac) = [] \<and> da_allow_reserve_borrow da")
  case True
  then show thesis by (intro that) (simp add: fair_groups_def, blast intro: within_free_fits(2))
next
  case False
  then have "fair_groups da allocatable used ac = fitting_requests (max 0 (allocatable - used - reserved_bytes ac)) (ac_pending ac)"
    unfolding fair_groups_def Let_def by (simp only: if_False)
  then show thesis by (rule that) (blast intro: within_free_fits(1))
qed

lemma fair_groups_empty:
  assumes "fair_groups da allocatable used ac = []" and r: "r \<in> snd ` set (ac_pending ac)"
  shows "\<not> request_fits da allocatable (used + reserved_bytes ac) r"
proof (rule beyond_free_fits)
  let ?tight = "fitting_requests (max 0 (allocatable - used - reserved_bytes ac)) (ac_pending ac)"
  have tight: "?tight = []" using assms(1) by (auto simp: fair_groups_def Let_def split: if_splits)
  then show "max 0 (allocatable - used - reserved_bytes ac) < estimated_incremental_bytes r" using r by (rule fitting_nothing)
  assume "da_allow_reserve_borrow da"
  with tight assms(1) have "fitting_requests (max 0 (da_hbm_capacity_bytes da - used - reserved_bytes ac)) (ac_pending ac) = []"
    by (simp add: fair_groups_def)
  then show "max 0 (da_hbm_capacity_bytes da - used - reserved_bytes ac) < estimated_incremental_bytes r" using r by (rule fitting_nothing)
qed

lemma decide_among_fair:
  assumes "(case da_preferred_request_id da of None \<Rightarrow> None | Some k \<Rightarrow> map_of (ac_pending ac) k) = None"
  shows "fair_groups da allocatable used ac = [] \<Longrightarrow> map snd (ac_pending ac) = q # qs \<Longrightarrow>
      decide_among g da allocatable used charges shares ac = (Inr (refusal (py_min_by request_order q qs) ''insufficient_actual_hbm'' 0), ac)"
    and "fair_groups da allocatable used ac \<noteq> [] \<Longrightarrow> \<exists>borrow. decide_among g da allocatable used charges shares ac =
      decide_fair g (da_hbm_capacity_bytes da) charges shares (of_int allocatable * ac_max_borrow_fraction ac) borrow
        (fair_groups da allocatable used ac) ac"
  unfolding decide_among_def Let_def assms option.case fair_groups_def by (simp_all only: if_True if_False list.case simp_thms) blast

lemma decide_among_ok:
  assumes ok: "controller_ok ac" and ne: "ac_pending ac \<noteq> []"
    and shares: "fst ` set shares = ar_workflow_id ` snd ` set (ac_pending ac)"
    and g: "shape_ok (graph_shape g)" "dict_ok (cg_invocations g)"
  obtains dn ac' where "decide_among g da allocatable used charges shares ac = (Inr dn, ac')"
    and "decision_ok da allocatable (used + reserved_bytes ac) ac dn ac'"
proof (cases "case da_preferred_request_id da of None \<Rightarrow> None | Some k \<Rightarrow> map_of (ac_pending ac) k")
  case (Some r)
  then obtain k where k: "da_preferred_request_id da = Some k" "map_of (ac_pending ac) k = Some r" by (auto split: option.splits)
  obtain dn ac' where d: "decide_preferred (da_hbm_capacity_bytes da) used (max 0 (allocatable - used - reserved_bytes ac))
      (da_allow_reserve_borrow da) (da_native_reclaim_capacity_bytes da) r ac = (dn, ac')" by fastforce
  have "decide_among g da allocatable used charges shares ac = (Inr dn, ac')" using k d by (simp add: decide_among_def)
  then show thesis by (rule that) (rule decide_preferred_ok [OF k ok d])
next
  case None
  let ?fit = "fair_groups da allocatable used ac"
  have pref: "map_of (ac_pending ac) k = None" if "da_preferred_request_id da = Some k" for k using None that by simp
  then have asked: "asked_requests da ac = snd ` set (ac_pending ac)" by (simp add: asked_requests_def split: option.split)
  show thesis
  proof (cases "?fit = []")
    case True
    obtain q qs where q: "map snd (ac_pending ac) = q # qs" using ne by (cases "ac_pending ac") auto
    have "decision_ok da allocatable (used + reserved_bytes ac) ac (refusal (py_min_by request_order q qs) ''insufficient_actual_hbm'' 0) ac"
      using fair_groups_empty [OF True] reclaim_only_preferred [OF ok _ pref] by (simp add: decision_ok_def asked refusal_def)
    with decide_among_fair(1) [OF None True q] show thesis using that by blast
  next
    case False
    obtain av where av: "?fit = fitting_requests av (ac_pending ac)"
      "\<forall>r. estimated_incremental_bytes r \<le> av \<longrightarrow> request_fits da allocatable (used + reserved_bytes ac) r"
      by (rule fair_groups_cases [of da allocatable used ac])
    have fits: "rs \<noteq> [] \<and> (\<forall>r \<in> set rs. r \<in> snd ` set (ac_pending ac) \<and> request_fits da allocatable (used + reserved_bytes ac) r)"
      if "map_of ?fit w = Some rs" for w rs
      using fitting_spec(1) [OF that [unfolded av(1)]] av(2) by blast
    have keys: "fst ` set ?fit \<subseteq> fst ` set shares" unfolding shares av(1) by (rule subsetI) (rule fitting_workflow)
    obtain borrow where b: "decide_among g da allocatable used charges shares ac =
      decide_fair g (da_hbm_capacity_bytes da) charges shares (of_int allocatable * ac_max_borrow_fraction ac) borrow ?fit ac"
      using decide_among_fair(2) [OF None False] by blast
    obtain r why fs where r: "r \<in> snd ` set (ac_pending ac) \<and> request_fits da allocatable (used + reserved_bytes ac) r"
      and d: "decide_fair g (da_hbm_capacity_bytes da) charges shares (of_int allocatable * ac_max_borrow_fraction ac) borrow ?fit ac =
        (Inr (admitted r why 0), admission_reserve r (ac\<lparr>ac_fairness := fs\<rparr>))"
      by (rule decide_fair_sound [OF keys False fits g])
    show thesis by (rule that [OF trans [OF b d]]) (rule decision_ok_admitted, use asked r in simp_all)
  qed
qed

lemma reserve_books:
  assumes ok: "controller_ok ac" and r: "r \<in> snd ` set (ac_pending ac)" and b: "same_books ac b"
  shows "reserved_bytes (admission_reserve r b) = reserved_bytes ac + estimated_incremental_bytes r"
    and "map_of (ac_pending (admission_reserve r b)) = (map_of (ac_pending ac))(ar_request_id r := None)"
    and "map_of (ac_reserved (admission_reserve r b)) = (map_of (ac_reserved ac))(ar_request_id r \<mapsto> r)"
proof -
  have "map_of (ac_pending ac) (ar_request_id r) = Some r"
    by (rule requests_ok_mem) (use ok r in \<open>simp_all add: controller_ok_def\<close>)
  then have "ar_request_id r \<notin> fst ` set (ac_reserved ac)" using ok dict_key unfolding controller_ok_def by fast
  then show "reserved_bytes (admission_reserve r b) = reserved_bytes ac + estimated_incremental_bytes r"
    using b by (simp add: reserved_bytes_def admission_reserve_def same_books_def update_fresh)
  show "map_of (ac_pending (admission_reserve r b)) = (map_of (ac_pending ac))(ar_request_id r := None)"
    "map_of (ac_reserved (admission_reserve r b)) = (map_of (ac_reserved ac))(ar_request_id r \<mapsto> r)"
    using b by (simp_all add: admission_reserve_def same_books_def dict_simps)
qed

lemma asked_pending: "r \<in> asked_requests da ac \<Longrightarrow> r \<in> snd ` set (ac_pending ac)"
  by (auto simp: asked_requests_def split: option.splits dest!: map_of_SomeD intro: rev_image_eqI)

lemma decide_next_ok:
  assumes ok: "controller_ok ac" and ix: "rtranclp ixq_step page_index_init (ac_page_index ac)" and g: "reachable d rt g"
    and ne: "ac_pending ac \<noteq> []" and n: "\<forall>n. da_native_reclaim_capacity_bytes da = Some n \<longrightarrow> 0 \<le> n"
  obtains dn ac' where "decide_next g da ac = (Inr (Some dn), ac')"
    and "decision_ok da (max 0 (da_hbm_capacity_bytes da - ac_reserve_hbm_bytes ac))
      (used_bytes da (ac_page_index ac) + reserved_bytes ac) ac dn ac'"
proof -
  let ?al = "max 0 (da_hbm_capacity_bytes da - ac_reserve_hbm_bytes ac)" and ?used = "used_bytes da (ac_page_index ac)"
  have inv: "ixq_inv (ac_page_index ac)" by (rule ixq_reachable [OF ix])
  obtain b ix1 where b: "physical_kv_state_breakdown (ac_page_index ac) = Inr (b, ix1)"
    using breakdown_total inv unfolding ixq_inv_def by blast
  have "b = fst (calculate_physical_kv_state [] (ac_page_index ac))"
    using breakdown_fills(3) [OF b] inv unfolding ixq_inv_def by simp
  then have used: "max (kb_gpu_bytes b) (case da_actual_hbm_used_bytes da of Some n \<Rightarrow> n | None \<Rightarrow> 0) = ?used"
    by (simp add: used_bytes_def)
  let ?ws = "map (ar_workflow_id \<circ> snd) (ac_pending ac)"
  have "?ws \<noteq> []" using ne by simp
  then obtain fs where fs: "fair_memory_shares ?ws ?al (ac_fairness ac) =
      Inr (map (\<lambda>w. (w, of_int ?al / of_nat (card (set ?ws)))) (py_sorted_set ?ws), fs)" (is "_ = Inr (?shares, _)")
    by (rule fair_memory_shares_equal)
  have keys: "fst ` set ?shares = ar_workflow_id ` snd ` set (ac_pending ac)" by (simp add: image_image)
  let ?ix = "snd (workflow_gpu_charges ix1)"
  let ?ac = "ac\<lparr>ac_page_index := ?ix, ac_fairness := fs\<rparr>"
  let ?ch = "add_external (case da_external_workflow_charges da of Some d \<Rightarrow> d | None \<Rightarrow> []) (fst (workflow_gpu_charges ix1))"
  have shape: "shape_ok (graph_shape g)" using reachable_ok [OF g] by (simp add: graph_ok_def)
  have same: "same_books ?ac x = same_books ac x" "reserved_bytes ?ac = reserved_bytes ac" "asked_requests da ?ac = asked_requests da ac" for x
    by (simp_all add: reserved_bytes_def asked_requests_def split: option.split)
  have "controller_ok ?ac" using ok by (simp add: controller_ok_def)
  moreover have "ac_pending ?ac \<noteq> []" using ne by simp
  moreover have "fst ` set ?shares = ar_workflow_id ` snd ` set (ac_pending ?ac)" using keys by simp
  ultimately obtain dn ac' where dn: "decide_among g da ?al ?used ?ch ?shares ?ac = (Inr dn, ac')"
    "decision_ok da ?al (?used + reserved_bytes ?ac) ?ac dn ac'"
    by (rule decide_among_ok [OF _ _ _ shape reachable_keys [OF g]])
  have "decide_next g da ac = (Inr (Some dn), ac')"
    using ne n b used fs dn(1)
    by (simp add: decide_next_def index_gpu_bytes_def case_prod_unfold Let_def not_less split: option.splits)
  moreover have "decision_ok da ?al (?used + reserved_bytes ac) ac dn ac'" using dn(2) unfolding decision_ok_def same .
  ultimately show thesis by (rule that)
qed

text \<open>C14. Admission decisions are sound. Take any state of the controller reached by its operations and by changes of
  the page index and the fair scheduler, a page index that updates and queries can reach, and a causal graph
  that events can reach. With requests pending and a non-negative reclaim capacity a decision is returned.
  An admission moves one of the requests asked for from the pending to the reserved ones and reserves exactly its
  estimate; with it, what is used and reserved fits into the allocatable memory, or into the whole memory when
  borrowing the reserve is allowed, or the request needs no memory, or it is the preferred one and the engine can
  reclaim more than it needs. A refusal changes no book, and none of the requests asked for satisfies one of
  these conditions: no admissible request is ever refused.\<close>

theorem admission_decision_sound:
  assumes "admission_init ix0 fs0 reserve borrow = Inr ac0" and "admission_step\<^sup>*\<^sup>* ac0 ac"
    and "rtranclp ixq_step page_index_init (ac_page_index ac)" and "reachable d rt g"
    and "ac_pending ac \<noteq> []" and "\<forall>n. da_native_reclaim_capacity_bytes da = Some n \<longrightarrow> 0 \<le> n"
  shows "\<exists>dn ac'. decide_next g da ac = (Inr (Some dn), ac') \<and>
    (let allocatable = max 0 (da_hbm_capacity_bytes da - ac_reserve_hbm_bytes ac);
         taken = used_bytes da (ac_page_index ac) + reserved_bytes ac;
         admissible = (\<lambda>r. request_fits da allocatable taken r \<or> reclaim_suffices da r)
     in if ad_admitted dn
        then \<exists>r \<in> asked_requests da ac. ad_request_id dn = ar_request_id r \<and> admissible r \<and>
               ad_reserved_bytes dn = estimated_incremental_bytes r \<and>
               reserved_bytes ac' = reserved_bytes ac + estimated_incremental_bytes r \<and>
               map_of (ac_pending ac') = (map_of (ac_pending ac))(ar_request_id r := None) \<and>
               map_of (ac_reserved ac') = (map_of (ac_reserved ac))(ar_request_id r \<mapsto> r)
        else ac_pending ac' = ac_pending ac \<and> ac_reserved ac' = ac_reserved ac \<and>
             (\<forall>r \<in> asked_requests da ac. \<not> admissible r))"
proof -
  let ?al = "max 0 (da_hbm_capacity_bytes da - ac_reserve_hbm_bytes ac)"
  let ?taken = "used_bytes da (ac_page_index ac) + reserved_bytes ac"
  have ok: "controller_ok ac" by (rule admission.run_inv [OF assms(2) admission_init_ok [OF assms(1)]])
  obtain dn ac' where dn: "decide_next g da ac = (Inr (Some dn), ac')" "decision_ok da ?al ?taken ac dn ac'"
    by (rule decide_next_ok [OF ok assms(3-6)])
  show ?thesis
  proof (cases "ad_admitted dn")
    case True
    with dn(2) obtain r why n b where r: "r \<in> asked_requests da ac" "dn = admitted r why n" "same_books ac b"
      "ac' = admission_reserve r b" "request_fits da ?al ?taken r \<or> reclaim_suffices da r"
      unfolding decision_ok_def by (simp only: if_True) blast
    note books = reserve_books [OF ok asked_pending [OF r(1)] r(3)]
    have "ad_request_id dn = ar_request_id r" "ad_reserved_bytes dn = estimated_incremental_bytes r"
      by (simp_all add: r(2) admitted_def)
    with dn(1) r(1,4,5) books True show ?thesis unfolding Let_def by (intro exI [of _ dn] exI [of _ ac']) auto
  next
    case False
    with dn show ?thesis unfolding Let_def decision_ok_def same_books_def by (intro exI [of _ dn] exI [of _ ac']) simp
  qed
qed

section \<open>Two decisions\<close>

text \<open>A request of 80 bytes while 96 bytes are in use and 10 are kept back: admitted with 200 bytes of memory, refused
  with 150.\<close>

definition gate_request :: admission_request where
  "gate_request = \<lparr>ar_request_id = ''r'', ar_workflow_id = ''w'', ar_invocation_id = ''c'', ar_context_id = ''x'',
     ar_context_epoch = 0, ar_submitted_ts_ms = 0, ar_uncached_prompt_tokens = 6, ar_expected_output_tokens = 2,
     ar_kv_bytes_per_token = 10, ar_fixed_overhead_bytes = 0, ar_prompt_tokens = None\<rparr>"

definition gate_empty :: admission_controller where
  "gate_empty = \<lparr>ac_page_index = page_index_init, ac_fairness = fair_init 0, ac_reserve_hbm_bytes = 10,
     ac_max_borrow_fraction = 1 / 4, ac_pending = [], ac_reserved = [], ac_revision = 0\<rparr>"

definition gate_controller :: admission_controller where
  "gate_controller = snd (admission_enqueue gate_request gate_empty)"

definition gate_args :: "int \<Rightarrow> decide_args" where
  "gate_args hbm = \<lparr>da_hbm_capacity_bytes = hbm, da_actual_hbm_used_bytes = Some 96, da_external_workflow_charges = None,
     da_allow_reserve_borrow = False, da_preferred_request_id = None, da_native_reclaim_capacity_bytes = None\<rparr>"

lemma gate_init: "admission_init page_index_init (fair_init 0) 10 (1 / 4) = Inr gate_empty"
  by (simp add: admission_init_def gate_empty_def)

lemma gate_reached: "admission_step\<^sup>*\<^sup>* gate_empty gate_controller"
  by (rule r_into_rtranclp, rule admission_step.enqueue [of gate_request _ "fst (admission_enqueue gate_request gate_empty)"])
    (simp add: gate_controller_def)

lemma gate_fields:
  "ac_pending gate_controller = [(''r'', gate_request)]" "ac_reserved gate_controller = []"
  "ac_page_index gate_controller = page_index_init" "ac_reserve_hbm_bytes gate_controller = 10"
  by (simp_all add: gate_controller_def gate_empty_def admission_enqueue_def gate_request_def dict_in_def fair_register_def fair_init_def)

lemma gate_used: "used_bytes (gate_args hbm) page_index_init + reserved_bytes gate_controller = 96"
  by (simp add: used_bytes_def gate_args_def calculate_physical_kv_state_def page_index_init_def reserved_bytes_def gate_fields
      closure_fold_def closure_pages_def live_pages_def closure_init_def kv_breakdown_zero_def)

lemma gate_fits:
  "request_fits (gate_args 200) 190 96 gate_request" "\<not> request_fits (gate_args 150) 140 96 gate_request" "\<not> reclaim_suffices (gate_args hbm) gate_request"
  by (auto simp: request_fits_def gate_args_def estimated_incremental_bytes_def gate_request_def reclaim_suffices_def)

theorem admission_decision_sound_witness:
  "(\<exists>dn ac'. decide_next demo_graph (gate_args 200) gate_controller = (Inr (Some dn), ac') \<and> ad_admitted dn \<and> reserved_bytes ac' = 80) \<and>
   (\<exists>dn ac'. decide_next demo_graph (gate_args 150) gate_controller = (Inr (Some dn), ac') \<and> \<not> ad_admitted dn \<and> ac_reserved ac' = [])"
proof -
  have ix: "rtranclp ixq_step page_index_init (ac_page_index gate_controller)" by (simp add: gate_fields)
  have ne: "ac_pending gate_controller \<noteq> []" by (simp add: gate_fields)
  have n: "\<forall>n. da_native_reclaim_capacity_bytes (gate_args hbm) = Some n \<longrightarrow> 0 \<le> n" for hbm by (simp add: gate_args_def)
  have asked: "asked_requests (gate_args hbm) gate_controller = {gate_request}" for hbm
    by (simp add: asked_requests_def gate_args_def gate_fields)
  have hbm: "da_hbm_capacity_bytes (gate_args h) = h" for h by (simp add: gate_args_def)
  have bytes: "reserved_bytes gate_controller = 0" "estimated_incremental_bytes gate_request = 80"
    by (simp_all add: reserved_bytes_def gate_fields estimated_incremental_bytes_def gate_request_def)
  note sound = admission_decision_sound [OF gate_init gate_reached ix demo_graph_reachable ne n,
      unfolded Let_def gate_fields(3,4) gate_used asked hbm]
  from sound [of 200] obtain dn ac' where "decide_next demo_graph (gate_args 200) gate_controller = (Inr (Some dn), ac')"
    "ad_admitted dn" "reserved_bytes ac' = 80" by (auto simp: bytes gate_fits split: if_splits)
  moreover from sound [of 150] obtain dm ad' where "decide_next demo_graph (gate_args 150) gate_controller = (Inr (Some dm), ad')"
    "\<not> ad_admitted dm" "ac_reserved ad' = []" by (auto simp: gate_fields gate_fits split: if_splits)
  ultimately show ?thesis by blast
qed

end
