(* ===== verification/Spec2Isabelle.thy ===== *)
theory Spec2Isabelle
  imports Command_Queue Page_Closure Page_Mirror Restore_Obligation_Inv Causal_Graph_Cases
    Residency Workflow_Fairness Causal_Frontier Data_Consumers Arbiter_Safety
    Lock_Attribution Retraction_Safety Guard_Cases Graph_Snapshot Ticket_Safety
    Observed_Admission Admission_Safety
begin

text \<open>
  BeliefKV: a verification library of the control plane's core.

  BeliefKV sits beside an LLM inference engine and decides which parts of the key/value cache of
  agent workflows stay on the GPU. Adapters of agent frameworks emit runtime events; the causal
  graph turns them into the state of workflows, invocations, contexts and joins. The page
  ownership index mirrors the engine's pages, their Radix topology and which context owns them,
  and accounts for what can be migrated. Policies turn both into control commands, which wait in
  a priority queue until the adapter executes them; a context whose cache was evicted is owed a
  restoration, tracked by obligations, leases and graces.

  \<^bold>\<open>Theories and sources\<close> (paths under \<open>src/beliefkv/\<close>)

  \<^item> \<open>Prelude\<close>, \<open>Py_Data\<close>: exceptions as values of a sum type, Python dictionaries as association
    lists with distinct keys in insertion order, string and number conversions, and the locales
    \<open>invariant_machine\<close> and \<open>monotone_machine\<close> that every step relation below interprets.
  \<^item> \<open>Protocol\<close> (\<open>runtime/protocol.py\<close>): page handles, commands, acknowledgements and their
    validation. \<open>Command_Queue\<close> (\<open>runtime/command_queue.py\<close>): the two-class priority queue with
    lazy cancellation; unless an identifier is submitted again while its cancelled entry is still
    queued, draining delivers exactly the pending commands in their listed order.
  \<^item> \<open>Page_Index\<close> (\<open>runtime/page_index.py\<close>): records and every state-changing operation.
    \<open>Page_Index_Inv\<close>: the step relation \<open>ix_step\<close> (successful calls, except three that the code accepts
    and callers must avoid, see below), the consistency invariant (ownership both ways,
    parent and child edges, acyclic Radix tree, generations), that freed handles stay dead and
    that in-flight pages are protected. \<open>Page_Closure\<close>: the closure-aware byte accounting, its
    revision-keyed cache (never stale), the what-if preview of lock releases (equals the real
    release) and the charges of workflows (conserved). \<open>Page_Replica\<close>: the change journal's readers
    and the worker replicas. \<open>Page_Journal\<close>: every operation writes entries that cover what it
    changed. \<open>Page_Mirror\<close>: a mirror brought up to date by deltas refines the index.
  \<^item> \<open>Restore_Obligation\<close> (\<open>runtime/restore_obligation.py\<close>): obligations, leases, graces, both bounded
    indexes, the transaction aggregate and the revision tracker. \<open>Restore_Obligation_Inv\<close>: life
    cycles as step relations, capacity bounds proved once in the locale \<open>bounded_table\<close> and
    interpreted for both indexes, finality of terminal states, release of graces.
  \<^item> \<open>Events\<close> (\<open>core/events.py\<close>, \<open>core/ids.py\<close>): the event record, its validation and its wire format
    (round trip). \<open>Causal_Graph\<close> (\<open>control/causal_graph.py\<close>): records, the 22 event handlers, applying
    events and atomic batches, and the queries. \<open>Causal_Graph_Inv\<close>: an abstract relation of
    elementary changes and its three invariants (shape, waiting, liveness). \<open>Causal_Graph_Run\<close>:
    every handler refines that relation, and the properties of runs of events.
    \<open>Causal_Graph_Cases\<close>: an evaluated run, the witnesses, and two behaviours the
    protocol does not intend, characterised on all reachable graphs: a terminal invocation revived by a
    join wait, and a waiter woken by a join it no longer waits for. \<open>Graph_Snapshot\<close>: the graph's JSON-compatible snapshot and its reader
    (round trip on reachable graphs).
  \<^item> \<open>Residency\<close> (\<open>policy/leases.py\<close>, \<open>policy/residency.py\<close>): what the cache of a context is worth. The two
    readings agree, and releasing dead contexts is safe on the page index. \<open>Causal_Frontier\<close>
    (\<open>policy/causal_frontier.py\<close>): ranking ready invocations; its walks end on reachable graphs.
    \<open>Workflow_Fairness\<close> (\<open>policy/workflow_fairness.py\<close>): the fair queue, equal to a sort.
    \<open>Data_Consumers\<close> (\<open>control/data_consumers.py\<close>): the index of observed consumers, fed with the
    events of the graph.
  \<^item> \<open>Bundles\<close> (\<open>runtime/bundles.py\<close>): closure-complete transfer candidates. \<open>Action_Lifecycle\<close>
    (the page actions of \<open>control/controller.py\<close>): starting and finishing an action on the page index; actions on
    different pages do not disturb each other. \<open>Bundle_Safety\<close>: an eligible bundle can be executed as it stands. \<open>Radix_Arbiter\<close> (\<open>runtime/radix_arbiter.py\<close>): the resolution of a
    queued command into page actions. \<open>Arbiter_Safety\<close>: it always returns, what it
    returns can be carried out on the page index (except dropping a page registered in flight without a transfer), offloads take leaves first and prefetches roots first, within the byte limit.
  \<^item> \<open>Lock_Service\<close> (\<open>runtime/lock_service.py\<close>): which requests hold the engine's locks, what removing some
    would unlock, and the ledger of completed GPU service. \<open>Lock_Attribution\<close>: an exact tentative unlock
    equals the real release on the page index, and the diagnostics partition what is locked.
    \<open>Retraction\<close> (\<open>policy/retraction.py\<close>): the greedy choice of running requests to retract.
    \<open>Retraction_Safety\<close>: plans are sound and refusals for lack of capacity are justified.
  \<^item> \<open>Transfer_Guard\<close> (\<open>policy/transfer_guard.py\<close>): which rejected transfers may be tried again. \<open>Guard_Safety\<close>:
    its books, quiet runs (no retry storm), backoff and capacity waits. \<open>Guard_Cases\<close>: a key determines the
    pages and owners it stands for, and a rejection without blockers, which the arbiter produces, raises.
  \<^item> \<open>Admission\<close> (\<open>policy/admission.py\<close>): admission requests, the index of visible requests with its
    versions, tickets and the ticket compiler. \<open>Ticket_Safety\<close>: a ticket is valid exactly while its entry is
    unchanged, and the compiler is greedy within its budgets. \<open>Observed_Admission\<close>: the scheduler that orders
    waiting requests and bounds the growth of the active set. \<open>Admission_Control\<close>: the controller that admits
    requests and reserves their bytes, over the page index, the fair scheduler and the causal frontier.
    \<open>Admission_Safety\<close>: it always decides, an admission fits, and no admissible request is refused.

  \<^bold>\<open>Modelling\<close>

  Objects that Python shares by reference are looked up by their key; a method that mutates and
  then raises returns the mutated state together with the error. Floating point numbers are
  reals, integers are unbounded as in Python. Loops over Python sets, whose order is
  unspecified, are order-independent set operations or visit the elements in ascending order.
  No fuel is used. Walks over parent pointers and over the descendants terminate because each turn
  sees a stored key for the first time; the climb of the causal frontier, which has no such guard, is a
  \<open>partial_function\<close>, shown to return on every reachable graph, and the climbs of the bundle planner and the arbiter report
  a page met twice as the outcome \<open>NonTermination\<close>, shown not to occur on reachable indexes. The
  journal of the page
  index is bounded by 65536 entries as in the source. What the interpreter prints for floats and
  containers, and how it parses a float, are parameters (\<open>py_runtime\<close>), as is the BLAKE2b
  digest of a printed value (\<open>digest\<close>) and the format \<open>%g\<close> of a float (\<open>format_g\<close>).

  \<^bold>\<open>Assumptions about callers\<close>

  The runs of the page index leave out three calls that succeed in the code: registering again, with a
  newer epoch, a context that owns pages (it provably breaks the index's own check), registering a
  page as \<open>DEAD\<close>, and reporting through \<open>update_runtime_state\<close> that a page is dead or that a page in transfer
  changed its residency. The runs of the command queue leave out submissions under an identifier whose
  cancelled entry is still queued (the queue then delivers the wrong command). The runs of the causal graph
  leave out nothing; the liveness of what is waited for needs the discipline stated with it.

  Where the code computes with floats, the theorems speak of the exact real value: the windows of the observed
  scheduler take \<open>int\<close> of a product that the code rounds to a float first, and memory shares are quotients that the
  code rounds, so each is off by a rounding error and sums of shares need not be exact.

  \<^bold>\<open>Not modelled\<close>

  The engine adapters (they patch a third-party engine), the adapters of agent frameworks,
  servers and files (input and output), the controller's tick beyond its page actions, the predictors and the numerical planners built on them
  (floating point statistics), simulators, experiments, metrics and traces. Of the modelled
  files the serialisation methods \<open>to_dict\<close> of restore records are left out.
\<close>

end
